(* ===== verification/Prelude.thy ===== *)
theory Prelude
  imports Main "HOL-Library.Char_ord" "HOL-Library.List_Lexorder"
begin

section \<open>Shared vocabulary of the development\<close>

text \<open>
  Results of fallible Go functions, loops that stop at the first error, and the list facts the
  components share.  A Go function returning \<open>(T, error)\<close> is a value of \<open>'a res\<close>: \<open>Inl\<close> carries
  the text of the error, \<open>Inr\<close> the value.  Go pointers to values that are only read and copied
  are options.
\<close>

type_synonym 'a res = "string + 'a"

named_theorems res_simps \<open>inversion of successful results\<close>

definition bind_res :: "'e + 'a \<Rightarrow> ('a \<Rightarrow> 'e + 'b) \<Rightarrow> 'e + 'b" where
  "bind_res m f = (case m of Inl e \<Rightarrow> Inl e | Inr x \<Rightarrow> f x)"

lemma bind_res_simps [simp]:
  "bind_res (Inl e) f = Inl e"
  "bind_res (Inr x) f = f x"
  by (simp_all add: bind_res_def)

lemma bind_res_Inr [res_simps]:
  "bind_res m f = Inr y \<longleftrightarrow> (\<exists>x. m = Inr x \<and> f x = Inr y)"
  by (cases m) auto

lemma bind_res_Inl [res_simps]:
  "bind_res m f = Inl e \<longleftrightarrow> m = Inl e \<or> (\<exists>x. m = Inr x \<and> f x = Inl e)"
  by (cases m) auto

lemma bind_res_cong [fundef_cong]:
  "\<lbrakk> m = m'; \<And>x. m' = Inr x \<Longrightarrow> f x = g x \<rbrakk> \<Longrightarrow> bind_res m f = bind_res m' g"
  by (cases m') auto

text \<open>An early return guarded by a condition.\<close>

definition fail_if :: "bool \<Rightarrow> 'e \<Rightarrow> 'e + unit" where
  "fail_if b e = (if b then Inl e else Inr ())"

lemma fail_if_Inr [simp]: "fail_if b e = Inr u \<longleftrightarrow> \<not> b"
  by (simp add: fail_if_def)

lemma fail_if_Inl [simp]: "fail_if b e = Inl e' \<longleftrightarrow> b \<and> e' = e"
  by (auto simp: fail_if_def)

lemma fail_if_False [simp]: "fail_if False e = Inr ()"
  by (simp add: fail_if_def)

lemma fail_if_True [simp]: "fail_if True e = Inl e"
  by (simp add: fail_if_def)

text \<open>A loop that appends one result per element and returns at the first error.\<close>

fun map_res :: "('a \<Rightarrow> 'e + 'b) \<Rightarrow> 'a list \<Rightarrow> 'e + 'b list" where
  "map_res f [] = Inr []"
| "map_res f (x # xs) = bind_res (f x) (\<lambda>y. bind_res (map_res f xs) (\<lambda>ys. Inr (y # ys)))"

lemma map_res_Inr: "map_res f xs = Inr ys \<longleftrightarrow> list_all2 (\<lambda>x y. f x = Inr y) xs ys"
proof (induction xs arbitrary: ys)
  case Nil
  then show ?case by auto
next
  case (Cons x xs)
  show ?case by (cases ys) (auto simp: res_simps Cons.IH)
qed

lemma map_res_cong [fundef_cong]:
  "\<lbrakk> xs = ys; \<And>x. x \<in> set ys \<Longrightarrow> f x = g x \<rbrakk> \<Longrightarrow> map_res f xs = map_res g ys"
proof (induction ys arbitrary: xs)
  case Nil
  then show ?case by simp
next
  case (Cons y ys)
  then show ?case by simp
qed

lemma map_res_all_Inr: "(\<And>x. x \<in> set xs \<Longrightarrow> f x = Inr (g x)) \<Longrightarrow> map_res f xs = Inr (map g xs)"
  by (induction xs) auto

text \<open>A loop that threads a state and returns at the first error.\<close>

fun fold_res :: "('a \<Rightarrow> 's \<Rightarrow> 'e + 's) \<Rightarrow> 'a list \<Rightarrow> 's \<Rightarrow> 'e + 's" where
  "fold_res f [] s = Inr s"
| "fold_res f (x # xs) s = bind_res (f x s) (fold_res f xs)"

lemma fold_res_invariant:
  assumes "fold_res f xs s = Inr s'" and "P s"
    and "\<And>x t t'. \<lbrakk> x \<in> set xs; P t; f x t = Inr t' \<rbrakk> \<Longrightarrow> P t'"
  shows "P s'"
  using assms by (induction xs arbitrary: s) (auto simp: res_simps)

lemma fold_res_append [simp]:
  "fold_res f (xs @ ys) s = bind_res (fold_res f xs s) (fold_res f ys)"
proof (induction xs arbitrary: s)
  case Nil
  then show ?case by simp
next
  case (Cons x xs)
  then show ?case by (cases "f x s") auto
qed

subsection \<open>What a successful result ensures\<close>

text \<open>
  \<open>ensures m P\<close>: if \<open>m\<close> succeeds, its value satisfies \<open>P\<close>.  The rules follow the control structure of the
  translated functions, so that a property of every successful path is proved path by path.
\<close>

named_theorems ensures_intros \<open>one rule per control structure\<close>

definition ensures :: "'e + 'a \<Rightarrow> ('a \<Rightarrow> bool) \<Rightarrow> bool" where
  "ensures m P \<longleftrightarrow> (\<forall>x. m = Inr x \<longrightarrow> P x)"

lemma ensuresD: "ensures m P \<Longrightarrow> m = Inr x \<Longrightarrow> P x"
  by (simp add: ensures_def)

lemma ensuresI: "(\<And>x. m = Inr x \<Longrightarrow> P x) \<Longrightarrow> ensures m P"
  by (simp add: ensures_def)

lemma ensures_Inl [ensures_intros]: "ensures (Inl e) P"
  by (simp add: ensures_def)

lemma ensures_Inr [ensures_intros]: "P x \<Longrightarrow> ensures (Inr x) P"
  by (simp add: ensures_def)

lemma ensures_if [ensures_intros]:
  "(b \<Longrightarrow> ensures x P) \<Longrightarrow> (\<not> b \<Longrightarrow> ensures y P) \<Longrightarrow> ensures (if b then x else y) P"
  by simp

lemma ensures_bind [ensures_intros]:
  "(\<And>x. m = Inr x \<Longrightarrow> ensures (f x) P) \<Longrightarrow> ensures (bind_res m f) P"
  by (cases m) (auto simp: ensures_def)

lemma ensures_option [ensures_intros]:
  "(m = None \<Longrightarrow> ensures a P) \<Longrightarrow> (\<And>x. m = Some x \<Longrightarrow> ensures (f x) P) \<Longrightarrow>
   ensures (case m of None \<Rightarrow> a | Some x \<Rightarrow> f x) P"
  by (cases m) simp_all

lemma ensures_sum [ensures_intros]:
  "(\<And>e. m = Inl e \<Longrightarrow> ensures (g e) P) \<Longrightarrow> (\<And>x. m = Inr x \<Longrightarrow> ensures (f x) P) \<Longrightarrow>
   ensures (case m of Inl e \<Rightarrow> g e | Inr x \<Rightarrow> f x) P"
  by (cases m) simp_all

lemma ensures_list [ensures_intros]:
  "(m = [] \<Longrightarrow> ensures a P) \<Longrightarrow> (\<And>x xs. m = x # xs \<Longrightarrow> ensures (f x xs) P) \<Longrightarrow>
   ensures (case m of [] \<Rightarrow> a | x # xs \<Rightarrow> f x xs) P"
  by (cases m) simp_all

lemma ensures_prod [ensures_intros]:
  "(\<And>a b. m = (a, b) \<Longrightarrow> ensures (f a b) P) \<Longrightarrow> ensures (case m of (a, b) \<Rightarrow> f a b) P"
  by (cases m) simp

lemma ensures_let [ensures_intros]: "(\<And>x. x = t \<Longrightarrow> ensures (f x) P) \<Longrightarrow> ensures (let x = t in f x) P"
  by simp

lemma ensures_conj: "ensures m P \<Longrightarrow> ensures m Q \<Longrightarrow> ensures m (\<lambda>x. P x \<and> Q x)"
  by (simp add: ensures_def)

lemma ensures_mono: "ensures m P \<Longrightarrow> (\<And>x. m = Inr x \<Longrightarrow> P x \<Longrightarrow> Q x) \<Longrightarrow> ensures m Q"
  by (simp add: ensures_def)

subsection \<open>Tables\<close>

text \<open>
  A SQL table is the list of its rows.  An \<open>UPDATE ... WHERE\<close> rewrites the matching rows and
  reports how many there were.
\<close>

definition update_where :: "('a \<Rightarrow> bool) \<Rightarrow> ('a \<Rightarrow> 'a) \<Rightarrow> 'a list \<Rightarrow> 'a list" where
  "update_where p f rows = map (\<lambda>r. if p r then f r else r) rows"

definition count_where :: "('a \<Rightarrow> bool) \<Rightarrow> 'a list \<Rightarrow> nat" where
  "count_where p rows = length (filter p rows)"

lemma length_update_where [simp]: "length (update_where p f rows) = length rows"
  by (simp add: update_where_def)

lemma in_set_update_where:
  "r \<in> set (update_where p f rows) \<longleftrightarrow>
   (\<exists>x \<in> set rows. r = (if p x then f x else x))"
  by (auto simp: update_where_def)

lemma map_update_where:
  "(\<And>r. p r \<Longrightarrow> g (f r) = g r) \<Longrightarrow> map g (update_where p f rows) = map g rows"
  by (induction rows) (auto simp: update_where_def)

lemma count_where_0 [simp]: "count_where p rows = 0 \<longleftrightarrow> (\<forall>r \<in> set rows. \<not> p r)"
  by (auto simp: count_where_def filter_empty_conv)

lemma count_where_append [simp]: "count_where p (xs @ ys) = count_where p xs + count_where p ys"
  by (simp add: count_where_def)

lemma count_where_Cons:
  "count_where p (x # xs) = (if p x then Suc (count_where p xs) else count_where p xs)"
  by (simp add: count_where_def)

lemma count_where_Nil [simp]: "count_where p [] = 0"
  by (simp add: count_where_def)

lemma count_where_mono:
  "(\<And>r. r \<in> set rows \<Longrightarrow> p r \<Longrightarrow> q r) \<Longrightarrow> count_where p rows \<le> count_where q rows"
  by (induction rows) (auto simp: count_where_Cons)

lemma count_where_key:
  assumes "distinct (map k rows)"
  shows "count_where (\<lambda>r. k r = v \<and> p r) rows \<le> 1"
proof -
  have "count_where (\<lambda>r. k r = v \<and> p r) rows \<le> count_where (\<lambda>r. k r = v) rows"
    by (rule count_where_mono) simp
  also have "\<dots> \<le> 1" using assms
  proof (induction rows)
    case Nil
    then show ?case by simp
  next
    case (Cons r rows)
    then show ?case
      by (cases "k r = v") (auto simp: count_where_Cons image_iff)
  qed
  finally show ?thesis .
qed

lemma find_Some_iff': "List.find p xs = Some x \<Longrightarrow> x \<in> set xs \<and> p x"
  by (auto simp: find_Some_iff)

lemma find_key_unique:
  "\<lbrakk> distinct (map k xs); x \<in> set xs; k x = v \<rbrakk> \<Longrightarrow> List.find (\<lambda>r. k r = v) xs = Some x"
  by (induction xs) (auto simp: image_iff)

end
