(* ===== verification/GoText.thy ===== *)
theory GoText
  imports Prelude
begin

section \<open>Strings, numbers and dates of the Go standard library\<close>

text \<open>
  A Go string is a sequence of bytes, here a \<open>string\<close> whose characters are its bytes.  This theory
  models what the source uses of \<^verbatim>\<open>unicode/utf8\<close>, \<^verbatim>\<open>unicode\<close>, \<^verbatim>\<open>strings\<close>, \<^verbatim>\<open>strconv\<close> and \<^verbatim>\<open>time\<close>: the
  decoding of UTF-8 into runes, white space, decimal integers and ISO calendar dates.
\<close>

named_theorems text_eval \<open>definitions that evaluate on literal texts\<close>

definition byte_of :: "char \<Rightarrow> nat" where
  "byte_of c = of_char c"

lemma byte_of_less [simp]: "byte_of c < 256"
  by (simp add: byte_of_def)

lemma byte_of_eq_iff [simp]: "byte_of c = byte_of d \<longleftrightarrow> c = d"
  by (simp add: byte_of_def)

subsection \<open>UTF-8\<close>

text \<open>
  Decoding follows the acceptance ranges of \<^verbatim>\<open>utf8.ValidString\<close>: no overlong form, no surrogate, no
  rune above U+10FFFF.
\<close>

definition cont_byte :: "nat \<Rightarrow> bool" where
  "cont_byte b \<longleftrightarrow> 128 \<le> b \<and> b \<le> 191"

fun utf8_runes :: "nat list \<Rightarrow> nat list option" where
  "utf8_runes [] = Some []"
| "utf8_runes (a # bs) =
     (if a < 128 then map_option ((#) a) (utf8_runes bs)
      else if 194 \<le> a \<and> a \<le> 223 then
        (case bs of b # rest \<Rightarrow>
           if cont_byte b then map_option ((#) ((a - 192) * 64 + (b - 128))) (utf8_runes rest) else None
         | _ \<Rightarrow> None)
      else if 224 \<le> a \<and> a \<le> 239 then
        (case bs of b # c # rest \<Rightarrow>
           if (if a = 224 then 160 else 128) \<le> b \<and> b \<le> (if a = 237 then 159 else 191) \<and> cont_byte c
           then map_option ((#) ((a - 224) * 4096 + (b - 128) * 64 + (c - 128))) (utf8_runes rest)
           else None
         | _ \<Rightarrow> None)
      else if 240 \<le> a \<and> a \<le> 244 then
        (case bs of b # c # d # rest \<Rightarrow>
           if (if a = 240 then 144 else 128) \<le> b \<and> b \<le> (if a = 244 then 143 else 191)
              \<and> cont_byte c \<and> cont_byte d
           then map_option ((#) ((a - 240) * 262144 + (b - 128) * 4096 + (c - 128) * 64 + (d - 128)))
                  (utf8_runes rest)
           else None
         | _ \<Rightarrow> None)
      else None)"

definition runes_of :: "string \<Rightarrow> nat list option" where
  "runes_of s = utf8_runes (map byte_of s)"

lemma utf8_runes_ascii: "list_all (\<lambda>b. b < 128) bs \<Longrightarrow> utf8_runes bs = Some bs"
  by (induction bs) auto

text \<open>\<^verbatim>\<open>unicode.IsSpace\<close> and the runes \<^verbatim>\<open>strings.TrimSpace\<close> removes.\<close>

definition is_space :: "nat \<Rightarrow> bool" where
  "is_space r \<longleftrightarrow> r \<in> {9, 10, 11, 12, 13, 32, 133, 160, 5760, 8232, 8233, 8239, 8287, 12288}
     \<or> (8192 \<le> r \<and> r \<le> 8202)"

subsection \<open>Decimal integers\<close>

definition is_digit :: "char \<Rightarrow> bool" where
  "is_digit c \<longleftrightarrow> 48 \<le> byte_of c \<and> byte_of c \<le> 57"

definition digit_value :: "char \<Rightarrow> nat" where
  "digit_value c = byte_of c - 48"

definition digits_value :: "string \<Rightarrow> nat" where
  "digits_value s = foldl (\<lambda>a c. 10 * a + digit_value c) 0 s"

definition digit_char :: "nat \<Rightarrow> char" where
  "digit_char d = char_of (48 + d)"

fun format_nat :: "nat \<Rightarrow> string" where
  "format_nat n = (if n < 10 then [digit_char n] else format_nat (n div 10) @ [digit_char (n mod 10)])"

declare format_nat.simps [simp del]

definition format_int :: "int \<Rightarrow> string" where
  "format_int i = (if i < 0 then CHR ''-'' # format_nat (nat (- i)) else format_nat (nat i))"

text \<open>\<^verbatim>\<open>strconv.ParseInt(s, 10, bits)\<close>: \<open>None\<close> is a syntax or range error.\<close>

definition parse_int :: "nat \<Rightarrow> string \<Rightarrow> int option" where
  "parse_int bits s =
     (let neg = (s \<noteq> [] \<and> hd s = CHR ''-'');
          ds = (if s \<noteq> [] \<and> (hd s = CHR ''-'' \<or> hd s = CHR ''+'') then tl s else s);
          v = (if neg then - int (digits_value ds) else int (digits_value ds))
      in if ds = [] \<or> \<not> list_all is_digit ds then None
         else if - (2 ^ (bits - 1)) \<le> v \<and> v < 2 ^ (bits - 1) then Some v else None)"

lemma byte_of_digit_char [simp]: "d < 10 \<Longrightarrow> byte_of (digit_char d) = 48 + d"
  by (simp add: byte_of_def digit_char_def)

lemma is_digit_digit_char [simp]: "d < 10 \<Longrightarrow> is_digit (digit_char d)"
  by (simp add: is_digit_def)

lemma digit_value_digit_char [simp]: "d < 10 \<Longrightarrow> digit_value (digit_char d) = d"
  by (simp add: digit_value_def)

lemma digits_value_snoc [simp]: "digits_value (s @ [c]) = 10 * digits_value s + digit_value c"
  by (simp add: digits_value_def)

lemma format_nat_digits: "list_all is_digit (format_nat n)"
proof (induction n rule: format_nat.induct)
  case (1 n)
  then show ?case by (cases "n < 10") (simp_all add: format_nat.simps [of n])
qed

lemma format_nat_nonempty [simp]: "format_nat n \<noteq> []"
  by (subst format_nat.simps) simp

lemma digits_value_format_nat [simp]: "digits_value (format_nat n) = n"
proof (induction n rule: format_nat.induct)
  case (1 n)
  show ?case
  proof (cases "n < 10")
    case True
    then show ?thesis by (simp add: format_nat.simps [of n] digits_value_def)
  next
    case False
    with 1 show ?thesis by (simp add: format_nat.simps [of n])
  qed
qed

lemma hd_format_nat_digit: "is_digit (hd (format_nat n))"
  using format_nat_digits [of n] by (cases "format_nat n") auto

lemma sign_not_digit: "is_digit c \<Longrightarrow> c \<noteq> CHR ''-'' \<and> c \<noteq> CHR ''+''"
  by (auto simp: is_digit_def byte_of_def)

lemma hd_format_nat_sign [simp]:
  "hd (format_nat n) \<noteq> CHR ''-''" "hd (format_nat n) \<noteq> CHR ''+''"
  using sign_not_digit [OF hd_format_nat_digit] by blast+

lemma parse_format_int:
  assumes "- (2 ^ (bits - 1)) \<le> i" and "i < 2 ^ (bits - 1)"
  shows "parse_int bits (format_int i) = Some i"
  using assms format_nat_digits by (auto simp: parse_int_def format_int_def Let_def)

lemma bounded_by_power:
  fixes i j :: int
  obtains b :: nat where "- (2 ^ b) \<le> i" "i < 2 ^ b" "- (2 ^ b) \<le> j" "j < 2 ^ b"
proof -
  define b where "b = nat \<bar>i\<bar> + nat \<bar>j\<bar>"
  have "int b < int (2 ^ b)" by (simp only: of_nat_less_iff less_exp)
  then have sum: "\<bar>i\<bar> + \<bar>j\<bar> < 2 ^ b" by (simp add: b_def)
  have i: "\<bar>i\<bar> < 2 ^ b" by (rule le_less_trans [OF _ sum]) simp
  have j: "\<bar>j\<bar> < 2 ^ b" by (rule le_less_trans [OF _ sum]) simp
  show thesis
    by (rule that [of b]) (use i j in \<open>simp_all only: abs_less_iff minus_less_iff less_imp_le\<close>)
qed

lemma format_int_inject [simp]: "format_int i = format_int j \<longleftrightarrow> i = j"
proof
  assume eq: "format_int i = format_int j"
  obtain b :: nat where b: "- (2 ^ b) \<le> i" "i < 2 ^ b" "- (2 ^ b) \<le> j" "j < 2 ^ b"
    using bounded_by_power [of i j] .
  have "parse_int (Suc b) (format_int i) = Some i"
    by (rule parse_format_int) (simp_all only: diff_Suc_1 b)
  moreover have "parse_int (Suc b) (format_int j) = Some j"
    by (rule parse_format_int) (simp_all only: diff_Suc_1 b)
  ultimately have "Some i = Some j" by (simp only: eq)
  then show "i = j" by (simp only: option.inject)
qed simp

subsection \<open>ISO dates\<close>

definition leap_year :: "nat \<Rightarrow> bool" where
  "leap_year y \<longleftrightarrow> y mod 4 = 0 \<and> (y mod 100 \<noteq> 0 \<or> y mod 400 = 0)"

definition days_in :: "nat \<Rightarrow> nat \<Rightarrow> nat" where
  "days_in y m = (if m = 2 then (if leap_year y then 29 else 28)
                  else if m \<in> {4, 6, 9, 11} then 30 else 31)"

text \<open>The shape \<^verbatim>\<open>^[0-9]{4}-[0-9]{2}-[0-9]{2}$\<close>.\<close>

definition date_shape :: "string \<Rightarrow> bool" where
  "date_shape s \<longleftrightarrow> length s = 10 \<and> list_all is_digit (take 4 s) \<and> s ! 4 = CHR ''-''
     \<and> list_all is_digit (take 2 (drop 5 s)) \<and> s ! 7 = CHR ''-'' \<and> list_all is_digit (drop 8 s)"

text \<open>
  \<^verbatim>\<open>time.Parse("2006-01-02", s)\<close> on a text of that shape: the month is 1 to 12 and the day exists in
  the month.  Formatting the parsed date gives the same ten characters back, so the source's
  comparison with \<^verbatim>\<open>parsed.Format\<close> adds nothing to the shape check.
\<close>

definition calendar_date :: "string \<Rightarrow> bool" where
  "calendar_date s \<longleftrightarrow>
     (let y = digits_value (take 4 s); m = digits_value (take 2 (drop 5 s)); d = digits_value (drop 8 s)
      in 1 \<le> m \<and> m \<le> 12 \<and> 1 \<le> d \<and> d \<le> days_in y m)"

lemmas [text_eval] = byte_of_def cont_byte_def runes_of_def is_space_def is_digit_def digit_value_def
  digits_value_def digit_char_def format_nat.simps format_int_def parse_int_def leap_year_def
  days_in_def date_shape_def calendar_date_def char_of_def

end
