(* ===== verification/PacketModel.thy ===== *)
theory PacketModel
  imports GoText
begin

section \<open>Packet issuance: data model\<close>

text \<open>
  The structs of \<^verbatim>\<open>internal/packetissuance/model.go\<close>.  A pointer field is an option, a string map is
  a list of pairs with distinct keys.  \<open>cmd_raw\<close> is the canonical text of the command and
  \<open>op_canonical\<close> that of the operation (the unexported fields \<^verbatim>\<open>raw\<close> and \<^verbatim>\<open>canonical\<close>).
\<close>

definition max_safe_integer :: int where
  "max_safe_integer = 9007199254740991"

record person =
  per_id :: string
  per_first :: string
  per_last :: string
  per_birth :: string
  per_gender :: string
  per_team :: string
  per_city :: string

record registration =
  reg_id :: string
  reg_event :: string
  reg_race :: string
  reg_bib :: string
  reg_epc :: string
  reg_person :: "person option"
  reg_reserve :: bool
  reg_issued :: bool
  reg_status :: string
  reg_transferred :: "string option"
  reg_timing :: bool

record command =
  cmd_type :: string
  cmd_reg :: string
  cmd_bib :: string
  cmd_event :: string
  cmd_race :: string
  cmd_reason :: string
  cmd_value :: "bool option"
  cmd_fields :: "(string \<times> string) list"
  cmd_person :: "person option"
  cmd_return :: "bool option"
  cmd_issue :: "bool option"
  cmd_target :: string
  cmd_operation :: string
  cmd_inputs :: "string list"
  cmd_keep :: "string list"
  cmd_raw :: string

record base =
  base_reg :: string
  base_heads :: "string list"

record change =
  chg_reg :: string
  chg_before :: registration
  chg_after :: registration

record operation =
  op_schema :: int
  op_id :: string
  op_scope :: string
  op_baseline :: string
  op_origin :: string
  op_sequence :: int
  op_created :: int
  op_actor :: string
  op_command :: command
  op_bases :: "base list"
  op_changes :: "change list"
  op_note :: "string option"
  op_canonical :: string

record receipt =
  rcp_operation :: string
  rcp_hash :: string
  rcp_outcome :: string
  rcp_known :: bool
  rcp_code :: "string option"

record reserve_origin =
  org_reg :: string
  org_bib :: string
  org_epc :: string
  org_race :: string

record feed_change =
  fch_reg :: string
  fch_before :: "registration option"
  fch_after :: "registration option"

record feed_action =
  act_id :: string
  act_kind :: string
  act_sequence :: string
  act_recorded :: string
  act_source :: string
  act_outcome :: string
  act_code :: "string option"
  act_operation :: "operation option"
  act_changes :: "feed_change list"
  act_canonical :: string

record feed_cursor =
  cur_after :: string
  cur_next :: string
  cur_head :: string
  cur_more :: bool

record feed_page =
  page_schema :: int
  page_scope :: string
  page_cursor :: feed_cursor
  page_actions :: "feed_action list"

record bootstrap =
  boot_origins :: "reserve_origin list option"
  boot_schema :: int
  boot_scope :: string
  boot_source :: string
  boot_event :: "string \<times> string \<times> string"
  boot_races :: "(string \<times> string) list"
  boot_registrations :: "registration list"
  boot_baseline :: string
  boot_cursor :: string

text \<open>The zero values the source starts from.\<close>

definition zero_registration :: registration where
  "zero_registration = \<lparr> reg_id = [], reg_event = [], reg_race = [], reg_bib = [], reg_epc = [],
     reg_person = None, reg_reserve = False, reg_issued = False, reg_status = [],
     reg_transferred = None, reg_timing = False \<rparr>"

definition zero_command :: command where
  "zero_command = \<lparr> cmd_type = [], cmd_reg = [], cmd_bib = [], cmd_event = [], cmd_race = [],
     cmd_reason = [], cmd_value = None, cmd_fields = [], cmd_person = None, cmd_return = None,
     cmd_issue = None, cmd_target = [], cmd_operation = [], cmd_inputs = [], cmd_keep = [],
     cmd_raw = [] \<rparr>"

section \<open>Field checks\<close>

text \<open>
  The regular expressions and text checks of \<^verbatim>\<open>validation.go\<close>.  A pattern \<^verbatim>\<open>^[class]{1,n}$\<close> is a
  length bound and a test of every byte (in Go's RE2 \<^verbatim>\<open>$\<close> without the \<^verbatim>\<open>m\<close> flag is the end of the
  text).
\<close>

definition is_lower :: "char \<Rightarrow> bool" where
  "is_lower c \<longleftrightarrow> 97 \<le> byte_of c \<and> byte_of c \<le> 122"

definition is_upper :: "char \<Rightarrow> bool" where
  "is_upper c \<longleftrightarrow> 65 \<le> byte_of c \<and> byte_of c \<le> 90"

definition is_hex :: "char \<Rightarrow> bool" where
  "is_hex c \<longleftrightarrow> is_digit c \<or> (97 \<le> byte_of c \<and> byte_of c \<le> 102) \<or> (65 \<le> byte_of c \<and> byte_of c \<le> 70)"

definition identifier_pattern :: "string \<Rightarrow> bool" where
  "identifier_pattern s \<longleftrightarrow> 1 \<le> length s \<and> length s \<le> 128 \<and>
     list_all (\<lambda>c. is_lower c \<or> is_upper c \<or> is_digit c \<or> c \<in> set '':._-'') s"

definition uuid_pattern :: "string \<Rightarrow> bool" where
  "uuid_pattern s \<longleftrightarrow> length s = 36 \<and> s ! 8 = CHR ''-'' \<and> s ! 13 = CHR ''-'' \<and> s ! 18 = CHR ''-''
     \<and> s ! 23 = CHR ''-'' \<and> s ! 14 = CHR ''4'' \<and> s ! 19 \<in> set ''89abAB''
     \<and> list_all is_hex (take 8 s) \<and> list_all is_hex (take 4 (drop 9 s))
     \<and> list_all is_hex (take 4 (drop 14 s)) \<and> list_all is_hex (take 4 (drop 19 s))
     \<and> list_all is_hex (drop 24 s)"

definition source_code_pattern :: "string \<Rightarrow> bool" where
  "source_code_pattern s \<longleftrightarrow> (case s of [] \<Rightarrow> False
     | c # cs \<Rightarrow> is_lower c \<and> length cs \<le> 63 \<and>
                 list_all (\<lambda>c. is_lower c \<or> is_digit c \<or> c \<in> set ''_.-'') cs)"

definition canonical_cursor_pattern :: "string \<Rightarrow> bool" where
  "canonical_cursor_pattern s \<longleftrightarrow> s = ''0'' \<or>
     (s \<noteq> [] \<and> length s \<le> 20 \<and> hd s \<noteq> CHR ''0'' \<and> list_all is_digit s)"

definition forbidden_rune :: "nat \<Rightarrow> bool" where
  "forbidden_rune r \<longleftrightarrow> r \<le> 8 \<or> (14 \<le> r \<and> r \<le> 31) \<or> r = 127
     \<or> (8234 \<le> r \<and> r \<le> 8238) \<or> (8294 \<le> r \<and> r \<le> 8297)"

definition valid_text :: "string \<Rightarrow> nat \<Rightarrow> bool" where
  "valid_text s limit \<longleftrightarrow>
     (case runes_of s of None \<Rightarrow> False
      | Some rs \<Rightarrow> length s \<le> limit \<and> list_all (\<lambda>r. \<not> forbidden_rune r) rs)"

definition valid_reason :: "string \<Rightarrow> bool" where
  "valid_reason s \<longleftrightarrow> valid_text s 500 \<and>
     (case runes_of s of None \<Rightarrow> False | Some rs \<Rightarrow> list_ex (\<lambda>r. \<not> is_space r) rs)"

definition valid_date :: "string \<Rightarrow> bool" where
  "valid_date s \<longleftrightarrow> date_shape s \<and> calendar_date s"

definition valid_timestamp :: "string \<Rightarrow> bool" where
  "valid_timestamp s \<longleftrightarrow> length s = 24 \<and> date_shape (take 10 s) \<and> s ! 10 = CHR ''T''
     \<and> list_all is_digit (take 2 (drop 11 s)) \<and> s ! 13 = CHR '':''
     \<and> list_all is_digit (take 2 (drop 14 s)) \<and> s ! 16 = CHR '':''
     \<and> list_all is_digit (take 2 (drop 17 s)) \<and> s ! 19 = CHR ''.''
     \<and> list_all is_digit (take 3 (drop 20 s)) \<and> s ! 23 = CHR ''Z''
     \<and> calendar_date (take 10 s) \<and> digits_value (take 2 (drop 11 s)) < 24
     \<and> digits_value (take 2 (drop 14 s)) < 60 \<and> digits_value (take 2 (drop 17 s)) < 60"

definition person_field :: "string \<Rightarrow> bool" where
  "person_field k \<longleftrightarrow>
     k \<in> {''firstName'', ''lastName'', ''birthDate'', ''gender'', ''team'', ''city''}"

lemmas [text_eval] = is_lower_def is_upper_def is_hex_def identifier_pattern_def uuid_pattern_def
  source_code_pattern_def canonical_cursor_pattern_def forbidden_rune_def valid_text_def
  valid_reason_def valid_date_def valid_timestamp_def person_field_def

end
