(* ===== verification/Transitions.thy ===== *)
theory Transitions
  imports PacketModel
begin

section \<open>Packet issuance: transitions\<close>

text \<open>
  \<^verbatim>\<open>internal/packetissuance/transitions.go\<close>: the pure transition function \<open>apply_cmd\<close> of a command on
  the registrations it touches, and \<open>reverse_move\<close>, the correction of an earlier move.  The source
  clones a registration before it changes it; here values are immutable and a change keeps both.
\<close>

definition validate_person :: "person \<Rightarrow> unit res" where
  "validate_person p =
     (if \<not> identifier_pattern (per_id p) \<or> \<not> valid_text (per_first p) 160 \<or> \<not> valid_text (per_last p) 160
         \<or> \<not> valid_text (per_birth p) 160 \<or> \<not> valid_text (per_gender p) 160
         \<or> \<not> valid_text (per_team p) 160 \<or> \<not> valid_text (per_city p) 160
      then Inl ''invalid_person''
      else if \<not> valid_reason (per_first p @ per_last p)
              \<or> (per_gender p \<noteq> [] \<and> per_gender p \<noteq> ''male'' \<and> per_gender p \<noteq> ''female'')
      then Inl ''invalid_person''
      else if per_birth p \<noteq> [] \<and> \<not> valid_date (per_birth p) then Inl ''invalid_person''
      else Inr ())"

definition valid_status :: "string \<Rightarrow> bool" where
  "valid_status s \<longleftrightarrow> s \<in> {''registered'', ''dns'', ''dnf'', ''dsq''}"

definition editable_status :: "string \<Rightarrow> bool" where
  "editable_status s \<longleftrightarrow> s = ''registered'' \<or> s = ''dns''"

definition validate_registration :: "registration \<Rightarrow> unit res" where
  "validate_registration r =
     (if \<not> identifier_pattern (reg_id r) \<or> \<not> identifier_pattern (reg_event r)
         \<or> \<not> identifier_pattern (reg_race r)
         \<or> (case reg_transferred r of None \<Rightarrow> False | Some t \<Rightarrow> \<not> identifier_pattern t)
         \<or> \<not> valid_status (reg_status r)
      then Inl ''invalid_records''
      else if reg_reserve r \<and> reg_person r \<noteq> None then Inl ''invalid_records''
      else case reg_person r of None \<Rightarrow> Inr () | Some p \<Rightarrow> validate_person p)"

text \<open>The pattern \<^verbatim>\<open>^[1-9][0-9]{14}$\<close> of a registration created at the desk.\<close>

definition fifteen_digits :: "string \<Rightarrow> bool" where
  "fifteen_digits s \<longleftrightarrow> length s = 15 \<and> list_all is_digit s \<and> hd s \<noteq> CHR ''0''"

definition empty_registration :: "command \<Rightarrow> registration res" where
  "empty_registration c =
     (if \<not> fifteen_digits (cmd_reg c) \<or> \<not> identifier_pattern (cmd_event c) \<or> \<not> identifier_pattern (cmd_race c)
      then Inl ''invalid_command''
      else Inr (zero_registration\<lparr> reg_id := cmd_reg c, reg_event := cmd_event c, reg_race := cmd_race c,
                  reg_status := ''registered'' \<rparr>))"

definition empty_reserve :: "command \<Rightarrow> registration \<Rightarrow> registration res" where
  "empty_reserve c source =
     empty_registration (zero_command\<lparr> cmd_reg := cmd_target c, cmd_event := reg_event source,
                            cmd_race := cmd_race c \<rparr>)"

definition is_virtual_registration :: "registration \<Rightarrow> bool" where
  "is_virtual_registration r \<longleftrightarrow>
     empty_registration (zero_command\<lparr> cmd_reg := reg_id r, cmd_event := reg_event r,
                            cmd_race := reg_race r \<rparr>) = Inr r"

definition require_editable :: "registration \<Rightarrow> unit res" where
  "require_editable r =
     (if reg_timing r then Inl ''timing_review_required''
      else if \<not> editable_status (reg_status r) then Inl ''status_review_required''
      else if reg_transferred r \<noteq> None then Inl ''transfer_review_required''
      else Inr ())"

definition require_assigned :: "registration \<Rightarrow> unit res" where
  "require_assigned r =
     (if reg_reserve r then Inl ''reserve_slot''
      else if reg_person r = None then Inl ''missing_person''
      else Inr ())"

definition mk_change :: "registration \<Rightarrow> registration \<Rightarrow> change" where
  "mk_change b a = \<lparr> chg_reg = reg_id b, chg_before = b, chg_after = a \<rparr>"

definition valid_assigned_bib :: "string \<Rightarrow> bool" where
  "valid_assigned_bib bib \<longleftrightarrow>
     (case parse_int 32 bib of None \<Rightarrow> False | Some n \<Rightarrow> 0 < n \<and> format_int n = bib)"

text \<open>The final step of the single-registration commands: nothing changed means no change.\<close>

definition single_change :: "registration \<Rightarrow> registration \<Rightarrow> change list" where
  "single_change source after = (if source = after then [] else [mk_change source after])"

subsection \<open>The commands\<close>

text \<open>The registration before its number is set: a new person, or the assigned row without a number.\<close>

definition number_holder :: "registration \<Rightarrow> command \<Rightarrow> registration res" where
  "number_holder source c =
     (if cmd_type c = ''create_registration'' then
        bind_res (empty_registration c) (\<lambda>blank.
        if source \<noteq> blank then Inl ''registration_already_exists''
        else case cmd_person c of None \<Rightarrow> Inl ''invalid_person''
             | Some p \<Rightarrow> bind_res (validate_person p) (\<lambda>_. Inr (source\<lparr> reg_person := Some p \<rparr>)))
      else
        bind_res (require_assigned source) (\<lambda>_.
        if reg_bib source \<noteq> [] \<or> reg_issued source then Inl ''number_already_assigned'' else Inr source))"

definition apply_number :: "registration list \<Rightarrow> registration \<Rightarrow> command \<Rightarrow> registration res" where
  "apply_number records source c =
     bind_res (require_editable source) (\<lambda>_.
     bind_res (number_holder source c) (\<lambda>after.
       if cmd_type c = ''create_registration'' \<and> cmd_bib c = [] \<and> cmd_issue c = Some False then Inr after
       else case cmd_issue c of None \<Rightarrow> Inl ''invalid_bib''
         | Some issue \<Rightarrow>
             if \<not> valid_assigned_bib (cmd_bib c) then Inl ''invalid_bib''
             else if list_ex (\<lambda>r. reg_event r = reg_event source \<and> reg_id r \<noteq> reg_id source
                                   \<and> reg_bib r = cmd_bib c) records
             then Inl ''number_occupied''
             else Inr (after\<lparr> reg_bib := cmd_bib c, reg_issued := issue \<rparr>)))"

definition apply_return_to_reserve ::
  "(string \<Rightarrow> registration option) \<Rightarrow> registration \<Rightarrow> command \<Rightarrow> (change list) res" where
  "apply_return_to_reserve rows source c =
     bind_res (require_editable source) (\<lambda>_.
     bind_res (require_assigned source) (\<lambda>_.
     if \<not> valid_assigned_bib (cmd_bib c)
        \<or> (reg_bib source \<noteq> cmd_bib c \<and> \<not> (reg_bib source = [] \<and> reg_epc source \<noteq> []))
     then Inl ''invalid_bib''
     else case (rows (cmd_target c), empty_reserve c source) of
       (Some target, Inr blank) \<Rightarrow>
         if reg_id target = reg_id source \<or> target \<noteq> blank then Inl ''invalid_target''
         else Inr [mk_change source (source\<lparr> reg_bib := [], reg_epc := [], reg_issued := False \<rparr>),
                   mk_change target (target\<lparr> reg_bib := cmd_bib c, reg_epc := reg_epc source,
                                        reg_reserve := True \<rparr>)]
     | _ \<Rightarrow> Inl ''invalid_target''))"

definition apply_clear :: "registration \<Rightarrow> command \<Rightarrow> registration res" where
  "apply_clear source c =
     bind_res (require_editable source) (\<lambda>_.
     bind_res (require_assigned source) (\<lambda>_.
     let after = source\<lparr> reg_bib := [], reg_issued := False \<rparr>
     in Inr (if cmd_type c = ''clear_number'' then after\<lparr> reg_epc := [] \<rparr> else after)))"

definition apply_issue :: "registration \<Rightarrow> registration res" where
  "apply_issue source = bind_res (require_assigned source) (\<lambda>_. Inr (source\<lparr> reg_issued := True \<rparr>))"

definition apply_undo_issue :: "registration \<Rightarrow> command \<Rightarrow> registration res" where
  "apply_undo_issue source c =
     (if \<not> valid_reason (cmd_reason c) then Inl ''reason_required''
      else Inr (source\<lparr> reg_issued := False \<rparr>))"

definition apply_set_dns :: "registration \<Rightarrow> command \<Rightarrow> registration res" where
  "apply_set_dns source c =
     (case cmd_value c of None \<Rightarrow> Inl ''invalid_command''
      | Some v \<Rightarrow>
          bind_res (require_editable source) (\<lambda>_.
          bind_res (require_assigned source) (\<lambda>_.
          Inr (source\<lparr> reg_status := (if v then ''dns'' else ''registered'') \<rparr>))))"

definition apply_release :: "registration \<Rightarrow> registration res" where
  "apply_release source =
     (if reg_timing source then Inl ''timing_review_required''
      else if \<not> editable_status (reg_status source)
      then Inl ''status_review_required''
      else bind_res (require_assigned source) (\<lambda>_.
        Inr (source\<lparr> reg_person := None, reg_reserve := True, reg_issued := False,
                     reg_status := ''registered'', reg_transferred := None \<rparr>)))"

fun edit_field :: "string \<times> string \<Rightarrow> person \<Rightarrow> person res" where
  "edit_field (k, v) p =
     (if k = ''firstName'' then Inr (p\<lparr> per_first := v \<rparr>)
      else if k = ''lastName'' then Inr (p\<lparr> per_last := v \<rparr>)
      else if k = ''birthDate'' then Inr (p\<lparr> per_birth := v \<rparr>)
      else if k = ''gender'' then Inr (p\<lparr> per_gender := v \<rparr>)
      else if k = ''team'' then Inr (p\<lparr> per_team := v \<rparr>)
      else if k = ''city'' then Inr (p\<lparr> per_city := v \<rparr>)
      else Inl ''invalid_person'')"

definition apply_edit_person :: "registration \<Rightarrow> command \<Rightarrow> registration res" where
  "apply_edit_person source c =
     bind_res (require_editable source) (\<lambda>_.
     bind_res (require_assigned source) (\<lambda>_.
     case reg_person source of None \<Rightarrow> Inl ''missing_person''
     | Some p \<Rightarrow>
         bind_res (fold_res edit_field (cmd_fields c) p) (\<lambda>p'.
         bind_res (validate_person p') (\<lambda>_. Inr (source\<lparr> reg_person := Some p' \<rparr>)))))"

definition apply_change_race :: "registration \<Rightarrow> command \<Rightarrow> registration res" where
  "apply_change_race source c =
     bind_res (require_editable source) (\<lambda>_.
     bind_res (require_assigned source) (\<lambda>_.
     if reg_bib source \<noteq> [] \<or> reg_epc source \<noteq> [] \<or> reg_issued source
     then Inl ''race_change_requires_unnumbered''
     else if \<not> identifier_pattern (cmd_race c) \<or> cmd_race c = reg_race source then Inl ''invalid_target''
     else Inr (source\<lparr> reg_race := cmd_race c \<rparr>)))"

definition apply_replace_person :: "registration \<Rightarrow> command \<Rightarrow> registration res" where
  "apply_replace_person source c =
     bind_res (require_editable source) (\<lambda>_.
     case (cmd_person c, cmd_issue c) of
       (Some p, Some issue) \<Rightarrow>
         bind_res (validate_person p) (\<lambda>_.
         if (case reg_person source of None \<Rightarrow> False | Some q \<Rightarrow> per_id q = per_id p)
         then Inl ''person_identity_reused''
         else Inr (source\<lparr> reg_person := Some p, reg_reserve := False, reg_issued := issue,
                           reg_status := ''registered'' \<rparr>))
     | _ \<Rightarrow> Inl ''invalid_command'')"

text \<open>The source side of \<open>move_to_reserve\<close> and \<open>assign_reserve\<close>: the person leaves the registration.\<close>

definition vacate_source :: "registration \<Rightarrow> command \<Rightarrow> registration res" where
  "vacate_source source c =
     (let assign = (cmd_type c = ''assign_reserve'') in
      if assign \<and> cmd_return c = None then Inl ''invalid_command''
      else if assign \<and> cmd_return c = Some True \<and> reg_bib source = [] then Inl ''invalid_bib''
      else
        let keep = (\<not> assign \<or> cmd_return c = Some True);
            after = source\<lparr> reg_person := None, reg_reserve := keep, reg_issued := False,
                            reg_status := ''registered'', reg_transferred := None \<rparr>
        in Inr (if keep then after else after\<lparr> reg_bib := [], reg_epc := [] \<rparr>))"

definition moved_source :: "registration \<Rightarrow> registration \<Rightarrow> command \<Rightarrow> registration res" where
  "moved_source source target c =
     (if cmd_type c = ''move_to_reserve'' \<or> cmd_type c = ''assign_reserve'' then vacate_source source c
      else Inr (source\<lparr> reg_status := ''dns'', reg_transferred := Some (reg_id target) \<rparr>))"

definition seated_target :: "registration \<Rightarrow> registration \<Rightarrow> bool \<Rightarrow> registration" where
  "seated_target source target issue =
     target\<lparr> reg_person := reg_person source, reg_reserve := False, reg_issued := issue \<rparr>"

definition free_slot :: "registration \<Rightarrow> bool" where
  "free_slot t \<longleftrightarrow> reg_reserve t \<and> \<not> reg_issued t \<and> \<not> reg_timing t \<and> reg_status t = ''registered''
     \<and> reg_transferred t = None"

definition apply_move ::
  "(string \<Rightarrow> registration option) \<Rightarrow> registration \<Rightarrow> command \<Rightarrow> (change list) res" where
  "apply_move rows source c =
     bind_res (require_editable source) (\<lambda>_.
     bind_res (require_assigned source) (\<lambda>_.
     case (rows (cmd_target c), cmd_issue c) of
       (Some target, Some issue) \<Rightarrow>
         if cmd_target c = reg_id source \<or> reg_event target \<noteq> reg_event source
            \<or> (cmd_type c = ''move_race'' \<and> reg_race target = reg_race source)
         then Inl ''invalid_target''
         else if cmd_type c = ''assign_reserve'' \<and> reg_bib target = [] then Inl ''invalid_bib''
         else if \<not> free_slot target then Inl ''target_not_available''
         else bind_res (moved_source source target c) (\<lambda>after.
              Inr [mk_change source after, mk_change target (seated_target source target issue)])
     | _ \<Rightarrow> Inl ''invalid_target''))"

subsection \<open>Dispatch\<close>

text \<open>The map from registration ids to rows, built with the source's checks.\<close>

fun index_records ::
  "registration list \<Rightarrow> (string \<Rightarrow> registration option) \<Rightarrow> (string \<Rightarrow> registration option) res" where
  "index_records [] m = Inr m"
| "index_records (r # rs) m =
     bind_res (validate_registration r) (\<lambda>_.
     if m (reg_id r) \<noteq> None then Inl ''invalid_records'' else index_records rs (m(reg_id r \<mapsto> r)))"

definition transition ::
  "registration list \<Rightarrow> (string \<Rightarrow> registration option) \<Rightarrow> registration \<Rightarrow> command \<Rightarrow> (change list) res" where
  "transition records rows source c =
     (let one = (\<lambda>r. bind_res r (\<lambda>after. Inr (single_change source after))) in
      if cmd_type c = ''assign_number'' \<or> cmd_type c = ''create_registration''
      then one (apply_number records source c)
      else if cmd_type c = ''return_to_reserve'' then apply_return_to_reserve rows source c
      else if cmd_type c = ''clear_number'' \<or> cmd_type c = ''unassign_number'' then one (apply_clear source c)
      else if cmd_type c = ''issue'' then one (apply_issue source)
      else if cmd_type c = ''undo_issue'' then one (apply_undo_issue source c)
      else if cmd_type c = ''set_dns'' then one (apply_set_dns source c)
      else if cmd_type c = ''release_to_reserve'' then one (apply_release source)
      else if cmd_type c = ''edit_person'' then one (apply_edit_person source c)
      else if cmd_type c = ''change_race'' then one (apply_change_race source c)
      else if cmd_type c = ''replace_person'' then one (apply_replace_person source c)
      else if cmd_type c = ''move_race'' \<or> cmd_type c = ''move_to_reserve'' \<or> cmd_type c = ''assign_reserve''
      then apply_move rows source c
      else Inl ''invalid_command'')"

definition apply_cmd :: "registration list \<Rightarrow> command \<Rightarrow> (change list) res" where
  "apply_cmd records c =
     bind_res (index_records records Map.empty) (\<lambda>rows.
     case rows (cmd_reg c) of None \<Rightarrow> Inl ''registration_not_found''
     | Some source \<Rightarrow> transition records rows source c)"

subsection \<open>Correcting a move\<close>

definition release_source :: "registration \<Rightarrow> bool" where
  "release_source a \<longleftrightarrow> reg_person a = None \<and> reg_reserve a \<and> \<not> reg_issued a
     \<and> reg_status a = ''registered'' \<and> reg_transferred a = None"

definition empty_source :: "registration \<Rightarrow> bool" where
  "empty_source a \<longleftrightarrow> reg_person a = None \<and> \<not> reg_reserve a \<and> reg_bib a = [] \<and> reg_epc a = []
     \<and> \<not> reg_issued a \<and> reg_status a = ''registered'' \<and> reg_transferred a = None"

definition legacy_source :: "registration \<Rightarrow> string \<Rightarrow> bool" where
  "legacy_source a target \<longleftrightarrow> reg_transferred a = Some target \<and> reg_status a = ''dns'' \<and> \<not> reg_reserve a"

fun last_record :: "registration list \<Rightarrow> string \<Rightarrow> registration option" where
  "last_record rs k = List.find (\<lambda>r. reg_id r = k) (rev rs)"

definition reverse_one :: "registration list \<Rightarrow> change \<Rightarrow> change res" where
  "reverse_one records previous =
     (case last_record records (chg_reg previous) of None \<Rightarrow> Inl ''correction_review_required''
      | Some row \<Rightarrow>
          if reg_timing row \<or> row \<noteq> chg_after previous \<or> reg_id row \<noteq> reg_id (chg_before previous)
             \<or> reg_event row \<noteq> reg_event (chg_before previous) \<or> reg_race row \<noteq> reg_race (chg_before previous)
             \<or> reg_bib row \<noteq> reg_bib (chg_before previous) \<or> reg_epc row \<noteq> reg_epc (chg_before previous)
          then Inl ''correction_review_required''
          else Inr (mk_change row (chg_before previous)))"

definition reverse_move :: "registration list \<Rightarrow> change list \<Rightarrow> string \<Rightarrow> (change list) res" where
  "reverse_move records original reason =
     (let review = Inl ''correction_review_required'' in
      case original of [source, target] \<Rightarrow>
        let rel = release_source (chg_after source);
            emp = empty_source (chg_after source);
            leg = legacy_source (chg_after source) (chg_reg target) in
        if \<not> valid_reason reason then review
        else if (\<not> rel \<and> \<not> emp \<and> \<not> leg) \<or> \<not> reg_reserve (chg_before target)
                \<or> chg_reg source = chg_reg target then review
        else if apply_cmd [chg_before source, chg_before target]
                  (zero_command\<lparr> cmd_type := (if emp then ''assign_reserve''
                                               else if rel then ''move_to_reserve'' else ''move_race''),
                     cmd_reg := chg_reg source, cmd_target := chg_reg target,
                     cmd_issue := Some (reg_issued (chg_after target)), cmd_return := Some False \<rparr>)
                \<noteq> Inr original then review
        else if \<not> list_all (\<lambda>r. validate_registration r = Inr ()) records then review
        else map_res (reverse_one records) original
      | _ \<Rightarrow> review)"

subsection \<open>Validity and the frame of a transition\<close>

lemma valid_status_simps [simp]: "valid_status ''registered''" "valid_status ''dns''"
  by (simp_all add: valid_status_def)

lemma editable_status_simps [simp]: "editable_status ''registered''" "editable_status ''dns''"
  by (simp_all add: editable_status_def)

lemma validate_registration_iff:
  "validate_registration r = Inr () \<longleftrightarrow>
     identifier_pattern (reg_id r) \<and> identifier_pattern (reg_event r) \<and> identifier_pattern (reg_race r)
     \<and> (\<forall>t. reg_transferred r = Some t \<longrightarrow> identifier_pattern t)
     \<and> valid_status (reg_status r)
     \<and> (reg_reserve r \<longrightarrow> reg_person r = None)
     \<and> (\<forall>p. reg_person r = Some p \<longrightarrow> validate_person p = Inr ())"
  by (auto simp: validate_registration_def split: option.splits)

lemma require_editable_iff:
  "require_editable r = Inr u \<longleftrightarrow>
     \<not> reg_timing r \<and> editable_status (reg_status r) \<and> reg_transferred r = None"
  by (auto simp: require_editable_def)

lemma require_assigned_iff:
  "require_assigned r = Inr u \<longleftrightarrow> \<not> reg_reserve r \<and> reg_person r \<noteq> None"
  by (auto simp: require_assigned_def)

lemma empty_registration_Inr:
  "empty_registration c = Inr r \<Longrightarrow>
     r = zero_registration\<lparr> reg_id := cmd_reg c, reg_event := cmd_event c, reg_race := cmd_race c,
           reg_status := ''registered'' \<rparr>"
  by (auto simp: empty_registration_def split: if_splits)

lemma zero_registration_simps [simp]:
  "reg_person zero_registration = None" "\<not> reg_reserve zero_registration"
  "reg_transferred zero_registration = None" "reg_bib zero_registration = []"
  "reg_epc zero_registration = []" "\<not> reg_issued zero_registration" "\<not> reg_timing zero_registration"
  by (simp_all add: zero_registration_def)

text \<open>
  What every command keeps of a registration it changes: its identity, its event, its timing
  evidence and its validity.
\<close>

definition keeps :: "registration \<Rightarrow> registration \<Rightarrow> bool" where
  "keeps b a \<longleftrightarrow>
     reg_id a = reg_id b \<and> reg_event a = reg_event b \<and> reg_timing a = reg_timing b
     \<and> (validate_registration b = Inr () \<longrightarrow> validate_registration a = Inr ())"

lemmas keeps_simps = keeps_def validate_registration_iff require_editable_iff require_assigned_iff
  res_simps

lemma keeps_refl [simp]: "keeps b b"
  by (simp add: keeps_def)

lemma keeps_number_holder:
  assumes "number_holder source c = Inr a"
  shows "keeps source a \<and> reg_race a = reg_race source"
proof (cases "cmd_type c = ''create_registration''")
  case True
  with assms obtain p where "validate_person p = Inr ()" "a = source\<lparr> reg_person := Some p \<rparr>"
      "\<not> reg_reserve source"
    by (auto simp: number_holder_def res_simps dest!: empty_registration_Inr
        split: option.splits if_splits)
  then show ?thesis by (simp add: keeps_def validate_registration_iff)
next
  case False
  with assms have "a = source"
    by (auto simp: number_holder_def res_simps split: if_splits)
  then show ?thesis by simp
qed

lemma keeps_set_bib [simp]: "keeps b (a\<lparr> reg_bib := x, reg_issued := i \<rparr>) \<longleftrightarrow> keeps b a"
  by (simp add: keeps_def validate_registration_iff)

lemma apply_number_Inr:
  assumes "apply_number records source c = Inr a"
  obtains after where "require_editable source = Inr ()" "number_holder source c = Inr after"
    "a = after \<or> (valid_assigned_bib (cmd_bib c)
       \<and> (\<forall>r \<in> set records. reg_event r = reg_event source \<and> reg_id r \<noteq> reg_id source
             \<longrightarrow> reg_bib r \<noteq> cmd_bib c)
       \<and> (\<exists>i. a = after\<lparr> reg_bib := cmd_bib c, reg_issued := i \<rparr>))"
  using assms unfolding apply_number_def res_simps
  by (auto split: option.splits if_splits simp: list_ex_iff)

lemma keeps_number:
  assumes "apply_number records source c = Inr a"
  shows "keeps source a \<and> reg_race a = reg_race source \<and> \<not> reg_timing source"
  using assms
proof (rule apply_number_Inr)
  fix after
  assume *: "require_editable source = Inr ()" "number_holder source c = Inr after"
    and "a = after \<or> (valid_assigned_bib (cmd_bib c)
       \<and> (\<forall>r \<in> set records. reg_event r = reg_event source \<and> reg_id r \<noteq> reg_id source
             \<longrightarrow> reg_bib r \<noteq> cmd_bib c)
       \<and> (\<exists>i. a = after\<lparr> reg_bib := cmd_bib c, reg_issued := i \<rparr>))"
  then show ?thesis
    using keeps_number_holder [OF *(2)] by (auto simp: require_editable_iff)
qed

lemma keeps_clear:
  "apply_clear source c = Inr a \<Longrightarrow>
     keeps source a \<and> reg_race a = reg_race source \<and> \<not> reg_timing source"
  by (cases "cmd_type c = ''clear_number''") (auto simp: apply_clear_def keeps_simps Let_def)

lemma keeps_issue: "apply_issue source = Inr a \<Longrightarrow> keeps source a \<and> reg_race a = reg_race source"
  by (auto simp: apply_issue_def keeps_simps)

lemma keeps_undo_issue:
  "apply_undo_issue source c = Inr a \<Longrightarrow> keeps source a \<and> reg_race a = reg_race source"
  by (auto simp: apply_undo_issue_def keeps_simps split: if_splits)

lemma keeps_set_dns:
  "apply_set_dns source c = Inr a \<Longrightarrow>
     keeps source a \<and> reg_race a = reg_race source \<and> \<not> reg_timing source"
  by (cases "cmd_value c"; cases "the (cmd_value c)") (auto simp: apply_set_dns_def keeps_simps)

lemma keeps_release:
  "apply_release source = Inr a \<Longrightarrow>
     keeps source a \<and> reg_race a = reg_race source \<and> \<not> reg_timing source"
  by (auto simp: apply_release_def keeps_simps split: if_splits)

lemma keeps_edit_person:
  "apply_edit_person source c = Inr a \<Longrightarrow>
     keeps source a \<and> reg_race a = reg_race source \<and> \<not> reg_timing source"
  by (auto simp: apply_edit_person_def keeps_simps split: option.splits)

lemma keeps_change_race: "apply_change_race source c = Inr a \<Longrightarrow> keeps source a \<and> \<not> reg_timing source"
  by (auto simp: apply_change_race_def keeps_simps split: if_splits)

lemma keeps_replace_person:
  "apply_replace_person source c = Inr a \<Longrightarrow>
     keeps source a \<and> reg_race a = reg_race source \<and> \<not> reg_timing source"
  by (auto simp: apply_replace_person_def keeps_simps split: option.splits if_splits)

lemma keeps_vacate:
  "vacate_source source c = Inr a \<Longrightarrow> keeps source a \<and> reg_race a = reg_race source"
  unfolding vacate_source_def Let_def
  by (cases "cmd_type c = ''assign_reserve''"; cases "cmd_return c = Some True")
     (auto simp: keeps_simps split: if_splits)

lemma apply_return_to_reserve_Inr:
  "apply_return_to_reserve rows source c = Inr cs \<longleftrightarrow>
     (\<exists>target.
        require_editable source = Inr () \<and> require_assigned source = Inr ()
        \<and> valid_assigned_bib (cmd_bib c)
        \<and> (reg_bib source = cmd_bib c \<or> (reg_bib source = [] \<and> reg_epc source \<noteq> []))
        \<and> rows (cmd_target c) = Some target \<and> empty_reserve c source = Inr target
        \<and> reg_id target \<noteq> reg_id source
        \<and> cs = [mk_change source (source\<lparr> reg_bib := [], reg_epc := [], reg_issued := False \<rparr>),
                mk_change target (target\<lparr> reg_bib := cmd_bib c, reg_epc := reg_epc source,
                                     reg_reserve := True \<rparr>)])"
  (is "?l = ?r")
proof
  assume ?l
  then show ?r
    unfolding apply_return_to_reserve_def res_simps
    by (cases "rows (cmd_target c)"; cases "empty_reserve c source")
       (auto split: if_split_asm)
next
  assume ?r
  then show ?l
    unfolding apply_return_to_reserve_def by (elim exE conjE) simp
qed

lemma empty_reserve_simps:
  assumes "empty_reserve c source = Inr r"
  shows "reg_person r = None" "\<not> reg_reserve r" "reg_transferred r = None" "reg_bib r = []"
    "reg_epc r = []" "\<not> reg_issued r" "\<not> reg_timing r" "reg_event r = reg_event source"
    "reg_race r = cmd_race c" "reg_id r = cmd_target c"
  using empty_registration_Inr [OF assms [unfolded empty_reserve_def]]
  by (simp_all add: zero_command_def)

lemma apply_move_Inr:
  "apply_move rows source c = Inr cs \<longleftrightarrow>
     (\<exists>target issue after.
        require_editable source = Inr () \<and> require_assigned source = Inr ()
        \<and> rows (cmd_target c) = Some target \<and> cmd_issue c = Some issue
        \<and> cmd_target c \<noteq> reg_id source \<and> reg_event target = reg_event source
        \<and> (cmd_type c = ''move_race'' \<longrightarrow> reg_race target \<noteq> reg_race source)
        \<and> (cmd_type c = ''assign_reserve'' \<longrightarrow> reg_bib target \<noteq> [])
        \<and> free_slot target \<and> moved_source source target c = Inr after
        \<and> cs = [mk_change source after, mk_change target (seated_target source target issue)])"
  unfolding apply_move_def res_simps
  by (cases "rows (cmd_target c)"; cases "cmd_issue c") (auto simp: res_simps)

end
