(* ===== verification/PacketLaws.thy ===== *)
theory PacketLaws
  imports Transitions
begin

section \<open>Laws of the packet transitions\<close>

text \<open>
  What every accepted command guarantees: the changes are about rows of the roster and keep their
  identity and validity, timing evidence protects a row, bibs stay unique in an event, and a move
  can be corrected exactly.
\<close>

lemma in_single_change: "ch \<in> set (single_change b a) \<longleftrightarrow> a \<noteq> b \<and> ch = mk_change b a"
  by (auto simp: single_change_def)

lemma mk_change_simps [simp]:
  "chg_reg (mk_change b a) = reg_id b" "chg_before (mk_change b a) = b" "chg_after (mk_change b a) = a"
  by (simp_all add: mk_change_def)

text \<open>
  \<open>lawful records c ch\<close>: the change \<open>ch\<close> is about a row of the roster, keeps its identity and
  validity, moves it to another race only for \<^verbatim>\<open>change_race\<close>, and touches a row with timing
  evidence only to mark or unmark its packet as issued.
\<close>

definition lawful :: "registration list \<Rightarrow> command \<Rightarrow> change \<Rightarrow> bool" where
  "lawful records c ch \<longleftrightarrow>
     chg_before ch \<in> set records \<and> chg_reg ch = reg_id (chg_before ch)
     \<and> keeps (chg_before ch) (chg_after ch)
     \<and> (reg_race (chg_after ch) \<noteq> reg_race (chg_before ch) \<longrightarrow> cmd_type c = ''change_race'')
     \<and> (reg_timing (chg_before ch) \<longrightarrow> cmd_type c = ''issue'' \<or> cmd_type c = ''undo_issue'')"

lemma lawful_single:
  assumes "bind_res r (\<lambda>after. Inr (single_change source after)) = Inr cs" and "ch \<in> set cs"
    and "source \<in> set records"
    and "\<And>a. r = Inr a \<Longrightarrow> keeps source a \<and> (reg_race a \<noteq> reg_race source \<longrightarrow> cmd_type c = ''change_race'')
           \<and> (reg_timing source \<longrightarrow> cmd_type c = ''issue'' \<or> cmd_type c = ''undo_issue'')"
  shows "lawful records c ch"
  using assms by (auto simp: res_simps in_single_change lawful_def)

lemma lawful_return:
  assumes "apply_return_to_reserve rows source c = Inr cs" and "ch \<in> set cs"
    and "source \<in> set records" and "\<And>k r. rows k = Some r \<Longrightarrow> r \<in> set records"
  shows "lawful records c ch"
proof -
  from assms(1) obtain target where t: "require_editable source = Inr ()" "rows (cmd_target c) = Some target"
      "empty_reserve c source = Inr target"
    and cs: "cs = [mk_change source (source\<lparr> reg_bib := [], reg_epc := [], reg_issued := False \<rparr>),
                   mk_change target (target\<lparr> reg_bib := cmd_bib c, reg_epc := reg_epc source,
                                        reg_reserve := True \<rparr>)]"
    unfolding apply_return_to_reserve_Inr by blast
  note e = empty_reserve_simps [OF t(3)]
  have "target \<in> set records" using assms(4) t(2) .
  moreover have "\<not> reg_timing source" using t(1) by (simp add: require_editable_iff)
  ultimately show ?thesis
    using assms(2,3) e
    by (auto simp: cs lawful_def keeps_def validate_registration_iff)
qed

lemma moved_source_keeps:
  assumes "moved_source source target c = Inr after" and "identifier_pattern (reg_id target)"
  shows "keeps source after \<and> reg_race after = reg_race source"
proof (cases "cmd_type c = ''move_to_reserve'' \<or> cmd_type c = ''assign_reserve''")
  case True
  with assms have "vacate_source source c = Inr after" by (simp add: moved_source_def)
  then show ?thesis by (rule keeps_vacate)
next
  case False
  with assms have "after = source\<lparr> reg_status := ''dns'', reg_transferred := Some (reg_id target) \<rparr>"
    by (simp add: moved_source_def)
  then show ?thesis using assms(2) by (simp add: keeps_def validate_registration_iff)
qed

lemma keeps_seated:
  assumes "require_assigned source = Inr ()" and "reg_person source \<noteq> None \<Longrightarrow> validate_registration source = Inr ()"
  shows "keeps target (seated_target source target issue)
    \<and> reg_race (seated_target source target issue) = reg_race target"
  using assms by (simp add: seated_target_def keeps_def validate_registration_iff require_assigned_iff)

lemma lawful_move:
  assumes "apply_move rows source c = Inr cs" and "ch \<in> set cs"
    and "source \<in> set records" and "\<And>k r. rows k = Some r \<Longrightarrow> r \<in> set records"
    and "\<And>r. r \<in> set records \<Longrightarrow> validate_registration r = Inr ()"
  shows "lawful records c ch"
proof -
  from assms(1) obtain target issue after where
      t: "require_editable source = Inr ()" "require_assigned source = Inr ()"
         "rows (cmd_target c) = Some target" "free_slot target"
         "moved_source source target c = Inr after"
    and cs: "cs = [mk_change source after, mk_change target (seated_target source target issue)]"
    unfolding apply_move_Inr by blast
  have tin: "target \<in> set records" using assms(4) t(3) .
  have "identifier_pattern (reg_id target)"
    using assms(5) [OF tin] by (simp only: validate_registration_iff)
  note s = moved_source_keeps [OF t(5) this]
  note u = keeps_seated [OF t(2) assms(5) [OF assms(3)]]
  have timing: "\<not> reg_timing source" "\<not> reg_timing target"
    using t by (simp_all add: require_editable_iff free_slot_def)
  from assms(2) cs consider "ch = mk_change source after"
    | "ch = mk_change target (seated_target source target issue)" by auto
  then show ?thesis
    by cases (use assms(3) tin s u timing in \<open>simp_all add: lawful_def\<close>)
qed

lemma index_records_Some:
  assumes "index_records rs m = Inr rows" and "rows k = Some r"
  shows "m k = Some r \<or> (r \<in> set rs \<and> reg_id r = k)"
  using assms
proof (induction rs arbitrary: m)
  case Nil
  then show ?case by simp
next
  case (Cons x rs)
  from Cons.prems have "index_records rs (m(reg_id x \<mapsto> x)) = Inr rows"
    by (auto simp: res_simps split: if_splits)
  from Cons.IH [OF this Cons.prems(2)] show ?case by (auto split: if_splits)
qed

lemma index_records_valid:
  "index_records rs m = Inr rows \<Longrightarrow> r \<in> set rs \<Longrightarrow> validate_registration r = Inr ()"
  by (induction rs arbitrary: m) (auto simp: res_simps split: if_splits)

lemma index_records_distinct:
  "index_records rs m = Inr rows \<Longrightarrow>
     distinct (map reg_id rs) \<and> (\<forall>r \<in> set rs. m (reg_id r) = None)"
  by (induction rs arbitrary: m) (fastforce simp: res_simps split: if_splits)+

lemma transition_lawful:
  assumes tr: "transition records rows source c = Inr cs" and ch: "ch \<in> set cs"
    and src: "source \<in> set records" and rows: "\<And>k r. rows k = Some r \<Longrightarrow> r \<in> set records"
    and valid: "\<And>r. r \<in> set records \<Longrightarrow> validate_registration r = Inr ()"
  shows "lawful records c ch"
proof -
  note single = lawful_single [OF _ ch src]
  show ?thesis
    using tr unfolding transition_def Let_def
    by (auto split: if_split_asm
        elim!: single lawful_return [OF _ ch src rows] lawful_move [OF _ ch src rows valid]
        dest: keeps_number keeps_clear keeps_issue keeps_undo_issue keeps_set_dns keeps_release
          keeps_edit_person keeps_change_race keeps_replace_person)
qed

lemma apply_cmd_Inr:
  assumes "apply_cmd records c = Inr cs"
  obtains rows source where "index_records records Map.empty = Inr rows" "rows (cmd_reg c) = Some source"
    "transition records rows source c = Inr cs" "source \<in> set records" "reg_id source = cmd_reg c"
proof -
  from assms obtain rows source where *: "index_records records Map.empty = Inr rows"
      "rows (cmd_reg c) = Some source" "transition records rows source c = Inr cs"
    by (auto simp: apply_cmd_def res_simps split: option.splits)
  moreover from index_records_Some [OF *(1,2)] have "source \<in> set records" "reg_id source = cmd_reg c"
    by auto
  ultimately show thesis by (rule that)
qed

lemma apply_cmd_lawful_changes:
  assumes "apply_cmd records c = Inr cs" and "ch \<in> set cs"
  shows "lawful records c ch"
proof (rule apply_cmd_Inr [OF assms(1)])
  fix rows source
  assume *: "index_records records Map.empty = Inr rows" "transition records rows source c = Inr cs"
    and src: "source \<in> set records"
  show ?thesis
  proof (rule transition_lawful [OF *(2) assms(2) src])
    show "r \<in> set records" if "rows k = Some r" for k r
      using index_records_Some [OF *(1) that] by simp
    show "validate_registration r = Inr ()" if "r \<in> set records" for r
      using index_records_valid [OF *(1) that] .
  qed
qed

lemma apply_cmd_valid:
  "apply_cmd records c = Inr cs \<Longrightarrow> r \<in> set records \<Longrightarrow> validate_registration r = Inr ()"
  by (erule apply_cmd_Inr) (rule index_records_valid)

lemma apply_cmd_distinct: "apply_cmd records c = Inr cs \<Longrightarrow> distinct (map reg_id records)"
  by (erule apply_cmd_Inr) (simp add: index_records_distinct)

lemma issue_only_flags:
  assumes "apply_cmd records c = Inr cs" and "ch \<in> set cs" and "cmd_type c = ''issue'' \<or> cmd_type c = ''undo_issue''"
  shows "chg_after ch = (chg_before ch)\<lparr> reg_issued := (cmd_type c = ''issue'') \<rparr>"
proof (rule apply_cmd_Inr [OF assms(1)])
  fix rows source
  assume "transition records rows source c = Inr cs"
  then show ?thesis
    using assms(2,3) by (auto simp: transition_def Let_def res_simps in_single_change apply_issue_def apply_undo_issue_def split: if_split_asm)
qed

text \<open>
  C1. Whatever command the desk accepts, each change it derives is about one row of the roster,
  leaves the row's id, event and timing evidence as they were, and yields a row that passes the
  same validation; the race changes only under \<^verbatim>\<open>change_race\<close>, and on a row that already has timing
  evidence nothing changes but the issued flag, which \<^verbatim>\<open>issue\<close> sets and \<^verbatim>\<open>undo_issue\<close> clears.
\<close>

theorem apply_cmd_lawful:
  assumes "apply_cmd records c = Inr cs" and "ch \<in> set cs"
  shows "chg_before ch \<in> set records \<and> chg_reg ch = reg_id (chg_before ch)
    \<and> reg_id (chg_after ch) = reg_id (chg_before ch)
    \<and> reg_event (chg_after ch) = reg_event (chg_before ch)
    \<and> reg_timing (chg_after ch) = reg_timing (chg_before ch)
    \<and> validate_registration (chg_after ch) = Inr ()
    \<and> (reg_race (chg_after ch) \<noteq> reg_race (chg_before ch) \<longrightarrow> cmd_type c = ''change_race'')
    \<and> (reg_timing (chg_before ch) \<longrightarrow> (cmd_type c = ''issue'' \<or> cmd_type c = ''undo_issue'') \<and>
         chg_after ch = (chg_before ch)\<lparr> reg_issued := (cmd_type c = ''issue'') \<rparr>)"
proof -
  have l: "lawful records c ch" by (rule apply_cmd_lawful_changes [OF assms])
  then have "validate_registration (chg_after ch) = Inr ()" using apply_cmd_valid [OF assms(1)] by (simp add: lawful_def keeps_def)
  moreover have "chg_after ch = (chg_before ch)\<lparr> reg_issued := (cmd_type c = ''issue'') \<rparr>" if "reg_timing (chg_before ch)"
    using l that by (intro issue_only_flags [OF assms]) (simp add: lawful_def)
  ultimately show ?thesis using l unfolding lawful_def keeps_def by blast
qed

subsection \<open>Bib numbers stay unique\<close>

text \<open>
  The roster after a command: the store writes the after image of each change over its row.  Bibs
  are unique when no two rows of an event carry the same non-empty bib.
\<close>

definition commit_changes :: "registration list \<Rightarrow> change list \<Rightarrow> registration list" where
  "commit_changes records cs =
     map (\<lambda>r. case List.find (\<lambda>ch. chg_reg ch = reg_id r) cs of None \<Rightarrow> r | Some ch \<Rightarrow> chg_after ch) records"

definition unique_bibs :: "registration list \<Rightarrow> bool" where
  "unique_bibs records \<longleftrightarrow>
     (\<forall>r \<in> set records. \<forall>s \<in> set records.
        reg_bib r \<noteq> [] \<and> reg_bib r = reg_bib s \<and> reg_event r = reg_event s \<longrightarrow> reg_id r = reg_id s)"

text \<open>
  A change is harmless for the bibs when it keeps or clears the bib, or sets one that no other
  row keeps after the command.
\<close>

definition bib_safe :: "registration list \<Rightarrow> change list \<Rightarrow> bool" where
  "bib_safe records cs \<longleftrightarrow>
     (\<forall>ch \<in> set cs. reg_bib (chg_after ch) = reg_bib (chg_before ch) \<or> reg_bib (chg_after ch) = []
        \<or> (\<forall>r \<in> set (commit_changes records cs).
              reg_event r = reg_event (chg_after ch) \<and> reg_bib r = reg_bib (chg_after ch)
              \<longrightarrow> reg_id r = reg_id (chg_after ch)))"

lemma commit_changes_elem:
  assumes "r \<in> set (commit_changes records cs)"
    and "\<And>ch. ch \<in> set cs \<Longrightarrow> lawful records c ch" and "distinct (map reg_id records)"
  shows "\<exists>b \<in> set records. reg_id r = reg_id b \<and> reg_event r = reg_event b \<and>
           (r = b \<or> (\<exists>ch \<in> set cs. r = chg_after ch \<and> b = chg_before ch))"
proof -
  from assms(1) obtain b where b: "b \<in> set records"
    and r: "r = (case List.find (\<lambda>ch. chg_reg ch = reg_id b) cs of None \<Rightarrow> b | Some ch \<Rightarrow> chg_after ch)"
    by (auto simp: commit_changes_def)
  show ?thesis
  proof (cases "List.find (\<lambda>ch. chg_reg ch = reg_id b) cs")
    case None
    with b r show ?thesis by auto
  next
    case (Some ch)
    then have ch: "ch \<in> set cs" "chg_reg ch = reg_id b"
      using find_Some_iff' by fastforce+
    have "chg_before ch = b"
      using assms(2) [OF ch(1)] ch(2) b assms(3) by (auto simp: lawful_def distinct_map inj_on_def)
    moreover have "r = chg_after ch" using r Some by simp
    ultimately show ?thesis
      using b ch(1) assms(2) [OF ch(1)] by (auto simp: lawful_def keeps_def)
  qed
qed

lemma commit_unique:
  assumes u: "unique_bibs records" and lw: "\<And>ch. ch \<in> set cs \<Longrightarrow> lawful records c ch"
    and d: "distinct (map reg_id records)" and safe: "bib_safe records cs"
  shows "unique_bibs (commit_changes records cs)"
proof -
  have "reg_id r = reg_id s"
    if r: "r \<in> set (commit_changes records cs)" and s: "s \<in> set (commit_changes records cs)"
      and eq: "reg_bib r \<noteq> []" "reg_bib r = reg_bib s" "reg_event r = reg_event s" for r s
  proof (rule ccontr)
    assume ne: "reg_id r \<noteq> reg_id s"
    have keep: "\<exists>b \<in> set records. reg_id x = reg_id b \<and> reg_event x = reg_event b \<and> reg_bib x = reg_bib b"
      if x: "x \<in> {r, s}" and x_in: "x \<in> set (commit_changes records cs)" for x
    proof -
      from commit_changes_elem [OF x_in lw d] obtain b where b: "b \<in> set records" "reg_id x = reg_id b"
          "reg_event x = reg_event b" "x = b \<or> (\<exists>ch \<in> set cs. x = chg_after ch \<and> b = chg_before ch)"
        by blast
      moreover have "reg_bib x = reg_bib b" if "ch \<in> set cs" "x = chg_after ch" "b = chg_before ch" for ch
        using safe [unfolded bib_safe_def, rule_format, OF that(1)] that eq ne r s x by auto
      ultimately show ?thesis by blast
    qed
    from keep [of r] r obtain b where b: "b \<in> set records" "reg_id r = reg_id b" "reg_event r = reg_event b"
        "reg_bib r = reg_bib b" by auto
    from keep [of s] s obtain b' where b': "b' \<in> set records" "reg_id s = reg_id b'"
        "reg_event s = reg_event b'" "reg_bib s = reg_bib b'" by auto
    show False
      using u [unfolded unique_bibs_def, rule_format, OF b(1) b'(1)] b b' eq ne by simp
  qed
  then show ?thesis unfolding unique_bibs_def by blast
qed

definition bib_quiet :: "registration \<Rightarrow> registration \<Rightarrow> bool" where
  "bib_quiet b a \<longleftrightarrow> reg_bib a = reg_bib b \<or> reg_bib a = []"

lemma bib_safe_quiet:
  "(\<And>ch. ch \<in> set cs \<Longrightarrow> bib_quiet (chg_before ch) (chg_after ch)) \<Longrightarrow> bib_safe records cs"
  by (auto simp: bib_safe_def bib_quiet_def)

lemma bib_quiet_commands:
  "apply_clear source c = Inr a \<Longrightarrow> bib_quiet source a"
  "apply_issue source = Inr a \<Longrightarrow> bib_quiet source a"
  "apply_undo_issue source c = Inr a \<Longrightarrow> bib_quiet source a"
  "apply_set_dns source c = Inr a \<Longrightarrow> bib_quiet source a"
  "apply_release source = Inr a \<Longrightarrow> bib_quiet source a"
  "apply_edit_person source c = Inr a \<Longrightarrow> bib_quiet source a"
  "apply_change_race source c = Inr a \<Longrightarrow> bib_quiet source a"
  "apply_replace_person source c = Inr a \<Longrightarrow> bib_quiet source a"
  by (auto simp: apply_clear_def apply_issue_def apply_undo_issue_def apply_set_dns_def apply_release_def
      apply_edit_person_def apply_change_race_def apply_replace_person_def bib_quiet_def res_simps Let_def
      split: option.splits if_split_asm)

lemma bib_safe_single:
  assumes "bind_res r (\<lambda>after. Inr (single_change source after)) = Inr cs"
    and "\<And>a. r = Inr a \<Longrightarrow> bib_quiet source a"
  shows "bib_safe records cs"
  using assms by (intro bib_safe_quiet) (auto simp: res_simps in_single_change)

lemma bib_safe_move:
  assumes "apply_move rows source c = Inr cs"
  shows "bib_safe records cs"
proof -
  from assms obtain target issue after where "moved_source source target c = Inr after"
    and cs: "cs = [mk_change source after, mk_change target (seated_target source target issue)]"
    unfolding apply_move_Inr by blast
  then have "bib_quiet source after"
    by (auto simp: moved_source_def vacate_source_def bib_quiet_def Let_def split: if_split_asm)
  then show ?thesis
    by (intro bib_safe_quiet) (auto simp: cs seated_target_def bib_quiet_def)
qed

lemma number_holder_bib: "number_holder source c = Inr a \<Longrightarrow> reg_bib a = reg_bib source \<and> keeps source a"
  using keeps_number_holder [of source c a]
  by (auto simp: number_holder_def res_simps split: option.splits if_split_asm)

lemma commit_single_elem:
  "r \<in> set (commit_changes records [mk_change b a]) \<Longrightarrow> r = a \<or> r \<in> set records"
  by (auto simp: commit_changes_def split: option.splits if_split_asm)

lemma bib_safe_number:
  assumes "apply_number records source c = Inr a"
  shows "bib_safe records (single_change source a)"
proof (rule apply_number_Inr [OF assms])
  fix after
  assume h: "number_holder source c = Inr after"
    and a: "a = after \<or> (valid_assigned_bib (cmd_bib c)
       \<and> (\<forall>r \<in> set records. reg_event r = reg_event source \<and> reg_id r \<noteq> reg_id source
             \<longrightarrow> reg_bib r \<noteq> cmd_bib c)
       \<and> (\<exists>i. a = after\<lparr> reg_bib := cmd_bib c, reg_issued := i \<rparr>))"
  note n = number_holder_bib [OF h]
  from a show ?thesis
  proof
    assume "a = after"
    with n show ?thesis
      by (intro bib_safe_quiet) (auto simp: in_single_change bib_quiet_def)
  next
    assume *: "valid_assigned_bib (cmd_bib c) \<and> (\<forall>r \<in> set records. reg_event r = reg_event source
        \<and> reg_id r \<noteq> reg_id source \<longrightarrow> reg_bib r \<noteq> cmd_bib c)
      \<and> (\<exists>i. a = after\<lparr> reg_bib := cmd_bib c, reg_issued := i \<rparr>)"
    then have "reg_bib a = cmd_bib c" "reg_id a = reg_id source" "reg_event a = reg_event source"
      using n by (auto simp: keeps_def)
    with * show ?thesis
      by (auto simp: bib_safe_def single_change_def dest!: commit_single_elem)
  qed
qed

lemma bib_safe_return:
  assumes "apply_return_to_reserve rows source c = Inr cs" and "reg_id source = cmd_reg c"
    and free: "\<And>r. r \<in> set records \<Longrightarrow> reg_event r = reg_event source \<Longrightarrow> reg_id r \<noteq> cmd_reg c
                 \<Longrightarrow> reg_bib r \<noteq> cmd_bib c"
  shows "bib_safe records cs"
proof -
  from assms(1) obtain target where v: "valid_assigned_bib (cmd_bib c)" and
      ne: "reg_id target \<noteq> reg_id source" and blank: "empty_reserve c source = Inr target"
    and cs: "cs = [mk_change source (source\<lparr> reg_bib := [], reg_epc := [], reg_issued := False \<rparr>),
                   mk_change target (target\<lparr> reg_bib := cmd_bib c, reg_epc := reg_epc source,
                                        reg_reserve := True \<rparr>)]"
    unfolding apply_return_to_reserve_Inr by blast
  have "cmd_bib c \<noteq> []" using v by (auto simp: valid_assigned_bib_def parse_int_def)
  then have "reg_id r = reg_id target"
    if "r \<in> set (commit_changes records cs)" "reg_event r = reg_event target" "reg_bib r = cmd_bib c" for r
    using that free assms(2) ne empty_reserve_simps [OF blank]
    by (auto simp: commit_changes_def cs split: if_split_asm)
  then show ?thesis by (auto simp: bib_safe_def cs)
qed

text \<open>
  If the bibs of the roster are unique within each event, they still are after any accepted
  command.  For \<^verbatim>\<open>return_to_reserve\<close>, which may name a bib the row no longer shows, this rests on the
  number being free of other rows, which the receiver checks in the store before it applies the
  command.
\<close>

theorem apply_cmd_unique_bibs:
  assumes "apply_cmd records c = Inr cs" and "unique_bibs records"
    and "cmd_type c = ''return_to_reserve'' \<Longrightarrow>
           \<forall>r \<in> set records. reg_id r \<noteq> cmd_reg c \<longrightarrow> reg_bib r \<noteq> cmd_bib c"
  shows "unique_bibs (commit_changes records cs)"
proof (rule commit_unique [OF assms(2) apply_cmd_lawful_changes [OF assms(1)] apply_cmd_distinct [OF assms(1)]])
  show "bib_safe records cs"
  proof (rule apply_cmd_Inr [OF assms(1)])
    fix rows source
    assume tr: "transition records rows source c = Inr cs" and id: "reg_id source = cmd_reg c"
    have return: "bib_safe records cs"
      if "apply_return_to_reserve rows source c = Inr cs" "cmd_type c = ''return_to_reserve''"
      by (rule bib_safe_return [OF that(1) id]) (use assms(3) [OF that(2)] in auto)
    show ?thesis
      using tr unfolding transition_def Let_def
      by (auto split: if_split_asm simp: bind_res_Inr [of "apply_number records source c"]
          intro: bib_safe_number bib_safe_move return
          elim!: bib_safe_single dest: bib_quiet_commands)
  qed
qed

subsection \<open>Corrections\<close>

lemma reverse_move_Inr:
  assumes "reverse_move records original reason = Inr cs"
  obtains s t where "original = [s, t]" "valid_reason reason"
    "map_res (reverse_one records) original = Inr cs"
    "apply_cmd [chg_before s, chg_before t]
       (zero_command\<lparr> cmd_type := (if empty_source (chg_after s) then ''assign_reserve''
                                    else if release_source (chg_after s) then ''move_to_reserve''
                                    else ''move_race''),
          cmd_reg := chg_reg s, cmd_target := chg_reg t,
          cmd_issue := Some (reg_issued (chg_after t)), cmd_return := Some False \<rparr>) = Inr original"
proof -
  from assms obtain s t where o: "original = [s, t]"
    by (auto simp: reverse_move_def Let_def split: list.splits)
  show thesis
    by (rule that [OF o]) (use assms in \<open>auto simp: o reverse_move_def Let_def split: if_split_asm\<close>)
qed

lemma reverse_one_Inr:
  assumes "reverse_one records ch = Inr ch'"
  shows "ch' = mk_change (chg_after ch) (chg_before ch) \<and> chg_after ch \<in> set records
    \<and> \<not> reg_timing (chg_after ch)"
  using assms
  by (auto simp: reverse_one_def split: option.splits if_split_asm dest!: find_Some_iff')

text \<open>
  A correction only ever undoes: when \<^verbatim>\<open>ReverseMove\<close> accepts, the operation was a move of two
  rows, both still stand in the roster exactly as that move left them and carry no timing
  evidence, and the two changes returned put back exactly the rows before the move.
\<close>

theorem reverse_move_sound:
  assumes "reverse_move records original reason = Inr cs"
  shows "\<exists>s t. original = [s, t]
    \<and> cs = [mk_change (chg_after s) (chg_before s), mk_change (chg_after t) (chg_before t)]
    \<and> chg_after s \<in> set records \<and> chg_after t \<in> set records
    \<and> \<not> reg_timing (chg_after s) \<and> \<not> reg_timing (chg_after t)"
  using assms
proof (rule reverse_move_Inr)
  fix s t
  assume o: "original = [s, t]" and "map_res (reverse_one records) original = Inr cs"
  then obtain s' t' where "cs = [s', t']" "reverse_one records s = Inr s'" "reverse_one records t = Inr t'"
    by (auto simp: res_simps)
  with o show ?thesis by (auto dest!: reverse_one_Inr)
qed

text \<open>The move that \<^verbatim>\<open>ReverseMove\<close> replays, as a function of the source row the move left behind.\<close>

definition replay_type :: "registration \<Rightarrow> string" where
  "replay_type a = (if empty_source a then ''assign_reserve''
                    else if release_source a then ''move_to_reserve'' else ''move_race'')"

lemma vacated_shape:
  assumes "vacate_source s c = Inr a"
  shows "empty_source a \<and> cmd_type c = ''assign_reserve'' \<and> a = s\<lparr> reg_person := None, reg_reserve := False,
             reg_issued := False, reg_status := ''registered'', reg_transferred := None, reg_bib := [],
             reg_epc := [] \<rparr>
    \<or> \<not> empty_source a \<and> release_source a \<and> a = s\<lparr> reg_person := None, reg_reserve := True,
             reg_issued := False, reg_status := ''registered'', reg_transferred := None \<rparr>"
proof (cases "cmd_type c = ''assign_reserve'' \<and> cmd_return c \<noteq> Some True")
  case True
  with assms have "a = s\<lparr> reg_person := None, reg_reserve := False, reg_issued := False,
      reg_status := ''registered'', reg_transferred := None, reg_bib := [], reg_epc := [] \<rparr>"
    by (cases "cmd_return c") (simp_all add: vacate_source_def)
  with True show ?thesis by (simp add: empty_source_def)
next
  case False
  with assms have "a = s\<lparr> reg_person := None, reg_reserve := True, reg_issued := False,
      reg_status := ''registered'', reg_transferred := None \<rparr>"
    by (simp add: vacate_source_def Let_def split: if_split_asm)
  then show ?thesis by (simp add: empty_source_def release_source_def)
qed

lemma replay_moved_source:
  assumes "moved_source s t c = Inr a" and "reg_person s \<noteq> None" and "\<not> reg_reserve s"
    and "cmd_type c' = replay_type a" and "cmd_return c' = Some False"
    and "reg_id t = target"
  shows "moved_source s t c' = Inr a
    \<and> (release_source a \<or> empty_source a \<or> legacy_source a target)
    \<and> (cmd_type c' = ''assign_reserve'' \<longrightarrow> cmd_type c = ''assign_reserve'')
    \<and> (cmd_type c' = ''move_race'' \<longrightarrow> cmd_type c \<noteq> ''move_to_reserve'' \<and> cmd_type c \<noteq> ''assign_reserve'')"
proof (cases "cmd_type c = ''move_to_reserve'' \<or> cmd_type c = ''assign_reserve''")
  case True
  with assms have "vacate_source s c = Inr a" by (simp add: moved_source_def)
  from vacated_shape [OF this] show ?thesis
    using assms(4,5) by (auto simp: replay_type_def moved_source_def vacate_source_def)
next
  case False
  with assms have a: "a = s\<lparr> reg_status := ''dns'', reg_transferred := Some (reg_id t) \<rparr>"
    by (simp add: moved_source_def)
  with assms(2) have "\<not> empty_source a" "\<not> release_source a"
    by (auto simp: empty_source_def release_source_def)
  then show ?thesis using assms(3,4,6) False
    by (simp add: replay_type_def moved_source_def a legacy_source_def)
qed

lemma index_two:
  assumes "validate_registration s = Inr ()" "validate_registration t = Inr ()" "reg_id s \<noteq> reg_id t"
  shows "index_records [s, t] Map.empty = Inr [reg_id s \<mapsto> s, reg_id t \<mapsto> t]"
  using assms by simp

lemma transition_move:
  "cmd_type c \<in> {''move_race'', ''move_to_reserve'', ''assign_reserve''} \<Longrightarrow>
     transition records rows source c = apply_move rows source c"
  by (auto simp: transition_def)

lemma replay_move:
  assumes v: "validate_registration s = Inr ()" "validate_registration t = Inr ()"
    and mv: "apply_move rows s c = Inr [mk_change s a, mk_change t u]" and tid: "reg_id t = cmd_target c"
    and ty: "cmd_type c \<in> {''move_race'', ''move_to_reserve'', ''assign_reserve''}"
  shows "apply_cmd [s, t] (zero_command\<lparr> cmd_type := replay_type a, cmd_reg := reg_id s,
             cmd_target := reg_id t, cmd_issue := Some (reg_issued u), cmd_return := Some False \<rparr>)
           = Inr [mk_change s a, mk_change t u]
    \<and> (release_source a \<or> empty_source a \<or> legacy_source a (reg_id t)) \<and> reg_reserve t \<and> reg_id s \<noteq> reg_id t"
    (is "apply_cmd _ ?c = _ \<and> _")
proof -
  from mv obtain target issue after where m: "require_editable s = Inr ()" "require_assigned s = Inr ()"
      "cmd_target c \<noteq> reg_id s" "reg_event target = reg_event s"
      "cmd_type c = ''move_race'' \<longrightarrow> reg_race target \<noteq> reg_race s"
      "cmd_type c = ''assign_reserve'' \<longrightarrow> reg_bib target \<noteq> []" "free_slot target"
      "moved_source s target c = Inr after"
    and "[mk_change s a, mk_change t u] = [mk_change s after, mk_change target (seated_target s target issue)]"
    unfolding apply_move_Inr by blast
  then have eqs: "target = t" "after = a" "u = seated_target s t issue"
    by (auto simp: mk_change_def)
  note m = m [unfolded eqs(1,2)]
  have asg: "reg_person s \<noteq> None" "\<not> reg_reserve s" using m(2) by (simp_all add: require_assigned_iff)
  have r: "moved_source s t ?c = Inr a \<and> (release_source a \<or> empty_source a \<or> legacy_source a (reg_id t))
      \<and> (cmd_type ?c = ''assign_reserve'' \<longrightarrow> cmd_type c = ''assign_reserve'')
      \<and> (cmd_type ?c = ''move_race'' \<longrightarrow> cmd_type c \<noteq> ''move_to_reserve'' \<and> cmd_type c \<noteq> ''assign_reserve'')"
    by (rule replay_moved_source [OF m(8) asg]) simp_all
  have ne: "reg_id s \<noteq> reg_id t" using m(3) tid by simp
  have ty': "cmd_type ?c \<in> {''move_race'', ''move_to_reserve'', ''assign_reserve''}"
    by (simp add: replay_type_def)
  have "apply_move [reg_id s \<mapsto> s, reg_id t \<mapsto> t] s ?c = Inr [mk_change s a, mk_change t u]"
    unfolding apply_move_Inr
    by (rule exI [of _ t], rule exI [of _ issue], rule exI [of _ a])
       (use m r ne ty in \<open>auto simp: eqs seated_target_def\<close>)
  then have "apply_cmd [s, t] ?c = Inr [mk_change s a, mk_change t u]"
    using ne unfolding apply_cmd_def index_two [OF v ne] bind_res_simps
    by (simp add: transition_move [OF ty'])
  with r ne m(7) show ?thesis by (simp add: free_slot_def)
qed

lemma ids_commit:
  assumes "\<And>ch. ch \<in> set cs \<Longrightarrow> chg_reg ch = reg_id (chg_after ch)"
  shows "map reg_id (commit_changes records cs) = map reg_id records"
  unfolding commit_changes_def using assms
  by (auto split: option.splits dest!: find_Some_iff')

lemma last_record_distinct:
  "\<lbrakk> distinct (map reg_id rs); r \<in> set rs \<rbrakk> \<Longrightarrow> last_record rs (reg_id r) = Some r"
  by (simp add: find_key_unique rev_map [symmetric])

lemma commit_two_elem:
  assumes "b \<in> set records" "find (\<lambda>ch. chg_reg ch = reg_id b) cs = Some ch"
  shows "chg_after ch \<in> set (commit_changes records cs)"
  using assms by (force simp: commit_changes_def)

lemma commit_back:
  assumes "distinct (map reg_id records)" "s \<in> set records" "t \<in> set records" "reg_id s \<noteq> reg_id t"
    and "reg_id a = reg_id s" "reg_id u = reg_id t"
  shows "commit_changes (commit_changes records [mk_change s a, mk_change t u])
           [mk_change a s, mk_change u t] = records"
proof -
  have restored: "(case find (\<lambda>ch. chg_reg ch = reg_id r') [mk_change a s, mk_change u t] of
                 None \<Rightarrow> r' | Some ch \<Rightarrow> chg_after ch) = r"
    if r: "r \<in> set records"
      and r': "r' = (case find (\<lambda>ch. chg_reg ch = reg_id r) [mk_change s a, mk_change t u] of
                       None \<Rightarrow> r | Some ch \<Rightarrow> chg_after ch)" for r r'
  proof -
    have "r = x" if "reg_id r = reg_id x" "x \<in> set records" for x
      using that r assms(1) by (auto simp: distinct_map inj_on_def)
    then show ?thesis
      using assms(2-6) r' by (cases "reg_id r = reg_id s"; cases "reg_id r = reg_id t") auto
  qed
  show ?thesis
    unfolding commit_changes_def map_map by (rule map_idI) (simp only: o_def restored)
qed

lemma committed_valid:
  assumes ap: "apply_cmd records c = Inr changes" and r: "r \<in> set (commit_changes records changes)"
  shows "validate_registration r = Inr ()"
proof -
  have lw: "lawful records c ch" if "ch \<in> set changes" for ch by (rule apply_cmd_lawful_changes [OF ap that])
  have old: "validate_registration x = Inr ()" if "x \<in> set records" for x by (rule apply_cmd_valid [OF ap that])
  from commit_changes_elem [OF r lw apply_cmd_distinct [OF ap]]
  consider "r \<in> set records" | ch where "ch \<in> set changes" "r = chg_after ch" by blast
  then show ?thesis
  proof cases
    case 1
    then show ?thesis by (rule old)
  next
    case (2 ch)
    then show ?thesis using lw [OF 2(1)] old by (simp add: lawful_def keeps_def)
  qed
qed

text \<open>
  C3. Moves can be undone.  Take any accepted \<^verbatim>\<open>move_race\<close>, \<^verbatim>\<open>move_to_reserve\<close> or \<^verbatim>\<open>assign_reserve\<close> that
  left the source row its bib and chip, and the roster it produced.  \<^verbatim>\<open>ReverseMove\<close> with a valid
  reason accepts the correction, and applying it gives back the original roster.
\<close>

theorem reverse_move_roundtrip:
  assumes ap: "apply_cmd records c = Inr [s, t]"
    and ty: "cmd_type c \<in> {''move_race'', ''move_to_reserve'', ''assign_reserve''}"
    and reason: "valid_reason reason"
    and bib: "reg_bib (chg_after s) = reg_bib (chg_before s)" "reg_epc (chg_after s) = reg_epc (chg_before s)"
  shows "\<exists>cs. reverse_move (commit_changes records [s, t]) [s, t] reason = Inr cs
            \<and> commit_changes (commit_changes records [s, t]) cs = records"
proof (rule apply_cmd_Inr [OF ap])
  fix rows source
  assume ix: "index_records records Map.empty = Inr rows" and "transition records rows source c = Inr [s, t]"
    and src: "source \<in> set records"
  then have mv: "apply_move rows source c = Inr [s, t]" by (simp only: transition_move [OF ty])
  then obtain target issue after where tgt: "rows (cmd_target c) = Some target"
    and st: "s = mk_change source after" "t = mk_change target (seated_target source target issue)"
    and timing: "require_editable source = Inr ()" "free_slot target"
    unfolding apply_move_Inr by blast
  let ?u = "seated_target source target issue" and ?R = "commit_changes records [s, t]"
  from index_records_Some [OF ix tgt] have tin: "target \<in> set records" and tid: "reg_id target = cmd_target c"
    by auto
  have vR: "validate_registration r = Inr ()" if "r \<in> set records" for r
    by (rule apply_cmd_valid [OF ap that])
  have rp: "apply_cmd [source, target] (zero_command\<lparr> cmd_type := replay_type after, cmd_reg := reg_id source,
             cmd_target := reg_id target, cmd_issue := Some (reg_issued ?u), cmd_return := Some False \<rparr>)
           = Inr [s, t]
    \<and> (release_source after \<or> empty_source after \<or> legacy_source after (reg_id target))
    \<and> reg_reserve target \<and> reg_id source \<noteq> reg_id target"
    unfolding st by (rule replay_move [OF vR [OF src] vR [OF tin] mv [unfolded st] tid ty])
  have lw: "lawful records c ch" if "ch \<in> set [s, t]" for ch
    by (rule apply_cmd_lawful_changes [OF ap that])
  have ks: "keeps source after \<and> reg_race after = reg_race source" "keeps target ?u \<and> reg_race ?u = reg_race target"
    using lw [of s] lw [of t] ty by (auto simp: st lawful_def)
  have dR: "distinct (map reg_id ?R)"
    using apply_cmd_distinct [OF ap] ks by (subst ids_commit) (auto simp: st keeps_def)
  have inR: "after \<in> set ?R" "?u \<in> set ?R"
    using commit_two_elem [OF src, of "[s, t]" s] commit_two_elem [OF tin, of "[s, t]" t] rp
    by (auto simp: st)
  have validR: "validate_registration r = Inr ()" if "r \<in> set ?R" for r by (rule committed_valid [OF ap that])
  have one: "reverse_one ?R s = Inr (mk_change after source)"
      "reverse_one ?R t = Inr (mk_change ?u target)"
    using last_record_distinct [OF dR inR(1)] last_record_distinct [OF dR inR(2)] ks timing bib
    by (simp_all add: reverse_one_def st keeps_def require_editable_iff free_slot_def seated_target_def
        del: last_record.simps)
  have "reverse_move ?R [s, t] reason = Inr [mk_change after source, mk_change ?u target]"
    using reason rp one validR
    by (simp add: reverse_move_def Let_def st replay_type_def list_all_iff)
  moreover have "commit_changes ?R [mk_change after source, mk_change ?u target] = records"
    unfolding st using apply_cmd_distinct [OF ap] src tin rp ks by (intro commit_back) (auto simp: keeps_def)
  ultimately show ?thesis by blast
qed

subsection \<open>Concrete instances\<close>

text \<open>An assigned registration, a reserve slot of the same event, and a move of the first to the second.\<close>

definition w_person :: person where
  "w_person = \<lparr> per_id = ''p1'', per_first = ''Ann'', per_last = ''Lee'', per_birth = [], per_gender = [],
     per_team = [], per_city = [] \<rparr>"

definition w_source :: registration where
  "w_source = zero_registration\<lparr> reg_id := ''1'', reg_event := ''e'', reg_race := ''r'', reg_bib := ''7'',
     reg_person := Some w_person, reg_status := ''registered'' \<rparr>"

definition w_target :: registration where
  "w_target = zero_registration\<lparr> reg_id := ''2'', reg_event := ''e'', reg_race := ''r'', reg_bib := ''8'',
     reg_reserve := True, reg_status := ''registered'' \<rparr>"

definition w_move :: command where
  "w_move = zero_command\<lparr> cmd_type := ''move_to_reserve'', cmd_reg := ''1'', cmd_target := ''2'',
     cmd_issue := Some True \<rparr>"

definition w_vacated :: registration where
  "w_vacated = w_source\<lparr> reg_person := None, reg_reserve := True \<rparr>"

definition w_seated :: registration where
  "w_seated = w_target\<lparr> reg_person := Some w_person, reg_reserve := False, reg_issued := True \<rparr>"

lemmas w_defs = w_person_def w_source_def w_target_def w_move_def w_vacated_def w_seated_def
  zero_registration_def zero_command_def

lemma w_person_valid: "validate_person w_person = Inr ()"
  by (simp add: validate_person_def w_person_def text_eval)

lemma w_rows_valid:
  "validate_registration w_source = Inr ()" "validate_registration w_target = Inr ()"
  using w_person_valid
  by (simp_all add: validate_registration_iff w_source_def w_target_def zero_registration_def
      identifier_pattern_def is_lower_def is_digit_def byte_of_def)

lemma w_apply: "apply_cmd [w_source, w_target] w_move = Inr [mk_change w_source w_vacated, mk_change w_target w_seated]"
proof -
  have "index_records [w_source, w_target] Map.empty = Inr [''1'' \<mapsto> w_source, ''2'' \<mapsto> w_target]"
    using index_two [OF w_rows_valid] by (simp add: w_source_def w_target_def)
  then show ?thesis
    by (simp add: apply_cmd_def transition_def apply_move_def require_editable_def require_assigned_def
        moved_source_def vacate_source_def seated_target_def free_slot_def w_defs)
qed

theorem apply_cmd_lawful_witness:
  "chg_before (mk_change w_target w_seated) \<in> set [w_source, w_target]
   \<and> validate_registration w_seated = Inr ()"
  using apply_cmd_lawful [OF w_apply, of "mk_change w_target w_seated"] by simp

theorem apply_cmd_unique_bibs_witness:
  "unique_bibs (commit_changes [w_source, w_target] [mk_change w_source w_vacated, mk_change w_target w_seated])"
  by (rule apply_cmd_unique_bibs [OF w_apply]) (auto simp: unique_bibs_def w_defs)

lemma w_reason: "valid_reason ''x''"
  by (simp add: text_eval)

lemma w_shape: "reg_bib w_vacated = reg_bib w_source" "reg_epc w_vacated = reg_epc w_source"
  by (simp_all add: w_vacated_def)

theorem reverse_move_roundtrip_witness:
  "\<exists>cs. reverse_move (commit_changes [w_source, w_target] [mk_change w_source w_vacated, mk_change w_target w_seated])
           [mk_change w_source w_vacated, mk_change w_target w_seated] ''x'' = Inr cs
        \<and> commit_changes (commit_changes [w_source, w_target]
             [mk_change w_source w_vacated, mk_change w_target w_seated]) cs = [w_source, w_target]"
  by (rule reverse_move_roundtrip [OF w_apply _ w_reason]) (simp_all add: w_move_def w_shape)

lemma w_reverse:
  "reverse_move [w_vacated, w_seated] [mk_change w_source w_vacated, mk_change w_target w_seated] ''x''
     = Inr [mk_change w_vacated w_source, mk_change w_seated w_target]"
proof -
  have v: "validate_registration w_vacated = Inr ()" "validate_registration w_seated = Inr ()"
    using apply_cmd_lawful_changes [OF w_apply, of "mk_change w_source w_vacated"]
      apply_cmd_lawful_changes [OF w_apply, of "mk_change w_target w_seated"] w_rows_valid
    by (simp_all add: lawful_def keeps_def)
  have shape: "release_source w_vacated" "\<not> empty_source w_vacated" "reg_reserve w_target"
      "reg_id w_source = ''1''" "reg_id w_target = ''2''" "reg_issued w_seated"
    by (simp_all add: release_source_def empty_source_def w_defs)
  have "index_records [w_source, w_target] Map.empty = Inr [''1'' \<mapsto> w_source, ''2'' \<mapsto> w_target]"
    using index_two [OF w_rows_valid] by (simp add: w_source_def w_target_def)
  then have "apply_cmd [w_source, w_target] (zero_command\<lparr> cmd_type := ''move_to_reserve'', cmd_reg := ''1'',
          cmd_target := ''2'', cmd_issue := Some True, cmd_return := Some False \<rparr>)
        = Inr [mk_change w_source w_vacated, mk_change w_target w_seated]"
    by (simp add: apply_cmd_def transition_def apply_move_def require_editable_def require_assigned_def
        moved_source_def vacate_source_def seated_target_def free_slot_def w_defs)
  moreover have "reverse_one [w_vacated, w_seated] (mk_change w_source w_vacated) = Inr (mk_change w_vacated w_source)"
      "reverse_one [w_vacated, w_seated] (mk_change w_target w_seated) = Inr (mk_change w_seated w_target)"
    by (simp_all add: reverse_one_def w_defs)
  ultimately show ?thesis
    using v shape w_reason by (simp add: reverse_move_def Let_def)
qed

theorem reverse_move_sound_witness:
  "\<exists>s t. [mk_change w_source w_vacated, mk_change w_target w_seated] = [s, t]
    \<and> chg_after s \<in> set [w_vacated, w_seated] \<and> \<not> reg_timing (chg_after t)"
  using reverse_move_sound [OF w_reverse] by blast

end
