(* ===== verification/Json.thy ===== *)
theory Json
  imports GoText
begin

section \<open>JSON values\<close>

text \<open>
  The values \<^verbatim>\<open>encoding/json\<close> decodes into \<^verbatim>\<open>any\<close>: a Go map is the association list of its entries
  in ascending key order, so that equality of well-formed values is \<^verbatim>\<open>reflect.DeepEqual\<close>.  Numbers
  keep their text (\<^verbatim>\<open>json.Number\<close>).  Here are the lookups of the validators, the canonical writer of
  \<^verbatim>\<open>packetissuance/validation.go\<close>, and the field-wise comparisons and merges of
  \<^verbatim>\<open>service/packet_issuance.go\<close>, \<^verbatim>\<open>packet_issuance_feed.go\<close> and \<^verbatim>\<open>packet_issuance_resolution.go\<close>.
\<close>

datatype json =
    JNull
  | JBool bool
  | JText string
  | JNumber string
  | JList "json list"
  | JObject "(string \<times> json) list"

text \<open>A well-formed value: every object has strictly ascending keys.\<close>

fun wf_json :: "json \<Rightarrow> bool" where
  "wf_json (JList xs) = list_all wf_json xs"
| "wf_json (JObject fs) = (sorted_wrt (<) (map fst fs) \<and> list_all (\<lambda>kv. wf_json (snd kv)) fs)"
| "wf_json _ = True"

subsection \<open>Access\<close>

text \<open>\<^verbatim>\<open>obj[key]\<close>: an absent key reads as nil.\<close>

definition field :: "string \<Rightarrow> (string \<times> json) list \<Rightarrow> json" where
  "field k fs = (case map_of fs k of None \<Rightarrow> JNull | Some v \<Rightarrow> v)"

definition exact_keys :: "(string \<times> json) list \<Rightarrow> string list \<Rightarrow> bool" where
  "exact_keys fs ks \<longleftrightarrow> length fs = length ks \<and> list_all (\<lambda>k. map_of fs k \<noteq> None) ks"

definition same_keys :: "(string \<times> json) list \<Rightarrow> (string \<times> json) list \<Rightarrow> bool" where
  "same_keys l r \<longleftrightarrow> length l = length r \<and> list_all (\<lambda>kv. map_of r (fst kv) \<noteq> None) l"

fun string_value :: "json \<Rightarrow> string" where
  "string_value (JText s) = s"
| "string_value _ = []"

fun integer_value :: "json \<Rightarrow> int" where
  "integer_value (JNumber s) = (case parse_int 64 s of None \<Rightarrow> -1 | Some n \<Rightarrow> n)"
| "integer_value _ = -1"

subsection \<open>Three-way comparison and merge\<close>

lemma entry_size [termination_simp]:
  "kv \<in> set fs \<Longrightarrow> size (snd kv) < Suc (size_list (size_prod (\<lambda>_. 0) size) fs)"
  by (induction fs) auto

fun recursive_compatible :: "json \<Rightarrow> json \<Rightarrow> json \<Rightarrow> bool" where
  "recursive_compatible b a c =
     (if b = a then True
      else case (b, a, c) of
        (JObject bm, JObject am, JObject cm) \<Rightarrow>
          if same_keys bm am \<and> same_keys bm cm
          then list_all (\<lambda>kv. recursive_compatible (snd kv) (field (fst kv) am) (field (fst kv) cm)) bm
          else c = b \<or> c = a
      | _ \<Rightarrow> c = b \<or> c = a)"

fun recursive_changed_equal :: "json \<Rightarrow> json \<Rightarrow> json \<Rightarrow> json \<Rightarrow> bool" where
  "recursive_changed_equal b a l r =
     (if b = a then True
      else case (b, a, l, r) of
        (JObject bm, JObject am, JObject lm, JObject rm) \<Rightarrow>
          if same_keys bm am \<and> same_keys bm lm \<and> same_keys bm rm
          then list_all (\<lambda>kv. recursive_changed_equal (snd kv) (field (fst kv) am) (field (fst kv) lm)
                                 (field (fst kv) rm)) bm
          else l = r
      | _ \<Rightarrow> l = r)"

fun recursive_effect :: "json \<Rightarrow> json \<Rightarrow> json \<Rightarrow> json \<Rightarrow> bool" where
  "recursive_effect b a ab aa =
     (if b = a then ab = aa
      else case (b, a, ab, aa) of
        (JObject bm, JObject am, JObject abm, JObject aam) \<Rightarrow>
          if same_keys bm am \<and> same_keys bm abm \<and> same_keys bm aam
          then list_all (\<lambda>kv. recursive_effect (snd kv) (field (fst kv) am) (field (fst kv) abm)
                                 (field (fst kv) aam)) bm
          else aa = a \<and> (ab = b \<or> ab = a)
      | _ \<Rightarrow> aa = a \<and> (ab = b \<or> ab = a))"

text \<open>\<^verbatim>\<open>mergePacketFeedValue\<close>: the fields of an object are merged one by one, anything else as a whole.\<close>

fun all_some :: "('a \<times> 'b option) list \<Rightarrow> ('a \<times> 'b) list option" where
  "all_some [] = Some []"
| "all_some ((k, v) # xs) =
     (case (v, all_some xs) of (Some w, Some ys) \<Rightarrow> Some ((k, w) # ys) | _ \<Rightarrow> None)"

fun merge_value :: "json \<Rightarrow> json \<Rightarrow> json \<Rightarrow> json option" where
  "merge_value b a c =
     (if b = a then Some c
      else case (b, a, c) of
        (JObject bm, JObject am, JObject cm) \<Rightarrow>
          if same_keys bm am \<and> same_keys bm cm
          then map_option JObject (all_some
                 (map (\<lambda>kv. (fst kv, merge_value (snd kv) (field (fst kv) am) (field (fst kv) cm))) bm))
          else if c = b \<or> c = a then Some a else None
      | _ \<Rightarrow> if c = b \<or> c = a then Some a else None)"

text \<open>
  \<^verbatim>\<open>overlayPacketValue\<close>: the current object with every field the change names written over; a field
  of the before image that the current object lacks is added at its sorted place.
\<close>

fun put :: "string \<Rightarrow> json \<Rightarrow> (string \<times> json) list \<Rightarrow> (string \<times> json) list" where
  "put k v [] = [(k, v)]"
| "put k v ((k', v') # fs) =
     (if k = k' then (k, v) # fs else if k < k' then (k, v) # (k', v') # fs else (k', v') # put k v fs)"

fun overlay_value :: "json \<Rightarrow> json \<Rightarrow> json \<Rightarrow> json" where
  "overlay_value b a c =
     (if b = a then c
      else case (b, a, c) of
        (JObject bm, JObject am, JObject cm) \<Rightarrow>
          if length bm = length am \<and> length bm = length cm
          then JObject (fold (\<lambda>kv. put (fst kv) (snd kv))
                 (map (\<lambda>kv. (fst kv, overlay_value (snd kv) (field (fst kv) am) (field (fst kv) cm))) bm) cm)
          else a
      | _ \<Rightarrow> a)"

declare recursive_compatible.simps [simp del] recursive_changed_equal.simps [simp del]
  recursive_effect.simps [simp del] merge_value.simps [simp del] overlay_value.simps [simp del]


subsection \<open>Objects with the same keys\<close>

text \<open>
  A well-formed object is its key list and a function on keys.  The three-way functions work field
  by field exactly on \<open>aligned\<close> values, and as a whole on all others; the rules below replace their
  defining equations.
\<close>

definition obj :: "string list \<Rightarrow> (string \<Rightarrow> json) \<Rightarrow> json" where
  "obj ks f = JObject (map (\<lambda>k. (k, f k)) ks)"

fun aligned :: "json \<Rightarrow> json \<Rightarrow> json \<Rightarrow> bool" where
  "aligned (JObject bm) (JObject am) (JObject cm) = (same_keys bm am \<and> same_keys bm cm)"
| "aligned _ _ _ = False"

lemma map_of_keys: "map_of (map (\<lambda>k. (k, f k)) ks) k = (if k \<in> set ks then Some (f k) else None)"
  by (induction ks) auto

lemma field_keys [simp]: "k \<in> set ks \<Longrightarrow> field k (map (\<lambda>k. (k, f k)) ks) = f k"
  by (simp add: field_def map_of_keys)

lemma wf_obj [simp]: "wf_json (obj ks f) \<longleftrightarrow> sorted_wrt (<) ks \<and> (\<forall>k \<in> set ks. wf_json (f k))"
  by (auto simp: obj_def list_all_iff o_def)

lemma obj_eq [simp]: "obj ks f = obj ks g \<longleftrightarrow> (\<forall>k \<in> set ks. f k = g k)"
  by (auto simp: obj_def)

lemma same_keys_keys [simp]: "same_keys (map (\<lambda>k. (k, f k)) ks) (map (\<lambda>k. (k, g k)) ks)"
  by (auto simp: same_keys_def map_of_keys list_all_iff)

lemma obj_of_fields:
  assumes "sorted_wrt (<) (map fst fs)"
  shows "JObject fs = obj (map fst fs) (\<lambda>k. field k fs)"
proof -
  have "distinct (map fst fs)" using assms by (simp add: strict_sorted_iff)
  then have "field (fst kv) fs = snd kv" if "kv \<in> set fs" for kv
    using that by (cases kv) (simp add: field_def)
  then show ?thesis by (simp add: obj_def o_def map_idI)
qed

lemma same_keys_sorted:
  assumes "sorted_wrt (<) (map fst l)" and "sorted_wrt (<) (map fst r)"
  shows "same_keys l r \<longleftrightarrow> map fst l = map fst r"
proof
  assume sk: "same_keys l r"
  have "fst ` set l \<subseteq> fst ` set r"
    using sk by (force simp: same_keys_def list_all_iff map_of_eq_None_iff)
  moreover have "card (fst ` set l) = card (fst ` set r)"
    using assms sk distinct_card [of "map fst l"] distinct_card [of "map fst r"]
    by (simp add: strict_sorted_iff same_keys_def)
  ultimately have "fst ` set l = fst ` set r" by (simp add: card_subset_eq)
  then show "map fst l = map fst r"
    using assms by (intro strict_sorted_equal) auto
next
  assume eq: "map fst l = map fst r"
  then have "fst ` set l = fst ` set r" by (metis set_map)
  then show "same_keys l r"
    using eq by (auto simp: same_keys_def list_all_iff map_of_eq_None_iff dest: map_eq_imp_length_eq)
qed

lemma aligned_obj:
  assumes "wf_json b" "wf_json a" "wf_json c" "aligned b a c"
  obtains ks fb fa fc where "sorted_wrt (<) ks" "b = obj ks fb" "a = obj ks fa" "c = obj ks fc"
proof -
  from assms(4) obtain bm am cm where 1: "b = JObject bm" "a = JObject am" "c = JObject cm"
    "same_keys bm am" "same_keys bm cm"
    by (cases "(b, a, c)" rule: aligned.cases) auto
  with assms have 2: "map fst bm = map fst am" "map fst bm = map fst cm" "sorted_wrt (<) (map fst bm)"
    using same_keys_sorted by auto
  show thesis
    by (rule that [of "map fst bm" "\<lambda>k. field k bm" "\<lambda>k. field k am" "\<lambda>k. field k cm"])
      (use 1 2 obj_of_fields in simp_all)
qed

lemma aligned_keys [simp]: "aligned (obj ks fb) (obj ks fa) (obj ks fc)"
  by (simp add: obj_def)

lemma three_way_induct [consumes 3, case_names fields whole]:
  assumes "wf_json b" "wf_json a" "wf_json c"
    and "\<And>ks fb fa fc. sorted_wrt (<) ks \<Longrightarrow>
      \<forall>k \<in> set ks. wf_json (fb k) \<and> wf_json (fa k) \<and> wf_json (fc k) \<and> P (fb k) (fa k) (fc k) \<Longrightarrow>
      P (obj ks fb) (obj ks fa) (obj ks fc)"
    and "\<And>b a c. wf_json b \<Longrightarrow> wf_json a \<Longrightarrow> wf_json c \<Longrightarrow> \<not> aligned b a c \<Longrightarrow> P b a c"
  shows "P b a c"
  using assms(1-3)
proof (induction "size b" arbitrary: b a c rule: less_induct)
  case less
  show ?case
  proof (cases "aligned b a c")
    case True
    from aligned_obj [OF less.prems True] obtain ks fb fa fc
      where *: "sorted_wrt (<) ks" "b = obj ks fb" "a = obj ks fa" "c = obj ks fc" .
    have "P (fb k) (fa k) (fc k)" if "k \<in> set ks" for k
    proof (rule less.hyps)
      show "size (fb k) < size b"
        using entry_size [of "(k, fb k)" "map (\<lambda>k. (k, fb k)) ks"] that by (simp add: * obj_def)
    qed (use less.prems that * in auto)
    then show ?thesis using less.prems unfolding * by (intro assms(4)) auto
  qed (use assms(5) less.prems in blast)
qed

lemma all_some_keys:
  "all_some (map (\<lambda>k. (k, f k)) ks) =
     (if \<forall>k \<in> set ks. f k \<noteq> None then Some (map (\<lambda>k. (k, the (f k))) ks) else None)"
  by (induction ks) (auto split: option.splits)

lemma recursive_compatible_same [simp]: "recursive_compatible b b c"
  and recursive_changed_equal_same [simp]: "recursive_changed_equal b b l r"
  and recursive_effect_same [simp]: "recursive_effect b b l r \<longleftrightarrow> l = r"
  and merge_value_same [simp]: "merge_value b b c = Some c"
  and overlay_value_same [simp]: "overlay_value b b c = c"
  by (simp_all add: recursive_compatible.simps recursive_changed_equal.simps recursive_effect.simps
      merge_value.simps overlay_value.simps)

lemma recursive_compatible_fields [simp]:
  "recursive_compatible (obj ks fb) (obj ks fa) (obj ks fc)
     \<longleftrightarrow> (\<forall>k \<in> set ks. recursive_compatible (fb k) (fa k) (fc k))"
proof (cases "\<forall>k \<in> set ks. fb k = fa k")
  case True
  then show ?thesis by (subst recursive_compatible.simps) simp
next
  case False
  then show ?thesis
    by (subst recursive_compatible.simps) (auto simp: obj_def list_all_iff)
qed

lemma recursive_changed_equal_fields [simp]:
  "recursive_changed_equal (obj ks fb) (obj ks fa) (obj ks fl) (obj ks fr)
     \<longleftrightarrow> (\<forall>k \<in> set ks. recursive_changed_equal (fb k) (fa k) (fl k) (fr k))"
proof (cases "\<forall>k \<in> set ks. fb k = fa k")
  case True
  then show ?thesis by (subst recursive_changed_equal.simps) simp
next
  case False
  then show ?thesis
    by (subst recursive_changed_equal.simps) (auto simp: obj_def list_all_iff)
qed

lemma recursive_effect_fields [simp]:
  "recursive_effect (obj ks fb) (obj ks fa) (obj ks fl) (obj ks fr)
     \<longleftrightarrow> (\<forall>k \<in> set ks. recursive_effect (fb k) (fa k) (fl k) (fr k))"
proof (cases "\<forall>k \<in> set ks. fb k = fa k")
  case True
  then show ?thesis by (subst recursive_effect.simps) simp
next
  case False
  then show ?thesis
    by (subst recursive_effect.simps) (auto simp: obj_def list_all_iff)
qed

lemma merge_value_fields [simp]:
  "merge_value (obj ks fb) (obj ks fa) (obj ks fc) =
     (if \<forall>k \<in> set ks. merge_value (fb k) (fa k) (fc k) \<noteq> None
      then Some (obj ks (\<lambda>k. the (merge_value (fb k) (fa k) (fc k)))) else None)"
proof (cases "\<forall>k \<in> set ks. fb k = fa k")
  case True
  then show ?thesis by (subst merge_value.simps) simp
next
  case False
  have *: "map (\<lambda>k. (k, merge_value (fb k) (field k (map (\<lambda>k. (k, fa k)) ks))
        (field k (map (\<lambda>k. (k, fc k)) ks)))) ks
      = map (\<lambda>k. (k, merge_value (fb k) (fa k) (fc k))) ks"
    by simp
  from False show ?thesis
    by (subst merge_value.simps) (auto simp: obj_def o_def * all_some_keys)
qed

lemma whole_rules:
  assumes "\<not> aligned b a c"
  shows "recursive_compatible b a c \<longleftrightarrow> b = a \<or> c = b \<or> c = a"
    and "merge_value b a c = (if b = a then Some c else if c = b \<or> c = a then Some a else None)"
    and "recursive_changed_equal b a c r \<longleftrightarrow> b = a \<or> c = r"
    and "recursive_effect b a c r \<longleftrightarrow> (if b = a then c = r else r = a \<and> (c = b \<or> c = a))"
proof -
  show "recursive_compatible b a c \<longleftrightarrow> b = a \<or> c = b \<or> c = a"
    using assms by (subst recursive_compatible.simps) (auto split: json.splits)
  show "merge_value b a c = (if b = a then Some c else if c = b \<or> c = a then Some a else None)"
    using assms by (subst merge_value.simps) (auto split: json.splits)
  show "recursive_changed_equal b a c r \<longleftrightarrow> b = a \<or> c = r"
    using assms by (subst recursive_changed_equal.simps) (auto split: json.splits)
  show "recursive_effect b a c r \<longleftrightarrow> (if b = a then c = r else r = a \<and> (c = b \<or> c = a))"
    using assms by (subst recursive_effect.simps) (auto split: json.splits)
qed

subsection \<open>What a merge promises\<close>

lemma aligned_swap:
  assumes "wf_json b" "wf_json a" "wf_json c" "aligned b a c"
  shows "aligned b c a"
  by (rule aligned_obj [OF assms]) simp

lemma merge_wf:
  assumes "wf_json b" "wf_json a" "wf_json c" "merge_value b a c = Some m"
  shows "wf_json m"
  using assms
proof (induction b a c arbitrary: m rule: three_way_induct)
  case (fields ks fb fa fc)
  then show ?case by (force split: if_split_asm)
qed (auto simp: whole_rules split: if_split_asm)

lemma merge_target:
  assumes "wf_json b" "wf_json a"
  shows "merge_value b a b = Some a"
proof -
  have "wf_json c \<Longrightarrow> c = b \<Longrightarrow> merge_value b a c = Some a" for c
    using assms
  proof (induction b a c rule: three_way_induct)
    case (fields ks fb fa fc)
    then show ?case by auto
  qed (auto simp: whole_rules)
  then show ?thesis using assms by simp
qed

lemma merge_symmetric:
  assumes "wf_json b" "wf_json a" "wf_json c"
  shows "merge_value b a c = merge_value b c a"
  using assms
proof (induction b a c rule: three_way_induct)
  case (fields ks fb fa fc)
  then show ?case by auto
next
  case (whole b a c)
  then have "\<not> aligned b c a" using aligned_swap by blast
  with whole show ?case by (auto simp: whole_rules)
qed

lemma merge_compatible:
  assumes "wf_json b" "wf_json a" "wf_json c"
  shows "merge_value b a c \<noteq> None \<longleftrightarrow> recursive_compatible b a c"
  using assms
proof (induction b a c rule: three_way_induct)
  case (fields ks fb fa fc)
  then show ?case by auto
qed (auto simp: whole_rules)

lemma merge_effect:
  assumes "wf_json b" "wf_json a" "wf_json c" "merge_value b a c = Some m"
  shows "recursive_effect b a c m"
  using assms
proof (induction b a c arbitrary: m rule: three_way_induct)
  case (fields ks fb fa fc)
  then show ?case by (auto split: if_split_asm)
qed (auto simp: whole_rules split: if_split_asm)

lemma merge_changed_equal:
  assumes "wf_json b" "wf_json a" "wf_json c" "recursive_compatible b a c"
  shows "recursive_changed_equal b a c a \<longleftrightarrow> merge_value b a c = Some c"
  using assms
proof (induction b a c rule: three_way_induct)
  case (fields ks fb fa fc)
  then have "\<forall>k \<in> set ks. merge_value (fb k) (fa k) (fc k) \<noteq> None"
    using merge_compatible by auto
  with fields show ?case by (auto simp: option.expand)
qed (auto simp: whole_rules)

lemma recursive_changed_equal_refl [simp]: "recursive_changed_equal b a x x"
proof (induction b a x rule: recursive_compatible.induct)
  case (1 b a c)
  then show ?case
    by (subst recursive_changed_equal.simps) (auto simp: list_all_iff split: json.splits)
qed

lemma merge_keeps_change:
  assumes "wf_json b" "wf_json a" "wf_json c" "merge_value b a c = Some m"
  shows "recursive_changed_equal b a m a"
  using assms
proof (induction b a c arbitrary: m rule: three_way_induct)
  case (fields ks fb fa fc)
  then show ?case by (auto split: if_split_asm)
next
  case (whole b a c)
  then show ?case by (auto simp: whole_rules split: if_split_asm)
qed

text \<open>The overlay used for a conflict proposal and the merge agree where the merge succeeds.\<close>

fun uniform :: "json \<Rightarrow> json \<Rightarrow> json \<Rightarrow> bool" where
  "uniform (JObject bm) (JObject am) (JObject cm) \<longleftrightarrow> same_keys bm am \<and> same_keys bm cm \<and>
     list_all (\<lambda>kv. uniform (snd kv) (field (fst kv) am) (field (fst kv) cm)) bm"
| "uniform _ _ _ = True"

lemma uniform_fields [simp]:
  "uniform (obj ks fb) (obj ks fa) (obj ks fc) \<longleftrightarrow> (\<forall>k \<in> set ks. uniform (fb k) (fa k) (fc k))"
  by (auto simp: obj_def list_all_iff)

lemma put_keys:
  "k \<in> set ks \<Longrightarrow> sorted_wrt (<) ks \<Longrightarrow>
     put k v (map (\<lambda>k. (k, h k)) ks) = map (\<lambda>k'. (k', (h(k := v)) k')) ks"
  by (induction ks) (auto simp: strict_sorted_iff)

lemma fold_put_keys:
  "set js \<subseteq> set ks \<Longrightarrow> sorted_wrt (<) ks \<Longrightarrow> distinct js \<Longrightarrow>
     fold (\<lambda>kv. put (fst kv) (snd kv)) (map (\<lambda>k. (k, g k)) js) (map (\<lambda>k. (k, h k)) ks)
       = map (\<lambda>k. (k, if k \<in> set js then g k else h k)) ks"
  by (induction js arbitrary: h) (auto simp: put_keys simp del: fun_upd_apply, auto)

lemma overlay_value_fields [simp]:
  assumes "sorted_wrt (<) ks"
  shows "overlay_value (obj ks fb) (obj ks fa) (obj ks fc)
    = obj ks (\<lambda>k. overlay_value (fb k) (fa k) (fc k))"
proof (cases "\<forall>k \<in> set ks. fb k = fa k")
  case True
  then show ?thesis by (subst overlay_value.simps) simp
next
  case False
  have "overlay_value (obj ks fb) (obj ks fa) (obj ks fc) =
      JObject (fold (\<lambda>kv. put (fst kv) (snd kv))
        (map (\<lambda>k. (k, overlay_value (fb k) (fa k) (fc k))) ks) (map (\<lambda>k. (k, fc k)) ks))"
  proof -
    have *: "map ((\<lambda>kv. (fst kv, overlay_value (snd kv) (field (fst kv) (map (\<lambda>k. (k, fa k)) ks))
          (field (fst kv) (map (\<lambda>k. (k, fc k)) ks)))) \<circ> (\<lambda>k. (k, fb k))) ks
        = map (\<lambda>k. (k, overlay_value (fb k) (fa k) (fc k))) ks"
      by simp
    from False show ?thesis by (subst overlay_value.simps) (auto simp: obj_def *)
  qed
  also have "\<dots> = obj ks (\<lambda>k. overlay_value (fb k) (fa k) (fc k))"
    using assms by (subst fold_put_keys) (auto simp: obj_def strict_sorted_iff)
  finally show ?thesis .
qed

lemma overlay_value_whole:
  assumes "\<not> aligned b a c" "uniform b a c"
  shows "overlay_value b a c = (if b = a then c else a)"
  using assms by (subst overlay_value.simps) (auto split: json.splits)

lemma merge_overlay:
  assumes "wf_json b" "wf_json a" "wf_json c" "merge_value b a c = Some m" "uniform b a c"
  shows "overlay_value b a c = m"
  using assms
proof (induction b a c arbitrary: m rule: three_way_induct)
  case (fields ks fb fa fc)
  then show ?case by (auto split: if_split_asm)
next
  case (whole b a c)
  then show ?case by (auto simp: whole_rules overlay_value_whole split: if_split_asm)
qed

end
