(* ===== verification/Canonical.thy ===== *)
theory Canonical
  imports Json PacketModel
begin

section \<open>Canonical JSON\<close>

text \<open>
  \<^verbatim>\<open>canonicalJSON\<close> of \<^verbatim>\<open>packetissuance/validation.go\<close>: the one byte sequence an accepted operation is
  hashed and compared by.  Strings come from the JSON decoder and are valid UTF-8, so writing their
  runes is writing their bytes.  Objects are written in ascending key order, the order our objects
  have.
\<close>

definition hex_digit :: "nat \<Rightarrow> char" where
  "hex_digit n = (if n < 10 then char_of (48 + n) else char_of (87 + n))"

definition escape_char :: "char \<Rightarrow> string" where
  "escape_char c =
     (let n = byte_of c in
      if n = 34 then [CHR 0x5C, CHR 0x22]
      else if n = 92 then [CHR 0x5C, CHR 0x5C]
      else if n = 8 then [CHR 0x5C, CHR ''b'']
      else if n = 12 then [CHR 0x5C, CHR ''f'']
      else if n = 10 then [CHR 0x5C, CHR ''n'']
      else if n = 13 then [CHR 0x5C, CHR ''r'']
      else if n = 9 then [CHR 0x5C, CHR ''t'']
      else if n < 32 then CHR 0x5C # ''u00'' @ [hex_digit (n div 16), hex_digit (n mod 16)]
      else [c])"

definition write_string :: "string \<Rightarrow> string" where
  "write_string s = CHR 0x22 # concat (map escape_char s) @ [CHR 0x22]"

definition canonical_number :: "string \<Rightarrow> bool" where
  "canonical_number s \<longleftrightarrow>
     (case parse_int 64 s of None \<Rightarrow> False
      | Some n \<Rightarrow> 0 \<le> n \<and> n \<le> max_safe_integer \<and> format_int n = s)"

text \<open>The elements of an array or object, separated by commas.\<close>

fun with_commas :: "string list \<Rightarrow> string" where
  "with_commas [] = []"
| "with_commas (s # ss) = CHR '','' # s @ with_commas ss"

fun join_commas :: "string list \<Rightarrow> string" where
  "join_commas [] = []"
| "join_commas (s # ss) = s @ with_commas ss"

text \<open>\<^verbatim>\<open>int(^uint(0)>>1)\<close>, the largest length, puts no bound on a text in the model.\<close>

fun write_canonical :: "json \<Rightarrow> string res" where
  "write_canonical JNull = Inr ''null''"
| "write_canonical (JBool b) = Inr (if b then ''true'' else ''false'')"
| "write_canonical (JText s) =
     (if \<not> valid_text s (2 ^ 63 - 1) then Inl ''invalid unicode'' else Inr (write_string s))"
| "write_canonical (JNumber s) = (if \<not> canonical_number s then Inl ''invalid number'' else Inr s)"
| "write_canonical (JList xs) =
     bind_res (map_res write_canonical xs) (\<lambda>ss. Inr (CHR ''['' # join_commas ss @ '']''))"
| "write_canonical (JObject fs) =
     bind_res (map_res (\<lambda>kv. bind_res (write_canonical (snd kv))
                          (\<lambda>v. Inr (write_string (fst kv) @ '':'' @ v))) fs)
       (\<lambda>ss. Inr (CHR ''{'' # join_commas ss @ ''}''))"

subsection \<open>Strings are written without ambiguity\<close>

definition hex_value :: "char \<Rightarrow> nat" where
  "hex_value c = (if byte_of c < 58 then byte_of c - 48 else byte_of c - 87)"

definition read_escape :: "string \<Rightarrow> char \<times> string" where
  "read_escape s =
     (if byte_of (hd s) \<noteq> 92 then (hd s, tl s)
      else let e = byte_of (s ! 1); r = drop 2 s in
        if e = 98 then (char_of (8::nat), r) else if e = 102 then (char_of (12::nat), r)
        else if e = 110 then (char_of (10::nat), r) else if e = 114 then (char_of (13::nat), r)
        else if e = 116 then (char_of (9::nat), r)
        else if e = 117 then (char_of (16 * hex_value (s ! 4) + hex_value (s ! 5)), drop 6 s)
        else (s ! 1, r))"

lemma byte_of_char_of [simp]: "n < 256 \<Longrightarrow> byte_of (char_of n) = n"
  by (simp add: byte_of_def)

lemma char_of_byte_of [simp]: "char_of (byte_of c) = c"
  by (simp add: byte_of_def)

lemma hex_value_digit [simp]: "n < 16 \<Longrightarrow> hex_value (hex_digit n) = n"
  by (auto simp: hex_value_def hex_digit_def)

lemma byte_quote: "of_char c = (34 :: nat) \<longleftrightarrow> c = CHR 0x22" "of_char c = (92 :: nat) \<longleftrightarrow> c = CHR 0x5C"
  using byte_of_eq_iff [of c "CHR 0x22"] byte_of_eq_iff [of c "CHR 0x5C"] by (simp_all add: byte_of_def)

lemma read_escape_char: "read_escape (escape_char c @ s) = (c, s)"
proof -
  have *: "byte_of c = n \<Longrightarrow> char_of n = c" for n by auto
  have "byte_of c < 32 \<Longrightarrow> byte_of c div 16 < 16" by auto
  then show ?thesis
    by (auto simp: escape_char_def read_escape_def Let_def * byte_of_def byte_quote)
qed

lemma byte_of_quote [simp]: "byte_of (CHR 0x22) = 34"
  by (simp add: byte_of_def)

lemma escape_char_neq [simp]: "escape_char c \<noteq> []"
  by (simp add: escape_char_def Let_def)

lemma escape_char_hd [simp]: "hd (escape_char c) \<noteq> CHR 0x22"
proof
  assume *: "hd (escape_char c) = CHR 0x22"
  show False
  proof (cases "byte_of c = 34")
    case True
    with * show False by (simp add: escape_char_def)
  next
    case False
    then have "c \<noteq> CHR 0x22" by auto
    with * show False by (simp add: escape_char_def Let_def split: if_split_asm)
  qed
qed

lemma quote_not_escape [simp]: "CHR 0x22 # x \<noteq> escape_char c @ s" "escape_char c @ s \<noteq> CHR 0x22 # x"
  by (metis escape_char_hd escape_char_neq hd_append2 list.sel(1))+

lemma escape_char_unique:
  assumes "escape_char c @ s = escape_char d @ t"
  shows "c = d \<and> s = t"
proof -
  have "(c, s) = read_escape (escape_char d @ t)"
    by (simp only: read_escape_char flip: assms)
  then show ?thesis by (simp only: read_escape_char prod.inject)
qed

lemma escaped_unique:
  "concat (map escape_char s) @ CHR 0x22 # x = concat (map escape_char t) @ CHR 0x22 # y
     \<Longrightarrow> s = t \<and> x = y"
proof (induction s arbitrary: t)
  case Nil
  then show ?case
    by (cases t) auto
next
  case (Cons c s)
  show ?case
  proof (cases t)
    case Nil
    with Cons.prems show ?thesis by simp
  next
    case [simp]: (Cons d t')
    have "c = d \<and> concat (map escape_char s) @ CHR 0x22 # x = concat (map escape_char t') @ CHR 0x22 # y"
      using Cons.prems by (intro escape_char_unique) simp
    then show ?thesis using Cons.IH [of t'] by simp
  qed
qed

lemma write_string_unique: "write_string s @ x = write_string t @ y \<Longrightarrow> s = t \<and> x = y"
  using escaped_unique [of s x t y] by (simp add: write_string_def)


subsection \<open>Values are written without ambiguity\<close>

text \<open>What may follow a value inside a canonical text: nothing, a comma or a closing bracket.\<close>

definition value_end :: "string \<Rightarrow> bool" where
  "value_end s \<longleftrightarrow> s = [] \<or> hd s \<in> set '',]}''"

lemma value_end_Cons [simp]: "value_end (c # s) \<longleftrightarrow> c \<in> set '',]}''"
  by (simp add: value_end_def)

lemma value_end_with_commas [simp]: "c \<in> set '',]}'' \<Longrightarrow> value_end (with_commas ss @ c # x)"
  by (cases ss) auto

lemma with_commas_unique:
  assumes "\<And>a b s t x y. a \<in> set xs \<Longrightarrow> W a = Inr s \<Longrightarrow> W b = Inr t \<Longrightarrow> s @ x = t @ y \<Longrightarrow>
      value_end x \<Longrightarrow> value_end y \<Longrightarrow> a = b \<and> x = y"
    and "map_res W xs = Inr ss" "map_res W ys = Inr ts" "z = CHR '']'' \<or> z = CHR ''}''"
    and "with_commas ss @ z # x = with_commas ts @ z # y"
  shows "xs = ys \<and> x = y"
  using assms
proof (induction xs arbitrary: ys ss ts)
  case Nil
  then show ?case by (cases ys) (auto simp: res_simps)
next
  case (Cons a xs)
  from Cons.prems(2) obtain s ss' where s: "W a = Inr s" "map_res W xs = Inr ss'" "ss = s # ss'"
    by (auto simp: res_simps)
  show ?case
  proof (cases ys)
    case Nil
    with Cons.prems s show ?thesis by auto
  next
    case [simp]: (Cons b ys')
    from Cons.prems(3) obtain t ts' where t: "W b = Inr t" "map_res W ys' = Inr ts'" "ts = t # ts'"
      by (auto simp: res_simps)
    have "a = b \<and> with_commas ss' @ z # x = with_commas ts' @ z # y"
      by (rule Cons.prems(1) [OF _ s(1) t(1)]) (use Cons.prems(4,5) s t in auto)
    moreover from this have "xs = ys' \<and> x = y"
      by (intro Cons.IH [OF _ s(2) t(2) Cons.prems(4)] Cons.prems(1)) auto
    ultimately show ?thesis by simp
  qed
qed

lemma join_commas_unique:
  assumes "\<And>a b s t x y. a \<in> set xs \<Longrightarrow> W a = Inr s \<Longrightarrow> W b = Inr t \<Longrightarrow> s @ x = t @ y \<Longrightarrow>
      value_end x \<Longrightarrow> value_end y \<Longrightarrow> a = b \<and> x = y"
    and ne: "\<And>a s. W a = Inr s \<Longrightarrow> s \<noteq> [] \<and> hd s \<notin> set '']}''"
    and "map_res W xs = Inr ss" "map_res W ys = Inr ts" "z = CHR '']'' \<or> z = CHR ''}''"
    and "join_commas ss @ z # x = join_commas ts @ z # y"
  shows "xs = ys \<and> x = y"
proof -
  have open_ne: "join_commas us @ z # v \<noteq> z # w" if "map_res W us' = Inr us" "us' \<noteq> []" for us us' v w
    using that ne assms(5) by (cases us') (fastforce simp: res_simps hd_append dest: arg_cong [where f = hd])+
  show ?thesis
  proof (cases "xs = [] \<or> ys = []")
    case True
    then show ?thesis using assms(3,4,6) open_ne [OF assms(3)] open_ne [OF assms(4)]
      by (metis append_Nil join_commas.simps(1) list.inject map_res.simps(1) sum.inject(2))
  next
    case False
    then obtain s ss' t ts' where st: "ss = s # ss'" "ts = t # ts'"
      using assms(3,4) by (cases xs; cases ys) (auto simp: res_simps)
    have wc: "with_commas ss @ z # x = with_commas ts @ z # y"
      using assms(6) st by simp
    show ?thesis
      by (rule with_commas_unique [where W = W, OF _ assms(3-5) wc]) (rule assms(1))
  qed
qed


lemma canonical_number_digits:
  assumes "canonical_number s"
  shows "list_all is_digit s" and "s \<noteq> []"
proof -
  from assms obtain n where n: "0 \<le> n" "format_int n = s"
    by (auto simp: canonical_number_def split: option.splits)
  then have "s = format_nat (nat n)" by (auto simp: format_int_def)
  then show "list_all is_digit s" "s \<noteq> []" by (simp_all add: format_nat_digits)
qed

lemma value_end_not_digit: "value_end (c # x) \<Longrightarrow> \<not> is_digit c"
  by (auto simp: is_digit_def byte_of_def)

lemma digits_prefix:
  assumes "list_all is_digit s" "value_end x"
  shows "takeWhile is_digit (s @ x) = s"
  using assms value_end_not_digit by (cases x) (auto simp: list_all_iff takeWhile_append)

lemma canonical_number_unique:
  assumes "canonical_number s" "canonical_number t" "s @ x = t @ y" "value_end x" "value_end y"
  shows "s = t \<and> x = y"
proof -
  have "s = takeWhile is_digit (t @ y)"
    using digits_prefix [OF canonical_number_digits(1) [OF assms(1)] assms(4)] by (simp only: assms(3))
  also have "\<dots> = t" by (rule digits_prefix [OF canonical_number_digits(1) [OF assms(2)] assms(5)])
  finally show ?thesis using assms(3) by simp
qed

text \<open>The first character tells the kind of a value.\<close>

fun first_of :: "json \<Rightarrow> char set" where
  "first_of JNull = {CHR ''n''}"
| "first_of (JBool b) = {if b then CHR ''t'' else CHR ''f''}"
| "first_of (JText _) = {CHR 0x22}"
| "first_of (JNumber _) = {c. is_digit c}"
| "first_of (JList _) = {CHR ''[''}"
| "first_of (JObject _) = {CHR ''{''}"

lemma write_canonical_first: "write_canonical v = Inr s \<Longrightarrow> s \<noteq> [] \<and> hd s \<in> first_of v"
  using canonical_number_digits [of s]
  by (cases v) (auto simp: res_simps write_string_def list_all_iff split: if_split_asm)

lemma first_of_not_close: "c \<in> first_of v \<Longrightarrow> c \<notin> set '']}''"
  by (cases v) (auto simp: is_digit_def byte_of_def)

definition entry_text :: "string \<times> json \<Rightarrow> string res" where
  "entry_text kv = bind_res (write_canonical (snd kv)) (\<lambda>v. Inr (write_string (fst kv) @ '':'' @ v))"

lemma write_canonical_object:
  "write_canonical (JObject fs) =
     bind_res (map_res entry_text fs) (\<lambda>ss. Inr (CHR ''{'' # join_commas ss @ ''}''))"
  by (simp add: entry_text_def [abs_def])

lemma same_kind:
  assumes "write_canonical a = Inr s" "write_canonical b = Inr t" "s @ x = t @ y"
  shows "first_of a \<inter> first_of b \<noteq> {}"
  using write_canonical_first [OF assms(1)] write_canonical_first [OF assms(2)] arg_cong [OF assms(3), of hd]
  by (auto simp: hd_append)

lemma write_canonical_prefix:
  "write_canonical a = Inr s \<Longrightarrow> write_canonical b = Inr t \<Longrightarrow> s @ x = t @ y \<Longrightarrow>
     value_end x \<Longrightarrow> value_end y \<Longrightarrow> a = b \<and> x = y"
proof (induction a arbitrary: b s t x y)
  case JNull
  then show ?case using same_kind [OF JNull(1-3)] by (cases b) (auto simp: is_digit_def byte_of_def)
next
  case (JBool u)
  then show ?case using same_kind [OF JBool(1-3)]
    by (cases b) (auto simp: is_digit_def byte_of_def split: if_split_asm)
next
  case (JText u)
  from same_kind [OF JText(1-3)] obtain w where "b = JText w"
    by (cases b) (auto simp: is_digit_def byte_of_def split: if_split_asm)
  with JText write_string_unique [of u x w y] show ?case by (auto split: if_split_asm)
next
  case (JNumber u)
  from same_kind [OF JNumber(1-3)] obtain w where "b = JNumber w"
    by (cases b) (auto simp: is_digit_def byte_of_def split: if_split_asm)
  with JNumber canonical_number_unique [of u w x y] show ?case by (auto split: if_split_asm)
next
  case (JList us)
  from same_kind [OF JList(2-4)] obtain ws where b: "b = JList ws"
    by (cases b) (auto simp: is_digit_def byte_of_def split: if_split_asm)
  from JList(2) obtain ss where ss: "map_res write_canonical us = Inr ss" "s = CHR ''['' # join_commas ss @ '']''"
    by (auto simp: res_simps)
  from JList(3) b obtain ts where ts: "map_res write_canonical ws = Inr ts" "t = CHR ''['' # join_commas ts @ '']''"
    by (auto simp: res_simps)
  have "us = ws \<and> x = y"
  proof (rule join_commas_unique [where W = write_canonical, OF _ _ ss(1) ts(1)])
    show "join_commas ss @ CHR '']'' # x = join_commas ts @ CHR '']'' # y"
      using JList(4) ss ts by simp
    show "s \<noteq> [] \<and> hd s \<notin> set '']}''" if "write_canonical a = Inr s" for a s
      using write_canonical_first [OF that] first_of_not_close by blast
  qed (use JList.IH in blast, simp)
  with b show ?case by simp
next
  case (JObject us)
  from same_kind [OF JObject(2-4)] obtain ws where b: "b = JObject ws"
    by (cases b) (auto simp: is_digit_def byte_of_def split: if_split_asm)
  from JObject(2) obtain ss where ss: "map_res entry_text us = Inr ss" "s = CHR ''{'' # join_commas ss @ ''}''"
    by (auto simp: res_simps write_canonical_object simp del: write_canonical.simps)
  from JObject(3) b obtain ts where ts: "map_res entry_text ws = Inr ts" "t = CHR ''{'' # join_commas ts @ ''}''"
    by (auto simp: res_simps write_canonical_object simp del: write_canonical.simps)
  have "us = ws \<and> x = y"
  proof (rule join_commas_unique [where W = entry_text, OF _ _ ss(1) ts(1)])
    show "join_commas ss @ CHR ''}'' # x = join_commas ts @ CHR ''}'' # y"
      using JObject(4) ss ts by simp
    show "s \<noteq> [] \<and> hd s \<notin> set '']}''" if "entry_text a = Inr s" for a s
      using that by (auto simp: entry_text_def res_simps write_string_def)
    show "p = q \<and> u = v" if p: "p \<in> set us" and e: "entry_text p = Inr m" "entry_text q = Inr n"
      and eq: "m @ u = n @ v" and ends: "value_end u" "value_end v" for p q m n u v
    proof -
      from e obtain m' n' where mn: "write_canonical (snd p) = Inr m'" "write_canonical (snd q) = Inr n'"
        "m = write_string (fst p) @ CHR '':'' # m'" "n = write_string (fst q) @ CHR '':'' # n'"
        by (auto simp: entry_text_def res_simps)
      from eq mn write_string_unique [of "fst p" "CHR '':'' # m' @ u" "fst q" "CHR '':'' # n' @ v"]
      have "fst p = fst q" "m' @ u = n' @ v" by auto
      then show ?thesis
        using JObject.IH [OF p _ mn(1,2) _ ends] by (cases p; cases q) auto
    qed
  qed simp
  with b show ?case by simp
qed

text \<open>
  C4. Two values with the same canonical bytes are the same value, so the content hash and the stored
  bytes of an operation identify the operation that was validated.
\<close>

theorem canonical_json_injective:
  assumes "write_canonical a = Inr s" "write_canonical b = Inr s"
  shows "a = b"
  using write_canonical_prefix [OF assms, of "[]" "[]"] by (simp add: value_end_def)

theorem canonical_json_injective_witness:
  "write_canonical (JObject [(''a'', JBool True)]) = Inr (CHR ''{'' # write_string ''a'' @ '':true}'')
   \<and> JObject [(''a'', JBool True)] = JObject [(''a'', JBool True)]"
  using canonical_json_injective [of "JObject [(''a'', JBool True)]"
      "CHR ''{'' # write_string ''a'' @ '':true}''" "JObject [(''a'', JBool True)]"] by simp

end
