(* ===== verification/Contract.thy ===== *)
theory Contract
  imports Canonical Transitions
begin

section \<open>Packet issuance: the wire contract\<close>

text \<open>
  The validators of \<^verbatim>\<open>packetissuance/validation.go\<close> on decoded JSON values (\<^verbatim>\<open>decodeValue\<close> itself is
  \<^verbatim>\<open>encoding/json\<close>): each returns the typed value or the error of the source.  Functions whose
  every failure is the same error return an option.
\<close>

subsection \<open>Typed reads\<close>

fun text_of :: "json \<Rightarrow> string option" where
  "text_of (JText s) = Some s" | "text_of _ = None"

fun bool_of :: "json \<Rightarrow> bool option" where
  "bool_of (JBool b) = Some b" | "bool_of _ = None"

fun list_of :: "json \<Rightarrow> json list option" where
  "list_of (JList xs) = Some xs" | "list_of _ = None"

fun object_of :: "json \<Rightarrow> (string \<times> json) list option" where
  "object_of (JObject fs) = Some fs" | "object_of _ = None"

definition safe_integer :: "json \<Rightarrow> bool \<Rightarrow> int option" where
  "safe_integer v positive =
     (let n = integer_value v in
      if 0 \<le> n \<and> n \<le> max_safe_integer \<and> (positive \<longrightarrow> 0 < n) then Some n else None)"

text \<open>The note of an operation: absent, a valid text, or an error (\<open>None\<close>).\<close>

definition optional_text :: "(string \<times> json) list \<Rightarrow> string \<Rightarrow> nat \<Rightarrow> string option option" where
  "optional_text fs key limit =
     (case map_of fs key of None \<Rightarrow> Some None
      | Some v \<Rightarrow> (case text_of v of None \<Rightarrow> None
                  | Some s \<Rightarrow> if valid_text s limit then Some (Some s) else None))"

definition read_feed_cursor :: "json \<Rightarrow> (string \<times> int) option" where
  "read_feed_cursor v =
     (case text_of v of None \<Rightarrow> None
      | Some s \<Rightarrow> if \<not> canonical_cursor_pattern s then None
                  else map_option (\<lambda>n. (s, n)) (parse_int 64 s))"

fun split_colon :: "string \<Rightarrow> string list" where
  "split_colon [] = [[]]"
| "split_colon (c # s) =
     (if c = CHR '':'' then [] # split_colon s
      else case split_colon s of [] \<Rightarrow> [[c]] | p # ps \<Rightarrow> (c # p) # ps)"

definition feed_event_id :: "string \<Rightarrow> string" where
  "feed_event_id scope =
     (case split_colon scope of
        [p, q, e] \<Rightarrow> if p = ''site'' \<and> identifier_pattern e then e else []
      | _ \<Rightarrow> [])"

subsection \<open>Rows\<close>

definition person_keys :: "string list" where
  "person_keys = [''id'', ''firstName'', ''lastName'', ''birthDate'', ''gender'', ''team'', ''city'']"

definition parse_person :: "json \<Rightarrow> person res" where
  "parse_person v =
     (case object_of v of None \<Rightarrow> Inl ''invalid''
      | Some fs \<Rightarrow>
          if \<not> exact_keys fs person_keys then Inl ''invalid''
          else let p = \<lparr> per_id = string_value (field ''id'' fs),
                         per_first = string_value (field ''firstName'' fs),
                         per_last = string_value (field ''lastName'' fs),
                         per_birth = string_value (field ''birthDate'' fs),
                         per_gender = string_value (field ''gender'' fs),
                         per_team = string_value (field ''team'' fs),
                         per_city = string_value (field ''city'' fs) \<rparr>
               in bind_res (validate_person p) (\<lambda>_. Inr p))"

definition registration_keys :: "string list" where
  "registration_keys = [''id'', ''eventId'', ''raceId'', ''bib'', ''epc'', ''person'', ''reserve'', ''issued'',
     ''status'', ''transferredTo'', ''hasTimingEvidence'']"

definition optional_person :: "json \<Rightarrow> person option res" where
  "optional_person v = (if v = JNull then Inr None else bind_res (parse_person v) (\<lambda>p. Inr (Some p)))"

definition optional_target :: "json \<Rightarrow> string option res" where
  "optional_target v =
     (if v = JNull then Inr None
      else case text_of v of None \<Rightarrow> Inl ''invalid'' | Some s \<Rightarrow> Inr (Some s))"

definition parse_registration :: "json \<Rightarrow> registration res" where
  "parse_registration v =
     (case object_of v of None \<Rightarrow> Inl ''invalid''
      | Some fs \<Rightarrow>
          if \<not> exact_keys fs registration_keys then Inl ''invalid''
          else case (bool_of (field ''reserve'' fs), bool_of (field ''issued'' fs),
                     bool_of (field ''hasTimingEvidence'' fs)) of
            (Some reserve, Some issued, Some timing) \<Rightarrow>
              bind_res (optional_person (field ''person'' fs)) (\<lambda>person.
              bind_res (optional_target (field ''transferredTo'' fs)) (\<lambda>target.
              let row = \<lparr> reg_id = string_value (field ''id'' fs),
                          reg_event = string_value (field ''eventId'' fs),
                          reg_race = string_value (field ''raceId'' fs),
                          reg_bib = string_value (field ''bib'' fs),
                          reg_epc = string_value (field ''epc'' fs),
                          reg_person = person, reg_reserve = reserve, reg_issued = issued,
                          reg_status = string_value (field ''status'' fs),
                          reg_transferred = target, reg_timing = timing \<rparr>
              in bind_res (validate_registration row) (\<lambda>_. Inr row)))
          | _ \<Rightarrow> Inl ''invalid'')"

definition feed_registration_keys :: "string list" where
  "feed_registration_keys = [''id'', ''eventId'', ''raceId'', ''bib'', ''epc'', ''person'', ''reserve'',
     ''issued'', ''status'', ''transferredTo'']"

definition parse_feed_registration :: "json \<Rightarrow> registration res" where
  "parse_feed_registration v =
     (case object_of v of None \<Rightarrow> Inl ''invalid''
      | Some fs \<Rightarrow>
          if \<not> exact_keys fs feed_registration_keys then Inl ''invalid''
          else parse_registration (JObject (put ''hasTimingEvidence'' (JBool False) fs)))"

text \<open>\<^verbatim>\<open>json.Marshal\<close> of a person and of a registration, decoded again (\<^verbatim>\<open>packetValue\<close>).\<close>

definition person_json :: "person \<Rightarrow> json" where
  "person_json p = JObject
     [(''birthDate'', JText (per_birth p)), (''city'', JText (per_city p)),
      (''firstName'', JText (per_first p)), (''gender'', JText (per_gender p)),
      (''id'', JText (per_id p)), (''lastName'', JText (per_last p)), (''team'', JText (per_team p))]"

definition option_json :: "('a \<Rightarrow> json) \<Rightarrow> 'a option \<Rightarrow> json" where
  "option_json f x = (case x of None \<Rightarrow> JNull | Some y \<Rightarrow> f y)"

definition registration_json :: "registration \<Rightarrow> json" where
  "registration_json r = JObject
     [(''bib'', JText (reg_bib r)), (''epc'', JText (reg_epc r)), (''eventId'', JText (reg_event r)),
      (''hasTimingEvidence'', JBool (reg_timing r)), (''id'', JText (reg_id r)),
      (''issued'', JBool (reg_issued r)), (''person'', option_json person_json (reg_person r)),
      (''raceId'', JText (reg_race r)), (''reserve'', JBool (reg_reserve r)),
      (''status'', JText (reg_status r)), (''transferredTo'', option_json JText (reg_transferred r))]"

definition parse_base :: "json \<Rightarrow> base option" where
  "parse_base v =
     (case object_of v of None \<Rightarrow> None
      | Some fs \<Rightarrow>
          if \<not> exact_keys fs [''registrationId'', ''heads''] then None
          else let reg = string_value (field ''registrationId'' fs) in
            case list_of (field ''heads'' fs) of None \<Rightarrow> None
            | Some raw \<Rightarrow>
                if \<not> identifier_pattern reg \<or> 64 < length raw then None
                else if list_all (\<lambda>h. case text_of h of None \<Rightarrow> False | Some s \<Rightarrow> uuid_pattern s) raw
                        \<and> sorted_wrt (<) (map string_value raw)
                then Some \<lparr> base_reg = reg, base_heads = map string_value raw \<rparr> else None)"

definition parse_change :: "json \<Rightarrow> change res" where
  "parse_change v =
     (case object_of v of None \<Rightarrow> Inl ''invalid''
      | Some fs \<Rightarrow>
          if \<not> exact_keys fs [''registrationId'', ''before'', ''after''] then Inl ''invalid''
          else bind_res (parse_registration (field ''before'' fs)) (\<lambda>before.
               bind_res (parse_registration (field ''after'' fs)) (\<lambda>after.
               let id = string_value (field ''registrationId'' fs) in
               if \<not> identifier_pattern id then Inl ''invalid''
               else Inr \<lparr> chg_reg = id, chg_before = before, chg_after = after \<rparr>)))"


subsection \<open>Commands\<close>

text \<open>
  \<^verbatim>\<open>parseCommand\<close>, one definition per group of command types; \<open>c\<close> carries the type, the registration
  id and the canonical text of the command.  Every failure is \<^verbatim>\<open>invalid_operation_command\<close>.
\<close>

definition parse_return_to_reserve :: "(string \<times> json) list \<Rightarrow> command \<Rightarrow> command option" where
  "parse_return_to_reserve fs c =
     (let target = string_value (field ''targetId'' fs); bib = string_value (field ''bib'' fs);
          race = string_value (field ''raceId'' fs) in
      if identifier_pattern (cmd_reg c)
         \<and> exact_keys fs [''type'', ''registrationId'', ''targetId'', ''bib'', ''raceId'']
         \<and> identifier_pattern target \<and> valid_assigned_bib bib \<and> identifier_pattern race
      then Some (c\<lparr> cmd_target := target, cmd_bib := bib, cmd_race := race \<rparr>) else None)"

definition parse_number :: "(string \<times> json) list \<Rightarrow> command \<Rightarrow> command option" where
  "parse_number fs c =
     (let create = (cmd_type c = ''create_registration'');
          keys = [''type'', ''registrationId'', ''bib'', ''issuePacket'']
            @ (if create then [''eventId'', ''raceId'', ''person''] else []) in
      if \<not> identifier_pattern (cmd_reg c) \<or> \<not> exact_keys fs keys then None
      else case (text_of (field ''bib'' fs), bool_of (field ''issuePacket'' fs)) of
        (Some bib, Some issue) \<Rightarrow>
          let c1 = c\<lparr> cmd_bib := bib, cmd_issue := Some issue \<rparr> in
          if \<not> create then Some c1
          else (case parse_person (field ''person'' fs) of
                  Inl _ \<Rightarrow> None
                | Inr p \<Rightarrow> Some (c1\<lparr> cmd_event := string_value (field ''eventId'' fs),
                                     cmd_race := string_value (field ''raceId'' fs), cmd_person := Some p \<rparr>))
      | _ \<Rightarrow> None)"

definition parse_plain :: "(string \<times> json) list \<Rightarrow> command \<Rightarrow> command option" where
  "parse_plain fs c =
     (if identifier_pattern (cmd_reg c) \<and> exact_keys fs [''type'', ''registrationId''] then Some c else None)"

definition parse_undo_issue :: "(string \<times> json) list \<Rightarrow> command \<Rightarrow> command option" where
  "parse_undo_issue fs c =
     (let reason = string_value (field ''reason'' fs) in
      if identifier_pattern (cmd_reg c) \<and> exact_keys fs [''type'', ''registrationId'', ''reason'']
         \<and> valid_reason reason
      then Some (c\<lparr> cmd_reason := reason \<rparr>) else None)"

definition parse_set_dns :: "(string \<times> json) list \<Rightarrow> command \<Rightarrow> command option" where
  "parse_set_dns fs c =
     (if identifier_pattern (cmd_reg c) \<and> exact_keys fs [''type'', ''registrationId'', ''value'']
      then map_option (\<lambda>b. c\<lparr> cmd_value := Some b \<rparr>) (bool_of (field ''value'' fs)) else None)"

definition parse_edit_person :: "(string \<times> json) list \<Rightarrow> command \<Rightarrow> command option" where
  "parse_edit_person fs c =
     (if \<not> identifier_pattern (cmd_reg c) \<or> \<not> exact_keys fs [''type'', ''registrationId'', ''fields''] then None
      else case object_of (field ''fields'' fs) of None \<Rightarrow> None
        | Some gs \<Rightarrow>
            if gs \<noteq> [] \<and> list_all (\<lambda>kv. person_field (fst kv) \<and> text_of (snd kv) \<noteq> None) gs
            then Some (c\<lparr> cmd_fields := map (\<lambda>kv. (fst kv, string_value (snd kv))) gs \<rparr>) else None)"

definition parse_change_race :: "(string \<times> json) list \<Rightarrow> command \<Rightarrow> command option" where
  "parse_change_race fs c =
     (let race = string_value (field ''raceId'' fs) in
      if exact_keys fs [''type'', ''registrationId'', ''raceId''] \<and> identifier_pattern (cmd_reg c)
         \<and> identifier_pattern race
      then Some (c\<lparr> cmd_race := race \<rparr>) else None)"

definition parse_replace_person :: "(string \<times> json) list \<Rightarrow> command \<Rightarrow> command option" where
  "parse_replace_person fs c =
     (if \<not> identifier_pattern (cmd_reg c)
         \<or> \<not> exact_keys fs [''type'', ''registrationId'', ''person'', ''issuePacket''] then None
      else case (parse_person (field ''person'' fs), bool_of (field ''issuePacket'' fs)) of
        (Inr p, Some issue) \<Rightarrow> Some (c\<lparr> cmd_person := Some p, cmd_issue := Some issue \<rparr>)
      | _ \<Rightarrow> None)"

definition parse_move :: "(string \<times> json) list \<Rightarrow> command \<Rightarrow> command option" where
  "parse_move fs c =
     (let assign = (cmd_type c = ''assign_reserve''); return = bool_of (field ''returnSource'' fs);
          keys = [''type'', ''registrationId'', ''targetId'', ''issuePacket'']
            @ (if assign then [''returnSource''] else []);
          target = string_value (field ''targetId'' fs) in
      if \<not> identifier_pattern (cmd_reg c) \<or> (assign \<and> return = None) \<or> \<not> exact_keys fs keys
         \<or> \<not> identifier_pattern target
      then None
      else case bool_of (field ''issuePacket'' fs) of None \<Rightarrow> None
        | Some issue \<Rightarrow> Some (c\<lparr> cmd_return := (if assign then return else cmd_return c),
                                 cmd_target := target, cmd_issue := Some issue \<rparr>))"

definition parse_correct_move :: "(string \<times> json) list \<Rightarrow> command \<Rightarrow> command option" where
  "parse_correct_move fs c =
     (let operation = string_value (field ''operationId'' fs); reason = string_value (field ''reason'' fs) in
      if exact_keys fs [''type'', ''operationId'', ''reason''] \<and> uuid_pattern operation \<and> valid_reason reason
      then Some (c\<lparr> cmd_reg := [], cmd_operation := operation, cmd_reason := reason \<rparr>) else None)"

definition parse_resolve_conflict :: "bool \<Rightarrow> (string \<times> json) list \<Rightarrow> command \<Rightarrow> command option" where
  "parse_resolve_conflict allow fs c =
     (let reason = string_value (field ''reason'' fs) in
      if \<not> allow \<or> \<not> exact_keys fs [''type'', ''inputs'', ''keep'', ''reason''] \<or> \<not> valid_reason reason
      then None
      else case (list_of (field ''inputs'' fs), list_of (field ''keep'' fs)) of
        (Some [i], Some keep) \<Rightarrow>
          (case text_of i of None \<Rightarrow> None
           | Some input \<Rightarrow>
               if \<not> uuid_pattern input then None
               else case keep of
                 [] \<Rightarrow> Some (c\<lparr> cmd_reason := reason, cmd_inputs := [input] \<rparr>)
               | [k] \<Rightarrow> if text_of k = Some input
                        then Some (c\<lparr> cmd_reason := reason, cmd_inputs := [input], cmd_keep := [input] \<rparr>)
                        else None
               | _ \<Rightarrow> None)
      | _ \<Rightarrow> None)"

definition parse_typed :: "bool \<Rightarrow> (string \<times> json) list \<Rightarrow> command \<Rightarrow> command option" where
  "parse_typed allow fs c =
     (let t = cmd_type c in
      if t = ''return_to_reserve'' then parse_return_to_reserve fs c
      else if t = ''assign_number'' \<or> t = ''create_registration'' then parse_number fs c
      else if t \<in> {''issue'', ''unassign_number'', ''clear_number'', ''release_to_reserve''} then parse_plain fs c
      else if t = ''undo_issue'' then parse_undo_issue fs c
      else if t = ''set_dns'' then parse_set_dns fs c
      else if t = ''edit_person'' then parse_edit_person fs c
      else if t = ''change_race'' then parse_change_race fs c
      else if t = ''replace_person'' then parse_replace_person fs c
      else if t \<in> {''move_race'', ''move_to_reserve'', ''assign_reserve''} then parse_move fs c
      else if t = ''correct_move'' then parse_correct_move fs c
      else if t = ''resolve_conflict'' then parse_resolve_conflict allow fs c
      else None)"

definition parse_command :: "bool \<Rightarrow> json \<Rightarrow> command res" where
  "parse_command allow v =
     (case object_of v of None \<Rightarrow> Inl ''invalid_operation_command''
      | Some fs \<Rightarrow>
          (case write_canonical v of Inl _ \<Rightarrow> Inl ''invalid_operation_command''
           | Inr raw \<Rightarrow>
               (case parse_typed allow fs (zero_command\<lparr> cmd_type := string_value (field ''type'' fs),
                        cmd_reg := string_value (field ''registrationId'' fs), cmd_raw := raw \<rparr>) of
                  None \<Rightarrow> Inl ''invalid_operation_command''
                | Some c \<Rightarrow> Inr c)))"

subsection \<open>Operations\<close>

text \<open>Which fields a change of a command may rewrite, before the transition itself is replayed.\<close>

definition bib_commands :: "string set" where
  "bib_commands = {''return_to_reserve'', ''clear_number'', ''assign_reserve'', ''correct_move'',
     ''assign_number'', ''unassign_number'', ''create_registration''}"

definition epc_commands :: "string set" where
  "epc_commands = {''return_to_reserve'', ''clear_number'', ''assign_reserve'', ''correct_move''}"

definition change_shape :: "string \<Rightarrow> int \<Rightarrow> change \<Rightarrow> bool" where
  "change_shape t schema ch \<longleftrightarrow>
     (let b = chg_before ch; a = chg_after ch in
      reg_id b = reg_id a \<and> reg_event b = reg_event a
      \<and> (reg_race b = reg_race a \<or> t = ''change_race'')
      \<and> (reg_bib b = reg_bib a \<or> t \<in> bib_commands \<or> schema = 2)
      \<and> (reg_epc b = reg_epc a \<or> t \<in> epc_commands \<or> schema = 2)
      \<and> reg_timing b = reg_timing a \<and> reg_id b = chg_reg ch)"

fun parse_entries ::
  "string \<Rightarrow> int \<Rightarrow> string list \<Rightarrow> json list \<Rightarrow> json list \<Rightarrow> (base \<times> change) list option" where
  "parse_entries t schema seen (b # bs) (v # vs) =
     (case (parse_base b, parse_change v) of
        (Some base, Inr ch) \<Rightarrow>
          if base_reg base \<noteq> chg_reg ch \<or> chg_reg ch \<in> set seen \<or> \<not> change_shape t schema ch then None
          else map_option ((#) (base, ch)) (parse_entries t schema (chg_reg ch # seen) bs vs)
      | _ \<Rightarrow> None)"
| "parse_entries t schema seen _ _ = Some []"

definition operation_keys :: "string list" where
  "operation_keys = [''schemaVersion'', ''operationId'', ''scopeId'', ''baselineId'', ''originInstanceId'',
     ''originSequence'', ''createdAtMs'', ''claimedActor'', ''command'', ''bases'', ''changes'']"

text \<open>The last step: the changes are the ones the command makes on the before images.\<close>

definition check_changes :: "operation \<Rightarrow> operation res" where
  "check_changes op =
     (let c = op_command op; before = map chg_before (op_changes op) in
      if \<not> list_all (\<lambda>r. reg_event r = reg_event (hd before)) (tl before) then Inl ''invalid_operation_changes''
      else if op_schema op = 2 then
        (if cmd_type c \<noteq> ''resolve_conflict'' \<or> hd (cmd_inputs c) = op_id op
            \<or> length (op_bases op) \<noteq> length (op_changes op)
            \<or> \<not> list_all (\<lambda>b. base_heads b = [hd (cmd_inputs c)]) (op_bases op)
         then Inl ''invalid_operation_changes'' else Inr op)
      else if cmd_type c = ''correct_move'' then
        (if length (op_changes op) \<noteq> 2 then Inl ''invalid_operation_changes'' else Inr op)
      else (case apply_cmd before c of
              Inl _ \<Rightarrow> Inl ''invalid_operation_command''
            | Inr expected \<Rightarrow> if expected = op_changes op then Inr op else Inl ''invalid_operation_changes''))"

definition parse_header :: "(string \<times> json) list \<Rightarrow> string \<Rightarrow> bool \<Rightarrow> operation option" where
  "parse_header fs canonical allow =
     (case (safe_integer (field ''originSequence'' fs) True, safe_integer (field ''createdAtMs'' fs) False,
            optional_text fs ''note'' 500) of
        (Some sequence, Some created, Some note) \<Rightarrow>
          let op = \<lparr> op_schema = integer_value (field ''schemaVersion'' fs),
                     op_id = string_value (field ''operationId'' fs),
                     op_scope = string_value (field ''scopeId'' fs),
                     op_baseline = string_value (field ''baselineId'' fs),
                     op_origin = string_value (field ''originInstanceId'' fs),
                     op_sequence = sequence, op_created = created,
                     op_actor = string_value (field ''claimedActor'' fs),
                     op_command = zero_command, op_bases = [], op_changes = [], op_note = note,
                     op_canonical = canonical \<rparr> in
          if (op_schema op \<noteq> 1 \<and> \<not> (allow \<and> op_schema op = 2)) \<or> \<not> uuid_pattern (op_id op)
             \<or> \<not> identifier_pattern (op_scope op) \<or> \<not> identifier_pattern (op_baseline op)
             \<or> \<not> uuid_pattern (op_origin op) \<or> \<not> valid_text (op_actor op) 160
          then None else Some op
      | _ \<Rightarrow> None)"

definition parse_body :: "(string \<times> json) list \<Rightarrow> operation \<Rightarrow> command \<Rightarrow> operation res" where
  "parse_body fs op c =
     (case (list_of (field ''bases'' fs), list_of (field ''changes'' fs)) of
        (Some bs, Some vs) \<Rightarrow>
          if (length vs \<noteq> 1 \<and> length vs \<noteq> 2) \<or> length bs \<noteq> length vs then Inl ''invalid_operation''
          else (case parse_entries (cmd_type c) (op_schema op) [] bs vs of
                  None \<Rightarrow> Inl ''invalid_operation_changes''
                | Some es \<Rightarrow> check_changes (op\<lparr> op_command := c, op_bases := map fst es,
                                                 op_changes := map snd es \<rparr>))
      | _ \<Rightarrow> Inl ''invalid_operation'')"

definition parse_operation :: "json \<Rightarrow> string \<Rightarrow> bool \<Rightarrow> operation res" where
  "parse_operation v canonical allow =
     (case object_of v of None \<Rightarrow> Inl ''invalid_operation''
      | Some fs \<Rightarrow>
          if \<not> (exact_keys fs operation_keys \<or> exact_keys fs (operation_keys @ [''note'']))
          then Inl ''invalid_operation''
          else case parse_header fs canonical allow of None \<Rightarrow> Inl ''invalid_operation''
          | Some op \<Rightarrow>
              bind_res (parse_command (allow \<and> op_schema op = 2) (field ''command'' fs)) (parse_body fs op))"

text \<open>\<^verbatim>\<open>ParseOperation\<close>, \<^verbatim>\<open>ParseTrustedOperation\<close> and \<^verbatim>\<open>ParseBatch\<close>, from the decoded value on.\<close>

definition parse_operation_json :: "json \<Rightarrow> bool \<Rightarrow> operation res" where
  "parse_operation_json v allow =
     (case write_canonical v of Inl _ \<Rightarrow> Inl ''invalid_operation''
      | Inr canonical \<Rightarrow> parse_operation v canonical allow)"

definition parse_batch :: "json \<Rightarrow> operation list res" where
  "parse_batch v =
     (case object_of v of None \<Rightarrow> Inl ''invalid_operation_batch''
      | Some fs \<Rightarrow>
          if \<not> exact_keys fs [''schemaVersion'', ''operations''] \<or> integer_value (field ''schemaVersion'' fs) \<noteq> 1
          then Inl ''invalid_operation_batch''
          else case list_of (field ''operations'' fs) of None \<Rightarrow> Inl ''invalid_operation_batch''
          | Some items \<Rightarrow>
              if length items < 1 \<or> 64 < length items then Inl ''invalid_operation_batch''
              else map_res (\<lambda>item. parse_operation_json item False) items)"

end
