(* ===== verification/FeedContract.thy ===== *)
theory FeedContract
  imports Contract
begin

section \<open>Packet issuance: feed pages and bootstraps\<close>

text \<open>
  \<^verbatim>\<open>ParseFeedPage\<close>, \<^verbatim>\<open>ParseBootstrap\<close> and their parts (\<^verbatim>\<open>packetissuance/validation.go\<close>), and
  \<^verbatim>\<open>MatchingReserveOrigins\<close> (\<^verbatim>\<open>reserve_origins.go\<close>), with the guarantees a caller may rely on.
\<close>

subsection \<open>Feed pages\<close>

definition parse_side :: "string \<Rightarrow> string \<Rightarrow> json \<Rightarrow> registration option option" where
  "parse_side key event v =
     (if v = JNull then Some None
      else case parse_feed_registration v of Inl _ \<Rightarrow> None
      | Inr r \<Rightarrow> if reg_id r = key \<and> reg_event r = event then Some (Some r) else None)"

definition parse_feed_change :: "string \<Rightarrow> json \<Rightarrow> feed_change option" where
  "parse_feed_change event v =
     (case object_of v of None \<Rightarrow> None
      | Some fs \<Rightarrow>
          let id = string_value (field ''registrationId'' fs) in
          if \<not> exact_keys fs [''registrationId'', ''before'', ''after''] \<or> \<not> identifier_pattern id
             \<or> (field ''before'' fs = JNull \<and> field ''after'' fs = JNull)
          then None
          else case (parse_side id event (field ''before'' fs), parse_side id event (field ''after'' fs)) of
            (Some before, Some after) \<Rightarrow> Some \<lparr> fch_reg = id, fch_before = before, fch_after = after \<rparr>
          | _ \<Rightarrow> None)"

text \<open>The changes of an action name each registration once.\<close>

fun parse_feed_changes :: "string \<Rightarrow> string list \<Rightarrow> json list \<Rightarrow> feed_change list option" where
  "parse_feed_changes event seen [] = Some []"
| "parse_feed_changes event seen (v # vs) =
     (case parse_feed_change event v of None \<Rightarrow> None
      | Some ch \<Rightarrow>
          if fch_reg ch \<in> set seen then None
          else map_option ((#) ch) (parse_feed_changes event (fch_reg ch # seen) vs))"

definition without_timing :: "registration \<Rightarrow> registration" where
  "without_timing r = r\<lparr> reg_timing := False \<rparr>"

definition resolution_change_matches :: "change \<Rightarrow> feed_change \<Rightarrow> bool" where
  "resolution_change_matches expected actual \<longleftrightarrow>
     fch_reg actual = chg_reg expected \<and> fch_before actual = Some (without_timing (chg_before expected))
     \<and> (if is_virtual_registration (chg_after expected) then fch_after actual = None
        else fch_after actual = Some (without_timing (chg_after expected)))"

definition resolution_changes_match :: "change list \<Rightarrow> feed_change list \<Rightarrow> bool" where
  "resolution_changes_match operation feed \<longleftrightarrow> list_all2 resolution_change_matches operation feed"

text \<open>The operation an action carries; \<open>Some None\<close> is an action of the server itself.\<close>

definition parse_action_operation ::
  "json \<Rightarrow> string \<Rightarrow> string \<Rightarrow> string \<Rightarrow> string \<Rightarrow> feed_change list \<Rightarrow> operation option option" where
  "parse_action_operation v scope key kind outcome changes =
     (if kind = ''operation'' then
        (case parse_operation_json v True of Inl _ \<Rightarrow> None
         | Inr op \<Rightarrow>
             if op_id op \<noteq> key \<or> op_scope op \<noteq> scope \<or> (outcome = ''applied'') \<noteq> (changes \<noteq> [])
             then None
             else if op_schema op = 2 \<and> (outcome = ''equivalent''
                    \<or> (outcome = ''applied'' \<and> \<not> resolution_changes_match (op_changes op) changes))
             then None else Some (Some op))
      else if kind \<noteq> ''server_change'' \<or> v \<noteq> JNull \<or> outcome \<noteq> ''applied'' \<or> changes = [] then None
      else Some None)"

definition optional_code :: "json \<Rightarrow> string option option" where
  "optional_code v =
     (if v = JNull then Some None
      else case text_of v of None \<Rightarrow> None
      | Some s \<Rightarrow> if source_code_pattern s then Some (Some s) else None)"

definition action_keys :: "string list" where
  "action_keys = [''actionId'', ''kind'', ''sequence'', ''recordedAt'', ''sourceCode'', ''outcome'', ''code'',
     ''operation'', ''changes'']"

definition parse_feed_action :: "json \<Rightarrow> string \<Rightarrow> string \<Rightarrow> int \<Rightarrow> feed_action option" where
  "parse_feed_action v scope event expected =
     (case object_of v of None \<Rightarrow> None
      | Some fs \<Rightarrow>
          let id = string_value (field ''actionId'' fs); kind = string_value (field ''kind'' fs);
              recorded = string_value (field ''recordedAt'' fs);
              source = string_value (field ''sourceCode'' fs);
              outcome = string_value (field ''outcome'' fs) in
          if \<not> exact_keys fs action_keys then None
          else case (read_feed_cursor (field ''sequence'' fs), optional_code (field ''code'' fs),
                     list_of (field ''changes'' fs)) of
            (Some (sequence, number), Some code, Some raw) \<Rightarrow>
              if \<not> uuid_pattern id \<or> number \<noteq> expected \<or> \<not> valid_timestamp recorded
                 \<or> \<not> source_code_pattern source \<or> (outcome = ''conflict'') \<noteq> (code \<noteq> None)
                 \<or> outcome \<notin> {''applied'', ''equivalent'', ''conflict''} \<or> 20000 < length raw
              then None
              else (case parse_feed_changes event [] raw of None \<Rightarrow> None
                | Some changes \<Rightarrow>
                    (case (parse_action_operation (field ''operation'' fs) scope id kind outcome changes,
                           write_canonical v) of
                       (Some op, Inr canonical) \<Rightarrow>
                         Some \<lparr> act_id = id, act_kind = kind, act_sequence = sequence, act_recorded = recorded,
                                act_source = source, act_outcome = outcome, act_code = code,
                                act_operation = op, act_changes = changes, act_canonical = canonical \<rparr>
                     | _ \<Rightarrow> None))
          | _ \<Rightarrow> None)"

text \<open>Actions are numbered one by one from the cursor on, and each id occurs once.\<close>

fun parse_actions ::
  "string \<Rightarrow> string \<Rightarrow> int \<Rightarrow> string list \<Rightarrow> json list \<Rightarrow> feed_action list option" where
  "parse_actions scope event n seen [] = Some []"
| "parse_actions scope event n seen (v # vs) =
     (case parse_feed_action v scope event (n + 1) of None \<Rightarrow> None
      | Some a \<Rightarrow>
          if act_id a \<in> set seen then None
          else map_option ((#) a) (parse_actions scope event (n + 1) (act_id a # seen) vs))"

definition parse_cursor :: "json \<Rightarrow> string \<Rightarrow> (feed_cursor \<times> int \<times> int) option" where
  "parse_cursor v expected =
     (case object_of v of None \<Rightarrow> None
      | Some fs \<Rightarrow>
          if \<not> exact_keys fs [''after'', ''next'', ''head'', ''hasMore''] then None
          else case (read_feed_cursor (field ''after'' fs), read_feed_cursor (field ''next'' fs),
                     read_feed_cursor (field ''head'' fs), bool_of (field ''hasMore'' fs)) of
            (Some (after, an), Some (next, nn), Some (head, hn), Some has_more) \<Rightarrow>
              if after \<noteq> expected \<or> nn < an \<or> hn < nn \<or> has_more \<noteq> (nn < hn) then None
              else Some (\<lparr> cur_after = after, cur_next = next, cur_head = head, cur_more = has_more \<rparr>, an, nn)
          | _ \<Rightarrow> None)"

definition parse_feed_page :: "json \<Rightarrow> string \<Rightarrow> string \<Rightarrow> feed_page res" where
  "parse_feed_page v scope expected =
     (let invalid = Inl ''invalid_feed_response'' in
      case object_of v of None \<Rightarrow> invalid
      | Some fs \<Rightarrow>
          if \<not> exact_keys fs [''schemaVersion'', ''scopeId'', ''cursor'', ''actions'']
             \<or> integer_value (field ''schemaVersion'' fs) \<noteq> 1 \<or> string_value (field ''scopeId'' fs) \<noteq> scope
          then invalid
          else case (parse_cursor (field ''cursor'' fs) expected, list_of (field ''actions'' fs)) of
            (Some (cursor, after, next), Some raw) \<Rightarrow>
              if feed_event_id scope = [] \<or> 100 < length raw then invalid
              else (case parse_actions scope (feed_event_id scope) after [] raw of None \<Rightarrow> invalid
                | Some actions \<Rightarrow>
                    if after + int (length actions) \<noteq> next
                       \<or> (actions = [] \<and> cur_next cursor \<noteq> cur_after cursor)
                    then invalid
                    else Inr \<lparr> page_schema = 1, page_scope = scope, page_cursor = cursor,
                               page_actions = actions \<rparr>)
          | _ \<Rightarrow> invalid)"

subsection \<open>Bootstraps\<close>

fun parse_races :: "string list \<Rightarrow> json list \<Rightarrow> (string \<times> string) list option" where
  "parse_races seen [] = Some []"
| "parse_races seen (v # vs) =
     (case object_of v of None \<Rightarrow> None
      | Some fs \<Rightarrow>
          let id = string_value (field ''id'' fs); name = string_value (field ''name'' fs) in
          if \<not> exact_keys fs [''id'', ''name''] \<or> \<not> identifier_pattern id \<or> \<not> valid_text name 256
             \<or> id \<in> set seen
          then None else map_option ((#) (id, name)) (parse_races (id # seen) vs))"

fun parse_rows :: "string \<Rightarrow> string set \<Rightarrow> string list \<Rightarrow> json list \<Rightarrow> registration list option" where
  "parse_rows event races seen [] = Some []"
| "parse_rows event races seen (v # vs) =
     (case parse_registration v of Inl _ \<Rightarrow> None
      | Inr r \<Rightarrow>
          if reg_event r \<noteq> event \<or> reg_race r \<notin> races \<or> reg_id r \<in> set seen then None
          else map_option ((#) r) (parse_rows event races (reg_id r # seen) vs))"

fun parse_origins :: "string set \<Rightarrow> string list \<Rightarrow> json list \<Rightarrow> reserve_origin list option" where
  "parse_origins races seen [] = Some []"
| "parse_origins races seen (v # vs) =
     (case object_of v of None \<Rightarrow> None
      | Some fs \<Rightarrow>
          let origin = \<lparr> org_reg = string_value (field ''registrationId'' fs),
                         org_bib = string_value (field ''bib'' fs), org_epc = string_value (field ''epc'' fs),
                         org_race = string_value (field ''raceId'' fs) \<rparr> in
          if \<not> exact_keys fs [''registrationId'', ''bib'', ''epc'', ''raceId'']
             \<or> \<not> identifier_pattern (org_reg origin) \<or> org_reg origin \<in> set seen
             \<or> org_race origin \<notin> races \<or> org_bib origin = [] \<or> \<not> valid_text (org_bib origin) 64
             \<or> \<not> valid_text (org_epc origin) 128
          then None else map_option ((#) origin) (parse_origins races (org_reg origin # seen) vs))"

definition transfers_inside :: "registration list \<Rightarrow> bool" where
  "transfers_inside rows \<longleftrightarrow>
     list_all (\<lambda>r. case reg_transferred r of None \<Rightarrow> True
       | Some t \<Rightarrow> t \<noteq> reg_id r \<and> t \<in> set (map reg_id rows)) rows"

definition parse_event :: "json \<Rightarrow> (string \<times> string \<times> string) option" where
  "parse_event v =
     (case object_of v of None \<Rightarrow> None
      | Some fs \<Rightarrow>
          let id = string_value (field ''id'' fs); name = string_value (field ''name'' fs);
              date = string_value (field ''date'' fs) in
          if exact_keys fs [''id'', ''name'', ''date''] \<and> identifier_pattern id \<and> valid_text name 512
             \<and> valid_date date
          then Some (id, name, date) else None)"

definition bootstrap_keys :: "string list" where
  "bootstrap_keys = [''schemaVersion'', ''scopeId'', ''sourceKind'', ''event'', ''races'', ''registrations'',
     ''baselineId'']"

definition parse_optional_origins ::
  "string set \<Rightarrow> json option \<Rightarrow> reserve_origin list option option" where
  "parse_optional_origins races raw =
     (case raw of None \<Rightarrow> Some None
      | Some v \<Rightarrow>
          (case list_of v of None \<Rightarrow> None
           | Some xs \<Rightarrow> if 20000 < length xs then None
                        else map_option Some (parse_origins races [] xs)))"

definition bootstrap_cursor :: "int \<Rightarrow> (string \<times> json) list \<Rightarrow> string option" where
  "bootstrap_cursor version fs =
     (if version = 2 then map_option fst (read_feed_cursor (field ''feedCursor'' fs)) else Some ''0'')"

definition parse_bootstrap :: "json \<Rightarrow> bootstrap res" where
  "parse_bootstrap v =
     (let invalid = Inl ''invalid_bootstrap'' in
      case object_of v of None \<Rightarrow> invalid
      | Some gs \<Rightarrow>
          let fs = filter (\<lambda>kv. fst kv \<noteq> ''reserveOrigins'') gs;
              version = integer_value (field ''schemaVersion'' fs);
              scope = string_value (field ''scopeId'' fs); baseline = string_value (field ''baselineId'' fs) in
          if \<not> (version = 1 \<and> exact_keys fs bootstrap_keys
                 \<or> version = 2 \<and> exact_keys fs (bootstrap_keys @ [''feedCursor'']))
             \<or> string_value (field ''sourceKind'' fs) \<noteq> ''site'' \<or> \<not> identifier_pattern scope
             \<or> \<not> identifier_pattern baseline
          then invalid
          else case (bootstrap_cursor version fs, parse_event (field ''event'' fs),
                     list_of (field ''races'' fs), list_of (field ''registrations'' fs)) of
            (Some cursor, Some event, Some raw_races, Some raw_rows) \<Rightarrow>
              if 1000 < length raw_races \<or> 20000 < length raw_rows then invalid
              else (case parse_races [] raw_races of None \<Rightarrow> invalid
                | Some races \<Rightarrow>
                    (case parse_rows (fst event) (set (map fst races)) [] raw_rows of None \<Rightarrow> invalid
                     | Some rows \<Rightarrow>
                         if \<not> transfers_inside rows then invalid
                         else (case parse_optional_origins (set (map fst races))
                                      (map_of gs ''reserveOrigins'') of None \<Rightarrow> invalid
                           | Some origins \<Rightarrow>
                               Inr \<lparr> boot_origins = origins, boot_schema = version, boot_scope = scope,
                                     boot_source = ''site'', boot_event = event, boot_races = races,
                                     boot_registrations = rows, boot_baseline = baseline,
                                     boot_cursor = cursor \<rparr>)))
          | _ \<Rightarrow> invalid)"

subsection \<open>Reserve origins\<close>

definition origin_matches :: "registration \<Rightarrow> reserve_origin \<Rightarrow> bool" where
  "origin_matches r origin \<longleftrightarrow> org_reg origin = reg_id r \<and> org_bib origin \<noteq> [] \<and> reg_epc r = org_epc origin
     \<and> (reg_bib r = org_bib origin \<or> (reg_bib r = [] \<and> reg_epc r \<noteq> []))"

definition own_origins :: "registration list \<Rightarrow> reserve_origin list" where
  "own_origins rows =
     map (\<lambda>r. \<lparr> org_reg = reg_id r, org_bib = reg_bib r, org_epc = reg_epc r, org_race = reg_race r \<rparr>)
       (filter (\<lambda>r. reg_reserve r \<and> reg_bib r \<noteq> []) rows)"

text \<open>
  The last matching candidate of each row, in the order of the rows; candidates derived from the rows
  come after the given ones.  \<open>last_record\<close> is the map the source builds from the rows.
\<close>

definition match_step ::
  "registration list \<Rightarrow> reserve_origin \<Rightarrow> (string \<Rightarrow> reserve_origin option) \<Rightarrow> (string \<Rightarrow> reserve_origin option)" where
  "match_step rows origin m =
     (case last_record rows (org_reg origin) of None \<Rightarrow> m
      | Some r \<Rightarrow> if origin_matches r origin then m(reg_id r \<mapsto> origin) else m)"

definition matching_reserve_origins ::
  "registration list \<Rightarrow> reserve_origin list \<Rightarrow> reserve_origin list" where
  "matching_reserve_origins rows candidates =
     (let matched = fold (match_step rows) (candidates @ own_origins rows) Map.empty
      in List.map_filter (\<lambda>r. matched (reg_id r)) rows)"

end
