(* ===== verification/ContractLaws.thy ===== *)
theory ContractLaws
  imports FeedContract PacketLaws
begin

section \<open>Guarantees of the wire contract\<close>

text \<open>
  What an accepted document promises to the code behind the parser: rows that survive the round trip
  through JSON, operations whose changes are the transition of their command, feed pages numbered
  without gaps, and bootstraps closed under their references.
\<close>

subsection \<open>Rows\<close>

lemma exact_keys_person [simp]:
  "exact_keys [(''birthDate'', a), (''city'', b), (''firstName'', c), (''gender'', d), (''id'', e),
     (''lastName'', f), (''team'', g)] person_keys"
  by (simp add: exact_keys_def person_keys_def)

lemma parse_person_json:
  "parse_person (person_json p) = bind_res (validate_person p) (\<lambda>_. Inr p)"
  by (cases p) (simp add: parse_person_def person_json_def Let_def field_def)

lemma option_json_simps [simp]:
  "option_json f None = JNull" "option_json f (Some x) = f x"
  by (simp_all add: option_json_def)

lemma optional_person_json:
  "optional_person (option_json person_json q) =
     (case q of None \<Rightarrow> Inr None | Some p \<Rightarrow> bind_res (validate_person p) (\<lambda>_. Inr (Some p)))"
proof (cases q)
  case (Some p)
  have "person_json p \<noteq> JNull" by (simp add: person_json_def)
  with Some show ?thesis
    by (cases "validate_person p") (simp_all add: optional_person_def parse_person_json)
qed (simp add: optional_person_def)

lemma optional_target_json [simp]: "optional_target (option_json JText t) = Inr t"
  by (cases t) (simp_all add: optional_target_def)

lemma exact_keys_registration [simp]:
  "exact_keys [(''bib'', a), (''epc'', b), (''eventId'', c), (''hasTimingEvidence'', d), (''id'', e),
     (''issued'', f), (''person'', g), (''raceId'', h), (''reserve'', i), (''status'', j),
     (''transferredTo'', k)] registration_keys"
  by (simp add: exact_keys_def registration_keys_def)

lemma parse_registration_json:
  "parse_registration (registration_json r) =
     bind_res (optional_person (option_json person_json (reg_person r)))
       (\<lambda>person. bind_res (validate_registration (r\<lparr> reg_person := person \<rparr>))
          (\<lambda>_. Inr (r\<lparr> reg_person := person \<rparr>)))"
  by (cases r) (simp add: parse_registration_def registration_json_def Let_def field_def)

lemma validate_registration_person:
  "validate_registration r = Inr () \<Longrightarrow> reg_person r = Some p \<Longrightarrow> validate_person p = Inr ()"
  by (simp add: validate_registration_def split: if_split_asm)

lemma same_person [simp]: "reg_person r = x \<Longrightarrow> r\<lparr> reg_person := x \<rparr> = r"
  by (cases r) simp

text \<open>
  A registration that is written as JSON and read back is the same registration exactly if it
  passes the row validation; otherwise it is refused.
\<close>

theorem registration_roundtrip:
  "parse_registration (registration_json r) = Inr r' \<longleftrightarrow> r' = r \<and> validate_registration r = Inr ()"
proof (cases "reg_person r")
  case None
  then show ?thesis
    by (cases "validate_registration r")
      (auto simp: parse_registration_json optional_person_json simp del: option_json_simps)
next
  case (Some p)
  then show ?thesis
    using validate_registration_person [of r p]
    by (cases "validate_person p"; cases "validate_registration r")
      (auto simp: parse_registration_json optional_person_json simp del: option_json_simps)
qed

lemma parse_registration_valid: "parse_registration v = Inr r \<Longrightarrow> validate_registration r = Inr ()"
  by (auto simp: parse_registration_def res_simps Let_def split: option.splits if_split_asm)

lemma parse_person_valid: "parse_person v = Inr p \<Longrightarrow> validate_person p = Inr ()"
  by (auto simp: parse_person_def res_simps Let_def split: option.splits if_split_asm)

lemma parse_change_valid:
  "parse_change v = Inr ch \<Longrightarrow> validate_registration (chg_before ch) = Inr ()
     \<and> validate_registration (chg_after ch) = Inr () \<and> identifier_pattern (chg_reg ch)"
  by (auto simp: parse_change_def res_simps Let_def split: option.splits if_split_asm
      dest: parse_registration_valid)

subsection \<open>Operations\<close>

lemma parse_entries_sound:
  "parse_entries t schema seen bs vs = Some es \<Longrightarrow> length bs = length vs \<Longrightarrow>
     length es = length vs \<and> distinct (map (\<lambda>e. chg_reg (snd e)) es)
     \<and> set seen \<inter> set (map (\<lambda>e. chg_reg (snd e)) es) = {}
     \<and> (\<forall>e \<in> set es. base_reg (fst e) = chg_reg (snd e) \<and> change_shape t schema (snd e)
          \<and> validate_registration (chg_before (snd e)) = Inr ()
          \<and> validate_registration (chg_after (snd e)) = Inr ())"
proof (induction t schema seen bs vs arbitrary: es rule: parse_entries.induct)
  case (1 t schema seen b bs v vs)
  from 1(2) obtain base ch es' where *: "parse_base b = Some base" "parse_change v = Inr ch"
    "base_reg base = chg_reg ch" "chg_reg ch \<notin> set seen" "change_shape t schema ch"
    "parse_entries t schema (chg_reg ch # seen) bs vs = Some es'" "es = (base, ch) # es'"
    by (auto split: option.splits sum.splits if_split_asm)
  have ne: "\<not> (base_reg base \<noteq> chg_reg ch \<or> chg_reg ch \<in> set seen \<or> \<not> change_shape t schema ch)"
    using * by simp
  have "length es' = length vs \<and> distinct (map (\<lambda>e. chg_reg (snd e)) es')
     \<and> set (chg_reg ch # seen) \<inter> set (map (\<lambda>e. chg_reg (snd e)) es') = {}
     \<and> (\<forall>e \<in> set es'. base_reg (fst e) = chg_reg (snd e) \<and> change_shape t schema (snd e)
          \<and> validate_registration (chg_before (snd e)) = Inr ()
          \<and> validate_registration (chg_after (snd e)) = Inr ())"
    by (rule "1.IH" [OF refl *(1) *(2) ne *(6)]) (use 1(3) in simp)
  with * parse_change_valid [OF *(2)] show ?case by auto
qed auto

definition op_rows :: "operation \<Rightarrow> registration list" where
  "op_rows op = map chg_before (op_changes op)"

lemma check_changes_Inr:
  "check_changes op = Inr op' \<longleftrightarrow> op' = op
     \<and> (\<forall>r \<in> set (tl (op_rows op)). reg_event r = reg_event (hd (op_rows op)))
     \<and> (if op_schema op = 2 then cmd_type (op_command op) = ''resolve_conflict''
           \<and> hd (cmd_inputs (op_command op)) \<noteq> op_id op \<and> length (op_bases op) = length (op_changes op)
           \<and> (\<forall>b \<in> set (op_bases op). base_heads b = [hd (cmd_inputs (op_command op))])
        else if cmd_type (op_command op) = ''correct_move'' then length (op_changes op) = 2
        else apply_cmd (op_rows op) (op_command op) = Inr (op_changes op))"
  by (auto simp: check_changes_def op_rows_def Let_def list_all_iff split: sum.splits if_split_asm)

lemma parse_header_schema:
  "parse_header fs canonical allow = Some op \<Longrightarrow>
     (op_schema op = 1 \<or> allow \<and> op_schema op = 2) \<and> op_canonical op = canonical \<and> 0 < op_sequence op"
  by (auto simp: parse_header_def safe_integer_def Let_def split: option.splits if_split_asm)

lemma parse_operation_sound_lemma:
  assumes "parse_operation_json v False = Inr op"
  shows "op_schema op = 1 \<and> length (op_changes op) \<in> {1, 2}
    \<and> map base_reg (op_bases op) = map chg_reg (op_changes op) \<and> distinct (map chg_reg (op_changes op))
    \<and> (\<forall>ch \<in> set (op_changes op). reg_id (chg_before ch) = chg_reg ch \<and> reg_id (chg_after ch) = chg_reg ch
         \<and> reg_event (chg_after ch) = reg_event (hd (op_rows op))
         \<and> reg_timing (chg_after ch) = reg_timing (chg_before ch)
         \<and> validate_registration (chg_after ch) = Inr ())
    \<and> (if cmd_type (op_command op) = ''correct_move'' then length (op_changes op) = 2
       else apply_cmd (op_rows op) (op_command op) = Inr (op_changes op))
    \<and> write_canonical v = Inr (op_canonical op)"
proof -
  from assms obtain canonical where can: "write_canonical v = Inr canonical"
    and p: "parse_operation v canonical False = Inr op"
    by (auto simp: parse_operation_json_def split: sum.splits)
  from p obtain fs op0 c where hd: "object_of v = Some fs"
    "parse_header fs canonical False = Some op0" and body: "parse_body fs op0 c = Inr op"
    by (auto simp: parse_operation_def res_simps split: option.split_asm if_split_asm)
  from body obtain bs vs es where *: "object_of v = Some fs"
    "parse_header fs canonical False = Some op0" "list_of (field ''bases'' fs) = Some bs" "list_of (field ''changes'' fs) = Some vs"
    "length vs = 1 \<or> length vs = 2" "length bs = length vs"
    "parse_entries (cmd_type c) (op_schema op0) [] bs vs = Some es"
    and ck: "check_changes (op0\<lparr> op_command := c, op_bases := map fst es, op_changes := map snd es \<rparr>) = Inr op"
    by (auto simp: parse_body_def hd split: option.split_asm if_split_asm)
  let ?op = "op0\<lparr> op_command := c, op_bases := map fst es, op_changes := map snd es \<rparr>"
  have s: "op_schema op0 = 1" "op_canonical op0 = canonical" using parse_header_schema [OF *(2)] by auto
  note es = parse_entries_sound [OF *(7,6)]
  have op: "op = ?op" using ck by (simp add: check_changes_Inr)
  have ev: "reg_event r = reg_event (hd (op_rows op))" if "r \<in> set (op_rows op)" for r
    using ck that es *(5) by (cases "op_rows op") (auto simp: check_changes_Inr op)
  have rows: "reg_id (chg_before ch) = chg_reg ch \<and> reg_id (chg_after ch) = chg_reg ch
      \<and> reg_event (chg_after ch) = reg_event (hd (op_rows op))
      \<and> reg_timing (chg_after ch) = reg_timing (chg_before ch)
      \<and> validate_registration (chg_after ch) = Inr ()" if "ch \<in> set (op_changes op)" for ch
  proof -
    from that es have "change_shape (cmd_type c) 1 ch" "validate_registration (chg_after ch) = Inr ()"
      by (auto simp: op s)
    moreover from that have "reg_event (chg_before ch) = reg_event (hd (op_rows op))"
      by (intro ev) (auto simp: op_rows_def)
    ultimately show ?thesis by (auto simp: change_shape_def Let_def)
  qed
  have bases: "map base_reg (op_bases op) = map chg_reg (op_changes op)" "length (op_changes op) \<in> {1, 2}"
    "distinct (map chg_reg (op_changes op))"
    using es *(5) by (auto simp: op o_def)
  have fields: "op_schema op = 1" "op_canonical op = canonical" by (simp_all add: op s)
  have cmd: "if cmd_type (op_command op) = ''correct_move'' then length (op_changes op) = 2
       else apply_cmd (op_rows op) (op_command op) = Inr (op_changes op)"
    using ck s(1) unfolding check_changes_Inr by (simp only: op[symmetric] fields) simp
  show ?thesis using rows bases fields cmd can by blast
qed


text \<open>
  An operation accepted from a tablet (schema 1) changes one or two rows of one event, names each
  row once and in the same order as its bases, keeps ids, events and timing evidence, and its changes
  are exactly what the transition of its command makes of its before images; a correction is the only
  exception and always has two changes.
\<close>

theorem parse_operation_sound:
  assumes "parse_operation_json v False = Inr op"
  shows "op_schema op = 1 \<and> length (op_changes op) \<in> {1, 2}
    \<and> map base_reg (op_bases op) = map chg_reg (op_changes op) \<and> distinct (map chg_reg (op_changes op))
    \<and> (\<forall>ch \<in> set (op_changes op). reg_id (chg_before ch) = chg_reg ch \<and> reg_id (chg_after ch) = chg_reg ch
         \<and> reg_event (chg_after ch) = reg_event (hd (op_rows op))
         \<and> reg_timing (chg_after ch) = reg_timing (chg_before ch)
         \<and> validate_registration (chg_after ch) = Inr ())
    \<and> (if cmd_type (op_command op) = ''correct_move'' then length (op_changes op) = 2
       else apply_cmd (op_rows op) (op_command op) = Inr (op_changes op))
    \<and> write_canonical v = Inr (op_canonical op)"
  by (rule parse_operation_sound_lemma [OF assms])

subsection \<open>A concrete operation\<close>

lemma plain_text_valid:
  assumes "list_all (\<lambda>c. 32 \<le> byte_of c \<and> byte_of c < 127) s" and "length s \<le> n"
  shows "valid_text s n"
proof -
  have "utf8_runes (map byte_of s) = Some (map byte_of s)"
    by (rule utf8_runes_ascii) (use assms(1) in \<open>auto simp: list_all_iff\<close>)
  then show ?thesis using assms by (auto simp: valid_text_def runes_of_def list_all_iff forbidden_rune_def)
qed

definition w_issued :: registration where
  "w_issued = w_source\<lparr> reg_issued := True \<rparr>"

definition w_uuid :: string where
  "w_uuid = ''00000000-0000-4000-8000-000000000001''"

definition w_issue_json :: json where
  "w_issue_json = JObject [(''registrationId'', JText ''1''), (''type'', JText ''issue'')]"

definition w_change_json :: json where
  "w_change_json = JObject [(''after'', registration_json w_issued), (''before'', registration_json w_source),
     (''registrationId'', JText ''1'')]"

definition w_operation_json :: json where
  "w_operation_json = JObject
     [(''baselineId'', JText ''b''),
      (''bases'', JList [JObject [(''heads'', JList []), (''registrationId'', JText ''1'')]]),
      (''changes'', JList [w_change_json]), (''claimedActor'', JText ''desk''),
      (''command'', w_issue_json), (''createdAtMs'', JNumber ''5''), (''operationId'', JText w_uuid),
      (''originInstanceId'', JText w_uuid), (''originSequence'', JNumber ''1''),
      (''schemaVersion'', JNumber ''1''), (''scopeId'', JText ''site:1:e'')]"

lemma w_uuid_pattern: "uuid_pattern w_uuid"
  by (simp add: w_uuid_def uuid_pattern_def is_hex_def is_digit_def byte_of_def)

lemma w_command: "\<exists>raw. parse_command False w_issue_json = Inr (zero_command\<lparr> cmd_type := ''issue'', cmd_reg := ''1'', cmd_raw := raw \<rparr>)"
    "\<exists>raw. write_canonical w_issue_json = Inr raw"
proof -
  have "valid_text ''1'' (2 ^ 63 - 1)" "valid_text ''issue'' (2 ^ 63 - 1)"
    by (rule plain_text_valid; simp add: byte_of_def)+
  then show "\<exists>raw. parse_command False w_issue_json = Inr (zero_command\<lparr> cmd_type := ''issue'', cmd_reg := ''1'', cmd_raw := raw \<rparr>)"
      "\<exists>raw. write_canonical w_issue_json = Inr raw"
   by (simp_all add: parse_command_def Let_def w_issue_json_def field_def parse_typed_def zero_command_def parse_plain_def
        exact_keys_def identifier_pattern_def is_digit_def is_lower_def is_upper_def byte_of_def)
qed

lemma w_change: "parse_change w_change_json = Inr (mk_change w_source w_issued)"
proof -
  have v: "validate_registration w_source = Inr ()" "validate_registration w_issued = Inr ()"
    using w_rows_valid by (simp_all add: w_issued_def validate_registration_iff)
  then have "parse_registration (registration_json w_source) = Inr w_source"
    "parse_registration (registration_json w_issued) = Inr w_issued"
    by (simp_all add: registration_roundtrip)
  then show ?thesis
    by (simp add: parse_change_def w_change_json_def exact_keys_def field_def Let_def mk_change_def
        identifier_pattern_def is_digit_def byte_of_def w_source_def)
qed


lemma w_canonical: "\<exists>canonical. write_canonical w_operation_json = Inr canonical"
proof -
  have t: "valid_text ''1'' (2 ^ 63 - 1)" "valid_text ''issue'' (2 ^ 63 - 1)" "valid_text ''b'' (2 ^ 63 - 1)"
    "valid_text ''desk'' (2 ^ 63 - 1)" "valid_text w_uuid (2 ^ 63 - 1)" "valid_text ''site:1:e'' (2 ^ 63 - 1)"
    "valid_text ''7'' (2 ^ 63 - 1)" "valid_text [] (2 ^ 63 - 1)" "valid_text ''e'' (2 ^ 63 - 1)"
    "valid_text ''r'' (2 ^ 63 - 1)" "valid_text ''registered'' (2 ^ 63 - 1)" "valid_text ''p1'' (2 ^ 63 - 1)"
    "valid_text ''Ann'' (2 ^ 63 - 1)" "valid_text ''Lee'' (2 ^ 63 - 1)"
    by (rule plain_text_valid; simp add: byte_of_def w_uuid_def)+
  have n: "canonical_number ''1''" "canonical_number ''5''"
    by (simp_all add: canonical_number_def parse_int_def is_digit_def byte_of_def digits_value_def
        digit_value_def max_safe_integer_def format_int_def format_nat.simps digit_char_def char_of_def bit_0)
  have p: "\<exists>x. write_canonical (person_json w_person) = Inr x"
    using t by (simp add: person_json_def w_person_def)
  then have r: "\<exists>x. write_canonical (registration_json w_source) = Inr x"
    "\<exists>x. write_canonical (registration_json w_issued) = Inr x"
    using t by (auto simp: registration_json_def w_issued_def w_source_def zero_registration_def)
  then have c: "\<exists>x. write_canonical w_change_json = Inr x"
    using t by (auto simp: w_change_json_def)
  obtain raw where "write_canonical w_issue_json = Inr raw" using w_command(2) by blast
  with c t n show ?thesis by (auto simp: w_operation_json_def)
qed

lemma w_operation_parsed:
  "\<exists>op. parse_operation_json w_operation_json False = Inr op \<and> op_changes op = [mk_change w_source w_issued]
     \<and> cmd_type (op_command op) = ''issue''"
proof -
  obtain canonical where can: "write_canonical w_operation_json = Inr canonical" using w_canonical by blast
  obtain raw where cmd: "parse_command False w_issue_json =
      Inr (zero_command\<lparr> cmd_type := ''issue'', cmd_reg := ''1'', cmd_raw := raw \<rparr>)"
    using w_command(1) by blast
  let ?c = "zero_command\<lparr> cmd_type := ''issue'', cmd_reg := ''1'', cmd_raw := raw \<rparr>"
  have t: "valid_text ''desk'' 160" by (rule plain_text_valid; simp add: byte_of_def)
  obtain fs where fs: "w_operation_json = JObject fs" by (simp add: w_operation_json_def)
  have keys: "exact_keys fs operation_keys"
    using fs by (auto simp: w_operation_json_def exact_keys_def operation_keys_def)
  have look: "field ''command'' fs = w_issue_json" "field ''changes'' fs = JList [w_change_json]"
     "field ''bases'' fs = JList [JObject [(''heads'', JList []), (''registrationId'', JText ''1'')]]"
    using fs by (auto simp: w_operation_json_def field_def)
  obtain op where hd: "parse_header fs canonical False = Some op" "op_schema op = 1"
  proof -
    have "\<exists>op. parse_header fs canonical False = Some op \<and> op_schema op = 1"
      using fs t w_uuid_pattern
      by (auto simp: parse_header_def w_operation_json_def field_def safe_integer_def optional_text_def Let_def
          parse_int_def is_digit_def byte_of_def digits_value_def digit_value_def max_safe_integer_def
          identifier_pattern_def is_lower_def is_upper_def)
    then show thesis using that by blast
  qed
  have ap: "apply_cmd [w_source] ?c = Inr [mk_change w_source w_issued]"
    using w_rows_valid by (simp add: apply_cmd_def transition_def apply_issue_def require_assigned_def
        single_change_def w_issued_def w_source_def zero_registration_def zero_command_def)
  have base: "parse_base (JObject [(''heads'', JList []), (''registrationId'', JText ''1'')])
      = Some \<lparr> base_reg = ''1'', base_heads = [] \<rparr>"
    by (simp add: parse_base_def exact_keys_def field_def identifier_pattern_def is_digit_def byte_of_def)
  have shape: "change_shape ''issue'' 1 (mk_change w_source w_issued)"
    by (simp add: change_shape_def Let_def mk_change_def w_issued_def)
  have "parse_entries ''issue'' 1 [] [JObject [(''heads'', JList []), (''registrationId'', JText ''1'')]]
      [w_change_json] = Some [(\<lparr> base_reg = ''1'', base_heads = [] \<rparr>, mk_change w_source w_issued)]"
    using shape by (simp add: base w_change mk_change_def w_source_def)
  then have "parse_body fs op ?c = check_changes (op\<lparr> op_command := ?c,
      op_bases := [\<lparr> base_reg = ''1'', base_heads = [] \<rparr>], op_changes := [mk_change w_source w_issued] \<rparr>)"
    by (simp add: parse_body_def look hd zero_command_def)
  also have "\<dots> = Inr (op\<lparr> op_command := ?c,
      op_bases := [\<lparr> base_reg = ''1'', base_heads = [] \<rparr>], op_changes := [mk_change w_source w_issued] \<rparr>)"
    using ap by (simp add: check_changes_Inr op_rows_def hd mk_change_def zero_command_def)
  finally show ?thesis
    using can by (simp add: parse_operation_json_def parse_operation_def fs keys hd look cmd zero_command_def)
qed

theorem parse_operation_sound_witness:
  "\<exists>op. parse_operation_json w_operation_json False = Inr op
     \<and> apply_cmd (op_rows op) (op_command op) = Inr (op_changes op) \<and> length (op_changes op) \<in> {1, 2}"
proof -
  obtain op where op: "parse_operation_json w_operation_json False = Inr op"
    "op_changes op = [mk_change w_source w_issued]" using w_operation_parsed by blast
  from parse_operation_sound [OF op(1)] op show ?thesis by (auto split: if_split_asm)
qed

end
