(* ===== verification/FeedLaws.thy ===== *)
theory FeedLaws
  imports ContractLaws
begin

section \<open>Guarantees of feed pages and bootstraps\<close>

text \<open>
  A feed page is a gap-free run of numbered actions after the requested cursor, a bootstrap is closed
  under its references, and the reserve origins kept for a roster are those of its rows.
\<close>

subsection \<open>Cursors\<close>

lemma digit_char_value: "is_digit c \<Longrightarrow> digit_char (digit_value c) = c"
  by (simp add: is_digit_def digit_char_def digit_value_def byte_of_def)

lemma digit_value_less: "is_digit c \<Longrightarrow> digit_value c < 10"
  unfolding is_digit_def digit_value_def by linarith

lemma format_digits:
  "list_all is_digit s \<Longrightarrow> s \<noteq> [] \<Longrightarrow> hd s \<noteq> CHR ''0'' \<or> length s = 1 \<Longrightarrow> format_nat (digits_value s) = s"
proof (induction s rule: rev_induct)
  case (snoc c t)
  note c = digit_char_value [of c] digit_value_less [of c]
  show ?case
  proof (cases "t = []")
    case True
    with snoc c show ?thesis by (simp add: format_nat.simps digits_value_def)
  next
    case False
    with snoc have t: "format_nat (digits_value t) = t" "hd t \<noteq> CHR ''0''" by (auto simp: hd_append)
    have "digits_value t \<noteq> 0"
    proof
      assume "digits_value t = 0"
      then have "t = [digit_char 0]" using t(1) by (simp add: format_nat.simps)
      with t(2) show False by (simp add: digit_char_def char_of_def bit_0)
    qed
    with t(1) c snoc.prems show ?thesis
      by (simp add: format_nat.simps [of "10 * digits_value t + digit_value c"])
  qed
qed simp

lemma cursor_text:
  assumes "canonical_cursor_pattern s" "parse_int 64 s = Some n"
  shows "s = format_int n \<and> 0 \<le> n"
proof -
  have s: "list_all is_digit s" "s \<noteq> []" "hd s \<noteq> CHR ''0'' \<or> length s = 1"
    using assms(1) by (auto simp: canonical_cursor_pattern_def is_digit_def byte_of_def)
  have "is_digit (hd s)" using s(1,2) by (cases s) auto
  then have "hd s \<noteq> CHR ''-''" "hd s \<noteq> CHR ''+''" using sign_not_digit by blast+
  then have "n = int (digits_value s)"
    using assms(2) by (auto simp: parse_int_def Let_def split: if_split_asm)
  then show ?thesis using format_digits [OF s] by (simp add: format_int_def)
qed

lemma read_feed_cursor_text: "read_feed_cursor v = Some (s, n) \<Longrightarrow> s = format_int n \<and> 0 \<le> n"
  by (auto simp: read_feed_cursor_def cursor_text split: option.split_asm if_split_asm)

subsection \<open>Feed pages\<close>

definition side_of :: "string \<Rightarrow> string \<Rightarrow> registration option \<Rightarrow> bool" where
  "side_of key event side \<longleftrightarrow>
     (\<forall>r. side = Some r \<longrightarrow> reg_id r = key \<and> reg_event r = event \<and> \<not> reg_timing r
        \<and> validate_registration r = Inr ())"

lemma field_put [simp]: "field k (put k v fs) = v"
  by (induction fs) (auto simp: field_def)

lemma parse_feed_registration_sound:
  "parse_feed_registration v = Inr r \<Longrightarrow> \<not> reg_timing r \<and> validate_registration r = Inr ()"
  by (auto simp: parse_feed_registration_def parse_registration_def res_simps Let_def
      split: option.split_asm if_split_asm)

lemma parse_side_sound: "parse_side key event v = Some side \<Longrightarrow> side_of key event side \<and> (side = None \<longleftrightarrow> v = JNull)"
  using parse_feed_registration_sound
  by (auto simp: parse_side_def side_of_def split: sum.split_asm if_split_asm)

definition change_of :: "string \<Rightarrow> feed_change \<Rightarrow> bool" where
  "change_of event ch \<longleftrightarrow> side_of (fch_reg ch) event (fch_before ch) \<and> side_of (fch_reg ch) event (fch_after ch)
     \<and> (fch_before ch \<noteq> None \<or> fch_after ch \<noteq> None)"

lemma parse_feed_change_sound:
  assumes "parse_feed_change event v = Some ch"
  shows "change_of event ch"
proof -
  from assms obtain fs b a where *: "parse_side (fch_reg ch) event (field ''before'' fs) = Some b"
    "parse_side (fch_reg ch) event (field ''after'' fs) = Some a" "fch_before ch = b" "fch_after ch = a"
    "\<not> (field ''before'' fs = JNull \<and> field ''after'' fs = JNull)"
    by (auto simp: parse_feed_change_def Let_def split: option.split_asm if_split_asm)
  then show ?thesis using parse_side_sound [OF *(1)] parse_side_sound [OF *(2)] by (auto simp: change_of_def)
qed

lemma parse_feed_changes_sound:
  "parse_feed_changes event seen vs = Some chs \<Longrightarrow>
     distinct (map fch_reg chs) \<and> set seen \<inter> set (map fch_reg chs) = {} \<and> list_all (change_of event) chs"
proof (induction event seen vs arbitrary: chs rule: parse_feed_changes.induct)
  case (2 event seen v vs)
  from 2(2) obtain ch chs' where *: "parse_feed_change event v = Some ch" "fch_reg ch \<notin> set seen"
    "parse_feed_changes event (fch_reg ch # seen) vs = Some chs'" "chs = ch # chs'"
    by (auto split: option.split_asm if_split_asm)
  with 2(1) [OF *(1) *(2) *(3)] parse_feed_change_sound [OF *(1)] show ?case by auto
qed auto

text \<open>What the code relies on for one accepted action.\<close>

definition action_sound :: "string \<Rightarrow> string \<Rightarrow> feed_action \<Rightarrow> bool" where
  "action_sound scope event a \<longleftrightarrow>
     distinct (map fch_reg (act_changes a)) \<and> list_all (change_of event) (act_changes a)
     \<and> act_outcome a \<in> {''applied'', ''equivalent'', ''conflict''}
     \<and> (act_code a \<noteq> None \<longleftrightarrow> act_outcome a = ''conflict'')
     \<and> (act_changes a \<noteq> [] \<longleftrightarrow> act_outcome a = ''applied'')
     \<and> (case act_operation a of None \<Rightarrow> act_outcome a = ''applied'' | Some op \<Rightarrow> op_id op = act_id a \<and> op_scope op = scope)"

lemma parse_action_operation_sound:
  "parse_action_operation v scope key kind outcome changes = Some o' \<Longrightarrow>
     (changes \<noteq> [] \<longleftrightarrow> outcome = ''applied'')
     \<and> (case o' of None \<Rightarrow> outcome = ''applied'' | Some op \<Rightarrow> op_id op = key \<and> op_scope op = scope)"
  by (auto simp: parse_action_operation_def split: sum.split_asm if_split_asm)

lemma parse_feed_action_sound:
  assumes "parse_feed_action v scope event n = Some a"
  shows "action_sound scope event a \<and> act_sequence a = format_int n"
proof -
  from assms obtain fs raw can o' where *: "read_feed_cursor (field ''sequence'' fs) = Some (act_sequence a, n)"
    "parse_feed_changes event [] raw = Some (act_changes a)"
    "parse_action_operation (field ''operation'' fs) scope (act_id a) (act_kind a) (act_outcome a) (act_changes a)
       = Some (act_operation a)"
    "act_outcome a \<in> {''applied'', ''equivalent'', ''conflict''}"
    "(act_outcome a = ''conflict'') = (act_code a \<noteq> None)"
    unfolding parse_feed_action_def Let_def
    by (auto split: option.split_asm if_split_asm prod.split_asm sum.split_asm)
  then show ?thesis
    using parse_feed_changes_sound [OF *(2)] parse_action_operation_sound [OF *(3)]
      read_feed_cursor_text [OF *(1)] by (auto simp: action_sound_def)
qed


lemma parse_actions_sound:
  "parse_actions scope event n seen vs = Some as \<Longrightarrow>
     length as = length vs \<and> distinct (map act_id as) \<and> set seen \<inter> set (map act_id as) = {}
     \<and> list_all (action_sound scope event) as
     \<and> (\<forall>i < length as. act_sequence (as ! i) = format_int (n + 1 + int i))"
proof (induction scope event n seen vs arbitrary: as rule: parse_actions.induct)
  case (2 scope event n seen v vs)
  from 2(2) obtain a as' where *: "parse_feed_action v scope event (n + 1) = Some a" "act_id a \<notin> set seen"
    "parse_actions scope event (n + 1) (act_id a # seen) vs = Some as'" "as = a # as'"
    by (auto split: option.split_asm if_split_asm)
  have "act_sequence (as ! i) = format_int (n + 1 + int i)" if "i < length as" for i
    using 2(1) [OF *(1) *(2) *(3)] parse_feed_action_sound [OF *(1)] that * 
    by (cases i) (auto simp: add.assoc)
  with 2(1) [OF *(1) *(2) *(3)] parse_feed_action_sound [OF *(1)] * show ?case by auto
qed auto

lemma parse_cursor_sound:
  assumes "parse_cursor v expected = Some (c, an, nn)"
  obtains hn where "cur_after c = expected" "cur_after c = format_int an" "cur_next c = format_int nn"
    "cur_head c = format_int hn" "an \<le> nn" "nn \<le> hn" "cur_more c \<longleftrightarrow> nn < hn" "0 \<le> an"
proof -
  from assms obtain fs hn where *: "read_feed_cursor (field ''after'' fs) = Some (cur_after c, an)"
    "read_feed_cursor (field ''next'' fs) = Some (cur_next c, nn)"
    "read_feed_cursor (field ''head'' fs) = Some (cur_head c, hn)"
    "cur_after c = expected" "an \<le> nn" "nn \<le> hn" "cur_more c \<longleftrightarrow> nn < hn"
    unfolding parse_cursor_def by (auto split: option.split_asm if_split_asm prod.split_asm)
  then show thesis using that read_feed_cursor_text [OF *(1)] read_feed_cursor_text [OF *(2)]
      read_feed_cursor_text [OF *(3)] by blast
qed

text \<open>
  C8. An accepted feed page continues the requested cursor without a gap: its actions carry the
  sequence numbers after the cursor one by one up to the next cursor, no action id occurs twice, every
  action is well formed and about the event of the scope, and \<^verbatim>\<open>hasMore\<close> says whether the head is ahead.
\<close>

theorem parse_feed_page_contiguous:
  assumes "parse_feed_page v scope expected = Inr page"
  shows "\<exists>after head. cur_after (page_cursor page) = expected \<and> expected = format_int after
    \<and> cur_next (page_cursor page) = format_int (after + int (length (page_actions page)))
    \<and> cur_head (page_cursor page) = format_int head
    \<and> (cur_more (page_cursor page) \<longleftrightarrow> after + int (length (page_actions page)) < head)
    \<and> (\<forall>i < length (page_actions page). act_sequence (page_actions page ! i) = format_int (after + 1 + int i))
    \<and> distinct (map act_id (page_actions page)) \<and> length (page_actions page) \<le> 100
    \<and> list_all (action_sound scope (feed_event_id scope)) (page_actions page) \<and> page_scope page = scope"
proof -
  from assms obtain fs an raw where *: "parse_cursor (field ''cursor'' fs) expected
      = Some (page_cursor page, an, an + int (length (page_actions page)))"
    "\<not> 100 < length raw" "parse_actions scope (feed_event_id scope) an [] raw = Some (page_actions page)"
    "page_scope page = scope"
    unfolding parse_feed_page_def Let_def
    by (auto split: option.split_asm if_split_asm prod.split_asm)
  from parse_cursor_sound [OF *(1)] obtain hn where "cur_after (page_cursor page) = expected"
    "cur_after (page_cursor page) = format_int an" "cur_next (page_cursor page) = format_int (an + int (length (page_actions page)))"
    "cur_head (page_cursor page) = format_int hn" "cur_more (page_cursor page) \<longleftrightarrow> an + int (length (page_actions page)) < hn" .
  with * parse_actions_sound [OF *(3)] show ?thesis by (intro exI [of _ an] exI [of _ hn]) simp
qed

definition w_page_json :: json where
  "w_page_json = JObject
     [(''actions'', JList []),
      (''cursor'', JObject [(''after'', JText ''0''), (''hasMore'', JBool True), (''head'', JText ''7''),
                          (''next'', JText ''0'')]),
      (''schemaVersion'', JNumber ''1''), (''scopeId'', JText ''site:1:e'')]"

lemma w_page_parsed: "\<exists>page. parse_feed_page w_page_json ''site:1:e'' ''0'' = Inr page"
proof -
  have "read_feed_cursor (JText ''0'') = Some (''0'', 0)" "read_feed_cursor (JText ''7'') = Some (''7'', 7)"
    by (simp_all add: read_feed_cursor_def canonical_cursor_pattern_def parse_int_def is_digit_def byte_of_def
        digits_value_def digit_value_def)
  moreover have "feed_event_id ''site:1:e'' \<noteq> []"
    by (simp add: feed_event_id_def identifier_pattern_def is_lower_def byte_of_def)
  ultimately show ?thesis
    by (simp add: parse_feed_page_def w_page_json_def parse_cursor_def exact_keys_def field_def parse_int_def
        is_digit_def byte_of_def digits_value_def digit_value_def)
qed

theorem parse_feed_page_contiguous_witness:
  "\<exists>page. parse_feed_page w_page_json ''site:1:e'' ''0'' = Inr page \<and> length (page_actions page) \<le> 100"
  using w_page_parsed parse_feed_page_contiguous by blast

subsection \<open>Bootstraps\<close>

lemma parse_races_sound:
  "parse_races seen vs = Some rs \<Longrightarrow> distinct (map fst rs) \<and> set seen \<inter> set (map fst rs) = {}"
proof (induction seen vs arbitrary: rs rule: parse_races.induct)
  case (2 seen v vs)
  then show ?case by (fastforce simp: Let_def split: option.split_asm if_split_asm)
qed auto

lemma parse_rows_sound:
  "parse_rows event races seen vs = Some rows \<Longrightarrow>
     distinct (map reg_id rows) \<and> set seen \<inter> set (map reg_id rows) = {}
     \<and> (\<forall>r \<in> set rows. reg_event r = event \<and> reg_race r \<in> races \<and> validate_registration r = Inr ())"
proof (induction event races seen vs arbitrary: rows rule: parse_rows.induct)
  case (2 event races seen v vs)
  from 2(2) obtain r rows' where *: "parse_registration v = Inr r" "reg_event r = event" "reg_race r \<in> races"
    "reg_id r \<notin> set seen" "parse_rows event races (reg_id r # seen) vs = Some rows'" "rows = r # rows'"
    by (auto split: sum.split_asm if_split_asm)
  have "\<not> (reg_event r \<noteq> event \<or> reg_race r \<notin> races \<or> reg_id r \<in> set seen)" using * by simp
  from 2(1) [OF *(1) this *(5)] * parse_registration_valid [OF *(1)] show ?case by auto
qed auto

lemma parse_origins_sound:
  "parse_origins races seen vs = Some os \<Longrightarrow>
     distinct (map org_reg os) \<and> set seen \<inter> set (map org_reg os) = {}
     \<and> (\<forall>o' \<in> set os. org_race o' \<in> races \<and> org_bib o' \<noteq> [])"
proof (induction races seen vs arbitrary: os rule: parse_origins.induct)
  case (2 races seen v vs)
  then show ?case by (fastforce simp: Let_def split: option.split_asm if_split_asm)
qed auto

text \<open>
  C5. An accepted bootstrap refers only to races and transfer targets it lists: every registration is valid, belongs to
  the event and to one of the listed races, ids of races and of registrations are unique, a transfer points at another
  listed registration, and reserve origins name each registration id once, with a bib and a listed race.  The
  registration of a reserve origin itself need not be listed.
\<close>

theorem parse_bootstrap_closed:
  assumes "parse_bootstrap v = Inr b"
  shows "distinct (map fst (boot_races b)) \<and> distinct (map reg_id (boot_registrations b))
    \<and> (\<forall>r \<in> set (boot_registrations b). reg_event r = fst (boot_event b)
         \<and> reg_race r \<in> set (map fst (boot_races b)) \<and> validate_registration r = Inr ())
    \<and> transfers_inside (boot_registrations b)
    \<and> (case boot_origins b of None \<Rightarrow> True
       | Some os \<Rightarrow> distinct (map org_reg os)
           \<and> list_all (\<lambda>o'. org_race o' \<in> set (map fst (boot_races b)) \<and> org_bib o' \<noteq> []) os)"
proof -
  from assms obtain gs raw_races raw_rows where
    *: "parse_races [] raw_races = Some (boot_races b)"
    "parse_rows (fst (boot_event b)) (set (map fst (boot_races b))) [] raw_rows = Some (boot_registrations b)"
    "transfers_inside (boot_registrations b)"
    "parse_optional_origins (set (map fst (boot_races b))) (map_of gs ''reserveOrigins'') = Some (boot_origins b)"
    unfolding parse_bootstrap_def Let_def
    by (auto split: option.split_asm if_split_asm prod.split_asm)
  from *(4) have "case boot_origins b of None \<Rightarrow> True
       | Some os \<Rightarrow> distinct (map org_reg os)
           \<and> list_all (\<lambda>o'. org_race o' \<in> set (map fst (boot_races b)) \<and> org_bib o' \<noteq> []) os"
    by (auto simp: parse_optional_origins_def list_all_iff dest!: parse_origins_sound
        split: option.split_asm if_split_asm)
  with parse_races_sound [OF *(1)] parse_rows_sound [OF *(2)] *(3) show ?thesis by simp
qed

definition w_bootstrap_json :: json where
  "w_bootstrap_json = JObject
     [(''baselineId'', JText ''b''),
      (''event'', JObject [(''date'', JText ''2026-01-02''), (''id'', JText ''e''), (''name'', JText ''Run'')]),
      (''races'', JList [JObject [(''id'', JText ''r''), (''name'', JText ''10'')]]),
      (''registrations'', JList [registration_json w_source]),
      (''schemaVersion'', JNumber ''1''), (''scopeId'', JText ''site:1:e''), (''sourceKind'', JText ''site'')]"

lemma w_bootstrap_parsed: "\<exists>b. parse_bootstrap w_bootstrap_json = Inr b"
proof -
  have v: "parse_registration (registration_json w_source) = Inr w_source"
    using w_rows_valid by (simp add: registration_roundtrip)
  have t: "valid_text ''Run'' 512" "valid_text ''10'' 256" by (rule plain_text_valid; simp add: byte_of_def)+
  have d: "valid_date ''2026-01-02''"
    by (simp add: text_eval byte_of_def)
  from v t d show ?thesis
    by (simp add: parse_bootstrap_def Let_def w_bootstrap_json_def exact_keys_def bootstrap_keys_def field_def
        parse_int_def is_digit_def byte_of_def digits_value_def digit_value_def identifier_pattern_def
        is_lower_def is_upper_def parse_event_def bootstrap_cursor_def transfers_inside_def
        parse_optional_origins_def w_source_def zero_registration_def)
qed

theorem parse_bootstrap_closed_witness:
  "\<exists>b. parse_bootstrap w_bootstrap_json = Inr b \<and> distinct (map reg_id (boot_registrations b))"
  using w_bootstrap_parsed parse_bootstrap_closed by blast


subsection \<open>Reserve origins\<close>

lemma last_record_in: "last_record rows k = Some r \<Longrightarrow> r \<in> set rows \<and> reg_id r = k"
  using find_Some_iff' [of "\<lambda>r. reg_id r = k" "rev rows" r] by simp

declare last_record.simps [simp del]

lemma match_step_id:
  assumes "match_step rows o' m k = Some x"
  shows "m k = Some x \<or> (x = o' \<and> (\<exists>r \<in> set rows. reg_id r = k \<and> origin_matches r x))"
proof (cases "last_record rows (org_reg o')")
  case (Some r)
  then have "r \<in> set rows" "reg_id r = org_reg o'" using last_record_in by auto
  with assms Some show ?thesis by (auto simp: match_step_def split: if_split_asm)
qed (use assms in \<open>simp add: match_step_def\<close>)

lemma matched_sound:
  assumes "fold (match_step rows) os m k = Some x" "\<And>k x. m k = Some x \<Longrightarrow> \<exists>r \<in> set rows. reg_id r = k \<and> origin_matches r x"
  shows "\<exists>r \<in> set rows. reg_id r = k \<and> origin_matches r x"
  using assms
proof (induction os arbitrary: m)
  case (Cons o' os)
  show ?case
    by (rule Cons.IH [OF Cons.prems(1) [simplified]]) (use Cons.prems(2) match_step_id in blast)
qed simp

lemma matched_other: "k \<notin> set (map org_reg os) \<Longrightarrow> fold (match_step rows) os m k = m k"
proof (induction os arbitrary: m)
  case (Cons o' os)
  have "match_step rows o' m k = m k"
  proof (cases "last_record rows (org_reg o')")
    case (Some r)
    then have "reg_id r = org_reg o'" by (auto dest: last_record_in)
    with Some Cons.prems show ?thesis by (auto simp: match_step_def)
  qed (simp add: match_step_def)
  with Cons show ?case by auto
qed simp

lemma matched_own:
  assumes "distinct (map org_reg os)" "x \<in> set os" "last_record rows (org_reg x) = Some r" "origin_matches r x"
  shows "fold (match_step rows) os m (org_reg x) = Some x"
  using assms
proof (induction os arbitrary: m)
  case (Cons o' os)
  show ?case
  proof (cases "o' = x")
    case True
    have "reg_id r = org_reg x" using last_record_in [OF Cons.prems(3)] by simp
    with Cons.prems(3,4) have "match_step rows x m = m(org_reg x \<mapsto> x)" by (simp add: match_step_def)
    with True Cons.prems(1) show ?thesis by (simp add: matched_other)
  next
    case False
    with Cons show ?thesis by simp
  qed
qed simp

text \<open>
  The origins kept for a roster are about its rows: at most one per row, each agreeing with the
  row's chip and with its bib (or completing a row that has a chip but no bib), and every reserve slot
  that carries a bib is recorded as it stands.
\<close>

theorem matching_origins_complete:
  assumes "distinct (map reg_id rows)"
  shows "distinct (map org_reg (matching_reserve_origins rows candidates))
    \<and> (\<forall>x \<in> set (matching_reserve_origins rows candidates). \<exists>r \<in> set rows. origin_matches r x)
    \<and> (\<forall>r \<in> set rows. reg_reserve r \<longrightarrow> reg_bib r \<noteq> [] \<longrightarrow>
         \<lparr> org_reg = reg_id r, org_bib = reg_bib r, org_epc = reg_epc r, org_race = reg_race r \<rparr>
           \<in> set (matching_reserve_origins rows candidates))"
proof -
  define m where "m = fold (match_step rows) (candidates @ own_origins rows) Map.empty"
  have sound: "\<exists>r \<in> set rows. reg_id r = k \<and> origin_matches r x" if "m k = Some x" for k x
    using matched_sound [of rows "candidates @ own_origins rows" Map.empty k x] that by (simp add: m_def)
  have key: "org_reg x = k" if "m k = Some x" for k x
    using sound [OF that] by (auto simp: origin_matches_def)
  have out: "matching_reserve_origins rows candidates = List.map_filter (\<lambda>r. m (reg_id r)) rows"
    by (simp add: matching_reserve_origins_def Let_def m_def)
  have d: "distinct (map org_reg (List.map_filter (\<lambda>r. m (reg_id r)) rs))
      \<and> org_reg ` set (List.map_filter (\<lambda>r. m (reg_id r)) rs) \<subseteq> reg_id ` set rs"
    if "distinct (map reg_id rs)" for rs
    using that
  proof (induction rs)
    case (Cons r rs)
    then show ?case using key [of "reg_id r"] by (cases "m (reg_id r)") (auto simp: map_filter_simps)
  qed (simp add: map_filter_simps)
  have mem: "x \<in> set (List.map_filter (\<lambda>r. m (reg_id r)) rs) \<longleftrightarrow> (\<exists>r \<in> set rs. m (reg_id r) = Some x)" for x rs
    by (induction rs) (auto simp: map_filter_simps split: option.splits)
  have own: "m (reg_id r) = Some \<lparr> org_reg = reg_id r, org_bib = reg_bib r, org_epc = reg_epc r, org_race = reg_race r \<rparr>"
    (is "_ = Some ?o") if "r \<in> set rows" "reg_reserve r" "reg_bib r \<noteq> []" for r
  proof -
    have "distinct (map org_reg (own_origins rows))"
      using distinct_filter [of "map reg_id rows"] assms
      by (simp add: own_origins_def o_def distinct_map_filter)
    moreover have "?o \<in> set (own_origins rows)" using that by (auto simp: own_origins_def)
    moreover have "last_record rows (org_reg ?o) = Some r"
      using last_record_distinct [OF assms that(1)] by simp
    moreover have "origin_matches r ?o" using that by (simp add: origin_matches_def)
    ultimately show ?thesis
      using matched_own [of "own_origins rows" ?o rows r] by (simp add: m_def)
  qed
  have found: "\<exists>r \<in> set rows. origin_matches r x" if "x \<in> set (List.map_filter (\<lambda>r. m (reg_id r)) rows)" for x
    using that sound unfolding mem by blast
  show ?thesis
    unfolding out using d [OF assms] found own mem by (intro conjI ballI impI) blast+
qed

theorem matching_origins_complete_witness:
  "\<lparr> org_reg = ''2'', org_bib = ''8'', org_epc = [], org_race = ''r'' \<rparr>
     \<in> set (matching_reserve_origins [w_source, w_target] [])"
  using matching_origins_complete [of "[w_source, w_target]" "[]"]
  by (simp add: w_source_def w_target_def zero_registration_def)

end
