(* ===== verification/PacketMerge.thy ===== *)
theory PacketMerge
  imports FeedLaws
begin

section \<open>Merging packet operations with the current state\<close>

text \<open>
  The merge decision of a received operation (\<^verbatim>\<open>service/packet_issuance.go\<close>), the three-way merge of a
  feed change (\<^verbatim>\<open>packet_issuance_feed.go\<close>) and the change lists of conflict proposals
  (\<^verbatim>\<open>packet_issuance_resolution.go\<close>).  \<open>registration_json\<close> is \<^verbatim>\<open>packetValue\<close> of a registration.
\<close>

subsection \<open>Comparison of registrations\<close>

definition packet_compatible :: "registration \<Rightarrow> registration \<Rightarrow> registration \<Rightarrow> bool" where
  "packet_compatible b a c =
     recursive_compatible (registration_json b) (registration_json a) (registration_json c)"

definition packet_changed_equal :: "registration \<Rightarrow> registration \<Rightarrow> registration \<Rightarrow> registration \<Rightarrow> bool" where
  "packet_changed_equal b a l r =
     recursive_changed_equal (registration_json b) (registration_json a) (registration_json l) (registration_json r)"

definition packet_effect_matches :: "registration \<Rightarrow> registration \<Rightarrow> registration \<Rightarrow> registration \<Rightarrow> bool" where
  "packet_effect_matches eb ea ab aa =
     recursive_effect (registration_json eb) (registration_json ea) (registration_json ab) (registration_json aa)"

subsection \<open>The decision on a received operation\<close>

text \<open>
  What \<^verbatim>\<open>FindPacketOperation\<close> returns of the operation a correction names: its outcome and the stored
  operation, which \<^verbatim>\<open>ParseOperation\<close> reads back if it is of schema 1.
\<close>

definition reparse :: "operation \<Rightarrow> operation option" where
  "reparse op = (if op_schema op = 1 then Some op else None)"

definition current_registration :: "registration list \<Rightarrow> string \<Rightarrow> registration" where
  "current_registration rows k =
     (case List.find (\<lambda>r. reg_id r = k) rows of None \<Rightarrow> zero_registration | Some r \<Rightarrow> r)"

definition code_or_review :: "string \<Rightarrow> string" where
  "code_or_review code = (if source_code_pattern code then code else ''transition_review_required'')"

text \<open>The change the transition derives for a row, or no change of the row.\<close>

definition actual_change :: "registration list \<Rightarrow> change list \<Rightarrow> string \<Rightarrow> change" where
  "actual_change current derived k =
     (case List.find (\<lambda>ch. chg_reg ch = k) (rev derived) of
        None \<Rightarrow> \<lparr> chg_reg = k, chg_before = current_registration current k,
                 chg_after = current_registration current k \<rparr>
      | Some ch \<Rightarrow> ch)"

definition derive_changes ::
  "registration list \<Rightarrow> operation \<Rightarrow> (string \<Rightarrow> (string \<times> operation) option) \<Rightarrow>
     (string \<times> string) + change list res" where
  "derive_changes current op lookup =
     (if cmd_type (op_command op) = ''correct_move'' then
        (case lookup (cmd_operation (op_command op)) of
           None \<Rightarrow> Inl (''waiting_dependency'', ''correction_dependency_missing'')
         | Some (outcome, stored) \<Rightarrow>
             if outcome \<noteq> ''applied'' \<and> outcome \<noteq> ''equivalent''
             then Inl (''waiting_dependency'', ''correction_dependency_missing'')
             else (case reparse stored of
                     None \<Rightarrow> Inl (''conflict'', ''correction_review_required'')
                   | Some original \<Rightarrow>
                       Inr (reverse_move current (op_changes original) (cmd_reason (op_command op)))))
      else Inr (apply_cmd current (op_command op)))"

definition packet_merge_decision ::
  "registration list \<Rightarrow> operation \<Rightarrow> (string \<Rightarrow> (string \<times> operation) option) \<Rightarrow>
     string \<times> string \<times> change list" where
  "packet_merge_decision current op lookup =
     (case List.find (\<lambda>(ch, c). \<not> packet_compatible (chg_before ch) (chg_after ch) c)
             (zip (op_changes op) current) of
        Some (ch, c) \<Rightarrow>
          if reg_timing c \<and> \<not> reg_timing (chg_before ch) then (''conflict'', ''timing_review_required'', [])
          else (''conflict'', ''current_state_changed'', [])
      | None \<Rightarrow>
          if list_all (\<lambda>(ch, c). packet_changed_equal (chg_before ch) (chg_after ch) c (chg_after ch))
               (zip (op_changes op) current)
          then (''equivalent'', [], [])
          else (case derive_changes current op lookup of
             Inl (decision, code) \<Rightarrow> (decision, code, [])
           | Inr (Inl e) \<Rightarrow> (''conflict'', code_or_review e, [])
           | Inr (Inr derived) \<Rightarrow>
               if list_all (\<lambda>ch. let act = actual_change current derived (chg_reg ch) in
                    packet_effect_matches (chg_before ch) (chg_after ch) (chg_before act) (chg_after act))
                  (op_changes op)
               then (''applied'', [], derived)
               else (''conflict'', ''operation_effect_changed'', [])))"

subsection \<open>Feed changes\<close>

definition feed_projection :: "registration \<Rightarrow> (string \<times> json) list" where
  "feed_projection r =
     [(''bib'', JText (reg_bib r)), (''epc'', JText (reg_epc r)), (''eventId'', JText (reg_event r)),
      (''id'', JText (reg_id r)), (''issued'', JBool (reg_issued r)),
      (''person'', option_json person_json (reg_person r)), (''raceId'', JText (reg_race r)),
      (''reserve'', JBool (reg_reserve r)), (''status'', JText (reg_status r)),
      (''transferredTo'', option_json JText (reg_transferred r))]"

text \<open>
  \<^verbatim>\<open>json.Unmarshal\<close> into the structs: an absent key or null leaves the zero value, a value of another
  type is an error.
\<close>

fun decode_text :: "json \<Rightarrow> string option" where
  "decode_text (JText s) = Some s" | "decode_text JNull = Some []" | "decode_text _ = None"

fun decode_bool :: "json \<Rightarrow> bool option" where
  "decode_bool (JBool b) = Some b" | "decode_bool JNull = Some False" | "decode_bool _ = None"

fun decode_pointer :: "(json \<Rightarrow> 'a option) \<Rightarrow> json \<Rightarrow> 'a option option" where
  "decode_pointer f JNull = Some None" | "decode_pointer f v = map_option Some (f v)"

definition decode_person :: "json \<Rightarrow> person option" where
  "decode_person v =
     (case object_of v of None \<Rightarrow> None
      | Some fs \<Rightarrow>
          (case (decode_text (field ''id'' fs), decode_text (field ''firstName'' fs),
                 decode_text (field ''lastName'' fs), decode_text (field ''birthDate'' fs),
                 decode_text (field ''gender'' fs), decode_text (field ''team'' fs),
                 decode_text (field ''city'' fs)) of
             (Some i, Some f, Some l, Some b, Some g, Some t, Some c) \<Rightarrow>
               Some \<lparr> per_id = i, per_first = f, per_last = l, per_birth = b, per_gender = g, per_team = t,
                      per_city = c \<rparr>
           | _ \<Rightarrow> None))"

definition decode_registration :: "(string \<times> json) list \<Rightarrow> registration option" where
  "decode_registration fs =
     (case (decode_text (field ''id'' fs), decode_text (field ''eventId'' fs), decode_text (field ''raceId'' fs),
            decode_text (field ''bib'' fs), decode_text (field ''epc'' fs),
            decode_pointer decode_person (field ''person'' fs), decode_bool (field ''reserve'' fs),
            decode_bool (field ''issued'' fs), decode_text (field ''status'' fs),
            decode_pointer text_of (field ''transferredTo'' fs), decode_bool (field ''hasTimingEvidence'' fs)) of
        (Some i, Some e, Some r, Some b, Some x, Some p, Some v, Some d, Some s, Some t, Some h) \<Rightarrow>
          Some \<lparr> reg_id = i, reg_event = e, reg_race = r, reg_bib = b, reg_epc = x, reg_person = p,
                 reg_reserve = v, reg_issued = d, reg_status = s, reg_transferred = t, reg_timing = h \<rparr>
      | _ \<Rightarrow> None)"

text \<open>
  \<^verbatim>\<open>mergePacketFeedChange\<close>: \<open>current\<close> is the live local row, if any; the result is the conflict code or
  the merged row (\<open>None\<close>: the row is to be gone).
\<close>

definition merge_feed_change :: "registration option \<Rightarrow> feed_change \<Rightarrow> string + registration option" where
  "merge_feed_change current ch =
     (case (fch_before ch, fch_after ch, current) of
        (None, Some a, None) \<Rightarrow> Inr (Some (a\<lparr> reg_timing := False \<rparr>))
      | (None, Some a, Some c) \<Rightarrow>
          if feed_projection c = feed_projection a then Inr (Some c) else Inl ''feed_lifecycle_conflict''
      | (Some b, None, None) \<Rightarrow> Inr None
      | (Some b, None, Some c) \<Rightarrow>
          if feed_projection c = feed_projection b then Inr None else Inl ''feed_lifecycle_conflict''
      | (Some b, Some a, None) \<Rightarrow> Inl ''feed_lifecycle_conflict''
      | (Some b, Some a, Some c) \<Rightarrow>
          (case merge_value (JObject (feed_projection b)) (JObject (feed_projection a)) (JObject (feed_projection c)) of
             Some (JObject fs) \<Rightarrow>
               (case decode_registration fs of None \<Rightarrow> Inl ''feed_state_conflict''
                | Some m \<Rightarrow> Inr (Some (m\<lparr> reg_timing := reg_timing c \<rparr>)))
           | _ \<Rightarrow> Inl ''feed_state_conflict'')
      | (None, None, _) \<Rightarrow> Inl ''feed_lifecycle_conflict'')"

definition unique_heads :: "string list \<Rightarrow> string list" where
  "unique_heads heads = sort (remdups (filter (\<lambda>h. h \<noteq> []) heads))"

subsection \<open>Conflict proposals\<close>

definition normalize_candidate :: "registration list \<Rightarrow> change list \<Rightarrow> change list" where
  "normalize_candidate current derived =
     map (\<lambda>r. \<lparr> chg_reg = reg_id r, chg_before = r,
               chg_after = (case List.find (\<lambda>ch. chg_reg ch = reg_id r) (rev derived) of
                              None \<Rightarrow> r | Some ch \<Rightarrow> chg_after ch) \<rparr>) current"

definition overlay_packet_effect :: "registration \<Rightarrow> registration \<Rightarrow> registration \<Rightarrow> registration res" where
  "overlay_packet_effect b a c =
     (case overlay_value (registration_json b) (registration_json a) (registration_json c) of
        JObject fs \<Rightarrow>
          (case decode_registration fs of None \<Rightarrow> Inl ''json''
           | Some m \<Rightarrow> bind_res (validate_registration m) (\<lambda>_. Inr m))
      | _ \<Rightarrow> Inl ''json'')"

definition convergence_changes :: "registration list \<Rightarrow> change list \<Rightarrow> change list res" where
  "convergence_changes current expected =
     map_res (\<lambda>ch. case last_record current (chg_reg ch) of
         None \<Rightarrow> Inl ''packet_resolution_input_missing''
       | Some r \<Rightarrow> bind_res (overlay_packet_effect (chg_before ch) (chg_after ch) r)
                     (\<lambda>m. Inr \<lparr> chg_reg = reg_id r, chg_before = r, chg_after = m \<rparr>)) expected"

definition reverse_packet_changes :: "change list \<Rightarrow> change list" where
  "reverse_packet_changes chs =
     map (\<lambda>ch. \<lparr> chg_reg = chg_reg ch, chg_before = chg_after ch, chg_after = chg_before ch \<rparr>) chs"

definition resolution_bases :: "change list \<Rightarrow> string \<Rightarrow> base list" where
  "resolution_bases chs input = map (\<lambda>ch. \<lparr> base_reg = chg_reg ch, base_heads = [input] \<rparr>) chs"

text \<open>\<^verbatim>\<open>packetLocalOperationOutcome\<close>\<close>

definition local_outcome :: "string \<Rightarrow> string \<Rightarrow> string" where
  "local_outcome application site =
     (if application = ''applied'' then ''applied''
      else if application = ''observed'' \<and> site = ''equivalent'' then ''equivalent'' else ''conflict'')"

subsection \<open>What a merge of registrations is\<close>

text \<open>The specification: every field of a registration, and of its person, is merged on its own.\<close>

definition merge3 :: "'a \<Rightarrow> 'a \<Rightarrow> 'a \<Rightarrow> 'a option" where
  "merge3 b a c = (if b = a then Some c else if c = b \<or> c = a then Some a else None)"

definition merge_person :: "person \<Rightarrow> person \<Rightarrow> person \<Rightarrow> person option" where
  "merge_person b a c =
     (case (merge3 (per_id b) (per_id a) (per_id c), merge3 (per_first b) (per_first a) (per_first c),
            merge3 (per_last b) (per_last a) (per_last c), merge3 (per_birth b) (per_birth a) (per_birth c),
            merge3 (per_gender b) (per_gender a) (per_gender c), merge3 (per_team b) (per_team a) (per_team c),
            merge3 (per_city b) (per_city a) (per_city c)) of
        (Some i, Some f, Some l, Some d, Some g, Some t, Some y) \<Rightarrow>
          Some \<lparr> per_id = i, per_first = f, per_last = l, per_birth = d, per_gender = g, per_team = t,
                 per_city = y \<rparr>
      | _ \<Rightarrow> None)"

definition merge_optional_person :: "person option \<Rightarrow> person option \<Rightarrow> person option \<Rightarrow> person option option" where
  "merge_optional_person b a c =
     (case (b, a, c) of
        (Some p, Some q, Some r) \<Rightarrow> map_option Some (merge_person p q r)
      | _ \<Rightarrow> merge3 b a c)"

definition merge_registration :: "registration \<Rightarrow> registration \<Rightarrow> registration \<Rightarrow> registration option" where
  "merge_registration b a c =
     (case (merge3 (reg_id b) (reg_id a) (reg_id c), merge3 (reg_event b) (reg_event a) (reg_event c),
            merge3 (reg_race b) (reg_race a) (reg_race c), merge3 (reg_bib b) (reg_bib a) (reg_bib c),
            merge3 (reg_epc b) (reg_epc a) (reg_epc c),
            merge_optional_person (reg_person b) (reg_person a) (reg_person c),
            merge3 (reg_reserve b) (reg_reserve a) (reg_reserve c),
            merge3 (reg_issued b) (reg_issued a) (reg_issued c),
            merge3 (reg_status b) (reg_status a) (reg_status c),
            merge3 (reg_transferred b) (reg_transferred a) (reg_transferred c)) of
        (Some i, Some e, Some r, Some n, Some x, Some p, Some v, Some d, Some s, Some t) \<Rightarrow>
          Some \<lparr> reg_id = i, reg_event = e, reg_race = r, reg_bib = n, reg_epc = x, reg_person = p,
                 reg_reserve = v, reg_issued = d, reg_status = s, reg_transferred = t,
                 reg_timing = reg_timing c \<rparr>
      | _ \<Rightarrow> None)"


lemma merge3_same [simp]: "merge3 b b c = Some c" "merge3 b a b = Some a" "merge3 b a a = Some a"
  by (simp_all add: merge3_def)

lemma merge_value_leaf:
  "merge_value (JText x) (JText y) (JText z) = map_option JText (merge3 x y z)"
  "merge_value (JBool u) (JBool v) (JBool w) = map_option JBool (merge3 u v w)"
  by (auto simp: whole_rules merge3_def)

lemma option_json_text_inject: "option_json JText x = option_json JText y \<longleftrightarrow> x = y"
  by (cases x; cases y) simp_all

lemma merge_value_target:
  "merge_value (option_json JText x) (option_json JText y) (option_json JText z)
     = map_option (option_json JText) (merge3 x y z)"
proof -
  have "\<not> aligned (option_json JText x) (option_json JText y) (option_json JText z)"
    by (cases x; cases y; cases z) simp_all
  then show ?thesis by (simp add: whole_rules merge3_def option_json_text_inject)
qed

lemma person_json_inject: "person_json p = person_json q \<longleftrightarrow> p = q"
  by (cases p; cases q) (auto simp: person_json_def)

lemma merge_person_same [simp]: "merge_person p p q = Some q"
  by (simp add: merge_person_def)

lemma same_keys_person:
  "same_keys [(''birthDate'', a), (''city'', b), (''firstName'', c), (''gender'', d), (''id'', e),
     (''lastName'', f), (''team'', g)] [(''birthDate'', a'), (''city'', b'), (''firstName'', c'),
     (''gender'', d'), (''id'', e'), (''lastName'', f'), (''team'', g')]"
  by (simp add: same_keys_def)

lemma merge_value_person:
  "merge_value (person_json p) (person_json q) (person_json r) = map_option person_json (merge_person p q r)"
proof (cases "p = q")
  case False
  then have ne: "person_json p \<noteq> person_json q" by (simp add: person_json_inject)
  show ?thesis
    using ne
    by (subst merge_value.simps)
      (simp add: person_json_def same_keys_person field_def merge_value_leaf merge_person_def
        split: option.split)
qed simp

lemma merge_value_optional_person:
  "merge_value (option_json person_json b) (option_json person_json a) (option_json person_json c)
     = map_option (option_json person_json) (merge_optional_person b a c)"
proof (cases "\<exists>p q r. b = Some p \<and> a = Some q \<and> c = Some r")
  case True
  then show ?thesis by (auto simp: merge_optional_person_def merge_value_person option.map_comp o_def)
next
  case False
  have inj: "option_json person_json x = option_json person_json y \<longleftrightarrow> x = y" for x y
    by (cases x; cases y) (simp_all add: person_json_inject, simp_all add: person_json_def)
  from False have "\<not> aligned (option_json person_json b) (option_json person_json a) (option_json person_json c)"
    by (cases b; cases a; cases c) (auto simp: person_json_def)
  moreover from False have "merge_optional_person b a c = merge3 b a c"
    by (auto simp: merge_optional_person_def split: option.split)
  ultimately show ?thesis by (simp add: whole_rules merge3_def inj)
qed

lemma feed_projection_inject: "feed_projection a = feed_projection b \<longleftrightarrow> a\<lparr> reg_timing := reg_timing b \<rparr> = b"
proof -
  have "option_json person_json x = option_json person_json y \<longleftrightarrow> x = y" for x y
    by (cases x; cases y) (simp_all add: person_json_inject, simp_all add: person_json_def)
  then show ?thesis by (cases a; cases b) (auto simp: feed_projection_def option_json_text_inject)
qed

lemma same_keys_projection: "same_keys (feed_projection a) (feed_projection b)"
  by (simp add: same_keys_def feed_projection_def)

lemma merge_registration_same:
  "a\<lparr> reg_timing := reg_timing b \<rparr> = b \<Longrightarrow> merge_registration b a c = Some c"
  by (cases a; cases b; cases c) (auto simp: merge_registration_def merge_optional_person_def split: option.split)

lemma merge_value_projection:
  "merge_value (JObject (feed_projection b)) (JObject (feed_projection a)) (JObject (feed_projection c))
     = map_option (\<lambda>m. JObject (feed_projection m)) (merge_registration b a c)"
proof (cases "feed_projection b = feed_projection a")
  case True
  then have "a\<lparr> reg_timing := reg_timing b \<rparr> = b" using feed_projection_inject [of a b] by simp
  from merge_registration_same [OF this] True show ?thesis by simp
next
  case False
  then show ?thesis
    by (subst merge_value.simps)
      (simp add: same_keys_projection,
        simp add: feed_projection_def field_def merge_value_leaf merge_value_target merge_value_optional_person
          merge_registration_def split: option.split)
qed

lemma decode_person_json [simp]: "decode_pointer decode_person (option_json person_json p) = Some p"
  by (cases p) (simp_all add: person_json_def decode_person_def field_def)

lemma decode_target_json [simp]: "decode_pointer text_of (option_json JText t) = Some t"
  by (cases t) simp_all

lemma decode_projection [simp]: "decode_registration (feed_projection r) = Some (r\<lparr> reg_timing := False \<rparr>)"
  by (cases r) (simp add: decode_registration_def feed_projection_def field_def)

lemma merge_feed_change_fieldwise_lemma:
  "merge_feed_change (Some c) \<lparr> fch_reg = k, fch_before = Some b, fch_after = Some a \<rparr> =
     (case merge_registration b a c of None \<Rightarrow> Inl ''feed_state_conflict'' | Some m \<Rightarrow> Inr (Some m))"
proof (cases "merge_registration b a c")
  case (Some m)
  then have "reg_timing m = reg_timing c"
    by (auto simp: merge_registration_def split: option.split_asm)
  then have "m\<lparr> reg_timing := reg_timing c \<rparr> = m" by (cases m) simp
  with Some show ?thesis by (simp add: merge_feed_change_def merge_value_projection)
qed (simp add: merge_feed_change_def merge_value_projection)

text \<open>
  Merging a site change into a live row is the field-by-field three-way merge of the two
  registrations: a field only the site changed takes the site's value, a field only the desk changed
  keeps the desk's, a field both changed differently is a conflict; the timing flag stays the desk's.
\<close>

theorem merge_feed_change_fieldwise:
  "merge_feed_change (Some c) \<lparr> fch_reg = k, fch_before = Some b, fch_after = Some a \<rparr> =
     (case merge_registration b a c of None \<Rightarrow> Inl ''feed_state_conflict'' | Some m \<Rightarrow> Inr (Some m))"
  by (rule merge_feed_change_fieldwise_lemma)

lemma merge3_symmetric: "merge3 b a c = merge3 b c a"
  by (auto simp: merge3_def)

lemma merge3_again: "merge3 b a c = Some m \<Longrightarrow> merge3 b a m = Some m"
  by (auto simp: merge3_def split: if_split_asm)

lemma merge_person_symmetric: "merge_person b a c = merge_person b c a"
  by (simp add: merge_person_def merge3_symmetric [of _ "_ a"] split: option.split)

lemma merge_person_again: "merge_person b a c = Some m \<Longrightarrow> merge_person b a m = Some m"
  by (auto simp: merge_person_def merge3_again split: option.split_asm)

lemma merge_optional_person_symmetric: "merge_optional_person b a c = merge_optional_person b c a"
  by (auto simp: merge_optional_person_def merge_person_symmetric merge3_symmetric split: option.split)

lemma merge_optional_person_again:
  "merge_optional_person b a c = Some m \<Longrightarrow> merge_optional_person b a m = Some m"
  by (cases b; cases a; cases c; cases m)
    (auto simp: merge_optional_person_def merge_person_again merge3_def split: if_split_asm)

lemma merge_registration_symmetric:
  "merge_registration b c a = map_option (\<lambda>m. m\<lparr> reg_timing := reg_timing a \<rparr>) (merge_registration b a c)"
proof -
  note sym = merge3_symmetric [of "reg_id b" "reg_id c"] merge3_symmetric [of "reg_event b" "reg_event c"]
    merge3_symmetric [of "reg_race b" "reg_race c"] merge3_symmetric [of "reg_bib b" "reg_bib c"]
    merge3_symmetric [of "reg_epc b" "reg_epc c"] merge3_symmetric [of "reg_reserve b" "reg_reserve c"]
    merge3_symmetric [of "reg_issued b" "reg_issued c"] merge3_symmetric [of "reg_status b" "reg_status c"]
    merge3_symmetric [of "reg_transferred b" "reg_transferred c"]
    merge_optional_person_symmetric [of "reg_person b" "reg_person c"]
  show ?thesis unfolding merge_registration_def sym by (simp split: option.split)
qed

lemma merge_registration_again:
  assumes "merge_registration b a c = Some m"
  shows "merge_registration b a m = Some m"
  using assms
  by (auto simp: merge_registration_def merge3_again merge_optional_person_again split: option.split_asm)

text \<open>
  C6. The merge converges: whichever side merges the other's change, both arrive at the same row (up to
  the local timing flag), and merging a change that is already in the row leaves the row as it is.
\<close>

theorem merge_feed_change_converges:
  assumes "merge_feed_change (Some c) \<lparr> fch_reg = k, fch_before = Some b, fch_after = Some a \<rparr> = Inr (Some m)"
  shows "merge_feed_change (Some a) \<lparr> fch_reg = k, fch_before = Some b, fch_after = Some c \<rparr>
      = Inr (Some (m\<lparr> reg_timing := reg_timing a \<rparr>))
    \<and> merge_feed_change (Some m) \<lparr> fch_reg = k, fch_before = Some b, fch_after = Some a \<rparr> = Inr (Some m)"
proof -
  have m: "merge_registration b a c = Some m"
    using assms by (simp add: merge_feed_change_fieldwise_lemma split: option.split_asm)
  show ?thesis
    using merge_registration_again [OF m] m
    by (simp add: merge_feed_change_fieldwise_lemma merge_registration_symmetric [of b c a])
qed

subsection \<open>Properties of the decision\<close>

lemma wf_person_json [simp]: "wf_json (person_json p)"
  by (simp add: person_json_def less_char_def)

lemma wf_registration_json [simp]: "wf_json (registration_json r)"
  by (cases "reg_person r"; cases "reg_transferred r") (simp_all add: registration_json_def)


lemma merge_done:
  assumes "wf_json b" "wf_json a"
  shows "merge_value b a a = Some a"
proof -
  have "wf_json c \<Longrightarrow> c = a \<Longrightarrow> merge_value b a c = Some a" for c
    using assms
  proof (induction b a c rule: three_way_induct)
    case (fields ks fb fa fc)
    then show ?case by auto
  qed (auto simp: whole_rules)
  then show ?thesis using assms by simp
qed

lemma registration_json_inject [simp]: "registration_json a = registration_json b \<longleftrightarrow> a = b"
proof -
  have "option_json person_json x = option_json person_json y \<longleftrightarrow> x = y" for x y
    by (cases x; cases y) (simp_all add: person_json_inject, simp_all add: person_json_def)
  then show ?thesis by (cases a; cases b) (auto simp: registration_json_def option_json_text_inject)
qed

lemma packet_compatible_ends [simp]: "packet_compatible b a b" "packet_compatible b a a"
  by (simp_all add: packet_compatible_def merge_target merge_done flip: merge_compatible)

lemma packet_changed_equal_ends [simp]:
  "packet_changed_equal b a b a \<longleftrightarrow> b = a" "packet_changed_equal b a a a"
  using merge_changed_equal [of "registration_json b" "registration_json a" "registration_json b"]
    packet_compatible_ends(1) [of b a, unfolded packet_compatible_def]
  by (auto simp: packet_changed_equal_def merge_target)

lemma packet_effect_ends [simp]: "packet_effect_matches b a b a"
  by (simp add: packet_effect_matches_def merge_effect merge_target)

lemma find_unique:
  assumes "distinct (map f xs)" "x \<in> set xs"
  shows "List.find (\<lambda>y. f y = f x) (rev xs) = Some x"
  using assms by (intro find_key_unique) (simp_all add: rev_map [symmetric])

lemma find_incompatible_None:
  "(\<And>ch c. (ch, c) \<in> set zs \<Longrightarrow> packet_compatible (chg_before ch) (chg_after ch) c) \<Longrightarrow>
     List.find (\<lambda>(ch, c). \<not> packet_compatible (chg_before ch) (chg_after ch) c) zs = None"
  by (induction zs) auto

text \<open>
  An operation whose rows are still as the tablet saw them is applied exactly as recorded; only an
  operation that changes nothing is equivalent instead.
\<close>

theorem decision_uncontended:
  assumes "parse_operation_json v False = Inr op" and "cmd_type (op_command op) \<noteq> ''correct_move''"
  shows "packet_merge_decision (op_rows op) op lookup =
    (if \<forall>ch \<in> set (op_changes op). chg_before ch = chg_after ch then (''equivalent'', [], [])
     else (''applied'', [], op_changes op))"
proof -
  have ap: "apply_cmd (op_rows op) (op_command op) = Inr (op_changes op)"
    and d: "distinct (map chg_reg (op_changes op))"
    using parse_operation_sound_lemma [OF assms(1)] assms(2) by simp_all
  have z: "zip (op_changes op) (op_rows op) = map (\<lambda>ch. (ch, chg_before ch)) (op_changes op)"
    by (simp add: op_rows_def zip_map2 zip_same_conv_map)
  have f: "List.find (\<lambda>(ch, c). \<not> packet_compatible (chg_before ch) (chg_after ch) c)
      (zip (op_changes op) (op_rows op)) = None"
    unfolding z by (rule find_incompatible_None) auto
  have act: "actual_change (op_rows op) (op_changes op) (chg_reg ch) = ch" if "ch \<in> set (op_changes op)" for ch
    using find_unique [OF d that] by (simp add: actual_change_def)
  have dc: "derive_changes (op_rows op) op lookup = Inr (Inr (op_changes op))"
    using assms(2) ap by (simp add: derive_changes_def)
  show ?thesis
    unfolding packet_merge_decision_def f
    by (simp add: z list_all_iff dc act Let_def)
qed

text \<open>
  An operation that is delivered again after its effect has landed is equivalent: it changes
  nothing, whatever its command.
\<close>

theorem decision_redelivered:
  "packet_merge_decision (map chg_after (op_changes op)) op lookup = (''equivalent'', [], [])"
proof -
  have z: "zip (op_changes op) (map chg_after (op_changes op)) = map (\<lambda>ch. (ch, chg_after ch)) (op_changes op)"
    by (simp add: zip_map2 zip_same_conv_map)
  have f: "List.find (\<lambda>(ch, c). \<not> packet_compatible (chg_before ch) (chg_after ch) c)
      (zip (op_changes op) (map chg_after (op_changes op))) = None"
    unfolding z by (rule find_incompatible_None) auto
  show ?thesis unfolding packet_merge_decision_def f by (simp add: z list_all_iff)
qed

subsection \<open>What applying an operation does to a row\<close>

text \<open>
  Field by field: a field the tablet did not change is not changed by the derived effect either, and a
  field it changed ends with the recorded value, from the recorded value before or from that very value.
\<close>

definition effect3 :: "'a \<Rightarrow> 'a \<Rightarrow> 'a \<Rightarrow> 'a \<Rightarrow> bool" where
  "effect3 b a x y \<longleftrightarrow> (if b = a then x = y else y = a \<and> (x = b \<or> x = a))"

definition effect_person :: "person option \<Rightarrow> person option \<Rightarrow> person option \<Rightarrow> person option \<Rightarrow> bool" where
  "effect_person b a x y \<longleftrightarrow>
     (case (b, a, x, y) of
        (Some p, Some q, Some u, Some v) \<Rightarrow>
          effect3 (per_id p) (per_id q) (per_id u) (per_id v)
          \<and> effect3 (per_first p) (per_first q) (per_first u) (per_first v)
          \<and> effect3 (per_last p) (per_last q) (per_last u) (per_last v)
          \<and> effect3 (per_birth p) (per_birth q) (per_birth u) (per_birth v)
          \<and> effect3 (per_gender p) (per_gender q) (per_gender u) (per_gender v)
          \<and> effect3 (per_team p) (per_team q) (per_team u) (per_team v)
          \<and> effect3 (per_city p) (per_city q) (per_city u) (per_city v)
      | _ \<Rightarrow> effect3 b a x y)"

definition effect_registration :: "registration \<Rightarrow> registration \<Rightarrow> registration \<Rightarrow> registration \<Rightarrow> bool" where
  "effect_registration b a x y \<longleftrightarrow>
     effect3 (reg_id b) (reg_id a) (reg_id x) (reg_id y)
     \<and> effect3 (reg_event b) (reg_event a) (reg_event x) (reg_event y)
     \<and> effect3 (reg_race b) (reg_race a) (reg_race x) (reg_race y)
     \<and> effect3 (reg_bib b) (reg_bib a) (reg_bib x) (reg_bib y)
     \<and> effect3 (reg_epc b) (reg_epc a) (reg_epc x) (reg_epc y)
     \<and> effect_person (reg_person b) (reg_person a) (reg_person x) (reg_person y)
     \<and> effect3 (reg_reserve b) (reg_reserve a) (reg_reserve x) (reg_reserve y)
     \<and> effect3 (reg_issued b) (reg_issued a) (reg_issued x) (reg_issued y)
     \<and> effect3 (reg_status b) (reg_status a) (reg_status x) (reg_status y)
     \<and> effect3 (reg_transferred b) (reg_transferred a) (reg_transferred x) (reg_transferred y)
     \<and> effect3 (reg_timing b) (reg_timing a) (reg_timing x) (reg_timing y)"

lemma effect3_simps [simp]: "effect3 b b x y \<longleftrightarrow> x = y"
  by (simp add: effect3_def)

lemma recursive_effect_leaf:
  "recursive_effect (JText b) (JText a) (JText x) (JText y) \<longleftrightarrow> effect3 b a x y"
  "recursive_effect (JBool u) (JBool v) (JBool w) (JBool z) \<longleftrightarrow> effect3 u v w z"
  "recursive_effect (option_json JText s) (option_json JText t) (option_json JText p) (option_json JText q)
     \<longleftrightarrow> effect3 s t p q"
proof -
  have "\<not> aligned (option_json JText s) (option_json JText t) (option_json JText p)"
    by (cases s; cases t; cases p) simp_all
  then show "recursive_effect (option_json JText s) (option_json JText t) (option_json JText p) (option_json JText q)
     \<longleftrightarrow> effect3 s t p q"
    by (simp add: whole_rules effect3_def option_json_text_inject)
qed (auto simp: whole_rules effect3_def)

lemma recursive_effect_person:
  "recursive_effect (person_json p) (person_json q) (person_json u) (person_json v)
     \<longleftrightarrow> effect_person (Some p) (Some q) (Some u) (Some v)"
proof (cases "p = q")
  case True
  then show ?thesis by (cases u; cases v) (auto simp: effect_person_def person_json_inject)
next
  case False
  then have "person_json p \<noteq> person_json q" by (simp add: person_json_inject)
  then show ?thesis
    by (subst recursive_effect.simps)
      (simp add: person_json_def same_keys_person field_def recursive_effect_leaf effect_person_def conj_ac)
qed

lemma recursive_effect_optional_person:
  "recursive_effect (option_json person_json b) (option_json person_json a) (option_json person_json x)
     (option_json person_json y) \<longleftrightarrow> effect_person b a x y"
proof (cases "\<exists>p q u v. b = Some p \<and> a = Some q \<and> x = Some u \<and> y = Some v")
  case True
  then show ?thesis by (auto simp: recursive_effect_person)
next
  case False
  have inj: "option_json person_json x = option_json person_json y \<longleftrightarrow> x = y" for x y
    by (cases x; cases y) (simp_all add: person_json_inject, simp_all add: person_json_def)
  from False have w: "effect_person b a x y \<longleftrightarrow> effect3 b a x y"
    by (auto simp: effect_person_def split: option.split)
  have "recursive_effect (option_json person_json b) (option_json person_json a) (option_json person_json x)
     (option_json person_json y) \<longleftrightarrow> effect3 b a x y"
    using False
    by (subst recursive_effect.simps, unfold effect3_def inj)
      (cases b; cases a; cases x; cases y; simp add: person_json_def)
  with w show ?thesis by simp
qed

lemma packet_effect_fieldwise:
  "packet_effect_matches b a x y \<longleftrightarrow> effect_registration b a x y"
proof (cases "b = a")
  case True
  then show ?thesis
    by (cases x; cases y) (auto simp: packet_effect_matches_def effect_registration_def effect_person_def split: option.split)
next
  case False
  then have "registration_json b \<noteq> registration_json a" by simp
  then show ?thesis
    unfolding packet_effect_matches_def
    by (subst recursive_effect.simps, subst if_not_P, assumption)
      (simp add: registration_json_def same_keys_def field_def recursive_effect_leaf
        recursive_effect_optional_person effect_registration_def conj_ac)
qed


text \<open>
  An operation is applied only with the changes its own command makes of the current rows, and
  then each row the tablet named changes exactly as recorded: fields the tablet did not touch keep
  their current value, fields it changed end with the recorded value.
\<close>

theorem decision_applied_effect:
  assumes "packet_merge_decision current op lookup = (''applied'', code, derived)"
    and "cmd_type (op_command op) \<noteq> ''correct_move''" and "ch \<in> set (op_changes op)"
  shows "apply_cmd current (op_command op) = Inr derived
    \<and> effect_registration (chg_before ch) (chg_after ch)
        (chg_before (actual_change current derived (chg_reg ch)))
        (chg_after (actual_change current derived (chg_reg ch)))"
proof -
  from assms(1,2) have "apply_cmd current (op_command op) = Inr derived"
    and "list_all (\<lambda>ch. let act = actual_change current derived (chg_reg ch) in
      packet_effect_matches (chg_before ch) (chg_after ch) (chg_before act) (chg_after act)) (op_changes op)"
    by (auto simp: packet_merge_decision_def derive_changes_def split: option.split_asm if_split_asm sum.split_asm prod.split_asm)
  with assms(3) show ?thesis by (simp add: list_all_iff Let_def packet_effect_fieldwise)
qed

text \<open>A row whose city was edited at the desk while a tablet issued the packet.\<close>

definition w_moved :: registration where
  "w_moved = w_source\<lparr> reg_bib := ''9'' \<rparr>"

definition w_op :: operation where
  "w_op = \<lparr> op_schema = 1, op_id = w_uuid, op_scope = ''site:1:e'', op_baseline = ''b'', op_origin = w_uuid,
     op_sequence = 1, op_created = 5, op_actor = ''desk'',
     op_command = zero_command\<lparr> cmd_type := ''issue'', cmd_reg := ''1'' \<rparr>,
     op_bases = [\<lparr> base_reg = ''1'', base_heads = [] \<rparr>], op_changes = [mk_change w_source w_issued],
     op_note = None, op_canonical = ''{}'' \<rparr>"

lemma w_compatible:
  "packet_compatible w_source w_issued w_moved" "\<not> packet_changed_equal w_source w_issued w_moved w_issued"
  "packet_effect_matches w_source w_issued w_moved (w_moved\<lparr> reg_issued := True \<rparr>)"
proof -
  have ne: "registration_json w_source \<noteq> registration_json w_issued"
    by (simp add: w_issued_def w_source_def zero_registration_def)
  show "packet_compatible w_source w_issued w_moved"
    unfolding packet_compatible_def using ne
    by (subst recursive_compatible.simps, subst if_not_P, assumption)
      (simp add: registration_json_def same_keys_def field_def w_moved_def w_issued_def whole_rules)
  show "\<not> packet_changed_equal w_source w_issued w_moved w_issued"
    unfolding packet_changed_equal_def using ne
    by (subst recursive_changed_equal.simps, subst if_not_P, assumption)
      (simp add: registration_json_def same_keys_def field_def w_moved_def w_issued_def whole_rules
        w_source_def zero_registration_def)
  show "packet_effect_matches w_source w_issued w_moved (w_moved\<lparr> reg_issued := True \<rparr>)"
    by (simp add: packet_effect_fieldwise effect_registration_def effect_person_def w_moved_def w_issued_def
        w_source_def zero_registration_def effect3_def split: option.split)
qed

lemma w_decision:
  "packet_merge_decision [w_moved] w_op lookup =
     (''applied'', [], [mk_change w_moved (w_moved\<lparr> reg_issued := True \<rparr>)])"
proof -
  have v: "validate_registration w_moved = Inr ()"
    using w_rows_valid(1) by (simp add: w_moved_def validate_registration_iff)
  have ap: "apply_cmd [w_moved] (op_command w_op) = Inr [mk_change w_moved (w_moved\<lparr> reg_issued := True \<rparr>)]"
    using v by (simp add: apply_cmd_def transition_def apply_issue_def require_assigned_def
        single_change_def w_op_def w_moved_def w_source_def zero_registration_def zero_command_def)
  have dc: "derive_changes [w_moved] w_op lookup = Inr (Inr [mk_change w_moved (w_moved\<lparr> reg_issued := True \<rparr>)])"
    using ap by (simp add: derive_changes_def) (simp add: w_op_def)
  have z: "op_changes w_op = [mk_change w_source w_issued]" "reg_id w_source = ''1''"
    "actual_change [w_moved] [mk_change w_moved (w_moved\<lparr> reg_issued := True \<rparr>)] ''1''
       = mk_change w_moved (w_moved\<lparr> reg_issued := True \<rparr>)"
    by (simp_all add: w_op_def actual_change_def mk_change_def w_moved_def w_source_def)
  show ?thesis
    unfolding packet_merge_decision_def using w_compatible by (simp add: z dc Let_def)
qed

theorem decision_applied_effect_witness:
  "effect_registration w_source w_issued w_moved (w_moved\<lparr> reg_issued := True \<rparr>)"
proof -
  have z: "mk_change w_source w_issued \<in> set (op_changes w_op)" "cmd_type (op_command w_op) \<noteq> ''correct_move''"
    "actual_change [w_moved] [mk_change w_moved (w_moved\<lparr> reg_issued := True \<rparr>)]
       (chg_reg (mk_change w_source w_issued)) = mk_change w_moved (w_moved\<lparr> reg_issued := True \<rparr>)"
    by (simp_all add: w_op_def actual_change_def mk_change_def w_moved_def w_source_def)
  show ?thesis using decision_applied_effect [OF w_decision z(2,1)] unfolding z(3) by simp
qed

theorem decision_uncontended_witness:
  "\<exists>op. parse_operation_json w_operation_json False = Inr op
     \<and> packet_merge_decision [w_source] op (\<lambda>_. None) = (''applied'', [], [mk_change w_source w_issued])"
proof -
  obtain op where op: "parse_operation_json w_operation_json False = Inr op"
    "op_changes op = [mk_change w_source w_issued]" "cmd_type (op_command op) = ''issue''"
    using w_operation_parsed by blast
  have "w_source \<noteq> w_issued" by (simp add: w_issued_def w_source_def zero_registration_def)
  with decision_uncontended [OF op(1), of "\<lambda>_. None"] op show ?thesis by (simp add: op_rows_def)
qed

theorem merge_feed_change_converges_witness:
  "merge_feed_change (Some w_issued) \<lparr> fch_reg = ''1'', fch_before = Some w_source, fch_after = Some w_moved \<rparr>
     = Inr (Some (w_moved\<lparr> reg_issued := True \<rparr>))"
proof -
  have "merge_registration w_source w_issued w_moved = Some (w_moved\<lparr> reg_issued := True \<rparr>)"
    by (simp add: merge_registration_def merge_optional_person_def merge3_def w_moved_def w_issued_def
        w_source_def zero_registration_def)
  then have *: "merge_feed_change (Some w_moved) \<lparr> fch_reg = ''1'', fch_before = Some w_source, fch_after = Some w_issued \<rparr>
     = Inr (Some (w_moved\<lparr> reg_issued := True \<rparr>))"
    by (simp add: merge_feed_change_fieldwise_lemma)
  show ?thesis
    using merge_feed_change_converges [OF *] by (simp add: w_moved_def w_issued_def w_source_def zero_registration_def)
qed

end
