(* ===== verification/PacketTables.thy ===== *)
theory PacketTables
  imports PacketMerge
begin

section \<open>The event database\<close>

text \<open>
  The tables of an event database that packet issuance reads and writes
  (\<^verbatim>\<open>infrastructure/sqlite/schema.sql\<close>) and the row operations of
  \<^verbatim>\<open>packet_issuance_store.go\<close>, \<^verbatim>\<open>queries_store.go\<close>, \<^verbatim>\<open>entities_store.go\<close>, \<^verbatim>\<open>member_clubs_store.go\<close> and
  \<^verbatim>\<open>packet_reserve_origins.go\<close>.  A table is the list of its rows; an insert checks the primary key, unique
  and foreign key constraints the schema declares (foreign keys are switched on in \<^verbatim>\<open>open.go\<close>).  A stored
  JSON text is kept as the value it encodes.  The error \<open>no_rows\<close> is \<^verbatim>\<open>sql.ErrNoRows\<close>, wrapped or not.
\<close>

definition no_rows :: string where
  "no_rows = ''sql: no rows in result set''"

definition constraint_failed :: string where
  "constraint_failed = ''constraint failed''"

record event_row =
  ev_id :: string
  ev_race_age :: int

record race_row =
  rc_id :: string
  rc_event :: string
  rc_date :: string

record category =
  cat_id :: string
  cat_min :: "int option"
  cat_max :: "int option"
  cat_gender :: "string option"

record member =
  mb_id :: string
  mb_event :: string
  mb_race :: string
  mb_category :: "string option"
  mb_number :: "int option"
  mb_epc :: "string option"
  mb_rfid :: "string option"
  mb_first :: string
  mb_last :: string
  mb_gender :: "string option"
  mb_dob :: "string option"
  mb_team :: "string option"
  mb_city :: "string option"
  mb_status :: int
  mb_start :: "int option"
  mb_start_source :: string
  mb_start_observation :: "string option"
  mb_finish :: "int option"
  mb_clean :: "string option"

record log_row =
  lg_event :: string
  lg_number :: int
  lg_epc :: string

record club_row =
  cl_event :: string
  cl_member :: string
  cl_club :: "string option"

record scope_row =
  sc_event :: string
  sc_scope :: string
  sc_baseline :: string
  sc_source :: string
  sc_installed :: int
  sc_cursor :: string

record reg_row =
  rr_id :: string
  rr_event :: string
  rr_value :: registration
  rr_heads :: "string list"
  rr_deleted :: bool

record op_row =
  or_id :: string
  or_event :: string
  or_scope :: string
  or_baseline :: string
  or_origin :: string
  or_sequence :: int
  or_hash :: string
  or_op :: operation
  or_outcome :: string
  or_code :: "string option"
  or_recorded :: int
  or_acked :: bool
  or_site_outcome :: "string option"
  or_site_code :: "string option"
  or_attempts :: nat

record head_row =
  hd_event :: string
  hd_last :: int
  hd_first :: int

record feed_row =
  fr_id :: string
  fr_event :: string
  fr_sequence :: int
  fr_kind :: string
  fr_source :: string
  fr_operation :: "string option"
  fr_outcome :: string
  fr_code :: "string option"
  fr_changes :: "feed_change list"
  fr_recorded :: int

record archive_row = feed_row +
  fr_archived :: int

record site_action_row =
  sa_id :: string
  sa_event :: string
  sa_sequence :: string
  sa_action :: feed_action
  sa_application :: string
  sa_code :: "string option"
  sa_recorded :: int

record site_row =
  sr_event :: string
  sr_id :: string
  sr_value :: registration
  sr_deleted :: bool

record resolution_row =
  rs_id :: string
  rs_event :: string
  rs_input :: string
  rs_keep :: bool
  rs_reason :: string
  rs_recorded :: int

record snapshot_item =
  it_reg :: string
  it_application :: string
  it_code :: "string option"

record rebase_row =
  rb_event :: string
  rb_scope :: string
  rb_before :: string
  rb_after :: string
  rb_before_cursor :: string
  rb_after_cursor :: string
  rb_snapshot :: bootstrap
  rb_items :: "snapshot_item list"
  rb_recorded :: int

record db =
  db_events :: "event_row list"
  db_races :: "race_row list"
  db_categories :: "category list"
  db_race_categories :: "(string \<times> string) list"
  db_members :: "member list"
  db_results :: "string list"
  db_logs :: "log_row list"
  db_clubs :: "club_row list"
  db_scopes :: "scope_row list"
  db_regs :: "reg_row list"
  db_ops :: "op_row list"
  db_heads :: "head_row list"
  db_feed :: "feed_row list"
  db_archive :: "archive_row list"
  db_site_actions :: "site_action_row list"
  db_site_regs :: "site_row list"
  db_resolutions :: "resolution_row list"
  db_origins :: "(string \<times> reserve_origin list) list"
  db_rebases :: "rebase_row list"
  db_dirty :: bool

definition event_exists :: "db \<Rightarrow> string \<Rightarrow> bool" where
  "event_exists d e \<longleftrightarrow> e \<in> ev_id ` set (db_events d)"

definition member_exists :: "db \<Rightarrow> string \<Rightarrow> bool" where
  "member_exists d m \<longleftrightarrow> m \<in> mb_id ` set (db_members d)"

subsection \<open>Members, races and categories\<close>

definition get_member :: "db \<Rightarrow> string \<Rightarrow> member res" where
  "get_member d k = (case List.find (\<lambda>m. mb_id m = k) (db_members d) of None \<Rightarrow> Inl no_rows | Some m \<Rightarrow> Inr m)"

definition get_race :: "db \<Rightarrow> string \<Rightarrow> race_row res" where
  "get_race d k = (case List.find (\<lambda>r. rc_id r = k) (db_races d) of None \<Rightarrow> Inl no_rows | Some r \<Rightarrow> Inr r)"

definition get_event :: "db \<Rightarrow> string \<Rightarrow> event_row res" where
  "get_event d k = (case List.find (\<lambda>e. ev_id e = k) (db_events d) of None \<Rightarrow> Inl no_rows
     | Some e \<Rightarrow> if ev_race_age e = 0 \<or> ev_race_age e = 1 then Inr e else Inl ''scan use_race_date_for_age'')"

text \<open>The categories of a race, in ascending order of their id.\<close>

definition list_race_categories :: "db \<Rightarrow> string \<Rightarrow> category list" where
  "list_race_categories d race =
     sort_key cat_id (filter (\<lambda>c. (race, cat_id c) \<in> set (db_race_categories d)) (db_categories d))"

definition category_fits :: "string \<Rightarrow> int \<Rightarrow> category \<Rightarrow> bool" where
  "category_fits gender age c \<longleftrightarrow> cat_gender c = Some gender
     \<and> (case cat_min c of None \<Rightarrow> True | Some m \<Rightarrow> m \<le> age)
     \<and> (case cat_max c of None \<Rightarrow> True | Some m \<Rightarrow> age \<le> m)"

text \<open>
  \<^verbatim>\<open>resolveCategoryIDForMember\<close>.  \<open>age_on\<close> is \<^verbatim>\<open>AgeOnRaceDate\<close> of the timing-core module on the birth date,
  the date of the race and the age rule of the event.
\<close>

definition resolve_category ::
  "(string \<Rightarrow> string \<Rightarrow> bool \<Rightarrow> int) \<Rightarrow> db \<Rightarrow> member \<Rightarrow> string option res" where
  "resolve_category age_on d m =
     (case (mb_gender m, mb_dob m) of
        (Some gender, Some dob) \<Rightarrow>
          if gender = [] \<or> dob = [] then Inr None
          else bind_res (get_race d (mb_race m)) (\<lambda>race.
               bind_res (get_event d (mb_event m)) (\<lambda>event.
               if \<not> valid_date dob then Inl ''parse dob''
               else if length (rc_date race) < 10 \<or> \<not> valid_date (take 10 (rc_date race)) then Inl ''parse race date''
               else let age = age_on dob (take 10 (rc_date race)) (ev_race_age event = 1) in
                 Inr (map_option cat_id
                   (List.find (category_fits gender age) (list_race_categories d (mb_race m))))))
      | _ \<Rightarrow> Inr None)"

definition non_empty :: "string \<Rightarrow> string option" where
  "non_empty s = (if s = [] then None else Some s)"

definition status_number :: "string \<Rightarrow> int" where
  "status_number s = (if s = ''dns'' then 1 else if s = ''dnf'' then 2 else if s = ''dsq'' then 3 else 0)"

text \<open>\<^verbatim>\<open>packetMember\<close> of the service: what category resolution looks at.\<close>

definition blank_member :: member where
  "blank_member = \<lparr> mb_id = [], mb_event = [], mb_race = [], mb_category = None, mb_number = None, mb_epc = None,
     mb_rfid = None, mb_first = [], mb_last = [], mb_gender = None, mb_dob = None, mb_team = None, mb_city = None,
     mb_status = 0, mb_start = None, mb_start_source = [], mb_start_observation = None, mb_finish = None,
     mb_clean = None \<rparr>"

definition packet_member :: "registration \<Rightarrow> member" where
  "packet_member r =
     (let m = blank_member\<lparr> mb_id := reg_id r, mb_event := reg_event r, mb_race := reg_race r,
                mb_status := status_number (reg_status r) \<rparr> in
      case reg_person r of None \<Rightarrow> m
      | Some p \<Rightarrow> m\<lparr> mb_first := per_first p, mb_last := per_last p, mb_gender := non_empty (per_gender p),
                      mb_dob := non_empty (per_birth p) \<rparr>)"

text \<open>\<^verbatim>\<open>packetRegistrationMember\<close>: the member row a registration projects to.\<close>

definition bib_number :: "string \<Rightarrow> int option" where
  "bib_number bib = (if bib = [] then None else parse_int 64 bib)"

definition registration_member :: "registration \<Rightarrow> string option \<Rightarrow> member" where
  "registration_member r cat =
     (let m = blank_member\<lparr> mb_id := reg_id r, mb_event := reg_event r, mb_race := reg_race r, mb_category := cat,
                mb_number := bib_number (reg_bib r), mb_epc := non_empty (reg_epc r),
                mb_status := status_number (reg_status r) \<rparr> in
      case reg_person r of None \<Rightarrow> m
      | Some p \<Rightarrow> m\<lparr> mb_first := per_first p, mb_last := per_last p, mb_gender := non_empty (per_gender p),
                      mb_dob := non_empty (per_birth p), mb_team := non_empty (per_team p),
                      mb_city := non_empty (per_city p) \<rparr>)"

text \<open>Foreign keys of a member row.\<close>

definition member_refs :: "db \<Rightarrow> member \<Rightarrow> bool" where
  "member_refs d m \<longleftrightarrow> event_exists d (mb_event m) \<and> mb_race m \<in> rc_id ` set (db_races d)
     \<and> (case mb_category m of None \<Rightarrow> True | Some c \<Rightarrow> c \<in> cat_id ` set (db_categories d))"

text \<open>
  \<^verbatim>\<open>upsertMember\<close> for a member without imported start provenance and club: an existing row takes the
  imported start time, and its provenance only survives if the start time stays.
\<close>

definition upsert_member :: "db \<Rightarrow> member \<Rightarrow> db res" where
  "upsert_member d m =
     (if \<not> member_refs d m then Inl constraint_failed
      else if member_exists d (mb_id m) then
        Inr (d\<lparr> db_members := update_where (\<lambda>o'. mb_id o' = mb_id m)
          (\<lambda>o'. m\<lparr> mb_start_source := (if mb_start o' = mb_start m then mb_start_source o' else ''unknown''),
                  mb_start_observation := (if mb_start o' = mb_start m then mb_start_observation o' else None) \<rparr>)
          (db_members d) \<rparr>)
      else Inr (d\<lparr> db_members := db_members d @ [m\<lparr> mb_start_source := ''unknown'' \<rparr>] \<rparr>))"

subsection \<open>Clubs\<close>

definition utf8_encode :: "nat \<Rightarrow> nat list" where
  "utf8_encode r =
     (if r < 128 then [r]
      else if r < 2048 then [192 + r div 64, 128 + r mod 64]
      else if r < 65536 then [224 + r div 4096, 128 + r div 64 mod 64, 128 + r mod 64]
      else [240 + r div 262144, 128 + r div 4096 mod 64, 128 + r div 64 mod 64, 128 + r mod 64])"

definition trim_runes :: "nat list \<Rightarrow> nat list" where
  "trim_runes rs = rev (dropWhile is_space (rev (dropWhile is_space rs)))"

definition text_of_runes :: "nat list \<Rightarrow> string" where
  "text_of_runes rs = map char_of (concat (map utf8_encode rs))"

text \<open>\<^verbatim>\<open>NormalizeClub\<close> of \<^verbatim>\<open>domain/club.go\<close>.\<close>

definition normalize_club :: "string option \<Rightarrow> string option res" where
  "normalize_club club =
     (case club of None \<Rightarrow> Inr None
      | Some s \<Rightarrow>
          (case runes_of s of None \<Rightarrow> Inl ''invalid Club text''
           | Some rs \<Rightarrow>
               if 255 < length s then Inl ''invalid Club text''
               else if list_ex forbidden_rune (trim_runes rs) then Inl ''invalid Club character''
               else Inr (non_empty (text_of_runes (trim_runes rs)))))"

text \<open>\<^verbatim>\<open>applyMemberClubs\<close>: a missing member is skipped, a present nil clears the club.\<close>

definition put_club :: "string \<Rightarrow> string \<times> string option \<Rightarrow> db \<Rightarrow> db res" where
  "put_club event mc d =
     bind_res (normalize_club (snd mc)) (\<lambda>club.
     if \<not> list_ex (\<lambda>m. mb_event m = event \<and> mb_id m = fst mc) (db_members d) then Inr d
     else if list_ex (\<lambda>c. cl_event c = event \<and> cl_member c = fst mc) (db_clubs d)
     then Inr (d\<lparr> db_clubs := update_where (\<lambda>c. cl_event c = event \<and> cl_member c = fst mc)
                                  (\<lambda>c. c\<lparr> cl_club := club \<rparr>) (db_clubs d) \<rparr>)
     else Inr (d\<lparr> db_clubs := db_clubs d @ [\<lparr> cl_event = event, cl_member = fst mc, cl_club = club \<rparr>] \<rparr>))"

definition apply_clubs :: "string \<Rightarrow> (string \<times> string option) list \<Rightarrow> db \<Rightarrow> db res" where
  "apply_clubs event clubs d = fold_res (put_club event) clubs d"

definition member_club :: "db \<Rightarrow> string \<Rightarrow> string \<Rightarrow> string option option" where
  "member_club d event m =
     map_option cl_club (List.find (\<lambda>c. cl_event c = event \<and> cl_member c = m) (db_clubs d))"

text \<open>
  \<^verbatim>\<open>packetClubProjection\<close>: the registration a person comes from, unless two changed rows hold the same
  person; a person who stays keeps the club, a person who moves takes it along.
\<close>

definition person_of :: "registration \<Rightarrow> string option" where
  "person_of r = map_option per_id (reg_person r)"

definition source_of :: "change list \<Rightarrow> string \<Rightarrow> string" where
  "source_of changes person =
     (case filter (\<lambda>ch. person_of (chg_before ch) = Some person) changes of [ch] \<Rightarrow> chg_reg ch | _ \<Rightarrow> [])"

definition projected_club ::
  "db \<Rightarrow> string \<Rightarrow> change list \<Rightarrow> change \<Rightarrow> (string \<times> string option) list" where
  "projected_club d event changes ch =
     (case reg_person (chg_after ch) of None \<Rightarrow> [(chg_reg ch, None)]
      | Some after \<Rightarrow>
          if person_of (chg_before ch) = Some (per_id after)
          then (case member_club d event (chg_reg ch) of None \<Rightarrow> [] | Some club \<Rightarrow> [(chg_reg ch, club)])
          else let source = source_of changes (per_id after) in
            if source \<noteq> [] \<and> source \<noteq> chg_reg ch
            then [(chg_reg ch, case member_club d event source of None \<Rightarrow> None | Some club \<Rightarrow> club)]
            else [(chg_reg ch, None)])"

definition club_projection :: "db \<Rightarrow> string \<Rightarrow> change list \<Rightarrow> (string \<times> string option) list res" where
  "club_projection d event changes =
     (if list_ex (\<lambda>ch. reg_event (chg_after ch) \<noteq> event) changes then Inl ''club projection event mismatch''
      else Inr (concat (map (projected_club d event changes) changes)))"

subsection \<open>Scopes\<close>

definition find_scope :: "db \<Rightarrow> string \<Rightarrow> scope_row option" where
  "find_scope d event = List.find (\<lambda>s. sc_event s = event) (db_scopes d)"

text \<open>\<^verbatim>\<open>AdvancePacketSiteCursor\<close> and \<^verbatim>\<open>CompletePacketSnapshotRebase\<close>: compare and set.\<close>

definition advance_cursor :: "string \<Rightarrow> string \<Rightarrow> string \<Rightarrow> db \<Rightarrow> db res" where
  "advance_cursor event expected next d =
     (let p = (\<lambda>s. sc_event s = event \<and> sc_cursor s = expected) in
      if count_where p (db_scopes d) \<noteq> 1 then Inl ''packet_feed_cursor_changed''
      else Inr (d\<lparr> db_scopes := update_where p (\<lambda>s. s\<lparr> sc_cursor := next \<rparr>) (db_scopes d) \<rparr>))"

subsection \<open>Registrations\<close>

text \<open>\<^verbatim>\<open>packetTimingEvidence\<close>: whether a member has left a trace in the timing.\<close>

definition member_evidence :: "db \<Rightarrow> member \<Rightarrow> bool" where
  "member_evidence d m \<longleftrightarrow> mb_finish m \<noteq> None \<or> mb_clean m \<noteq> None \<or> mb_start_observation m \<noteq> None
     \<or> (mb_start m \<noteq> None \<and> mb_start_source m \<noteq> ''race_default'')
     \<or> mb_id m \<in> set (db_results d)
     \<or> list_ex (\<lambda>l. lg_event l = mb_event m
          \<and> (mb_number m = Some (lg_number l) \<or> (mb_epc m = Some (lg_epc l) \<and> lg_epc l \<noteq> []))) (db_logs d)"

definition timing_evidence :: "db \<Rightarrow> registration \<Rightarrow> bool res" where
  "timing_evidence d r =
     (case List.find (\<lambda>m. mb_id m = reg_id r \<and> mb_event m = reg_event r) (db_members d) of
        None \<Rightarrow> Inl no_rows | Some m \<Rightarrow> Inr (member_evidence d m))"

definition with_evidence :: "db \<Rightarrow> registration \<Rightarrow> registration res" where
  "with_evidence d r =
     bind_res (timing_evidence d r) (\<lambda>e. Inr (r\<lparr> reg_timing := (reg_timing r \<or> e) \<rparr>))"

definition find_reg :: "db \<Rightarrow> string \<Rightarrow> string \<Rightarrow> reg_row option" where
  "find_reg d event k = List.find (\<lambda>r. rr_event r = event \<and> rr_id r = k) (db_regs d)"

definition live_reg :: "db \<Rightarrow> string \<Rightarrow> string \<Rightarrow> registration res" where
  "live_reg d event k =
     (case find_reg d event k of None \<Rightarrow> Inl no_rows
      | Some r \<Rightarrow> if rr_deleted r then Inl no_rows else with_evidence d (rr_value r))"

text \<open>\<^verbatim>\<open>GetPacketRegistrations\<close> reads one or two rows; every failure of a read ends it.\<close>

definition get_registrations :: "db \<Rightarrow> string \<Rightarrow> string list \<Rightarrow> registration list res" where
  "get_registrations d event ks =
     (if length ks < 1 \<or> 2 < length ks then Inl ''packet operation must affect one or two registrations''
      else map_res (live_reg d event) ks)"

text \<open>\<^verbatim>\<open>FindPacketRegistration\<close>: the record, with the deleted flag.\<close>

definition find_registration :: "db \<Rightarrow> string \<Rightarrow> string \<Rightarrow> reg_row option res" where
  "find_registration d event k =
     (case find_reg d event k of None \<Rightarrow> Inr None
      | Some r \<Rightarrow>
          if rr_deleted r then Inr (Some r)
          else bind_res (with_evidence d (rr_value r)) (\<lambda>v. Inr (Some (r\<lparr> rr_value := v \<rparr>))))"

text \<open>\<^verbatim>\<open>ListPacketRegistrations\<close>: the live rows of an event in the order of their ids.\<close>

definition list_registrations :: "db \<Rightarrow> string \<Rightarrow> registration list res" where
  "list_registrations d event =
     map_res (\<lambda>r. with_evidence d (rr_value r))
       (sort_key rr_id (filter (\<lambda>r. rr_event r = event \<and> \<not> rr_deleted r) (db_regs d)))"

text \<open>
  \<^verbatim>\<open>PutPacketRegistration\<close>: the registration row and its member.  The legacy RFID of a member survives
  only while the chip stays the same.
\<close>

definition project_member :: "registration \<Rightarrow> string option \<Rightarrow> member \<Rightarrow> member" where
  "project_member r cat m =
     (let n = registration_member r cat; same = ((case mb_epc m of None \<Rightarrow> [] | Some e \<Rightarrow> e) = reg_epc r) in
      m\<lparr> mb_race := mb_race n, mb_first := mb_first n, mb_last := mb_last n, mb_gender := mb_gender n,
         mb_dob := mb_dob n, mb_team := mb_team n, mb_city := mb_city n, mb_status := mb_status n,
         mb_category := cat, mb_number := mb_number n,
         mb_rfid := (if same then mb_rfid m else None), mb_epc := (if same then mb_epc m else mb_epc n) \<rparr>)"

definition put_registration :: "registration \<Rightarrow> string list \<Rightarrow> string option \<Rightarrow> db \<Rightarrow> db res" where
  "put_registration r heads cat d =
     (let p = (\<lambda>m. mb_id m = reg_id r \<and> mb_event m = reg_event r) in
      if count_where p (db_members d) = 1 \<and> \<not> member_refs d (registration_member r cat) then Inl constraint_failed
      else if count_where p (db_members d) \<noteq> 1 then Inl ''packet member projection failed''
      else Inr (d\<lparr> db_regs := update_where (\<lambda>x. rr_id x = reg_id r \<and> rr_event x = reg_event r)
                     (\<lambda>x. x\<lparr> rr_value := r, rr_heads := heads, rr_deleted := False \<rparr>) (db_regs d),
                   db_members := update_where p (project_member r cat) (db_members d), db_dirty := True \<rparr>))"

definition insert_registration :: "registration \<Rightarrow> string list \<Rightarrow> string option \<Rightarrow> db \<Rightarrow> db res" where
  "insert_registration r heads cat d =
     bind_res (upsert_member d (registration_member r cat)) (\<lambda>d1.
     if reg_id r \<in> rr_id ` set (db_regs d1) then Inl constraint_failed
     else Inr (d1\<lparr> db_regs := db_regs d1 @ [\<lparr> rr_id = reg_id r, rr_event = reg_event r, rr_value = r,
                     rr_heads = heads, rr_deleted = False \<rparr>] \<rparr>))"

definition delete_registration :: "string \<Rightarrow> string \<Rightarrow> string list \<Rightarrow> db \<Rightarrow> db res" where
  "delete_registration event k heads d =
     (let p = (\<lambda>x. rr_event x = event \<and> rr_id x = k) in
      if count_where p (db_regs d) \<noteq> 1 then Inl ''packet registration projection failed''
      else Inr (d\<lparr> db_regs := update_where p (\<lambda>x. x\<lparr> rr_deleted := True, rr_heads := heads \<rparr>) (db_regs d) \<rparr>))"

definition restore_rfid :: "string \<Rightarrow> string option \<Rightarrow> db \<Rightarrow> db" where
  "restore_rfid k rfid d =
     d\<lparr> db_members := update_where (\<lambda>m. mb_id m = k) (\<lambda>m. m\<lparr> mb_rfid := rfid \<rparr>) (db_members d) \<rparr>"

text \<open>
  \<^verbatim>\<open>CheckPacketNumber\<close>: the code of the reason a number cannot be used, or nothing.  \<^verbatim>\<open>CAST(? AS INTEGER)\<close>
  is SQLite's; the callers pass a canonical number or the checks before them have failed.
\<close>

definition cast_integer :: "string \<Rightarrow> int" where
  "cast_integer s = int (digits_value (takeWhile is_digit s))"

definition check_number :: "db \<Rightarrow> string \<Rightarrow> string \<Rightarrow> string \<Rightarrow> string" where
  "check_number d event k bib =
     (if list_ex (\<lambda>m. mb_event m = event \<and> mb_id m \<noteq> k \<and> mb_number m = Some (cast_integer bib)) (db_members d)
      then ''number_occupied''
      else if list_ex (\<lambda>l. lg_event l = event \<and> lg_number l = cast_integer bib) (db_logs d)
      then ''timing_review_required'' else [])"

subsection \<open>The site baseline\<close>

definition find_site_row :: "db \<Rightarrow> string \<Rightarrow> string \<Rightarrow> site_row option" where
  "find_site_row d event k = List.find (\<lambda>s. sr_event s = event \<and> sr_id s = k) (db_site_regs d)"

definition store_site_row :: "string \<Rightarrow> registration \<Rightarrow> bool \<Rightarrow> db \<Rightarrow> db res" where
  "store_site_row event r deleted d =
     (if validate_registration r \<noteq> Inr () \<or> reg_event r \<noteq> event then Inl ''invalid packet site registration''
      else let p = (\<lambda>s. sr_event s = event \<and> sr_id s = reg_id r) in
        if list_ex p (db_site_regs d)
        then Inr (d\<lparr> db_site_regs := update_where p (\<lambda>s. s\<lparr> sr_value := r, sr_deleted := deleted \<rparr>) (db_site_regs d) \<rparr>)
        else if \<not> event_exists d event then Inl constraint_failed
        else Inr (d\<lparr> db_site_regs := db_site_regs d @
               [\<lparr> sr_event = event, sr_id = reg_id r, sr_value = r, sr_deleted = deleted \<rparr>] \<rparr>))"

definition put_site_registration :: "string \<Rightarrow> registration \<Rightarrow> db \<Rightarrow> db res" where
  "put_site_registration event r = store_site_row event r False"

definition delete_site_registration :: "string \<Rightarrow> registration \<Rightarrow> db \<Rightarrow> db res" where
  "delete_site_registration event r = store_site_row event r True"

definition baseline_complete :: "db \<Rightarrow> string \<Rightarrow> bool" where
  "baseline_complete d event \<longleftrightarrow>
     list_all (\<lambda>r. rr_event r = event \<longrightarrow> find_site_row d event (rr_id r) \<noteq> None) (db_regs d)"

subsection \<open>Reserve origins\<close>

definition save_origins :: "string \<Rightarrow> reserve_origin list option \<Rightarrow> db \<Rightarrow> db" where
  "save_origins event origins d =
     (case origins of None \<Rightarrow> d
      | Some os \<Rightarrow>
          let combined = (case map_of (db_origins d) event of None \<Rightarrow> [] | Some prev \<Rightarrow> prev) @ os;
              compact = rev (remdups (rev combined)) in
          d\<lparr> db_origins := (event, compact) # filter (\<lambda>e. fst e \<noteq> event) (db_origins d) \<rparr>)"

definition origin_of_row :: "registration option \<Rightarrow> reserve_origin list" where
  "origin_of_row r =
     (case r of None \<Rightarrow> []
      | Some x \<Rightarrow> if reg_reserve x \<and> reg_bib x \<noteq> []
                  then [\<lparr> org_reg = reg_id x, org_bib = reg_bib x, org_epc = reg_epc x, org_race = reg_race x \<rparr>]
                  else [])"

definition reserve_origins :: "db \<Rightarrow> string \<Rightarrow> registration list \<Rightarrow> reserve_origin list option" where
  "reserve_origins d event current =
     (case map_of (db_origins d) event of None \<Rightarrow> None
      | Some stored \<Rightarrow>
          let ops = concat (map (\<lambda>o'. concat (map (\<lambda>ch. origin_of_row (Some (chg_before ch)) @ origin_of_row (Some (chg_after ch)))
                        (op_changes (or_op o'))))
                 (filter (\<lambda>o'. or_event o' = event \<and> (or_outcome o' = ''applied'' \<or> or_outcome o' = ''equivalent'')) (db_ops d)));
              acts = concat (map (\<lambda>a. concat (map (\<lambda>ch. origin_of_row (fch_before ch) @ origin_of_row (fch_after ch))
                        (act_changes (sa_action a))))
                 (filter (\<lambda>a. sa_event a = event \<and> (sa_application a = ''applied'' \<or> sa_application a = ''observed'')) (db_site_actions d)))
          in Some (matching_reserve_origins current (stored @ ops @ acts)))"

end
