(* ===== verification/PacketJournal.thy ===== *)
theory PacketJournal
  imports PacketTables
begin

section \<open>The packet operation journal and the outgoing feed\<close>

text \<open>
  \<^verbatim>\<open>packet_issuance_store.go\<close>: the journal of operations, the numbered feed tablets read, its archive,
  the record of site actions and the decisions on conflicts.  The feed invariant \<open>feed_inv\<close> says that
  the live rows of an event are numbered without a gap from the first available to the last sequence and
  the archive holds all earlier ones.
\<close>

subsection \<open>Operations\<close>

definition content_hash :: "(string \<Rightarrow> string) \<Rightarrow> operation \<Rightarrow> string" where
  "content_hash sha op = ''sha256:'' @ sha (op_canonical op)"

definition find_op :: "db \<Rightarrow> string \<Rightarrow> op_row option" where
  "find_op d k = List.find (\<lambda>o'. or_id o' = k) (db_ops d)"

definition find_origin :: "db \<Rightarrow> string \<Rightarrow> int \<Rightarrow> op_row option" where
  "find_origin d origin n = List.find (\<lambda>o'. or_origin o' = origin \<and> or_sequence o' = n) (db_ops d)"

definition op_event :: "operation \<Rightarrow> string" where
  "op_event op = reg_event (chg_before (hd (op_changes op)))"

definition op_outcomes :: "string set" where
  "op_outcomes = {''applied'', ''equivalent'', ''waiting_dependency'', ''conflict'', ''rejected''}"

definition insert_op :: "op_row \<Rightarrow> db \<Rightarrow> db res" where
  "insert_op row d =
     (if find_op d (or_id row) \<noteq> None \<or> find_origin d (or_origin row) (or_sequence row) \<noteq> None
         \<or> \<not> event_exists d (or_event row) \<or> or_outcome row \<notin> op_outcomes
      then Inl constraint_failed else Inr (d\<lparr> db_ops := db_ops d @ [row] \<rparr>))"

definition op_row_of ::
  "operation \<Rightarrow> string \<Rightarrow> string \<Rightarrow> string \<Rightarrow> string option \<Rightarrow> int \<Rightarrow> op_row" where
  "op_row_of op event hash outcome code at =
     \<lparr> or_id = op_id op, or_event = event, or_scope = op_scope op, or_baseline = op_baseline op,
       or_origin = op_origin op, or_sequence = op_sequence op, or_hash = hash, or_op = op, or_outcome = outcome,
       or_code = code, or_recorded = at, or_acked = False, or_site_outcome = None, or_site_code = None,
       or_attempts = 0 \<rparr>"

definition save_operation ::
  "operation \<Rightarrow> string \<Rightarrow> string \<Rightarrow> string option \<Rightarrow> int \<Rightarrow> bool \<Rightarrow> db \<Rightarrow> db res" where
  "save_operation op hash outcome code at known d =
     (if known then
        (if outcome \<notin> op_outcomes \<and> find_op d (op_id op) \<noteq> None then Inl constraint_failed
         else Inr (d\<lparr> db_ops := update_where (\<lambda>o'. or_id o' = op_id op)
                     (\<lambda>o'. o'\<lparr> or_outcome := outcome, or_code := code \<rparr>) (db_ops d) \<rparr>))
      else insert_op (op_row_of op (op_event op) hash outcome code at) d)"

text \<open>\<^verbatim>\<open>SaveReceivedPacketOperation\<close>: an operation seen in the site feed.\<close>

definition save_received ::
  "(string \<Rightarrow> string) \<Rightarrow> operation \<Rightarrow> string \<Rightarrow> string \<Rightarrow> string option \<Rightarrow> string \<Rightarrow> string option \<Rightarrow> int \<Rightarrow>
     db \<Rightarrow> db res" where
  "save_received sha op event outcome code site_outcome site_code at d =
     (let hash = content_hash sha op in
      case find_op d (op_id op) of
        Some o' \<Rightarrow>
          if or_event o' \<noteq> event \<or> or_scope o' \<noteq> op_scope op \<or> or_hash o' \<noteq> hash
             \<or> op_canonical (or_op o') \<noteq> op_canonical op
          then Inl ''packet_feed_action_identity_conflict''
          else Inr (d\<lparr> db_ops := update_where (\<lambda>x. or_id x = op_id op)
                 (\<lambda>x. x\<lparr> or_acked := True, or_site_outcome := Some site_outcome, or_site_code := site_code \<rparr>)
                 (db_ops d) \<rparr>)
      | None \<Rightarrow>
          if find_origin d (op_origin op) (op_sequence op) \<noteq> None
          then Inl ''packet_feed_action_identity_conflict''
          else insert_op ((op_row_of op event hash outcome code at)\<lparr> or_acked := True,
                 or_site_outcome := Some site_outcome, or_site_code := site_code \<rparr>) d)"

text \<open>\<^verbatim>\<open>ListPendingPacketOperations\<close> and \<^verbatim>\<open>MarkPacketOperationSiteReceipt\<close>: the upload to the site.\<close>

definition pending_ops :: "db \<Rightarrow> string \<Rightarrow> nat \<Rightarrow> operation list res" where
  "pending_ops d event limit =
     (if limit < 1 \<or> 64 < limit then Inl ''invalid packet operation delivery limit''
      else Inr (map or_op (take limit (sort_key or_recorded (sort_key or_id
             (filter (\<lambda>o'. or_event o' = event \<and> \<not> or_acked o' \<and> or_outcome o' \<noteq> ''waiting_dependency'')
               (db_ops d)))))))"

definition mark_receipt :: "receipt \<Rightarrow> db \<Rightarrow> db res" where
  "mark_receipt r d =
     (let p = (\<lambda>o'. or_id o' = rcp_operation r \<and> or_hash o' = rcp_hash r) in
      if count_where p (db_ops d) \<noteq> 1 then Inl ''packet operation receipt identity mismatch''
      else Inr (d\<lparr> db_ops := update_where p
             (\<lambda>o'. o'\<lparr> or_acked := (rcp_outcome r \<noteq> ''waiting_dependency''),
                      or_site_outcome := Some (rcp_outcome r), or_site_code := rcp_code r,
                      or_attempts := Suc (or_attempts o') \<rparr>) (db_ops d) \<rparr>))"

definition accepted_outcome :: "string \<Rightarrow> bool" where
  "accepted_outcome s \<longleftrightarrow> s = ''applied'' \<or> s = ''equivalent''"

definition blank_text :: "string \<Rightarrow> bool" where
  "blank_text s \<longleftrightarrow> (case runes_of s of None \<Rightarrow> False | Some rs \<Rightarrow> list_all is_space rs)"

definition dependency_applied :: "db \<Rightarrow> string \<Rightarrow> string \<Rightarrow> bool" where
  "dependency_applied d event k \<longleftrightarrow> \<not> blank_text k \<and>
     (list_ex (\<lambda>o'. or_event o' = event \<and> or_id o' = k \<and> accepted_outcome (or_outcome o')) (db_ops d)
      \<or> list_ex (\<lambda>f. fr_event f = event \<and> fr_id f = k \<and> accepted_outcome (fr_outcome f)) (db_feed d)
      \<or> list_ex (\<lambda>f. fr_event f = event \<and> fr_id f = k \<and> accepted_outcome (fr_outcome f)) (db_archive d)
      \<or> list_ex (\<lambda>a. sa_event a = event \<and> sa_id a = k
           \<and> (sa_application a = ''applied'' \<or> sa_application a = ''observed'')) (db_site_actions d))"

definition dependencies_applied :: "db \<Rightarrow> string \<Rightarrow> string list \<Rightarrow> bool" where
  "dependencies_applied d event ks \<longleftrightarrow> list_all (dependency_applied d event) ks"

subsection \<open>The outgoing feed\<close>

definition find_head :: "db \<Rightarrow> string \<Rightarrow> head_row option" where
  "find_head d event = List.find (\<lambda>h. hd_event h = event) (db_heads d)"

definition feed_head :: "db \<Rightarrow> string \<Rightarrow> int" where
  "feed_head d event = (case find_head d event of None \<Rightarrow> 0 | Some h \<Rightarrow> hd_last h)"

definition feed_bounds :: "db \<Rightarrow> string \<Rightarrow> (int \<times> int) res" where
  "feed_bounds d event =
     (case find_head d event of None \<Rightarrow> Inr (0, 1)
      | Some h \<Rightarrow> if hd_first h < 1 \<or> hd_last h + 1 < hd_first h then Inl ''invalid packet feed bounds''
                  else Inr (hd_last h, hd_first h))"

definition feed_kinds :: "string set" where
  "feed_kinds = {''operation'', ''server_change''}"

definition feed_outcomes :: "string set" where
  "feed_outcomes = {''applied'', ''equivalent'', ''conflict''}"

text \<open>
  The constraints of \<^verbatim>\<open>packet_issuance_feed_actions\<close>: action ids, event sequences and source operations
  are unique, the kind and the outcome are checked.
\<close>

definition feed_row_allowed :: "db \<Rightarrow> feed_row \<Rightarrow> bool" where
  "feed_row_allowed d row \<longleftrightarrow>
     list_all (\<lambda>f. fr_id f \<noteq> fr_id row \<and> \<not> (fr_event f = fr_event row \<and> fr_sequence f = fr_sequence row)
        \<and> (fr_operation f = None \<or> fr_operation f \<noteq> fr_operation row)) (db_feed d)
     \<and> fr_kind row \<in> feed_kinds \<and> fr_outcome row \<in> feed_outcomes \<and> event_exists d (fr_event row)"

definition ensure_head :: "string \<Rightarrow> db \<Rightarrow> db res" where
  "ensure_head event d =
     (if find_head d event \<noteq> None then Inr d
      else if \<not> event_exists d event then Inl constraint_failed
      else Inr (d\<lparr> db_heads := db_heads d @ [\<lparr> hd_event = event, hd_last = 0, hd_first = 1 \<rparr>] \<rparr>))"

text \<open>The three publishing functions end alike: the next sequence, the row, the new head.\<close>

definition append_feed :: "feed_row \<Rightarrow> db \<Rightarrow> db res" where
  "append_feed row d =
     bind_res (ensure_head (fr_event row) d) (\<lambda>d1.
     let n = feed_head d1 (fr_event row) + 1; row1 = row\<lparr> fr_sequence := n \<rparr> in
     if \<not> feed_row_allowed d1 row1 then Inl constraint_failed
     else Inr (d1\<lparr> db_feed := db_feed d1 @ [row1],
                   db_heads := update_where (\<lambda>h. hd_event h = fr_event row) (\<lambda>h. h\<lparr> hd_last := n \<rparr>) (db_heads d1) \<rparr>))"

definition full_change :: "change \<Rightarrow> feed_change" where
  "full_change ch = \<lparr> fch_reg = chg_reg ch, fch_before = Some (without_timing (chg_before ch)),
                      fch_after = Some (without_timing (chg_after ch)) \<rparr>"

definition created_change :: "change \<Rightarrow> feed_change" where
  "created_change ch = \<lparr> fch_reg = reg_id (chg_after ch),
     fch_before = (if is_virtual_registration (chg_before ch) then None else Some (without_timing (chg_before ch))),
     fch_after = Some (without_timing (chg_after ch)) \<rparr>"

definition resolved_change :: "change \<Rightarrow> feed_change" where
  "resolved_change ch = \<lparr> fch_reg = chg_reg ch, fch_before = Some (without_timing (chg_before ch)),
     fch_after = (if is_virtual_registration (chg_after ch) then None else Some (without_timing (chg_after ch))) \<rparr>"

definition published_changes :: "operation \<Rightarrow> change list \<Rightarrow> feed_change list" where
  "published_changes op changes =
     (if op_schema op = 2 then map resolved_change changes
      else if cmd_type (op_command op) = ''create_registration'' \<or> cmd_type (op_command op) = ''return_to_reserve''
      then map created_change changes else map full_change changes)"

definition published :: "db \<Rightarrow> string \<Rightarrow> bool" where
  "published d k \<longleftrightarrow> list_ex (\<lambda>f. fr_operation f = Some k) (db_feed d)
     \<or> list_ex (\<lambda>f. fr_operation f = Some k) (db_archive d)"

definition publish_row :: "operation \<Rightarrow> string \<Rightarrow> string option \<Rightarrow> change list \<Rightarrow> int \<Rightarrow> feed_row" where
  "publish_row op outcome code changes at =
     \<lparr> fr_id = op_id op, fr_event = op_event op, fr_sequence = 0,
       fr_kind = (if cmd_type (op_command op) = ''change_race'' then ''server_change'' else ''operation''),
       fr_source = (if op_schema op = 2 then ''admin.packet_issuance_resolution'' else ''pwa.packet_issuance''),
       fr_operation = Some (op_id op), fr_outcome = outcome, fr_code = code,
       fr_changes = published_changes op changes, fr_recorded = at \<rparr>"

definition unpublished_outcome :: "operation \<Rightarrow> string \<Rightarrow> bool" where
  "unpublished_outcome op outcome \<longleftrightarrow> outcome = ''waiting_dependency'' \<or> outcome = ''rejected''
     \<or> cmd_type (op_command op) = ''change_race'' \<and> outcome \<noteq> ''applied''"

definition publish_operation ::
  "operation \<Rightarrow> string \<Rightarrow> string option \<Rightarrow> change list \<Rightarrow> int \<Rightarrow> db \<Rightarrow> db res" where
  "publish_operation op outcome code changes at d =
     (if unpublished_outcome op outcome then Inr d
      else if published d (op_id op) then Inr d
      else append_feed (publish_row op outcome code changes at) d)"

definition publish_server_change ::
  "string \<Rightarrow> string \<Rightarrow> string \<Rightarrow> change list \<Rightarrow> int \<Rightarrow> db \<Rightarrow> db res" where
  "publish_server_change event key source changes at d =
     (if \<not> uuid_pattern key \<or> length changes < 1 \<or> 20000 < length changes \<or> length source < 1 \<or> 64 < length source
      then Inl ''invalid packet server change''
      else append_feed \<lparr> fr_id = key, fr_event = event, fr_sequence = 0, fr_kind = ''server_change'',
             fr_source = source, fr_operation = None, fr_outcome = ''applied'', fr_code = None,
             fr_changes = map full_change changes, fr_recorded = at \<rparr> d)"

definition strip_feed_change :: "feed_change \<Rightarrow> feed_change" where
  "strip_feed_change ch = ch\<lparr> fch_before := map_option without_timing (fch_before ch),
                              fch_after := map_option without_timing (fch_after ch) \<rparr>"

definition relay_row :: "string \<Rightarrow> feed_action \<Rightarrow> int \<Rightarrow> feed_row" where
  "relay_row event a at =
     \<lparr> fr_id = act_id a, fr_event = event, fr_sequence = 0, fr_kind = act_kind a, fr_source = act_source a,
       fr_operation = (if act_operation a = None then None else Some (act_id a)), fr_outcome = act_outcome a,
       fr_code = act_code a, fr_changes = map strip_feed_change (act_changes a), fr_recorded = at \<rparr>"

definition relay_known :: "feed_action \<Rightarrow> feed_row \<Rightarrow> bool" where
  "relay_known a f \<longleftrightarrow> act_kind a = fr_kind f \<and> fr_kind f \<in> feed_kinds \<and> fr_operation f = Some (act_id a)"

definition relay_action :: "string \<Rightarrow> feed_action \<Rightarrow> int \<Rightarrow> db \<Rightarrow> db res" where
  "relay_action event a at d =
     (case List.find (\<lambda>f. fr_id f = act_id a) (db_feed d) of
        Some f \<Rightarrow> if relay_known a f then Inr d else Inl ''packet_feed_action_identity_conflict''
      | None \<Rightarrow> append_feed (relay_row event a at) d)"

subsection \<open>The archive\<close>

definition archived_row :: "int \<Rightarrow> feed_row \<Rightarrow> archive_row" where
  "archived_row at f = \<lparr> fr_id = fr_id f, fr_event = fr_event f, fr_sequence = fr_sequence f, fr_kind = fr_kind f,
     fr_source = fr_source f, fr_operation = fr_operation f, fr_outcome = fr_outcome f, fr_code = fr_code f,
     fr_changes = fr_changes f, fr_recorded = fr_recorded f, fr_archived = at \<rparr>"

definition archive_allowed :: "archive_row list \<Rightarrow> archive_row \<Rightarrow> bool" where
  "archive_allowed rows row \<longleftrightarrow>
     list_all (\<lambda>f. fr_id f \<noteq> fr_id row \<and> \<not> (fr_event f = fr_event row \<and> fr_sequence f = fr_sequence row)) rows"

text \<open>One archived row after the other, numbered from \<open>n\<close> on.\<close>

fun archive_rows :: "int \<Rightarrow> int \<Rightarrow> feed_row list \<Rightarrow> archive_row list \<Rightarrow> archive_row list res" where
  "archive_rows at n [] rows = Inr rows"
| "archive_rows at n (f # fs) rows =
     (if fr_sequence f \<noteq> n then Inl ''packet feed archive gap''
      else if \<not> archive_allowed rows (archived_row at f) then Inl ''archive packet feed action''
      else archive_rows at (n + 1) fs (rows @ [archived_row at f]))"

definition in_range :: "string \<Rightarrow> int \<Rightarrow> int \<Rightarrow> ('a feed_row_scheme) \<Rightarrow> bool" where
  "in_range event lo hi f \<longleftrightarrow> fr_event f = event \<and> lo \<le> fr_sequence f \<and> fr_sequence f \<le> hi"

definition archive_batch :: "string \<Rightarrow> int \<Rightarrow> int \<Rightarrow> db \<Rightarrow> feed_row list" where
  "archive_batch event first through d =
     sort_key fr_sequence (filter (in_range event first through) (db_feed d))"

definition head_at :: "string \<Rightarrow> int \<Rightarrow> int \<Rightarrow> head_row \<Rightarrow> bool" where
  "head_at event first head h \<longleftrightarrow> hd_event h = event \<and> hd_first h = first \<and> hd_last h = head"

definition archive_commit ::
  "string \<Rightarrow> int \<Rightarrow> int \<Rightarrow> int \<Rightarrow> archive_row list \<Rightarrow> db \<Rightarrow> db res" where
  "archive_commit event first head through rows d =
     (if count_where (head_at event first head) (db_heads d) \<noteq> 1 then Inl ''packet feed bounds changed''
      else Inr (d\<lparr> db_archive := rows, db_feed := filter (\<lambda>f. \<not> in_range event first through f) (db_feed d),
                   db_heads := update_where (head_at event first head) (\<lambda>h. h\<lparr> hd_first := through + 1 \<rparr>) (db_heads d) \<rparr>))"

definition archive_range :: "string \<Rightarrow> int \<Rightarrow> int \<Rightarrow> int \<Rightarrow> int \<Rightarrow> db \<Rightarrow> (db \<times> int \<times> int) res" where
  "archive_range event first head through at d =
     (let batch = archive_batch event first through d in
      if int (length batch) \<noteq> through - first + 1 then Inl ''packet feed archive gap''
      else bind_res (archive_rows at first batch (db_archive d)) (\<lambda>rows.
           bind_res (archive_commit event first head through rows d) (\<lambda>d1.
           Inr (d1, int (length batch), through + 1))))"

definition archive_prefix :: "string \<Rightarrow> int \<Rightarrow> int \<Rightarrow> db \<Rightarrow> (db \<times> int \<times> int) res" where
  "archive_prefix event through at d =
     bind_res (feed_bounds d event) (\<lambda>(last, first).
     if through < first \<or> last < through \<or> 100 < through - first + 1 \<or> at \<le> 0
     then Inl ''invalid packet feed archive range''
     else archive_range event first last through at d)"

record retention =
  rt_head :: int
  rt_first :: int
  rt_candidate :: int
  rt_processed :: int
  rt_through :: int
  rt_executed :: bool

definition compact_feed :: "string \<Rightarrow> int \<Rightarrow> bool \<Rightarrow> int \<Rightarrow> db \<Rightarrow> (db \<times> retention) res" where
  "compact_feed event keep execute at d =
     (if event = [] \<or> keep < 1 \<or> 100000 < keep then Inl ''invalid packet feed retention request''
      else bind_res (feed_bounds d event) (\<lambda>(last, first).
        let idle = \<lparr> rt_head = last, rt_first = first, rt_candidate = 0, rt_processed = 0, rt_through = 0,
                     rt_executed = False \<rparr> in
        if last - keep < first then Inr (d, idle)
        else let candidate = last - keep - first + 1; processed = min candidate 100;
                 through = first + processed - 1;
                 plan = idle\<lparr> rt_candidate := candidate, rt_processed := processed, rt_through := through \<rparr> in
          if \<not> execute then Inr (d, plan)
          else bind_res (archive_prefix event through at d) (\<lambda>(d1, n, next).
            if n \<noteq> processed \<or> next \<noteq> through + 1 then Inl ''packet feed archive result mismatch''
            else Inr (d1, plan\<lparr> rt_first := next, rt_executed := True \<rparr>))))"

subsection \<open>Reading the feed\<close>

text \<open>
  \<^verbatim>\<open>PacketIssuanceFeedPage\<close> up to the envelope it writes; the page returned to the tablet is that envelope
  read back by the feed page validator.
\<close>

definition list_feed :: "db \<Rightarrow> string \<Rightarrow> int \<Rightarrow> nat \<Rightarrow> feed_row list" where
  "list_feed d event after limit =
     take limit (sort_key fr_sequence (filter (\<lambda>f. fr_event f = event \<and> after < fr_sequence f) (db_feed d)))"

fun number_rows :: "int \<Rightarrow> feed_row list \<Rightarrow> int res" where
  "number_rows next [] = Inr next"
| "number_rows next (f # fs) =
     (if fr_sequence f \<noteq> next + 1 then Inl ''packet feed sequence gap'' else number_rows (fr_sequence f) fs)"

definition parse_cursor_text :: "string \<Rightarrow> int option" where
  "parse_cursor_text s =
     (case parse_int 64 s of None \<Rightarrow> None | Some n \<Rightarrow> if 0 \<le> n \<and> format_int n = s then Some n else None)"

record feed_envelope =
  fe_scope :: string
  fe_cursor :: feed_cursor
  fe_rows :: "feed_row list"

definition feed_page_of :: "db \<Rightarrow> string \<Rightarrow> string \<Rightarrow> string \<Rightarrow> nat \<Rightarrow> feed_envelope res" where
  "feed_page_of d event scope after limit =
     (case parse_cursor_text after of None \<Rightarrow> Inl ''invalid packet feed query''
      | Some cursor \<Rightarrow>
          if limit < 1 \<or> 100 < limit then Inl ''invalid packet feed query''
          else if (case find_scope d event of None \<Rightarrow> [] | Some s \<Rightarrow> sc_scope s) \<noteq> scope
          then Inl ''packet feed scope mismatch''
          else bind_res (feed_bounds d event) (\<lambda>(last, first).
            if last < cursor then Inl ''packet feed cursor ahead''
            else if cursor < first - 1 then Inl ''packet feed cursor expired''
            else let rows = list_feed d event cursor limit in
              bind_res (number_rows cursor rows) (\<lambda>next.
              Inr \<lparr> fe_scope = scope,
                    fe_cursor = \<lparr> cur_after = after, cur_next = format_int next, cur_head = format_int last,
                                  cur_more = (next < last) \<rparr>,
                    fe_rows = rows \<rparr>)))"

subsection \<open>Site actions and resolutions\<close>

definition find_site_action :: "db \<Rightarrow> string \<Rightarrow> site_action_row option" where
  "find_site_action d k = List.find (\<lambda>a. sa_id a = k) (db_site_actions d)"

definition save_site_action :: "site_action_row \<Rightarrow> db \<Rightarrow> db res" where
  "save_site_action row d =
     (if list_ex (\<lambda>a. sa_id a = sa_id row \<or> (sa_event a = sa_event row \<and> sa_sequence a = sa_sequence row))
           (db_site_actions d)
         \<or> sa_application row \<notin> {''applied'', ''observed'', ''review''} \<or> \<not> event_exists d (sa_event row)
      then Inl constraint_failed else Inr (d\<lparr> db_site_actions := db_site_actions d @ [row] \<rparr>))"

definition find_resolution :: "db \<Rightarrow> string \<Rightarrow> resolution_row option" where
  "find_resolution d input = List.find (\<lambda>r. rs_input r = input) (db_resolutions d)"

definition save_resolution :: "resolution_row \<Rightarrow> db \<Rightarrow> db res" where
  "save_resolution row d =
     (if list_ex (\<lambda>r. rs_id r = rs_id row \<or> rs_input r = rs_input row) (db_resolutions d)
         \<or> find_op d (rs_id row) = None \<or> find_op d (rs_input row) = None \<or> \<not> event_exists d (rs_event row)
      then Inl constraint_failed else Inr (d\<lparr> db_resolutions := db_resolutions d @ [row] \<rparr>))"

end
