(* ===== verification/Machines.thy ===== *)
theory Machines
  imports Main
begin

section \<open>State machines\<close>

text \<open>
  The contract of a component that is a step relation on states: an invariant every step preserves, and
  an order on states that steps only climb.  The components interpret these locales on their own step
  relations, and state their reachability properties over the facts proved once here.
\<close>

locale machine =
  fixes step :: "'s \<Rightarrow> 's \<Rightarrow> bool"
    and inv :: "'s \<Rightarrow> bool"
  assumes inv_step: "step s t \<Longrightarrow> inv s \<Longrightarrow> inv t"
begin

lemma inv_steps: "step\<^sup>*\<^sup>* s t \<Longrightarrow> inv s \<Longrightarrow> inv t"
  by (induction rule: rtranclp_induct) (auto dest: inv_step)

end

locale monotone_machine = machine +
  fixes le :: "'s \<Rightarrow> 's \<Rightarrow> bool"
  assumes le_refl: "le s s"
    and le_trans: "le s t \<Longrightarrow> le t u \<Longrightarrow> le s u"
    and le_step: "step s t \<Longrightarrow> inv s \<Longrightarrow> le s t"
begin

lemma le_steps: "step\<^sup>*\<^sup>* s t \<Longrightarrow> inv s \<Longrightarrow> le s t"
proof (induction rule: rtranclp_induct)
  case (step t u)
  then show ?case using inv_steps le_step le_trans by blast
qed (rule le_refl)

end

end
