(* ===== verification/PacketFeed.thy ===== *)
theory PacketFeed
  imports PacketJournal Machines
begin

section \<open>The feed is one gap-free history\<close>

text \<open>
  The specification of the outgoing feed: for every event one append-only history of rows numbered from
  one, of which the archive holds the front and the live table the rest.  Publishing appends to it,
  archiving only moves the border, and a page is a slice of it.
\<close>

subsection \<open>Sorting rows that arrive in order\<close>

lemma insort_key_snoc: "f a \<le> f x \<Longrightarrow> insort_key f a (ys @ [x]) = insort_key f a ys @ [x]"
  by (induction ys) auto

lemma sort_key_snoc: "\<forall>y \<in> set xs. f y \<le> f x \<Longrightarrow> sort_key f (xs @ [x]) = sort_key f xs @ [x]"
  by (induction xs) (auto simp: insort_key_snoc)

lemma sort_key_append:
  "sorted (map f ys) \<Longrightarrow> \<forall>x \<in> set xs. \<forall>y \<in> set ys. f x \<le> f y \<Longrightarrow> sort_key f (xs @ ys) = sort_key f xs @ ys"
proof (induction ys rule: rev_induct)
  case (snoc y ys)
  then have "sort_key f ((xs @ ys) @ [y]) = sort_key f (xs @ ys) @ [y]"
    by (intro sort_key_snoc) (auto simp: sorted_append)
  with snoc show ?case by (auto simp: sorted_append)
qed simp

lemma sort_key_map: "sort_key f (map g xs) = map g (sort_key (\<lambda>x. f (g x)) xs)"
proof (induction xs)
  case (Cons x xs)
  have "insort_key f (g x) (map g ys) = map g (insort_key (\<lambda>x. f (g x)) x ys)" for ys
    by (induction ys) auto
  with Cons show ?case by simp
qed simp

lemma filter_upto_le: "filter (\<lambda>i. i \<le> k) [a..b] = [a..min k b]" for a b k :: int
proof (induction a b rule: upto.induct)
  case (1 a b)
  then show ?case by (cases "a \<le> b") (auto simp: upto.simps [of a] min_def)
qed

lemma filter_upto_gt: "a - 1 \<le> k \<Longrightarrow> filter (\<lambda>i. k < i) [a..b] = [k + 1..b]" for a b k :: int
proof (induction a b rule: upto.induct)
  case (1 a b)
  show ?case
  proof (cases "a \<le> b")
    case True
    show ?thesis
    proof (cases "k < a")
      case True
      with 1 have "k = a - 1" by simp
      then show ?thesis by (simp add: filter_id_conv)
    next
      case False
      with 1 True show ?thesis by (simp add: upto.simps [of a b])
    qed
  qed (use 1 in simp)
qed

subsection \<open>The history of an event\<close>

definition live_rows :: "db \<Rightarrow> string \<Rightarrow> feed_row list" where
  "live_rows d e = sort_key fr_sequence (filter (\<lambda>f. fr_event f = e) (db_feed d))"

definition archived_rows :: "db \<Rightarrow> string \<Rightarrow> archive_row list" where
  "archived_rows d e = sort_key fr_sequence (filter (\<lambda>f. fr_event f = e) (db_archive d))"

definition history :: "db \<Rightarrow> string \<Rightarrow> feed_row list" where
  "history d e = map feed_row.truncate (archived_rows d e) @ live_rows d e"

definition feed_first :: "db \<Rightarrow> string \<Rightarrow> int" where
  "feed_first d e = (case find_head d e of None \<Rightarrow> 1 | Some h \<Rightarrow> hd_first h)"

definition feed_inv :: "db \<Rightarrow> bool" where
  "feed_inv d \<longleftrightarrow> distinct (map hd_event (db_heads d))
     \<and> (\<forall>e. 1 \<le> feed_first d e \<and> feed_first d e \<le> feed_head d e + 1
          \<and> map fr_sequence (live_rows d e) = [feed_first d e..feed_head d e]
          \<and> map fr_sequence (archived_rows d e) = [1..feed_first d e - 1])"

lemma feed_invD:
  assumes "feed_inv d"
  shows "distinct (map hd_event (db_heads d))" "1 \<le> feed_first d e" "feed_first d e \<le> feed_head d e + 1"
    "map fr_sequence (live_rows d e) = [feed_first d e..feed_head d e]"
    "map fr_sequence (archived_rows d e) = [1..feed_first d e - 1]"
  using assms by (auto simp: feed_inv_def)

lemma truncate_sequence [simp]: "fr_sequence (feed_row.truncate f) = fr_sequence f"
  by (simp add: feed_row.truncate_def)

lemma upto_join: "i \<le> j \<Longrightarrow> j \<le> k + 1 \<Longrightarrow> [i..j - 1] @ [j..k] = [i..k]"
  by (cases "j = k + 1") (simp_all flip: upto_split1)

lemma history_sequence: "feed_inv d \<Longrightarrow> map fr_sequence (history d e) = [1..feed_head d e]"
  using feed_invD(2-5) [of d e] by (simp add: history_def o_def upto_join)

lemma find_head_event: "find_head d e = Some h \<Longrightarrow> hd_event h = e"
  by (auto simp: find_head_def dest: find_Some_iff')

lemma feed_bounds_inv: "feed_inv d \<Longrightarrow> feed_bounds d e = Inr (feed_head d e, feed_first d e)"
  using feed_invD(2,3) [of d e] by (auto simp: feed_bounds_def feed_head_def feed_first_def split: option.split)

subsection \<open>Publishing\<close>

lemma find_append: "List.find p (xs @ ys) = (case List.find p xs of None \<Rightarrow> List.find p ys | Some x \<Rightarrow> Some x)"
  by (induction xs) auto

lemma find_update_where:
  "(\<And>x. p (f x) = p x) \<Longrightarrow> List.find p (update_where q f xs) = map_option (\<lambda>x. if q x then f x else x) (List.find p xs)"
  by (induction xs) (auto simp: update_where_def)

lemma ensure_head_Inr:
  assumes "ensure_head e d = Inr d1" "feed_inv d"
  shows "feed_inv d1" "find_head d1 e \<noteq> None" "db_feed d1 = db_feed d" "db_archive d1 = db_archive d"
    "feed_head d1 x = feed_head d x" "feed_first d1 x = feed_first d x" "db_events d1 = db_events d"
proof -
  have fh: "find_head d1 x = (case find_head d x of Some h \<Rightarrow> Some h
      | None \<Rightarrow> if x = e then Some \<lparr> hd_event = e, hd_last = 0, hd_first = 1 \<rparr> else None)" for x
    using assms(1) by (auto simp: ensure_head_def find_head_def find_append split: if_split_asm option.split)
  have "e \<notin> hd_event ` set (db_heads d)" if "find_head d e = None"
    using that by (auto simp: find_head_def find_None_iff)
  then have "distinct (map hd_event (db_heads d1))"
    using assms(1) feed_invD(1) [OF assms(2)] by (auto simp: ensure_head_def split: if_split_asm)
  moreover have "db_feed d1 = db_feed d" "db_archive d1 = db_archive d" "db_events d1 = db_events d"
    using assms(1) by (auto simp: ensure_head_def split: if_split_asm)
  moreover have "feed_head d1 x = feed_head d x" "feed_first d1 x = feed_first d x" for x
    by (simp_all add: feed_head_def feed_first_def fh split: option.split)
  moreover have "find_head d1 e \<noteq> None" by (simp add: fh split: option.split)
  ultimately have *: "find_head d1 e \<noteq> None \<and> db_feed d1 = db_feed d \<and> db_archive d1 = db_archive d
      \<and> distinct (map hd_event (db_heads d1)) \<and> db_events d1 = db_events d
      \<and> (\<forall>x. feed_head d1 x = feed_head d x \<and> feed_first d1 x = feed_first d x)"
    by blast
  then show "feed_inv d1"
    using assms(2) by (simp add: feed_inv_def live_rows_def archived_rows_def)
  from * show "find_head d1 e \<noteq> None" "db_feed d1 = db_feed d" "db_archive d1 = db_archive d"
    "feed_head d1 x = feed_head d x" "feed_first d1 x = feed_first d x" "db_events d1 = db_events d" by blast+
qed

lemma append_feed_Inr:
  assumes "append_feed row d = Inr d'" "feed_inv d"
  shows "feed_inv d'"
    "history d' e = history d e @ (if e = fr_event row then [row\<lparr> fr_sequence := feed_head d e + 1 \<rparr>] else [])"
    "feed_head d' e = (if e = fr_event row then feed_head d e + 1 else feed_head d e)"
    "feed_first d' e = feed_first d e" "db_archive d' = db_archive d"
proof -
  let ?k = "fr_event row"
  from assms(1) obtain d1 where en: "ensure_head ?k d = Inr d1"
    and d': "d' = d1\<lparr> db_feed := db_feed d1 @ [row\<lparr> fr_sequence := feed_head d1 ?k + 1 \<rparr>],
        db_heads := update_where (\<lambda>h. hd_event h = ?k) (\<lambda>h. h\<lparr> hd_last := feed_head d1 ?k + 1 \<rparr>) (db_heads d1) \<rparr>"
    by (auto simp: append_feed_def res_simps Let_def split: if_split_asm)
  note en' = ensure_head_Inr [OF en assms(2)]
  let ?row = "row\<lparr> fr_sequence := feed_head d ?k + 1 \<rparr>"
  have heads: "feed_head d' e = (if e = ?k then feed_head d e + 1 else feed_head d e)"
    "feed_first d' e = feed_first d e" for e
  proof -
    have fh: "find_head d' e = map_option (\<lambda>h. if hd_event h = ?k then h\<lparr> hd_last := feed_head d1 ?k + 1 \<rparr> else h)
        (find_head d1 e)"
      by (simp add: d' find_head_def find_update_where)
    show "feed_head d' e = (if e = ?k then feed_head d e + 1 else feed_head d e)" "feed_first d' e = feed_first d e"
      using fh en'(2) en'(5,6) [of e] find_head_event [of d1 e]
      by (cases "find_head d1 e"; force simp: feed_head_def feed_first_def)+
  qed
  have inv: "map fr_sequence (live_rows d e) = [feed_first d e..feed_head d e]" for e
    using feed_invD [OF assms(2)] by simp
  have bound: "\<forall>f \<in> set (filter (\<lambda>f. fr_event f = ?k) (db_feed d)). fr_sequence f \<le> fr_sequence ?row"
  proof
    fix f assume "f \<in> set (filter (\<lambda>f. fr_event f = ?k) (db_feed d))"
    then have "fr_sequence f \<in> set (map fr_sequence (live_rows d ?k))" by (simp add: live_rows_def)
    then show "fr_sequence f \<le> fr_sequence ?row" unfolding inv by simp
  qed
  have live: "live_rows d' e = live_rows d e @ (if e = ?k then [?row] else [])" for e
    using sort_key_snoc [OF bound] en'(3,5) by (simp add: d' live_rows_def)
  have arch: "archived_rows d' e = archived_rows d e" for e
    using en'(4) by (simp add: d' archived_rows_def)
  show "db_archive d' = db_archive d" using en'(4) by (simp add: d')
  show "feed_head d' e = (if e = ?k then feed_head d e + 1 else feed_head d e)" "feed_first d' e = feed_first d e"
    by (rule heads)+
  show "history d' e = history d e @ (if e = ?k then [row\<lparr> fr_sequence := feed_head d e + 1 \<rparr>] else [])"
    by (simp add: history_def live arch)
  have "distinct (map hd_event (db_heads d'))"
    using feed_invD(1) [OF en'(1)] by (simp add: d' map_update_where)
  moreover have "1 \<le> feed_first d' e \<and> feed_first d' e \<le> feed_head d' e + 1
      \<and> map fr_sequence (live_rows d' e) = [feed_first d' e..feed_head d' e]
      \<and> map fr_sequence (archived_rows d' e) = [1..feed_first d' e - 1]" for e
  proof (cases "e = ?k")
    case True
    have "[feed_first d ?k..feed_head d ?k + 1] = [feed_first d ?k..feed_head d ?k] @ [feed_head d ?k + 1]"
      using feed_invD(3) [OF assms(2), of ?k] upto_rec2 [of "feed_first d ?k" "feed_head d ?k + 1"] by simp
    then show ?thesis using feed_invD(2,3,5) [OF assms(2), of ?k] inv [of ?k] True by (simp add: heads live arch)
  next
    case False
    then show ?thesis using feed_invD(2-5) [OF assms(2), of e] by (simp add: heads live arch)
  qed
  ultimately show "feed_inv d'" by (simp add: feed_inv_def)
qed

subsection \<open>Archiving\<close>

lemma sorted_split: "sorted (map f xs) \<Longrightarrow> xs = filter (\<lambda>x. f x \<le> k) xs @ filter (\<lambda>x. k < f x) xs"
  for k :: "'b :: linorder"
proof (induction xs)
  case (Cons x xs)
  show ?case
  proof (cases "f x \<le> k")
    case False
    with Cons.prems have "\<forall>y \<in> set xs. k < f y" by force
    with False show ?thesis by (simp add: filter_id_conv not_le)
  qed (use Cons in simp)
qed simp

lemma archive_rows_Inr:
  "archive_rows at n fs rows = Inr rows' \<Longrightarrow> rows' = rows @ map (archived_row at) fs"
  by (induction at n fs rows arbitrary: rows' rule: archive_rows.induct) (auto split: if_split_asm)

lemma truncate_archived_row [simp]: "feed_row.truncate (archived_row at f) = f"
  by (cases f) (simp add: archived_row_def feed_row.truncate_def)

lemma archived_row_fields [simp]:
  "fr_event (archived_row at f) = fr_event f" "fr_sequence (archived_row at f) = fr_sequence f"
  "fr_id (archived_row at f) = fr_id f" "fr_operation (archived_row at f) = fr_operation f"
  by (simp_all add: archived_row_def)

lemma archive_prefix_Inr:
  assumes "archive_prefix event through at d = Inr (d', n, next)" "feed_inv d"
  shows "feed_inv d'" "history d' e = history d e" "feed_head d' e = feed_head d e"
    "feed_first d' e = (if e = event then through + 1 else feed_first d e)"
    "n = through - feed_first d event + 1" "next = through + 1"
proof -
  let ?last = "feed_head d event" and ?first = "feed_first d event"
  note inv = feed_invD [OF assms(2)]
  have rg: "?first \<le> through" "through \<le> ?last"
    and go: "archive_range event ?first ?last through at d = Inr (d', n, next)"
    using assms(1) by (simp_all add: archive_prefix_def feed_bounds_inv [OF assms(2)] split: if_split_asm)
  have go': "bind_res (archive_rows at ?first (archive_batch event ?first through d) (db_archive d)) (\<lambda>rows.
      bind_res (archive_commit event ?first ?last through rows d) (\<lambda>d1.
      Inr (d1, int (length (archive_batch event ?first through d)), through + 1))) = Inr (d', n, next)"
    and len: "int (length (archive_batch event ?first through d)) = through - ?first + 1"
    using go by (simp_all only: archive_range_def Let_def split: if_split_asm) simp_all
  obtain rows where
    ar: "archive_rows at ?first (archive_batch event ?first through d) (db_archive d) = Inr rows"
    and cm: "archive_commit event ?first ?last through rows d = Inr d'"
    and nx: "n = int (length (archive_batch event ?first through d))" "next = through + 1"
    using go' by (auto simp only: res_simps sum.inject prod.inject)
  have one: "count_where (head_at event ?first ?last) (db_heads d) = 1"
    and d': "d' = d\<lparr> db_archive := rows, db_feed := filter (\<lambda>f. \<not> in_range event ?first through f) (db_feed d),
        db_heads := update_where (head_at event ?first ?last) (\<lambda>h. h\<lparr> hd_first := through + 1 \<rparr>) (db_heads d) \<rparr>"
    using cm by (simp_all add: archive_commit_def split: if_split_asm)
  let ?batch = "archive_batch event ?first through d"
  have rows: "rows = db_archive d @ map (archived_row at) ?batch" by (rule archive_rows_Inr [OF ar])
  have fh: "find_head d' e = map_option (\<lambda>h. if e = event then h\<lparr> hd_first := through + 1 \<rparr> else h) (find_head d e)" for e
  proof -
    have "find_head d' e = map_option (\<lambda>h. if hd_event h = event \<and> hd_first h = ?first \<and> hd_last h = ?last
        then h\<lparr> hd_first := through + 1 \<rparr> else h) (find_head d e)"
      by (simp add: d' find_head_def find_update_where head_at_def)
    then show ?thesis
      by (cases "find_head d e") (auto simp: feed_first_def feed_head_def dest: find_head_event)
  qed
  have some: "find_head d event \<noteq> None"
  proof
    assume "find_head d event = None"
    then have "\<forall>h \<in> set (db_heads d). hd_event h \<noteq> event" by (auto simp: find_head_def find_None_iff)
    then have "count_where (head_at event ?first ?last) (db_heads d) = 0" by (auto simp: head_at_def)
    with one show False by simp
  qed
  have heads: "feed_head d' e = feed_head d e" "feed_first d' e = (if e = event then through + 1 else feed_first d e)" for e
    using some by (auto simp: feed_head_def feed_first_def fh split: option.split)
  have seq: "fr_sequence f \<in> {feed_first d e..feed_head d e}" if "f \<in> set (db_feed d)" "fr_event f = e" for f e
  proof -
    have "fr_sequence f \<in> set (map fr_sequence (live_rows d e))" using that by (simp add: live_rows_def)
    then show ?thesis using inv(4) [of e] by simp
  qed
  have batch: "?batch = filter (\<lambda>f. fr_sequence f \<le> through) (live_rows d event)"
    unfolding live_rows_def archive_batch_def filter_sort filter_filter
    by (rule arg_cong [where f = "sort_key fr_sequence"], rule filter_cong [OF refl])
      (use seq in \<open>auto simp: in_range_def\<close>)
  have live: "live_rows d' e = (if e = event then filter (\<lambda>f. through < fr_sequence f) (live_rows d e) else live_rows d e)" for e
    unfolding live_rows_def filter_sort filter_filter d'
    by (auto intro!: arg_cong [where f = "sort_key fr_sequence"] filter_cong simp: in_range_def dest: seq)
  have batch_seq: "map fr_sequence ?batch = [?first..through]"
    using inv(4) [of event] rg
    by (simp add: batch filter_map [symmetric, unfolded o_def, where P = "\<lambda>i. i \<le> through" and f = fr_sequence]
      filter_upto_le)
  have live_seq: "map fr_sequence (filter (\<lambda>f. through < fr_sequence f) (live_rows d event)) = [through + 1..?last]"
    using inv(4) [of event] rg
    by (simp add: filter_map [symmetric, unfolded o_def, where P = "\<lambda>i. through < i" and f = fr_sequence] filter_upto_gt)
  have arch: "archived_rows d' e = archived_rows d e @ (if e = event then map (archived_row at) ?batch else [])" for e
  proof -
    have ev: "filter (\<lambda>f. fr_event f = e) ?batch = (if e = event then ?batch else [])"
      by (auto simp: filter_id_conv filter_empty_conv in_range_def archive_batch_def)
    show ?thesis
    proof (cases "e = event")
      case True
      have "archived_rows d' e = sort_key fr_sequence (filter (\<lambda>f. fr_event f = event) (db_archive d) @ map (archived_row at) ?batch)"
        using ev True by (simp add: archived_rows_def d' rows filter_map o_def)
      also have "\<dots> = archived_rows d event @ map (archived_row at) ?batch"
        unfolding archived_rows_def
      proof (rule sort_key_append)
        show "sorted (map fr_sequence (map (archived_row at) ?batch))"
          by (simp add: o_def archive_batch_def)
        have "fr_sequence x < ?first" if "x \<in> set (filter (\<lambda>f. fr_event f = event) (db_archive d))" for x
        proof -
          have "fr_sequence x \<in> set (map fr_sequence (archived_rows d event))"
            using that by (simp add: archived_rows_def)
          then show ?thesis using inv(5) [of event] by simp
        qed
        moreover have "?first \<le> fr_sequence y" if "y \<in> set (map (archived_row at) ?batch)" for y
          using that by (auto simp: in_range_def archive_batch_def)
        ultimately show "\<forall>x\<in>set (filter (\<lambda>f. fr_event f = event) (db_archive d)).
            \<forall>y\<in>set (map (archived_row at) ?batch). fr_sequence x \<le> fr_sequence y" by fastforce
      qed
      finally show ?thesis using True by simp
    next
      case False
      then show ?thesis using ev by (simp add: archived_rows_def d' rows filter_map o_def)
    qed
  qed
  have "sorted (map fr_sequence (live_rows d event))" by (simp add: live_rows_def)
  then have split_live: "live_rows d event = ?batch @ filter (\<lambda>f. through < fr_sequence f) (live_rows d event)"
    unfolding batch by (rule sorted_split)
  have "distinct (map hd_event (db_heads d'))" using inv(1) by (simp add: d' map_update_where)
  moreover have "1 \<le> feed_first d' e \<and> feed_first d' e \<le> feed_head d' e + 1
      \<and> map fr_sequence (live_rows d' e) = [feed_first d' e..feed_head d' e]
      \<and> map fr_sequence (archived_rows d' e) = [1..feed_first d' e - 1]" for e
  proof (cases "e = event")
    case True
    have "[1..?first - 1] @ [?first..through] = [1..through]"
      using upto_join [of 1 ?first through] inv(2) [of event] rg by simp
    then show ?thesis
      using True rg inv(2,5) [of event] live_seq batch_seq by (simp add: heads live arch o_def)
  next
    case False
    then show ?thesis using inv(2-5) [of e] by (simp add: heads live arch)
  qed
  ultimately show "feed_inv d'" by (simp add: feed_inv_def)
  show "history d' e = history d e"
    using split_live by (simp add: history_def arch live o_def)
  show "feed_head d' e = feed_head d e" "feed_first d' e = (if e = event then through + 1 else feed_first d e)"
    by (rule heads)+
  show "n = through - ?first + 1" "next = through + 1" using nx len by simp_all
qed

subsection \<open>Everything that happens to a feed\<close>

inductive feed_step :: "db \<Rightarrow> db \<Rightarrow> bool" where
  publish: "publish_operation op outcome code changes at d = Inr d' \<Longrightarrow> feed_step d d'"
| server_change: "publish_server_change event key source changes at d = Inr d' \<Longrightarrow> feed_step d d'"
| relay: "relay_action event a at d = Inr d' \<Longrightarrow> feed_step d d'"
| compact: "compact_feed event keep execute at d = Inr (d', r) \<Longrightarrow> feed_step d d'"

lemma publish_operation_cases:
  assumes "publish_operation op outcome code changes at d = Inr d'"
  obtains "d' = d" | "append_feed (publish_row op outcome code changes at) d = Inr d'" "\<not> published d (op_id op)"
proof (cases "unpublished_outcome op outcome \<or> published d (op_id op)")
  case True
  with assms have "d' = d" by (auto simp: publish_operation_def split: if_split_asm)
  then show ?thesis by (rule that(1))
next
  case False
  with assms have "append_feed (publish_row op outcome code changes at) d = Inr d'" by (simp add: publish_operation_def)
  with False show ?thesis by (simp add: that(2))
qed

lemma relay_action_cases:
  assumes "relay_action event a at d = Inr d'"
  obtains "d' = d" | "append_feed (relay_row event a at) d = Inr d'" "List.find (\<lambda>f. fr_id f = act_id a) (db_feed d) = None"
proof (cases "List.find (\<lambda>f. fr_id f = act_id a) (db_feed d)")
  case None
  with assms have "append_feed (relay_row event a at) d = Inr d'" by (simp add: relay_action_def)
  with None show ?thesis by (rule that(2)[rotated])
next
  case (Some f)
  with assms have "d' = d" by (simp add: relay_action_def split: if_split_asm)
  then show ?thesis by (rule that(1))
qed

lemma compact_feed_cases:
  assumes "compact_feed event keep execute at d = Inr (d', r)" "feed_inv d"
  obtains "d' = d"
  | through where "archive_prefix event through at d = Inr (d', through - feed_first d event + 1, through + 1)"
      "through \<le> feed_head d event - keep"
proof -
  let ?c = "feed_head d event - keep - feed_first d event + 1"
  let ?t = "feed_first d event + min ?c 100 - 1"
  from assms consider "d' = d" | n m where "archive_prefix event ?t at d = Inr (d', n, m)" "n = min ?c 100" "m = ?t + 1"
    by (auto simp: compact_feed_def feed_bounds_inv Let_def res_simps split: if_split_asm)
  then show thesis
  proof cases
    case 2
    moreover have "?t \<le> feed_head d event - keep" by simp
    moreover have "min ?c 100 = ?t - feed_first d event + 1" by simp
    ultimately show thesis using that(2) [of ?t] by simp
  qed (rule that(1))
qed

lemma append_feed_extends:
  "append_feed row d = Inr d' \<Longrightarrow> feed_inv d \<Longrightarrow> feed_inv d' \<and> (\<exists>new. history d' e = history d e @ new)"
  using append_feed_Inr(1,2) by blast

lemma keep_extends: "feed_inv d \<Longrightarrow> feed_inv d \<and> (\<exists>new. history d e = history d e @ new)"
  by simp

lemma feed_step_inv:
  assumes "feed_step d d'" "feed_inv d"
  shows "feed_inv d' \<and> (\<exists>new. history d' e = history d e @ new)"
  using assms(1)
proof cases
  case (publish op outcome code changes at)
  then show ?thesis
    by (cases rule: publish_operation_cases) (simp_all add: assms(2) append_feed_extends)
next
  case (server_change event key source changes at)
  then show ?thesis
    by (simp add: publish_server_change_def append_feed_extends assms(2) split: if_split_asm)
next
  case (relay event a at)
  then show ?thesis
    by (cases rule: relay_action_cases) (simp_all add: assms(2) append_feed_extends)
next
  case (compact event keep execute at r)
  from this(1) assms(2) show ?thesis
  proof (cases rule: compact_feed_cases)
    case (2 through)
    then show ?thesis using archive_prefix_Inr(1,2) [OF 2(1) assms(2)] by simp
  qed (simp add: assms(2))
qed

definition extends :: "db \<Rightarrow> db \<Rightarrow> bool" where
  "extends d d' \<longleftrightarrow> (\<forall>e. \<exists>new. history d' e = history d e @ new)"

interpretation feed: monotone_machine feed_step feed_inv extends
proof (unfold_locales, goal_cases)
  case (1 s t)
  then show ?case using feed_step_inv by blast
next
  case (2 s)
  then show ?case by (simp add: extends_def)
next
  case (3 s t u)
  then show ?case unfolding extends_def by (metis append.assoc)
next
  case (4 s t)
  then show ?case unfolding extends_def using feed_step_inv by blast
qed

text \<open>
  C7. However publishing, server changes, relayed site actions and compaction follow each other, the feed
  of every event stays numbered without a gap from one to its head, archive first and live rows after,
  and what was once in it is never changed or dropped: the old history is a prefix of the new.
\<close>

theorem feed_history_append_only:
  assumes "feed_step\<^sup>*\<^sup>* d d'" and "feed_inv d"
  shows "map fr_sequence (history d' e) = [1..feed_head d' e] \<and> take (length (history d e)) (history d' e) = history d e"
proof -
  obtain new where "history d' e = history d e @ new"
    using feed.le_steps [OF assms] by (auto simp: extends_def)
  then show ?thesis using history_sequence [OF feed.inv_steps [OF assms], of e] by simp
qed

subsection \<open>Pages\<close>

lemma filter_gt_drop:
  "map f xs = [a..b] \<Longrightarrow> a - 1 \<le> k \<Longrightarrow> filter (\<lambda>x. k < f x) xs = drop (nat (k - a + 1)) xs" for k :: int
proof (induction xs arbitrary: a)
  case (Cons x xs)
  then have "a \<le> b" by (cases "a \<le> b") auto
  with Cons.prems have "f x = a" "map f xs = [a + 1..b]" by (simp_all add: upto.simps [of a b])
  with Cons show ?case
  proof (cases "k < a")
    case True
    with Cons.prems have k: "k = a - 1" by simp
    have "\<forall>y \<in> set xs. a < f y"
    proof
      fix y assume "y \<in> set xs"
      then have "f y \<in> set (map f xs)" by simp
      then show "a < f y" unfolding \<open>map f xs = [a + 1..b]\<close> by simp
    qed
    then have "filter (\<lambda>y. a - 1 < f y) xs = xs" by (fastforce simp: filter_id_conv)
    then show ?thesis using k \<open>f x = a\<close> by simp
  next
    case False
    then have "nat (k - a + 1) = Suc (nat (k - (a + 1) + 1))" by simp
    with False Cons.IH [OF \<open>map f xs = [a + 1..b]\<close>] \<open>f x = a\<close> show ?thesis by simp
  qed
qed simp

lemma list_feed_slice:
  assumes "feed_inv d" "feed_first d e - 1 \<le> c"
  shows "list_feed d e c limit = take limit (drop (nat c) (history d e))"
proof -
  have "list_feed d e c limit = take limit (filter (\<lambda>f. c < fr_sequence f) (live_rows d e))"
    by (simp add: list_feed_def live_rows_def filter_sort conj_commute)
  also have "filter (\<lambda>f. c < fr_sequence f) (live_rows d e) = drop (nat (c - feed_first d e + 1)) (live_rows d e)"
    by (rule filter_gt_drop [OF feed_invD(4) [OF assms(1)] assms(2)])
  also have "length (archived_rows d e) = nat (feed_first d e - 1)"
    using arg_cong [OF feed_invD(5) [OF assms(1)], of length e] by simp
  then have "drop (nat (c - feed_first d e + 1)) (live_rows d e) = drop (nat c) (history d e)"
    using assms(2) feed_invD(2) [OF assms(1), of e] by (simp add: history_def flip: nat_diff_distrib) (simp add: algebra_simps)
  finally show ?thesis .
qed

lemma number_rows_upto: "map fr_sequence rows = [n + 1..m] \<Longrightarrow> n \<le> m \<Longrightarrow> number_rows n rows = Inr m"
proof (induction rows arbitrary: n)
  case Nil
  then show ?case by simp
next
  case (Cons f rows)
  then have "n + 1 \<le> m" by (cases "n + 1 \<le> m") auto
  with Cons.prems have "fr_sequence f = n + 1" "map fr_sequence rows = [n + 1 + 1..m]"
    by (simp_all add: upto.simps [of "n + 1" m])
  with Cons.IH [of "n + 1"] \<open>n + 1 \<le> m\<close> show ?case by simp
qed

lemma history_slice_sequence:
  assumes "feed_inv d" "0 \<le> c" "c \<le> feed_head d e"
  shows "map fr_sequence (take n (drop (nat c) (history d e))) = [c + 1..min (feed_head d e) (c + int n)]"
proof -
  have d: "drop k [a..b] = [a + int k..b]" for k and a b :: int
  proof (induction k arbitrary: a)
    case (Suc k)
    then show ?case by (cases "a \<le> b") (simp_all add: upto.simps [of a b] algebra_simps del: upto.simps)
  qed simp
  have t: "take k [a..b] = [a..min b (a + int k - 1)]" for k and a b :: int
  proof (induction k arbitrary: a)
    case (Suc k)
    show ?case
    proof (cases "a \<le> b")
      case True
      then show ?thesis
        using Suc [of "a + 1"] upto_rec1 [of a b] upto_rec1 [of a "min b (a + int k)"] by (simp add: algebra_simps)
    qed simp
  qed simp
  show ?thesis using assms(2)
    by (simp add: drop_map [symmetric] take_map [symmetric] history_sequence [OF assms(1)] d t algebra_simps)
qed

definition scope_of :: "db \<Rightarrow> string \<Rightarrow> string" where
  "scope_of d e = (case find_scope d e of None \<Rightarrow> [] | Some s \<Rightarrow> sc_scope s)"

lemma feed_page_rows:
  assumes "feed_inv d" "parse_cursor_text after = Some c" "1 \<le> limit" "limit \<le> 100" "scope_of d e = scope"
    "feed_first d e - 1 \<le> c" "c \<le> feed_head d e"
  shows "feed_page_of d e scope after limit =
    Inr \<lparr> fe_scope = scope,
          fe_cursor = \<lparr> cur_after = after, cur_next = format_int (min (feed_head d e) (c + int limit)),
                        cur_head = format_int (feed_head d e), cur_more = (c + int limit < feed_head d e) \<rparr>,
          fe_rows = take limit (drop (nat c) (history d e)) \<rparr>"
proof -
  have c0: "0 \<le> c" using feed_invD(2) [OF assms(1), of e] assms(6) by simp
  have rows: "list_feed d e c limit = take limit (drop (nat c) (history d e))"
    by (rule list_feed_slice [OF assms(1,6)])
  have "number_rows c (list_feed d e c limit) = Inr (min (feed_head d e) (c + int limit))"
    unfolding rows
    by (rule number_rows_upto [OF history_slice_sequence [OF assms(1) c0 assms(7)]]) (use assms(7) in simp)
  moreover have "min (feed_head d e) (c + int limit) < feed_head d e \<longleftrightarrow> c + int limit < feed_head d e" by auto
  ultimately show ?thesis
    using assms(2-7) rows
    by (simp add: feed_page_of_def feed_bounds_inv [OF assms(1)] scope_of_def)
qed

text \<open>
  A page of the feed: for a tablet whose cursor is neither behind the retained rows nor ahead of the
  head, \<^verbatim>\<open>PacketIssuanceFeedPage\<close> always answers, with exactly the rows after the cursor up to the limit,
  the cursor behind the last of them, and \<open>hasMore\<close> telling whether rows are left; so following the
  cursor reads the history once, without a gap or a repetition, and a page with rows left moves on.
\<close>

theorem feed_page_is_slice:
  assumes "feed_inv d" and "parse_cursor_text after = Some c" and "1 \<le> limit" and "limit \<le> 100"
    and "scope_of d e = scope" and "feed_first d e - 1 \<le> c" and "c \<le> feed_head d e"
  shows "\<exists>page. feed_page_of d e scope after limit = Inr page
    \<and> fe_rows page = take limit (drop (nat c) (history d e))
    \<and> cur_next (fe_cursor page) = format_int (c + int (length (fe_rows page)))
    \<and> (cur_more (fe_cursor page) \<longleftrightarrow> drop (nat c + limit) (history d e) \<noteq> [])
    \<and> (c < feed_head d e \<longrightarrow> fe_rows page \<noteq> [])"
proof -
  have c0: "0 \<le> c" using feed_invD(2) [OF assms(1), of e] assms(6) by simp
  have h0: "0 \<le> feed_head d e" using feed_invD(2,3) [OF assms(1), of e] by simp
  have len: "length (history d e) = nat (feed_head d e)"
    using arg_cong [OF history_sequence [OF assms(1)], of length e] by simp
  have n: "min (feed_head d e) (c + int limit) = c + int (length (take limit (drop (nat c) (history d e))))"
    using c0 assms(7) by (simp add: len min_def) arith
  have m: "c + int limit < feed_head d e \<longleftrightarrow> drop (nat c + limit) (history d e) \<noteq> []"
    using c0 h0 by (simp add: len) arith
  have r: "c < feed_head d e \<longrightarrow> take limit (drop (nat c) (history d e)) \<noteq> []"
    using c0 assms(3) by (simp add: len) arith
  show ?thesis using feed_page_rows [OF assms] n m r by simp
qed

subsection \<open>Retention\<close>

text \<open>
  Compaction is invisible in the history and respects the retention: no row of the history changes,
  at most one hundred rows move to the archive, nothing but a prefix does, and the newest \<open>keep\<close> rows stay
  readable for the tablets.
\<close>

theorem compaction_keeps_history:
  assumes "compact_feed event keep execute at d = Inr (d', r)" and "feed_inv d"
  shows "feed_inv d' \<and> (\<forall>e. history d' e = history d e)
    \<and> feed_first d event \<le> feed_first d' event
    \<and> (feed_first d' event = feed_first d event \<or> feed_first d' event \<le> feed_head d event - keep + 1)
    \<and> feed_first d' event \<le> feed_first d event + 100"
  using assms
proof (cases rule: compact_feed_cases)
  case 1
  then show ?thesis using assms(2) by simp
next
  case (2 through)
  note ar = archive_prefix_Inr [OF 2(1) assms(2)]
  have "through \<le> feed_first d event + 99" "feed_first d event \<le> through"
    using 2(1) by (simp_all add: archive_prefix_def feed_bounds_inv [OF assms(2)] split: if_split_asm)
  then show ?thesis using ar(1,2,4) 2(2) by simp
qed

subsection \<open>Publishing once\<close>

lemma append_feed_published: "append_feed row d = Inr d' \<Longrightarrow> fr_operation row = Some k \<Longrightarrow> published d' k"
  by (auto simp: append_feed_def published_def res_simps Let_def split: if_split_asm)

definition publications :: "db \<Rightarrow> string \<Rightarrow> nat" where
  "publications d k = count_where (\<lambda>f. fr_operation f = Some k) (db_feed d)
     + count_where (\<lambda>f. fr_operation f = Some k) (db_archive d)"

lemma publications_0: "publications d k = 0 \<longleftrightarrow> \<not> published d k"
  by (auto simp: publications_def published_def list_ex_iff)

lemma append_feed_rows:
  assumes "append_feed row d = Inr d'"
  shows "\<exists>n. db_feed d' = db_feed d @ [row\<lparr> fr_sequence := n \<rparr>]" "db_archive d' = db_archive d"
  using assms by (auto simp: append_feed_def ensure_head_def res_simps Let_def split: if_split_asm)

text \<open>
  C8. An operation is published at most once by \<^verbatim>\<open>PublishPacketOperation\<close>, be its row still in the feed or
  already archived: publishing it again is a no-op, and no publication adds a second row for it.
\<close>

theorem publish_operation_once:
  assumes "publish_operation op outcome code changes at d = Inr d'"
  shows "publish_operation op outcome code' changes' at' d' = Inr d'
    \<and> (publications d (op_id op) \<le> 1 \<longrightarrow> publications d' (op_id op) \<le> 1)"
  using assms
proof (cases rule: publish_operation_cases)
  case 1
  with assms have "publish_operation op outcome code changes at d = Inr d" by simp
  moreover have "append_feed row d \<noteq> Inr d" for row using append_feed_rows(1) [of row d d] by auto
  ultimately have "unpublished_outcome op outcome \<or> published d (op_id op)"
    by (auto simp: publish_operation_def split: if_split_asm)
  with 1 show ?thesis by (auto simp: publish_operation_def)
next
  case 2
  then have "published d' (op_id op)" by (auto intro: append_feed_published simp: publish_row_def)
  moreover have "publications d (op_id op) = 0" using 2(2) by (simp add: publications_0)
  moreover have "publications d' (op_id op) = publications d (op_id op) + 1"
    using append_feed_rows [OF 2(1)] by (auto simp: publications_def count_where_Cons publish_row_def)
  ultimately show ?thesis by (simp add: publish_operation_def)
qed

subsection \<open>Relaying an archived operation\<close>

lemma archive_rows_blocked:
  "f \<in> set fs \<Longrightarrow> \<exists>r \<in> set rows. fr_id r = fr_id f \<Longrightarrow> archive_rows at n fs rows \<noteq> Inr rows'"
proof (induction at n fs rows arbitrary: rows' rule: archive_rows.induct)
  case (2 at n g fs rows)
  show ?case
  proof (cases "f = g")
    case True
    with "2.prems" have "\<not> archive_allowed rows (archived_row at g)"
      by (force simp: archive_allowed_def list_all_iff)
    then show ?thesis by simp
  next
    case False
    with "2.prems" have "f \<in> set fs" "\<exists>r\<in>set (rows @ [archived_row at g]). fr_id r = fr_id f" by auto
    from "2.IH" [OF _ _ this] show ?thesis by simp
  qed
qed simp

lemma archive_prefix_blocked:
  assumes "feed_inv d" "f \<in> set (db_feed d)" "fr_event f = event" "fr_sequence f \<le> through"
    "r \<in> set (db_archive d)" "fr_id r = fr_id f"
  shows "archive_prefix event through at d \<noteq> Inr x"
proof
  assume x: "archive_prefix event through at d = Inr x"
  let ?b = "archive_batch event (feed_first d event) through d"
  have "fr_sequence f \<in> set (map fr_sequence (live_rows d event))" using assms(2,3) by (simp add: live_rows_def)
  then have "feed_first d event \<le> fr_sequence f" unfolding feed_invD(4) [OF assms(1)] by simp
  with assms(2-4) have "f \<in> set ?b" by (simp add: archive_batch_def in_range_def)
  then have "archive_rows at (feed_first d event) ?b (db_archive d) \<noteq> Inr rows" for rows
    by (rule archive_rows_blocked) (use assms(5,6) in blast)
  then show False using x
    by (cases "archive_rows at (feed_first d event) ?b (db_archive d)")
      (auto simp add: archive_prefix_def feed_bounds_inv [OF assms(1)] archive_range_def Let_def split: if_split_asm)
qed

text \<open>
  \<^verbatim>\<open>RelayPacketSiteAction\<close> looks for an action only among the live rows.  When the site feed returns an
  action this server published itself and has archived since, a second row with the same action id is
  appended, and from then on no compaction that reaches this row can succeed, because the archive
  already holds the id.
\<close>

theorem relay_republishes_archived:
  assumes "feed_inv d" and "relay_action event a at d = Inr d'"
    and "\<forall>f \<in> set (db_feed d). fr_id f \<noteq> act_id a"
    and "r \<in> set (db_archive d)" and "fr_id r = act_id a"
  shows "history d' event = history d event @ [(relay_row event a at)\<lparr> fr_sequence := feed_head d event + 1 \<rparr>]
    \<and> (\<forall>through at' x. feed_head d' event \<le> through \<longrightarrow> archive_prefix event through at' d' \<noteq> Inr x)"
proof -
  have none: "List.find (\<lambda>f. fr_id f = act_id a) (db_feed d) = None"
    using assms(3) by (simp add: find_None_iff)
  then have ap: "append_feed (relay_row event a at) d = Inr d'" using assms(2) by (simp add: relay_action_def)
  note ap' = append_feed_Inr [OF ap assms(1)]
  have ev: "fr_event (relay_row event a at) = event" "fr_id (relay_row event a at) = act_id a"
    by (simp_all add: relay_row_def)
  let ?row = "(relay_row event a at)\<lparr> fr_sequence := feed_head d event + 1 \<rparr>"
  have h: "history d' event = history d event @ [?row]" using ap'(2) [of event] ev by simp
  obtain n where feed: "db_feed d' = db_feed d @ [(relay_row event a at)\<lparr> fr_sequence := n \<rparr>]"
    using append_feed_rows(1) [OF ap] by blast
  let ?f = "(relay_row event a at)\<lparr> fr_sequence := n \<rparr>"
  have mem: "?f \<in> set (db_feed d')" "fr_event ?f = event" using feed ev by simp_all
  then have "fr_sequence ?f \<in> set (map fr_sequence (live_rows d' event))" by (simp only: live_rows_def) force
  then have "fr_sequence ?f \<le> feed_head d' event" unfolding feed_invD(4) [OF ap'(1)] by simp
  then have "archive_prefix event through at' d' \<noteq> Inr x" if "feed_head d' event \<le> through" for through at' x
    by (intro archive_prefix_blocked [OF ap'(1) mem, where r = r]) (use that assms(4,5) ap'(5) ev in simp_all)
  with h show ?thesis by blast
qed

subsection \<open>Concrete instances\<close>

text \<open>An event with an issue published as row one, and the same after the row was archived.\<close>

definition w_db :: db where
  "w_db = \<lparr> db_events = [\<lparr> ev_id = ''e'', ev_race_age = 0 \<rparr>], db_races = [], db_categories = [],
     db_race_categories = [], db_members = [], db_results = [], db_logs = [], db_clubs = [],
     db_scopes = [\<lparr> sc_event = ''e'', sc_scope = ''site:1:e'', sc_baseline = ''b'', sc_source = ''s'', sc_installed = 1, sc_cursor = ''0'' \<rparr>],
     db_regs = [], db_ops = [], db_heads = [], db_feed = [], db_archive = [], db_site_actions = [], db_site_regs = [],
     db_resolutions = [], db_origins = [], db_rebases = [], db_dirty = False \<rparr>"

definition w_row :: "int \<Rightarrow> string \<Rightarrow> feed_row" where
  "w_row n k = (publish_row w_op ''applied'' None (op_changes w_op) 5)\<lparr> fr_sequence := n, fr_id := k, fr_operation := Some k \<rparr>"

definition w_two :: db where
  "w_two = w_db\<lparr> db_heads := [\<lparr> hd_event = ''e'', hd_last = 2, hd_first = 1 \<rparr>],
     db_feed := [w_row 1 w_uuid, w_row 2 ''k''] \<rparr>"

definition w_kept :: db where
  "w_kept = w_db\<lparr> db_heads := [\<lparr> hd_event = ''e'', hd_last = 2, hd_first = 2 \<rparr>],
     db_feed := [w_row 2 ''k''], db_archive := [archived_row 9 (w_row 1 w_uuid)] \<rparr>"

definition w_action :: feed_action where
  "w_action = \<lparr> act_id = w_uuid, act_kind = ''operation'', act_sequence = ''4'', act_recorded = ''x'',
     act_source = ''pwa.packet_issuance'', act_outcome = ''applied'', act_code = None, act_operation = Some w_op,
     act_changes = map full_change (op_changes w_op), act_canonical = ''{}'' \<rparr>"

lemmas w_feed_defs = w_db_def w_row_def w_two_def w_kept_def publish_row_def archived_row_def

lemma w_op_event: "op_event w_op = ''e''"
  by (simp add: op_event_def w_op_def mk_change_def w_source_def)

lemma w_two_inv: "feed_inv w_two"
  unfolding feed_inv_def
  by (auto simp: w_feed_defs feed_first_def feed_head_def find_head_def live_rows_def archived_rows_def w_op_event upto.simps)

lemma w_kept_inv: "feed_inv w_kept"
  unfolding feed_inv_def
  by (auto simp: w_feed_defs feed_first_def feed_head_def find_head_def live_rows_def archived_rows_def w_op_event upto.simps)

lemma w_compact: "compact_feed ''e'' 1 True 9 w_two =
  Inr (w_kept, \<lparr> rt_head = 2, rt_first = 2, rt_candidate = 1, rt_processed = 1, rt_through = 1, rt_executed = True \<rparr>)"
proof -
  have "feed_bounds w_two ''e'' = Inr (2, 1)" by (simp add: feed_bounds_def find_head_def w_two_def)
  moreover have "archive_batch ''e'' 1 1 w_two = [w_row 1 w_uuid]"
    by (simp add: archive_batch_def w_two_def in_range_def w_row_def publish_row_def w_op_event)
  moreover have "db_archive w_two = []" by (simp add: w_two_def w_db_def)
  ultimately show ?thesis
    by (simp add: compact_feed_def archive_prefix_def archive_range_def archive_allowed_def archive_commit_def
        head_at_def count_where_Cons update_where_def in_range_def w_row_def publish_row_def w_op_event w_two_def w_kept_def Let_def)
qed

theorem feed_history_append_only_witness:
  "map fr_sequence (history w_kept ''e'') = [1..feed_head w_kept ''e''] \<and> take (length (history w_two ''e'')) (history w_kept ''e'') = history w_two ''e''"
  using feed_history_append_only [OF r_into_rtranclp [where r = feed_step and x = w_two and y = w_kept] w_two_inv]
    feed_step.compact [OF w_compact] by blast

theorem compaction_keeps_history_witness:
  "feed_first w_kept ''e'' \<le> feed_first w_two ''e'' + 100"
  using compaction_keeps_history [OF w_compact w_two_inv] by simp

theorem feed_page_is_slice_witness:
  "\<exists>page. feed_page_of w_kept ''e'' ''site:1:e'' (format_int 1) 5 = Inr page
    \<and> fe_rows page = take 5 (drop 1 (history w_kept ''e''))"
proof -
  have c: "parse_cursor_text (format_int 1) = Some 1"
    using parse_format_int [of 64 1] by (simp add: parse_cursor_text_def)
  have "scope_of w_kept ''e'' = ''site:1:e''" by (simp add: scope_of_def find_scope_def w_kept_def w_db_def)
  moreover have "feed_first w_kept ''e'' = 2" "feed_head w_kept ''e'' = 2"
    by (simp_all add: feed_first_def feed_head_def find_head_def w_kept_def)
  ultimately show ?thesis using feed_page_is_slice [OF w_kept_inv c, of 5 "''e''"] by auto
qed

theorem publish_operation_once_witness:
  "\<exists>d'. publish_operation w_op ''applied'' None (op_changes w_op) 5 w_db = Inr d' \<and> publications d' w_uuid \<le> 1
     \<and> publish_operation w_op ''applied'' None [] 6 d' = Inr d'"
proof -
  have e: "ensure_head ''e'' w_db = Inr (w_db\<lparr> db_heads := [\<lparr> hd_event = ''e'', hd_last = 0, hd_first = 1 \<rparr>] \<rparr>)"
    by (simp add: ensure_head_def find_head_def event_exists_def w_db_def)
  have "\<exists>d'. publish_operation w_op ''applied'' None (op_changes w_op) 5 w_db = Inr d'"
    by (simp add: publish_operation_def unpublished_outcome_def published_def append_feed_def e publish_row_def w_op_event
        feed_row_allowed_def feed_kinds_def feed_outcomes_def event_exists_def Let_def)
      (simp add: w_db_def w_op_def zero_command_def)
  then obtain d' where d': "publish_operation w_op ''applied'' None (op_changes w_op) 5 w_db = Inr d'" by blast
  have "publications w_db (op_id w_op) = 0" "op_id w_op = w_uuid" by (simp_all add: publications_def w_db_def w_op_def)
  with publish_operation_once [OF d', of None "[]" 6] d' show ?thesis by auto
qed

theorem relay_republishes_archived_witness:
  "\<exists>d'. relay_action ''e'' w_action 7 w_kept = Inr d'
    \<and> history d' ''e'' = history w_kept ''e'' @ [(relay_row ''e'' w_action 7)\<lparr> fr_sequence := feed_head w_kept ''e'' + 1 \<rparr>]"
proof -
  have e: "ensure_head ''e'' w_kept = Inr w_kept" by (simp add: ensure_head_def find_head_def w_kept_def)
  have n: "\<forall>f \<in> set (db_feed w_kept). fr_id f \<noteq> act_id w_action"
    by (simp add: w_kept_def w_row_def w_action_def w_uuid_def)
  then have f: "List.find (\<lambda>f. fr_id f = act_id w_action) (db_feed w_kept) = None" by (simp add: find_None_iff)
  have al: "feed_row_allowed w_kept ((relay_row ''e'' w_action 7)\<lparr> fr_sequence := 3 \<rparr>)"
    by (simp add: feed_row_allowed_def relay_row_def feed_kinds_def feed_outcomes_def event_exists_def w_kept_def w_row_def
        publish_row_def w_action_def w_uuid_def w_op_event) (simp add: w_db_def)
  have "feed_head w_kept ''e'' = 2" "fr_event (relay_row ''e'' w_action 7) = ''e''"
    by (simp_all add: feed_head_def find_head_def w_kept_def relay_row_def)
  with f al have "\<exists>d'. relay_action ''e'' w_action 7 w_kept = Inr d'"
    by (simp add: relay_action_def append_feed_def e Let_def)
  then obtain d' where d': "relay_action ''e'' w_action 7 w_kept = Inr d'" by blast
  have "archived_row 9 (w_row 1 w_uuid) \<in> set (db_archive w_kept)" "fr_id (archived_row 9 (w_row 1 w_uuid)) = act_id w_action"
    by (simp_all add: w_kept_def w_row_def w_action_def)
  from relay_republishes_archived [OF w_kept_inv d' n this] d' show ?thesis by blast
qed

end
