(* ===== verification/PacketReceiver.thy ===== *)
theory PacketReceiver
  imports PacketFeed
begin

section \<open>Receiving tablet operations\<close>

text \<open>
  \<^verbatim>\<open>service/packet_issuance.go\<close>, \<^verbatim>\<open>packet_issuance_numbers.go\<close> and \<^verbatim>\<open>packet_issuance_return.go\<close>: a batch of
  operations of one tablet connection is received one by one, each in its own transaction.  Every branch of
  the source ends in a call of \<open>persist\<close>; the model first computes the branch taken, its verdict (the database
  with the projected rows, the outcome, its code and the changes), and then persists it.  Parameters: \<open>sha\<close>, the
  hexadecimal SHA-256, \<open>age_on\<close>, the age computation of timing-core, and \<open>at\<close>, the clock.  A transaction that
  fails is rolled back, so its result is the error alone.  The text of a wrapped error is not modelled.
\<close>

record connection =
  con_event :: string
  con_scope :: string
  con_origin :: string

type_synonym verdict = "db \<times> string \<times> string \<times> change list"

subsection \<open>Rows\<close>

definition packet_code :: "string \<Rightarrow> string option" where
  "packet_code code = (if code = [] then None
     else Some (if source_code_pattern code then code else ''transition_review_required''))"

definition receipt_of :: "operation \<Rightarrow> string \<Rightarrow> string \<Rightarrow> string option \<Rightarrow> bool \<Rightarrow> receipt" where
  "receipt_of op hash outcome code known =
     \<lparr> rcp_operation = op_id op, rcp_hash = hash, rcp_outcome = outcome, rcp_known = known, rcp_code = code \<rparr>"

definition persist ::
  "operation \<Rightarrow> string \<Rightarrow> bool \<Rightarrow> int \<Rightarrow> verdict \<Rightarrow> (db \<times> receipt) res" where
  "persist op hash known at v =
     (let (d, outcome, code, changes) = v in
      bind_res (save_operation op hash outcome (packet_code code) at known d) (\<lambda>d1.
      bind_res (publish_operation op outcome (packet_code code) changes at d1) (\<lambda>d2.
      Inr (d2, receipt_of op hash outcome (packet_code code) known))))"

definition lookup_operation :: "db \<Rightarrow> string \<Rightarrow> (string \<times> operation) option" where
  "lookup_operation d k = map_option (\<lambda>o'. (or_outcome o', or_op o')) (find_op d k)"

text \<open>The chip of a row whose number is taken away is forgotten.\<close>

definition forgets_chip :: "operation \<Rightarrow> change \<Rightarrow> bool" where
  "forgets_chip op ch \<longleftrightarrow> cmd_type (op_command op) = ''clear_number''
     \<or> (cmd_type (op_command op) = ''assign_reserve'' \<and> cmd_return (op_command op) = Some False
        \<and> chg_reg ch = cmd_reg (op_command op))"

definition change_category ::
  "(string \<Rightarrow> string \<Rightarrow> bool \<Rightarrow> int) \<Rightarrow> change \<Rightarrow> member \<Rightarrow> db \<Rightarrow> string option res" where
  "change_category age_on ch m d =
     (if reg_person (chg_before ch) \<noteq> reg_person (chg_after ch) \<or> reg_race (chg_before ch) \<noteq> reg_race (chg_after ch)
      then resolve_category age_on d (packet_member (chg_after ch)) else Inr (mb_category m))"

definition project_change ::
  "(string \<Rightarrow> string \<Rightarrow> bool \<Rightarrow> int) \<Rightarrow> operation \<Rightarrow> change \<Rightarrow> db \<Rightarrow> db res" where
  "project_change age_on op ch d =
     bind_res (get_member d (chg_reg ch)) (\<lambda>m.
     let d1 = (if forgets_chip op ch then restore_rfid (chg_reg ch) None d else d) in
     bind_res (change_category age_on ch m d1) (\<lambda>cat.
     put_registration (chg_after ch) [op_id op] cat d1))"

definition project_changes ::
  "(string \<Rightarrow> string \<Rightarrow> bool \<Rightarrow> int) \<Rightarrow> string \<Rightarrow> operation \<Rightarrow> change list \<Rightarrow> db \<Rightarrow> db res" where
  "project_changes age_on event op changes d =
     bind_res (club_projection d event changes) (\<lambda>clubs.
     bind_res (fold_res (project_change age_on op) changes d) (apply_clubs event clubs))"

text \<open>The branches for commands on existing rows.\<close>

definition settle_changes ::
  "(string \<Rightarrow> string \<Rightarrow> bool \<Rightarrow> int) \<Rightarrow> string \<Rightarrow> operation \<Rightarrow> db \<Rightarrow> verdict res" where
  "settle_changes age_on event op d =
     (case get_registrations d event (map chg_reg (op_changes op)) of
        Inl e \<Rightarrow> if e = no_rows then Inr (d, ''rejected'', ''registration_not_found'', []) else Inl e
      | Inr current \<Rightarrow>
          (case packet_merge_decision current op (lookup_operation d) of (decision, code, changes) \<Rightarrow>
             if decision = ''applied''
             then bind_res (project_changes age_on event op changes d) (\<lambda>d1. Inr (d1, decision, code, changes))
             else Inr (d, decision, code, changes)))"

definition race_of_event :: "db \<Rightarrow> string \<Rightarrow> string \<Rightarrow> bool" where
  "race_of_event d event race \<longleftrightarrow> (case get_race d race of Inl _ \<Rightarrow> False | Inr r \<Rightarrow> rc_event r = event)"

subsection \<open>Numbers\<close>

definition number_code :: "db \<Rightarrow> string \<Rightarrow> command \<Rightarrow> string" where
  "number_code d event c = (if cmd_bib c = [] then [] else check_number d event (cmd_reg c) (cmd_bib c))"

definition settle_creation ::
  "(string \<Rightarrow> string \<Rightarrow> bool \<Rightarrow> int) \<Rightarrow> string \<Rightarrow> operation \<Rightarrow> db \<Rightarrow> verdict res" where
  "settle_creation age_on event op d =
     (let c = op_command op in
      if get_member d (cmd_reg c) \<noteq> Inl no_rows then Inr (d, ''conflict'', ''registration_already_exists'', [])
      else if \<not> race_of_event d event (cmd_race c) then Inr (d, ''rejected'', ''invalid_target'', [])
      else case cmd_person c of None \<Rightarrow> Inl ''nil pointer dereference''
      | Some p \<Rightarrow>
          if per_birth p = [] \<or> per_gender p = [] then Inr (d, ''rejected'', ''person_details_required'', [])
          else bind_res (empty_registration c) (\<lambda>empty.
            case packet_merge_decision [empty] op (lookup_operation d) of (decision, code, changes) \<Rightarrow>
              if decision = ''applied'' then
                (case changes of [] \<Rightarrow> Inl ''index out of range''
                 | ch # _ \<Rightarrow>
                     bind_res (resolve_category age_on d (packet_member (chg_after ch))) (\<lambda>cat.
                     bind_res (insert_registration (chg_after ch) [op_id op] cat d) (\<lambda>d1.
                     Inr (d1, decision, code, changes))))
              else Inr (d, decision, code, changes)))"

definition settle_assignment :: "string \<Rightarrow> operation \<Rightarrow> db \<Rightarrow> verdict res" where
  "settle_assignment event op d =
     (case get_registrations d event [cmd_reg (op_command op)] of
        Inl e \<Rightarrow> if e = no_rows then Inr (d, ''rejected'', ''registration_not_found'', []) else Inl e
      | Inr current \<Rightarrow>
          if reg_timing (hd current) then Inr (d, ''conflict'', ''timing_review_required'', [])
          else case packet_merge_decision current op (lookup_operation d) of (decision, code, changes) \<Rightarrow>
            if decision = ''applied'' then
              (case changes of [] \<Rightarrow> Inl ''index out of range''
               | ch # _ \<Rightarrow>
                   bind_res (get_member d (reg_id (chg_after ch))) (\<lambda>m.
                   bind_res (put_registration (chg_after ch) [op_id op] (mb_category m) d) (\<lambda>d1.
                   Inr (d1, decision, code, changes))))
            else Inr (d, decision, code, changes))"

definition settle_number ::
  "(string \<Rightarrow> string \<Rightarrow> bool \<Rightarrow> int) \<Rightarrow> string \<Rightarrow> operation \<Rightarrow> db \<Rightarrow> verdict res" where
  "settle_number age_on event op d =
     (if number_code d event (op_command op) \<noteq> []
      then Inr (d, ''conflict'', number_code d event (op_command op), [])
      else if cmd_type (op_command op) = ''create_registration'' then settle_creation age_on event op d
      else settle_assignment event op d)"

subsection \<open>Returning a number to the reserve\<close>

definition store_return :: "operation \<Rightarrow> change \<Rightarrow> change \<Rightarrow> db \<Rightarrow> db res" where
  "store_return op source target d =
     (let c = op_command op in
      bind_res (get_member d (cmd_reg c)) (\<lambda>m.
      bind_res (put_registration (chg_after source) [op_id op] (mb_category m) d) (\<lambda>d1.
      bind_res (insert_registration (chg_after target) [op_id op] None (restore_rfid (cmd_reg c) None d1)) (\<lambda>d2.
      Inr (restore_rfid (cmd_target c) (mb_rfid m) d2)))))"

definition settle_return :: "string \<Rightarrow> operation \<Rightarrow> db \<Rightarrow> verdict res" where
  "settle_return event op d =
     (let c = op_command op; code = check_number d event (cmd_reg c) (cmd_bib c) in
      if code \<noteq> [] then Inr (d, ''conflict'', code, [])
      else if \<not> race_of_event d event (cmd_race c) then Inr (d, ''rejected'', ''invalid_target'', [])
      else case get_registrations d event [cmd_reg c] of
        Inl e \<Rightarrow> if e = no_rows then Inr (d, ''rejected'', ''registration_not_found'', []) else Inl e
      | Inr current \<Rightarrow>
          if get_member d (cmd_target c) \<noteq> Inl no_rows then Inr (d, ''conflict'', ''registration_already_exists'', [])
          else bind_res (empty_reserve c (hd current)) (\<lambda>empty.
            case packet_merge_decision (current @ [empty]) op (lookup_operation d) of (decision, code, changes) \<Rightarrow>
              if decision = ''applied'' then
                (case changes of source # target # _ \<Rightarrow>
                     bind_res (store_return op source target d) (\<lambda>d1. Inr (d1, decision, code, changes))
                 | _ \<Rightarrow> Inl ''index out of range'')
              else Inr (d, decision, code, changes)))"

subsection \<open>One operation\<close>

definition dependency_ids :: "operation \<Rightarrow> string list" where
  "dependency_ids op = rev (remdups (rev (concat (map base_heads (op_bases op)))))"

definition settle ::
  "(string \<Rightarrow> string \<Rightarrow> bool \<Rightarrow> int) \<Rightarrow> connection \<Rightarrow> operation \<Rightarrow> db \<Rightarrow> verdict res" where
  "settle age_on con op d =
     (let event = op_event op; kind = cmd_type (op_command op) in
      if event \<noteq> con_event con then Inr (d, ''rejected'', ''event_mismatch'', [])
      else if op_id op \<in> set (dependency_ids op) then Inr (d, ''rejected'', ''dependency_cycle'', [])
      else if \<not> dependencies_applied d event (dependency_ids op)
      then Inr (d, ''waiting_dependency'', ''dependency_missing'', [])
      else if kind = ''return_to_reserve'' then settle_return event op d
      else if kind = ''assign_number'' \<or> kind = ''create_registration'' then settle_number age_on event op d
      else if kind = ''change_race'' \<and> \<not> race_of_event d event (cmd_race (op_command op))
      then Inr (d, ''rejected'', ''invalid_target'', [])
      else settle_changes age_on event op d)"

text \<open>The identity of an operation: a receipt for one already settled, or whether it is known.\<close>

definition same_identity :: "connection \<Rightarrow> operation \<Rightarrow> string \<Rightarrow> op_row \<Rightarrow> bool" where
  "same_identity con op hash o' \<longleftrightarrow> or_hash o' = hash \<and> or_event o' = con_event con
     \<and> or_scope o' = op_scope op \<and> or_origin o' = op_origin op"

definition admit :: "connection \<Rightarrow> operation \<Rightarrow> string \<Rightarrow> db \<Rightarrow> (receipt + bool) res" where
  "admit con op hash d =
     (if op_scope op \<noteq> con_scope con \<or> op_origin op \<noteq> con_origin con then Inl ''operation_scope_conflict''
      else if scope_of d (con_event con) = [] \<or> scope_of d (con_event con) \<noteq> con_scope con
      then Inl ''operation_scope_conflict''
      else case find_op d (op_id op) of
        Some o' \<Rightarrow>
          if \<not> same_identity con op hash o' then Inl ''operation_identity_conflict''
          else if or_outcome o' \<noteq> ''waiting_dependency''
          then Inr (Inl (receipt_of op hash (or_outcome o') (or_code o') True))
          else if (case find_origin d (op_origin op) (op_sequence op) of None \<Rightarrow> False | Some w \<Rightarrow> or_id w \<noteq> op_id op)
          then Inl ''operation_sequence_conflict'' else Inr (Inr True)
      | None \<Rightarrow>
          if (case find_origin d (op_origin op) (op_sequence op) of None \<Rightarrow> False | Some w \<Rightarrow> or_id w \<noteq> op_id op)
          then Inl ''operation_sequence_conflict'' else Inr (Inr False))"

definition receive_one ::
  "(string \<Rightarrow> string) \<Rightarrow> (string \<Rightarrow> string \<Rightarrow> bool \<Rightarrow> int) \<Rightarrow> int \<Rightarrow> connection \<Rightarrow> operation \<Rightarrow> db \<Rightarrow>
     (db \<times> receipt) res" where
  "receive_one sha age_on at con op d =
     (let hash = content_hash sha op in
      bind_res (admit con op hash d) (\<lambda>a.
      case a of Inl r \<Rightarrow> Inr (d, r)
      | Inr known \<Rightarrow> bind_res (settle age_on con op d) (persist op hash known at)))"

text \<open>A batch: every operation commits on its own, the first failure ends it and keeps what was committed.\<close>

fun receive_loop ::
  "(string \<Rightarrow> string) \<Rightarrow> (string \<Rightarrow> string \<Rightarrow> bool \<Rightarrow> int) \<Rightarrow> int \<Rightarrow> connection \<Rightarrow> operation list \<Rightarrow>
     receipt list \<Rightarrow> db \<Rightarrow> db \<times> receipt list res" where
  "receive_loop sha age_on at con [] acc d = (d, Inr acc)"
| "receive_loop sha age_on at con (op # ops) acc d =
     (case receive_one sha age_on at con op d of
        Inl e \<Rightarrow> (d, Inl e)
      | Inr (d1, r) \<Rightarrow> receive_loop sha age_on at con ops (acc @ [r]) d1)"

definition receive ::
  "(string \<Rightarrow> string) \<Rightarrow> (string \<Rightarrow> string \<Rightarrow> bool \<Rightarrow> int) \<Rightarrow> int \<Rightarrow> connection \<Rightarrow> operation list \<Rightarrow>
     db \<Rightarrow> db \<times> receipt list res" where
  "receive sha age_on at con ops d =
     (if ops = [] \<or> 64 < length ops then (d, Inl ''invalid_operation_batch'')
      else receive_loop sha age_on at con ops [] d)"

end
