(* ===== verification/ReceiverLaws.thy ===== *)
theory ReceiverLaws
  imports PacketReceiver
begin

section \<open>What receiving an operation guarantees\<close>

text \<open>
  The frame of one received operation, the projection invariant \<open>roster_inv\<close> of the members table, and the
  contract of the operation journal: settled operations are immutable, redelivery repeats the receipt, and
  an operation is settled only after everything it depends on.
\<close>

subsection \<open>Steps on the roster\<close>

inductive row_step :: "db \<Rightarrow> db \<Rightarrow> bool" where
  put: "put_registration r heads cat d = Inr d' \<Longrightarrow> row_step d d'"
| insert: "insert_registration r heads cat d = Inr d' \<Longrightarrow> row_step d d'"
| delete: "delete_registration event k heads d = Inr d' \<Longrightarrow> row_step d d'"
| rfid: "row_step d (restore_rfid k v d)"
| club: "put_club event mc d = Inr d' \<Longrightarrow> row_step d d'"

definition same_books :: "db \<Rightarrow> db \<Rightarrow> bool" where
  "same_books d d' \<longleftrightarrow> db_ops d' = db_ops d \<and> db_feed d' = db_feed d \<and> db_archive d' = db_archive d
     \<and> db_heads d' = db_heads d \<and> db_scopes d' = db_scopes d \<and> db_events d' = db_events d
     \<and> db_site_actions d' = db_site_actions d \<and> db_resolutions d' = db_resolutions d \<and> db_races d' = db_races d"

lemma same_books_refl [simp]: "same_books d d"
  by (simp add: same_books_def)

lemma same_books_trans: "same_books d d' \<Longrightarrow> same_books d' d'' \<Longrightarrow> same_books d d''"
  by (simp add: same_books_def)

lemma upsert_member_books: "upsert_member d m = Inr d' \<Longrightarrow> same_books d d' \<and> db_regs d' = db_regs d"
  by (auto simp: upsert_member_def same_books_def split: if_split_asm)

lemma row_step_books: "row_step d d' \<Longrightarrow> same_books d d'"
proof (induction rule: row_step.induct)
  case (put r heads cat d d')
  then show ?case by (auto simp: put_registration_def same_books_def Let_def split: if_split_asm)
next
  case (insert r heads cat d d')
  then obtain d1 where "upsert_member d (registration_member r cat) = Inr d1" "same_books d1 d'"
    by (auto simp: insert_registration_def res_simps same_books_def split: if_split_asm)
  then show ?case using upsert_member_books same_books_trans by blast
next
  case (delete event k heads d d')
  then show ?case by (auto simp: delete_registration_def same_books_def Let_def split: if_split_asm)
next
  case (rfid d k v)
  then show ?case by (simp add: restore_rfid_def same_books_def)
next
  case (club event mc d d')
  then show ?case by (auto simp: put_club_def same_books_def res_simps split: if_split_asm)
qed

lemma row_steps_books: "row_step\<^sup>*\<^sup>* d d' \<Longrightarrow> same_books d d'"
  by (induction rule: rtranclp_induct) (auto intro: row_step_books same_books_trans)

subsection \<open>Every branch only takes such steps\<close>

definition settled :: "db \<Rightarrow> verdict \<Rightarrow> bool" where
  "settled d v \<longleftrightarrow> (case v of (d0, outcome, code, changes) \<Rightarrow>
     row_step\<^sup>*\<^sup>* d d0 \<and> (outcome \<noteq> ''applied'' \<longrightarrow> d0 = d))"

lemma settled_keep: "settled d (d, outcome, code, changes)"
  by (simp add: settled_def)

lemma settled_applied: "row_step\<^sup>*\<^sup>* d d0 \<Longrightarrow> settled d (d0, ''applied'', code, changes)"
  by (simp add: settled_def)

lemma fold_steps:
  "fold_res f xs d = Inr d' \<Longrightarrow> (\<And>x d d'. f x d = Inr d' \<Longrightarrow> row_step\<^sup>*\<^sup>* d d') \<Longrightarrow> row_step\<^sup>*\<^sup>* d d'"
proof (induction xs arbitrary: d)
  case (Cons x xs)
  then obtain d1 where "f x d = Inr d1" "fold_res f xs d1 = Inr d'" by (auto simp: res_simps)
  with Cons show ?case by (meson rtranclp_trans)
qed simp

lemma apply_clubs_steps: "apply_clubs event clubs d = Inr d' \<Longrightarrow> row_step\<^sup>*\<^sup>* d d'"
  unfolding apply_clubs_def by (erule fold_steps) (blast intro: row_step.club)

lemma project_change_steps: "project_change age_on op ch d = Inr d' \<Longrightarrow> row_step\<^sup>*\<^sup>* d d'"
proof -
  assume "project_change age_on op ch d = Inr d'"
  then obtain cat where p: "put_registration (chg_after ch) [op_id op] cat
      (if forgets_chip op ch then restore_rfid (chg_reg ch) None d else d) = Inr d'"
    by (auto simp: project_change_def res_simps Let_def)
  have "row_step\<^sup>*\<^sup>* d (if forgets_chip op ch then restore_rfid (chg_reg ch) None d else d)"
    by (simp add: r_into_rtranclp row_step.rfid)
  with row_step.put [OF p] show ?thesis by simp
qed

lemma project_changes_steps:
  assumes "project_changes age_on event op changes d = Inr d'"
  shows "row_step\<^sup>*\<^sup>* d d'"
proof -
  from assms obtain clubs d1 where "fold_res (project_change age_on op) changes d = Inr d1" "apply_clubs event clubs d1 = Inr d'"
    by (auto simp: project_changes_def res_simps)
  then show ?thesis
    using fold_steps [of "project_change age_on op" changes d d1] project_change_steps apply_clubs_steps
    by (meson rtranclp_trans)
qed

lemma store_return_steps:
  assumes "store_return op source target d = Inr d'"
  shows "row_step\<^sup>*\<^sup>* d d'"
proof -
  let ?c = "op_command op"
  from assms obtain m :: member and d1 d2 where
    "put_registration (chg_after source) [op_id op] (mb_category m) d = Inr d1"
    "insert_registration (chg_after target) [op_id op] None (restore_rfid (cmd_reg ?c) None d1) = Inr d2"
    "restore_rfid (cmd_target ?c) (mb_rfid m) d2 = d'"
    by (simp only: store_return_def res_simps Let_def sum.inject) blast
  then show ?thesis
    using row_step.put row_step.insert row_step.rfid by (meson r_into_rtranclp rtranclp.rtrancl_into_rtrancl)
qed

lemma settle_changes_settled: "ensures (settle_changes age_on event op d) (settled d)"
  unfolding settle_changes_def
  by (intro ensures_intros settled_keep) (simp add: settled_applied project_changes_steps)

lemma settle_creation_settled: "ensures (settle_creation age_on event op d) (settled d)"
  unfolding settle_creation_def
  by (intro ensures_intros settled_keep) (simp add: settled_applied row_step.insert r_into_rtranclp)

lemma settle_assignment_settled: "ensures (settle_assignment event op d) (settled d)"
  unfolding settle_assignment_def
  by (intro ensures_intros settled_keep) (simp add: settled_applied row_step.put r_into_rtranclp)

lemma settle_return_settled: "ensures (settle_return event op d) (settled d)"
  unfolding settle_return_def
  by (intro ensures_intros settled_keep) (simp add: settled_applied store_return_steps)

lemma settle_settled: "ensures (settle age_on con op d) (settled d)"
  unfolding settle_def settle_number_def
  by (intro ensures_intros settled_keep settle_changes_settled settle_creation_settled
      settle_assignment_settled settle_return_settled)

subsection \<open>Admission and the journal\<close>

lemma admit_known:
  assumes "admit con op hash d = Inr (Inl r)"
  obtains o' where "find_op d (op_id op) = Some o'" "same_identity con op hash o'" "or_outcome o' \<noteq> ''waiting_dependency''"
    "r = receipt_of op hash (or_outcome o') (or_code o') True"
  using assms unfolding admit_def by (cases "find_op d (op_id op)") (auto split: if_split_asm)

lemma admit_open:
  assumes "admit con op hash d = Inr (Inr known)"
  shows "case find_op d (op_id op) of None \<Rightarrow> \<not> known
    | Some o' \<Rightarrow> known \<and> same_identity con op hash o' \<and> or_outcome o' = ''waiting_dependency''"
  using assms unfolding admit_def by (cases "find_op d (op_id op)") (auto split: if_split_asm)

lemma admit_scope:
  assumes "admit con op hash d = Inr a"
  shows "op_scope op = con_scope con" "op_origin op = con_origin con"
    "scope_of d (con_event con) = con_scope con" "con_scope con \<noteq> []"
  using assms unfolding admit_def by (auto split: if_split_asm)

text \<open>The journal after an operation is saved.\<close>

definition saved_row :: "operation \<Rightarrow> string \<Rightarrow> string \<Rightarrow> string option \<Rightarrow> int \<Rightarrow> op_row option \<Rightarrow> op_row" where
  "saved_row op hash outcome code at prev =
     (case prev of Some o' \<Rightarrow> o'\<lparr> or_outcome := outcome, or_code := code \<rparr>
      | None \<Rightarrow> op_row_of op (op_event op) hash outcome code at)"

lemma find_op_id: "find_op d k = Some o' \<Longrightarrow> or_id o' = k \<and> o' \<in> set (db_ops d)"
  by (auto simp: find_op_def dest: find_Some_iff')

lemma save_operation_find:
  assumes "save_operation op hash outcome code at known d = Inr d'"
    and "known \<longleftrightarrow> find_op d (op_id op) \<noteq> None"
  shows "find_op d' k = (if k = op_id op then Some (saved_row op hash outcome code at (find_op d k)) else find_op d k)"
proof (cases known)
  case True
  with assms have d': "d' = d\<lparr> db_ops := update_where (\<lambda>o'. or_id o' = op_id op)
      (\<lambda>o'. o'\<lparr> or_outcome := outcome, or_code := code \<rparr>) (db_ops d) \<rparr>"
    by (simp add: save_operation_def split: if_split_asm)
  have "find_op d' k = map_option (\<lambda>o'. if or_id o' = op_id op then o'\<lparr> or_outcome := outcome, or_code := code \<rparr> else o')
      (find_op d k)"
    by (simp add: d' find_op_def find_update_where)
  with True assms(2) show ?thesis
    by (cases "find_op d k") (auto simp: saved_row_def dest: find_op_id)
next
  case False
  with assms have "insert_op (op_row_of op (op_event op) hash outcome code at) d = Inr d'"
    and none: "find_op d (op_id op) = None"
    by (simp_all add: save_operation_def)
  then have "db_ops d' = db_ops d @ [op_row_of op (op_event op) hash outcome code at]"
    by (auto simp: insert_op_def split: if_split_asm)
  then have "find_op d' k = (case find_op d k of Some o' \<Rightarrow> Some o'
      | None \<Rightarrow> if k = op_id op then Some (op_row_of op (op_event op) hash outcome code at) else None)"
    by (simp add: find_op_def find_append op_row_of_def split: option.split)
  with none show ?thesis by (auto simp: saved_row_def split: option.split)
qed

lemma save_operation_rest:
  assumes "save_operation op hash outcome code at known d = Inr d'"
  shows "\<exists>ops. d' = d\<lparr> db_ops := ops \<rparr>"
  using assms by (auto simp: save_operation_def insert_op_def split: if_split_asm)

lemma save_operation_final:
  assumes "save_operation op hash outcome code at known d = Inr d'"
    and "known \<longleftrightarrow> find_op d (op_id op) \<noteq> None" and "o' \<in> set (db_ops d)" and "or_id o' \<noteq> op_id op"
  shows "o' \<in> set (db_ops d')"
  using assms by (auto simp: save_operation_def insert_op_def in_set_update_where split: if_split_asm)

definition same_rows :: "db \<Rightarrow> db \<Rightarrow> bool" where
  "same_rows d d' \<longleftrightarrow> db_ops d' = db_ops d \<and> db_scopes d' = db_scopes d \<and> db_site_actions d' = db_site_actions d
     \<and> db_regs d' = db_regs d \<and> db_members d' = db_members d \<and> db_events d' = db_events d \<and> db_archive d' = db_archive d
     \<and> db_races d' = db_races d"

lemma append_feed_rest: "append_feed row d = Inr d' \<Longrightarrow> same_rows d d'"
  by (auto simp: append_feed_def ensure_head_def same_rows_def res_simps Let_def split: if_split_asm)

lemma publish_operation_rest: "publish_operation op outcome code changes at d = Inr d' \<Longrightarrow> same_rows d d'"
  by (erule publish_operation_cases) (simp_all add: append_feed_rest, simp add: same_rows_def)

text \<open>One received operation, decomposed.\<close>

lemma receive_one_cases:
  assumes "receive_one sha age_on at con op d = Inr (d', r)"
  obtains (known) o' where "d' = d" "find_op d (op_id op) = Some o'" "same_identity con op (content_hash sha op) o'"
      "or_outcome o' \<noteq> ''waiting_dependency''" "r = receipt_of op (content_hash sha op) (or_outcome o') (or_code o') True"
  | (settled) known d0 outcome code changes d1 where
      "admit con op (content_hash sha op) d = Inr (Inr known)"
      "settle age_on con op d = Inr (d0, outcome, code, changes)"
      "save_operation op (content_hash sha op) outcome (packet_code code) at known d0 = Inr d1"
      "publish_operation op outcome (packet_code code) changes at d1 = Inr d'"
      "r = receipt_of op (content_hash sha op) outcome (packet_code code) known"
proof -
  let ?h = "content_hash sha op"
  from assms obtain a where a: "admit con op ?h d = Inr a"
    and b: "(case a of Inl r \<Rightarrow> Inr (d, r) | Inr known \<Rightarrow> bind_res (settle age_on con op d) (persist op ?h known at)) = Inr (d', r)"
    by (auto simp: receive_one_def Let_def res_simps)
  show thesis
  proof (cases a)
    case (Inl r')
    with a obtain o' where "find_op d (op_id op) = Some o'" "same_identity con op ?h o'"
      "or_outcome o' \<noteq> ''waiting_dependency''" "r' = receipt_of op ?h (or_outcome o') (or_code o') True"
      by (blast elim: admit_known)
    with Inl b show thesis by (intro known [of o']) auto
  next
    case (Inr known)
    with b obtain v where v: "settle age_on con op d = Inr v" "persist op ?h known at v = Inr (d', r)"
      by (auto simp: res_simps)
    obtain d0 outcome code changes where v': "v = (d0, outcome, code, changes)" by (cases v)
    with v(2) obtain d1 where "save_operation op ?h outcome (packet_code code) at known d0 = Inr d1"
      "publish_operation op outcome (packet_code code) changes at d1 = Inr d'"
      "r = receipt_of op ?h outcome (packet_code code) known"
      by (auto simp: persist_def res_simps)
    with a Inr v(1) v' show thesis by (intro settled) simp_all
  qed
qed

lemma settle_effect:
  assumes "settle age_on con op d = Inr (d0, outcome, code, changes)"
  shows "row_step\<^sup>*\<^sup>* d d0 \<and> (outcome \<noteq> ''applied'' \<longrightarrow> d0 = d)"
  using ensuresD [OF settle_settled assms] by (simp add: settled_def)

subsection \<open>The journal\<close>

definition journal_inv :: "db \<Rightarrow> bool" where
  "journal_inv d \<longleftrightarrow> distinct (map or_id (db_ops d))"

lemma find_op_unique: "journal_inv d \<Longrightarrow> o' \<in> set (db_ops d) \<Longrightarrow> find_op d (or_id o') = Some o'"
  unfolding journal_inv_def find_op_def by (rule find_key_unique) simp_all

lemma save_operation_distinct:
  "save_operation op hash outcome code at known d = Inr d' \<Longrightarrow> journal_inv d \<Longrightarrow> journal_inv d'"
  by (auto simp: save_operation_def insert_op_def journal_inv_def map_update_where op_row_of_def find_op_def
      find_None_iff split: if_split_asm) blast

text \<open>The journal and the feed of the database a received operation leaves behind.\<close>

lemma receive_one_books:
  assumes "receive_one sha age_on at con op d = Inr (d', r)" "journal_inv d"
  shows "journal_inv d'" "db_scopes d' = db_scopes d" "db_site_actions d' = db_site_actions d" "db_archive d' = db_archive d"
    "set (db_feed d) \<subseteq> set (db_feed d')"
    "\<And>o'. o' \<in> set (db_ops d) \<Longrightarrow> or_outcome o' \<noteq> ''waiting_dependency'' \<Longrightarrow> o' \<in> set (db_ops d')"
proof -
  have "journal_inv d' \<and> db_scopes d' = db_scopes d \<and> db_site_actions d' = db_site_actions d \<and> db_archive d' = db_archive d
    \<and> set (db_feed d) \<subseteq> set (db_feed d')
    \<and> (\<forall>o' \<in> set (db_ops d). or_outcome o' \<noteq> ''waiting_dependency'' \<longrightarrow> o' \<in> set (db_ops d'))"
    using assms(1)
  proof (cases rule: receive_one_cases)
    case (known o')
    then show ?thesis using assms(2) by simp
  next
    case (settled known d0 outcome code changes d1)
    note b = row_steps_books [OF conjunct1 [OF settle_effect [OF settled(2)]], unfolded same_books_def]
    note pub = publish_operation_rest [OF settled(4), unfolded same_rows_def]
    obtain ops where d1: "d1 = d0\<lparr> db_ops := ops \<rparr>" using save_operation_rest [OF settled(3)] by blast
    have fop: "find_op d0 = find_op d" using b by (intro ext) (simp add: find_op_def)
    have kn: "known \<longleftrightarrow> find_op d0 (op_id op) \<noteq> None"
      using admit_open [OF settled(1)] by (cases "find_op d (op_id op)") (simp_all add: fop)
    have "journal_inv d0" using assms(2) b by (simp add: journal_inv_def)
    then have "journal_inv d'" using save_operation_distinct [OF settled(3)] pub by (simp add: journal_inv_def)
    moreover have "o' \<in> set (db_ops d')" if o': "o' \<in> set (db_ops d)" "or_outcome o' \<noteq> ''waiting_dependency''" for o'
    proof -
      have "or_id o' \<noteq> op_id op"
        using admit_open [OF settled(1)] find_op_unique [OF assms(2) o'(1)] o'(2) by auto
      then show ?thesis using save_operation_final [OF settled(3) kn] o'(1) b pub by simp
    qed
    moreover have "set (db_feed d1) \<subseteq> set (db_feed d')"
      using settled(4) by (rule publish_operation_cases) (auto dest: append_feed_rows(1))
    ultimately show ?thesis using b pub d1 by simp
  qed
  then show "journal_inv d'" "db_scopes d' = db_scopes d" "db_site_actions d' = db_site_actions d" "db_archive d' = db_archive d"
    "set (db_feed d) \<subseteq> set (db_feed d')"
    "\<And>o'. o' \<in> set (db_ops d) \<Longrightarrow> or_outcome o' \<noteq> ''waiting_dependency'' \<Longrightarrow> o' \<in> set (db_ops d')"
    by blast+
qed

inductive receive_step :: "db \<Rightarrow> db \<Rightarrow> bool" where
  "receive_one sha age_on at con op d = Inr (d', r) \<Longrightarrow> receive_step d d'"

inductive_cases receive_stepE: "receive_step d d'"

definition settled_le :: "db \<Rightarrow> db \<Rightarrow> bool" where
  "settled_le d d' \<longleftrightarrow> (\<forall>o' \<in> set (db_ops d). or_outcome o' \<noteq> ''waiting_dependency'' \<longrightarrow> o' \<in> set (db_ops d'))"

interpretation journal: monotone_machine receive_step journal_inv settled_le
  by unfold_locales (auto simp: settled_le_def elim!: receive_stepE dest: receive_one_books)

lemma receive_loop_steps: "receive_step\<^sup>*\<^sup>* d (fst (receive_loop sha age_on at con ops acc d))"
proof (induction ops arbitrary: acc d)
  case (Cons op ops)
  show ?case
  proof (cases "receive_one sha age_on at con op d")
    case (Inr x)
    obtain d1 r where x: "x = (d1, r)" by (cases x)
    with Inr have "receive_step d d1" by (auto intro: receive_step.intros)
    then show ?thesis using Inr x Cons.IH [of d1 "acc @ [r]"] by (simp add: converse_rtranclp_into_rtranclp)
  qed simp
qed simp

lemma receive_steps: "receive_step\<^sup>*\<^sup>* d (fst (receive sha age_on at con ops d))"
  by (simp add: receive_def receive_loop_steps)

text \<open>
  C10. A settled operation is never rewritten: whatever a batch contains and wherever it fails, every
  operation that was not waiting for a dependency stays in the journal exactly as it was, and operation ids
  stay unique.
\<close>

theorem receive_journal_immutable:
  assumes "journal_inv d" and "o' \<in> set (db_ops d)" and "or_outcome o' \<noteq> ''waiting_dependency''"
  shows "journal_inv (fst (receive sha age_on at con ops d)) \<and> o' \<in> set (db_ops (fst (receive sha age_on at con ops d)))"
  using journal.inv_steps [OF receive_steps assms(1)] journal.le_steps [OF receive_steps assms(1)] assms(2,3)
  by (auto simp: settled_le_def)

subsection \<open>Redelivery\<close>

lemma admit_settled:
  assumes "admit con op hash d = Inr a" "scope_of d' (con_event con) = scope_of d (con_event con)"
    "find_op d' (op_id op) = Some o'" "same_identity con op hash o'" "or_outcome o' \<noteq> ''waiting_dependency''"
  shows "admit con op hash d' = Inr (Inl (receipt_of op hash (or_outcome o') (or_code o') True))"
  using assms admit_scope [OF assms(1)] by (simp add: admit_def)

lemma receive_one_row:
  assumes "receive_one sha age_on at con op d = Inr (d', r)" "op_event op = con_event con"
  obtains o' where "find_op d' (op_id op) = Some o'" "same_identity con op (content_hash sha op) o'"
    "rcp_outcome r = or_outcome o'" "r = receipt_of op (content_hash sha op) (or_outcome o') (or_code o') (rcp_known r)"
    "\<exists>a. admit con op (content_hash sha op) d = Inr a" "db_scopes d' = db_scopes d"
  using assms(1)
proof (cases rule: receive_one_cases)
  case (known o')
  have "\<exists>a. admit con op (content_hash sha op) d = Inr a"
    using assms(1) by (auto simp: receive_one_def Let_def res_simps)
  with known show thesis by (intro that [of o']) (simp_all add: receipt_of_def)
next
  case (settled known d0 outcome code changes d1)
  let ?h = "content_hash sha op"
  note b = row_steps_books [OF conjunct1 [OF settle_effect [OF settled(2)]], unfolded same_books_def]
  note pub = publish_operation_rest [OF settled(4), unfolded same_rows_def]
  obtain ops where d1: "d1 = d0\<lparr> db_ops := ops \<rparr>" using save_operation_rest [OF settled(3)] by blast
  have fop: "find_op d0 = find_op d" using b by (intro ext) (simp add: find_op_def)
  have kn: "known \<longleftrightarrow> find_op d0 (op_id op) \<noteq> None"
    using admit_open [OF settled(1)] by (cases "find_op d (op_id op)") (simp_all add: fop)
  let ?o = "saved_row op ?h outcome (packet_code code) at (find_op d (op_id op))"
  have "find_op d' (op_id op) = Some ?o"
    using save_operation_find [OF settled(3) kn] pub by (simp add: find_op_def fop [unfolded find_op_def fun_eq_iff])
  moreover have "same_identity con op ?h ?o"
    using admit_open [OF settled(1)] assms(2)
    by (cases "find_op d (op_id op)") (simp_all add: saved_row_def same_identity_def op_row_of_def)
  moreover have "or_outcome ?o = outcome" "or_code ?o = packet_code code"
    by (cases "find_op d (op_id op)"; simp add: saved_row_def op_row_of_def)+
  ultimately show thesis
    using settled(1,5) b pub d1 by (intro that [of ?o]) (auto simp: receipt_of_def)
qed

text \<open>
  C9. Redelivery is idempotent: a tablet that sends a settled operation of its own event again, at any later clock,
  gets the receipt it got the first time, marked as known, and nothing in the database changes.  (An operation of
  another event than the connection's is stored under its own event and not found again.)
\<close>

theorem redelivery_repeats_receipt:
  assumes "receive_one sha age_on at con op d = Inr (d', r)" and "op_event op = con_event con"
    and "rcp_outcome r \<noteq> ''waiting_dependency''"
  shows "receive_one sha age_on at' con op d' = Inr (d', r\<lparr> rcp_known := True \<rparr>)"
proof -
  obtain o' a where o': "find_op d' (op_id op) = Some o'" "same_identity con op (content_hash sha op) o'"
    "rcp_outcome r = or_outcome o'" "r = receipt_of op (content_hash sha op) (or_outcome o') (or_code o') (rcp_known r)"
    "admit con op (content_hash sha op) d = Inr a" "db_scopes d' = db_scopes d"
    using assms(1,2) by (blast elim: receive_one_row)
  have "scope_of d' (con_event con) = scope_of d (con_event con)" by (simp add: scope_of_def find_scope_def o'(6))
  from admit_settled [OF o'(5) this o'(1,2)] assms(3) o'(3)
  have "admit con op (content_hash sha op) d' = Inr (Inl (receipt_of op (content_hash sha op) (or_outcome o') (or_code o') True))"
    by simp
  moreover have "r\<lparr> rcp_known := True \<rparr> = receipt_of op (content_hash sha op) (or_outcome o') (or_code o') True"
    by (subst o'(4)) (simp add: receipt_of_def)
  ultimately show ?thesis by (simp add: receive_one_def)
qed

subsection \<open>What is not applied changes no row\<close>

lemma receive_one_rows:
  assumes "receive_one sha age_on at con op d = Inr (d', r)"
  shows "\<exists>d0. row_step\<^sup>*\<^sup>* d d0 \<and> db_regs d' = db_regs d0 \<and> db_members d' = db_members d0
    \<and> (rcp_outcome r \<noteq> ''applied'' \<longrightarrow> d0 = d)"
  using assms
proof (cases rule: receive_one_cases)
  case (known o')
  then show ?thesis by blast
next
  case (settled known d0 outcome code changes d1)
  obtain ops where d1: "d1 = d0\<lparr> db_ops := ops \<rparr>" using save_operation_rest [OF settled(3)] by blast
  have "db_regs d' = db_regs d0" "db_members d' = db_members d0"
    using publish_operation_rest [OF settled(4)] d1 by (simp_all add: same_rows_def)
  then show ?thesis using settle_effect [OF settled(2)] settled(5) by (auto simp: receipt_of_def)
qed

text \<open>
  An operation that is not applied (equivalent, waiting, in conflict or rejected) leaves every
  registration and every member of the event as it was.
\<close>

theorem receive_unapplied_keeps_rows:
  assumes "receive_one sha age_on at con op d = Inr (d', r)" and "rcp_outcome r \<noteq> ''applied''"
  shows "db_regs d' = db_regs d \<and> db_members d' = db_members d"
  using receive_one_rows [OF assms(1)] assms(2) by auto

subsection \<open>Causal order\<close>

definition causal_inv :: "db \<Rightarrow> bool" where
  "causal_inv d \<longleftrightarrow> (\<forall>o' \<in> set (db_ops d). accepted_outcome (or_outcome o') \<longrightarrow>
     dependencies_applied d (or_event o') (dependency_ids (or_op o')))"

lemma dependency_applied_mono:
  assumes "dependency_applied d event k" "db_site_actions d' = db_site_actions d" "db_archive d' = db_archive d"
    "set (db_feed d) \<subseteq> set (db_feed d')"
    "\<And>o'. o' \<in> set (db_ops d) \<Longrightarrow> or_outcome o' \<noteq> ''waiting_dependency'' \<Longrightarrow> o' \<in> set (db_ops d')"
  shows "dependency_applied d' event k"
proof -
  have "accepted_outcome x \<Longrightarrow> x \<noteq> ''waiting_dependency''" for x by (auto simp: accepted_outcome_def)
  with assms show ?thesis unfolding dependency_applied_def list_ex_iff by (auto 4 4)
qed

lemma dependencies_applied_mono:
  assumes "receive_one sha age_on at con op d = Inr (d', r)" "journal_inv d" "dependencies_applied d event ks"
  shows "dependencies_applied d' event ks"
  using assms(3) dependency_applied_mono [OF _ receive_one_books(3,4,5,6) [OF assms(1,2)]]
  by (simp add: dependencies_applied_def list_all_iff)

lemma settle_dependencies:
  "settle age_on con op d = Inr (d0, outcome, code, changes) \<Longrightarrow> accepted_outcome outcome \<Longrightarrow>
   op_event op = con_event con \<and> dependencies_applied d (op_event op) (dependency_ids op)"
  unfolding settle_def Let_def by (auto simp: accepted_outcome_def split: if_split_asm)

lemma save_operation_rows:
  assumes "save_operation op hash outcome code at known d = Inr d'" "o' \<in> set (db_ops d')"
  shows "o' \<in> set (db_ops d) \<or> (\<exists>prev. o' = saved_row op hash outcome code at prev
    \<and> (case prev of None \<Rightarrow> \<not> known | Some x \<Rightarrow> known \<and> x \<in> set (db_ops d) \<and> or_id x = op_id op))"
proof (cases known)
  case True
  with assms have "o' \<in> set (update_where (\<lambda>o'. or_id o' = op_id op)
      (\<lambda>o'. o'\<lparr> or_outcome := outcome, or_code := code \<rparr>) (db_ops d))"
    by (auto simp: save_operation_def split: if_split_asm)
  then obtain x where x: "x \<in> set (db_ops d)"
    "o' = (if or_id x = op_id op then x\<lparr> or_outcome := outcome, or_code := code \<rparr> else x)"
    unfolding in_set_update_where by blast
  show ?thesis
  proof (cases "or_id x = op_id op")
    case True
    with x \<open>known\<close> have "o' = saved_row op hash outcome code at (Some x)" by (simp add: saved_row_def)
    with x(1) True \<open>known\<close> show ?thesis by (intro disjI2 exI [of _ "Some x"]) simp
  qed (use x in simp)
next
  case False
  with assms show ?thesis
    by (auto simp: save_operation_def insert_op_def saved_row_def split: if_split_asm intro!: exI [of _ None])
qed

text \<open>
  Operations are settled in causal order: once the journal only holds accepted operations whose
  dependencies are accepted, this stays so with every further operation received.  The hypothesis on the
  hash says that a waiting operation sent again under the same id and content hash is the same operation.
\<close>

theorem receive_causal:
  assumes "receive_one sha age_on at con op d = Inr (d', r)" and "journal_inv d" and "causal_inv d"
    and "\<forall>o' \<in> set (db_ops d). or_id o' = op_id op \<and> or_hash o' = content_hash sha op \<longrightarrow> or_op o' = op"
  shows "causal_inv d'"
proof -
  have mono: "dependencies_applied d event ks \<Longrightarrow> dependencies_applied d' event ks" for event ks
    by (rule dependencies_applied_mono [OF assms(1,2)])
  have "dependencies_applied d' (or_event o') (dependency_ids (or_op o'))"
    if o': "o' \<in> set (db_ops d')" "accepted_outcome (or_outcome o')" for o'
    using assms(1)
  proof (cases rule: receive_one_cases)
    case (known x)
    then show ?thesis using o' assms(3) by (simp add: causal_inv_def)
  next
    case (settled known d0 outcome code changes d1)
    let ?h = "content_hash sha op"
    have ops0: "db_ops d0 = db_ops d"
      using row_steps_books [OF conjunct1 [OF settle_effect [OF settled(2)]]] by (simp add: same_books_def)
    have "o' \<in> set (db_ops d1)" using o'(1) publish_operation_rest [OF settled(4)] by (simp add: same_rows_def)
    from save_operation_rows [OF settled(3) this] ops0 consider "o' \<in> set (db_ops d)"
      | prev where "o' = saved_row op ?h outcome (packet_code code) at prev"
        "case prev of None \<Rightarrow> \<not> known | Some x \<Rightarrow> known \<and> x \<in> set (db_ops d) \<and> or_id x = op_id op"
      unfolding ops0 by blast
    then show ?thesis
    proof cases
      case 1
      then show ?thesis using o'(2) assms(3) mono by (simp add: causal_inv_def)
    next
      case (2 prev)
      then have "accepted_outcome outcome" using o'(2) by (cases prev) (simp_all add: saved_row_def op_row_of_def)
      from settle_dependencies [OF settled(2) this]
      have dep: "op_event op = con_event con" "dependencies_applied d (op_event op) (dependency_ids op)" by blast+
      have "or_event o' = op_event op \<and> or_op o' = op"
      proof (cases prev)
        case None
        then show ?thesis using 2(1) by (simp add: saved_row_def op_row_of_def)
      next
        case (Some x)
        with 2(2) have x: "x \<in> set (db_ops d)" "or_id x = op_id op" by simp_all
        then have "same_identity con op ?h x"
          using admit_open [OF settled(1)] find_op_unique [OF assms(2) x(1)] by simp
        then show ?thesis using x assms(4) dep(1) 2(1) Some by (simp add: same_identity_def saved_row_def)
      qed
      then show ?thesis using mono dep(2) by simp
    qed
  qed
  then show ?thesis by (simp add: causal_inv_def)
qed

subsection \<open>An operation of another event\<close>

text \<open>
  An operation whose changes name another event than the connection is meant to be rejected with
  \<open>event_mismatch\<close>.  The rejected operation is however stored under its own event: if this database does not
  hold that event, the foreign key fails and the whole delivery ends in an error instead of a receipt; if it
  does, the same delivery repeated ends in an identity conflict instead of the receipt.
\<close>

theorem event_mismatch_unanswered:
  assumes "op_event op \<noteq> con_event con"
    and "admit con op (content_hash sha op) d = Inr (Inr False)"
  shows "if event_exists d (op_event op)
    then \<forall>d' r. receive_one sha age_on at con op d = Inr (d', r) \<longrightarrow>
      receive_one sha age_on at' con op d' = Inl ''operation_identity_conflict''
    else receive_one sha age_on at con op d = Inl constraint_failed"
proof -
  let ?h = "content_hash sha op"
  have set: "settle age_on con op d = Inr (d, ''rejected'', ''event_mismatch'', [])"
    using assms(1) by (simp add: settle_def)
  have none: "find_op d (op_id op) = None"
    using admit_open [OF assms(2)] by (cases "find_op d (op_id op)") simp_all
  show ?thesis
  proof (cases "event_exists d (op_event op)")
    case True
    have "receive_one sha age_on at' con op d' = Inl ''operation_identity_conflict''"
      if rec: "receive_one sha age_on at con op d = Inr (d', r)" for d' r
    proof -
      obtain d1 where sv: "save_operation op ?h ''rejected'' (packet_code ''event_mismatch'') at False d = Inr d1"
        and d': "publish_operation op ''rejected'' (packet_code ''event_mismatch'') [] at d1 = Inr d'"
        using rec set assms(2) by (auto simp: receive_one_def persist_def Let_def res_simps)
      have "d' = d1" using d' by (simp add: publish_operation_def unpublished_outcome_def)
      moreover have "find_op d1 (op_id op) = Some (op_row_of op (op_event op) ?h ''rejected'' (packet_code ''event_mismatch'') at)"
        using save_operation_find [OF sv] none by (simp add: saved_row_def)
      moreover have "scope_of d1 (con_event con) = scope_of d (con_event con)"
        using save_operation_rest [OF sv] by (auto simp: scope_of_def find_scope_def)
      ultimately show ?thesis
        using assms admit_scope [OF assms(2)]
        by (simp add: receive_one_def admit_def same_identity_def op_row_of_def)
    qed
    with True show ?thesis by simp
  next
    case False
    then have "save_operation op ?h ''rejected'' (packet_code ''event_mismatch'') at False d = Inl constraint_failed"
      by (simp add: save_operation_def insert_op_def op_row_of_def)
    with False show ?thesis using set assms(2) by (simp add: receive_one_def persist_def)
  qed
qed

end
