(* ===== verification/PacketInstall.thy ===== *)
theory PacketInstall
  imports PacketFeed
begin

section \<open>Installing the roster of an event\<close>

text \<open>
  \<^verbatim>\<open>InstallPacketIssuanceRoster\<close> and \<^verbatim>\<open>matchPacketMember\<close> of \<^verbatim>\<open>packet_issuance_store.go\<close>: the first snapshot of
  the site becomes the desk's registrations and its baseline.  It is refused once the event has any history,
  and unless every registration describes exactly the member the event export brought.
\<close>

subsection \<open>A registration and its member\<close>

definition packet_status :: "int \<Rightarrow> string" where
  "packet_status s = (if s = 1 then ''dns'' else if s = 2 then ''dnf'' else if s = 3 then ''dsq'' else ''registered'')"

definition nullable_number :: "int option \<Rightarrow> string" where
  "nullable_number n = (case n of None \<Rightarrow> [] | Some i \<Rightarrow> format_int i)"

definition normalized_bib :: "string \<Rightarrow> string" where
  "normalized_bib bib =
     (if bib = [] then [] else case parse_int 64 bib of None \<Rightarrow> bib | Some n \<Rightarrow> format_int n)"

definition nullable_text :: "string option \<Rightarrow> string" where
  "nullable_text s = (case s of None \<Rightarrow> [] | Some t \<Rightarrow> t)"

definition profile_matches :: "registration \<Rightarrow> member \<Rightarrow> bool" where
  "profile_matches r m \<longleftrightarrow>
     (case reg_person r of None \<Rightarrow> blank_text (mb_first m @ mb_last m)
      | Some p \<Rightarrow> per_first p = mb_first m \<and> per_last p = mb_last m \<and> per_gender p = nullable_text (mb_gender m)
          \<and> per_birth p = nullable_text (mb_dob m) \<and> per_team p = nullable_text (mb_team m)
          \<and> per_city p = nullable_text (mb_city m))"

definition member_matches :: "registration \<Rightarrow> member \<Rightarrow> bool" where
  "member_matches r m \<longleftrightarrow> mb_event m = reg_event r \<and> mb_race m = reg_race r
     \<and> nullable_number (mb_number m) = normalized_bib (reg_bib r) \<and> nullable_text (mb_epc m) = reg_epc r
     \<and> packet_status (mb_status m) = reg_status r \<and> profile_matches r m"

definition match_member :: "db \<Rightarrow> registration \<Rightarrow> unit res" where
  "match_member d r =
     (case List.find (\<lambda>m. mb_id m = reg_id r) (db_members d) of
        None \<Rightarrow> Inl ''packet registration is not in event export''
      | Some m \<Rightarrow> fail_if (\<not> member_matches r m) ''packet registration does not match event export'')"

subsection \<open>The installation\<close>

text \<open>The history that forbids a replacement: operations, site actions and the feed, live or archived.\<close>

definition has_history :: "db \<Rightarrow> string \<Rightarrow> bool" where
  "has_history d event \<longleftrightarrow> list_ex (\<lambda>o'. or_event o' = event) (db_ops d)
     \<or> list_ex (\<lambda>a. sa_event a = event) (db_site_actions d)
     \<or> list_ex (\<lambda>f. fr_event f = event) (db_feed d) \<or> list_ex (\<lambda>f. fr_event f = event) (db_archive d)"

fun check_rows :: "db \<Rightarrow> string \<Rightarrow> string list \<Rightarrow> registration list \<Rightarrow> unit res" where
  "check_rows d event seen [] = Inr ()"
| "check_rows d event seen (r # rs) =
     (if validate_registration r \<noteq> Inr () \<or> reg_event r \<noteq> event \<or> reg_id r \<in> set seen
      then Inl ''invalid packet issuance registration''
      else bind_res (match_member d r) (\<lambda>_. check_rows d event (reg_id r # seen) rs))"

definition clear_roster :: "string \<Rightarrow> db \<Rightarrow> db" where
  "clear_roster event d = d\<lparr> db_regs := filter (\<lambda>x. rr_event x \<noteq> event) (db_regs d),
     db_site_regs := filter (\<lambda>s. sr_event s \<noteq> event) (db_site_regs d) \<rparr>"

definition install_row :: "string \<Rightarrow> registration \<Rightarrow> db \<Rightarrow> db res" where
  "install_row event r d =
     (if reg_id r \<in> rr_id ` set (db_regs d) \<or> find_site_row d event (reg_id r) \<noteq> None then Inl constraint_failed
      else Inr (d\<lparr> db_regs := db_regs d @ [\<lparr> rr_id = reg_id r, rr_event = event, rr_value = r, rr_heads = [], rr_deleted = False \<rparr>],
                   db_site_regs := db_site_regs d @ [\<lparr> sr_event = event, sr_id = reg_id r, sr_value = r, sr_deleted = False \<rparr>] \<rparr>))"

definition save_scope :: "scope_row \<Rightarrow> db \<Rightarrow> db res" where
  "save_scope s d =
     (if list_ex (\<lambda>x. sc_event x \<noteq> sc_event s \<and> sc_scope x = sc_scope s) (db_scopes d) then Inl constraint_failed
      else if find_scope d (sc_event s) \<noteq> None
      then Inr (d\<lparr> db_scopes := update_where (\<lambda>x. sc_event x = sc_event s) (\<lambda>_. s) (db_scopes d) \<rparr>)
      else Inr (d\<lparr> db_scopes := db_scopes d @ [s] \<rparr>))"

definition installable :: "db \<Rightarrow> scope_row \<Rightarrow> registration list \<Rightarrow> unit res" where
  "installable d s rows =
     (if sc_event s = [] \<or> sc_scope s = [] \<or> sc_baseline s = [] \<or> sc_source s \<noteq> ''site''
         \<or> parse_cursor_text (sc_cursor s) = None \<or> 20000 < length rows
      then Inl ''invalid packet issuance roster''
      else if has_history d (sc_event s) then Inl ''packet issuance snapshot replacement requires rebase''
      else if count_where (\<lambda>e. ev_id e = sc_event s) (db_events d) \<noteq> 1 then Inl ''packet issuance event is not installed''
      else if count_where (\<lambda>m. mb_event m = sc_event s) (db_members d) \<noteq> length rows
      then Inl ''packet issuance roster is incomplete''
      else check_rows d (sc_event s) [] rows)"

definition install_origins :: "string \<Rightarrow> registration list \<Rightarrow> reserve_origin list option \<Rightarrow> db \<Rightarrow> db" where
  "install_origins event rows origins d =
     (case origins of None \<Rightarrow> d | Some vs \<Rightarrow> save_origins event (Some (matching_reserve_origins rows vs)) d)"

definition install_roster ::
  "scope_row \<Rightarrow> registration list \<Rightarrow> reserve_origin list option \<Rightarrow> int \<Rightarrow> db \<Rightarrow> db res" where
  "install_roster scope rows origins at d =
     (let s = scope\<lparr> sc_cursor := (if sc_cursor scope = [] then ''0'' else sc_cursor scope) \<rparr>; event = sc_event s in
      bind_res (installable d s rows) (\<lambda>_.
      bind_res (fold_res (install_row event) rows (clear_roster event d)) (\<lambda>d1.
      save_scope (s\<lparr> sc_installed := (if sc_installed s = 0 then at else sc_installed s) \<rparr>)
        (install_origins event rows origins d1))))"

end
