(* ===== verification/RosterLaws.thy ===== *)
theory RosterLaws
  imports ReceiverLaws PacketInstall
begin

section \<open>The members table mirrors the packet registrations\<close>

text \<open>
  The timing side of the desk reads the members table, packet issuance owns the registrations.  The
  invariant \<open>roster_inv\<close> says that the keys of both tables are unique and every live registration has a
  member that shows exactly its race, number, chip, status and person.
\<close>

lemma update_where_keep: "x \<in> set rows \<Longrightarrow> \<not> p x \<Longrightarrow> x \<in> set (update_where p f rows)"
  unfolding in_set_update_where by (rule bexI [of _ x]) simp_all

lemma update_where_hit: "x \<in> set rows \<Longrightarrow> p x \<Longrightarrow> f x \<in> set (update_where p f rows)"
  unfolding in_set_update_where by (rule bexI [of _ x]) simp_all

definition projects :: "registration \<Rightarrow> member \<Rightarrow> bool" where
  "projects r m \<longleftrightarrow> mb_id m = reg_id r \<and> mb_event m = reg_event r \<and> mb_race m = reg_race r
     \<and> mb_number m = bib_number (reg_bib r) \<and> nullable_text (mb_epc m) = reg_epc r
     \<and> packet_status (mb_status m) = packet_status (status_number (reg_status r)) \<and> profile_matches r m"

definition mirrored :: "member list \<Rightarrow> reg_row \<Rightarrow> bool" where
  "mirrored ms x \<longleftrightarrow> rr_id x = reg_id (rr_value x) \<and> rr_event x = reg_event (rr_value x)
     \<and> (\<not> rr_deleted x \<longrightarrow> (\<exists>m \<in> set ms. projects (rr_value x) m))"

definition roster_inv :: "db \<Rightarrow> bool" where
  "roster_inv d \<longleftrightarrow> distinct (map mb_id (db_members d)) \<and> distinct (map rr_id (db_regs d))
     \<and> (\<forall>x \<in> set (db_regs d). mirrored (db_members d) x)"

lemma roster_invD:
  assumes "roster_inv d"
  shows "distinct (map mb_id (db_members d))" "distinct (map rr_id (db_regs d))"
    "x \<in> set (db_regs d) \<Longrightarrow> mirrored (db_members d) x"
  using assms by (simp_all add: roster_inv_def)

lemma nullable_non_empty [simp]: "nullable_text (non_empty s) = s"
  by (simp add: nullable_text_def non_empty_def)

lemma blank_text_Nil [simp]: "blank_text []"
  by (simp add: blank_text_def runes_of_def)

lemma registration_member_fields [simp]:
  "mb_id (registration_member r cat) = reg_id r" "mb_event (registration_member r cat) = reg_event r"
  "mb_race (registration_member r cat) = reg_race r" "mb_epc (registration_member r cat) = non_empty (reg_epc r)"
  by (simp_all add: registration_member_def Let_def split: option.split)

lemma registration_member_category:
  "registration_member r cat = (registration_member r None)\<lparr> mb_category := cat \<rparr>"
  by (simp add: registration_member_def Let_def split: option.split)

lemma registration_member_shows:
  "mb_number (registration_member r cat) = bib_number (reg_bib r)"
  "mb_status (registration_member r cat) = status_number (reg_status r)"
  "profile_matches r (registration_member r cat)"
  by (simp_all add: registration_member_def profile_matches_def Let_def blank_member_def split: option.split)

lemma profile_matches_cong:
  "profile_matches r m \<Longrightarrow> mb_first m' = mb_first m \<Longrightarrow> mb_last m' = mb_last m \<Longrightarrow> mb_gender m' = mb_gender m
   \<Longrightarrow> mb_dob m' = mb_dob m \<Longrightarrow> mb_team m' = mb_team m \<Longrightarrow> mb_city m' = mb_city m \<Longrightarrow> profile_matches r m'"
  by (simp add: profile_matches_def split: option.split_asm)

lemma projects_member:
  "projects r ((registration_member r cat)\<lparr> mb_start_source := a, mb_start_observation := b \<rparr>)" for a b
proof -
  have "profile_matches r ((registration_member r cat)\<lparr> mb_start_source := a, mb_start_observation := b \<rparr>)"
    by (rule profile_matches_cong [OF registration_member_shows(3)]) simp_all
  then show ?thesis by (simp add: projects_def registration_member_shows)
qed

lemma projects_source: "projects r ((registration_member r cat)\<lparr> mb_start_source := a \<rparr>)"
proof -
  have "profile_matches r ((registration_member r cat)\<lparr> mb_start_source := a \<rparr>)"
    by (rule profile_matches_cong [OF registration_member_shows(3)]) simp_all
  then show ?thesis by (simp add: projects_def registration_member_shows)
qed

lemma projects_project_member:
  assumes "mb_id m = reg_id r" "mb_event m = reg_event r"
  shows "projects r (project_member r cat m)"
proof -
  have "profile_matches r (project_member r cat m)"
    by (rule profile_matches_cong [OF registration_member_shows(3) [of r cat]]) (simp_all add: project_member_def Let_def)
  then show ?thesis using assms
    by (simp add: projects_def project_member_def Let_def registration_member_shows nullable_text_def)
      (auto simp: non_empty_def split: option.split)
qed

lemma projects_id: "projects r m \<Longrightarrow> mb_id m = reg_id r \<and> mb_event m = reg_event r"
  by (simp add: projects_def)

lemma mirrored_keep:
  assumes "mirrored ms x" and "\<And>m. m \<in> set ms \<Longrightarrow> mb_id m = rr_id x \<Longrightarrow> mb_event m = rr_event x \<Longrightarrow>
    \<exists>m' \<in> set ms'. projects (rr_value x) m \<longrightarrow> projects (rr_value x) m'"
  shows "mirrored ms' x"
  using assms projects_id unfolding mirrored_def by metis

subsection \<open>Each row operation keeps the mirror\<close>

lemma put_keeps:
  assumes "put_registration r heads cat d = Inr d'" "roster_inv d"
  shows "roster_inv d'"
proof -
  let ?p = "\<lambda>m :: member. mb_id m = reg_id r \<and> mb_event m = reg_event r"
  let ?q = "\<lambda>x. rr_id x = reg_id r \<and> rr_event x = reg_event r"
  have one: "count_where ?p (db_members d) = 1"
    and d': "d' = d\<lparr> db_regs := update_where ?q (\<lambda>x. x\<lparr> rr_value := r, rr_heads := heads, rr_deleted := False \<rparr>) (db_regs d),
      db_members := update_where ?p (project_member r cat) (db_members d), db_dirty := True \<rparr>"
    using assms(1) by (simp_all add: put_registration_def Let_def split: if_split_asm)
  obtain m where m: "m \<in> set (db_members d)" "?p m"
    using one count_where_0 [of ?p "db_members d"] by (metis zero_neq_one)
  have "mirrored (db_members d') x'" if "x' \<in> set (db_regs d')" for x'
  proof -
    from that obtain x where x: "x \<in> set (db_regs d)"
      "x' = (if ?q x then x\<lparr> rr_value := r, rr_heads := heads, rr_deleted := False \<rparr> else x)"
      by (auto simp: d' in_set_update_where)
    show ?thesis
    proof (cases "?q x")
      case True
      have "project_member r cat m \<in> set (db_members d')"
        using update_where_hit [of m "db_members d" ?p "project_member r cat"] m by (simp add: d')
      with True x m(2) show ?thesis by (auto simp: mirrored_def intro: projects_project_member)
    next
      case False
      have "\<exists>m'' \<in> set (db_members d'). projects (rr_value x) m' \<longrightarrow> projects (rr_value x) m''"
        if "m' \<in> set (db_members d)" "mb_id m' = rr_id x" "mb_event m' = rr_event x" for m'
        using that False update_where_keep [of m' "db_members d" ?p "project_member r cat"]
        by (intro bexI [of _ m']) (auto simp: d')
      from mirrored_keep [OF roster_invD(3) [OF assms(2) x(1)] this]
      have "mirrored (db_members d') x" .
      with False x(2) show ?thesis by auto
    qed
  qed
  moreover have "distinct (map mb_id (db_members d'))" "distinct (map rr_id (db_regs d'))"
    using roster_invD(1,2) [OF assms(2)]
    by (simp_all add: d' map_update_where project_member_def Let_def)
  ultimately show ?thesis by (simp add: roster_inv_def)
qed

lemma insert_keeps:
  assumes "insert_registration r heads cat d = Inr d'" "roster_inv d"
  shows "roster_inv d'"
proof -
  obtain d1 where up: "upsert_member d (registration_member r cat) = Inr d1" and new: "reg_id r \<notin> rr_id ` set (db_regs d)"
    and d': "d' = d1\<lparr> db_regs := db_regs d1 @ [\<lparr> rr_id = reg_id r, rr_event = reg_event r, rr_value = r,
        rr_heads = heads, rr_deleted = False \<rparr>] \<rparr>"
    using assms(1) upsert_member_books by (auto simp: insert_registration_def res_simps split: if_split_asm)
  let ?n = "registration_member r cat"
  let ?f = "\<lambda>o' :: member. ?n\<lparr> mb_start_source := (if mb_start o' = mb_start ?n then mb_start_source o' else ''unknown''),
      mb_start_observation := (if mb_start o' = mb_start ?n then mb_start_observation o' else None) \<rparr>"
  have regs: "db_regs d1 = db_regs d" using upsert_member_books [OF up] by simp
  have members: "distinct (map mb_id (db_members d1))
    \<and> (\<exists>m \<in> set (db_members d1). projects r m)
    \<and> (\<forall>m \<in> set (db_members d). mb_id m \<noteq> reg_id r \<longrightarrow> m \<in> set (db_members d1))"
  proof (cases "member_exists d (reg_id r)")
    case True
    with up have m1: "db_members d1 = update_where (\<lambda>o'. mb_id o' = reg_id r) ?f (db_members d)"
      by (auto simp: upsert_member_def split: if_split_asm)
    obtain m where "m \<in> set (db_members d)" "mb_id m = reg_id r" using True by (auto simp: member_exists_def)
    then have "?f m \<in> set (db_members d1)" unfolding m1 by (rule update_where_hit)
    moreover have "projects r (?f m)" by (rule projects_member)
    moreover have "distinct (map mb_id (db_members d1))"
      using roster_invD(1) [OF assms(2)] by (simp add: m1 map_update_where)
    moreover have "m \<in> set (db_members d1)" if "m \<in> set (db_members d)" "mb_id m \<noteq> reg_id r" for m
      using that unfolding m1 by (rule update_where_keep)
    ultimately show ?thesis by blast
  next
    case False
    with up have m1: "db_members d1 = db_members d @ [?n\<lparr> mb_start_source := ''unknown'' \<rparr>]"
      by (auto simp: upsert_member_def split: if_split_asm)
    have "projects r (?n\<lparr> mb_start_source := ''unknown'' \<rparr>)"
      by (rule projects_source)
    then show ?thesis using roster_invD(1) [OF assms(2)] False by (auto simp: m1 member_exists_def)
  qed
  have old: "mirrored (db_members d1) x" if x: "x \<in> set (db_regs d)" for x
  proof (rule mirrored_keep [OF roster_invD(3) [OF assms(2) x]])
    fix m assume m: "m \<in> set (db_members d)" "mb_id m = rr_id x"
    have "rr_id x \<noteq> reg_id r" using new x by (metis imageI)
    with m members have "m \<in> set (db_members d1)" by auto
    then show "\<exists>m' \<in> set (db_members d1). projects (rr_value x) m \<longrightarrow> projects (rr_value x) m'" by blast
  qed
  have "mirrored (db_members d1) \<lparr> rr_id = reg_id r, rr_event = reg_event r, rr_value = r, rr_heads = heads, rr_deleted = False \<rparr>"
    using members by (simp add: mirrored_def)
  with old members new regs roster_invD(2) [OF assms(2)] show ?thesis
    by (auto simp: roster_inv_def d')
qed

lemma delete_keeps:
  assumes "delete_registration event k heads d = Inr d'" "roster_inv d"
  shows "roster_inv d'"
proof -
  have d': "d' = d\<lparr> db_regs := update_where (\<lambda>x. rr_event x = event \<and> rr_id x = k)
      (\<lambda>x. x\<lparr> rr_deleted := True, rr_heads := heads \<rparr>) (db_regs d) \<rparr>"
    using assms(1) by (simp add: delete_registration_def Let_def split: if_split_asm)
  have "mirrored (db_members d') x" if "x \<in> set (db_regs d')" for x
    using that roster_invD(3) [OF assms(2)] by (auto simp: d' in_set_update_where mirrored_def)
  then show ?thesis using roster_invD(1,2) [OF assms(2)] by (simp add: roster_inv_def d' map_update_where)
qed

lemma rfid_keeps:
  assumes "roster_inv d"
  shows "roster_inv (restore_rfid k v d)"
proof -
  have "mirrored (db_members (restore_rfid k v d)) x" if x: "x \<in> set (db_regs d)" for x
  proof (rule mirrored_keep [OF roster_invD(3) [OF assms x]])
    fix m assume m: "m \<in> set (db_members d)"
    let ?m = "if mb_id m = k then m\<lparr> mb_rfid := v \<rparr> else m"
    have "?m \<in> set (db_members (restore_rfid k v d))" using m by (auto simp: restore_rfid_def in_set_update_where)
    then show "\<exists>m' \<in> set (db_members (restore_rfid k v d)). projects (rr_value x) m \<longrightarrow> projects (rr_value x) m'"
      by (rule bexI [rotated]) (auto simp: projects_def intro: profile_matches_cong)
  qed
  then show ?thesis
    using roster_invD(1,2) [OF assms] by (simp add: roster_inv_def restore_rfid_def map_update_where)
qed

lemma club_keeps: "put_club event mc d = Inr d' \<Longrightarrow> roster_inv d \<Longrightarrow> roster_inv d'"
  by (auto simp: put_club_def roster_inv_def res_simps split: if_split_asm)

interpretation roster: machine row_step roster_inv
proof
  fix d d' assume "row_step d d'" "roster_inv d"
  then show "roster_inv d'"
    by (induction rule: row_step.induct) (fact put_keeps insert_keeps delete_keeps rfid_keeps club_keeps)+
qed

interpretation received: machine receive_step roster_inv
proof
  fix d d' assume step: "receive_step d d'" and inv: "roster_inv d"
  from step obtain d0 where d0: "row_step\<^sup>*\<^sup>* d d0" "db_regs d' = db_regs d0" "db_members d' = db_members d0"
    by (blast elim: receive_stepE dest: receive_one_rows)
  have "roster_inv d0" by (rule roster.inv_steps [OF d0(1) inv])
  then show "roster_inv d'" using d0(2,3) by (simp add: roster_inv_def)
qed

text \<open>
  Whatever a batch of tablet operations contains and wherever it stops, afterwards every live
  registration again has a member that shows its race, start number, chip, status and person, and no id is
  used twice; so timing never sees a participant the packet desk does not.
\<close>

theorem receive_keeps_mirror:
  assumes "roster_inv d"
  shows "roster_inv (fst (receive sha age_on at con ops d))"
  by (rule received.inv_steps [OF receive_steps assms])

end
