(* ===== verification/AppliedLaws.thy ===== *)
theory AppliedLaws
  imports RosterLaws
begin

section \<open>An applied operation is stored and published alike\<close>

text \<open>
  The registrations an applied operation writes and the row it appends to the feed carry the same changes,
  so what the other tablets read is what the database holds.
\<close>

subsection \<open>The changes of a decision name different rows\<close>

lemma transition_distinct:
  assumes "transition records rows source c = Inr cs" and "\<And>k r. rows k = Some r \<Longrightarrow> reg_id r = k"
    and "reg_id source = cmd_reg c"
  shows "distinct (map chg_reg cs)"
proof -
  have one: "distinct (map chg_reg cs)" if "bind_res r (\<lambda>after. Inr (single_change source after)) = Inr cs" for r :: "registration res"
    using that by (auto simp: res_simps single_change_def)
  have move: "distinct (map chg_reg cs)" if "apply_move rows source c = Inr cs"
    using that assms(2) [of "cmd_target c"] unfolding apply_move_Inr by auto
  have return: "distinct (map chg_reg cs)" if "apply_return_to_reserve rows source c = Inr cs"
    using that assms(2) [of "cmd_target c"] assms(3) unfolding apply_return_to_reserve_Inr by auto
  show ?thesis
    using assms(1) unfolding transition_def Let_def by (auto split: if_split_asm elim: one move return)
qed

lemma apply_cmd_changes_distinct:
  assumes "apply_cmd records c = Inr cs"
  shows "distinct (map chg_reg cs)"
proof (rule apply_cmd_Inr [OF assms])
  fix rows source
  assume *: "index_records records Map.empty = Inr rows" "transition records rows source c = Inr cs" "reg_id source = cmd_reg c"
  have "rows k = Some r \<Longrightarrow> reg_id r = k" for k r using index_records_Some [OF *(1)] by auto
  then show ?thesis by (rule transition_distinct [OF *(2) _ *(3)])
qed

definition about :: "registration list \<Rightarrow> change list \<Rightarrow> bool" where
  "about current cs \<longleftrightarrow> distinct (map chg_reg cs) \<and> (\<forall>ch \<in> set cs. \<exists>r \<in> set current.
     chg_reg ch = reg_id r \<and> reg_id (chg_after ch) = reg_id r \<and> reg_event (chg_after ch) = reg_event r)"

lemma about_mono: "about current cs \<Longrightarrow> set current \<subseteq> set current' \<Longrightarrow> about current' cs"
  unfolding about_def by blast

lemma apply_cmd_about: "apply_cmd records c = Inr cs \<Longrightarrow> about records cs"
  unfolding about_def
  using apply_cmd_changes_distinct apply_cmd_lawful_changes by (fastforce simp: lawful_def keeps_def)

lemma reverse_move_about:
  assumes "reverse_move current original reason = Inr cs"
  shows "about current cs"
proof (rule reverse_move_Inr [OF assms])
  fix s t
  assume o: "original = [s, t]" "map_res (reverse_one current) original = Inr cs"
    and ap: "apply_cmd [chg_before s, chg_before t]
       (zero_command\<lparr> cmd_type := (if empty_source (chg_after s) then ''assign_reserve''
                                    else if release_source (chg_after s) then ''move_to_reserve''
                                    else ''move_race''),
          cmd_reg := chg_reg s, cmd_target := chg_reg t,
          cmd_issue := Some (reg_issued (chg_after t)), cmd_return := Some False \<rparr>) = Inr original"
  from o obtain s' t' where cs: "cs = [s', t']" "reverse_one current s = Inr s'" "reverse_one current t = Inr t'"
    by (auto simp: res_simps)
  have s': "s' = mk_change (chg_after s) (chg_before s)" "chg_after s \<in> set current"
    and t': "t' = mk_change (chg_after t) (chg_before t)" "chg_after t \<in> set current"
    using reverse_one_Inr [OF cs(2)] reverse_one_Inr [OF cs(3)] by simp_all
  have ab: "about [chg_before s, chg_before t] [s, t]" using apply_cmd_about [OF ap] o(1) by simp
  have law: "chg_reg s = reg_id (chg_after s)" "chg_reg t = reg_id (chg_after t)" "chg_reg s \<noteq> chg_reg t"
    using ab unfolding about_def by (simp_all, metis+)
  have same: "reg_id (chg_before ch) = reg_id (chg_after ch)" "reg_event (chg_before ch) = reg_event (chg_after ch)"
    if "ch \<in> set original" for ch
    using apply_cmd_lawful_changes [OF ap that] by (simp_all add: lawful_def keeps_def)
  have "about current [mk_change (chg_after s) (chg_before s), mk_change (chg_after t) (chg_before t)]"
    using law same [of s] same [of t] s'(2) t'(2) o(1) unfolding about_def by (simp, blast)
  then show ?thesis by (simp add: cs(1) s'(1) t'(1))
qed

lemma derive_changes_cases:
  shows "derive_changes current op lookup = Inl (decision, code) \<Longrightarrow> decision \<noteq> ''applied''"
    and "derive_changes current op lookup = Inr (Inr changes) \<Longrightarrow> about current changes"
  unfolding derive_changes_def
  by (auto split: if_split_asm option.split_asm prod.split_asm intro: apply_cmd_about reverse_move_about)

lemma decision_about:
  assumes "packet_merge_decision current op lookup = (''applied'', code, changes)"
  shows "about current changes \<and> code = []"
proof (cases "derive_changes current op lookup")
  case (Inl x)
  then obtain decision c where x: "x = (decision, c)" by (cases x)
  with Inl derive_changes_cases(1) have "decision \<noteq> ''applied''" by blast
  with assms Inl x show ?thesis
    by (auto simp: packet_merge_decision_def split: option.split_asm if_split_asm)
next
  case (Inr y)
  show ?thesis
  proof (cases y)
    case (Inl e)
    with assms Inr show ?thesis
      by (auto simp: packet_merge_decision_def split: option.split_asm if_split_asm)
  next
    case (Inr derived)
    with assms \<open>derive_changes current op lookup = Inr y\<close> have "changes = derived \<and> code = []"
      by (auto simp: packet_merge_decision_def split: option.split_asm if_split_asm)
    with Inr \<open>derive_changes current op lookup = Inr y\<close> derive_changes_cases(2) show ?thesis by blast
  qed
qed

subsection \<open>The rows written\<close>

definition row_shows :: "operation \<Rightarrow> change \<Rightarrow> db \<Rightarrow> bool" where
  "row_shows op ch d \<longleftrightarrow> (\<exists>x. find_reg d (reg_event (chg_after ch)) (reg_id (chg_after ch)) = Some x
     \<and> rr_value x = chg_after ch \<and> rr_heads x = [op_id op] \<and> \<not> rr_deleted x)"

lemma find_reg_cong: "db_regs d' = db_regs d \<Longrightarrow> find_reg d' e k = find_reg d e k"
  by (simp add: find_reg_def)

lemma row_shows_cong: "db_regs d' = db_regs d \<Longrightarrow> row_shows op ch d' \<longleftrightarrow> row_shows op ch d"
  by (simp add: row_shows_def find_reg_def)

lemma put_find_reg:
  assumes "put_registration r heads cat d = Inr d'"
  shows "find_reg d' e k = map_option (\<lambda>x. if k = reg_id r \<and> e = reg_event r
    then x\<lparr> rr_value := r, rr_heads := heads, rr_deleted := False \<rparr> else x) (find_reg d e k)"
proof -
  have "db_regs d' = update_where (\<lambda>x. rr_id x = reg_id r \<and> rr_event x = reg_event r)
      (\<lambda>x. x\<lparr> rr_value := r, rr_heads := heads, rr_deleted := False \<rparr>) (db_regs d)"
    using assms by (auto simp: put_registration_def Let_def split: if_split_asm)
  then have "find_reg d' e k = map_option (\<lambda>x. if rr_id x = reg_id r \<and> rr_event x = reg_event r
      then x\<lparr> rr_value := r, rr_heads := heads, rr_deleted := False \<rparr> else x) (find_reg d e k)"
    by (simp add: find_reg_def find_update_where)
  moreover have "rr_id x = k \<and> rr_event x = e" if "find_reg d e k = Some x" for x
    using that by (auto simp: find_reg_def dest: find_Some_iff')
  ultimately show ?thesis by (cases "find_reg d e k") auto
qed

lemma put_shows:
  "put_registration (chg_after ch) [op_id op] cat d = Inr d' \<Longrightarrow>
   find_reg d (reg_event (chg_after ch)) (reg_id (chg_after ch)) \<noteq> None \<Longrightarrow> row_shows op ch d'"
  by (auto simp: row_shows_def put_find_reg)

lemma put_keeps_shown:
  "put_registration (chg_after ch) heads cat d = Inr d' \<Longrightarrow> row_shows op ch' d \<Longrightarrow>
   reg_id (chg_after ch) \<noteq> reg_id (chg_after ch') \<Longrightarrow> row_shows op ch' d'"
  by (auto simp: row_shows_def put_find_reg)

lemma insert_find_reg:
  assumes "insert_registration r heads cat d = Inr d'"
  shows "find_reg d (reg_event r) (reg_id r) = None"
    "find_reg d' e k = (if k = reg_id r \<and> e = reg_event r
     then Some \<lparr> rr_id = k, rr_event = e, rr_value = r, rr_heads = heads, rr_deleted = False \<rparr> else find_reg d e k)"
proof -
  obtain d1 where up: "upsert_member d (registration_member r cat) = Inr d1" and new: "reg_id r \<notin> rr_id ` set (db_regs d)"
    and d': "d' = d1\<lparr> db_regs := db_regs d1 @ [\<lparr> rr_id = reg_id r, rr_event = reg_event r, rr_value = r,
        rr_heads = heads, rr_deleted = False \<rparr>] \<rparr>"
    using assms upsert_member_books by (auto simp: insert_registration_def res_simps split: if_split_asm)
  show none: "find_reg d (reg_event r) (reg_id r) = None"
    using new by (simp add: find_reg_def find_None_iff) (metis imageI)
  have "db_regs d1 = db_regs d" using upsert_member_books [OF up] by simp
  then have "find_reg d' e k = (case find_reg d e k of Some x \<Rightarrow> Some x | None \<Rightarrow>
      if reg_event r = e \<and> reg_id r = k then Some \<lparr> rr_id = reg_id r, rr_event = reg_event r, rr_value = r,
        rr_heads = heads, rr_deleted = False \<rparr> else None)"
    by (simp add: find_reg_def d' find_append split: option.split)
  with none show "find_reg d' e k = (if k = reg_id r \<and> e = reg_event r
     then Some \<lparr> rr_id = k, rr_event = e, rr_value = r, rr_heads = heads, rr_deleted = False \<rparr> else find_reg d e k)"
    by (cases "find_reg d e k") auto
qed

lemma restore_rfid_regs [simp]: "db_regs (restore_rfid k v d) = db_regs d"
  by (simp add: restore_rfid_def)

lemma apply_clubs_regs: "apply_clubs event clubs d = Inr d' \<Longrightarrow> db_regs d' = db_regs d"
  unfolding apply_clubs_def
  by (erule fold_res_invariant [where P = "\<lambda>x. db_regs x = db_regs d"])
    (auto simp: put_club_def res_simps split: if_split_asm)

lemma project_change_put:
  assumes "project_change age_on op ch d = Inr d'"
  obtains cat d1 where "put_registration (chg_after ch) [op_id op] cat d1 = Inr d'" "db_regs d1 = db_regs d"
proof -
  let ?d1 = "if forgets_chip op ch then restore_rfid (chg_reg ch) None d else d"
  from assms obtain cat where "put_registration (chg_after ch) [op_id op] cat ?d1 = Inr d'"
    by (auto simp: project_change_def res_simps Let_def)
  moreover have "db_regs ?d1 = db_regs d" by simp
  ultimately show thesis by (rule that)
qed

lemma project_fold_shows:
  assumes "fold_res (project_change age_on op) cs d = Inr d'" "distinct (map (\<lambda>ch. reg_id (chg_after ch)) cs)"
    and "\<And>ch. ch \<in> set cs \<Longrightarrow> find_reg d (reg_event (chg_after ch)) (reg_id (chg_after ch)) \<noteq> None"
  shows "(\<forall>ch \<in> set cs. row_shows op ch d')
    \<and> (\<forall>ch. row_shows op ch d \<longrightarrow> reg_id (chg_after ch) \<notin> (\<lambda>ch. reg_id (chg_after ch)) ` set cs \<longrightarrow> row_shows op ch d')"
  using assms
proof (induction cs arbitrary: d)
  case (Cons ch cs)
  from Cons.prems(1) obtain d2 where d2: "project_change age_on op ch d = Inr d2"
    and rest: "fold_res (project_change age_on op) cs d2 = Inr d'" by (auto simp: res_simps)
  obtain cat d1 where put: "put_registration (chg_after ch) [op_id op] cat d1 = Inr d2" and regs: "db_regs d1 = db_regs d"
    by (rule project_change_put [OF d2])
  have found: "find_reg d2 (reg_event (chg_after x)) (reg_id (chg_after x)) \<noteq> None" if "x \<in> set (ch # cs)" for x
    using Cons.prems(3) [OF that] by (simp add: put_find_reg [OF put] find_reg_cong [OF regs])
  have shown: "row_shows op ch d2"
    by (rule put_shows [OF put]) (use Cons.prems(3) [of ch] in \<open>simp add: find_reg_cong [OF regs]\<close>)
  from Cons.IH [OF rest] Cons.prems(2) found
  have IH: "\<forall>x \<in> set cs. row_shows op x d'"
    "\<And>x. row_shows op x d2 \<Longrightarrow> reg_id (chg_after x) \<notin> (\<lambda>ch. reg_id (chg_after ch)) ` set cs \<Longrightarrow> row_shows op x d'"
    by auto
  have "row_shows op ch d'" using IH(2) [OF shown] Cons.prems(2) by auto
  moreover have "row_shows op x d'"
    if "row_shows op x d" "reg_id (chg_after x) \<notin> (\<lambda>ch. reg_id (chg_after ch)) ` set (ch # cs)" for x
  proof -
    have "row_shows op x d1" using that(1) row_shows_cong [OF regs] by simp
    from put_keeps_shown [OF put this] that(2) have "row_shows op x d2" by auto
    then show ?thesis using IH(2) that(2) by auto
  qed
  ultimately show ?case using IH(1) by auto
qed simp

subsection \<open>Every branch stores what it decided\<close>

lemma with_evidence_same: "with_evidence d r = Inr r' \<Longrightarrow> reg_id r' = reg_id r \<and> reg_event r' = reg_event r"
  by (auto simp: with_evidence_def res_simps)

lemma live_reg_row:
  assumes "live_reg d event k = Inr r" "roster_inv d"
  shows "reg_id r = k \<and> reg_event r = event \<and> find_reg d event k \<noteq> None"
proof -
  from assms(1) obtain x where x: "find_reg d event k = Some x" "with_evidence d (rr_value x) = Inr r"
    by (auto simp: live_reg_def split: option.split_asm if_split_asm)
  then have "x \<in> set (db_regs d)" "rr_event x = event" "rr_id x = k" by (auto simp: find_reg_def dest: find_Some_iff')
  with roster_invD(3) [OF assms(2), of x] with_evidence_same [OF x(2)] x(1) show ?thesis
    by (simp add: mirrored_def)
qed

lemma get_registrations_rows:
  assumes "get_registrations d event ks = Inr current" "roster_inv d" "r \<in> set current"
  shows "reg_event r = event \<and> find_reg d event (reg_id r) \<noteq> None"
proof -
  from assms(1) have "list_all2 (\<lambda>k r. live_reg d event k = Inr r) ks current"
    by (auto simp: get_registrations_def map_res_Inr split: if_split_asm)
  with assms(3) obtain k where "live_reg d event k = Inr r"
    by (auto simp: list_all2_conv_all_nth in_set_conv_nth)
  from live_reg_row [OF this assms(2)] show ?thesis by simp
qed

lemma get_one_registration:
  assumes "get_registrations d event [k] = Inr current"
  obtains r where "current = [r]"
  using assms by (auto simp: get_registrations_def res_simps split: if_split_asm)

definition stores :: "operation \<Rightarrow> verdict \<Rightarrow> bool" where
  "stores op v \<longleftrightarrow> (case v of (d0, outcome, code, changes) \<Rightarrow>
     outcome = ''applied'' \<longrightarrow> code = [] \<and> (\<forall>ch \<in> set changes. row_shows op ch d0))"

lemma stores_unapplied: "outcome \<noteq> ''applied'' \<Longrightarrow> stores op (d0, outcome, code, changes)"
  by (simp add: stores_def)

lemma about_found:
  assumes "get_registrations d event ks = Inr current" "roster_inv d" "about current changes" "ch \<in> set changes"
  shows "find_reg d (reg_event (chg_after ch)) (reg_id (chg_after ch)) \<noteq> None"
  using assms(3,4) get_registrations_rows [OF assms(1,2)] unfolding about_def by metis

lemma about_distinct:
  assumes "about current cs"
  shows "distinct (map (\<lambda>ch. reg_id (chg_after ch)) cs)"
proof -
  have "map (\<lambda>ch. reg_id (chg_after ch)) cs = map chg_reg cs"
    by (rule map_cong) (use assms in \<open>auto simp: about_def\<close>)
  with assms show ?thesis unfolding about_def by (simp only:)
qed

lemma settle_changes_stores:
  assumes "roster_inv d"
  shows "ensures (settle_changes age_on event op d) (stores op)"
  unfolding settle_changes_def
proof (intro ensures_intros)
  fix current decision x code changes d1
  assume cur: "get_registrations d event (map chg_reg (op_changes op)) = Inr current"
    and dec: "packet_merge_decision current op (lookup_operation d) = (decision, x)" "x = (code, changes)" "decision = ''applied''"
    and proj: "project_changes age_on event op changes d = Inr d1"
  from decision_about dec have ab: "about current changes" "code = []" by blast+
  from proj obtain clubs d2 where fold: "fold_res (project_change age_on op) changes d = Inr d2"
    and clubs: "apply_clubs event clubs d2 = Inr d1" by (auto simp: project_changes_def res_simps)
  have "\<forall>ch \<in> set changes. row_shows op ch d2"
    using project_fold_shows [OF fold about_distinct [OF ab(1)] about_found [OF cur assms ab(1)]] by blast
  then show "stores op (d1, decision, code, changes)"
    using ab(2) by (simp add: stores_def row_shows_cong [OF apply_clubs_regs [OF clubs]])
qed (simp_all add: stores_unapplied)

lemma insert_shows: "insert_registration (chg_after ch) [op_id op] cat d = Inr d' \<Longrightarrow> row_shows op ch d'"
  by (simp add: row_shows_def insert_find_reg)

lemma insert_keeps_shown:
  "insert_registration r heads cat d = Inr d' \<Longrightarrow> row_shows op ch d \<Longrightarrow> row_shows op ch d'"
  using insert_find_reg(1) by (auto simp: row_shows_def insert_find_reg(2))

lemma about_single: "about [r] changes \<Longrightarrow> changes = [] \<or> (\<exists>ch. changes = [ch])"
  unfolding about_def by (cases changes; cases "tl changes") auto

lemma settle_creation_stores: "ensures (settle_creation age_on event op d) (stores op)"
  unfolding settle_creation_def
proof (intro ensures_intros)
  fix empty decision x code changes ch rest cat d1
  assume dec: "packet_merge_decision [empty] op (lookup_operation d) = (decision, x)" "x = (code, changes)" "decision = ''applied''"
    and ch: "changes = ch # rest" and ins: "insert_registration (chg_after ch) [op_id op] cat d = Inr d1"
  from decision_about dec have ab: "about [empty] changes" "code = []" by blast+
  with about_single ch have "changes = [ch]" by blast
  with ab(2) show "stores op (d1, decision, code, changes)" by (simp add: stores_def insert_shows [OF ins])
qed (simp_all add: stores_unapplied)

lemma settle_assignment_stores:
  assumes "roster_inv d"
  shows "ensures (settle_assignment event op d) (stores op)"
  unfolding settle_assignment_def
proof (intro ensures_intros)
  fix current decision x code changes ch rest m d1
  assume cur: "get_registrations d event [cmd_reg (op_command op)] = Inr current"
    and dec: "packet_merge_decision current op (lookup_operation d) = (decision, x)" "x = (code, changes)" "decision = ''applied''"
    and ch: "changes = ch # rest" and put: "put_registration (chg_after ch) [op_id op] (mb_category m) d = Inr d1"
  from decision_about dec have ab: "about current changes" "code = []" by blast+
  from cur obtain r where "current = [r]" by (rule get_one_registration)
  with about_single ab(1) ch have "changes = [ch]" by blast
  moreover have "find_reg d (reg_event (chg_after ch)) (reg_id (chg_after ch)) \<noteq> None"
    by (rule about_found [OF cur assms ab(1)]) (simp add: ch)
  ultimately show "stores op (d1, decision, code, changes)"
    using ab(2) by (simp add: stores_def put_shows [OF put])
qed (simp_all add: stores_unapplied)

lemma about_pair:
  assumes "about [r, t] (s # u # rest)"
  shows "rest = [] \<and> reg_id (chg_after s) \<noteq> reg_id (chg_after u)"
proof -
  have "distinct (map chg_reg (s # u # rest))" "set (map chg_reg (s # u # rest)) \<subseteq> {reg_id r, reg_id t}"
    using assms by (auto simp: about_def)
  then have "rest = []" by (cases rest) auto
  then show ?thesis using about_distinct [OF assms] by simp
qed

lemma store_return_shows:
  assumes "store_return op s t d = Inr d'" "find_reg d (reg_event (chg_after s)) (reg_id (chg_after s)) \<noteq> None"
    and "reg_id (chg_after s) \<noteq> reg_id (chg_after t)"
  shows "row_shows op s d' \<and> row_shows op t d'"
proof -
  let ?c = "op_command op"
  from assms(1) obtain m :: member and d1 d2 where
    put: "put_registration (chg_after s) [op_id op] (mb_category m) d = Inr d1"
    and ins: "insert_registration (chg_after t) [op_id op] None (restore_rfid (cmd_reg ?c) None d1) = Inr d2"
    and d': "restore_rfid (cmd_target ?c) (mb_rfid m) d2 = d'"
    by (simp only: store_return_def res_simps Let_def sum.inject) blast
  have "row_shows op s (restore_rfid (cmd_reg ?c) None d1)"
    using put_shows [OF put assms(2)] row_shows_cong [OF restore_rfid_regs] by blast
  from insert_keeps_shown [OF ins this] insert_shows [OF ins] have "row_shows op s d2 \<and> row_shows op t d2" by blast
  moreover have "db_regs d' = db_regs d2" using d' by auto
  ultimately show ?thesis using row_shows_cong [of d' d2] by blast
qed

lemma get_member_none: "get_member d k = Inl no_rows \<longleftrightarrow> k \<notin> mb_id ` set (db_members d)"
proof (cases "List.find (\<lambda>m. mb_id m = k) (db_members d)")
  case None
  then have "get_member d k = Inl no_rows" by (simp add: get_member_def)
  with None show ?thesis by (auto simp: find_None_iff)
next
  case (Some m)
  then have "k \<in> mb_id ` set (db_members d)" by (auto dest: find_Some_iff')
  with Some show ?thesis by (simp add: get_member_def)
qed

lemma store_return_member:
  assumes "store_return op s t d = Inr d'"
  shows "get_member d (reg_id (chg_after s)) \<noteq> Inl no_rows"
proof -
  from assms obtain m :: member and d1 where put: "put_registration (chg_after s) [op_id op] (mb_category m) d = Inr d1"
    by (auto simp: store_return_def res_simps Let_def)
  then have "count_where (\<lambda>m. mb_id m = reg_id (chg_after s) \<and> mb_event m = reg_event (chg_after s)) (db_members d) = 1"
    by (simp add: put_registration_def Let_def split: if_split_asm)
  then have "count_where (\<lambda>m. mb_id m = reg_id (chg_after s) \<and> mb_event m = reg_event (chg_after s)) (db_members d) \<noteq> 0"
    by simp
  then show ?thesis unfolding get_member_none count_where_0 by (auto intro: rev_image_eqI)
qed

lemma settle_return_stores:
  assumes "roster_inv d"
  shows "ensures (settle_return event op d) (stores op)"
  unfolding settle_return_def
proof (intro ensures_intros)
  fix c code' current empty decision x code changes s y t z d1
  assume c: "c = op_command op" and cur: "get_registrations d event [cmd_reg c] = Inr current"
    and dec: "packet_merge_decision (current @ [empty]) op (lookup_operation d) = (decision, x)" "x = (code, changes)"
      "decision = ''applied''"
    and ch: "changes = s # y" "y = t # z" and st: "store_return op s t d = Inr d1"
    and free: "\<not> get_member d (cmd_target c) \<noteq> Inl no_rows" and blank: "empty_reserve c (hd current) = Inr empty"
  from decision_about dec have ab: "about (current @ [empty]) changes" "code = []" by blast+
  from cur obtain r where r: "current = [r]" by (rule get_one_registration)
  with ab(1) ch have two: "z = [] \<and> reg_id (chg_after s) \<noteq> reg_id (chg_after t)"
    using about_pair [of r empty s t z] by simp
  have "reg_id (chg_after s) \<noteq> reg_id empty"
    using store_return_member [OF st] free empty_reserve_simps [OF blank] by auto
  with ab(1) r ch have "reg_id (chg_after s) = reg_id r \<and> reg_event (chg_after s) = reg_event r"
    by (auto simp: about_def)
  with get_registrations_rows [OF cur assms, of r] r
  have "find_reg d (reg_event (chg_after s)) (reg_id (chg_after s)) \<noteq> None" by simp
  from store_return_shows [OF st this conjunct2 [OF two]] two ab(2) ch dec(3)
  show "stores op (d1, decision, code, changes)" by (simp add: stores_def)
qed (simp_all add: stores_unapplied)

lemma settle_stores:
  assumes "roster_inv d"
  shows "ensures (settle age_on con op d) (stores op)"
  unfolding settle_def settle_number_def
  by (intro ensures_intros settle_changes_stores settle_creation_stores settle_assignment_stores
      settle_return_stores assms) (simp_all add: stores_unapplied)

subsection \<open>Stored and published\<close>

lemma feed_same_books:
  assumes "same_books d d'"
  shows "feed_inv d' \<longleftrightarrow> feed_inv d" "history d' e = history d e" "feed_head d' e = feed_head d e"
    "published d' k \<longleftrightarrow> published d k"
  using assms
  by (simp_all add: same_books_def feed_inv_def feed_first_def feed_head_def find_head_def history_def live_rows_def
      archived_rows_def published_def)

lemma feed_save_operation:
  assumes "save_operation op hash outcome code at known d = Inr d'"
  shows "feed_inv d' \<longleftrightarrow> feed_inv d" "history d' e = history d e" "feed_head d' e = feed_head d e"
    "published d' k \<longleftrightarrow> published d k" "db_regs d' = db_regs d"
  using save_operation_rest [OF assms]
  by (auto simp: feed_inv_def feed_first_def feed_head_def find_head_def history_def live_rows_def
      archived_rows_def published_def)

text \<open>
  Applying is atomic across the two readers: when a tablet operation is applied for the first time,
  every row it changes holds exactly the value the change says with the operation as its head, and exactly
  one row is appended to the feed of its event, which carries the same changes for the other tablets.
\<close>

theorem receive_applied_published:
  assumes "receive_one sha age_on at con op d = Inr (d', r)" and "rcp_outcome r = ''applied''"
    and "\<not> rcp_known r" and "roster_inv d" and "feed_inv d" and "\<not> published d (op_id op)"
  shows "\<exists>changes. (\<forall>ch \<in> set changes. row_shows op ch d') \<and> feed_inv d'
    \<and> history d' (op_event op) = history d (op_event op)
        @ [(publish_row op ''applied'' None changes at)\<lparr> fr_sequence := feed_head d (op_event op) + 1 \<rparr>]"
  using assms(1)
proof (cases rule: receive_one_cases)
  case (known o')
  then show ?thesis using assms(3) by (simp add: receipt_of_def)
next
  case (settled known d0 outcome code changes d1)
  have out: "outcome = ''applied''" using settled(5) assms(2) by (simp add: receipt_of_def)
  have books: "same_books d d0" using row_steps_books settle_effect [OF settled(2)] by blast
  note fs = feed_save_operation [OF settled(3)]
  have st: "code = []" "\<forall>ch \<in> set changes. row_shows op ch d0"
    using ensuresD [OF settle_stores [OF assms(4)] settled(2)] out by (simp_all add: stores_def)
  have inv: "feed_inv d1" using assms(5) fs(1) feed_same_books(1) [OF books] by simp
  have "\<not> published d1 (op_id op)" using assms(6) fs(4) feed_same_books(4) [OF books] by simp
  moreover have "\<not> unpublished_outcome op outcome" by (simp add: out unpublished_outcome_def)
  ultimately have ap: "append_feed (publish_row op ''applied'' None changes at) d1 = Inr d'"
    using settled(4) st(1) out by (simp add: publish_operation_def packet_code_def)
  have "db_regs d' = db_regs d0" using append_feed_rest [OF ap] fs(5) by (simp add: same_rows_def)
  then have "\<forall>ch \<in> set changes. row_shows op ch d'" using st(2) row_shows_cong by blast
  moreover have "fr_event (publish_row op ''applied'' None changes at) = op_event op" by (simp add: publish_row_def)
  with append_feed_Inr(1) [OF ap inv] append_feed_Inr(2) [OF ap inv, of "op_event op"]
  have "feed_inv d'" "history d' (op_event op) = history d1 (op_event op)
        @ [(publish_row op ''applied'' None changes at)\<lparr> fr_sequence := feed_head d1 (op_event op) + 1 \<rparr>]" by simp_all
  moreover have "history d1 (op_event op) = history d (op_event op)" "feed_head d1 (op_event op) = feed_head d (op_event op)"
    using fs(2,3) feed_same_books(2,3) [OF books] by simp_all
  ultimately show ?thesis by auto
qed

end
