(* ===== verification/ReceiverWitnesses.thy ===== *)
theory ReceiverWitnesses
  imports AppliedLaws
begin

section \<open>One tablet operation received\<close>

text \<open>
  Concrete instances of the receiver's laws: an event with one registered participant whose packet a tablet
  issues after the number was changed at the desk.
\<close>

definition w_member :: member where
  "w_member = (registration_member w_moved None)\<lparr> mb_start_source := ''unknown'' \<rparr>"

definition w_recv :: db where
  "w_recv = w_db\<lparr> db_races := [\<lparr> rc_id = ''r'', rc_event = ''e'', rc_date = ''2025-05-01'' \<rparr>],
     db_members := [w_member],
     db_regs := [\<lparr> rr_id = ''1'', rr_event = ''e'', rr_value = w_moved, rr_heads = [], rr_deleted = False \<rparr>] \<rparr>"

definition w_con :: connection where
  "w_con = \<lparr> con_event = ''e'', con_scope = ''site:1:e'', con_origin = w_uuid \<rparr>"

definition w_sha :: "string \<Rightarrow> string" where
  "w_sha s = ''h''"

definition w_age :: "string \<Rightarrow> string \<Rightarrow> bool \<Rightarrow> int" where
  "w_age b r x = 30"

definition w_after :: registration where
  "w_after = w_moved\<lparr> reg_issued := True \<rparr>"

definition w_stored :: db where
  "w_stored = w_recv\<lparr> db_members := [project_member w_after None w_member],
     db_regs := [\<lparr> rr_id = ''1'', rr_event = ''e'', rr_value = w_after, rr_heads = [w_uuid], rr_deleted = False \<rparr>],
     db_dirty := True \<rparr>"

lemma w_moved_fields:
  "reg_id w_moved = ''1''" "reg_event w_moved = ''e''" "reg_race w_moved = ''r''" "\<not> reg_timing w_moved"
  "reg_id w_after = ''1''" "reg_event w_after = ''e''" "reg_race w_after = ''r''" "reg_person w_after = reg_person w_moved"
  "reg_person w_moved = Some w_person"
  by (simp_all add: w_after_def w_moved_def w_source_def zero_registration_def)

lemma w_member_fields:
  "mb_id w_member = ''1''" "mb_event w_member = ''e''" "mb_category w_member = None" "\<not> member_evidence w_recv w_member"
  by (simp_all add: w_member_def w_moved_fields registration_member_def Let_def blank_member_def member_evidence_def
      w_recv_def w_db_def)

lemma w_roster_inv: "roster_inv w_recv"
proof -
  have "projects w_moved w_member"
    by (simp add: w_member_def projects_source)
  then show ?thesis by (simp add: roster_inv_def w_recv_def mirrored_def w_moved_fields)
qed

lemma w_get: "get_registrations w_recv ''e'' [''1''] = Inr [w_moved]"
  using w_member_fields
  by (simp add: get_registrations_def live_reg_def find_reg_def with_evidence_def timing_evidence_def w_recv_def
      w_moved_fields)

lemma registration_member_cat: "mb_category (registration_member r cat) = cat"
  by (simp add: registration_member_def Let_def split: option.split)

lemma w_put: "put_registration w_after [w_uuid] None w_recv = Inr w_stored"
proof -
  have "member_refs w_recv (registration_member w_after None)"
    by (simp add: member_refs_def w_moved_fields event_exists_def w_recv_def w_db_def registration_member_cat)
  then show ?thesis
    by (simp add: put_registration_def Let_def w_recv_def w_stored_def w_member_fields w_moved_fields update_where_def
        count_where_Cons)
qed

lemma w_settle: "settle w_age w_con w_op w_recv = Inr (w_stored, ''applied'', [], [mk_change w_moved w_after])"
proof -
  have op: "op_event w_op = ''e''" "dependency_ids w_op = []" "cmd_type (op_command w_op) = ''issue''"
    "map chg_reg (op_changes w_op) = [''1'']" "op_id w_op = w_uuid"
    by (simp_all add: w_op_def op_event_def dependency_ids_def zero_command_def mk_change_def w_source_def)
  have m: "get_member w_recv ''1'' = Inr w_member"
    by (simp add: get_member_def w_recv_def w_member_fields)
  have "project_changes w_age ''e'' w_op [mk_change w_moved w_after] w_recv = Inr w_stored"
    using w_put
    by (simp add: project_changes_def club_projection_def projected_club_def person_of_def member_club_def w_moved_fields
        project_change_def forgets_chip_def op m change_category_def w_member_fields apply_clubs_def)
      (simp add: w_recv_def w_db_def apply_clubs_def)
  then show ?thesis
    using w_decision [folded w_after_def]
    by (simp add: settle_def Let_def op w_con_def dependencies_applied_def settle_changes_def w_get)
qed

lemma w_op_fields:
  "op_event w_op = ''e''" "op_id w_op = w_uuid" "op_scope w_op = ''site:1:e''" "op_origin w_op = w_uuid"
  "cmd_type (op_command w_op) = ''issue''" "dependency_ids w_op = []"
  by (simp_all add: w_op_def op_event_def mk_change_def w_source_def zero_command_def dependency_ids_def)

lemma w_tables:
  "db_ops w_recv = []" "db_feed w_recv = []" "db_archive w_recv = []" "db_heads w_recv = []"
  "db_ops w_stored = []" "db_feed w_stored = []" "db_archive w_stored = []" "db_heads w_stored = []"
  "db_events w_recv = [\<lparr> ev_id = ''e'', ev_race_age = 0 \<rparr>]" "db_events w_stored = db_events w_recv"
  by (simp_all add: w_recv_def w_stored_def w_db_def)

lemma w_scope: "scope_of w_recv ''e'' = ''site:1:e''"
  by (simp add: scope_of_def find_scope_def w_recv_def w_db_def)

lemma w_admit: "admit w_con w_op hash w_recv = Inr (Inr False)"
  using w_scope by (simp add: admit_def w_con_def w_op_fields find_op_def find_origin_def w_tables)

definition w_row_saved :: op_row where
  "w_row_saved = op_row_of w_op ''e'' (content_hash w_sha w_op) ''applied'' None 5"

definition w_final :: db where
  "w_final = w_stored\<lparr> db_ops := [w_row_saved],
     db_heads := [\<lparr> hd_event = ''e'', hd_last = 1, hd_first = 1 \<rparr>],
     db_feed := [(publish_row w_op ''applied'' None [mk_change w_moved w_after] 5)\<lparr> fr_sequence := 1 \<rparr>] \<rparr>"

lemma w_receive: "receive_one w_sha w_age 5 w_con w_op w_recv =
  Inr (w_final, receipt_of w_op (content_hash w_sha w_op) ''applied'' None False)"
proof -
  let ?d1 = "w_stored\<lparr> db_ops := [w_row_saved] \<rparr>"
  have ev: "event_exists x ''e''" if "db_events x = db_events w_recv" for x
    using that by (simp add: event_exists_def w_tables)
  have save: "save_operation w_op (content_hash w_sha w_op) ''applied'' None 5 False w_stored = Inr ?d1"
    using ev [of w_stored]
    by (simp add: save_operation_def insert_op_def op_row_of_def find_op_def find_origin_def w_tables w_op_fields
        op_outcomes_def w_row_saved_def)
  have head: "ensure_head ''e'' ?d1 = Inr (?d1\<lparr> db_heads := [\<lparr> hd_event = ''e'', hd_last = 0, hd_first = 1 \<rparr>] \<rparr>)"
    using ev [of ?d1] by (simp add: ensure_head_def find_head_def w_tables)
  have "publish_operation w_op ''applied'' None [mk_change w_moved w_after] 5 ?d1 = Inr w_final"
    using ev
    by (simp add: publish_operation_def unpublished_outcome_def published_def w_tables append_feed_def publish_row_def
        w_op_fields head feed_head_def find_head_def feed_row_allowed_def feed_kinds_def feed_outcomes_def Let_def
        w_final_def update_where_def)
  then show ?thesis
    by (simp add: receive_one_def w_admit w_settle persist_def packet_code_def save)
qed

lemma w_journal: "journal_inv w_recv" "journal_inv w_final"
  by (simp_all add: journal_inv_def w_tables w_final_def)

theorem receive_journal_immutable_witness:
  "w_row_saved \<in> set (db_ops (fst (receive w_sha w_age 6 w_con [w_op] w_final)))"
  using receive_journal_immutable [OF w_journal(2), of w_row_saved]
  by (simp add: w_final_def w_row_saved_def op_row_of_def)

theorem redelivery_repeats_receipt_witness:
  "receive_one w_sha w_age 77 w_con w_op w_final =
     Inr (w_final, receipt_of w_op (content_hash w_sha w_op) ''applied'' None True)"
  using redelivery_repeats_receipt [OF w_receive, of 77]
  by (simp add: receipt_of_def w_op_fields w_con_def)

definition w_waiting :: operation where
  "w_waiting = w_op\<lparr> op_bases := [\<lparr> base_reg = ''1'', base_heads = [''k''] \<rparr>] \<rparr>"

lemma w_receive_waiting:
  "\<exists>d'. receive_one w_sha w_age 5 w_con w_waiting w_recv =
     Inr (d', receipt_of w_waiting (content_hash w_sha w_waiting) ''waiting_dependency'' (Some ''dependency_missing'') False)"
proof -
  have f: "op_event w_waiting = ''e''" "op_id w_waiting = w_uuid" "dependency_ids w_waiting = [''k'']"
    "op_scope w_waiting = ''site:1:e''" "op_origin w_waiting = w_uuid"
    using w_op_fields by (simp_all add: w_waiting_def op_event_def dependency_ids_def)
  have ad: "admit w_con w_waiting hash w_recv = Inr (Inr False)" for hash
    using w_scope by (simp add: admit_def w_con_def f find_op_def find_origin_def w_tables)
  have none: "\<not> dependency_applied w_recv ''e'' ''k''"
    by (simp add: dependency_applied_def w_recv_def w_db_def)
  have "settle w_age w_con w_waiting w_recv = Inr (w_recv, ''waiting_dependency'', ''dependency_missing'', [])"
    using none by (simp add: settle_def Let_def f w_con_def dependencies_applied_def w_uuid_def)
  moreover have "packet_code ''dependency_missing'' = Some ''dependency_missing''"
    by (simp add: packet_code_def text_eval)
  ultimately show ?thesis
    by (simp add: receive_one_def ad persist_def save_operation_def insert_op_def find_op_def find_origin_def w_tables
        op_row_of_def f event_exists_def op_outcomes_def Let_def publish_operation_def unpublished_outcome_def)
qed

theorem receive_unapplied_keeps_rows_witness:
  "\<exists>d' r. receive_one w_sha w_age 5 w_con w_waiting w_recv = Inr (d', r) \<and> db_regs d' = db_regs w_recv"
proof -
  obtain d' where d': "receive_one w_sha w_age 5 w_con w_waiting w_recv =
     Inr (d', receipt_of w_waiting (content_hash w_sha w_waiting) ''waiting_dependency'' (Some ''dependency_missing'') False)"
    using w_receive_waiting by blast
  with receive_unapplied_keeps_rows [OF d'] show ?thesis by (auto simp: receipt_of_def)
qed

theorem receive_causal_witness: "causal_inv w_final"
  by (rule receive_causal [OF w_receive w_journal(1)]) (simp_all add: causal_inv_def w_tables)

theorem receive_keeps_mirror_witness: "roster_inv (fst (receive w_sha w_age 5 w_con [w_op, w_waiting] w_recv))"
  by (rule receive_keeps_mirror [OF w_roster_inv])

theorem receive_applied_published_witness:
  "history w_final ''e'' \<noteq> []"
proof -
  have "feed_inv w_recv"
    by (simp add: feed_inv_def feed_first_def feed_head_def find_head_def live_rows_def archived_rows_def w_tables)
  moreover have "\<not> published w_recv (op_id w_op)" by (simp add: published_def w_tables)
  ultimately show ?thesis
    using receive_applied_published [OF w_receive _ _ w_roster_inv] by (auto simp: receipt_of_def w_op_fields)
qed

theorem event_mismatch_unanswered_witness:
  "receive_one w_sha w_age 5 (w_con\<lparr> con_event := ''f'' \<rparr>) w_op
     (w_recv\<lparr> db_events := [\<lparr> ev_id = ''f'', ev_race_age = 0 \<rparr>],
        db_scopes := [\<lparr> sc_event = ''f'', sc_scope = ''site:1:e'', sc_baseline = ''b'', sc_source = ''s'',
          sc_installed = 1, sc_cursor = ''0'' \<rparr>] \<rparr>) = Inl constraint_failed"
  (is "receive_one _ _ _ ?con _ ?d = _")
proof -
  have "admit ?con w_op (content_hash w_sha w_op) ?d = Inr (Inr False)"
    by (simp add: admit_def w_con_def w_op_fields scope_of_def find_scope_def find_op_def find_origin_def w_tables)
  moreover have "op_event w_op \<noteq> con_event ?con" by (simp add: w_op_fields)
  moreover have "\<not> event_exists ?d (op_event w_op)" by (simp add: event_exists_def w_op_fields)
  ultimately show ?thesis using event_mismatch_unanswered [of w_op ?con w_sha ?d w_age 5] by simp
qed

end
