(* ===== verification/NumberLaws.thy ===== *)
theory NumberLaws
  imports ReceiverWitnesses ContractLaws
begin

section \<open>Start numbers stay unique\<close>

text \<open>
  The receiver decides on the rows an operation names; that no other row of the event has the number is looked up
  among the members, and the mirror of \<open>RosterLaws\<close> makes this a statement about the registrations.
\<close>

definition live_values :: "db \<Rightarrow> registration list" where
  "live_values d = map rr_value (filter (\<lambda>x. \<not> rr_deleted x) (db_regs d))"

definition unique_numbers :: "db \<Rightarrow> bool" where
  "unique_numbers d \<longleftrightarrow> unique_bibs (live_values d)"

lemma in_live_values: "v \<in> set (live_values d) \<longleftrightarrow> (\<exists>x \<in> set (db_regs d). \<not> rr_deleted x \<and> v = rr_value x)"
  by (auto simp: live_values_def)

lemma unique_numbers_cong: "db_regs d' = db_regs d \<Longrightarrow> unique_numbers d' = unique_numbers d"
  by (simp add: unique_numbers_def live_values_def)

subsection \<open>Rows that bring no new number\<close>

definition same_number :: "registration \<Rightarrow> registration \<Rightarrow> bool" where
  "same_number v w \<longleftrightarrow> reg_id w = reg_id v \<and> reg_event w = reg_event v \<and> reg_bib w = reg_bib v"

definition no_new_numbers :: "db \<Rightarrow> db \<Rightarrow> bool" where
  "no_new_numbers d d' \<longleftrightarrow> (\<forall>v \<in> set (live_values d'). reg_bib v = [] \<or> (\<exists>w \<in> set (live_values d). same_number v w))"

lemma no_new_numbers_refl [simp]: "no_new_numbers d d"
  by (auto simp: no_new_numbers_def same_number_def)

lemma no_new_numbers_unique:
  assumes "unique_numbers d" and "no_new_numbers d d'"
  shows "unique_numbers d'"
  unfolding unique_numbers_def unique_bibs_def
proof (intro ballI impI)
  fix v u assume v: "v \<in> set (live_values d')" "u \<in> set (live_values d')"
    and eq: "reg_bib v \<noteq> [] \<and> reg_bib v = reg_bib u \<and> reg_event v = reg_event u"
  have "reg_bib u \<noteq> []" using eq by auto
  then obtain w z where "w \<in> set (live_values d)" "same_number v w" "z \<in> set (live_values d)" "same_number u z"
    using assms(2) v eq unfolding no_new_numbers_def by blast
  then show "reg_id v = reg_id u"
    using assms(1) eq unfolding unique_numbers_def unique_bibs_def same_number_def by metis
qed

lemma put_regs:
  "put_registration r heads cat d = Inr d' \<Longrightarrow> db_regs d' = update_where (\<lambda>x. rr_id x = reg_id r \<and> rr_event x = reg_event r)
     (\<lambda>x. x\<lparr> rr_value := r, rr_heads := heads, rr_deleted := False \<rparr>) (db_regs d)"
  by (auto simp: put_registration_def Let_def split: if_split_asm)

lemma put_live:
  assumes "put_registration r heads cat d = Inr d'" and "v \<in> set (live_values d')"
  shows "v = r \<or> (\<exists>x \<in> set (db_regs d). \<not> rr_deleted x \<and> v = rr_value x \<and> \<not> (rr_id x = reg_id r \<and> rr_event x = reg_event r))"
proof -
  obtain x' where x': "x' \<in> set (db_regs d')" "\<not> rr_deleted x'" "v = rr_value x'" using assms(2) by (auto simp: in_live_values)
  then obtain x where x: "x \<in> set (db_regs d)" "x' = (if rr_id x = reg_id r \<and> rr_event x = reg_event r
      then x\<lparr> rr_value := r, rr_heads := heads, rr_deleted := False \<rparr> else x)"
    by (auto simp: put_regs [OF assms(1)] in_set_update_where)
  show ?thesis
  proof (cases "rr_id x = reg_id r \<and> rr_event x = reg_event r")
    case True
    then show ?thesis using x x' by simp
  next
    case False
    then show ?thesis using x x' by auto
  qed
qed

lemma no_new_numbers_put:
  assumes "put_registration r heads cat d = Inr d'" and "no_new_numbers d0 d"
    and "reg_bib r = [] \<or> (\<exists>w \<in> set (live_values d0). same_number r w)"
  shows "no_new_numbers d0 d'"
  unfolding no_new_numbers_def
proof
  fix v assume "v \<in> set (live_values d')"
  with put_live [OF assms(1)] have "v = r \<or> v \<in> set (live_values d)" by (auto simp: in_live_values)
  then show "reg_bib v = [] \<or> (\<exists>w \<in> set (live_values d0). same_number v w)"
    using assms(2,3) unfolding no_new_numbers_def by blast
qed

subsection \<open>A row that brings a number nobody has\<close>

definition free_number :: "db \<Rightarrow> registration \<Rightarrow> bool" where
  "free_number d r \<longleftrightarrow>
     (\<forall>w \<in> set (live_values d). reg_event w = reg_event r \<and> reg_bib w = reg_bib r \<longrightarrow> reg_id w = reg_id r)"

lemma unique_numbers_add:
  assumes "unique_numbers d" and "reg_bib r = [] \<or> free_number d r"
    and "set (live_values d') \<subseteq> insert r (set (live_values d))"
  shows "unique_numbers d'"
  unfolding unique_numbers_def unique_bibs_def
proof (intro ballI impI)
  fix v u assume "v \<in> set (live_values d')" "u \<in> set (live_values d')"
    and eq: "reg_bib v \<noteq> [] \<and> reg_bib v = reg_bib u \<and> reg_event v = reg_event u"
  then have "v \<in> insert r (set (live_values d))" "u \<in> insert r (set (live_values d))" using assms(3) by blast+
  then show "reg_id v = reg_id u"
    using assms(1,2) eq unfolding unique_numbers_def unique_bibs_def free_number_def by (metis insertE)
qed

lemma unique_numbers_put:
  assumes "put_registration r heads cat d = Inr d'" and "unique_numbers d" and "reg_bib r = [] \<or> free_number d r"
  shows "unique_numbers d'"
proof (rule unique_numbers_add [OF assms(2,3)])
  show "set (live_values d') \<subseteq> insert r (set (live_values d))"
  proof
    fix v assume "v \<in> set (live_values d')"
    from put_live [OF assms(1) this] show "v \<in> insert r (set (live_values d))" by (auto simp: in_live_values)
  qed
qed

lemma insert_regs:
  assumes "insert_registration r heads cat d = Inr d'"
  shows "db_regs d' = db_regs d @ [\<lparr> rr_id = reg_id r, rr_event = reg_event r, rr_value = r, rr_heads = heads, rr_deleted = False \<rparr>]"
  using assms upsert_member_books by (auto simp: insert_registration_def res_simps split: if_split_asm)

lemma unique_numbers_insert:
  assumes "insert_registration r heads cat d = Inr d'" and "unique_numbers d" and "reg_bib r = [] \<or> free_number d r"
  shows "unique_numbers d'"
  by (rule unique_numbers_add [OF assms(2,3)]) (auto simp: live_values_def insert_regs [OF assms(1)])

text \<open>The check of a number looks at the members; what it finds holds of the registrations.\<close>

lemma assigned_bib_number:
  assumes "valid_assigned_bib bib"
  shows "bib_number bib = Some (cast_integer bib)" "bib \<noteq> []"
proof -
  obtain n where n: "parse_int 32 bib = Some n" "0 < n" "format_int n = bib"
    using assms by (auto simp: valid_assigned_bib_def split: option.split_asm)
  have bib: "bib = format_nat (nat n)" using n(2,3) by (simp add: format_int_def)
  have digits: "list_all is_digit bib" unfolding bib by (rule format_nat_digits)
  then have "takeWhile is_digit bib = bib" by (intro takeWhile_eq_all_conv [THEN iffD2]) (simp add: list_all_iff)
  then have "cast_integer bib = n"
    unfolding cast_integer_def by (metis bib digits_value_format_nat n(2) nat_0_le order_less_imp_le)
  moreover have "n < 2 ^ 31" using n(1) by (auto simp: parse_int_def Let_def split: if_split_asm)
  then have "parse_int 64 (format_int n) = Some n" using n(2) by (intro parse_format_int) auto
  moreover show "bib \<noteq> []" using n(1) by (auto simp: parse_int_def)
  ultimately show "bib_number bib = Some (cast_integer bib)" using n(3) by (simp add: bib_number_def)
qed

lemma checked_number_free:
  assumes "check_number d event k bib = []" and "valid_assigned_bib bib" and "roster_inv d"
    and "w \<in> set (live_values d)" and "reg_event w = event" and "reg_bib w = bib"
  shows "reg_id w = k"
proof -
  obtain x where "x \<in> set (db_regs d)" "\<not> rr_deleted x" "w = rr_value x" using assms(4) by (auto simp: in_live_values)
  then obtain m where "m \<in> set (db_members d)" "projects w m" using roster_invD(3) [OF assms(3)] by (auto simp: mirrored_def)
  moreover from this have "mb_number m = Some (cast_integer bib)" "mb_event m = event" "mb_id m = reg_id w"
    using assigned_bib_number [OF assms(2)] assms(5,6) by (simp_all add: projects_def)
  ultimately show ?thesis using assms(1) by (auto simp: check_number_def list_ex_iff split: if_split_asm)
qed

subsection \<open>What a decision does to the numbers\<close>

definition quiet_changes :: "registration list \<Rightarrow> change list \<Rightarrow> bool" where
  "quiet_changes current cs \<longleftrightarrow> (\<forall>ch \<in> set cs. \<exists>b \<in> set current. reg_id (chg_after ch) = reg_id b \<and>
     reg_event (chg_after ch) = reg_event b \<and> bib_quiet b (chg_after ch))"

lemma quiet_changesI:
  assumes "\<And>ch. ch \<in> set cs \<Longrightarrow> lawful records c ch" and "\<And>ch. ch \<in> set cs \<Longrightarrow> bib_quiet (chg_before ch) (chg_after ch)"
  shows "quiet_changes records cs"
  using assms unfolding quiet_changes_def lawful_def keeps_def by metis

lemma quiet_move:
  assumes "apply_move rows source c = Inr cs" and "ch \<in> set cs"
  shows "bib_quiet (chg_before ch) (chg_after ch)"
proof -
  from assms(1) obtain target issue after where "moved_source source target c = Inr after"
    and cs: "cs = [mk_change source after, mk_change target (seated_target source target issue)]"
    unfolding apply_move_Inr by blast
  then have "bib_quiet source after"
    by (auto simp: moved_source_def vacate_source_def bib_quiet_def Let_def split: if_split_asm)
  then show ?thesis using assms(2) by (auto simp: cs seated_target_def bib_quiet_def)
qed

lemma quiet_single:
  assumes "bind_res r (\<lambda>after. Inr (single_change source after)) = Inr cs" and "ch \<in> set cs"
    and "\<And>a. r = Inr a \<Longrightarrow> bib_quiet source a"
  shows "bib_quiet (chg_before ch) (chg_after ch)"
  using assms by (auto simp: res_simps in_single_change)

lemma apply_cmd_quiet:
  assumes "apply_cmd records c = Inr cs"
    and "cmd_type c \<noteq> ''assign_number''" "cmd_type c \<noteq> ''create_registration''" "cmd_type c \<noteq> ''return_to_reserve''"
  shows "quiet_changes records cs"
proof (rule quiet_changesI [OF apply_cmd_lawful_changes [OF assms(1)]])
  fix ch assume ch: "ch \<in> set cs"
  show "bib_quiet (chg_before ch) (chg_after ch)"
  proof (rule apply_cmd_Inr [OF assms(1)])
    fix rows source assume "transition records rows source c = Inr cs"
    then show ?thesis using assms(2-4) unfolding transition_def Let_def
      by (auto split: if_split_asm elim!: quiet_single [OF _ ch] quiet_move [OF _ ch] dest: bib_quiet_commands)
  qed
qed

lemma apply_cmd_number:
  assumes "apply_cmd [r] c = Inr cs" and "cmd_type c = ''assign_number'' \<or> cmd_type c = ''create_registration''" and "ch \<in> set cs"
  shows "reg_id (chg_after ch) = cmd_reg c \<and> reg_id r = cmd_reg c \<and> reg_event (chg_after ch) = reg_event r \<and>
    (reg_bib (chg_after ch) = reg_bib r \<or> reg_bib (chg_after ch) = cmd_bib c \<and> valid_assigned_bib (cmd_bib c))"
proof (rule apply_cmd_Inr [OF assms(1)])
  fix rows source
  assume tr: "transition [r] rows source c = Inr cs" and s: "source \<in> set [r]" "reg_id source = cmd_reg c"
  then obtain a where a: "apply_number [r] r c = Inr a" "ch = mk_change r a"
    using assms(2,3) by (auto simp: transition_def Let_def res_simps in_single_change)
  show ?thesis
  proof (rule apply_number_Inr [OF a(1)])
    fix after assume h: "number_holder r c = Inr after"
      and "a = after \<or> valid_assigned_bib (cmd_bib c) \<and> (\<forall>x \<in> set [r]. reg_event x = reg_event r \<and> reg_id x \<noteq> reg_id r \<longrightarrow>
          reg_bib x \<noteq> cmd_bib c) \<and> (\<exists>i. a = after\<lparr> reg_bib := cmd_bib c, reg_issued := i \<rparr>)"
    then show ?thesis using number_holder_bib [OF h] s a(2) by (auto simp: keeps_def)
  qed
qed

lemma reverse_move_quiet:
  assumes "reverse_move current original reason = Inr cs"
  shows "quiet_changes current cs"
proof (rule reverse_move_Inr [OF assms])
  fix s t assume o: "original = [s, t]" "map_res (reverse_one current) original = Inr cs"
  show ?thesis unfolding quiet_changes_def
  proof
    fix ch assume "ch \<in> set cs"
    then obtain p where p: "reverse_one current p = Inr ch"
      using o(2) by (auto simp: map_res_Inr list_all2_conv_all_nth in_set_conv_nth)
    then show "\<exists>b \<in> set current. reg_id (chg_after ch) = reg_id b \<and> reg_event (chg_after ch) = reg_event b \<and> bib_quiet b (chg_after ch)"
      using reverse_one_Inr [OF p] by (intro bexI [of _ "chg_after p"]) (auto simp: reverse_one_def bib_quiet_def split: option.split_asm if_split_asm)
  qed
qed

lemma decision_derived:
  assumes "packet_merge_decision current op lookup = (''applied'', code, changes)"
  shows "derive_changes current op lookup = Inr (Inr changes)"
  using assms derive_changes_cases(1) [of current op lookup]
  by (auto simp: packet_merge_decision_def split: option.split_asm if_split_asm sum.split_asm)

lemma decision_quiet:
  assumes "packet_merge_decision current op lookup = (''applied'', code, changes)"
    and "cmd_type (op_command op) \<notin> {''assign_number'', ''create_registration'', ''return_to_reserve''}"
  shows "quiet_changes current changes"
  using decision_derived [OF assms(1)] assms(2) apply_cmd_quiet reverse_move_quiet
  by (fastforce simp: derive_changes_def split: if_split_asm option.split_asm prod.split_asm)

lemma decision_command:
  assumes "packet_merge_decision current op lookup = (''applied'', code, changes)" and "cmd_type (op_command op) \<noteq> ''correct_move''"
  shows "apply_cmd current (op_command op) = Inr changes"
  using decision_derived [OF assms(1)] assms(2) by (auto simp: derive_changes_def)

subsection \<open>Every branch of the receiver\<close>

lemma live_reg_value:
  assumes "live_reg d event k = Inr r" and "roster_inv d"
  shows "\<exists>w \<in> set (live_values d). same_number r w"
proof -
  obtain x where x: "find_reg d event k = Some x" "\<not> rr_deleted x" "with_evidence d (rr_value x) = Inr r"
    using assms(1) by (auto simp: live_reg_def split: option.split_asm if_split_asm)
  then have "x \<in> set (db_regs d)" by (auto simp: find_reg_def dest: find_Some_iff')
  moreover have "same_number r (rr_value x)" using x(3) by (auto simp: with_evidence_def same_number_def res_simps)
  ultimately show ?thesis using x(2) unfolding in_live_values Bex_def by blast
qed

lemma get_registrations_value:
  assumes "get_registrations d event ks = Inr current" and "roster_inv d" and "r \<in> set current"
  shows "\<exists>w \<in> set (live_values d). same_number r w"
proof -
  from assms(1) have "list_all2 (\<lambda>k r. live_reg d event k = Inr r) ks current"
    by (auto simp: get_registrations_def map_res_Inr split: if_split_asm)
  with assms(3) obtain k where "live_reg d event k = Inr r"
    by (auto simp: list_all2_conv_all_nth in_set_conv_nth)
  from live_reg_value [OF this assms(2)] show ?thesis .
qed

lemma quiet_number:
  assumes "\<exists>w \<in> set (live_values d). same_number b w" and "reg_id a = reg_id b" "reg_event a = reg_event b" "bib_quiet b a"
  shows "reg_bib a = [] \<or> (\<exists>w \<in> set (live_values d). same_number a w)"
  using assms by (auto simp: bib_quiet_def same_number_def)

lemma project_fold_numbers:
  assumes "fold_res (project_change age_on op) cs d = Inr d'" and "no_new_numbers d0 d"
    and "\<And>ch. ch \<in> set cs \<Longrightarrow> reg_bib (chg_after ch) = [] \<or> (\<exists>w \<in> set (live_values d0). same_number (chg_after ch) w)"
  shows "no_new_numbers d0 d'"
  using assms
proof (induction cs arbitrary: d)
  case (Cons ch cs)
  from Cons.prems(1) obtain d2 where d2: "project_change age_on op ch d = Inr d2"
    and rest: "fold_res (project_change age_on op) cs d2 = Inr d'" by (auto simp: res_simps)
  obtain cat d1 where put: "put_registration (chg_after ch) [op_id op] cat d1 = Inr d2" and regs: "db_regs d1 = db_regs d"
    by (rule project_change_put [OF d2])
  have "no_new_numbers d0 d1" using Cons.prems(2) by (simp add: no_new_numbers_def live_values_def regs)
  then have "no_new_numbers d0 d2" by (rule no_new_numbers_put [OF put]) (rule Cons.prems(3), simp)
  then show ?case by (rule Cons.IH [OF rest]) (rule Cons.prems(3), simp)
qed simp

abbreviation unique_verdict :: "verdict \<Rightarrow> bool" where
  "unique_verdict v \<equiv> unique_numbers (fst v)"

lemma settle_changes_numbers:
  assumes "roster_inv d" and "unique_numbers d"
    and "cmd_type (op_command op) \<notin> {''assign_number'', ''create_registration'', ''return_to_reserve''}"
  shows "ensures (settle_changes age_on event op d) unique_verdict"
  unfolding settle_changes_def
proof (intro ensures_intros)
  fix current decision x code changes d1
  assume cur: "get_registrations d event (map chg_reg (op_changes op)) = Inr current"
    and dec: "packet_merge_decision current op (lookup_operation d) = (decision, x)" "x = (code, changes)" "decision = ''applied''"
    and proj: "project_changes age_on event op changes d = Inr d1"
  have quiet: "quiet_changes current changes" using decision_quiet dec assms(3) by blast
  from proj obtain clubs d2 where fold: "fold_res (project_change age_on op) changes d = Inr d2"
    and clubs: "apply_clubs event clubs d2 = Inr d1" by (auto simp: project_changes_def res_simps)
  have "no_new_numbers d d2"
  proof (rule project_fold_numbers [OF fold])
    fix ch assume "ch \<in> set changes"
    then obtain b where "b \<in> set current" "reg_id (chg_after ch) = reg_id b" "reg_event (chg_after ch) = reg_event b"
      "bib_quiet b (chg_after ch)" using quiet unfolding quiet_changes_def by blast
    then show "reg_bib (chg_after ch) = [] \<or> (\<exists>w \<in> set (live_values d). same_number (chg_after ch) w)"
      using quiet_number get_registrations_value [OF cur assms(1)] by blast
  qed simp
  then show "unique_verdict (d1, decision, code, changes)"
    using no_new_numbers_unique [OF assms(2)] unique_numbers_cong [OF apply_clubs_regs [OF clubs]] by simp
qed (simp_all add: assms(2))

lemma settle_assignment_numbers:
  assumes "roster_inv d" and "unique_numbers d" and "number_code d event (op_command op) = []"
    and "cmd_type (op_command op) = ''assign_number'' \<or> cmd_type (op_command op) = ''create_registration''"
  shows "ensures (settle_assignment event op d) unique_verdict"
  unfolding settle_assignment_def
proof (intro ensures_intros)
  fix current decision x code changes ch rest m d1
  assume cur: "get_registrations d event [cmd_reg (op_command op)] = Inr current"
    and dec: "packet_merge_decision current op (lookup_operation d) = (decision, x)" "x = (code, changes)" "decision = ''applied''"
    and ch: "changes = ch # rest" and put: "put_registration (chg_after ch) [op_id op] (mb_category m) d = Inr d1"
  let ?a = "chg_after ch"
  obtain r where r: "current = [r]" using cur by (rule get_one_registration)
  have "apply_cmd [r] (op_command op) = Inr changes" using decision_command dec assms(4) r by fastforce
  note n = apply_cmd_number [OF this assms(4), of ch]
  have w: "\<exists>w \<in> set (live_values d). same_number r w" using get_registrations_value [OF cur assms(1)] r by simp
  have event: "reg_event r = event" using get_registrations_rows [OF cur assms(1)] r by simp
  have "unique_numbers d1"
  proof (cases "reg_bib ?a = reg_bib r")
    case True
    then have "no_new_numbers d d1"
      using w n ch by (intro no_new_numbers_put [OF put]) (auto simp: same_number_def)
    then show ?thesis by (rule no_new_numbers_unique [OF assms(2)])
  next
    case False
    then have bib: "reg_bib ?a = cmd_bib (op_command op)" "valid_assigned_bib (cmd_bib (op_command op))" using n ch by simp_all
    then have "check_number d event (cmd_reg (op_command op)) (cmd_bib (op_command op)) = []"
      using assms(3) assigned_bib_number(2) by (auto simp: number_code_def split: if_split_asm)
    then have "free_number d ?a"
      using checked_number_free [OF _ bib(2) assms(1)] n ch event bib(1) unfolding free_number_def by auto
    then show ?thesis using unique_numbers_put [OF put assms(2)] by blast
  qed
  then show "unique_verdict (d1, decision, code, changes)" by simp
qed (simp_all add: assms(2))

lemma settle_creation_numbers:
  assumes "roster_inv d" and "unique_numbers d" and "number_code d event (op_command op) = []"
    and "cmd_type (op_command op) = ''create_registration''" and "cmd_event (op_command op) = event"
  shows "ensures (settle_creation age_on event op d) unique_verdict"
  unfolding settle_creation_def
proof (intro ensures_intros)
  fix c empty decision x code changes ch rest cat d1
  assume c: "c = op_command op" and empty: "empty_registration c = Inr empty"
    and dec: "packet_merge_decision [empty] op (lookup_operation d) = (decision, x)" "x = (code, changes)" "decision = ''applied''"
    and ch: "changes = ch # rest" and ins: "insert_registration (chg_after ch) [op_id op] cat d = Inr d1"
  let ?a = "chg_after ch"
  have "apply_cmd [empty] (op_command op) = Inr changes" using decision_command dec assms(4) by fastforce
  note n = apply_cmd_number [OF this disjI2 [OF assms(4)], of ch]
  have e: "reg_bib empty = []" "reg_event empty = event" using empty_registration_Inr [OF empty] assms(5) c by simp_all
  have "reg_bib ?a = [] \<or> free_number d ?a"
  proof (cases "reg_bib ?a = []")
    case False
    then have bib: "reg_bib ?a = cmd_bib c" "valid_assigned_bib (cmd_bib c)" using n ch e c by auto
    then have "check_number d event (cmd_reg c) (cmd_bib c) = []"
      using assms(3) assigned_bib_number(2) c by (auto simp: number_code_def split: if_split_asm)
    then show ?thesis
      using checked_number_free [OF _ bib(2) assms(1)] n ch e c bib(1) unfolding free_number_def by auto
  qed simp
  then show "unique_verdict (d1, decision, code, changes)" using unique_numbers_insert [OF ins assms(2)] by simp
qed (simp_all add: assms(2))

lemma settle_return_numbers:
  assumes "roster_inv d" and "unique_numbers d" and "cmd_type (op_command op) = ''return_to_reserve''"
  shows "ensures (settle_return event op d) unique_verdict"
  unfolding settle_return_def
proof (intro ensures_intros)
  fix c code' current empty decision x code changes s y t z d1
  assume c: "c = op_command op" and code': "code' = check_number d event (cmd_reg c) (cmd_bib c)" "\<not> code' \<noteq> []"
    and cur: "get_registrations d event [cmd_reg c] = Inr current" and empty: "empty_reserve c (hd current) = Inr empty"
    and dec: "packet_merge_decision (current @ [empty]) op (lookup_operation d) = (decision, x)" "x = (code, changes)"
      "decision = ''applied''"
    and ch: "changes = s # y" "y = t # z" and st: "store_return op s t d = Inr d1"
  have "apply_cmd (current @ [empty]) c = Inr changes" using decision_command dec assms(3) c by fastforce
  then obtain rows source where tr: "transition (current @ [empty]) rows source c = Inr changes"
    and id: "reg_id source = cmd_reg c" and src: "source \<in> set (current @ [empty])" by (rule apply_cmd_Inr)
  then have "apply_return_to_reserve rows source c = Inr changes" using assms(3) c by (simp add: transition_def Let_def)
  then obtain target where bib: "valid_assigned_bib (cmd_bib c)" and target: "empty_reserve c source = Inr target"
    and other: "reg_id target \<noteq> reg_id source"
    and cs: "changes = [mk_change source (source\<lparr> reg_bib := [], reg_epc := [], reg_issued := False \<rparr>),
        mk_change target (target\<lparr> reg_bib := cmd_bib c, reg_epc := reg_epc source, reg_reserve := True \<rparr>)]"
    unfolding apply_return_to_reserve_Inr by blast
  obtain m :: member and e1 e2 where put: "put_registration (chg_after s) [op_id op] (mb_category m) d = Inr e1"
    and ins: "insert_registration (chg_after t) [op_id op] None (restore_rfid (cmd_reg c) None e1) = Inr e2"
    and d1: "restore_rfid (cmd_target c) (mb_rfid m) e2 = d1"
    using st c by (simp only: store_return_def res_simps Let_def sum.inject) blast
  note t = empty_reserve_simps [OF target]
  have "source \<noteq> empty" using other t(10) empty_reserve_simps(10) [OF empty] id by metis
  then have "source \<in> set current" using src by (simp only: set_append list.simps Un_iff insert_iff) blast
  then have event: "reg_event source = event" using get_registrations_rows [OF cur assms(1)] by simp
  have after: "chg_after s = source\<lparr> reg_bib := [], reg_epc := [], reg_issued := False \<rparr>"
    "chg_after t = target\<lparr> reg_bib := cmd_bib c, reg_epc := reg_epc source, reg_reserve := True \<rparr>"
    using cs ch by simp_all
  have "unique_numbers e1" using unique_numbers_put [OF put assms(2)] after by simp
  then have unique: "unique_numbers (restore_rfid (cmd_reg c) None e1)"
    by (rule iffD2 [OF unique_numbers_cong, rotated]) simp
  have gone: False if w: "w \<in> set (live_values e1)" "reg_event w = event" "reg_bib w = cmd_bib c" for w
    using put_live [OF put w(1)]
  proof
    assume "w = chg_after s"
    then show False using w(3) assigned_bib_number(2) [OF bib] after by simp
  next
    assume "\<exists>x \<in> set (db_regs d). \<not> rr_deleted x \<and> w = rr_value x \<and>
      \<not> (rr_id x = reg_id (chg_after s) \<and> rr_event x = reg_event (chg_after s))"
    then obtain x where x: "x \<in> set (db_regs d)" "\<not> rr_deleted x" "w = rr_value x"
      "\<not> (rr_id x = reg_id source \<and> rr_event x = event)" by (auto simp: after event)
    have "w \<in> set (live_values d)" using x by (auto simp: in_live_values)
    then have "reg_id w = cmd_reg c" using checked_number_free [OF _ bib assms(1) _ w(2,3)] code' by simp
    then show False using roster_invD(3) [OF assms(1) x(1)] x(3,4) w(2) id by (auto simp: mirrored_def)
  qed
  have "live_values (restore_rfid (cmd_reg c) None e1) = live_values e1" by (simp add: live_values_def)
  then have "free_number (restore_rfid (cmd_reg c) None e1) (chg_after t)"
    using gone t(8) event unfolding free_number_def after by auto
  then have "unique_numbers e2" using unique_numbers_insert [OF ins unique] by blast
  then show "unique_verdict (d1, decision, code, changes)" using unique_numbers_cong [of d1 e2] d1 by auto
qed (simp_all add: assms(2))

text \<open>A parsed operation creates a registration in the event it is about.\<close>

lemma parsed_creation_event:
  assumes "parse_operation_json v False = Inr op" and "cmd_type (op_command op) = ''create_registration''"
  shows "cmd_event (op_command op) = op_event op"
proof -
  let ?c = "op_command op"
  have p: "apply_cmd (op_rows op) ?c = Inr (op_changes op)" "length (op_changes op) \<in> {1, 2}"
    using parse_operation_sound_lemma [OF assms(1)] assms(2) by simp_all
  from p(1) show ?thesis
  proof (rule apply_cmd_Inr)
    fix rows source assume "transition (op_rows op) rows source ?c = Inr (op_changes op)"
    then obtain a where a: "apply_number (op_rows op) source ?c = Inr a" "op_changes op = single_change source a"
      using assms(2) by (auto simp: transition_def res_simps)
    from a(1) obtain after where h: "number_holder source ?c = Inr after" by (rule apply_number_Inr)
    then obtain blank where "empty_registration ?c = Inr blank" "source = blank"
      using assms(2) by (auto simp: number_holder_def res_simps split: if_split_asm)
    then have "reg_event source = cmd_event ?c" using empty_registration_Inr by fastforce
    moreover have "op_changes op = [mk_change source a]" using a(2) p(2) by (auto simp: single_change_def split: if_split_asm)
    ultimately show ?thesis by (simp add: op_event_def)
  qed
qed

lemma settle_numbers:
  assumes "roster_inv d" and "unique_numbers d" and "parse_operation_json v False = Inr op"
  shows "ensures (settle age_on con op d) unique_verdict"
  unfolding settle_def settle_number_def
  by (intro ensures_intros settle_return_numbers settle_creation_numbers settle_assignment_numbers settle_changes_numbers assms(1,2))
    (use assms(2) parsed_creation_event [OF assms(3)] in auto)

lemma receive_one_numbers:
  assumes "receive_one sha age_on at con op d = Inr (d', r)" and "roster_inv d" and "unique_numbers d"
    and "parse_operation_json v False = Inr op"
  shows "unique_numbers d'"
  using assms(1)
proof (cases rule: receive_one_cases)
  case (known o')
  then show ?thesis using assms(3) by simp
next
  case (settled known d0 outcome code changes d1)
  have "unique_numbers d0" using ensuresD [OF settle_numbers [OF assms(2-4)] settled(2)] by simp
  moreover obtain ops where "d1 = d0\<lparr> db_ops := ops \<rparr>" using save_operation_rest [OF settled(3)] by blast
  moreover have "db_regs d' = db_regs d1" using publish_operation_rest [OF settled(4)] by (simp add: same_rows_def)
  ultimately show ?thesis using unique_numbers_cong [of d' d0] by simp
qed

lemma receive_loop_numbers:
  assumes "roster_inv d" and "unique_numbers d" and "\<forall>op \<in> set ops. \<exists>v. parse_operation_json v False = Inr op"
  shows "unique_numbers (fst (receive_loop sha age_on at con ops acc d))"
  using assms
proof (induction ops arbitrary: acc d)
  case (Cons op ops)
  show ?case
  proof (cases "receive_one sha age_on at con op d")
    case (Inr x)
    obtain d1 r where x: "x = (d1, r)" by (cases x)
    then have one: "receive_one sha age_on at con op d = Inr (d1, r)" using Inr by simp
    have "roster_inv d1" by (rule received.inv_step [OF _ Cons.prems(1)]) (use one in \<open>auto intro: receive_step.intros\<close>)
    moreover have "unique_numbers d1" using receive_one_numbers [OF one Cons.prems(1,2)] Cons.prems(3) by auto
    ultimately show ?thesis using Inr x Cons.IH [of d1 "acc @ [r]"] Cons.prems(3) by simp
  qed (use Cons.prems in simp)
qed simp

text \<open>
  C2. Start numbers stay unique.  If no two live registrations of an event have the same start number, this is so
  after every batch of parsed tablet operations, wherever it stops: a number that a command names, to assign it, to
  create a participant with it or to return it to the reserve, is free among all members of the event when it is
  applied, and every other command only moves or clears the numbers of the rows it names.
\<close>

theorem receive_keeps_numbers:
  assumes "roster_inv d" and "unique_numbers d" and "\<forall>op \<in> set ops. \<exists>v. parse_operation_json v False = Inr op"
  shows "unique_numbers (fst (receive sha age_on at con ops d))"
  using receive_loop_numbers [OF assms] assms(2) by (simp add: receive_def)

text \<open>Two registered participants with different numbers, and a tablet that issues the packet of one.\<close>

definition w_beside :: registration where
  "w_beside = w_moved\<lparr> reg_id := ''2'', reg_bib := ''8'' \<rparr>"

definition w_pair :: db where
  "w_pair = w_recv\<lparr>
     db_members := [w_member, (registration_member w_beside None)\<lparr> mb_start_source := ''unknown'' \<rparr>],
     db_regs := [\<lparr> rr_id = ''1'', rr_event = ''e'', rr_value = w_moved, rr_heads = [], rr_deleted = False \<rparr>,
       \<lparr> rr_id = ''2'', rr_event = ''e'', rr_value = w_beside, rr_heads = [], rr_deleted = False \<rparr>] \<rparr>"

lemma w_pair_inv: "roster_inv w_pair" "unique_numbers w_pair"
proof -
  have "projects w_moved w_member" "projects w_beside ((registration_member w_beside None)\<lparr> mb_start_source := ''unknown'' \<rparr>)"
    by (simp_all add: w_member_def projects_source)
  then show "roster_inv w_pair"
    by (simp add: roster_inv_def w_pair_def mirrored_def w_moved_fields w_member_fields w_beside_def)
  show "unique_numbers w_pair"
    by (auto simp: unique_numbers_def unique_bibs_def live_values_def w_pair_def w_beside_def w_moved_def
        w_source_def zero_registration_def)
qed

theorem receive_keeps_numbers_witness:
  "\<exists>op. parse_operation_json w_operation_json False = Inr op
     \<and> unique_numbers (fst (receive w_sha w_age 5 w_con [op] w_pair))"
proof -
  obtain op where op: "parse_operation_json w_operation_json False = Inr op" using w_operation_parsed by blast
  show ?thesis using receive_keeps_numbers [OF w_pair_inv, of "[op]" w_sha w_age 5 w_con] op by auto
qed

end
