(* ===== verification/GoLib.thy ===== *)
theory GoLib
  imports GoText
begin

text \<open>
  What the desk uses of the standard library besides texts and numbers: the parsing of instants, of addresses and of
  floating-point numbers, each with the tolerances of the library's own parser.
\<close>

section \<open>Instants\<close>

text \<open>
  \<^verbatim>\<open>time.Parse(time.RFC3339Nano, s).UnixMilli()\<close>, with what the parser of the standard library tolerates:
  an hour of one digit, a comma before the fraction, offsets up to 24:60.  Digits of a fraction beyond
  the ninth are read and ignored, and what follows the fraction must be the zone.
\<close>

definition leaps :: "int \<Rightarrow> int" where
  "leaps y = y div 4 - y div 100 + y div 400"

definition unix_days :: "nat \<Rightarrow> nat \<Rightarrow> nat \<Rightarrow> int" where
  "unix_days y m d = 365 * (int y - 1970) + leaps (int y - 1) - leaps 1969
     + int (sum_list (map (days_in y) [1..<m])) + int d - 1"

definition read_digits :: "nat \<Rightarrow> string \<Rightarrow> (nat \<times> string) option" where
  "read_digits k s = (if k \<le> length s \<and> list_all is_digit (take k s)
     then Some (digits_value (take k s), drop k s) else None)"

definition read_hour :: "string \<Rightarrow> (nat \<times> string) option" where
  "read_hour s = (case read_digits 2 s of Some x \<Rightarrow> Some x | None \<Rightarrow> read_digits 1 s)"

definition read_char :: "char \<Rightarrow> string \<Rightarrow> string option" where
  "read_char c s = (case s of [] \<Rightarrow> None | x # xs \<Rightarrow> if x = c then Some xs else None)"

text \<open>The milliseconds of a fraction, if there is one.\<close>

definition read_fraction :: "string \<Rightarrow> nat \<times> string" where
  "read_fraction s =
    (if s \<noteq> [] \<and> (hd s = CHR ''.'' \<or> hd s = CHR '','') \<and> tl s \<noteq> [] \<and> is_digit (hd (tl s))
     then let ds = takeWhile is_digit (tl s)
          in (digits_value (take 3 (ds @ ''00'')), drop (length ds + 1) s)
     else (0, s))"

definition read_zone :: "string \<Rightarrow> int option" where
  "read_zone s =
    (if s = ''Z'' then Some 0
     else if s = [] \<or> hd s \<notin> {CHR ''+'', CHR ''-''} then None
     else Option.bind (read_digits 2 (tl s)) (\<lambda>(h, r).
          Option.bind (read_char CHR '':'' r) (\<lambda>r.
          Option.bind (read_digits 2 r) (\<lambda>(m, r).
            if r \<noteq> [] \<or> h > 24 \<or> m > 60 then None
            else Some (if hd s = CHR ''-'' then - int (60 * h + m) else int (60 * h + m))))))"

definition read_date :: "string \<Rightarrow> (int \<times> string) option" where
  "read_date s =
    Option.bind (read_digits 4 s) (\<lambda>(y, r). Option.bind (read_char CHR ''-'' r) (\<lambda>r.
    Option.bind (read_digits 2 r) (\<lambda>(m, r). Option.bind (read_char CHR ''-'' r) (\<lambda>r.
    Option.bind (read_digits 2 r) (\<lambda>(d, r).
      if m < 1 \<or> m > 12 \<or> d < 1 \<or> d > days_in y m then None else Some (unix_days y m d, r))))))"

definition read_clock :: "string \<Rightarrow> (int \<times> string) option" where
  "read_clock s =
    Option.bind (read_hour s) (\<lambda>(h, r). Option.bind (read_char CHR '':'' r) (\<lambda>r.
    Option.bind (read_digits 2 r) (\<lambda>(m, r). Option.bind (read_char CHR '':'' r) (\<lambda>r.
    Option.bind (read_digits 2 r) (\<lambda>(sec, r).
      if h > 23 \<or> m > 59 \<or> sec > 59 then None
      else let (ms, r) = read_fraction r in Some (3600000 * int h + 60000 * int m + 1000 * int sec + int ms, r))))))"

definition rfc3339_millis :: "string \<Rightarrow> int option" where
  "rfc3339_millis s =
    Option.bind (read_date s) (\<lambda>(days, r). Option.bind (read_char CHR ''T'' r) (\<lambda>r.
    Option.bind (read_clock r) (\<lambda>(ms, r). Option.bind (read_zone r) (\<lambda>zone.
      Some (86400000 * days + ms - 60000 * zone)))))"

lemmas [text_eval] = leaps_def unix_days_def read_digits_def read_hour_def read_char_def read_fraction_def
  read_zone_def read_date_def read_clock_def rfc3339_millis_def

lemma rfc3339_utc: "rfc3339_millis ''2025-05-01T10:00:00.5Z'' = Some 1746093600500"
  by code_simp

lemma rfc3339_offset: "rfc3339_millis ''2025-05-01T13:00:00+03:00'' = Some 1746093600000"
  by code_simp

lemma rfc3339_rejected: "rfc3339_millis ''2025-02-29T10:00:00Z'' = None"
  by code_simp

section \<open>Addresses and paths\<close>

text \<open>
  What the program uses of \<^verbatim>\<open>strings.TrimSpace\<close>, \<^verbatim>\<open>strings.TrimPrefix\<close>, \<^verbatim>\<open>net.SplitHostPort\<close>,
  \<^verbatim>\<open>net.JoinHostPort\<close> and, on Unix, \<^verbatim>\<open>filepath.IsAbs\<close> with \<^verbatim>\<open>filepath.Clean\<close>.
\<close>

definition space_texts :: "string list" where
  "space_texts = [[CHR 0x09], [CHR 0x0A], [CHR 0x0B], [CHR 0x0C], [CHR 0x0D], [CHR 0x20], [CHR 0xC2, CHR 0x85],
     [CHR 0xC2, CHR 0xA0], [CHR 0xE1, CHR 0x9A, CHR 0x80], [CHR 0xE2, CHR 0x80, CHR 0x80], [CHR 0xE2, CHR 0x80, CHR 0x81],
     [CHR 0xE2, CHR 0x80, CHR 0x82], [CHR 0xE2, CHR 0x80, CHR 0x83], [CHR 0xE2, CHR 0x80, CHR 0x84],
     [CHR 0xE2, CHR 0x80, CHR 0x85], [CHR 0xE2, CHR 0x80, CHR 0x86], [CHR 0xE2, CHR 0x80, CHR 0x87],
     [CHR 0xE2, CHR 0x80, CHR 0x88], [CHR 0xE2, CHR 0x80, CHR 0x89], [CHR 0xE2, CHR 0x80, CHR 0x8A],
     [CHR 0xE2, CHR 0x80, CHR 0xA8], [CHR 0xE2, CHR 0x80, CHR 0xA9], [CHR 0xE2, CHR 0x80, CHR 0xAF],
     [CHR 0xE2, CHR 0x81, CHR 0x9F], [CHR 0xE3, CHR 0x80, CHR 0x80]]"

definition has_prefix :: "string \<Rightarrow> string \<Rightarrow> bool" where
  "has_prefix p s \<longleftrightarrow> take (length p) s = p"

definition trim_prefix :: "string \<Rightarrow> string \<Rightarrow> string" where
  "trim_prefix p s = (if has_prefix p s then drop (length p) s else s)"

function strip_front :: "string list \<Rightarrow> string \<Rightarrow> string" where
  "strip_front ps s = (case List.find (\<lambda>p. p \<noteq> [] \<and> has_prefix p s) ps of
     None \<Rightarrow> s
   | Some p \<Rightarrow> strip_front ps (drop (length p) s))"
  by auto
termination
proof (relation "measure (length \<circ> snd)")
  fix ps :: "string list" and s p
  assume "List.find (\<lambda>p. p \<noteq> [] \<and> has_prefix p s) ps = Some p"
  then have "p \<noteq> []" "has_prefix p s" by (auto simp: find_Some_iff)
  then show "((ps, drop (length p) s), (ps, s)) \<in> measure (length \<circ> snd)"
    by (cases s) (auto simp: has_prefix_def)
qed simp

declare strip_front.simps [simp del]

definition trim_space :: "string \<Rightarrow> string" where
  "trim_space s = rev (strip_front (map rev space_texts) (rev (strip_front space_texts s)))"

text \<open>\<^verbatim>\<open>unicode.IsControl\<close>.\<close>

definition is_control :: "nat \<Rightarrow> bool" where
  "is_control r \<longleftrightarrow> r < 32 \<or> (127 \<le> r \<and> r < 160)"

text \<open>The host and the port of an address, or nothing where the Go function fails.\<close>

definition last_colon :: "string \<Rightarrow> nat option" where
  "last_colon s = (case dropWhile (\<lambda>c. c \<noteq> CHR '':'') (rev s) of [] \<Rightarrow> None | _ # r \<Rightarrow> Some (length r))"

definition index_of :: "char \<Rightarrow> string \<Rightarrow> nat option" where
  "index_of c s = (let i = length (takeWhile (\<lambda>x. x \<noteq> c) s) in if i < length s then Some i else None)"

definition split_host_port :: "string \<Rightarrow> (string \<times> string) option" where
  "split_host_port s =
    Option.bind (last_colon s) (\<lambda>i.
      let port = drop (i + 1) s in
      if hd s = CHR ''['' then
        Option.bind (index_of (CHR '']'') s) (\<lambda>close.
          if close + 1 \<noteq> i then None
          else if CHR ''['' \<in> set (drop 1 s) \<or> CHR '']'' \<in> set (drop (close + 1) s) then None
          else Some (drop 1 (take close s), port))
      else let host = take i s in
        if CHR '':'' \<in> set host \<or> CHR ''['' \<in> set s \<or> CHR '']'' \<in> set s then None
        else Some (host, port))"

definition join_host_port :: "string \<Rightarrow> string \<Rightarrow> string" where
  "join_host_port host port =
    (if CHR '':'' \<in> set host then ''['' @ host @ '']:'' @ port else host @ '':'' @ port)"

fun path_parts :: "string \<Rightarrow> string list" where
  "path_parts [] = [[]]"
| "path_parts (c # s) =
    (if c = CHR ''/'' then [] # path_parts s
     else case path_parts s of [] \<Rightarrow> [[c]] | p # ps \<Rightarrow> (c # p) # ps)"

definition clean_absolute :: "string \<Rightarrow> bool" where
  "clean_absolute p \<longleftrightarrow> p = ''/'' \<or>
     (p \<noteq> [] \<and> hd p = CHR ''/'' \<and> list_all (\<lambda>q. q \<noteq> [] \<and> q \<noteq> ''.'' \<and> q \<noteq> ''..'') (path_parts (tl p)))"

lemma trim_space_sample: "trim_space '' tcp://hub:9 '' = ''tcp://hub:9''"
  by code_simp

lemma split_samples:
  "split_host_port ''hub:9000'' = Some (''hub'', ''9000'')"
  "split_host_port ''[::1]:9000'' = Some (''::1'', ''9000'')"
  "split_host_port ''::1:9000'' = None" "split_host_port ''hub'' = None"
  by code_simp+

text \<open>A joined address splits into the parts it was joined from.\<close>

lemma last_colon_append: "CHR '':'' \<notin> set port \<Longrightarrow> last_colon (s @ CHR '':'' # port) = Some (length s)"
proof -
  assume port: "CHR '':'' \<notin> set port"
  have "dropWhile (\<lambda>c. c \<noteq> CHR '':'') (rev port @ CHR '':'' # rev s) = CHR '':'' # rev s"
    using port by (subst dropWhile_append2) auto
  then show ?thesis by (simp add: last_colon_def)
qed

lemma split_joined:
  assumes "CHR '':'' \<notin> set port" and "CHR ''['' \<notin> set port" and "CHR '']'' \<notin> set port"
    and "CHR ''['' \<notin> set host" and "CHR '']'' \<notin> set host"
  shows "split_host_port (join_host_port host port) = Some (host, port)"
proof (cases "CHR '':'' \<in> set host")
  case True
  have "last_colon ((''['' @ host @ '']'') @ CHR '':'' # port) = Some (length (''['' @ host @ '']''))"
    by (rule last_colon_append [OF assms(1)])
  then have 1: "last_colon (''['' @ host @ '']:'' @ port) = Some (length host + 2)" by simp
  have "takeWhile (\<lambda>x. x \<noteq> CHR '']'') (''['' @ host @ '']:'' @ port) = ''['' @ host"
    using assms(5) by (subst append_assoc [symmetric], subst takeWhile_append2) auto
  then have 2: "index_of (CHR '']'') (''['' @ host @ '']:'' @ port) = Some (length host + 1)" by (simp add: index_of_def)
  show ?thesis using True assms 1 2 by (auto simp: split_host_port_def join_host_port_def)
next
  case False
  have "last_colon (host @ CHR '':'' # port) = Some (length host)" by (rule last_colon_append [OF assms(1)])
  moreover have "hd (host @ CHR '':'' # port) \<noteq> CHR ''[''" using assms(4) by (cases host) auto
  ultimately show ?thesis using False assms by (auto simp: split_host_port_def join_host_port_def)
qed

section \<open>JSON numbers decoded to integers\<close>

text \<open>
  \<^verbatim>\<open>encoding/json\<close> decodes a number into a \<^verbatim>\<open>float64\<close>, and the editor converts that to an \<^verbatim>\<open>int64\<close>: the exact
  decimal value is rounded to 53 significant bits, half to even, and truncated towards zero.  Outside of the 64-bit
  range the conversion is left to the implementation; the value is the one of amd64.
\<close>

record decimal =
  dc_negative :: bool
  dc_digits :: nat
  dc_exponent :: int

definition split_at :: "(char \<Rightarrow> bool) \<Rightarrow> string \<Rightarrow> string \<times> string" where
  "split_at p s = (takeWhile (\<lambda>c. \<not> p c) s, drop 1 (dropWhile (\<lambda>c. \<not> p c) s))"

definition exponent_of :: "string \<Rightarrow> int" where
  "exponent_of s = (case s of [] \<Rightarrow> 0
     | c # ds \<Rightarrow> if c = CHR ''-'' then - int (digits_value ds) else if c = CHR ''+'' then int (digits_value ds)
         else int (digits_value s))"

definition decimal_of :: "string \<Rightarrow> decimal" where
  "decimal_of s =
    (let negative = (s \<noteq> [] \<and> hd s = CHR ''-''); body = (if negative then tl s else s);
         (mantissa, exponent) = split_at (\<lambda>c. c = CHR ''e'' \<or> c = CHR ''E'') body;
         (whole, fraction) = split_at (\<lambda>c. c = CHR ''.'') mantissa in
     \<lparr> dc_negative = negative, dc_digits = digits_value (whole @ fraction),
       dc_exponent = exponent_of exponent - int (length fraction) \<rparr>)"

definition half_even :: "nat \<Rightarrow> nat \<Rightarrow> nat" where
  "half_even a b = (let q = a div b; r = a mod b in if 2 * r > b \<or> 2 * r = b \<and> odd q then q + 1 else q)"

fun bit_count :: "nat \<Rightarrow> nat" where
  "bit_count n = (if n = 0 then 0 else Suc (bit_count (n div 2)))"

declare bit_count.simps [simp del]

text \<open>The quotient \<open>n / d\<close> as a double, truncated.  Below one, only what rounds up to one leaves something.\<close>

definition double_whole :: "nat \<Rightarrow> nat \<Rightarrow> nat" where
  "double_whole n d =
    (if n < d then (if 2 ^ 54 * n \<ge> (2 ^ 54 - 1) * d then 1 else 0)
     else let b = bit_count (n div d) in
       if b \<le> 53 then half_even (n * 2 ^ (53 - b)) d div 2 ^ (53 - b)
       else half_even n (d * 2 ^ (b - 53)) * 2 ^ (b - 53))"

definition to_int64 :: "int \<Rightarrow> int" where
  "to_int64 x = (if - (2 ^ 63) \<le> x \<and> x < 2 ^ 63 then x else - (2 ^ 63))"

definition json_int :: "string \<Rightarrow> int res" where
  "json_int s =
    (let d = decimal_of s; n = dc_digits d * 10 ^ nat (dc_exponent d); m = 10 ^ nat (- dc_exponent d); w = double_whole n m in
     if w \<ge> 2 ^ 1024 then Inl ''invalid value''
     else Inr (to_int64 (if dc_negative d then - int w else int w)))"

subsection \<open>Whole numbers up to 53 bits are exact\<close>

lemma bit_count_bound: "n < 2 ^ k \<Longrightarrow> bit_count n \<le> k"
proof (induction k arbitrary: n)
  case 0
  then show ?case by (simp add: bit_count.simps)
next
  case (Suc k)
  then have "n div 2 < 2 ^ k" by simp
  then show ?case using Suc.IH [of "n div 2"] by (simp add: bit_count.simps [of n])
qed

lemma bit_count_power: "bit_count (2 ^ k) = Suc k"
proof (induction k)
  case (Suc k)
  then show ?case by (subst bit_count.simps) simp
qed (simp add: bit_count.simps)

lemma half_even_exact: "b > 0 \<Longrightarrow> half_even (a * b) b = a"
  by (simp add: half_even_def)

lemma double_whole_exact:
  assumes "n \<le> 2 ^ 53"
  shows "double_whole n 1 = n"
proof (cases "n < 2 ^ 53")
  case True
  then have "bit_count n \<le> 53" by (rule bit_count_bound)
  then show ?thesis using half_even_exact [of 1 "n * 2 ^ (53 - bit_count n)"] by (simp add: double_whole_def Let_def)
next
  case False
  then have n: "n = 2 ^ 53" using assms by simp
  have "bit_count n = 54" unfolding n by (subst bit_count_power) simp
  moreover have "half_even n 2 = 2 ^ 52" using half_even_exact [of 2 "2 ^ 52"] by (simp add: n)
  ultimately show ?thesis by (simp add: double_whole_def Let_def n)
qed

lemma takeWhile_digits: "list_all is_digit s \<Longrightarrow> (\<And>c. is_digit c \<Longrightarrow> \<not> p c) \<Longrightarrow> split_at p s = (s, [])"
  by (induction s) (auto simp: split_at_def)

lemma decimal_of_digits:
  assumes "list_all is_digit s" and "s \<noteq> []"
  shows "decimal_of s = \<lparr> dc_negative = False, dc_digits = digits_value s, dc_exponent = 0 \<rparr>"
    and "decimal_of (CHR ''-'' # s) = \<lparr> dc_negative = True, dc_digits = digits_value s, dc_exponent = 0 \<rparr>"
proof -
  have no: "is_digit c \<Longrightarrow> \<not> (c = CHR ''e'' \<or> c = CHR ''E'')" "is_digit c \<Longrightarrow> c \<noteq> CHR ''.''" "is_digit c \<Longrightarrow> c \<noteq> CHR ''-''" for c
    by (auto simp: text_eval)
  have split: "split_at (\<lambda>c. c = CHR ''e'' \<or> c = CHR ''E'') s = (s, [])" "split_at (\<lambda>c. c = CHR ''.'') s = (s, [])"
    by (intro takeWhile_digits assms(1) no; assumption)+
  have "hd s \<noteq> CHR ''-''" using assms no(3) by (cases s) auto
  then show "decimal_of s = \<lparr> dc_negative = False, dc_digits = digits_value s, dc_exponent = 0 \<rparr>"
    by (simp add: decimal_of_def split exponent_of_def)
  show "decimal_of (CHR ''-'' # s) = \<lparr> dc_negative = True, dc_digits = digits_value s, dc_exponent = 0 \<rparr>"
    by (simp add: decimal_of_def split exponent_of_def)
qed

definition exact_int :: "int \<Rightarrow> bool" where
  "exact_int x \<longleftrightarrow> \<bar>x\<bar> \<le> 2 ^ 53"

lemma json_int_format:
  assumes "exact_int x"
  shows "json_int (format_int x) = Inr x"
proof -
  have "nat \<bar>x\<bar> \<le> 2 ^ 53" using assms by (simp add: exact_int_def nat_le_iff)
  then have w: "double_whole (nat \<bar>x\<bar>) 1 = nat \<bar>x\<bar>" by (rule double_whole_exact)
  have "nat \<bar>x\<bar> < 2 ^ 1024" using \<open>nat \<bar>x\<bar> \<le> 2 ^ 53\<close> by (rule le_less_trans) simp
  moreover have "to_int64 x = x" using assms by (simp add: exact_int_def to_int64_def abs_le_iff)
  ultimately show ?thesis
    using w decimal_of_digits [OF format_nat_digits format_nat_nonempty]
    by (cases "x < 0") (auto simp: json_int_def format_int_def Let_def not_le)
qed

lemma json_int_samples:
  "json_int ''1.9'' = Inr 1" "json_int ''-0.5'' = Inr 0" "json_int ''25e2'' = Inr 2500"
  "json_int ''9007199254740993'' = Inr 9007199254740992" "json_int ''0.99999999999999999'' = Inr 1"
  by (simp_all add: json_int_def decimal_of_def split_at_def exponent_of_def Let_def text_eval double_whole_def half_even_def
      bit_count.simps to_int64_def)

end
