(* ===== verification/PacketSite.thy ===== *)
theory PacketSite
  imports RosterLaws GoLib
begin

section \<open>Following the site\<close>

text \<open>
  \<^verbatim>\<open>service/packet_issuance_feed.go\<close>, \<^verbatim>\<open>packet_issuance_rebase.go\<close> and \<^verbatim>\<open>InstallPacketIssuanceRoster\<close>: the desk
  follows the feed of the site page by page, merges every accepted change into its own registrations, keeps
  the last site value of each registration as the merge base, and falls back to a snapshot when its cursor
  has expired.  Each operation is one transaction: a failure leaves the database as it was.
\<close>

subsection \<open>Time stamps of the site\<close>

text \<open>
  \<^verbatim>\<open>time.Parse("2006-01-02T15:04:05.000Z", s).UnixMilli()\<close> on a text that passed \<^verbatim>\<open>validTimestamp\<close>, which every
  action of a parsed page did.
\<close>

definition instant_millis :: "string \<Rightarrow> int option" where
  "instant_millis s =
     (if \<not> valid_timestamp s then None
      else Some (86400000 * unix_days (digits_value (take 4 s)) (digits_value (take 2 (drop 5 s))) (digits_value (take 2 (drop 8 s)))
        + 3600000 * int (digits_value (take 2 (drop 11 s))) + 60000 * int (digits_value (take 2 (drop 14 s)))
        + 1000 * int (digits_value (take 2 (drop 17 s))) + int (digits_value (take 3 (drop 20 s)))))"

subsection \<open>Plans\<close>

record plan =
  pl_change :: feed_change
  pl_before :: "reg_row option"
  pl_after :: "registration option"
  pl_heads :: "string list"

definition current_value :: "reg_row option \<Rightarrow> registration option" where
  "current_value row = (case row of None \<Rightarrow> None | Some x \<Rightarrow> if rr_deleted x then None else Some (rr_value x))"

definition current_heads :: "reg_row option \<Rightarrow> string list" where
  "current_heads row = (case row of None \<Rightarrow> [] | Some x \<Rightarrow> rr_heads x)"

text \<open>The plan for one change, or the code of the conflict that sends the action to review.\<close>

definition make_plan ::
  "db \<Rightarrow> string \<Rightarrow> (string list \<Rightarrow> string list) \<Rightarrow> feed_change \<Rightarrow> (string + plan) res" where
  "make_plan d event next ch =
     bind_res (find_registration d event (fch_reg ch)) (\<lambda>row.
     case merge_feed_change (current_value row) ch of Inl code \<Rightarrow> Inr (Inl code)
     | Inr merged \<Rightarrow>
         let heads = unique_heads (next (current_heads row)) in
         if 64 < length heads then Inr (Inl ''feed_head_limit'')
         else Inr (Inr \<lparr> pl_change = ch, pl_before = row, pl_after = merged, pl_heads = heads \<rparr>))"

fun make_plans ::
  "db \<Rightarrow> string \<Rightarrow> (string list \<Rightarrow> string list) \<Rightarrow> feed_change list \<Rightarrow> (string + plan list) res" where
  "make_plans d event next [] = Inr (Inr [])"
| "make_plans d event next (ch # chs) =
     bind_res (make_plan d event next ch) (\<lambda>x.
     case x of Inl code \<Rightarrow> Inr (Inl code)
     | Inr p \<Rightarrow> bind_res (make_plans d event next chs) (\<lambda>y.
         case y of Inl code \<Rightarrow> Inr (Inl code) | Inr ps \<Rightarrow> Inr (Inr (p # ps))))"

definition plan_change :: "plan \<Rightarrow> change list" where
  "plan_change p = (case pl_after p of None \<Rightarrow> []
     | Some r \<Rightarrow> [\<lparr> chg_reg = fch_reg (pl_change p),
                    chg_before = (case pl_before p of None \<Rightarrow> zero_registration | Some x \<Rightarrow> rr_value x),
                    chg_after = r \<rparr>])"

definition apply_plan :: "(string \<Rightarrow> string \<Rightarrow> bool \<Rightarrow> int) \<Rightarrow> string \<Rightarrow> plan \<Rightarrow> db \<Rightarrow> db res" where
  "apply_plan age_on event p d =
     (case pl_after p of
        None \<Rightarrow> if current_value (pl_before p) = None then Inr d
                else delete_registration event (fch_reg (pl_change p)) (pl_heads p) d
      | Some r \<Rightarrow> bind_res (resolve_category age_on d (packet_member r)) (\<lambda>cat.
          if pl_before p = None then insert_registration r (pl_heads p) cat d
          else put_registration r (pl_heads p) cat d))"

definition apply_plans :: "(string \<Rightarrow> string \<Rightarrow> bool \<Rightarrow> int) \<Rightarrow> string \<Rightarrow> plan list \<Rightarrow> db \<Rightarrow> db res" where
  "apply_plans age_on event ps d =
     bind_res (club_projection d event (concat (map plan_change ps))) (\<lambda>clubs.
     bind_res (fold_res (apply_plan age_on event) ps d) (apply_clubs event clubs))"

definition plan_and_apply ::
  "(string \<Rightarrow> string \<Rightarrow> bool \<Rightarrow> int) \<Rightarrow> string \<Rightarrow> (string list \<Rightarrow> string list) \<Rightarrow> feed_change list \<Rightarrow> db \<Rightarrow>
     (db \<times> string \<times> string option) res" where
  "plan_and_apply age_on event next chs d =
     bind_res (make_plans d event next chs) (\<lambda>x.
     case x of Inl code \<Rightarrow> Inr (d, ''review'', Some code)
     | Inr ps \<Rightarrow> bind_res (apply_plans age_on event ps d) (\<lambda>d1. Inr (d1, ''applied'', None)))"

definition apply_feed_changes ::
  "(string \<Rightarrow> string \<Rightarrow> bool \<Rightarrow> int) \<Rightarrow> string \<Rightarrow> feed_action \<Rightarrow> db \<Rightarrow> (db \<times> string \<times> string option) res" where
  "apply_feed_changes age_on event a d =
     plan_and_apply age_on event (\<lambda>heads. heads @ [act_id a]) (act_changes a) d"

definition apply_resolution_changes ::
  "(string \<Rightarrow> string \<Rightarrow> bool \<Rightarrow> int) \<Rightarrow> string \<Rightarrow> feed_action \<Rightarrow> string \<Rightarrow> db \<Rightarrow>
     (db \<times> string \<times> string option) res" where
  "apply_resolution_changes age_on event a input d =
     plan_and_apply age_on event (\<lambda>heads. filter (\<lambda>h. h \<noteq> input) heads @ [act_id a]) (act_changes a) d"

subsection \<open>The site baseline\<close>

definition baseline_value :: "db \<Rightarrow> string \<Rightarrow> string \<Rightarrow> registration option" where
  "baseline_value d event k =
     (case find_site_row d event k of None \<Rightarrow> None | Some s \<Rightarrow> if sr_deleted s then None else Some (sr_value s))"

definition baseline_agrees :: "db \<Rightarrow> string \<Rightarrow> feed_change \<Rightarrow> bool" where
  "baseline_agrees d event ch =
     (case (fch_before ch, baseline_value d event (fch_reg ch)) of
        (None, v) \<Rightarrow> v = None
      | (Some b, None) \<Rightarrow> False
      | (Some b, Some v) \<Rightarrow> feed_projection v = feed_projection b)"

definition validate_baseline :: "db \<Rightarrow> string \<Rightarrow> feed_change list \<Rightarrow> bool \<Rightarrow> unit res" where
  "validate_baseline d event chs resolution =
     fail_if (\<not> resolution \<and> \<not> list_all (baseline_agrees d event) chs) ''packet_site_baseline_mismatch''"

definition advance_one :: "string \<Rightarrow> feed_change \<Rightarrow> db \<Rightarrow> db res" where
  "advance_one event ch d =
     (case fch_after ch of
        Some r \<Rightarrow> put_site_registration event r d
      | None \<Rightarrow>
          (case (find_site_row d event (fch_reg ch), fch_before ch) of
             (Some s, _) \<Rightarrow> delete_site_registration event (sr_value s) d
           | (None, Some b) \<Rightarrow> delete_site_registration event b d
           | (None, None) \<Rightarrow> Inl ''packet_site_baseline_mismatch''))"

definition advance_baseline :: "string \<Rightarrow> feed_change list \<Rightarrow> db \<Rightarrow> db res" where
  "advance_baseline event chs d = fold_res (advance_one event) chs d"

subsection \<open>Decisions of the site\<close>

definition is_resolution :: "feed_action \<Rightarrow> bool" where
  "is_resolution a \<longleftrightarrow> (case act_operation a of None \<Rightarrow> False | Some op \<Rightarrow> op_schema op = 2)"

definition conflict_occurrence :: "site_action_row \<Rightarrow> string \<Rightarrow> bool" where
  "conflict_occurrence row input \<longleftrightarrow> (let a = sa_action row in
     act_id a = input \<and> act_kind a = ''operation'' \<and> act_outcome a = ''conflict''
     \<and> (case act_operation a of None \<Rightarrow> False | Some op \<Rightarrow> op_id op = input))"

definition resolution_input :: "db \<Rightarrow> string \<Rightarrow> operation \<Rightarrow> string res" where
  "resolution_input d event op =
     (case cmd_inputs (op_command op) of
        [input] \<Rightarrow>
          (case find_op d input of None \<Rightarrow> Inl ''packet_resolution_input_missing''
           | Some o' \<Rightarrow>
               if or_event o' \<noteq> event \<or> or_scope o' \<noteq> op_scope op \<or> or_baseline o' \<noteq> op_baseline op
               then Inl ''packet_resolution_input_missing''
               else (case find_site_action d input of None \<Rightarrow> Inl ''packet_resolution_input_missing''
                 | Some row \<Rightarrow> if conflict_occurrence row input then Inr input
                              else Inl ''packet_resolution_input_missing''))
      | _ \<Rightarrow> Inl ''invalid_feed_response'')"

definition decide_resolution ::
  "(string \<Rightarrow> string) \<Rightarrow> (string \<Rightarrow> string \<Rightarrow> bool \<Rightarrow> int) \<Rightarrow> string \<Rightarrow> feed_action \<Rightarrow> operation \<Rightarrow> string \<Rightarrow>
     int \<Rightarrow> db \<Rightarrow> (db \<times> string \<times> string option) res" where
  "decide_resolution sha age_on event a op input at d =
     bind_res (apply_resolution_changes age_on event a input d) (\<lambda>(d1, application, code).
     bind_res (save_received sha op event (local_outcome application (act_outcome a)) code (act_outcome a) (act_code a) at d1) (\<lambda>d2.
     bind_res (save_resolution \<lparr> rs_id = op_id op, rs_event = event, rs_input = input,
         rs_keep = (length (cmd_keep (op_command op)) = 1), rs_reason = cmd_reason (op_command op), rs_recorded = at \<rparr> d2) (\<lambda>d3.
     Inr (d3, application, code))))"

definition apply_resolution ::
  "(string \<Rightarrow> string) \<Rightarrow> (string \<Rightarrow> string \<Rightarrow> bool \<Rightarrow> int) \<Rightarrow> string \<Rightarrow> feed_action \<Rightarrow> int \<Rightarrow> db \<Rightarrow>
     (db \<times> string \<times> string option) res" where
  "apply_resolution sha age_on event a at d =
     (case act_operation a of None \<Rightarrow> Inl ''invalid_feed_response''
      | Some op \<Rightarrow>
          if op_schema op \<noteq> 2 then Inl ''invalid_feed_response''
          else bind_res (resolution_input d event op) (\<lambda>input.
            if act_outcome a = ''conflict''
            then bind_res (save_received sha op event ''conflict'' (act_code a) (act_outcome a) (act_code a) at d)
                   (\<lambda>d1. Inr (d1, ''review'', act_code a))
            else (case find_resolution d input of
                Some r \<Rightarrow>
                  if rs_id r = op_id op then Inr (d, ''observed'', None)
                  else bind_res (save_received sha op event ''conflict'' (Some ''packet_resolution_already_decided'')
                                   (act_outcome a) (act_code a) at d)
                         (\<lambda>d1. Inr (d1, ''review'', Some ''packet_resolution_already_decided''))
              | None \<Rightarrow> decide_resolution sha age_on event a op input at d)))"

subsection \<open>One action\<close>

record application =
  ap_action :: string
  ap_application :: string
  ap_code :: "string option"
  ap_known :: bool

definition trusted :: "feed_action \<Rightarrow> bool" where
  "trusted a \<longleftrightarrow> act_outcome a = ''applied'' \<or> act_outcome a = ''equivalent''"

definition check_local :: "db \<Rightarrow> feed_action \<Rightarrow> unit res" where
  "check_local d a =
     (case act_operation a of None \<Rightarrow> Inr ()
      | Some op \<Rightarrow> (case find_op d (act_id a) of None \<Rightarrow> Inr ()
          | Some o' \<Rightarrow> fail_if (op_canonical (or_op o') \<noteq> op_canonical op) ''packet_feed_action_identity_conflict''))"

definition apply_effect ::
  "(string \<Rightarrow> string) \<Rightarrow> (string \<Rightarrow> string \<Rightarrow> bool \<Rightarrow> int) \<Rightarrow> string \<Rightarrow> feed_action \<Rightarrow> int \<Rightarrow> db \<Rightarrow>
     (db \<times> string \<times> string option) res" where
  "apply_effect sha age_on event a at d =
     (if is_resolution a then apply_resolution sha age_on event a at d
      else if act_outcome a = ''conflict'' then Inr (d, ''review'', act_code a)
      else if act_outcome a = ''applied'' then apply_feed_changes age_on event a d
      else Inr (d, ''observed'', act_code a))"

definition record_operation ::
  "(string \<Rightarrow> string) \<Rightarrow> string \<Rightarrow> feed_action \<Rightarrow> string \<Rightarrow> string option \<Rightarrow> int \<Rightarrow> db \<Rightarrow> db res" where
  "record_operation sha event a application code at d =
     (case act_operation a of None \<Rightarrow> Inr d
      | Some op \<Rightarrow> if op_schema op = 2 then Inr d
          else save_received sha op event (local_outcome application (act_outcome a)) code (act_outcome a) (act_code a) at d)"

definition site_row :: "string \<Rightarrow> feed_action \<Rightarrow> string \<Rightarrow> string option \<Rightarrow> int \<Rightarrow> site_action_row" where
  "site_row event a application code at =
     \<lparr> sa_id = act_id a, sa_event = event, sa_sequence = act_sequence a, sa_action = a,
       sa_application = application, sa_code = code, sa_recorded = at \<rparr>"

definition apply_new_action ::
  "(string \<Rightarrow> string) \<Rightarrow> (string \<Rightarrow> string \<Rightarrow> bool \<Rightarrow> int) \<Rightarrow> string \<Rightarrow> feed_action \<Rightarrow> int \<Rightarrow> db \<Rightarrow>
     (db \<times> application) res" where
  "apply_new_action sha age_on event a at d =
     bind_res (if trusted a then validate_baseline d event (act_changes a) (is_resolution a) else Inr ()) (\<lambda>_.
     bind_res (apply_effect sha age_on event a at d) (\<lambda>(d1, application, code).
     bind_res (if trusted a then advance_baseline event (act_changes a) d1 else Inr d1) (\<lambda>d2.
     bind_res (record_operation sha event a application code at d2) (\<lambda>d3.
     bind_res (save_site_action (site_row event a application code at) d3) (\<lambda>d4.
     bind_res (relay_action event a at d4) (\<lambda>d5.
     Inr (d5, \<lparr> ap_action = act_id a, ap_application = application, ap_code = code, ap_known = False \<rparr>)))))))"

definition apply_action ::
  "(string \<Rightarrow> string) \<Rightarrow> (string \<Rightarrow> string \<Rightarrow> bool \<Rightarrow> int) \<Rightarrow> string \<Rightarrow> feed_action \<Rightarrow> db \<Rightarrow>
     (db \<times> application) res" where
  "apply_action sha age_on event a d =
     (case find_site_action d (act_id a) of
        Some row \<Rightarrow>
          if sa_event row \<noteq> event \<or> sa_sequence row \<noteq> act_sequence a \<or> act_canonical (sa_action row) \<noteq> act_canonical a
          then Inl ''packet_feed_action_identity_conflict''
          else Inr (d, \<lparr> ap_action = act_id a, ap_application = sa_application row, ap_code = sa_code row, ap_known = True \<rparr>)
      | None \<Rightarrow>
          bind_res (check_local d a) (\<lambda>_.
          case instant_millis (act_recorded a) of None \<Rightarrow> Inl ''invalid_feed_response''
          | Some at \<Rightarrow> apply_new_action sha age_on event a at d))"

fun apply_actions ::
  "(string \<Rightarrow> string) \<Rightarrow> (string \<Rightarrow> string \<Rightarrow> bool \<Rightarrow> int) \<Rightarrow> string \<Rightarrow> feed_action list \<Rightarrow> db \<Rightarrow>
     (db \<times> application list) res" where
  "apply_actions sha age_on event [] d = Inr (d, [])"
| "apply_actions sha age_on event (a # as) d =
     bind_res (apply_action sha age_on event a d) (\<lambda>(d1, x).
     bind_res (apply_actions sha age_on event as d1) (\<lambda>(d2, xs). Inr (d2, x # xs)))"

definition site_cursor :: "db \<Rightarrow> string \<Rightarrow> string" where
  "site_cursor d event = (case find_scope d event of None \<Rightarrow> [] | Some s \<Rightarrow> sc_cursor s)"

definition apply_page ::
  "(string \<Rightarrow> string) \<Rightarrow> (string \<Rightarrow> string \<Rightarrow> bool \<Rightarrow> int) \<Rightarrow> string \<Rightarrow> feed_page \<Rightarrow> db \<Rightarrow>
     (db \<times> application list) res" where
  "apply_page sha age_on event page d =
     (if scope_of d event = [] \<or> scope_of d event \<noteq> page_scope page
         \<or> site_cursor d event \<noteq> cur_after (page_cursor page)
      then Inl ''packet_feed_cursor_changed''
      else bind_res (apply_actions sha age_on event (page_actions page) d) (\<lambda>(d1, xs).
           bind_res (advance_cursor event (cur_after (page_cursor page)) (cur_next (page_cursor page)) d1) (\<lambda>d2.
           Inr (d2, xs))))"

end
