(* ===== verification/SiteLaws.thy ===== *)
theory SiteLaws
  imports PacketSite
begin

section \<open>What following the site guarantees\<close>

text \<open>
  A page of the site feed only takes \<open>site_step\<close>s; the invariants of the receiver are invariants of these
  steps too.  The baseline of an event is the replay of the trusted changes of the site over the snapshot it
  was installed from, independent of the local edits.
\<close>

subsection \<open>Steps\<close>

text \<open>The steps of the effect of an action, and those of the whole page.\<close>

inductive effect_step :: "db \<Rightarrow> db \<Rightarrow> bool" where
  rows: "row_step d d' \<Longrightarrow> effect_step d d'"
| received: "save_received sha op event outcome code site_outcome site_code at d = Inr d' \<Longrightarrow> effect_step d d'"
| resolution: "save_resolution rs d = Inr d' \<Longrightarrow> effect_step d d'"

inductive site_step :: "db \<Rightarrow> db \<Rightarrow> bool" where
  effect: "effect_step d d' \<Longrightarrow> site_step d d'"
| action: "save_site_action sa d = Inr d' \<Longrightarrow> site_step d d'"
| relay: "relay_action event a at d = Inr d' \<Longrightarrow> site_step d d'"
| baseline: "store_site_row event r deleted d = Inr d' \<Longrightarrow> site_step d d'"
| cursor: "advance_cursor event expected next d = Inr d' \<Longrightarrow> site_step d d'"

definition reaches :: "db \<Rightarrow> db \<times> 'a \<Rightarrow> bool" where
  "reaches d v \<longleftrightarrow> effect_step\<^sup>*\<^sup>* d (fst v)"

lemma reaches_refl: "reaches d (d, x)"
  by (simp add: reaches_def)

lemma row_steps_effect: "row_step\<^sup>*\<^sup>* d d' \<Longrightarrow> effect_step\<^sup>*\<^sup>* d d'"
  by (induction rule: rtranclp_induct) (auto intro: effect_step.rows rtranclp.rtrancl_into_rtrancl)

lemma effect_steps_site: "effect_step\<^sup>*\<^sup>* d d' \<Longrightarrow> site_step\<^sup>*\<^sup>* d d'"
  by (induction rule: rtranclp_induct) (auto intro: site_step.effect rtranclp.rtrancl_into_rtrancl)

lemma fold_site_steps:
  "fold_res f xs d = Inr d' \<Longrightarrow> (\<And>x d d'. f x d = Inr d' \<Longrightarrow> site_step\<^sup>*\<^sup>* d d') \<Longrightarrow> site_step\<^sup>*\<^sup>* d d'"
proof (induction xs arbitrary: d)
  case (Cons x xs)
  then obtain d1 where "f x d = Inr d1" "fold_res f xs d1 = Inr d'" by (auto simp: res_simps)
  with Cons show ?case by (meson rtranclp_trans)
qed simp

lemma apply_plan_steps: "ensures (apply_plan age_on event p d) (\<lambda>d'. row_step\<^sup>*\<^sup>* d d')"
  unfolding apply_plan_def
  by (intro ensures_intros ensuresI; (blast intro: row_step.intros)?; simp)

lemma apply_plans_steps:
  assumes "apply_plans age_on event ps d = Inr d'"
  shows "row_step\<^sup>*\<^sup>* d d'"
proof -
  from assms obtain clubs d1 where "fold_res (apply_plan age_on event) ps d = Inr d1" "apply_clubs event clubs d1 = Inr d'"
    by (auto simp: apply_plans_def res_simps)
  then show ?thesis
    using fold_steps [of "apply_plan age_on event" ps d d1] ensuresD [OF apply_plan_steps] apply_clubs_steps
    by (meson rtranclp_trans)
qed

lemma plan_and_apply_steps:
  "ensures (plan_and_apply age_on event next chs d) (\<lambda>(d', application, code).
     row_step\<^sup>*\<^sup>* d d' \<and> (application \<noteq> ''applied'' \<longrightarrow> d' = d))"
  unfolding plan_and_apply_def
  by (intro ensures_intros) (simp_all add: apply_plans_steps)

lemma advance_one_steps: "ensures (advance_one event ch d) (\<lambda>d'. site_step\<^sup>*\<^sup>* d d')"
  unfolding advance_one_def put_site_registration_def delete_site_registration_def
  by (intro ensures_intros ensuresI; (blast intro: site_step.baseline)?)

lemma decide_resolution_steps: "ensures (decide_resolution sha age_on event a op input at d) (reaches d)"
  unfolding decide_resolution_def apply_resolution_changes_def
proof (intro ensures_intros)
  fix x d1 y application code d2 d3
  assume "plan_and_apply age_on event (\<lambda>heads. filter (\<lambda>h. h \<noteq> input) heads @ [act_id a]) (act_changes a) d = Inr x"
    "x = (d1, y)" "y = (application, code)"
  then have "plan_and_apply age_on event (\<lambda>heads. filter (\<lambda>h. h \<noteq> input) heads @ [act_id a]) (act_changes a) d
    = Inr (d1, application, code)" by simp
  from ensuresD [OF plan_and_apply_steps this] have "effect_step\<^sup>*\<^sup>* d d1" by (simp add: row_steps_effect)
  moreover assume "save_received sha op event (local_outcome application (act_outcome a)) code (act_outcome a) (act_code a) at d1 = Inr d2"
  then have "effect_step d1 d2" by (rule effect_step.received)
  moreover assume "save_resolution \<lparr> rs_id = op_id op, rs_event = event, rs_input = input,
    rs_keep = (length (cmd_keep (op_command op)) = 1), rs_reason = cmd_reason (op_command op), rs_recorded = at \<rparr> d2 = Inr d3"
  then have "effect_step d2 d3" by (rule effect_step.resolution)
  ultimately show "reaches d (d3, application, code)" by (simp add: reaches_def)
qed

lemma apply_resolution_steps: "ensures (apply_resolution sha age_on event a at d) (reaches d)"
  unfolding apply_resolution_def
  by (intro ensures_intros decide_resolution_steps reaches_refl; simp add: reaches_def r_into_rtranclp effect_step.received)

lemma apply_effect_steps: "ensures (apply_effect sha age_on event a at d) (reaches d)"
  unfolding apply_effect_def apply_feed_changes_def
  by (intro ensures_intros apply_resolution_steps reaches_refl ensures_mono [OF plan_and_apply_steps])
    (auto simp: reaches_def row_steps_effect)

lemma advance_baseline_steps: "advance_baseline event chs d = Inr d' \<Longrightarrow> site_step\<^sup>*\<^sup>* d d'"
  unfolding advance_baseline_def by (erule fold_site_steps) (rule ensuresD [OF advance_one_steps])

lemma record_operation_steps: "record_operation sha event a application code at d = Inr d' \<Longrightarrow> effect_step\<^sup>*\<^sup>* d d'"
  by (auto simp: record_operation_def split: option.split_asm if_split_asm intro: effect_step.received)

text \<open>A new action, decomposed.\<close>

lemma apply_new_action_Inr:
  assumes "apply_new_action sha age_on event a at d = Inr (d', x)"
  obtains d1 application code d2 d3 d4 where
    "trusted a \<Longrightarrow> validate_baseline d event (act_changes a) (is_resolution a) = Inr ()"
    "apply_effect sha age_on event a at d = Inr (d1, application, code)"
    "(if trusted a then advance_baseline event (act_changes a) d1 else Inr d1) = Inr d2"
    "record_operation sha event a application code at d2 = Inr d3"
    "save_site_action (site_row event a application code at) d3 = Inr d4"
    "relay_action event a at d4 = Inr d'"
    "x = \<lparr> ap_action = act_id a, ap_application = application, ap_code = code, ap_known = False \<rparr>"
proof -
  from assms obtain u v where
    u: "(if trusted a then validate_baseline d event (act_changes a) (is_resolution a) else Inr ()) = Inr u"
    and v: "apply_effect sha age_on event a at d = Inr v"
      "(case v of (d1, application, code) \<Rightarrow>
        bind_res (if trusted a then advance_baseline event (act_changes a) d1 else Inr d1) (\<lambda>d2.
        bind_res (record_operation sha event a application code at d2) (\<lambda>d3.
        bind_res (save_site_action (site_row event a application code at) d3) (\<lambda>d4.
        bind_res (relay_action event a at d4) (\<lambda>d5.
        Inr (d5, \<lparr> ap_action = act_id a, ap_application = application, ap_code = code, ap_known = False \<rparr>)))))) = Inr (d', x)"
    unfolding apply_new_action_def res_simps by blast
  obtain d1 application code where v': "v = (d1, application, code)" by (cases v)
  from v(2) obtain d2 d3 d4 where
    "(if trusted a then advance_baseline event (act_changes a) d1 else Inr d1) = Inr d2"
    "record_operation sha event a application code at d2 = Inr d3"
    "save_site_action (site_row event a application code at) d3 = Inr d4"
    "relay_action event a at d4 = Inr d'"
    "x = \<lparr> ap_action = act_id a, ap_application = application, ap_code = code, ap_known = False \<rparr>"
    unfolding v' prod.case res_simps by auto
  with u v(1) v' show thesis by (intro that) simp_all
qed

lemma apply_new_action_steps:
  assumes "apply_new_action sha age_on event a at d = Inr (d', x)"
  shows "site_step\<^sup>*\<^sup>* d d'"
  using assms
proof (rule apply_new_action_Inr)
  fix d1 application code d2 d3 d4
  assume *: "apply_effect sha age_on event a at d = Inr (d1, application, code)"
    "(if trusted a then advance_baseline event (act_changes a) d1 else Inr d1) = Inr d2"
    "record_operation sha event a application code at d2 = Inr d3"
    "save_site_action (site_row event a application code at) d3 = Inr d4" "relay_action event a at d4 = Inr d'"
  have "site_step\<^sup>*\<^sup>* d d1" using ensuresD [OF apply_effect_steps *(1)] effect_steps_site by (simp add: reaches_def)
  also have "site_step\<^sup>*\<^sup>* d1 d2" using *(2) by (auto split: if_split_asm dest: advance_baseline_steps)
  also have "site_step\<^sup>*\<^sup>* d2 d3" by (rule effect_steps_site [OF record_operation_steps [OF *(3)]])
  also have "site_step d3 d4" by (rule site_step.action [OF *(4)])
  also have "site_step d4 d'" by (rule site_step.relay [OF *(5)])
  finally show ?thesis .
qed

lemma apply_action_cases:
  assumes "apply_action sha age_on event a d = Inr (d', x)"
  obtains (known) row where "find_site_action d (act_id a) = Some row" "d' = d" "ap_known x"
      "ap_application x = sa_application row"
  | (new) at where "find_site_action d (act_id a) = None" "apply_new_action sha age_on event a at d = Inr (d', x)"
proof (cases "find_site_action d (act_id a)")
  case None
  with assms obtain at where "apply_new_action sha age_on event a at d = Inr (d', x)"
    unfolding apply_action_def by (auto simp: res_simps split: option.split_asm)
  with None show thesis by (rule new)
next
  case (Some row)
  with assms have "d' = d" "ap_known x" "ap_application x = sa_application row"
    by (auto simp: apply_action_def split: if_split_asm)
  with Some show thesis by (rule known)
qed

lemma apply_action_steps: "apply_action sha age_on event a d = Inr (d', x) \<Longrightarrow> site_step\<^sup>*\<^sup>* d d'"
  by (erule apply_action_cases) (simp_all add: apply_new_action_steps)

lemma apply_actions_Cons:
  assumes "apply_actions sha age_on event (a # as) d = Inr (d', xs)"
  obtains d1 x ys where "apply_action sha age_on event a d = Inr (d1, x)" "apply_actions sha age_on event as d1 = Inr (d', ys)"
    "xs = x # ys"
proof -
  from assms obtain y where y: "apply_action sha age_on event a d = Inr y"
    "(case y of (d1, x) \<Rightarrow> bind_res (apply_actions sha age_on event as d1) (\<lambda>(d2, xs). Inr (d2, x # xs))) = Inr (d', xs)"
    by (auto simp only: apply_actions.simps res_simps)
  obtain d1 x where "y = (d1, x)" by (cases y)
  moreover with y(2) obtain z where z: "apply_actions sha age_on event as d1 = Inr z" "(case z of (d2, xs) \<Rightarrow> Inr (d2, x # xs)) = Inr (d', xs)"
    by (auto simp only: prod.case res_simps)
  obtain d2 ys where "z = (d2, ys)" by (cases z)
  with z have "apply_actions sha age_on event as d1 = Inr (d', ys)" "xs = x # ys" by simp_all
  ultimately show thesis using y(1) that by simp
qed

lemma apply_actions_steps: "apply_actions sha age_on event as d = Inr (d', xs) \<Longrightarrow> site_step\<^sup>*\<^sup>* d d'"
proof (induction as arbitrary: d xs)
  case (Cons a as)
  from Cons.prems show ?case
  proof (rule apply_actions_Cons)
    fix d1 x ys
    assume "apply_action sha age_on event a d = Inr (d1, x)" "apply_actions sha age_on event as d1 = Inr (d', ys)"
    then show ?thesis using Cons.IH apply_action_steps by (meson rtranclp_trans)
  qed
qed simp

lemma apply_page_Inr:
  assumes "apply_page sha age_on event page d = Inr (d', xs)"
  obtains d1 where "scope_of d event = page_scope page" "scope_of d event \<noteq> []" "site_cursor d event = cur_after (page_cursor page)"
    "apply_actions sha age_on event (page_actions page) d = Inr (d1, xs)"
    "advance_cursor event (cur_after (page_cursor page)) (cur_next (page_cursor page)) d1 = Inr d'"
proof -
  from assms have c: "scope_of d event = page_scope page" "scope_of d event \<noteq> []" "site_cursor d event = cur_after (page_cursor page)"
    and "bind_res (apply_actions sha age_on event (page_actions page) d) (\<lambda>(d1, xs).
       bind_res (advance_cursor event (cur_after (page_cursor page)) (cur_next (page_cursor page)) d1) (\<lambda>d2.
       Inr (d2, xs))) = Inr (d', xs)"
    by (auto simp: apply_page_def split: if_split_asm)
  then obtain z where z: "apply_actions sha age_on event (page_actions page) d = Inr z"
    "(case z of (d1, xs) \<Rightarrow> bind_res (advance_cursor event (cur_after (page_cursor page)) (cur_next (page_cursor page)) d1) (\<lambda>d2.
       Inr (d2, xs))) = Inr (d', xs)"
    by (auto simp only: res_simps)
  obtain d1 ys where "z = (d1, ys)" by (cases z)
  with z c show thesis by (intro that [of d1]) (auto simp: res_simps)
qed

lemma apply_page_steps: "apply_page sha age_on event page d = Inr (d', xs) \<Longrightarrow> site_step\<^sup>*\<^sup>* d d'"
  by (erule apply_page_Inr) (meson apply_actions_steps site_step.cursor rtranclp.rtrancl_into_rtrancl)

end
