(* ===== verification/SiteView.thy ===== *)
theory SiteView
  imports SiteLaws
begin

section \<open>The site as the desk knows it\<close>

text \<open>
  The invariants over whole pages, and the refinement of the site baseline: after a page the baseline is the
  baseline before with the trusted changes of the page's new actions replayed over it, as a map from
  registration ids to registrations.
\<close>

subsection \<open>The invariants of the receiver are invariants of a page\<close>

lemma save_received_rest:
  "save_received sha op event outcome code site_outcome site_code at d = Inr d' \<Longrightarrow> \<exists>ops. d' = d\<lparr> db_ops := ops \<rparr>"
  by (auto simp: save_received_def insert_op_def Let_def split: option.split_asm if_split_asm)

lemma effect_step_roster: "effect_step d d' \<Longrightarrow> roster_inv d \<Longrightarrow> roster_inv d'"
proof (induction rule: effect_step.induct)
  case (rows d d')
  then show ?case by (rule roster.inv_step)
next
  case (received sha op event outcome code site_outcome site_code at d d')
  then show ?case using save_received_rest by (fastforce simp: roster_inv_def)
next
  case (resolution rs d d')
  then show ?case by (auto simp: save_resolution_def roster_inv_def split: if_split_asm)
qed

lemma site_step_roster: "site_step d d' \<Longrightarrow> roster_inv d \<Longrightarrow> roster_inv d'"
proof (induction rule: site_step.induct)
  case (effect d d')
  then show ?case by (rule effect_step_roster)
next
  case (action sa d d')
  then show ?case by (auto simp: save_site_action_def roster_inv_def split: if_split_asm)
next
  case (relay event a at d d')
  from relay(1) have "db_regs d' = db_regs d \<and> db_members d' = db_members d"
    by (rule relay_action_cases) (auto dest: append_feed_rest simp: same_rows_def)
  then show ?case using relay(2) by (simp add: roster_inv_def)
next
  case (baseline event r deleted d d')
  then show ?case by (auto simp: store_site_row_def roster_inv_def Let_def split: if_split_asm)
next
  case (cursor event expected n d d')
  then show ?case by (auto simp: advance_cursor_def roster_inv_def Let_def split: if_split_asm)
qed

interpretation site_roster: machine site_step roster_inv
  by unfold_locales (rule site_step_roster)

definition feed_rows_same :: "db \<Rightarrow> db \<Rightarrow> bool" where
  "feed_rows_same d d' \<longleftrightarrow> db_heads d' = db_heads d \<and> db_feed d' = db_feed d \<and> db_archive d' = db_archive d"

lemma feed_rows_same_inv: "feed_rows_same d d' \<Longrightarrow> feed_inv d \<Longrightarrow> feed_inv d' \<and> extends d d'"
  by (simp add: feed_rows_same_def feed_inv_def feed_first_def feed_head_def find_head_def history_def live_rows_def
      archived_rows_def extends_def)

lemma effect_step_feed: "effect_step d d' \<Longrightarrow> feed_rows_same d d'"
proof (induction rule: effect_step.induct)
  case (rows d d')
  then show ?case using row_step_books by (simp add: feed_rows_same_def same_books_def)
next
  case (received sha op event outcome code site_outcome site_code at d d')
  then show ?case using save_received_rest by (fastforce simp: feed_rows_same_def)
next
  case (resolution rs d d')
  then show ?case by (auto simp: save_resolution_def feed_rows_same_def split: if_split_asm)
qed

lemma site_step_feed: "site_step d d' \<Longrightarrow> feed_inv d \<Longrightarrow> feed_inv d' \<and> extends d d'"
proof (induction rule: site_step.induct)
  case (effect d d')
  then show ?case using feed_rows_same_inv [OF effect_step_feed] by blast
next
  case (action sa d d')
  then have "feed_rows_same d d'" by (auto simp: save_site_action_def feed_rows_same_def split: if_split_asm)
  then show ?case using action(2) by (rule feed_rows_same_inv)
next
  case (relay event a at d d')
  then have "feed_step d d'" by (intro feed_step.relay)
  then show ?case using relay(2) feed.inv_step feed.le_step by blast
next
  case (baseline event r deleted d d')
  then have "feed_rows_same d d'" by (auto simp: store_site_row_def feed_rows_same_def Let_def split: if_split_asm)
  then show ?case using baseline(2) by (rule feed_rows_same_inv)
next
  case (cursor event expected n d d')
  then have "feed_rows_same d d'" by (auto simp: advance_cursor_def feed_rows_same_def Let_def split: if_split_asm)
  then show ?case using cursor(2) by (rule feed_rows_same_inv)
qed

interpretation site_feed: monotone_machine site_step feed_inv extends
  by unfold_locales (use site_step_feed feed.le_refl feed.le_trans in \<open>blast+\<close>)

subsection \<open>Pages are applied exactly once\<close>

lemma step_scopes: "effect_step d d' \<Longrightarrow> db_scopes d' = db_scopes d"
proof (induction rule: effect_step.induct)
  case (rows d d')
  then show ?case using row_step_books by (simp add: same_books_def)
next
  case (received sha op event outcome code site_outcome site_code at d d')
  then show ?case using save_received_rest by fastforce
next
  case (resolution rs d d')
  then show ?case by (auto simp: save_resolution_def split: if_split_asm)
qed

lemma effect_steps_scopes: "effect_step\<^sup>*\<^sup>* d d' \<Longrightarrow> db_scopes d' = db_scopes d"
  by (induction rule: rtranclp_induct) (simp_all add: step_scopes)

lemma store_site_row_scopes: "store_site_row event r deleted d = Inr d' \<Longrightarrow> db_scopes d' = db_scopes d"
  by (auto simp: store_site_row_def Let_def split: if_split_asm)

lemma advance_one_scopes: "advance_one event ch d = Inr d' \<Longrightarrow> db_scopes d' = db_scopes d"
  unfolding advance_one_def put_site_registration_def delete_site_registration_def
  by (auto split: option.split_asm dest: store_site_row_scopes)

lemma advance_baseline_scopes: "advance_baseline event chs d = Inr d' \<Longrightarrow> db_scopes d' = db_scopes d"
  unfolding advance_baseline_def
  by (erule fold_res_invariant [where P = "\<lambda>x. db_scopes x = db_scopes d"]) (auto dest: advance_one_scopes)

lemma apply_new_action_scopes:
  assumes "apply_new_action sha age_on event a at d = Inr (d', x)"
  shows "db_scopes d' = db_scopes d"
  using assms
proof (rule apply_new_action_Inr)
  fix d1 application code d2 d3 d4
  assume *: "apply_effect sha age_on event a at d = Inr (d1, application, code)"
    "(if trusted a then advance_baseline event (act_changes a) d1 else Inr d1) = Inr d2"
    "record_operation sha event a application code at d2 = Inr d3"
    "save_site_action (site_row event a application code at) d3 = Inr d4" "relay_action event a at d4 = Inr d'"
  have "db_scopes d1 = db_scopes d" using ensuresD [OF apply_effect_steps *(1)] effect_steps_scopes by (simp add: reaches_def)
  moreover have "db_scopes d2 = db_scopes d1" using *(2) by (auto split: if_split_asm dest: advance_baseline_scopes)
  moreover have "db_scopes d3 = db_scopes d2" by (rule effect_steps_scopes [OF record_operation_steps [OF *(3)]])
  moreover have "db_scopes d4 = db_scopes d3" using *(4) by (auto simp: save_site_action_def split: if_split_asm)
  moreover have "db_scopes d' = db_scopes d4"
    using *(5) by (rule relay_action_cases) (auto dest: append_feed_rest simp: same_rows_def)
  ultimately show ?thesis by simp
qed

lemma apply_actions_scopes: "apply_actions sha age_on event as d = Inr (d', xs) \<Longrightarrow> db_scopes d' = db_scopes d"
proof (induction as arbitrary: d xs)
  case (Cons a as)
  from Cons.prems show ?case
  proof (rule apply_actions_Cons)
    fix d1 x ys
    assume a: "apply_action sha age_on event a d = Inr (d1, x)" and rest: "apply_actions sha age_on event as d1 = Inr (d', ys)"
    from a have "db_scopes d1 = db_scopes d" by (rule apply_action_cases) (auto dest: apply_new_action_scopes)
    with Cons.IH [OF rest] show ?thesis by simp
  qed
qed simp

lemma apply_page_scopes:
  assumes "apply_page sha age_on event page d = Inr (d', xs)"
  shows "site_cursor d event = cur_after (page_cursor page)" and "site_cursor d' event = cur_next (page_cursor page)"
    and "scope_of d' event = scope_of d event" and "e \<noteq> event \<Longrightarrow> find_scope d' e = find_scope d e"
proof -
  let ?after = "cur_after (page_cursor page)" and ?next = "cur_next (page_cursor page)"
  obtain d1 where c: "scope_of d event \<noteq> []" "site_cursor d event = ?after"
    and ap: "apply_actions sha age_on event (page_actions page) d = Inr (d1, xs)"
    and adv: "advance_cursor event ?after ?next d1 = Inr d'"
    using assms by (rule apply_page_Inr)
  have sc: "db_scopes d' = update_where (\<lambda>s. sc_event s = event \<and> sc_cursor s = ?after) (\<lambda>s. s\<lparr> sc_cursor := ?next \<rparr>) (db_scopes d)"
    using adv apply_actions_scopes [OF ap] by (auto simp: advance_cursor_def Let_def split: if_split_asm)
  have fs: "find_scope d' e = map_option (\<lambda>s. if sc_event s = event \<and> sc_cursor s = ?after then s\<lparr> sc_cursor := ?next \<rparr> else s) (find_scope d e)" for e
    by (simp add: find_scope_def sc find_update_where)
  have ev: "find_scope d e = Some s \<Longrightarrow> sc_event s = e" for e s
    by (auto simp: find_scope_def dest: find_Some_iff')
  obtain s where s: "find_scope d event = Some s" "sc_cursor s = ?after" using c
    by (cases "find_scope d event") (simp_all add: scope_of_def site_cursor_def)
  show "site_cursor d event = ?after" by (rule c(2))
  show "site_cursor d' event = ?next" and "scope_of d' event = scope_of d event"
    using s ev [OF s(1)] fs [of event] by (simp_all add: site_cursor_def scope_of_def)
  show "find_scope d' e = find_scope d e" if "e \<noteq> event"
    using that fs [of e] ev [of e] by (cases "find_scope d e") auto
qed

text \<open>
  A page is applied exactly once and in order: it is accepted only at the cursor it starts from, leaves
  the cursor where it ends, touches no other event's scope, and is refused when it is delivered again.
\<close>

theorem apply_page_once:
  assumes "apply_page sha age_on event page d = Inr (d', xs)"
    and "cur_next (page_cursor page) \<noteq> cur_after (page_cursor page)"
  shows "site_cursor d event = cur_after (page_cursor page) \<and> site_cursor d' event = cur_next (page_cursor page)
    \<and> (\<forall>e. e \<noteq> event \<longrightarrow> find_scope d' e = find_scope d e)
    \<and> apply_page sha' age_on' event page d' = Inl ''packet_feed_cursor_changed''"
  using apply_page_scopes [OF assms(1)] assms(2) by (simp add: apply_page_def)

subsection \<open>The baseline is the site's history replayed\<close>

definition wf_change :: "string \<Rightarrow> feed_change \<Rightarrow> bool" where
  "wf_change event ch \<longleftrightarrow>
     (\<forall>r. fch_before ch = Some r \<or> fch_after ch = Some r \<longrightarrow> reg_id r = fch_reg ch \<and> reg_event r = event)
     \<and> (fch_before ch \<noteq> None \<or> fch_after ch \<noteq> None)"

definition site_view :: "db \<Rightarrow> string \<Rightarrow> string \<rightharpoonup> registration" where
  "site_view d event = baseline_value d event"

definition replay_change :: "feed_change \<Rightarrow> (string \<rightharpoonup> registration) \<Rightarrow> (string \<rightharpoonup> registration)" where
  "replay_change ch v = v(fch_reg ch := fch_after ch)"

definition replay_action :: "feed_action \<Rightarrow> (string \<rightharpoonup> registration) \<Rightarrow> (string \<rightharpoonup> registration)" where
  "replay_action a v = (if trusted a then fold replay_change (act_changes a) v else v)"

definition site_rows_inv :: "db \<Rightarrow> bool" where
  "site_rows_inv d \<longleftrightarrow> (\<forall>s \<in> set (db_site_regs d). sr_id s = reg_id (sr_value s))"

lemma find_site_row_key: "find_site_row d e k = Some s \<Longrightarrow> sr_event s = e \<and> sr_id s = k \<and> s \<in> set (db_site_regs d)"
  by (auto simp: find_site_row_def dest: find_Some_iff')

lemma store_site_row_find:
  assumes "store_site_row event r deleted d = Inr d'"
  shows "find_site_row d' e k = (if e = event \<and> k = reg_id r
    then Some \<lparr> sr_event = event, sr_id = k, sr_value = r, sr_deleted = deleted \<rparr> else find_site_row d e k)"
proof -
  let ?p = "\<lambda>s. sr_event s = event \<and> sr_id s = reg_id r"
  consider (old) s where "find_site_row d event (reg_id r) = Some s"
      "db_site_regs d' = update_where ?p (\<lambda>s. s\<lparr> sr_value := r, sr_deleted := deleted \<rparr>) (db_site_regs d)"
    | (new) "find_site_row d event (reg_id r) = None"
      "db_site_regs d' = db_site_regs d @ [\<lparr> sr_event = event, sr_id = reg_id r, sr_value = r, sr_deleted = deleted \<rparr>]"
  proof (cases "list_ex ?p (db_site_regs d)")
    case True
    then obtain s where "find_site_row d event (reg_id r) = Some s"
      by (cases "find_site_row d event (reg_id r)") (auto simp: find_site_row_def find_None_iff list_ex_iff)
    with True assms show thesis by (intro old) (auto simp: store_site_row_def Let_def split: if_split_asm)
  next
    case False
    then have "find_site_row d event (reg_id r) = None" by (auto simp: find_site_row_def find_None_iff list_ex_iff)
    with False assms show thesis by (intro new) (auto simp: store_site_row_def Let_def split: if_split_asm)
  qed
  then show ?thesis
  proof cases
    case old
    then have "find_site_row d' e k = map_option (\<lambda>s. if ?p s then s\<lparr> sr_value := r, sr_deleted := deleted \<rparr> else s) (find_site_row d e k)"
      by (simp add: find_site_row_def find_update_where)
    then show ?thesis using old(1) find_site_row_key [of d e k] by (cases "find_site_row d e k") auto
  next
    case new
    then have "find_site_row d' e k = (case find_site_row d e k of Some s \<Rightarrow> Some s
      | None \<Rightarrow> if event = e \<and> reg_id r = k
          then Some \<lparr> sr_event = event, sr_id = reg_id r, sr_value = r, sr_deleted = deleted \<rparr> else None)"
      by (simp add: find_site_row_def find_append split: option.split)
    then show ?thesis using new(1) by (cases "find_site_row d e k") auto
  qed
qed

lemma store_site_row_view:
  "store_site_row event r deleted d = Inr d' \<Longrightarrow>
   site_view d' event = (site_view d event)(reg_id r := if deleted then None else Some r)"
  by (rule ext) (simp add: site_view_def baseline_value_def store_site_row_find)

lemma store_site_row_rows_inv: "store_site_row event r deleted d = Inr d' \<Longrightarrow> site_rows_inv d \<Longrightarrow> site_rows_inv d'"
  by (auto simp: store_site_row_def site_rows_inv_def Let_def in_set_update_where split: if_split_asm)

lemma advance_one_view:
  assumes "advance_one event ch d = Inr d'" "wf_change event ch" "site_rows_inv d"
  shows "site_view d' event = replay_change ch (site_view d event) \<and> site_rows_inv d'"
proof (cases "fch_after ch")
  case (Some r)
  with assms(1) have st: "store_site_row event r False d = Inr d'" by (simp add: advance_one_def put_site_registration_def)
  have "reg_id r = fch_reg ch" using assms(2) Some by (simp add: wf_change_def)
  with Some show ?thesis using store_site_row_view [OF st] store_site_row_rows_inv [OF st assms(3)]
    by (simp add: replay_change_def)
next
  case None
  obtain v where st: "store_site_row event v True d = Inr d'" "reg_id v = fch_reg ch"
  proof (cases "find_site_row d event (fch_reg ch)")
    case (Some s)
    with assms(1) None have "store_site_row event (sr_value s) True d = Inr d'"
      by (simp add: advance_one_def delete_site_registration_def)
    moreover have "reg_id (sr_value s) = fch_reg ch"
      using find_site_row_key [OF Some] assms(3) by (auto simp: site_rows_inv_def)
    ultimately show thesis by (rule that)
  next
    case none: None
    obtain b where b: "fch_before ch = Some b" using assms(2) None by (auto simp: wf_change_def)
    with assms(1) None none have "store_site_row event b True d = Inr d'"
      by (simp add: advance_one_def delete_site_registration_def)
    moreover have "reg_id b = fch_reg ch" using assms(2) b by (simp add: wf_change_def)
    ultimately show thesis by (rule that)
  qed
  with None show ?thesis using store_site_row_view [OF st(1)] store_site_row_rows_inv [OF st(1) assms(3)]
    by (simp add: replay_change_def)
qed

lemma advance_baseline_view:
  assumes "advance_baseline event chs d = Inr d'" "\<forall>ch \<in> set chs. wf_change event ch" "site_rows_inv d"
  shows "site_view d' event = fold replay_change chs (site_view d event) \<and> site_rows_inv d'"
  using assms unfolding advance_baseline_def
proof (induction chs arbitrary: d)
  case (Cons ch chs)
  then obtain d1 where d1: "advance_one event ch d = Inr d1" and rest: "fold_res (advance_one event) chs d1 = Inr d'"
    by (auto simp: res_simps)
  have v: "site_view d1 event = replay_change ch (site_view d event)" "site_rows_inv d1"
    using advance_one_view [OF d1 _ Cons.prems(3)] Cons.prems(2) by simp_all
  from Cons.IH [OF rest _ v(2)] Cons.prems(2) v(1) show ?case by simp
qed simp

lemma row_step_site: "row_step d d' \<Longrightarrow> db_site_regs d' = db_site_regs d \<and> db_site_actions d' = db_site_actions d"
proof (induction rule: row_step.induct)
  case (put r heads cat d d')
  then show ?case by (auto simp: put_registration_def Let_def split: if_split_asm)
next
  case (insert r heads cat d d')
  then show ?case by (auto simp: insert_registration_def upsert_member_def res_simps split: if_split_asm)
next
  case (delete event k heads d d')
  then show ?case by (auto simp: delete_registration_def Let_def split: if_split_asm)
next
  case (rfid d k v)
  then show ?case by (simp add: restore_rfid_def)
next
  case (club event mc d d')
  then show ?case by (auto simp: put_club_def res_simps split: if_split_asm)
qed

lemma effect_step_site: "effect_step d d' \<Longrightarrow> db_site_regs d' = db_site_regs d \<and> db_site_actions d' = db_site_actions d"
proof (induction rule: effect_step.induct)
  case (rows d d')
  then show ?case by (rule row_step_site)
next
  case (received sha op event outcome code site_outcome site_code at d d')
  then show ?case using save_received_rest by fastforce
next
  case (resolution rs d d')
  then show ?case by (auto simp: save_resolution_def split: if_split_asm)
qed

lemma effect_steps_site_rows:
  "effect_step\<^sup>*\<^sup>* d d' \<Longrightarrow> db_site_regs d' = db_site_regs d \<and> db_site_actions d' = db_site_actions d"
  by (induction rule: rtranclp_induct) (simp_all add: effect_step_site)

lemma site_view_cong: "db_site_regs d' = db_site_regs d \<Longrightarrow> site_view d' event = site_view d event \<and> (site_rows_inv d' \<longleftrightarrow> site_rows_inv d)"
  by (simp add: site_view_def baseline_value_def [abs_def] find_site_row_def site_rows_inv_def)

lemma advance_baseline_actions: "advance_baseline event chs d = Inr d' \<Longrightarrow> db_site_actions d' = db_site_actions d"
  unfolding advance_baseline_def
  by (erule fold_res_invariant [where P = "\<lambda>x. db_site_actions x = db_site_actions d"])
    (auto simp: advance_one_def put_site_registration_def delete_site_registration_def store_site_row_def Let_def
      split: option.split_asm if_split_asm)

lemma apply_new_action_view:
  assumes "apply_new_action sha age_on event a at d = Inr (d', x)"
    and "\<forall>ch \<in> set (act_changes a). wf_change event ch" and "site_rows_inv d"
  shows "site_view d' event = replay_action a (site_view d event) \<and> site_rows_inv d'
    \<and> (\<exists>row. sa_id row = act_id a \<and> db_site_actions d' = db_site_actions d @ [row])"
  using assms(1)
proof (rule apply_new_action_Inr)
  fix d1 application code d2 d3 d4
  assume *: "apply_effect sha age_on event a at d = Inr (d1, application, code)"
    "(if trusted a then advance_baseline event (act_changes a) d1 else Inr d1) = Inr d2"
    "record_operation sha event a application code at d2 = Inr d3"
    "save_site_action (site_row event a application code at) d3 = Inr d4" "relay_action event a at d4 = Inr d'"
  have e1: "db_site_regs d1 = db_site_regs d \<and> db_site_actions d1 = db_site_actions d"
    using ensuresD [OF apply_effect_steps *(1)] effect_steps_site_rows by (simp add: reaches_def)
  have s1: "site_view d1 event = site_view d event" "site_rows_inv d1"
    using site_view_cong [of d1 d event] e1 assms(3) by simp_all
  have s2: "site_view d2 event = replay_action a (site_view d event) \<and> site_rows_inv d2 \<and> db_site_actions d2 = db_site_actions d1"
  proof (cases "trusted a")
    case True
    with *(2) have "advance_baseline event (act_changes a) d1 = Inr d2" by simp
    from advance_baseline_view [OF this assms(2) s1(2)] advance_baseline_actions [OF this] True s1(1) show ?thesis
      by (simp add: replay_action_def)
  qed (use *(2) s1 in \<open>simp add: replay_action_def\<close>)
  have s3: "db_site_regs d3 = db_site_regs d2 \<and> db_site_actions d3 = db_site_actions d2"
    by (rule effect_steps_site_rows [OF record_operation_steps [OF *(3)]])
  have s4: "db_site_regs d4 = db_site_regs d3" "db_site_actions d4 = db_site_actions d3 @ [site_row event a application code at]"
    using *(4) by (auto simp: save_site_action_def split: if_split_asm)
  have s5: "db_site_regs d' = db_site_regs d4 \<and> db_site_actions d' = db_site_actions d4"
    using *(5) by (rule relay_action_cases)
      (auto simp: append_feed_def ensure_head_def res_simps Let_def split: if_split_asm)
  have "db_site_regs d' = db_site_regs d2" using s3 s4 s5 by simp
  from site_view_cong [OF this, of event] s2 e1 s3 s4 s5 show ?thesis by (simp add: site_row_def)
qed

text \<open>The actions a desk has not recorded yet, each once.\<close>

fun new_actions :: "(string \<Rightarrow> bool) \<Rightarrow> feed_action list \<Rightarrow> feed_action list" where
  "new_actions known [] = []"
| "new_actions known (a # as) =
    (if known (act_id a) then new_actions known as else a # new_actions (\<lambda>k. known k \<or> k = act_id a) as)"

definition recorded_action :: "db \<Rightarrow> string \<Rightarrow> bool" where
  "recorded_action d k \<longleftrightarrow> find_site_action d k \<noteq> None"

lemma new_actions_append:
  "new_actions known (as @ bs) = new_actions known as @ new_actions (\<lambda>k. known k \<or> k \<in> act_id ` set as) bs"
  by (induction as arbitrary: known) (auto simp: disj_assoc insert_absorb intro!: arg_cong [where f = "\<lambda>f. new_actions f bs"])

lemma new_actions_distinct:
  "distinct (map act_id as) \<Longrightarrow> new_actions known as = filter (\<lambda>a. \<not> known (act_id a)) as"
proof (induction as arbitrary: known)
  case (Cons a as)
  then have "filter (\<lambda>b. \<not> (known (act_id b) \<or> act_id b = act_id a)) as = filter (\<lambda>b. \<not> known (act_id b)) as"
    by (intro filter_cong refl) (metis image_eqI list.set_map distinct.simps(2) list.simps(9))
  with Cons show ?case by simp
qed simp

lemma apply_action_view:
  assumes "apply_action sha age_on event a d0 = Inr (d1, x)" and "site_rows_inv d0"
    and "\<forall>ch \<in> set (act_changes a). wf_change event ch"
  shows "site_view d1 event = fold replay_action (new_actions (recorded_action d0) [a]) (site_view d0 event)"
    and "site_rows_inv d1" and "recorded_action d1 = (\<lambda>k. recorded_action d0 k \<or> k = act_id a)"
proof -
  have "site_view d1 event = fold replay_action (new_actions (recorded_action d0) [a]) (site_view d0 event) \<and> site_rows_inv d1 \<and>
    recorded_action d1 = (\<lambda>k. recorded_action d0 k \<or> k = act_id a)"
    using assms(1)
  proof (cases rule: apply_action_cases)
    case (known row)
    then show ?thesis using assms(2) by (auto simp: recorded_action_def fun_eq_iff)
  next
    case (new at)
    from apply_new_action_view [OF new(2) _ assms(2)] assms(3)
    obtain row where v: "site_view d1 event = replay_action a (site_view d0 event)" "site_rows_inv d1" "sa_id row = act_id a"
      "db_site_actions d1 = db_site_actions d0 @ [row]" by auto
    then have "recorded_action d1 k = (recorded_action d0 k \<or> k = act_id a)" for k
      by (simp add: recorded_action_def find_site_action_def find_append split: option.split)
    with v new(1) show ?thesis by (simp add: recorded_action_def fun_eq_iff)
  qed
  then show "site_view d1 event = fold replay_action (new_actions (recorded_action d0) [a]) (site_view d0 event)"
    and "site_rows_inv d1" and "recorded_action d1 = (\<lambda>k. recorded_action d0 k \<or> k = act_id a)" by simp_all
qed

lemma apply_actions_view:
  assumes "apply_actions sha age_on event as d0 = Inr (d2, ys)" and "site_rows_inv d0"
    and "\<forall>a \<in> set as. \<forall>ch \<in> set (act_changes a). wf_change event ch"
  shows "site_view d2 event = fold replay_action (new_actions (recorded_action d0) as) (site_view d0 event) \<and> site_rows_inv d2 \<and>
    recorded_action d2 = (\<lambda>k. recorded_action d0 k \<or> k \<in> act_id ` set as)"
  using assms
proof (induction as arbitrary: d0 ys)
  case (Cons a as)
  from Cons.prems(1) show ?case
  proof (rule apply_actions_Cons)
    fix d1 x zs
    assume a: "apply_action sha age_on event a d0 = Inr (d1, x)" and rest: "apply_actions sha age_on event as d1 = Inr (d2, zs)"
    have wf: "\<forall>ch \<in> set (act_changes a). wf_change event ch" using Cons.prems(3) by simp
    note one = apply_action_view [OF a Cons.prems(2) wf]
    have "new_actions (recorded_action d0) (a # as) = new_actions (recorded_action d0) [a] @ new_actions (recorded_action d1) as"
      using new_actions_append [of "recorded_action d0" "[a]" as] by (simp add: one(3))
    moreover have "(\<lambda>k. recorded_action d1 k \<or> k \<in> act_id ` set as) = (\<lambda>k. recorded_action d0 k \<or> k \<in> act_id ` set (a # as))"
      by (auto simp: one(3))
    ultimately show ?thesis using Cons.IH [OF rest one(2)] Cons.prems(3) one(1) by simp
  qed
qed simp

lemma apply_page_view:
  assumes "apply_page sha age_on event page d = Inr (d', xs)" and "site_rows_inv d"
    and "\<forall>a \<in> set (page_actions page). \<forall>ch \<in> set (act_changes a). wf_change event ch"
  shows "site_view d' event = fold replay_action (new_actions (recorded_action d) (page_actions page)) (site_view d event) \<and>
    site_rows_inv d' \<and> recorded_action d' = (\<lambda>k. recorded_action d k \<or> k \<in> act_id ` set (page_actions page))"
  using assms(1)
proof (rule apply_page_Inr)
  fix d1
  assume ap: "apply_actions sha age_on event (page_actions page) d = Inr (d1, xs)"
    and adv: "advance_cursor event (cur_after (page_cursor page)) (cur_next (page_cursor page)) d1 = Inr d'"
  have same: "db_site_regs d' = db_site_regs d1" "db_site_actions d' = db_site_actions d1"
    using adv by (auto simp: advance_cursor_def Let_def split: if_split_asm)
  moreover have "recorded_action d' = recorded_action d1" using same(2) by (simp add: recorded_action_def find_site_action_def fun_eq_iff)
  moreover have "site_rows_inv d' = site_rows_inv d1" using same(1) by (simp add: site_rows_inv_def)
  ultimately show ?thesis using site_view_cong [OF same(1), of event] apply_actions_view [OF ap assms(2,3)] by simp
qed

text \<open>
  C11. The baseline refines the site: after a page the last known site state of the event is the one before
  with the changes of the page's new, accepted actions replayed over it in order. Local registrations,
  merges and reviews do not enter, so the merge base of the next page is exactly what the site had.
\<close>

theorem apply_page_replays_site:
  assumes "apply_page sha age_on event page d = Inr (d', xs)" and "site_rows_inv d"
    and "distinct (map act_id (page_actions page))"
    and "\<forall>a \<in> set (page_actions page). \<forall>ch \<in> set (act_changes a). wf_change event ch"
  shows "site_view d' event =
    fold replay_action (filter (\<lambda>a. find_site_action d (act_id a) = None) (page_actions page)) (site_view d event)"
  using apply_page_view [OF assms(1,2,4)] new_actions_distinct [OF assms(3), of "recorded_action d"]
  by (simp add: recorded_action_def)

end
