(* ===== verification/SiteMerge.thy ===== *)
theory SiteMerge
  imports SiteView AppliedLaws
begin

section \<open>Merging site actions into the desk\<close>

text \<open>
  What one action of the site does to the desk's registrations: an accepted action leaves every row it
  names at the three-way merge of the site's change and the desk's row, with the action among the row's
  heads; any other action leaves all rows alone.
\<close>

lemma decide_resolution_roster:
  "ensures (decide_resolution sha age_on event a op input at d) (\<lambda>(d', application, code).
     application \<noteq> ''applied'' \<longrightarrow> db_regs d' = db_regs d \<and> db_members d' = db_members d)"
  unfolding decide_resolution_def apply_resolution_changes_def
proof (intro ensures_intros)
  fix x d1 y application code d2 d3
  assume "plan_and_apply age_on event (\<lambda>heads. filter (\<lambda>h. h \<noteq> input) heads @ [act_id a]) (act_changes a) d = Inr x"
    "x = (d1, y)" "y = (application, code)"
  then have "plan_and_apply age_on event (\<lambda>heads. filter (\<lambda>h. h \<noteq> input) heads @ [act_id a]) (act_changes a) d
    = Inr (d1, application, code)" by simp
  from ensuresD [OF plan_and_apply_steps this] have "application \<noteq> ''applied'' \<longrightarrow> d1 = d" by simp
  moreover assume sr: "save_received sha op event (local_outcome application (act_outcome a)) code (act_outcome a) (act_code a) at d1 = Inr d2"
  from save_received_rest [OF sr] have "db_regs d2 = db_regs d1 \<and> db_members d2 = db_members d1" by auto
  moreover assume "save_resolution \<lparr> rs_id = op_id op, rs_event = event, rs_input = input,
    rs_keep = (length (cmd_keep (op_command op)) = 1), rs_reason = cmd_reason (op_command op), rs_recorded = at \<rparr> d2 = Inr d3"
  then have "db_regs d3 = db_regs d2 \<and> db_members d3 = db_members d2" by (auto simp: save_resolution_def split: if_split_asm)
  ultimately show "case (d3, application, code) of (d', application, code) \<Rightarrow>
     application \<noteq> ''applied'' \<longrightarrow> db_regs d' = db_regs d \<and> db_members d' = db_members d" by auto
qed

lemma save_received_roster:
  "save_received sha op event outcome code so sc at d = Inr d' \<Longrightarrow> db_regs d' = db_regs d \<and> db_members d' = db_members d"
  using save_received_rest by fastforce

lemma apply_resolution_roster:
  "ensures (apply_resolution sha age_on event a at d) (\<lambda>(d', application, code).
     application \<noteq> ''applied'' \<longrightarrow> db_regs d' = db_regs d \<and> db_members d' = db_members d)"
  unfolding apply_resolution_def
  by (intro ensures_intros decide_resolution_roster) (simp_all add: save_received_roster)

lemma apply_effect_roster:
  assumes "apply_effect sha age_on event a at d = Inr (d1, application, code)" "application \<noteq> ''applied''"
  shows "db_regs d1 = db_regs d \<and> db_members d1 = db_members d"
proof -
  have "ensures (apply_effect sha age_on event a at d) (\<lambda>(d', application, code).
     application \<noteq> ''applied'' \<longrightarrow> db_regs d' = db_regs d \<and> db_members d' = db_members d)"
    unfolding apply_effect_def apply_feed_changes_def
    by (intro ensures_intros apply_resolution_roster ensures_mono [OF plan_and_apply_steps]) auto
  from ensuresD [OF this assms(1)] assms(2) show ?thesis by simp
qed

lemma advance_baseline_roster: "advance_baseline event chs d = Inr d' \<Longrightarrow> db_regs d' = db_regs d \<and> db_members d' = db_members d"
  unfolding advance_baseline_def
  by (erule fold_res_invariant [where P = "\<lambda>x. db_regs x = db_regs d \<and> db_members x = db_members d"])
    (auto simp: advance_one_def put_site_registration_def delete_site_registration_def store_site_row_def Let_def
      split: option.split_asm if_split_asm)

lemma apply_new_action_roster:
  assumes "apply_new_action sha age_on event a at d = Inr (d', x)"
  obtains d1 code where "apply_effect sha age_on event a at d = Inr (d1, ap_application x, code)"
    "db_regs d' = db_regs d1" "db_members d' = db_members d1"
  using assms
proof (rule apply_new_action_Inr)
  fix d1 application code d2 d3 d4
  assume *: "apply_effect sha age_on event a at d = Inr (d1, application, code)"
    "(if trusted a then advance_baseline event (act_changes a) d1 else Inr d1) = Inr d2"
    "record_operation sha event a application code at d2 = Inr d3"
    "save_site_action (site_row event a application code at) d3 = Inr d4" "relay_action event a at d4 = Inr d'"
    "x = \<lparr> ap_action = act_id a, ap_application = application, ap_code = code, ap_known = False \<rparr>"
  have "db_regs d2 = db_regs d1 \<and> db_members d2 = db_members d1"
    using *(2) by (auto split: if_split_asm dest: advance_baseline_roster)
  moreover have "db_regs d3 = db_regs d2 \<and> db_members d3 = db_members d2"
    using *(3) by (auto simp: record_operation_def split: option.split_asm if_split_asm dest: save_received_roster)
  moreover have "db_regs d4 = db_regs d3 \<and> db_members d4 = db_members d3"
    using *(4) by (auto simp: save_site_action_def split: if_split_asm)
  moreover have "db_regs d' = db_regs d4 \<and> db_members d' = db_members d4"
    using *(5) by (rule relay_action_cases) (auto dest: append_feed_rest simp: same_rows_def)
  ultimately show thesis using that *(1,6) by simp
qed

text \<open>
  The desk's work is never overwritten: a site action that does not end as applied (it conflicts with a
  local edit, is in conflict at the site, is only observed, or is a second decision) leaves every
  registration and every member exactly as they were.
\<close>

theorem review_keeps_rows:
  assumes "apply_action sha age_on event a d = Inr (d', x)" and "ap_application x \<noteq> ''applied''"
  shows "db_regs d' = db_regs d \<and> db_members d' = db_members d"
  using assms(1)
proof (cases rule: apply_action_cases)
  case (new at)
  then obtain d1 code where *: "apply_effect sha age_on event a at d = Inr (d1, ap_application x, code)"
    "db_regs d' = db_regs d1" "db_members d' = db_members d1" by (blast elim: apply_new_action_roster)
  from apply_effect_roster [OF *(1) assms(2)] *(2,3) show ?thesis by simp
qed simp

subsection \<open>Plans carried out\<close>

lemma merge_registration_keys:
  "merge_registration b a c = Some m \<Longrightarrow> merge3 (reg_id b) (reg_id a) (reg_id c) = Some (reg_id m)
     \<and> merge3 (reg_event b) (reg_event a) (reg_event c) = Some (reg_event m)"
  by (auto simp: merge_registration_def split: option.split_asm)

lemma wf_changeD: "wf_change event ch \<Longrightarrow> fch_before ch = Some r \<or> fch_after ch = Some r \<Longrightarrow> reg_id r = fch_reg ch \<and> reg_event r = event"
  unfolding wf_change_def by blast

lemma merge_feed_change_keys:
  assumes "wf_change event ch" "\<And>c. cur = Some c \<Longrightarrow> reg_id c = fch_reg ch \<and> reg_event c = event"
    "merge_feed_change cur ch = Inr (Some m)"
  shows "reg_id m = fch_reg ch \<and> reg_event m = event"
proof (cases "fch_before ch")
  case None
  with assms show ?thesis
    by (cases cur; cases "fch_after ch") (auto simp: merge_feed_change_def wf_change_def split: if_split_asm)
next
  case (Some b)
  obtain a where a: "fch_after ch = Some a" using assms(3) Some
    by (cases "fch_after ch"; cases cur) (auto simp: merge_feed_change_def split: if_split_asm)
  obtain c where c: "cur = Some c" using assms(3) Some a by (cases cur) (auto simp: merge_feed_change_def)
  obtain k where ch: "ch = \<lparr> fch_reg = k, fch_before = Some b, fch_after = Some a \<rparr>" using Some a by (cases ch) simp
  have "merge_registration b a c = Some m"
    using assms(3) merge_feed_change_fieldwise_lemma [of c k b a] ch c by (simp split: option.split_asm)
  moreover have "reg_id b = fch_reg ch" "reg_id a = fch_reg ch" "reg_id c = fch_reg ch"
    "reg_event b = event" "reg_event a = event" "reg_event c = event"
    using wf_changeD [OF assms(1)] assms(2) [OF c] Some a by blast+
  ultimately show ?thesis using merge_registration_keys [of b a c m] by simp
qed

lemma find_registration_row:
  assumes "find_registration d event k = Inr row" "roster_inv d"
  shows "map_option rr_deleted row = map_option rr_deleted (find_reg d event k)"
    "current_value row = Some c \<Longrightarrow> reg_id c = k \<and> reg_event c = event"
proof -
  show "map_option rr_deleted row = map_option rr_deleted (find_reg d event k)"
  proof (cases "find_reg d event k")
    case (Some x)
    with assms(1) show ?thesis by (cases "rr_deleted x") (auto simp: find_registration_def res_simps)
  qed (use assms(1) in \<open>simp add: find_registration_def\<close>)
  assume c: "current_value row = Some c"
  then obtain x where x: "find_reg d event k = Some x" "with_evidence d (rr_value x) = Inr c"
    using assms(1) by (auto simp: find_registration_def current_value_def res_simps split: option.split_asm if_split_asm)
  then have "x \<in> set (db_regs d)" "rr_event x = event" "rr_id x = k" by (auto simp: find_reg_def dest: find_Some_iff')
  with roster_invD(3) [OF assms(2), of x] with_evidence_same [OF x(2)] show "reg_id c = k \<and> reg_event c = event"
    by (simp add: mirrored_def)
qed

text \<open>A plan fits a database if the row it was made from is still there as it was found.\<close>

definition plan_fits :: "string \<Rightarrow> db \<Rightarrow> plan \<Rightarrow> bool" where
  "plan_fits event d p \<longleftrightarrow>
     map_option rr_deleted (pl_before p) = map_option rr_deleted (find_reg d event (fch_reg (pl_change p)))
     \<and> (\<forall>r. pl_after p = Some r \<longrightarrow> reg_id r = fch_reg (pl_change p) \<and> reg_event r = event)"

definition carried_out :: "string \<Rightarrow> db \<Rightarrow> plan \<Rightarrow> bool" where
  "carried_out event d p \<longleftrightarrow> current_value (find_reg d event (fch_reg (pl_change p))) = pl_after p
     \<and> (pl_after p \<noteq> None \<longrightarrow> current_heads (find_reg d event (fch_reg (pl_change p))) = pl_heads p)"

lemma delete_find_reg:
  assumes "delete_registration event k heads d = Inr d'"
  shows "find_reg d' e n = map_option (\<lambda>x. if e = event \<and> n = k then x\<lparr> rr_deleted := True, rr_heads := heads \<rparr> else x) (find_reg d e n)"
proof -
  have "db_regs d' = update_where (\<lambda>x. rr_event x = event \<and> rr_id x = k) (\<lambda>x. x\<lparr> rr_deleted := True, rr_heads := heads \<rparr>) (db_regs d)"
    using assms by (auto simp: delete_registration_def Let_def split: if_split_asm)
  then have "find_reg d' e n = map_option (\<lambda>x. if rr_event x = event \<and> rr_id x = k then x\<lparr> rr_deleted := True, rr_heads := heads \<rparr> else x)
      (find_reg d e n)"
    by (simp add: find_reg_def find_update_where)
  moreover have "rr_id x = n \<and> rr_event x = e" if "find_reg d e n = Some x" for x
    using that by (auto simp: find_reg_def dest: find_Some_iff')
  ultimately show ?thesis by (cases "find_reg d e n") auto
qed

lemma apply_plan_carried_out:
  assumes "apply_plan age_on event p d = Inr d'" "plan_fits event d p"
  shows "carried_out event d' p" "k \<noteq> fch_reg (pl_change p) \<Longrightarrow> find_reg d' event k = find_reg d event k"
proof -
  let ?k = "fch_reg (pl_change p)"
  have "carried_out event d' p \<and> (\<forall>k. k \<noteq> ?k \<longrightarrow> find_reg d' event k = find_reg d event k)"
  proof (cases "pl_after p")
    case None
    show ?thesis
    proof (cases "current_value (pl_before p) = None")
      case True
      with assms None have "d' = d" by (auto simp: apply_plan_def)
      moreover have "current_value (find_reg d event ?k) = None"
        using True assms(2) by (cases "pl_before p"; cases "find_reg d event ?k")
          (auto simp: plan_fits_def current_value_def split: if_split_asm)
      ultimately show ?thesis using None by (simp add: carried_out_def)
    next
      case False
      with assms None have "delete_registration event ?k (pl_heads p) d = Inr d'" by (simp add: apply_plan_def)
      note del = delete_find_reg [OF this]
      have "find_reg d' event n = find_reg d event n" if "n \<noteq> ?k" for n
        using del [of event n] that by (cases "find_reg d event n") simp_all
      moreover have "carried_out event d' p"
        using del [of event ?k] None by (cases "find_reg d event ?k") (simp_all add: carried_out_def current_value_def)
      ultimately show ?thesis by blast
    qed
  next
    case (Some r)
    have r: "reg_id r = ?k" "reg_event r = event" using assms(2) Some by (simp_all add: plan_fits_def)
    from assms(1) Some obtain cat where
      st: "(if pl_before p = None then insert_registration r (pl_heads p) cat d else put_registration r (pl_heads p) cat d) = Inr d'"
      by (auto simp: apply_plan_def res_simps)
    show ?thesis
    proof (cases "pl_before p")
      case None
      with st have "insert_registration r (pl_heads p) cat d = Inr d'" by simp
      from insert_find_reg(2) [OF this] r Some show ?thesis
        by (simp add: carried_out_def current_value_def current_heads_def)
    next
      case (Some x)
      with st have put: "put_registration r (pl_heads p) cat d = Inr d'" by simp
      obtain y where "find_reg d event ?k = Some y"
        using assms(2) Some by (cases "find_reg d event ?k") (simp_all add: plan_fits_def)
      with put_find_reg [OF put] r \<open>pl_after p = Some r\<close> show ?thesis
        by (simp add: carried_out_def current_value_def current_heads_def option.map_ident)
    qed
  qed
  then show "carried_out event d' p" "k \<noteq> ?k \<Longrightarrow> find_reg d' event k = find_reg d event k" by blast+
qed

lemma plan_fits_cong:
  "find_reg d1 event (fch_reg (pl_change q)) = find_reg d event (fch_reg (pl_change q)) \<Longrightarrow> plan_fits event d1 q = plan_fits event d q"
  by (simp add: plan_fits_def)

lemma apply_plans_fold:
  assumes "fold_res (apply_plan age_on event) ps d = Inr d'" "distinct (map (\<lambda>p. fch_reg (pl_change p)) ps)"
    "\<forall>p \<in> set ps. plan_fits event d p"
  shows "(\<forall>p \<in> set ps. carried_out event d' p)
    \<and> (\<forall>k. k \<notin> (\<lambda>p. fch_reg (pl_change p)) ` set ps \<longrightarrow> find_reg d' event k = find_reg d event k)"
  using assms
proof (induction ps arbitrary: d)
  case (Cons p ps)
  let ?k = "\<lambda>p. fch_reg (pl_change p)"
  from Cons.prems(1) obtain d1 where d1: "apply_plan age_on event p d = Inr d1"
    and rest: "fold_res (apply_plan age_on event) ps d1 = Inr d'" by (auto simp: res_simps)
  have one: "carried_out event d1 p" "\<And>k. k \<noteq> ?k p \<Longrightarrow> find_reg d1 event k = find_reg d event k"
    using apply_plan_carried_out [OF d1] Cons.prems(3) by auto
  have "plan_fits event d1 q" if "q \<in> set ps" for q
  proof -
    have "?k p \<notin> ?k ` set ps" using Cons.prems(2) by simp
    with imageI [OF that, of ?k] have "?k q \<noteq> ?k p" by metis
    then have "find_reg d1 event (?k q) = find_reg d event (?k q)" by (rule one(2))
    from plan_fits_cong [OF this] Cons.prems(3) that show ?thesis by (metis list.set_intros(2))
  qed
  with Cons.IH [OF rest] Cons.prems(2)
  have IH: "\<forall>q \<in> set ps. carried_out event d' q" "\<And>k. k \<notin> ?k ` set ps \<Longrightarrow> find_reg d' event k = find_reg d1 event k"
    by auto
  have "?k p \<notin> ?k ` set ps" using Cons.prems(2) by simp
  then have "carried_out event d' p" using one(1) IH(2) by (simp add: carried_out_def)
  with IH one(2) show ?case by auto
qed simp

lemma make_plan_Inr:
  assumes "make_plan d event next ch = Inr (Inr p)"
  shows "pl_change p = ch \<and> find_registration d event (fch_reg ch) = Inr (pl_before p)
    \<and> merge_feed_change (current_value (pl_before p)) ch = Inr (pl_after p)
    \<and> pl_heads p = unique_heads (next (current_heads (pl_before p)))"
proof (cases "find_registration d event (fch_reg ch)")
  case (Inr row)
  with assms show ?thesis
    by (cases "merge_feed_change (current_value row) ch") (auto simp: make_plan_def Let_def split: if_split_asm)
qed (use assms in \<open>simp add: make_plan_def\<close>)

lemma make_plans_Inr:
  assumes "make_plans d event next chs = Inr (Inr ps)"
  shows "list_all2 (\<lambda>ch p. pl_change p = ch \<and> find_registration d event (fch_reg ch) = Inr (pl_before p)
    \<and> merge_feed_change (current_value (pl_before p)) ch = Inr (pl_after p)
    \<and> pl_heads p = unique_heads (next (current_heads (pl_before p)))) chs ps"
  using assms
proof (induction chs arbitrary: ps)
  case (Cons ch chs)
  from Cons.prems obtain x where x: "make_plan d event next ch = Inr x"
    "(case x of Inl code \<Rightarrow> Inr (Inl code) | Inr p \<Rightarrow> bind_res (make_plans d event next chs) (\<lambda>y.
         case y of Inl code \<Rightarrow> Inr (Inl code) | Inr ps \<Rightarrow> Inr (Inr (p # ps)))) = Inr (Inr ps)"
    by (auto simp only: make_plans.simps res_simps)
  then obtain p where xp: "x = Inr p" by (cases x) simp_all
  have "\<exists>y. make_plans d event next chs = Inr y
      \<and> (case y of Inl code \<Rightarrow> Inr (Inl code) | Inr qs \<Rightarrow> Inr (Inr (p # qs))) = (Inr (Inr ps) :: (string + plan list) res)"
    using x(2) unfolding xp sum.case bind_res_Inr .
  then obtain y where y: "make_plans d event next chs = Inr y"
    "(case y of Inl code \<Rightarrow> Inr (Inl code) | Inr qs \<Rightarrow> Inr (Inr (p # qs))) = (Inr (Inr ps) :: (string + plan list) res)"
    by (elim exE conjE)
  then obtain qs where "y = Inr qs" by (cases y) simp_all
  with xp y have p: "x = Inr p" "make_plans d event next chs = Inr (Inr qs)" "ps = p # qs" by simp_all
  note make_plan_Inr [OF x(1) [unfolded xp]]
  with Cons.IH [OF p(2)] p(3) show ?case by simp
qed simp

lemma unique_heads_in: "h \<in> set heads \<Longrightarrow> h \<noteq> [] \<Longrightarrow> h \<in> set (unique_heads heads)"
  by (simp add: unique_heads_def)

text \<open>
  An accepted change of the site is merged, not copied: after the action every registration it names is
  the merge of the site's change with the desk's own row (created, updated field by field, or deleted), and
  the action's id stands among the row's heads, so a later tablet operation knows it saw this state.
\<close>

theorem feed_changes_merged:
  assumes "apply_feed_changes age_on event a d = Inr (d', ''applied'', code)" and "roster_inv d"
    and "distinct (map fch_reg (act_changes a))" and "\<forall>ch \<in> set (act_changes a). wf_change event ch"
    and "ch \<in> set (act_changes a)" and "act_id a \<noteq> []"
  shows "\<exists>row m. find_registration d event (fch_reg ch) = Inr row
    \<and> merge_feed_change (current_value row) ch = Inr m
    \<and> current_value (find_reg d' event (fch_reg ch)) = m
    \<and> (m \<noteq> None \<longrightarrow> act_id a \<in> set (current_heads (find_reg d' event (fch_reg ch))))"
proof -
  let ?next = "\<lambda>heads. heads @ [act_id a]"
  from assms(1) obtain x where x: "make_plans d event ?next (act_changes a) = Inr x"
    "(case x of Inl code \<Rightarrow> Inr (d, ''review'', Some code)
     | Inr ps \<Rightarrow> bind_res (apply_plans age_on event ps d) (\<lambda>d1. Inr (d1, ''applied'', None))) = Inr (d', ''applied'', code)"
    unfolding apply_feed_changes_def plan_and_apply_def res_simps by blast
  from x(2) obtain ps where ps: "x = Inr ps" "apply_plans age_on event ps d = Inr d'"
    by (auto simp: res_simps split: sum.split_asm)
  from ps(2) obtain clubs d1 where d1: "fold_res (apply_plan age_on event) ps d = Inr d1" "apply_clubs event clubs d1 = Inr d'"
    by (auto simp: apply_plans_def res_simps)
  have all: "list_all2 (\<lambda>ch p. pl_change p = ch \<and> find_registration d event (fch_reg ch) = Inr (pl_before p)
    \<and> merge_feed_change (current_value (pl_before p)) ch = Inr (pl_after p)
    \<and> pl_heads p = unique_heads (?next (current_heads (pl_before p)))) (act_changes a) ps"
    by (rule make_plans_Inr) (use x(1) ps(1) in simp)
  then have chs: "map pl_change ps = act_changes a"
    by (induction rule: list_all2_induct) simp_all
  then have dist: "distinct (map (\<lambda>p. fch_reg (pl_change p)) ps)" using assms(3) by (metis map_map comp_apply map_cong)
  have made: "find_registration d event (fch_reg (pl_change p)) = Inr (pl_before p)
    \<and> merge_feed_change (current_value (pl_before p)) (pl_change p) = Inr (pl_after p)
    \<and> pl_heads p = unique_heads (?next (current_heads (pl_before p)))" if "p \<in> set ps" for p
    using all that by (auto simp: list_all2_conv_all_nth in_set_conv_nth)
  have "plan_fits event d p" if p: "p \<in> set ps" for p
  proof -
    have wf: "wf_change event (pl_change p)" using assms(4) chs p by (metis image_eqI list.set_map)
    note f = find_registration_row [OF conjunct1 [OF made [OF p]] assms(2)]
    have "reg_id r = fch_reg (pl_change p) \<and> reg_event r = event" if "pl_after p = Some r" for r
    proof (rule merge_feed_change_keys [OF wf])
      show "merge_feed_change (current_value (pl_before p)) (pl_change p) = Inr (Some r)"
        using conjunct1 [OF conjunct2 [OF made [OF p]]] that by (simp only:)
    qed (rule f(2))
    with f(1) show ?thesis by (simp add: plan_fits_def)
  qed
  with apply_plans_fold [OF d1(1) dist] have fin: "\<forall>p \<in> set ps. carried_out event d1 p" by blast
  obtain p where p: "p \<in> set ps" "pl_change p = ch" using assms(5) chs by (metis imageE list.set_map)
  have "carried_out event d' p"
    using fin p(1) find_reg_cong [OF apply_clubs_regs [OF d1(2)]] by (simp add: carried_out_def)
  then show ?thesis
    using made [OF p(1)] p(2) unique_heads_in [of "act_id a" "?next (current_heads (pl_before p))"] assms(6)
    by (auto simp: carried_out_def)
qed

end
