(* ===== verification/PacketRebase.thy ===== *)
theory PacketRebase
  imports SiteMerge
begin

section \<open>Rebasing on a snapshot\<close>

text \<open>
  \<^verbatim>\<open>service/packet_issuance_rebase.go\<close>: when the site has compacted its feed past the desk's cursor, the desk
  takes a snapshot instead of the missing pages.  Every registration of the snapshot that differs from the
  last known site value is merged into the desk's row exactly like a change of the feed, with the last known
  site value as the merge base; a registration the snapshot no longer has is only reported.
\<close>

subsection \<open>Rows of the site baseline\<close>

definition valid_snapshot_cursor :: "string \<Rightarrow> bool" where
  "valid_snapshot_cursor v \<longleftrightarrow> (case parse_int 64 v of None \<Rightarrow> False | Some n \<Rightarrow> 0 \<le> n \<and> format_int n = v)"

definition list_site_rows :: "db \<Rightarrow> string \<Rightarrow> site_row list" where
  "list_site_rows d event = sort_key sr_id (filter (\<lambda>s. sr_event s = event) (db_site_regs d))"

text \<open>The map \<^verbatim>\<open>baselineByID\<close>, keyed by the id in the stored value: a later row replaces an earlier one.\<close>

definition baseline_by_id :: "site_row list \<Rightarrow> string \<Rightarrow> registration option" where
  "baseline_by_id rows k =
     (case List.find (\<lambda>s. reg_id (sr_value s) = k) (rev rows) of None \<Rightarrow> None
      | Some s \<Rightarrow> if sr_deleted s then None else Some (sr_value s))"

subsection \<open>One registration of the snapshot\<close>

definition snapshot_change :: "site_row list \<Rightarrow> registration \<Rightarrow> feed_change" where
  "snapshot_change rows v =
     \<lparr> fch_reg = reg_id v, fch_before = baseline_by_id rows (reg_id v), fch_after = Some v \<rparr>"

definition snapshot_same :: "site_row list \<Rightarrow> registration \<Rightarrow> bool" where
  "snapshot_same rows v \<longleftrightarrow>
     (case baseline_by_id rows (reg_id v) of None \<Rightarrow> False | Some b \<Rightarrow> feed_projection b = feed_projection v)"

definition with_timing :: "bool \<Rightarrow> registration \<Rightarrow> registration" where
  "with_timing t m = m\<lparr> reg_timing := (reg_timing m \<or> t) \<rparr>"

text \<open>The report and the plan for a changed registration; a review may still record timing evidence.\<close>

definition snapshot_plan :: "db \<Rightarrow> string \<Rightarrow> site_row list \<Rightarrow> registration \<Rightarrow> (snapshot_item \<times> plan option) res" where
  "snapshot_plan d event rows v =
     bind_res (find_registration d event (reg_id v)) (\<lambda>row.
     let ch = snapshot_change rows v in
     case merge_feed_change (current_value row) ch of
       Inr merged \<Rightarrow>
         Inr (\<lparr> it_reg = reg_id v, it_application = ''applied'', it_code = None \<rparr>,
              Some \<lparr> pl_change = ch, pl_before = row, pl_after = map_option (with_timing (reg_timing v)) merged,
                     pl_heads = current_heads row \<rparr>)
     | Inl code \<Rightarrow>
         Inr (\<lparr> it_reg = reg_id v, it_application = ''review'', it_code = Some code \<rparr>,
              case current_value row of None \<Rightarrow> None
              | Some c \<Rightarrow> if reg_timing v \<and> \<not> reg_timing c
                         then Some \<lparr> pl_change = ch, pl_before = row, pl_after = Some (c\<lparr> reg_timing := True \<rparr>),
                                     pl_heads = current_heads row \<rparr>
                         else None))"

definition changed_values :: "site_row list \<Rightarrow> registration list \<Rightarrow> registration list" where
  "changed_values rows regs = filter (\<lambda>v. \<not> snapshot_same rows v) regs"

definition missing_items :: "site_row list \<Rightarrow> registration list \<Rightarrow> snapshot_item list" where
  "missing_items rows regs =
     map (\<lambda>s. \<lparr> it_reg = reg_id (sr_value s), it_application = ''review'', it_code = Some ''snapshot_registration_missing'' \<rparr>)
       (filter (\<lambda>s. \<not> sr_deleted s \<and> reg_id (sr_value s) \<notin> reg_id ` set regs) rows)"

subsection \<open>The rebase\<close>

record rebase_result =
  rbr_applied :: nat
  rbr_review :: nat
  rbr_items :: "snapshot_item list"

definition snapshot_acceptable :: "db \<Rightarrow> string \<Rightarrow> bootstrap \<Rightarrow> bool" where
  "snapshot_acceptable d event b \<longleftrightarrow> boot_schema b = 2 \<and> boot_source b = ''site'' \<and> fst (boot_event b) = event
     \<and> boot_scope b \<noteq> [] \<and> boot_scope b = scope_of d event \<and> boot_baseline b \<noteq> [] \<and> boot_cursor b \<noteq> []
     \<and> valid_snapshot_cursor (boot_cursor b) \<and> length (boot_registrations b) \<le> 20000"

definition snapshot_rows_valid :: "string \<Rightarrow> registration list \<Rightarrow> bool" where
  "snapshot_rows_valid event regs \<longleftrightarrow>
     list_all (\<lambda>r. validate_registration r = Inr () \<and> reg_event r = event) regs \<and> distinct (map reg_id regs)"

definition save_rebase :: "rebase_row \<Rightarrow> db \<Rightarrow> db res" where
  "save_rebase row d =
     (if 64 \<le> count_where (\<lambda>r. rb_event r = rb_event row) (db_rebases d) then Inl ''packet_snapshot_rebase_limit''
      else if \<not> event_exists d (rb_event row) then Inl constraint_failed
      else Inr (d\<lparr> db_rebases := db_rebases d @ [row] \<rparr>))"

definition complete_rebase :: "string \<Rightarrow> string \<Rightarrow> string \<Rightarrow> string \<Rightarrow> string \<Rightarrow> db \<Rightarrow> db res" where
  "complete_rebase event expected_base next_base expected_cursor next_cursor d =
     (let p = (\<lambda>s. sc_event s = event \<and> sc_baseline s = expected_base \<and> sc_cursor s = expected_cursor) in
      if count_where p (db_scopes d) \<noteq> 1 then Inl ''packet_feed_cursor_changed''
      else Inr (d\<lparr> db_scopes := update_where p (\<lambda>s. s\<lparr> sc_baseline := next_base, sc_cursor := next_cursor \<rparr>)
                     (db_scopes d) \<rparr>))"

definition site_baseline :: "db \<Rightarrow> string \<Rightarrow> string" where
  "site_baseline d event = (case find_scope d event of None \<Rightarrow> [] | Some s \<Rightarrow> sc_baseline s)"

definition rebase_items :: "(snapshot_item \<times> plan option) list \<Rightarrow> site_row list \<Rightarrow> registration list \<Rightarrow> snapshot_item list" where
  "rebase_items outcomes rows regs = sort_key it_reg (map fst outcomes @ missing_items rows regs)"

definition count_application :: "string \<Rightarrow> snapshot_item list \<Rightarrow> nat" where
  "count_application a items = count_where (\<lambda>i. it_application i = a) items"

definition rebase_row_of :: "db \<Rightarrow> string \<Rightarrow> bootstrap \<Rightarrow> snapshot_item list \<Rightarrow> int \<Rightarrow> rebase_row" where
  "rebase_row_of d event b items at =
     \<lparr> rb_event = event, rb_scope = scope_of d event, rb_before = site_baseline d event, rb_after = boot_baseline b,
       rb_before_cursor = site_cursor d event, rb_after_cursor = boot_cursor b, rb_snapshot = b, rb_items = items,
       rb_recorded = at \<rparr>"

definition rebase_writes ::
  "(string \<Rightarrow> string \<Rightarrow> bool \<Rightarrow> int) \<Rightarrow> string \<Rightarrow> bootstrap \<Rightarrow> plan list \<Rightarrow> registration list \<Rightarrow> snapshot_item list \<Rightarrow> int \<Rightarrow>
     db \<Rightarrow> db res" where
  "rebase_writes age_on event b plans changed items at d =
     bind_res (apply_plans age_on event plans d) (\<lambda>d1.
     bind_res (fold_res (put_site_registration event) changed d1) (\<lambda>d2.
     bind_res (save_rebase (rebase_row_of d event b items at) d2) (\<lambda>d3.
     complete_rebase event (site_baseline d event) (boot_baseline b) (site_cursor d event) (boot_cursor b) d3)))"

definition rebase ::
  "(string \<Rightarrow> string \<Rightarrow> bool \<Rightarrow> int) \<Rightarrow> string \<Rightarrow> bootstrap \<Rightarrow> int \<Rightarrow> db \<Rightarrow> (db \<times> rebase_result) res" where
  "rebase age_on event b at d =
     (if \<not> snapshot_acceptable d event b then Inl ''invalid_packet_snapshot_rebase''
      else let d0 = save_origins event (boot_origins b) d; regs = boot_registrations b in
        if \<not> baseline_complete d0 event then Inl ''packet_site_baseline_unavailable''
        else if \<not> snapshot_rows_valid event regs then Inl ''invalid_packet_snapshot_rebase''
        else let rows = list_site_rows d0 event; changed = changed_values rows regs in
          bind_res (map_res (snapshot_plan d0 event rows) changed) (\<lambda>outcomes.
          let items = rebase_items outcomes rows regs in
          bind_res (rebase_writes age_on event b (List.map_filter snd outcomes) changed items at d0) (\<lambda>d1.
          Inr (d1, \<lparr> rbr_applied = count_application ''applied'' items, rbr_review = count_application ''review'' items,
                     rbr_items = items \<rparr>))))"

end
