(* ===== verification/RebaseLaws.thy ===== *)
theory RebaseLaws
  imports PacketRebase
begin

section \<open>What a rebase guarantees\<close>

text \<open>
  A snapshot is merged like the feed it replaces: nothing the desk holds is deleted, the causal heads of its
  rows stay, and afterwards the last known site state is the snapshot.
\<close>

lemma feed_projection_timing [simp]: "feed_projection (r\<lparr> reg_timing := t \<rparr>) = feed_projection r"
  by (simp add: feed_projection_def)

lemma with_timing_fields [simp]:
  "reg_id (with_timing t r) = reg_id r" "reg_event (with_timing t r) = reg_event r"
  "feed_projection (with_timing t r) = feed_projection r"
  by (simp_all add: with_timing_def)

lemma save_origins_tables [simp]:
  "db_regs (save_origins event os d) = db_regs d" "db_members (save_origins event os d) = db_members d"
  "db_site_regs (save_origins event os d) = db_site_regs d" "db_scopes (save_origins event os d) = db_scopes d"
  "db_heads (save_origins event os d) = db_heads d" "db_feed (save_origins event os d) = db_feed d"
  "db_archive (save_origins event os d) = db_archive d"
  by (simp_all add: save_origins_def Let_def split: option.split)

subsection \<open>Snapshot values merged\<close>

lemma merge3_target: "merge3 x y y = Some y"
  by (simp add: merge3_def)

lemma merge_into_after:
  assumes "fch_after ch = Some a" "\<And>c. cur = Some c \<Longrightarrow> reg_id c = reg_id a \<and> reg_event c = reg_event a"
    "merge_feed_change cur ch = Inr x"
  shows "\<exists>m. x = Some m \<and> reg_id m = reg_id a \<and> reg_event m = reg_event a"
proof (cases "fch_before ch")
  case None
  with assms show ?thesis by (cases cur) (auto simp: merge_feed_change_def split: if_split_asm)
next
  case (Some b)
  obtain c where c: "cur = Some c" using assms(1,3) Some by (cases cur) (auto simp: merge_feed_change_def)
  obtain k where ch: "ch = \<lparr> fch_reg = k, fch_before = Some b, fch_after = Some a \<rparr>" using Some assms(1) by (cases ch) simp
  obtain m where m: "x = Some m" "merge_registration b a c = Some m"
    using assms(3) merge_feed_change_fieldwise_lemma [of c k b a] ch c by (cases "merge_registration b a c") auto
  have "reg_id c = reg_id a" "reg_event c = reg_event a" using assms(2) [OF c] by blast+
  with merge_registration_keys [OF m(2)] m(1) show ?thesis by (simp add: merge3_target)
qed

definition plan_of_value :: "db \<Rightarrow> string \<Rightarrow> registration \<Rightarrow> snapshot_item \<Rightarrow> plan \<Rightarrow> bool" where
  "plan_of_value d event v i p \<longleftrightarrow>
     fch_reg (pl_change p) = reg_id v \<and> it_reg i = reg_id v \<and> plan_fits event d p \<and> pl_after p \<noteq> None
     \<and> pl_heads p = current_heads (find_reg d event (reg_id v))
     \<and> (it_application i = ''applied'' \<or>
        (\<exists>c m. pl_after p = Some m \<and> current_value (find_reg d event (reg_id v)) = Some c \<and> feed_projection m = feed_projection c))"

lemma find_registration_shape:
  assumes "find_registration d event k = Inr row"
  shows "current_heads row = current_heads (find_reg d event k)"
    "current_value row = Some c \<Longrightarrow> \<exists>c'. current_value (find_reg d event k) = Some c' \<and> feed_projection c = feed_projection c'"
proof -
  show "current_heads row = current_heads (find_reg d event k)"
  proof (cases "find_reg d event k")
    case (Some x)
    with assms show ?thesis by (cases "rr_deleted x") (auto simp: find_registration_def current_heads_def res_simps)
  qed (use assms in \<open>simp add: find_registration_def\<close>)
  assume c: "current_value row = Some c"
  show "\<exists>c'. current_value (find_reg d event k) = Some c' \<and> feed_projection c = feed_projection c'"
  proof (cases "find_reg d event k")
    case (Some x)
    with assms c show ?thesis
      by (cases "rr_deleted x") (auto simp: find_registration_def current_value_def res_simps with_evidence_def)
  qed (use assms c in \<open>simp add: find_registration_def current_value_def\<close>)
qed

lemma snapshot_plan_fits:
  assumes "snapshot_plan d event rows v = Inr (i, Some p)" "reg_event v = event" "roster_inv d"
  shows "plan_of_value d event v i p"
proof -
  let ?ch = "snapshot_change rows v"
  have ch: "fch_reg ?ch = reg_id v" "fch_after ?ch = Some v" by (simp_all add: snapshot_change_def)
  from assms(1) obtain row where row: "find_registration d event (reg_id v) = Inr row"
    by (cases "find_registration d event (reg_id v)") (simp_all add: snapshot_plan_def)
  note fit = find_registration_row [OF row assms(3)] and shape = find_registration_shape [OF row]
  have cur: "reg_id c = reg_id v \<and> reg_event c = reg_event v" if "current_value row = Some c" for c
    using fit(2) [OF that] assms(2) by simp
  show ?thesis
  proof (cases "merge_feed_change (current_value row) ?ch")
    case (Inr merged)
    with merge_into_after [OF ch(2) cur] obtain m where m: "merged = Some m" "reg_id m = reg_id v" "reg_event m = event"
      using assms(2) by auto
    from assms(1) row Inr m(1) have p: "i = \<lparr> it_reg = reg_id v, it_application = ''applied'', it_code = None \<rparr>"
      "p = \<lparr> pl_change = ?ch, pl_before = row, pl_after = Some (with_timing (reg_timing v) m), pl_heads = current_heads row \<rparr>"
      by (simp_all add: snapshot_plan_def Let_def)
    then show ?thesis using fit(1) m shape(1) ch(1) by (simp add: plan_of_value_def plan_fits_def)
  next
    case (Inl code)
    with assms(1) row obtain c where c: "current_value row = Some c"
      and p: "i = \<lparr> it_reg = reg_id v, it_application = ''review'', it_code = Some code \<rparr>"
      "p = \<lparr> pl_change = ?ch, pl_before = row, pl_after = Some (c\<lparr> reg_timing := True \<rparr>), pl_heads = current_heads row \<rparr>"
      by (auto simp: snapshot_plan_def Let_def split: option.split_asm if_split_asm)
    obtain c' where "current_value (find_reg d event (reg_id v)) = Some c'" "feed_projection c = feed_projection c'"
      using shape(2) [OF c] by blast
    with fit(1) cur [OF c] assms(2) p shape(1) ch(1) show ?thesis by (simp add: plan_of_value_def plan_fits_def)
  qed
qed

subsection \<open>The whole snapshot\<close>

lemma rebase_Inr:
  assumes "rebase age_on event b at d = Inr (d', res)"
  obtains d0 rows outcomes d1 d2 d3 where
    "d0 = save_origins event (boot_origins b) d" "rows = list_site_rows d0 event"
    "snapshot_rows_valid event (boot_registrations b)"
    "map_res (snapshot_plan d0 event rows) (changed_values rows (boot_registrations b)) = Inr outcomes"
    "rbr_items res = rebase_items outcomes rows (boot_registrations b)"
    "apply_plans age_on event (List.map_filter snd outcomes) d0 = Inr d1"
    "fold_res (put_site_registration event) (changed_values rows (boot_registrations b)) d1 = Inr d2"
    "save_rebase (rebase_row_of d0 event b (rbr_items res) at) d2 = Inr d3"
    "complete_rebase event (site_baseline d0 event) (boot_baseline b) (site_cursor d0 event) (boot_cursor b) d3 = Inr d'"
proof -
  let ?d0 = "save_origins event (boot_origins b) d"
  let ?rows = "list_site_rows ?d0 event"
  let ?changed = "changed_values ?rows (boot_registrations b)"
  from assms have v: "snapshot_rows_valid event (boot_registrations b)"
    and r: "bind_res (map_res (snapshot_plan ?d0 event ?rows) ?changed) (\<lambda>outcomes.
      let items = rebase_items outcomes ?rows (boot_registrations b) in
      bind_res (rebase_writes age_on event b (List.map_filter snd outcomes) ?changed items at ?d0) (\<lambda>d1.
      Inr (d1, \<lparr> rbr_applied = count_application ''applied'' items, rbr_review = count_application ''review'' items,
                 rbr_items = items \<rparr>))) = Inr (d', res)"
    by (auto simp: rebase_def Let_def split: if_split_asm)
  from r obtain outcomes where o: "map_res (snapshot_plan ?d0 event ?rows) ?changed = Inr outcomes"
    "rebase_writes age_on event b (List.map_filter snd outcomes) ?changed (rebase_items outcomes ?rows (boot_registrations b)) at ?d0 = Inr d'"
    "rbr_items res = rebase_items outcomes ?rows (boot_registrations b)"
    by (auto simp: Let_def res_simps)
  from o(2) obtain d1 d2 d3 where
    "apply_plans age_on event (List.map_filter snd outcomes) ?d0 = Inr d1"
    "fold_res (put_site_registration event) ?changed d1 = Inr d2"
    "save_rebase (rebase_row_of ?d0 event b (rbr_items res) at) d2 = Inr d3"
    "complete_rebase event (site_baseline ?d0 event) (boot_baseline b) (site_cursor ?d0 event) (boot_cursor b) d3 = Inr d'"
    unfolding rebase_writes_def o(3) by (auto simp: res_simps)
  with v o(1,3) show thesis by (intro that) simp_all
qed

lemma site_writes_regs:
  "fold_res (put_site_registration event) vs d = Inr d' \<Longrightarrow> db_regs d' = db_regs d"
  by (erule fold_res_invariant [where P = "\<lambda>x. db_regs x = db_regs d"])
    (auto simp: put_site_registration_def store_site_row_def Let_def split: if_split_asm)

lemma save_rebase_rest: "save_rebase row d = Inr d' \<Longrightarrow> \<exists>x. d' = d\<lparr> db_rebases := x \<rparr>"
  by (auto simp: save_rebase_def split: if_split_asm)

lemma complete_rebase_rest: "complete_rebase event a b c e d = Inr d' \<Longrightarrow> \<exists>x. d' = d\<lparr> db_scopes := x \<rparr>"
  by (auto simp: complete_rebase_def Let_def split: if_split_asm)

lemma map_filter_Cons: "List.map_filter f (x # xs) = (case f x of None \<Rightarrow> List.map_filter f xs | Some y \<Rightarrow> y # List.map_filter f xs)"
  by (simp add: List.map_filter_def split: option.split)

lemma outcome_plans:
  assumes "map_res (snapshot_plan d event rows) vs = Inr outcomes" "\<forall>v \<in> set vs. reg_event v = event" "roster_inv d"
    "distinct (map reg_id vs)"
  shows "\<forall>p \<in> set (List.map_filter snd outcomes). \<exists>i v. (i, Some p) \<in> set outcomes \<and> v \<in> set vs \<and> plan_of_value d event v i p"
    and "distinct (map (\<lambda>p. fch_reg (pl_change p)) (List.map_filter snd outcomes))"
proof -
  have all: "list_all2 (\<lambda>v o'. snapshot_plan d event rows v = Inr o') vs outcomes" using assms(1) by (simp add: map_res_Inr)
  then have "(\<forall>p \<in> set (List.map_filter snd outcomes). \<exists>i v. (i, Some p) \<in> set outcomes \<and> v \<in> set vs \<and> plan_of_value d event v i p)
    \<and> distinct (map (\<lambda>p. fch_reg (pl_change p)) (List.map_filter snd outcomes))"
    using assms(2,4)
  proof (induction rule: list_all2_induct)
    case (Cons v vs o' os)
    obtain i x where o': "o' = (i, x)" by (cases o')
    have IH: "\<forall>q \<in> set (List.map_filter snd os). \<exists>i w. (i, Some q) \<in> set os \<and> w \<in> set vs \<and> plan_of_value d event w i q"
      "distinct (map (\<lambda>p. fch_reg (pl_change p)) (List.map_filter snd os))"
      using Cons.IH Cons.prems by simp_all
    show ?case
    proof (cases x)
      case None
      with o' have "List.map_filter snd (o' # os) = List.map_filter snd os" by (simp add: map_filter_Cons)
      with IH show ?thesis by (simp only: list.set) blast
    next
      case (Some p)
      have fits: "plan_of_value d event v i p"
        by (rule snapshot_plan_fits) (use Cons.hyps(1) Cons.prems(1) o' Some assms(3) in auto)
      have "fch_reg (pl_change p) \<noteq> fch_reg (pl_change q)" if "q \<in> set (List.map_filter snd os)" for q
      proof -
        from bspec [OF IH(1) that] obtain j w where w: "w \<in> set vs" "plan_of_value d event w j q" by (elim exE conjE)
        have "reg_id v \<notin> reg_id ` set vs" using Cons.prems(2) by simp
        with imageI [OF w(1), of reg_id] have "reg_id v \<noteq> reg_id w" by metis
        with w(2) fits show ?thesis by (simp add: plan_of_value_def)
      qed
      then have "fch_reg (pl_change p) \<notin> (\<lambda>p. fch_reg (pl_change p)) ` set (List.map_filter snd os)" by (metis imageE)
      then have dist: "distinct (map (\<lambda>p. fch_reg (pl_change p)) (p # List.map_filter snd os))" using IH(2) by simp
      have mem: "\<exists>i w. (i, Some q) \<in> set (o' # os) \<and> w \<in> set (v # vs) \<and> plan_of_value d event w i q"
        if "q \<in> set (p # List.map_filter snd os)" for q
      proof (cases "q = p")
        case True
        with fits o' Some show ?thesis by (intro exI [of _ i] exI [of _ v]) simp
      next
        case False
        with that have "q \<in> set (List.map_filter snd os)" by simp
        from bspec [OF IH(1) this] obtain j w where "(j, Some q) \<in> set os" "w \<in> set vs" "plan_of_value d event w j q"
          by (elim exE conjE)
        then show ?thesis by (intro exI [of _ j] exI [of _ w]) simp
      qed
      have eq: "List.map_filter snd (o' # os) = p # List.map_filter snd os" using o' Some by (simp add: map_filter_Cons)
      show ?thesis unfolding eq by (intro conjI ballI mem dist)
    qed
  qed (simp add: List.map_filter_def)
  then show "\<forall>p \<in> set (List.map_filter snd outcomes). \<exists>i v. (i, Some p) \<in> set outcomes \<and> v \<in> set vs \<and> plan_of_value d event v i p"
    and "distinct (map (\<lambda>p. fch_reg (pl_change p)) (List.map_filter snd outcomes))" by blast+
qed

lemma carried_row:
  assumes "carried_out event e p" and "plan_of_value d event v i p" and "find_reg d event (reg_id v) = Some row" and "\<not> rr_deleted row"
  shows "\<exists>row'. find_reg e event (reg_id v) = Some row' \<and> \<not> rr_deleted row' \<and> rr_heads row' = rr_heads row \<and>
    (it_application i = ''applied'' \<or> feed_projection (rr_value row') = feed_projection (rr_value row))"
proof -
  obtain m where m: "pl_after p = Some m" using assms(2) by (auto simp: plan_of_value_def)
  have "current_value (find_reg e event (reg_id v)) = Some m" "current_heads (find_reg e event (reg_id v)) = pl_heads p"
    using assms(1,2) m by (simp_all add: carried_out_def plan_of_value_def)
  then obtain row' where row': "find_reg e event (reg_id v) = Some row'" "\<not> rr_deleted row'" "rr_value row' = m" "rr_heads row' = pl_heads p"
    by (auto simp: current_value_def current_heads_def split: option.split_asm if_split_asm)
  have "pl_heads p = rr_heads row" using assms(2,3) by (simp add: plan_of_value_def current_heads_def)
  moreover have "it_application i = ''applied'' \<or> feed_projection m = feed_projection (rr_value row)"
    using assms(2-4) m by (auto simp: plan_of_value_def current_value_def)
  ultimately show ?thesis using row' by auto
qed

text \<open>
  C13. A rebase never takes work away from the desk: every live registration is still there afterwards with
  its causal heads, and only the registrations it reports as applied may have changed in anything but the
  note that timing evidence exists.
\<close>

theorem rebase_keeps_desk_work:
  assumes "rebase age_on event b at d = Inr (d', res)" and "roster_inv d"
    and "find_reg d event k = Some row" and "\<not> rr_deleted row"
  shows "\<exists>row'. find_reg d' event k = Some row' \<and> \<not> rr_deleted row' \<and> rr_heads row' = rr_heads row
    \<and> ((\<exists>i \<in> set (rbr_items res). it_reg i = k \<and> it_application i = ''applied'')
       \<or> feed_projection (rr_value row') = feed_projection (rr_value row))"
  using assms(1)
proof (rule rebase_Inr)
  fix d0 rows outcomes d1 d2 d3
  assume d0: "d0 = save_origins event (boot_origins b) d"
    and valid: "snapshot_rows_valid event (boot_registrations b)"
    and out: "map_res (snapshot_plan d0 event rows) (changed_values rows (boot_registrations b)) = Inr outcomes"
    and items: "rbr_items res = rebase_items outcomes rows (boot_registrations b)"
    and w: "apply_plans age_on event (List.map_filter snd outcomes) d0 = Inr d1"
      "fold_res (put_site_registration event) (changed_values rows (boot_registrations b)) d1 = Inr d2"
      "save_rebase (rebase_row_of d0 event b (rbr_items res) at) d2 = Inr d3"
      "complete_rebase event (site_baseline d0 event) (boot_baseline b) (site_cursor d0 event) (boot_cursor b) d3 = Inr d'"
  let ?ps = "List.map_filter snd outcomes" and ?k = "\<lambda>p. fch_reg (pl_change p)"
  have inv: "roster_inv d0" using assms(2) d0 by (simp add: roster_inv_def)
  have "\<forall>v \<in> set (changed_values rows (boot_registrations b)). reg_event v = event"
    "distinct (map reg_id (changed_values rows (boot_registrations b)))"
    using valid by (auto simp: snapshot_rows_valid_def changed_values_def list_all_iff distinct_map_filter)
  note plans = outcome_plans [OF out this(1) inv this(2)]
  have fits: "\<forall>p \<in> set ?ps. plan_fits event d0 p" using plans(1) by (auto simp: plan_of_value_def)
  obtain clubs e where e: "fold_res (apply_plan age_on event) ?ps d0 = Inr e" "apply_clubs event clubs e = Inr d1"
    using w(1) by (auto simp: apply_plans_def res_simps)
  note carried = apply_plans_fold [OF e(1) plans(2) fits]
  have "db_regs d' = db_regs e"
    using complete_rebase_rest [OF w(4)] save_rebase_rest [OF w(3)] site_writes_regs [OF w(2)] apply_clubs_regs [OF e(2)] by auto
  then have fin: "find_reg d' event n = find_reg e event n" for n by (rule find_reg_cong)
  have start: "find_reg d0 event k = Some row" using assms(3) d0 by (simp add: find_reg_def)
  show ?thesis
  proof (cases "k \<in> ?k ` set ?ps")
    case False
    with carried fin start assms(4) show ?thesis by auto
  next
    case True
    then obtain p where p: "p \<in> set ?ps" "?k p = k" by blast
    then obtain i v where iv: "(i, Some p) \<in> set outcomes" "plan_of_value d0 event v i p" using plans(1) by blast
    have key: "reg_id v = k" "it_reg i = k" using iv(2) p(2) by (simp_all add: plan_of_value_def)
    have co: "carried_out event e p" using carried p(1) by blast
    have "i \<in> set (rbr_items res)" using iv(1) items by (force simp: rebase_items_def)
    with carried_row [OF co iv(2) _ assms(4)] start key show ?thesis unfolding fin by blast
  qed
qed

section \<open>After a rebase the site is the snapshot\<close>

text \<open>
  The last known site state after a rebase, as the map of \<open>site_view\<close>, and the cursor from which the next
  page is read.
\<close>

text \<open>The primary key of the baseline table.\<close>

definition site_rows_keyed :: "db \<Rightarrow> bool" where
  "site_rows_keyed d \<longleftrightarrow> distinct (map (\<lambda>s. (sr_event s, sr_id s)) (db_site_regs d))"

lemma find_by_key:
  assumes "distinct (map f xs)" "set ys = {x \<in> set xs. P x}" "\<And>x. x \<in> set xs \<Longrightarrow> P x \<and> q x \<longleftrightarrow> f x = key" "\<And>x. x \<in> set xs \<Longrightarrow> r x \<longleftrightarrow> f x = key"
  shows "List.find q ys = List.find r xs"
proof (cases "List.find r xs")
  case None
  then have "\<forall>x \<in> set xs. f x \<noteq> key" using assms(4) by (auto simp: find_None_iff)
  then have "\<forall>x \<in> set ys. \<not> q x" using assms(2,3) by blast
  then have "List.find q ys = None" by (simp add: find_None_iff)
  then show ?thesis using None by simp
next
  case (Some x)
  then have x: "x \<in> set xs" "f x = key" using assms(4) by (auto dest: find_Some_iff')
  have uniq: "y = x" if "y \<in> set xs" "f y = key" for y
    using assms(1) x that by (metis distinct_map inj_onD)
  have "x \<in> set ys" "q x" using assms(2,3) x by blast+
  then have "List.find q ys \<noteq> None" by (auto simp: find_None_iff)
  then obtain y where y: "List.find q ys = Some y" by blast
  then have "y \<in> set xs" "f y = key" using assms(2,3) by (auto dest!: find_Some_iff')
  with uniq y Some show ?thesis by simp
qed

lemma baseline_by_id_view:
  assumes "site_rows_inv d" "site_rows_keyed d"
  shows "baseline_by_id (list_site_rows d event) k = site_view d event k"
proof -
  have "List.find (\<lambda>s. reg_id (sr_value s) = k) (rev (list_site_rows d event)) = find_site_row d event k"
    unfolding find_site_row_def
    by (rule find_by_key [where f = "\<lambda>s. (sr_event s, sr_id s)" and P = "\<lambda>s. sr_event s = event" and key = "(event, k)"])
      (use assms in \<open>auto simp: site_rows_keyed_def list_site_rows_def site_rows_inv_def\<close>)
  then show ?thesis by (simp add: baseline_by_id_def site_view_def baseline_value_def)
qed

lemma put_values_view:
  "fold_res (put_site_registration event) vs d = Inr d' \<Longrightarrow> distinct (map reg_id vs) \<Longrightarrow>
   site_view d' event k = (case List.find (\<lambda>v. reg_id v = k) vs of None \<Rightarrow> site_view d event k | Some v \<Rightarrow> Some v)
   \<and> db_scopes d' = db_scopes d"
proof (induction vs arbitrary: d)
  case (Cons v vs)
  then obtain d1 where d1: "put_site_registration event v d = Inr d1" "fold_res (put_site_registration event) vs d1 = Inr d'"
    by (auto simp: res_simps)
  note v = store_site_row_view [OF d1(1) [unfolded put_site_registration_def]]
    store_site_row_scopes [OF d1(1) [unfolded put_site_registration_def]]
  have none: "List.find (\<lambda>v. reg_id v = reg_id v') vs = None" if "reg_id v' = reg_id v" for v'
    using Cons.prems(2) that by (auto simp: find_None_iff image_iff)
  show ?case using Cons.IH [OF d1(2)] Cons.prems(2) v none [of v] by (auto split: option.split)
qed simp

lemma plans_site_rows:
  assumes "apply_plans age_on event ps d = Inr d'"
  shows "db_site_regs d' = db_site_regs d \<and> db_scopes d' = db_scopes d"
  using effect_steps_site_rows [OF row_steps_effect] effect_steps_scopes [OF row_steps_effect] apply_plans_steps [OF assms]
  by blast

lemma complete_rebase_scope:
  assumes "complete_rebase event (site_baseline d0 event) base (site_cursor d0 event) cursor d = Inr d'" "db_scopes d = db_scopes d0"
  shows "site_cursor d' event = cursor \<and> site_baseline d' event = base"
proof -
  let ?p = "\<lambda>s. sc_event s = event \<and> sc_baseline s = site_baseline d0 event \<and> sc_cursor s = site_cursor d0 event"
  have one: "count_where ?p (db_scopes d0) = 1"
    and d': "db_scopes d' = update_where ?p (\<lambda>s. s\<lparr> sc_baseline := base, sc_cursor := cursor \<rparr>) (db_scopes d0)"
    using assms by (auto simp: complete_rebase_def Let_def split: if_split_asm)
  from one have "\<exists>s \<in> set (db_scopes d0). ?p s" using count_where_0 [of ?p "db_scopes d0"] by auto
  then have "find_scope d0 event \<noteq> None" by (auto simp: find_scope_def find_None_iff)
  then obtain s where s: "find_scope d0 event = Some s" by blast
  have "?p s" using s by (auto simp: find_scope_def site_baseline_def site_cursor_def dest: find_Some_iff')
  moreover have "find_scope d' event = map_option (\<lambda>s. if ?p s then s\<lparr> sc_baseline := base, sc_cursor := cursor \<rparr> else s) (find_scope d0 event)"
    by (simp add: find_scope_def d' find_update_where)
  ultimately have "find_scope d' event = Some (s\<lparr> sc_baseline := base, sc_cursor := cursor \<rparr>)" using s by simp
  then show ?thesis by (simp add: site_cursor_def site_baseline_def)
qed

lemma snapshot_view:
  assumes "snapshot_rows_valid event regs" and "site_rows_inv d" and "site_rows_keyed d"
    and view: "\<And>k. f k = (case List.find (\<lambda>v. reg_id v = k) (changed_values (list_site_rows d event) regs) of
      None \<Rightarrow> site_view d event k | Some v \<Rightarrow> Some v)"
  shows "v \<in> set regs \<Longrightarrow> \<exists>w. f (reg_id v) = Some w \<and> feed_projection w = feed_projection v"
    and "k \<notin> reg_id ` set regs \<Longrightarrow> f k = site_view d event k"
proof -
  let ?changed = "changed_values (list_site_rows d event) regs"
  have dist: "distinct (map reg_id ?changed)" using assms(1) by (simp add: snapshot_rows_valid_def changed_values_def distinct_map_filter)
  have inj: "inj_on reg_id (set regs)" using assms(1) by (simp add: snapshot_rows_valid_def distinct_map)
  show "\<exists>w. f (reg_id v) = Some w \<and> feed_projection w = feed_projection v" if v: "v \<in> set regs"
  proof (cases "v \<in> set ?changed")
    case True
    with find_key_unique [OF dist] have "List.find (\<lambda>u. reg_id u = reg_id v) ?changed = Some v" by blast
    then show ?thesis by (simp add: view)
  next
    case False
    with v have same: "snapshot_same (list_site_rows d event) v" by (simp add: changed_values_def)
    have "u = v" if "u \<in> set regs" "reg_id u = reg_id v" for u
      using inj_onD [OF inj that(2,1) v] .
    with False have "List.find (\<lambda>u. reg_id u = reg_id v) ?changed = None"
      unfolding find_None_iff changed_values_def set_filter by blast
    then have "f (reg_id v) = baseline_by_id (list_site_rows d event) (reg_id v)"
      using baseline_by_id_view [OF assms(2,3)] by (simp add: view)
    with same show ?thesis by (auto simp: snapshot_same_def split: option.split_asm)
  qed
  show "f k = site_view d event k" if "k \<notin> reg_id ` set regs"
  proof -
    have "List.find (\<lambda>u. reg_id u = k) ?changed = None" using that by (auto simp: find_None_iff changed_values_def)
    then show ?thesis by (simp add: view)
  qed
qed

text \<open>
  C14. A rebase takes over the rows of the snapshot: afterwards the baseline holds every registration of the snapshot
  as it is there (timing evidence aside), a registration that the snapshot does not list keeps the baseline it had, and
  the next page is read from the snapshot's cursor under the snapshot's baseline id.
\<close>

theorem rebase_follows_site:
  assumes "rebase age_on event b at d = Inr (d', res)" and "site_rows_inv d" and "site_rows_keyed d"
  shows "(\<forall>v \<in> set (boot_registrations b). \<exists>w. site_view d' event (reg_id v) = Some w \<and> feed_projection w = feed_projection v)
    \<and> (\<forall>k. k \<notin> reg_id ` set (boot_registrations b) \<longrightarrow> site_view d' event k = site_view d event k)
    \<and> site_cursor d' event = boot_cursor b \<and> site_baseline d' event = boot_baseline b"
  using assms(1)
proof (rule rebase_Inr)
  fix d0 rows outcomes d1 d2 d3
  let ?changed = "changed_values rows (boot_registrations b)"
  assume d0: "d0 = save_origins event (boot_origins b) d" and rows: "rows = list_site_rows d0 event"
    and valid: "snapshot_rows_valid event (boot_registrations b)"
    and w: "apply_plans age_on event (List.map_filter snd outcomes) d0 = Inr d1"
      "fold_res (put_site_registration event) ?changed d1 = Inr d2"
      "save_rebase (rebase_row_of d0 event b (rbr_items res) at) d2 = Inr d3"
      "complete_rebase event (site_baseline d0 event) (boot_baseline b) (site_cursor d0 event) (boot_cursor b) d3 = Inr d'"
  have keyed: "site_rows_inv d0" "site_rows_keyed d0" using assms(2,3) d0 by (simp_all add: site_rows_inv_def site_rows_keyed_def)
  have v0: "site_view d0 event = site_view d event" using site_view_cong [of d0 d event] d0 by simp
  have v1: "site_view d1 event = site_view d0 event" using site_view_cong [of d1 d0 event] plans_site_rows [OF w(1)] by simp
  have dist: "distinct (map reg_id ?changed)" using valid by (simp add: snapshot_rows_valid_def changed_values_def distinct_map_filter)
  note put = put_values_view [OF w(2) dist]
  have "db_site_regs d' = db_site_regs d2"
    using complete_rebase_rest [OF w(4)] save_rebase_rest [OF w(3)] by auto
  then have view: "site_view d' event k = (case List.find (\<lambda>v. reg_id v = k) (changed_values (list_site_rows d0 event) (boot_registrations b)) of
      None \<Rightarrow> site_view d0 event k | Some v \<Rightarrow> Some v)" for k
    using site_view_cong [of d' d2 event] put [of k] unfolding v1 rows by simp
  have "db_scopes d3 = db_scopes d0"
    using save_rebase_rest [OF w(3)] put [of "[]"] plans_site_rows [OF w(1)] by auto
  note complete_rebase_scope [OF w(4) this]
  then show ?thesis
    using snapshot_view [where f = "site_view d' event", OF valid keyed view] unfolding v0 by blast
qed

end
