(* ===== verification/PacketResolve.thy ===== *)
theory PacketResolve
  imports RebaseLaws
begin

section \<open>Deciding conflicts\<close>

text \<open>
  \<^verbatim>\<open>service/packet_issuance_resolution.go\<close>: an operator at the desk looks at a conflicting tablet operation and
  either applies the proposal or keeps what the desk has.  The proposal is recomputed from the current rows;
  its digest must be the one the operator was shown.  The decision is an operation of schema 2, journalled,
  recorded against its input and published like any other.  A text that reaches the service was decoded from
  JSON and is valid UTF-8; \<open>sha\<close> is SHA-256 of the marshalled evidence, \<open>fresh\<close> the new id of the decision.
\<close>

subsection \<open>The proposal\<close>

text \<open>The rows the operation is about; a row it was to create is the empty row it started from.\<close>

definition conflict_row :: "db \<Rightarrow> string \<Rightarrow> change \<Rightarrow> registration res" where
  "conflict_row d event ch =
     (case get_registrations d event [chg_reg ch] of
        Inr rows \<Rightarrow> Inr (hd rows)
      | Inl e \<Rightarrow> if e = no_rows \<and> is_virtual_registration (chg_before ch) then Inr (chg_before ch) else Inl e)"

definition conflict_rows :: "db \<Rightarrow> string \<Rightarrow> operation \<Rightarrow> registration list res" where
  "conflict_rows d event op =
     (case get_registrations d event (map chg_reg (op_changes op)) of
        Inr rows \<Rightarrow> Inr rows
      | Inl e \<Rightarrow>
          if e \<noteq> no_rows then Inl e
          else if cmd_type (op_command op) = ''create_registration'' then Inr [chg_before (hd (op_changes op))]
          else if cmd_type (op_command op) = ''return_to_reserve'' then map_res (conflict_row d event) (op_changes op)
          else Inl ''packet_resolution_input_missing'')"

definition proposal_applies :: "db \<Rightarrow> string \<Rightarrow> operation \<Rightarrow> registration list \<Rightarrow> change list res" where
  "proposal_applies d event op current =
     (let c = op_command op; t = cmd_type c in
      if t = ''create_registration'' \<or> t = ''return_to_reserve'' then Inl ''registration_already_exists''
      else if t = ''assign_number'' \<and> check_number d event (cmd_reg c) (cmd_bib c) \<noteq> []
      then Inl (check_number d event (cmd_reg c) (cmd_bib c))
      else apply_cmd current c)"

record candidate =
  cd_operation :: string
  cd_actor :: string
  cd_code :: "string option"
  cd_recorded :: int
  cd_resolved :: bool
  cd_applicable :: bool
  cd_evidence :: string
  cd_changes :: "change list"

definition candidate_of ::
  "(string \<Rightarrow> change list \<Rightarrow> bool \<Rightarrow> string) \<Rightarrow> op_row \<Rightarrow> bool \<Rightarrow> bool \<Rightarrow> change list \<Rightarrow> candidate" where
  "candidate_of digest o' resolved applicable changes =
     \<lparr> cd_operation = op_id (or_op o'), cd_actor = op_actor (or_op o'), cd_code = or_code o', cd_recorded = or_recorded o',
       cd_resolved = resolved, cd_applicable = applicable,
       cd_evidence = ''sha256:'' @ digest (or_hash o') changes applicable, cd_changes = changes \<rparr>"

definition conflict_candidate ::
  "(string \<Rightarrow> change list \<Rightarrow> bool \<Rightarrow> string) \<Rightarrow> db \<Rightarrow> string \<Rightarrow> op_row \<Rightarrow> bool \<Rightarrow> candidate res" where
  "conflict_candidate digest d event o' resolved =
     (case reparse (or_op o') of None \<Rightarrow> Inl ''stored packet conflict is invalid''
      | Some op \<Rightarrow>
          bind_res (conflict_rows d event op) (\<lambda>current.
          case proposal_applies d event op current of
            Inr derived \<Rightarrow> Inr (candidate_of digest o' resolved True (normalize_candidate current derived))
          | Inl _ \<Rightarrow> bind_res (convergence_changes current (op_changes op)) (\<lambda>derived.
              Inr (candidate_of digest o' resolved False (normalize_candidate current derived)))))"

subsection \<open>The list of conflicts\<close>

definition conflicts_of :: "db \<Rightarrow> string \<Rightarrow> bool \<Rightarrow> op_row list" where
  "conflicts_of d event unresolved =
     rev (sort_key or_recorded (sort_key or_id
       (filter (\<lambda>o'. or_event o' = event \<and> or_outcome o' = ''conflict''
          \<and> (unresolved \<longrightarrow> find_resolution d (or_id o') = None)) (db_ops d))))"

definition list_conflicts ::
  "db \<Rightarrow> string \<Rightarrow> bool \<Rightarrow> int \<Rightarrow> int \<Rightarrow> ((op_row \<times> bool) list \<times> nat) res" where
  "list_conflicts d event unresolved limit offset =
     (if limit < 1 \<or> 100 < limit \<or> offset < 0 then Inl ''invalid packet conflict page''
      else let rows = conflicts_of d event unresolved in
        Inr (map (\<lambda>o'. (o', find_resolution d (or_id o') \<noteq> None)) (take (nat limit) (drop (nat offset) rows)), length rows))"

definition list_candidates ::
  "(string \<Rightarrow> change list \<Rightarrow> bool \<Rightarrow> string) \<Rightarrow> db \<Rightarrow> string \<Rightarrow> bool \<Rightarrow> int \<Rightarrow> int \<Rightarrow> (candidate list \<times> nat) res" where
  "list_candidates digest d event unresolved limit offset =
     bind_res (list_conflicts d event unresolved limit offset) (\<lambda>(rows, total).
     bind_res (map_res (\<lambda>(o', resolved). conflict_candidate digest d event o' resolved) rows) (\<lambda>items.
     Inr (items, total)))"

subsection \<open>The decision\<close>

definition change_json :: "change \<Rightarrow> json" where
  "change_json ch = JObject [(''after'', registration_json (chg_after ch)), (''before'', registration_json (chg_before ch)),
     (''registrationId'', JText (chg_reg ch))]"

definition base_json :: "base \<Rightarrow> json" where
  "base_json b = JObject [(''heads'', JList (map JText (base_heads b))), (''registrationId'', JText (base_reg b))]"

definition decision_command :: "string \<Rightarrow> bool \<Rightarrow> string \<Rightarrow> json" where
  "decision_command input keep reason = JObject [(''inputs'', JList [JText input]),
     (''keep'', JList (if keep then [JText input] else [])), (''reason'', JText reason), (''type'', JText ''resolve_conflict'')]"

definition decision_json ::
  "op_row \<Rightarrow> string \<Rightarrow> string \<Rightarrow> int \<Rightarrow> int \<Rightarrow> string \<Rightarrow> bool \<Rightarrow> string \<Rightarrow> change list \<Rightarrow> json" where
  "decision_json o' fresh installation sequence now actor keep reason changes = JObject
     [(''baselineId'', JText (or_baseline o')),
      (''bases'', JList (map base_json (resolution_bases changes (or_id o')))),
      (''changes'', JList (map change_json changes)), (''claimedActor'', JText actor),
      (''command'', decision_command (or_id o') keep reason), (''createdAtMs'', JNumber (format_int now)),
      (''operationId'', JText fresh), (''originInstanceId'', JText installation),
      (''originSequence'', JNumber (format_int sequence)), (''schemaVersion'', JNumber ''2''),
      (''scopeId'', JText (or_scope o'))]"

definition apply_proposed ::
  "(string \<Rightarrow> string \<Rightarrow> bool \<Rightarrow> int) \<Rightarrow> string \<Rightarrow> change \<Rightarrow> db \<Rightarrow> db res" where
  "apply_proposed age_on fresh ch d =
     bind_res (get_member d (chg_reg ch)) (\<lambda>m.
     bind_res (if reg_person (chg_before ch) \<noteq> reg_person (chg_after ch)
               then resolve_category age_on d (packet_member (chg_after ch)) else Inr (mb_category m)) (\<lambda>cat.
     put_registration (chg_after ch) [fresh] cat d))"

definition apply_proposal ::
  "(string \<Rightarrow> string \<Rightarrow> bool \<Rightarrow> int) \<Rightarrow> string \<Rightarrow> string \<Rightarrow> change list \<Rightarrow> db \<Rightarrow> db res" where
  "apply_proposal age_on event fresh changes d =
     bind_res (club_projection d event changes) (\<lambda>clubs.
     bind_res (fold_res (apply_proposed age_on fresh) changes d) (apply_clubs event clubs))"

definition record_decision ::
  "(string \<Rightarrow> string) \<Rightarrow> string \<Rightarrow> string \<Rightarrow> bool \<Rightarrow> string \<Rightarrow> change list \<Rightarrow> int \<Rightarrow> operation \<Rightarrow> db \<Rightarrow> (db \<times> operation) res" where
  "record_decision sha event input keep reason changes now r d =
     bind_res (save_operation r (content_hash sha r) ''applied'' None now False d) (\<lambda>d1.
     bind_res (save_resolution \<lparr> rs_id = op_id r, rs_event = event, rs_input = input, rs_keep = keep, rs_reason = reason,
         rs_recorded = now \<rparr> d1) (\<lambda>d2.
     bind_res (publish_operation r ''applied'' None changes now d2) (\<lambda>d3. Inr (d3, r))))"

record decider =
  dc_event :: string
  dc_input :: string
  dc_keep :: bool
  dc_reason :: string
  dc_actor :: string
  dc_expected :: string
  dc_fresh :: string
  dc_installation :: string
  dc_sequence :: int
  dc_now :: int

definition decision_changes :: "bool \<Rightarrow> candidate \<Rightarrow> change list" where
  "decision_changes keep c = (if keep then cd_changes c else reverse_packet_changes (cd_changes c))"

definition checked_candidate ::
  "(string \<Rightarrow> change list \<Rightarrow> bool \<Rightarrow> string) \<Rightarrow> decider \<Rightarrow> db \<Rightarrow> (op_row \<times> candidate) res" where
  "checked_candidate digest q d =
     (case find_op d (dc_input q) of None \<Rightarrow> Inl ''packet_resolution_input_missing''
      | Some o' \<Rightarrow>
          if or_event o' \<noteq> dc_event q \<or> or_outcome o' \<noteq> ''conflict'' then Inl ''packet_resolution_input_missing''
          else if find_resolution d (dc_input q) \<noteq> None then Inl ''packet_resolution_already_decided''
          else bind_res (conflict_candidate digest d (dc_event q) o' False) (\<lambda>c.
            if cd_evidence c \<noteq> dc_expected q then Inl ''packet_resolution_stale''
            else if dc_keep q \<and> \<not> cd_applicable c then Inl ''packet_resolution_proposal_not_applicable''
            else Inr (o', c)))"

definition decide_conflict ::
  "(string \<Rightarrow> string) \<Rightarrow> (string \<Rightarrow> change list \<Rightarrow> bool \<Rightarrow> string) \<Rightarrow> (string \<Rightarrow> string \<Rightarrow> bool \<Rightarrow> int) \<Rightarrow>
     decider \<Rightarrow> string \<Rightarrow> string \<Rightarrow> db \<Rightarrow> (db \<times> operation) res" where
  "decide_conflict sha digest age_on q reason actor d =
     bind_res (checked_candidate digest q d) (\<lambda>(o', c).
     let changes = decision_changes (dc_keep q) c in
     bind_res (if dc_keep q then apply_proposal age_on (dc_event q) (dc_fresh q) changes d else Inr d) (\<lambda>d1.
     case parse_operation_json (decision_json o' (dc_fresh q) (dc_installation q) (dc_sequence q) (dc_now q) actor
            (dc_keep q) reason changes) True of
       Inl _ \<Rightarrow> Inl ''build packet resolution''
     | Inr r \<Rightarrow> record_decision sha (dc_event q) (dc_input q) (dc_keep q) reason changes (dc_now q) r d1))"

definition trimmed :: "string \<Rightarrow> nat list" where
  "trimmed s = (case runes_of s of None \<Rightarrow> [] | Some rs \<Rightarrow> trim_runes rs)"

definition resolve_conflict ::
  "(string \<Rightarrow> string) \<Rightarrow> (string \<Rightarrow> change list \<Rightarrow> bool \<Rightarrow> string) \<Rightarrow> (string \<Rightarrow> string \<Rightarrow> bool \<Rightarrow> int) \<Rightarrow>
     decider \<Rightarrow> db \<Rightarrow> (db \<times> operation) res" where
  "resolve_conflict sha digest age_on q d =
     (let reason = trimmed (dc_reason q); actor = trimmed (dc_actor q) in
      if reason = [] \<or> 500 < length reason \<or> actor = [] \<or> 160 < length actor
      then Inl ''invalid packet conflict resolution''
      else decide_conflict sha digest age_on q (text_of_runes reason) (text_of_runes actor) d)"

end
