(* ===== verification/ResolveLaws.thy ===== *)
theory ResolveLaws
  imports PacketResolve
begin

section \<open>What a decision guarantees\<close>

text \<open>
  A decision only takes row steps before it is journalled and published, and it is final: the input of a
  decision can never be decided again at this desk.
\<close>

lemma apply_proposed_steps: "ensures (apply_proposed age_on fresh ch d) (\<lambda>d'. row_step\<^sup>*\<^sup>* d d')"
  unfolding apply_proposed_def by (intro ensures_intros ensuresI) (blast intro: row_step.put)

lemma apply_proposal_steps:
  assumes "apply_proposal age_on event fresh changes d = Inr d'"
  shows "row_step\<^sup>*\<^sup>* d d'"
proof -
  from assms obtain clubs d1 where "fold_res (apply_proposed age_on fresh) changes d = Inr d1" "apply_clubs event clubs d1 = Inr d'"
    by (auto simp: apply_proposal_def res_simps)
  then show ?thesis
    using fold_steps [of "apply_proposed age_on fresh" changes d d1] ensuresD [OF apply_proposed_steps] apply_clubs_steps
    by (meson rtranclp_trans)
qed

lemma decide_conflict_Inr:
  assumes "decide_conflict sha digest age_on q reason actor d = Inr (d', r)"
  obtains o' c d1 d2 d3 where
    "checked_candidate digest q d = Inr (o', c)"
    "if dc_keep q then row_step\<^sup>*\<^sup>* d d1 else d1 = d"
    "save_operation r (content_hash sha r) ''applied'' None (dc_now q) False d1 = Inr d2"
    "save_resolution \<lparr> rs_id = op_id r, rs_event = dc_event q, rs_input = dc_input q, rs_keep = dc_keep q, rs_reason = reason,
         rs_recorded = dc_now q \<rparr> d2 = Inr d3"
    "publish_operation r ''applied'' None (decision_changes (dc_keep q) c) (dc_now q) d3 = Inr d'"
proof -
  from assms obtain v where v: "checked_candidate digest q d = Inr v"
    "(case v of (o', c) \<Rightarrow>
       let changes = decision_changes (dc_keep q) c in
       bind_res (if dc_keep q then apply_proposal age_on (dc_event q) (dc_fresh q) changes d else Inr d) (\<lambda>d1.
       case parse_operation_json (decision_json o' (dc_fresh q) (dc_installation q) (dc_sequence q) (dc_now q) actor
              (dc_keep q) reason changes) True of
         Inl _ \<Rightarrow> Inl ''build packet resolution''
       | Inr r \<Rightarrow> record_decision sha (dc_event q) (dc_input q) (dc_keep q) reason changes (dc_now q) r d1)) = Inr (d', r)"
    unfolding decide_conflict_def res_simps by blast
  obtain o' c where v': "v = (o', c)" by (cases v)
  let ?changes = "decision_changes (dc_keep q) c"
  let ?p = "parse_operation_json (decision_json o' (dc_fresh q) (dc_installation q) (dc_sequence q) (dc_now q) actor
              (dc_keep q) reason ?changes) True"
  from v(2) obtain d1 where d1: "(if dc_keep q then apply_proposal age_on (dc_event q) (dc_fresh q) ?changes d else Inr d) = Inr d1"
    "(case ?p of Inl _ \<Rightarrow> Inl ''build packet resolution''
       | Inr r \<Rightarrow> record_decision sha (dc_event q) (dc_input q) (dc_keep q) reason ?changes (dc_now q) r d1) = Inr (d', r)"
    unfolding v' prod.case Let_def res_simps by blast
  from d1(2) obtain r' where rec: "record_decision sha (dc_event q) (dc_input q) (dc_keep q) reason ?changes (dc_now q) r' d1 = Inr (d', r)"
    by (cases ?p) simp_all
  then obtain d2 d3 where
    "save_operation r (content_hash sha r) ''applied'' None (dc_now q) False d1 = Inr d2"
    "save_resolution \<lparr> rs_id = op_id r, rs_event = dc_event q, rs_input = dc_input q, rs_keep = dc_keep q, rs_reason = reason,
         rs_recorded = dc_now q \<rparr> d2 = Inr d3"
    "publish_operation r ''applied'' None ?changes (dc_now q) d3 = Inr d'"
    unfolding record_decision_def res_simps by auto
  moreover have "if dc_keep q then row_step\<^sup>*\<^sup>* d d1 else d1 = d"
    using d1(1) apply_proposal_steps by (auto split: if_split_asm)
  ultimately show thesis using v(1) v' by (intro that) simp_all
qed

lemma publish_operation_books:
  assumes "publish_operation op outcome code changes at d = Inr d'"
  shows "db_ops d' = db_ops d \<and> db_resolutions d' = db_resolutions d \<and> db_regs d' = db_regs d \<and> db_members d' = db_members d"
  using assms by (rule publish_operation_cases) (auto simp: append_feed_def ensure_head_def res_simps Let_def split: if_split_asm)

lemma resolve_conflict_Inr:
  assumes "resolve_conflict sha digest age_on q d = Inr (d', r)"
  obtains reason actor where "decide_conflict sha digest age_on q reason actor d = Inr (d', r)"
  using assms by (auto simp: resolve_conflict_def Let_def split: if_split_asm)

lemma checked_candidate_open:
  assumes "checked_candidate digest q d = Inr v"
  shows "find_op d (dc_input q) \<noteq> None \<and> find_resolution d (dc_input q) = None"
  using assms by (auto simp: checked_candidate_def split: option.split_asm if_split_asm)

text \<open>
  C15. A conflict is decided once: after a successful decision no other decision on the same operation
  succeeds, whatever it asks for, and a decision to keep the desk's state changes no registration and no
  member.
\<close>

theorem resolve_conflict_once:
  assumes "resolve_conflict sha digest age_on q d = Inr (d', r)" and "dc_input q' = dc_input q"
  shows "(\<exists>e. resolve_conflict sha' digest' age_on' q' d' = Inl e)
    \<and> find_resolution d' (dc_input q) \<noteq> None
    \<and> (\<not> dc_keep q \<longrightarrow> db_regs d' = db_regs d \<and> db_members d' = db_members d)"
proof -
  from assms(1) obtain reason actor where dec: "decide_conflict sha digest age_on q reason actor d = Inr (d', r)"
    by (rule resolve_conflict_Inr)
  then obtain o' c d1 d2 d3 where *:
    "if dc_keep q then row_step\<^sup>*\<^sup>* d d1 else d1 = d"
    "save_operation r (content_hash sha r) ''applied'' None (dc_now q) False d1 = Inr d2"
    "save_resolution \<lparr> rs_id = op_id r, rs_event = dc_event q, rs_input = dc_input q, rs_keep = dc_keep q, rs_reason = reason,
         rs_recorded = dc_now q \<rparr> d2 = Inr d3"
    "publish_operation r ''applied'' None (decision_changes (dc_keep q) c) (dc_now q) d3 = Inr d'"
    by (rule decide_conflict_Inr)
  have p: "db_resolutions d' = db_resolutions d3" "db_regs d' = db_regs d3" "db_members d' = db_members d3"
    using publish_operation_books [OF *(4)] by simp_all
  have "\<exists>x \<in> set (db_resolutions d'). rs_input x = dc_input q"
    using *(3) p(1) by (auto simp: save_resolution_def split: if_split_asm)
  then have found: "find_resolution d' (dc_input q) \<noteq> None" by (auto simp: find_resolution_def find_None_iff)
  have "db_regs d' = db_regs d1 \<and> db_members d' = db_members d1"
    using *(3) p(2,3) save_operation_rest [OF *(2)] by (auto simp: save_resolution_def split: if_split_asm)
  then have keep: "\<not> dc_keep q \<longrightarrow> db_regs d' = db_regs d \<and> db_members d' = db_members d" using *(1) by auto
  have "resolve_conflict sha' digest' age_on' q' d' \<noteq> Inr x" for x
  proof
    assume "resolve_conflict sha' digest' age_on' q' d' = Inr x"
    then obtain v where "checked_candidate digest' q' d' = Inr v"
      by (cases x) (auto elim!: resolve_conflict_Inr decide_conflict_Inr)
    with checked_candidate_open found assms(2) show False by metis
  qed
  then have "\<exists>e. resolve_conflict sha' digest' age_on' q' d' = Inl e"
    by (cases "resolve_conflict sha' digest' age_on' q' d'") auto
  with found keep show ?thesis by blast
qed

end
