(* ===== verification/DeskMachine.thy ===== *)
theory DeskMachine
  imports ResolveLaws
begin

section \<open>The desk as one machine\<close>

text \<open>
  Every transaction that changes the packet issuance of an event is a step: operations received from
  tablets, pages and snapshots of the site, decisions of the operator, the site's receipts and the compaction
  of the feed.  The steps interleave in any order; the promises of the components are promises of the whole.
\<close>

inductive desk_step :: "db \<Rightarrow> db \<Rightarrow> bool" where
  receive: "receive_one sha age_on at con op d = Inr (d', r) \<Longrightarrow> desk_step d d'"
| page: "apply_page sha age_on event pg d = Inr (d', xs) \<Longrightarrow> desk_step d d'"
| snapshot: "rebase age_on event b at d = Inr (d', res) \<Longrightarrow> desk_step d d'"
| decision: "resolve_conflict sha digest age_on q d = Inr (d', op) \<Longrightarrow> desk_step d d'"
| site_receipt: "mark_receipt rc d = Inr d' \<Longrightarrow> desk_step d d'"
| compact: "compact_feed event keep execute at d = Inr (d', ret) \<Longrightarrow> desk_step d d'"

definition desk_inv :: "db \<Rightarrow> bool" where
  "desk_inv d \<longleftrightarrow> roster_inv d \<and> feed_inv d"

definition keeps :: "db \<Rightarrow> db \<Rightarrow> bool" where
  "keeps d d' \<longleftrightarrow> desk_inv d' \<and> extends d d'"

lemma keeps_trans: "keeps d d1 \<Longrightarrow> keeps d1 d2 \<Longrightarrow> keeps d d2"
  unfolding keeps_def using feed.le_trans by blast

lemma keeps_same_desk: "desk_inv d \<Longrightarrow> keeps d d"
  unfolding keeps_def using feed.le_refl by blast

lemma keeps_site: "site_step\<^sup>*\<^sup>* d d' \<Longrightarrow> desk_inv d \<Longrightarrow> keeps d d'"
  unfolding keeps_def desk_inv_def using site_roster.inv_steps site_feed.inv_steps site_feed.le_steps by blast

lemma keeps_rows: "row_step\<^sup>*\<^sup>* d d' \<Longrightarrow> desk_inv d \<Longrightarrow> keeps d d'"
  by (rule keeps_site [OF effect_steps_site [OF row_steps_effect]])

text \<open>A step that only touches the books beside the roster and the feed.\<close>

lemma keeps_same:
  assumes "feed_rows_same d d'" "db_regs d' = db_regs d" "db_members d' = db_members d" "desk_inv d"
  shows "keeps d d'"
  using feed_rows_same_inv [OF assms(1)] assms(2-4) by (simp add: keeps_def desk_inv_def roster_inv_def)

lemma keeps_save_operation: "save_operation op hash outcome code at known d = Inr d' \<Longrightarrow> desk_inv d \<Longrightarrow> keeps d d'"
  by (drule save_operation_rest) (auto intro!: keeps_same simp: feed_rows_same_def)

lemma keeps_publish:
  assumes "publish_operation op outcome code changes at d = Inr d'" "desk_inv d"
  shows "keeps d d'"
proof -
  have "roster_inv d'" using publish_operation_books [OF assms(1)] assms(2) by (simp add: roster_inv_def desk_inv_def)
  moreover have "feed_step d d'" by (rule feed_step.publish [OF assms(1)])
  ultimately show ?thesis using assms(2) feed.inv_step feed.le_step by (simp add: keeps_def desk_inv_def)
qed

lemma keeps_receive:
  assumes "receive_one sha age_on at con op d = Inr (d', r)" "desk_inv d"
  shows "keeps d d'"
  using assms(1)
proof (cases rule: receive_one_cases)
  case (known o')
  then show ?thesis using keeps_same_desk assms(2) by simp
next
  case (settled known d0 outcome code changes d1)
  have 0: "keeps d d0" using keeps_rows settle_effect [OF settled(2)] assms(2) by blast
  have 1: "keeps d0 d1" using keeps_save_operation [OF settled(3)] 0 by (simp add: keeps_def)
  have "keeps d1 d'" using keeps_publish [OF settled(4)] 1 by (simp add: keeps_def)
  with 0 1 keeps_trans show ?thesis by blast
qed

lemma put_values_steps: "fold_res (put_site_registration event) vs d = Inr d' \<Longrightarrow> site_step\<^sup>*\<^sup>* d d'"
  by (erule fold_site_steps) (auto simp: put_site_registration_def intro: site_step.baseline)

lemma keeps_rebase:
  assumes "rebase age_on event b at d = Inr (d', res)" "desk_inv d"
  shows "keeps d d'"
  using assms(1)
proof (rule rebase_Inr)
  fix d0 rows outcomes d1 d2 d3
  assume d0: "d0 = save_origins event (boot_origins b) d"
    and w: "apply_plans age_on event (List.map_filter snd outcomes) d0 = Inr d1"
      "fold_res (put_site_registration event) (changed_values rows (boot_registrations b)) d1 = Inr d2"
      "save_rebase (rebase_row_of d0 event b (rbr_items res) at) d2 = Inr d3"
      "complete_rebase event (site_baseline d0 event) (boot_baseline b) (site_cursor d0 event) (boot_cursor b) d3 = Inr d'"
  have 0: "keeps d d0" using assms(2) d0 by (intro keeps_same) (simp_all add: feed_rows_same_def)
  have 1: "keeps d0 d1" using keeps_rows [OF apply_plans_steps [OF w(1)]] 0 by (simp add: keeps_def)
  have 2: "keeps d1 d2" using keeps_site [OF put_values_steps [OF w(2)]] 1 by (simp add: keeps_def)
  have "keeps d2 d'"
    using save_rebase_rest [OF w(3)] complete_rebase_rest [OF w(4)] 2
    by (intro keeps_same) (auto simp: feed_rows_same_def keeps_def)
  with 0 1 2 keeps_trans show ?thesis by blast
qed

lemma keeps_decision:
  assumes "resolve_conflict sha digest age_on q d = Inr (d', r)" "desk_inv d"
  shows "keeps d d'"
proof -
  obtain reason actor where dec: "decide_conflict sha digest age_on q reason actor d = Inr (d', r)"
    using assms(1) by (rule resolve_conflict_Inr)
  then obtain o' c d1 d2 d3 where *:
    "if dc_keep q then row_step\<^sup>*\<^sup>* d d1 else d1 = d"
    "save_operation r (content_hash sha r) ''applied'' None (dc_now q) False d1 = Inr d2"
    "save_resolution \<lparr> rs_id = op_id r, rs_event = dc_event q, rs_input = dc_input q, rs_keep = dc_keep q, rs_reason = reason,
         rs_recorded = dc_now q \<rparr> d2 = Inr d3"
    "publish_operation r ''applied'' None (decision_changes (dc_keep q) c) (dc_now q) d3 = Inr d'"
    by (rule decide_conflict_Inr)
  have 1: "keeps d d1" using *(1) keeps_rows keeps_same_desk assms(2) by (auto split: if_split_asm)
  have 2: "keeps d1 d2" using keeps_save_operation [OF *(2)] 1 by (simp add: keeps_def)
  have 3: "keeps d2 d3"
    using *(3) 2 by (intro keeps_same) (auto simp: save_resolution_def feed_rows_same_def keeps_def split: if_split_asm)
  have "keeps d3 d'" using keeps_publish [OF *(4)] 3 by (simp add: keeps_def)
  with 1 2 3 keeps_trans show ?thesis by blast
qed

lemma keeps_compact:
  assumes "compact_feed event keep execute at d = Inr (d', ret)" "desk_inv d"
  shows "keeps d d'"
proof -
  have step: "feed_step d d'" by (rule feed_step.compact [OF assms(1)])
  have "db_regs d' = db_regs d \<and> db_members d' = db_members d"
    using assms(1)
    by (auto simp: compact_feed_def archive_prefix_def archive_range_def archive_commit_def Let_def res_simps
        split: if_split_asm prod.split_asm)
  then show ?thesis using assms(2) feed.inv_step [OF step] feed.le_step [OF step] by (simp add: keeps_def desk_inv_def roster_inv_def)
qed

lemma desk_step_keeps: "desk_step d d' \<Longrightarrow> desk_inv d \<Longrightarrow> keeps d d'"
proof (induction rule: desk_step.induct)
  case (receive sha age_on at con op d d' r)
  then show ?case by (rule keeps_receive)
next
  case (page sha age_on event pg d d' xs)
  then show ?case by (intro keeps_site apply_page_steps)
next
  case (snapshot age_on event b at d d' res)
  then show ?case by (rule keeps_rebase)
next
  case (decision sha digest age_on q d d' op)
  then show ?case by (rule keeps_decision)
next
  case (site_receipt rc d d')
  then show ?case by (intro keeps_same) (auto simp: mark_receipt_def feed_rows_same_def Let_def split: if_split_asm)
next
  case (compact event keep execute at d d' ret)
  then show ?case by (rule keeps_compact)
qed

interpretation desk: monotone_machine desk_step desk_inv extends
  by unfold_locales (use desk_step_keeps keeps_def feed.le_refl feed.le_trans in \<open>blast+\<close>)

text \<open>
  C12. In whatever order the desk receives, follows, rebases, decides and compacts: the members table always
  mirrors the registrations, the desk's own feed stays numbered from one without a gap, and everything it
  has ever published stays published.
\<close>

theorem desk_keeps_promises:
  assumes "desk_step\<^sup>*\<^sup>* d d'" and "roster_inv d" and "feed_inv d"
  shows "roster_inv d' \<and> map fr_sequence (history d' e) = [1..feed_head d' e]
    \<and> take (length (history d e)) (history d' e) = history d e"
proof -
  have inv: "desk_inv d" using assms(2,3) by (simp add: desk_inv_def)
  obtain new where "history d' e = history d e @ new"
    using desk.le_steps [OF assms(1) inv] by (auto simp: extends_def)
  then have "take (length (history d e)) (history d' e) = history d e" by simp
  moreover have "roster_inv d'" "feed_inv d'" using desk.inv_steps [OF assms(1) inv] by (simp_all add: desk_inv_def)
  ultimately show ?thesis using history_sequence by blast
qed

end
