(* ===== verification/SiteWitnesses.thy ===== *)
theory SiteWitnesses
  imports SiteMerge ReceiverWitnesses
begin

section \<open>A page of the site applied\<close>

text \<open>
  Concrete instances of the laws of the site feed: a page whose only action brings a reserve slot the site
  has created, and an action the site itself left in conflict.
\<close>

definition w_create :: feed_action where
  "w_create = \<lparr> act_id = w_uuid, act_kind = ''server_change'', act_sequence = ''1'',
     act_recorded = ''2025-05-01T10:00:00.000Z'', act_source = ''web'', act_outcome = ''applied'', act_code = None,
     act_operation = None, act_changes = [\<lparr> fch_reg = ''2'', fch_before = None, fch_after = Some w_target \<rparr>],
     act_canonical = ''{}'' \<rparr>"

definition w_page :: feed_page where
  "w_page = \<lparr> page_schema = 1, page_scope = ''site:1:e'',
     page_cursor = \<lparr> cur_after = ''0'', cur_next = ''1'', cur_head = ''1'', cur_more = False \<rparr>,
     page_actions = [w_create] \<rparr>"

definition w_slot :: member where
  "w_slot = (registration_member w_target None)\<lparr> mb_start_source := ''unknown'' \<rparr>"

definition w_created :: db where
  "w_created = w_recv\<lparr> db_members := [w_member, w_slot],
     db_regs := [\<lparr> rr_id = ''1'', rr_event = ''e'', rr_value = w_moved, rr_heads = [], rr_deleted = False \<rparr>,
       \<lparr> rr_id = ''2'', rr_event = ''e'', rr_value = w_target, rr_heads = [w_uuid], rr_deleted = False \<rparr>] \<rparr>"

definition w_clubbed :: db where
  "w_clubbed = w_created\<lparr> db_clubs := [\<lparr> cl_event = ''e'', cl_member = ''2'', cl_club = None \<rparr>] \<rparr>"

lemma w_target_fields: "reg_id w_target = ''2''" "reg_event w_target = ''e''" "reg_race w_target = ''r''"
  "reg_person w_target = None" "w_target\<lparr> reg_timing := False \<rparr> = w_target"
  by (simp_all add: w_target_def zero_registration_def)

lemma w_instant: "instant_millis ''2025-05-01T10:00:00.000Z'' = Some 1746093600000"
  by code_simp

lemma w_insert: "insert_registration w_target [w_uuid] None w_recv = Inr w_created"
proof -
  have "member_refs w_recv (registration_member w_target None)"
    by (simp add: member_refs_def w_target_fields event_exists_def w_recv_def w_db_def registration_member_cat)
  moreover have "mb_id (registration_member w_target None) = ''2''" by (simp add: w_target_fields)
  ultimately show ?thesis
    by (simp add: insert_registration_def upsert_member_def member_exists_def w_recv_def w_created_def w_member_fields
        w_target_fields w_slot_def)
qed

lemma w_club: "put_club ''e'' (''2'', None) w_created = Inr w_clubbed"
proof -
  have "mb_id w_slot = ''2''" "mb_event w_slot = ''e''"
    by (simp_all add: w_slot_def w_target_fields registration_member_def Let_def blank_member_def)
  then show ?thesis
    by (simp add: put_club_def normalize_club_def w_clubbed_def) (simp add: w_created_def w_recv_def w_db_def)
qed

lemma w_apply_changes: "apply_feed_changes w_age ''e'' w_create w_recv = Inr (w_clubbed, ''applied'', None)"
proof -
  have "find_registration w_recv ''e'' ''2'' = Inr None" by (simp add: find_registration_def find_reg_def w_recv_def)
  moreover have "resolve_category w_age w_recv (packet_member w_target) = Inr None"
    by (simp add: resolve_category_def packet_member_def w_target_fields Let_def blank_member_def)
  moreover have "unique_heads [w_uuid] = [w_uuid]" by (simp add: unique_heads_def w_uuid_def)
  ultimately show ?thesis using w_insert w_club
    by (simp add: apply_feed_changes_def plan_and_apply_def make_plan_def w_create_def current_value_def current_heads_def
        merge_feed_change_def w_target_fields apply_plans_def plan_change_def club_projection_def projected_club_def
        apply_plan_def apply_clubs_def)
qed

lemma w_create_fields:
  "act_id w_create = w_uuid" "act_outcome w_create = ''applied''" "act_operation w_create = None"
  "act_changes w_create = [\<lparr> fch_reg = ''2'', fch_before = None, fch_after = Some w_target \<rparr>]"
  "act_recorded w_create = ''2025-05-01T10:00:00.000Z''" "act_sequence w_create = ''1''" "act_code w_create = None"
  "act_kind w_create = ''server_change''" "trusted w_create" "\<not> is_resolution w_create"
  by (simp_all add: w_create_def trusted_def is_resolution_def)

lemma w_page_fields:
  "page_actions w_page = [w_create]" "page_scope w_page = ''site:1:e''" "cur_after (page_cursor w_page) = ''0''"
  "cur_next (page_cursor w_page) = ''1''"
  by (simp_all add: w_page_def)

lemma w_clubbed_tables:
  "db_site_regs w_clubbed = []" "db_site_actions w_clubbed = []" "db_heads w_clubbed = []" "db_feed w_clubbed = []"
  "db_events w_clubbed = db_events w_recv" "db_scopes w_clubbed = db_scopes w_recv" "db_ops w_clubbed = []"
  "db_site_regs w_recv = []" "db_site_actions w_recv = []"
  by (simp_all add: w_clubbed_def w_created_def w_tables) (simp_all add: w_recv_def w_db_def)

lemma w_apply_action:
  "\<exists>d'. apply_action w_sha w_age ''e'' w_create w_recv = Inr (d',
     \<lparr> ap_action = w_uuid, ap_application = ''applied'', ap_code = None, ap_known = False \<rparr>)"
proof -
  have ev: "event_exists x ''e''" if "db_events x = db_events w_recv" for x
    using that by (simp add: event_exists_def w_tables)
  let ?at = "1746093600000 :: int"
  let ?d2 = "w_clubbed\<lparr> db_site_regs := [\<lparr> sr_event = ''e'', sr_id = ''2'', sr_value = w_target, sr_deleted = False \<rparr>] \<rparr>"
  let ?d3 = "?d2\<lparr> db_site_actions := [site_row ''e'' w_create ''applied'' None ?at] \<rparr>"
  have base: "validate_baseline w_recv ''e'' (act_changes w_create) False = Inr ()"
    by (simp add: validate_baseline_def w_create_fields baseline_agrees_def baseline_value_def find_site_row_def
        w_clubbed_tables)
  have adv: "advance_baseline ''e'' (act_changes w_create) w_clubbed = Inr ?d2"
    using ev [of w_clubbed] w_rows_valid(2)
    by (simp add: advance_baseline_def advance_one_def put_site_registration_def store_site_row_def w_create_fields
        w_target_fields w_clubbed_tables)
  have save: "save_site_action (site_row ''e'' w_create ''applied'' None ?at) ?d2 = Inr ?d3"
    using ev [of ?d2] by (simp add: save_site_action_def w_clubbed_tables site_row_def)
  have "\<exists>d'. relay_action ''e'' w_create ?at ?d3 = Inr d'"
    using ev
    by (simp add: relay_action_def append_feed_def relay_row_def w_create_fields w_clubbed_tables ensure_head_def
        find_head_def feed_head_def feed_row_allowed_def feed_kinds_def feed_outcomes_def Let_def)
  then obtain d' where "relay_action ''e'' w_create ?at ?d3 = Inr d'" by blast
  then show ?thesis
    using base adv save w_apply_changes
    by (auto simp: apply_action_def find_site_action_def w_clubbed_tables check_local_def w_create_fields w_instant
        apply_new_action_def apply_effect_def record_operation_def)
qed

lemma w_apply_page: "\<exists>d' xs. apply_page w_sha w_age ''e'' w_page w_recv = Inr (d', xs)"
proof -
  obtain d1 xs where d1: "apply_actions w_sha w_age ''e'' [w_create] w_recv = Inr (d1, xs)"
    using w_apply_action by auto
  have sc: "db_scopes d1 = db_scopes w_recv" by (rule apply_actions_scopes [OF d1])
  have "\<exists>d'. advance_cursor ''e'' ''0'' ''1'' d1 = Inr d'"
    by (simp add: advance_cursor_def Let_def sc) (simp add: w_recv_def w_db_def count_where_Cons)
  moreover have "site_cursor w_recv ''e'' = ''0''"
    by (simp add: site_cursor_def find_scope_def w_recv_def w_db_def)
  ultimately show ?thesis using d1 w_scope by (auto simp: apply_page_def w_page_fields)
qed

theorem apply_page_once_witness:
  "\<exists>d' xs. apply_page w_sha w_age ''e'' w_page w_recv = Inr (d', xs)
     \<and> apply_page w_sha w_age ''e'' w_page d' = Inl ''packet_feed_cursor_changed''"
proof -
  obtain d' xs where d': "apply_page w_sha w_age ''e'' w_page w_recv = Inr (d', xs)" using w_apply_page by blast
  from apply_page_once [OF d', of w_sha w_age] d' show ?thesis by (simp add: w_page_fields)
qed

theorem apply_page_replays_site_witness:
  "\<exists>d' xs. apply_page w_sha w_age ''e'' w_page w_recv = Inr (d', xs) \<and> site_view d' ''e'' ''2'' = Some w_target"
proof -
  obtain d' xs where d': "apply_page w_sha w_age ''e'' w_page w_recv = Inr (d', xs)" using w_apply_page by blast
  have "site_view d' ''e'' = fold replay_action (filter (\<lambda>a. find_site_action w_recv (act_id a) = None) (page_actions w_page))
    (site_view w_recv ''e'')"
    by (rule apply_page_replays_site [OF d'])
      (simp_all add: site_rows_inv_def w_clubbed_tables w_page_fields w_create_fields wf_change_def w_target_fields)
  then have "site_view d' ''e'' ''2'' = Some w_target"
    by (simp add: w_page_fields find_site_action_def w_clubbed_tables replay_action_def w_create_fields replay_change_def)
  with d' show ?thesis by blast
qed

definition w_refused :: feed_action where
  "w_refused = w_create\<lparr> act_outcome := ''conflict'', act_code := Some ''number_taken'' \<rparr>"

lemma w_apply_refused:
  "\<exists>d'. apply_action w_sha w_age ''e'' w_refused w_recv = Inr (d',
     \<lparr> ap_action = w_uuid, ap_application = ''review'', ap_code = Some ''number_taken'', ap_known = False \<rparr>)"
proof -
  have f: "act_id w_refused = w_uuid" "act_outcome w_refused = ''conflict''" "act_operation w_refused = None"
    "act_recorded w_refused = ''2025-05-01T10:00:00.000Z''" "act_code w_refused = Some ''number_taken''"
    "act_kind w_refused = ''server_change''" "\<not> trusted w_refused" "\<not> is_resolution w_refused"
    by (simp_all add: w_refused_def w_create_def trusted_def is_resolution_def)
  have ev: "event_exists x ''e''" if "db_events x = db_events w_recv" for x
    using that by (simp add: event_exists_def w_tables)
  let ?at = "1746093600000 :: int"
  let ?row = "site_row ''e'' w_refused ''review'' (Some ''number_taken'') ?at"
  let ?d3 = "w_recv\<lparr> db_site_actions := [?row] \<rparr>"
  have save: "save_site_action ?row w_recv = Inr ?d3"
    using ev [of w_recv] by (simp add: save_site_action_def w_clubbed_tables site_row_def)
  have "\<exists>d'. relay_action ''e'' w_refused ?at ?d3 = Inr d'"
    using ev
    by (simp add: relay_action_def append_feed_def relay_row_def f w_tables ensure_head_def
        find_head_def feed_head_def feed_row_allowed_def feed_kinds_def feed_outcomes_def Let_def)
  then obtain d' where "relay_action ''e'' w_refused ?at ?d3 = Inr d'" by blast
  then show ?thesis using save
    by (auto simp: apply_action_def find_site_action_def w_clubbed_tables check_local_def f w_instant
        apply_new_action_def apply_effect_def record_operation_def)
qed

theorem review_keeps_rows_witness:
  "\<exists>d' x. apply_action w_sha w_age ''e'' w_refused w_recv = Inr (d', x) \<and> db_regs d' = db_regs w_recv"
proof -
  obtain d' where d': "apply_action w_sha w_age ''e'' w_refused w_recv = Inr (d',
     \<lparr> ap_action = w_uuid, ap_application = ''review'', ap_code = Some ''number_taken'', ap_known = False \<rparr>)"
    using w_apply_refused by blast
  with review_keeps_rows [OF d'] show ?thesis by auto
qed

theorem feed_changes_merged_witness:
  "current_value (find_reg w_clubbed ''e'' ''2'') = Some w_target
     \<and> w_uuid \<in> set (current_heads (find_reg w_clubbed ''e'' ''2''))"
proof -
  let ?ch = "\<lparr> fch_reg = ''2'', fch_before = None, fch_after = Some w_target \<rparr>"
  have "\<exists>row m. find_registration w_recv ''e'' (fch_reg ?ch) = Inr row
    \<and> merge_feed_change (current_value row) ?ch = Inr m
    \<and> current_value (find_reg w_clubbed ''e'' (fch_reg ?ch)) = m
    \<and> (m \<noteq> None \<longrightarrow> act_id w_create \<in> set (current_heads (find_reg w_clubbed ''e'' (fch_reg ?ch))))"
    by (rule feed_changes_merged [OF w_apply_changes w_roster_inv])
      (simp_all add: w_create_fields wf_change_def w_target_fields w_uuid_def)
  then obtain row m where *: "find_registration w_recv ''e'' ''2'' = Inr row"
    "merge_feed_change (current_value row) ?ch = Inr m" "current_value (find_reg w_clubbed ''e'' ''2'') = m"
    "m \<noteq> None \<longrightarrow> w_uuid \<in> set (current_heads (find_reg w_clubbed ''e'' ''2''))"
    by (simp add: w_create_fields) blast
  have "row = None" using *(1) by (simp add: find_registration_def find_reg_def w_recv_def)
  then have "m = Some w_target" using *(2) by (simp add: merge_feed_change_def current_value_def w_target_fields)
  with *(3,4) show ?thesis by simp
qed

end
