(* ===== verification/DeskWitnesses.thy ===== *)
theory DeskWitnesses
  imports DeskMachine SiteWitnesses
begin

section \<open>Snapshots and decisions on a concrete event\<close>

text \<open>
  Instances of the laws of the rebase, of decisions and of the whole desk: a snapshot that brings a new
  reserve slot and no longer lists a participant, and a conflicting operation whose proposal is turned down.
\<close>

subsection \<open>A snapshot\<close>

definition w_based :: db where
  "w_based = w_recv\<lparr> db_site_regs := [\<lparr> sr_event = ''e'', sr_id = ''1'', sr_value = w_moved, sr_deleted = False \<rparr>] \<rparr>"

definition w_snapshot :: bootstrap where
  "w_snapshot = \<lparr> boot_origins = None, boot_schema = 2, boot_scope = ''site:1:e'', boot_source = ''site'',
     boot_event = (''e'', ''E'', ''2025-05-01''), boot_races = [], boot_registrations = [w_target], boot_baseline = ''b2'',
     boot_cursor = ''7'' \<rparr>"

lemma w_based_tables:
  "db_regs w_based = db_regs w_recv" "db_members w_based = db_members w_recv" "db_events w_based = db_events w_recv"
  "db_scopes w_based = db_scopes w_recv" "db_rebases w_based = []" "save_origins ''e'' None w_based = w_based"
  by (simp_all add: w_based_def save_origins_def) (simp add: w_recv_def w_db_def)

lemma w_snapshot_accepted: "snapshot_acceptable w_based ''e'' w_snapshot"
proof -
  have "valid_snapshot_cursor ''7''" by code_simp
  moreover have "scope_of w_based ''e'' = ''site:1:e''" using w_scope by (simp add: scope_of_def find_scope_def w_based_tables)
  ultimately show ?thesis by (simp add: snapshot_acceptable_def w_snapshot_def)
qed

lemma w_site_rows: "list_site_rows w_based ''e'' = db_site_regs w_based"
  by (simp add: list_site_rows_def w_based_def)

lemma w_changed: "changed_values (db_site_regs w_based) [w_target] = [w_target]"
  by (simp add: changed_values_def snapshot_same_def baseline_by_id_def w_based_def w_moved_fields w_target_fields)

definition w_slot_plan :: plan where
  "w_slot_plan = \<lparr> pl_change = snapshot_change (db_site_regs w_based) w_target, pl_before = None,
     pl_after = Some w_target, pl_heads = [] \<rparr>"

lemma w_snapshot_plan: "snapshot_plan w_based ''e'' (db_site_regs w_based) w_target =
  Inr (\<lparr> it_reg = ''2'', it_application = ''applied'', it_code = None \<rparr>, Some w_slot_plan)"
proof -
  have "find_registration w_based ''e'' ''2'' = Inr None"
    by (simp add: find_registration_def find_reg_def w_based_tables) (simp add: w_recv_def)
  moreover have "baseline_by_id (db_site_regs w_based) ''2'' = None"
    by (simp add: baseline_by_id_def w_based_def w_moved_fields)
  moreover have "with_timing (reg_timing w_target) w_target = w_target"
    by (simp add: with_timing_def w_target_def zero_registration_def)
  ultimately show ?thesis
    by (simp add: snapshot_plan_def Let_def snapshot_change_def w_target_fields merge_feed_change_def current_value_def
        current_heads_def w_slot_plan_def)
qed

lemma w_insert_slot: "\<exists>d'. insert_registration w_target [] None w_based = Inr d'"
proof -
  have "member_refs w_based (registration_member w_target None)"
    by (simp add: member_refs_def w_target_fields event_exists_def registration_member_cat w_based_def w_recv_def w_db_def)
  moreover have "mb_id (registration_member w_target None) = ''2''" by (simp add: w_target_fields)
  moreover have "\<not> member_exists w_based ''2''" by (simp add: member_exists_def w_based_def w_recv_def w_member_fields)
  moreover have "''2'' \<notin> rr_id ` set (db_regs w_based)" by (simp add: w_based_def w_recv_def)
  ultimately show ?thesis
    by (simp add: insert_registration_def upsert_member_def w_target_fields)
qed

lemma w_rebase_plans: "\<exists>d'. apply_plans w_age ''e'' [w_slot_plan] w_based = Inr d'"
proof -
  obtain d1 where d1: "insert_registration w_target [] None w_based = Inr d1" using w_insert_slot by blast
  have "resolve_category w_age w_based (packet_member w_target) = Inr None"
    by (simp add: resolve_category_def packet_member_def w_target_fields Let_def blank_member_def)
  then have "apply_plan w_age ''e'' w_slot_plan w_based = Inr d1"
    using d1 by (simp add: apply_plan_def w_slot_plan_def)
  then show ?thesis
    by (simp add: apply_plans_def plan_change_def w_slot_plan_def club_projection_def projected_club_def w_target_fields
        apply_clubs_def put_club_def normalize_club_def)
qed

lemma row_steps_events: "row_step\<^sup>*\<^sup>* d d' \<Longrightarrow> db_events d' = db_events d"
  using row_steps_books by (simp add: same_books_def)

lemma w_rebase: "\<exists>d' res. rebase w_age ''e'' w_snapshot 5 w_based = Inr (d', res)"
proof -
  obtain d1 where d1: "apply_plans w_age ''e'' [w_slot_plan] w_based = Inr d1" using w_rebase_plans by blast
  have ev: "event_exists d1 ''e''"
    using row_steps_events [OF apply_plans_steps [OF d1]] by (simp add: event_exists_def w_based_tables w_tables)
  have "\<exists>d2. put_site_registration ''e'' w_target d1 = Inr d2"
    using ev w_rows_valid(2)
    by (simp add: put_site_registration_def store_site_row_def w_target_fields Let_def)
  then obtain d2 where d2: "put_site_registration ''e'' w_target d1 = Inr d2" by blast
  have d2_tables: "db_events d2 = db_events d1" "db_rebases d2 = db_rebases d1" "db_scopes d2 = db_scopes w_based"
    using d2 plans_site_rows [OF d1]
    by (auto simp: put_site_registration_def store_site_row_def Let_def split: if_split_asm)
  have sc: "db_scopes w_recv = [\<lparr> sc_event = ''e'', sc_scope = ''site:1:e'', sc_baseline = ''b'', sc_source = ''s'', sc_installed = 1, sc_cursor = ''0'' \<rparr>]"
    by (simp add: w_recv_def w_db_def)
  have bc: "site_baseline w_based ''e'' = ''b''" "site_cursor w_based ''e'' = ''0''"
    by (simp_all add: site_baseline_def site_cursor_def find_scope_def w_based_tables sc)
  have no: "db_rebases d1 = []"
  proof -
    have "row_step\<^sup>*\<^sup>* d d' \<Longrightarrow> db_rebases d' = db_rebases d" for d d'
    proof (induction rule: rtranclp_induct)
      case (step y z)
      from step.hyps(2) have "db_rebases z = db_rebases y"
        by (induction rule: row_step.induct)
          (auto simp: put_registration_def insert_registration_def upsert_member_def delete_registration_def
            restore_rfid_def put_club_def Let_def res_simps split: if_split_asm)
      with step.IH show ?case by simp
    qed simp
    from this [OF apply_plans_steps [OF d1]] show ?thesis by (simp add: w_based_tables)
  qed
  let ?items = "rebase_items [(\<lparr> it_reg = ''2'', it_application = ''applied'', it_code = None \<rparr>, Some w_slot_plan)]
       (db_site_regs w_based) [w_target]"
  have "\<exists>d3. save_rebase (rebase_row_of w_based ''e'' w_snapshot ?items 5) d2 = Inr d3 \<and> db_scopes d3 = db_scopes d2"
    using ev no d2_tables(1,2) by (simp add: save_rebase_def event_exists_def rebase_row_of_def)
  then obtain d3 where d3: "save_rebase (rebase_row_of w_based ''e'' w_snapshot ?items 5) d2 = Inr d3" "db_scopes d3 = db_scopes d2"
    by blast
  have "\<exists>d4. complete_rebase ''e'' ''b'' ''b2'' ''0'' ''7'' d3 = Inr d4"
    using d3(2) d2_tables(3)
    by (simp add: complete_rebase_def Let_def w_based_tables sc count_where_Cons)
  then obtain d4 where "complete_rebase ''e'' ''b'' ''b2'' ''0'' ''7'' d3 = Inr d4" by blast
  moreover have "baseline_complete w_based ''e''"
    by (simp add: baseline_complete_def w_based_def find_site_row_def) (simp add: w_recv_def)
  moreover have "snapshot_rows_valid ''e'' [w_target]"
    using w_rows_valid(2) by (simp add: snapshot_rows_valid_def w_target_fields)
  moreover have "boot_origins w_snapshot = None" "boot_registrations w_snapshot = [w_target]" "boot_baseline w_snapshot = ''b2''"
    "boot_cursor w_snapshot = ''7''"
    by (simp_all add: w_snapshot_def)
  ultimately show ?thesis
    using w_snapshot_accepted d1 d2 d3(1)
    by (simp add: rebase_def Let_def w_based_tables w_site_rows w_changed w_snapshot_plan map_filter_Cons
        List.map_filter_def rebase_writes_def bc)
qed

theorem rebase_keeps_desk_work_witness:
  "\<exists>d' res row'. rebase w_age ''e'' w_snapshot 5 w_based = Inr (d', res) \<and> find_reg d' ''e'' ''1'' = Some row'
     \<and> \<not> rr_deleted row'"
proof -
  obtain d' res where d': "rebase w_age ''e'' w_snapshot 5 w_based = Inr (d', res)" using w_rebase by blast
  let ?row = "\<lparr> rr_id = ''1'', rr_event = ''e'', rr_value = w_moved, rr_heads = [], rr_deleted = False \<rparr>"
  have "roster_inv w_based" using w_roster_inv by (simp add: roster_inv_def w_based_tables)
  moreover have "find_reg w_based ''e'' ''1'' = Some ?row" by (simp add: find_reg_def w_based_def w_recv_def)
  ultimately show ?thesis using rebase_keeps_desk_work [OF d'] d' by fastforce
qed

theorem rebase_follows_site_witness:
  "\<exists>d' res w. rebase w_age ''e'' w_snapshot 5 w_based = Inr (d', res) \<and> site_view d' ''e'' ''2'' = Some w
     \<and> site_cursor d' ''e'' = ''7''"
proof -
  obtain d' res where d': "rebase w_age ''e'' w_snapshot 5 w_based = Inr (d', res)" using w_rebase by blast
  have "site_rows_inv w_based" "site_rows_keyed w_based"
    by (simp_all add: site_rows_inv_def site_rows_keyed_def w_based_def w_moved_fields)
  from rebase_follows_site [OF d' this] d' show ?thesis by (auto simp: w_snapshot_def w_target_fields)
qed

subsection \<open>The whole desk\<close>

theorem desk_keeps_promises_witness:
  "\<exists>d'. desk_step\<^sup>*\<^sup>* w_recv d' \<and> roster_inv d' \<and> map fr_sequence (history d' ''e'') = [1..feed_head d' ''e'']"
proof -
  have feed: "feed_inv w_recv"
    by (simp add: feed_inv_def feed_first_def feed_head_def find_head_def live_rows_def archived_rows_def w_tables)
  have "desk_step w_recv w_final" by (rule desk_step.receive [OF w_receive])
  then have steps: "desk_step\<^sup>*\<^sup>* w_recv w_final" by blast
  from desk_keeps_promises [OF steps w_roster_inv feed] steps show ?thesis by blast
qed

section \<open>A conflict decided\<close>

text \<open>
  An operator turns down a tablet's proposal to issue a packet: the decision is built, parsed back, journalled,
  recorded and published.
\<close>

definition w_fresh :: string where
  "w_fresh = ''00000000-0000-4000-8000-000000000002''"

definition w_conflict_row :: op_row where
  "w_conflict_row = op_row_of w_op ''e'' ''h'' ''conflict'' (Some ''current_state_changed'') 5"

definition w_conf :: db where
  "w_conf = w_recv\<lparr> db_ops := [w_conflict_row] \<rparr>"

definition w_digest :: "string \<Rightarrow> change list \<Rightarrow> bool \<Rightarrow> string" where
  "w_digest h chs applicable = ''x''"

definition w_decider :: decider where
  "w_decider = \<lparr> dc_event = ''e'', dc_input = w_uuid, dc_keep = False, dc_reason = ''no'', dc_actor = ''desk'',
     dc_expected = ''sha256:x'', dc_fresh = w_fresh, dc_installation = w_uuid, dc_sequence = 2, dc_now = 5 \<rparr>"

lemma w_conflict_fields:
  "or_id w_conflict_row = w_uuid" "or_event w_conflict_row = ''e''" "or_outcome w_conflict_row = ''conflict''"
  "or_op w_conflict_row = w_op" "or_scope w_conflict_row = ''site:1:e''" "or_baseline w_conflict_row = ''b''"
  "or_origin w_conflict_row = w_uuid" "or_sequence w_conflict_row = 1"
  by (simp_all add: w_conflict_row_def op_row_of_def w_op_fields) (simp_all add: w_op_def)

lemma w_conf_tables:
  "db_ops w_conf = [w_conflict_row]" "db_resolutions w_conf = []" "db_feed w_conf = []" "db_heads w_conf = []"
  "db_archive w_conf = []" "db_events w_conf = db_events w_recv"
  by (simp_all add: w_conf_def w_tables) (simp add: w_recv_def w_db_def)

lemma w_conf_rows: "get_registrations w_conf ''e'' [''1''] = Inr [w_moved]"
  using w_get w_member_fields
  by (simp add: get_registrations_def live_reg_def find_reg_def with_evidence_def timing_evidence_def w_conf_def w_recv_def
      w_moved_fields member_evidence_def)

lemma w_issue_applies: "apply_cmd [w_moved] (op_command w_op) = Inr [mk_change w_moved w_after]"
proof -
  have v: "validate_registration w_moved = Inr ()"
    using w_rows_valid(1) by (simp add: w_moved_def validate_registration_iff)
  then show ?thesis
    by (simp add: apply_cmd_def transition_def apply_issue_def require_assigned_def
        single_change_def w_op_def w_moved_def w_source_def zero_registration_def zero_command_def w_after_def)
qed

lemma w_candidate:
  "conflict_candidate w_digest w_conf ''e'' w_conflict_row False
     = Inr (candidate_of w_digest w_conflict_row False True [mk_change w_moved w_after])"
proof -
  have op: "op_schema w_op = 1" "map chg_reg (op_changes w_op) = [''1'']" "cmd_type (op_command w_op) = ''issue''"
    by (simp_all add: w_op_def mk_change_def w_source_def zero_command_def)
  have "proposal_applies w_conf ''e'' w_op [w_moved] = Inr [mk_change w_moved w_after]"
    by (simp add: proposal_applies_def Let_def op w_issue_applies)
  moreover have "conflict_rows w_conf ''e'' w_op = Inr [w_moved]"
    by (simp add: conflict_rows_def op w_conf_rows)
  moreover have "normalize_candidate [w_moved] [mk_change w_moved w_after] = [mk_change w_moved w_after]"
    by (simp add: normalize_candidate_def mk_change_def w_moved_fields)
  ultimately show ?thesis by (simp add: conflict_candidate_def reparse_def w_conflict_fields op)
qed

lemma w_checked: "checked_candidate w_digest w_decider w_conf
  = Inr (w_conflict_row, candidate_of w_digest w_conflict_row False True [mk_change w_moved w_after])"
  by (simp add: checked_candidate_def w_decider_def find_op_def w_conf_tables w_conflict_fields find_resolution_def w_candidate)
    (simp add: candidate_of_def w_digest_def)

definition w_decision_json :: json where
  "w_decision_json = decision_json w_conflict_row w_fresh w_uuid 2 5 ''desk'' False ''no'' [mk_change w_after w_moved]"

lemma w_fresh_pattern: "uuid_pattern w_fresh"
  by (simp add: w_fresh_def uuid_pattern_def is_hex_def is_digit_def byte_of_def)

lemma w_decision_texts:
  "valid_text ''1'' (2 ^ 63 - 1)" "valid_text ''resolve_conflict'' (2 ^ 63 - 1)" "valid_text ''b'' (2 ^ 63 - 1)"
  "valid_text ''desk'' (2 ^ 63 - 1)" "valid_text w_uuid (2 ^ 63 - 1)" "valid_text ''site:1:e'' (2 ^ 63 - 1)"
  "valid_text ''9'' (2 ^ 63 - 1)" "valid_text [] (2 ^ 63 - 1)" "valid_text ''e'' (2 ^ 63 - 1)"
  "valid_text ''r'' (2 ^ 63 - 1)" "valid_text ''registered'' (2 ^ 63 - 1)" "valid_text ''p1'' (2 ^ 63 - 1)"
  "valid_text ''Ann'' (2 ^ 63 - 1)" "valid_text ''Lee'' (2 ^ 63 - 1)" "valid_text ''no'' (2 ^ 63 - 1)"
  "valid_text w_fresh (2 ^ 63 - 1)"
  by (rule plain_text_valid; simp add: byte_of_def w_uuid_def w_fresh_def)+

lemma w_digits: "format_int 2 = ''2''" "format_int 5 = ''5''"
  by (simp_all add: format_int_def format_nat.simps digit_char_def char_of_def bit_0)

lemma w_decision_canonical: "\<exists>canonical. write_canonical w_decision_json = Inr canonical"
proof -
  note t = w_decision_texts
  have n: "canonical_number ''2''" "canonical_number ''5''"
    by (simp_all add: canonical_number_def parse_int_def is_digit_def byte_of_def digits_value_def
        digit_value_def max_safe_integer_def format_int_def format_nat.simps digit_char_def char_of_def bit_0)
  have p: "\<exists>x. write_canonical (person_json w_person) = Inr x"
    using t by (simp add: person_json_def w_person_def)
  then have r: "\<exists>x. write_canonical (registration_json w_moved) = Inr x"
    "\<exists>x. write_canonical (registration_json w_after) = Inr x"
    using t by (auto simp: registration_json_def w_after_def w_moved_def w_source_def zero_registration_def)
  then have c: "\<exists>x. write_canonical (change_json (mk_change w_after w_moved)) = Inr x"
    using t by (auto simp: change_json_def mk_change_def w_moved_fields)
  have b: "\<exists>x. write_canonical (base_json \<lparr> base_reg = ''1'', base_heads = [w_uuid] \<rparr>) = Inr x"
    using t by (simp add: base_json_def)
  have k: "\<exists>x. write_canonical (decision_command w_uuid False ''no'') = Inr x"
    using t by (simp add: decision_command_def)
  show ?thesis using c b k t n
    by (auto simp: w_decision_json_def decision_json_def w_digits w_conflict_fields resolution_bases_def mk_change_def
        w_moved_fields)
qed

lemma w_decision_command:
  "\<exists>raw. parse_command True (decision_command w_uuid False ''no'') =
     Inr (zero_command\<lparr> cmd_type := ''resolve_conflict'', cmd_reason := ''no'', cmd_inputs := [w_uuid], cmd_raw := raw \<rparr>)"
proof -
  have "\<exists>raw. write_canonical (decision_command w_uuid False ''no'') = Inr raw"
    using w_decision_texts by (simp add: decision_command_def)
  then obtain raw where raw: "write_canonical (decision_command w_uuid False ''no'') = Inr raw" by blast
  have "valid_text ''no'' 500" by (rule plain_text_valid; simp add: byte_of_def)
  moreover have "runes_of ''no'' = Some [110, 111]" by code_simp
  ultimately have "valid_reason ''no''" by (simp add: valid_reason_def is_space_def)
  then show ?thesis using raw w_uuid_pattern
    by (simp add: parse_command_def decision_command_def Let_def field_def parse_typed_def zero_command_def
        parse_resolve_conflict_def exact_keys_def)
qed

lemma w_decision_change: "parse_change (change_json (mk_change w_after w_moved)) = Inr (mk_change w_after w_moved)"
proof -
  have v: "validate_registration w_moved = Inr ()" "validate_registration w_after = Inr ()"
    using w_rows_valid by (simp_all add: w_after_def w_moved_def validate_registration_iff)
  then have "parse_registration (registration_json w_moved) = Inr w_moved"
    "parse_registration (registration_json w_after) = Inr w_after"
    by (simp_all add: registration_roundtrip)
  then show ?thesis
    by (simp add: parse_change_def change_json_def exact_keys_def field_def Let_def mk_change_def
        identifier_pattern_def is_digit_def byte_of_def w_moved_fields)
qed

lemma w_decision_base:
  "parse_base (base_json \<lparr> base_reg = ''1'', base_heads = [w_uuid] \<rparr>) = Some \<lparr> base_reg = ''1'', base_heads = [w_uuid] \<rparr>"
  using w_uuid_pattern
  by (simp add: parse_base_def base_json_def exact_keys_def field_def identifier_pattern_def is_digit_def byte_of_def)

lemma w_decision_parsed:
  "\<exists>r. parse_operation_json w_decision_json True = Inr r \<and> op_schema r = 2 \<and> op_id r = w_fresh \<and> op_scope r = ''site:1:e''
     \<and> op_origin r = w_uuid \<and> op_sequence r = 2 \<and> op_changes r = [mk_change w_after w_moved]
     \<and> cmd_type (op_command r) = ''resolve_conflict''"
proof -
  obtain canonical where can: "write_canonical w_decision_json = Inr canonical" using w_decision_canonical by blast
  obtain raw where cmd: "parse_command True (decision_command w_uuid False ''no'') =
     Inr (zero_command\<lparr> cmd_type := ''resolve_conflict'', cmd_reason := ''no'', cmd_inputs := [w_uuid], cmd_raw := raw \<rparr>)"
    using w_decision_command by blast
  let ?c = "zero_command\<lparr> cmd_type := ''resolve_conflict'', cmd_reason := ''no'', cmd_inputs := [w_uuid], cmd_raw := raw \<rparr>"
  let ?b = "\<lparr> base_reg = ''1'', base_heads = [w_uuid] \<rparr>" and ?ch = "mk_change w_after w_moved"
  have t: "valid_text ''desk'' 160" by (rule plain_text_valid; simp add: byte_of_def)
  obtain fs where fs: "w_decision_json = JObject fs" by (simp add: w_decision_json_def decision_json_def)
  have keys: "exact_keys fs operation_keys"
    using fs by (auto simp: w_decision_json_def decision_json_def exact_keys_def operation_keys_def)
  have look: "field ''command'' fs = decision_command w_uuid False ''no''" "field ''changes'' fs = JList [change_json ?ch]"
     "field ''bases'' fs = JList [base_json ?b]"
    using fs by (auto simp: w_decision_json_def decision_json_def field_def w_conflict_fields resolution_bases_def mk_change_def
        w_moved_fields)
  have "\<exists>op. parse_header fs canonical True = Some op \<and> op_schema op = 2 \<and> op_id op = w_fresh \<and> op_scope op = ''site:1:e''
     \<and> op_origin op = w_uuid \<and> op_sequence op = 2"
    using fs t w_uuid_pattern w_fresh_pattern
    by (auto simp: w_decision_json_def decision_json_def w_digits w_conflict_fields parse_header_def field_def safe_integer_def
        optional_text_def Let_def parse_int_def is_digit_def byte_of_def digits_value_def digit_value_def max_safe_integer_def
        identifier_pattern_def is_lower_def is_upper_def)
  then obtain op where hd: "parse_header fs canonical True = Some op" "op_schema op = 2" "op_id op = w_fresh"
    "op_scope op = ''site:1:e''" "op_origin op = w_uuid" "op_sequence op = 2" by blast
  have shape: "change_shape ''resolve_conflict'' 2 ?ch"
    by (simp add: change_shape_def Let_def mk_change_def w_after_def)
  have chg: "chg_reg ?ch = ''1''" by (simp add: mk_change_def w_moved_fields)
  have ne: "w_uuid \<noteq> w_fresh" by (simp add: w_uuid_def w_fresh_def)
  have "parse_entries ''resolve_conflict'' 2 [] [base_json ?b] [change_json ?ch] = Some [(?b, ?ch)]"
    using shape chg by (simp add: w_decision_base w_decision_change)
  then have "parse_body fs op ?c = check_changes (op\<lparr> op_command := ?c, op_bases := [?b], op_changes := [?ch] \<rparr>)"
    by (simp add: parse_body_def look hd zero_command_def)
  also have "\<dots> = Inr (op\<lparr> op_command := ?c, op_bases := [?b], op_changes := [?ch] \<rparr>)"
    using ne by (simp add: check_changes_def Let_def hd zero_command_def)
  finally have "parse_operation_json w_decision_json True = Inr (op\<lparr> op_command := ?c, op_bases := [?b], op_changes := [?ch] \<rparr>)"
    using can by (simp add: parse_operation_json_def parse_operation_def fs keys hd look cmd)
  with hd show ?thesis by (intro exI conjI) (assumption, simp_all add: zero_command_def)
qed

lemma w_trimmed: "trimmed ''no'' = [110, 111]" "trimmed ''desk'' = [100, 101, 115, 107]"
proof -
  have "runes_of ''no'' = Some [110, 111]" "runes_of ''desk'' = Some [100, 101, 115, 107]"
    unfolding runes_of_def by (simp_all add: utf8_runes_ascii byte_of_def)
  then show "trimmed ''no'' = [110, 111]" "trimmed ''desk'' = [100, 101, 115, 107]"
    by (simp_all add: trimmed_def trim_runes_def is_space_def)
qed

lemma w_texts: "text_of_runes [110, 111] = ''no''" "text_of_runes [100, 101, 115, 107] = ''desk''"
  by (simp_all add: text_of_runes_def utf8_encode_def char_of_def bit_0)

lemma w_resolved: "\<exists>d' r. resolve_conflict w_sha w_digest w_age w_decider w_conf = Inr (d', r)"
proof -
  obtain r where r: "parse_operation_json w_decision_json True = Inr r" "op_schema r = 2" "op_id r = w_fresh"
    "op_scope r = ''site:1:e''" "op_origin r = w_uuid" "op_sequence r = 2" "op_changes r = [mk_change w_after w_moved]"
    "cmd_type (op_command r) = ''resolve_conflict''"
    using w_decision_parsed by blast
  have rev: "decision_changes False (candidate_of w_digest w_conflict_row False True [mk_change w_moved w_after]) = [mk_change w_after w_moved]"
    by (simp add: decision_changes_def candidate_of_def reverse_packet_changes_def mk_change_def w_moved_fields)
  have ev: "op_event r = ''e''" by (simp add: op_event_def r mk_change_def w_moved_fields)
  have ex: "event_exists x ''e''" if "db_events x = db_events w_recv" for x
    using that by (simp add: event_exists_def w_tables)
  have ne: "w_uuid \<noteq> w_fresh" by (simp add: w_uuid_def w_fresh_def)
  let ?row = "op_row_of r ''e'' (content_hash w_sha r) ''applied'' None 5"
  let ?d1 = "w_conf\<lparr> db_ops := [w_conflict_row, ?row] \<rparr>"
  have "find_op w_conf w_fresh = None" "find_origin w_conf w_uuid 2 = None"
    using ne by (simp_all add: find_op_def find_origin_def w_conf_tables w_conflict_fields)
  then have save: "save_operation r (content_hash w_sha r) ''applied'' None 5 False w_conf = Inr ?d1"
    using ex [of w_conf]
    by (simp add: save_operation_def insert_op_def ev w_conf_tables) (simp add: op_row_of_def r op_outcomes_def)
  let ?rs = "\<lparr> rs_id = w_fresh, rs_event = ''e'', rs_input = w_uuid, rs_keep = False, rs_reason = ''no'', rs_recorded = 5 \<rparr>"
  let ?d2 = "?d1\<lparr> db_resolutions := [?rs] \<rparr>"
  have res: "save_resolution ?rs ?d1 = Inr ?d2"
    using ex [of ?d1] ne
    by (simp add: save_resolution_def w_conf_tables find_op_def w_conflict_fields) (simp add: op_row_of_def r)
  have "\<exists>d3. publish_operation r ''applied'' None [mk_change w_after w_moved] 5 ?d2 = Inr d3"
    using ex
    by (simp add: publish_operation_def unpublished_outcome_def published_def append_feed_def publish_row_def ev r
        ensure_head_def find_head_def feed_head_def feed_row_allowed_def feed_kinds_def feed_outcomes_def Let_def w_conf_tables)
  then obtain d3 where pub: "publish_operation r ''applied'' None [mk_change w_after w_moved] 5 ?d2 = Inr d3" by blast
  have rec: "record_decision w_sha ''e'' w_uuid False ''no'' [mk_change w_after w_moved] 5 r w_conf = Inr (d3, r)"
    using save res pub by (simp add: record_decision_def r)
  have q: "dc_event w_decider = ''e''" "dc_input w_decider = w_uuid" "dc_keep w_decider = False" "dc_fresh w_decider = w_fresh"
    "dc_installation w_decider = w_uuid" "dc_sequence w_decider = 2" "dc_now w_decider = 5" "dc_reason w_decider = ''no''"
    "dc_actor w_decider = ''desk''"
    by (simp_all add: w_decider_def)
  have "decide_conflict w_sha w_digest w_age w_decider ''no'' ''desk'' w_conf = Inr (d3, r)"
    using r(1) rec by (simp add: decide_conflict_def w_checked rev q w_decision_json_def Let_def w_conflict_fields)
  then show ?thesis by (simp add: resolve_conflict_def q w_trimmed w_texts)
qed

theorem resolve_conflict_once_witness:
  "\<exists>d' r e. resolve_conflict w_sha w_digest w_age w_decider w_conf = Inr (d', r)
     \<and> resolve_conflict w_sha w_digest w_age w_decider d' = Inl e \<and> db_regs d' = db_regs w_conf"
proof -
  obtain d' r where d': "resolve_conflict w_sha w_digest w_age w_decider w_conf = Inr (d', r)" using w_resolved by blast
  have "\<not> dc_keep w_decider" by (simp add: w_decider_def)
  with resolve_conflict_once [OF d' refl] d' show ?thesis by blast
qed

end
