(* ===== verification/InstallLaws.thy ===== *)
theory InstallLaws
  imports RosterLaws SiteView
begin

section \<open>What an installation establishes\<close>

text \<open>
  The invariants the other operations keep hold to begin with: after an installation every registration of
  the event mirrors its member and the last known site state is the installed roster.
\<close>

lemma normalized_bib_number:
  assumes "nullable_number n = normalized_bib bib" "\<And>i. n = Some i \<Longrightarrow> - (2 ^ 63) \<le> i \<and> i < 2 ^ 63"
  shows "n = bib_number bib"
proof (cases n)
  case None
  have ne: "[] \<noteq> format_int i" for i 
  proof -
    have "format_int i \<noteq> []" by (simp add: format_int_def)
    then show ?thesis by (rule not_sym)
  qed
  show ?thesis
  proof (cases "bib = []")
    case False
    with assms(1) None ne show ?thesis by (cases "parse_int 64 bib") (simp_all add: nullable_number_def normalized_bib_def)
  qed (simp add: None bib_number_def)
next
  case (Some i)
  have i: "parse_int 64 (format_int i) = Some i" using assms(2) [OF Some] by (intro parse_format_int) simp_all
  have "format_int i \<noteq> []" by (simp add: format_int_def)
  then have b: "bib \<noteq> []" using assms(1) Some by (auto simp: nullable_number_def normalized_bib_def)
  show ?thesis
  proof (cases "parse_int 64 bib")
    case None
    with assms(1) Some b have "format_int i = bib" by (simp add: nullable_number_def normalized_bib_def)
    with None i show ?thesis by simp
  next
    case (Some j)
    with assms(1) \<open>n = Some i\<close> b have "i = j" by (simp add: nullable_number_def normalized_bib_def)
    with Some \<open>n = Some i\<close> b show ?thesis by (simp add: bib_number_def)
  qed
qed

lemma packet_status_number: "valid_status s \<Longrightarrow> packet_status (status_number s) = s"
  by (auto simp: valid_status_def status_number_def packet_status_def)

lemma member_matches_projects:
  assumes "member_matches r m" "mb_id m = reg_id r" "validate_registration r = Inr ()"
    "\<And>i. mb_number m = Some i \<Longrightarrow> - (2 ^ 63) \<le> i \<and> i < 2 ^ 63"
  shows "projects r m"
  using assms(1,2) normalized_bib_number [of "mb_number m" "reg_bib r"] assms(4) packet_status_number [of "reg_status r"] assms(3)
  by (simp add: member_matches_def projects_def validate_registration_iff)

lemma check_rows_Inr:
  assumes "check_rows d event seen rs = Inr ()"
  shows "distinct (map reg_id rs) \<and> set (map reg_id rs) \<inter> set seen = {}
    \<and> (\<forall>r \<in> set rs. validate_registration r = Inr () \<and> reg_event r = event \<and> match_member d r = Inr ())"
  using assms
proof (induction rs arbitrary: seen)
  case (Cons r rs)
  then have r: "validate_registration r = Inr ()" "reg_event r = event" "reg_id r \<notin> set seen" "match_member d r = Inr ()"
    and rest: "check_rows d event (reg_id r # seen) rs = Inr ()"
    by (auto simp: res_simps split: if_split_asm)
  from Cons.IH [OF rest] r show ?case by auto
qed simp

lemma install_rows:
  assumes "fold_res (install_row event) rs d = Inr d'"
  shows "db_regs d' = db_regs d @ map (\<lambda>r. \<lparr> rr_id = reg_id r, rr_event = event, rr_value = r, rr_heads = [], rr_deleted = False \<rparr>) rs
    \<and> db_site_regs d' = db_site_regs d @ map (\<lambda>r. \<lparr> sr_event = event, sr_id = reg_id r, sr_value = r, sr_deleted = False \<rparr>) rs
    \<and> db_members d' = db_members d \<and> (\<forall>r \<in> set rs. reg_id r \<notin> rr_id ` set (db_regs d))"
  using assms
proof (induction rs arbitrary: d)
  case (Cons r rs)
  then obtain d1 where d1: "install_row event r d = Inr d1" and rest: "fold_res (install_row event) rs d1 = Inr d'"
    by (auto simp: res_simps)
  from d1 have "reg_id r \<notin> rr_id ` set (db_regs d)"
    "db_regs d1 = db_regs d @ [\<lparr> rr_id = reg_id r, rr_event = event, rr_value = r, rr_heads = [], rr_deleted = False \<rparr>]"
    "db_site_regs d1 = db_site_regs d @ [\<lparr> sr_event = event, sr_id = reg_id r, sr_value = r, sr_deleted = False \<rparr>]"
    "db_members d1 = db_members d"
    by (auto simp: install_row_def split: if_split_asm)
  with Cons.IH [OF rest] show ?case by auto
qed simp

lemma install_roster_Inr:
  assumes "install_roster scope rows origins at d = Inr d'"
  shows "check_rows d (sc_event scope) [] rows = Inr ()"
    "\<exists>d1. fold_res (install_row (sc_event scope)) rows (clear_roster (sc_event scope) d) = Inr d1
       \<and> db_regs d' = db_regs d1 \<and> db_site_regs d' = db_site_regs d1 \<and> db_members d' = db_members d1"
proof -
  let ?s = "scope\<lparr> sc_cursor := (if sc_cursor scope = [] then ''0'' else sc_cursor scope) \<rparr>"
  from assms obtain d1 s' where "installable d ?s rows = Inr ()"
    and f: "fold_res (install_row (sc_event scope)) rows (clear_roster (sc_event scope) d) = Inr d1"
    and s: "save_scope s' (install_origins (sc_event scope) rows origins d1) = Inr d'"
    by (auto simp: install_roster_def Let_def res_simps)
  then show "check_rows d (sc_event scope) [] rows = Inr ()" by (simp add: installable_def split: if_split_asm)
  have "db_regs d' = db_regs d1 \<and> db_site_regs d' = db_site_regs d1 \<and> db_members d' = db_members d1"
    using s by (auto simp: save_scope_def install_origins_def save_origins_def Let_def split: if_split_asm option.split_asm)
  with f show "\<exists>d1. fold_res (install_row (sc_event scope)) rows (clear_roster (sc_event scope) d) = Inr d1
       \<and> db_regs d' = db_regs d1 \<and> db_site_regs d' = db_site_regs d1 \<and> db_members d' = db_members d1" by blast
qed

text \<open>
  Installing a roster establishes what every later operation keeps: all live registrations, the new ones
  and those of other events, mirror their members, and the last known site state of the event is exactly
  the installed roster.
\<close>

theorem install_establishes_roster:
  assumes "install_roster scope rows origins at d = Inr d'"
    and "distinct (map mb_id (db_members d))" and "distinct (map rr_id (db_regs d))"
    and "\<forall>x \<in> set (db_regs d). rr_event x \<noteq> sc_event scope \<longrightarrow> mirrored (db_members d) x"
    and "\<forall>m \<in> set (db_members d). \<forall>i. mb_number m = Some i \<longrightarrow> - (2 ^ 63) \<le> i \<and> i < 2 ^ 63"
  shows "roster_inv d' \<and> site_view d' (sc_event scope) = map_of (map (\<lambda>r. (reg_id r, r)) rows)"
proof -
  let ?event = "sc_event scope"
  let ?row = "\<lambda>r. \<lparr> rr_id = reg_id r, rr_event = ?event, rr_value = r, rr_heads = [], rr_deleted = False \<rparr>"
  let ?site = "\<lambda>r. \<lparr> sr_event = ?event, sr_id = reg_id r, sr_value = r, sr_deleted = False \<rparr>"
  note ch = check_rows_Inr [OF install_roster_Inr(1) [OF assms(1)]]
  obtain d1 where f: "fold_res (install_row ?event) rows (clear_roster ?event d) = Inr d1"
    and d': "db_regs d' = db_regs d1" "db_site_regs d' = db_site_regs d1" "db_members d' = db_members d1"
    using install_roster_Inr(2) [OF assms(1)] by blast
  have regs: "db_regs d' = filter (\<lambda>x. rr_event x \<noteq> ?event) (db_regs d) @ map ?row rows"
    and site: "db_site_regs d' = filter (\<lambda>s. sr_event s \<noteq> ?event) (db_site_regs d) @ map ?site rows"
    and members: "db_members d' = db_members d"
    and new: "\<forall>r \<in> set rows. reg_id r \<notin> rr_id ` set (filter (\<lambda>x. rr_event x \<noteq> ?event) (db_regs d))"
    using install_rows [OF f] d' by (simp_all add: clear_roster_def)
  have proj: "mirrored (db_members d) (?row r)" if r: "r \<in> set rows" for r
  proof -
    have v: "validate_registration r = Inr ()" "reg_event r = ?event" "match_member d r = Inr ()" using ch r by blast+
    then obtain m where m: "List.find (\<lambda>m. mb_id m = reg_id r) (db_members d) = Some m" "member_matches r m"
      by (auto simp: match_member_def split: option.split_asm)
    then have mem: "m \<in> set (db_members d)" "mb_id m = reg_id r" by (auto dest: find_Some_iff')
    have "projects r m" by (rule member_matches_projects [OF m(2) mem(2) v(1)]) (use assms(5) mem(1) in blast)
    with mem(1) v(2) show ?thesis by (auto simp: mirrored_def)
  qed
  have "distinct (map rr_id (filter (\<lambda>x. rr_event x \<noteq> ?event) (db_regs d)))" using assms(3) by (rule distinct_map_filter)
  moreover have "map rr_id (map ?row rows) = map reg_id rows" by (simp only: map_map comp_def reg_row.select_convs)
  moreover have "distinct (map reg_id rows)" using ch by blast
  moreover have "rr_id ` set (filter (\<lambda>x. rr_event x \<noteq> ?event) (db_regs d)) \<inter> set (map reg_id rows) = {}"
    unfolding set_map disjoint_iff using new by (metis imageE)
  ultimately have "distinct (map rr_id (db_regs d'))" 
    unfolding regs map_append distinct_append by (simp only: set_map list.set_map simp_thms)
  moreover have "mirrored (db_members d') x" if "x \<in> set (db_regs d')" for x
    using that assms(4) proj by (auto simp: regs members)
  ultimately have "roster_inv d'" using assms(2) members by (simp add: roster_inv_def)
  moreover have "site_view d' ?event k = map_of (map (\<lambda>r. (reg_id r, r)) rows) k" for k
  proof -
    let ?p = "\<lambda>s. sr_event s = ?event \<and> sr_id s = k"
    have none: "List.find ?p (filter (\<lambda>s. sr_event s \<noteq> ?event) xs) = None" for xs by (auto simp: find_None_iff)
    have "baseline_value d' ?event k = (case List.find ?p (map ?site rs) of None \<Rightarrow> None
        | Some s \<Rightarrow> if sr_deleted s then None else Some (sr_value s))" if "rs = rows" for rs
      using that by (simp add: baseline_value_def find_site_row_def site find_append none)
    moreover have "(case List.find ?p (map ?site rs) of None \<Rightarrow> None
        | Some s \<Rightarrow> if sr_deleted s then None else Some (sr_value s)) = map_of (map (\<lambda>r. (reg_id r, r)) rs) k" for rs
      by (induction rs) auto
    ultimately show ?thesis by (simp add: site_view_def)
  qed
  then have "site_view d' ?event = map_of (map (\<lambda>r. (reg_id r, r)) rows)" by (rule ext)
  ultimately show ?thesis by blast
qed

subsection \<open>A concrete installation\<close>

definition w_exported :: db where
  "w_exported = w_db\<lparr> db_members := [registration_member w_source None] \<rparr>"

definition w_site_scope :: scope_row where
  "w_site_scope = \<lparr> sc_event = ''e'', sc_scope = ''site:1:e'', sc_baseline = ''b'', sc_source = ''site'', sc_installed = 0,
     sc_cursor = [] \<rparr>"

lemma w_source_matches: "member_matches w_source (registration_member w_source None)"
proof -
  have "parse_int 64 ''7'' = Some 7" by code_simp
  then have "nullable_number (bib_number (reg_bib w_source)) = normalized_bib (reg_bib w_source)"
    by (simp add: nullable_number_def bib_number_def normalized_bib_def w_source_def)
  moreover have "packet_status (status_number (reg_status w_source)) = reg_status w_source"
    by (rule packet_status_number) (simp add: w_source_def valid_status_def)
  ultimately show ?thesis by (simp add: member_matches_def registration_member_shows)
qed

lemma w_installed: "\<exists>d'. install_roster w_site_scope [w_source] None 5 w_exported = Inr d'"
proof -
  have id: "reg_id w_source = ''1''" "reg_event w_source = ''e''" by (simp_all add: w_source_def)
  have "match_member w_exported w_source = Inr ()"
    using w_source_matches by (simp add: match_member_def w_exported_def)
  moreover have "parse_cursor_text ''0'' = Some 0" by code_simp
  moreover have "\<not> has_history w_exported ''e''" by (simp add: has_history_def w_exported_def w_db_def)
  moreover have "db_events w_exported = [\<lparr> ev_id = ''e'', ev_race_age = 0 \<rparr>]" by (simp add: w_exported_def w_db_def)
  moreover have "db_members w_exported = [registration_member w_source None]" by (simp add: w_exported_def)
  ultimately have ok: "installable w_exported (w_site_scope\<lparr> sc_cursor := ''0'' \<rparr>) [w_source] = Inr ()"
    using w_rows_valid(1) by (simp add: installable_def w_site_scope_def id count_where_Cons)
  have row: "\<exists>d1. install_row ''e'' w_source (clear_roster ''e'' w_exported) = Inr d1 \<and> db_scopes d1 = db_scopes w_db"
    by (simp add: install_row_def clear_roster_def find_site_row_def w_exported_def w_db_def)
  then obtain d1 where d1: "install_row ''e'' w_source (clear_roster ''e'' w_exported) = Inr d1" "db_scopes d1 = db_scopes w_db" by blast
  have "\<exists>d'. save_scope s d1 = Inr d'" if "sc_event s = ''e''" "sc_scope s = ''site:1:e''" for s :: scope_row
    using that d1(2) by (simp add: save_scope_def w_db_def)
  then show ?thesis using ok d1(1)
    by (simp add: install_roster_def Let_def install_origins_def) (simp add: w_site_scope_def)
qed

theorem install_establishes_roster_witness:
  "\<exists>d'. install_roster w_site_scope [w_source] None 5 w_exported = Inr d' \<and> roster_inv d'
     \<and> site_view d' ''e'' ''1'' = Some w_source"
proof -
  obtain d' where d': "install_roster w_site_scope [w_source] None 5 w_exported = Inr d'" using w_installed by blast
  have n: "bib_number (reg_bib w_source) = Some 7" unfolding w_source_def by code_simp
  have "roster_inv d' \<and> site_view d' (sc_event w_site_scope) = map_of (map (\<lambda>r. (reg_id r, r)) [w_source])"
    by (rule install_establishes_roster [OF d']) (simp_all add: w_exported_def w_db_def registration_member_shows n)
  with d' show ?thesis by (simp add: w_site_scope_def w_source_def)
qed

end
