(* ===== verification/TimingTables.thy ===== *)
theory TimingTables
  imports PacketTables
begin

section \<open>The timing tables of an event database\<close>

text \<open>
  The races, members, checkpoints, raw readings and results that the timing engine reads and writes
  (\<^verbatim>\<open>infrastructure/sqlite/schema.sql\<close>), and the queries of \<^verbatim>\<open>processor_repo.go\<close>,
  \<^verbatim>\<open>recount_store.go\<close>, \<^verbatim>\<open>live_store.go\<close> and \<^verbatim>\<open>entities_store.go\<close>.  A race, a member and a reading are
  the rows of the packet tables with the columns the engine adds; results are kept in the order of their
  autoincrement id, the journal of local edits in the order of its entries, with the JSON texts as the values
  they encode.  \<open>td_dirty\<close> is the flag \<^verbatim>\<open>finishDirty\<close> of \<^verbatim>\<open>finish_changes.go\<close>, which wakes the finish
  screens when the transaction commits.

  The rules of the external module \<^verbatim>\<open>timing-core\<close> are the fields of \<open>timing_core\<close>: which checkpoint a
  reading passes, what it does to the times of its member, how a clean time is written, the outcome of a
  fixed distance under gun or chip timing, and the projection of a whole event.
\<close>

record timed_race = race_row +
  tr_format :: string
  tr_started :: "int option"
  tr_limit :: "int option"
  tr_basis :: string
  tr_excludes_top :: bool

record timed_member = member +
  tm_chip_start :: "int option"
  tm_chip_source :: string
  tm_chip_observation :: "string option"

record timed_log = log_row +
  tl_id :: string
  tl_time :: int
  tl_board :: string
  tl_disabled :: "int option"

record checkpoint =
  cp_id :: string
  cp_event :: string
  cp_race :: string
  cp_type :: int
  cp_sort :: int
  cp_board :: string
  cp_since :: "int option"
  cp_since_offset :: "int option"
  cp_until :: "int option"
  cp_until_offset :: "int option"
  cp_selection :: string
  cp_sleep :: "int option"

record result_row =
  rt_id :: int
  rt_event :: string
  rt_race :: string
  rt_member :: string
  rt_checkpoint :: "string option"
  rt_log :: "string option"
  rt_time :: int
  rt_number :: "int option"

record local_change =
  lc_entity :: string
  lc_id :: string
  lc_field :: string
  lc_old :: json
  lc_new :: json
  lc_at :: int

record tdb =
  td_races :: "timed_race list"
  td_members :: "timed_member list"
  td_checkpoints :: "checkpoint list"
  td_logs :: "timed_log list"
  td_results :: "result_row list"
  td_next :: int
  td_changes :: "local_change list"
  td_dirty :: bool

text \<open>The engine's view of a participant, of the last result and of what a pass does to the times.\<close>

record engine_member =
  em_id :: string
  em_race :: string
  em_number :: "int option"
  em_start :: "int option"
  em_source :: string
  em_observation :: string
  em_finish :: "int option"
  em_race_started :: "int option"

record last_result =
  lr_sort :: "int option"
  lr_time :: "int option"

datatype start_write = Start_Keep | Start_If_Null | Start_Replace

record time_plan =
  pl_write :: start_write
  pl_start :: "int option"
  pl_observation :: string
  pl_finish :: "int option"
  pl_clean :: "string option"

text \<open>What a projection of a whole event takes in and gives back.\<close>

record reading =
  rg_id :: string
  rg_event :: string
  rg_number :: int
  rg_time :: int
  rg_epc :: string
  rg_board :: string
  rg_disabled :: bool

record snap_member =
  sm_id :: string
  sm_race :: string
  sm_number :: "int option"
  sm_epc :: string
  sm_status :: string
  sm_gender :: "string option"
  sm_category :: "string option"
  sm_start :: "int option"
  sm_assigned :: "int option"
  sm_source :: string
  sm_observation :: string

record manual_fact =
  mf_id :: int
  mf_member :: string
  mf_race :: string
  mf_checkpoint :: "string option"
  mf_time :: int

record snapshot =
  sn_event :: string
  sn_races :: "timed_race list"
  sn_members :: "snap_member list"
  sn_checkpoints :: "checkpoint list"
  sn_finishes :: "manual_fact list"
  sn_passes :: "manual_fact list"

record pass =
  ps_race :: string
  ps_member :: string
  ps_checkpoint :: string
  ps_observation :: string
  ps_time :: int

record member_timing =
  mt_id :: string
  mt_race :: string
  mt_start :: "int option"
  mt_source :: string
  mt_observation :: string
  mt_finish :: "int option"
  mt_clean :: "string option"
  mt_dual :: bool
  mt_chip_start :: "int option"
  mt_chip_source :: string
  mt_chip_observation :: string

record projection =
  pj_passes :: "pass list"
  pj_members :: "member_timing list"

record timing_core =
  tc_select :: "timed_log \<Rightarrow> engine_member \<Rightarrow> last_result \<Rightarrow> string set \<Rightarrow> checkpoint list \<Rightarrow> nat option"
  tc_plan :: "engine_member \<Rightarrow> int \<Rightarrow> string \<Rightarrow> int \<Rightarrow> time_plan"
  tc_clean :: "int \<Rightarrow> int \<Rightarrow> string"
  tc_final :: "timed_race \<Rightarrow> timed_member \<Rightarrow> int option res"
  tc_project :: "bool \<Rightarrow> snapshot \<Rightarrow> reading list \<Rightarrow> projection res"

definition dual_basis :: "string \<Rightarrow> bool" where
  "dual_basis b \<longleftrightarrow> b = ''gun'' \<or> b = ''chip''"

section \<open>Queries\<close>

definition result_exists :: "tdb \<Rightarrow> string \<Rightarrow> bool" where
  "result_exists d k = (\<exists>r \<in> set (td_results d). rt_log r = Some k)"

definition log_disabled :: "tdb \<Rightarrow> string \<Rightarrow> bool" where
  "log_disabled d k = (case List.find (\<lambda>l. tl_id l = k) (td_logs d) of
     None \<Rightarrow> False | Some l \<Rightarrow> tl_disabled l \<noteq> None)"

definition ambiguous_identity :: string where
  "ambiguous_identity = ''observation identity matches multiple members''"

definition engine_view :: "timed_member \<Rightarrow> timed_race \<Rightarrow> engine_member" where
  "engine_view m r = \<lparr> em_id = mb_id m, em_race = mb_race m, em_number = mb_number m, em_start = mb_start m,
     em_source = mb_start_source m, em_observation = (case mb_start_observation m of None \<Rightarrow> [] | Some x \<Rightarrow> x),
     em_finish = mb_finish m, em_race_started = tr_started r \<rparr>"

definition identifies :: "timed_log \<Rightarrow> timed_member \<Rightarrow> bool" where
  "identifies l m = (if lg_number l > 0 then mb_number m = Some (lg_number l) else mb_epc m = Some (lg_epc l))"

definition race_of :: "tdb \<Rightarrow> string \<Rightarrow> timed_race option" where
  "race_of d k = List.find (\<lambda>r. rc_id r = k) (td_races d)"

definition matched_members :: "tdb \<Rightarrow> string \<Rightarrow> timed_log \<Rightarrow> engine_member list" where
  "matched_members d event l = List.map_filter (\<lambda>m.
     if mb_event m = event \<and> identifies l m then map_option (engine_view m) (race_of d (mb_race m)) else None)
     (td_members d)"

definition load_member :: "tdb \<Rightarrow> string \<Rightarrow> timed_log \<Rightarrow> engine_member option res" where
  "load_member d event l = (case matched_members d event l of
     [] \<Rightarrow> Inr None
   | [m] \<Rightarrow> Inr (Some m)
   | _ \<Rightarrow> Inl ambiguous_identity)"

definition member_passes :: "tdb \<Rightarrow> string \<Rightarrow> string \<Rightarrow> result_row list" where
  "member_passes d race k = filter (\<lambda>r. rt_race r = race \<and> rt_member r = k \<and> rt_checkpoint r \<noteq> None) (td_results d)"

text \<open>The latest pass, the one stored last when two have the same time; a pass without its checkpoint is
  dropped by the join.  Between two passes of the same time \<^verbatim>\<open>ORDER BY time_ms DESC LIMIT 1\<close> does not decide.\<close>

definition timed_sorts :: "tdb \<Rightarrow> result_row list \<Rightarrow> (int \<times> int) list" where
  "timed_sorts d rows = List.map_filter (\<lambda>r. case rt_checkpoint r of None \<Rightarrow> None | Some c \<Rightarrow>
     map_option (\<lambda>cp. (rt_time r, cp_sort cp)) (List.find (\<lambda>cp. cp_id cp = c) (td_checkpoints d))) rows"

definition load_last_result :: "tdb \<Rightarrow> string \<Rightarrow> string \<Rightarrow> last_result" where
  "load_last_result d race k = (case rev (sort_key fst (timed_sorts d (member_passes d race k))) of
     [] \<Rightarrow> \<lparr> lr_sort = None, lr_time = None \<rparr>
   | p # _ \<Rightarrow> \<lparr> lr_sort = Some (snd p), lr_time = Some (fst p) \<rparr>)"

definition load_passed :: "tdb \<Rightarrow> string \<Rightarrow> string \<Rightarrow> string set" where
  "load_passed d race k = set (List.map_filter rt_checkpoint (member_passes d race k))"

definition load_checkpoints :: "tdb \<Rightarrow> string \<Rightarrow> string \<Rightarrow> checkpoint list" where
  "load_checkpoints d race board = sort_key cp_sort
     (filter (\<lambda>c. cp_race c = race \<and> cp_board c = board) (td_checkpoints d))"

definition timed_get_member :: "tdb \<Rightarrow> string \<Rightarrow> timed_member res" where
  "timed_get_member d k = (case List.find (\<lambda>m. mb_id m = k) (td_members d) of
     None \<Rightarrow> Inl no_rows | Some m \<Rightarrow> Inr m)"

definition timed_get_race :: "tdb \<Rightarrow> string \<Rightarrow> timed_race res" where
  "timed_get_race d k = (case race_of d k of None \<Rightarrow> Inl no_rows | Some r \<Rightarrow> Inr r)"

text \<open>Readings in replay order: by time, then by id.\<close>

definition list_logs :: "tdb \<Rightarrow> string \<Rightarrow> timed_log list" where
  "list_logs d event = sort_key (\<lambda>l. tl_time l) (sort_key (\<lambda>l. tl_id l)
     (filter (\<lambda>l. lg_event l = event) (td_logs d)))"

definition log_of_member :: "timed_log \<Rightarrow> timed_member \<Rightarrow> bool" where
  "log_of_member l m \<longleftrightarrow> mb_event m = lg_event l \<and>
     (lg_number l > 0 \<and> mb_number m = Some (lg_number l) \<or>
      lg_number l \<le> 0 \<and> lg_epc l \<noteq> [] \<and> mb_epc m = Some (lg_epc l))"

definition list_logs_for :: "tdb \<Rightarrow> string \<Rightarrow> string list \<Rightarrow> timed_log list" where
  "list_logs_for d event ids = (if ids = [] then [] else
     filter (\<lambda>l. \<exists>m \<in> set (td_members d). mb_id m \<in> set ids \<and> log_of_member l m) (list_logs d event))"

text \<open>The judges' entries, in chronological order.\<close>

definition judge_entry :: "result_row \<Rightarrow> bool" where
  "judge_entry r \<longleftrightarrow> rt_log r = None \<and> rt_checkpoint r = None"

definition list_manual :: "tdb \<Rightarrow> string \<Rightarrow> string \<Rightarrow> result_row list" where
  "list_manual d event race = sort_key rt_time (filter (\<lambda>r. rt_event r = event \<and> judge_entry r \<and>
     (race \<noteq> [] \<longrightarrow> rt_race r = race)) (td_results d))"

definition list_manual_for :: "tdb \<Rightarrow> string \<Rightarrow> string list \<Rightarrow> result_row list" where
  "list_manual_for d event ids = (if ids = [] then [] else sort_key rt_time
     (filter (\<lambda>r. rt_event r = event \<and> rt_member r \<in> set ids \<and> judge_entry r) (td_results d)))"

section \<open>Writes\<close>

definition insert_local_change :: "local_change \<Rightarrow> tdb \<Rightarrow> tdb" where
  "insert_local_change c d = d\<lparr> td_changes := td_changes d @ [c] \<rparr>"

definition finish_changed :: "tdb \<Rightarrow> tdb" where
  "finish_changed d = d\<lparr> td_dirty := True \<rparr>"

definition insert_row :: "result_row \<Rightarrow> tdb \<Rightarrow> tdb" where
  "insert_row r d = d\<lparr> td_results := td_results d @ [r\<lparr> rt_id := td_next d \<rparr>], td_next := td_next d + 1 \<rparr>"

text \<open>\<^verbatim>\<open>INSERT OR IGNORE\<close>: a second result of a reading is ignored, a missing reading breaks the foreign key.\<close>

definition insert_result :: "tdb \<Rightarrow> timed_log \<Rightarrow> engine_member \<Rightarrow> checkpoint \<Rightarrow> (bool \<times> tdb) res" where
  "insert_result d l m c =
    (if result_exists d (tl_id l) then Inr (False, d)
     else if tl_id l \<notin> tl_id ` set (td_logs d) then Inl constraint_failed
     else Inr (True, insert_row \<lparr> rt_id = 0, rt_event = lg_event l, rt_race = em_race m, rt_member = em_id m,
       rt_checkpoint = Some (cp_id c), rt_log = Some (tl_id l), rt_time = tl_time l, rt_number = em_number m \<rparr> d))"

definition update_members :: "(timed_member \<Rightarrow> bool) \<Rightarrow> (timed_member \<Rightarrow> timed_member) \<Rightarrow> tdb \<Rightarrow> tdb" where
  "update_members p f d = d\<lparr> td_members := update_where p f (td_members d) \<rparr>"

definition machine_source :: "string \<Rightarrow> bool" where
  "machine_source s \<longleftrightarrow> s = ''observation'' \<or> s = ''race_default''"

definition reset_times :: "timed_member \<Rightarrow> timed_member" where
  "reset_times m = m\<lparr>
     mb_start := (if machine_source (mb_start_source m) then None else mb_start m),
     mb_start_source := (if machine_source (mb_start_source m) then ''unknown'' else mb_start_source m),
     mb_start_observation := (if machine_source (mb_start_source m) then None else mb_start_observation m),
     tm_chip_start := None, tm_chip_source := [], tm_chip_observation := None,
     mb_finish := None, mb_clean := None \<rparr>"

definition wipe :: "(result_row \<Rightarrow> bool) \<Rightarrow> (timed_member \<Rightarrow> bool) \<Rightarrow> tdb \<Rightarrow> tdb" where
  "wipe p q d = finish_changed (update_members q reset_times
     (d\<lparr> td_results := filter (\<lambda>r. \<not> (p r \<and> rt_log r \<noteq> None)) (td_results d) \<rparr>))"

definition in_race :: "string \<Rightarrow> string \<Rightarrow> bool" where
  "in_race race k \<longleftrightarrow> race = [] \<or> k = race"

definition wipe_results :: "tdb \<Rightarrow> string \<Rightarrow> string \<Rightarrow> tdb" where
  "wipe_results d event race =
     wipe (\<lambda>r. rt_event r = event \<and> in_race race (rt_race r)) (\<lambda>m. mb_event m = event \<and> in_race race (mb_race m)) d"

definition wipe_results_for :: "tdb \<Rightarrow> string \<Rightarrow> string list \<Rightarrow> tdb" where
  "wipe_results_for d event ids = (if ids = [] then d else
     wipe (\<lambda>r. rt_event r = event \<and> rt_member r \<in> set ids) (\<lambda>m. mb_event m = event \<and> mb_id m \<in> set ids) d)"

definition update_finish :: "tdb \<Rightarrow> string \<Rightarrow> int option \<Rightarrow> int \<Rightarrow> string option \<Rightarrow> tdb" where
  "update_finish d k start finish clean = finish_changed (update_members (\<lambda>m. mb_id m = k) (\<lambda>m.
     (case start of
        None \<Rightarrow> m
      | Some t \<Rightarrow> m\<lparr> mb_start := Some t, mb_start_source := ''race_default'', mb_start_observation := None \<rparr>)
     \<lparr> mb_finish := Some finish, mb_clean := clean \<rparr>) d)"

end
