(* ===== verification/TimingEngine.thy ===== *)
theory TimingEngine
  imports TimingTables
begin

section \<open>The timing engine\<close>

text \<open>
  \<^verbatim>\<open>processor/processor.go\<close> and its repository \<^verbatim>\<open>processor_repo.go\<close>: one raw reading gives at most one
  result.  The whole decision is one transaction, so every function maps the tables to the tables or to an
  error, which rolls back.
\<close>

definition has_participant_key :: "timed_log \<Rightarrow> bool" where
  "has_participant_key l \<longleftrightarrow> lg_number l > 0 \<or> lg_epc l \<noteq> []"

definition out_of_range :: string where
  "out_of_range = ''index out of range''"

definition nil_pointer :: string where
  "nil_pointer = ''nil pointer dereference''"

definition select_checkpoint :: "timing_core \<Rightarrow> timed_log \<Rightarrow> engine_member \<Rightarrow> last_result \<Rightarrow> string set \<Rightarrow>
    checkpoint list \<Rightarrow> checkpoint option res" where
  "select_checkpoint tc l m last_r passed cps = (case tc_select tc l m last_r passed cps of
     None \<Rightarrow> Inr None
   | Some i \<Rightarrow> if i < length cps then Inr (Some (cps ! i)) else Inl out_of_range)"

text \<open>\<^verbatim>\<open>UpdateMemberTimes\<close>: a missing start is filled in, a machine-owned start is replaced, a finish is
  written only once.\<close>

definition write_start :: "engine_member \<Rightarrow> time_plan \<Rightarrow> tdb \<Rightarrow> tdb res" where
  "write_start m p d = (case pl_write p of
     Start_Keep \<Rightarrow> Inr d
   | Start_If_Null \<Rightarrow> (case pl_start p of None \<Rightarrow> Inl nil_pointer | Some t \<Rightarrow>
       Inr (update_members (\<lambda>r. mb_id r = em_id m \<and> mb_start r = None) (\<lambda>r. r\<lparr> mb_start := Some t,
         mb_start_source := ''race_default'', mb_start_observation := None \<rparr>) d))
   | Start_Replace \<Rightarrow> (case pl_start p of None \<Rightarrow> Inl nil_pointer | Some t \<Rightarrow>
       Inr (update_members (\<lambda>r. mb_id r = em_id m \<and> (mb_start r = None \<or> machine_source (mb_start_source r)))
         (\<lambda>r. r\<lparr> mb_start := Some t, mb_start_source := ''observation'',
           mb_start_observation := Some (pl_observation p) \<rparr>) d)))"

definition signal_start :: "engine_member \<Rightarrow> time_plan \<Rightarrow> tdb \<Rightarrow> tdb" where
  "signal_start m p d = (if em_finish m \<noteq> None \<and> pl_write p \<noteq> Start_Keep then finish_changed d else d)"

definition write_finish :: "engine_member \<Rightarrow> time_plan \<Rightarrow> tdb \<Rightarrow> tdb" where
  "write_finish m p d = (case pl_finish p of
     None \<Rightarrow> d
   | Some t \<Rightarrow>
       (let hit = (\<lambda>r. mb_id r = em_id m \<and> mb_finish r = None);
            d' = update_members hit (\<lambda>r. r\<lparr> mb_finish := Some t, mb_clean := pl_clean p \<rparr>) d
        in if count_where hit (td_members d) > 0 then finish_changed d' else d'))"

definition update_member_times :: "timing_core \<Rightarrow> engine_member \<Rightarrow> checkpoint \<Rightarrow> int \<Rightarrow> string \<Rightarrow> tdb \<Rightarrow> tdb res" where
  "update_member_times tc m c time obs d =
    (let p = tc_plan tc m (cp_type c) obs time
     in bind_res (write_start m p d) (\<lambda>d. Inr (write_finish m p (signal_start m p d))))"

definition store_result :: "timing_core \<Rightarrow> timed_log \<Rightarrow> engine_member \<Rightarrow> checkpoint \<Rightarrow> tdb \<Rightarrow> tdb res" where
  "store_result tc l m c d = bind_res (insert_result d l m c) (\<lambda>(inserted, d').
     if inserted then update_member_times tc m c (tl_time l) (tl_id l) d' else Inr d')"

definition derive_for :: "timing_core \<Rightarrow> timed_log \<Rightarrow> engine_member \<Rightarrow> tdb \<Rightarrow> tdb res" where
  "derive_for tc l m d =
    (let cps = load_checkpoints d (em_race m) (tl_board l)
     in if cps = [] then Inr d
        else bind_res (select_checkpoint tc l m (load_last_result d (em_race m) (em_id m))
               (load_passed d (em_race m) (em_id m)) cps) (\<lambda>c.
             case c of None \<Rightarrow> Inr d | Some c \<Rightarrow> store_result tc l m c d))"

definition derive_result :: "timing_core \<Rightarrow> timed_log \<Rightarrow> string \<Rightarrow> tdb \<Rightarrow> tdb res" where
  "derive_result tc l race d =
    (if result_exists d (tl_id l) \<or> log_disabled d (tl_id l) then Inr d
     else bind_res (load_member d (lg_event l) l) (\<lambda>found. case found of
            None \<Rightarrow> Inr d
          | Some m \<Rightarrow> if in_race race (em_race m) then derive_for tc l m d else Inr d))"

section \<open>Judges' entries\<close>

definition member_start_ref :: "tdb \<Rightarrow> timed_member \<Rightarrow> int option res" where
  "member_start_ref d m = (case mb_start m of
     Some t \<Rightarrow> Inr (Some t)
   | None \<Rightarrow> bind_res (timed_get_race d (mb_race m)) (\<lambda>r. Inr (tr_started r)))"

definition apply_manual_finish :: "timing_core \<Rightarrow> string \<Rightarrow> int \<Rightarrow> tdb \<Rightarrow> tdb res" where
  "apply_manual_finish tc k time d =
    bind_res (timed_get_member d k) (\<lambda>m. bind_res (timed_get_race d (mb_race m)) (\<lambda>r.
      if dual_basis (tr_basis r)
      then bind_res (tc_final tc r (m\<lparr> mb_finish := Some time \<rparr>)) (\<lambda>clean.
             Inr (update_finish d k None time (map_option (tc_clean tc 0) clean)))
      else bind_res (member_start_ref d m) (\<lambda>start.
             Inr (update_finish d k (if mb_start m = None then start else None) time
                   (map_option (\<lambda>s. tc_clean tc s time) start)))))"

text \<open>Only the first entry of a member counts.\<close>

fun reapply_manual :: "timing_core \<Rightarrow> result_row list \<Rightarrow> string set \<Rightarrow> tdb \<Rightarrow> tdb res" where
  "reapply_manual tc [] applied d = Inr d"
| "reapply_manual tc (r # rs) applied d =
    (if rt_member r \<in> applied then reapply_manual tc rs applied d
     else bind_res (apply_manual_finish tc (rt_member r) (rt_time r) d)
            (reapply_manual tc rs (insert (rt_member r) applied)))"

definition wrap64 :: "int \<Rightarrow> int" where
  "wrap64 n = (n + 2 ^ 63) mod 2 ^ 64 - 2 ^ 63"

record manual_finish_result =
  mn_result :: int
  mn_recount :: bool
  mn_already :: bool

definition other_event :: string where
  "other_event = ''member does not belong to the event''"

definition journal_finish :: "string \<Rightarrow> int \<Rightarrow> int \<Rightarrow> local_change" where
  "journal_finish k time now = \<lparr> lc_entity = ''member'', lc_id = k, lc_field = ''_manual_finish'', lc_old = JNull,
     lc_new = JObject [(''time_ms'', JNumber (format_int time))], lc_at = now \<rparr>"

definition store_manual_finish ::
    "timing_core \<Rightarrow> int \<Rightarrow> string \<Rightarrow> string \<Rightarrow> int \<Rightarrow> tdb \<Rightarrow> (manual_finish_result \<times> tdb) res" where
  "store_manual_finish tc now event k time d =
    bind_res (timed_get_member d k) (\<lambda>m.
    bind_res (fail_if (mb_event m \<noteq> event) other_event) (\<lambda>_.
      let had = (\<exists>r \<in> set (list_manual d event []). rt_member r = k);
          d' = insert_row \<lparr> rt_id = 0, rt_event = event, rt_race = mb_race m, rt_member = k, rt_checkpoint = None,
                 rt_log = None, rt_time = time, rt_number = mb_number m \<rparr> d
      in bind_res (apply_manual_finish tc k time d') (\<lambda>d''.
           Inr (\<lparr> mn_result = td_next d, mn_recount = False, mn_already = had \<rparr>,
             insert_local_change (journal_finish k time now) d''))))"

definition manual_finish ::
    "timing_core \<Rightarrow> int \<Rightarrow> string \<Rightarrow> string \<Rightarrow> int \<Rightarrow> tdb \<Rightarrow> (manual_finish_result \<times> tdb) res" where
  "manual_finish tc now event k time d =
    (if time \<le> 0 then Inl ''invalid finish time'' else store_manual_finish tc now event k time d)"

definition manual_finish_clean ::
    "timing_core \<Rightarrow> int \<Rightarrow> string \<Rightarrow> string \<Rightarrow> int \<Rightarrow> tdb \<Rightarrow> (manual_finish_result \<times> tdb) res" where
  "manual_finish_clean tc now event k clean d =
    (if clean < 0 then Inl ''invalid clean time''
     else bind_res (timed_get_member d k) (\<lambda>m.
          bind_res (fail_if (mb_event m \<noteq> event) other_event) (\<lambda>_.
          bind_res (member_start_ref d m) (\<lambda>start. case start of
            None \<Rightarrow> Inl ''the race has no start time''
          | Some s \<Rightarrow> store_manual_finish tc now event k (wrap64 (s + clean)) d))))"

definition find_manual :: "tdb \<Rightarrow> string \<Rightarrow> int \<Rightarrow> result_row option" where
  "find_manual d event k = List.find (\<lambda>r. rt_id r = k \<and> rt_event r = event \<and> judge_entry r) (td_results d)"

definition journal_deleted :: "result_row \<Rightarrow> int \<Rightarrow> local_change" where
  "journal_deleted r now = \<lparr> lc_entity = ''member'', lc_id = rt_member r, lc_field = ''_manual_finish_deleted'',
     lc_old = JNull, lc_new = JObject [(''member_id'', JText (rt_member r)), (''race_id'', JText (rt_race r)),
       (''time_ms'', JNumber (format_int (rt_time r)))], lc_at = now \<rparr>"

definition delete_manual_result :: "int \<Rightarrow> string \<Rightarrow> int \<Rightarrow> tdb \<Rightarrow> tdb res" where
  "delete_manual_result now event k d = (case find_manual d event k of
     None \<Rightarrow> Inl no_rows
   | Some r \<Rightarrow> Inr (insert_local_change (journal_deleted r now) (d\<lparr> td_results :=
       filter (\<lambda>r. \<not> (rt_id r = k \<and> rt_event r = event \<and> judge_entry r)) (td_results d) \<rparr>)))"

section \<open>Replaying an event\<close>

definition process_log :: "timing_core \<Rightarrow> string \<Rightarrow> timed_log \<Rightarrow> tdb \<Rightarrow> tdb res" where
  "process_log tc race l d =
    (if tl_time l \<le> 0 \<or> \<not> has_participant_key l then Inr d else derive_result tc l race d)"

definition replay_logs :: "timing_core \<Rightarrow> string \<Rightarrow> timed_log list \<Rightarrow> tdb \<Rightarrow> tdb res" where
  "replay_logs tc race = fold_res (process_log tc race)"

definition recount_legacy :: "timing_core \<Rightarrow> string \<Rightarrow> string \<Rightarrow> tdb \<Rightarrow> tdb res" where
  "recount_legacy tc event race d =
    (let d0 = wipe_results d event race
     in bind_res (replay_logs tc race (list_logs d0 event) d0) (\<lambda>d1.
          reapply_manual tc (list_manual d1 event race) {} d1))"

definition recount_members_legacy :: "timing_core \<Rightarrow> string \<Rightarrow> string list \<Rightarrow> tdb \<Rightarrow> tdb res" where
  "recount_members_legacy tc event ids d =
    (let d0 = wipe_results_for d event ids
     in bind_res (replay_logs tc [] (list_logs_for d0 event ids) d0) (\<lambda>d1.
          reapply_manual tc (list_manual_for d1 event ids) {} d1))"

end
