(* ===== verification/TimingSnapshot.thy ===== *)
theory TimingSnapshot
  imports TimingEngine
begin

section \<open>Projections of a whole event\<close>

text \<open>
  \<^verbatim>\<open>snapshot_store.go\<close>, \<^verbatim>\<open>checkpoint_window.go\<close>, \<^verbatim>\<open>service/snapshot_recount.go\<close> and
  \<^verbatim>\<open>service/recount.go\<close>: the event is read into a snapshot, the external module computes its projection,
  and the projection replaces the derived rows.  Events outside the snapshot profile are replayed reading by
  reading (\<open>recount_legacy\<close>).
\<close>

definition snapshot_unsupported :: string where
  "snapshot_unsupported = ''event is outside the fixed-distance snapshot profile''"

definition known_format :: "string \<Rightarrow> bool" where
  "known_format f \<longleftrightarrow> f \<in> {''FixedDistance'', ''TimeLimited'', ''Run5Stopwatch''}"

definition snap_races :: "bool \<Rightarrow> timed_race list \<Rightarrow> timed_race list res" where
  "snap_races everything = map_res (\<lambda>r.
     if (\<not> everything \<and> tr_format r \<noteq> ''FixedDistance'') \<or> \<not> known_format (tr_format r)
     then Inl snapshot_unsupported else Inr r)"

definition status_text :: "int \<Rightarrow> string option" where
  "status_text n = (if n = 0 then Some ''ok'' else if n = 1 then Some ''dns'' else if n = 2 then Some ''dnf''
     else if n = 3 then Some ''dq'' else None)"

definition snap_member_of :: "timed_race list \<Rightarrow> timed_member \<Rightarrow> snap_member res" where
  "snap_member_of races m = (case status_text (mb_status m) of
     None \<Rightarrow> Inl snapshot_unsupported
   | Some st \<Rightarrow> Inr \<lparr> sm_id = mb_id m, sm_race = mb_race m, sm_number = mb_number m,
       sm_epc = (case mb_epc m of None \<Rightarrow> [] | Some e \<Rightarrow> e), sm_status = st, sm_gender = mb_gender m,
       sm_category = mb_category m, sm_start = mb_start m,
       sm_assigned = (if (\<exists>r \<in> set races. rc_id r = mb_race m \<and> dual_basis (tr_basis r)) \<and>
                         \<not> machine_source (mb_start_source m) then mb_start m else None),
       sm_source = mb_start_source m,
       sm_observation = (case mb_start_observation m of None \<Rightarrow> [] | Some x \<Rightarrow> x) \<rparr>)"

definition snap_manual :: "bool \<Rightarrow> result_row \<Rightarrow> manual_fact res" where
  "snap_manual everything r =
    (if (\<not> everything \<and> rt_checkpoint r \<noteq> None) \<or> rt_time r \<le> 0 then Inl snapshot_unsupported
     else Inr \<lparr> mf_id = rt_id r, mf_member = rt_member r, mf_race = rt_race r, mf_checkpoint = rt_checkpoint r,
                mf_time = rt_time r \<rparr>)"

definition event_members :: "tdb \<Rightarrow> string \<Rightarrow> timed_member list" where
  "event_members d event = sort_key (\<lambda>m. mb_id m) (filter (\<lambda>m. mb_event m = event) (td_members d))"

definition event_checkpoints :: "tdb \<Rightarrow> string \<Rightarrow> checkpoint list" where
  "event_checkpoints d event = sort_key cp_race (sort_key cp_sort (sort_key cp_id
     (filter (\<lambda>c. cp_event c = event) (td_checkpoints d))))"

definition load_snapshot :: "bool \<Rightarrow> tdb \<Rightarrow> string \<Rightarrow> snapshot res" where
  "load_snapshot everything d event =
    bind_res (snap_races everything (sort_key (\<lambda>r. rc_id r) (filter (\<lambda>r. rc_event r = event) (td_races d)))) (\<lambda>races.
    bind_res (map_res (snap_member_of races) (event_members d event)) (\<lambda>members.
    bind_res (map_res (snap_manual everything)
        (sort_key rt_time (filter (\<lambda>r. rt_event r = event \<and> rt_log r = None) (td_results d)))) (\<lambda>facts.
      Inr \<lparr> sn_event = event, sn_races = races, sn_members = members, sn_checkpoints = event_checkpoints d event,
            sn_finishes = filter (\<lambda>f. mf_checkpoint f = None) facts,
            sn_passes = filter (\<lambda>f. mf_checkpoint f \<noteq> None) facts \<rparr>)))"

text \<open>A reading that a result of another race holds is withheld from a recount of one race.\<close>

definition reading_of :: "timed_log \<Rightarrow> reading" where
  "reading_of l = \<lparr> rg_id = tl_id l, rg_event = lg_event l, rg_number = lg_number l, rg_time = tl_time l,
     rg_epc = lg_epc l, rg_board = tl_board l, rg_disabled = (tl_disabled l \<noteq> None) \<rparr>"

definition reserved_outside :: "tdb \<Rightarrow> string \<Rightarrow> timed_log \<Rightarrow> bool" where
  "reserved_outside d race l \<longleftrightarrow>
     race \<noteq> [] \<and> (\<exists>r \<in> set (td_results d). rt_log r = Some (tl_id l) \<and> rt_race r \<noteq> race)"

definition stream_readings :: "tdb \<Rightarrow> string \<Rightarrow> string \<Rightarrow> reading list" where
  "stream_readings d event race =
     map reading_of (filter (\<lambda>l. \<not> reserved_outside d race l) (list_logs d event))"

section \<open>Replacing the derived rows\<close>

definition batch_failed :: string where
  "batch_failed = ''snapshot batch affected other rows than expected''"

definition batch_size :: nat where
  "batch_size = 64"

function batches :: "nat \<Rightarrow> 'a list \<Rightarrow> 'a list list" where
  "batches n xs = (if xs = [] \<or> n = 0 then [] else take n xs # batches n (drop n xs))"
  by pat_completeness auto
termination by (relation "measure (\<lambda>(n, xs). length xs)") auto

declare batches.simps [simp del]

text \<open>One \<^verbatim>\<open>INSERT ... SELECT\<close> of a batch of passes: a pass whose reading or member is not in the event gives no
  row, and the number of rows is compared with the size of the batch.\<close>

definition pass_row :: "string \<Rightarrow> timed_member \<Rightarrow> pass \<Rightarrow> result_row" where
  "pass_row event m p = \<lparr> rt_id = 0, rt_event = event, rt_race = ps_race p, rt_member = ps_member p,
     rt_checkpoint = Some (ps_checkpoint p), rt_log = Some (ps_observation p), rt_time = ps_time p,
     rt_number = mb_number m \<rparr>"

definition known_reading :: "tdb \<Rightarrow> string \<Rightarrow> string \<Rightarrow> bool" where
  "known_reading d event k \<longleftrightarrow> (\<exists>l \<in> set (td_logs d). tl_id l = k \<and> lg_event l = event)"

definition pass_rows :: "tdb \<Rightarrow> string \<Rightarrow> pass \<Rightarrow> result_row list" where
  "pass_rows d event p =
    (if known_reading d event (ps_observation p)
     then (case List.find (\<lambda>m. mb_id m = ps_member p) (td_members d) of
        None \<Rightarrow> [] | Some m \<Rightarrow> if mb_event m = event then [pass_row event m p] else [])
     else [])"

definition insert_pass :: "result_row \<Rightarrow> tdb \<Rightarrow> tdb res" where
  "insert_pass r d = (case rt_log r of
     None \<Rightarrow> Inr (insert_row r d)
   | Some k \<Rightarrow> if result_exists d k \<or> rt_race r \<notin> (\<lambda>x. rc_id x) ` set (td_races d) \<or>
                  (case rt_checkpoint r of None \<Rightarrow> False | Some c \<Rightarrow> c \<notin> cp_id ` set (td_checkpoints d))
               then Inl constraint_failed else Inr (insert_row r d))"

definition insert_batch :: "string \<Rightarrow> pass list \<Rightarrow> tdb \<Rightarrow> tdb res" where
  "insert_batch event ps d =
    (let rows = concat (map (pass_rows d event) ps)
     in bind_res (fold_res insert_pass rows d) (\<lambda>d'.
          if length rows \<noteq> length ps then Inl batch_failed else Inr d'))"

definition nullable_observation :: "string \<Rightarrow> string option" where
  "nullable_observation k = (if k = [] then None else Some k)"

definition set_timing :: "member_timing \<Rightarrow> timed_member \<Rightarrow> timed_member" where
  "set_timing t m = m\<lparr>
     mb_start := (if mt_dual t then mb_start m else mt_start t),
     mb_start_source := (if mt_dual t then mb_start_source m else mt_source t),
     mb_start_observation := (if mt_dual t then mb_start_observation m else nullable_observation (mt_observation t)),
     tm_chip_start := mt_chip_start t, tm_chip_source := mt_chip_source t,
     tm_chip_observation := nullable_observation (mt_chip_observation t),
     mb_finish := mt_finish t, mb_clean := mt_clean t \<rparr>"

definition update_batch :: "string \<Rightarrow> member_timing list \<Rightarrow> tdb \<Rightarrow> tdb res" where
  "update_batch event ts d =
    (let row = (\<lambda>m. if mb_event m = event then List.find (\<lambda>t. mt_id t = mb_id m) ts else None);
         hit = count_where (\<lambda>m. row m \<noteq> None) (td_members d);
         d' = update_members (\<lambda>m. row m \<noteq> None) (\<lambda>m. set_timing (the (row m)) m) d
     in if hit \<noteq> length ts then Inl batch_failed else Inr d')"

text \<open>A race or a list of members limits what is replaced.\<close>

definition scoped :: "string \<Rightarrow> string list \<Rightarrow> projection \<Rightarrow> projection" where
  "scoped race ids pj = \<lparr>
     pj_passes = filter (\<lambda>p. in_race race (ps_race p) \<and> (ids = [] \<or> ps_member p \<in> set ids)) (pj_passes pj),
     pj_members = filter (\<lambda>t. in_race race (mt_race t) \<and> (ids = [] \<or> mt_id t \<in> set ids)) (pj_members pj) \<rparr>"

definition raw_passes :: "projection \<Rightarrow> pass list" where
  "raw_passes pj = filter (\<lambda>p. ps_observation p \<noteq> []) (pj_passes pj)"

definition replace_projection :: "string \<Rightarrow> string \<Rightarrow> string list \<Rightarrow> projection \<Rightarrow> tdb \<Rightarrow> tdb res" where
  "replace_projection event race ids pj d =
    (let pj' = scoped race ids pj;
         d0 = (if ids = [] then wipe_results d event race else wipe_results_for d event ids)
     in bind_res (fold_res (insert_batch event) (batches batch_size (raw_passes pj')) d0)
          (fold_res (update_batch event) (batches batch_size (pj_members pj'))))"

section \<open>Windows, gun and chip timing\<close>

definition windowed :: "checkpoint \<Rightarrow> bool" where
  "windowed c \<longleftrightarrow> cp_selection c = ''last'' \<or> cp_until c \<noteq> None \<or> cp_until_offset c \<noteq> None \<or>
     (cp_type c = 1 \<and> cp_since_offset c \<noteq> None)"

definition has_window :: "tdb \<Rightarrow> string \<Rightarrow> bool" where
  "has_window d event \<longleftrightarrow> (\<exists>r \<in> set (td_races d). rc_event r = event \<and> dual_basis (tr_basis r)) \<or>
     (\<exists>c \<in> set (td_checkpoints d). cp_event c = event \<and> windowed c)"

definition replay_window_members :: "timing_core \<Rightarrow> string \<Rightarrow> string list \<Rightarrow> tdb \<Rightarrow> tdb res" where
  "replay_window_members tc event ids d =
    bind_res (load_snapshot True d event) (\<lambda>input.
    bind_res (tc_project tc True input (map reading_of (list_logs_for d event ids))) (\<lambda>pj.
      replace_projection event [] ids pj d))"

text \<open>One new reading: with windows the whole history of its member is replayed, otherwise it gives at most one
  result.\<close>

definition replay_window_member :: "timing_core \<Rightarrow> timed_log \<Rightarrow> string \<Rightarrow> tdb \<Rightarrow> tdb res" where
  "replay_window_member tc l race d = bind_res (load_member d (lg_event l) l) (\<lambda>found. case found of
     None \<Rightarrow> Inr d
   | Some m \<Rightarrow> if in_race race (em_race m) then replay_window_members tc (lg_event l) [em_id m] d else Inr d)"

definition process :: "timing_core \<Rightarrow> string \<Rightarrow> timed_log \<Rightarrow> tdb \<Rightarrow> tdb res" where
  "process tc race l d =
    (if tl_time l \<le> 0 \<or> \<not> has_participant_key l then Inr d
     else if has_window d (lg_event l) then replay_window_member tc l race d
     else derive_result tc l race d)"

section \<open>Recounting\<close>

text \<open>The snapshot path: \<open>None\<close> leaves the event to the replay.\<close>

definition snapshot_input :: "tdb \<Rightarrow> string \<Rightarrow> (bool \<times> snapshot) option res" where
  "snapshot_input d event =
    (if has_window d event then bind_res (load_snapshot True d event) (\<lambda>s. Inr (Some (True, s)))
     else case load_snapshot False d event of
            Inl e \<Rightarrow> if e = snapshot_unsupported then Inr None else Inl e
          | Inr s \<Rightarrow> Inr (Some (False, s)))"

definition snapshot_recount :: "timing_core \<Rightarrow> string \<Rightarrow> string \<Rightarrow> bool \<Rightarrow> snapshot \<Rightarrow> tdb \<Rightarrow> tdb res" where
  "snapshot_recount tc event race everything s d =
    bind_res (tc_project tc everything s (stream_readings d event race)) (\<lambda>pj. replace_projection event race [] pj d)"

definition recount :: "timing_core \<Rightarrow> string \<Rightarrow> string \<Rightarrow> tdb \<Rightarrow> tdb res" where
  "recount tc event race d = bind_res (snapshot_input d event) (\<lambda>input. case input of
     None \<Rightarrow> recount_legacy tc event race d
   | Some (everything, s) \<Rightarrow> snapshot_recount tc event race everything s d)"

definition recount_members :: "timing_core \<Rightarrow> string \<Rightarrow> string list \<Rightarrow> tdb \<Rightarrow> tdb res" where
  "recount_members tc event ids d =
    (if has_window d event then replay_window_members tc event ids d else recount_members_legacy tc event ids d)"

end
