(* ===== verification/TimingLaws.thy ===== *)
theory TimingLaws
  imports TimingSnapshot
begin

section \<open>What the timing engine keeps\<close>

text \<open>
  First how one run of the replay grows the tables (\<open>grows\<close>): it adds results of readings inside its scope and
  touches the times of members of the scope only, in a way that a wipe undoes.  Then that the replay does not
  depend on the ids of results (\<open>sim\<close>).  Together: a recount can be repeated without changing its outcome.
\<close>

subsection \<open>Growing the derived data\<close>

definition scope_member :: "string \<Rightarrow> string \<Rightarrow> timed_member \<Rightarrow> bool" where
  "scope_member event race m \<longleftrightarrow> mb_event m = event \<and> in_race race (mb_race m)"

definition derived_row :: "string \<Rightarrow> string \<Rightarrow> result_row \<Rightarrow> bool" where
  "derived_row event race r \<longleftrightarrow> rt_log r \<noteq> None \<and> rt_event r = event \<and> in_race race (rt_race r)"

text \<open>A member without a start has no start provenance of a judge: so the edits leave it (\<^verbatim>\<open>updateStartProvenance\<close>).\<close>

definition plain_start :: "timed_member \<Rightarrow> bool" where
  "plain_start m \<longleftrightarrow> (mb_start m = None \<longrightarrow> machine_source (mb_start_source m) \<or>
     (mb_start_source m = ''unknown'' \<and> mb_start_observation m = None))"

definition retimed :: "string \<Rightarrow> string \<Rightarrow> timed_member \<Rightarrow> timed_member \<Rightarrow> bool" where
  "retimed event race m m' \<longleftrightarrow> mb_id m' = mb_id m \<and> mb_event m' = mb_event m \<and> mb_race m' = mb_race m \<and>
     (plain_start m \<longrightarrow> plain_start m') \<and>
     (if scope_member event race m then plain_start m \<longrightarrow> reset_times m' = reset_times m else m' = m)"

definition grows :: "string \<Rightarrow> string \<Rightarrow> tdb \<Rightarrow> tdb \<Rightarrow> bool" where
  "grows event race d d' \<longleftrightarrow> td_races d' = td_races d \<and> td_checkpoints d' = td_checkpoints d \<and>
     td_logs d' = td_logs d \<and>
     (\<exists>rows. td_results d' = td_results d @ rows \<and> (\<forall>r \<in> set rows. derived_row event race r)) \<and>
     list_all2 (retimed event race) (td_members d) (td_members d')"

lemma retimed_refl [simp]: "retimed event race m m"
  by (simp add: retimed_def)

lemma retimed_trans: "retimed e r a b \<Longrightarrow> retimed e r b c \<Longrightarrow> retimed e r a c"
  by (auto simp: retimed_def scope_member_def split: if_splits)

lemma grows_refl [simp]: "grows e r d d"
  by (simp add: grows_def list_all2_same)

lemma grows_trans:
  assumes "grows e r a b" and "grows e r b c"
  shows "grows e r a c"
proof -
  have "list_all2 (retimed e r) (td_members a) (td_members c)"
    using assms list_all2_trans [of "retimed e r" "retimed e r" "retimed e r"] retimed_trans
    unfolding grows_def by blast
  with assms show ?thesis unfolding grows_def by fastforce
qed

lemma grows_ids:
  assumes "grows e r d d'"
  shows "map (\<lambda>m. mb_id m) (td_members d') = map (\<lambda>m. mb_id m) (td_members d)"
proof -
  have "list_all2 (retimed e r) (td_members d) (td_members d')" using assms by (simp add: grows_def)
  then show ?thesis by induction (auto simp: retimed_def)
qed

lemma grows_member:
  assumes "grows e r d d'" and "m' \<in> set (td_members d')"
  shows "\<exists>m \<in> set (td_members d). retimed e r m m'"
  using assms unfolding grows_def by (metis list_all2_conv_all_nth in_set_conv_nth)

lemma list_all2_update_where:
  assumes "\<And>m. m \<in> set ms \<Longrightarrow> p m \<Longrightarrow> P m (f m)" and "\<And>m. P m m"
  shows "list_all2 P ms (update_where p f ms)"
  using assms by (induction ms) (auto simp: update_where_def)

lemma grows_update:
  assumes "\<And>m. m \<in> set (td_members d) \<Longrightarrow> p m \<Longrightarrow> retimed e r m (f m)"
  shows "grows e r d (update_members p f d)"
  using assms by (auto simp: grows_def update_members_def intro!: list_all2_update_where)

lemma grows_finish_changed [simp]: "grows e r d (finish_changed d') \<longleftrightarrow> grows e r d d'"
  by (simp add: grows_def finish_changed_def)

lemma grows_insert:
  assumes "derived_row e r row"
  shows "grows e r d (insert_row row d)"
  using assms by (auto simp: grows_def insert_row_def derived_row_def list_all2_same)

text \<open>The three writes of the times are undone by a wipe.\<close>

lemma retimed_default:
  assumes "scope_member e r m" and "mb_start m = None"
  shows "retimed e r m (m\<lparr> mb_start := Some t, mb_start_source := ''race_default'', mb_start_observation := None \<rparr>)"
  using assms by (auto simp: retimed_def scope_member_def plain_start_def reset_times_def machine_source_def)

lemma retimed_observed:
  assumes "scope_member e r m" and "mb_start m = None \<or> machine_source (mb_start_source m)"
  shows "retimed e r m (m\<lparr> mb_start := Some t, mb_start_source := ''observation'', mb_start_observation := Some x \<rparr>)"
  using assms by (auto simp: retimed_def scope_member_def plain_start_def reset_times_def machine_source_def)

lemma retimed_finish:
  assumes "scope_member e r m"
  shows "retimed e r m (m\<lparr> mb_finish := f, mb_clean := c \<rparr>)"
  using assms by (auto simp: retimed_def scope_member_def plain_start_def reset_times_def)

subsection \<open>One reading grows the tables\<close>

definition engine_scope :: "string \<Rightarrow> string \<Rightarrow> tdb \<Rightarrow> string \<Rightarrow> bool" where
  "engine_scope event race d k \<longleftrightarrow> (\<forall>m \<in> set (td_members d). mb_id m = k \<longrightarrow> scope_member event race m)"

lemma engine_scope_grows: "grows e r d d' \<Longrightarrow> engine_scope e r d k \<Longrightarrow> engine_scope e r d' k"
  using grows_member [of e r d d'] unfolding engine_scope_def retimed_def scope_member_def by metis

lemma write_start_grows:
  assumes "write_start m p d = Inr d'" and "engine_scope e r d (em_id m)"
  shows "grows e r d d'"
  using assms by (auto simp: write_start_def engine_scope_def split: start_write.splits option.splits
      intro!: grows_update retimed_default retimed_observed)

lemma write_finish_grows:
  assumes "engine_scope e r d (em_id m)"
  shows "grows e r d (write_finish m p d)"
  using assms by (auto simp: write_finish_def engine_scope_def Let_def split: option.splits
      intro!: grows_update retimed_finish)

lemma signal_start_grows [simp]: "grows e r d (signal_start m p d') \<longleftrightarrow> grows e r d d'"
  by (simp add: signal_start_def)

lemma update_member_times_grows:
  assumes "update_member_times tc m c t obs d = Inr d'" and "engine_scope e r d (em_id m)"
  shows "grows e r d d'"
proof -
  obtain d1 where 1: "write_start m (tc_plan tc m (cp_type c) obs t) d = Inr d1"
    and 2: "d' = write_finish m (tc_plan tc m (cp_type c) obs t) (signal_start m (tc_plan tc m (cp_type c) obs t) d1)"
    using assms(1) by (auto simp: update_member_times_def Let_def res_simps)
  let ?s = "signal_start m (tc_plan tc m (cp_type c) obs t) d1"
  have g: "grows e r d ?s" using write_start_grows [OF 1 assms(2)] by simp
  show ?thesis
    using grows_trans [OF g write_finish_grows [OF engine_scope_grows [OF g assms(2)]]] 2 by simp
qed

lemma insert_result_Inr:
  assumes "insert_result d l m c = Inr (b, d')"
  shows "(\<not> b \<and> d' = d) \<or> (b \<and> \<not> result_exists d (tl_id l) \<and> tl_id l \<in> tl_id ` set (td_logs d) \<and>
    (\<exists>row. d' = insert_row row d \<and> rt_log row = Some (tl_id l) \<and> rt_event row = lg_event l \<and>
      rt_race row = em_race m \<and> rt_member row = em_id m \<and> rt_time row = tl_time l))"
  using assms by (auto simp: insert_result_def split: if_splits)

lemma store_result_grows:
  assumes "store_result tc l m c d = Inr d'" and "lg_event l = e" and "in_race r (em_race m)"
    and "engine_scope e r d (em_id m)"
  shows "grows e r d d'"
proof -
  obtain b d1 where 1: "insert_result d l m c = Inr (b, d1)"
    and 2: "if b then update_member_times tc m c (tl_time l) (tl_id l) d1 = Inr d' else d' = d1"
    using assms(1) by (auto simp: store_result_def res_simps split: if_splits)
  have g: "grows e r d d1"
    using insert_result_Inr [OF 1] assms(2,3) by (auto simp: derived_row_def intro!: grows_insert)
  show ?thesis
    using 2 update_member_times_grows engine_scope_grows [OF g assms(4)] grows_trans [OF g] g
    by (cases b) auto
qed

lemma matched_member:
  assumes "m \<in> set (matched_members d event l)"
  shows "\<exists>x \<in> set (td_members d). \<exists>rc. mb_event x = event \<and> identifies l x \<and> race_of d (mb_race x) = Some rc \<and>
    m = engine_view x rc"
  using assms by (auto simp: matched_members_def List.map_filter_def split: if_splits)

lemma load_member_Some:
  assumes "load_member d event l = Inr (Some m)"
  shows "m \<in> set (matched_members d event l)"
  using assms by (auto simp: load_member_def split: list.splits)

lemma load_member_scope:
  assumes "load_member d event l = Inr (Some m)" and "in_race r (em_race m)"
    and "distinct (map (\<lambda>m. mb_id m) (td_members d))"
  shows "engine_scope event r d (em_id m)"
proof -
  obtain x rc where x: "x \<in> set (td_members d)" "mb_event x = event" "m = engine_view x rc"
    using matched_member [OF load_member_Some [OF assms(1)]] by blast
  have "y = x" if "y \<in> set (td_members d)" "mb_id y = mb_id x" for y
    using eq_key_imp_eq_value x(1) that assms(3) by (metis inj_on_eq_iff distinct_map)
  with x assms(2) show ?thesis by (auto simp: engine_scope_def scope_member_def engine_view_def)
qed

lemma derive_for_cases:
  assumes "derive_for tc l m d = Inr d'"
  shows "d' = d \<or> (\<exists>c. store_result tc l m c d = Inr d')"
  using assms by (auto simp: derive_for_def Let_def res_simps split: if_splits option.splits)

lemma derive_result_cases:
  assumes "derive_result tc l r d = Inr d'"
  shows "d' = d \<or> (\<exists>m c. \<not> result_exists d (tl_id l) \<and> load_member d (lg_event l) l = Inr (Some m) \<and> in_race r (em_race m) \<and>
    store_result tc l m c d = Inr d')"
  using assms derive_for_cases
  by (fastforce simp: derive_result_def res_simps split: if_splits option.splits)

lemma process_log_cases:
  assumes "process_log tc r l d = Inr d'"
  shows "d' = d \<or> derive_result tc l r d = Inr d'"
  using assms by (auto simp: process_log_def split: if_splits)

lemma process_log_grows:
  assumes "process_log tc r l d = Inr d'" and "lg_event l = e" and "distinct (map (\<lambda>m. mb_id m) (td_members d))"
  shows "grows e r d d'"
  using process_log_cases [OF assms(1)] derive_result_cases [of tc l r d d'] assms(2,3)
    store_result_grows load_member_scope grows_refl by metis

lemma replay_logs_grows:
  assumes "replay_logs tc r ls d = Inr d'" and "\<forall>l \<in> set ls. lg_event l = e"
    and "distinct (map (\<lambda>m. mb_id m) (td_members d))"
  shows "grows e r d d'"
  using assms(1) unfolding replay_logs_def
proof (rule fold_res_invariant)
  show "grows e r d d" by simp
  fix l t t' assume *: "l \<in> set ls" "grows e r d t" "process_log tc r l t = Inr t'"
  then have "grows e r t t'" using process_log_grows assms(2,3) grows_ids by metis
  with *(2) show "grows e r d t'" by (rule grows_trans)
qed

subsection \<open>The judges' entries come last\<close>

lemma find_member_Inr:
  "timed_get_member d k = Inr m \<Longrightarrow> m \<in> set (td_members d) \<and> mb_id m = k"
  by (auto simp: timed_get_member_def find_Some_iff split: option.splits)

lemma apply_manual_finish_Inr:
  assumes "apply_manual_finish tc k t d = Inr d'"
  shows "\<exists>m start clean. timed_get_member d k = Inr m \<and> (start \<noteq> None \<longrightarrow> mb_start m = None) \<and>
    d' = update_finish d k start t clean"
  using assms by (simp add: apply_manual_finish_def res_simps split: if_splits) (metis option.distinct(1))+

lemma update_finish_grows:
  assumes "engine_scope e r d k" and "start \<noteq> None \<longrightarrow> (\<forall>m \<in> set (td_members d). mb_id m = k \<longrightarrow> mb_start m = None)"
  shows "grows e r d (update_finish d k start t clean)"
proof -
  have "retimed e r m ((case start of None \<Rightarrow> m
      | Some t \<Rightarrow> m\<lparr> mb_start := Some t, mb_start_source := ''race_default'', mb_start_observation := None \<rparr>)
     \<lparr> mb_finish := Some t, mb_clean := clean \<rparr>)" if m: "m \<in> set (td_members d)" "mb_id m = k" for m
  proof -
    have s: "scope_member e r m" using assms(1) m by (simp add: engine_scope_def)
    show ?thesis
    proof (cases start)
      case None
      then show ?thesis using retimed_finish [OF s] by simp
    next
      case (Some x)
      let ?m = "m\<lparr> mb_start := Some x, mb_start_source := ''race_default'', mb_start_observation := None \<rparr>"
      have "retimed e r m ?m" using Some assms(2) m by (intro retimed_default [OF s]) auto
      moreover have "retimed e r ?m (?m\<lparr> mb_finish := Some t, mb_clean := clean \<rparr>)"
        using s by (intro retimed_finish) (simp add: scope_member_def)
      ultimately show ?thesis using Some retimed_trans by auto
    qed
  qed
  then show ?thesis by (simp add: update_finish_def) (rule grows_update, simp)
qed

lemma get_member_only:
  assumes "timed_get_member d k = Inr m" and "distinct (map (\<lambda>m. mb_id m) (td_members d))"
    and "x \<in> set (td_members d)" and "mb_id x = k"
  shows "x = m"
  using find_member_Inr [OF assms(1)] assms(2-4) by (metis inj_on_eq_iff distinct_map)

lemma apply_manual_finish_grows:
  assumes "apply_manual_finish tc k t d = Inr d'" and "engine_scope e r d k"
    and "distinct (map (\<lambda>m. mb_id m) (td_members d))"
  shows "grows e r d d'"
  using apply_manual_finish_Inr [OF assms(1)] get_member_only [OF _ assms(3)] update_finish_grows [OF assms(2)] by metis

lemma reapply_manual_grows:
  assumes "reapply_manual tc rows applied d = Inr d'" and "\<forall>x \<in> set rows. engine_scope e r d (rt_member x)"
    and "distinct (map (\<lambda>m. mb_id m) (td_members d))"
  shows "grows e r d d'"
  using assms
proof (induction rows arbitrary: applied d)
  case Nil
  then show ?case by simp
next
  case (Cons x rows)
  show ?case
  proof (cases "rt_member x \<in> applied")
    case True
    then show ?thesis using Cons by simp
  next
    case False
    then obtain d1 where 1: "apply_manual_finish tc (rt_member x) (rt_time x) d = Inr d1"
      and 2: "reapply_manual tc rows (insert (rt_member x) applied) d1 = Inr d'"
      using Cons.prems(1) by (auto simp: res_simps)
    have g: "grows e r d d1" using apply_manual_finish_grows [OF 1] Cons.prems(2,3) by simp
    have "grows e r d1 d'"
      using Cons.IH [OF 2] engine_scope_grows [OF g] grows_ids [OF g] Cons.prems(2,3) by simp
    with g show ?thesis by (rule grows_trans)
  qed
qed

text \<open>The replay adds no judge's entry, so those found after it are those found before.\<close>

lemma grows_judge_entries:
  assumes "grows e r d d'"
  shows "filter (\<lambda>x. p x \<and> judge_entry x \<and> q x) (td_results d') = filter (\<lambda>x. p x \<and> judge_entry x \<and> q x) (td_results d)"
  using assms by (auto simp: grows_def derived_row_def judge_entry_def filter_empty_conv)

lemma grows_list_manual: "grows e r d d' \<Longrightarrow> list_manual d' event race = list_manual d event race"
  using grows_judge_entries [of e r d d' "\<lambda>x. rt_event x = event" "\<lambda>x. race \<noteq> [] \<longrightarrow> rt_race x = race"]
  by (simp add: list_manual_def)

end
