(* ===== verification/RecountLaws.thy ===== *)
theory RecountLaws
  imports TimingLaws
begin

section \<open>Recounting again changes nothing\<close>

text \<open>
  Two states that differ only in the ids of the results, the id counter, the journal of edits and the signal
  are replayed alike (\<open>sim\<close>), and a wipe after a recount gives what the wipe before it gave.
\<close>

definition strip_id :: "result_row \<Rightarrow> result_row" where
  "strip_id r = r\<lparr> rt_id := 0 \<rparr>"

definition sim :: "tdb \<Rightarrow> tdb \<Rightarrow> bool" where
  "sim d d' \<longleftrightarrow> td_races d' = td_races d \<and> td_members d' = td_members d \<and>
     td_checkpoints d' = td_checkpoints d \<and> td_logs d' = td_logs d \<and>
     map strip_id (td_results d') = map strip_id (td_results d)"

definition both :: "('a \<Rightarrow> 'a \<Rightarrow> bool) \<Rightarrow> 'a res \<Rightarrow> 'a res \<Rightarrow> bool" where
  "both R a b = (case (a, b) of (Inl e, Inl e') \<Rightarrow> e = e' | (Inr x, Inr y) \<Rightarrow> R x y | _ \<Rightarrow> False)"

lemma both_simps [simp]:
  "both R (Inl e) b \<longleftrightarrow> b = Inl e"
  "both R (Inr x) b \<longleftrightarrow> (\<exists>y. b = Inr y \<and> R x y)"
  by (auto simp: both_def split: sum.splits)

lemma both_bind:
  "both R a b \<Longrightarrow> (\<And>x y. R x y \<Longrightarrow> both S (f x) (g y)) \<Longrightarrow> both S (bind_res a f) (bind_res b g)"
  by (cases a) auto

lemma sim_refl [simp]: "sim d d"
  by (simp add: sim_def)

lemma strip_id_fields [simp]:
  "rt_event (strip_id r) = rt_event r" "rt_race (strip_id r) = rt_race r" "rt_member (strip_id r) = rt_member r"
  "rt_checkpoint (strip_id r) = rt_checkpoint r" "rt_log (strip_id r) = rt_log r" "rt_time (strip_id r) = rt_time r"
  "rt_number (strip_id r) = rt_number r"
  by (simp_all add: strip_id_def)

text \<open>What is computed from the rows without their ids is the same on both sides.\<close>

lemma strip_filter:
  assumes "\<And>r. p (strip_id r) = p r"
  shows "map strip_id (filter p rows) = filter p (map strip_id rows)"
  using assms by (induction rows) auto

lemma strip_insort:
  "map strip_id (insort_key rt_time r rows) = insort_key rt_time (strip_id r) (map strip_id rows)"
  by (induction rows) auto

lemma strip_sort: "map strip_id (sort_key rt_time rows) = sort_key rt_time (map strip_id rows)"
proof (induction rows)
  case Nil
  then show ?case by simp
next
  case (Cons r rows)
  then show ?case by (simp add: strip_insort)
qed

lemma map_filter_map_same:
  assumes "\<And>x. f (g x) = f x"
  shows "List.map_filter f (map g xs) = List.map_filter f xs"
proof (induction xs)
  case Nil
  then show ?case by (simp add: map_filter_simps)
next
  case (Cons x xs)
  show ?case unfolding list.map map_filter_simps assms Cons.IH ..
qed

lemma sim_exists:
  assumes "sim d d'"
  shows "result_exists d' k = result_exists d k"
proof -
  have *: "result_exists x k \<longleftrightarrow> Some k \<in> set (map rt_log (map strip_id (td_results x)))" for x :: tdb
    by (simp add: result_exists_def comp_def image_iff) metis
  have "map strip_id (td_results d') = map strip_id (td_results d)" using assms by (simp add: sim_def)
  then show ?thesis by (simp only: *)
qed

lemma sim_passes:
  assumes "sim d d'"
  shows "map strip_id (member_passes d' race k) = map strip_id (member_passes d race k)"
  using assms by (simp add: member_passes_def strip_filter sim_def)

lemma sim_passed:
  assumes "sim d d'"
  shows "load_passed d' race k = load_passed d race k"
  using sim_passes [OF assms, of race k] map_filter_map_same [of rt_checkpoint strip_id]
  unfolding load_passed_def by (metis strip_id_fields(4))

lemma sim_last:
  assumes "sim d d'"
  shows "load_last_result d' race k = load_last_result d race k"
proof -
  define f :: "result_row \<Rightarrow> (int \<times> int) option" where "f = (\<lambda>r. case rt_checkpoint r of None \<Rightarrow> None | Some c \<Rightarrow>
     map_option (\<lambda>cp. (rt_time r, cp_sort cp)) (List.find (\<lambda>cp. cp_id cp = c) (td_checkpoints d)))"
  have f: "f (strip_id r) = f r" for r by (simp add: f_def split: option.split)
  have 1: "timed_sorts d rows = List.map_filter f (map strip_id rows)" for rows
  proof -
    have "timed_sorts d rows = List.map_filter f rows" by (simp add: timed_sorts_def f_def)
    also have "\<dots> = List.map_filter f (map strip_id rows)" by (rule map_filter_map_same [of f strip_id, OF f, symmetric])
    finally show ?thesis .
  qed
  have "td_checkpoints d' = td_checkpoints d" using assms by (simp add: sim_def)
  then have "timed_sorts d' = timed_sorts d" unfolding timed_sorts_def by metis
  then show ?thesis unfolding load_last_result_def 1 sim_passes [OF assms] by (simp add: 1 sim_passes [OF assms])
qed

lemma sim_reads:
  assumes "sim d d'"
  shows "log_disabled d' k = log_disabled d k" "load_member d' event l = load_member d event l"
    "load_checkpoints d' race board = load_checkpoints d race board"
    "timed_get_member d' k = timed_get_member d k" "timed_get_race d' k = timed_get_race d k"
    "list_logs d' event = list_logs d event" "member_start_ref d' m = member_start_ref d m"
proof -
  have race: "race_of d' = race_of d" using assms by (simp add: sim_def race_of_def fun_eq_iff)
  then have get: "timed_get_race d' = timed_get_race d" by (simp add: timed_get_race_def fun_eq_iff)
  show "load_member d' event l = load_member d event l"
    using assms unfolding load_member_def matched_members_def race by (simp add: sim_def)
  show "timed_get_race d' k = timed_get_race d k" "member_start_ref d' m = member_start_ref d m"
    unfolding member_start_ref_def get by simp_all
qed (use assms in \<open>simp_all add: sim_def log_disabled_def load_checkpoints_def timed_get_member_def list_logs_def\<close>)

text \<open>And every write keeps the two sides alike.\<close>

lemma sim_insert: "sim d d' \<Longrightarrow> sim (insert_row r d) (insert_row r d')"
  by (simp add: sim_def insert_row_def strip_id_def)

lemma sim_update: "sim d d' \<Longrightarrow> sim (update_members p f d) (update_members p f d')"
  by (simp add: sim_def update_members_def)

lemma sim_signal: "sim d d' \<Longrightarrow> sim (finish_changed d) (finish_changed d')"
  by (simp add: sim_def finish_changed_def)

lemmas sim_writes = sim_insert sim_update sim_signal

lemma sim_insert_result: "sim d d' \<Longrightarrow> both (\<lambda>(b, x) (b', x'). b = b' \<and> sim x x') (insert_result d l m c) (insert_result d' l m c)"
  using sim_exists [of d d' "tl_id l"] sim_insert [of d d'] by (simp add: insert_result_def) (simp add: sim_def)

lemma sim_write_start: "sim d d' \<Longrightarrow> both sim (write_start m p d) (write_start m p d')"
  by (auto simp: write_start_def split: start_write.splits option.splits intro: sim_update)

lemma sim_write_finish:
  assumes "sim d d'"
  shows "sim (write_finish m p d) (write_finish m p d')"
proof -
  have "td_members d' = td_members d" using assms by (simp add: sim_def)
  then show ?thesis
    using sim_update [OF assms] by (cases "pl_finish p") (simp_all add: write_finish_def Let_def assms sim_signal del: count_where_0)
qed

lemma sim_signal_start: "sim d d' \<Longrightarrow> sim (signal_start m p d) (signal_start m p d')"
  by (simp add: signal_start_def sim_signal)

lemma sim_update_member_times:
  assumes "sim d d'"
  shows "both sim (update_member_times tc m c t obs d) (update_member_times tc m c t obs d')"
  unfolding update_member_times_def Let_def
  by (rule both_bind [OF sim_write_start [OF assms]]) (auto intro: sim_write_finish sim_signal_start)

lemma sim_store_result:
  assumes "sim d d'"
  shows "both sim (store_result tc l m c d) (store_result tc l m c d')"
  unfolding store_result_def
  by (rule both_bind [OF sim_insert_result [OF assms]]) (auto intro: sim_update_member_times)

lemma both_same: "(\<And>x. both S (f x) (g x)) \<Longrightarrow> both S (bind_res a f) (bind_res a g)"
  by (cases a) auto

lemma sim_derive_for:
  assumes "sim d d'"
  shows "both sim (derive_for tc l m d) (derive_for tc l m d')"
  unfolding derive_for_def Let_def sim_reads [OF assms] sim_last [OF assms] sim_passed [OF assms]
  using assms by (auto intro!: both_same sim_store_result split: option.splits)

lemma sim_derive_result:
  assumes "sim d d'"
  shows "both sim (derive_result tc l r d) (derive_result tc l r d')"
  unfolding derive_result_def sim_reads [OF assms] sim_exists [OF assms]
  using assms by (auto intro!: both_same sim_derive_for split: option.splits)

lemma sim_process_log: "sim d d' \<Longrightarrow> both sim (process_log tc r l d) (process_log tc r l d')"
  by (auto simp: process_log_def intro: sim_derive_result)

lemma sim_replay_logs: "sim d d' \<Longrightarrow> both sim (replay_logs tc r ls d) (replay_logs tc r ls d')"
  unfolding replay_logs_def
  by (induction ls arbitrary: d d') (auto intro!: both_bind sim_process_log)

lemma sim_apply_manual:
  assumes "sim d d'"
  shows "both sim (apply_manual_finish tc k t d) (apply_manual_finish tc k t d')"
  unfolding apply_manual_finish_def sim_reads [OF assms] update_finish_def
  using assms by (auto intro!: both_same sim_writes)

lemma sim_reapply_manual:
  assumes "sim d d'" and "map strip_id rows' = map strip_id rows"
  shows "both sim (reapply_manual tc rows applied d) (reapply_manual tc rows' applied d')"
  using assms
proof (induction rows arbitrary: rows' applied d d')
  case Nil
  then show ?case by simp
next
  case (Cons r rows)
  then obtain r' rs where rows': "rows' = r' # rs" "strip_id r' = strip_id r" "map strip_id rs = map strip_id rows"
    by (cases rows') auto
  have same: "rt_member r' = rt_member r" "rt_time r' = rt_time r"
    using rows'(2) by (metis strip_id_fields(3)) (metis rows'(2) strip_id_fields(6))
  show ?case
    using Cons.IH [OF Cons.prems(1) rows'(3)] Cons.IH [OF _ rows'(3)] sim_apply_manual [OF Cons.prems(1)]
    by (auto simp: rows'(1) same intro!: both_bind [where R = sim])
qed

lemma sim_list_manual:
  assumes "sim d d'"
  shows "map strip_id (list_manual d' event race) = map strip_id (list_manual d event race)"
  using assms by (simp add: list_manual_def strip_sort strip_filter judge_entry_def sim_def)

subsection \<open>A wipe undoes a recount\<close>

definition replay_all :: "timing_core \<Rightarrow> string \<Rightarrow> string \<Rightarrow> tdb \<Rightarrow> tdb res" where
  "replay_all tc event race d0 = bind_res (replay_logs tc race (list_logs d0 event) d0) (\<lambda>d1.
     reapply_manual tc (list_manual d1 event race) {} d1)"

lemma recount_legacy_replays: "recount_legacy tc event race d = replay_all tc event race (wipe_results d event race)"
  by (simp add: recount_legacy_def replay_all_def Let_def)

lemma sim_replay_all: "sim d d' \<Longrightarrow> both sim (replay_all tc event race d) (replay_all tc event race d')"
  unfolding replay_all_def sim_reads
  by (auto intro!: both_bind [OF sim_replay_logs] sim_reapply_manual sim_list_manual)

text \<open>
  What the theorem asks of the tables: ids of members are unique, members without a start have no start
  provenance of a judge, and the judges' entries of the scope belong to members of the scope.
\<close>

definition recountable :: "string \<Rightarrow> string \<Rightarrow> tdb \<Rightarrow> bool" where
  "recountable event race d \<longleftrightarrow> distinct (map (\<lambda>m. mb_id m) (td_members d)) \<and> list_all plain_start (td_members d) \<and>
     (\<forall>x \<in> set (list_manual d event race). engine_scope event race d (rt_member x))"

lemma wipe_results_members:
  "td_members (wipe_results d e r) = update_where (scope_member e r) reset_times (td_members d)"
  by (auto simp: wipe_results_def wipe_def finish_changed_def update_members_def scope_member_def update_where_def)

lemma wipe_results_rows:
  "td_results (wipe_results d e r) = filter (\<lambda>x. \<not> derived_row e r x) (td_results d)"
  by (auto simp: wipe_results_def wipe_def finish_changed_def update_members_def derived_row_def intro!: filter_cong)

lemma wipe_results_rest [simp]:
  "td_races (wipe_results d e r) = td_races d" "td_checkpoints (wipe_results d e r) = td_checkpoints d"
  "td_logs (wipe_results d e r) = td_logs d" "td_dirty (wipe_results d e r)"
  by (simp_all add: wipe_results_def wipe_def finish_changed_def update_members_def)

lemma reset_times_fields [simp]:
  "mb_id (reset_times m) = mb_id m" "mb_event (reset_times m) = mb_event m" "mb_race (reset_times m) = mb_race m"
  by (simp_all add: reset_times_def)

lemma reset_times_twice [simp]: "reset_times (reset_times m) = reset_times m"
  by (simp add: reset_times_def machine_source_def)

lemma plain_reset: "plain_start m \<Longrightarrow> plain_start (reset_times m)"
  by (auto simp: plain_start_def reset_times_def)

lemma wipe_ids: "map (\<lambda>m. mb_id m) (td_members (wipe_results d e r)) = map (\<lambda>m. mb_id m) (td_members d)"
  by (simp add: wipe_results_members map_update_where)

lemma wipe_list_manual: "list_manual (wipe_results d e r) event race = list_manual d event race"
  by (auto simp: list_manual_def wipe_results_rows derived_row_def judge_entry_def
      intro!: arg_cong [where f = "sort_key rt_time"] filter_cong)

lemma wipe_scope: "engine_scope e r (wipe_results d e r) k = engine_scope e r d k"
proof -
  have "(\<forall>m \<in> set (update_where p reset_times ms). mb_id m = k \<longrightarrow> scope_member e r m) \<longleftrightarrow>
      (\<forall>m \<in> set ms. mb_id m = k \<longrightarrow> scope_member e r m)" for p ms
    by (induction ms) (simp_all add: update_where_def scope_member_def)
  then show ?thesis by (simp add: engine_scope_def wipe_results_members)
qed

lemma wipe_recountable:
  assumes "recountable e r d"
  shows "recountable e r (wipe_results d e r)"
proof -
  have "list_all plain_start (update_where p reset_times ms)" if "list_all plain_start ms" for p ms
    using that by (induction ms) (simp_all add: update_where_def plain_reset)
  then show ?thesis
    using assms by (simp add: recountable_def wipe_ids wipe_list_manual wipe_scope) (simp add: wipe_results_members)
qed

lemma replay_all_grows:
  assumes "replay_all tc e r d0 = Inr d'" and "recountable e r d0"
  shows "grows e r d0 d'"
proof -
  obtain d1 where 1: "replay_logs tc r (list_logs d0 e) d0 = Inr d1"
    and 2: "reapply_manual tc (list_manual d1 e r) {} d1 = Inr d'"
    using assms(1) by (auto simp: replay_all_def res_simps)
  have g: "grows e r d0 d1"
    by (rule replay_logs_grows [OF 1]) (use assms(2) in \<open>auto simp: list_logs_def recountable_def\<close>)
  have "grows e r d1 d'"
    using assms(2) engine_scope_grows [OF g]
    by (intro reapply_manual_grows [OF 2]) (auto simp: recountable_def grows_list_manual [OF g] grows_ids [OF g])
  with g show ?thesis by (rule grows_trans)
qed

lemma grows_wiped_members:
  assumes "list_all2 (retimed e r) ms ms'" and "list_all plain_start ms"
  shows "update_where (scope_member e r) reset_times ms' = update_where (scope_member e r) reset_times ms"
  using assms
proof induction
  case Nil
  then show ?case by simp
next
  case (Cons m ms m' ms')
  then show ?case by (auto simp: update_where_def retimed_def scope_member_def split: if_splits)
qed

lemma update_where_twice:
  assumes "\<And>m. f (f m) = f m" and "\<And>m. p (f m) = p m"
  shows "update_where p f (update_where p f ms) = update_where p f ms"
  using assms by (simp add: update_where_def)

lemma wipe_after_recount:
  assumes "grows e r (wipe_results d e r) d'" and "recountable e r d"
  shows "sim (wipe_results d e r) (wipe_results d' e r)"
proof -
  have "update_where (scope_member e r) reset_times (td_members d') = td_members (wipe_results d e r)"
    using assms(1) wipe_recountable [OF assms(2)] grows_wiped_members [of e r "td_members (wipe_results d e r)"]
    by (simp add: grows_def recountable_def) (simp add: wipe_results_members update_where_twice scope_member_def)
  moreover have "filter (\<lambda>x. \<not> derived_row e r x) (td_results d') = td_results (wipe_results d e r)"
    using assms(1) by (auto simp: grows_def wipe_results_rows filter_empty_conv)
  ultimately show ?thesis
    using assms(1) by (simp add: sim_def grows_def wipe_results_members wipe_results_rows)
qed

text \<open>Replaying an event, or one race of it, twice gives the same races, members, readings and results as
  replaying it once, whatever rules the timing core applies; only the ids of the rewritten results change.\<close>

theorem recount_legacy_again:
  assumes "recount_legacy tc event race d = Inr d'" and "recountable event race d"
  shows "\<exists>d''. recount_legacy tc event race d' = Inr d'' \<and> sim d' d''"
proof -
  have g: "grows event race (wipe_results d event race) d'"
    using assms by (intro replay_all_grows wipe_recountable) (simp_all add: recount_legacy_replays)
  have "both sim (replay_all tc event race (wipe_results d event race))
      (replay_all tc event race (wipe_results d' event race))"
    by (intro sim_replay_all wipe_after_recount g assms(2))
  with assms(1) show ?thesis by (simp add: recount_legacy_replays)
qed

subsection \<open>The judge has the last word\<close>

lemma update_finish_member:
  assumes "m \<in> set (td_members (update_finish d k start t clean))"
  shows "if mb_id m = k then mb_finish m = Some t else m \<in> set (td_members d)"
proof -
  obtain x where x: "x \<in> set (td_members d)" and m: "m = (if mb_id x = k then (case start of None \<Rightarrow> x
        | Some t \<Rightarrow> x\<lparr> mb_start := Some t, mb_start_source := ''race_default'', mb_start_observation := None \<rparr>)
      \<lparr> mb_finish := Some t, mb_clean := clean \<rparr> else x)"
    using assms by (auto simp: update_finish_def finish_changed_def update_members_def in_set_update_where)
  show ?thesis using x by (cases "mb_id x = k") (simp_all add: m split: option.split)
qed

lemma reapply_manual_other:
  assumes "reapply_manual tc rows applied d = Inr d'" and "k \<in> applied"
    and "m \<in> set (td_members d')" and "mb_id m = k"
  shows "m \<in> set (td_members d)"
  using assms
proof (induction rows arbitrary: applied d)
  case Nil
  then show ?case by simp
next
  case (Cons x rows)
  show ?case
  proof (cases "rt_member x \<in> applied")
    case True
    then show ?thesis using Cons by simp
  next
    case False
    then obtain d1 where 1: "apply_manual_finish tc (rt_member x) (rt_time x) d = Inr d1"
      and 2: "reapply_manual tc rows (insert (rt_member x) applied) d1 = Inr d'"
      using Cons.prems(1) by (auto simp: res_simps)
    have "m \<in> set (td_members d1)" using Cons.IH [OF 2] Cons.prems(2-4) by simp
    moreover have "mb_id m \<noteq> rt_member x" using False Cons.prems(2,4) by metis
    ultimately show ?thesis using apply_manual_finish_Inr [OF 1] update_finish_member by (metis (full_types))
  qed
qed

lemma reapply_manual_first:
  assumes "reapply_manual tc rows applied d = Inr d'" and "k \<notin> applied"
    and "filter (\<lambda>x. rt_member x = k) rows = r # rest" and "m \<in> set (td_members d')" and "mb_id m = k"
  shows "mb_finish m = Some (rt_time r)"
  using assms
proof (induction rows arbitrary: applied d)
  case Nil
  then show ?case by simp
next
  case (Cons x rows)
  show ?case
  proof (cases "rt_member x \<in> applied")
    case True
    then show ?thesis using Cons by (auto split: if_splits)
  next
    case False
    then obtain d1 where 1: "apply_manual_finish tc (rt_member x) (rt_time x) d = Inr d1"
      and 2: "reapply_manual tc rows (insert (rt_member x) applied) d1 = Inr d'"
      using Cons.prems(1) by (auto simp: res_simps)
    show ?thesis
    proof (cases "rt_member x = k")
      case True
      then have "m \<in> set (td_members d1)"
        using reapply_manual_other [OF 2, of k m] Cons.prems(4,5) by simp
      then show ?thesis
        using apply_manual_finish_Inr [OF 1] update_finish_member True Cons.prems(3,5) by fastforce
    next
      case other: False
      then show ?thesis using Cons.IH [OF 2] Cons.prems(2-5) by simp
    qed
  qed
qed

text \<open>After a recount every participant with judges' entries finishes at the time of the earliest of them,
  whatever the readers saw.\<close>

theorem recount_legacy_judge_wins:
  assumes "recount_legacy tc event race d = Inr d'" and "recountable event race d"
    and "filter (\<lambda>x. rt_member x = k) (list_manual d event race) = r # rest"
    and "m \<in> set (td_members d')" and "mb_id m = k"
  shows "mb_finish m = Some (rt_time r)"
proof -
  let ?d0 = "wipe_results d event race"
  obtain d1 where 1: "replay_logs tc race (list_logs ?d0 event) ?d0 = Inr d1"
    and 2: "reapply_manual tc (list_manual d1 event race) {} d1 = Inr d'"
    using assms(1) by (auto simp: recount_legacy_replays replay_all_def res_simps)
  have "grows event race ?d0 d1"
    by (rule replay_logs_grows [OF 1])
      (use wipe_recountable [OF assms(2)] in \<open>auto simp: list_logs_def recountable_def\<close>)
  then have "list_manual d1 event race = list_manual d event race"
    by (simp add: grows_list_manual wipe_list_manual)
  then show ?thesis using reapply_manual_first [OF 2 _ _ assms(4,5)] assms(3) by simp
qed

end
