(* ===== verification/TimingMachine.thy ===== *)
theory TimingMachine
  imports RecountLaws Machines
begin

section \<open>The timing tables as a state machine\<close>

text \<open>
  Readings arrive, are processed one by one or recounted, and judges enter and delete finishes, in any order.
  Two promises hold throughout: a reading has at most one result, and every change of a finish that a screen
  shows is signalled.
\<close>

inductive timing_step :: "timing_core \<Rightarrow> tdb \<Rightarrow> tdb \<Rightarrow> bool" for tc where
  capture: "d' = d\<lparr> td_logs := td_logs d @ ls \<rparr> \<Longrightarrow> timing_step tc d d'"
| reading: "process tc race l d = Inr d' \<Longrightarrow> timing_step tc d d'"
| recount: "recount tc event race d = Inr d' \<Longrightarrow> timing_step tc d d'"
| members: "recount_members tc event ids d = Inr d' \<Longrightarrow> timing_step tc d d'"
| finish: "manual_finish tc now event k time d = Inr (x, d') \<Longrightarrow> timing_step tc d d'"
| clean: "manual_finish_clean tc now event k time d = Inr (x, d') \<Longrightarrow> timing_step tc d d'"
| delete: "delete_manual_result now event j d = Inr d' \<Longrightarrow> timing_step tc d d'"

definition member_ids :: "tdb \<Rightarrow> string list" where
  "member_ids d = map (\<lambda>m. mb_id m) (td_members d)"

definition result_logs :: "tdb \<Rightarrow> string list" where
  "result_logs d = List.map_filter rt_log (td_results d)"

definition timing_inv :: "tdb \<Rightarrow> bool" where
  "timing_inv d \<longleftrightarrow> distinct (member_ids d) \<and> distinct (result_logs d) \<and>
     set (result_logs d) \<subseteq> tl_id ` set (td_logs d) \<and>
     distinct (map rt_id (td_results d)) \<and> (\<forall>r \<in> set (td_results d). rt_id r < td_next d)"

text \<open>What the finish screens show of a member.\<close>

definition shown_finish :: "timed_member \<Rightarrow> string \<times> int option \<times> string option \<times> int option" where
  "shown_finish m = (mb_id m, mb_finish m, mb_clean m, if mb_finish m = None then None else mb_start m)"

definition signalled :: "tdb \<Rightarrow> tdb \<Rightarrow> bool" where
  "signalled d d' \<longleftrightarrow> td_dirty d' \<or>
     (\<not> td_dirty d \<and> map shown_finish (td_members d') = map shown_finish (td_members d))"

definition advances :: "tdb \<Rightarrow> tdb \<Rightarrow> bool" where
  "advances d d' \<longleftrightarrow> (timing_inv d \<longrightarrow> timing_inv d') \<and> member_ids d' = member_ids d \<and> signalled d d'"

lemma signalled_refl [simp]: "signalled d d"
  by (simp add: signalled_def)

lemma advances_refl [simp]: "advances d d"
  by (simp add: advances_def)

lemma signalled_trans: "signalled a b \<Longrightarrow> signalled b c \<Longrightarrow> signalled a c"
  by (auto simp: signalled_def)

lemma advances_trans: "advances a b \<Longrightarrow> advances b c \<Longrightarrow> advances a c"
  using signalled_trans by (auto simp: advances_def)

subsection \<open>The writes\<close>

lemma result_logs_insert:
  "result_logs (insert_row r d) = result_logs d @ (case rt_log r of None \<Rightarrow> [] | Some k \<Rightarrow> [k])"
proof -
  have "rt_log (r\<lparr> rt_id := j \<rparr>) = rt_log r" for j :: int by simp
  then show ?thesis
    unfolding result_logs_def insert_row_def List.map_filter_def by (cases "rt_log r") simp_all
qed

lemma advances_insert:
  assumes "\<And>k. rt_log r = Some k \<Longrightarrow> \<not> result_exists d k \<and> k \<in> tl_id ` set (td_logs d)"
  shows "advances d (insert_row r d)"
proof -
  have exists: "result_exists d k \<longleftrightarrow> k \<in> set (result_logs d)" for k
    by (force simp: result_exists_def result_logs_def List.map_filter_def)
  have "timing_inv (insert_row r d)" if i: "timing_inv d"
  proof -
    have "distinct (result_logs (insert_row r d))" "set (result_logs (insert_row r d)) \<subseteq> tl_id ` set (td_logs d)"
      using i assms by (auto simp: timing_inv_def result_logs_insert exists split: option.splits)
    moreover have "distinct (map rt_id (td_results (insert_row r d)))"
        "\<forall>x \<in> set (td_results (insert_row r d)). rt_id x < td_next (insert_row r d)"
      using i by (fastforce simp: timing_inv_def insert_row_def)+
    ultimately show ?thesis using i by (simp add: timing_inv_def member_ids_def insert_row_def)
  qed
  then show ?thesis by (simp add: advances_def member_ids_def signalled_def insert_row_def)
qed

lemma timing_inv_cong:
  assumes "timing_inv d" and "member_ids d' = member_ids d" and "td_results d' = td_results d"
    and "td_logs d' = td_logs d" and "td_next d' = td_next d"
  shows "timing_inv d'"
  using assms by (simp add: timing_inv_def result_logs_def)

lemma advances_members:
  assumes "\<And>m. p m \<Longrightarrow> mb_id (f m) = mb_id m"
    and "td_dirty d' \<or> (\<forall>m \<in> set (td_members d). p m \<longrightarrow> shown_finish (f m) = shown_finish m)"
    and "d' = update_members p f d \<or> d' = finish_changed (update_members p f d)"
  shows "advances d d'"
proof -
  have ids: "member_ids d' = member_ids d"
    using assms(1,3) by (auto simp: member_ids_def update_members_def finish_changed_def map_update_where)
  have "map shown_finish (update_where p f ms) = map shown_finish ms"
    if "\<forall>m \<in> set ms. p m \<longrightarrow> shown_finish (f m) = shown_finish m" for ms
    using that by (induction ms) (auto simp: update_where_def)
  then have "signalled d d'"
    using assms(2,3) by (auto simp: signalled_def update_members_def finish_changed_def)
  moreover have "timing_inv d'" if "timing_inv d"
    using timing_inv_cong [OF that ids] assms(3) by (auto simp: update_members_def finish_changed_def)
  ultimately show ?thesis using ids by (simp add: advances_def)
qed

lemma advances_finish_changed: "advances d (finish_changed d)"
  using timing_inv_cong [of d "finish_changed d"] by (simp add: advances_def signalled_def finish_changed_def member_ids_def)

lemma result_logs_filter:
  "distinct (result_logs d) \<Longrightarrow> distinct (result_logs (d\<lparr> td_results := filter p (td_results d) \<rparr>))"
  "set (result_logs (d\<lparr> td_results := filter p (td_results d) \<rparr>)) \<subseteq> set (result_logs d)"
proof -
  have 1: "result_logs (d\<lparr> td_results := filter p (td_results d) \<rparr>) =
      map (\<lambda>r. the (rt_log r)) (filter p (filter (\<lambda>r. rt_log r \<noteq> None) (td_results d)))"
    by (simp add: result_logs_def List.map_filter_def comp_def conj_commute)
  have 2: "result_logs d = map (\<lambda>r. the (rt_log r)) (filter (\<lambda>r. rt_log r \<noteq> None) (td_results d))"
    by (simp add: result_logs_def List.map_filter_def comp_def)
  show "distinct (result_logs d) \<Longrightarrow> distinct (result_logs (d\<lparr> td_results := filter p (td_results d) \<rparr>))"
    unfolding 1 2 by (rule distinct_map_filter)
  show "set (result_logs (d\<lparr> td_results := filter p (td_results d) \<rparr>)) \<subseteq> set (result_logs d)"
    unfolding 1 2 by auto
qed

lemma advances_filter: "advances d (d\<lparr> td_results := filter p (td_results d) \<rparr>)"
proof -
  have "timing_inv (d\<lparr> td_results := filter p (td_results d) \<rparr>)" if i: "timing_inv d"
    using i result_logs_filter [where d = d and p = p] by (auto simp: timing_inv_def member_ids_def intro: distinct_map_filter)
  then show ?thesis by (simp add: advances_def member_ids_def signalled_def)
qed

lemma advances_wipe: "advances d (wipe p q d)"
proof -
  let ?d = "d\<lparr> td_results := filter (\<lambda>r. \<not> (p r \<and> rt_log r \<noteq> None)) (td_results d) \<rparr>"
  have "advances ?d (finish_changed (update_members q reset_times ?d))"
    by (rule advances_members [where p = q and f = reset_times]) (simp_all add: finish_changed_def)
  with advances_filter show ?thesis unfolding wipe_def by (rule advances_trans)
qed

lemma advances_wipes:
  "advances d (wipe_results d e r)" "advances d (wipe_results_for d e ids)"
  by (simp_all add: wipe_results_def wipe_results_for_def advances_wipe)

lemma advances_update_finish: "advances d (update_finish d k start t clean)"
  unfolding update_finish_def
  by (rule advances_members [OF _ _ disjI2 [OF refl]]) (auto simp: finish_changed_def split: option.split)

lemma advances_journal: "advances d (insert_local_change c d)"
  using timing_inv_cong [of d "insert_local_change c d"]
  by (simp add: advances_def signalled_def insert_local_change_def member_ids_def)

subsection \<open>The operations\<close>

text \<open>The engine's view of a member is the row it updates.\<close>

definition viewed :: "engine_member \<Rightarrow> tdb \<Rightarrow> bool" where
  "viewed m d \<longleftrightarrow> (\<forall>x \<in> set (td_members d). mb_id x = em_id m \<longrightarrow> mb_finish x = em_finish m)"

lemma load_member_viewed:
  assumes "load_member d event l = Inr (Some m)" and "distinct (member_ids d)"
  shows "viewed m d"
proof -
  obtain x rc where x: "x \<in> set (td_members d)" "m = engine_view x rc"
    using matched_member [OF load_member_Some [OF assms(1)]] by blast
  have "y = x" if "y \<in> set (td_members d)" "mb_id y = mb_id x" for y
    using x(1) that assms(2) unfolding member_ids_def by (metis inj_on_eq_iff distinct_map)
  with x show ?thesis by (auto simp: viewed_def engine_view_def)
qed

lemma advances_start:
  assumes "write_start m p d = Inr d'" and "viewed m d"
  shows "advances d (signal_start m p d')"
proof (cases "pl_write p = Start_Keep")
  case True
  then show ?thesis using assms(1) by (simp add: write_start_def signal_start_def)
next
  case False
  then obtain q f where d': "d' = update_members q f d"
    and q: "\<And>x. q x \<Longrightarrow> mb_id x = em_id m"
    and f: "\<And>x. mb_id (f x) = mb_id x \<and> mb_finish (f x) = mb_finish x \<and> mb_clean (f x) = mb_clean x"
    using assms(1) by (auto simp: write_start_def split: start_write.splits option.splits)
  have "shown_finish (f x) = shown_finish x" if "em_finish m = None" "x \<in> set (td_members d)" "q x" for x
    using that q f [of x] assms(2) by (auto simp: shown_finish_def viewed_def)
  then show ?thesis
    using False f d' by (intro advances_members [of q f]) (auto simp: signal_start_def finish_changed_def)
qed

lemma advances_write_finish: "advances d (write_finish m p d)"
proof (cases "pl_finish p")
  case None
  then show ?thesis by (simp add: write_finish_def)
next
  case (Some t)
  let ?q = "\<lambda>r. mb_id r = em_id m \<and> mb_finish r = None"
  let ?f = "\<lambda>r. r\<lparr> mb_finish := Some t, mb_clean := pl_clean p \<rparr>"
  show ?thesis
  proof (cases "count_where ?q (td_members d) = 0")
    case True
    then have "write_finish m p d = update_members ?q ?f d"
      using Some by (simp add: write_finish_def Let_def del: count_where_0)
    with True show ?thesis by (intro advances_members [of ?q ?f]) auto
  next
    case False
    then have "write_finish m p d = finish_changed (update_members ?q ?f d)"
      using Some by (simp add: write_finish_def Let_def del: count_where_0)
    then show ?thesis by (intro advances_members [of ?q ?f]) (auto simp: finish_changed_def)
  qed
qed

lemma advances_store_result:
  assumes "store_result tc l m c d = Inr d'" and "viewed m d"
  shows "advances d d'"
proof -
  obtain b d1 where 1: "insert_result d l m c = Inr (b, d1)"
    and 2: "if b then update_member_times tc m c (tl_time l) (tl_id l) d1 = Inr d' else d' = d1"
    using assms(1) by (auto simp: store_result_def res_simps split: if_splits)
  have a: "advances d d1"
    using insert_result_Inr [OF 1] advances_insert advances_refl by (metis option.inject)
  show ?thesis
  proof (cases b)
    case True
    let ?p = "tc_plan tc m (cp_type c) (tl_id l) (tl_time l)"
    obtain d2 where 3: "write_start m ?p d1 = Inr d2" and 4: "d' = write_finish m ?p (signal_start m ?p d2)"
      using 2 True by (auto simp: update_member_times_def Let_def res_simps)
    have "viewed m d1"
      using insert_result_Inr [OF 1] assms(2) by (auto simp: viewed_def insert_row_def)
    then show ?thesis using a advances_start [OF 3] advances_write_finish 4 advances_trans by metis
  next
    case False
    then show ?thesis using 2 a by simp
  qed
qed

lemma advances_derive:
  assumes "derive_result tc l r d = Inr d'" and "distinct (member_ids d)"
  shows "advances d d'"
  using derive_result_cases [OF assms(1)] advances_store_result load_member_viewed [OF _ assms(2)] advances_refl by metis

lemma advances_process_log:
  "process_log tc r l d = Inr d' \<Longrightarrow> distinct (member_ids d) \<Longrightarrow> advances d d'"
  using process_log_cases advances_derive advances_refl by metis

lemma advances_fold:
  assumes "fold_res f xs d = Inr d'" and "distinct (member_ids d)"
    and "\<And>x t t'. f x t = Inr t' \<Longrightarrow> distinct (member_ids t) \<Longrightarrow> advances t t'"
  shows "advances d d'"
  using assms(1)
proof (rule fold_res_invariant)
  fix x t t' assume "advances d t" "f x t = Inr t'"
  then show "advances d t'" using assms(2,3) advances_trans by (metis advances_def)
qed simp

lemma advances_reapply:
  "reapply_manual tc rows applied d = Inr d' \<Longrightarrow> advances d d'"
proof (induction rows arbitrary: applied d)
  case Nil
  then show ?case by simp
next
  case (Cons x rows)
  show ?case
  proof (cases "rt_member x \<in> applied")
    case True
    then show ?thesis using Cons by simp
  next
    case False
    then obtain d1 where 1: "apply_manual_finish tc (rt_member x) (rt_time x) d = Inr d1"
      and 2: "reapply_manual tc rows (insert (rt_member x) applied) d1 = Inr d'"
      using Cons.prems by (auto simp: res_simps)
    show ?thesis
      using apply_manual_finish_Inr [OF 1] advances_update_finish advances_trans Cons.IH [OF 2] by metis
  qed
qed

lemma advances_replay_logs:
  "replay_logs tc r ls d = Inr d' \<Longrightarrow> distinct (member_ids d) \<Longrightarrow> advances d d'"
  unfolding replay_logs_def by (erule advances_fold) (auto intro: advances_process_log)

lemma advances_ids: "advances d d' \<Longrightarrow> distinct (member_ids d) \<Longrightarrow> distinct (member_ids d')"
  by (simp add: advances_def)

lemma advances_recount_legacy:
  assumes "recount_legacy tc event race d = Inr d'" and "distinct (member_ids d)"
  shows "advances d d'"
proof -
  let ?d0 = "wipe_results d event race"
  obtain d1 where 1: "replay_logs tc race (list_logs ?d0 event) ?d0 = Inr d1"
    and 2: "reapply_manual tc (list_manual d1 event race) {} d1 = Inr d'"
    using assms(1) by (auto simp: recount_legacy_def Let_def res_simps)
  note 3 = advances_wipes(1) [of d event race]
  show ?thesis
    using 3 advances_replay_logs [OF 1 advances_ids [OF 3 assms(2)]] advances_reapply [OF 2] advances_trans by blast
qed

lemma advances_recount_members_legacy:
  assumes "recount_members_legacy tc event ids d = Inr d'" and "distinct (member_ids d)"
  shows "advances d d'"
proof -
  let ?d0 = "wipe_results_for d event ids"
  obtain d1 where 1: "replay_logs tc [] (list_logs_for ?d0 event ids) ?d0 = Inr d1"
    and 2: "reapply_manual tc (list_manual_for d1 event ids) {} d1 = Inr d'"
    using assms(1) by (auto simp: recount_members_legacy_def Let_def res_simps)
  note 3 = advances_wipes(2) [of d event ids]
  show ?thesis
    using 3 advances_replay_logs [OF 1 advances_ids [OF 3 assms(2)]] advances_reapply [OF 2] advances_trans by blast
qed

subsection \<open>Projections\<close>

lemma advances_dirty: "advances d d' \<Longrightarrow> td_dirty d \<Longrightarrow> td_dirty d'"
  by (auto simp: advances_def signalled_def)

lemma pass_rows_known:
  assumes "r \<in> set (pass_rows d event p)"
  shows "known_reading d event (ps_observation p)"
  using assms unfolding pass_rows_def by (cases "known_reading d event (ps_observation p)") simp_all

lemma pass_rows_of:
  assumes "r \<in> set (pass_rows d event p)"
  shows "rt_log r = Some (ps_observation p)"
proof (cases "List.find (\<lambda>m. mb_id m = ps_member p) (td_members d)")
  case None
  with assms pass_rows_known [OF assms] show ?thesis by (simp add: pass_rows_def)
next
  case (Some m)
  with assms pass_rows_known [OF assms] show ?thesis
    by (cases "mb_event m = event") (simp_all add: pass_rows_def pass_row_def)
qed

lemma pass_rows_log:
  assumes "r \<in> set (pass_rows d event p)"
  shows "\<exists>k. rt_log r = Some k \<and> k \<in> tl_id ` set (td_logs d)"
proof -
  have "ps_observation p \<in> tl_id ` set (td_logs d)"
    using pass_rows_known [OF assms] unfolding known_reading_def by (metis imageI)
  with pass_rows_of [OF assms] show ?thesis by simp
qed

lemma insert_pass_Inr:
  assumes "insert_pass r d = Inr d'"
  shows "d' = insert_row r d \<and> (\<forall>k. rt_log r = Some k \<longrightarrow> \<not> result_exists d k)"
  using assms by (auto simp: insert_pass_def split: option.splits if_splits)

lemma advances_insert_batch:
  assumes "insert_batch event ps d = Inr d'"
  shows "advances d d'"
proof -
  have *: "fold_res insert_pass (concat (map (pass_rows d event) ps)) d = Inr d'"
    using assms by (auto simp: insert_batch_def Let_def res_simps split: if_splits)
  have "advances d d' \<and> td_logs d' = td_logs d"
    using *
  proof (rule fold_res_invariant)
    fix r t t' assume r: "r \<in> set (concat (map (pass_rows d event) ps))" and t: "advances d t \<and> td_logs t = td_logs d"
      and i: "insert_pass r t = Inr t'"
    have "\<exists>k. rt_log r = Some k \<and> k \<in> tl_id ` set (td_logs t)" using r t pass_rows_log by fastforce
    then have "advances t t'" using insert_pass_Inr [OF i] advances_insert by (metis option.inject)
    moreover have "td_logs t' = td_logs t" using insert_pass_Inr [OF i] by (simp add: insert_row_def)
    ultimately show "advances d t' \<and> td_logs t' = td_logs d" using t advances_trans by metis
  qed simp
  then show ?thesis ..
qed

lemma advances_update_batch:
  assumes "update_batch event ts d = Inr d'" and "td_dirty d"
  shows "advances d d'"
proof -
  let ?row = "\<lambda>m. if mb_event m = event then List.find (\<lambda>t. mt_id t = mb_id m) ts else None"
  have "d' = update_members (\<lambda>m. ?row m \<noteq> None) (\<lambda>m. set_timing (the (?row m)) m) d"
    using assms(1) by (auto simp: update_batch_def Let_def split: if_splits)
  then show ?thesis using assms(2)
    by (intro advances_members [of "\<lambda>m. ?row m \<noteq> None" "\<lambda>m. set_timing (the (?row m)) m"])
      (simp_all add: set_timing_def update_members_def)
qed

lemma advances_replace_projection:
  assumes "replace_projection event race ids pj d = Inr d'"
  shows "advances d d'"
proof -
  define d0 where "d0 = (if ids = [] then wipe_results d event race else wipe_results_for d event ids)"
  obtain d1 where 1: "fold_res (insert_batch event) (batches batch_size (raw_passes (scoped race ids pj))) d0 = Inr d1"
    and 2: "fold_res (update_batch event) (batches batch_size (pj_members (scoped race ids pj))) d1 = Inr d'"
    using assms by (auto simp: replace_projection_def Let_def res_simps d0_def)
  have 0: "advances d d0" by (simp add: d0_def advances_wipes)
  have dirty: "td_dirty d0"
    by (simp add: d0_def wipe_results_for_def) (simp add: wipe_def finish_changed_def)
  have a1: "advances d0 d1"
    using 1 by (rule fold_res_invariant) (auto intro: advances_trans advances_insert_batch)
  have "advances d1 d' \<and> td_dirty d'" using 2
  proof (rule fold_res_invariant)
    show "advances d1 d1 \<and> td_dirty d1" using advances_dirty [OF a1 dirty] by simp
    fix x t t' assume "advances d1 t \<and> td_dirty t" "update_batch event x t = Inr t'"
    then show "advances d1 t' \<and> td_dirty t'" using advances_update_batch advances_trans advances_dirty by blast
  qed
  with 0 a1 show ?thesis using advances_trans by blast
qed

lemma advances_replay_window_members:
  "replay_window_members tc event ids d = Inr d' \<Longrightarrow> advances d d'"
  by (auto simp: replay_window_members_def res_simps intro: advances_replace_projection)

lemma advances_process:
  assumes "process tc race l d = Inr d'" and "distinct (member_ids d)"
  shows "advances d d'"
  using assms(1) advances_derive [OF _ assms(2)]
  by (auto simp: process_def replay_window_member_def res_simps split: if_splits option.splits
      intro: advances_replay_window_members)

lemma advances_recount:
  assumes "recount tc event race d = Inr d'" and "distinct (member_ids d)"
  shows "advances d d'"
  using assms(1) advances_recount_legacy [OF _ assms(2)]
  by (auto simp: recount_def snapshot_recount_def res_simps split: option.splits intro: advances_replace_projection)

lemma advances_recount_members:
  assumes "recount_members tc event ids d = Inr d'" and "distinct (member_ids d)"
  shows "advances d d'"
  using assms(1) advances_recount_members_legacy [OF _ assms(2)]
  by (auto simp: recount_members_def split: if_splits intro: advances_replay_window_members)

subsection \<open>Judges' entries\<close>

lemma advances_store_manual_finish:
  assumes "store_manual_finish tc now event k time d = Inr (x, d')"
  shows "advances d d'"
proof -
  obtain m where m: "timed_get_member d k = Inr m"
    using assms by (auto simp: store_manual_finish_def res_simps)
  define r :: result_row where "r = \<lparr> rt_id = 0, rt_event = event, rt_race = mb_race m, rt_member = k,
     rt_checkpoint = None, rt_log = None, rt_time = time, rt_number = mb_number m \<rparr>"
  obtain d1 where 1: "apply_manual_finish tc k time (insert_row r d) = Inr d1"
    and 2: "d' = insert_local_change (journal_finish k time now) d1"
    using assms m by (auto simp: store_manual_finish_def Let_def res_simps r_def)
  have r: "rt_log r = None" by (simp add: r_def)
  have "advances d (insert_row r d)" using r by (intro advances_insert) simp
  moreover have "advances (insert_row r d) d1" using apply_manual_finish_Inr [OF 1] advances_update_finish by auto
  ultimately show ?thesis using 2 advances_journal advances_trans by blast
qed

lemma advances_delete_manual_result:
  assumes "delete_manual_result now event k d = Inr d'"
  shows "advances d d'"
proof -
  obtain c p where "d' = insert_local_change c (d\<lparr> td_results := filter p (td_results d) \<rparr>)"
    using assms by (auto simp: delete_manual_result_def split: option.splits)
  then show ?thesis using advances_filter advances_journal advances_trans by blast
qed

lemma timing_step_advances:
  assumes "timing_step tc d d'" and "timing_inv d"
  shows "advances d d'"
  using assms
proof cases
  case (capture ls)
  then show ?thesis
    by (auto simp: advances_def timing_inv_def member_ids_def result_logs_def signalled_def)
next
  case (reading race l)
  then show ?thesis using advances_process assms(2) by (simp add: timing_inv_def)
next
  case (recount event race)
  then show ?thesis using advances_recount assms(2) by (simp add: timing_inv_def)
next
  case (members event ids)
  then show ?thesis using advances_recount_members assms(2) by (simp add: timing_inv_def)
next
  case (finish now event k time x)
  then show ?thesis using advances_store_manual_finish by (auto simp: manual_finish_def split: if_splits)
next
  case (clean now event k time x)
  then show ?thesis using advances_store_manual_finish
    by (auto simp: manual_finish_clean_def res_simps split: if_splits option.splits)
next
  case (delete now event j)
  then show ?thesis using advances_delete_manual_result by simp
qed

interpretation timing: monotone_machine "timing_step tc" timing_inv signalled for tc
proof
  fix s t :: tdb assume "timing_step tc s t" "timing_inv s"
  then have "advances s t" by (rule timing_step_advances)
  with \<open>timing_inv s\<close> show "timing_inv t" and "signalled s t" by (simp_all add: advances_def)
qed (auto intro: signalled_trans)

text \<open>
  In whatever order readings arrive, are processed and recounted and judges enter and withdraw finishes: no
  two results come from the same reading, every result of a reading comes from a stored one, and the ids of the
  members stay unique.
\<close>

theorem one_result_per_reading:
  assumes "(timing_step tc)\<^sup>*\<^sup>* d d'" and "timing_inv d"
  shows "timing_inv d'"
  using assms by (rule timing.inv_steps)

text \<open>
  C24. The finish screens hear of every change.  Let readings be processed, events and members be recounted and
  judges enter and withdraw finishes, in any order: whenever a finish, a clean time, or the start of a finished
  participant then differs from before, the screens have been signalled.
\<close>

theorem finish_changes_signalled:
  assumes "(timing_step tc)\<^sup>*\<^sup>* d d'" and "timing_inv d"
    and "map shown_finish (td_members d') \<noteq> map shown_finish (td_members d)"
  shows "td_dirty d'"
  using timing.le_steps [OF assms(1,2)] assms(3) by (simp add: signalled_def)

end
