(* ===== verification/SnapshotRecount.thy ===== *)
theory SnapshotRecount
  imports RecountLaws
begin

section \<open>Recounting by projection\<close>

text \<open>
  The other way to recount: the module's projection of the whole event replaces the derived rows.  Writing the same
  projection over its own result gives that result again (\<open>replace_again\<close>), and what a recount changes does not move
  an event into or out of the snapshot profile.  With \<open>RecountLaws\<close> this gives both cases of \<open>recount\<close>.
\<close>

subsection \<open>The times of a member\<close>

type_synonym start_times = "int option \<times> string \<times> string option"
type_synonym other_times = "int option \<times> string \<times> string option \<times> int option \<times> string option"

definition put_times :: "start_times \<Rightarrow> other_times \<Rightarrow> timed_member \<Rightarrow> timed_member" where
  "put_times s k m = (case s of (a, b, c) \<Rightarrow> case k of (p, q, r, f, g) \<Rightarrow>
     m\<lparr> mb_start := a, mb_start_source := b, mb_start_observation := c, tm_chip_start := p, tm_chip_source := q,
        tm_chip_observation := r, mb_finish := f, mb_clean := g \<rparr>)"

definition starts_of :: "timed_member \<Rightarrow> start_times" where
  "starts_of m = (mb_start m, mb_start_source m, mb_start_observation m)"

text \<open>What a member is without its times: all that a recount leaves alone.\<close>

definition timeless :: "timed_member \<Rightarrow> timed_member" where
  "timeless m = put_times (None, [], None) (None, [], None, None, None) m"

definition start_written :: "member_timing \<Rightarrow> start_times \<Rightarrow> start_times" where
  "start_written t s = (if mt_dual t then s else (mt_start t, mt_source t, nullable_observation (mt_observation t)))"

definition times_written :: "member_timing \<Rightarrow> other_times" where
  "times_written t = (mt_chip_start t, mt_chip_source t, nullable_observation (mt_chip_observation t), mt_finish t, mt_clean t)"

definition reset_start :: "start_times \<Rightarrow> start_times" where
  "reset_start s = (if machine_source (fst (snd s)) then (None, ''unknown'', None) else s)"

lemma put_times_simps [simp]:
  "put_times s k (put_times s' k' m) = put_times s k m" "starts_of (put_times s k m) = s"
  "timeless (put_times s k m) = timeless m"
  by (cases s; cases k; cases s'; cases k'; simp add: put_times_def starts_of_def timeless_def)+

lemma put_times_fields [simp]:
  "mb_id (put_times s k m) = mb_id m" "mb_event (put_times s k m) = mb_event m" "mb_race (put_times s k m) = mb_race m"
  "mb_number (put_times s k m) = mb_number m" "mb_status (put_times s k m) = mb_status m"
  by (cases s; cases k; simp add: put_times_def)+

lemma set_timing_put: "set_timing t m = put_times (start_written t (starts_of m)) (times_written t) m"
  by (simp add: set_timing_def put_times_def starts_of_def start_written_def times_written_def)

lemma reset_times_put: "reset_times m = put_times (reset_start (starts_of m)) (None, [], None, None, None) m"
  by (simp add: reset_times_def put_times_def starts_of_def reset_start_def)

lemma reset_start_twice [simp]: "reset_start (reset_start s) = reset_start s"
  by (simp add: reset_start_def machine_source_def)

text \<open>Several projected timings of one member: the last one decides, a start only if it is not dual.\<close>

lemma fold_timings:
  "fold set_timing ts m = (if ts = [] then m
     else put_times (fold start_written ts (starts_of m)) (times_written (last ts)) m)"
  by (induction ts arbitrary: m) (simp_all add: set_timing_put)

lemma starts_again: "fold start_written ts (reset_start (fold start_written ts (reset_start s))) = fold start_written ts (reset_start s)"
proof (cases "\<forall>t \<in> set ts. mt_dual t")
  case True
  then have "fold start_written ts s = s" for s by (induction ts arbitrary: s) (simp_all add: start_written_def)
  then show ?thesis by simp
next
  case False
  then have "fold start_written ts s = fold start_written ts s'" for s s'
    by (induction ts arbitrary: s s') (auto simp: start_written_def)
  then show ?thesis by blast
qed

lemma starts_again_kept: "fold start_written ts (fold start_written ts s) = fold start_written ts s"
proof (cases "\<forall>t \<in> set ts. mt_dual t")
  case True
  then have "fold start_written ts s = s" for s by (induction ts arbitrary: s) (simp_all add: start_written_def)
  then show ?thesis by simp
next
  case False
  then have "fold start_written ts s = fold start_written ts s'" for s s'
    by (induction ts arbitrary: s s') (auto simp: start_written_def)
  then show ?thesis by blast
qed

definition wiped_member :: "string \<Rightarrow> string \<Rightarrow> timed_member \<Rightarrow> timed_member" where
  "wiped_member event race m = (if scope_member event race m then reset_times m else m)"

lemma timings_again:
  "fold set_timing ts (wiped_member e r (fold set_timing ts (wiped_member e r m))) = fold set_timing ts (wiped_member e r m)"
  by (cases "ts = []")
    (simp_all add: fold_timings wiped_member_def reset_times_put scope_member_def starts_again starts_again_kept)

subsection \<open>Two states with the same keys are written alike\<close>

definition member_key :: "timed_member \<Rightarrow> string \<times> string \<times> int option" where
  "member_key m = (mb_id m, mb_event m, mb_number m)"

definition alike :: "tdb \<Rightarrow> tdb \<Rightarrow> bool" where
  "alike d d' \<longleftrightarrow> td_races d' = td_races d \<and> td_checkpoints d' = td_checkpoints d \<and> td_logs d' = td_logs d \<and>
     map strip_id (td_results d') = map strip_id (td_results d) \<and> map member_key (td_members d') = map member_key (td_members d)"

lemma member_key_timing [simp]: "member_key (set_timing t m) = member_key m" "member_key (put_times s k m) = member_key m"
  by (simp_all add: member_key_def set_timing_put)

lemma keys_find:
  assumes "map member_key ms' = map member_key ms"
  shows "map_option member_key (List.find (\<lambda>m. mb_id m = k) ms') = map_option member_key (List.find (\<lambda>m. mb_id m = k) ms)"
  using assms
proof (induction ms arbitrary: ms')
  case (Cons m ms)
  then obtain m' rest where ms': "ms' = m' # rest" "member_key m' = member_key m" "map member_key rest = map member_key ms"
    by (cases ms') auto
  then have "mb_id m' = mb_id m" by (simp add: member_key_def)
  then show ?case using ms' Cons.IH [OF ms'(3)] by simp
qed simp

lemma alike_exists:
  assumes "alike d d'"
  shows "result_exists d' k = result_exists d k"
proof -
  have *: "result_exists x k \<longleftrightarrow> Some k \<in> set (map rt_log (map strip_id (td_results x)))" for x :: tdb
    by (simp add: result_exists_def comp_def image_iff) metis
  have "map strip_id (td_results d') = map strip_id (td_results d)" using assms by (simp add: alike_def)
  then show ?thesis by (simp only: *)
qed

lemma alike_pass_rows:
  assumes "alike d d'"
  shows "pass_rows d' e p = pass_rows d e p"
proof -
  have "td_logs d' = td_logs d" using assms by (simp add: alike_def)
  moreover have "map_option member_key (List.find (\<lambda>m. mb_id m = ps_member p) (td_members d'))
      = map_option member_key (List.find (\<lambda>m. mb_id m = ps_member p) (td_members d))"
    using assms by (intro keys_find) (simp add: alike_def)
  ultimately show ?thesis
    by (auto simp: pass_rows_def known_reading_def pass_row_def member_key_def split: option.splits)
qed

lemma alike_insert: "alike d d' \<Longrightarrow> alike (insert_row r d) (insert_row r d')"
  by (simp add: alike_def insert_row_def strip_id_def)

lemma alike_insert_pass: "alike d d' \<Longrightarrow> both alike (insert_pass r d) (insert_pass r d')"
  using alike_exists [of d d'] alike_insert [of d d' r]
  by (cases "rt_log r") (simp_all add: insert_pass_def alike_def split: option.split)

lemma both_fold:
  assumes "\<And>x a b. R a b \<Longrightarrow> both R (f x a) (f x b)" and "R a b"
  shows "both R (fold_res f xs a) (fold_res f xs b)"
  using assms(2) by (induction xs arbitrary: a b) (auto intro!: both_bind assms(1))

lemma alike_insert_batch:
  assumes "alike d d'"
  shows "both alike (insert_batch e ps d) (insert_batch e ps d')"
proof -
  have rows: "map (pass_rows d' e) ps = map (pass_rows d e) ps" using alike_pass_rows [OF assms] by simp
  show ?thesis unfolding insert_batch_def Let_def rows
    by (rule both_bind [OF both_fold [OF alike_insert_pass assms]]) auto
qed

definition timing_for :: "string \<Rightarrow> member_timing list \<Rightarrow> timed_member \<Rightarrow> member_timing option" where
  "timing_for e ts m = (if mb_event m = e then List.find (\<lambda>t. mt_id t = mb_id m) ts else None)"

definition timings_for :: "string \<Rightarrow> member_timing list list \<Rightarrow> timed_member \<Rightarrow> member_timing list" where
  "timings_for e tss m = concat (map (\<lambda>ts. case timing_for e ts m of None \<Rightarrow> [] | Some t \<Rightarrow> [t]) tss)"

lemma timing_for_key: "member_key m' = member_key m \<Longrightarrow> timing_for e ts m' = timing_for e ts m"
  by (simp add: timing_for_def member_key_def)

lemma timings_for_key: "member_key m' = member_key m \<Longrightarrow> timings_for e tss m' = timings_for e tss m"
  unfolding timings_for_def by (simp only: timing_for_key [of m' m])

lemma update_batch_members:
  "update_batch e ts d = (if count_where (\<lambda>m. timing_for e ts m \<noteq> None) (td_members d) \<noteq> length ts then Inl batch_failed
     else Inr (d\<lparr> td_members := map (\<lambda>m. fold set_timing (timings_for e [ts] m) m) (td_members d) \<rparr>))"
proof -
  have "(if timing_for e ts m \<noteq> None then set_timing (the (timing_for e ts m)) m else m)
      = fold set_timing (timings_for e [ts] m) m" for m
    by (cases "timing_for e ts m") (simp_all add: timings_for_def)
  then show ?thesis
    unfolding update_batch_def Let_def timing_for_def [symmetric] update_members_def update_where_def by simp
qed

lemma count_where_keys:
  assumes "map member_key ms' = map member_key ms" and "\<And>m m'. member_key m' = member_key m \<Longrightarrow> p m' = p m"
  shows "count_where p ms' = count_where p ms"
  using assms(1)
proof (induction ms arbitrary: ms')
  case (Cons m ms)
  then obtain m' rest where "ms' = m' # rest" "member_key m' = member_key m" "map member_key rest = map member_key ms"
    by (cases ms') auto
  then have "p m' = p m" "count_where p rest = count_where p ms" using Cons.IH assms(2) by blast+
  then show ?case using \<open>ms' = m' # rest\<close> by (simp add: count_where_def)
qed (simp add: count_where_def)

lemma member_key_fold [simp]: "member_key (fold set_timing ts m) = member_key m"
  by (simp add: fold_timings)

lemma alike_update_batch:
  assumes "alike d d'"
  shows "both alike (update_batch e ts d) (update_batch e ts d')"
proof -
  have "count_where (\<lambda>m. timing_for e ts m \<noteq> None) (td_members d') = count_where (\<lambda>m. timing_for e ts m \<noteq> None) (td_members d)"
  proof (rule count_where_keys)
    show "map member_key (td_members d') = map member_key (td_members d)" using assms by (simp add: alike_def)
    show "(timing_for e ts m' \<noteq> None) = (timing_for e ts m \<noteq> None)" if "member_key m' = member_key m" for m m'
      using timing_for_key [OF that] by simp
  qed
  moreover have "alike (d\<lparr> td_members := map (\<lambda>m. fold set_timing (timings_for e [ts] m) m) (td_members d) \<rparr>)
      (d'\<lparr> td_members := map (\<lambda>m. fold set_timing (timings_for e [ts] m) m) (td_members d') \<rparr>)"
    using assms unfolding alike_def by (simp add: comp_def)
  ultimately show ?thesis unfolding update_batch_members by simp
qed

subsection \<open>What the writes do\<close>

lemma insert_pass_effect:
  assumes "insert_pass r d = Inr d'"
  shows "d' = insert_row r d"
  using assms by (auto simp: insert_pass_def split: option.splits if_splits)

definition passed :: "string \<Rightarrow> pass list \<Rightarrow> result_row \<Rightarrow> bool" where
  "passed e ps r \<longleftrightarrow> rt_event r = e \<and> rt_log r \<noteq> None \<and> rt_race r \<in> ps_race ` set ps"

definition appends :: "(result_row \<Rightarrow> bool) \<Rightarrow> tdb \<Rightarrow> tdb \<Rightarrow> bool" where
  "appends P d d' \<longleftrightarrow> td_races d' = td_races d \<and> td_members d' = td_members d \<and> td_checkpoints d' = td_checkpoints d \<and>
     td_logs d' = td_logs d \<and> (\<exists>rows. td_results d' = td_results d @ rows \<and> (\<forall>r \<in> set rows. P r))"

lemma appends_refl [simp]: "appends P d d"
  by (simp add: appends_def)

lemma appends_trans: "appends P a b \<Longrightarrow> appends P b c \<Longrightarrow> appends P a c"
  unfolding appends_def by fastforce

lemma appends_fold:
  assumes "fold_res f xs d = Inr d'" and "\<And>x a b. x \<in> set xs \<Longrightarrow> f x a = Inr b \<Longrightarrow> appends P a b"
  shows "appends P d d'"
  using assms
proof (induction xs arbitrary: d)
  case (Cons x xs)
  then obtain d1 where "f x d = Inr d1" "fold_res f xs d1 = Inr d'" by (auto simp: bind_res_Inr)
  then show ?case using Cons.IH [of d1] Cons.prems(2) appends_trans by (metis list.set_intros)
qed simp

lemma insert_batch_appends:
  assumes "insert_batch e ps d = Inr d'" and "set ps \<subseteq> set qs"
  shows "appends (passed e qs) d d'"
proof -
  let ?rows = "concat (map (pass_rows d e) ps)"
  have f: "fold_res insert_pass ?rows d = Inr d'"
    using assms(1) by (auto simp: insert_batch_def Let_def bind_res_Inr split: if_splits)
  have "passed e qs r" if "r \<in> set ?rows" for r
    using that assms(2) by (auto simp: pass_rows_def pass_row_def passed_def split: if_splits option.splits)
  then have "appends (passed e qs) a b" if "r \<in> set ?rows" "insert_pass r a = Inr b" for r a b
    using insert_pass_effect [OF that(2)] that(1) by (auto simp: appends_def insert_row_def passed_def)
  then show ?thesis by (rule appends_fold [OF f])
qed

lemma batches_subset: "xs \<in> set (batches n ys) \<Longrightarrow> set xs \<subseteq> set ys"
proof (induction n ys rule: batches.induct)
  case (1 n ys)
  then show ?case
    by (subst (asm) (2) batches.simps) (auto split: if_splits dest: in_set_takeD in_set_dropD)
qed

lemma update_batches_members:
  assumes "fold_res (update_batch e) tss d = Inr d'"
  shows "d' = d\<lparr> td_members := map (\<lambda>m. fold set_timing (timings_for e tss m) m) (td_members d) \<rparr>"
  using assms
proof (induction tss arbitrary: d)
  case Nil
  then show ?case by (simp add: timings_for_def)
next
  case (Cons ts tss)
  then obtain d1 where d1: "update_batch e ts d = Inr d1" "fold_res (update_batch e) tss d1 = Inr d'" by (auto simp: bind_res_Inr)
  have "timings_for e (ts # tss) m = timings_for e [ts] m @ timings_for e tss m" for m by (simp add: timings_for_def)
  moreover have "timings_for e tss (fold set_timing (timings_for e [ts] m) m) = timings_for e tss m" for m
    by (rule timings_for_key) simp
  ultimately show ?case using Cons.IH [OF d1(2)] d1(1) by (auto simp: update_batch_members split: if_splits)
qed

subsection \<open>A projection replaces itself\<close>

definition projected :: "string \<Rightarrow> string \<Rightarrow> member_timing list list \<Rightarrow> tdb \<Rightarrow> tdb \<Rightarrow> bool" where
  "projected e race tss d d' \<longleftrightarrow> td_races d' = td_races d \<and> td_checkpoints d' = td_checkpoints d \<and> td_logs d' = td_logs d \<and>
     td_members d' = map (\<lambda>m. fold set_timing (timings_for e tss m) m) (map (wiped_member e race) (td_members d)) \<and>
     (\<exists>rows. td_results d' = filter (\<lambda>x. \<not> derived_row e race x) (td_results d) @ rows \<and> (\<forall>r \<in> set rows. derived_row e race r))"

lemma wiped_members: "td_members (wipe_results d e r) = map (wiped_member e r) (td_members d)"
  by (simp add: wipe_results_members update_where_def wiped_member_def)

lemma wiped_member_key [simp]: "member_key (wiped_member e r m) = member_key m" "timeless (wiped_member e r m) = timeless m"
  by (simp_all add: wiped_member_def reset_times_put)

lemma timeless_fold [simp]: "timeless (fold set_timing ts m) = timeless m"
  by (simp add: fold_timings)

lemma replace_Inr:
  assumes "replace_projection e race [] pj d = Inr d'"
  obtains d1 where
    "fold_res (insert_batch e) (batches batch_size (raw_passes (scoped race [] pj))) (wipe_results d e race) = Inr d1"
    "fold_res (update_batch e) (batches batch_size (pj_members (scoped race [] pj))) d1 = Inr d'"
  using assms by (auto simp: replace_projection_def Let_def bind_res_Inr)

lemma replace_projected:
  assumes "replace_projection e race [] pj d = Inr d'"
  shows "projected e race (batches batch_size (pj_members (scoped race [] pj))) d d'"
proof -
  let ?ps = "raw_passes (scoped race [] pj)" and ?tss = "batches batch_size (pj_members (scoped race [] pj))"
  obtain d1 where d1: "fold_res (insert_batch e) (batches batch_size ?ps) (wipe_results d e race) = Inr d1"
    and d': "fold_res (update_batch e) ?tss d1 = Inr d'" using replace_Inr [OF assms] by blast
  have a: "appends (passed e ?ps) (wipe_results d e race) d1"
    by (rule appends_fold [OF d1]) (use insert_batch_appends batches_subset in blast)
  have "derived_row e race r" if "passed e ?ps r" for r
    using that by (auto simp: passed_def raw_passes_def scoped_def derived_row_def)
  then obtain rows where "td_results d1 = td_results (wipe_results d e race) @ rows" "\<forall>r \<in> set rows. derived_row e race r"
    using a unfolding appends_def by blast
  then show ?thesis
    using a update_batches_members [OF d'] by (simp add: projected_def appends_def wiped_members wipe_results_rows)
qed

lemma projected_wipe:
  assumes "projected e race tss d d'"
  shows "alike (wipe_results d e race) (wipe_results d' e race)"
proof -
  obtain rows where "td_results d' = filter (\<lambda>x. \<not> derived_row e race x) (td_results d) @ rows" "\<forall>r \<in> set rows. derived_row e race r"
    using assms unfolding projected_def by blast
  then have "td_results (wipe_results d' e race) = td_results (wipe_results d e race)"
    by (auto simp: wipe_results_rows filter_empty_conv)
  then show ?thesis using assms by (simp add: alike_def projected_def wiped_members)
qed

text \<open>
  Replacing the rows of an event, or of one race of it, by a projection twice gives the same tables as doing it once.
\<close>

lemma replace_again:
  assumes "replace_projection e race [] pj d = Inr d'"
  shows "\<exists>d''. replace_projection e race [] pj d' = Inr d'' \<and> sim d' d''"
proof -
  let ?ps = "raw_passes (scoped race [] pj)" and ?tss = "batches batch_size (pj_members (scoped race [] pj))"
  let ?stored = "\<lambda>x. bind_res (fold_res (insert_batch e) (batches batch_size ?ps) x) (fold_res (update_batch e) ?tss)"
  have p: "projected e race ?tss d d'" by (rule replace_projected [OF assms])
  have "both alike (?stored (wipe_results d e race)) (?stored (wipe_results d' e race))"
    by (rule both_bind [OF both_fold [OF alike_insert_batch projected_wipe [OF p]]])
      (assumption, rule both_fold [OF alike_update_batch])
  moreover have r: "replace_projection e race [] pj x = ?stored (wipe_results x e race)" for x
    by (simp add: replace_projection_def Let_def)
  ultimately obtain d'' where d'': "replace_projection e race [] pj d' = Inr d''" "alike d' d''"
    using assms by auto
  have "td_members d'' = td_members d'"
  proof -
    let ?f = "\<lambda>m. fold set_timing (timings_for e ?tss m) m" and ?w = "wiped_member e race"
    have "?f (?w (?f (?w m))) = ?f (?w m)" for m
    proof -
      have "timings_for e ?tss (?w (?f (?w m))) = timings_for e ?tss (?w m)" by (rule timings_for_key) simp
      then show ?thesis by (simp only: timings_again)
    qed
    then have "map ?f (map ?w (map ?f (map ?w ms))) = map ?f (map ?w ms)" for ms by (simp only: map_map comp_def)
    moreover have "td_members d'' = map ?f (map ?w (td_members d'))" "td_members d' = map ?f (map ?w (td_members d))"
      using replace_projected [OF d''(1)] p unfolding projected_def
      by (blast elim: conjE)+
    ultimately show ?thesis by (simp only:)
  qed
  then show ?thesis using d'' by (auto simp: sim_def alike_def)
qed

subsection \<open>A recount does not move an event into or out of the profile\<close>

definition steady :: "tdb \<Rightarrow> tdb \<Rightarrow> bool" where
  "steady d d' \<longleftrightarrow> td_races d' = td_races d \<and> td_checkpoints d' = td_checkpoints d \<and> td_logs d' = td_logs d \<and>
     map timeless (td_members d') = map timeless (td_members d) \<and>
     filter (\<lambda>r. rt_log r = None) (td_results d') = filter (\<lambda>r. rt_log r = None) (td_results d)"

lemma map_insort_same: "(\<And>x. f (g x) = f x) \<Longrightarrow> map g (insort_key f x xs) = insort_key f (g x) (map g xs)"
  by (induction xs) auto

lemma map_sort_same:
  assumes "\<And>x. f (g x) = f x"
  shows "map g (sort_key f xs) = sort_key f (map g xs)"
  by (induction xs) (simp_all add: map_insort_same [of f g] assms)

lemma map_filter_same: "(\<And>x. p (g x) = p x) \<Longrightarrow> map g (filter p xs) = filter p (map g xs)"
  by (induction xs) auto

lemma timeless_fields [simp]:
  "mb_id (timeless m) = mb_id m" "mb_event (timeless m) = mb_event m" "mb_status (timeless m) = mb_status m"
  by (simp_all add: timeless_def)

lemma steady_members:
  assumes "steady d d'"
  shows "map timeless (event_members d' e) = map timeless (event_members d e)"
  using assms by (simp add: event_members_def map_sort_same map_filter_same steady_def)

lemma both_map_res:
  assumes "map g ys = map g xs" and "\<And>x y. g y = g x \<Longrightarrow> both (\<lambda>_ _. True) (f x) (f y)"
  shows "both (\<lambda>_ _. True) (map_res f xs) (map_res f ys)"
  using assms(1)
proof (induction xs arbitrary: ys)
  case (Cons x xs)
  then obtain y rest where ys: "ys = y # rest" "g y = g x" "map g rest = map g xs" by (cases ys) auto
  have "both (\<lambda>_ _. True) (f x) (f y)" by (rule assms(2) [OF ys(2)])
  with Cons.IH [OF ys(3)] show ?case
    by (cases "f x"; cases "map_res f xs") (auto simp: ys(1))
qed simp

lemma steady_snap_member:
  assumes "timeless m' = timeless m"
  shows "both (\<lambda>_ _. True) (snap_member_of races m) (snap_member_of races m')"
proof -
  have "mb_status m' = mb_status m" using assms by (metis timeless_fields(3))
  then show ?thesis by (simp add: snap_member_of_def split: option.split)
qed

lemma steady_snapshot:
  assumes "steady d d'"
  shows "both (\<lambda>_ _. True) (load_snapshot everything d e) (load_snapshot everything d' e)"
proof -
  have races: "td_races d' = td_races d" using assms by (simp add: steady_def)
  have f: "filter (\<lambda>r. rt_event r = e \<and> rt_log r = None) x = filter (\<lambda>r. rt_event r = e) (filter (\<lambda>r. rt_log r = None) x)" for x
    by (simp add: conj_commute)
  have facts: "filter (\<lambda>r. rt_event r = e \<and> rt_log r = None) (td_results d') = filter (\<lambda>r. rt_event r = e \<and> rt_log r = None) (td_results d)"
    unfolding f using assms by (simp add: steady_def del: filter_filter)
  show ?thesis
    unfolding load_snapshot_def races facts
    by (rule both_same, rule both_bind [OF both_map_res [OF steady_members [OF assms] steady_snap_member]], assumption)
      (rule both_same, simp)
qed

lemma steady_window: "steady d d' \<Longrightarrow> has_window d' e = has_window d e"
  by (simp add: steady_def has_window_def)

lemma steady_input:
  assumes "steady d d'"
  shows "snapshot_input d e = Inr None \<Longrightarrow> snapshot_input d' e = Inr None"
    and "snapshot_input d e = Inr (Some (b, s)) \<Longrightarrow> \<exists>s'. snapshot_input d' e = Inr (Some (b, s'))"
  using steady_snapshot [OF assms, of True e] steady_snapshot [OF assms, of False e] steady_window [OF assms, of e]
  by (auto simp: snapshot_input_def bind_res_Inr split: sum.splits if_splits)

lemma projected_steady:
  assumes "projected e race tss d d'"
  shows "steady d d'"
proof -
  have "filter (\<lambda>r. rt_log r = None) (filter (\<lambda>x. \<not> derived_row e race x) xs) = filter (\<lambda>r. rt_log r = None) xs" for xs
    by (auto simp: derived_row_def intro!: filter_cong)
  moreover have "filter (\<lambda>r. rt_log r = None) rows = []" if "\<forall>r \<in> set rows. derived_row e race r" for rows
    using that by (auto simp: filter_empty_conv derived_row_def)
  moreover obtain rows where "td_results d' = filter (\<lambda>x. \<not> derived_row e race x) (td_results d) @ rows"
      "\<forall>r \<in> set rows. derived_row e race r"
    using assms unfolding projected_def by blast
  ultimately show ?thesis using assms by (simp add: steady_def projected_def comp_def del: filter_filter)
qed

lemma grows_steady:
  assumes "grows e race (wipe_results d e race) d'" and "list_all plain_start (td_members (wipe_results d e race))"
  shows "steady d d'"
proof -
  let ?w = "wipe_results d e race"
  have same: "timeless m' = timeless m" if "retimed e race m m'" "plain_start m" for m m'
  proof (cases "scope_member e race m")
    case True
    then have "reset_times m' = reset_times m" using that by (simp add: retimed_def)
    then show ?thesis unfolding reset_times_put by (metis put_times_simps(3))
  qed (use that in \<open>simp add: retimed_def\<close>)
  have "map timeless ms' = map timeless ms" if "list_all2 (retimed e race) ms ms'" "list_all plain_start ms" for ms ms'
    using that by induction (auto dest: same)
  then have "map timeless (td_members d') = map timeless (td_members ?w)" using assms by (simp add: grows_def)
  moreover have "map timeless (td_members ?w) = map timeless (td_members d)" by (simp add: wiped_members comp_def)
  moreover have "filter (\<lambda>r. rt_log r = None) (td_results d') = filter (\<lambda>r. rt_log r = None) (td_results d)"
  proof -
    obtain rows where rows: "td_results d' = td_results ?w @ rows" "\<forall>r \<in> set rows. derived_row e race r"
      using assms(1) unfolding grows_def by blast
    have "filter (\<lambda>r. rt_log r = None) rows = []" using rows(2) by (auto simp: filter_empty_conv derived_row_def)
    moreover have "filter (\<lambda>r. rt_log r = None) (td_results ?w) = filter (\<lambda>r. rt_log r = None) (td_results d)"
      by (auto simp: wipe_results_rows derived_row_def intro!: filter_cong)
    ultimately show ?thesis using rows(1) by simp
  qed
  ultimately show ?thesis using assms(1) by (simp add: steady_def grows_def)
qed

lemma projected_readings:
  assumes "projected e race tss d d'"
  shows "stream_readings d' e race = stream_readings d e race"
proof -
  obtain rows where rows: "td_results d' = filter (\<lambda>x. \<not> derived_row e race x) (td_results d) @ rows"
      "\<forall>r \<in> set rows. derived_row e race r" and logs: "td_logs d' = td_logs d"
    using assms unfolding projected_def by blast
  have "reserved_outside d' race l = reserved_outside d race l" for l
    using rows by (auto simp: reserved_outside_def derived_row_def in_race_def)
  then show ?thesis using logs by (simp add: stream_readings_def list_logs_def)
qed

subsection \<open>Recounting again\<close>

text \<open>
  C23. Recounting an event, or one race of it, a second time gives the same races, members, readings and results as
  recounting it once; only the ids of the rewritten results change.  For an event outside the snapshot profile, which
  is replayed reading by reading, this holds whatever rules the timing core applies, if the tables are
  \<open>recountable\<close>: unique member ids, starts that no edit left behind without a time, and judges' entries for members of
  the scope.  For an event in the profile it holds if the module projects the recounted event, where it meets the
  starts it wrote itself, as it projected the event before.
\<close>

theorem recount_again:
  assumes "recount tc event race d = Inr d'"
    and "snapshot_input d event = Inr None \<Longrightarrow> recountable event race d"
    and "\<And>b s s'. snapshot_input d event = Inr (Some (b, s)) \<Longrightarrow> snapshot_input d' event = Inr (Some (b, s')) \<Longrightarrow>
      tc_project tc b s' (stream_readings d event race) = tc_project tc b s (stream_readings d event race)"
  shows "\<exists>d''. recount tc event race d' = Inr d'' \<and> sim d' d''"
proof -
  obtain input where input: "snapshot_input d event = Inr input" using assms(1) by (auto simp: recount_def bind_res_Inr)
  show ?thesis
  proof (cases input)
    case None
    then have legacy: "recount_legacy tc event race d = Inr d'" "recountable event race d" "snapshot_input d event = Inr None"
      using assms(1,2) input by (simp_all add: recount_def)
    have w: "recountable event race (wipe_results d event race)" by (rule wipe_recountable [OF legacy(2)])
    have "grows event race (wipe_results d event race) d'"
      using legacy(1) w by (intro replay_all_grows) (simp_all add: recount_legacy_replays)
    moreover have "list_all plain_start (td_members (wipe_results d event race))"
      using w unfolding recountable_def by (elim conjE)
    ultimately have "steady d d'" by (rule grows_steady)
    then have "snapshot_input d' event = Inr None" using steady_input(1) legacy(3) by blast
    then show ?thesis using recount_legacy_again [OF legacy(1,2)] by (simp add: recount_def)
  next
    case (Some x)
    obtain b s where x: "snapshot_input d event = Inr (Some (b, s))" using input Some by (cases x) simp
    then obtain pj where pj: "tc_project tc b s (stream_readings d event race) = Inr pj"
      and rep: "replace_projection event race [] pj d = Inr d'"
      using assms(1) by (auto simp: recount_def snapshot_recount_def bind_res_Inr)
    note p = replace_projected [OF rep]
    obtain s' where s': "snapshot_input d' event = Inr (Some (b, s'))" using steady_input(2) [OF projected_steady [OF p] x] by blast
    have "tc_project tc b s' (stream_readings d' event race) = Inr pj"
      using assms(3) [OF x s'] pj projected_readings [OF p] by simp
    then show ?thesis using replace_again [OF rep] s' by (simp add: recount_def snapshot_recount_def)
  qed
qed

end
