(* ===== verification/TimingWitnesses.thy ===== *)
theory TimingWitnesses
  imports TimingMachine SnapshotRecount
begin

section \<open>A concrete race\<close>

text \<open>
  One race with one finish line: the reader saw number 7 at 5000, a judge entered 4900.  The rules of the timing
  core are those of a single finish: the line counts once, the start falls back to the start of the race.
\<close>

definition w_rules :: timing_core where
  "w_rules = \<lparr>
     tc_select = (\<lambda>l m lr passed cps. case cps of [] \<Rightarrow> None | c # _ \<Rightarrow> if cp_id c \<in> passed then None else Some 0),
     tc_plan = (\<lambda>m ty obs t. \<lparr> pl_write = (if em_start m = None then Start_If_Null else Start_Keep),
       pl_start = em_race_started m, pl_observation = [], pl_finish = Some t, pl_clean = Some ''clean'' \<rparr>),
     tc_clean = (\<lambda>s f. ''judged''), tc_final = (\<lambda>r m. Inr None),
     tc_project = (\<lambda>everything s rs. Inr \<lparr> pj_passes = [], pj_members = [] \<rparr>) \<rparr>"

definition w_race :: timed_race where
  "w_race = \<lparr> rc_id = ''r'', rc_event = ''e'', rc_date = [], tr_format = ''TimeLimited'', tr_started = Some 1000,
     tr_limit = None, tr_basis = ''legacy'', tr_excludes_top = False \<rparr>"

definition w_runner :: timed_member where
  "w_runner = \<lparr> mb_id = ''m'', mb_event = ''e'', mb_race = ''r'', mb_category = None, mb_number = Some 7,
     mb_epc = None, mb_rfid = None, mb_first = [], mb_last = [], mb_gender = None, mb_dob = None, mb_team = None,
     mb_city = None, mb_status = 0, mb_start = None, mb_start_source = ''unknown'', mb_start_observation = None,
     mb_finish = None, mb_clean = None, tm_chip_start = None, tm_chip_source = [], tm_chip_observation = None \<rparr>"

definition w_line :: checkpoint where
  "w_line = \<lparr> cp_id = ''c'', cp_event = ''e'', cp_race = ''r'', cp_type = 3, cp_sort = 1, cp_board = ''b'',
     cp_since = None, cp_since_offset = None, cp_until = None, cp_until_offset = None, cp_selection = ''first'',
     cp_sleep = None \<rparr>"

definition w_read :: timed_log where
  "w_read = \<lparr> lg_event = ''e'', lg_number = 7, lg_epc = [], tl_id = ''l'', tl_time = 5000, tl_board = ''b'',
     tl_disabled = None \<rparr>"

definition w_entry :: result_row where
  "w_entry = \<lparr> rt_id = 1, rt_event = ''e'', rt_race = ''r'', rt_member = ''m'', rt_checkpoint = None, rt_log = None,
     rt_time = 4900, rt_number = Some 7 \<rparr>"

definition w_pass :: result_row where
  "w_pass = \<lparr> rt_id = 2, rt_event = ''e'', rt_race = ''r'', rt_member = ''m'', rt_checkpoint = Some ''c'',
     rt_log = Some ''l'', rt_time = 5000, rt_number = Some 7 \<rparr>"

definition w_finisher :: timed_member where
  "w_finisher = w_runner\<lparr> mb_start := Some 1000, mb_start_source := ''race_default'', mb_start_observation := None,
     mb_finish := Some 4900, mb_clean := Some ''judged'' \<rparr>"

definition w_race_tables :: tdb where
  "w_race_tables = \<lparr> td_races = [w_race], td_members = [w_runner], td_checkpoints = [w_line], td_logs = [w_read],
     td_results = [w_entry], td_next = 2, td_changes = [], td_dirty = False \<rparr>"

definition w_raced :: tdb where
  "w_raced = \<lparr> td_races = [w_race], td_members = [w_finisher], td_checkpoints = [w_line], td_logs = [w_read],
     td_results = [w_entry, w_pass], td_next = 3, td_changes = [], td_dirty = True \<rparr>"

lemma w_recounted: "recount_legacy w_rules ''e'' [] w_race_tables = Inr w_raced"
  by code_simp

lemma w_recountable: "recountable ''e'' [] w_race_tables"
  by code_simp

lemma w_judged: "filter (\<lambda>x. rt_member x = ''m'') (list_manual w_race_tables ''e'' []) = [w_entry]"
  by code_simp

lemma w_timing_inv: "timing_inv w_race_tables"
  by code_simp

lemma w_replayed: "recount w_rules ''e'' [] w_race_tables = Inr w_raced"
  by code_simp

lemma w_timing_steps: "(timing_step w_rules)\<^sup>*\<^sup>* w_race_tables w_raced"
  using timing_step.recount [OF w_replayed] by blast

theorem recount_legacy_judge_wins_witness: "w_finisher \<in> set (td_members w_raced) \<and> mb_finish w_finisher = Some 4900"
proof -
  have m: "w_finisher \<in> set (td_members w_raced)" "mb_id w_finisher = ''m''"
    by (simp_all add: w_raced_def w_finisher_def w_runner_def)
  show ?thesis
    using recount_legacy_judge_wins [OF w_recounted w_recountable w_judged m] m(1) by (simp add: w_entry_def)
qed

theorem finish_changes_signalled_witness: "td_dirty w_raced \<and> \<not> td_dirty w_race_tables"
proof -
  have "map shown_finish (td_members w_raced) \<noteq> map shown_finish (td_members w_race_tables)"
    by (simp add: w_raced_def w_race_tables_def shown_finish_def w_finisher_def w_runner_def)
  from finish_changes_signalled [OF w_timing_steps w_timing_inv this] show ?thesis
    by (simp add: w_race_tables_def)
qed

text \<open>
  The same race over a fixed distance: the module lets every reading of the line pass and gives the member of the
  snapshot the start of the race and the time of the reading.
\<close>

definition w_projecting :: timing_core where
  "w_projecting = w_rules\<lparr> tc_project := (\<lambda>everything s rs. Inr \<lparr>
     pj_passes = map (\<lambda>x. \<lparr> ps_race = ''r'', ps_member = ''m'', ps_checkpoint = ''c'', ps_observation = rg_id x, ps_time = rg_time x \<rparr>) rs,
     pj_members = map (\<lambda>m. \<lparr> mt_id = sm_id m, mt_race = sm_race m, mt_start = Some 1000, mt_source = ''race_default'',
       mt_observation = [], mt_finish = map_option rg_time (List.find (\<lambda>_. True) rs), mt_clean = Some ''4'', mt_dual = False,
       mt_chip_start = None, mt_chip_source = [], mt_chip_observation = [] \<rparr>) (sn_members s) \<rparr>) \<rparr>"

definition w_fixed :: tdb where
  "w_fixed = w_race_tables\<lparr> td_races := [w_race\<lparr> tr_format := ''FixedDistance'' \<rparr>] \<rparr>"

definition w_fixed_again :: tdb where
  "w_fixed_again = w_fixed\<lparr> td_members := [w_runner\<lparr> mb_start := Some 1000, mb_start_source := ''race_default'',
       mb_start_observation := None, tm_chip_start := None, tm_chip_source := [], tm_chip_observation := None,
       mb_finish := Some 5000, mb_clean := Some ''4'' \<rparr>],
     td_results := [w_entry, w_pass], td_next := 3, td_dirty := True \<rparr>"

definition projection_of :: "timing_core \<Rightarrow> tdb \<Rightarrow> reading list \<Rightarrow> projection res" where
  "projection_of tc d rs = bind_res (snapshot_input d ''e'') (\<lambda>x. case x of None \<Rightarrow> Inl [] | Some (b, s) \<Rightarrow> tc_project tc b s rs)"

lemma w_fixed_recounted: "recount w_projecting ''e'' [] w_fixed = Inr w_fixed_again"
  by code_simp

lemma w_fixed_projection:
  "projection_of w_projecting w_fixed_again (stream_readings w_fixed ''e'' []) =
     projection_of w_projecting w_fixed (stream_readings w_fixed ''e'' [])"
  by code_simp

lemma w_in_profile: "snapshot_input w_race_tables ''e'' = Inr None" "snapshot_input w_fixed ''e'' \<noteq> Inr None"
  by code_simp+

theorem recount_again_witness:
  "(\<exists>d''. recount w_rules ''e'' [] w_raced = Inr d'' \<and> sim w_raced d'') \<and>
   (\<exists>d''. recount w_projecting ''e'' [] w_fixed_again = Inr d'' \<and> sim w_fixed_again d'')"
proof
  show "\<exists>d''. recount w_rules ''e'' [] w_raced = Inr d'' \<and> sim w_raced d''"
    by (rule recount_again [OF w_replayed]) (simp_all add: w_recountable w_in_profile)
  show "\<exists>d''. recount w_projecting ''e'' [] w_fixed_again = Inr d'' \<and> sim w_fixed_again d''"
    by (rule recount_again [OF w_fixed_recounted])
      (use w_in_profile w_fixed_projection in \<open>simp_all add: projection_of_def\<close>)
qed

end
