(* ===== verification/Finishes.thy ===== *)
theory Finishes
  imports TimingEngine "HOL-Library.Multiset"
begin

section \<open>Finish photos and the progress of a race\<close>

text \<open>
  \<^verbatim>\<open>service/merge.go\<close> collapses the photos several cameras took of one crossing, and
  \<^verbatim>\<open>service/race_progress.go\<close> counts the participants of a race.  Both are pure functions of their input.
\<close>

subsection \<open>Merging the photos of a crossing\<close>

record photo =
  ph_id :: string
  ph_source :: string
  ph_camera :: string
  ph_time :: int
  ph_bib :: string
  ph_bib_source :: string

record cluster =
  cs_items :: "photo list"
  cs_cams :: "string list"
  cs_anchor :: int
  cs_bib :: string

record merged_finish =
  mg_photo :: photo
  mg_cams :: "string list"
  mg_count :: nat

definition merge_window_ms :: int where
  "merge_window_ms = 1200"

definition device_key :: "photo \<Rightarrow> string" where
  "device_key p = (if ph_source p \<noteq> [] then ph_source p else ph_camera p)"

definition bib_conflict :: "string \<Rightarrow> string \<Rightarrow> bool" where
  "bib_conflict a b \<longleftrightarrow> a \<noteq> [] \<and> b \<noteq> [] \<and> a \<noteq> b"

text \<open>The clusters are scanned from the newest back, up to the first one outside the window; the place that is
  found counts from the newest.\<close>

fun find_cluster :: "int \<Rightarrow> photo \<Rightarrow> cluster list \<Rightarrow> nat option" where
  "find_cluster w p [] = None"
| "find_cluster w p (c # cs) =
    (if wrap64 (ph_time p - cs_anchor c) > w then None
     else if device_key p \<in> set (cs_cams c) \<or> bib_conflict (cs_bib c) (ph_bib p)
     then map_option Suc (find_cluster w p cs)
     else Some 0)"

definition add_photo :: "photo \<Rightarrow> cluster \<Rightarrow> cluster" where
  "add_photo p c = \<lparr> cs_items = cs_items c @ [p], cs_cams = device_key p # cs_cams c, cs_anchor = cs_anchor c,
     cs_bib = (if cs_bib c = [] then ph_bib p else cs_bib c) \<rparr>"

definition open_cluster :: "photo \<Rightarrow> cluster" where
  "open_cluster p = add_photo p \<lparr> cs_items = [], cs_cams = [], cs_anchor = ph_time p, cs_bib = ph_bib p \<rparr>"

text \<open>The clusters are kept with the newest first.\<close>

definition place_photo :: "int \<Rightarrow> cluster list \<Rightarrow> photo \<Rightarrow> cluster list" where
  "place_photo w cs p = (case find_cluster w p cs of
     None \<Rightarrow> open_cluster p # cs
   | Some i \<Rightarrow> cs[i := add_photo p (cs ! i)])"

definition manual_bib :: "photo \<Rightarrow> bool" where
  "manual_bib p \<longleftrightarrow> ph_bib_source p = ''manual'' \<and> ph_bib p \<noteq> []"

fun newest :: "photo \<Rightarrow> photo list \<Rightarrow> photo" where
  "newest rep [] = rep"
| "newest rep (p # ps) = newest (if ph_time p > ph_time rep then p else rep) ps"

fun distinct_cams :: "string list \<Rightarrow> photo list \<Rightarrow> string list" where
  "distinct_cams seen [] = []"
| "distinct_cams seen (p # ps) =
    (if ph_camera p \<noteq> [] \<and> ph_camera p \<notin> set seen
     then ph_camera p # distinct_cams (ph_camera p # seen) ps else distinct_cams seen ps)"

definition merge_cluster :: "photo list \<Rightarrow> merged_finish" where
  "merge_cluster items = \<lparr>
     mg_photo = (case List.find manual_bib items of Some p \<Rightarrow> p | None \<Rightarrow> newest (hd items) items),
     mg_cams = distinct_cams [] items, mg_count = length items \<rparr>"

definition clusters_of :: "int \<Rightarrow> photo list \<Rightarrow> cluster list" where
  "clusters_of w photos = rev (foldl (place_photo w) [] (sort_key ph_time photos))"

definition merge_finishes :: "photo list \<Rightarrow> int \<Rightarrow> merged_finish list" where
  "merge_finishes photos window =
    (let w = (if window \<le> 0 then merge_window_ms else window)
     in sort_key (\<lambda>f. - ph_time (mg_photo f)) (map (\<lambda>c. merge_cluster (cs_items c)) (clusters_of w photos)))"

text \<open>What a cluster of photos of one crossing is: photos of different devices, within the window of each other,
  whose numbers agree where they were read.\<close>

definition one_crossing :: "int \<Rightarrow> photo list \<Rightarrow> bool" where
  "one_crossing w ps \<longleftrightarrow> ps \<noteq> [] \<and> distinct (map device_key ps) \<and>
     (\<forall>p \<in> set ps. \<forall>q \<in> set ps. \<bar>ph_time p - ph_time q\<bar> \<le> w \<and> \<not> bib_conflict (ph_bib p) (ph_bib q))"

definition cluster_ok :: "int \<Rightarrow> int \<Rightarrow> cluster \<Rightarrow> bool" where
  "cluster_ok w late c \<longleftrightarrow> cs_items c \<noteq> [] \<and> distinct (map device_key (cs_items c)) \<and>
     set (cs_cams c) = device_key ` set (cs_items c) \<and> cs_anchor c \<le> late \<and> \<bar>cs_anchor c\<bar> < 2 ^ 62 \<and>
     (\<forall>p \<in> set (cs_items c). cs_anchor c \<le> ph_time p \<and> ph_time p \<le> cs_anchor c + w \<and>
        (ph_bib p = [] \<or> ph_bib p = cs_bib c))"

lemma wrap64_small: "\<bar>n\<bar> < 2 ^ 63 \<Longrightarrow> wrap64 n = n"
  unfolding wrap64_def by (subst mod_pos_pos_trivial) auto

lemma find_cluster_Some:
  assumes "find_cluster w p cs = Some i"
  shows "i < length cs \<and> wrap64 (ph_time p - cs_anchor (cs ! i)) \<le> w \<and>
    device_key p \<notin> set (cs_cams (cs ! i)) \<and> \<not> bib_conflict (cs_bib (cs ! i)) (ph_bib p)"
  using assms by (induction cs arbitrary: i) (auto split: if_splits)

lemma place_photo_items:
  "mset (concat (map cs_items (place_photo w cs p))) = add_mset p (mset (concat (map cs_items cs)))"
proof (cases "find_cluster w p cs")
  case None
  then show ?thesis by (simp add: place_photo_def open_cluster_def add_photo_def)
next
  case (Some i)
  then have i: "i < length cs" using find_cluster_Some by blast
  then have split: "cs = take i cs @ cs ! i # drop (Suc i) cs" by (rule id_take_nth_drop)
  have "mset (concat (map cs_items cs)) = mset (concat (map cs_items (take i cs @ cs ! i # drop (Suc i) cs)))"
    using split by simp
  then show ?thesis
    unfolding place_photo_def Some option.case upd_conv_take_nth_drop [OF i] by (simp add: add_photo_def)
qed

lemma place_photo_ok:
  assumes "\<forall>c \<in> set cs. cluster_ok w late c" and "late \<le> ph_time p" and "\<bar>ph_time p\<bar> < 2 ^ 62" and "0 \<le> w"
  shows "\<forall>c \<in> set (place_photo w cs p). cluster_ok w (ph_time p) c"
proof -
  have old: "cluster_ok w (ph_time p) c" if "c \<in> set cs" for c
    using assms(1,2) that by (fastforce simp: cluster_ok_def)
  show ?thesis
  proof (cases "find_cluster w p cs")
    case None
    have "cluster_ok w (ph_time p) (open_cluster p)"
      using assms(3,4) by (simp add: cluster_ok_def open_cluster_def add_photo_def)
    then show ?thesis using old None by (simp add: place_photo_def)
  next
    case (Some i)
    let ?c = "cs ! i"
    from find_cluster_Some [OF Some] have i: "i < length cs" and w: "wrap64 (ph_time p - cs_anchor ?c) \<le> w"
      and dev: "device_key p \<notin> set (cs_cams ?c)" and bib: "\<not> bib_conflict (cs_bib ?c) (ph_bib p)" by blast+
    have c: "cluster_ok w (ph_time p) ?c" using old i by simp
    have "wrap64 (ph_time p - cs_anchor ?c) = ph_time p - cs_anchor ?c"
    proof (rule wrap64_small)
      have "\<bar>cs_anchor ?c\<bar> < 2 ^ 62" using c by (simp add: cluster_ok_def)
      moreover have "(2 :: int) ^ 63 = 2 * 2 ^ 62" by simp
      ultimately show "\<bar>ph_time p - cs_anchor ?c\<bar> < 2 ^ 63" using assms(3) by linarith
    qed
    then have "cluster_ok w (ph_time p) (add_photo p ?c)"
      using c w dev bib by (auto simp: cluster_ok_def add_photo_def bib_conflict_def)
    then show ?thesis
      using old Some set_update_subset_insert [of cs i "add_photo p ?c"] by (auto simp: place_photo_def)
  qed
qed

lemma foldl_place:
  assumes "sorted (map ph_time ps)" and "\<forall>p \<in> set ps. \<bar>ph_time p\<bar> < 2 ^ 62" and "0 \<le> w"
    and "\<forall>c \<in> set cs. cluster_ok w late c" and "\<forall>p \<in> set ps. late \<le> ph_time p"
  shows "mset (concat (map cs_items (foldl (place_photo w) cs ps))) = mset (concat (map cs_items cs)) + mset ps \<and>
    (\<exists>t. \<forall>c \<in> set (foldl (place_photo w) cs ps). cluster_ok w t c)"
  using assms
proof (induction ps arbitrary: cs late)
  case Nil
  then show ?case by auto
next
  case (Cons p ps)
  have "\<forall>c \<in> set (place_photo w cs p). cluster_ok w (ph_time p) c"
    using Cons.prems by (intro place_photo_ok) auto
  then have "mset (concat (map cs_items (foldl (place_photo w) (place_photo w cs p) ps))) =
      mset (concat (map cs_items (place_photo w cs p))) + mset ps \<and>
      (\<exists>t. \<forall>c \<in> set (foldl (place_photo w) (place_photo w cs p) ps). cluster_ok w t c)"
    using Cons.prems by (intro Cons.IH [where late = "ph_time p"]) auto
  then show ?case by (simp add: place_photo_items)
qed

lemma cluster_crossing:
  assumes "cluster_ok w t c"
  shows "one_crossing w (cs_items c)"
proof -
  have "\<bar>ph_time p - ph_time q\<bar> \<le> w \<and> \<not> bib_conflict (ph_bib p) (ph_bib q)"
    if "p \<in> set (cs_items c)" "q \<in> set (cs_items c)" for p q
  proof -
    have "cs_anchor c \<le> ph_time p \<and> ph_time p \<le> cs_anchor c + w" "cs_anchor c \<le> ph_time q \<and> ph_time q \<le> cs_anchor c + w"
      and "ph_bib p = [] \<or> ph_bib p = cs_bib c" "ph_bib q = [] \<or> ph_bib q = cs_bib c"
      using assms that unfolding cluster_ok_def by blast+
    then show ?thesis by (auto simp: bib_conflict_def)
  qed
  then show ?thesis using assms by (simp add: one_crossing_def cluster_ok_def)
qed

lemma mset_concat_rev: "mset (concat (rev xss)) = mset (concat xss)"
  by (induction xss) auto

text \<open>
  C25. Merging puts every photo into exactly one finish, and the photos of one finish come from different
  cameras, lie within the window of each other and do not contradict each other's numbers.
\<close>

theorem merge_finishes_partition:
  assumes "\<forall>p \<in> set photos. \<bar>ph_time p\<bar> < 2 ^ 62"
  shows "\<exists>groups. mset (merge_finishes photos window) = mset (map merge_cluster groups) \<and>
    mset (concat groups) = mset photos \<and>
    (\<forall>g \<in> set groups. one_crossing (if window \<le> 0 then merge_window_ms else window) g)"
proof -
  let ?w = "if window \<le> 0 then merge_window_ms else window"
  let ?cs = "foldl (place_photo ?w) [] (sort_key ph_time photos)"
  have bound: "\<forall>p \<in> set (sort_key ph_time photos). (if photos = [] then 0 else Min (ph_time ` set photos)) \<le> ph_time p"
    by auto
  have "mset (concat (map cs_items ?cs)) = mset photos \<and> (\<exists>t. \<forall>c \<in> set ?cs. cluster_ok ?w t c)"
    using foldl_place [OF _ _ _ _ bound, of ?w "[]"] assms by (simp add: merge_window_ms_def)
  then have m: "mset (concat (map cs_items ?cs)) = mset photos" and ok: "\<forall>c \<in> set ?cs. one_crossing ?w (cs_items c)"
    using cluster_crossing by blast+
  let ?groups = "rev (map cs_items ?cs)"
  have "mset (merge_finishes photos window) = mset (map merge_cluster ?groups)"
    by (simp add: merge_finishes_def Let_def clusters_of_def comp_def rev_map flip: mset_map)
  moreover have "mset (concat ?groups) = mset photos"
    using m by (simp only: mset_concat_rev)
  ultimately show ?thesis using ok by (intro exI [of _ ?groups]) auto
qed

definition w_photos :: "photo list" where
  "w_photos = [\<lparr> ph_id = ''1'', ph_source = ''a'', ph_camera = ''A'', ph_time = 1000, ph_bib = [], ph_bib_source = [] \<rparr>,
     \<lparr> ph_id = ''2'', ph_source = ''b'', ph_camera = ''B'', ph_time = 1300, ph_bib = ''7'', ph_bib_source = ''manual'' \<rparr>,
     \<lparr> ph_id = ''3'', ph_source = ''a'', ph_camera = ''A'', ph_time = 1600, ph_bib = ''8'', ph_bib_source = [] \<rparr>]"

theorem merge_finishes_partition_witness:
  "map mg_count (merge_finishes w_photos 0) = [1, 2] \<and>
   (\<exists>groups. mset (merge_finishes w_photos 0) = mset (map merge_cluster groups) \<and> mset (concat groups) = mset w_photos \<and>
     (\<forall>g \<in> set groups. one_crossing 1200 g))"
proof -
  have "map mg_count (merge_finishes w_photos 0) = [1, 2]" by code_simp
  moreover have "\<forall>p \<in> set w_photos. \<bar>ph_time p\<bar> < 2 ^ 62" by (simp add: w_photos_def)
  ultimately show ?thesis using merge_finishes_partition [of w_photos 0] by (simp add: merge_window_ms_def)
qed

section \<open>The progress of a race\<close>

record progress_row =
  oc_member :: string
  oc_number :: "int option"
  oc_first :: string
  oc_last :: string
  oc_gender :: "string option"
  oc_club :: "string option"
  oc_category :: "string option"
  oc_category_name :: "string option"
  oc_start :: int

record progress_counts =
  pc_total :: nat
  pc_finished :: nat
  pc_on_course :: nat
  pc_not_started :: nat
  pc_dns :: nat
  pc_dnf :: nat
  pc_dsq :: nat
  pc_review :: nat
  pc_reserve :: nat

record race_progress =
  pg_counts :: progress_counts
  pg_rows :: "progress_row list"

definition zero_counts :: progress_counts where
  "zero_counts = \<lparr> pc_total = 0, pc_finished = 0, pc_on_course = 0, pc_not_started = 0, pc_dns = 0, pc_dnf = 0,
     pc_dsq = 0, pc_review = 0, pc_reserve = 0 \<rparr>"

text \<open>A member with the club of its metadata.\<close>

type_synonym entrant = "timed_member \<times> string option"

definition course_row :: "(string \<Rightarrow> string option) \<Rightarrow> entrant \<Rightarrow> int \<Rightarrow> progress_row" where
  "course_row names e start = (let m = fst e in \<lparr> oc_member = mb_id m, oc_number = mb_number m, oc_first = mb_first m,
     oc_last = mb_last m, oc_gender = mb_gender m, oc_club = snd e, oc_category = mb_category m,
     oc_category_name = (case mb_category m of None \<Rightarrow> None | Some c \<Rightarrow> names c), oc_start = start \<rparr>)"

definition effective_start :: "timed_race \<Rightarrow> timed_member \<Rightarrow> int option" where
  "effective_start r m = (case mb_start m of None \<Rightarrow> tr_started r | Some t \<Rightarrow> Some t)"

definition settle_finish :: "bool \<Rightarrow> progress_counts \<Rightarrow> progress_counts" where
  "settle_finish classified c =
    (if classified then c\<lparr> pc_finished := pc_finished c + 1 \<rparr> else c\<lparr> pc_review := pc_review c + 1 \<rparr>)"

text \<open>The time limit of a race against the clock: whether it is missing, over or still running.\<close>

datatype clock_limit = No_Limit | Bad_Limit | Limit_Over | Limit_Running

definition clock_limit_of :: "timed_race \<Rightarrow> int \<Rightarrow> int \<Rightarrow> clock_limit" where
  "clock_limit_of r now start =
    (if tr_format r \<noteq> ''TimeLimited'' then No_Limit
     else case tr_limit r of
            None \<Rightarrow> Bad_Limit
          | Some n \<Rightarrow> if n \<le> 0 then Bad_Limit else if (now - start) div 1000 \<ge> n then Limit_Over else Limit_Running)"

definition count_started :: "timed_race \<Rightarrow> (string \<Rightarrow> string option) \<Rightarrow> bool \<Rightarrow> int \<Rightarrow> entrant \<Rightarrow> int \<Rightarrow>
    progress_counts \<times> progress_row list \<Rightarrow> progress_counts \<times> progress_row list" where
  "count_started r names classified now e start s = (case s of (c, rows) \<Rightarrow>
     (case clock_limit_of r now start of
        Bad_Limit \<Rightarrow> (c\<lparr> pc_review := pc_review c + 1 \<rparr>, rows)
      | Limit_Over \<Rightarrow> (settle_finish classified c, rows)
      | _ \<Rightarrow> (c, rows @ [course_row names e start])))"

definition count_ok :: "timed_race \<Rightarrow> (string \<Rightarrow> string option) \<Rightarrow> bool \<Rightarrow> int \<Rightarrow> entrant \<Rightarrow>
    progress_counts \<times> progress_row list \<Rightarrow> progress_counts \<times> progress_row list" where
  "count_ok r names classified now e s = (case s of (c, rows) \<Rightarrow>
     if mb_finish (fst e) \<noteq> None then (settle_finish classified c, rows)
     else (case effective_start r (fst e) of
             None \<Rightarrow> (c\<lparr> pc_not_started := pc_not_started c + 1 \<rparr>, rows)
           | Some t \<Rightarrow> if t \<le> 0 \<or> t > now then (c\<lparr> pc_not_started := pc_not_started c + 1 \<rparr>, rows)
                       else count_started r names classified now e t (c, rows)))"

definition count_member :: "timed_race \<Rightarrow> (string \<Rightarrow> string option) \<Rightarrow> string set \<Rightarrow> string set \<Rightarrow> int \<Rightarrow>
    progress_counts \<times> progress_row list \<Rightarrow> entrant \<Rightarrow> progress_counts \<times> progress_row list" where
  "count_member r names classified reserved now s e = (case s of (c, rows) \<Rightarrow>
     if mb_id (fst e) \<in> reserved then (c\<lparr> pc_reserve := pc_reserve c + 1 \<rparr>, rows)
     else let c = c\<lparr> pc_total := pc_total c + 1 \<rparr>; st = mb_status (fst e) in
       if st = 1 then (c\<lparr> pc_dns := pc_dns c + 1 \<rparr>, rows)
       else if st = 2 then (c\<lparr> pc_dnf := pc_dnf c + 1 \<rparr>, rows)
       else if st = 3 then (c\<lparr> pc_dsq := pc_dsq c + 1 \<rparr>, rows)
       else if st = 0 then count_ok r names (mb_id (fst e) \<in> classified) now e (c, rows)
       else (c\<lparr> pc_review := pc_review c + 1 \<rparr>, rows))"

text \<open>By number, those without one last, then by name and id.\<close>

definition row_before :: "progress_row \<Rightarrow> progress_row \<Rightarrow> bool" where
  "row_before a b =
    (case (oc_number a, oc_number b) of
       (Some x, Some y) \<Rightarrow> if x \<noteq> y then x < y else
         (if oc_last a \<noteq> oc_last b then oc_last a < oc_last b
          else if oc_first a \<noteq> oc_first b then oc_first a < oc_first b else oc_member a < oc_member b)
     | (Some _, None) \<Rightarrow> True
     | (None, Some _) \<Rightarrow> False
     | (None, None) \<Rightarrow>
         (if oc_last a \<noteq> oc_last b then oc_last a < oc_last b
          else if oc_first a \<noteq> oc_first b then oc_first a < oc_first b else oc_member a < oc_member b))"

fun insert_stable :: "progress_row \<Rightarrow> progress_row list \<Rightarrow> progress_row list" where
  "insert_stable r [] = [r]"
| "insert_stable r (x # xs) = (if row_before x r then x # insert_stable r xs else r # x # xs)"

definition sort_rows :: "progress_row list \<Rightarrow> progress_row list" where
  "sort_rows rows = foldr insert_stable rows []"

definition build_race_progress :: "timed_race \<Rightarrow> entrant list \<Rightarrow> string set \<Rightarrow> (string \<Rightarrow> string option) \<Rightarrow>
    string set \<Rightarrow> int \<Rightarrow> race_progress" where
  "build_race_progress r entrants classified names reserved now =
    (case foldl (count_member r names classified reserved now) (zero_counts, []) entrants of (c, rows) \<Rightarrow>
       \<lparr> pg_counts = c\<lparr> pc_on_course := length rows \<rparr>, pg_rows = sort_rows rows \<rparr>)"

definition classified_ids :: "(string \<times> nat option) list \<Rightarrow> string set" where
  "classified_ids ranked = fst ` set (filter (\<lambda>x. snd x \<noteq> None) ranked)"

text \<open>The states of a participant add up, whatever the input.\<close>

definition tally :: "progress_counts \<times> progress_row list \<Rightarrow> nat" where
  "tally s = (case s of (c, rows) \<Rightarrow> pc_finished c + length rows + pc_not_started c + pc_dns c + pc_dnf c + pc_dsq c + pc_review c)"

definition silent :: "string set \<Rightarrow> entrant \<Rightarrow> bool" where
  "silent reserved e \<longleftrightarrow> mb_id (fst e) \<notin> reserved \<and> mb_status (fst e) = 1"

lemma count_started_tally:
  "tally (count_started r names k now e t (c, rows)) = tally (c, rows) + 1 \<and>
   pc_total (fst (count_started r names k now e t (c, rows))) = pc_total c \<and>
   pc_reserve (fst (count_started r names k now e t (c, rows))) = pc_reserve c \<and>
   pc_dns (fst (count_started r names k now e t (c, rows))) = pc_dns c"
  by (simp add: count_started_def tally_def settle_finish_def split: clock_limit.split)

lemma count_ok_tally:
  "tally (count_ok r names k now e (c, rows)) = tally (c, rows) + 1 \<and>
   pc_total (fst (count_ok r names k now e (c, rows))) = pc_total c \<and>
   pc_reserve (fst (count_ok r names k now e (c, rows))) = pc_reserve c \<and>
   pc_dns (fst (count_ok r names k now e (c, rows))) = pc_dns c"
proof (cases "mb_finish (fst e) \<noteq> None")
  case True
  then show ?thesis by (simp add: count_ok_def settle_finish_def tally_def)
next
  case False
  then show ?thesis
    using count_started_tally by (simp add: count_ok_def tally_def split: option.split)
qed

definition member_tally :: "progress_counts \<times> progress_row list \<Rightarrow> nat \<times> nat \<times> nat \<times> nat" where
  "member_tally s = (tally s, pc_total (fst s), pc_reserve (fst s), pc_dns (fst s))"

lemma count_member_tally:
  "member_tally (count_member r names k reserved now s e) =
    (if mb_id (fst e) \<in> reserved then (tally s, pc_total (fst s), pc_reserve (fst s) + 1, pc_dns (fst s))
     else (tally s + 1, pc_total (fst s) + 1, pc_reserve (fst s), pc_dns (fst s) + (if silent reserved e then 1 else 0)))"
proof (cases s)
  case (Pair c rows)
  then show ?thesis
    using count_ok_tally [of r names "mb_id (fst e) \<in> k" now e "c\<lparr> pc_total := pc_total c + 1 \<rparr>" rows]
    by (simp add: count_member_def member_tally_def Let_def silent_def) (simp add: tally_def)
qed

lemma foldl_tally:
  "member_tally (foldl (count_member r names k reserved now) s es) =
    (tally s + length (filter (\<lambda>e. mb_id (fst e) \<notin> reserved) es),
     pc_total (fst s) + length (filter (\<lambda>e. mb_id (fst e) \<notin> reserved) es),
     pc_reserve (fst s) + length (filter (\<lambda>e. mb_id (fst e) \<in> reserved) es),
     pc_dns (fst s) + length (filter (silent reserved) es))"
proof (induction es arbitrary: s)
  case Nil
  then show ?case by (simp add: member_tally_def)
next
  case (Cons e es)
  have "silent reserved e \<Longrightarrow> mb_id (fst e) \<notin> reserved" by (simp add: silent_def)
  then show ?case using Cons.IH [of "count_member r names k reserved now s e"] count_member_tally [of r names k reserved now s e]
    by (auto simp: member_tally_def)
qed

lemma insert_stable_length [simp]: "length (insert_stable r rows) = Suc (length rows)"
  by (induction rows) auto

lemma sort_rows_length [simp]: "length (sort_rows rows) = length rows"
  by (induction rows) (auto simp: sort_rows_def)

text \<open>
  The progress counts every participant exactly once: the states add up to the registrations outside the
  reserve, reserve and registrations to everybody, the list has as many rows as its count says, and only a
  recorded DNS counts as one, never silence.
\<close>

theorem progress_counts_everybody:
  "let p = build_race_progress r entrants classified names reserved now; c = pg_counts p in
    pc_finished c + pc_on_course c + pc_not_started c + pc_dns c + pc_dnf c + pc_dsq c + pc_review c = pc_total c \<and>
    pc_total c + pc_reserve c = length entrants \<and> pc_on_course c = length (pg_rows p) \<and>
    pc_dns c = length (filter (silent reserved) entrants)"
proof -
  obtain c0 rows where f: "foldl (count_member r names classified reserved now) (zero_counts, []) entrants = (c0, rows)"
    by fastforce
  have len: "length (filter (\<lambda>e. mb_id (fst e) \<notin> reserved) es) + length (filter (\<lambda>e. mb_id (fst e) \<in> reserved) es) = length es"
    for es :: "entrant list"
    by (induction es) auto
  show ?thesis
    using foldl_tally [of r names classified reserved now "(zero_counts, [])" entrants] f len [of entrants]
    by (simp add: Let_def build_race_progress_def member_tally_def tally_def zero_counts_def)
qed

end
