(* ===== verification/FinishHub.thy ===== *)
theory FinishHub
  imports GoText Machines "HOL-Library.Word"
begin

section \<open>The live finish broadcast\<close>

text \<open>
  \<^verbatim>\<open>finishchange/signal.go\<close> and \<^verbatim>\<open>transport/publicweb/finish_hub.go\<close>: writers commit and notify, one
  dispatcher wakes a worker per race, the worker loads the finishes and offers them to the connected screens.
  Every shared access is a step of its own, so that steps of different goroutines interleave freely; a channel
  of capacity one is a flag.  The texts that the loader would return for each race are \<open>hb_world\<close> (\<open>Inl\<close>:
  loading fails); the keyed hash that names a frame is a parameter.  A screen keeps what it has taken in
  \<open>sb_got\<close>, newest last.
\<close>

record frame =
  fm_id :: string
  fm_json :: string

definition wire :: "frame \<Rightarrow> string" where
  "wire f = ''event: snapshot'' @ [CHR 0x0A] @ ''id: '' @ fm_id f @ [CHR 0x0A] @ ''data: '' @ fm_json f @
     [CHR 0x0A, CHR 0x0A]"

record screen =
  sb_pending :: "frame option"
  sb_last :: string
  sb_wake :: bool
  sb_error :: "string option"
  sb_cancelled :: bool
  sb_closed :: bool
  sb_min :: nat
  sb_got :: "frame list"

datatype phase =
    Waiting
  | Counted nat
  | Stamped nat "64 word"
  | Building nat "64 word"
  | Built nat "64 word"
  | Offered "64 word"
  | Stopped

record group =
  gp_race :: string
  gp_mapped :: bool
  gp_cancelled :: bool
  gp_wake :: bool
  gp_screens :: "screen list"
  gp_serial :: nat
  gp_phase :: phase
  gp_previous :: "frame option"

record hub =
  hb_event :: string
  hb_epoch :: nat
  hb_generation :: "64 word"
  hb_wake :: bool
  hb_dispatching :: bool
  hb_unnotified :: nat
  hb_world :: "string \<Rightarrow> string + string"
  hb_groups :: "group list"
  hb_clients :: nat
  hb_frames :: nat
  hb_cancelled :: bool
  hb_stopped :: bool

definition max_finish_clients :: nat where
  "max_finish_clients = 32"

definition max_frame_bytes :: nat where
  "max_frame_bytes = 256 * 1024"

definition build_slots :: nat where
  "build_slots = 4"

definition new_hub :: "string \<Rightarrow> nat \<Rightarrow> 64 word \<Rightarrow> (string \<Rightarrow> string + string) \<Rightarrow> hub" where
  "new_hub event epoch generation world = \<lparr> hb_event = event, hb_epoch = epoch, hb_generation = generation,
     hb_wake = False, hb_dispatching = False, hb_unnotified = 0, hb_world = world, hb_groups = [], hb_clients = 0, hb_frames = 0,
     hb_cancelled = False, hb_stopped = False \<rparr>"

subsection \<open>The operations\<close>

definition request :: "group \<Rightarrow> group" where
  "request g = g\<lparr> gp_wake := True \<rparr>"

text \<open>A notification raises the generation and then leaves a wake-up, if there is none.\<close>

definition raise_generation :: "hub \<Rightarrow> hub" where
  "raise_generation h = h\<lparr> hb_generation := hb_generation h + 1 \<rparr>"

definition wake_up :: "hub \<Rightarrow> hub" where
  "wake_up h = h\<lparr> hb_wake := True, hb_unnotified := hb_unnotified h - 1 \<rparr>"

text \<open>The dispatcher receives the wake-up, and requests a build of every group under the lock of the hub.\<close>

definition hear :: "hub \<Rightarrow> hub" where
  "hear h = h\<lparr> hb_wake := False, hb_dispatching := True \<rparr>"

definition dispatch :: "hub \<Rightarrow> hub" where
  "dispatch h = h\<lparr> hb_dispatching := False, hb_groups := map (\<lambda>g. if gp_mapped g then request g else g) (hb_groups h) \<rparr>"

definition on_group :: "nat \<Rightarrow> (group \<Rightarrow> group) \<Rightarrow> hub \<Rightarrow> hub" where
  "on_group i f h = h\<lparr> hb_groups := (hb_groups h)[i := f (hb_groups h ! i)] \<rparr>"

definition new_screen :: "nat \<Rightarrow> screen" where
  "new_screen least = \<lparr> sb_pending = None, sb_last = [], sb_wake = False, sb_error = None, sb_cancelled = False,
     sb_closed = False, sb_min = least, sb_got = [] \<rparr>"

definition join_group :: "group \<Rightarrow> group" where
  "join_group g = request (g\<lparr> gp_screens := gp_screens g @ [new_screen (gp_serial g + 1)] \<rparr>)"

definition new_group :: "string \<Rightarrow> group" where
  "new_group race = \<lparr> gp_race = race, gp_mapped = True, gp_cancelled = False, gp_wake = False, gp_screens = [],
     gp_serial = 0, gp_phase = Waiting, gp_previous = None \<rparr>"

definition unmap :: "string \<Rightarrow> group \<Rightarrow> group" where
  "unmap race g = (if gp_race g = race then g\<lparr> gp_mapped := False \<rparr> else g)"

definition active_workers :: "hub \<Rightarrow> nat" where
  "active_workers h = length (filter (\<lambda>g. gp_phase g \<noteq> Stopped) (hb_groups h))"

fun group_of :: "string \<Rightarrow> group list \<Rightarrow> nat option" where
  "group_of race [] = None"
| "group_of race (g # gs) =
    (if gp_mapped g \<and> gp_race g = race then Some 0 else map_option Suc (group_of race gs))"

definition open_group :: "string \<Rightarrow> hub \<Rightarrow> hub res" where
  "open_group race h =
    (if active_workers h \<ge> max_finish_clients then Inl ''busy''
     else Inr (h\<lparr> hb_groups := map (unmap race) (hb_groups h) @ [join_group (new_group race)],
                  hb_clients := hb_clients h + 1 \<rparr>))"

definition subscribe :: "string \<Rightarrow> hub \<Rightarrow> hub res" where
  "subscribe race h =
    (if hb_stopped h \<or> hb_cancelled h then Inl ''canceled''
     else if hb_clients h \<ge> max_finish_clients then Inl ''busy''
     else case group_of race (hb_groups h) of
            None \<Rightarrow> open_group race h
          | Some i \<Rightarrow> if gp_cancelled (hb_groups h ! i) then open_group race h
                      else Inr ((on_group i join_group h)\<lparr> hb_clients := hb_clients h + 1 \<rparr>))"

text \<open>A frame is offered once: the screen remembers the last id.\<close>

definition offer :: "frame \<Rightarrow> screen \<Rightarrow> screen" where
  "offer f s = (if sb_cancelled s \<or> sb_last s = fm_id f then s
     else s\<lparr> sb_pending := Some f, sb_last := fm_id f, sb_wake := True \<rparr>)"

definition take_frame :: "screen \<Rightarrow> screen" where
  "take_frame s = s\<lparr> sb_pending := None, sb_wake := False,
     sb_got := sb_got s @ (case sb_pending s of None \<Rightarrow> [] | Some f \<Rightarrow> [f]) \<rparr>"

definition fail_screen :: "string \<Rightarrow> screen \<Rightarrow> screen" where
  "fail_screen e s = (if sb_closed s then s else s\<lparr> sb_error := Some e, sb_cancelled := True \<rparr>)"

definition on_screen :: "nat \<Rightarrow> (screen \<Rightarrow> screen) \<Rightarrow> group \<Rightarrow> group" where
  "on_screen j f g = g\<lparr> gp_screens := (gp_screens g)[j := f (gp_screens g ! j)] \<rparr>"

definition close_screen :: "screen \<Rightarrow> screen" where
  "close_screen s = s\<lparr> sb_cancelled := True, sb_closed := True, sb_pending := None \<rparr>"

definition close_in_group :: "nat \<Rightarrow> group \<Rightarrow> group" where
  "close_in_group j g =
    (let g' = on_screen j close_screen g
     in if list_all sb_closed (gp_screens g') then g'\<lparr> gp_cancelled := True, gp_mapped := False \<rparr> else g')"

subsection \<open>The worker of a group\<close>

definition frame_text :: "hub \<Rightarrow> string \<Rightarrow> nat \<Rightarrow> string" where
  "frame_text h race revision = ''view:'' @ format_nat (hb_epoch h) @ '':'' @ hb_event h @ '':'' @ race @ '':'' @
     format_nat revision"

definition count_build :: "group \<Rightarrow> group" where
  "count_build g = g\<lparr> gp_wake := False, gp_serial := gp_serial g + 1, gp_phase := Counted (gp_serial g + 1) \<rparr>"

definition same_frame :: "group \<Rightarrow> string \<Rightarrow> bool" where
  "same_frame g data = (case gp_previous g of None \<Rightarrow> False | Some f \<Rightarrow> fm_json f = data)"

definition build :: "(string \<Rightarrow> string) \<Rightarrow> nat \<Rightarrow> nat \<Rightarrow> 64 word \<Rightarrow> string \<Rightarrow> hub \<Rightarrow> hub" where
  "build key i n gen data h =
    (let g = hb_groups h ! i in
     if same_frame g data then on_group i (\<lambda>g. g\<lparr> gp_phase := Built n gen \<rparr>) h
     else (on_group i (\<lambda>g. g\<lparr> gp_phase := Built n gen, gp_previous :=
             Some \<lparr> fm_id = key (frame_text h (gp_race g) (hb_frames h + 1)), fm_json = data \<rparr> \<rparr>) h)
          \<lparr> hb_frames := hb_frames h + 1 \<rparr>)"

definition fail_build :: "string \<Rightarrow> group \<Rightarrow> group" where
  "fail_build e g = g\<lparr> gp_screens := map (fail_screen e) (gp_screens g), gp_cancelled := True, gp_phase := Stopped \<rparr>"

definition offer_build :: "nat \<Rightarrow> 64 word \<Rightarrow> frame \<Rightarrow> group \<Rightarrow> group" where
  "offer_build n gen f g = (if gp_cancelled g then g
     else g\<lparr> gp_screens := map (\<lambda>s. if \<not> sb_closed s \<and> n \<ge> sb_min s then offer f s else s) (gp_screens g) \<rparr>)
     \<lparr> gp_phase := Offered gen \<rparr>"

definition finish_build :: "64 word \<Rightarrow> 64 word \<Rightarrow> group \<Rightarrow> group" where
  "finish_build now gen g = (if now \<noteq> gen then request g else g)\<lparr> gp_phase := Waiting \<rparr>"

definition building :: "group \<Rightarrow> bool" where
  "building g = (case gp_phase g of Building _ _ \<Rightarrow> True | _ \<Rightarrow> False)"

definition free_slot :: "hub \<Rightarrow> bool" where
  "free_slot h \<longleftrightarrow> length (filter building (hb_groups h)) < build_slots"

text \<open>
  What the hub does by itself: the dispatcher and the workers.  A load may fail at any time (its context is
  cancelled or times out); it succeeds only with the text the tables give at that moment, if that is not too
  long.
\<close>

inductive hub_work :: "(string \<Rightarrow> string) \<Rightarrow> hub \<Rightarrow> hub \<Rightarrow> bool" for key where
  hear: "hb_wake h \<Longrightarrow> \<not> hb_dispatching h \<Longrightarrow> \<not> hb_stopped h \<Longrightarrow> hub_work key h (hear h)"
| dispatch: "hb_dispatching h \<Longrightarrow> hub_work key h (dispatch h)"
| wake: "i < length (hb_groups h) \<Longrightarrow> gp_phase (hb_groups h ! i) = Waiting \<Longrightarrow> gp_wake (hb_groups h ! i) \<Longrightarrow>
    hub_work key h (on_group i count_build h)"
| stamp: "i < length (hb_groups h) \<Longrightarrow> gp_phase (hb_groups h ! i) = Counted n \<Longrightarrow>
    hub_work key h (on_group i (\<lambda>g. g\<lparr> gp_phase := Stamped n (hb_generation h) \<rparr>) h)"
| slot: "i < length (hb_groups h) \<Longrightarrow> gp_phase (hb_groups h ! i) = Stamped n gen \<Longrightarrow> free_slot h \<Longrightarrow>
    hub_work key h (on_group i (\<lambda>g. g\<lparr> gp_phase := Building n gen \<rparr>) h)"
| leave: "i < length (hb_groups h) \<Longrightarrow> gp_cancelled (hb_groups h ! i) \<Longrightarrow>
    gp_phase (hb_groups h ! i) = Waiting \<or> gp_phase (hb_groups h ! i) = Stamped n gen \<Longrightarrow>
    hub_work key h (on_group i (\<lambda>g. g\<lparr> gp_phase := Stopped \<rparr>) h)"
| load: "i < length (hb_groups h) \<Longrightarrow> gp_phase (hb_groups h ! i) = Building n gen \<Longrightarrow>
    hb_world h (gp_race (hb_groups h ! i)) = Inr data \<Longrightarrow> length data \<le> max_frame_bytes \<Longrightarrow>
    hub_work key h (build key i n gen data h)"
| fail: "i < length (hb_groups h) \<Longrightarrow> gp_phase (hb_groups h ! i) = Building n gen \<Longrightarrow>
    hub_work key h (on_group i (fail_build e) h)"
| offer: "i < length (hb_groups h) \<Longrightarrow> gp_phase (hb_groups h ! i) = Built n gen \<Longrightarrow>
    gp_previous (hb_groups h ! i) = Some f \<Longrightarrow> hub_work key h (on_group i (offer_build n gen f) h)"
| finish: "i < length (hb_groups h) \<Longrightarrow> gp_phase (hb_groups h ! i) = Offered gen \<Longrightarrow>
    hub_work key h (on_group i (finish_build (hb_generation h) gen) h)"
| stop: "hb_cancelled h \<Longrightarrow> \<not> hb_dispatching h \<Longrightarrow> \<not> hb_stopped h \<Longrightarrow> hub_work key h (h\<lparr> hb_stopped := True \<rparr>)"

text \<open>What happens to the hub: commits, notifications, screens, and the end of the publication.\<close>

definition cancel_hub :: "hub \<Rightarrow> hub" where
  "cancel_hub h = h\<lparr> hb_cancelled := True, hb_groups := map (\<lambda>g. g\<lparr> gp_cancelled := True \<rparr>) (hb_groups h) \<rparr>"

inductive hub_event :: "hub \<Rightarrow> hub \<Rightarrow> bool" where
  commit: "hub_event h (h\<lparr> hb_world := world, hb_unnotified := hb_unnotified h + 1 \<rparr>)"
| raise_generation: "hub_event h (raise_generation h)"
| wake_up: "hb_unnotified h > 0 \<Longrightarrow> hub_event h (wake_up h)"
| subscribe: "subscribe race h = Inr h' \<Longrightarrow> hub_event h h'"
| take_frame: "i < length (hb_groups h) \<Longrightarrow> j < length (gp_screens (hb_groups h ! i)) \<Longrightarrow>
    hub_event h (on_group i (on_screen j take_frame) h)"
| close: "i < length (hb_groups h) \<Longrightarrow> j < length (gp_screens (hb_groups h ! i)) \<Longrightarrow>
    \<not> sb_closed (gp_screens (hb_groups h ! i) ! j) \<Longrightarrow>
    hub_event h ((on_group i (close_in_group j) h)\<lparr> hb_clients := hb_clients h - 1 \<rparr>)"
| cancel: "hub_event h (cancel_hub h)"

inductive hub_step :: "(string \<Rightarrow> string) \<Rightarrow> hub \<Rightarrow> hub \<Rightarrow> bool" for key where
  work: "hub_work key h h' \<Longrightarrow> hub_step key h h'"
| event: "hub_event h h' \<Longrightarrow> hub_step key h h'"

end
