(* ===== verification/FinishHubLaws.thy ===== *)
theory FinishHubLaws
  imports FinishHub
begin

section \<open>No finish is lost on the way to a screen\<close>

text \<open>
  The invariant says of every live group how its worker, its screens and its last frame stand to each other and
  to the tables; the measure \<open>work\<close> counts the steps the hub can still take by itself.
\<close>

definition shown :: "screen \<Rightarrow> frame option" where
  "shown s = (case sb_pending s of Some f \<Rightarrow> Some f | None \<Rightarrow> if sb_got s = [] then None else Some (last (sb_got s)))"

definition live :: "screen \<Rightarrow> bool" where
  "live s \<longleftrightarrow> \<not> sb_cancelled s \<and> \<not> sb_closed s"

definition screen_frames :: "screen \<Rightarrow> frame set" where
  "screen_frames s = set_option (sb_pending s) \<union> set (sb_got s)"

definition group_frames :: "group \<Rightarrow> frame set" where
  "group_frames g = set_option (gp_previous g) \<union> (\<Union>s \<in> set (gp_screens g). screen_frames s)"

definition frame_id :: "(string \<Rightarrow> string) \<Rightarrow> hub \<Rightarrow> string \<Rightarrow> nat \<Rightarrow> string" where
  "frame_id key h race r = key (frame_text h race r)"

text \<open>Every frame of a group has a revision of its own.\<close>

definition frames_named :: "(string \<Rightarrow> string) \<Rightarrow> hub \<Rightarrow> group \<Rightarrow> bool" where
  "frames_named key h g \<longleftrightarrow>
     (\<forall>f \<in> group_frames g. \<exists>r. r \<le> hb_frames h \<and> fm_id f = frame_id key h (gp_race g) r) \<and>
     (\<forall>f \<in> group_frames g. \<forall>f' \<in> group_frames g. fm_id f = fm_id f' \<longrightarrow> f = f')"

definition screen_linked :: "screen \<Rightarrow> bool" where
  "screen_linked s \<longleftrightarrow> (live s \<longrightarrow> sb_last s = (case shown s of None \<Rightarrow> [] | Some f \<Rightarrow> fm_id f))"

definition phase_serial :: "phase \<Rightarrow> nat \<Rightarrow> bool" where
  "phase_serial p k = (case p of Counted n \<Rightarrow> n = k | Stamped n _ \<Rightarrow> n = k | Building n _ \<Rightarrow> n = k | Built n _ \<Rightarrow> n = k
     | _ \<Rightarrow> True)"

text \<open>The last build is over and its frame was offered.\<close>

definition offered :: "phase \<Rightarrow> bool" where
  "offered p = (case p of Waiting \<Rightarrow> True | Offered _ \<Rightarrow> True | _ \<Rightarrow> False)"

definition loaded :: "phase \<Rightarrow> bool" where
  "loaded p = (case p of Waiting \<Rightarrow> True | Offered _ \<Rightarrow> True | Built _ _ \<Rightarrow> True | _ \<Rightarrow> False)"

definition screens_served :: "group \<Rightarrow> bool" where
  "screens_served g \<longleftrightarrow> (\<forall>s \<in> set (gp_screens g). live s \<longrightarrow> sb_min s \<le> gp_serial g + 1 \<and>
     (gp_serial g < sb_min s \<longrightarrow> gp_wake g) \<and>
     (offered (gp_phase g) \<and> sb_min s \<le> gp_serial g \<longrightarrow> gp_previous g \<noteq> None \<and> shown s = gp_previous g))"

definition quiet :: "hub \<Rightarrow> group \<Rightarrow> bool" where
  "quiet h g \<longleftrightarrow> hb_unnotified h = 0 \<and> \<not> hb_wake h \<and> \<not> hb_dispatching h \<and> \<not> gp_wake g"

definition current :: "hub \<Rightarrow> group \<Rightarrow> bool" where
  "current h g \<longleftrightarrow> (quiet h g \<and> loaded (gp_phase g) \<longrightarrow>
     (\<exists>f. gp_previous g = Some f \<and> hb_world h (gp_race g) = Inr (fm_json f)))"

definition group_ok :: "(string \<Rightarrow> string) \<Rightarrow> hub \<Rightarrow> group \<Rightarrow> bool" where
  "group_ok key h g \<longleftrightarrow> frames_named key h g \<and> list_all screen_linked (gp_screens g) \<and>
     phase_serial (gp_phase g) (gp_serial g) \<and>
     (gp_phase g = Stopped \<longrightarrow> gp_cancelled g) \<and>
     (\<forall>n gen. gp_phase g = Built n gen \<longrightarrow> gp_previous g \<noteq> None) \<and>
     (\<not> gp_cancelled g \<longrightarrow> gp_mapped g \<and> \<not> hb_stopped h \<and> \<not> hb_cancelled h \<and> screens_served g \<and> current h g)"

definition hub_ok :: "(string \<Rightarrow> string) \<Rightarrow> hub \<Rightarrow> bool" where
  "hub_ok key h \<longleftrightarrow> (hb_stopped h \<longrightarrow> hb_cancelled h) \<and> (\<forall>g \<in> set (hb_groups h). group_ok key h g) \<and>
     (\<forall>i j. i < length (hb_groups h) \<longrightarrow> j < length (hb_groups h) \<longrightarrow> gp_mapped (hb_groups h ! i) \<longrightarrow>
        gp_mapped (hb_groups h ! j) \<longrightarrow> gp_race (hb_groups h ! i) = gp_race (hb_groups h ! j) \<longrightarrow> i = j)"

text \<open>The hash that names the frames: it never returns the empty text and does not collide.\<close>

definition good_key :: "(string \<Rightarrow> string) \<Rightarrow> bool" where
  "good_key key \<longleftrightarrow> (\<forall>x. key x \<noteq> []) \<and> (\<forall>x y. key x = key y \<longrightarrow> x = y)"

subsection \<open>Frame names\<close>

lemma digits_suffix:
  assumes "xs @ '':'' @ format_nat m = ys @ '':'' @ format_nat n"
  shows "format_nat m = format_nat n"
proof -
  have d: "CHR '':'' \<notin> set (format_nat k)" for k
    using format_nat_digits [of k] by (auto simp: list_all_iff is_digit_def byte_of_def)
  have "takeWhile (\<lambda>c. c \<noteq> CHR '':'') (rev (zs @ '':'' @ format_nat k)) = rev (format_nat k)" for zs k
    using d [of k] by (simp add: takeWhile_append)
  then have "rev (format_nat m) = rev (format_nat n)" using assms by metis
  then show ?thesis by simp
qed

lemma frame_text_inject:
  assumes "frame_text h race m = frame_text h race n"
  shows "m = n"
proof -
  have "format_nat m = format_nat n"
    using digits_suffix [of "''view:'' @ format_nat (hb_epoch h) @ '':'' @ hb_event h @ '':'' @ race" m
        "''view:'' @ format_nat (hb_epoch h) @ '':'' @ hb_event h @ '':'' @ race" n] assms
    by (simp add: frame_text_def)
  then show ?thesis by (metis digits_value_format_nat)
qed

subsection \<open>The steps of a worker\<close>

lemma group_ok_cong:
  assumes "hb_event h' = hb_event h" and "hb_epoch h' = hb_epoch h" and "hb_frames h \<le> hb_frames h'"
    and "hb_stopped h' = hb_stopped h" and "hb_cancelled h' = hb_cancelled h"
    and "hb_unnotified h' = hb_unnotified h" and "hb_wake h' = hb_wake h" and "hb_dispatching h' = hb_dispatching h" and "hb_world h' = hb_world h"
    and "group_ok key h g"
  shows "group_ok key h' g"
proof -
  have "frame_id key h' race r = frame_id key h race r" for race r
    using assms(1,2) by (simp add: frame_id_def frame_text_def)
  then have "frames_named key h' g"
    using assms(3,10) unfolding group_ok_def frames_named_def by (metis le_trans)
  moreover have "current h' g = current h g" using assms(6-9) by (simp add: current_def quiet_def)
  ultimately show ?thesis using assms(4,5,10) by (simp add: group_ok_def)
qed

lemma frames_named_cong:
  assumes "frames_named key h g" and "group_frames g' \<subseteq> group_frames g" and "gp_race g' = gp_race g"
  shows "frames_named key h g'"
  using assms unfolding frames_named_def by (metis subsetD)

lemma frames_same:
  assumes "gp_previous g' = gp_previous g" and "gp_screens g' = gp_screens g"
  shows "group_frames g' = group_frames g"
  using assms by (simp add: group_frames_def)

lemma frames_keep:
  assumes "group_ok key h g" and "gp_previous g' = gp_previous g" and "gp_screens g' = gp_screens g"
    and "gp_race g' = gp_race g"
  shows "frames_named key h g'"
  using frames_named_cong [of key h g g'] frames_same [of g' g] assms by (simp add: group_ok_def)

lemma group_ok_phase:
  assumes "group_ok key h g" and "phase_serial p (gp_serial g)" and "\<not> loaded p" and "p \<noteq> Stopped"
  shows "group_ok key h (g\<lparr> gp_phase := p \<rparr>)"
proof -
  have "\<not> offered p" using assms(3) by (auto simp: loaded_def offered_def split: phase.splits)
  moreover have "p \<noteq> Built n gen" for n gen using assms(3) by (auto simp: loaded_def)
  ultimately show ?thesis
    using assms frames_named_cong [of key h g "g\<lparr> gp_phase := p \<rparr>"]
    by (auto simp: group_ok_def screens_served_def current_def group_frames_def)
qed

lemma group_ok_count:
  assumes "group_ok key h g"
  shows "group_ok key h (count_build g)"
proof -
  have "frames_named key h (count_build g)"
    by (rule frames_keep [OF assms]) (simp_all add: count_build_def)
  moreover have "screens_served (count_build g)" if "screens_served g"
    using that by (auto simp: screens_served_def count_build_def offered_def)
  ultimately show ?thesis
    using assms by (simp add: group_ok_def count_build_def phase_serial_def current_def loaded_def)
qed

lemma group_ok_cancelled:
  assumes "group_ok key h g" and "gp_cancelled g'" and "gp_race g' = gp_race g" and "group_frames g' \<subseteq> group_frames g"
    and "list_all screen_linked (gp_screens g')" and "phase_serial (gp_phase g') (gp_serial g')"
    and "\<And>n gen. gp_phase g' = Built n gen \<Longrightarrow> gp_previous g' \<noteq> None"
  shows "group_ok key h g'"
  using assms frames_named_cong [of key h g g'] unfolding group_ok_def by blast

lemma group_ok_stop:
  assumes "group_ok key h g" and "gp_cancelled g"
  shows "group_ok key h (g\<lparr> gp_phase := Stopped \<rparr>)"
  using assms by (intro group_ok_cancelled [OF assms(1)])
    (auto simp: group_ok_def phase_serial_def group_frames_def)

lemma group_ok_fail:
  assumes "group_ok key h g"
  shows "group_ok key h (fail_build e g)"
proof -
  have "screen_frames (fail_screen e s) = screen_frames s" for s by (simp add: fail_screen_def screen_frames_def)
  then have "group_frames (fail_build e g) = group_frames g" by (simp add: group_frames_def fail_build_def)
  moreover have "screen_linked (fail_screen e s)" if "screen_linked s" for s
    using that by (simp add: fail_screen_def screen_linked_def live_def)
  then have "list_all screen_linked (gp_screens (fail_build e g))"
    using assms by (auto simp: group_ok_def fail_build_def list_all_iff)
  ultimately show ?thesis
    by (intro group_ok_cancelled [OF assms]) (simp_all add: fail_build_def phase_serial_def)
qed

lemma shown_in_frames: "shown s = Some f \<Longrightarrow> f \<in> screen_frames s"
  by (auto simp: shown_def screen_frames_def split: option.splits if_splits)

text \<open>An offered screen shows the frame, whether the frame is new to it or not.\<close>

lemma offer_shows:
  assumes "screen_linked s" and "live s" and "fm_id f \<noteq> []"
    and "\<And>f'. f' \<in> screen_frames s \<Longrightarrow> fm_id f' = fm_id f \<Longrightarrow> f' = f"
  shows "shown (offer f s) = Some f \<and> live (offer f s) \<and> screen_linked (offer f s)"
proof (cases "sb_last s = fm_id f")
  case True
  then obtain f' where "shown s = Some f'" "fm_id f' = fm_id f"
    using assms(1-3) by (auto simp: screen_linked_def split: option.splits)
  then have "shown s = Some f" using assms(4) shown_in_frames by blast
  then show ?thesis using True assms(1,2) by (simp add: offer_def)
next
  case False
  then show ?thesis using assms(2) by (auto simp: offer_def shown_def live_def screen_linked_def)
qed

lemma offer_frames: "screen_frames (offer f s) \<subseteq> insert f (screen_frames s)"
  by (auto simp: offer_def screen_frames_def)

lemma offer_dead: "\<not> live s \<Longrightarrow> \<not> sb_closed s \<Longrightarrow> offer f s = s"
  by (simp add: offer_def live_def)

lemma offer_min [simp]: "sb_min (offer f s) = sb_min s"
  by (simp add: offer_def)

lemma map_frames:
  "group_frames (g\<lparr> gp_screens := map q (gp_screens g), gp_phase := p \<rparr>) =
    set_option (gp_previous g) \<union> (\<Union>s \<in> set (gp_screens g). screen_frames (q s))"
  by (simp add: group_frames_def)

lemma group_ok_offer:
  assumes "group_ok key h g" and "gp_phase g = Built n gen" and "gp_previous g = Some f" and "good_key key"
  shows "group_ok key h (offer_build n gen f g)"
proof (cases "gp_cancelled g")
  case True
  then show ?thesis
    using assms(1) by (intro group_ok_cancelled [OF assms(1)])
      (auto simp: offer_build_def group_ok_def phase_serial_def group_frames_def)
next
  case False
  let ?o = "\<lambda>s. if \<not> sb_closed s \<and> n \<ge> sb_min s then offer f s else s"
  have g': "offer_build n gen f g = g\<lparr> gp_screens := map ?o (gp_screens g), gp_phase := Offered gen \<rparr>"
    using False by (simp add: offer_build_def)
  have named: "frames_named key h g" and linked: "\<forall>s \<in> set (gp_screens g). screen_linked s"
    and serial: "n = gp_serial g" and served: "screens_served g" and cur: "current h g" and mapped: "gp_mapped g"
    and run: "\<not> hb_stopped h" "\<not> hb_cancelled h"
    using assms(1,2) False by (auto simp: group_ok_def list_all_iff phase_serial_def)
  have f: "f \<in> group_frames g" using assms(3) by (simp add: group_frames_def)
  then have id: "fm_id f \<noteq> []" using named assms(4) by (metis frames_named_def frame_id_def good_key_def)
  have same: "f' = f" if "s \<in> set (gp_screens g)" "f' \<in> screen_frames s" "fm_id f' = fm_id f" for s f'
    using that f named unfolding frames_named_def group_frames_def by blast
  have frames: "screen_frames (?o s) \<subseteq> group_frames g" if "s \<in> set (gp_screens g)" for s
  proof -
    have "screen_frames s \<subseteq> group_frames g" using that by (auto simp: group_frames_def)
    then show ?thesis using f offer_frames [of f s] by auto
  qed
  have "group_frames (offer_build n gen f g) \<subseteq> group_frames g"
  proof -
    have 1: "(\<Union>s \<in> set (gp_screens g). screen_frames (?o s)) \<subseteq> group_frames g" using frames by (rule UN_least)
    have 2: "set_option (gp_previous g) \<subseteq> group_frames g" by (auto simp: group_frames_def)
    show ?thesis unfolding g' map_frames using 2 1 by (rule Un_least)
  qed
  then have 1: "frames_named key h (offer_build n gen f g)"
    by (rule frames_named_cong [OF named]) (simp add: g')
  have shows_f: "live s \<and> sb_min s \<le> n \<Longrightarrow> shown (?o s) = Some f \<and> screen_linked (?o s)"
    if "s \<in> set (gp_screens g)" for s
    using offer_shows [of s f] linked id same that by (auto simp: live_def)
  have other: "\<not> live s \<or> \<not> sb_min s \<le> n \<Longrightarrow> ?o s = s" for s
    using offer_dead by (auto simp: live_def)
  have live: "live (?o s) = live s" for s by (simp add: offer_def live_def)
  have 2: "list_all screen_linked (gp_screens (offer_build n gen f g))"
    unfolding list_all_iff
  proof
    fix x assume "x \<in> set (gp_screens (offer_build n gen f g))"
    then obtain s where s: "s \<in> set (gp_screens g)" "x = ?o s" by (auto simp: g')
    show "screen_linked x" using shows_f [OF s(1)] other [of s] linked s by (cases "live s \<and> sb_min s \<le> n") auto
  qed
  have 3: "screens_served (offer_build n gen f g)"
    unfolding screens_served_def
  proof (intro ballI impI)
    fix x assume x: "x \<in> set (gp_screens (offer_build n gen f g))" and l: "live x"
    then obtain s where s: "s \<in> set (gp_screens g)" "x = ?o s" by (auto simp: g')
    then have ls: "live s" using l live by simp
    have m: "sb_min x = sb_min s" using s by simp
    have least: "sb_min s \<le> gp_serial g + 1" "gp_serial g < sb_min s \<longrightarrow> gp_wake g"
      using served s(1) ls by (auto simp: screens_served_def)
    have seen: "shown x = Some f" if "sb_min s \<le> gp_serial g"
      using shows_f [OF s(1)] ls s(2) serial that by blast
    have "gp_serial (offer_build n gen f g) = gp_serial g" "gp_wake (offer_build n gen f g) = gp_wake g"
      "gp_previous (offer_build n gen f g) = Some f"
      using assms(3) by (simp_all add: g')
    then show "sb_min x \<le> gp_serial (offer_build n gen f g) + 1 \<and>
        (gp_serial (offer_build n gen f g) < sb_min x \<longrightarrow> gp_wake (offer_build n gen f g)) \<and>
        (offered (gp_phase (offer_build n gen f g)) \<and> sb_min x \<le> gp_serial (offer_build n gen f g) \<longrightarrow>
          gp_previous (offer_build n gen f g) \<noteq> None \<and> shown x = gp_previous (offer_build n gen f g))"
      using least seen by (simp add: m)
  qed
  have 4: "current h (offer_build n gen f g)"
    using cur assms(2) by (simp add: g' current_def quiet_def loaded_def)
  show ?thesis using 1 2 3 4 mapped run False assms(3) by (simp add: group_ok_def g' phase_serial_def)
qed

lemma group_ok_finish:
  assumes "group_ok key h g" and "gp_phase g = Offered gen"
  shows "group_ok key h (finish_build now gen g)"
proof -
  have "frames_named key h (finish_build now gen g)"
    by (rule frames_keep [OF assms(1)]) (simp_all add: finish_build_def request_def)
  moreover have "screens_served (finish_build now gen g)" if "screens_served g"
    using that assms(2) by (auto simp: screens_served_def finish_build_def request_def offered_def)
  moreover have "current h (finish_build now gen g)" if "current h g"
    using that assms(2) by (auto simp: current_def quiet_def finish_build_def request_def loaded_def)
  ultimately show ?thesis
    using assms by (auto simp: group_ok_def finish_build_def request_def phase_serial_def)
qed

lemma new_frame_distinct:
  assumes "good_key key" and "frames_named key h g" and "f \<in> group_frames g"
  shows "fm_id f \<noteq> frame_id key h (gp_race g) (hb_frames h + 1)"
proof
  assume eq: "fm_id f = frame_id key h (gp_race g) (hb_frames h + 1)"
  obtain r where r: "r \<le> hb_frames h" "fm_id f = frame_id key h (gp_race g) r"
    using assms(2,3) unfolding frames_named_def by blast
  then have "frame_text h (gp_race g) r = frame_text h (gp_race g) (hb_frames h + 1)"
    using eq assms(1) by (metis frame_id_def good_key_def)
  then show False using r(1) frame_text_inject by fastforce
qed

definition built :: "(string \<Rightarrow> string) \<Rightarrow> hub \<Rightarrow> nat \<Rightarrow> 64 word \<Rightarrow> string \<Rightarrow> group \<Rightarrow> group" where
  "built key h n gen data g = (if same_frame g data then g\<lparr> gp_phase := Built n gen \<rparr>
     else g\<lparr> gp_phase := Built n gen, gp_previous :=
       Some \<lparr> fm_id = frame_id key h (gp_race g) (hb_frames h + 1), fm_json = data \<rparr> \<rparr>)"

lemma built_fields [simp]:
  "gp_race (built key h n gen data g) = gp_race g" "gp_mapped (built key h n gen data g) = gp_mapped g"
  "gp_phase (built key h n gen data g) = Built n gen" "gp_wake (built key h n gen data g) = gp_wake g"
  by (simp_all add: built_def)

lemma build_built:
  assumes "i < length (hb_groups h)"
  shows "build key i n gen data h = (on_group i (built key h n gen data) h)
    \<lparr> hb_frames := hb_frames h + (if same_frame (hb_groups h ! i) data then 0 else 1) \<rparr>"
  using assms by (simp add: build_def Let_def on_group_def built_def frame_id_def)

lemma built_named:
  assumes "good_key key" and "frames_named key h g" and "hb_event h' = hb_event h" and "hb_epoch h' = hb_epoch h"
    and "hb_frames h' = hb_frames h + (if same_frame g data then 0 else 1)"
  shows "frames_named key h' (built key h n gen data g)"
proof -
  have id: "frame_id key h' race r = frame_id key h race r" for race r
    using assms(3,4) by (simp add: frame_id_def frame_text_def)
  show ?thesis
  proof (cases "same_frame g data")
    case True
    then show ?thesis using assms(2,5) id by (simp add: built_def frames_named_def group_frames_def)
  next
    case False
    let ?f = "\<lparr> fm_id = frame_id key h (gp_race g) (hb_frames h + 1), fm_json = data \<rparr>"
    have sub: "group_frames (built key h n gen data g) \<subseteq> insert ?f (group_frames g)"
      using False by (auto simp: built_def group_frames_def)
    have race: "gp_race (built key h n gen data g) = gp_race g" by (simp add: built_def)
    have neq: "fm_id x \<noteq> fm_id ?f" if "x \<in> group_frames g" for x
      using new_frame_distinct [OF assms(1,2) that] by simp
    have 1: "\<exists>r. r \<le> hb_frames h' \<and> fm_id x = frame_id key h (gp_race g) r" if "x \<in> insert ?f (group_frames g)" for x
    proof (cases "x = ?f")
      case True
      then show ?thesis using False assms(5) by (intro exI [of _ "hb_frames h + 1"]) simp
    next
      case other: False
      then have "x \<in> group_frames g" using that by simp
      then show ?thesis using assms(2,5) False unfolding frames_named_def by (metis le_add1 le_trans)
    qed
    have 2: "x = y" if "x \<in> insert ?f (group_frames g)" "y \<in> insert ?f (group_frames g)" "fm_id x = fm_id y" for x y
      using that neq assms(2) unfolding frames_named_def by (metis insertE)
    show ?thesis
      unfolding frames_named_def race id
    proof (intro conjI ballI impI)
      fix x assume x: "x \<in> group_frames (built key h n gen data g)"
      show "\<exists>r. r \<le> hb_frames h' \<and> fm_id x = frame_id key h (gp_race g) r" by (rule 1 [OF subsetD [OF sub x]])
      fix y assume y: "y \<in> group_frames (built key h n gen data g)" and "fm_id x = fm_id y"
      then show "x = y" by (intro 2 [OF subsetD [OF sub x] subsetD [OF sub y]])
    qed
  qed
qed

lemma group_ok_built:
  assumes "group_ok key h g" and "gp_phase g = Building n gen" and "good_key key"
    and "hb_world h (gp_race g) = Inr data"
    and "h' = k\<lparr> hb_frames := hb_frames h + (if same_frame g data then 0 else 1) \<rparr>"
    and "hb_event k = hb_event h" "hb_epoch k = hb_epoch h" "hb_stopped k = hb_stopped h"
      "hb_cancelled k = hb_cancelled h" "hb_world k = hb_world h"
  shows "group_ok key h' (built key h n gen data g)"
proof -
  have 1: "frames_named key h' (built key h n gen data g)"
    using assms by (intro built_named) (simp_all add: group_ok_def)
  have 2: "screens_served (built key h n gen data g)" if "screens_served g"
    using that by (simp add: screens_served_def built_def offered_def)
  obtain f where f: "gp_previous (built key h n gen data g) = Some f" "fm_json f = data"
  proof (cases "same_frame g data")
    case True
    then obtain f where "gp_previous g = Some f" "fm_json f = data" by (auto simp: same_frame_def split: option.splits)
    with True that show ?thesis by (simp add: built_def)
  next
    case False
    with that show ?thesis by (simp add: built_def)
  qed
  have 3: "current h' (built key h n gen data g)"
    using f assms(4,5,10) by (simp add: current_def)
  have 4: "list_all screen_linked (gp_screens (built key h n gen data g))"
    "phase_serial (gp_phase (built key h n gen data g)) (gp_serial (built key h n gen data g))"
    "gp_phase (built key h n gen data g) = Built n gen"
    "gp_cancelled (built key h n gen data g) = gp_cancelled g" "gp_mapped (built key h n gen data g) = gp_mapped g"
    using assms(1,2) by (simp_all add: group_ok_def built_def phase_serial_def)
  have "gp_mapped g \<and> \<not> hb_stopped h' \<and> \<not> hb_cancelled h' \<and> screens_served g" if "\<not> gp_cancelled g"
    using that assms(1,5,8,9) by (simp add: group_ok_def)
  with 1 2 3 4 f(1) show ?thesis by (simp add: group_ok_def)
qed

subsection \<open>The invariant holds throughout\<close>

definition one_per_race :: "group list \<Rightarrow> bool" where
  "one_per_race gs \<longleftrightarrow> (\<forall>i j. i < length gs \<longrightarrow> j < length gs \<longrightarrow> gp_mapped (gs ! i) \<longrightarrow> gp_mapped (gs ! j) \<longrightarrow>
     gp_race (gs ! i) = gp_race (gs ! j) \<longrightarrow> i = j)"

lemma hub_ok_iff: "hub_ok key h \<longleftrightarrow> (hb_stopped h \<longrightarrow> hb_cancelled h) \<and>
    (\<forall>g \<in> set (hb_groups h). group_ok key h g) \<and> one_per_race (hb_groups h)"
  by (simp add: hub_ok_def one_per_race_def)

lemma one_per_race_update:
  assumes "one_per_race gs" and "gp_race g = gp_race (gs ! i)" and "gp_mapped g \<Longrightarrow> gp_mapped (gs ! i)"
  shows "one_per_race (gs[i := g])"
  using assms unfolding one_per_race_def by (metis length_list_update nth_list_update_eq nth_list_update_neq)

lemma one_per_race_map:
  assumes "one_per_race gs" and "\<And>g. gp_race (f g) = gp_race g" and "\<And>g. gp_mapped (f g) \<Longrightarrow> gp_mapped g"
  shows "one_per_race (map f gs)"
  using assms unfolding one_per_race_def by (metis length_map nth_map)

lemma hub_ok_group:
  assumes "hub_ok key h" and "i < length (hb_groups h)"
  shows "group_ok key h (hb_groups h ! i)"
  using assms by (simp add: hub_ok_iff)

lemma hub_ok_on_group:
  assumes "hub_ok key h" and "hb_groups h' = (hb_groups h)[i := g]" and "group_ok key h' g"
    and "gp_race g = gp_race (hb_groups h ! i)" and "gp_mapped g \<Longrightarrow> gp_mapped (hb_groups h ! i)"
    and "hb_event h' = hb_event h" "hb_epoch h' = hb_epoch h" "hb_frames h \<le> hb_frames h'"
    "hb_stopped h' = hb_stopped h" "hb_cancelled h' = hb_cancelled h" "hb_unnotified h' = hb_unnotified h"
    "hb_wake h' = hb_wake h" "hb_dispatching h' = hb_dispatching h" "hb_world h' = hb_world h"
  shows "hub_ok key h'"
proof -
  have "group_ok key h' x" if "x \<in> set (hb_groups h')" for x
  proof (cases "x = g")
    case True
    then show ?thesis using assms(3) by simp
  next
    case False
    then have "x \<in> set (hb_groups h)" using that assms(2) set_update_subset_insert by fastforce
    then have "group_ok key h x" using assms(1) by (simp add: hub_ok_iff)
    then show ?thesis by (rule group_ok_cong [OF assms(6-14)])
  qed
  then show ?thesis
    using assms(1,2,4,5,9,10) one_per_race_update [of "hb_groups h" g i] by (simp add: hub_ok_iff)
qed

text \<open>A change of one group that leaves the hub as it is.\<close>

lemma hub_ok_change:
  assumes "hub_ok key h" and "group_ok key h (f (hb_groups h ! i))"
    and "gp_race (f (hb_groups h ! i)) = gp_race (hb_groups h ! i)"
    and "gp_mapped (f (hb_groups h ! i)) \<Longrightarrow> gp_mapped (hb_groups h ! i)"
  shows "hub_ok key (on_group i f h)"
proof -
  have "group_ok key (on_group i f h) (f (hb_groups h ! i))"
    by (rule group_ok_cong [OF _ _ _ _ _ _ _ _ _ assms(2)]) (simp_all add: on_group_def)
  then show ?thesis
    by (intro hub_ok_on_group [OF assms(1) _ _ assms(3,4)]) (simp_all add: on_group_def)
qed

lemma hub_ok_all:
  assumes "hub_ok key h" and "hb_groups h' = map f (hb_groups h)" and "hb_stopped h' \<longrightarrow> hb_cancelled h'"
    and "\<And>g. group_ok key h g \<Longrightarrow> group_ok key h' (f g)"
    and "\<And>g. gp_race (f g) = gp_race g" and "\<And>g. gp_mapped (f g) \<Longrightarrow> gp_mapped g"
  shows "hub_ok key h'"
  using assms(1-4) one_per_race_map [OF _ assms(5,6)] by (auto simp: hub_ok_iff)

lemma frames_named_hub:
  assumes "frames_named key h g" and "hb_event h' = hb_event h" "hb_epoch h' = hb_epoch h" "hb_frames h' = hb_frames h"
  shows "frames_named key h' g"
  using assms by (simp add: frames_named_def frame_id_def frame_text_def)

lemma group_ok_loud:
  assumes "group_ok key h g" and "hb_event h' = hb_event h" "hb_epoch h' = hb_epoch h" "hb_frames h' = hb_frames h"
    and "hb_stopped h' = hb_stopped h" "hb_cancelled h' = hb_cancelled h" and "\<not> quiet h' g"
  shows "group_ok key h' g"
proof -
  have "frames_named key h g" using assms(1) by (simp add: group_ok_def)
  then have "frames_named key h' g" by (rule frames_named_hub [OF _ assms(2-4)])
  with assms(1,5-7) show ?thesis by (simp add: group_ok_def current_def)
qed

lemma hub_ok_dispatch:
  assumes "hub_ok key h"
  shows "hub_ok key (dispatch h)"
proof (rule hub_ok_all [OF assms, where f = "\<lambda>g. if gp_mapped g then request g else g"])
  fix g assume g: "group_ok key h g"
  let ?g = "if gp_mapped g then request g else g"
  have "frames_named key h ?g" by (rule frames_keep [OF g]) (simp_all add: request_def)
  then have 1: "frames_named key (dispatch h) ?g" by (rule frames_named_hub) (simp_all add: dispatch_def)
  have 2: "screens_served ?g" if "screens_served g" using that by (auto simp: screens_served_def request_def)
  have 3: "current (dispatch h) ?g" if "gp_mapped g" using that by (simp add: current_def quiet_def request_def)
  show "group_ok key (dispatch h) ?g"
  proof (cases "gp_mapped g")
    case True
    then show ?thesis
      using g 1 2 3 unfolding group_ok_def by (simp add: dispatch_def request_def)
  next
    case False
    then show ?thesis
      using g 1 unfolding group_ok_def by (simp add: dispatch_def)
  qed
qed (use assms in \<open>simp_all add: dispatch_def hub_ok_iff request_def split: if_splits\<close>)

lemma hub_work_ok:
  assumes "hub_work key h h'" and "hub_ok key h" and "good_key key"
  shows "hub_ok key h'"
  using assms(1)
proof cases
  case hear
  show ?thesis
  proof (rule hub_ok_all [OF assms(2), where f = id])
    fix g assume "group_ok key h g"
    then show "group_ok key h' (id g)"
      unfolding id_apply by (rule group_ok_loud) (simp_all add: hear(1) hear_def quiet_def)
  qed (use assms(2) in \<open>simp_all add: hear(1) hear_def hub_ok_iff\<close>)
next
  case dispatch
  then show ?thesis using hub_ok_dispatch assms(2) by simp
next
  case (wake i)
  then show ?thesis
    using group_ok_count [OF hub_ok_group [OF assms(2)]] by (auto simp: count_build_def intro!: hub_ok_change [OF assms(2)])
next
  case (stamp i n)
  have g: "group_ok key h (hb_groups h ! i)" by (rule hub_ok_group [OF assms(2) stamp(2)])
  then have "n = gp_serial (hb_groups h ! i)" using stamp(3) by (simp add: group_ok_def phase_serial_def)
  then show ?thesis unfolding stamp(1)
    by (intro hub_ok_change [OF assms(2)] group_ok_phase [OF g]) (simp_all add: loaded_def phase_serial_def)
next
  case (slot i n gen)
  have g: "group_ok key h (hb_groups h ! i)" by (rule hub_ok_group [OF assms(2) slot(2)])
  then have "n = gp_serial (hb_groups h ! i)" using slot(3) by (simp add: group_ok_def phase_serial_def)
  then show ?thesis unfolding slot(1)
    by (intro hub_ok_change [OF assms(2)] group_ok_phase [OF g]) (simp_all add: loaded_def phase_serial_def)
next
  case (leave i n gen)
  then show ?thesis using hub_ok_group [OF assms(2)]
    by (auto intro!: hub_ok_change [OF assms(2)] group_ok_stop)
next
  case (load i n gen data)
  let ?g = "hb_groups h ! i"
  have ok: "group_ok key h' (built key h n gen data ?g)"
    by (rule group_ok_built [OF hub_ok_group [OF assms(2) load(2)] load(3) assms(3) load(4)
          load(1) [unfolded build_built [OF load(2)]]]) (simp_all add: on_group_def)
  show ?thesis
    by (rule hub_ok_on_group [OF assms(2) _ ok]) (simp_all add: load(1) build_built [OF load(2)] on_group_def)
next
  case (fail i n gen e)
  then show ?thesis using hub_ok_group [OF assms(2)]
    by (auto intro!: hub_ok_change [OF assms(2)] group_ok_fail simp: fail_build_def)
next
  case (offer i n gen f)
  then show ?thesis using hub_ok_group [OF assms(2)] assms(3)
    by (auto intro!: hub_ok_change [OF assms(2)] group_ok_offer simp: offer_build_def split: if_splits)
next
  case (finish i gen)
  then show ?thesis using hub_ok_group [OF assms(2)]
    by (auto intro!: hub_ok_change [OF assms(2)] group_ok_finish simp: finish_build_def request_def split: if_splits)
next
  case stop
  have "\<forall>g \<in> set (hb_groups h). gp_cancelled g"
    using stop assms(2) by (auto simp: hub_ok_iff group_ok_def)
  moreover have "frames_named key h' g" if "g \<in> set (hb_groups h)" for g
  proof -
    have "frames_named key h g" using that assms(2) by (simp add: hub_ok_iff group_ok_def)
    then show ?thesis by (rule frames_named_hub) (simp_all add: stop(1))
  qed
  ultimately show ?thesis using stop assms(2) by (simp add: hub_ok_iff group_ok_def)
qed

subsection \<open>Screens come and go\<close>

lemma group_ok_join:
  assumes "group_ok key h g"
  shows "group_ok key h (join_group g)"
proof -
  have "group_frames (join_group g) = group_frames g"
    by (simp add: group_frames_def join_group_def request_def new_screen_def screen_frames_def)
  moreover have "frames_named key h g" using assms by (simp add: group_ok_def)
  ultimately have "frames_named key h (join_group g)"
    using frames_named_cong [of key h g "join_group g"] by (simp add: join_group_def request_def)
  moreover have "screens_served (join_group g)" if "screens_served g"
    using that by (auto simp: screens_served_def join_group_def request_def new_screen_def)
  moreover have "list_all screen_linked (gp_screens (join_group g))" if "list_all screen_linked (gp_screens g)"
    using that by (simp add: join_group_def request_def new_screen_def screen_linked_def shown_def)
  moreover have "current h (join_group g)" by (simp add: current_def quiet_def join_group_def request_def)
  moreover have "phase_serial (gp_phase (join_group g)) (gp_serial (join_group g))"
    "gp_phase (join_group g) = gp_phase g" "gp_previous (join_group g) = gp_previous g"
    "gp_cancelled (join_group g) = gp_cancelled g" "gp_mapped (join_group g) = gp_mapped g"
    using assms by (simp_all add: join_group_def request_def group_ok_def)
  ultimately show ?thesis using assms by (simp add: group_ok_def)
qed

lemma group_ok_new: "\<not> hb_stopped h \<Longrightarrow> \<not> hb_cancelled h \<Longrightarrow> group_ok key h (join_group (new_group race))"
  by (simp add: group_ok_def new_group_def join_group_def request_def frames_named_def group_frames_def new_screen_def
      screen_frames_def screen_linked_def shown_def phase_serial_def screens_served_def current_def quiet_def)

lemma group_of_Some:
  "group_of race gs = Some i \<Longrightarrow> i < length gs \<and> gp_mapped (gs ! i) \<and> gp_race (gs ! i) = race"
  by (induction gs arbitrary: i) (auto split: if_splits)

lemma group_of_None: "group_of race gs = None \<Longrightarrow> g \<in> set gs \<Longrightarrow> gp_race g = race \<Longrightarrow> \<not> gp_mapped g"
  by (induction gs) (auto split: if_splits)

lemma group_ok_unmap:
  assumes "group_ok key h g" and "gp_race g = race \<Longrightarrow> gp_cancelled g"
  shows "group_ok key h (unmap race g)"
proof (cases "gp_race g = race")
  case True
  then show ?thesis
    using assms by (intro group_ok_cancelled [OF assms(1)]) (auto simp: unmap_def group_frames_def group_ok_def)
next
  case False
  then show ?thesis using assms(1) by (simp add: unmap_def)
qed

lemma one_per_race_open:
  assumes "one_per_race gs"
  shows "one_per_race (map (unmap race) gs @ [join_group (new_group race)])"
proof -
  let ?gs = "map (unmap race) gs"
  have old: "one_per_race ?gs" by (rule one_per_race_map [OF assms]) (auto simp: unmap_def split: if_splits)
  have un: "gp_race (?gs ! i) \<noteq> race" if "i < length ?gs" "gp_mapped (?gs ! i)" for i
    using that by (auto simp: unmap_def split: if_splits)
  have new: "gp_race (join_group (new_group race)) = race" by (simp add: join_group_def request_def new_group_def)
  show ?thesis
    unfolding one_per_race_def
  proof (intro allI impI)
    fix i j
    assume i: "i < length (?gs @ [join_group (new_group race)])" and j: "j < length (?gs @ [join_group (new_group race)])"
      and m: "gp_mapped ((?gs @ [join_group (new_group race)]) ! i)" "gp_mapped ((?gs @ [join_group (new_group race)]) ! j)"
      and r: "gp_race ((?gs @ [join_group (new_group race)]) ! i) = gp_race ((?gs @ [join_group (new_group race)]) ! j)"
    consider "i < length ?gs" "j < length ?gs" | "i < length ?gs" "j = length ?gs" | "i = length ?gs" "j < length ?gs"
      | "i = length ?gs" "j = length ?gs"
      using i j by fastforce
    then show "i = j"
    proof cases
      case 1
      then show ?thesis using old m r unfolding one_per_race_def nth_append by (simp only: if_True)
    next
      case 2
      then show ?thesis using un [of i] m r new by (simp add: nth_append)
    next
      case 3
      then show ?thesis using un [of j] m r new by (simp add: nth_append)
    qed simp
  qed
qed

lemma hub_ok_open:
  assumes "open_group race h = Inr h'" and "hub_ok key h" and "\<not> hb_stopped h" "\<not> hb_cancelled h"
    and "\<And>g. g \<in> set (hb_groups h) \<Longrightarrow> gp_race g = race \<Longrightarrow> gp_cancelled g"
  shows "hub_ok key h'"
proof -
  have h': "h' = h\<lparr> hb_groups := map (unmap race) (hb_groups h) @ [join_group (new_group race)],
      hb_clients := hb_clients h + 1 \<rparr>"
    using assms(1) by (simp add: open_group_def split: if_splits)
  have same: "group_ok key h g \<Longrightarrow> group_ok key h' g" for g
    by (rule group_ok_cong [of h' h]) (simp_all add: h')
  have "group_ok key h' (unmap race g)" if "g \<in> set (hb_groups h)" for g
    using that assms(2,5) by (intro same group_ok_unmap) (auto simp: hub_ok_iff)
  moreover have "group_ok key h' (join_group (new_group race))"
    by (rule group_ok_new) (simp_all add: h' assms(3,4))
  ultimately have "\<forall>g \<in> set (hb_groups h'). group_ok key h' g" by (auto simp: h')
  then show ?thesis
    using assms(2) one_per_race_open [of "hb_groups h" race] by (simp add: hub_ok_iff h')
qed

lemma hub_ok_clients: "hub_ok key (h\<lparr> hb_clients := n \<rparr>) \<longleftrightarrow> hub_ok key h"
proof -
  have "group_ok key (h\<lparr> hb_clients := n \<rparr>) g \<longleftrightarrow> group_ok key h g" for g
    by (simp add: group_ok_def frames_named_def frame_id_def frame_text_def current_def quiet_def)
  then show ?thesis by (simp add: hub_ok_iff)
qed

lemma hub_ok_subscribe:
  assumes "subscribe race h = Inr h'" and "hub_ok key h"
  shows "hub_ok key h'"
proof -
  have run: "\<not> hb_stopped h" "\<not> hb_cancelled h" using assms(1) by (auto simp: subscribe_def split: if_splits)
  show ?thesis
  proof (cases "group_of race (hb_groups h)")
    case None
    then have o: "open_group race h = Inr h'" using assms(1) by (simp add: subscribe_def split: if_splits)
    show ?thesis
    proof (rule hub_ok_open [OF o assms(2) run])
      fix g assume "g \<in> set (hb_groups h)" "gp_race g = race"
      then show "gp_cancelled g" using group_of_None [OF None] assms(2) by (auto simp: hub_ok_iff group_ok_def)
    qed
  next
    case (Some i)
    from group_of_Some [OF Some] have i: "i < length (hb_groups h)" "gp_mapped (hb_groups h ! i)" "gp_race (hb_groups h ! i) = race"
      by blast+
    show ?thesis
    proof (cases "gp_cancelled (hb_groups h ! i)")
      case True
      then have o: "open_group race h = Inr h'" using Some assms(1) by (simp add: subscribe_def split: if_splits)
      show ?thesis
      proof (rule hub_ok_open [OF o assms(2) run])
        fix g assume g: "g \<in> set (hb_groups h)" "gp_race g = race"
        then obtain j where j: "j < length (hb_groups h)" "g = hb_groups h ! j" by (auto simp: in_set_conv_nth)
        show "gp_cancelled g"
        proof (rule ccontr)
          assume "\<not> gp_cancelled g"
          then have "gp_mapped g" using g(1) assms(2) by (auto simp: hub_ok_iff group_ok_def)
          then have "i = j" using i j g(2) assms(2) unfolding hub_ok_iff one_per_race_def by metis
          then show False using True \<open>\<not> gp_cancelled g\<close> j by simp
        qed
      qed
    next
      case False
      then have h': "h' = (on_group i join_group h)\<lparr> hb_clients := hb_clients h + 1 \<rparr>"
        using Some assms(1) by (simp add: subscribe_def split: if_splits)
      have "hub_ok key (on_group i join_group h)"
        using group_ok_join [OF hub_ok_group [OF assms(2) i(1)]]
        by (rule hub_ok_change [OF assms(2)]) (simp_all add: join_group_def request_def)
      then show ?thesis by (simp add: h' hub_ok_clients)
    qed
  qed
qed

lemma on_screen_frames:
  assumes "screen_frames (q (gp_screens g ! j)) \<subseteq> screen_frames (gp_screens g ! j)" and "j < length (gp_screens g)"
  shows "group_frames (on_screen j q g) \<subseteq> group_frames g"
proof
  fix f assume "f \<in> group_frames (on_screen j q g)"
  then consider "f \<in> set_option (gp_previous g)" | s where "s \<in> set ((gp_screens g)[j := q (gp_screens g ! j)])" "f \<in> screen_frames s"
    by (auto simp: group_frames_def on_screen_def)
  then show "f \<in> group_frames g"
  proof cases
    case 1
    then show ?thesis by (simp add: group_frames_def)
  next
    case 2
    then have "s \<in> set (gp_screens g) \<or> s = q (gp_screens g ! j)"
      using set_update_subset_insert [of "gp_screens g" j] by blast
    then show ?thesis using 2(2) assms nth_mem [OF assms(2)] unfolding group_frames_def by blast
  qed
qed

lemma screens_update:
  assumes "\<forall>s \<in> set ss. P s" and "P x"
  shows "\<forall>s \<in> set (ss[j := x]). P s"
  using assms set_update_subset_insert by fastforce

lemma group_ok_take:
  assumes "group_ok key h g" and "j < length (gp_screens g)"
  shows "group_ok key h (on_screen j take_frame g)"
proof -
  let ?s = "gp_screens g ! j"
  have s: "?s \<in> set (gp_screens g)" using assms(2) by simp
  have t: "screen_frames (take_frame ?s) = screen_frames ?s" "shown (take_frame ?s) = shown ?s"
    "live (take_frame ?s) = live ?s" "sb_min (take_frame ?s) = sb_min ?s" "sb_last (take_frame ?s) = sb_last ?s"
    by (auto simp: take_frame_def screen_frames_def shown_def live_def split: option.splits)
  have "frames_named key h g" using assms(1) by (simp add: group_ok_def)
  then have "frames_named key h (on_screen j take_frame g)"
    by (rule frames_named_cong) (use on_screen_frames [of take_frame g j] t(1) assms(2) in \<open>simp_all add: on_screen_def\<close>)
  moreover have "list_all screen_linked (gp_screens (on_screen j take_frame g))"
  proof -
    have l: "\<forall>s \<in> set (gp_screens g). screen_linked s" using assms(1) by (simp add: group_ok_def list_all_iff)
    moreover from l s have "screen_linked ?s" by blast
    then have "screen_linked (take_frame ?s)" by (simp add: screen_linked_def t)
    ultimately have "\<forall>s \<in> set ((gp_screens g)[j := take_frame ?s]). screen_linked s" by (rule screens_update)
    then show ?thesis by (simp add: on_screen_def list_all_iff)
  qed
  moreover have "screens_served (on_screen j take_frame g)" if served: "screens_served g"
  proof -
    let ?P = "\<lambda>s. live s \<longrightarrow> sb_min s \<le> gp_serial g + 1 \<and> (gp_serial g < sb_min s \<longrightarrow> gp_wake g) \<and>
      (offered (gp_phase g) \<and> sb_min s \<le> gp_serial g \<longrightarrow> gp_previous g \<noteq> None \<and> shown s = gp_previous g)"
    have "\<forall>s \<in> set (gp_screens g). ?P s" using served by (simp add: screens_served_def)
    moreover from this have "?P (take_frame ?s)" using s t by simp
    ultimately have "\<forall>s \<in> set ((gp_screens g)[j := take_frame ?s]). ?P s" by (rule screens_update)
    then show ?thesis by (simp add: screens_served_def on_screen_def)
  qed
  moreover have "current h (on_screen j take_frame g) = current h g"
    by (simp add: current_def quiet_def on_screen_def)
  ultimately show ?thesis using assms(1) unfolding group_ok_def by (simp add: on_screen_def)
qed


lemma group_ok_close:
  assumes "group_ok key h g" and "j < length (gp_screens g)"
  shows "group_ok key h (close_in_group j g)"
proof -
  let ?s = "gp_screens g ! j" and ?g = "on_screen j close_screen g"
  have t: "screen_frames (close_screen ?s) \<subseteq> screen_frames ?s" "\<not> live (close_screen ?s)"
    by (auto simp: close_screen_def screen_frames_def live_def)
  have frames: "group_frames ?g \<subseteq> group_frames g" using on_screen_frames [of close_screen g j] t(1) assms(2) by blast
  have l: "\<forall>s \<in> set (gp_screens g). screen_linked s" using assms(1) by (simp add: group_ok_def list_all_iff)
  moreover have "screen_linked (close_screen ?s)" using t(2) by (simp add: screen_linked_def)
  ultimately have "\<forall>s \<in> set ((gp_screens g)[j := close_screen ?s]). screen_linked s" by (rule screens_update)
  then have linked: "list_all screen_linked (gp_screens ?g)" by (simp add: on_screen_def list_all_iff)
  have phase: "phase_serial (gp_phase g) (gp_serial g)" "\<And>n gen. gp_phase g = Built n gen \<Longrightarrow> gp_previous g \<noteq> None"
    using assms(1) unfolding group_ok_def by blast+
  show ?thesis
  proof (cases "list_all sb_closed (gp_screens ?g)")
    case True
    then have g': "close_in_group j g = ?g\<lparr> gp_cancelled := True, gp_mapped := False \<rparr>"
      by (simp add: close_in_group_def Let_def)
    have "group_frames (?g\<lparr> gp_cancelled := True, gp_mapped := False \<rparr>) = group_frames ?g"
      by (simp add: group_frames_def)
    then show ?thesis
      unfolding g' using frames linked phase
      by (intro group_ok_cancelled [OF assms(1)]) (simp_all add: on_screen_def)
  next
    case False
    then have g': "close_in_group j g = ?g" by (simp add: close_in_group_def Let_def)
    have "frames_named key h g" using assms(1) by (simp add: group_ok_def)
    then have 1: "frames_named key h ?g" by (rule frames_named_cong [OF _ frames]) (simp add: on_screen_def)
    have 2: "screens_served ?g" if served: "screens_served g"
    proof -
      let ?P = "\<lambda>s. live s \<longrightarrow> sb_min s \<le> gp_serial g + 1 \<and> (gp_serial g < sb_min s \<longrightarrow> gp_wake g) \<and>
        (offered (gp_phase g) \<and> sb_min s \<le> gp_serial g \<longrightarrow> gp_previous g \<noteq> None \<and> shown s = gp_previous g)"
      have "\<forall>s \<in> set (gp_screens g). ?P s" using served by (simp add: screens_served_def)
      moreover have "?P (close_screen ?s)" using t(2) by simp
      ultimately have "\<forall>s \<in> set ((gp_screens g)[j := close_screen ?s]). ?P s" by (rule screens_update)
      then show ?thesis by (simp add: screens_served_def on_screen_def)
    qed
    have 3: "current h ?g = current h g" by (simp add: current_def quiet_def on_screen_def)
    show ?thesis unfolding g' using assms(1) 1 2 3 linked unfolding group_ok_def by (simp add: on_screen_def)
  qed
qed

lemma group_ok_over:
  assumes "group_ok key h g" and "hb_event h' = hb_event h" "hb_epoch h' = hb_epoch h" "hb_frames h' = hb_frames h"
  shows "group_ok key h' (g\<lparr> gp_cancelled := True \<rparr>)"
proof -
  have "group_ok key h (g\<lparr> gp_cancelled := True \<rparr>)"
    using assms(1) by (intro group_ok_cancelled [OF assms(1)]) (auto simp: group_ok_def group_frames_def)
  moreover from this have "frames_named key h' (g\<lparr> gp_cancelled := True \<rparr>)"
    using frames_named_hub [of key h _ h'] assms(2-4) by (simp add: group_ok_def)
  ultimately show ?thesis by (simp add: group_ok_def)
qed

lemma hub_event_ok:
  assumes "hub_event h h'" and "hub_ok key h"
  shows "hub_ok key h'"
  using assms(1)
proof cases
  case (commit world)
  show ?thesis
  proof (rule hub_ok_all [OF assms(2), where f = id])
    fix g assume "group_ok key h g"
    then show "group_ok key h' (id g)" unfolding id_apply by (rule group_ok_loud) (simp_all add: commit quiet_def)
  qed (use assms(2) in \<open>simp_all add: commit hub_ok_iff\<close>)
next
  case raise_generation
  show ?thesis
  proof (rule hub_ok_all [OF assms(2), where f = id])
    fix g assume "group_ok key h g"
    then show "group_ok key h' (id g)"
      unfolding id_apply by (rule group_ok_cong [rotated 9]) (simp_all add: raise_generation raise_generation_def)
  qed (use assms(2) in \<open>simp_all add: raise_generation raise_generation_def hub_ok_iff\<close>)
next
  case wake_up
  show ?thesis
  proof (rule hub_ok_all [OF assms(2), where f = id])
    fix g assume "group_ok key h g"
    then show "group_ok key h' (id g)"
      unfolding id_apply by (rule group_ok_loud) (simp_all add: wake_up(1) wake_up_def quiet_def)
  qed (use assms(2) in \<open>simp_all add: wake_up(1) wake_up_def hub_ok_iff\<close>)
next
  case (subscribe race)
  then show ?thesis using hub_ok_subscribe assms(2) by blast
next
  case (take_frame i j)
  have "group_ok key h (on_screen j FinishHub.take_frame (hb_groups h ! i))"
    by (rule group_ok_take [OF hub_ok_group [OF assms(2) take_frame(2)] take_frame(3)])
  then show ?thesis unfolding take_frame(1) by (rule hub_ok_change [OF assms(2)]) (simp_all add: on_screen_def)
next
  case (close i j)
  have "group_ok key h (close_in_group j (hb_groups h ! i))"
    by (rule group_ok_close [OF hub_ok_group [OF assms(2) close(2)] close(3)])
  then have "hub_ok key (on_group i (close_in_group j) h)"
    by (rule hub_ok_change [OF assms(2)])
      (auto simp: close_in_group_def on_screen_def Let_def split: if_splits)
  then show ?thesis by (simp add: close hub_ok_clients)
next
  case cancel
  show ?thesis
    by (rule hub_ok_all [OF assms(2), where f = "\<lambda>g. g\<lparr> gp_cancelled := True \<rparr>"])
      (simp_all add: cancel cancel_hub_def group_ok_over)
qed

lemma hub_step_ok:
  assumes "hub_step key h h'" and "hub_ok key h" and "good_key key"
  shows "hub_ok key h'"
  using assms hub_work_ok hub_event_ok by (cases rule: hub_step.cases) blast+

lemma new_hub_ok: "hub_ok key (new_hub event epoch generation world)"
  by (simp add: hub_ok_iff new_hub_def one_per_race_def)

end
