(* ===== verification/FinishHubRuns.thy ===== *)
theory FinishHubRuns
  imports FinishHubLaws
begin

section \<open>The hub comes to rest with every screen up to date\<close>

text \<open>
  Between two outside events the dispatcher and the workers can only take as many steps as \<open>work\<close> says; and when
  none is left and every commit was notified, each connected screen shows what the tables give for its race.  The
  bounds of the hub -- clients, workers and simultaneous builds -- hold in every reachable state.
\<close>

interpretation hub: machine "hub_step key" "\<lambda>h. good_key key \<longrightarrow> hub_ok key h"
  by unfold_locales (auto intro: hub_step_ok)

subsection \<open>How much is left to do\<close>

definition phase_work :: "64 word \<Rightarrow> phase \<Rightarrow> nat" where
  "phase_work now p = (let stale = (\<lambda>gen. if gen = now then 0 else 6) in
     case p of Stopped \<Rightarrow> 0 | Waiting \<Rightarrow> 1 | Offered gen \<Rightarrow> 2 + stale gen | Built _ gen \<Rightarrow> 3 + stale gen
     | Building _ gen \<Rightarrow> 4 + stale gen | Stamped _ gen \<Rightarrow> 5 + stale gen | Counted _ \<Rightarrow> 6)"

definition working :: "group \<Rightarrow> bool" where
  "working g \<longleftrightarrow> gp_phase g \<noteq> Stopped"

definition group_work :: "64 word \<Rightarrow> group \<Rightarrow> nat" where
  "group_work now g = (if working g then phase_work now (gp_phase g) + (if gp_wake g then 6 else 0) else 0)"

definition work :: "hub \<Rightarrow> nat" where
  "work h = (if hb_wake h then 6 * active_workers h + 2 else 0) +
     (if hb_dispatching h then 6 * active_workers h + 1 else 0) +
     sum_list (map (group_work (hb_generation h)) (hb_groups h)) + (if hb_stopped h then 0 else 1)"

lemma active_workers_working: "active_workers h = length (filter working (hb_groups h))"
  by (simp add: active_workers_def working_def [abs_def])

lemma filter_update_le:
  assumes "P y \<Longrightarrow> P (xs ! i)"
  shows "length (filter P (xs[i := y])) \<le> length (filter P xs)"
  using assms
proof (induction xs arbitrary: i)
  case (Cons x xs)
  then show ?case by (cases i) auto
qed simp

lemma sum_list_less:
  assumes "i < length xs" and "f y < f (xs ! i)"
  shows "sum_list (map f (xs[i := y])) < sum_list (map f xs :: nat list)"
  using assms
proof (induction xs arbitrary: i)
  case (Cons x xs)
  then show ?case by (cases i) auto
qed simp

lemma sum_list_request: "sum_list (map (group_work now) (map (\<lambda>g. if gp_mapped g then request g else g) gs)) \<le>
    sum_list (map (group_work now) gs) + 6 * length (filter working gs)"
  by (induction gs) (auto simp: group_work_def request_def working_def)

lemma work_on_group:
  assumes "i < length (hb_groups h)" and "hb_groups h' = (hb_groups h)[i := g]"
    and "group_work (hb_generation h) g < group_work (hb_generation h) (hb_groups h ! i)"
    and "hb_generation h' = hb_generation h" "hb_wake h' = hb_wake h" "hb_dispatching h' = hb_dispatching h"
      "hb_stopped h' = hb_stopped h"
  shows "work h' < work h"
proof -
  have "working (hb_groups h ! i)" using assms(3) by (auto simp: group_work_def split: if_splits)
  then have "length (filter working (hb_groups h')) \<le> length (filter working (hb_groups h))"
    unfolding assms(2) by (intro filter_update_le)
  then show ?thesis
    using sum_list_less [OF assms(1), of "group_work (hb_generation h)" g] assms
    by (simp add: work_def active_workers_working)
qed

lemma work_change:
  assumes "i < length (hb_groups h)"
    and "group_work (hb_generation h) (f (hb_groups h ! i)) < group_work (hb_generation h) (hb_groups h ! i)"
  shows "work (on_group i f h) < work h"
  by (rule work_on_group [OF assms(1) _ assms(2)]) (simp_all add: on_group_def)

lemma work_frames [simp]: "work (h\<lparr> hb_frames := n \<rparr>) = work h"
  by (simp add: work_def active_workers_def)

lemma work_less:
  assumes "hub_work key h h'"
  shows "work h' < work h"
  using assms
proof cases
  case hear
  then show ?thesis by (simp add: work_def hear_def active_workers_def)
next
  case dispatch
  then show ?thesis
    using sum_list_request [of "hb_generation h" "hb_groups h"]
    by (simp add: work_def dispatch_def active_workers_def filter_map comp_def request_def if_distrib
        working_def [abs_def] cong: if_cong)
next
  case (wake i)
  then show ?thesis unfolding wake(1)
    by (intro work_change) (simp_all add: count_build_def group_work_def phase_work_def working_def)
next
  case (stamp i n)
  then show ?thesis unfolding stamp(1)
    by (intro work_change) (simp_all add: group_work_def phase_work_def working_def)
next
  case (slot i n gen)
  then show ?thesis unfolding slot(1)
    by (intro work_change) (simp_all add: group_work_def phase_work_def working_def)
next
  case (leave i n gen)
  then show ?thesis unfolding leave(1)
    by (intro work_change) (auto simp: group_work_def phase_work_def working_def)
next
  case (load i n gen data)
  have "work (on_group i (built key h n gen data) h) < work h"
    using load by (intro work_change) (simp_all add: group_work_def phase_work_def working_def)
  then show ?thesis unfolding load(1) build_built [OF load(2)] by simp
next
  case (fail i n gen e)
  then show ?thesis unfolding fail(1)
    by (intro work_change) (simp_all add: fail_build_def group_work_def phase_work_def working_def)
next
  case (offer i n gen f)
  then show ?thesis unfolding offer(1)
    by (intro work_change) (simp_all add: offer_build_def group_work_def phase_work_def working_def)
next
  case (finish i gen)
  then show ?thesis unfolding finish(1)
    by (intro work_change) (simp_all add: finish_build_def request_def group_work_def phase_work_def working_def)
next
  case stop
  then show ?thesis by (simp add: work_def active_workers_def)
qed

lemma work_bound: "work h \<le> 29 * active_workers h + 4"
proof -
  have "group_work now g \<le> (if working g then 17 else 0)" for now g
    by (auto simp: group_work_def phase_work_def Let_def split: phase.split)
  then have "sum_list (map (group_work now) gs) \<le> sum_list (map (\<lambda>g. if working g then 17 else 0) gs)" for now gs
    by (intro sum_list_mono) simp
  moreover have "sum_list (map (\<lambda>g. if working g then 17 else 0) gs) = 17 * length (filter working gs)" for gs
    by (induction gs) auto
  ultimately have "sum_list (map (group_work now) gs) \<le> 17 * length (filter working gs)" for now gs by metis
  from this [of "hb_generation h" "hb_groups h"] show ?thesis by (simp add: work_def active_workers_working)
qed

lemma work_steps: "(hub_work key ^^ n) h h' \<Longrightarrow> n + work h' \<le> work h"
proof (induction n arbitrary: h')
  case (Suc n)
  then obtain k where "(hub_work key ^^ n) h k" "hub_work key k h'" by auto
  then show ?case using Suc.IH work_less by fastforce
qed simp

subsection \<open>The hub at rest\<close>

definition at_rest :: "(string \<Rightarrow> string) \<Rightarrow> hub \<Rightarrow> bool" where
  "at_rest key h \<longleftrightarrow> (\<forall>h'. \<not> hub_work key h h')"

lemma rest_no_building:
  assumes "at_rest key h" and "g \<in> set (hb_groups h)"
  shows "\<not> building g"
proof -
  obtain i where "i < length (hb_groups h)" "g = hb_groups h ! i" using assms(2) by (auto simp: in_set_conv_nth)
  then show ?thesis
    using assms(1) hub_work.fail [of i h _ _ key] unfolding at_rest_def building_def by (cases "gp_phase g") simp_all
qed

lemma rest_phase:
  assumes "at_rest key h" and "group_ok key h g" and "g \<in> set (hb_groups h)"
  shows "gp_phase g = Stopped \<or> gp_phase g = Waiting \<and> \<not> gp_wake g \<and> \<not> gp_cancelled g"
proof -
  obtain i where i: "i < length (hb_groups h)" "g = hb_groups h ! i" using assms(3) by (auto simp: in_set_conv_nth)
  have "filter building (hb_groups h) = []" using rest_no_building [OF assms(1)] by (simp add: filter_empty_conv)
  then have free: "free_slot h" by (simp add: free_slot_def build_slots_def)
  have no: "\<not> hub_work key h h'" for h' using assms(1) by (simp add: at_rest_def)
  show ?thesis
  proof (cases "gp_phase g")
    case Waiting
    then show ?thesis using no hub_work.wake [of i h key] hub_work.leave [of i h] i by auto
  next
    case (Counted n)
    then show ?thesis using no hub_work.stamp [of i h n] i by auto
  next
    case (Stamped n gen)
    then show ?thesis using no hub_work.slot [of i h n gen] i free by auto
  next
    case (Building n gen)
    then show ?thesis using rest_no_building [OF assms(1,3)] by (simp add: building_def)
  next
    case (Built n gen)
    then obtain f where "gp_previous g = Some f" using assms(2) by (auto simp: group_ok_def)
    then show ?thesis using no hub_work.offer [of i h n gen f key] i Built by auto
  next
    case (Offered gen)
    then show ?thesis using no hub_work.finish [of i h gen] i by auto
  qed simp
qed

lemma rest_current:
  assumes "at_rest key h" and "hub_ok key h" and "hb_unnotified h = 0"
    and "g \<in> set (hb_groups h)" and "\<not> gp_cancelled g" and "s \<in> set (gp_screens g)" and "live s"
  shows "\<exists>f. shown s = Some f \<and> hb_world h (gp_race g) = Inr (fm_json f)"
proof -
  have ok: "group_ok key h g" using assms(2,4) by (simp add: hub_ok_iff)
  then have run: "\<not> hb_stopped h" and served: "screens_served g" and cur: "current h g" and "gp_phase g \<noteq> Stopped"
    using assms(5) unfolding group_ok_def by blast+
  then have w: "gp_phase g = Waiting" "\<not> gp_wake g" using rest_phase [OF assms(1) ok assms(4)] by blast+
  have "\<not> hb_dispatching h" using assms(1) hub_work.dispatch unfolding at_rest_def by blast
  moreover from this have "\<not> hb_wake h" using assms(1) hub_work.hear run unfolding at_rest_def by blast
  ultimately have "quiet h g" using assms(3) w(2) by (simp add: quiet_def)
  then obtain f where f: "gp_previous g = Some f" "hb_world h (gp_race g) = Inr (fm_json f)"
    using cur w(1) by (auto simp: current_def loaded_def)
  have "shown s = gp_previous g"
    using served assms(6,7) w unfolding screens_served_def offered_def by (auto simp: not_less)
  then show ?thesis using f by auto
qed

lemma new_hub_reaches_ok:
  assumes "(hub_step key)\<^sup>*\<^sup>* (new_hub event epoch generation world) h" and "good_key key"
  shows "hub_ok key h"
  using hub.inv_steps [OF assms(1)] new_hub_ok assms(2) by blast

lemma work_run: "(hub_work key ^^ n) h h' \<Longrightarrow> (hub_step key)\<^sup>*\<^sup>* h h'"
proof (induction n arbitrary: h')
  case (Suc n)
  then obtain k where "(hub_work key ^^ n) h k" "hub_work key k h'" by auto
  then show ?case using Suc.IH hub_step.work by (meson rtranclp.rtrancl_into_rtrancl)
qed simp

lemma work_world:
  assumes "hub_work key h h'"
  shows "hb_world h' = hb_world h" and "hb_unnotified h' = hb_unnotified h"
  using assms by (cases; simp add: hear_def dispatch_def on_group_def build_def Let_def)+

lemma work_run_world: "(hub_work key ^^ n) h h' \<Longrightarrow> hb_world h' = hb_world h \<and> hb_unnotified h' = hb_unnotified h"
proof (induction n arbitrary: h')
  case (Suc n)
  then obtain k where "(hub_work key ^^ n) h k" "hub_work key k h'" by auto
  then show ?case using Suc.IH work_world by metis
qed simp

subsection \<open>The bounds of the hub\<close>

definition open_screens :: "group \<Rightarrow> nat" where
  "open_screens g = length (filter (\<lambda>s. \<not> sb_closed s) (gp_screens g))"

definition hub_bounded :: "hub \<Rightarrow> bool" where
  "hub_bounded h \<longleftrightarrow> hb_clients h = sum_list (map open_screens (hb_groups h)) \<and> hb_clients h \<le> max_finish_clients \<and>
     active_workers h \<le> max_finish_clients \<and> length (filter building (hb_groups h)) \<le> build_slots"

lemma filter_update_Suc: "length (filter P (xs[i := y])) \<le> Suc (length (filter P xs))"
proof (induction xs arbitrary: i)
  case (Cons x xs)
  then show ?case by (cases i) auto
qed simp

lemma sum_list_change:
  assumes "i < length xs" and "f y + a = f (xs ! i) + (b :: nat)"
  shows "sum_list (map f (xs[i := y])) + a = sum_list (map f xs) + b"
  using assms
proof (induction xs arbitrary: i)
  case (Cons x xs)
  show ?case
  proof (cases i)
    case 0
    then show ?thesis using Cons.prems by simp
  next
    case (Suc k)
    then show ?thesis using Cons.IH [of k] Cons.prems by simp
  qed
qed simp

lemma hub_bounded_group:
  assumes "hub_bounded h" and "i < length (hb_groups h)" and "hb_groups h' = (hb_groups h)[i := g]"
    and "working g \<Longrightarrow> working (hb_groups h ! i)" and "building g \<Longrightarrow> building (hb_groups h ! i) \<or> free_slot h"
    and "open_screens g + a = open_screens (hb_groups h ! i) + b" and "hb_clients h' + a = hb_clients h + b"
    and "hb_clients h' \<le> max_finish_clients"
  shows "hub_bounded h'"
proof -
  have 1: "length (filter working (hb_groups h')) \<le> length (filter working (hb_groups h))"
    unfolding assms(3) using assms(4) by (intro filter_update_le)
  have 2: "length (filter building (hb_groups h')) \<le> build_slots"
  proof (cases "free_slot h")
    case True
    then show ?thesis
      using filter_update_Suc [of building "hb_groups h" i g] unfolding assms(3) free_slot_def by simp
  next
    case False
    then have "length (filter building (hb_groups h')) \<le> length (filter building (hb_groups h))"
      unfolding assms(3) by (intro filter_update_le) (use assms(5) in blast)
    then show ?thesis using assms(1) by (simp add: hub_bounded_def)
  qed
  have "sum_list (map open_screens (hb_groups h')) + a = sum_list (map open_screens (hb_groups h)) + b"
    unfolding assms(3) by (rule sum_list_change [OF assms(2,6)])
  then have "hb_clients h' = sum_list (map open_screens (hb_groups h'))"
    using assms(1,7) by (simp add: hub_bounded_def)
  then show ?thesis using 1 2 assms(1,8) by (simp add: hub_bounded_def active_workers_working)
qed

lemma hub_bounded_change:
  assumes "hub_bounded h" and "i < length (hb_groups h)" and "working (f (hb_groups h ! i)) \<Longrightarrow> working (hb_groups h ! i)"
    and "building (f (hb_groups h ! i)) \<Longrightarrow> building (hb_groups h ! i) \<or> free_slot h"
    and "open_screens (f (hb_groups h ! i)) = open_screens (hb_groups h ! i)"
  shows "hub_bounded (on_group i f h)"
  by (rule hub_bounded_group [where g = "f (hb_groups h ! i)" and a = 0 and b = 0, OF assms(1,2) _ assms(3,4)])
    (use assms(1,5) in \<open>simp_all add: on_group_def hub_bounded_def\<close>)

lemma hub_bounded_map:
  assumes "hub_bounded h" and "hb_groups h' = map f (hb_groups h)" and "hb_clients h' = hb_clients h"
    and "\<And>g. gp_phase (f g) = gp_phase g" and "\<And>g. gp_screens (f g) = gp_screens g"
  shows "hub_bounded h'"
proof -
  have p: "working (f g) = working g" "building (f g) = building g" "open_screens (f g) = open_screens g" for g
    by (simp_all add: working_def building_def open_screens_def assms(4,5))
  have "length (filter P (map f gs)) = length (filter P gs)" if "\<And>g. P (f g) = P g" for P gs
    using that by (induction gs) auto
  then have "length (filter working (map f (hb_groups h))) = length (filter working (hb_groups h))"
    "length (filter building (map f (hb_groups h))) = length (filter building (hb_groups h))"
    using p by blast+
  moreover have "map open_screens (map f (hb_groups h)) = map open_screens (hb_groups h)" using p by simp
  ultimately show ?thesis using assms(1-3) by (simp add: hub_bounded_def active_workers_working del: map_map)
qed

lemma hub_bounded_same:
  assumes "hub_bounded h" and "hb_groups h' = hb_groups h" and "hb_clients h' = hb_clients h"
  shows "hub_bounded h'"
  using assms by (simp add: hub_bounded_def active_workers_def)

lemma open_screens_map:
  assumes "\<And>s. sb_closed (q s) = sb_closed s"
  shows "length (filter ((\<lambda>s. \<not> sb_closed s) \<circ> q) ss) = length (filter (\<lambda>s. \<not> sb_closed s) ss)"
  using assms by (simp add: comp_def)

lemma hub_bounded_work:
  assumes "hub_work key h h'" and "hub_bounded h"
  shows "hub_bounded h'"
  using assms(1)
proof cases
  case hear
  then show ?thesis by (intro hub_bounded_same [OF assms(2)]) (simp_all add: hear_def)
next
  case dispatch
  then show ?thesis
    by (intro hub_bounded_map [OF assms(2), where f = "\<lambda>g. if gp_mapped g then request g else g"])
      (simp_all add: dispatch_def request_def)
next
  case (wake i)
  then show ?thesis unfolding wake(1)
    by (intro hub_bounded_change [OF assms(2)]) (simp_all add: count_build_def working_def building_def open_screens_def)
next
  case (stamp i n)
  then show ?thesis unfolding stamp(1)
    by (intro hub_bounded_change [OF assms(2)]) (simp_all add: working_def building_def open_screens_def)
next
  case (slot i n gen)
  then show ?thesis unfolding slot(1)
    by (intro hub_bounded_change [OF assms(2)]) (simp_all add: working_def building_def open_screens_def)
next
  case (leave i n gen)
  then show ?thesis unfolding leave(1)
    by (intro hub_bounded_change [OF assms(2)]) (simp_all add: working_def building_def open_screens_def)
next
  case (load i n gen data)
  then have "hub_bounded (on_group i (built key h n gen data) h)"
    by (intro hub_bounded_change [OF assms(2)])
      (simp_all add: working_def building_def open_screens_def built_def)
  then show ?thesis unfolding load(1) build_built [OF load(2)] by (rule hub_bounded_same) simp_all
next
  case (fail i n gen e)
  then show ?thesis unfolding fail(1)
    by (intro hub_bounded_change [OF assms(2)])
      (simp_all add: fail_build_def working_def building_def open_screens_def open_screens_map fail_screen_def)
next
  case (offer i n gen f)
  then show ?thesis unfolding offer(1)
    by (intro hub_bounded_change [OF assms(2)])
      (simp_all add: offer_build_def working_def building_def open_screens_def open_screens_map FinishHub.offer_def)
next
  case (finish i gen)
  then show ?thesis unfolding finish(1)
    by (intro hub_bounded_change [OF assms(2)])
      (simp_all add: finish_build_def request_def working_def building_def open_screens_def)
next
  case stop
  then show ?thesis by (intro hub_bounded_same [OF assms(2)]) simp_all
qed

lemma hub_bounded_open:
  assumes "open_group race h = Inr h'" and "hub_bounded h" and "hb_clients h < max_finish_clients"
  shows "hub_bounded h'"
proof -
  have busy: "active_workers h < max_finish_clients"
    and h': "h' = h\<lparr> hb_groups := map (unmap race) (hb_groups h) @ [join_group (new_group race)],
      hb_clients := hb_clients h + 1 \<rparr>"
    using assms(1) by (auto simp: open_group_def split: if_splits)
  let ?m = "h\<lparr> hb_groups := map (unmap race) (hb_groups h) \<rparr>"
  have m: "hub_bounded ?m" by (rule hub_bounded_map [OF assms(2), of _ "unmap race"]) (simp_all add: unmap_def)
  have "active_workers ?m = active_workers h"
    by (simp add: active_workers_def filter_map comp_def unmap_def if_distrib cong: if_cong)
  moreover have "working (join_group (new_group race))" "\<not> building (join_group (new_group race))"
    "open_screens (join_group (new_group race)) = 1"
    by (simp_all add: join_group_def request_def new_group_def new_screen_def working_def building_def open_screens_def)
  ultimately show ?thesis
    using m busy assms(3) by (simp add: hub_bounded_def h' active_workers_working)
qed

lemma hub_bounded_subscribe:
  assumes "subscribe race h = Inr h'" and "hub_bounded h"
  shows "hub_bounded h'"
proof -
  have room: "hb_clients h < max_finish_clients" using assms(1) by (simp add: subscribe_def split: if_splits)
  show ?thesis
  proof (cases "open_group race h = Inr h'")
    case True
    then show ?thesis using hub_bounded_open assms(2) room by blast
  next
    case False
    then obtain i where i: "group_of race (hb_groups h) = Some i"
      and h': "h' = (on_group i join_group h)\<lparr> hb_clients := hb_clients h + 1 \<rparr>"
      using assms(1) by (auto simp: subscribe_def split: if_splits option.splits)
    have "i < length (hb_groups h)" using group_of_Some [OF i] by blast
    then show ?thesis
      by (rule hub_bounded_group [OF assms(2), of _ _ "join_group (hb_groups h ! i)" 0 1])
        (use room in \<open>simp_all add: h' on_group_def join_group_def request_def new_screen_def working_def building_def open_screens_def\<close>)
  qed
qed

lemma filter_close:
  assumes "j < length ss" and "\<not> sb_closed (ss ! j)"
  shows "length (filter (\<lambda>s. \<not> sb_closed s) (ss[j := close_screen (ss ! j)])) + 1 =
    length (filter (\<lambda>s. \<not> sb_closed s) ss)"
  using assms
proof (induction ss arbitrary: j)
  case (Cons s ss)
  then show ?case by (cases j) (auto simp: close_screen_def)
qed simp

lemma filter_take:
  "length (filter (\<lambda>s. \<not> sb_closed s) (ss[j := take_frame (ss ! j)])) = length (filter (\<lambda>s. \<not> sb_closed s) ss)"
proof (induction ss arbitrary: j)
  case (Cons s ss)
  then show ?case by (cases j) (auto simp: take_frame_def)
qed simp

lemma hub_bounded_event:
  assumes "hub_event h h'" and "hub_bounded h"
  shows "hub_bounded h'"
  using assms(1)
proof cases
  case (commit world)
  then show ?thesis by (intro hub_bounded_same [OF assms(2)]) simp_all
next
  case raise_generation
  then show ?thesis by (intro hub_bounded_same [OF assms(2)]) (simp_all add: raise_generation_def)
next
  case wake_up
  then show ?thesis by (intro hub_bounded_same [OF assms(2)]) (simp_all add: wake_up_def)
next
  case (subscribe race)
  then show ?thesis using hub_bounded_subscribe assms(2) by blast
next
  case (take_frame i j)
  then show ?thesis unfolding take_frame(1)
    by (intro hub_bounded_change [OF assms(2)])
      (simp_all add: on_screen_def working_def building_def open_screens_def filter_take)
next
  case (close i j)
  have open': "open_screens (close_in_group j (hb_groups h ! i)) + 1 = open_screens (hb_groups h ! i)"
    using filter_close [OF close(3,4)] by (simp add: close_in_group_def on_screen_def open_screens_def Let_def)
  have "open_screens (hb_groups h ! i) \<le> sum_list (map open_screens (hb_groups h))"
    using close(2) by (intro member_le_sum_list) simp_all
  then have some: "hb_clients h > 0" "hb_clients h \<le> max_finish_clients"
    using open' assms(2) by (simp_all add: hub_bounded_def)
  have "gp_phase (close_in_group j (hb_groups h ! i)) = gp_phase (hb_groups h ! i)"
    by (simp add: close_in_group_def on_screen_def Let_def)
  then show ?thesis
    by (intro hub_bounded_group [OF assms(2) close(2), of _ "close_in_group j (hb_groups h ! i)" 1 0])
      (use some open' in \<open>simp_all add: close(1) on_group_def working_def building_def\<close>)
next
  case cancel
  then show ?thesis
    by (intro hub_bounded_map [OF assms(2), where f = "\<lambda>g. g\<lparr> gp_cancelled := True \<rparr>"])
      (simp_all add: cancel_hub_def cancel)
qed

interpretation bounded: machine "hub_step key" hub_bounded
  using hub_bounded_work hub_bounded_event by unfold_locales (auto elim: hub_step.cases)

lemma new_hub_bounded: "hub_bounded (new_hub event epoch generation world)"
  by (simp add: hub_bounded_def new_hub_def active_workers_def max_finish_clients_def build_slots_def)

subsection \<open>What the hub promises\<close>

lemma new_hub_reaches_bounded:
  "(hub_step key)\<^sup>*\<^sup>* (new_hub event epoch generation world) h \<Longrightarrow> hub_bounded h"
  using bounded.inv_steps new_hub_bounded by blast

text \<open>
  C26. Whatever commits, notifications, connections and disconnections there were, the hub comes to rest by itself:
  after at most 932 steps of the dispatcher and the workers nothing is left to do.
\<close>

theorem hub_comes_to_rest:
  assumes "(hub_step key)\<^sup>*\<^sup>* (new_hub event epoch generation world) h" and "(hub_work key ^^ n) h h'"
  shows "n \<le> 932"
proof -
  have "active_workers h \<le> 32"
    using new_hub_reaches_bounded [OF assms(1)] by (simp add: hub_bounded_def max_finish_clients_def)
  then show ?thesis using work_steps [OF assms(2)] work_bound [of h] by simp
qed

text \<open>
  C27. Once the hub is at rest and every commit has been notified, each connected screen shows exactly what the
  tables give for its race: no finish is lost on the way, however commits, builds and connections interleaved.
\<close>

theorem screens_are_current:
  assumes "(hub_step key)\<^sup>*\<^sup>* (new_hub event epoch generation world) h" and "good_key key"
    and "at_rest key h" and "hb_unnotified h = 0"
    and "g \<in> set (hb_groups h)" and "\<not> gp_cancelled g" and "s \<in> set (gp_screens g)" and "live s"
  shows "\<exists>f. shown s = Some f \<and> hb_world h (gp_race g) = Inr (fm_json f)"
  using rest_current [OF assms(3) new_hub_reaches_ok [OF assms(1,2)] assms(4-8)] .

text \<open>
  The hub never serves more than 32 screens, never keeps more than 32 workers nor builds more than four
  snapshots at a time, and its client count is the number of screens not yet closed.
\<close>

theorem hub_stays_bounded:
  assumes "(hub_step key)\<^sup>*\<^sup>* (new_hub event epoch generation world) h"
  shows "hb_clients h = sum_list (map open_screens (hb_groups h)) \<and> hb_clients h \<le> 32 \<and> active_workers h \<le> 32 \<and>
    length (filter building (hb_groups h)) \<le> 4"
  using new_hub_reaches_bounded [OF assms] by (simp add: hub_bounded_def max_finish_clients_def build_slots_def)

subsection \<open>A screen at work\<close>

definition demo_key :: "string \<Rightarrow> string" where
  "demo_key x = CHR ''k'' # x"

definition demo_world :: "string \<Rightarrow> string + string" where
  "demo_world race = Inr ''finishes''"

definition demo_start :: hub where
  "demo_start = new_hub ''E'' 1 7 demo_world"

definition demo_screen :: "frame option \<Rightarrow> string \<Rightarrow> bool \<Rightarrow> screen" where
  "demo_screen p l w = \<lparr> sb_pending = p, sb_last = l, sb_wake = w, sb_error = None, sb_cancelled = False,
     sb_closed = False, sb_min = 1, sb_got = [] \<rparr>"

definition demo_frame :: frame where
  "demo_frame = \<lparr> fm_id = ''kview:1:E:R:1'', fm_json = ''finishes'' \<rparr>"

definition demo_group :: "bool \<Rightarrow> nat \<Rightarrow> phase \<Rightarrow> frame option \<Rightarrow> screen \<Rightarrow> group" where
  "demo_group w k p f s = \<lparr> gp_race = ''R'', gp_mapped = True, gp_cancelled = False, gp_wake = w, gp_screens = [s],
     gp_serial = k, gp_phase = p, gp_previous = f \<rparr>"

definition demo_hub :: "nat \<Rightarrow> group \<Rightarrow> hub" where
  "demo_hub n g = demo_start\<lparr> hb_groups := [g], hb_clients := 1, hb_frames := n \<rparr>"

lemmas demo_defs = demo_start_def demo_screen_def demo_frame_def demo_group_def demo_hub_def new_hub_def
  demo_world_def demo_key_def

lemma demo_subscribe:
  "subscribe ''R'' demo_start = Inr (demo_hub 0 (demo_group True 0 Waiting None (demo_screen None [] False)))"
  by (simp add: demo_defs subscribe_def open_group_def active_workers_def max_finish_clients_def join_group_def
      request_def new_group_def new_screen_def)

lemma demo_open: "(hub_step demo_key)\<^sup>*\<^sup>* demo_start (demo_hub 0 (demo_group True 0 Waiting None (demo_screen None [] False)))"
  by (rule r_into_rtranclp, rule hub_step.event, rule hub_event.subscribe [OF demo_subscribe])

lemma demo_frame_name: "demo_key (frame_text demo_start ''R'' 1) = fm_id demo_frame"
  by (simp add: demo_defs frame_text_def) code_simp

lemma six_steps: "R a b \<Longrightarrow> R b c \<Longrightarrow> R c d \<Longrightarrow> R d e \<Longrightarrow> R e f \<Longrightarrow> R f g \<Longrightarrow> (R ^^ 6) a g"
  by (auto simp: numeral_eq_Suc intro!: relcomppI)

lemma demo_runs:
  "(hub_work demo_key ^^ 6) (demo_hub 0 (demo_group True 0 Waiting None (demo_screen None [] False)))
     (demo_hub 1 (demo_group False 1 Waiting (Some demo_frame) (demo_screen (Some demo_frame) (fm_id demo_frame) True)))"
proof -
  let ?s = "demo_screen None [] False"
  have 1: "hub_work demo_key (demo_hub 0 (demo_group True 0 Waiting None ?s)) (demo_hub 0 (demo_group False 1 (Counted 1) None ?s))"
    using hub_work.wake [of 0 "demo_hub 0 (demo_group True 0 Waiting None ?s)" demo_key]
    by (simp add: demo_defs on_group_def count_build_def)
  have 2: "hub_work demo_key (demo_hub 0 (demo_group False 1 (Counted 1) None ?s)) (demo_hub 0 (demo_group False 1 (Stamped 1 7) None ?s))"
    using hub_work.stamp [of 0 "demo_hub 0 (demo_group False 1 (Counted 1) None ?s)" 1 demo_key]
    by (simp add: demo_defs on_group_def)
  have 3: "hub_work demo_key (demo_hub 0 (demo_group False 1 (Stamped 1 7) None ?s)) (demo_hub 0 (demo_group False 1 (Building 1 7) None ?s))"
    using hub_work.slot [of 0 "demo_hub 0 (demo_group False 1 (Stamped 1 7) None ?s)" 1 7 demo_key]
    by (simp add: demo_defs on_group_def free_slot_def building_def build_slots_def)
  have 4: "hub_work demo_key (demo_hub 0 (demo_group False 1 (Building 1 7) None ?s)) (demo_hub 1 (demo_group False 1 (Built 1 7) (Some demo_frame) ?s))"
    using hub_work.load [of 0 "demo_hub 0 (demo_group False 1 (Building 1 7) None ?s)" 1 7 "''finishes''" demo_key] demo_frame_name
    by (simp add: demo_defs on_group_def build_def same_frame_def max_frame_bytes_def frame_text_def Let_def)
  have 5: "hub_work demo_key (demo_hub 1 (demo_group False 1 (Built 1 7) (Some demo_frame) ?s))
      (demo_hub 1 (demo_group False 1 (Offered 7) (Some demo_frame) (demo_screen (Some demo_frame) (fm_id demo_frame) True)))"
    using hub_work.offer [of 0 "demo_hub 1 (demo_group False 1 (Built 1 7) (Some demo_frame) ?s)" 1 7 demo_frame demo_key]
    by (simp add: demo_defs on_group_def offer_build_def FinishHub.offer_def)
  have 6: "hub_work demo_key (demo_hub 1 (demo_group False 1 (Offered 7) (Some demo_frame) (demo_screen (Some demo_frame) (fm_id demo_frame) True)))
      (demo_hub 1 (demo_group False 1 Waiting (Some demo_frame) (demo_screen (Some demo_frame) (fm_id demo_frame) True)))"
    using hub_work.finish [of 0 "demo_hub 1 (demo_group False 1 (Offered 7) (Some demo_frame) (demo_screen (Some demo_frame) (fm_id demo_frame) True))" 7 demo_key]
    by (simp add: demo_defs on_group_def finish_build_def)
  show ?thesis using 1 2 3 4 5 6 by (rule six_steps [where R = "hub_work demo_key"])
qed

lemma demo_rest:
  "at_rest demo_key (demo_hub 1 (demo_group False 1 Waiting (Some demo_frame) (demo_screen (Some demo_frame) (fm_id demo_frame) True)))"
  unfolding at_rest_def
proof (intro allI notI)
  fix h' assume "hub_work demo_key (demo_hub 1 (demo_group False 1 Waiting (Some demo_frame)
      (demo_screen (Some demo_frame) (fm_id demo_frame) True))) h'"
  then show False by cases (simp_all add: demo_defs)
qed

lemma demo_good: "good_key demo_key"
  by (simp add: good_key_def demo_key_def)

theorem hub_comes_to_rest_witness:
  "(hub_work demo_key ^^ 6) (demo_hub 0 (demo_group True 0 Waiting None (demo_screen None [] False)))
     (demo_hub 1 (demo_group False 1 Waiting (Some demo_frame) (demo_screen (Some demo_frame) (fm_id demo_frame) True)))
   \<and> (6::nat) \<le> 932"
  using hub_comes_to_rest [OF demo_open [unfolded demo_start_def] demo_runs] demo_runs by blast

lemma demo_reach: "(hub_step demo_key)\<^sup>*\<^sup>* (new_hub ''E'' 1 7 demo_world)
    (demo_hub 1 (demo_group False 1 Waiting (Some demo_frame) (demo_screen (Some demo_frame) (fm_id demo_frame) True)))"
  using demo_open work_run [OF demo_runs] unfolding demo_start_def by (rule rtranclp_trans)

theorem screens_are_current_witness:
  "\<exists>f. shown (demo_screen (Some demo_frame) (fm_id demo_frame) True) = Some f \<and> demo_world ''R'' = Inr (fm_json f)"
  using screens_are_current [OF demo_reach demo_good demo_rest,
      of "demo_group False 1 Waiting (Some demo_frame) (demo_screen (Some demo_frame) (fm_id demo_frame) True)"
        "demo_screen (Some demo_frame) (fm_id demo_frame) True"]
  by (simp add: demo_defs live_def)

theorem hub_stays_bounded_witness: "hb_clients (demo_hub 1 (demo_group False 1 Waiting (Some demo_frame)
    (demo_screen (Some demo_frame) (fm_id demo_frame) True))) \<le> 32"
  using hub_stays_bounded [OF demo_reach] by blast

end
