(* ===== verification/Observations.thy ===== *)
theory Observations
  imports Prelude GoText
begin

section \<open>Raw observations of an event database\<close>

text \<open>
  The tables \<^verbatim>\<open>rfid_logs\<close>, \<^verbatim>\<open>observation_outbox\<close> and \<^verbatim>\<open>sync_config\<close>, the sequence of
  \<^verbatim>\<open>origin_identity.go\<close> that numbers what this Desk captured itself, and the two ways a reading enters the
  tables: \<^verbatim>\<open>InsertOwnedRfidLogs\<close> of \<^verbatim>\<open>store.go\<close> and \<^verbatim>\<open>importObservation\<close> of
  \<^verbatim>\<open>observation_import.go\<close>.  A Go error leaves the database as it was (the transaction rolls back), so an
  operation returns the new database on success only; the origin sequence is kept in a file of its own and stays
  consumed after a rollback.

  The shared module \<^verbatim>\<open>rfid-core\<close> is two parameters: whether a row with edge metadata is a valid edge
  observation, and whether two sets of physical facts are the same read.
\<close>

record edge_meta =
  em_version :: int
  em_session :: string
  em_profile :: string
  em_evidence :: string
  em_quality :: string

record observation =
  ob_id :: string
  ob_event :: string
  ob_status :: int
  ob_number :: int
  ob_time :: int
  ob_ant :: int
  ob_epc :: string
  ob_rssi :: int
  ob_board :: string
  ob_disabled :: "int option"
  ob_version :: int
  ob_source :: string
  ob_system :: string
  ob_instance :: string
  ob_sequence :: int
  ob_edge :: "edge_meta option"

datatype outbox_state = Ox_Pending | Ox_Sent | Ox_Acked | Ox_Rejected

record outbox_row =
  ox_sequence :: int
  ox_observation :: string
  ox_state :: outbox_state
  ox_batch :: "string option"
  ox_created :: int
  ox_attempted :: "int option"
  ox_attempts :: nat
  ox_acked :: "int option"
  ox_rejection :: "string option"

record sync_row =
  sc_event :: string
  sc_url :: string
  sc_token :: string
  sc_synced :: "int option"
  sc_hash :: "string option"
  sc_cursor :: "string option"
  sc_pulled :: "int option"
  sc_pending :: int

record odb =
  od_events :: "string list"
  od_logs :: "observation list"
  od_outbox :: "outbox_row list"
  od_config :: "sync_row list"

text \<open>What \<^verbatim>\<open>rfid-core\<close> decides: the physical facts are id, board, EPC, time, antenna and number.\<close>

type_synonym facts = "string \<times> string \<times> string \<times> int \<times> int \<times> int"

record codec =
  cx_valid :: "int \<Rightarrow> observation \<Rightarrow> bool"
  cx_same :: "facts \<Rightarrow> facts \<Rightarrow> bool"

subsection \<open>The origin of this installation\<close>

record origin =
  og_instance :: string
  og_last :: int

definition next_sequence :: "origin \<Rightarrow> origin \<times> int res" where
  "next_sequence g = (if og_last g < 9223372036854775807
     then (g\<lparr> og_last := og_last g + 1 \<rparr>, Inr (og_last g + 1))
     else (g, Inl ''allocate observation origin sequence''))"

subsection \<open>Rows\<close>

definition blank :: "string \<Rightarrow> bool" where
  "blank s = (case runes_of s of None \<Rightarrow> False | Some rs \<Rightarrow> list_all is_space rs)"

text \<open>\<^verbatim>\<open>ValidateEdgeMetadata\<close>: the event id of an edge observation is a canonical number.\<close>

definition valid_edge :: "codec \<Rightarrow> observation \<Rightarrow> unit res" where
  "valid_edge cx l = (case ob_edge l of None \<Rightarrow> Inr ()
     | Some _ \<Rightarrow> (case parse_int 64 (ob_event l) of
         None \<Rightarrow> Inl ''edge observation: invalid event ID''
       | Some n \<Rightarrow> if format_int n \<noteq> ob_event l then Inl ''edge observation: invalid event ID''
                   else fail_if (\<not> cx_valid cx n l) ''edge observation''))"

text \<open>What a row holds of a log: empty and non-positive metadata is NULL, and reads back as zero.\<close>

definition stored :: "observation \<Rightarrow> observation" where
  "stored l = l\<lparr> ob_version := max 0 (ob_version l), ob_sequence := max 0 (ob_sequence l) \<rparr>"

definition find_log :: "string \<Rightarrow> odb \<Rightarrow> observation option" where
  "find_log i d = List.find (\<lambda>l. ob_id l = i) (od_logs d)"

subsection \<open>Readings captured by this Desk\<close>

definition owned_row :: "observation \<Rightarrow> observation" where
  "owned_row l = l\<lparr> ob_version := 0, ob_source := [], ob_system := [], ob_instance := [], ob_sequence := 0,
     ob_edge := None \<rparr>"

definition claim_row :: "string \<Rightarrow> string \<Rightarrow> int \<Rightarrow> observation \<Rightarrow> observation" where
  "claim_row inst source n l = l\<lparr> ob_version := 1, ob_source := source, ob_system := ''chrono-desk'',
     ob_instance := inst, ob_sequence := n \<rparr>"

definition pending_row :: "int \<Rightarrow> string \<Rightarrow> int \<Rightarrow> outbox_row" where
  "pending_row n i now = \<lparr> ox_sequence = n, ox_observation = i, ox_state = Ox_Pending, ox_batch = None,
     ox_created = now, ox_attempted = None, ox_attempts = 0, ox_acked = None, ox_rejection = None \<rparr>"

definition journal_owned :: "string \<Rightarrow> int \<Rightarrow> int \<Rightarrow> observation \<Rightarrow> odb \<Rightarrow> odb res" where
  "journal_owned inst now n l d =
    (if n \<le> 0 then Inl ''allocate origin sequence: non-positive sequence''
     else if list_ex (\<lambda>r. ox_sequence r = n \<or> ox_observation r = ob_id l) (od_outbox d)
     then Inl ''journal owned rfid_log: UNIQUE''
     else Inr (d\<lparr> od_logs := od_logs d @ [claim_row inst (ob_source l) n (owned_row l)],
                  od_outbox := od_outbox d @ [pending_row n (ob_id l) now] \<rparr>))"

definition insert_owned_row :: "int \<Rightarrow> observation \<Rightarrow> origin \<Rightarrow> odb \<Rightarrow> origin \<times> odb res" where
  "insert_owned_row now l g d =
    (if blank (ob_source l) then (g, Inl ''capture source id is required'')
     else if ob_edge l \<noteq> None then (g, Inl ''edge observation cannot enter the Desk-owned outbox'')
     else if find_log (ob_id l) d \<noteq> None then (g, Inr d)
     else if ob_event l \<notin> set (od_events d) then (g, Inl ''insert owned rfid_log: FOREIGN KEY'')
     else case next_sequence g of
            (g', Inl e) \<Rightarrow> (g', Inl e)
          | (g', Inr n) \<Rightarrow> (g', journal_owned (og_instance g') now n l d))"

fun insert_owned_rows :: "int \<Rightarrow> observation list \<Rightarrow> origin \<Rightarrow> odb \<Rightarrow> origin \<times> odb res" where
  "insert_owned_rows now [] g d = (g, Inr d)"
| "insert_owned_rows now (l # os) g d =
    (case insert_owned_row now l g d of
       (g', Inl e) \<Rightarrow> (g', Inl e)
     | (g', Inr d') \<Rightarrow> insert_owned_rows now os g' d')"

definition insert_owned :: "int \<Rightarrow> observation list \<Rightarrow> origin \<Rightarrow> odb \<Rightarrow> origin \<times> odb res" where
  "insert_owned now os g d =
    (if blank (og_instance g) then (g, Inl ''observation origin is not configured'')
     else insert_owned_rows now os g d)"

subsection \<open>Readings of others\<close>

definition lower_ascii :: "string \<Rightarrow> nat list" where
  "lower_ascii s = map (\<lambda>c. let b = byte_of c in if 65 \<le> b \<and> b \<le> 90 then b + 32 else b) s"

definition aliases :: "observation \<Rightarrow> odb \<Rightarrow> observation list" where
  "aliases l d =
    (let xs = sort_key ob_id (filter (\<lambda>x. ob_event x = ob_event l \<and> ob_board x = ob_board l \<and>
       ob_time x = ob_time l \<and> ob_ant x = ob_ant l \<and> lower_ascii (ob_epc x) = lower_ascii (ob_epc l) \<and>
       ob_number x = ob_number l) (od_logs d))
     in take 2 (filter (\<lambda>x. ob_edge x \<noteq> None) xs @ filter (\<lambda>x. ob_edge x = None) xs))"

definition find_physical :: "observation \<Rightarrow> odb \<Rightarrow> observation option res" where
  "find_physical l d =
    (let xs = aliases l d in
     if ob_edge l = None \<and> \<not> list_ex (\<lambda>x. ob_edge x \<noteq> None) xs then Inr None
     else if length xs > 1 then Inl ''ambiguous legacy physical observation''
     else case xs of [] \<Rightarrow> Inr None | x # _ \<Rightarrow> Inr (find_log (ob_id x) d))"

definition same_immutable :: "observation \<Rightarrow> observation \<Rightarrow> bool" where
  "same_immutable a b \<longleftrightarrow> ob_id a = ob_id b \<and> ob_event a = ob_event b \<and> ob_status a = ob_status b \<and>
     ob_number a = ob_number b \<and> ob_time a = ob_time b \<and> ob_ant a = ob_ant b \<and> ob_epc a = ob_epc b \<and>
     ob_rssi a = ob_rssi b \<and> ob_board a = ob_board b"

definition facts_of :: "string \<Rightarrow> observation \<Rightarrow> facts" where
  "facts_of i l = (i, ob_board l, ob_epc l, ob_time l, ob_ant l, ob_number l)"

definition same_physical :: "codec \<Rightarrow> observation \<Rightarrow> observation \<Rightarrow> bool" where
  "same_physical cx a b \<longleftrightarrow> ob_event a = ob_event b \<and> cx_same cx (facts_of (ob_id b) a) (facts_of (ob_id b) b)"

definition compatible_origin :: "observation \<Rightarrow> observation \<Rightarrow> bool" where
  "compatible_origin a b \<longleftrightarrow>
     (ob_version a = 0 \<or> ob_version b = 0 \<or> ob_version a = ob_version b) \<and>
     (ob_source a = [] \<or> ob_source b = [] \<or> ob_source a = ob_source b) \<and>
     (ob_system a = [] \<or> ob_system b = [] \<or> ob_system a = ob_system b) \<and>
     (ob_instance a = [] \<or> ob_instance b = [] \<or> ob_instance a = ob_instance b) \<and>
     (ob_sequence a = 0 \<or> ob_sequence b = 0 \<or> ob_sequence a = ob_sequence b)"

definition enriched :: "observation \<Rightarrow> observation \<Rightarrow> observation" where
  "enriched a b = a\<lparr>
     ob_version := (if ob_version a = 0 then ob_version b else ob_version a),
     ob_source := (if ob_source a = [] then ob_source b else ob_source a),
     ob_system := (if ob_system a = [] then ob_system b else ob_system a),
     ob_instance := (if ob_instance a = [] then ob_instance b else ob_instance a),
     ob_sequence := (if ob_sequence a = 0 then ob_sequence b else ob_sequence a),
     ob_edge := ob_edge b \<rparr>"

definition merge_origin :: "codec \<Rightarrow> observation \<Rightarrow> observation \<Rightarrow> observation" where
  "merge_origin cx a b =
    (if ob_id a = ob_id b \<and> ob_edge a = None \<and> compatible_origin a b
     then (case valid_edge cx (enriched a b) of Inl _ \<Rightarrow> a | Inr _ \<Rightarrow> enriched a b)
     else a)"

datatype mutation = Mut_Duplicate | Mut_Inserted | Mut_State

definition metadata_changed :: "observation \<Rightarrow> observation \<Rightarrow> bool" where
  "metadata_changed a m \<longleftrightarrow> ob_version a \<noteq> ob_version m \<or> ob_source a \<noteq> ob_source m \<or> ob_system a \<noteq> ob_system m \<or>
     ob_instance a \<noteq> ob_instance m \<or> ob_sequence a \<noteq> ob_sequence m \<or> ob_edge a \<noteq> ob_edge m"

definition write_import :: "observation \<Rightarrow> odb \<Rightarrow> odb" where
  "write_import m d = d\<lparr> od_logs := update_where (\<lambda>x. ob_id x = ob_id m) (\<lambda>x. x\<lparr> ob_disabled := ob_disabled m,
     ob_version := max 0 (ob_version m), ob_source := ob_source m, ob_system := ob_system m,
     ob_instance := ob_instance m, ob_sequence := max 0 (ob_sequence m), ob_edge := ob_edge m \<rparr>) (od_logs d) \<rparr>"

definition update_observation :: "codec \<Rightarrow> observation \<Rightarrow> observation \<Rightarrow> odb \<Rightarrow> (odb \<times> observation \<times> mutation) res" where
  "update_observation cx l a d =
    (let m = merge_origin cx a l; state = (ob_disabled a \<noteq> ob_disabled l); m' = m\<lparr> ob_disabled := ob_disabled l \<rparr> in
     bind_res (valid_edge cx m) (\<lambda>_.
       Inr (if metadata_changed a m' \<or> state then write_import m' d else d, m',
            if state then Mut_State else Mut_Duplicate)))"

definition join_observation :: "codec \<Rightarrow> observation \<Rightarrow> observation \<Rightarrow> odb \<Rightarrow> (odb \<times> observation \<times> mutation) res" where
  "join_observation cx l a d =
    bind_res (valid_edge cx a) (\<lambda>_.
      let edge = (ob_edge a \<noteq> None \<or> ob_edge l \<noteq> None) in
      if \<not> edge \<and> \<not> same_immutable a l \<or> edge \<and> \<not> same_physical cx a l
      then Inl ''observation conflicts with immutable local raw data''
      else if \<not> edge \<and> \<not> compatible_origin a l then Inl ''observation conflicts with local origin metadata''
      else update_observation cx l a d)"

definition import_observation :: "codec \<Rightarrow> observation \<Rightarrow> odb \<Rightarrow> (odb \<times> observation \<times> mutation) res" where
  "import_observation cx l d =
    bind_res (valid_edge cx l) (\<lambda>_.
      bind_res (case find_log (ob_id l) d of Some a \<Rightarrow> Inr (Some a) | None \<Rightarrow> find_physical l d) (\<lambda>found.
        case found of
          Some a \<Rightarrow> join_observation cx l a d
        | None \<Rightarrow>
            if ob_event l \<notin> set (od_events d) then Inl ''insert imported observation: FOREIGN KEY''
            else Inr (d\<lparr> od_logs := od_logs d @ [stored l] \<rparr>, l, Mut_Inserted)))"

text \<open>\<^verbatim>\<open>upsertRfidLogs\<close> of \<^verbatim>\<open>entities_store.go\<close>: the readings of an event export, all or none.\<close>

definition upsert_logs :: "codec \<Rightarrow> observation list \<Rightarrow> odb \<Rightarrow> odb res" where
  "upsert_logs cx os d = fold_res (\<lambda>l d. bind_res (import_observation cx l d) (\<lambda>x. Inr (fst x))) os d"

end
