(* ===== verification/ObservationOutbox.thy ===== *)
theory ObservationOutbox
  imports Observations
begin

section \<open>Sending the own observations to the site\<close>

text \<open>
  The outbox of \<^verbatim>\<open>infrastructure/sqlite/sync_store.go\<close>: \<^verbatim>\<open>PrepareObservationBatch\<close> numbers a batch
  of pending rows, or hands out again the one that was sent and not confirmed; \<^verbatim>\<open>ApplyObservationAck\<close>
  settles it.  \<^verbatim>\<open>applyObservationAck\<close> of \<^verbatim>\<open>transport/httpapi/sync_handlers.go\<close> checks the envelope
  of the site's answer before.
\<close>

record batch =
  bt_id :: string
  bt_instance :: string
  bt_first :: int
  bt_last :: int
  bt_items :: "observation list"

definition log_event :: "odb \<Rightarrow> outbox_row \<Rightarrow> string option" where
  "log_event d r = map_option ob_event (find_log (ox_observation r) d)"

text \<open>The rows of an event's outbox with a property, in the order of their sequence.\<close>

definition outbox_rows :: "string \<Rightarrow> (outbox_row \<Rightarrow> bool) \<Rightarrow> odb \<Rightarrow> outbox_row list" where
  "outbox_rows e p d = sort_key ox_sequence (filter (\<lambda>r. log_event d r = Some e \<and> p r) (od_outbox d))"

definition sent_batch :: "string \<Rightarrow> odb \<Rightarrow> string option" where
  "sent_batch e d = (case outbox_rows e (\<lambda>r. ox_state r = Ox_Sent \<and> ox_batch r \<noteq> None) d of
     [] \<Rightarrow> None | r # _ \<Rightarrow> ox_batch r)"

text \<open>A NULL in a column of the origin fails the scan; the edge metadata is not read.\<close>

definition scan_item :: "observation \<Rightarrow> observation res" where
  "scan_item l = (if ob_version l = 0 \<or> ob_source l = [] \<or> ob_system l = [] \<or> ob_instance l = [] \<or> ob_sequence l = 0
     then Inl ''scan observation batch'' else Inr (l\<lparr> ob_edge := None \<rparr>))"

fun check_origins :: "string \<Rightarrow> observation list \<Rightarrow> unit res" where
  "check_origins inst [] = Inr ()"
| "check_origins inst (l # os) =
    (if ob_instance l \<noteq> inst then Inl ''observation batch contains mixed origin instances'' else check_origins inst os)"

definition load_batch :: "string \<Rightarrow> string \<Rightarrow> odb \<Rightarrow> batch res" where
  "load_batch e b d =
    bind_res (map_res scan_item (List.map_filter (\<lambda>r. find_log (ox_observation r) d)
        (outbox_rows e (\<lambda>r. ox_batch r = Some b \<and> ox_state r = Ox_Sent) d))) (\<lambda>items.
      case items of
        [] \<Rightarrow> Inl ''observation batch is empty''
      | l # _ \<Rightarrow> bind_res (check_origins (ob_instance l) items) (\<lambda>_.
          Inr \<lparr> bt_id = b, bt_instance = ob_instance l, bt_first = ob_sequence l, bt_last = ob_sequence (last items),
            bt_items = items \<rparr>))"

definition mark_retry :: "int \<Rightarrow> outbox_row \<Rightarrow> outbox_row" where
  "mark_retry now r = r\<lparr> ox_attempts := ox_attempts r + 1, ox_attempted := Some now \<rparr>"

definition assign_batch :: "string \<Rightarrow> int \<Rightarrow> outbox_row \<Rightarrow> outbox_row" where
  "assign_batch b now r = r\<lparr> ox_state := Ox_Sent, ox_batch := Some b, ox_attempts := ox_attempts r + 1,
     ox_attempted := Some now \<rparr>"

function int64_chunks :: "'a list \<Rightarrow> nat \<Rightarrow> 'a list list" where
  "int64_chunks xs k = (if xs = [] \<or> k = 0 then [] else take k xs # int64_chunks (drop k xs) k)"
  by auto
termination by (relation "measure (length \<circ> fst)") auto

declare int64_chunks.simps [simp del]

definition batch_name :: "string \<Rightarrow> int \<Rightarrow> int \<Rightarrow> string" where
  "batch_name inst a b = inst @ '':'' @ format_int a @ ''-'' @ format_int b"

definition assign_chunk :: "string \<Rightarrow> int \<Rightarrow> int list \<Rightarrow> odb \<Rightarrow> odb" where
  "assign_chunk b now chunk d = d\<lparr> od_outbox :=
     update_where (\<lambda>r. ox_state r = Ox_Pending \<and> ox_sequence r \<in> set chunk) (assign_batch b now) (od_outbox d) \<rparr>"

definition retry_batch :: "string \<Rightarrow> string \<Rightarrow> int \<Rightarrow> odb \<Rightarrow> (odb \<times> batch option) res" where
  "retry_batch e b now d =
    (let d' = d\<lparr> od_outbox := update_where (\<lambda>r. ox_batch r = Some b \<and> ox_state r = Ox_Sent) (mark_retry now) (od_outbox d) \<rparr>
     in bind_res (load_batch e b d') (\<lambda>t. Inr (d', Some t)))"

definition new_batch :: "string \<Rightarrow> string \<Rightarrow> nat \<Rightarrow> int \<Rightarrow> odb \<Rightarrow> (odb \<times> batch option) res" where
  "new_batch inst e limit now d =
    (let seqs = map ox_sequence (take limit (outbox_rows e (\<lambda>r. ox_state r = Ox_Pending) d)) in
     if seqs = [] then Inr (d, None)
     else let b = batch_name inst (hd seqs) (last seqs);
              d' = fold (assign_chunk b now) (int64_chunks seqs 400) d
          in bind_res (load_batch e b d') (\<lambda>t. Inr (d', Some t)))"

definition prepare_batch :: "string \<Rightarrow> string \<Rightarrow> int \<Rightarrow> int \<Rightarrow> odb \<Rightarrow> (odb \<times> batch option) res" where
  "prepare_batch inst e limit now d =
    (if limit \<le> 0 \<or> limit > 20000 then Inl ''observation batch limit must be between 1 and 20000''
     else case sent_batch e d of
            Some b \<Rightarrow> retry_batch e b now d
          | None \<Rightarrow> new_batch inst e (nat limit) now d)"

subsection \<open>The site's answer\<close>

record ack =
  ak_observation :: string
  ak_sequence :: int
  ak_status :: string
  ak_reason :: string

text \<open>\<^verbatim>\<open>expected[sequence]\<close>: a sequence outside the batch reads as the empty id.\<close>

definition expected_id :: "outbox_row list \<Rightarrow> int \<Rightarrow> string" where
  "expected_id rows n = (case List.find (\<lambda>r. ox_sequence r = n) rows of None \<Rightarrow> [] | Some r \<Rightarrow> ox_observation r)"

fun read_acks :: "outbox_row list \<Rightarrow> int list \<Rightarrow> ack list \<Rightarrow> int list \<Rightarrow> (int \<times> string) list \<Rightarrow>
    (int list \<times> (int \<times> string) list) res" where
  "read_acks rows seen [] acc rej = Inr (acc, rej)"
| "read_acks rows seen (a # as) acc rej =
    (if ak_sequence a \<in> set seen \<or> expected_id rows (ak_sequence a) \<noteq> ak_observation a
     then Inl ''acknowledgement identity mismatch''
     else if ak_status a = ''inserted'' \<or> ak_status a = ''duplicate''
     then read_acks rows (ak_sequence a # seen) as (acc @ [ak_sequence a]) rej
     else if ak_status a = ''rejected''
     then read_acks rows (ak_sequence a # seen) as acc (rej @ [(ak_sequence a, ak_reason a)])
     else Inl ''unknown acknowledgement status'')"

definition acknowledge :: "int \<Rightarrow> outbox_row \<Rightarrow> outbox_row" where
  "acknowledge now r = r\<lparr> ox_state := Ox_Acked, ox_acked := Some now, ox_rejection := None \<rparr>"

definition accept_chunk :: "int \<Rightarrow> int list \<Rightarrow> odb \<Rightarrow> odb" where
  "accept_chunk now chunk d = d\<lparr> od_outbox :=
     update_where (\<lambda>r. ox_state r = Ox_Sent \<and> ox_sequence r \<in> set chunk) (acknowledge now) (od_outbox d) \<rparr>"

definition refuse :: "string \<Rightarrow> outbox_row \<Rightarrow> outbox_row" where
  "refuse reason r = r\<lparr> ox_state := Ox_Rejected, ox_rejection := Some reason \<rparr>"

definition reject_one :: "int \<times> string \<Rightarrow> odb \<Rightarrow> odb" where
  "reject_one x d = d\<lparr> od_outbox :=
     update_where (\<lambda>r. ox_state r = Ox_Sent \<and> ox_sequence r = fst x) (refuse (snd x)) (od_outbox d) \<rparr>"

definition batch_rows :: "string \<Rightarrow> odb \<Rightarrow> outbox_row list" where
  "batch_rows b d = filter (\<lambda>r. ox_batch r = Some b \<and> ox_state r = Ox_Sent) (od_outbox d)"

definition apply_ack :: "string \<Rightarrow> ack list \<Rightarrow> int \<Rightarrow> odb \<Rightarrow> odb res" where
  "apply_ack b as now d =
    (let rows = batch_rows b d in
     if rows = [] \<or> length rows \<noteq> length as then Inl ''acknowledgement does not cover sent batch''
     else bind_res (read_acks rows [] as [] []) (\<lambda>x.
       Inr (fold reject_one (snd x) (fold (accept_chunk now) (int64_chunks (fst x) 400) d))))"

record answer =
  an_batch :: string
  an_instance :: string
  an_through :: "int option"
  an_items :: "ack list"

definition apply_answer :: "batch \<Rightarrow> answer option \<Rightarrow> int \<Rightarrow> odb \<Rightarrow> odb res" where
  "apply_answer t a now d = (case a of
     None \<Rightarrow> Inl ''the site did not confirm the batch''
   | Some a \<Rightarrow>
       if an_batch a \<noteq> bt_id t \<or> an_instance a \<noteq> bt_instance t then Inl ''the site did not confirm the batch''
       else if list_ex (\<lambda>x. ak_status x = ''rejected'') (an_items a)
       then (if an_through a \<noteq> None then Inl ''contradictory acknowledgement watermark''
             else apply_ack (bt_id t) (an_items a) now d)
       else if an_through a \<noteq> Some (bt_last t) then Inl ''incomplete acknowledgement watermark''
       else apply_ack (bt_id t) (an_items a) now d)"

definition pending_count :: "string \<Rightarrow> odb \<Rightarrow> nat" where
  "pending_count e d = length (outbox_rows e (\<lambda>r. ox_state r = Ox_Pending \<or> ox_state r = Ox_Sent) d)"

end
