(* ===== verification/ObservationPull.thy ===== *)
theory ObservationPull
  imports ObservationOutbox GoLib
begin

section \<open>Pulling the change feed of the site\<close>

text \<open>
  \<^verbatim>\<open>ApplyObservationFeedPageWithMutations\<close> and the sync configuration of \<^verbatim>\<open>sync_store.go\<close>, and the loop
  \<^verbatim>\<open>PullEventChanges\<close> of \<^verbatim>\<open>service/sitesync_pull.go\<close>: each page and its opaque cursor are committed together, so
  that a later failure resumes after the last complete page.  The site is the function from a cursor to the page
  it answers with (or to the error of the request); the plan of the recount that follows is built elsewhere.
\<close>

subsection \<open>Sync configuration\<close>

definition new_sync :: "string \<Rightarrow> sync_row" where
  "new_sync e = \<lparr> sc_event = e, sc_url = [], sc_token = [], sc_synced = None, sc_hash = None, sc_cursor = None,
     sc_pulled = None, sc_pending = 0 \<rparr>"

definition upsert_sync :: "string \<Rightarrow> (sync_row \<Rightarrow> sync_row) \<Rightarrow> odb \<Rightarrow> odb" where
  "upsert_sync e f d = d\<lparr> od_config := (if list_ex (\<lambda>r. sc_event r = e) (od_config d)
     then update_where (\<lambda>r. sc_event r = e) f (od_config d) else od_config d @ [f (new_sync e)]) \<rparr>"

definition find_sync :: "string \<Rightarrow> odb \<Rightarrow> sync_row option" where
  "find_sync e d = List.find (\<lambda>r. sc_event r = e) (od_config d)"

definition set_sync_config :: "string \<Rightarrow> string \<Rightarrow> string \<Rightarrow> odb \<Rightarrow> odb" where
  "set_sync_config e url token = upsert_sync e (\<lambda>r. r\<lparr> sc_url := url, sc_token := token \<rparr>)"

definition set_sync_result :: "string \<Rightarrow> int \<Rightarrow> string \<Rightarrow> odb \<Rightarrow> odb" where
  "set_sync_result e now hash = upsert_sync e (\<lambda>r. r\<lparr> sc_synced := Some now, sc_hash := Some hash \<rparr>)"

definition pull_cursor :: "string \<Rightarrow> odb \<Rightarrow> string option" where
  "pull_cursor e d = Option.bind (find_sync e d) sc_cursor"

definition projection_pending :: "string \<Rightarrow> odb \<Rightarrow> bool" where
  "projection_pending e d = (case find_sync e d of None \<Rightarrow> False | Some r \<Rightarrow> sc_pending r \<noteq> 0)"

definition clear_pending :: "string \<Rightarrow> odb \<Rightarrow> odb" where
  "clear_pending e d = d\<lparr> od_config := update_where (\<lambda>r. sc_event r = e) (\<lambda>r. r\<lparr> sc_pending := 0 \<rparr>) (od_config d) \<rparr>"

subsection \<open>One page\<close>

definition import_item :: "codec \<Rightarrow> string \<Rightarrow> observation \<Rightarrow> odb \<times> (observation \<times> mutation) list \<Rightarrow>
    (odb \<times> (observation \<times> mutation) list) res" where
  "import_item cx e l x =
    (if ob_event l \<noteq> e then Inl ''observation belongs to another event''
     else bind_res (import_observation cx l (fst x)) (\<lambda>(d, m). Inr (d, snd x @ [m])))"

definition advance_cursor :: "string \<Rightarrow> string \<Rightarrow> int \<Rightarrow> bool \<Rightarrow> odb \<Rightarrow> odb" where
  "advance_cursor e cursor now changed =
     upsert_sync e (\<lambda>r. r\<lparr> sc_cursor := Some cursor, sc_pulled := Some now,
       sc_pending := max (sc_pending r) (if changed then 1 else 0) \<rparr>)"

definition apply_feed_page :: "codec \<Rightarrow> string \<Rightarrow> observation list \<Rightarrow> string \<Rightarrow> int \<Rightarrow> odb \<Rightarrow>
    (odb \<times> (observation \<times> mutation) list) res" where
  "apply_feed_page cx e ls cursor now d =
    (if blank cursor then Inl ''next pull cursor is required''
     else bind_res (fold_res (import_item cx e) ls (d, [])) (\<lambda>(d', ms).
       Inr (advance_cursor e cursor now (list_ex (\<lambda>m. snd m \<noteq> Mut_Duplicate) ms) d', ms)))"

subsection \<open>What the site sends\<close>

record feed_observation =
  fo_log :: observation
  fo_disabled :: "string option"

record feed_answer =
  fa_schema :: int
  fa_items :: "(string \<times> feed_observation) list"
  fa_next :: string
  fa_more :: bool

type_synonym site = "string \<Rightarrow> feed_answer res"

definition change_feed_version :: int where
  "change_feed_version = 1"

definition check_answer :: "feed_answer \<Rightarrow> feed_answer res" where
  "check_answer p = (if fa_schema p \<noteq> 1 \<or> blank (fa_next p)
     then Inl ''change feed returned an unsupported contract'' else Inr p)"

definition disabled_millis :: "string option \<Rightarrow> int option res" where
  "disabled_millis s = (case s of None \<Rightarrow> Inr None
     | Some t \<Rightarrow> (case rfc3339_millis t of None \<Rightarrow> Inl ''disabled_at'' | Some n \<Rightarrow> Inr (Some n)))"

definition feed_log :: "codec \<Rightarrow> feed_observation \<Rightarrow> observation res" where
  "feed_log cx x =
    (let l = fo_log x in
     if blank (ob_id l) \<or> blank (ob_event l) \<or> blank (ob_board l)
     then Inl ''change feed observation identity is incomplete''
     else bind_res (disabled_millis (fo_disabled x)) (\<lambda>at.
       let l' = l\<lparr> ob_disabled := at \<rparr> in bind_res (valid_edge cx l') (\<lambda>_. Inr l')))"

definition feed_item :: "codec \<Rightarrow> string \<times> feed_observation \<Rightarrow> observation res" where
  "feed_item cx x =
    (if fst x \<noteq> ''observation_created'' \<and> fst x \<noteq> ''observation_state_changed''
     then Inl ''change feed item type is not supported'' else feed_log cx (snd x))"

subsection \<open>The loop\<close>

record pull_stats =
  ps_pages :: nat
  ps_observations :: nat
  ps_inserted :: nat
  ps_duplicates :: nat
  ps_states :: nat
  ps_recovery :: bool
  ps_mutations :: "(observation \<times> mutation) list"

definition count_page :: "(observation \<times> mutation) list \<Rightarrow> nat \<Rightarrow> pull_stats \<Rightarrow> pull_stats" where
  "count_page ms n s = s\<lparr> ps_pages := ps_pages s + 1, ps_observations := ps_observations s + n,
     ps_inserted := ps_inserted s + length (filter (\<lambda>m. snd m = Mut_Inserted) ms),
     ps_states := ps_states s + length (filter (\<lambda>m. snd m = Mut_State) ms),
     ps_duplicates := ps_duplicates s + length (filter (\<lambda>m. snd m = Mut_Duplicate) ms),
     ps_mutations := ps_mutations s @ ms \<rparr>"

text \<open>
  One turn of the loop: an error, the end, or the state and the cursor to continue with.  The pages committed
  before an error stay.
\<close>

datatype turn = Failed string | Finished odb pull_stats | Continue odb pull_stats string

definition pull_page :: "codec \<Rightarrow> site \<Rightarrow> string \<Rightarrow> int \<Rightarrow> string \<Rightarrow> odb \<Rightarrow> pull_stats \<Rightarrow> turn" where
  "pull_page cx site e now after d s =
    (case bind_res (bind_res (site after) check_answer) (\<lambda>p.
            bind_res (map_res (feed_item cx) (fa_items p)) (\<lambda>ls. Inr (p, ls))) of
       Inl err \<Rightarrow> Failed err
     | Inr (p, ls) \<Rightarrow>
         if fa_more p \<and> (ls = [] \<or> fa_next p = after) then Failed ''change feed page does not advance cursor''
         else if ls = [] \<and> fa_next p = after then Finished d (s\<lparr> ps_pages := ps_pages s + 1 \<rparr>)
         else case apply_feed_page cx e ls (fa_next p) now d of
                Inl err \<Rightarrow> Failed err
              | Inr (d', ms) \<Rightarrow>
                  if fa_more p then Continue d' (count_page ms (length ls) s) (fa_next p)
                  else Finished d' (count_page ms (length ls) s))"

fun pull_pages :: "nat \<Rightarrow> codec \<Rightarrow> site \<Rightarrow> string \<Rightarrow> int \<Rightarrow> string \<Rightarrow> odb \<Rightarrow> pull_stats \<Rightarrow> odb \<times> pull_stats res" where
  "pull_pages 0 cx site e now after d s = (d, Inl ''change feed exceeded page safety limit'')"
| "pull_pages (Suc n) cx site e now after d s =
    (case pull_page cx site e now after d s of
       Failed err \<Rightarrow> (d, Inl err)
     | Finished d' s' \<Rightarrow> (d', Inr s')
     | Continue d' s' next \<Rightarrow> pull_pages n cx site e now next d' s')"

definition page_limit :: nat where
  "page_limit = 10000"

definition supports_schema :: "int list \<Rightarrow> int \<Rightarrow> bool" where
  "supports_schema vs want = list_ex (\<lambda>v. v = want) vs"

definition pull_event :: "codec \<Rightarrow> int list res \<Rightarrow> site \<Rightarrow> string \<Rightarrow> int \<Rightarrow> odb \<Rightarrow> odb \<times> pull_stats res" where
  "pull_event cx versions site e now d =
    (case versions of
       Inl err \<Rightarrow> (d, Inl err)
     | Inr vs \<Rightarrow>
         if \<not> supports_schema vs change_feed_version then (d, Inl ''the site does not support the change feed'')
         else pull_pages page_limit cx site e now (case pull_cursor e d of None \<Rightarrow> [] | Some c \<Rightarrow> c) d
                \<lparr> ps_pages = 0, ps_observations = 0, ps_inserted = 0, ps_duplicates = 0, ps_states = 0,
                  ps_recovery = projection_pending e d, ps_mutations = [] \<rparr>)"

subsection \<open>Requests that the site throttles\<close>

text \<open>
  \<^verbatim>\<open>syncRetryTransport.RoundTrip\<close> of \<^verbatim>\<open>service/sync_retry.go\<close>: the response of the n-th attempt is a
  parameter, and so is whether the wait before the next attempt ends without the request being cancelled and its body opens again.  The
  delays are collected in nanoseconds, and the time until the date a header names is a parameter too.
\<close>

record response =
  rp_status :: int
  rp_retry :: string

definition retry_delay :: "(string \<Rightarrow> int option) \<Rightarrow> string \<Rightarrow> int" where
  "retry_delay until value =
    (let date = (case until value of Some n \<Rightarrow> if n > 0 then n else 60000000000 | None \<Rightarrow> 60000000000)
     in case parse_int 32 value of Some n \<Rightarrow> if n \<ge> 0 then n * 1000000000 else date | None \<Rightarrow> date)"

text \<open>The body can be sent again when there is none or it can be reopened.\<close>

function round_trip :: "(nat \<Rightarrow> response res) \<Rightarrow> (nat \<Rightarrow> unit res) \<Rightarrow> (string \<Rightarrow> int option) \<Rightarrow> bool \<Rightarrow> nat \<Rightarrow> int list \<Rightarrow>
    nat \<times> int list \<times> response res" where
  "round_trip base wait until again attempt delays =
    (case base attempt of
       Inl err \<Rightarrow> (attempt + 1, delays, Inl err)
     | Inr r \<Rightarrow>
         if rp_status r \<noteq> 429 \<or> attempt \<ge> 3 \<or> \<not> again then (attempt + 1, delays, Inr r)
         else let delays' = delays @ [retry_delay until (rp_retry r)] in
           case wait attempt of
             Inl err \<Rightarrow> (attempt + 1, delays', Inl err)
           | Inr _ \<Rightarrow> round_trip base wait until again (attempt + 1) delays')"
  by pat_completeness auto
termination by (relation "measure (\<lambda>(base, wait, until, again, attempt, delays). 4 - attempt)") auto

declare round_trip.simps [simp del]

end
