(* ===== verification/OutboxLaws.thy ===== *)
theory OutboxLaws
  imports ObservationPull Machines
begin

section \<open>Readings are immutable and each own reading is settled once\<close>

text \<open>
  What every operation keeps of the observation tables: no stored reading changes, the metadata of its origin is
  only ever completed, and the outbox holds exactly own readings, in the order of their sequence, with at most one
  unconfirmed batch per event.
\<close>

subsection \<open>What an import may change\<close>

definition same_reading :: "observation \<Rightarrow> observation \<Rightarrow> bool" where
  "same_reading a b \<longleftrightarrow> same_immutable a b"

definition keeps_origin :: "observation \<Rightarrow> observation \<Rightarrow> bool" where
  "keeps_origin a b \<longleftrightarrow> (ob_version a \<noteq> 0 \<longrightarrow> ob_version b = ob_version a) \<and> (ob_source a \<noteq> [] \<longrightarrow> ob_source b = ob_source a) \<and>
     (ob_system a \<noteq> [] \<longrightarrow> ob_system b = ob_system a) \<and> (ob_instance a \<noteq> [] \<longrightarrow> ob_instance b = ob_instance a) \<and>
     (ob_sequence a \<noteq> 0 \<longrightarrow> ob_sequence b = ob_sequence a) \<and> (ob_edge a \<noteq> None \<longrightarrow> ob_edge b = ob_edge a)"

definition logs_grow :: "odb \<Rightarrow> odb \<Rightarrow> bool" where
  "logs_grow d d' \<longleftrightarrow> (\<forall>i a. find_log i d = Some a \<longrightarrow>
     (\<exists>b. find_log i d' = Some b \<and> same_reading a b \<and> keeps_origin a b))"

definition logs_ok :: "odb \<Rightarrow> bool" where
  "logs_ok d \<longleftrightarrow> distinct (map ob_id (od_logs d)) \<and> (\<forall>l \<in> set (od_logs d). 0 \<le> ob_version l \<and> 0 \<le> ob_sequence l)"

lemma same_reading_refl [simp]: "same_reading a a"
  by (simp add: same_reading_def same_immutable_def)

lemma keeps_origin_refl [simp]: "keeps_origin a a"
  by (simp add: keeps_origin_def)

lemma same_reading_trans: "same_reading a b \<Longrightarrow> same_reading b c \<Longrightarrow> same_reading a c"
  by (simp add: same_reading_def same_immutable_def)

lemma keeps_origin_trans: "keeps_origin a b \<Longrightarrow> keeps_origin b c \<Longrightarrow> keeps_origin a c"
  unfolding keeps_origin_def by metis

lemma logs_grow_refl [simp]: "logs_grow d d"
  unfolding logs_grow_def by auto

lemma logs_grow_same: "od_logs d' = od_logs d \<Longrightarrow> logs_grow d d'"
  using logs_grow_refl [of d] by (simp add: logs_grow_def find_log_def)

lemma logs_growD:
  assumes "logs_grow d d'" and "find_log i d = Some a"
  obtains b where "find_log i d' = Some b" "same_reading a b" "keeps_origin a b"
  using assms unfolding logs_grow_def by blast

lemma logs_grow_trans:
  assumes "logs_grow d d'" and "logs_grow d' d''"
  shows "logs_grow d d''"
  unfolding logs_grow_def
proof (intro allI impI)
  fix i a assume "find_log i d = Some a"
  with assms(1) obtain b where b: "find_log i d' = Some b" "same_reading a b" "keeps_origin a b" by (rule logs_growD)
  obtain c where "find_log i d'' = Some c" "same_reading b c" "keeps_origin b c" by (rule logs_growD [OF assms(2) b(1)])
  then show "\<exists>c. find_log i d'' = Some c \<and> same_reading a c \<and> keeps_origin a c"
    using b same_reading_trans keeps_origin_trans by blast
qed

lemma find_log_append:
  "find_log i (d\<lparr> od_logs := od_logs d @ [l] \<rparr>) =
    (case find_log i d of Some a \<Rightarrow> Some a | None \<Rightarrow> if ob_id l = i then Some l else None)"
proof -
  have "List.find P (xs @ ys) = (case List.find P xs of Some a \<Rightarrow> Some a | None \<Rightarrow> List.find P ys)" for P and xs ys :: "observation list"
    by (induction xs) auto
  then show ?thesis by (simp add: find_log_def split: option.split)
qed

lemma find_log_id: "find_log i d = Some l \<Longrightarrow> ob_id l = i \<and> l \<in> set (od_logs d)"
  unfolding find_log_def by (auto dest: find_Some_iff')

lemma logs_grow_append: "logs_grow d (d\<lparr> od_logs := od_logs d @ [l] \<rparr>)"
  unfolding logs_grow_def find_log_append by auto

lemma logs_ok_append:
  assumes "logs_ok d" and "find_log (ob_id l) d = None" and "0 \<le> ob_version l" and "0 \<le> ob_sequence l"
  shows "logs_ok (d\<lparr> od_logs := od_logs d @ [l] \<rparr>)"
  using assms by (auto simp: logs_ok_def find_log_def find_None_iff)

lemma find_log_write:
  assumes "logs_ok d" and "find_log (ob_id m) d = Some a"
  shows "find_log i (write_import m d) = (if i = ob_id m then Some (a\<lparr> ob_disabled := ob_disabled m,
     ob_version := max 0 (ob_version m), ob_source := ob_source m, ob_system := ob_system m,
     ob_instance := ob_instance m, ob_sequence := max 0 (ob_sequence m), ob_edge := ob_edge m \<rparr>) else find_log i d)"
proof -
  have "List.find (\<lambda>l. ob_id l = i) (update_where (\<lambda>x. ob_id x = k) f ls) =
      (case List.find (\<lambda>l. ob_id l = i) ls of None \<Rightarrow> None | Some a \<Rightarrow> Some (if i = k then f a else a))"
    if "\<And>x. ob_id (f x) = ob_id x" for k f and ls :: "observation list"
    using that by (induction ls) (auto simp: update_where_def)
  then show ?thesis using assms(2) by (auto simp: find_log_def write_import_def split: option.split)
qed

lemma merge_origin_cases: "merge_origin cx a l = a \<or> ob_edge a = None \<and> merge_origin cx a l = enriched a l"
  by (cases "valid_edge cx (enriched a l)") (simp_all add: merge_origin_def)

lemma enriched_keeps: "ob_edge a = None \<Longrightarrow> keeps_origin a (enriched a l)" "same_reading a (enriched a l)" "ob_id (enriched a l) = ob_id a"
  by (simp_all add: keeps_origin_def enriched_def same_reading_def same_immutable_def)

lemma merge_origin_keeps: "keeps_origin a (merge_origin cx a l)" "same_reading a (merge_origin cx a l)"
    "ob_id (merge_origin cx a l) = ob_id a"
  using merge_origin_cases [of cx a l] enriched_keeps [of a l] by auto

lemma write_import_keeps:
  assumes "logs_ok d" and "find_log (ob_id m) d = Some a" and "keeps_origin a m"
  shows "logs_grow d (write_import m d) \<and> logs_ok (write_import m d)"
proof
  have pos: "0 \<le> ob_version a" "0 \<le> ob_sequence a" using assms(1) find_log_id [OF assms(2)] by (auto simp: logs_ok_def)
  show "logs_grow d (write_import m d)"
    unfolding logs_grow_def find_log_write [OF assms(1,2)]
    using assms(2,3) pos by (auto simp: keeps_origin_def same_reading_def same_immutable_def)
  show "logs_ok (write_import m d)"
    using assms(1) by (auto simp: logs_ok_def write_import_def map_update_where in_set_update_where)
qed

lemma write_import_rest [simp]:
  "od_outbox (write_import m d) = od_outbox d" "od_config (write_import m d) = od_config d"
  "od_events (write_import m d) = od_events d"
  by (simp_all add: write_import_def)

definition import_keeps :: "odb \<Rightarrow> odb \<Rightarrow> bool" where
  "import_keeps d d' \<longleftrightarrow> logs_ok d' \<and> logs_grow d d' \<and> od_outbox d' = od_outbox d \<and> od_config d' = od_config d \<and>
     od_events d' = od_events d"

lemma update_observation_keeps:
  assumes "update_observation cx l a d = Inr (d', x)" and "logs_ok d" and "find_log (ob_id a) d = Some a"
  shows "import_keeps d d'"
proof -
  let ?m = "merge_origin cx a l\<lparr> ob_disabled := ob_disabled l \<rparr>"
  have d': "d' = d \<or> d' = write_import ?m d"
    using assms(1) by (auto simp: update_observation_def Let_def res_simps split: if_splits)
  have "keeps_origin a ?m" using merge_origin_keeps(1) [of a cx l] by (simp add: keeps_origin_def)
  then have "logs_grow d (write_import ?m d) \<and> logs_ok (write_import ?m d)"
    using write_import_keeps [OF assms(2), of ?m a] assms(3) merge_origin_keeps(3) [of cx a l] by simp
  then show ?thesis using d' assms(2) by (auto simp: import_keeps_def)
qed

lemma import_keeps_ok:
  assumes "import_observation cx l d = Inr (d', x)" and "logs_ok d"
  shows "import_keeps d d'"
proof -
  obtain found where found: "(case find_log (ob_id l) d of Some a \<Rightarrow> Inr (Some a) | None \<Rightarrow> find_physical l d) = Inr found"
    and rest: "(case found of Some a \<Rightarrow> join_observation cx l a d
        | None \<Rightarrow> if ob_event l \<notin> set (od_events d) then Inl ''insert imported observation: FOREIGN KEY''
            else Inr (d\<lparr> od_logs := od_logs d @ [stored l] \<rparr>, l, Mut_Inserted)) = Inr (d', x)"
    using assms(1) by (auto simp: import_observation_def res_simps)
  show ?thesis
  proof (cases found)
    case None
    then have none: "find_log (ob_id (stored l)) d = None" using found by (simp add: stored_def split: option.splits)
    have d': "d' = d\<lparr> od_logs := od_logs d @ [stored l] \<rparr>" using None rest by (simp split: if_splits)
    have "logs_ok d'" unfolding d' by (rule logs_ok_append [OF assms(2) none]) (simp_all add: stored_def)
    then show ?thesis using logs_grow_append [of d "stored l"] by (simp add: import_keeps_def d')
  next
    case (Some a)
    have a: "find_log (ob_id a) d = Some a"
    proof (cases "find_log (ob_id l) d")
      case None
      then have "find_physical l d = Inr (Some a)" using found Some by simp
      then obtain i where "find_log i d = Some a" by (auto simp: find_physical_def Let_def split: if_splits list.splits)
      then show ?thesis using find_log_id by metis
    next
      case (Some b)
      then show ?thesis using found \<open>found = Some a\<close> find_log_id by fastforce
    qed
    have "update_observation cx l a d = Inr (d', x)"
      using rest Some by (auto simp: join_observation_def Let_def res_simps split: if_splits)
    then show ?thesis by (rule update_observation_keeps [OF _ assms(2) a])
  qed
qed

lemma import_keeps_refl: "logs_ok d \<Longrightarrow> import_keeps d d"
  by (simp add: import_keeps_def)

lemma import_keeps_trans: "import_keeps d d' \<Longrightarrow> import_keeps d' d'' \<Longrightarrow> import_keeps d d''"
  unfolding import_keeps_def using logs_grow_trans by metis

lemma import_keeps_step:
  assumes "import_observation cx l t = Inr (t', x)" and "import_keeps d t"
  shows "import_keeps d t'"
  using import_keeps_ok [OF assms(1)] import_keeps_trans [OF assms(2)] assms(2) by (simp add: import_keeps_def [of d t])

lemma upsert_logs_keeps:
  assumes "upsert_logs cx ls d = Inr d'" and "logs_ok d"
  shows "import_keeps d d'"
proof (rule fold_res_invariant [OF assms(1) [unfolded upsert_logs_def]])
  show "import_keeps d d" using assms(2) by (rule import_keeps_refl)
  fix l t t' assume "import_keeps d t" "bind_res (import_observation cx l t) (\<lambda>x. Inr (fst x)) = Inr t'"
  then show "import_keeps d t'"
    using import_keeps_step by (auto simp: res_simps)
qed

lemma import_items_keep:
  assumes "fold_res (import_item cx e) ls (d, ms) = Inr (d', ms')" and "logs_ok d"
  shows "import_keeps d d'"
proof -
  have "import_keeps d (fst (d', ms'))"
  proof (rule fold_res_invariant [OF assms(1)])
    show "import_keeps d (fst (d, ms))" using assms(2) by (simp add: import_keeps_refl)
    fix l t t' assume "import_keeps d (fst t)" "import_item cx e l t = Inr t'"
    then show "import_keeps d (fst t')"
      using import_keeps_step by (auto simp: import_item_def res_simps split: if_splits)
  qed
  then show ?thesis by simp
qed


subsection \<open>The shape of the outbox\<close>

definition own_row :: "origin \<Rightarrow> odb \<Rightarrow> outbox_row \<Rightarrow> bool" where
  "own_row g d r \<longleftrightarrow> 0 < ox_sequence r \<and> ox_sequence r \<le> og_last g \<and>
     (\<exists>l. find_log (ox_observation r) d = Some l \<and> ob_version l \<noteq> 0 \<and> ob_source l \<noteq> [] \<and> ob_system l \<noteq> [] \<and>
        ob_instance l \<noteq> [] \<and> ob_instance l = og_instance g \<and> ob_sequence l = ox_sequence r)"

definition row_state :: "outbox_row \<Rightarrow> bool" where
  "row_state r \<longleftrightarrow> (ox_batch r = None \<longleftrightarrow> ox_state r = Ox_Pending)"

definition batch_named :: "string \<Rightarrow> outbox_row list \<Rightarrow> string \<Rightarrow> bool" where
  "batch_named inst rows b \<longleftrightarrow> (\<exists>r0 \<in> set rows. \<exists>n. ox_batch r0 = Some b \<and> b = batch_name inst (ox_sequence r0) n)"

definition batches_named :: "string \<Rightarrow> odb \<Rightarrow> bool" where
  "batches_named inst d \<longleftrightarrow>
     (\<forall>r \<in> set (od_outbox d). \<forall>b. ox_batch r = Some b \<longrightarrow> batch_named inst (od_outbox d) b)"

definition batch_of_one_event :: "odb \<Rightarrow> bool" where
  "batch_of_one_event d \<longleftrightarrow> (\<exists>event. \<forall>r \<in> set (od_outbox d). \<forall>b. ox_batch r = Some b \<longrightarrow> log_event d r = event b)"

definition one_unconfirmed :: "odb \<Rightarrow> bool" where
  "one_unconfirmed d \<longleftrightarrow> (\<exists>batch. \<forall>r \<in> set (od_outbox d). ox_state r = Ox_Sent \<longrightarrow> ox_batch r = batch (log_event d r))"

definition batches_ok :: "string \<Rightarrow> odb \<Rightarrow> bool" where
  "batches_ok inst d \<longleftrightarrow> batches_named inst d \<and> batch_of_one_event d \<and> one_unconfirmed d"

definition outbox_ok :: "origin \<Rightarrow> odb \<Rightarrow> bool" where
  "outbox_ok g d \<longleftrightarrow> logs_ok d \<and> sorted_wrt (<) (map ox_sequence (od_outbox d)) \<and>
     distinct (map ox_observation (od_outbox d)) \<and>
     (\<forall>r \<in> set (od_outbox d). own_row g d r \<and> row_state r) \<and> batches_ok (og_instance g) d"

lemma outbox_rows_filter:
  assumes "sorted_wrt (<) (map ox_sequence (od_outbox d))"
  shows "outbox_rows e p d = filter (\<lambda>r. log_event d r = Some e \<and> p r) (od_outbox d)"
proof -
  have "sorted (map ox_sequence (od_outbox d))" using assms by (rule strict_sorted_imp_sorted)
  then have "sorted (map ox_sequence (filter (\<lambda>r. log_event d r = Some e \<and> p r) (od_outbox d)))"
    by (rule sorted_filter)
  then show ?thesis by (simp add: outbox_rows_def sort_key_id_if_sorted)
qed

lemma log_event_grows:
  assumes "logs_grow d d'" and "find_log (ox_observation r) d = Some l"
  shows "log_event d' r = log_event d r"
proof -
  obtain b where "find_log (ox_observation r) d' = Some b" "same_reading l b" by (rule logs_growD [OF assms])
  then show ?thesis using assms(2) by (simp add: log_event_def same_reading_def same_immutable_def)
qed

lemma own_row_grows:
  assumes "logs_grow d d'" and "own_row g d r" and "og_instance g' = og_instance g" and "og_last g \<le> og_last g'"
  shows "own_row g' d' r"
proof -
  obtain l where l: "find_log (ox_observation r) d = Some l" "ob_version l \<noteq> 0" "ob_source l \<noteq> []" "ob_system l \<noteq> []"
    "ob_instance l \<noteq> []" "ob_instance l = og_instance g" "ob_sequence l = ox_sequence r"
    and n: "0 < ox_sequence r" "ox_sequence r \<le> og_last g"
    using assms(2) unfolding own_row_def by blast
  obtain b where b: "find_log (ox_observation r) d' = Some b" "keeps_origin l b" by (rule logs_growD [OF assms(1) l(1)])
  then have "ob_version b \<noteq> 0 \<and> ob_source b \<noteq> [] \<and> ob_system b \<noteq> [] \<and> ob_instance b \<noteq> [] \<and>
      ob_instance b = og_instance g' \<and> ob_sequence b = ox_sequence r"
    using l n assms(3) by (auto simp: keeps_origin_def)
  then show ?thesis using b(1) n assms(4) unfolding own_row_def by auto
qed

lemma own_row_event: "own_row g d r \<Longrightarrow> logs_grow d d' \<Longrightarrow> log_event d' r = log_event d r"
  unfolding own_row_def using log_event_grows by blast

lemma outbox_ok_grows:
  assumes "outbox_ok g d" and "logs_ok d'" and "logs_grow d d'" and "od_outbox d' = od_outbox d"
  shows "outbox_ok g d'"
proof -
  have own: "\<And>r. r \<in> set (od_outbox d) \<Longrightarrow> own_row g d r" using assms(1) by (simp add: outbox_ok_def)
  then have ev: "\<And>r. r \<in> set (od_outbox d) \<Longrightarrow> log_event d' r = log_event d r" using own_row_event assms(3) by blast
  have old: "batches_ok (og_instance g) d" using assms(1) by (simp add: outbox_ok_def)
  have "batches_named (og_instance g) d'" using old by (simp add: batches_ok_def batches_named_def assms(4))
  moreover have "batch_of_one_event d'" using old ev by (auto simp: batches_ok_def batch_of_one_event_def assms(4))
  moreover have "one_unconfirmed d'" using old ev by (simp add: batches_ok_def one_unconfirmed_def assms(4))
  ultimately have "batches_ok (og_instance g) d'" by (simp add: batches_ok_def)
  moreover have "\<forall>r \<in> set (od_outbox d). own_row g d' r" using own own_row_grows [OF assms(3)] by blast
  ultimately show ?thesis using assms(1,2,4) by (simp add: outbox_ok_def)
qed

text \<open>Rewriting the rows of the outbox in place.\<close>

lemma log_event_rows [simp]: "log_event (d\<lparr> od_outbox := rows \<rparr>) r = log_event d r"
  by (simp add: log_event_def find_log_def)

lemma log_event_row: "ox_observation r = ox_observation r' \<Longrightarrow> log_event d r = log_event d r'"
  by (simp add: log_event_def)

lemma own_row_rows [simp]: "own_row g (d\<lparr> od_outbox := rows \<rparr>) r = own_row g d r"
  by (simp add: own_row_def find_log_def)

lemma own_row_row: "ox_observation r = ox_observation r' \<Longrightarrow> ox_sequence r = ox_sequence r' \<Longrightarrow> own_row g d r = own_row g d r'"
  by (simp add: own_row_def)

lemma logs_ok_rows [simp]: "logs_ok (d\<lparr> od_outbox := rows \<rparr>) = logs_ok d"
  by (simp add: logs_ok_def)

lemma outbox_ok_map:
  assumes "outbox_ok g d" and "d' = d\<lparr> od_outbox := map f (od_outbox d) \<rparr>"
    and "\<And>r. ox_sequence (f r) = ox_sequence r" and "\<And>r. ox_observation (f r) = ox_observation r"
    and "\<And>r. r \<in> set (od_outbox d) \<Longrightarrow> row_state (f r)" and "batches_ok (og_instance g) d'"
  shows "outbox_ok g d'"
proof -
  have "map ox_sequence (map f (od_outbox d)) = map ox_sequence (od_outbox d)"
    "map ox_observation (map f (od_outbox d)) = map ox_observation (od_outbox d)"
    using assms(3,4) by simp_all
  moreover have "own_row g d' (f r)" if "r \<in> set (od_outbox d)" for r
    using assms(1,2) that own_row_row [of "f r" r g d] assms(3,4) by (simp add: outbox_ok_def)
  ultimately show ?thesis
    using assms(1,2,5,6) unfolding outbox_ok_def by (auto simp del: map_map)
qed

lemma batch_of_one_event_map:
  assumes "\<And>r. ox_observation (f r) = ox_observation r"
    and "\<And>r b. r \<in> set (od_outbox d) \<Longrightarrow> ox_batch (f r) = Some b \<Longrightarrow> log_event d r = event b"
  shows "batch_of_one_event (d\<lparr> od_outbox := map f (od_outbox d) \<rparr>)"
  unfolding batch_of_one_event_def
  by (intro exI [of _ event]) (use assms log_event_row [of "f r" r d for r] in auto)

lemma one_unconfirmed_map:
  assumes "\<And>r. ox_observation (f r) = ox_observation r"
    and "\<And>r. r \<in> set (od_outbox d) \<Longrightarrow> ox_state (f r) = Ox_Sent \<Longrightarrow> ox_batch (f r) = batch (log_event d r)"
  shows "one_unconfirmed (d\<lparr> od_outbox := map f (od_outbox d) \<rparr>)"
  unfolding one_unconfirmed_def
  by (intro exI [of _ batch]) (use assms log_event_row [of "f r" r d for r] in auto)

lemma outbox_ok_settle:
  assumes "outbox_ok g d" and "d' = d\<lparr> od_outbox := map f (od_outbox d) \<rparr>"
    and "\<And>r. ox_sequence (f r) = ox_sequence r" and "\<And>r. ox_observation (f r) = ox_observation r"
    and "\<And>r. ox_batch (f r) = ox_batch r" and "\<And>r. ox_state (f r) = Ox_Sent \<Longrightarrow> ox_state r = Ox_Sent"
    and "\<And>r. ox_state (f r) = Ox_Pending \<longleftrightarrow> ox_state r = Ox_Pending"
  shows "outbox_ok g d'"
proof (rule outbox_ok_map [OF assms(1-4)])
  fix r assume "r \<in> set (od_outbox d)"
  then show "row_state (f r)" using assms(1,5,7) by (simp add: outbox_ok_def row_state_def)
next
  have ev: "log_event d' (f r) = log_event d r" for r using assms(2,4) log_event_row [of "f r" r d] by simp
  have old: "batches_ok (og_instance g) d" using assms(1) by (simp add: outbox_ok_def)
  have rows: "set (od_outbox d') = f ` set (od_outbox d)" using assms(2) by simp
  have "batch_named (og_instance g) (od_outbox d') b" if "batch_named (og_instance g) (od_outbox d) b" for b
    using that assms(3,5) unfolding batch_named_def rows by auto
  then have "batches_named (og_instance g) d'"
    using old assms(5) unfolding batches_ok_def batches_named_def rows by simp
  moreover have "batch_of_one_event d'"
    using old ev assms(5) unfolding batches_ok_def batch_of_one_event_def rows by auto
  moreover have "one_unconfirmed d'"
  proof -
    obtain batch where "\<forall>r \<in> set (od_outbox d). ox_state r = Ox_Sent \<longrightarrow> ox_batch r = batch (log_event d r)"
      using old unfolding batches_ok_def one_unconfirmed_def by blast
    then have "\<forall>r \<in> set (od_outbox d). ox_state (f r) = Ox_Sent \<longrightarrow> ox_batch r = batch (log_event d r)"
      using assms(6) by blast
    then show ?thesis unfolding one_unconfirmed_def rows by (auto simp: ev assms(5))
  qed
  ultimately show "batches_ok (og_instance g) d'" by (simp add: batches_ok_def)
qed

subsection \<open>Capturing\<close>

lemma sorted_wrt_snoc: "sorted_wrt (<) xs \<Longrightarrow> (\<And>x. x \<in> set xs \<Longrightarrow> x < y) \<Longrightarrow> sorted_wrt (<) (xs @ [y])"
  by (simp add: sorted_wrt_append)

lemma find_log_only_logs: "od_logs d' = od_logs d \<Longrightarrow> find_log i d' = find_log i d"
  by (simp add: find_log_def)

definition pending_added :: "odb \<Rightarrow> odb \<Rightarrow> bool" where
  "pending_added d d' \<longleftrightarrow> (\<exists>new. od_outbox d' = od_outbox d @ new \<and> (\<forall>r \<in> set new. ox_state r = Ox_Pending))"

lemma pending_added_refl [simp]: "pending_added d d"
  by (simp add: pending_added_def)

lemma pending_added_trans: "pending_added d d' \<Longrightarrow> pending_added d' d'' \<Longrightarrow> pending_added d d''"
  unfolding pending_added_def by fastforce

lemma outbox_ok_journal:
  assumes "journal_owned (og_instance g') now n l d = Inr d'" and "outbox_ok g d" and "n = og_last g + 1"
    and "og_instance g' = og_instance g" and "og_last g' = n" and "og_instance g \<noteq> []" and "ob_source l \<noteq> []"
    and "find_log (ob_id l) d = None"
  shows "outbox_ok g' d' \<and> logs_grow d d' \<and> pending_added d d'"
proof -
  let ?l = "claim_row (og_instance g) (ob_source l) n (owned_row l)" and ?r = "pending_row n (ob_id l) now"
  have fresh: "ob_id l \<notin> ox_observation ` set (od_outbox d)" and n: "0 < n"
    and d': "d' = d\<lparr> od_logs := od_logs d @ [?l], od_outbox := od_outbox d @ [?r] \<rparr>"
    using assms(1,4) by (auto simp: journal_owned_def list_ex_iff split: if_splits)
  let ?d = "d\<lparr> od_logs := od_logs d @ [?l] \<rparr>"
  have id: "ob_id ?l = ob_id l" by (simp add: claim_row_def owned_row_def)
  have "logs_ok ?d"
    using assms(2,8) n by (intro logs_ok_append) (simp_all add: outbox_ok_def claim_row_def owned_row_def)
  moreover have grow: "logs_grow d ?d" by (rule logs_grow_append)
  ultimately have ok: "outbox_ok g ?d" by (intro outbox_ok_grows [OF assms(2)]) simp_all
  have d'': "d' = ?d\<lparr> od_outbox := od_outbox ?d @ [?r] \<rparr>" using d' by simp
  have ev: "log_event d' r = log_event ?d r" and own: "own_row g d' r = own_row g ?d r" for r
    by (simp_all add: d'' log_event_def own_row_def find_log_def)
  have old_own: "\<forall>r \<in> set (od_outbox d). own_row g d' r" using ok own by (simp add: outbox_ok_def)
  have find: "find_log (ob_id l) d' = Some ?l"
    using find_log_append [of "ob_id l" d ?l] assms(8) id d'' find_log_only_logs [of d' ?d] by simp
  have new: "own_row g' d' ?r"
    unfolding own_row_def using find n assms(4-7) by (simp add: pending_row_def claim_row_def)
  have grown: "own_row g' d' r" if "r \<in> set (od_outbox d)" for r
    by (rule own_row_grows [OF logs_grow_refl]) (use that old_own assms(3-5) in auto)
  have below: "ox_sequence r < n" if "r \<in> set (od_outbox d)" for r
    using that old_own assms(3) by (auto simp: own_row_def)
  have old: "batches_ok (og_instance g) ?d" using ok by (simp add: outbox_ok_def)
  have named: "batches_named (og_instance g) d'"
    using old unfolding batches_ok_def batches_named_def batch_named_def d'' by (auto simp: pending_row_def)
  moreover have "batch_of_one_event d'"
    using old ev unfolding batches_ok_def batch_of_one_event_def d'' by (auto simp: pending_row_def)
  moreover have "one_unconfirmed d'"
    using old ev unfolding batches_ok_def one_unconfirmed_def d'' by (auto simp: pending_row_def)
  ultimately have batches: "batches_ok (og_instance g') d'" using assms(4) by (simp add: batches_ok_def)
  have "sorted_wrt (<) (map ox_sequence (od_outbox d'))"
    using ok below by (auto simp: d'' outbox_ok_def pending_row_def intro!: sorted_wrt_snoc)
  moreover have "distinct (map ox_observation (od_outbox d'))"
    using ok fresh by (auto simp: d'' outbox_ok_def pending_row_def)
  moreover have "\<forall>r \<in> set (od_outbox d'). own_row g' d' r \<and> row_state r"
    using new grown ok by (auto simp: d'' outbox_ok_def row_state_def pending_row_def)
  moreover have "logs_ok d'" using ok by (simp add: d'' outbox_ok_def logs_ok_def)
  ultimately have "outbox_ok g' d'" using batches by (simp add: outbox_ok_def)
  moreover have "logs_grow d d'" using grow find_log_only_logs [of d' ?d] d'' by (simp add: logs_grow_def)
  moreover have "pending_added d d'" by (auto simp: d' pending_added_def pending_row_def)
  ultimately show ?thesis by blast
qed

lemma insert_owned_row_ok:
  assumes "insert_owned_row now l g d = (g', r)" and "outbox_ok g d" and "og_instance g \<noteq> []"
  shows "og_instance g' = og_instance g \<and> og_last g \<le> og_last g' \<and>
    (\<forall>d'. r = Inr d' \<longrightarrow> outbox_ok g' d' \<and> logs_grow d d' \<and> pending_added d d')"
proof -
  have seq: "next_sequence g = (g1, x) \<Longrightarrow> og_instance g1 = og_instance g \<and> og_last g \<le> og_last g1 \<and>
      (\<forall>n. x = Inr n \<longrightarrow> n = og_last g + 1 \<and> og_last g1 = n)" for g1 x
    by (auto simp: next_sequence_def split: if_splits)
  show ?thesis
  proof (cases "blank (ob_source l) \<or> ob_edge l \<noteq> None \<or> find_log (ob_id l) d \<noteq> None \<or> ob_event l \<notin> set (od_events d)")
    case True
    then show ?thesis using assms(1,2) by (auto simp: insert_owned_row_def split: if_splits)
  next
    case False
    obtain g1 x where n: "next_sequence g = (g1, x)" by fastforce
    show ?thesis
    proof (cases x)
      case (Inl e)
      then show ?thesis using False n seq [OF n] assms(1) by (auto simp: insert_owned_row_def)
    next
      case (Inr k)
      then have r: "g' = g1" "r = journal_owned (og_instance g1) now k l d"
        using False n assms(1) by (auto simp: insert_owned_row_def)
      have "ob_source l \<noteq> []" using False by (auto simp: blank_def runes_of_def)
      then have "outbox_ok g1 d' \<and> logs_grow d d' \<and> pending_added d d'" if "journal_owned (og_instance g1) now k l d = Inr d'" for d'
        using outbox_ok_journal [OF that assms(2)] seq [OF n] Inr assms(3) False by auto
      then show ?thesis using r seq [OF n] by auto
    qed
  qed
qed

lemma insert_owned_rows_ok:
  assumes "insert_owned_rows now ls g d = (g', r)" and "outbox_ok g d" and "og_instance g \<noteq> []"
  shows "og_instance g' = og_instance g \<and> og_last g \<le> og_last g' \<and>
    (\<forall>d'. r = Inr d' \<longrightarrow> outbox_ok g' d' \<and> logs_grow d d' \<and> pending_added d d')"
  using assms
proof (induction ls arbitrary: g d)
  case Nil
  then show ?case by auto
next
  case (Cons l ls)
  obtain g1 x where one: "insert_owned_row now l g d = (g1, x)" by fastforce
  note ok = insert_owned_row_ok [OF one Cons.prems(2,3)]
  show ?case
  proof (cases x)
    case (Inl e)
    then show ?thesis using one ok Cons.prems(1) by auto
  next
    case (Inr d1)
    then have rest: "insert_owned_rows now ls g1 d1 = (g', r)" using one Cons.prems(1) by simp
    have "og_instance g' = og_instance g1 \<and> og_last g1 \<le> og_last g' \<and> (\<forall>d'. r = Inr d' \<longrightarrow> outbox_ok g' d' \<and> logs_grow d1 d' \<and> pending_added d1 d')"
      using ok Inr Cons.prems(3) by (intro Cons.IH [OF rest]) auto
    then show ?thesis using ok Inr logs_grow_trans pending_added_trans by auto
  qed
qed


subsection \<open>Preparing a batch\<close>

lemma concat_chunks: "0 < k \<Longrightarrow> concat (int64_chunks xs k) = xs"
proof (induction xs k rule: int64_chunks.induct)
  case (1 xs k)
  then show ?case by (subst int64_chunks.simps) auto
qed

lemma assign_chunk_append: "assign_chunk b now ys (assign_chunk b now xs d) = assign_chunk b now (xs @ ys) d"
proof -
  let ?f = "\<lambda>zs r. if ox_state r = Ox_Pending \<and> ox_sequence r \<in> set zs then assign_batch b now r else r"
  have "map (?f ys) (map (?f xs) rows) = map (?f (xs @ ys)) rows" for rows by (auto simp: assign_batch_def)
  then show ?thesis unfolding assign_chunk_def update_where_def by simp
qed

lemma assign_chunk_Nil: "assign_chunk b now [] d = d"
  by (simp add: assign_chunk_def update_where_def)

lemma assign_chunks: "fold (assign_chunk b now) css d = assign_chunk b now (concat css) d"
proof (induction css arbitrary: d)
  case Nil
  then show ?case by (simp add: assign_chunk_Nil)
next
  case (Cons cs css)
  then show ?case by (simp add: assign_chunk_append)
qed

lemma digits_then_dash:
  assumes "format_nat a @ ''-'' @ s = format_nat b @ ''-'' @ t"
  shows "a = b"
proof -
  have d: "list_all is_digit (format_nat k)" for k by (rule format_nat_digits)
  have "\<not> is_digit CHR ''-''" by (simp add: is_digit_def byte_of_def)
  then have "takeWhile is_digit (format_nat k @ ''-'' @ u) = format_nat k" for k u
    using d [of k] by (simp add: list_all_iff takeWhile_append2)
  then have "format_nat a = format_nat b" using assms by metis
  then show ?thesis by (metis digits_value_format_nat)
qed

lemma batch_name_inject: "batch_name inst a m = batch_name inst b n \<Longrightarrow> 0 < a \<Longrightarrow> 0 < b \<Longrightarrow> a = b"
  using digits_then_dash [of "nat a" "format_int m" "nat b" "format_int n"]
  by (simp add: batch_name_def format_int_def split: if_splits)

lemma no_sent_rows:
  assumes "sent_batch e d = None" and "outbox_ok g d" and "r \<in> set (od_outbox d)" and "log_event d r = Some e"
  shows "ox_state r \<noteq> Ox_Sent"
proof
  assume sent: "ox_state r = Ox_Sent"
  then have "ox_batch r \<noteq> None" using assms(2,3) by (auto simp: outbox_ok_def row_state_def)
  then have "r \<in> set (outbox_rows e (\<lambda>r. ox_state r = Ox_Sent \<and> ox_batch r \<noteq> None) d)"
    using assms(3,4) sent by (simp add: outbox_rows_def)
  then obtain x xs where rows: "outbox_rows e (\<lambda>r. ox_state r = Ox_Sent \<and> ox_batch r \<noteq> None) d = x # xs"
    by (cases "outbox_rows e (\<lambda>r. ox_state r = Ox_Sent \<and> ox_batch r \<noteq> None) d") auto
  then have "x \<in> set (outbox_rows e (\<lambda>r. ox_state r = Ox_Sent \<and> ox_batch r \<noteq> None) d)" by simp
  then have "ox_batch x \<noteq> None" by (simp add: outbox_rows_def)
  then show False using assms(1) rows by (simp add: sent_batch_def)
qed

lemma pending_of_event:
  assumes "distinct (map ox_sequence (od_outbox d))" and "r \<in> set (od_outbox d)"
    and "ox_sequence r \<in> set (map ox_sequence (take k (outbox_rows e p d)))"
  shows "log_event d r = Some e"
proof -
  obtain x where x: "x \<in> set (outbox_rows e p d)" "ox_sequence x = ox_sequence r"
    using assms(3) by (auto dest: in_set_takeD)
  then have "x = r" using assms(1,2) by (auto simp: outbox_rows_def distinct_map inj_on_def)
  then show ?thesis using x by (simp add: outbox_rows_def)
qed

text \<open>Assigning a batch to the next pending rows of an event that has no unconfirmed batch.\<close>

lemma outbox_ok_assign:
  assumes "outbox_ok g d" and "sent_batch e d = None"
    and "seqs = map ox_sequence (take k (outbox_rows e (\<lambda>r. ox_state r = Ox_Pending) d))" and "seqs \<noteq> []"
    and "b = batch_name (og_instance g) (hd seqs) m"
  shows "outbox_ok g (assign_chunk b now seqs d)"
proof -
  let ?f = "\<lambda>r. if ox_state r = Ox_Pending \<and> ox_sequence r \<in> set seqs then assign_batch b now r else r"
  let ?d = "d\<lparr> od_outbox := map ?f (od_outbox d) \<rparr>"
  have d': "assign_chunk b now seqs d = ?d" by (simp add: assign_chunk_def update_where_def)
  have dist: "distinct (map ox_sequence (od_outbox d))"
    using assms(1) by (simp add: outbox_ok_def strict_sorted_iff)
  have mine: "log_event d r = Some e" if "r \<in> set (od_outbox d)" "ox_sequence r \<in> set seqs" for r
    using pending_of_event [OF dist that(1)] that(2) assms(3) by blast
  obtain r0 where r0: "r0 \<in> set (od_outbox d)" "ox_state r0 = Ox_Pending" "ox_sequence r0 = hd seqs" "hd seqs \<in> set seqs"
  proof -
    have "hd seqs \<in> set seqs" using assms(4) by simp
    then show ?thesis using that assms(3) by (auto simp: outbox_rows_def dest!: in_set_takeD)
  qed
  have old: "batches_ok (og_instance g) d" and pos: "\<And>r. r \<in> set (od_outbox d) \<Longrightarrow> 0 < ox_sequence r"
    and state: "\<And>r. r \<in> set (od_outbox d) \<Longrightarrow> row_state r"
    using assms(1) by (auto simp: outbox_ok_def own_row_def)
  have fresh: "ox_batch r \<noteq> Some b" if "r \<in> set (od_outbox d)" for r
  proof
    assume "ox_batch r = Some b"
    then have "batch_named (og_instance g) (od_outbox d) b"
      using old that by (simp add: batches_ok_def batches_named_def)
    then obtain x n where x: "x \<in> set (od_outbox d)" "ox_batch x = Some b" "b = batch_name (og_instance g) (ox_sequence x) n"
      unfolding batch_named_def by auto
    have "ox_sequence x = ox_sequence r0"
      using batch_name_inject [of "og_instance g" "ox_sequence x" n "hd seqs" m] x(1,3) assms(5) r0(1,3) pos by metis
    then have "x = r0" using dist x(1) r0(1) by (auto simp: distinct_map inj_on_def)
    then show False using x(2) state [OF r0(1)] r0(2) by (simp add: row_state_def)
  qed
  have "batches_named (og_instance g) ?d"
    unfolding batches_named_def
  proof (intro ballI allI impI)
    fix y c assume "y \<in> set (od_outbox ?d)" "ox_batch y = Some c"
    then obtain r where r: "r \<in> set (od_outbox d)" "y = ?f r" by auto
    show "batch_named (og_instance g) (od_outbox ?d) c"
    proof (cases "c = b")
      case True
      have "?f r0 \<in> set (od_outbox ?d)" "ox_batch (?f r0) = Some b" "b = batch_name (og_instance g) (ox_sequence (?f r0)) m"
        using r0 assms(5) by (auto simp: assign_batch_def)
      then show ?thesis unfolding True batch_named_def by blast
    next
      case False
      then have "ox_batch r = Some c" using r \<open>ox_batch y = Some c\<close> by (auto simp: assign_batch_def split: if_splits)
      then obtain x n where x: "x \<in> set (od_outbox d)" "ox_batch x = Some c" "c = batch_name (og_instance g) (ox_sequence x) n"
        using old r(1) unfolding batches_ok_def batches_named_def batch_named_def by blast
      then have "?f x = x" using state [OF x(1)] by (simp add: row_state_def)
      then have "x \<in> set (od_outbox ?d)" using x(1) by (auto simp: image_iff intro!: bexI [of _ x])
      then show ?thesis using x unfolding batch_named_def by blast
    qed
  qed
  moreover have "batch_of_one_event ?d"
  proof -
    obtain event where event: "\<And>r b. r \<in> set (od_outbox d) \<Longrightarrow> ox_batch r = Some b \<Longrightarrow> log_event d r = event b"
      using old unfolding batches_ok_def batch_of_one_event_def by blast
    have "log_event d r = (event(b := Some e)) c" if "r \<in> set (od_outbox d)" "ox_batch (?f r) = Some c" for r c
      using that event [OF that(1)] mine [OF that(1)] fresh [OF that(1)] by (auto simp: assign_batch_def split: if_splits)
    then show ?thesis by (rule batch_of_one_event_map [rotated]) (auto simp: assign_batch_def split: if_splits)
  qed
  moreover have "one_unconfirmed ?d"
  proof -
    obtain batch where batch: "\<And>r. r \<in> set (od_outbox d) \<Longrightarrow> ox_state r = Ox_Sent \<Longrightarrow> ox_batch r = batch (log_event d r)"
      using old unfolding batches_ok_def one_unconfirmed_def by blast
    have "ox_batch (?f r) = (batch(Some e := Some b)) (log_event d r)" if "r \<in> set (od_outbox d)" "ox_state (?f r) = Ox_Sent" for r
      using that batch [OF that(1)] mine [OF that(1)] no_sent_rows [OF assms(2,1) that(1)]
      by (auto simp: assign_batch_def split: if_splits)
    then show ?thesis by (rule one_unconfirmed_map [rotated]) (auto simp: assign_batch_def split: if_splits)
  qed
  ultimately have "batches_ok (og_instance g) ?d" by (simp add: batches_ok_def)
  then show ?thesis
    unfolding d' by (intro outbox_ok_map [OF assms(1) refl])
      (use state in \<open>auto simp: assign_batch_def row_state_def\<close>)
qed


lemma prepare_batch_ok:
  assumes "prepare_batch (og_instance g) e limit now d = Inr (d', t)" and "outbox_ok g d"
  shows "outbox_ok g d' \<and> od_logs d' = od_logs d"
proof (cases "sent_batch e d")
  case (Some b)
  let ?f = "\<lambda>r. if ox_batch r = Some b \<and> ox_state r = Ox_Sent then mark_retry now r else r"
  have d': "d' = d\<lparr> od_outbox := map ?f (od_outbox d) \<rparr>"
    using assms(1) Some by (auto simp: prepare_batch_def retry_batch_def Let_def update_where_def res_simps split: if_splits)
  have "outbox_ok g d'" by (rule outbox_ok_settle [OF assms(2) d']) (auto simp: mark_retry_def split: if_splits)
  then show ?thesis by (simp add: d')
next
  case None
  let ?seqs = "map ox_sequence (take (nat limit) (outbox_rows e (\<lambda>r. ox_state r = Ox_Pending) d))"
  have d': "d' = d \<or> ?seqs \<noteq> [] \<and> d' = assign_chunk (batch_name (og_instance g) (hd ?seqs) (last ?seqs)) now ?seqs d"
    using assms(1) None
    by (auto simp: prepare_batch_def new_batch_def Let_def res_simps assign_chunks concat_chunks split: if_splits)
  then show ?thesis
    using assms(2) outbox_ok_assign [OF assms(2) None refl _ refl] by (auto simp: assign_chunk_def)
qed

subsection \<open>Settling a batch\<close>

lemma accept_chunk_append: "accept_chunk now ys (accept_chunk now xs d) = accept_chunk now (xs @ ys) d"
proof -
  let ?f = "\<lambda>zs r. if ox_state r = Ox_Sent \<and> ox_sequence r \<in> set zs then acknowledge now r else r"
  have "map (?f ys) (map (?f xs) rows) = map (?f (xs @ ys)) rows" for rows by (auto simp: acknowledge_def)
  then show ?thesis unfolding accept_chunk_def update_where_def by simp
qed

lemma accept_chunks: "fold (accept_chunk now) css d = accept_chunk now (concat css) d"
proof (induction css arbitrary: d)
  case Nil
  then show ?case by (simp add: accept_chunk_def update_where_def)
next
  case (Cons cs css)
  then show ?case by (simp add: accept_chunk_append)
qed

definition reject_row :: "(int \<times> string) list \<Rightarrow> outbox_row \<Rightarrow> outbox_row" where
  "reject_row rej r = (if ox_state r = Ox_Sent then
     (case map_of rej (ox_sequence r) of None \<Rightarrow> r | Some reason \<Rightarrow> refuse reason r) else r)"

lemma reject_row_Cons:
  "reject_row rej (if ox_state r = Ox_Sent \<and> ox_sequence r = fst x then refuse (snd x) r else r) = reject_row (x # rej) r"
  by (simp add: reject_row_def refuse_def)

lemma reject_all: "fold reject_one rej d = d\<lparr> od_outbox := map (reject_row rej) (od_outbox d) \<rparr>"
proof (induction rej arbitrary: d)
  case Nil
  have "reject_row [] = id" by (rule ext) (simp add: reject_row_def)
  then show ?case by simp
next
  case (Cons x rej)
  have "map (reject_row rej) (update_where (\<lambda>r. ox_state r = Ox_Sent \<and> ox_sequence r = fst x) (refuse (snd x)) rows) =
      map (reject_row (x # rej)) rows" for rows
    by (simp add: update_where_def reject_row_Cons)
  then show ?case by (simp add: Cons.IH reject_one_def [of x])
qed

definition settle_row :: "int \<Rightarrow> int list \<Rightarrow> (int \<times> string) list \<Rightarrow> outbox_row \<Rightarrow> outbox_row" where
  "settle_row now acc rej r =
     reject_row rej (if ox_state r = Ox_Sent \<and> ox_sequence r \<in> set acc then acknowledge now r else r)"

lemmas settle_defs = settle_row_def reject_row_def acknowledge_def refuse_def

lemma apply_ack_settles:
  assumes "apply_ack b as now d = Inr d'"
  obtains acc rej where "read_acks (batch_rows b d) [] as [] [] = Inr (acc, rej)"
    and "d' = d\<lparr> od_outbox := map (settle_row now acc rej) (od_outbox d) \<rparr>"
    and "batch_rows b d \<noteq> []" and "length (batch_rows b d) = length as"
proof -
  obtain x where x: "read_acks (batch_rows b d) [] as [] [] = Inr x" "batch_rows b d \<noteq> []" "length (batch_rows b d) = length as"
    and d': "d' = fold reject_one (snd x) (fold (accept_chunk now) (int64_chunks (fst x) 400) d)"
    using assms by (auto simp: apply_ack_def Let_def res_simps split: if_splits)
  have "d' = d\<lparr> od_outbox := map (settle_row now (fst x) (snd x)) (od_outbox d) \<rparr>"
    unfolding d' accept_chunks reject_all
    by (simp add: concat_chunks accept_chunk_def update_where_def settle_row_def)
  then show ?thesis using x that [of "fst x" "snd x"] by simp
qed

lemma settle_row_fields [simp]:
  "ox_sequence (settle_row now acc rej r) = ox_sequence r" "ox_observation (settle_row now acc rej r) = ox_observation r"
  "ox_batch (settle_row now acc rej r) = ox_batch r"
  by (simp_all add: settle_defs split: option.split)

lemma settle_row_state:
  "ox_state (settle_row now acc rej r) = Ox_Sent \<Longrightarrow> ox_state r = Ox_Sent"
  "ox_state (settle_row now acc rej r) = Ox_Pending \<longleftrightarrow> ox_state r = Ox_Pending"
  by (auto simp: settle_defs split: option.splits if_splits)

lemma settle_row_other: "ox_state r \<noteq> Ox_Sent \<Longrightarrow> settle_row now acc rej r = r"
  by (simp add: settle_defs)

lemma apply_ack_ok:
  assumes "apply_ack b as now d = Inr d'" and "outbox_ok g d"
  shows "outbox_ok g d' \<and> od_logs d' = od_logs d"
proof -
  obtain acc rej where d': "d' = d\<lparr> od_outbox := map (settle_row now acc rej) (od_outbox d) \<rparr>"
    using apply_ack_settles [OF assms(1)] by metis
  have "outbox_ok g d'" by (rule outbox_ok_settle [OF assms(2) d']) (simp_all add: settle_row_state)
  then show ?thesis by (simp add: d')
qed

end
