(* ===== verification/OutboxRuns.thy ===== *)
theory OutboxRuns
  imports OutboxLaws
begin

section \<open>The life of an observation\<close>

text \<open>
  Everything that happens to the observation tables of a Desk is a step: capturing readings, importing those of
  others from an export or from the feed, preparing a batch, changing the sync settings, and the site's answer.
\<close>

inductive desk_step :: "codec \<Rightarrow> origin \<times> odb \<Rightarrow> origin \<times> odb \<Rightarrow> bool" for cx where
  capture: "insert_owned now ls g d = (g', Inr d') \<Longrightarrow> desk_step cx (g, d) (g', d')"
| capture_failed: "insert_owned now ls g d = (g', Inl err) \<Longrightarrow> desk_step cx (g, d) (g', d)"
| import_export: "upsert_logs cx ls d = Inr d' \<Longrightarrow> desk_step cx (g, d) (g, d')"
| import_page: "apply_feed_page cx e ls cursor now d = Inr (d', ms) \<Longrightarrow> desk_step cx (g, d) (g, d')"
| prepare: "prepare_batch (og_instance g) e limit now d = Inr (d', t) \<Longrightarrow> desk_step cx (g, d) (g, d')"
| configure: "d' = upsert_sync e f d \<Longrightarrow> desk_step cx (g, d) (g, d')"
| clear: "desk_step cx (g, d) (g, clear_pending e d)"

inductive sync_step :: "codec \<Rightarrow> origin \<times> odb \<Rightarrow> origin \<times> odb \<Rightarrow> bool" for cx where
  desk: "desk_step cx s s' \<Longrightarrow> sync_step cx s s'"
| answer: "apply_ack b as now d = Inr d' \<Longrightarrow> sync_step cx (g, d) (g, d')"

definition sync_ok :: "origin \<times> odb \<Rightarrow> bool" where
  "sync_ok s \<longleftrightarrow> og_instance (fst s) \<noteq> [] \<and> outbox_ok (fst s) (snd s)"

lemma outbox_ok_config:
  assumes "outbox_ok g d" and "od_logs d' = od_logs d" and "od_outbox d' = od_outbox d"
  shows "outbox_ok g d'"
  using assms(1) by (rule outbox_ok_grows) (use assms in \<open>simp_all add: logs_grow_same outbox_ok_def logs_ok_def\<close>)

lemma insert_owned_ok:
  assumes "insert_owned now ls g d = (g', r)" and "outbox_ok g d" and "og_instance g \<noteq> []"
  shows "og_instance g' = og_instance g \<and> og_last g \<le> og_last g' \<and>
    (\<forall>d'. r = Inr d' \<longrightarrow> outbox_ok g' d' \<and> logs_grow d d' \<and> pending_added d d')"
  using assms insert_owned_rows_ok by (auto simp: insert_owned_def split: if_splits)

lemma outbox_ok_later:
  assumes "outbox_ok g d" and "og_instance g' = og_instance g" and "og_last g \<le> og_last g'"
  shows "outbox_ok g' d"
  using assms by (auto simp: outbox_ok_def own_row_def)

lemma apply_feed_page_logs:
  assumes "apply_feed_page cx e ls cursor now d = Inr (d', ms)"
  obtains d1 where "fold_res (import_item cx e) ls (d, []) = Inr (d1, ms)"
    and "d' = advance_cursor e cursor now (list_ex (\<lambda>m. snd m \<noteq> Mut_Duplicate) ms) d1"
  using assms by (auto simp: apply_feed_page_def res_simps split: if_splits)

lemma upsert_sync_rest [simp]:
  "od_logs (upsert_sync e f d) = od_logs d" "od_outbox (upsert_sync e f d) = od_outbox d"
  "od_events (upsert_sync e f d) = od_events d"
  by (simp_all add: upsert_sync_def)

lemma advance_cursor_rest [simp]:
  "od_logs (advance_cursor e c now b d) = od_logs d" "od_outbox (advance_cursor e c now b d) = od_outbox d"
  "od_events (advance_cursor e c now b d) = od_events d"
  by (simp_all add: advance_cursor_def)

lemma clear_pending_rest [simp]:
  "od_logs (clear_pending e d) = od_logs d" "od_outbox (clear_pending e d) = od_outbox d"
  by (simp_all add: clear_pending_def)

lemma apply_feed_page_keeps:
  assumes "apply_feed_page cx e ls cursor now d = Inr (d', ms)" and "logs_ok d"
  shows "logs_ok d' \<and> logs_grow d d' \<and> od_outbox d' = od_outbox d"
proof -
  obtain d1 where d1: "fold_res (import_item cx e) ls (d, []) = Inr (d1, ms)"
    and d': "d' = advance_cursor e cursor now (list_ex (\<lambda>m. snd m \<noteq> Mut_Duplicate) ms) d1"
    by (rule apply_feed_page_logs [OF assms(1)])
  have "import_keeps d d1" by (rule import_items_keep [OF d1 assms(2)])
  then show ?thesis
    by (auto simp: d' import_keeps_def logs_ok_def intro: logs_grow_trans [OF _ logs_grow_same])
qed

lemma desk_step_ok:
  assumes "desk_step cx s s'" and "sync_ok s"
  shows "sync_ok s' \<and> logs_grow (snd s) (snd s') \<and> og_instance (fst s') = og_instance (fst s)"
  using assms(1)
proof cases
  case (capture now ls g d g' d')
  then show ?thesis using insert_owned_ok [OF capture(3)] assms(2) by (auto simp: sync_ok_def)
next
  case (capture_failed now ls g d g' err)
  then show ?thesis using insert_owned_ok [OF capture_failed(3)] assms(2) outbox_ok_later by (auto simp: sync_ok_def)
next
  case (import_export ls d d' g)
  have ok: "outbox_ok g d" using assms(2) import_export(1) by (simp add: sync_ok_def)
  then have "import_keeps d d'" using upsert_logs_keeps [OF import_export(3)] by (simp add: outbox_ok_def)
  then show ?thesis using assms(2) import_export outbox_ok_grows [OF ok] by (simp add: import_keeps_def sync_ok_def)
next
  case (import_page e ls cursor now d d' ms g)
  have ok: "outbox_ok g d" using assms(2) import_page(1) by (simp add: sync_ok_def)
  then have "logs_ok d' \<and> logs_grow d d' \<and> od_outbox d' = od_outbox d"
    using apply_feed_page_keeps [OF import_page(3)] by (simp add: outbox_ok_def)
  then show ?thesis using assms(2) import_page outbox_ok_grows [OF ok] by (simp add: sync_ok_def)
next
  case (prepare g e limit now d d' t)
  then show ?thesis using prepare_batch_ok [OF prepare(3)] assms(2) logs_grow_same by (simp add: sync_ok_def)
next
  case (configure d' e f d g)
  then show ?thesis using outbox_ok_config [of g d d'] assms(2) logs_grow_same [of d' d] by (simp add: sync_ok_def)
next
  case (clear g d e)
  then show ?thesis
    using outbox_ok_config [of g d "clear_pending e d"] assms(2) logs_grow_same [of "clear_pending e d" d] by (simp add: sync_ok_def)
qed

lemma sync_step_ok:
  assumes "sync_step cx s s'" and "sync_ok s"
  shows "sync_ok s' \<and> logs_grow (snd s) (snd s')"
  using assms(1)
proof cases
  case desk
  then show ?thesis using desk_step_ok assms(2) by blast
next
  case (answer b as now d d' g)
  then show ?thesis using apply_ack_ok [OF answer(3), of g] assms(2) logs_grow_same [of d' d] by (simp add: sync_ok_def)
qed

subsection \<open>Settled rows stay settled\<close>

definition row_grows :: "outbox_row \<Rightarrow> outbox_row \<Rightarrow> bool" where
  "row_grows r r' \<longleftrightarrow> ox_sequence r' = ox_sequence r \<and> ox_observation r' = ox_observation r \<and>
     (ox_batch r \<noteq> None \<longrightarrow> ox_batch r' = ox_batch r) \<and>
     (ox_state r = Ox_Acked \<or> ox_state r = Ox_Rejected \<longrightarrow> r' = r)"

definition outbox_grows :: "odb \<Rightarrow> odb \<Rightarrow> bool" where
  "outbox_grows d d' \<longleftrightarrow> (\<forall>r \<in> set (od_outbox d). \<exists>r' \<in> set (od_outbox d'). row_grows r r')"

lemma row_grows_refl [simp]: "row_grows r r"
  by (simp add: row_grows_def)

lemma row_grows_trans: "row_grows a b \<Longrightarrow> row_grows b c \<Longrightarrow> row_grows a c"
  unfolding row_grows_def by metis

lemma outbox_grows_trans: "outbox_grows d d' \<Longrightarrow> outbox_grows d' d'' \<Longrightarrow> outbox_grows d d''"
  unfolding outbox_grows_def using row_grows_trans by meson

lemma outbox_grows_map:
  assumes "od_outbox d' = map f (od_outbox d)" and "\<And>r. r \<in> set (od_outbox d) \<Longrightarrow> row_grows r (f r)"
  shows "outbox_grows d d'"
  using assms by (auto simp: outbox_grows_def)

lemma outbox_grows_same: "od_outbox d' = od_outbox d \<Longrightarrow> outbox_grows d d'"
  by (rule outbox_grows_map [where f = id]) simp_all

lemma outbox_grows_added: "pending_added d d' \<Longrightarrow> outbox_grows d d'"
  unfolding pending_added_def outbox_grows_def by (metis UnI1 row_grows_refl set_append)

text \<open>How a prepared batch changes the rows.\<close>

definition prepared_row :: "string \<Rightarrow> int \<Rightarrow> int list \<Rightarrow> outbox_row \<Rightarrow> outbox_row" where
  "prepared_row b now seqs r = (if ox_state r = Ox_Pending \<and> ox_sequence r \<in> set seqs then assign_batch b now r else r)"

definition retried_row :: "string \<Rightarrow> int \<Rightarrow> outbox_row \<Rightarrow> outbox_row" where
  "retried_row b now r = (if ox_batch r = Some b \<and> ox_state r = Ox_Sent then mark_retry now r else r)"

lemma prepare_batch_rows:
  assumes "prepare_batch inst e limit now d = Inr (d', t)"
  obtains (retry) b where "sent_batch e d = Some b" "d' = d\<lparr> od_outbox := map (retried_row b now) (od_outbox d) \<rparr>"
      "bind_res (load_batch e b d') (\<lambda>t. Inr (Some t)) = Inr t"
  | (idle) "sent_batch e d = None" "outbox_rows e (\<lambda>r. ox_state r = Ox_Pending) d = []" "d' = d" "t = None"
  | (fresh) seqs b where "sent_batch e d = None" "seqs \<noteq> []"
      "seqs = map ox_sequence (take (nat limit) (outbox_rows e (\<lambda>r. ox_state r = Ox_Pending) d))"
      "b = batch_name inst (hd seqs) (last seqs)" "d' = d\<lparr> od_outbox := map (prepared_row b now seqs) (od_outbox d) \<rparr>"
      "bind_res (load_batch e b d') (\<lambda>t. Inr (Some t)) = Inr t"
proof (cases "sent_batch e d")
  case (Some b)
  then show ?thesis
    using assms retry
    by (auto simp: prepare_batch_def retry_batch_def Let_def update_where_def retried_row_def [abs_def] res_simps split: if_splits)
next
  case None
  let ?seqs = "map ox_sequence (take (nat limit) (outbox_rows e (\<lambda>r. ox_state r = Ox_Pending) d))"
  have pos: "0 < nat limit" using assms by (auto simp: prepare_batch_def split: if_splits)
  show ?thesis
  proof (cases "?seqs = []")
    case True
    then have "outbox_rows e (\<lambda>r. ox_state r = Ox_Pending) d = [] \<and> d' = d \<and> t = None"
      using None assms pos by (auto simp: prepare_batch_def new_batch_def split: if_splits)
    then show ?thesis by (elim conjE) (rule idle [OF None])
  next
    case False
    have "assign_chunk b now seqs d = d\<lparr> od_outbox := map (prepared_row b now seqs) (od_outbox d) \<rparr>" for b seqs
      by (simp add: assign_chunk_def update_where_def prepared_row_def [abs_def])
    then show ?thesis
      using fresh [OF None False refl refl] False None assms
      by (auto simp: prepare_batch_def new_batch_def Let_def assign_chunks concat_chunks res_simps split: if_splits)
  qed
qed

lemma prepare_grows:
  assumes "prepare_batch inst e limit now d = Inr (d', t)" and "\<And>r. r \<in> set (od_outbox d) \<Longrightarrow> row_state r"
  shows "outbox_grows d d'"
  using assms(1)
proof (cases rule: prepare_batch_rows)
  case (retry b)
  then show ?thesis by (intro outbox_grows_map [of _ "retried_row b now"]) (auto simp: retried_row_def mark_retry_def row_grows_def)
next
  case idle
  then show ?thesis by (simp add: outbox_grows_same)
next
  case (fresh seqs b)
  then show ?thesis
    by (intro outbox_grows_map [of _ "prepared_row b now seqs"])
      (use assms(2) in \<open>auto simp: prepared_row_def assign_batch_def row_grows_def row_state_def\<close>)
qed

lemma sync_step_grows:
  assumes "sync_step cx s s'" and "sync_ok s"
  shows "outbox_grows (snd s) (snd s')"
  using assms(1)
proof cases
  case desk
  from desk show ?thesis
  proof cases
    case (capture now ls g d g' d')
    then show ?thesis using insert_owned_ok [OF capture(3)] assms(2) outbox_grows_added by (auto simp: sync_ok_def)
  next
    case (capture_failed now ls g d g' err)
    then show ?thesis by (simp add: outbox_grows_same)
  next
    case (import_export ls d d' g)
    then show ?thesis using upsert_logs_keeps [OF import_export(3)] assms(2)
      by (auto simp: sync_ok_def outbox_ok_def import_keeps_def intro: outbox_grows_same)
  next
    case (import_page e ls cursor now d d' ms g)
    then show ?thesis using apply_feed_page_keeps [OF import_page(3)] assms(2)
      by (auto simp: sync_ok_def outbox_ok_def intro: outbox_grows_same)
  next
    case (prepare g e limit now d d' t)
    then show ?thesis using prepare_grows [OF prepare(3)] assms(2) by (auto simp: sync_ok_def outbox_ok_def)
  next
    case (configure d' e f d g)
    then show ?thesis by (simp add: outbox_grows_same)
  next
    case (clear g d e)
    then show ?thesis by (simp add: outbox_grows_same)
  qed
next
  case (answer b as now d d' g)
  obtain acc rej where "d' = d\<lparr> od_outbox := map (settle_row now acc rej) (od_outbox d) \<rparr>"
    using apply_ack_settles [OF answer(3)] by metis
  then have "outbox_grows d d'"
    by (intro outbox_grows_map [of _ "settle_row now acc rej"]) (auto simp: row_grows_def settle_row_other)
  then show ?thesis using answer by simp
qed

definition sync_grows :: "origin \<times> odb \<Rightarrow> origin \<times> odb \<Rightarrow> bool" where
  "sync_grows s s' \<longleftrightarrow> logs_grow (snd s) (snd s') \<and> outbox_grows (snd s) (snd s')"

interpretation sync: monotone_machine "sync_step cx" sync_ok sync_grows
proof unfold_locales
  fix s t u :: "origin \<times> odb"
  show "sync_step cx s t \<Longrightarrow> sync_ok s \<Longrightarrow> sync_ok t" using sync_step_ok by blast
  show "sync_grows s s" by (simp add: sync_grows_def outbox_grows_same)
  show "sync_grows s t \<Longrightarrow> sync_grows t u \<Longrightarrow> sync_grows s u"
    unfolding sync_grows_def using logs_grow_trans outbox_grows_trans by blast
  show "sync_step cx s t \<Longrightarrow> sync_ok s \<Longrightarrow> sync_grows s t"
    unfolding sync_grows_def using sync_step_ok sync_step_grows by blast
qed


subsection \<open>The unconfirmed batch\<close>

definition item_of :: "odb \<Rightarrow> outbox_row \<Rightarrow> observation" where
  "item_of d r = (the (find_log (ox_observation r) d))\<lparr> ob_edge := None \<rparr>"

lemma own_row_item:
  assumes "own_row g d r"
  obtains l where "find_log (ox_observation r) d = Some l" "item_of d r = l\<lparr> ob_edge := None \<rparr>"
    and "scan_item l = Inr (item_of d r)" and "ob_instance l = og_instance g" and "ob_sequence l = ox_sequence r"
    and "ob_id l = ox_observation r" and "ob_version l \<noteq> 0" and "ob_source l \<noteq> []" and "ob_system l \<noteq> []"
    and "ob_instance l \<noteq> []" and "ob_sequence l \<noteq> 0"
  using assms find_log_id [of "ox_observation r" d] that by (auto simp: own_row_def item_of_def scan_item_def)

lemma load_batch_items:
  assumes "outbox_ok g d" and "outbox_rows e (\<lambda>r. ox_batch r = Some b \<and> ox_state r = Ox_Sent) d = rows" and "rows \<noteq> []"
  shows "load_batch e b d = Inr \<lparr> bt_id = b, bt_instance = og_instance g, bt_first = ox_sequence (hd rows),
    bt_last = ox_sequence (last rows), bt_items = map (item_of d) rows \<rparr>"
proof -
  have own: "own_row g d r" if "r \<in> set rows" for r
    using that assms(1,2) by (auto simp: outbox_ok_def outbox_rows_def)
  let ?logs = "\<lambda>xs. List.map_filter (\<lambda>r. find_log (ox_observation r) d) xs"
  have "map_res scan_item (?logs xs) = Inr (map (item_of d) xs)" if "set xs \<subseteq> set rows" for xs
    using that
  proof (induction xs)
    case (Cons x xs)
    then show ?case by (auto simp: map_filter_simps elim: own_row_item [OF own, of x])
  qed (simp add: map_filter_simps)
  then have 2: "map_res scan_item (?logs rows) = Inr (map (item_of d) rows)" by simp
  have inst: "ob_instance (item_of d r) = og_instance g" "ob_sequence (item_of d r) = ox_sequence r" if "r \<in> set rows" for r
    by (rule own_row_item [OF own [OF that]], simp)+
  have "check_origins (og_instance g) (map (item_of d) xs) = Inr ()" if "set xs \<subseteq> set rows" for xs
    using that inst by (induction xs) auto
  then have 3: "check_origins (og_instance g) (map (item_of d) rows) = Inr ()" by simp
  obtain r rs where rows: "rows = r # rs" using assms(3) by (cases rows) auto
  have "ob_instance (item_of d r) = og_instance g" "ob_sequence (item_of d r) = ox_sequence r"
    using inst rows by auto
  moreover have "ob_sequence (last (map (item_of d) rows)) = ox_sequence (last rows)"
    using inst assms(3) by (simp add: last_map)
  ultimately show ?thesis
    unfolding load_batch_def assms(2) 2 using 3 rows by simp
qed

definition unconfirmed :: "string \<Rightarrow> odb \<Rightarrow> outbox_row list" where
  "unconfirmed e d = outbox_rows e (\<lambda>r. ox_state r = Ox_Sent) d"

lemma unconfirmed_rows:
  assumes "outbox_ok g d"
  shows "unconfirmed e d = filter (\<lambda>r. log_event d r = Some e \<and> ox_state r = Ox_Sent) (od_outbox d)"
  using assms by (simp add: unconfirmed_def outbox_rows_filter outbox_ok_def)

lemma unconfirmed_batch:
  assumes "outbox_ok g d" and "r0 \<in> set (unconfirmed e d)" and "ox_batch r0 = Some b"
  shows "outbox_rows e (\<lambda>r. ox_batch r = Some b \<and> ox_state r = Ox_Sent) d = unconfirmed e d" and "sent_batch e d = Some b"
    and "\<And>r. r \<in> set (od_outbox d) \<Longrightarrow> log_event d r = Some e \<Longrightarrow> ox_state r = Ox_Sent \<Longrightarrow> ox_batch r = Some b"
    and "filter (\<lambda>r. ox_batch r = Some b \<and> ox_state r = Ox_Sent) (od_outbox d) = unconfirmed e d"
proof -
  have sorted: "sorted_wrt (<) (map ox_sequence (od_outbox d))" using assms(1) by (simp add: outbox_ok_def)
  have r0: "r0 \<in> set (od_outbox d)" "log_event d r0 = Some e" "ox_state r0 = Ox_Sent"
    using assms(2) by (auto simp: unconfirmed_rows [OF assms(1)])
  obtain batch where batch: "\<And>r. r \<in> set (od_outbox d) \<Longrightarrow> ox_state r = Ox_Sent \<Longrightarrow> ox_batch r = batch (log_event d r)"
    using assms(1) unfolding outbox_ok_def batches_ok_def one_unconfirmed_def by blast
  show one: "ox_batch r = Some b" if "r \<in> set (od_outbox d)" "log_event d r = Some e" "ox_state r = Ox_Sent" for r
    using batch [OF that(1,3)] batch [OF r0(1,3)] that(2) r0(2) assms(3) by simp
  show rows: "outbox_rows e (\<lambda>r. ox_batch r = Some b \<and> ox_state r = Ox_Sent) d = unconfirmed e d"
    unfolding unconfirmed_rows [OF assms(1)] outbox_rows_filter [OF sorted] by (rule filter_cong) (use one in auto)
  have eq: "outbox_rows e (\<lambda>r. ox_state r = Ox_Sent \<and> ox_batch r \<noteq> None) d = unconfirmed e d"
    unfolding unconfirmed_rows [OF assms(1)] outbox_rows_filter [OF sorted] by (rule filter_cong) (use one in auto)
  obtain x xs where x: "unconfirmed e d = x # xs" using assms(2) by (cases "unconfirmed e d") auto
  then have "x \<in> set (unconfirmed e d)" by simp
  then have "ox_batch x = Some b" using one by (auto simp: unconfirmed_rows [OF assms(1)])
  then show "sent_batch e d = Some b" unfolding sent_batch_def eq using x by simp
  obtain event where event: "\<And>r b. r \<in> set (od_outbox d) \<Longrightarrow> ox_batch r = Some b \<Longrightarrow> log_event d r = event b"
    using assms(1) unfolding outbox_ok_def batches_ok_def batch_of_one_event_def by blast
  have "log_event d r = Some e" if "r \<in> set (od_outbox d)" "ox_batch r = Some b" for r
    using event [OF that] event [OF r0(1) assms(3)] r0(2) by simp
  then show "filter (\<lambda>r. ox_batch r = Some b \<and> ox_state r = Ox_Sent) (od_outbox d) = unconfirmed e d"
    unfolding unconfirmed_rows [OF assms(1)] by (intro filter_cong) (use one in auto)
qed

lemma unconfirmed_has_batch:
  assumes "outbox_ok g d" and "unconfirmed e d \<noteq> []"
  obtains r0 b where "r0 \<in> set (unconfirmed e d)" "ox_batch r0 = Some b"
proof -
  obtain r0 where r0: "r0 \<in> set (unconfirmed e d)" using assms(2) by (cases "unconfirmed e d") auto
  then have "r0 \<in> set (od_outbox d)" "ox_state r0 = Ox_Sent" by (auto simp: unconfirmed_rows [OF assms(1)])
  then have "ox_batch r0 \<noteq> None" using assms(1) by (auto simp: outbox_ok_def row_state_def)
  then show ?thesis using that r0 by blast
qed

lemma no_unconfirmed:
  assumes "outbox_ok g d" and "unconfirmed e d = []"
  shows "sent_batch e d = None"
proof -
  have "\<not> (log_event d r = Some e \<and> ox_state r = Ox_Sent)" if "r \<in> set (od_outbox d)" for r
    using assms(2) that by (auto simp: unconfirmed_rows [OF assms(1)] filter_empty_conv)
  then have "filter (\<lambda>r. log_event d r = Some e \<and> ox_state r = Ox_Sent \<and> ox_batch r \<noteq> None) (od_outbox d) = []"
    unfolding filter_empty_conv by blast
  then have "outbox_rows e (\<lambda>r. ox_state r = Ox_Sent \<and> ox_batch r \<noteq> None) d = []" by (simp add: outbox_rows_def)
  then show ?thesis by (simp add: sent_batch_def)
qed


subsection \<open>Preparing always answers\<close>

lemma log_event_outbox: "od_logs d' = od_logs d \<Longrightarrow> log_event d' r = log_event d r"
  by (simp add: log_event_def find_log_def)

lemma retried_row_same [simp]:
  "ox_state (retried_row b now r) = ox_state r" "ox_batch (retried_row b now r) = ox_batch r"
  "ox_observation (retried_row b now r) = ox_observation r" "ox_sequence (retried_row b now r) = ox_sequence r"
  by (simp_all add: retried_row_def mark_retry_def)

lemma prepared_row_same [simp]:
  "ox_observation (prepared_row b now seqs r) = ox_observation r" "ox_sequence (prepared_row b now seqs r) = ox_sequence r"
  by (simp_all add: prepared_row_def assign_batch_def)

lemma prepared_row_sent: "ox_state r = Ox_Sent \<Longrightarrow> prepared_row b now seqs r = r"
  by (simp add: prepared_row_def)

lemma prepared_row_state:
  "ox_state (prepared_row b now seqs r) = Ox_Sent \<longleftrightarrow>
     ox_state r = Ox_Sent \<or> ox_state r = Ox_Pending \<and> ox_sequence r \<in> set seqs"
  "ox_state (prepared_row b now seqs r) = Ox_Pending \<longleftrightarrow> ox_state r = Ox_Pending \<and> ox_sequence r \<notin> set seqs"
  by (auto simp: prepared_row_def assign_batch_def)

definition open_row :: "outbox_row \<Rightarrow> bool" where
  "open_row r \<longleftrightarrow> ox_state r = Ox_Pending \<or> ox_state r = Ox_Sent"

lemma pending_count_rows:
  assumes "outbox_ok g d"
  shows "pending_count e d = length (filter (\<lambda>r. log_event d r = Some e \<and> open_row r) (od_outbox d))"
  using assms by (simp add: pending_count_def open_row_def outbox_rows_filter outbox_ok_def)

lemma length_filter_map:
  "(\<And>x. x \<in> set xs \<Longrightarrow> p (f x) = q x) \<Longrightarrow> length (filter p (map f xs)) = length (filter q xs)"
  by (induction xs) auto

lemma pending_count_map:
  assumes "outbox_ok g d" and "outbox_ok g d'" and "d' = d\<lparr> od_outbox := map f (od_outbox d) \<rparr>"
    and "\<And>r. ox_observation (f r) = ox_observation r" and "\<And>r. open_row (f r) = open_row r"
  shows "pending_count e d' = pending_count e d"
proof -
  have "log_event d' (f r) = log_event d r" for r
    using log_event_row [of "f r" r d] assms(4) by (simp add: assms(3))
  then have "length (filter (\<lambda>r. log_event d' r = Some e \<and> open_row r) (map f (od_outbox d))) =
      length (filter (\<lambda>r. log_event d r = Some e \<and> open_row r) (od_outbox d))"
    by (intro length_filter_map) (simp add: assms(5))
  then show ?thesis
    by (simp add: pending_count_rows [OF assms(1)] pending_count_rows [OF assms(2)]) (simp add: assms(3))
qed

lemma load_unconfirmed:
  assumes "outbox_ok g d" and "r0 \<in> set (unconfirmed e d)" and "ox_batch r0 = Some b"
  shows "load_batch e b d = Inr \<lparr> bt_id = b, bt_instance = og_instance g, bt_first = ox_sequence (hd (unconfirmed e d)),
    bt_last = ox_sequence (last (unconfirmed e d)), bt_items = map (item_of d) (unconfirmed e d) \<rparr>"
  using load_batch_items [OF assms(1) unconfirmed_batch(1) [OF assms]] assms(2) by (metis empty_iff empty_set)

lemma in_unconfirmed:
  assumes "outbox_ok g d"
  shows "r \<in> set (unconfirmed e d) \<longleftrightarrow> r \<in> set (od_outbox d) \<and> log_event d r = Some e \<and> ox_state r = Ox_Sent"
  using assms by (auto simp: unconfirmed_rows)

lemma bind_some: "bind_res m (\<lambda>t. Inr (d', Some t)) = Inr (d', Some x) \<longleftrightarrow> m = Inr x"
  by (cases m) auto

definition prepared :: "origin \<Rightarrow> string \<Rightarrow> odb \<Rightarrow> batch \<Rightarrow> bool" where
  "prepared g e d t \<longleftrightarrow> unconfirmed e d \<noteq> [] \<and> bt_instance t = og_instance g \<and>
     bt_first t = ox_sequence (hd (unconfirmed e d)) \<and> bt_last t = ox_sequence (last (unconfirmed e d)) \<and>
     bt_items t = map (item_of d) (unconfirmed e d) \<and> (\<forall>r \<in> set (unconfirmed e d). ox_batch r = Some (bt_id t))"

lemma prepared_load:
  assumes "outbox_ok g d" and "r0 \<in> set (unconfirmed e d)" and "ox_batch r0 = Some b"
  obtains t where "load_batch e b d = Inr t" "prepared g e d t" "bt_id t = b"
proof -
  have all: "\<forall>r \<in> set (unconfirmed e d). ox_batch r = Some b"
    using unconfirmed_batch(3) [OF assms] in_unconfirmed [OF assms(1)] by blast
  have "unconfirmed e d \<noteq> []" using assms(2) by auto
  then show ?thesis using that [OF load_unconfirmed [OF assms]] all by (simp add: prepared_def)
qed

lemma prepare_answers:
  assumes "outbox_ok g d" and "0 < limit" and "limit \<le> 20000"
  shows "\<exists>d' t. prepare_batch (og_instance g) e limit now d = Inr (d', t) \<and> outbox_ok g d' \<and>
    pending_count e d' = pending_count e d \<and>
    (case t of None \<Rightarrow> pending_count e d = 0 | Some x \<Rightarrow> prepared g e d' x)"
proof (cases "unconfirmed e d = []")
  case False
  then obtain r0 b where r0: "r0 \<in> set (unconfirmed e d)" "ox_batch r0 = Some b" by (rule unconfirmed_has_batch [OF assms(1)])
  let ?d = "d\<lparr> od_outbox := map (retried_row b now) (od_outbox d) \<rparr>"
  have ok: "outbox_ok g ?d" by (rule outbox_ok_settle [OF assms(1) refl]) simp_all
  have "retried_row b now r0 \<in> set (unconfirmed e ?d)" "ox_batch (retried_row b now r0) = Some b"
    using r0 log_event_row [of "retried_row b now r0" r0 d] by (auto simp: in_unconfirmed [OF ok] in_unconfirmed [OF assms(1)])
  then obtain t where t: "load_batch e b ?d = Inr t" "prepared g e ?d t" by (rule prepared_load [OF ok])
  have "retry_batch e b now d = Inr (?d, Some t)"
    unfolding retry_batch_def using t(1) by (simp add: Let_def update_where_def retried_row_def [abs_def])
  then have "prepare_batch (og_instance g) e limit now d = Inr (?d, Some t)"
    using assms(2,3) unconfirmed_batch(2) [OF assms(1) r0] by (simp add: prepare_batch_def)
  moreover have "pending_count e ?d = pending_count e d"
    by (rule pending_count_map [OF assms(1) ok refl]) (simp_all add: open_row_def)
  ultimately show ?thesis using ok t(2) by (intro exI [of _ ?d] exI [of _ "Some t"]) simp
next
  case True
  then have none: "sent_batch e d = None" by (rule no_unconfirmed [OF assms(1)])
  let ?p = "outbox_rows e (\<lambda>r. ox_state r = Ox_Pending) d"
  show ?thesis
  proof (cases "?p = []")
    case empty: True
    then have "prepare_batch (og_instance g) e limit now d = Inr (d, None)"
      using none assms(2,3) by (simp add: prepare_batch_def new_batch_def)
    moreover have "log_event d r = Some e \<Longrightarrow> \<not> open_row r" if "r \<in> set (od_outbox d)" for r
    proof -
      have "r \<notin> set ?p" "r \<notin> set (unconfirmed e d)" using empty True by simp_all
      then show "log_event d r = Some e \<Longrightarrow> \<not> open_row r"
        using that by (auto simp: outbox_rows_def open_row_def in_unconfirmed [OF assms(1)])
    qed
    then have "pending_count e d = 0" by (auto simp: pending_count_rows [OF assms(1)] filter_empty_conv)
    ultimately show ?thesis using assms(1) by (intro exI [of _ d] exI [of _ None]) simp
  next
    case False
    let ?seqs = "map ox_sequence (take (nat limit) ?p)"
    let ?b = "batch_name (og_instance g) (hd ?seqs) (last ?seqs)"
    let ?d = "d\<lparr> od_outbox := map (prepared_row ?b now ?seqs) (od_outbox d) \<rparr>"
    have seqs: "?seqs \<noteq> []" using False assms(2) by simp
    have d': "assign_chunk ?b now ?seqs d = ?d" by (simp add: assign_chunk_def update_where_def prepared_row_def [abs_def])
    have ok: "outbox_ok g ?d" using outbox_ok_assign [OF assms(1) none refl seqs refl, where now = now and m = "last ?seqs"] unfolding d' .
    have dist: "distinct (map ox_sequence (od_outbox d))" using assms(1) by (simp add: outbox_ok_def strict_sorted_iff)
    obtain x where x: "x \<in> set (take (nat limit) ?p)" using seqs by (cases "take (nat limit) ?p") auto
    then have "x \<in> set ?p" by (rule in_set_takeD)
    then have x': "x \<in> set (od_outbox d)" "ox_state x = Ox_Pending" "log_event d x = Some e" "ox_sequence x \<in> set ?seqs"
      using x by (auto simp: outbox_rows_def)
    have "prepared_row ?b now ?seqs x \<in> set (unconfirmed e ?d)"
      using x' log_event_row [of "prepared_row ?b now ?seqs x" x d] by (auto simp: in_unconfirmed [OF ok] prepared_row_state)
    moreover have "ox_batch (prepared_row ?b now ?seqs x) = Some ?b" using x' by (simp add: prepared_row_def assign_batch_def)
    ultimately obtain t where t: "load_batch e ?b ?d = Inr t" "prepared g e ?d t" by (rule prepared_load [OF ok])
    have "new_batch (og_instance g) e (nat limit) now d = Inr (?d, Some t)"
      unfolding new_batch_def Let_def using seqs t(1) d' by (simp add: assign_chunks concat_chunks)
    then have "prepare_batch (og_instance g) e limit now d = Inr (?d, Some t)"
      using assms(2,3) none by (simp add: prepare_batch_def)
    moreover have "pending_count e ?d = pending_count e d"
      by (rule pending_count_map [OF assms(1) ok refl]) (auto simp: open_row_def prepared_row_state)
    ultimately show ?thesis using ok t(2) by (intro exI [of _ ?d] exI [of _ "Some t"]) simp
  qed
qed


subsection \<open>A batch is stable until it is confirmed\<close>

definition row_key :: "outbox_row \<Rightarrow> int \<times> string \<times> string option" where
  "row_key r = (ox_sequence r, ox_observation r, ox_batch r)"

lemma filter_map_same:
  assumes "\<And>x. x \<in> set xs \<Longrightarrow> p (f x) = q x" and "\<And>x. x \<in> set xs \<Longrightarrow> q x \<Longrightarrow> k (f x) = k x"
  shows "map k (filter p (map f xs)) = map k (filter q xs)"
  using assms by (induction xs) auto

lemma unconfirmed_map:
  assumes "outbox_ok g d" and "outbox_ok g d'" and "d' = d\<lparr> od_outbox := map f (od_outbox d) \<rparr>"
    and "\<And>r. ox_observation (f r) = ox_observation r"
    and "\<And>r. r \<in> set (od_outbox d) \<Longrightarrow> log_event d r = Some e \<Longrightarrow> ox_state (f r) = Ox_Sent \<longleftrightarrow> ox_state r = Ox_Sent"
    and "\<And>r. r \<in> set (od_outbox d) \<Longrightarrow> ox_state r = Ox_Sent \<Longrightarrow> row_key (f r) = row_key r"
  shows "map row_key (unconfirmed e d') = map row_key (unconfirmed e d)"
proof -
  have ev: "log_event d' (f r) = log_event d r" for r using log_event_row [of "f r" r d] assms(4) by (simp add: assms(3))
  have "map row_key (filter (\<lambda>r. log_event d' r = Some e \<and> ox_state r = Ox_Sent) (map f (od_outbox d))) =
      map row_key (filter (\<lambda>r. log_event d r = Some e \<and> ox_state r = Ox_Sent) (od_outbox d))"
    by (rule filter_map_same) (use ev assms(5,6) in auto)
  then show ?thesis by (simp add: unconfirmed_rows [OF assms(1)] unconfirmed_rows [OF assms(2)]) (simp add: assms(3))
qed

lemma unconfirmed_added:
  assumes "outbox_ok g d" and "outbox_ok g' d'" and "logs_grow d d'" and "pending_added d d'"
  shows "unconfirmed e d' = unconfirmed e d"
proof -
  obtain new where new: "od_outbox d' = od_outbox d @ new" "\<forall>r \<in> set new. ox_state r = Ox_Pending"
    using assms(4) unfolding pending_added_def by blast
  have ev: "log_event d' r = log_event d r" if "r \<in> set (od_outbox d)" for r
    using own_row_event [OF _ assms(3)] that assms(1) by (auto simp: outbox_ok_def)
  have "filter (\<lambda>r. log_event d' r = Some e \<and> ox_state r = Ox_Sent) (od_outbox d) =
      filter (\<lambda>r. log_event d r = Some e \<and> ox_state r = Ox_Sent) (od_outbox d)"
    by (rule filter_cong) (auto simp: ev)
  moreover have "filter (\<lambda>r. log_event d' r = Some e \<and> ox_state r = Ox_Sent) new = []"
    using new(2) by (auto simp: filter_empty_conv)
  ultimately show ?thesis by (simp add: unconfirmed_rows [OF assms(1)] unconfirmed_rows [OF assms(2)] new(1))
qed

lemma prepare_keeps_unconfirmed:
  assumes "prepare_batch (og_instance g) e' limit now d = Inr (d', t)" and "outbox_ok g d" and "unconfirmed e d \<noteq> []"
  shows "map row_key (unconfirmed e d') = map row_key (unconfirmed e d)"
proof -
  have ok: "outbox_ok g d'" using prepare_batch_ok [OF assms(1,2)] by blast
  from assms(1) show ?thesis
  proof (cases rule: prepare_batch_rows)
    case (retry b)
    show ?thesis by (rule unconfirmed_map [OF assms(2) ok retry(2)]) (simp_all add: row_key_def)
  next
    case idle
    then show ?thesis by simp
  next
    case (fresh seqs b)
    obtain r0 b0 where r0: "r0 \<in> set (unconfirmed e d)" "ox_batch r0 = Some b0"
      by (rule unconfirmed_has_batch [OF assms(2,3)])
    then have "sent_batch e d = Some b0" by (rule unconfirmed_batch(2) [OF assms(2)])
    then have other: "e' \<noteq> e" using fresh(1) by auto
    have dist: "distinct (map ox_sequence (od_outbox d))" using assms(2) by (simp add: outbox_ok_def strict_sorted_iff)
    have "log_event d r = Some e'" if "r \<in> set (od_outbox d)" "ox_sequence r \<in> set seqs" for r
      using pending_of_event [OF dist that(1)] that(2) fresh(3) by blast
    then have "ox_state (prepared_row b now seqs r) = Ox_Sent \<longleftrightarrow> ox_state r = Ox_Sent"
      if "r \<in> set (od_outbox d)" "log_event d r = Some e" for r
      using that other by (auto simp: prepared_row_state)
    then show ?thesis
      by (intro unconfirmed_map [OF assms(2) ok fresh(5)]) (simp_all add: row_key_def prepared_row_sent)
  qed
qed

lemma desk_step_keeps_unconfirmed:
  assumes "desk_step cx s s'" and "sync_ok s" and "unconfirmed e (snd s) \<noteq> []"
  shows "map row_key (unconfirmed e (snd s')) = map row_key (unconfirmed e (snd s))"
proof -
  have ok: "sync_ok s'" "logs_grow (snd s) (snd s')" using desk_step_ok [OF assms(1,2)] by blast+
  have same: ?thesis if "od_outbox (snd s') = od_outbox (snd s)"
    using unconfirmed_added [of "fst s" "snd s" "fst s'" "snd s'" e] ok assms(2) that
    by (simp add: sync_ok_def pending_added_def)
  from assms(1) show ?thesis
  proof cases
    case (capture now ls g d g' d')
    have i: "outbox_ok g d" "og_instance g \<noteq> []" using assms(2) capture(1) by (simp_all add: sync_ok_def)
    have "outbox_ok g' d' \<and> logs_grow d d' \<and> pending_added d d'" using insert_owned_ok [OF capture(3) i] by blast
    then have "unconfirmed e d' = unconfirmed e d" using unconfirmed_added [OF i(1)] by blast
    then show ?thesis by (simp add: capture)
  next
    case (capture_failed now ls g d g' err)
    then show ?thesis by simp
  next
    case (import_export ls d d' g)
    have "logs_ok d" using assms(2) import_export(1) by (simp add: sync_ok_def outbox_ok_def)
    then show ?thesis using upsert_logs_keeps [OF import_export(3)] by (intro same) (simp add: import_export import_keeps_def)
  next
    case (import_page e ls cursor now d d' ms g)
    have "logs_ok d" using assms(2) import_page(1) by (simp add: sync_ok_def outbox_ok_def)
    then show ?thesis using apply_feed_page_keeps [OF import_page(3)] by (intro same) (simp add: import_page)
  next
    case (prepare g e' limit now d d' t)
    have "outbox_ok g d" using assms(2) prepare(1) by (simp add: sync_ok_def)
    then show ?thesis using prepare_keeps_unconfirmed [OF prepare(3), of e] assms(3) by (simp add: prepare)
  next
    case (configure d' e' f d g)
    then show ?thesis by (intro same) simp
  next
    case (clear g d e')
    then show ?thesis by (intro same) simp
  qed
qed

lemma desk_steps_keep_unconfirmed:
  assumes "(desk_step cx)\<^sup>*\<^sup>* s s'" and "sync_ok s" and "unconfirmed e (snd s) \<noteq> []"
  shows "sync_ok s' \<and> logs_grow (snd s) (snd s') \<and> map row_key (unconfirmed e (snd s')) = map row_key (unconfirmed e (snd s))"
  using assms(1)
proof (induction rule: rtranclp_induct)
  case base
  then show ?case using assms(2) by simp
next
  case (step t u)
  then have "unconfirmed e (snd t) \<noteq> []" using assms(3) by (metis map_is_Nil_conv)
  then have "map row_key (unconfirmed e (snd u)) = map row_key (unconfirmed e (snd t))"
    using desk_step_keeps_unconfirmed [OF step(2)] step(3) by blast
  then show ?case using step(3) desk_step_ok [OF step(2)] logs_grow_trans by metis
qed

text \<open>What of an item never changes: everything but the time it was disabled at.\<close>

definition frozen :: "observation \<Rightarrow> observation" where
  "frozen l = l\<lparr> ob_disabled := None \<rparr>"

lemma item_frozen:
  assumes "own_row g d r" and "logs_grow d d'" and "ox_observation r' = ox_observation r"
  shows "frozen (item_of d' r') = frozen (item_of d r)"
proof (rule own_row_item [OF assms(1)])
  fix l
  assume l: "find_log (ox_observation r) d = Some l" "item_of d r = l\<lparr> ob_edge := None \<rparr>" "ob_version l \<noteq> 0"
    "ob_source l \<noteq> []" "ob_system l \<noteq> []" "ob_instance l \<noteq> []" "ob_sequence l \<noteq> 0"
  obtain b where "find_log (ox_observation r) d' = Some b" "same_reading l b" "keeps_origin l b"
    by (rule logs_growD [OF assms(2) l(1)])
  then show ?thesis
    using l by (cases l, cases b) (simp add: frozen_def item_of_def assms(3) same_reading_def same_immutable_def keeps_origin_def)
qed

lemma same_batch_again:
  assumes "prepared g e d t" and "prepared g' e d' t'" and "outbox_ok g d" and "logs_grow d d'"
    and "map row_key (unconfirmed e d') = map row_key (unconfirmed e d)"
  shows "bt_id t' = bt_id t \<and> map frozen (bt_items t') = map frozen (bt_items t)"
proof -
  let ?u = "unconfirmed e d" and ?u' = "unconfirmed e d'"
  have len: "length ?u' = length ?u" using assms(5) map_eq_imp_length_eq by blast
  have key: "row_key (?u' ! i) = row_key (?u ! i)" if "i < length ?u" for i
    using assms(5) that len by (metis nth_map)
  have "?u \<noteq> []" using assms(1) by (simp add: prepared_def)
  then have "?u ! 0 \<in> set ?u" "?u' ! 0 \<in> set ?u'" using len by simp_all
  moreover have "row_key (?u' ! 0) = row_key (?u ! 0)" using key \<open>?u \<noteq> []\<close> by simp
  ultimately have id: "bt_id t' = bt_id t" using assms(1,2) by (auto simp: prepared_def row_key_def)
  have "frozen (item_of d' (?u' ! i)) = frozen (item_of d (?u ! i))" if i: "i < length ?u" for i
  proof (rule item_frozen [OF _ assms(4)])
    have "?u ! i \<in> set (od_outbox d)" using i in_unconfirmed [OF assms(3)] nth_mem by blast
    then show "own_row g d (?u ! i)" using assms(3) by (simp add: outbox_ok_def)
    show "ox_observation (?u' ! i) = ox_observation (?u ! i)" using key [OF i] by (simp add: row_key_def)
  qed
  then have "map frozen (map (item_of d') ?u') = map frozen (map (item_of d) ?u)"
    by (intro nth_equalityI) (simp_all add: len)
  then show ?thesis using id assms(1,2) by (simp add: prepared_def)
qed

end
