(* ===== verification/ObservationSync.thy ===== *)
theory ObservationSync
  imports OutboxRuns
begin

section \<open>What the observation sync promises\<close>

text \<open>
  The properties of the outbox and of the answer of the site, over the runs of the step relation of
  \<^verbatim>\<open>OutboxRuns\<close> from an empty database, and the push of \<^verbatim>\<open>handleSyncPush\<close> composed from both.
\<close>

definition empty_odb :: "string list \<Rightarrow> odb" where
  "empty_odb es = \<lparr> od_events = es, od_logs = [], od_outbox = [], od_config = [] \<rparr>"

lemma empty_odb_ok: "og_instance g \<noteq> [] \<Longrightarrow> sync_ok (g, empty_odb es)"
  by (simp add: sync_ok_def outbox_ok_def empty_odb_def logs_ok_def batches_ok_def batches_named_def batch_of_one_event_def
      one_unconfirmed_def)

subsection \<open>An answer covers the batch\<close>

definition known_status :: "string \<Rightarrow> bool" where
  "known_status s \<longleftrightarrow> s \<in> {''inserted'', ''duplicate'', ''rejected''}"

definition covers :: "outbox_row list \<Rightarrow> ack list \<Rightarrow> bool" where
  "covers rows as \<longleftrightarrow> rows \<noteq> [] \<and> length as = length rows \<and> distinct (map ak_sequence as) \<and>
     (\<forall>a \<in> set as. known_status (ak_status a) \<and>
        (\<exists>r \<in> set rows. ox_sequence r = ak_sequence a \<and> ox_observation r = ak_observation a))"

definition answered :: "int \<Rightarrow> ack list \<Rightarrow> outbox_row \<Rightarrow> outbox_row" where
  "answered now as r = (case List.find (\<lambda>a. ak_sequence a = ox_sequence r) as of
     None \<Rightarrow> r
   | Some a \<Rightarrow> if ak_status a = ''rejected'' then refuse (ak_reason a) r else acknowledge now r)"

definition answer_row :: "string \<Rightarrow> int \<Rightarrow> ack list \<Rightarrow> outbox_row \<Rightarrow> outbox_row" where
  "answer_row b now as r = (if ox_batch r = Some b \<and> ox_state r = Ox_Sent then answered now as r else r)"

definition accepted_ack :: "ack \<Rightarrow> bool" where
  "accepted_ack a \<longleftrightarrow> ak_status a = ''inserted'' \<or> ak_status a = ''duplicate''"

definition readable :: "outbox_row list \<Rightarrow> ack \<Rightarrow> bool" where
  "readable rows a \<longleftrightarrow> known_status (ak_status a) \<and> expected_id rows (ak_sequence a) = ak_observation a"

lemma read_acks_step:
  "read_acks rows seen (a # as) acc rej =
    (if ak_sequence a \<in> set seen \<or> \<not> readable rows a
     then Inl (projl (read_acks rows seen (a # as) acc rej))
     else read_acks rows (ak_sequence a # seen) as (acc @ map ak_sequence (filter accepted_ack [a]))
       (rej @ map (\<lambda>a. (ak_sequence a, ak_reason a)) (filter (\<lambda>a. ak_status a = ''rejected'') [a])))"
  by (auto simp: known_status_def accepted_ack_def readable_def)

lemma read_acks_all:
  assumes "\<forall>a \<in> set as. readable rows a" and "distinct (map ak_sequence as)" and "set (map ak_sequence as) \<inter> set seen = {}"
  shows "read_acks rows seen as acc rej = Inr (acc @ map ak_sequence (filter accepted_ack as),
    rej @ map (\<lambda>a. (ak_sequence a, ak_reason a)) (filter (\<lambda>a. ak_status a = ''rejected'') as))"
  using assms
proof (induction as arbitrary: seen acc rej)
  case Nil
  then show ?case by simp
next
  case (Cons a as)
  have "set (map ak_sequence as) \<inter> set (ak_sequence a # seen) = {}" using Cons.prems by auto
  with Cons.prems show ?case by (subst read_acks_step) (simp add: Cons.IH del: read_acks.simps)
qed

lemma read_acks_Inr:
  assumes "read_acks rows seen as acc rej = Inr x"
  shows "(\<forall>a \<in> set as. readable rows a) \<and> distinct (map ak_sequence as) \<and> set (map ak_sequence as) \<inter> set seen = {}"
  using assms
proof (induction as arbitrary: seen acc rej)
  case Nil
  then show ?case by simp
next
  case (Cons a as)
  have a: "ak_sequence a \<notin> set seen" "readable rows a"
    using Cons.prems read_acks_step [of rows seen a as acc rej] by (metis Inl_Inr_False)+
  then have "read_acks rows (ak_sequence a # seen) as (acc @ map ak_sequence (filter accepted_ack [a]))
       (rej @ map (\<lambda>a. (ak_sequence a, ak_reason a)) (filter (\<lambda>a. ak_status a = ''rejected'') [a])) = Inr x"
    using Cons.prems read_acks_step [of rows seen a as acc rej] by simp
  from Cons.IH [OF this] a show ?case by auto
qed

lemma expected_id_row:
  assumes "distinct (map ox_sequence rows)" and "x \<noteq> []"
  shows "expected_id rows n = x \<longleftrightarrow> (\<exists>r \<in> set rows. ox_sequence r = n \<and> ox_observation r = x)"
proof (cases "List.find (\<lambda>r. ox_sequence r = n) rows")
  case None
  then have "expected_id rows n = []" by (simp add: expected_id_def)
  then show ?thesis using assms(2) None by (auto simp: find_None_iff)
next
  case (Some r)
  then have r: "r \<in> set rows" "ox_sequence r = n" by (auto dest: find_Some_iff')
  have "r' = r" if "r' \<in> set rows" "ox_sequence r' = n" for r'
    using that r assms(1) by (auto simp: distinct_map inj_on_def)
  then have "(\<exists>r' \<in> set rows. ox_sequence r' = n \<and> ox_observation r' = x) \<longleftrightarrow> ox_observation r = x"
    using r by blast
  then show ?thesis using Some by (simp add: expected_id_def)
qed

lemma readable_row:
  assumes "distinct (map ox_sequence rows)" and "\<forall>a \<in> set as. ak_observation a \<noteq> []"
  shows "(\<forall>a \<in> set as. readable rows a) \<longleftrightarrow> (\<forall>a \<in> set as. known_status (ak_status a) \<and>
    (\<exists>r \<in> set rows. ox_sequence r = ak_sequence a \<and> ox_observation r = ak_observation a))"
proof (rule ball_cong [OF refl])
  fix a
  assume "a \<in> set as"
  then show "readable rows a \<longleftrightarrow> known_status (ak_status a) \<and>
      (\<exists>r \<in> set rows. ox_sequence r = ak_sequence a \<and> ox_observation r = ak_observation a)"
    unfolding readable_def using expected_id_row [OF assms(1)] assms(2) by simp
qed

lemma batch_rows_distinct: "outbox_ok g d \<Longrightarrow> distinct (map ox_sequence (batch_rows b d))"
  by (simp add: outbox_ok_def batch_rows_def strict_sorted_iff distinct_map inj_on_def)

lemma covers_read:
  assumes "outbox_ok g d" and "\<forall>a \<in> set as. ak_observation a \<noteq> []"
  shows "covers (batch_rows b d) as \<longleftrightarrow> batch_rows b d \<noteq> [] \<and> length as = length (batch_rows b d) \<and>
    (\<forall>a \<in> set as. readable (batch_rows b d) a) \<and> distinct (map ak_sequence as)"
  using readable_row [OF batch_rows_distinct [OF assms(1)] assms(2), of b] by (auto simp: covers_def)

lemma covers_rows:
  assumes "covers rows as" and "distinct (map ox_sequence rows)"
  shows "set (map ak_sequence as) = set (map ox_sequence rows)"
proof (rule card_subset_eq)
  show "set (map ak_sequence as) \<subseteq> set (map ox_sequence rows)" using assms(1) by (force simp: covers_def)
  have "card (set (map ak_sequence as)) = length (map ak_sequence as)"
    by (rule distinct_card) (use assms(1) in \<open>simp add: covers_def\<close>)
  moreover have "card (set (map ox_sequence rows)) = length (map ox_sequence rows)"
    by (rule distinct_card [OF assms(2)])
  ultimately show "card (set (map ak_sequence as)) = card (set (map ox_sequence rows))"
    using assms(1) by (simp add: covers_def)
qed simp

lemma find_ack:
  assumes "distinct (map ak_sequence as)" and "a \<in> set as"
  shows "List.find (\<lambda>x. ak_sequence x = ak_sequence a) as = Some a"
  using assms by (induction as) (auto simp: image_iff)

lemma settle_answered:
  assumes "covers rows as" and "distinct (map ox_sequence (od_outbox d))" and "rows = batch_rows b d" and "r \<in> set (od_outbox d)"
  shows "settle_row now (map ak_sequence (filter accepted_ack as))
      (map (\<lambda>a. (ak_sequence a, ak_reason a)) (filter (\<lambda>a. ak_status a = ''rejected'') as)) r = answer_row b now as r"
proof -
  have dist: "distinct (map ox_sequence rows)"
    using assms(2) by (simp add: assms(3) batch_rows_def distinct_map inj_on_def)
  have sub: "set rows \<subseteq> set (od_outbox d)" by (auto simp: assms(3) batch_rows_def)
  show ?thesis
  proof (cases "\<exists>a \<in> set as. ak_sequence a = ox_sequence r")
    case True
    then obtain a where a: "a \<in> set as" "ak_sequence a = ox_sequence r" by blast
    have da: "distinct (map ak_sequence as)" using assms(1) by (simp add: covers_def)
    obtain r' where "r' \<in> set rows" "ox_sequence r' = ox_sequence r"
      using assms(1) a by (auto simp: covers_def)
    then have "r \<in> set rows" using sub assms(2,4) by (auto simp: distinct_map inj_on_def)
    then have r: "ox_batch r = Some b" "ox_state r = Ox_Sent" by (simp_all add: assms(3) batch_rows_def)
    have find: "List.find (\<lambda>x. ak_sequence x = ox_sequence r) as = Some a" using find_ack [OF da a(1)] a(2) by simp
    have only: "x = a" if "x \<in> set as" "ak_sequence x = ox_sequence r" for x
      using that a da by (auto simp: distinct_map inj_on_def)
    let ?rej = "map (\<lambda>a. (ak_sequence a, ak_reason a)) (filter (\<lambda>a. ak_status a = ''rejected'') as)"
    have dr: "distinct (map fst ?rej)" using da by (simp add: comp_def distinct_map_filter)
    have known: "known_status (ak_status a)" using assms(1) a(1) by (simp add: covers_def)
    show ?thesis
    proof (cases "ak_status a = ''rejected''")
      case True
      then have "map_of ?rej (ox_sequence r) = Some (ak_reason a)"
        using a by (intro map_of_is_SomeI [OF dr]) force
      moreover have "ox_sequence r \<notin> set (map ak_sequence (filter accepted_ack as))"
        using only True by (auto simp: accepted_ack_def)
      ultimately show ?thesis using r find True by (simp add: settle_row_def reject_row_def answer_row_def answered_def)
    next
      case False
      then have "accepted_ack a" using known by (auto simp: known_status_def accepted_ack_def)
      then have "ox_sequence r \<in> set (map ak_sequence (filter accepted_ack as))" using a by force
      moreover have "acknowledge now r = reject_row ?rej (acknowledge now r)" by (simp add: reject_row_def acknowledge_def)
      ultimately show ?thesis using r find False by (simp add: settle_row_def answer_row_def answered_def)
    qed
  next
    case False
    then have none: "List.find (\<lambda>x. ak_sequence x = ox_sequence r) as = None" by (auto simp: find_None_iff)
    have "map_of (map (\<lambda>a. (ak_sequence a, ak_reason a)) (filter (\<lambda>a. ak_status a = ''rejected'') as)) (ox_sequence r) = None"
      using False by (force simp: map_of_eq_None_iff)
    moreover have "ox_sequence r \<notin> set (map ak_sequence (filter accepted_ack as))" using False by auto
    ultimately show ?thesis using none by (simp add: settle_row_def reject_row_def answer_row_def answered_def)
  qed
qed

lemma covers_readable:
  assumes "covers rows as" and "distinct (map ox_sequence rows)"
  shows "\<forall>a \<in> set as. readable rows a"
proof
  fix a
  assume a: "a \<in> set as"
  then obtain r where r: "r \<in> set rows" "ox_sequence r = ak_sequence a" "ox_observation r = ak_observation a"
    using assms(1) by (auto simp: covers_def)
  have "r' = r" if "r' \<in> set rows" "ox_sequence r' = ak_sequence a" for r'
    using that r assms(2) by (auto simp: distinct_map inj_on_def)
  moreover have "List.find (\<lambda>r. ox_sequence r = ak_sequence a) rows \<noteq> None" using r by (auto simp: find_None_iff)
  then obtain r' where r': "List.find (\<lambda>r. ox_sequence r = ak_sequence a) rows = Some r'" by blast
  then have "r' \<in> set rows" "ox_sequence r' = ak_sequence a" by (auto dest: find_Some_iff')
  ultimately have "r' = r" by blast
  then have "expected_id rows (ak_sequence a) = ak_observation a" using r' r(3) by (simp add: expected_id_def)
  then show "readable rows a" using assms(1) a by (simp add: readable_def covers_def)
qed

lemma apply_ack_covers:
  assumes "outbox_ok g d" and "covers (batch_rows b d) as"
  shows "apply_ack b as now d = Inr (d\<lparr> od_outbox := map (answer_row b now as) (od_outbox d) \<rparr>)"
proof -
  let ?rows = "batch_rows b d"
  have dist: "distinct (map ox_sequence (od_outbox d))" using assms(1) by (simp add: outbox_ok_def strict_sorted_iff)
  have read: "read_acks ?rows [] as [] [] = Inr (map ak_sequence (filter accepted_ack as),
      map (\<lambda>a. (ak_sequence a, ak_reason a)) (filter (\<lambda>a. ak_status a = ''rejected'') as))"
    using read_acks_all [OF covers_readable [OF assms(2) batch_rows_distinct [OF assms(1)]], of "[]" "[]" "[]"] assms(2)
    by (simp add: covers_def)
  have "apply_ack b as now d \<noteq> Inl err" for err using assms(2) read by (simp add: apply_ack_def Let_def covers_def)
  then obtain d' where d': "apply_ack b as now d = Inr d'" by (cases "apply_ack b as now d") auto
  from apply_ack_settles [OF d'] obtain acc rej where "read_acks ?rows [] as [] [] = Inr (acc, rej)"
    "d' = d\<lparr> od_outbox := map (settle_row now acc rej) (od_outbox d) \<rparr>" by metis
  then have "d' = d\<lparr> od_outbox := map (answer_row b now as) (od_outbox d) \<rparr>"
    using settle_answered [OF assms(2) dist refl] read by (simp cong: map_cong)
  then show ?thesis using d' by simp
qed

lemma apply_ack_not_covered:
  assumes "outbox_ok g d" and "\<forall>a \<in> set as. ak_observation a \<noteq> []" and "\<not> covers (batch_rows b d) as"
  shows "\<exists>err. apply_ack b as now d = Inl err"
proof -
  have "apply_ack b as now d \<noteq> Inr d'" for d'
    using assms(3) read_acks_Inr [of "batch_rows b d" "[]" as "[]" "[]"]
    unfolding covers_read [OF assms(1,2)] apply_ack_def Let_def by (auto simp: res_simps)
  then show ?thesis by (cases "apply_ack b as now d") auto
qed

subsection \<open>A push\<close>

text \<open>
  The part of \<^verbatim>\<open>handleSyncPush\<close> that concerns the observations.  Parameters: the payload with its hash
  (\<^verbatim>\<open>BuildSyncPayloadV3\<close>), and the site's answer to it.
\<close>

definition batch_size :: int where
  "batch_size = 1000"

definition send_batch :: "(odb \<Rightarrow> batch option \<Rightarrow> string res) \<Rightarrow> (batch option \<Rightarrow> answer option res) \<Rightarrow>
    string \<Rightarrow> int \<Rightarrow> batch option \<Rightarrow> odb \<Rightarrow> odb res" where
  "send_batch payload post e now t d =
    bind_res (payload d t) (\<lambda>hash. bind_res (post t) (\<lambda>a.
      bind_res (case t of None \<Rightarrow> Inr d | Some b \<Rightarrow> apply_answer b a now d) (\<lambda>d'.
        Inr (set_sync_result e now hash d'))))"

definition push_observations :: "(odb \<Rightarrow> batch option \<Rightarrow> string res) \<Rightarrow> (batch option \<Rightarrow> answer option res) \<Rightarrow>
    string \<Rightarrow> string \<Rightarrow> int \<Rightarrow> odb \<Rightarrow> odb \<times> unit res" where
  "push_observations payload post inst e now d =
    (case find_sync e d of
       None \<Rightarrow> (d, Inl ''sync is not configured'')
     | Some c \<Rightarrow>
         if sc_url c = [] \<or> sc_token c = [] then (d, Inl ''sync is not configured'')
         else case prepare_batch inst e batch_size now d of
             Inl err \<Rightarrow> (d, Inl err)
           | Inr (d1, t) \<Rightarrow> (case send_batch payload post e now t d1 of
                 Inl err \<Rightarrow> (d1, Inl err)
               | Inr d2 \<Rightarrow> (d2, Inr ())))"

definition configured :: "string \<Rightarrow> odb \<Rightarrow> bool" where
  "configured e d \<longleftrightarrow> (\<exists>c. find_sync e d = Some c \<and> sc_url c \<noteq> [] \<and> sc_token c \<noteq> [])"

definition answers :: "batch \<Rightarrow> answer \<Rightarrow> bool" where
  "answers t a \<longleftrightarrow> an_batch a = bt_id t \<and> an_instance a = bt_instance t \<and>
     map (\<lambda>x. (ak_observation x, ak_sequence x)) (an_items a) = map (\<lambda>l. (ob_id l, ob_sequence l)) (bt_items t) \<and>
     list_all (\<lambda>x. known_status (ak_status x)) (an_items a) \<and>
     an_through a = (if list_ex (\<lambda>x. ak_status x = ''rejected'') (an_items a) then None else Some (bt_last t))"

definition site_confirms :: "(batch option \<Rightarrow> answer option res) \<Rightarrow> bool" where
  "site_confirms post \<longleftrightarrow> (\<exists>x. post None = Inr x) \<and> (\<forall>t. \<exists>a. post (Some t) = Inr (Some a) \<and> answers t a)"

lemma batch_rows_unconfirmed:
  assumes "outbox_ok g d" and "prepared g e d t"
  shows "batch_rows (bt_id t) d = unconfirmed e d"
proof -
  obtain r0 where r0: "r0 \<in> set (unconfirmed e d)" using assms(2) by (cases "unconfirmed e d") (auto simp: prepared_def)
  have "ox_batch r0 = Some (bt_id t)" using assms(2) r0 by (simp add: prepared_def)
  then show ?thesis unfolding batch_rows_def by (rule unconfirmed_batch(4) [OF assms(1) r0])
qed

lemma answers_cover:
  assumes "outbox_ok g d" and "prepared g e d t" and "answers t a"
  shows "covers (batch_rows (bt_id t) d) (an_items a)"
proof -
  let ?u = "unconfirmed e d"
  have own: "own_row g d r" if "r \<in> set ?u" for r using that assms(1) in_unconfirmed [OF assms(1)] by (auto simp: outbox_ok_def)
  have item: "ob_id (item_of d r) = ox_observation r" "ob_sequence (item_of d r) = ox_sequence r" if "r \<in> set ?u" for r
    by (rule own_row_item [OF own [OF that]], simp)+
  have pairs: "map (\<lambda>x. (ak_observation x, ak_sequence x)) (an_items a) = map (\<lambda>r. (ox_observation r, ox_sequence r)) ?u"
    using assms(2,3) item by (simp add: answers_def prepared_def cong: map_cong)
  have "map ak_sequence (an_items a) = map snd (map (\<lambda>x. (ak_observation x, ak_sequence x)) (an_items a))"
    by (simp add: comp_def)
  also have "\<dots> = map ox_sequence ?u" unfolding pairs by (simp add: comp_def)
  finally have seqs: "map ak_sequence (an_items a) = map ox_sequence ?u" .
  have "distinct (map ox_sequence ?u)" using batch_rows_distinct [OF assms(1)] batch_rows_unconfirmed [OF assms(1,2)] by metis
  moreover have "\<exists>r \<in> set ?u. ox_sequence r = ak_sequence x \<and> ox_observation r = ak_observation x" if "x \<in> set (an_items a)" for x
  proof -
    have "(ak_observation x, ak_sequence x) \<in> set (map (\<lambda>r. (ox_observation r, ox_sequence r)) ?u)"
      using that pairs by (metis (mono_tags, lifting) imageI list.set_map)
    then show ?thesis by auto
  qed
  moreover have "length (an_items a) = length ?u" using pairs by (metis length_map)
  moreover have "?u \<noteq> []" using assms(2) by (simp add: prepared_def)
  ultimately show ?thesis
    using assms(3) seqs unfolding batch_rows_unconfirmed [OF assms(1,2)]
    by (simp add: covers_def answers_def list_all_iff)
qed

lemma answer_row_fields [simp]:
  "ox_observation (answer_row b now as r) = ox_observation r" "ox_sequence (answer_row b now as r) = ox_sequence r"
  "ox_batch (answer_row b now as r) = ox_batch r"
  by (simp_all add: answer_row_def answered_def refuse_def acknowledge_def split: option.split)

lemma answer_row_settled:
  assumes "covers rows as" and "distinct (map ox_sequence rows)" and "r \<in> set rows" and "ox_batch r = Some b" and "ox_state r = Ox_Sent"
  shows "\<not> open_row (answer_row b now as r)"
proof -
  have "ox_sequence r \<in> set (map ak_sequence as)" using covers_rows [OF assms(1,2)] assms(3) by simp
  then have "List.find (\<lambda>a. ak_sequence a = ox_sequence r) as \<noteq> None" by (auto simp: find_None_iff)
  then show ?thesis
    using assms(4,5) by (auto simp: answer_row_def answered_def open_row_def refuse_def acknowledge_def split: if_splits)
qed

lemma answer_row_other: "ox_batch r \<noteq> Some b \<Longrightarrow> answer_row b now as r = r"
  by (simp add: answer_row_def)

lemma open_answer_row: "open_row (answer_row b now as r) \<Longrightarrow> open_row r"
  by (auto simp: answer_row_def open_row_def split: if_splits)

lemma log_event_only_logs: "od_logs d' = od_logs d \<Longrightarrow> log_event d' r = log_event d r"
  by (simp add: log_event_def find_log_def)

lemma length_filter_less_map:
  assumes "\<And>x. x \<in> set xs \<Longrightarrow> p (f x) \<Longrightarrow> q x" and "y \<in> set xs" and "q y" and "\<not> p (f y)"
  shows "length (filter p (map f xs)) < length (filter q xs)"
proof -
  have le: "length (filter p (map f ys)) \<le> length (filter q ys)" if "set ys \<subseteq> set xs" for ys
    using that assms(1) by (induction ys) (auto intro: le_SucI)
  obtain as bs where xs: "xs = as @ y # bs" using assms(2) by (meson split_list)
  have "length (filter p (map f as)) \<le> length (filter q as)" "length (filter p (map f bs)) \<le> length (filter q bs)"
    using xs by (intro le, fastforce)+
  then show ?thesis using assms(3,4) by (simp add: xs)
qed

lemma answer_counts_down:
  assumes "outbox_ok g d" and "prepared g e d t" and "answers t a"
  shows "apply_answer t (Some a) now d = Inr (d\<lparr> od_outbox := map (answer_row (bt_id t) now (an_items a)) (od_outbox d) \<rparr>)"
    and "pending_count e (d\<lparr> od_outbox := map (answer_row (bt_id t) now (an_items a)) (od_outbox d) \<rparr>) < pending_count e d"
proof -
  let ?f = "answer_row (bt_id t) now (an_items a)"
  let ?d = "d\<lparr> od_outbox := map ?f (od_outbox d) \<rparr>"
  have cov: "covers (batch_rows (bt_id t) d) (an_items a)" by (rule answers_cover [OF assms])
  have ack: "apply_ack (bt_id t) (an_items a) now d = Inr ?d" by (rule apply_ack_covers [OF assms(1) cov])
  then show "apply_answer t (Some a) now d = Inr ?d"
    using assms(3) by (simp add: apply_answer_def answers_def)
  have ok: "outbox_ok g ?d" using apply_ack_ok [OF ack assms(1)] by simp
  obtain r0 where r0: "r0 \<in> set (unconfirmed e d)" using assms(2) by (cases "unconfirmed e d") (auto simp: prepared_def)
  then have row: "r0 \<in> set (od_outbox d)" "log_event d r0 = Some e" "ox_state r0 = Ox_Sent"
    by (simp_all add: in_unconfirmed [OF assms(1)])
  have "ox_batch r0 = Some (bt_id t)" using assms(2) r0 by (simp add: prepared_def)
  moreover have "r0 \<in> set (batch_rows (bt_id t) d)" using r0 batch_rows_unconfirmed [OF assms(1,2)] by simp
  ultimately have settled: "\<not> open_row (?f r0)"
    using answer_row_settled [OF cov batch_rows_distinct [OF assms(1)]] row(3) by blast
  have ev: "log_event ?d (?f r) = log_event d r" for r using log_event_row [of "?f r" r d] by simp
  have "length (filter (\<lambda>r. log_event ?d r = Some e \<and> open_row r) (map ?f (od_outbox d))) <
      length (filter (\<lambda>r. log_event d r = Some e \<and> open_row r) (od_outbox d))"
  proof (rule length_filter_less_map)
    show "log_event ?d (?f r) = Some e \<and> open_row (?f r) \<Longrightarrow> log_event d r = Some e \<and> open_row r" for r
      using ev open_answer_row by metis
    show "log_event d r0 = Some e \<and> open_row r0" using row by (simp add: open_row_def)
    show "\<not> (log_event ?d (?f r0) = Some e \<and> open_row (?f r0))" using settled by blast
  qed (rule row(1))
  then show "pending_count e ?d < pending_count e d"
    by (simp add: pending_count_rows [OF assms(1)] pending_count_rows [OF ok])
qed

lemma find_sync_upsert:
  "(\<And>r. sc_event (f r) = sc_event r) \<Longrightarrow> find_sync e (upsert_sync e f d) =
    Some (f (case find_sync e d of None \<Rightarrow> new_sync e | Some r \<Rightarrow> r))"
proof -
  assume ev: "\<And>r. sc_event (f r) = sc_event r"
  have 1: "List.find (\<lambda>r. sc_event r = e) (update_where (\<lambda>r. sc_event r = e) f rows) =
      map_option f (List.find (\<lambda>r. sc_event r = e) rows)" for rows
    by (induction rows) (auto simp: update_where_def ev)
  have 2: "\<not> list_ex (\<lambda>r. sc_event r = e) rows \<Longrightarrow> List.find (\<lambda>r. sc_event r = e) (rows @ [f (new_sync e)]) = Some (f (new_sync e))"
    and 3: "\<not> list_ex (\<lambda>r. sc_event r = e) rows \<longleftrightarrow> List.find (\<lambda>r. sc_event r = e) rows = None" for rows
    by (induction rows) (auto simp: ev new_sync_def)
  show ?thesis
    using 2 [of "od_config d"] 3 [of "od_config d"]
    by (cases "list_ex (\<lambda>r. sc_event r = e) (od_config d)") (auto simp: upsert_sync_def find_sync_def 1)
qed

lemma configured_result [simp]: "configured e d \<Longrightarrow> configured e (set_sync_result e now h d)"
  by (auto simp: configured_def set_sync_result_def find_sync_upsert)

lemma prepare_keeps_config: "prepare_batch inst e limit now d = Inr (d', t) \<Longrightarrow> od_config d' = od_config d"
  by (erule prepare_batch_rows) simp_all

lemma find_sync_config: "od_config d' = od_config d \<Longrightarrow> find_sync e d' = find_sync e d"
  by (simp add: find_sync_def)

lemma pending_count_config:
  assumes "od_logs d' = od_logs d" and "od_outbox d' = od_outbox d"
  shows "pending_count e d' = pending_count e d"
  using log_event_only_logs [OF assms(1)] by (simp add: pending_count_def outbox_rows_def assms(2))

lemma set_sync_result_rest [simp]:
  "od_logs (set_sync_result e now h d) = od_logs d" "od_outbox (set_sync_result e now h d) = od_outbox d"
  by (simp_all add: set_sync_result_def)

text \<open>Every push is a run of the step relation.\<close>

lemma push_observations_steps:
  "(sync_step cx)\<^sup>*\<^sup>* (g, d) (g, fst (push_observations payload post (og_instance g) e now d))"
proof -
  have prep: "sync_step cx (g, d) (g, d1)" if "prepare_batch (og_instance g) e batch_size now d = Inr (d1, t)" for d1 t
    using desk_step.prepare [OF that] by (rule sync_step.desk)
  have ans: "sync_step cx (g, d1) (g, d2)" if "apply_answer t a now d1 = Inr d2" for t a d1 d2
    using that by (auto simp: apply_answer_def split: option.splits if_splits intro: sync_step.answer)
  have res: "sync_step cx (g, d2) (g, set_sync_result e now h d2)" for d2 h
    unfolding set_sync_result_def by (rule sync_step.desk, rule desk_step.configure, rule refl)
  have send: "(sync_step cx)\<^sup>*\<^sup>* (g, d1) (g, d2)" if "send_batch payload post e now t d1 = Inr d2" for d1 d2 t
  proof (cases t)
    case None
    then have "\<exists>h. d2 = set_sync_result e now h d1" using that by (auto simp: send_batch_def res_simps)
    then obtain h where "d2 = set_sync_result e now h d1" ..
    then show ?thesis using res [of d1 h] by (simp add: r_into_rtranclp)
  next
    case (Some b)
    then have "\<exists>a h d3. apply_answer b a now d1 = Inr d3 \<and> d2 = set_sync_result e now h d3"
      using that by (auto simp: send_batch_def res_simps)
    then obtain a h d3 where "apply_answer b a now d1 = Inr d3" "d2 = set_sync_result e now h d3" by blast
    then show ?thesis using ans [of b a d1 d3] res [of d3 h] by (metis converse_rtranclp_into_rtranclp r_into_rtranclp)
  qed
  show ?thesis
  proof (cases "prepare_batch (og_instance g) e batch_size now d")
    case (Inl err)
    then show ?thesis by (auto simp: push_observations_def split: option.split)
  next
    case (Inr x)
    then obtain d1 t where x: "prepare_batch (og_instance g) e batch_size now d = Inr (d1, t)" by (cases x) auto
    have "(sync_step cx)\<^sup>*\<^sup>* (g, d1) (g, fst (case send_batch payload post e now t d1 of Inl err \<Rightarrow> (d1, Inl err) | Inr d2 \<Rightarrow> (d2, Inr ())))"
      using send [of t d1] by (auto split: sum.split)
    then show ?thesis using x prep [OF x]
      by (auto simp: push_observations_def split: option.split intro: converse_rtranclp_into_rtranclp)
  qed
qed

lemma push_counts_down:
  assumes "sync_ok (g, d)" and "configured e d" and "site_confirms post" and "\<forall>d t. \<exists>h. payload d t = Inr h"
    and "push_observations payload post (og_instance g) e now d = (d', r)"
  shows "r = Inr () \<and> configured e d' \<and> (pending_count e d = 0 \<and> pending_count e d' = 0 \<or> pending_count e d' < pending_count e d)"
proof -
  obtain c where c: "find_sync e d = Some c" "sc_url c \<noteq> []" "sc_token c \<noteq> []" using assms(2) by (auto simp: configured_def)
  have ok: "outbox_ok g d" using assms(1) by (simp add: sync_ok_def)
  obtain d1 t where p: "prepare_batch (og_instance g) e batch_size now d = Inr (d1, t)" "outbox_ok g d1"
    "pending_count e d1 = pending_count e d" "case t of None \<Rightarrow> pending_count e d = 0 | Some x \<Rightarrow> prepared g e d1 x"
    using prepare_answers [OF ok, of batch_size e now] by (auto simp: batch_size_def)
  have conf: "configured e d1" using assms(2) find_sync_config [OF prepare_keeps_config [OF p(1)]] by (simp add: configured_def)
  obtain h where h: "payload d1 t = Inr h" using assms(4) by blast
  show ?thesis
  proof (cases t)
    case None
    obtain x where "post None = Inr x" using assms(3) by (auto simp: site_confirms_def)
    then have "send_batch payload post e now t d1 = Inr (set_sync_result e now h d1)"
      using None h by (simp add: send_batch_def)
    then have "d' = set_sync_result e now h d1" "r = Inr ()" using assms(5) c p(1) by (auto simp: push_observations_def)
    moreover have "pending_count e (set_sync_result e now h d1) = pending_count e d1" by (rule pending_count_config) simp_all
    ultimately show ?thesis using p(3,4) None conf by simp
  next
    case (Some b)
    obtain a where a: "post (Some b) = Inr (Some a)" "answers b a" using assms(3) by (auto simp: site_confirms_def)
    let ?d = "d1\<lparr> od_outbox := map (answer_row (bt_id b) now (an_items a)) (od_outbox d1) \<rparr>"
    have b: "prepared g e d1 b" using p(4) Some by simp
    have "send_batch payload post e now t d1 = Inr (set_sync_result e now h ?d)"
      using Some h a answer_counts_down(1) [OF p(2) b a(2)] by (simp add: send_batch_def)
    then have "d' = set_sync_result e now h ?d" "r = Inr ()" using assms(5) c p(1) by (auto simp: push_observations_def)
    moreover have "pending_count e (set_sync_result e now h ?d) = pending_count e ?d" by (rule pending_count_config) simp_all
    moreover have "configured e ?d" using conf find_sync_config [of ?d d1] by (simp add: configured_def)
    ultimately show ?thesis using answer_counts_down(2) [OF p(2) b a(2), of now] p(3) by simp
  qed
qed

primrec pushes :: "nat \<Rightarrow> (odb \<Rightarrow> odb) \<Rightarrow> odb \<Rightarrow> odb" where
  "pushes 0 f d = d"
| "pushes (Suc n) f d = pushes n f (f d)"

lemma pushes_empty:
  assumes "sync_ok (g, d)" and "configured e d" and "site_confirms post" and "\<forall>d t. \<exists>h. payload d t = Inr h"
    and "pending_count e d \<le> n"
  shows "pending_count e (pushes n (\<lambda>d. fst (push_observations payload post (og_instance g) e now d)) d) = 0"
  using assms
proof (induction n arbitrary: d)
  case 0
  then show ?case by simp
next
  case (Suc n)
  obtain d' r where push: "push_observations payload post (og_instance g) e now d = (d', r)" by (meson surj_pair)
  have "(sync_step undefined)\<^sup>*\<^sup>* (g, d) (g, d')" using push_observations_steps [of undefined g d payload post e now] push by simp
  then have "sync_ok (g, d')" using Suc.prems(1) by (rule sync.inv_steps)
  moreover have "configured e d'" "pending_count e d' \<le> n"
    using push_counts_down [OF Suc.prems(1-4) push] Suc.prems(5) by auto
  ultimately show ?case using Suc.IH [of d'] Suc.prems(3,4) push by simp
qed

subsection \<open>Properties\<close>

text \<open>
  C28.  A reading is never changed and never lost: whatever a Desk does with its observation tables, every
  stored reading keeps its id, event, status, number, time, antenna, EPC, signal and board, and the origin it
  already knows; every outbox row keeps its sequence, its reading and the batch it was sent in, and a row the site
  has settled never changes again.
\<close>

theorem observations_are_immutable:
  assumes "(sync_step cx)\<^sup>*\<^sup>* (g, empty_odb es) s" and "og_instance g \<noteq> []" and "(sync_step cx)\<^sup>*\<^sup>* s t"
  shows "logs_grow (snd s) (snd t) \<and> outbox_grows (snd s) (snd t)"
  using sync.le_steps [OF assms(3) sync.inv_steps [OF assms(1) empty_odb_ok [OF assms(2)]]]
  by (simp add: sync_grows_def)

text \<open>
  The outbox numbers the readings of this installation: the sequences of the rows climb, none exceeds the
  counter of the installation, no reading has two rows, and each row's reading is stored with exactly that
  sequence and this installation as its origin, so that an imported reading is never sent as an own one.
\<close>

theorem outbox_numbers_own_readings:
  assumes "(sync_step cx)\<^sup>*\<^sup>* (g0, empty_odb es) (g, d)" and "og_instance g0 \<noteq> []"
  shows "sorted_wrt (<) (map ox_sequence (od_outbox d)) \<and> distinct (map ox_observation (od_outbox d)) \<and>
    (\<forall>r \<in> set (od_outbox d). 0 < ox_sequence r \<and> ox_sequence r \<le> og_last g \<and>
       (\<exists>l. find_log (ox_observation r) d = Some l \<and> ob_instance l = og_instance g \<and> ob_sequence l = ox_sequence r))"
proof -
  have "outbox_ok g d" using sync.inv_steps [OF assms(1) empty_odb_ok [OF assms(2)]] by (simp add: sync_ok_def)
  then show ?thesis by (auto simp: outbox_ok_def own_row_def)
qed

text \<open>
  C29.  A batch is sent again unchanged until it is confirmed: once a batch was prepared, whatever the Desk captures,
  imports, pulls, prepares or configures meanwhile, preparing again succeeds and hands out the same batch id with
  the same readings in the same order; only their disabled mark may differ.
\<close>

theorem unconfirmed_batch_is_resent:
  assumes "(sync_step cx)\<^sup>*\<^sup>* (g0, empty_odb es) (g, d)" and "og_instance g0 \<noteq> []"
    and "prepare_batch (og_instance g) e limit now d = Inr (d1, Some t)"
    and "(desk_step cx)\<^sup>*\<^sup>* (g, d1) (g2, d2)" and "0 < limit'" and "limit' \<le> 20000"
  shows "\<exists>d3 t'. prepare_batch (og_instance g2) e limit' now' d2 = Inr (d3, Some t') \<and>
    bt_id t' = bt_id t \<and> map frozen (bt_items t') = map frozen (bt_items t)"
proof -
  have ok: "sync_ok (g, d)" by (rule sync.inv_steps [OF assms(1) empty_odb_ok [OF assms(2)]])
  then have d: "outbox_ok g d" by (simp add: sync_ok_def)
  have lim: "0 < limit" "limit \<le> 20000" using assms(3) by (auto simp: prepare_batch_def split: if_splits)
  have d1: "outbox_ok g d1" "prepared g e d1 t" using prepare_answers [OF d lim, of e now] assms(3) by auto
  have ok1: "sync_ok (g, d1)" using ok d1(1) by (simp add: sync_ok_def)
  have ne: "unconfirmed e (snd (g, d1)) \<noteq> []" using d1(2) by (simp add: prepared_def)
  from desk_steps_keep_unconfirmed [OF assms(4) ok1 ne]
  have d2: "outbox_ok g2 d2" "logs_grow d1 d2" "map row_key (unconfirmed e d2) = map row_key (unconfirmed e d1)"
    by (simp_all add: sync_ok_def)
  obtain d3 t' where d3: "prepare_batch (og_instance g2) e limit' now' d2 = Inr (d3, t')" "outbox_ok g2 d3"
    "pending_count e d3 = pending_count e d2"
    "case t' of None \<Rightarrow> pending_count e d2 = 0 | Some x \<Rightarrow> prepared g2 e d3 x"
    using prepare_answers [OF d2(1) assms(5,6)] by blast
  have ne2: "unconfirmed e d2 \<noteq> []" using d2(3) ne by (metis map_is_Nil_conv snd_conv)
  then obtain r where r: "r \<in> set (unconfirmed e d2)" by (cases "unconfirmed e d2") auto
  then have "r \<in> set (filter (\<lambda>r. log_event d2 r = Some e \<and> open_row r) (od_outbox d2))"
    using in_unconfirmed [OF d2(1)] by (simp add: open_row_def)
  then have "pending_count e d2 \<noteq> 0" unfolding pending_count_rows [OF d2(1)] by (metis length_0_conv empty_iff empty_set)
  then obtain x where x: "t' = Some x" using d3(4) by (cases t') auto
  have same: "map row_key (unconfirmed e d3) = map row_key (unconfirmed e d1)"
    using prepare_keeps_unconfirmed [OF d3(1) d2(1) ne2] d2(3) by simp
  have grow: "logs_grow d1 d3"
    using d2(2) logs_grow_same [of d3 d2] prepare_batch_ok [OF d3(1) d2(1)] logs_grow_trans by blast
  have "prepared g2 e d3 x" using d3(4) x by simp
  from same_batch_again [OF d1(2) this d1(1) grow same] show ?thesis using d3(1) x by blast
qed

text \<open>
  C30.  An acknowledgement is applied whole or not at all: when every item of the answer names an observation, it
  succeeds exactly when it covers the sent batch with one known status per row, and then settles each row of the
  batch by its own item and no other row; anything else is an error, which leaves the batch sent.
\<close>

theorem ack_settles_exactly:
  assumes "(sync_step cx)\<^sup>*\<^sup>* (g0, empty_odb es) (g, d)" and "og_instance g0 \<noteq> []"
    and "\<forall>a \<in> set as. ak_observation a \<noteq> []"
  shows "if covers (batch_rows b d) as
    then apply_ack b as now d = Inr (d\<lparr> od_outbox := map (answer_row b now as) (od_outbox d) \<rparr>)
    else \<exists>err. apply_ack b as now d = Inl err"
proof -
  have "outbox_ok g d" using sync.inv_steps [OF assms(1) empty_odb_ok [OF assms(2)]] by (simp add: sync_ok_def)
  then show ?thesis using apply_ack_covers apply_ack_not_covered assms(3) by metis
qed

text \<open>
  C31.  Pushing empties the outbox: when the sync is configured, the payload can be built and the site answers
  every batch item by item, then as many pushes as the event has unconfirmed readings leave none of them.
\<close>

theorem pushes_empty_the_outbox:
  assumes "(sync_step cx)\<^sup>*\<^sup>* (g0, empty_odb es) (g, d)" and "og_instance g0 \<noteq> []"
    and "configured e d" and "site_confirms post" and "\<forall>d t. \<exists>h. payload d t = Inr h" and "pending_count e d \<le> n"
  shows "pending_count e (pushes n (\<lambda>d. fst (push_observations payload post (og_instance g) e now d)) d) = 0"
  using sync.inv_steps [OF assms(1) empty_odb_ok [OF assms(2)]] assms(3-6) by (rule pushes_empty)

text \<open>
  A throttled request is tried at most four times, waiting at most three times and never for a negative
  time; what it answers is the last response, a failure of the last attempt, or the cancellation of the wait.
\<close>

lemma retry_delay_nonneg: "0 \<le> retry_delay until v"
  by (auto simp: retry_delay_def Let_def split: option.split)

lemma round_trip_bounded:
  assumes "attempt \<le> 3" and "length delays = attempt" and "\<forall>x \<in> set delays. 0 \<le> x"
    and "round_trip base wait until again attempt delays = (n, ds, r)"
  shows "attempt < n \<and> n \<le> 4 \<and> length ds \<le> 3 \<and> (\<forall>x \<in> set ds. 0 \<le> x) \<and>
    (r = base (n - 1) \<or> (\<exists>err. r = Inl err \<and> wait (n - 1) = Inl err))"
  using assms
proof (induction base wait until again attempt delays rule: round_trip.induct)
  case (1 base wait until again attempt delays)
  show ?case
  proof (cases "\<exists>resp. base attempt = Inr resp \<and> rp_status resp = 429 \<and> attempt < 3 \<and> again \<and> wait attempt = Inr ()")
    case True
    then obtain resp where resp: "base attempt = Inr resp" "rp_status resp = 429" "attempt < 3" "again" "wait attempt = Inr ()"
      by blast
    have "round_trip base wait until again attempt delays =
        round_trip base wait until again (attempt + 1) (delays @ [retry_delay until (rp_retry resp)])"
      using resp(3) by (subst round_trip.simps) (simp add: resp(1,2,4,5) Let_def)
    then have "round_trip base wait until again (attempt + 1) (delays @ [retry_delay until (rp_retry resp)]) = (n, ds, r)"
      using "1.prems"(4) by simp
    then have "attempt + 1 < n \<and> n \<le> 4 \<and> length ds \<le> 3 \<and> (\<forall>x \<in> set ds. 0 \<le> x) \<and>
        (r = base (n - 1) \<or> (\<exists>err. r = Inl err \<and> wait (n - 1) = Inl err))"
      using resp "1.prems"(2,3) by (intro "1.IH" [OF resp(1) _ refl resp(5)]) (auto simp: retry_delay_nonneg)
    then show ?thesis by simp
  next
    case False
    then show ?thesis using "1.prems"
      by (auto simp: round_trip.simps [of base wait until again attempt] Let_def retry_delay_nonneg split: sum.splits if_splits)
  qed
qed

theorem retries_are_bounded:
  "case round_trip base wait until again 0 [] of (n, delays, r) \<Rightarrow>
     0 < n \<and> n \<le> 4 \<and> length delays \<le> 3 \<and> (\<forall>x \<in> set delays. 0 \<le> x) \<and>
     (r = base (n - 1) \<or> (\<exists>err. r = Inl err \<and> wait (n - 1) = Inl err))"
proof -
  obtain n ds r where rt: "round_trip base wait until again 0 [] = (n, ds, r)" by (meson prod_cases3)
  show ?thesis using round_trip_bounded [OF _ _ _ rt] rt by simp
qed

end
