(* ===== verification/ObservationFollow.thy ===== *)
theory ObservationFollow
  imports ObservationSync
begin

section \<open>Following the change feed of the site\<close>

text \<open>
  What \<^verbatim>\<open>PullEventChanges\<close> promises when the site or the network fails in the middle of a pull, and that
  a change a pull has committed always leaves the recount of the event due.
\<close>

definition reached :: "string \<Rightarrow> odb \<Rightarrow> string" where
  "reached e d = (case pull_cursor e d of None \<Rightarrow> [] | Some c \<Rightarrow> c)"

lemma advance_cursor_sync:
  "find_sync e (advance_cursor e c now b d) = Some ((case find_sync e d of None \<Rightarrow> new_sync e | Some r \<Rightarrow> r)
    \<lparr> sc_cursor := Some c, sc_pulled := Some now,
      sc_pending := max (sc_pending (case find_sync e d of None \<Rightarrow> new_sync e | Some r \<Rightarrow> r)) (if b then 1 else 0) \<rparr>)"
  unfolding advance_cursor_def by (subst find_sync_upsert) (simp_all add: max_def)

lemma reached_advance [simp]: "reached e (advance_cursor e c now b d) = c"
  by (simp add: reached_def pull_cursor_def advance_cursor_sync)

lemma apply_feed_page_reached: "apply_feed_page cx e ls c now d = Inr (d', ms) \<Longrightarrow> reached e d' = c"
  by (erule apply_feed_page_logs) simp

text \<open>A page does not depend on what was counted so far.\<close>

lemma pull_page_cases:
  obtains (failed) err where "\<And>s. pull_page cx site e now after d s = Failed err"
  | (finished) d' where "\<And>s. \<exists>s'. pull_page cx site e now after d s = Finished d' s'"
  | (continue) d' c where "\<And>s. \<exists>s'. pull_page cx site e now after d s = Continue d' s' c" "reached e d' = c"
proof -
  let ?x = "bind_res (bind_res (site after) check_answer) (\<lambda>p. bind_res (map_res (feed_item cx) (fa_items p)) (\<lambda>ls. Inr (p, ls)))"
  show ?thesis
  proof (cases ?x)
    case (Inl err)
    then show ?thesis by (intro failed) (simp add: pull_page_def)
  next
    case (Inr y)
    obtain p ls where y: "y = (p, ls)" by (cases y)
    consider (stuck) "fa_more p \<and> (ls = [] \<or> fa_next p = after)"
      | (quiet) "\<not> (fa_more p \<and> (ls = [] \<or> fa_next p = after))" "ls = [] \<and> fa_next p = after"
      | (page) "\<not> (fa_more p \<and> (ls = [] \<or> fa_next p = after))" "\<not> (ls = [] \<and> fa_next p = after)" by blast
    then show ?thesis
    proof cases
      case stuck
      then show ?thesis using Inr y by (intro failed) (auto simp: pull_page_def)
    next
      case quiet
      then show ?thesis using Inr y by (intro finished [of d]) (auto simp: pull_page_def)
    next
      case page
      show ?thesis
      proof (cases "apply_feed_page cx e ls (fa_next p) now d")
        case (Inl err)
        then show ?thesis using Inr y page by (intro failed [of err]) (auto simp: pull_page_def)
      next
        case (Inr z)
        obtain d' ms where z: "z = (d', ms)" by (cases z)
        show ?thesis
        proof (cases "fa_more p")
          case True
          then show ?thesis
            using \<open>?x = Inr y\<close> y page Inr z apply_feed_page_reached [of cx e ls "fa_next p" now d d' ms]
            by (intro continue [of d' "fa_next p"]) (auto simp: pull_page_def)
        next
          case False
          then show ?thesis using \<open>?x = Inr y\<close> y page Inr z by (intro finished [of d']) (auto simp: pull_page_def)
        qed
      qed
    qed
  qed
qed

lemma pull_page_site: "site' after = site after \<Longrightarrow> pull_page cx site' e now after d s = pull_page cx site e now after d s"
  by (simp add: pull_page_def)

text \<open>Only the counts depend on the counts, and a pull that ends does so with more pages allowed too.\<close>

lemma pull_pages_stats:
  assumes "pull_pages n cx site e now after d s = (D, Inr S)"
  shows "\<exists>S'. pull_pages n cx site e now after d s' = (D, Inr S')"
  using assms
proof (induction n arbitrary: after d s s')
  case 0
  then show ?case by simp
next
  case (Suc n)
  show ?case
  proof (cases rule: pull_page_cases [of cx site e now after d])
    case (failed err)
    then show ?thesis using Suc.prems by simp
  next
    case (finished d')
    obtain t t' where "pull_page cx site e now after d s = Finished d' t" "pull_page cx site e now after d s' = Finished d' t'"
      using finished by metis
    then show ?thesis using Suc.prems by simp
  next
    case (continue d' c)
    obtain t t' where "pull_page cx site e now after d s = Continue d' t c" "pull_page cx site e now after d s' = Continue d' t' c"
      using continue(1) by metis
    then show ?thesis using Suc.prems Suc.IH by simp
  qed
qed

lemma pull_pages_more:
  assumes "pull_pages n cx site e now after d s = (D, Inr S)" and "n \<le> m"
  shows "pull_pages m cx site e now after d s = (D, Inr S)"
  using assms
proof (induction n arbitrary: after d s m)
  case 0
  then show ?case by simp
next
  case (Suc n)
  obtain k where m: "m = Suc k" "n \<le> k" using Suc.prems(2) by (cases m) auto
  show ?case using Suc.prems(1) Suc.IH [OF _ m(2)] by (simp add: m(1) split: turn.splits)
qed

definition flaky :: "site \<Rightarrow> site \<Rightarrow> bool" where
  "flaky site' site \<longleftrightarrow> (\<forall>c. site' c = site c \<or> (\<exists>err. site' c = Inl err))"

lemma interrupted_pages:
  assumes "pull_pages n cx site e now (reached e d) d s = (D, Inr S)" and "flaky site' site"
    and "pull_pages n cx site' e now (reached e d) d s = (d', r)"
  shows "(r = Inr S \<and> d' = D) \<or> (\<exists>err S'. r = Inl err \<and> pull_pages n cx site e now (reached e d') d' s' = (D, Inr S'))"
  using assms
proof (induction n arbitrary: d s)
  case 0
  then show ?case by simp
next
  case (Suc n)
  consider (same) "site' (reached e d) = site (reached e d)" | (down) err where "site' (reached e d) = Inl err"
    using Suc.prems(2) unfolding flaky_def by blast
  then show ?case
  proof cases
    case down
    then have "d' = d" "r = Inl err" using Suc.prems(3) by (simp_all add: pull_page_def)
    then show ?thesis using pull_pages_stats [OF Suc.prems(1)] by blast
  next
    case same
    then have page: "pull_page cx site' e now (reached e d) d s = pull_page cx site e now (reached e d) d s" by (rule pull_page_site)
    show ?thesis
    proof (cases rule: pull_page_cases [of cx site e now "reached e d" d])
      case (failed err)
      then show ?thesis using Suc.prems(1) by simp
    next
      case (finished d1)
      obtain t where "pull_page cx site e now (reached e d) d s = Finished d1 t" using finished by metis
      then show ?thesis using Suc.prems(1,3) page by auto
    next
      case (continue d1 c)
      obtain t where t: "pull_page cx site e now (reached e d) d s = Continue d1 t c" using continue(1) by metis
      have 1: "pull_pages n cx site e now (reached e d1) d1 t = (D, Inr S)" using Suc.prems(1) t continue(2) by simp
      have 2: "pull_pages n cx site' e now (reached e d1) d1 t = (d', r)" using Suc.prems(3) t page continue(2) by simp
      from Suc.IH [OF 1 Suc.prems(2) 2] show ?thesis
      proof (elim disjE exE conjE)
        fix err S'
        assume "r = Inl err" "pull_pages n cx site e now (reached e d') d' s' = (D, Inr S')"
        then show ?thesis using pull_pages_more [of n _ _ _ _ _ _ _ _ _ "Suc n"] by (metis le_SucI order_refl)
      qed simp
    qed
  qed
qed

text \<open>
  C32.  A pull that breaks off is resumed, not repeated: if the change feed would bring the database to some state,
  and the site fails at any of the requests, then the pull either still reaches that state, or it reports the error
  and the next pull, started from the cursor it left behind, reaches exactly the same state.
\<close>

theorem interrupted_pull_resumes:
  assumes "pull_event cx (Inr vs) site e now d = (D, Inr S)" and "flaky site' site"
  shows "case pull_event cx (Inr vs) site' e now d of
      (d', Inr S') \<Rightarrow> d' = D \<and> S' = S
    | (d', Inl err) \<Rightarrow> \<exists>S'. pull_event cx (Inr vs) site e now d' = (D, Inr S')"
proof -
  have vs: "supports_schema vs change_feed_version" using assms(1) by (auto simp: pull_event_def split: if_splits)
  let ?s = "\<lambda>d. \<lparr> ps_pages = 0, ps_observations = 0, ps_inserted = 0, ps_duplicates = 0, ps_states = 0,
     ps_recovery = projection_pending e d, ps_mutations = [] \<rparr>"
  have run: "pull_event cx (Inr vs) st e now d = pull_pages page_limit cx st e now (reached e d) d (?s d)" for st d
    using vs by (simp add: pull_event_def reached_def)
  obtain d' r where dr: "pull_pages page_limit cx site' e now (reached e d) d (?s d) = (d', r)" by (meson surj_pair)
  from interrupted_pages [OF assms(1) [unfolded run] assms(2) dr, of "?s d'"] show ?thesis
    unfolding run dr by auto
qed

subsection \<open>A committed change leaves the recount due\<close>

text \<open>What a recount reads of a stored reading and an import can change.\<close>

definition projected :: "odb \<Rightarrow> (string \<times> int option) list" where
  "projected d = map (\<lambda>l. (ob_id l, ob_disabled l)) (od_logs d)"

definition recount_due :: "string \<Rightarrow> odb \<Rightarrow> bool" where
  "recount_due e d \<longleftrightarrow> (\<exists>r. find_sync e d = Some r \<and> 0 < sc_pending r)"

lemma recount_due_pending: "recount_due e d \<Longrightarrow> projection_pending e d"
  by (auto simp: recount_due_def projection_pending_def)

lemma write_import_projected:
  assumes "logs_ok d" and "a \<in> set (od_logs d)" and "ob_id m = ob_id a" and "ob_disabled m = ob_disabled a"
  shows "projected (write_import m d) = projected d"
proof -
  have "x = a" if "x \<in> set (od_logs d)" "ob_id x = ob_id a" for x
    using that assms(1,2) by (auto simp: logs_ok_def distinct_map inj_on_def)
  then show ?thesis using assms(3,4) by (auto simp: projected_def write_import_def update_where_def)
qed

lemma update_observation_projected:
  assumes "update_observation cx l a d = Inr (d', m, Mut_Duplicate)" and "logs_ok d" and "a \<in> set (od_logs d)"
  shows "projected d' = projected d"
proof -
  let ?m = "merge_origin cx a l\<lparr> ob_disabled := ob_disabled l \<rparr>"
  have "ob_disabled a = ob_disabled l" "d' = d \<or> d' = write_import ?m d"
    using assms(1) by (auto simp: update_observation_def Let_def res_simps split: if_splits)
  moreover have "projected (write_import ?m d) = projected d" if "ob_disabled a = ob_disabled l"
    using that merge_origin_keeps(3) [of cx a l] by (intro write_import_projected [OF assms(2,3)]) simp_all
  ultimately show ?thesis by auto
qed

lemma find_physical_stored:
  assumes "find_physical l d = Inr (Some a)"
  shows "a \<in> set (od_logs d)"
proof -
  obtain i where "find_log i d = Some a"
    using assms by (auto simp: find_physical_def Let_def split: if_splits list.splits)
  then show ?thesis using find_log_id by blast
qed

lemma import_duplicate_projected:
  assumes "import_observation cx l d = Inr (d', m, Mut_Duplicate)" and "logs_ok d"
  shows "projected d' = projected d"
proof -
  obtain found where found: "(case find_log (ob_id l) d of Some a \<Rightarrow> Inr (Some a) | None \<Rightarrow> find_physical l d) = Inr found"
    and join: "(case found of Some a \<Rightarrow> join_observation cx l a d
        | None \<Rightarrow> if ob_event l \<notin> set (od_events d) then Inl ''insert imported observation: FOREIGN KEY''
            else Inr (d\<lparr> od_logs := od_logs d @ [stored l] \<rparr>, l, Mut_Inserted)) = Inr (d', m, Mut_Duplicate)"
    using assms(1) by (auto simp: import_observation_def res_simps)
  obtain a where a: "found = Some a" using join by (cases found) (auto split: if_splits)
  have "a \<in> set (od_logs d)"
    using found a find_log_id find_physical_stored by (auto split: option.splits)
  moreover have "update_observation cx l a d = Inr (d', m, Mut_Duplicate)"
    using join a by (auto simp: join_observation_def Let_def res_simps split: if_splits)
  ultimately show ?thesis using update_observation_projected assms(2) by blast
qed

lemma import_items_projected:
  assumes "fold_res (import_item cx e) ls (d, ms) = Inr (d', ms')" and "logs_ok d" and "\<not> list_ex (\<lambda>m. snd m \<noteq> Mut_Duplicate) ms'"
  shows "projected d' = projected d \<and> (\<exists>new. ms' = ms @ new)"
  using assms
proof (induction ls arbitrary: d ms)
  case Nil
  then show ?case by simp
next
  case (Cons l ls)
  obtain y where y: "import_item cx e l (d, ms) = Inr y" "fold_res (import_item cx e) ls y = Inr (d', ms')"
    using Cons.prems(1) by (auto simp: res_simps)
  obtain d1 m where step: "import_observation cx l d = Inr (d1, m)" and "y = (d1, ms @ [m])"
    using y(1) by (auto simp: import_item_def res_simps split: if_splits)
  then have rest: "fold_res (import_item cx e) ls (d1, ms @ [m]) = Inr (d', ms')" using y(2) by simp
  have keep: "logs_ok d1" using import_keeps_ok [OF step Cons.prems(2)] by (simp add: import_keeps_def)
  obtain new where new: "projected d' = projected d1" "ms' = (ms @ [m]) @ new" using Cons.IH [OF rest keep Cons.prems(3)] by blast
  have "snd m = Mut_Duplicate" using Cons.prems(3) new(2) by auto
  then have "projected d1 = projected d"
    using import_duplicate_projected [of cx l d d1 "fst m"] step Cons.prems(2) by (cases m) simp
  then show ?case using new by simp
qed

lemma apply_feed_page_due:
  assumes "apply_feed_page cx e ls c now d = Inr (d', ms)" and "logs_ok d" and "projected d' \<noteq> projected d \<or> recount_due e d"
  shows "recount_due e d'"
proof -
  obtain d1 where d1: "fold_res (import_item cx e) ls (d, []) = Inr (d1, ms)"
    and d': "d' = advance_cursor e c now (list_ex (\<lambda>m. snd m \<noteq> Mut_Duplicate) ms) d1"
    by (rule apply_feed_page_logs [OF assms(1)])
  have "import_keeps d d1" by (rule import_items_keep [OF d1 assms(2)])
  then have conf: "find_sync e d1 = find_sync e d" by (intro find_sync_config) (simp add: import_keeps_def)
  have proj: "projected d' = projected d1" by (simp add: d' projected_def)
  show ?thesis
  proof (cases "list_ex (\<lambda>m. snd m \<noteq> Mut_Duplicate) ms")
    case True
    then show ?thesis by (simp add: d' recount_due_def advance_cursor_sync)
  next
    case False
    then have "projected d' = projected d" using import_items_projected [OF d1 assms(2) False] proj by simp
    then obtain r where "find_sync e d1 = Some r" "0 < sc_pending r" using assms(3) conf by (auto simp: recount_due_def)
    then show ?thesis by (simp add: d' recount_due_def advance_cursor_sync)
  qed
qed

lemma pull_page_applies:
  assumes "pull_page cx site e now after d s = t" and "t = Finished d' s' \<or> t = Continue d' s' c"
  shows "d' = d \<or> (\<exists>ls c ms. apply_feed_page cx e ls c now d = Inr (d', ms))"
  using assms by (auto simp: pull_page_def split: sum.splits prod.splits if_splits)

lemma pull_page_due:
  assumes "pull_page cx site e now after d s = t" and "t = Finished d' s' \<or> t = Continue d' s' c" and "logs_ok d"
  shows "logs_ok d' \<and> (projected d' \<noteq> projected d \<or> recount_due e d \<longrightarrow> recount_due e d')"
  using pull_page_applies [OF assms(1,2)] apply_feed_page_due [OF _ assms(3)] apply_feed_page_keeps [OF _ assms(3)] assms(3)
  by metis

lemma pull_pages_due:
  assumes "pull_pages n cx site e now after d s = (d', r)" and "logs_ok d"
  shows "projected d' \<noteq> projected d \<or> recount_due e d \<longrightarrow> recount_due e d'"
  using assms
proof (induction n arbitrary: after d s)
  case 0
  then show ?case by simp
next
  case (Suc n)
  show ?case
  proof (cases "pull_page cx site e now after d s")
    case (Failed err)
    then show ?thesis using Suc.prems(1) by simp
  next
    case (Finished d1 s1)
    then show ?thesis using Suc.prems(1) pull_page_due [OF Finished _ Suc.prems(2)] by auto
  next
    case (Continue d1 s1 c)
    then have 1: "logs_ok d1 \<and> (projected d1 \<noteq> projected d \<or> recount_due e d \<longrightarrow> recount_due e d1)"
      using pull_page_due [OF Continue _ Suc.prems(2)] by blast
    have "pull_pages n cx site e now c d1 s1 = (d', r)" using Suc.prems(1) Continue by simp
    from Suc.IH [OF this] show ?thesis using 1 by metis
  qed
qed

text \<open>
  No pulled change is forgotten: whether a pull succeeds or breaks off, when it has added a reading or
  changed the disabled mark of one, the event is marked as waiting for a recount, so that the next pull starts it.
\<close>

theorem pulled_changes_stay_due:
  assumes "(sync_step cx)\<^sup>*\<^sup>* (g0, empty_odb es) (g, d)" and "og_instance g0 \<noteq> []"
    and "pull_event cx versions site e now d = (d', r)" and "projected d' \<noteq> projected d"
  shows "projection_pending e d'"
proof -
  have ok: "logs_ok d" using sync.inv_steps [OF assms(1) empty_odb_ok [OF assms(2)]] by (simp add: sync_ok_def outbox_ok_def)
  have "\<exists>n after s. pull_pages n cx site e now after d s = (d', r)"
    using assms(3,4) by (auto simp: pull_event_def split: sum.splits if_splits)
  then have "recount_due e d'" using pull_pages_due [OF _ ok] assms(4) by blast
  then show ?thesis by (rule recount_due_pending)
qed

end
