(* ===== verification/ObservationWitnesses.thy ===== *)
theory ObservationWitnesses
  imports ObservationFollow
begin

section \<open>The observation sync on a small event\<close>

text \<open>
  A Desk that captured two readings of event 7 and configured the sync, the codec of a site that numbers its
  facts exactly, and the properties of the observation sync applied to it.
\<close>

definition sample_reading :: "string \<Rightarrow> int \<Rightarrow> observation" where
  "sample_reading i t = \<lparr> ob_id = i, ob_event = ''7'', ob_status = 1, ob_number = 12, ob_time = t, ob_ant = 1, ob_epc = ''e'',
     ob_rssi = - 40, ob_board = ''b'', ob_disabled = None, ob_version = 0, ob_source = ''reader'', ob_system = [],
     ob_instance = [], ob_sequence = 0, ob_edge = None \<rparr>"

definition sample_codec :: codec where
  "sample_codec = \<lparr> cx_valid = (\<lambda>_ _. True), cx_same = (=) \<rparr>"

definition sample_origin :: "int \<Rightarrow> origin" where
  "sample_origin n = \<lparr> og_instance = ''desk'', og_last = n \<rparr>"

definition sample_captured :: odb where
  "sample_captured = (empty_odb [''7''])\<lparr>
     od_logs := [claim_row ''desk'' ''reader'' 1 (sample_reading ''a'' 1000), claim_row ''desk'' ''reader'' 2 (sample_reading ''b'' 2000)],
     od_outbox := [pending_row 1 ''a'' 5, pending_row 2 ''b'' 5] \<rparr>"

definition sample_desk :: odb where
  "sample_desk = set_sync_config ''7'' ''https://site'' ''secret'' sample_captured"

lemma sample_blank:
  "\<not> blank ''desk''" "\<not> blank ''reader''" "\<not> blank ''x''" "\<not> blank ''y''" "\<not> blank ''7''" "\<not> blank ''b''"
  "\<not> blank ''c1''" "\<not> blank ''c2''"
  by (simp_all add: blank_def text_eval)

lemma sample_capture:
  "insert_owned 5 [sample_reading ''a'' 1000, sample_reading ''b'' 2000] (sample_origin 0) (empty_odb [''7'']) =
    (sample_origin 2, Inr sample_captured)"
  by (simp add: insert_owned_def insert_owned_row_def sample_origin_def sample_reading_def sample_captured_def empty_odb_def
      sample_blank find_log_def next_sequence_def journal_owned_def claim_row_def owned_row_def pending_row_def)

lemma sample_start: "og_instance (sample_origin 0) \<noteq> []"
  by (simp add: sample_origin_def)

lemma sample_desk_reached: "(sync_step cx)\<^sup>*\<^sup>* (sample_origin 0, empty_odb [''7'']) (sample_origin 2, sample_desk)"
proof -
  have "sync_step cx (sample_origin 0, empty_odb [''7'']) (sample_origin 2, sample_captured)"
    by (rule sync_step.desk, rule desk_step.capture, rule sample_capture)
  moreover have "sync_step cx (sample_origin 2, sample_captured) (sample_origin 2, sample_desk)"
    unfolding sample_desk_def set_sync_config_def by (rule sync_step.desk, rule desk_step.configure, rule refl)
  ultimately show ?thesis by (meson converse_rtranclp_into_rtranclp r_into_rtranclp)
qed

definition sample_sent :: odb where
  "sample_sent = sample_desk\<lparr> od_outbox :=
     [assign_batch ''desk:1-2'' 9 (pending_row 1 ''a'' 5), assign_batch ''desk:1-2'' 9 (pending_row 2 ''b'' 5)] \<rparr>"

definition sample_batch :: batch where
  "sample_batch = \<lparr> bt_id = ''desk:1-2'', bt_instance = ''desk'', bt_first = 1, bt_last = 2, bt_items = od_logs sample_captured \<rparr>"

lemma sample_prepare: "prepare_batch ''desk'' ''7'' 1000 9 sample_desk = Inr (sample_sent, Some sample_batch)"
  by code_simp

lemma sample_sent_reached: "(sync_step cx)\<^sup>*\<^sup>* (sample_origin 0, empty_odb [''7'']) (sample_origin 2, sample_sent)"
proof -
  have "prepare_batch (og_instance (sample_origin 2)) ''7'' 1000 9 sample_desk = Inr (sample_sent, Some sample_batch)"
    using sample_prepare by (simp add: sample_origin_def)
  then have "sync_step cx (sample_origin 2, sample_desk) (sample_origin 2, sample_sent)"
    by (intro sync_step.desk desk_step.prepare)
  then show ?thesis using sample_desk_reached by (meson rtranclp.rtrancl_into_rtrancl)
qed

theorem observations_are_immutable_witness:
  "logs_grow sample_desk sample_sent \<and> outbox_grows sample_desk sample_sent"
proof -
  have "(sync_step sample_codec)\<^sup>*\<^sup>* (sample_origin 2, sample_desk) (sample_origin 2, sample_sent)"
    using sync_step.desk [OF desk_step.prepare, of "sample_origin 2" "''7''" 1000 9 sample_desk sample_sent "Some sample_batch"]
      sample_prepare by (auto simp: sample_origin_def intro: r_into_rtranclp)
  from observations_are_immutable [OF sample_desk_reached sample_start this] show ?thesis by simp
qed

theorem outbox_numbers_own_readings_witness:
  "sorted_wrt (<) (map ox_sequence (od_outbox sample_desk)) \<and> od_outbox sample_desk \<noteq> []"
  using outbox_numbers_own_readings [OF sample_desk_reached sample_start]
  by (simp add: sample_desk_def set_sync_config_def sample_captured_def)

theorem unconfirmed_batch_is_resent_witness:
  "\<exists>d3 t'. prepare_batch ''desk'' ''7'' 1 20 sample_sent = Inr (d3, Some t') \<and> bt_id t' = ''desk:1-2'' \<and>
    map frozen (bt_items t') = map frozen (bt_items sample_batch)"
proof -
  have "prepare_batch (og_instance (sample_origin 2)) ''7'' 1000 9 sample_desk = Inr (sample_sent, Some sample_batch)"
    using sample_prepare by (simp add: sample_origin_def)
  from unconfirmed_batch_is_resent [OF sample_desk_reached sample_start this rtranclp.rtrancl_refl, where limit' = 1 and now' = 20]
  show ?thesis by (simp add: sample_origin_def sample_batch_def)
qed

definition sample_acks :: "ack list" where
  "sample_acks = [\<lparr> ak_observation = ''b'', ak_sequence = 2, ak_status = ''rejected'', ak_reason = ''unknown'' \<rparr>,
     \<lparr> ak_observation = ''a'', ak_sequence = 1, ak_status = ''inserted'', ak_reason = [] \<rparr>]"

lemma sample_covers: "covers (batch_rows ''desk:1-2'' sample_sent) sample_acks" "\<forall>a \<in> set sample_acks. ak_observation a \<noteq> []"
  by code_simp+

lemma sample_partial: "\<not> covers (batch_rows ''desk:1-2'' sample_sent) (take 1 sample_acks)"
  by code_simp

theorem ack_settles_exactly_witness:
  "apply_ack ''desk:1-2'' sample_acks 30 sample_sent =
    Inr (sample_sent\<lparr> od_outbox := map (answer_row ''desk:1-2'' 30 sample_acks) (od_outbox sample_sent) \<rparr>) \<and>
   (\<exists>err. apply_ack ''desk:1-2'' (take 1 sample_acks) 30 sample_sent = Inl err)"
  using ack_settles_exactly [OF sample_sent_reached [of sample_codec] sample_start sample_covers(2), of "''desk:1-2''" 30]
    ack_settles_exactly [OF sample_sent_reached [of sample_codec] sample_start, of "take 1 sample_acks" "''desk:1-2''" 30]
    sample_covers sample_partial in_set_takeD [of _ 1 sample_acks] by auto

definition sample_post :: "batch option \<Rightarrow> answer option res" where
  "sample_post t = (case t of None \<Rightarrow> Inr None | Some t \<Rightarrow> Inr (Some \<lparr> an_batch = bt_id t, an_instance = bt_instance t,
     an_through = Some (bt_last t), an_items = map (\<lambda>l. \<lparr> ak_observation = ob_id l, ak_sequence = ob_sequence l,
       ak_status = ''inserted'', ak_reason = [] \<rparr>) (bt_items t) \<rparr>))"

lemma sample_site: "site_confirms sample_post"
  by (auto simp: site_confirms_def sample_post_def answers_def known_status_def list_all_iff list_ex_iff)

lemma sample_configured: "configured ''7'' sample_desk" "pending_count ''7'' sample_desk \<le> 2"
proof -
  have "case find_sync ''7'' sample_desk of None \<Rightarrow> False | Some c \<Rightarrow> sc_url c \<noteq> [] \<and> sc_token c \<noteq> []" by code_simp
  then show "configured ''7'' sample_desk" by (simp add: configured_def split: option.splits)
  show "pending_count ''7'' sample_desk \<le> 2" by code_simp
qed

theorem pushes_empty_the_outbox_witness:
  "pending_count ''7'' (pushes 2 (\<lambda>d. fst (push_observations (\<lambda>_ _. Inr ''hash'') sample_post ''desk'' ''7'' 9 d)) sample_desk) = 0"
  using pushes_empty_the_outbox [OF sample_desk_reached [of sample_codec] sample_start sample_configured(1) sample_site _ sample_configured(2),
      of "\<lambda>_ _. Inr ''hash''" 9] by (simp add: sample_origin_def)

text \<open>
  Why the observation ids of an answer have to be there: an answer of the right length, one item of which names no
  observation and a sequence outside the batch, is taken for a complete one, and leaves a row sent.
\<close>

lemma partial_ack_accepted:
  "let as = [\<lparr> ak_observation = ''a'', ak_sequence = 1, ak_status = ''inserted'', ak_reason = [] \<rparr>,
             \<lparr> ak_observation = [], ak_sequence = 99, ak_status = ''inserted'', ak_reason = [] \<rparr>]
   in \<not> covers (batch_rows ''desk:1-2'' sample_sent) as \<and>
      (case apply_ack ''desk:1-2'' as 30 sample_sent of
         Inl _ \<Rightarrow> False | Inr d \<Rightarrow> map ox_state (od_outbox d) = [Ox_Acked, Ox_Sent])"
  by code_simp

subsection \<open>A feed of two pages\<close>

definition sample_item :: "string \<Rightarrow> int \<Rightarrow> string \<times> feed_observation" where
  "sample_item i t = (''observation_created'', \<lparr> fo_log = (sample_reading i t)\<lparr> ob_source := [] \<rparr>, fo_disabled = None \<rparr>)"

definition sample_feed :: site where
  "sample_feed c = (if c = [] then Inr \<lparr> fa_schema = 1, fa_items = [sample_item ''x'' 3000], fa_next = ''c1'', fa_more = True \<rparr>
     else if c = ''c1'' then Inr \<lparr> fa_schema = 1, fa_items = [sample_item ''y'' 4000], fa_next = ''c2'', fa_more = False \<rparr>
     else Inl ''no such page'')"

definition broken_feed :: site where
  "broken_feed c = (if c = ''c1'' then Inl ''timeout'' else sample_feed c)"

definition sample_pulled :: odb where
  "sample_pulled = fst (pull_event sample_codec (Inr [1]) broken_feed ''7'' 50 sample_desk)"

lemma pull_pages_numeral:
  "pull_pages (numeral k) cx site e now after d s =
    (case pull_page cx site e now after d s of
       Failed err \<Rightarrow> (d, Inl err)
     | Finished d' s' \<Rightarrow> (d', Inr s')
     | Continue d' s' next \<Rightarrow> pull_pages (pred_numeral k) cx site e now next d' s')"
  by (simp add: numeral_eq_Suc)

lemmas sample_eval = pull_event_def supports_schema_def change_feed_version_def page_limit_def pull_pages_numeral pull_page_def check_answer_def
  sample_blank feed_item_def feed_log_def sample_item_def sample_reading_def disabled_millis_def valid_edge_def apply_feed_page_def
  import_item_def import_observation_def find_log_def find_physical_def aliases_def Let_def sample_desk_def sample_captured_def
  set_sync_config_def upsert_sync_def empty_odb_def claim_row_def stored_def advance_cursor_def count_page_def pull_cursor_def
  find_sync_def new_sync_def projection_pending_def

lemma sample_broken:
  "pull_event sample_codec (Inr [1]) broken_feed ''7'' 50 sample_desk = (sample_pulled, Inl ''timeout'')"
proof -
  have "snd (pull_event sample_codec (Inr [1]) broken_feed ''7'' 50 sample_desk) = Inl ''timeout''"
    by (simp add: broken_feed_def sample_feed_def sample_eval)
  then show ?thesis by (simp add: sample_pulled_def prod_eq_iff)
qed

lemma sample_whole:
  obtains D S where "pull_event sample_codec (Inr [1]) sample_feed ''7'' 50 sample_desk = (D, Inr S)"
proof -
  have "case snd (pull_event sample_codec (Inr [1]) sample_feed ''7'' 50 sample_desk) of Inl _ \<Rightarrow> False | Inr _ \<Rightarrow> True"
    by (simp add: sample_feed_def sample_eval update_where_def)
  then show ?thesis
    using that by (cases "pull_event sample_codec (Inr [1]) sample_feed ''7'' 50 sample_desk") (auto split: sum.splits)
qed

theorem interrupted_pull_resumes_witness:
  "\<exists>D S S'. pull_event sample_codec (Inr [1]) sample_feed ''7'' 50 sample_desk = (D, Inr S) \<and>
     pull_event sample_codec (Inr [1]) sample_feed ''7'' 50 sample_pulled = (D, Inr S')"
proof -
  obtain D S where D: "pull_event sample_codec (Inr [1]) sample_feed ''7'' 50 sample_desk = (D, Inr S)" by (rule sample_whole)
  have "flaky broken_feed sample_feed" by (simp add: flaky_def broken_feed_def)
  from interrupted_pull_resumes [OF D this] show ?thesis using D by (simp add: sample_broken)
qed

theorem pulled_changes_stay_due_witness: "projection_pending ''7'' sample_pulled"
proof -
  have "projected sample_pulled \<noteq> projected sample_desk"
    by (simp add: sample_pulled_def broken_feed_def sample_feed_def sample_eval update_where_def projected_def)
  then show ?thesis by (rule pulled_changes_stay_due [OF sample_desk_reached [of sample_codec] sample_start sample_broken])
qed

end
