(* ===== verification/EdgeRelay.thy ===== *)
theory EdgeRelay
  imports ObservationPull GoLib "HOL-Library.Word"
begin

section \<open>Observations of edge readers and their relay\<close>

text \<open>
  \<^verbatim>\<open>infrastructure/sqlite/edge_store.go\<close> (who may send for an event, and the acceptance of an edge
  observation together with its journal row), \<^verbatim>\<open>edge_relay_store.go\<close> (the destination of the journal and the
  leases of its rows) and the sender of \<^verbatim>\<open>service/edge_relay.go\<close>.  The wire format of the shared module
  \<^verbatim>\<open>rfid-core\<close> is a parameter: how a packet is written and read, which tokens are valid, and the name of the
  RFID identity profile.  Paths are those of Unix.
\<close>

record packet =
  pk_id :: string
  pk_event :: int
  pk_status :: int
  pk_number :: int
  pk_time :: int
  pk_ant :: int
  pk_epc :: string
  pk_rssi :: int
  pk_board :: string
  pk_version :: int
  pk_source :: string
  pk_system :: string
  pk_instance :: string
  pk_sequence :: "64 word"
  pk_meta :: edge_meta

record edge_core =
  ec_codec :: codec
  ec_encode :: "packet \<Rightarrow> string res"
  ec_decode :: "string \<Rightarrow> packet res"
  ec_token :: "string \<Rightarrow> bool"
  ec_rfid :: string

record edge_row =
  er_sequence :: int
  er_observation :: string
  er_event :: string
  er_payload :: string
  er_state :: outbox_state
  er_created :: int
  er_acked :: "int option"
  er_rejection :: "string option"
  er_endpoint :: "string option"
  er_attempts :: int
  er_next :: int
  er_last :: "int option"
  er_token :: "string option"
  er_until :: int

record relay_config =
  rl_endpoint :: string
  rl_enabled :: bool
  rl_revision :: int
  rl_bundle :: string

type_synonym binding = "string \<times> string"

text \<open>The journal of local changes keeps the settings themselves instead of their JSON.\<close>

datatype edge_change =
    Bindings_Changed string "binding list" "binding list"
  | Relay_Changed string relay_config relay_config nat bool

record edge_db =
  ed_base :: odb
  ed_bindings :: "(string \<times> string \<times> string) list"
  ed_explicit :: "string list"
  ed_rows :: "edge_row list"
  ed_counter :: int
  ed_relay :: "(string \<times> relay_config) list"
  ed_changes :: "edge_change list"

subsection \<open>Provisioning\<close>

definition edge_bindings :: "string \<Rightarrow> edge_db \<Rightarrow> binding list" where
  "edge_bindings e d = sort_key fst (map snd (filter (\<lambda>b. fst b = e) (ed_bindings d)))"

definition automatic_input :: "string \<Rightarrow> edge_db \<Rightarrow> bool" where
  "automatic_input e d \<longleftrightarrow> e \<notin> set (ed_explicit d)"

definition tidy_board :: "string \<Rightarrow> bool" where
  "tidy_board b \<longleftrightarrow> b \<noteq> [] \<and> length b \<le> 128 \<and> trim_space b = b \<and>
     (case runes_of b of None \<Rightarrow> True | Some rs \<Rightarrow> \<not> list_ex is_control rs)"

fun check_bindings :: "edge_core \<Rightarrow> string list \<Rightarrow> binding list \<Rightarrow> unit res" where
  "check_bindings core seen [] = Inr ()"
| "check_bindings core seen (b # bs) =
    (if \<not> tidy_board (fst b) \<or> \<not> ec_token core (snd b) \<or> fst b \<in> set seen
     then Inl ''invalid or duplicate edge board/session binding'' else check_bindings core (fst b # seen) bs)"

definition set_edge_bindings :: "edge_core \<Rightarrow> string \<Rightarrow> binding list \<Rightarrow> edge_db \<Rightarrow> edge_db res" where
  "set_edge_bindings core e bs d =
    (if length bs > 64 then Inl ''maximum 64 edge board bindings''
     else bind_res (check_bindings core [] bs) (\<lambda>_.
       if e \<notin> set (od_events (ed_base d)) then Inl ''no rows''
       else Inr (d\<lparr> ed_explicit := (if e \<in> set (ed_explicit d) then ed_explicit d else ed_explicit d @ [e]),
                    ed_bindings := filter (\<lambda>b. fst b \<noteq> e) (ed_bindings d) @ map (Pair e) bs,
                    ed_changes := ed_changes d @ [Bindings_Changed e (edge_bindings e d) bs] \<rparr>)))"

subsection \<open>Accepting an observation\<close>

definition bound_session :: "string \<Rightarrow> string \<Rightarrow> edge_db \<Rightarrow> string option" where
  "bound_session e board d =
     map_option (\<lambda>b. snd (snd b)) (List.find (\<lambda>b. fst b = e \<and> fst (snd b) = board) (ed_bindings d))"

definition session_for :: "edge_core \<Rightarrow> string \<Rightarrow> packet \<Rightarrow> bool \<Rightarrow> edge_db \<Rightarrow> string option" where
  "session_for core e p auto d = (case bound_session e (pk_board p) d of
     Some s \<Rightarrow> Some s
   | None \<Rightarrow>
       if auto \<and> em_session (pk_meta p) = e \<and> has_prefix ''Feibot:'' (pk_board p) \<and>
          ec_token core (trim_prefix ''Feibot:'' (pk_board p)) \<and> em_profile (pk_meta p) = ec_rfid core \<and> automatic_input e d
       then Some e else None)"

definition entry_of :: "string \<Rightarrow> packet \<Rightarrow> observation" where
  "entry_of e p = \<lparr> ob_id = pk_id p, ob_event = e, ob_status = pk_status p, ob_number = pk_number p, ob_time = pk_time p,
     ob_ant = pk_ant p, ob_epc = pk_epc p, ob_rssi = pk_rssi p, ob_board = pk_board p, ob_disabled = None,
     ob_version = pk_version p, ob_source = pk_source p, ob_system = pk_system p, ob_instance = pk_instance p,
     ob_sequence = sint (pk_sequence p), ob_edge = Some (pk_meta p) \<rparr>"

definition known_read :: "edge_core \<Rightarrow> string \<Rightarrow> packet \<Rightarrow> observation \<Rightarrow> bool" where
  "known_read core e p a \<longleftrightarrow> ob_event a = e \<and>
     cx_same (ec_codec core) (facts_of (pk_id p) (entry_of e p)) (facts_of (pk_id p) a)"

definition new_edge_row :: "int \<Rightarrow> string \<Rightarrow> string \<Rightarrow> string \<Rightarrow> int \<Rightarrow> edge_row" where
  "new_edge_row n i e payload now = \<lparr> er_sequence = n, er_observation = i, er_event = e, er_payload = payload,
     er_state = Ox_Pending, er_created = now, er_acked = None, er_rejection = None, er_endpoint = None, er_attempts = 0,
     er_next = 0, er_last = None, er_token = None, er_until = 0 \<rparr>"

definition journal_edge :: "string \<Rightarrow> packet \<Rightarrow> string \<Rightarrow> int \<Rightarrow> edge_db \<Rightarrow> edge_db res" where
  "journal_edge e p payload now d =
    (if e \<notin> set (od_events (ed_base d)) then Inl ''FOREIGN KEY''
     else if list_ex (\<lambda>r. er_observation r = pk_id p) (ed_rows d) then Inl ''UNIQUE''
     else if ed_counter d \<ge> 9223372036854775807 then Inl ''database or disk is full''
     else Inr (d\<lparr> ed_base := (ed_base d)\<lparr> od_logs := od_logs (ed_base d) @ [stored (entry_of e p)] \<rparr>,
                  ed_rows := ed_rows d @ [new_edge_row (ed_counter d + 1) (pk_id p) e payload now],
                  ed_counter := ed_counter d + 1 \<rparr>))"

definition accept_edge :: "edge_core \<Rightarrow> int \<Rightarrow> string \<Rightarrow> packet \<Rightarrow> bool \<Rightarrow> edge_db \<Rightarrow> (edge_db \<times> observation \<times> bool) res" where
  "accept_edge core now e p auto d =
    bind_res (ec_encode core p) (\<lambda>payload.
      if e \<noteq> format_int (pk_event p) then Inl ''edge observation belongs to another event''
      else case session_for core e p auto d of
        None \<Rightarrow> Inl ''edge board is not provisioned''
      | Some s \<Rightarrow>
          if s \<noteq> em_session (pk_meta p) then Inl ''edge source session does not match provisioned binding''
          else bind_res (case find_log (pk_id p) (ed_base d) of
                 Some a \<Rightarrow> Inr (Some a) | None \<Rightarrow> find_physical (entry_of e p) (ed_base d)) (\<lambda>found.
            case found of
              Some a \<Rightarrow> if known_read core e p a then Inr (d, a, False)
                        else Inl ''edge observation conflicts with immutable stored content''
            | None \<Rightarrow> bind_res (journal_edge e p payload now d) (\<lambda>d'. Inr (d', entry_of e p, True))))"

definition edge_journal :: "string \<Rightarrow> int \<Rightarrow> int \<Rightarrow> edge_db \<Rightarrow> edge_row list res" where
  "edge_journal e after limit d =
    (if after < 0 \<or> limit < 1 \<or> limit > 500 then Inl ''invalid edge journal page''
     else Inr (take (nat limit) (sort_key er_sequence (filter (\<lambda>r. er_event r = e \<and> er_sequence r > after) (ed_rows d)))))"

definition edge_pending :: "string \<Rightarrow> edge_db \<Rightarrow> nat" where
  "edge_pending e d = count_where (\<lambda>r. er_event r = e \<and> er_state r \<noteq> Ox_Acked) (ed_rows d)"

subsection \<open>The destination\<close>

definition relay_config :: "string \<Rightarrow> edge_db \<Rightarrow> relay_config" where
  "relay_config e d = (case map_of (ed_relay d) e of
     None \<Rightarrow> \<lparr> rl_endpoint = [], rl_enabled = False, rl_revision = 0, rl_bundle = [] \<rparr> | Some c \<Rightarrow> c)"

definition bad_bundle :: "bool \<Rightarrow> string \<Rightarrow> string \<Rightarrow> bool" where
  "bad_bundle secure endpoint bundle \<longleftrightarrow>
     secure \<and> (endpoint = [] \<or> bundle = [] \<or> \<not> clean_absolute bundle) \<or> \<not> secure \<and> bundle \<noteq> [] \<or>
     length bundle > 4096 \<or> list_ex (\<lambda>c. c \<in> {CHR 0x0D, CHR 0x0A, CHR 0x00}) bundle"

definition tidy_address :: "string \<Rightarrow> string option" where
  "tidy_address s = Option.bind (split_host_port s) (\<lambda>(host, port).
     Option.bind (parse_int 64 port) (\<lambda>n.
       if n < 1 \<or> n > 65535 \<or> host = [] \<or> length host > 253 \<or>
          list_ex (\<lambda>c. c \<in> set '' /?#@'' \<or> c \<in> {CHR 0x09, CHR 0x0D, CHR 0x0A, CHR 0x00}) host
       then None else Some (join_host_port host (format_int n))))"

definition tidy_config :: "relay_config \<Rightarrow> relay_config res" where
  "tidy_config c =
    (let s = trim_prefix ''tcp://'' (trim_space (rl_endpoint c));
         secure = has_prefix ''tls://'' s;
         endpoint = (if secure then trim_prefix ''tls://'' s else s)
     in if bad_bundle secure endpoint (rl_bundle c) then Inl ''bad TLS bundle''
        else bind_res (if endpoint = [] then Inr [] else case tidy_address endpoint of
                 None \<Rightarrow> Inl ''bad address''
               | Some a \<Rightarrow> Inr (if secure then ''tls://'' @ a else a)) (\<lambda>endpoint.
          if rl_revision c < 0 \<or> rl_enabled c \<and> endpoint = [] then Inl ''the relay needs an address''
          else Inr (c\<lparr> rl_endpoint := endpoint \<rparr>)))"

definition save_config :: "string \<Rightarrow> relay_config \<Rightarrow> edge_db \<Rightarrow> edge_db" where
  "save_config e c d = d\<lparr> ed_relay := (e, c) # filter (\<lambda>x. fst x \<noteq> e) (ed_relay d) \<rparr>"

definition configure_relay :: "string \<Rightarrow> relay_config \<Rightarrow> bool \<Rightarrow> edge_db \<Rightarrow> (edge_db \<times> relay_config) res" where
  "configure_relay e c confirm d =
    bind_res (tidy_config c) (\<lambda>c.
      let previous = relay_config e d in
      if e \<notin> set (od_events (ed_base d)) then Inl ''no such event''
      else if rl_revision previous \<noteq> rl_revision c then Inl ''the settings have changed''
      else if rl_endpoint previous = rl_endpoint c \<and> rl_enabled previous = rl_enabled c \<and> rl_bundle previous = rl_bundle c
      then Inr (d, previous)
      else if (rl_endpoint previous \<noteq> rl_endpoint c \<or> rl_bundle previous \<noteq> rl_bundle c) \<and> edge_pending e d > 0 \<and> \<not> confirm
      then Inl ''confirm sending the queue to the new address''
      else let saved = c\<lparr> rl_revision := rl_revision c + 1 \<rparr>; d' = save_config e saved d in
        Inr (d'\<lparr> ed_changes := ed_changes d @ [Relay_Changed e previous saved (edge_pending e d) confirm] \<rparr>, saved))"

subsection \<open>Leases\<close>

record claim =
  ck_sequence :: int
  ck_observation :: string
  ck_payload :: string
  ck_token :: string
  ck_endpoint :: string
  ck_revision :: int
  ck_attempts :: int

definition due_rows :: "string \<Rightarrow> int \<Rightarrow> edge_db \<Rightarrow> edge_row list" where
  "due_rows e now d = sort_key er_sequence (filter (\<lambda>r. er_event r = e \<and> er_state r \<noteq> Ox_Acked \<and>
     er_next r \<le> now \<and> er_until r \<le> now) (ed_rows d))"

definition lease_millis :: int where
  "lease_millis = 30000"

definition lease :: "string \<Rightarrow> string \<Rightarrow> int \<Rightarrow> edge_row \<Rightarrow> edge_row" where
  "lease endpoint token now r = r\<lparr> er_state := Ox_Sent, er_endpoint := Some endpoint, er_attempts := er_attempts r + 1,
     er_last := Some now, er_token := Some token, er_until := now + lease_millis \<rparr>"

definition claim_of :: "relay_config \<Rightarrow> string \<Rightarrow> edge_row \<Rightarrow> claim" where
  "claim_of c token r = \<lparr> ck_sequence = er_sequence r, ck_observation = er_observation r, ck_payload = er_payload r,
     ck_token = token, ck_endpoint = rl_endpoint c, ck_revision = rl_revision c, ck_attempts = er_attempts r + 1 \<rparr>"

definition leased :: "string \<Rightarrow> int \<Rightarrow> int \<Rightarrow> edge_row \<Rightarrow> bool" where
  "leased e n now r \<longleftrightarrow> er_event r = e \<and> er_sequence r = n \<and> er_state r \<noteq> Ox_Acked \<and> er_until r \<le> now"

definition claim_relay :: "string \<Rightarrow> relay_config \<Rightarrow> int \<Rightarrow> string \<Rightarrow> edge_db \<Rightarrow> edge_db \<times> claim option" where
  "claim_relay e c now token d =
    (if \<not> rl_enabled (relay_config e d) \<or> relay_config e d \<noteq> c then (d, None)
     else case due_rows e now d of
            [] \<Rightarrow> (d, None)
          | r # _ \<Rightarrow>
              (d\<lparr> ed_rows := update_where (leased e (er_sequence r) now) (lease (rl_endpoint c) token now) (ed_rows d) \<rparr>,
               if count_where (leased e (er_sequence r) now) (ed_rows d) = 1 then Some (claim_of c token r) else None))"

definition held :: "string \<Rightarrow> claim \<Rightarrow> edge_row \<Rightarrow> bool" where
  "held e k r \<longleftrightarrow> er_event r = e \<and> er_sequence r = ck_sequence k \<and> er_observation r = ck_observation k \<and>
     er_payload r = ck_payload k \<and> er_token r = Some (ck_token k) \<and> er_state r = Ox_Sent"

text \<open>The delivery failed with a message, or the Hub acknowledged the packet.\<close>

definition release :: "int \<Rightarrow> string option \<Rightarrow> int \<Rightarrow> edge_row \<Rightarrow> edge_row" where
  "release now failure retry r = (case failure of
     None \<Rightarrow> r\<lparr> er_state := Ox_Acked, er_acked := Some now, er_rejection := None, er_next := 0, er_token := None, er_until := 0 \<rparr>
   | Some err \<Rightarrow> r\<lparr> er_state := Ox_Pending, er_acked := None, er_rejection := Some (take 512 err), er_next := retry,
       er_token := None, er_until := 0 \<rparr>)"

definition finish_relay :: "string \<Rightarrow> claim \<Rightarrow> int \<Rightarrow> string option \<Rightarrow> int \<Rightarrow> edge_db \<Rightarrow> edge_db res" where
  "finish_relay e k now failure retry d =
    (let c = relay_config e d in
     if rl_revision c \<noteq> ck_revision k \<or> rl_endpoint c \<noteq> ck_endpoint k \<or> \<not> rl_enabled c
     then Inl ''edge relay configuration changed during delivery''
     else if count_where (held e k) (ed_rows d) \<noteq> 1 then Inl ''edge relay claim is no longer current''
     else Inr (d\<lparr> ed_rows := update_where (held e k) (release now failure retry) (ed_rows d) \<rparr>))"

definition relay_progress :: "string \<Rightarrow> edge_db \<Rightarrow> nat \<times> nat \<times> int \<times> int" where
  "relay_progress e d =
    (let rows = filter (\<lambda>r. er_event r = e) (ed_rows d) in
     (count_where (\<lambda>r. er_state r \<noteq> Ox_Acked) rows, count_where (\<lambda>r. er_state r = Ox_Acked) rows,
      sum_list (map er_attempts rows), (case List.map_filter er_last rows of [] \<Rightarrow> 0 | t # ts \<Rightarrow> fold max ts t)))"

subsection \<open>The sender\<close>

definition check_packet :: "edge_core \<Rightarrow> string \<Rightarrow> claim \<Rightarrow> unit res" where
  "check_packet core e k = bind_res (ec_decode core (ck_payload k)) (\<lambda>p.
     fail_if (pk_id p \<noteq> ck_observation k \<or> format_int (pk_event p) \<noteq> e) ''the stored packet does not belong to the journal'')"

text \<open>The nanoseconds to wait after an attempt; the random part is below a quarter of the base.\<close>

definition backoff_base :: "int \<Rightarrow> int" where
  "backoff_base attempts = min 30000000000 (1000000000 * 2 ^ nat (min (max (attempts - 1) 0) 5))"

definition relay_backoff :: "int \<Rightarrow> int \<Rightarrow> int" where
  "relay_backoff attempts random = backoff_base attempts * 3 div 4 + random mod (backoff_base attempts div 4)"

text \<open>
  One turn of the sender: the outcome of sending is a parameter (the address or the certificate may fail it too),
  and so are the two clock readings, the second in nanoseconds.  Nothing is sent when nothing is due.
\<close>

definition send_claim :: "edge_core \<Rightarrow> (claim \<Rightarrow> string option) \<Rightarrow> string \<Rightarrow> claim \<Rightarrow> string option" where
  "send_claim core send e k = (case check_packet core e k of Inl err \<Rightarrow> Some err | Inr _ \<Rightarrow> send k)"

definition relay_turn :: "edge_core \<Rightarrow> (claim \<Rightarrow> string option) \<Rightarrow> string \<Rightarrow> relay_config \<Rightarrow> int \<Rightarrow> int \<Rightarrow> string \<Rightarrow> int \<Rightarrow>
    edge_db \<Rightarrow> edge_db \<times> string option" where
  "relay_turn core send e c now later token random d =
    (case claim_relay e c now token d of
       (d', None) \<Rightarrow> (d', None)
     | (d', Some k) \<Rightarrow>
         let failure = send_claim core send e k in
         case finish_relay e k (later div 1000000) failure ((later + relay_backoff (ck_attempts k) random) div 1000000) d' of
           Inl err \<Rightarrow> (d', Some err)
         | Inr d'' \<Rightarrow> (d'', failure))"

end
