(* ===== verification/EdgeLaws.thy ===== *)
theory EdgeLaws
  imports EdgeRelay ObservationSync
begin

section \<open>What the edge journal and its relay promise\<close>

text \<open>
  The runs of an event's edge journal: readers deliver packets, the organiser provisions readers and the
  destination, several senders (of this or of another process) claim rows, the Hub acknowledges packets, the
  senders finish, and the other operations on the observation tables go on meanwhile.  A run remembers the claims
  handed out and the packets the Hub has acknowledged.  A token is drawn with \<^verbatim>\<open>rand.Text\<close>, so no claim gets a
  token that was drawn before.
\<close>

record relay_world =
  rw_origin :: origin
  rw_db :: edge_db
  rw_issued :: "(string \<times> claim) list"
  rw_acks :: "(string \<times> claim) list"

definition set_base :: "odb \<Rightarrow> edge_db \<Rightarrow> edge_db" where
  "set_base b d = d\<lparr> ed_base := b \<rparr>"

inductive relay_step :: "edge_core \<Rightarrow> relay_world \<Rightarrow> relay_world \<Rightarrow> bool" for core where
  accept: "accept_edge core now e p auto (rw_db w) = Inr (d, a, b) \<Longrightarrow> relay_step core w (w\<lparr> rw_db := d \<rparr>)"
| provision: "set_edge_bindings core e bs (rw_db w) = Inr d \<Longrightarrow> relay_step core w (w\<lparr> rw_db := d \<rparr>)"
| configure: "configure_relay e c confirm (rw_db w) = Inr (d, saved) \<Longrightarrow> relay_step core w (w\<lparr> rw_db := d \<rparr>)"
| claim: "claim_relay e c now token (rw_db w) = (d, k) \<Longrightarrow> token \<notin> ck_token ` snd ` set (rw_issued w) \<Longrightarrow>
    relay_step core w (w\<lparr> rw_db := d, rw_issued := rw_issued w @ (case k of None \<Rightarrow> [] | Some k \<Rightarrow> [(e, k)]) \<rparr>)"
| acknowledge: "(e, k) \<in> set (rw_issued w) \<Longrightarrow> check_packet core e k = Inr () \<Longrightarrow>
    relay_step core w (w\<lparr> rw_acks := rw_acks w @ [(e, k)] \<rparr>)"
| finish: "(e, k) \<in> set (rw_issued w) \<Longrightarrow> failure = None \<longrightarrow> (e, k) \<in> set (rw_acks w) \<Longrightarrow>
    finish_relay e k now failure retry (rw_db w) = Inr d \<Longrightarrow> relay_step core w (w\<lparr> rw_db := d \<rparr>)"
| sync: "sync_step (ec_codec core) (rw_origin w, ed_base (rw_db w)) (g, b) \<Longrightarrow>
    relay_step core w (w\<lparr> rw_origin := g, rw_db := set_base b (rw_db w) \<rparr>)"

subsection \<open>Invariant\<close>

definition claims :: "string \<Rightarrow> claim \<Rightarrow> edge_row \<Rightarrow> bool" where
  "claims e k r \<longleftrightarrow> er_event r = e \<and> er_sequence r = ck_sequence k \<and> er_observation r = ck_observation k \<and>
     er_payload r = ck_payload k"

lemma held_claims: "held e k r \<longleftrightarrow> claims e k r \<and> er_token r = Some (ck_token k) \<and> er_state r = Ox_Sent"
  by (auto simp: held_def claims_def)

definition packed :: "edge_core \<Rightarrow> edge_row \<Rightarrow> bool" where
  "packed core r \<longleftrightarrow> (\<exists>p. ec_encode core p = Inr (er_payload r) \<and> pk_id p = er_observation r \<and>
     format_int (pk_event p) = er_event r)"

definition edge_row_ok :: "edge_core \<Rightarrow> (string \<times> claim) list \<Rightarrow> (string \<times> claim) list \<Rightarrow> edge_row \<Rightarrow> bool" where
  "edge_row_ok core issued acks r \<longleftrightarrow> packed core r \<and> (er_state r = Ox_Sent \<longleftrightarrow> er_token r \<noteq> None) \<and>
     (\<forall>t. er_token r = Some t \<longrightarrow> (\<exists>(e, k) \<in> set issued. ck_token k = t \<and> claims e k r)) \<and>
     (er_state r = Ox_Acked \<longrightarrow> (\<exists>(e, k) \<in> set acks. claims e k r))"

definition issue_ok :: "edge_core \<Rightarrow> relay_world \<Rightarrow> string \<Rightarrow> claim \<Rightarrow> bool" where
  "issue_ok core w e k \<longleftrightarrow> (\<exists>r \<in> set (ed_rows (rw_db w)). claims e k r) \<and> ck_revision k \<le> rl_revision (relay_config e (rw_db w))"

definition journalled :: "edge_db \<Rightarrow> edge_row \<Rightarrow> bool" where
  "journalled d r \<longleftrightarrow> (\<exists>l. find_log (er_observation r) (ed_base d) = Some l \<and> ob_event l = er_event r)"

definition edge_ok :: "edge_core \<Rightarrow> relay_world \<Rightarrow> bool" where
  "edge_ok core w \<longleftrightarrow> sync_ok (rw_origin w, ed_base (rw_db w)) \<and>
     sorted_wrt (<) (map er_sequence (ed_rows (rw_db w))) \<and>
     (\<forall>r \<in> set (ed_rows (rw_db w)). er_sequence r \<le> ed_counter (rw_db w) \<and> journalled (rw_db w) r \<and>
        edge_row_ok core (rw_issued w) (rw_acks w) r) \<and>
     distinct (map (ck_token \<circ> snd) (rw_issued w)) \<and>
     (\<forall>(e, k) \<in> set (rw_issued w). issue_ok core w e k) \<and>
     (\<forall>(e, k) \<in> set (rw_acks w). (e, k) \<in> set (rw_issued w) \<and> check_packet core e k = Inr ())"

text \<open>What every step keeps of a row, and of a claim that is no longer in hand.\<close>

definition in_hand :: "string \<times> claim \<Rightarrow> relay_world \<Rightarrow> bool" where
  "in_hand x w \<longleftrightarrow> (\<exists>r \<in> set (ed_rows (rw_db w)). held (fst x) (snd x) r)"

definition same_row :: "edge_row \<Rightarrow> edge_row \<Rightarrow> bool" where
  "same_row r r' \<longleftrightarrow> er_sequence r' = er_sequence r \<and> er_observation r' = er_observation r \<and> er_event r' = er_event r \<and>
     er_payload r' = er_payload r \<and> (er_state r = Ox_Acked \<longrightarrow> r' = r)"

definition relay_le :: "relay_world \<Rightarrow> relay_world \<Rightarrow> bool" where
  "relay_le w w' \<longleftrightarrow> (\<forall>r \<in> set (ed_rows (rw_db w)). \<exists>r' \<in> set (ed_rows (rw_db w')). same_row r r') \<and>
     set (rw_issued w) \<subseteq> set (rw_issued w') \<and>
     (\<forall>x \<in> set (rw_issued w). \<not> in_hand x w \<longrightarrow> \<not> in_hand x w') \<and>
     (\<forall>e. rl_revision (relay_config e (rw_db w)) \<le> rl_revision (relay_config e (rw_db w')))"

lemma same_row_refl [simp]: "same_row r r"
  by (simp add: same_row_def)

lemma same_row_in [intro]: "r \<in> A \<Longrightarrow> \<exists>x \<in> A. same_row r x"
  by (rule bexI [of _ r]) simp_all

lemma same_row_trans: "same_row a b \<Longrightarrow> same_row b c \<Longrightarrow> same_row a c"
  unfolding same_row_def by metis

lemma claims_same: "same_row r r' \<Longrightarrow> claims e k r' = claims e k r"
  by (simp add: same_row_def claims_def)

lemma relay_le_refl: "relay_le w w"
  unfolding relay_le_def using same_row_refl by blast

lemma relay_le_row: "relay_le u v \<Longrightarrow> r \<in> set (ed_rows (rw_db u)) \<Longrightarrow> \<exists>r' \<in> set (ed_rows (rw_db v)). same_row r r'"
  unfolding relay_le_def by (elim conjE) (erule bspec)

lemma relay_le_trans:
  assumes "relay_le u v" and "relay_le v w"
  shows "relay_le u w"
proof -
  have rows: "\<exists>r' \<in> set (ed_rows (rw_db w)). same_row r r'" if r: "r \<in> set (ed_rows (rw_db u))" for r
  proof -
    obtain s where "s \<in> set (ed_rows (rw_db v))" "same_row r s" using relay_le_row [OF assms(1) r] by blast
    moreover obtain t where "t \<in> set (ed_rows (rw_db w))" "same_row s t" using relay_le_row [OF assms(2) calculation(1)] by blast
    ultimately show ?thesis using same_row_trans by blast
  qed
  have "rl_revision (relay_config e (rw_db u)) \<le> rl_revision (relay_config e (rw_db w))" for e
  proof -
    have "rl_revision (relay_config e (rw_db u)) \<le> rl_revision (relay_config e (rw_db v))" using assms(1) by (simp add: relay_le_def)
    also have "\<dots> \<le> rl_revision (relay_config e (rw_db w))" using assms(2) by (simp add: relay_le_def)
    finally show ?thesis .
  qed
  moreover have "\<not> in_hand x w" if "x \<in> set (rw_issued u)" "\<not> in_hand x u" for x
    using that assms unfolding relay_le_def by blast
  moreover have "set (rw_issued u) \<subseteq> set (rw_issued w)" using assms unfolding relay_le_def by blast
  ultimately show ?thesis using rows by (simp add: relay_le_def)
qed

text \<open>A step that rewrites the rows one by one.\<close>

lemma edge_ok_map:
  assumes "edge_ok core w" and "w' = w\<lparr> rw_db := (rw_db w)\<lparr> ed_rows := map f (ed_rows (rw_db w)) \<rparr>, rw_issued := rw_issued w @ new \<rparr>"
    and "\<And>r. r \<in> set (ed_rows (rw_db w)) \<Longrightarrow> same_row r (f r) \<and> edge_row_ok core (rw_issued w @ new) (rw_acks w) (f r)"
    and "distinct (map (ck_token \<circ> snd) (rw_issued w @ new))"
    and "\<And>e k. (e, k) \<in> set new \<Longrightarrow> issue_ok core w e k"
  shows "edge_ok core w'"
proof -
  let ?rows = "ed_rows (rw_db w)"
  have same: "r \<in> set ?rows \<Longrightarrow> same_row r (f r)" for r using assms(3) by blast
  then have seq: "map er_sequence (map f ?rows) = map er_sequence ?rows" by (simp add: same_row_def)
  have conf: "relay_config e (rw_db w') = relay_config e (rw_db w)" for e by (simp add: assms(2) relay_config_def)
  have issued: "issue_ok core w' e k" if "(e, k) \<in> set (rw_issued w @ new)" for e k
  proof -
    have "issue_ok core w e k" using that assms(1,5) unfolding edge_ok_def by auto
    then obtain r where r: "r \<in> set ?rows" "claims e k r" "ck_revision k \<le> rl_revision (relay_config e (rw_db w))"
      by (auto simp: issue_ok_def)
    then have "claims e k (f r)" "f r \<in> set (ed_rows (rw_db w'))" using claims_same [OF same [OF r(1)]] by (simp_all add: assms(2))
    then show ?thesis using \<open>ck_revision k \<le> _\<close> conf by (auto simp: issue_ok_def)
  qed
  have "er_sequence (f r) \<le> ed_counter (rw_db w) \<and> journalled (rw_db w') (f r)" if "r \<in> set ?rows" for r
    using that same [OF that] assms(1) by (auto simp: edge_ok_def same_row_def journalled_def assms(2))
  then show ?thesis
    using assms(1,3,4) issued seq unfolding edge_ok_def by (auto simp: assms(2) simp del: map_map)
qed

lemma relay_le_map:
  assumes "w' = w\<lparr> rw_db := (rw_db w)\<lparr> ed_rows := map f (ed_rows (rw_db w)) \<rparr>, rw_issued := rw_issued w @ new \<rparr>"
    and "\<And>r. r \<in> set (ed_rows (rw_db w)) \<Longrightarrow> same_row r (f r)"
    and "\<And>r e k. r \<in> set (ed_rows (rw_db w)) \<Longrightarrow> (e, k) \<in> set (rw_issued w) \<Longrightarrow> held e k (f r) \<Longrightarrow> held e k r"
  shows "relay_le w w'"
  using assms(2,3) by (fastforce simp: relay_le_def in_hand_def assms(1) relay_config_def)

subsection \<open>Claims\<close>

definition lease_row :: "string \<Rightarrow> int \<Rightarrow> int \<Rightarrow> string \<Rightarrow> string \<Rightarrow> edge_row \<Rightarrow> edge_row" where
  "lease_row e n now endpoint token r = (if leased e n now r then lease endpoint token now r else r)"

lemma lease_fields [simp]:
  "er_sequence (lease endpoint token now r) = er_sequence r" "er_observation (lease endpoint token now r) = er_observation r"
  "er_event (lease endpoint token now r) = er_event r" "er_payload (lease endpoint token now r) = er_payload r"
  "er_token (lease endpoint token now r) = Some token" "er_state (lease endpoint token now r) = Ox_Sent"
  by (simp_all add: lease_def)

lemma due_rowsD: "r # rs = due_rows e now d \<Longrightarrow> r \<in> set (ed_rows d) \<and> leased e (er_sequence r) now r \<and> er_next r \<le> now"
proof -
  assume "r # rs = due_rows e now d"
  then have "r \<in> set (due_rows e now d)" by (metis list.set_intros(1))
  then show ?thesis by (auto simp: due_rows_def leased_def)
qed

lemma count_where_one:
  assumes "distinct (map key rows)" and "r \<in> set rows" and "p r" and "\<And>x. x \<in> set rows \<Longrightarrow> p x \<Longrightarrow> key x = key r"
  shows "count_where p rows = 1"
proof -
  have "filter p rows = filter (\<lambda>x. x = r) rows"
  proof (rule filter_cong [OF refl])
    fix x
    assume x: "x \<in> set rows"
    show "p x = (x = r)"
    proof
      assume "p x"
      then have "key x = key r" using assms(4) x by blast
      then show "x = r" using assms(1,2) x by (auto simp: distinct_map inj_on_def)
    qed (use assms(3) in simp)
  qed
  moreover have "length (filter (\<lambda>x. x = r) rows) = 1"
    using assms(1,2) distinct_map [of key rows] by (simp add: distinct_length_filter Collect_conv_if)
  ultimately show ?thesis by (simp add: count_where_def)
qed

lemma claim_relay_cases:
  assumes "claim_relay e c now token d = (d', k)" and "sorted_wrt (<) (map er_sequence (ed_rows d))"
  obtains (none) "d' = d" "k = None"
  | (some) r where "r \<in> set (ed_rows d)" "leased e (er_sequence r) now r" "er_next r \<le> now" "k = Some (claim_of c token r)"
      "d' = d\<lparr> ed_rows := map (lease_row e (er_sequence r) now (rl_endpoint c) token) (ed_rows d) \<rparr>"
      "relay_config e d = c" "rl_enabled c"
      "\<And>x. x \<in> set (ed_rows d) \<Longrightarrow> leased e (er_sequence x) now x \<Longrightarrow> er_next x \<le> now \<Longrightarrow> er_sequence r \<le> er_sequence x"
proof (cases "rl_enabled (relay_config e d) \<and> relay_config e d = c \<and> due_rows e now d \<noteq> []")
  case False
  then show ?thesis using assms(1) none by (auto simp: claim_relay_def split: if_splits list.splits)
next
  case True
  then obtain r rs where due: "due_rows e now d = r # rs" by (cases "due_rows e now d") auto
  then have r: "r \<in> set (ed_rows d)" "leased e (er_sequence r) now r" "er_next r \<le> now" using due_rowsD by metis+
  have dist: "distinct (map er_sequence (ed_rows d))" using assms(2) by (simp add: strict_sorted_iff)
  have one: "count_where (leased e (er_sequence r) now) (ed_rows d) = 1"
    by (rule count_where_one [where key = er_sequence and r = r]) (use dist r in \<open>simp_all add: leased_def\<close>)
  have "sorted (map er_sequence (due_rows e now d))" by (simp add: due_rows_def)
  then have first: "er_sequence r \<le> er_sequence x" if "x \<in> set (due_rows e now d)" for x
    using that due by auto
  have upd: "update_where (leased e (er_sequence r) now) (lease (rl_endpoint c) token now) (ed_rows d) =
      map (lease_row e (er_sequence r) now (rl_endpoint c) token) (ed_rows d)"
    by (simp add: update_where_def lease_row_def [abs_def])
  show ?thesis
  proof (rule some [OF r])
    show "k = Some (claim_of c token r)"
      and "d' = d\<lparr> ed_rows := map (lease_row e (er_sequence r) now (rl_endpoint c) token) (ed_rows d) \<rparr>"
      using assms(1) True due one upd by (auto simp: claim_relay_def)
    show "relay_config e d = c" and "rl_enabled c" using True by auto
    show "er_sequence r \<le> er_sequence x"
      if "x \<in> set (ed_rows d)" "leased e (er_sequence x) now x" "er_next x \<le> now" for x
      using that by (intro first) (simp add: due_rows_def leased_def)
  qed
qed

lemma lease_row_same: "same_row r (lease_row e n now endpoint token r)"
  by (auto simp: lease_row_def same_row_def leased_def)

lemma edge_row_ok_more:
  "edge_row_ok core issued acks r \<Longrightarrow> set issued \<subseteq> set issued' \<Longrightarrow> set acks \<subseteq> set acks' \<Longrightarrow> edge_row_ok core issued' acks' r"
  unfolding edge_row_ok_def by blast

lemma edge_okD:
  assumes "edge_ok core w"
  shows "sorted_wrt (<) (map er_sequence (ed_rows (rw_db w)))" and "distinct (map (ck_token \<circ> snd) (rw_issued w))"
    and "\<And>r. r \<in> set (ed_rows (rw_db w)) \<Longrightarrow> edge_row_ok core (rw_issued w) (rw_acks w) r"
    and "\<And>e k. (e, k) \<in> set (rw_issued w) \<Longrightarrow> issue_ok core w e k"
    and "\<And>e k. (e, k) \<in> set (rw_acks w) \<Longrightarrow> (e, k) \<in> set (rw_issued w) \<and> check_packet core e k = Inr ()"
  using assms unfolding edge_ok_def by auto

lemma claim_step_ok:
  assumes "claim_relay e c now token (rw_db w) = (d, k)" and "token \<notin> ck_token ` snd ` set (rw_issued w)" and "edge_ok core w"
    and "w' = w\<lparr> rw_db := d, rw_issued := rw_issued w @ (case k of None \<Rightarrow> [] | Some k \<Rightarrow> [(e, k)]) \<rparr>"
  shows "edge_ok core w' \<and> relay_le w w'"
  using assms(1) edge_okD(1) [OF assms(3)]
proof (cases rule: claim_relay_cases)
  case none
  then have "w' = w" using assms(4) by simp
  then show ?thesis using assms(3) relay_le_refl by simp
next
  case (some r)
  let ?f = "lease_row e (er_sequence r) now (rl_endpoint c) token" and ?new = "[(e, claim_of c token r)]"
  have w': "w' = w\<lparr> rw_db := (rw_db w)\<lparr> ed_rows := map ?f (ed_rows (rw_db w)) \<rparr>, rw_issued := rw_issued w @ ?new \<rparr>"
    using assms(4) some(4,5) by simp
  have claims: "claims e (claim_of c token r) r" using some(2) by (simp add: claims_def claim_of_def leased_def)
  have only: "x = r" if "x \<in> set (ed_rows (rw_db w))" "leased e (er_sequence r) now x" for x
    using that some(1) edge_okD(1) [OF assms(3)] by (auto simp: leased_def strict_sorted_iff distinct_map inj_on_def)
  have rows: "same_row x (?f x) \<and> edge_row_ok core (rw_issued w @ ?new) (rw_acks w) (?f x)"
    if x: "x \<in> set (ed_rows (rw_db w))" for x
  proof (cases "leased e (er_sequence r) now x")
    case True
    then have "x = r" using only x by blast
    then have "claims e (claim_of c token r) (?f x)" using claims claims_same [OF lease_row_same] by blast
    moreover have "packed core x" using edge_okD(3) [OF assms(3) x] by (simp add: edge_row_ok_def)
    ultimately have "edge_row_ok core (rw_issued w @ ?new) (rw_acks w) (?f x)"
      using True by (auto simp: edge_row_ok_def lease_row_def packed_def claim_of_def)
    then show ?thesis using lease_row_same by blast
  next
    case False
    moreover have "edge_row_ok core (rw_issued w @ ?new) (rw_acks w) x"
      by (rule edge_row_ok_more [OF edge_okD(3) [OF assms(3) x]]) auto
    ultimately show ?thesis by (simp add: lease_row_def)
  qed
  have dist: "distinct (map (ck_token \<circ> snd) (rw_issued w @ ?new))"
    using edge_okD(2) [OF assms(3)] assms(2) by (auto simp: claim_of_def image_iff)
  have "edge_ok core w'"
    by (rule edge_ok_map [OF assms(3) w' rows dist]) (use some claims in \<open>auto simp: issue_ok_def claim_of_def\<close>)
  moreover have "relay_le w w'"
  proof (rule relay_le_map [OF w'])
    fix x e' k'
    assume "x \<in> set (ed_rows (rw_db w))" and k': "(e', k') \<in> set (rw_issued w)" and held: "held e' k' (?f x)"
    have "ck_token k' \<noteq> token" using assms(2) k' by force
    then show "held e' k' x" using held by (auto simp: lease_row_def held_def split: if_splits)
  qed (use rows in blast)
  ultimately show ?thesis by simp
qed

subsection \<open>Finishing\<close>

definition release_row :: "string \<Rightarrow> claim \<Rightarrow> int \<Rightarrow> string option \<Rightarrow> int \<Rightarrow> edge_row \<Rightarrow> edge_row" where
  "release_row e k now failure retry r = (if held e k r then release now failure retry r else r)"

lemma release_fields [simp]:
  "er_sequence (release now failure retry r) = er_sequence r" "er_observation (release now failure retry r) = er_observation r"
  "er_event (release now failure retry r) = er_event r" "er_payload (release now failure retry r) = er_payload r"
  "er_token (release now failure retry r) = None"
  "er_state (release now failure retry r) = (if failure = None then Ox_Acked else Ox_Pending)"
  by (simp_all add: release_def split: option.split)

lemma finish_relay_Inr:
  "finish_relay e k now failure retry d = Inr d' \<longleftrightarrow>
     rl_revision (relay_config e d) = ck_revision k \<and> rl_endpoint (relay_config e d) = ck_endpoint k \<and>
     rl_enabled (relay_config e d) \<and> count_where (held e k) (ed_rows d) = 1 \<and>
     d' = d\<lparr> ed_rows := map (release_row e k now failure retry) (ed_rows d) \<rparr>"
  by (auto simp: finish_relay_def Let_def update_where_def release_row_def [abs_def])

lemma finish_step_ok:
  assumes "finish_relay e k now failure retry (rw_db w) = Inr d" and "failure = None \<longrightarrow> (e, k) \<in> set (rw_acks w)"
    and "edge_ok core w" and "w' = w\<lparr> rw_db := d \<rparr>"
  shows "edge_ok core w' \<and> relay_le w w'"
proof -
  let ?f = "release_row e k now failure retry"
  have w': "w' = w\<lparr> rw_db := (rw_db w)\<lparr> ed_rows := map ?f (ed_rows (rw_db w)) \<rparr>, rw_issued := rw_issued w @ [] \<rparr>"
    using assms(1,4) by (simp add: finish_relay_Inr)
  have same: "same_row x (?f x)" for x by (auto simp: release_row_def same_row_def held_def)
  have rows: "same_row x (?f x) \<and> edge_row_ok core (rw_issued w @ []) (rw_acks w) (?f x)" if x: "x \<in> set (ed_rows (rw_db w))" for x
  proof (cases "held e k x")
    case True
    then have "claims e k (?f x)" using claims_same [OF same] by (simp add: held_claims)
    moreover have "packed core x" using edge_okD(3) [OF assms(3) x] by (simp add: edge_row_ok_def)
    ultimately have "edge_row_ok core (rw_issued w @ []) (rw_acks w) (?f x)"
      using True assms(2) by (auto simp: edge_row_ok_def release_row_def packed_def)
    then show ?thesis using same by blast
  next
    case False
    then show ?thesis using edge_okD(3) [OF assms(3) x] by (simp add: release_row_def)
  qed
  have "edge_ok core w'"
    by (rule edge_ok_map [OF assms(3) w' rows]) (use edge_okD(2) [OF assms(3)] in simp_all)
  moreover have "relay_le w w'"
    by (rule relay_le_map [OF w' same]) (auto simp: release_row_def held_def split: if_splits)
  ultimately show ?thesis by simp
qed

subsection \<open>The other steps\<close>

lemma journalled_grows: "journalled d r \<Longrightarrow> logs_grow (ed_base d) (ed_base d') \<Longrightarrow> journalled d' r"
  unfolding journalled_def using logs_growD [of "ed_base d" "ed_base d'"] by (metis same_immutable_def same_reading_def)

lemma edge_ok_keep:
  assumes "edge_ok core w" and "ed_rows (rw_db w') = ed_rows (rw_db w)" and "rw_issued w' = rw_issued w"
    and "set (rw_acks w) \<subseteq> set (rw_acks w')"
    and "\<And>e k. (e, k) \<in> set (rw_acks w') \<Longrightarrow> (e, k) \<in> set (rw_issued w) \<and> check_packet core e k = Inr ()"
    and "ed_counter (rw_db w') = ed_counter (rw_db w)" and "sync_ok (rw_origin w', ed_base (rw_db w'))"
    and "logs_grow (ed_base (rw_db w)) (ed_base (rw_db w'))"
    and "\<And>e. rl_revision (relay_config e (rw_db w)) \<le> rl_revision (relay_config e (rw_db w'))"
  shows "edge_ok core w' \<and> relay_le w w'"
proof
  have issue: "issue_ok core w' e k" if "(e, k) \<in> set (rw_issued w)" for e k
    using edge_okD(4) [OF assms(1) that] assms(9) [of e] by (auto simp: issue_ok_def assms(2))
  have rows: "er_sequence r \<le> ed_counter (rw_db w') \<and> journalled (rw_db w') r \<and> edge_row_ok core (rw_issued w') (rw_acks w') r"
    if r: "r \<in> set (ed_rows (rw_db w))" for r
  proof -
    have "er_sequence r \<le> ed_counter (rw_db w)" "journalled (rw_db w) r" using assms(1) r by (auto simp: edge_ok_def)
    moreover have "edge_row_ok core (rw_issued w') (rw_acks w') r"
      by (rule edge_row_ok_more [OF edge_okD(3) [OF assms(1) r]]) (use assms(3,4) in simp_all)
    ultimately show ?thesis using journalled_grows assms(6,8) by auto
  qed
  show "edge_ok core w'"
    unfolding edge_ok_def using rows issue assms(5,7) edge_okD(1,2) [OF assms(1)] by (auto simp: assms(2,3))
  show "relay_le w w'"
    using assms(9) by (auto simp: relay_le_def in_hand_def assms(2,3))
qed

lemma set_bindings_rest:
  assumes "set_edge_bindings core e bs d = Inr d'"
  shows "ed_rows d' = ed_rows d \<and> ed_base d' = ed_base d \<and> ed_counter d' = ed_counter d \<and> ed_relay d' = ed_relay d"
  using assms by (auto simp: set_edge_bindings_def res_simps split: if_splits)

lemma configure_relay_rest:
  assumes "configure_relay e c confirm d = Inr (d', saved)"
  shows "ed_rows d' = ed_rows d" and "ed_base d' = ed_base d" and "ed_counter d' = ed_counter d"
    and "relay_config e' d' = (if e' = e then saved else relay_config e' d)"
    and "saved = relay_config e d \<or> rl_revision saved = rl_revision (relay_config e d) + 1"
proof -
  obtain c' where c': "tidy_config c = Inr c'" and
    cases: "d' = d \<and> saved = relay_config e d \<or>
      rl_revision (relay_config e d) = rl_revision c' \<and> saved = c'\<lparr> rl_revision := rl_revision c' + 1 \<rparr> \<and>
      d' = (save_config e saved d)\<lparr> ed_changes := ed_changes d @ [Relay_Changed e (relay_config e d) saved (edge_pending e d) confirm] \<rparr>"
    using assms by (auto simp: configure_relay_def Let_def res_simps split: if_splits)
  then show "ed_rows d' = ed_rows d" and "ed_base d' = ed_base d" and "ed_counter d' = ed_counter d"
    and "saved = relay_config e d \<or> rl_revision saved = rl_revision (relay_config e d) + 1"
    by (auto simp: save_config_def)
  have "map_of (filter (\<lambda>x. fst x \<noteq> e) xs) e' = (if e' = e then None else map_of xs e')" for xs :: "(string \<times> relay_config) list"
    by (induction xs) auto
  then show "relay_config e' d' = (if e' = e then saved else relay_config e' d)"
    using cases by (auto simp: relay_config_def save_config_def)
qed

lemma relay_config_same: "ed_relay d' = ed_relay d \<Longrightarrow> relay_config e d' = relay_config e d"
  by (simp add: relay_config_def)

text \<open>An accepted observation has a row of its own, or was known.\<close>

lemma accept_edge_Inr:
  assumes "accept_edge core now e p auto d = Inr (d', a, b)"
  obtains (known) "b = False" "d' = d"
  | (new) payload where "b = True" "ec_encode core p = Inr payload" "e = format_int (pk_event p)"
      "find_log (pk_id p) (ed_base d) = None" "a = entry_of e p" "journal_edge e p payload now d = Inr d'"
  using assms by (auto simp: accept_edge_def res_simps split: if_splits option.splits)

lemma stored_log: "0 \<le> ob_version (stored l) \<and> 0 \<le> ob_sequence (stored l) \<and> ob_id (stored l) = ob_id l \<and> ob_event (stored l) = ob_event l"
  by (simp add: stored_def)

lemma accept_step_ok:
  assumes "accept_edge core now e p auto (rw_db w) = Inr (d, a, b)" and "edge_ok core w" and "w' = w\<lparr> rw_db := d \<rparr>"
  shows "edge_ok core w' \<and> relay_le w w'"
  using assms(1)
proof (cases rule: accept_edge_Inr)
  case known
  then show ?thesis using assms(2,3) relay_le_refl by simp
next
  case (new payload)
  let ?d = "rw_db w" and ?l = "stored (entry_of e p)"
  let ?b = "(ed_base ?d)\<lparr> od_logs := od_logs (ed_base ?d) @ [?l] \<rparr>"
  let ?r = "new_edge_row (ed_counter ?d + 1) (pk_id p) e payload now"
  have d: "d = ?d\<lparr> ed_base := ?b, ed_rows := ed_rows ?d @ [?r], ed_counter := ed_counter ?d + 1 \<rparr>"
    using new(6) by (auto simp: journal_edge_def split: if_splits)
  have base: "sync_ok (rw_origin w, ed_base ?d)" using assms(2) by (simp add: edge_ok_def)
  have id: "ob_id ?l = pk_id p" "ob_event ?l = e" by (simp_all add: stored_log) (simp_all add: entry_of_def)
  have grow: "logs_grow (ed_base ?d) ?b" by (rule logs_grow_append)
  have "logs_ok ?b" by (rule logs_ok_append) (use base new(4) id stored_log in \<open>simp_all add: sync_ok_def outbox_ok_def\<close>)
  then have "outbox_ok (rw_origin w) ?b" using base outbox_ok_grows [OF _ _ grow] by (simp add: sync_ok_def)
  then have base': "sync_ok (rw_origin w, ?b)" using base by (simp add: sync_ok_def)
  have log: "find_log (pk_id p) ?b = Some ?l" using new(4) id by (simp add: find_log_append)
  have conf: "relay_config x d = relay_config x ?d" for x by (simp add: d relay_config_def)
  have row: "edge_row_ok core (rw_issued w) (rw_acks w) ?r"
    using new(2,3) by (auto simp: edge_row_ok_def new_edge_row_def packed_def)
  have old: "er_sequence r \<le> ed_counter d \<and> journalled d r \<and> edge_row_ok core (rw_issued w) (rw_acks w) r"
    if r: "r \<in> set (ed_rows ?d)" for r
  proof -
    have "er_sequence r \<le> ed_counter ?d" "journalled ?d r" using assms(2) r by (auto simp: edge_ok_def)
    moreover have "journalled d r" using journalled_grows [OF calculation(2), of d] grow by (simp add: d)
    ultimately show ?thesis using edge_okD(3) [OF assms(2) r] by (simp add: d)
  qed
  have "\<forall>x \<in> set (ed_rows ?d). er_sequence x \<le> ed_counter ?d" using assms(2) by (simp add: edge_ok_def)
  then have sorted: "sorted_wrt (<) (map er_sequence (ed_rows d))"
    using edge_okD(1) [OF assms(2)] by (auto simp: d new_edge_row_def sorted_wrt_append)
  have new_row: "er_sequence ?r \<le> ed_counter d \<and> journalled d ?r"
    using log id by (simp add: d new_edge_row_def journalled_def)
  have issue: "issue_ok core w' x k" if "(x, k) \<in> set (rw_issued w)" for x k
    using edge_okD(4) [OF assms(2) that] conf by (auto simp: issue_ok_def assms(3)) (auto simp: d)
  have "edge_ok core w'"
    unfolding edge_ok_def using base' sorted old row new_row issue edge_okD(2,5) [OF assms(2)]
    by (auto simp: assms(3)) (auto simp: d)
  moreover have "relay_le w w'"
    unfolding relay_le_def in_hand_def
    using conf same_row_refl by (simp add: assms(3)) (simp add: d held_def new_edge_row_def, blast)
  ultimately show ?thesis by simp
qed

lemma relay_step_ok:
  assumes "relay_step core w w'" and "edge_ok core w"
  shows "edge_ok core w' \<and> relay_le w w'"
proof -
  have base: "sync_ok (rw_origin w, ed_base (rw_db w))" using assms(2) by (simp add: edge_ok_def)
  from assms(1) show ?thesis
  proof cases
    case (accept now e p auto d a b)
    then show ?thesis using accept_step_ok assms(2) by blast
  next
    case (provision e bs d)
    have rest: "ed_rows d = ed_rows (rw_db w)" "ed_base d = ed_base (rw_db w)" "ed_counter d = ed_counter (rw_db w)"
      "ed_relay d = ed_relay (rw_db w)" using set_bindings_rest [OF provision(2)] by simp_all
    have conf: "relay_config x d = relay_config x (rw_db w)" for x by (rule relay_config_same [OF rest(4)])
    show ?thesis
      by (rule edge_ok_keep [OF assms(2)]) (use base rest(1-3) conf edge_okD(5) [OF assms(2)] in \<open>simp_all add: provision(1)\<close>)
  next
    case (configure e c confirm d saved)
    note rest = configure_relay_rest [OF configure(2)]
    show ?thesis
      by (rule edge_ok_keep [OF assms(2)]) (use rest base edge_okD(5) [OF assms(2)] in \<open>auto simp: configure(1)\<close>)
  next
    case (claim e c now token d k)
    then show ?thesis using claim_step_ok [OF claim(2,3) assms(2)] by blast
  next
    case (acknowledge e k)
    show ?thesis
      by (rule edge_ok_keep [OF assms(2)]) (use base acknowledge edge_okD(5) [OF assms(2)] in auto)
  next
    case (finish e k failure now retry d)
    then show ?thesis using finish_step_ok [OF finish(4,3) assms(2)] by blast
  next
    case (sync g b)
    have "sync_ok (g, b) \<and> logs_grow (ed_base (rw_db w)) b" using sync_step_ok [OF sync(2) base] by simp
    then show ?thesis
      by (intro edge_ok_keep [OF assms(2)]) (use edge_okD(5) [OF assms(2)] in \<open>auto simp: sync(1) set_base_def relay_config_def\<close>)
  qed
qed

interpretation relay: monotone_machine "relay_step core" "edge_ok core" relay_le
proof unfold_locales
  fix u v w :: relay_world
  show "relay_step core u v \<Longrightarrow> edge_ok core u \<Longrightarrow> edge_ok core v" using relay_step_ok by blast
  show "relay_le u u" by (rule relay_le_refl)
  show "relay_le u v \<Longrightarrow> relay_le v w \<Longrightarrow> relay_le u w" by (rule relay_le_trans)
  show "relay_step core u v \<Longrightarrow> edge_ok core u \<Longrightarrow> relay_le u v" using relay_step_ok by blast
qed

end
