(* ===== verification/EdgeRuns.thy ===== *)
theory EdgeRuns
  imports EdgeLaws
begin

section \<open>Properties of the edge journal\<close>

definition empty_relay :: "origin \<Rightarrow> string list \<Rightarrow> relay_world" where
  "empty_relay g es = \<lparr> rw_origin = g,
     rw_db = \<lparr> ed_base = empty_odb es, ed_bindings = [], ed_explicit = [], ed_rows = [], ed_counter = 0, ed_relay = [],
       ed_changes = [] \<rparr>,
     rw_issued = [], rw_acks = [] \<rparr>"

lemma empty_relay_ok: "og_instance g \<noteq> [] \<Longrightarrow> edge_ok core (empty_relay g es)"
  using empty_odb_ok [of g es] by (simp add: edge_ok_def empty_relay_def)

lemma relay_reachable: "(relay_step core)\<^sup>*\<^sup>* (empty_relay g es) w \<Longrightarrow> og_instance g \<noteq> [] \<Longrightarrow> edge_ok core w"
  using relay.inv_steps empty_relay_ok by blast

lemma finish_needs_hand: "\<not> in_hand (e, k) w \<Longrightarrow> \<exists>err. finish_relay e k now failure retry (rw_db w) = Inl err"
proof -
  assume "\<not> in_hand (e, k) w"
  then have "count_where (held e k) (ed_rows (rw_db w)) = 0" by (simp add: in_hand_def)
  then have "finish_relay e k now failure retry (rw_db w) \<noteq> Inr d" for d unfolding finish_relay_Inr by linarith
  then show ?thesis by (cases "finish_relay e k now failure retry (rw_db w)") auto
qed

text \<open>
  What the journal counts as delivered was acknowledged by the Hub: an acknowledged row belongs to a claim
  handed out for exactly this event, sequence, observation and packet, the packet passed the sender's check, and
  the Hub acknowledged it; and every row, acknowledged or not, holds the packet of a stored observation of its event.
\<close>

theorem acked_rows_were_delivered:
  assumes "(relay_step core)\<^sup>*\<^sup>* (empty_relay g es) w" and "og_instance g \<noteq> []" and "r \<in> set (ed_rows (rw_db w))"
  shows "(\<exists>l. find_log (er_observation r) (ed_base (rw_db w)) = Some l \<and> ob_event l = er_event r) \<and>
    (\<exists>p. ec_encode core p = Inr (er_payload r) \<and> pk_id p = er_observation r \<and> format_int (pk_event p) = er_event r) \<and>
    (er_state r = Ox_Acked \<longrightarrow> (\<exists>k. (er_event r, k) \<in> set (rw_acks w) \<and> check_packet core (er_event r) k = Inr () \<and>
       ck_sequence k = er_sequence r \<and> ck_observation k = er_observation r \<and> ck_payload k = er_payload r))"
proof -
  have ok: "edge_ok core w" by (rule relay_reachable [OF assms(1,2)])
  then have "edge_row_ok core (rw_issued w) (rw_acks w) r" "journalled (rw_db w) r"
    using assms(3) by (auto simp: edge_ok_def)
  then show ?thesis
    using edge_okD(5) [OF ok] by (fastforce simp: edge_row_ok_def journalled_def packed_def claims_def)
qed

text \<open>
  The journal only moves forward: whatever the readers, the organiser, the senders and the Hub do, a row keeps
  its sequence, observation, event and packet, and an acknowledged row is never touched again.
\<close>

theorem edge_journal_immutable:
  assumes "(relay_step core)\<^sup>*\<^sup>* (empty_relay g es) w" and "og_instance g \<noteq> []" and "(relay_step core)\<^sup>*\<^sup>* w w'"
    and "r \<in> set (ed_rows (rw_db w))"
  shows "\<exists>r' \<in> set (ed_rows (rw_db w')). er_sequence r' = er_sequence r \<and> er_observation r' = er_observation r \<and>
    er_event r' = er_event r \<and> er_payload r' = er_payload r \<and> (er_state r = Ox_Acked \<longrightarrow> r' = r)"
proof -
  have "relay_le w w'" by (rule relay.le_steps [OF assms(3) relay_reachable [OF assms(1,2)]])
  from relay_le_row [OF this assms(4)] show ?thesis by (simp add: same_row_def)
qed

text \<open>
  C36.  A stale sender is powerless: once the row of a claim carries another token or none, because its lease ran out
  and the row was claimed again, or because the claim was finished, then whatever happens afterwards, finishing that
  claim is refused, with whatever outcome it reports.
\<close>

theorem stale_claim_refused:
  assumes "(relay_step core)\<^sup>*\<^sup>* (empty_relay g es) w" and "og_instance g \<noteq> []" and "(e, k) \<in> set (rw_issued w)"
    and "\<forall>r \<in> set (ed_rows (rw_db w)). er_sequence r = ck_sequence k \<longrightarrow> er_token r \<noteq> Some (ck_token k)"
    and "(relay_step core)\<^sup>*\<^sup>* w w'"
  shows "\<exists>err. finish_relay e k now failure retry (rw_db w') = Inl err"
proof (rule finish_needs_hand)
  have "relay_le w w'" by (rule relay.le_steps [OF assms(5) relay_reachable [OF assms(1,2)]])
  moreover have "\<not> in_hand (e, k) w" using assms(4) by (auto simp: in_hand_def held_def)
  ultimately show "\<not> in_hand (e, k) w'" using assms(3) by (auto simp: relay_le_def)
qed

text \<open>
  Claiming: a sender is given the first row of its event that is due and not leased, and only that row changes;
  no other claim for the row stays current.
\<close>

theorem claim_takes_the_first_due_row:
  assumes "(relay_step core)\<^sup>*\<^sup>* (empty_relay g es) w" and "og_instance g \<noteq> []"
    and "claim_relay e c now token (rw_db w) = (d, Some k)"
  shows "\<exists>r \<in> set (ed_rows (rw_db w)). claims e k r \<and> er_state r \<noteq> Ox_Acked \<and> er_next r \<le> now \<and> er_until r \<le> now \<and>
    (\<forall>x \<in> set (ed_rows (rw_db w)). er_event x = e \<and> er_state x \<noteq> Ox_Acked \<and> er_next x \<le> now \<and> er_until x \<le> now \<longrightarrow>
       er_sequence r \<le> er_sequence x) \<and>
    ed_rows d = map (\<lambda>x. if x = r then lease (rl_endpoint c) token now x else x) (ed_rows (rw_db w))"
  using assms(3) edge_okD(1) [OF relay_reachable [OF assms(1,2)]]
proof (cases rule: claim_relay_cases)
  case (some r)
  have only: "leased e (er_sequence r) now x \<longleftrightarrow> x = r" if "x \<in> set (ed_rows (rw_db w))" for x
    using that some(1,2) edge_okD(1) [OF relay_reachable [OF assms(1,2)]]
    by (auto simp: leased_def strict_sorted_iff distinct_map inj_on_def)
  have "map (lease_row e (er_sequence r) now (rl_endpoint c) token) (ed_rows (rw_db w)) =
      map (\<lambda>x. if x = r then lease (rl_endpoint c) token now x else x) (ed_rows (rw_db w))"
    by (rule map_cong [OF refl]) (simp add: lease_row_def only)
  then show ?thesis using some by (intro bexI [of _ r]) (auto simp: claims_def claim_of_def leased_def)
qed simp

text \<open>
  Redirecting the queue: when the destination changes while rows are waiting, the organiser has confirmed it;
  and from any change of the settings on, no claim handed out before can confirm or release its row, so that an
  answer of the old destination never counts.
\<close>

theorem redirected_claims_refused:
  assumes "(relay_step core)\<^sup>*\<^sup>* (empty_relay g es) w" and "og_instance g \<noteq> []"
    and "configure_relay e c confirm (rw_db w) = Inr (d, saved)" and "saved \<noteq> relay_config e (rw_db w)"
    and "(e, k) \<in> set (rw_issued w)" and "(relay_step core)\<^sup>*\<^sup>* (w\<lparr> rw_db := d \<rparr>) w'"
  shows "(\<exists>err. finish_relay e k now failure retry (rw_db w') = Inl err) \<and>
    (edge_pending e (rw_db w) > 0 \<and> (rl_endpoint saved \<noteq> rl_endpoint (relay_config e (rw_db w)) \<or>
       rl_bundle saved \<noteq> rl_bundle (relay_config e (rw_db w))) \<longrightarrow> confirm)"
proof
  have ok: "edge_ok core w" by (rule relay_reachable [OF assms(1,2)])
  have "edge_ok core (w\<lparr> rw_db := d \<rparr>)" using relay_step_ok [OF relay_step.configure [OF assms(3)] ok] by blast
  then have le: "relay_le (w\<lparr> rw_db := d \<rparr>) w'" by (rule relay.le_steps [OF assms(6)])
  note rest = configure_relay_rest [OF assms(3)]
  have "ck_revision k \<le> rl_revision (relay_config e (rw_db w))"
    using edge_okD(4) [OF ok assms(5)] by (simp add: issue_ok_def)
  also have "\<dots> < rl_revision (relay_config e d)" using rest(4) [of e] rest(5) assms(4) by simp
  also have "\<dots> \<le> rl_revision (relay_config e (rw_db w'))" using le by (simp add: relay_le_def)
  finally have "finish_relay e k now failure retry (rw_db w') \<noteq> Inr d'" for d' by (simp add: finish_relay_Inr)
  then show "\<exists>err. finish_relay e k now failure retry (rw_db w') = Inl err"
    by (cases "finish_relay e k now failure retry (rw_db w')") auto
  show "edge_pending e (rw_db w) > 0 \<and> (rl_endpoint saved \<noteq> rl_endpoint (relay_config e (rw_db w)) \<or>
       rl_bundle saved \<noteq> rl_bundle (relay_config e (rw_db w))) \<longrightarrow> confirm"
    using assms(3) by (auto simp: configure_relay_def Let_def res_simps split: if_splits)
qed

subsection \<open>Draining the queue\<close>

definition drainable :: "edge_core \<Rightarrow> string \<Rightarrow> relay_config \<Rightarrow> int \<Rightarrow> edge_db \<Rightarrow> bool" where
  "drainable core e c h d \<longleftrightarrow> sorted_wrt (<) (map er_sequence (ed_rows d)) \<and> list_all (packed core) (ed_rows d) \<and>
     relay_config e d = c \<and> rl_enabled c \<and>
     (\<forall>r \<in> set (ed_rows d). er_event r = e \<and> er_state r \<noteq> Ox_Acked \<longrightarrow> er_next r \<le> h \<and> er_until r \<le> h)"

definition decodes :: "edge_core \<Rightarrow> bool" where
  "decodes core \<longleftrightarrow> (\<forall>p s. ec_encode core p = Inr s \<longrightarrow> ec_decode core s = Inr p)"

lemma packed_passes:
  assumes "packed core r" and "decodes core" and "claims e k r"
  shows "check_packet core e k = Inr ()"
proof -
  obtain p where p: "ec_encode core p = Inr (er_payload r)" "pk_id p = er_observation r" "format_int (pk_event p) = er_event r"
    using assms(1) by (auto simp: packed_def)
  then have "ec_decode core (er_payload r) = Inr p" using assms(2) by (simp add: decodes_def)
  then show ?thesis using p assms(3) by (simp add: check_packet_def claims_def)
qed

definition settled :: "string \<Rightarrow> string \<Rightarrow> int \<Rightarrow> int \<Rightarrow> edge_row \<Rightarrow> edge_row" where
  "settled endpoint token now later r = release later None 0 (lease endpoint token now r)"

lemma release_None: "release now None retry r = release now None 0 r"
  by (simp add: release_def)

lemma turn_counts_down:
  assumes "drainable core e c h d" and "decodes core" and "\<And>k. send k = None" and "h \<le> now"
    and "relay_turn core send e c now later token random d = (d', failure)"
  shows "failure = None \<and> drainable core e c h d' \<and> edge_pending e d' = edge_pending e d - 1"
proof -
  have sorted: "sorted_wrt (<) (map er_sequence (ed_rows d))" using assms(1) by (simp add: drainable_def)
  obtain d1 k where claim: "claim_relay e c now token d = (d1, k)" by (meson surj_pair)
  from claim sorted show ?thesis
  proof (cases rule: claim_relay_cases)
    case none
    have "\<not> (er_event r = e \<and> er_state r \<noteq> Ox_Acked)" if r: "r \<in> set (ed_rows d)" for r
    proof
      assume "er_event r = e \<and> er_state r \<noteq> Ox_Acked"
      then have "r \<in> set (due_rows e now d)" using assms(1,4) r by (fastforce simp: drainable_def due_rows_def)
      then obtain x xs where x: "due_rows e now d = x # xs" by (cases "due_rows e now d") auto
      have "leased e (er_sequence x) now x" "x \<in> set (ed_rows d)" using due_rowsD [OF x [symmetric]] by blast+
      then have "count_where (leased e (er_sequence x) now) (ed_rows d) = 1"
        using sorted by (intro count_where_one [where key = er_sequence and r = x]) (auto simp: leased_def strict_sorted_iff)
      then have "k \<noteq> None" using claim x assms(1) by (auto simp: claim_relay_def drainable_def)
      then show False using none by simp
    qed
    then have "edge_pending e d = 0" by (simp add: edge_pending_def)
    then show ?thesis using assms(1,5) claim none by (simp add: relay_turn_def)
  next
    case (some r)
    let ?k = "claim_of c token r"
    have dist: "distinct (map er_sequence (ed_rows d))" using sorted by (simp add: strict_sorted_iff)
    have only: "x = r" if "x \<in> set (ed_rows d)" "er_sequence x = er_sequence r" for x
      using that some(1) dist by (auto simp: distinct_map inj_on_def)
    let ?l = "lease_row e (er_sequence r) now (rl_endpoint c) token"
    have lr: "?l r = lease (rl_endpoint c) token now r" using some(2) by (simp add: lease_row_def)
    have other: "?l x = x" if "x \<in> set (ed_rows d)" "x \<noteq> r" for x
      using only [OF that(1)] that(2) by (auto simp: lease_row_def leased_def)
    have held: "held e ?k (?l x) \<longleftrightarrow> x = r" if x: "x \<in> set (ed_rows d)" for x
    proof (cases "x = r")
      case True
      then show ?thesis using some(2) by (simp add: lr held_def claim_of_def leased_def)
    next
      case False
      then have "er_sequence (?l x) \<noteq> er_sequence r" using only x other by metis
      then show ?thesis using False by (auto simp: held_def claim_of_def)
    qed
    have rows1: "ed_rows d1 = map ?l (ed_rows d)" using some(5) by simp
    have "count_where (held e ?k) (ed_rows d1) = 1"
    proof (rule count_where_one [where key = er_sequence and r = "?l r"])
      have "map er_sequence (ed_rows d1) = map er_sequence (ed_rows d)" by (simp add: rows1 lease_row_def)
      then show "distinct (map er_sequence (ed_rows d1))" using dist by simp
      show "?l r \<in> set (ed_rows d1)" using some(1) by (simp add: rows1)
      show "held e ?k (?l r)" using held some(1) by blast
      show "x \<in> set (ed_rows d1) \<Longrightarrow> held e ?k x \<Longrightarrow> er_sequence x = er_sequence (?l r)" for x
        using held by (auto simp: rows1)
    qed
    moreover have conf: "relay_config e d1 = c" using some(5,6) by (simp add: relay_config_def)
    ultimately have fin: "finish_relay e ?k now' None retry d1 =
        Inr (d1\<lparr> ed_rows := map (release_row e ?k now' None retry) (ed_rows d1) \<rparr>)" for now' retry
      using some(7) by (simp add: finish_relay_Inr claim_of_def)
    have "packed core r" using assms(1) some(1) by (simp add: drainable_def list_all_iff)
    then have "send_claim core send e ?k = None"
      using packed_passes [OF _ assms(2), of r e ?k] some(2) assms(3) by (simp add: send_claim_def claims_def claim_of_def leased_def)
    then have turn: "failure = None"
      "d' = d1\<lparr> ed_rows := map (release_row e ?k (later div 1000000) None ((later + relay_backoff (ck_attempts ?k) random) div 1000000)) (ed_rows d1) \<rparr>"
      using assms(5) claim some(4) fin by (auto simp: relay_turn_def Let_def)
    define f where "f = (\<lambda>x. if x = r then settled (rl_endpoint c) token now (later div 1000000) x else x)"
    have "release_row e ?k now' None retry (?l x) = f x" if "x \<in> set (ed_rows d)" "now' = later div 1000000" for x retry now'
      using held [OF that(1)] other [OF that(1)] lr that(2)
      by (auto simp: f_def release_row_def settled_def release_None [of _ retry])
    then have rows: "ed_rows d' = map f (ed_rows d)" using turn(2) rows1 by simp
    have f: "er_sequence (f x) = er_sequence x" "er_event (f x) = er_event x" "packed core (f x) = packed core x" for x
      by (simp_all add: f_def settled_def packed_def)
    have fr: "er_state (f r) = Ox_Acked" by (simp add: f_def settled_def)
    have fx: "x \<noteq> r \<Longrightarrow> f x = x" for x by (simp add: f_def)
    have "relay_config e d' = c" using turn(2) conf by (simp add: relay_config_def)
    moreover have "er_next (f x) \<le> h \<and> er_until (f x) \<le> h" if "x \<in> set (ed_rows d)" "er_event x = e" "er_state (f x) \<noteq> Ox_Acked" for x
      using that fr fx assms(1) by (cases "x = r") (auto simp: drainable_def)
    ultimately have "drainable core e c h d'"
      using assms(1) f by (auto simp: drainable_def rows list_all_iff comp_def)
    moreover have "edge_pending e d' = edge_pending e d - 1"
    proof -
      let ?p = "\<lambda>x. er_event x = e \<and> er_state x \<noteq> Ox_Acked"
      obtain as bs where split: "ed_rows d = as @ r # bs" using some(1) by (meson split_list)
      have "distinct (ed_rows d)" using dist by (simp add: distinct_map)
      then have nin: "r \<notin> set as" "r \<notin> set bs" by (simp_all add: split)
      have "f x = x" if "x \<in> set as \<union> set bs" for x using that nin fx by (cases "x = r") auto
      then have "map f as = as" "map f bs = bs" by (auto intro!: map_idI)
      then show ?thesis using fr some(2) by (simp add: edge_pending_def rows split count_where_Cons leased_def f(2))
    qed
    ultimately show ?thesis using turn(1) by simp
  qed
qed

type_synonym tick = "int \<times> int \<times> string \<times> int"

definition tick_turn :: "edge_core \<Rightarrow> (claim \<Rightarrow> string option) \<Rightarrow> string \<Rightarrow> relay_config \<Rightarrow> tick \<Rightarrow> edge_db \<Rightarrow> edge_db" where
  "tick_turn core send e c t d = (case t of (now, later, token, random) \<Rightarrow> fst (relay_turn core send e c now later token random d))"

lemma turns_drain:
  assumes "drainable core e c h d" and "decodes core" and "\<And>k. send k = None" and "\<forall>t \<in> set ts. h \<le> fst t"
  shows "edge_pending e (fold (tick_turn core send e c) ts d) = edge_pending e d - length ts"
  using assms(1,4)
proof (induction ts arbitrary: d)
  case Nil
  then show ?case by simp
next
  case (Cons t ts)
  obtain now later token random where t: "t = (now, later, token, random)" by (cases t)
  obtain d1 failure where turn: "relay_turn core send e c now later token random d = (d1, failure)" by (meson surj_pair)
  have "h \<le> now" using Cons.prems(2) t by simp
  from turn_counts_down [OF Cons.prems(1) assms(2,3) this turn]
  have "drainable core e c h d1" "edge_pending e d1 = edge_pending e d - 1" by simp_all
  then show ?case using Cons.IH [of d1] Cons.prems(2) by (simp add: tick_turn_def t turn)
qed

text \<open>
  C37.  The queue drains: when the wire format reads back what it wrote, the relay is enabled, every waiting row is due
  and the Hub acknowledges what it is sent, then a sender needs exactly one turn per waiting row.
\<close>

theorem relay_drains:
  assumes "(relay_step core)\<^sup>*\<^sup>* (empty_relay g es) w" and "og_instance g \<noteq> []"
    and "decodes core" and "\<And>k. send k = None" and "rl_enabled (relay_config e (rw_db w))"
    and "\<forall>r \<in> set (ed_rows (rw_db w)). er_next r \<le> h \<and> er_until r \<le> h" and "\<forall>t \<in> set ts. h \<le> fst t"
  shows "edge_pending e (fold (tick_turn core send e (relay_config e (rw_db w))) ts (rw_db w)) = edge_pending e (rw_db w) - length ts"
proof -
  have ok: "edge_ok core w" by (rule relay_reachable [OF assms(1,2)])
  then have "drainable core e (relay_config e (rw_db w)) h (rw_db w)"
    using assms(5,6) by (auto simp: drainable_def edge_ok_def list_all_iff edge_row_ok_def)
  from turns_drain [OF this assms(3,4,7)] show ?thesis by simp
qed

text \<open>The wait after a failed attempt is at least 0.75 seconds and below 30.\<close>

lemma relay_backoff_bounds: "750000000 \<le> relay_backoff n x \<and> relay_backoff n x < 30000000000"
proof -
  let ?b = "backoff_base n"
  have "1 \<le> (2::int) ^ nat (min (max (n - 1) 0) 5)" by simp
  then have b: "1000000000 \<le> ?b" "?b \<le> 30000000000" by (simp_all add: backoff_base_def)
  have wait: "relay_backoff n x = ?b * 3 div 4 + x mod (?b div 4)" by (simp add: relay_backoff_def)
  have "0 \<le> x mod (?b div 4)" "x mod (?b div 4) < ?b div 4" using b by simp_all
  moreover have "750000000 \<le> ?b * 3 div 4" "?b * 3 div 4 + ?b div 4 \<le> ?b" using b by linarith+
  ultimately show ?thesis unfolding wait using b by linarith
qed

end
