(* ===== verification/EdgeWitnesses.thy ===== *)
theory EdgeWitnesses
  imports EdgeRuns
begin

section \<open>The edge journal on a small event\<close>

text \<open>
  Event 7 with one reader, one packet and a Hub: the packet is accepted, claimed, claimed again after the lease
  ran out, delivered and acknowledged; and the properties of the edge journal applied to these runs.
\<close>

definition demo_meta :: edge_meta where
  "demo_meta = \<lparr> em_version = 1, em_session = ''s'', em_profile = ''rfid'', em_evidence = ''c'', em_quality = ''good'' \<rparr>"

definition demo_packet :: packet where
  "demo_packet = \<lparr> pk_id = ''x'', pk_event = 7, pk_status = 1, pk_number = 5, pk_time = 900, pk_ant = 1, pk_epc = ''e'',
     pk_rssi = - 50, pk_board = ''b'', pk_version = 1, pk_source = ''reader'', pk_system = ''edge'', pk_instance = ''box'',
     pk_sequence = 1, pk_meta = demo_meta \<rparr>"

definition demo_core :: edge_core where
  "demo_core = \<lparr> ec_codec = \<lparr> cx_valid = (\<lambda>_ _. True), cx_same = (=) \<rparr>,
     ec_encode = (\<lambda>p. if p = demo_packet then Inr ''packet'' else Inl ''encode''),
     ec_decode = (\<lambda>s. if s = ''packet'' then Inr demo_packet else Inl ''decode''),
     ec_token = (\<lambda>s. s \<noteq> []), ec_rfid = ''rfid'' \<rparr>"

definition demo_origin :: origin where
  "demo_origin = \<lparr> og_instance = ''desk'', og_last = 0 \<rparr>"

lemma demo_instance: "og_instance demo_origin \<noteq> []"
  by (simp add: demo_origin_def)

definition demo_hub :: relay_config where
  "demo_hub = \<lparr> rl_endpoint = ''hub:9'', rl_enabled = True, rl_revision = 0, rl_bundle = [] \<rparr>"

definition demo_saved :: relay_config where
  "demo_saved = demo_hub\<lparr> rl_revision := 1 \<rparr>"

definition demo_row :: edge_row where
  "demo_row = new_edge_row 1 ''x'' ''7'' ''packet'' 950"

definition demo_entry :: observation where
  "demo_entry = \<lparr> ob_id = ''x'', ob_event = ''7'', ob_status = 1, ob_number = 5, ob_time = 900, ob_ant = 1, ob_epc = ''e'',
     ob_rssi = - 50, ob_board = ''b'', ob_disabled = None, ob_version = 1, ob_source = ''reader'', ob_system = ''edge'',
     ob_instance = ''box'', ob_sequence = 1, ob_edge = Some demo_meta \<rparr>"

definition demo_db :: "relay_config \<Rightarrow> edge_row list \<Rightarrow> edge_change list \<Rightarrow> edge_db" where
  "demo_db c rows changes = \<lparr> ed_base = (empty_odb [''7''])\<lparr> od_logs := [demo_entry] \<rparr>, ed_bindings = [(''7'', ''b'', ''s'')],
     ed_explicit = [''7''], ed_rows = rows, ed_counter = 1, ed_relay = [(''7'', c)], ed_changes = changes \<rparr>"

definition demo_changes :: "edge_change list" where
  "demo_changes = [Bindings_Changed ''7'' [] [(''b'', ''s'')],
     Relay_Changed ''7'' \<lparr> rl_endpoint = [], rl_enabled = False, rl_revision = 0, rl_bundle = [] \<rparr> demo_saved 1 True]"

definition demo_world :: "edge_row \<Rightarrow> (string \<times> claim) list \<Rightarrow> (string \<times> claim) list \<Rightarrow> relay_world" where
  "demo_world r issued acks = \<lparr> rw_origin = demo_origin, rw_db = demo_db demo_saved [r] demo_changes, rw_issued = issued, rw_acks = acks \<rparr>"

definition demo_claim :: "string \<Rightarrow> int \<Rightarrow> claim" where
  "demo_claim token n = \<lparr> ck_sequence = 1, ck_observation = ''x'', ck_payload = ''packet'', ck_token = token,
     ck_endpoint = ''hub:9'', ck_revision = 1, ck_attempts = n \<rparr>"

lemma demo_entry_of: "stored (entry_of ''7'' demo_packet) = demo_entry"
  by (simp add: stored_def entry_of_def demo_packet_def demo_entry_def)

lemma demo_numbers: "format_int 7 = ''7''" "format_int 8 = ''8''" "format_int 9 = ''9''"
  by code_simp+

lemma demo_board: "tidy_board ''b''"
proof -
  have "trim_space ''b'' = ''b''" by code_simp
  then show ?thesis by (simp add: tidy_board_def is_control_def text_eval)
qed

definition demo_bound :: edge_db where
  "demo_bound = (rw_db (empty_relay demo_origin [''7'']))\<lparr> ed_explicit := [''7''], ed_bindings := [(''7'', ''b'', ''s'')],
     ed_changes := [Bindings_Changed ''7'' [] [(''b'', ''s'')]] \<rparr>"

lemma demo_provision: "set_edge_bindings demo_core ''7'' [(''b'', ''s'')] (rw_db (empty_relay demo_origin [''7''])) = Inr demo_bound"
  by (simp add: set_edge_bindings_def demo_board demo_core_def empty_relay_def empty_odb_def edge_bindings_def demo_bound_def)

definition demo_accepted :: edge_db where
  "demo_accepted = demo_bound\<lparr> ed_base := (empty_odb [''7''])\<lparr> od_logs := [demo_entry] \<rparr>, ed_rows := [demo_row], ed_counter := 1 \<rparr>"

lemma demo_accept: "accept_edge demo_core 950 ''7'' demo_packet False demo_bound = Inr (demo_accepted, entry_of ''7'' demo_packet, True)"
proof -
  have "pk_id demo_packet = ''x''" "pk_board demo_packet = ''b''" "format_int (pk_event demo_packet) = ''7''"
    "em_session (pk_meta demo_packet) = ''s''"
    by (simp_all add: demo_packet_def demo_meta_def demo_numbers)
  moreover have "find_physical (entry_of ''7'' demo_packet) (ed_base demo_bound) = Inr None"
    by (simp add: find_physical_def aliases_def demo_bound_def empty_relay_def empty_odb_def Let_def)
  moreover have "journal_edge ''7'' demo_packet ''packet'' 950 demo_bound = Inr demo_accepted"
    using \<open>pk_id demo_packet = ''x''\<close>
    by (simp add: journal_edge_def demo_entry_of demo_bound_def empty_relay_def empty_odb_def demo_accepted_def demo_row_def)
  moreover have "find_log ''x'' (ed_base demo_bound) = None" "bound_session ''7'' ''b'' demo_bound = Some ''s''"
    by (simp_all add: demo_bound_def empty_relay_def empty_odb_def find_log_def bound_session_def)
  ultimately show ?thesis by (simp add: accept_edge_def demo_core_def session_for_def)
qed

lemma demo_tidy: "tidy_config (demo_hub\<lparr> rl_endpoint := a, rl_revision := n \<rparr>) = Inr (demo_hub\<lparr> rl_endpoint := a, rl_revision := n \<rparr>)"
  if "a = ''hub:9'' \<or> a = ''new:8''" and "0 \<le> n"
proof -
  have 0: "parse_int 64 ''8'' = Some 8" "parse_int 64 ''9'' = Some 9" by (simp_all add: text_eval)
  have "split_host_port ''hub:9'' = Some (''hub'', ''9'')" "split_host_port ''new:8'' = Some (''new'', ''8'')"
    "trim_space ''hub:9'' = ''hub:9''" "trim_space ''new:8'' = ''new:8''" by code_simp+
  then have 1: "trim_space a = a" "tidy_address a = Some a"
    using that(1) 0 by (auto simp: tidy_address_def demo_numbers join_host_port_def)
  have 2: "trim_prefix ''tcp://'' a = a" "has_prefix ''tls://'' a = False" "a \<noteq> []"
    using that(1) by (auto simp: trim_prefix_def has_prefix_def)
  show ?thesis using that(2) 1 2 by (simp add: tidy_config_def bad_bundle_def demo_hub_def Let_def)
qed

lemma demo_configure: "configure_relay ''7'' demo_hub True demo_accepted = Inr (demo_db demo_saved [demo_row] demo_changes, demo_saved)"
proof -
  have "tidy_config demo_hub = Inr demo_hub" using demo_tidy [of "''hub:9''" 0] by (simp add: demo_hub_def)
  then show ?thesis
    by (simp add: configure_relay_def Let_def demo_accepted_def demo_bound_def empty_relay_def empty_odb_def relay_config_def
        demo_hub_def demo_saved_def save_config_def edge_pending_def count_where_def demo_row_def new_edge_row_def demo_db_def demo_changes_def)
qed

definition demo_leased :: "string \<Rightarrow> int \<Rightarrow> edge_row \<Rightarrow> edge_row" where
  "demo_leased token now r = lease ''hub:9'' token now r"

lemma demo_claims:
  "claim_relay ''7'' demo_saved 1000 ''t'' (demo_db demo_saved [demo_row] demo_changes) =
    (demo_db demo_saved [demo_leased ''t'' 1000 demo_row] demo_changes, Some (demo_claim ''t'' 1))"
  "claim_relay ''7'' demo_saved 40000 ''u'' (demo_db demo_saved [demo_leased ''t'' 1000 demo_row] demo_changes) =
    (demo_db demo_saved [demo_leased ''u'' 40000 (demo_leased ''t'' 1000 demo_row)] demo_changes, Some (demo_claim ''u'' 2))"
  by (simp_all add: claim_relay_def relay_config_def demo_db_def demo_saved_def demo_hub_def due_rows_def leased_def demo_row_def
      new_edge_row_def update_where_def count_where_def demo_leased_def lease_def lease_millis_def claim_of_def demo_claim_def)

definition first_claim :: relay_world where
  "first_claim = demo_world (demo_leased ''t'' 1000 demo_row) [(''7'', demo_claim ''t'' 1)] []"

definition second_claim :: relay_world where
  "second_claim = demo_world (demo_leased ''u'' 40000 (demo_leased ''t'' 1000 demo_row))
     [(''7'', demo_claim ''t'' 1), (''7'', demo_claim ''u'' 2)] []"

definition delivered :: relay_world where
  "delivered = demo_world (release 1500 None 0 (demo_leased ''t'' 1000 demo_row)) [(''7'', demo_claim ''t'' 1)] [(''7'', demo_claim ''t'' 1)]"

lemma demo_ready: "(relay_step demo_core)\<^sup>*\<^sup>* (empty_relay demo_origin [''7'']) (demo_world demo_row [] [])"
proof -
  let ?w = "empty_relay demo_origin [''7'']"
  have "relay_step demo_core ?w (?w\<lparr> rw_db := demo_bound \<rparr>)" by (rule relay_step.provision [OF demo_provision])
  moreover have "relay_step demo_core (?w\<lparr> rw_db := demo_bound \<rparr>) (?w\<lparr> rw_db := demo_accepted \<rparr>)"
    using relay_step.accept [of demo_core 950 "''7''" demo_packet False "?w\<lparr> rw_db := demo_bound \<rparr>"] demo_accept by simp
  moreover have "relay_step demo_core (?w\<lparr> rw_db := demo_accepted \<rparr>) (demo_world demo_row [] [])"
    using relay_step.configure [of "''7''" demo_hub True "?w\<lparr> rw_db := demo_accepted \<rparr>" _ demo_saved demo_core] demo_configure
    by (simp add: demo_world_def empty_relay_def)
  ultimately show ?thesis by (meson converse_rtranclp_into_rtranclp r_into_rtranclp)
qed

lemma demo_first: "(relay_step demo_core)\<^sup>*\<^sup>* (empty_relay demo_origin [''7'']) first_claim"
proof -
  have "relay_step demo_core (demo_world demo_row [] []) first_claim"
    using relay_step.claim [of "''7''" demo_saved 1000 "''t''" "demo_world demo_row [] []"] demo_claims(1)
    by (simp add: demo_world_def first_claim_def)
  then show ?thesis using demo_ready by (rule rtranclp.rtrancl_into_rtrancl [rotated])
qed

lemma demo_second: "(relay_step demo_core)\<^sup>*\<^sup>* (empty_relay demo_origin [''7'']) second_claim"
proof -
  have "relay_step demo_core first_claim second_claim"
    using relay_step.claim [of "''7''" demo_saved 40000 "''u''" first_claim] demo_claims(2)
    by (simp add: demo_world_def first_claim_def second_claim_def demo_claim_def)
  then show ?thesis using demo_first by (rule rtranclp.rtrancl_into_rtrancl [rotated])
qed

lemma demo_finish:
  "finish_relay ''7'' (demo_claim ''t'' 1) 1500 None 0 (rw_db first_claim) = Inr (rw_db delivered)"
  by (simp add: finish_relay_def first_claim_def delivered_def demo_world_def demo_db_def relay_config_def demo_saved_def demo_hub_def
      demo_claim_def count_where_def held_def demo_leased_def lease_def demo_row_def new_edge_row_def update_where_def Let_def)

lemma demo_delivered_steps: "(relay_step demo_core)\<^sup>*\<^sup>* first_claim delivered"
proof -
  let ?x = "(''7'', demo_claim ''t'' 1)"
  have "check_packet demo_core ''7'' (demo_claim ''t'' 1) = Inr ()"
    by (simp add: check_packet_def demo_core_def demo_claim_def demo_packet_def demo_numbers)
  then have "relay_step demo_core first_claim (first_claim\<lparr> rw_acks := [?x] \<rparr>)"
    using relay_step.acknowledge [of "''7''" "demo_claim ''t'' 1" first_claim demo_core] by (simp add: first_claim_def demo_world_def)
  moreover have "relay_step demo_core (first_claim\<lparr> rw_acks := [?x] \<rparr>) delivered"
    using relay_step.finish [of "''7''" "demo_claim ''t'' 1" "first_claim\<lparr> rw_acks := [?x] \<rparr>" None 1500 0 "rw_db delivered" demo_core]
      demo_finish by (simp add: first_claim_def demo_world_def delivered_def)
  ultimately show ?thesis by (meson converse_rtranclp_into_rtranclp r_into_rtranclp)
qed

lemma demo_delivered: "(relay_step demo_core)\<^sup>*\<^sup>* (empty_relay demo_origin [''7'']) delivered"
  using demo_first demo_delivered_steps by (rule rtranclp_trans)

theorem acked_rows_were_delivered_witness:
  "\<exists>k. (''7'', k) \<in> set (rw_acks delivered) \<and> ck_payload k = ''packet''"
proof -
  let ?r = "release 1500 None 0 (demo_leased ''t'' 1000 demo_row)"
  have r: "?r \<in> set (ed_rows (rw_db delivered))" by (simp add: delivered_def demo_world_def demo_db_def)
  show ?thesis
    using acked_rows_were_delivered [OF demo_delivered demo_instance r]
    by (auto simp: demo_leased_def demo_row_def new_edge_row_def)
qed

theorem edge_journal_immutable_witness:
  "\<exists>r' \<in> set (ed_rows (rw_db delivered)). er_sequence r' = 1 \<and> er_payload r' = ''packet''"
proof -
  have r: "demo_leased ''t'' 1000 demo_row \<in> set (ed_rows (rw_db first_claim))"
    by (simp add: first_claim_def demo_world_def demo_db_def)
  show ?thesis
    using edge_journal_immutable [OF demo_first demo_instance demo_delivered_steps r]
    by (auto simp: demo_leased_def demo_row_def new_edge_row_def)
qed

theorem stale_claim_refused_witness:
  "\<exists>err. finish_relay ''7'' (demo_claim ''t'' 1) 41000 None 0 (rw_db second_claim) = Inl err"
proof (rule stale_claim_refused [OF demo_second demo_instance _ _ rtranclp.rtrancl_refl])
  show "(''7'', demo_claim ''t'' 1) \<in> set (rw_issued second_claim)" by (simp add: second_claim_def demo_world_def)
  show "\<forall>r \<in> set (ed_rows (rw_db second_claim)). er_sequence r = ck_sequence (demo_claim ''t'' 1) \<longrightarrow>
      er_token r \<noteq> Some (ck_token (demo_claim ''t'' 1))"
    by (simp add: second_claim_def demo_world_def demo_db_def demo_leased_def demo_claim_def)
qed

theorem claim_takes_the_first_due_row_witness:
  "\<exists>r \<in> set (ed_rows (rw_db first_claim)). claims ''7'' (demo_claim ''u'' 2) r \<and> er_until r \<le> 40000"
proof -
  have "claim_relay ''7'' demo_saved 40000 ''u'' (rw_db first_claim) = (rw_db second_claim, Some (demo_claim ''u'' 2))"
    using demo_claims(2) by (simp add: first_claim_def second_claim_def demo_world_def)
  from claim_takes_the_first_due_row [OF demo_first demo_instance this] show ?thesis by blast
qed

theorem redirected_claims_refused_witness:
  "\<exists>d saved. configure_relay ''7'' (demo_hub\<lparr> rl_endpoint := ''new:8'', rl_revision := 1 \<rparr>) True (rw_db first_claim) = Inr (d, saved) \<and>
     (\<exists>err. finish_relay ''7'' (demo_claim ''t'' 1) 1500 None 0 d = Inl err)"
proof -
  let ?c = "demo_hub\<lparr> rl_endpoint := ''new:8'', rl_revision := 1 \<rparr>"
  have "tidy_config ?c = Inr ?c" by (rule demo_tidy) simp_all
  then have "\<exists>d. configure_relay ''7'' ?c True (rw_db first_claim) = Inr (d, ?c\<lparr> rl_revision := 2 \<rparr>)"
    by (simp add: configure_relay_def Let_def first_claim_def demo_world_def demo_db_def relay_config_def demo_saved_def demo_hub_def empty_odb_def)
  then obtain d where d: "configure_relay ''7'' ?c True (rw_db first_claim) = Inr (d, ?c\<lparr> rl_revision := 2 \<rparr>)" ..
  have other: "?c\<lparr> rl_revision := 2 \<rparr> \<noteq> relay_config ''7'' (rw_db first_claim)"
    by (simp add: first_claim_def demo_world_def demo_db_def relay_config_def demo_saved_def demo_hub_def)
  have issued: "(''7'', demo_claim ''t'' 1) \<in> set (rw_issued first_claim)" by (simp add: first_claim_def demo_world_def)
  from redirected_claims_refused [OF demo_first demo_instance d other issued rtranclp.rtrancl_refl]
  show ?thesis using d by auto
qed

theorem relay_drains_witness:
  "edge_pending ''7'' (fold (tick_turn demo_core (\<lambda>_. None) ''7'' demo_saved) [(1000, 1001000000, ''t'', 5)] (rw_db (demo_world demo_row [] []))) = 0"
proof -
  let ?w = "demo_world demo_row [] []"
  have c: "relay_config ''7'' (rw_db ?w) = demo_saved" by (simp add: demo_world_def demo_db_def relay_config_def)
  have "edge_pending ''7'' (fold (tick_turn demo_core (\<lambda>_. None) ''7'' (relay_config ''7'' (rw_db ?w))) [(1000, 1001000000, ''t'', 5)] (rw_db ?w)) =
      edge_pending ''7'' (rw_db ?w) - length [(1000::int, 1001000000::int, ''t'', 5::int)]"
    by (rule relay_drains [OF demo_ready demo_instance, where h = 0])
      (auto simp: decodes_def demo_core_def demo_saved_def demo_hub_def demo_world_def demo_db_def demo_row_def new_edge_row_def
        relay_config_def split: if_splits)
  then show ?thesis
    by (simp add: c) (simp add: demo_world_def demo_db_def edge_pending_def count_where_def demo_row_def new_edge_row_def)
qed

end
