(* ===== verification/PacketLan.thy ===== *)
theory PacketLan
  imports Prelude GoLib "HOL-Library.Word"
begin

section \<open>Tablets on the local network\<close>

text \<open>
  \<^verbatim>\<open>infrastructure/sqlite/packet_lan_state.go\<close>: invitations with a pairing code, connections claimed by one
  tablet with a credential of its own, and their revocation.  Instants are nanoseconds, stored instants
  milliseconds.  Parameters: the SHA-256 digest, and the random bytes of a new connection.
\<close>

record lan_row =
  ln_connection :: string
  ln_event :: string
  ln_scope :: string
  ln_label :: string
  ln_pairing :: string
  ln_credential :: "string option"
  ln_origin :: "string option"
  ln_created :: int
  ln_invited :: int
  ln_expires :: int
  ln_claimed :: "int option"
  ln_revoked :: "int option"
  ln_reason :: string

datatype lan_action = Invite | Claim | Revoke

record lan_audit =
  la_connection :: string
  la_event :: string
  la_action :: lan_action
  la_origin :: "string option"
  la_reason :: string
  la_recorded :: int

record lan_db =
  lb_runtime :: "(string \<times> bool) option"
  lb_rows :: "lan_row list"
  lb_audit :: "lan_audit list"

type_synonym digest = "string \<Rightarrow> 8 word list"

subsection \<open>Encodings\<close>

definition hex_digit :: "nat \<Rightarrow> char" where
  "hex_digit n = ''0123456789abcdef'' ! n"

definition hex_byte :: "8 word \<Rightarrow> string" where
  "hex_byte b = [hex_digit (unat b div 16), hex_digit (unat b mod 16)]"

definition hex_text :: "8 word list \<Rightarrow> string" where
  "hex_text bs = concat (map hex_byte bs)"

definition hex_digit_value :: "char \<Rightarrow> nat option" where
  "hex_digit_value c = (let b = byte_of c in
     if 48 \<le> b \<and> b \<le> 57 then Some (b - 48)
     else if 97 \<le> b \<and> b \<le> 102 then Some (b - 87)
     else if 65 \<le> b \<and> b \<le> 70 then Some (b - 55) else None)"

fun hex_bytes :: "string \<Rightarrow> 8 word list option" where
  "hex_bytes [] = Some []"
| "hex_bytes [c] = None"
| "hex_bytes (c # d # s) = (case (hex_digit_value c, hex_digit_value d) of
     (Some x, Some y) \<Rightarrow> map_option (Cons (of_nat (16 * x + y))) (hex_bytes s)
   | _ \<Rightarrow> None)"

definition base64_alphabet :: string where
  "base64_alphabet = ''ABCDEFGHIJKLMNOPQRSTUVWXYZabcdefghijklmnopqrstuvwxyz0123456789-_''"

definition base64_digit :: "nat \<Rightarrow> char" where
  "base64_digit n = base64_alphabet ! n"

text \<open>\<^verbatim>\<open>RawURLEncoding\<close>, three bytes to four digits.\<close>

fun base64_text :: "8 word list \<Rightarrow> string" where
  "base64_text [] = []"
| "base64_text [a] = [base64_digit (unat a div 4), base64_digit (unat a mod 4 * 16)]"
| "base64_text [a, b] = [base64_digit (unat a div 4), base64_digit (unat a mod 4 * 16 + unat b div 16),
     base64_digit (unat b mod 16 * 4)]"
| "base64_text (a # b # c # s) = [base64_digit (unat a div 4), base64_digit (unat a mod 4 * 16 + unat b div 16),
     base64_digit (unat b mod 16 * 4 + unat c div 64), base64_digit (unat c mod 64)] @ base64_text s"

definition base64_value :: "char \<Rightarrow> nat option" where
  "base64_value c = index_of c base64_alphabet"

text \<open>
  A secret is the text of 32 bytes: 43 digits, the last of which has no bits to spare.  The decoder would skip line
  breaks, but the text is compared with what it encodes to.
\<close>

definition valid_secret :: "string \<Rightarrow> bool" where
  "valid_secret s \<longleftrightarrow> length s = 43 \<and> list_all (\<lambda>c. base64_value c \<noteq> None) s \<and>
     (case base64_value (last s) of None \<Rightarrow> False | Some n \<Rightarrow> n mod 4 = 0)"

definition valid_uuid :: "string \<Rightarrow> bool" where
  "valid_uuid s \<longleftrightarrow> length s = 36 \<and> s ! 8 = CHR ''-'' \<and> s ! 13 = CHR ''-'' \<and> s ! 18 = CHR ''-'' \<and> s ! 23 = CHR ''-'' \<and>
     s ! 14 = CHR ''4'' \<and>
     (case hex_bytes (filter (\<lambda>c. c \<noteq> CHR ''-'') s) of None \<Rightarrow> False
      | Some bs \<Rightarrow> length bs = 16 \<and> unat (bs ! 8) div 64 = 2)"

definition uuid_text :: "8 word list \<Rightarrow> string" where
  "uuid_text bs = (let v = bs[6 := and (bs ! 6) 15 + 64, 8 := and (bs ! 8) 63 + 128] in
     hex_text (take 4 v) @ ''-'' @ hex_text (take 2 (drop 4 v)) @ ''-'' @ hex_text (take 2 (drop 6 v)) @ ''-'' @
     hex_text (take 2 (drop 8 v)) @ ''-'' @ hex_text (drop 10 v))"

definition lan_hash :: "digest \<Rightarrow> string \<Rightarrow> string" where
  "lan_hash sha s = hex_text (sha s)"

definition same_hash :: "digest \<Rightarrow> string \<Rightarrow> string \<Rightarrow> bool" where
  "same_hash sha hash s \<longleftrightarrow> hex_bytes hash = Some (sha s)"

definition valid_text :: "string \<Rightarrow> nat \<Rightarrow> bool" where
  "valid_text s limit \<longleftrightarrow> s \<noteq> [] \<and> length s \<le> limit \<and> (case runes_of s of None \<Rightarrow> False
     | Some rs \<Rightarrow> list_all (\<lambda>r. \<not> is_control r \<and> \<not> (8234 \<le> r \<and> r \<le> 8238) \<and> \<not> (8294 \<le> r \<and> r \<le> 8297)) rs)"

subsection \<open>The access point\<close>

definition enable_lan :: "string \<Rightarrow> lan_db \<Rightarrow> lan_db res" where
  "enable_lan e d = (if trim_space e = [] then Inl ''invalid packet LAN event'' else Inr (d\<lparr> lb_runtime := Some (e, True) \<rparr>))"

definition disable_lan :: "lan_db \<Rightarrow> lan_db" where
  "disable_lan d = d\<lparr> lb_runtime := map_option (\<lambda>r. (fst r, False)) (lb_runtime d) \<rparr>"

definition active_lan :: "lan_db \<Rightarrow> string \<times> bool" where
  "active_lan d = (case lb_runtime d of None \<Rightarrow> ([], False) | Some r \<Rightarrow> r)"

subsection \<open>Connections\<close>

definition millis :: "int \<Rightarrow> int" where
  "millis now = now div 1000000"

definition after_instant :: "int \<Rightarrow> int \<Rightarrow> bool" where
  "after_instant ms now \<longleftrightarrow> ms * 1000000 > now"

definition invitation_ttl :: int where
  "invitation_ttl = 10 * 60 * 1000"

definition connection_ttl :: int where
  "connection_ttl = 7 * 24 * 60 * 60 * 1000"

definition max_peers :: nat where
  "max_peers = 32"

definition alive :: "int \<Rightarrow> lan_row \<Rightarrow> bool" where
  "alive ms r \<longleftrightarrow> ln_revoked r = None \<and>
     (ln_claimed r \<noteq> None \<and> ln_expires r > ms \<or> ln_claimed r = None \<and> ln_invited r > ms)"

definition audit :: "string \<Rightarrow> string \<Rightarrow> lan_action \<Rightarrow> string option \<Rightarrow> string \<Rightarrow> int \<Rightarrow> lan_audit" where
  "audit i e a origin reason ms = \<lparr> la_connection = i, la_event = e, la_action = a, la_origin = origin, la_reason = reason,
     la_recorded = ms \<rparr>"

record invitation =
  iv_connection :: string
  iv_event :: string
  iv_scope :: string
  iv_label :: string
  iv_code :: string
  iv_expires :: int

definition new_connection :: "string \<Rightarrow> string \<Rightarrow> string \<Rightarrow> string \<Rightarrow> string \<Rightarrow> int \<Rightarrow> lan_row" where
  "new_connection i e scope label hash ms = \<lparr> ln_connection = i, ln_event = e, ln_scope = scope, ln_label = label,
     ln_pairing = hash, ln_credential = None, ln_origin = None, ln_created = ms, ln_invited = ms + invitation_ttl,
     ln_expires = ms + connection_ttl, ln_claimed = None, ln_revoked = None, ln_reason = [] \<rparr>"

definition create_invitation :: "digest \<Rightarrow> 8 word list \<Rightarrow> 8 word list \<Rightarrow> string \<Rightarrow> string \<Rightarrow> string \<Rightarrow> int \<Rightarrow> lan_db \<Rightarrow>
    (lan_db \<times> invitation) res" where
  "create_invitation sha uuid secret e scope label now d =
    (let label = trim_space label; ms = millis now in
     if e = [] \<or> scope = [] \<or> \<not> valid_text label 160 then Inl ''invalid packet LAN invitation''
     else if count_where (\<lambda>r. ln_event r = e \<and> alive ms r) (lb_rows d) \<ge> max_peers
     then Inl ''maximum packet LAN connections reached''
     else let i = uuid_text uuid; code = base64_text secret in
       if list_ex (\<lambda>r. ln_connection r = i) (lb_rows d) then Inl ''UNIQUE''
       else Inr (d\<lparr> lb_rows := lb_rows d @ [new_connection i e scope label (lan_hash sha code) ms],
                    lb_audit := lb_audit d @ [audit i e Invite None [] ms] \<rparr>,
                 \<lparr> iv_connection = i, iv_event = e, iv_scope = scope, iv_label = label, iv_code = code,
                   iv_expires = ms + invitation_ttl \<rparr>))"

definition find_connection :: "string \<Rightarrow> lan_db \<Rightarrow> lan_row option" where
  "find_connection i d = List.find (\<lambda>r. ln_connection r = i) (lb_rows d)"

definition take_connection :: "string \<Rightarrow> string \<Rightarrow> int \<Rightarrow> lan_row \<Rightarrow> lan_row" where
  "take_connection hash origin ms r = r\<lparr> ln_credential := Some hash, ln_origin := Some origin, ln_claimed := Some ms \<rparr>"

definition text_or_empty :: "string option \<Rightarrow> string" where
  "text_or_empty x = (case x of None \<Rightarrow> [] | Some s \<Rightarrow> s)"

definition claim_lan :: "digest \<Rightarrow> string \<Rightarrow> string \<Rightarrow> string \<Rightarrow> string \<Rightarrow> int \<Rightarrow> lan_db \<Rightarrow> (lan_db \<times> lan_row) res" where
  "claim_lan sha i code origin credential now d =
    (if \<not> valid_uuid origin \<or> \<not> valid_secret code \<or> \<not> valid_secret credential then Inl ''invalid packet LAN claim''
     else case find_connection i d of
       None \<Rightarrow> Inl ''packet LAN connection unavailable''
     | Some r \<Rightarrow>
         if ln_revoked r \<noteq> None \<or> \<not> after_instant (ln_expires r) now \<or> \<not> same_hash sha (ln_pairing r) code
         then Inl ''packet LAN connection unavailable''
         else if ln_claimed r \<noteq> None
         then (if text_or_empty (ln_origin r) \<noteq> origin \<or> \<not> same_hash sha (text_or_empty (ln_credential r)) credential
               then Inl ''packet LAN connection identity conflict'' else Inr (d, r))
         else if \<not> after_instant (ln_invited r) now then Inl ''packet LAN invitation expired''
         else let r' = take_connection (lan_hash sha credential) origin (millis now) r in
           Inr (d\<lparr> lb_rows := update_where (\<lambda>x. ln_connection x = i \<and> ln_claimed x = None)
                       (take_connection (lan_hash sha credential) origin (millis now)) (lb_rows d),
                   lb_audit := lb_audit d @ [audit i (ln_event r) Claim (Some origin) [] (millis now)] \<rparr>, r'))"

definition authenticate_lan :: "digest \<Rightarrow> string \<Rightarrow> string \<Rightarrow> int \<Rightarrow> lan_db \<Rightarrow> lan_row res" where
  "authenticate_lan sha i credential now d =
    (if \<not> valid_secret credential then Inl ''packet LAN connection unavailable''
     else case find_connection i d of
       None \<Rightarrow> Inl ''packet LAN connection unavailable''
     | Some r \<Rightarrow>
         if ln_claimed r = None \<or> ln_revoked r \<noteq> None \<or> \<not> after_instant (ln_expires r) now \<or>
            \<not> same_hash sha (text_or_empty (ln_credential r)) credential
         then Inl ''packet LAN connection unavailable'' else Inr r)"

definition list_connections :: "string \<Rightarrow> lan_db \<Rightarrow> lan_row list" where
  "list_connections e d = take 100 (sort_key (\<lambda>r. - ln_created r) (sort_key ln_connection (filter (\<lambda>r. ln_event r = e) (lb_rows d))))"

definition revoke_row :: "string \<Rightarrow> int \<Rightarrow> lan_row \<Rightarrow> lan_row" where
  "revoke_row reason ms r = r\<lparr> ln_revoked := Some ms, ln_reason := reason \<rparr>"

definition revoke_lan :: "string \<Rightarrow> string \<Rightarrow> string \<Rightarrow> int \<Rightarrow> lan_db \<Rightarrow> lan_db res" where
  "revoke_lan e i reason now d =
    (let reason = trim_space reason; p = (\<lambda>r. ln_event r = e \<and> ln_connection r = i \<and> ln_revoked r = None) in
     if \<not> valid_text reason 500 then Inl ''invalid packet LAN revoke reason''
     else if count_where p (lb_rows d) \<noteq> 1 then Inl ''packet LAN connection unavailable''
     else Inr (d\<lparr> lb_rows := update_where p (revoke_row reason (millis now)) (lb_rows d),
                  lb_audit := lb_audit d @ [audit i e Revoke None reason (millis now)] \<rparr>))"

end
