(* ===== verification/PacketLanLaws.thy ===== *)
theory PacketLanLaws
  imports PacketLan Machines
begin

section \<open>Who a tablet connection admits\<close>

subsection \<open>Encodings\<close>

lemma hex_digit_value_digit: "n < 16 \<Longrightarrow> hex_digit_value (hex_digit n) = Some n"
proof -
  have "list_all (\<lambda>n. hex_digit_value (hex_digit n) = Some n) [0..<16]"
    by (simp add: upt_rec hex_digit_def hex_digit_value_def byte_of_def)
  then show "n < 16 \<Longrightarrow> hex_digit_value (hex_digit n) = Some n" by (simp add: list_all_iff)
qed

lemma unat_byte: "unat (b :: 8 word) < 256"
  using unsigned_less [of b] by simp

lemma hex_bytes_text: "hex_bytes (hex_text bs) = Some bs"
proof (induction bs)
  case Nil
  then show ?case by (simp add: hex_text_def)
next
  case (Cons b bs)
  have "unat b div 16 < 16" "unat b mod 16 < 16" using unat_byte [of b] by auto
  moreover have "of_nat (16 * (unat b div 16) + unat b mod 16) = b" by simp
  ultimately show ?case using Cons by (simp add: hex_text_def hex_byte_def hex_digit_value_digit)
qed

lemma same_hash_iff: "same_hash sha (lan_hash sha s) t \<longleftrightarrow> sha t = sha s"
  by (auto simp: same_hash_def lan_hash_def hex_bytes_text)

lemma base64_value_digit: "n < 64 \<Longrightarrow> base64_value (base64_digit n) = Some n"
proof -
  have "list_all (\<lambda>n. base64_value (base64_digit n) = Some n) [0..<64]" by code_simp
  then show "n < 64 \<Longrightarrow> base64_value (base64_digit n) = Some n" by (simp add: list_all_iff)
qed

definition quad :: "8 word \<Rightarrow> 8 word \<Rightarrow> 8 word \<Rightarrow> nat list" where
  "quad a b c = [unat a div 4, unat a mod 4 * 16 + unat b div 16, unat b mod 16 * 4 + unat c div 64, unat c mod 64]"

lemma quad_less: "n \<in> set (quad a b c) \<Longrightarrow> n < 64"
  using unat_byte [of a] unat_byte [of b] unat_byte [of c] by (auto simp: quad_def)

fun base64_digits :: "8 word list \<Rightarrow> nat list" where
  "base64_digits (a # b # c # s) = quad a b c @ base64_digits s"
| "base64_digits [a, b] = [unat a div 4, unat a mod 4 * 16 + unat b div 16, unat b mod 16 * 4]"
| "base64_digits [a] = [unat a div 4, unat a mod 4 * 16]"
| "base64_digits [] = []"

lemma base64_text_digits: "base64_text bs = map base64_digit (base64_digits bs)"
  by (induction bs rule: base64_digits.induct) (simp_all add: quad_def)

lemma base64_digits_less: "n \<in> set (base64_digits bs) \<Longrightarrow> n < 64"
proof (induction bs rule: base64_digits.induct)
  case (1 a b c s)
  then show ?case using quad_less [of n a b c] by auto
next
  case (2 a b)
  then show ?case using unat_byte [of a] unat_byte [of b] by auto
next
  case (3 a)
  then show ?case using unat_byte [of a] by auto
qed simp

lemma base64_digits_32:
  assumes "length bs = 3 * k + 2"
  shows "length (base64_digits bs) = 4 * k + 3 \<and> last (base64_digits bs) mod 4 = 0"
  using assms
proof (induction k arbitrary: bs)
  case 0
  then obtain a b where "bs = [a, b]" by (auto simp: length_Suc_conv numeral_eq_Suc)
  then show ?case by simp
next
  case (Suc k)
  then obtain a b c s where bs: "bs = a # b # c # s" "length s = 3 * k + 2"
    by (cases bs; cases "tl bs"; cases "tl (tl bs)") auto
  have "length (base64_digits s) = 4 * k + 3" "last (base64_digits s) mod 4 = 0" using Suc.IH [OF bs(2)] by auto
  moreover have "base64_digits s \<noteq> []" using calculation(1) by auto
  ultimately show ?case by (simp add: bs(1) quad_def)
qed

lemma secret_valid: "length bs = 32 \<Longrightarrow> valid_secret (base64_text bs)"
proof -
  assume "length bs = 32"
  then have d: "length (base64_digits bs) = 43" "last (base64_digits bs) mod 4 = 0"
    using base64_digits_32 [of bs 10] by auto
  then have ne: "base64_digits bs \<noteq> []" by auto
  have "base64_value (base64_digit n) = Some n" if "n \<in> set (base64_digits bs)" for n
    using base64_value_digit base64_digits_less [OF that] by blast
  then show ?thesis using d ne by (auto simp: valid_secret_def base64_text_digits list_all_iff last_map)
qed

subsection \<open>Runs\<close>

text \<open>
  A run remembers the invitations, the successful claims and the revocations; the clock of the Desk does not run
  backwards.
\<close>

record lan_world =
  lw_db :: lan_db
  lw_clock :: int
  lw_invites :: "(invitation \<times> int) list"
  lw_claims :: "(string \<times> string \<times> string \<times> string \<times> int) list"
  lw_revokes :: "string list"

inductive lan_step :: "digest \<Rightarrow> lan_world \<Rightarrow> lan_world \<Rightarrow> bool" for sha where
  invite: "create_invitation sha uuid secret e scope label now (lw_db w) = Inr (d, iv) \<Longrightarrow> lw_clock w \<le> now \<Longrightarrow>
    lan_step sha w (w\<lparr> lw_db := d, lw_clock := now, lw_invites := lw_invites w @ [(iv, now)] \<rparr>)"
| claim: "claim_lan sha i code origin credential now (lw_db w) = Inr (d, r) \<Longrightarrow> lw_clock w \<le> now \<Longrightarrow>
    lan_step sha w (w\<lparr> lw_db := d, lw_clock := now, lw_claims := lw_claims w @ [(i, code, origin, credential, now)] \<rparr>)"
| revoke: "revoke_lan e i reason now (lw_db w) = Inr d \<Longrightarrow> lw_clock w \<le> now \<Longrightarrow>
    lan_step sha w (w\<lparr> lw_db := d, lw_clock := now, lw_revokes := lw_revokes w @ [i] \<rparr>)"
| enable: "enable_lan e (lw_db w) = Inr d \<Longrightarrow> lan_step sha w (w\<lparr> lw_db := d \<rparr>)"
| disable: "lan_step sha w (w\<lparr> lw_db := disable_lan (lw_db w) \<rparr>)"
| wait: "lw_clock w \<le> now \<Longrightarrow> lan_step sha w (w\<lparr> lw_clock := now \<rparr>)"

definition invited :: "digest \<Rightarrow> (invitation \<times> int) list \<Rightarrow> lan_row \<Rightarrow> bool" where
  "invited sha invites r \<longleftrightarrow> (\<exists>(iv, t0) \<in> set invites. iv_connection iv = ln_connection r \<and> iv_event iv = ln_event r \<and>
     iv_scope iv = ln_scope r \<and> ln_pairing r = lan_hash sha (iv_code iv) \<and> ln_invited r = millis t0 + invitation_ttl \<and>
     ln_expires r = millis t0 + connection_ttl)"

definition admitted :: "digest \<Rightarrow> (string \<times> string \<times> string \<times> string \<times> int) list \<Rightarrow> lan_row \<Rightarrow> bool" where
  "admitted sha claims r \<longleftrightarrow> (\<exists>(i, code, origin, credential, t) \<in> set claims. i = ln_connection r \<and>
     same_hash sha (ln_pairing r) code \<and> valid_uuid origin \<and> ln_origin r = Some origin \<and>
     ln_credential r = Some (lan_hash sha credential) \<and> after_instant (ln_invited r) t)"

definition lan_row_ok :: "digest \<Rightarrow> lan_world \<Rightarrow> lan_row \<Rightarrow> bool" where
  "lan_row_ok sha w r \<longleftrightarrow> invited sha (lw_invites w) r \<and> (ln_claimed r \<noteq> None \<longrightarrow> admitted sha (lw_claims w) r) \<and>
     (ln_revoked r = None \<longleftrightarrow> ln_connection r \<notin> set (lw_revokes w))"

definition peers :: "string \<Rightarrow> int \<Rightarrow> lan_db \<Rightarrow> nat" where
  "peers e ms d = count_where (\<lambda>r. ln_event r = e \<and> alive ms r) (lb_rows d)"

definition lan_ok :: "digest \<Rightarrow> lan_world \<Rightarrow> bool" where
  "lan_ok sha w \<longleftrightarrow> distinct (map ln_connection (lb_rows (lw_db w))) \<and>
     (\<forall>r \<in> set (lb_rows (lw_db w)). lan_row_ok sha w r) \<and>
     set (lw_revokes w) \<subseteq> ln_connection ` set (lb_rows (lw_db w)) \<and>
     (\<forall>e. peers e (millis (lw_clock w)) (lw_db w) \<le> max_peers)"

definition same_connection :: "lan_row \<Rightarrow> lan_row \<Rightarrow> bool" where
  "same_connection r r' \<longleftrightarrow> ln_connection r' = ln_connection r \<and> ln_event r' = ln_event r \<and> ln_scope r' = ln_scope r \<and>
     ln_label r' = ln_label r \<and> ln_pairing r' = ln_pairing r \<and> ln_created r' = ln_created r \<and> ln_invited r' = ln_invited r \<and>
     ln_expires r' = ln_expires r \<and>
     (ln_claimed r \<noteq> None \<longrightarrow> ln_claimed r' = ln_claimed r \<and> ln_origin r' = ln_origin r \<and> ln_credential r' = ln_credential r) \<and>
     (ln_revoked r \<noteq> None \<longrightarrow> r' = r)"

definition lan_le :: "lan_world \<Rightarrow> lan_world \<Rightarrow> bool" where
  "lan_le w w' \<longleftrightarrow> (\<forall>r \<in> set (lb_rows (lw_db w)). \<exists>r' \<in> set (lb_rows (lw_db w')). same_connection r r') \<and>
     set (lw_revokes w) \<subseteq> set (lw_revokes w')"

lemma same_connection_refl [simp]: "same_connection r r"
  by (simp add: same_connection_def)

lemma same_connection_trans: "same_connection a b \<Longrightarrow> same_connection b c \<Longrightarrow> same_connection a c"
  unfolding same_connection_def by (cases "ln_claimed a = None"; cases "ln_revoked a = None") auto

lemma alive_earlier: "alive ms' r \<Longrightarrow> ms \<le> ms' \<Longrightarrow> alive ms r"
  by (auto simp: alive_def)

lemma millis_mono: "a \<le> b \<Longrightarrow> millis a \<le> millis b"
  by (simp add: millis_def zdiv_mono1)

lemma after_instant_millis: "after_instant ms now \<Longrightarrow> millis now < ms"
  by (simp add: after_instant_def millis_def)

lemma peers_earlier:
  assumes "ms \<le> ms'"
  shows "peers e ms' d \<le> peers e ms d"
  unfolding peers_def by (rule count_where_mono) (use alive_earlier assms in blast)

lemma peers_map:
  assumes "\<And>r. r \<in> set (lb_rows d) \<Longrightarrow> ln_event (f r) = ln_event r \<and> (alive ms (f r) \<longrightarrow> alive ms r)"
  shows "peers e ms (d\<lparr> lb_rows := map f (lb_rows d), lb_audit := a \<rparr>) \<le> peers e ms d"
proof -
  have "length (filter (\<lambda>r. ln_event r = e \<and> alive ms r) (map f rows)) \<le> length (filter (\<lambda>r. ln_event r = e \<and> alive ms r) rows)"
    if "set rows \<subseteq> set (lb_rows d)" for rows
    using that assms by (induction rows) (auto intro: le_SucI)
  then show ?thesis by (simp add: peers_def count_where_def)
qed

lemma lan_ok_map:
  assumes "lan_ok sha w" and "lb_rows (lw_db w') = map f (lb_rows (lw_db w))" and "lw_clock w \<le> lw_clock w'"
    and "\<And>r. r \<in> set (lb_rows (lw_db w)) \<Longrightarrow> same_connection r (f r) \<and> lan_row_ok sha w' (f r) \<and>
      (alive (millis (lw_clock w')) (f r) \<longrightarrow> alive (millis (lw_clock w')) r)"
    and "set (lw_revokes w) \<subseteq> set (lw_revokes w')"
    and "set (lw_revokes w') \<subseteq> ln_connection ` set (lb_rows (lw_db w))"
  shows "lan_ok sha w' \<and> lan_le w w'"
proof
  let ?rows = "lb_rows (lw_db w)" and ?ms = "millis (lw_clock w')"
  have same: "same_connection r (f r)" if "r \<in> set ?rows" for r using assms(4) that by blast
  have names: "map ln_connection (map f ?rows) = map ln_connection ?rows" using same by (simp add: same_connection_def)
  have "peers e ?ms (lw_db w') \<le> max_peers" for e
  proof -
    have "peers e ?ms (lw_db w') = peers e ?ms ((lw_db w)\<lparr> lb_rows := map f ?rows, lb_audit := [] \<rparr>)" by (simp add: peers_def assms(2))
    also have "\<dots> \<le> peers e ?ms (lw_db w)" using assms(4) by (intro peers_map) (simp add: same_connection_def)
    also have "\<dots> \<le> peers e (millis (lw_clock w)) (lw_db w)" by (intro peers_earlier millis_mono assms(3))
    also have "\<dots> \<le> max_peers" using assms(1) by (simp add: lan_ok_def)
    finally show ?thesis .
  qed
  moreover have "ln_connection ` set (map f ?rows) = ln_connection ` set ?rows" using names by (metis list.set_map)
  moreover have "distinct (map ln_connection ?rows)" using assms(1) by (simp add: lan_ok_def)
  ultimately show "lan_ok sha w'"
    unfolding lan_ok_def assms(2) names using assms(4,6) by auto
  show "lan_le w w'" using same assms(5) by (auto simp: lan_le_def assms(2))
qed

lemma lan_okD:
  assumes "lan_ok sha w"
  shows "distinct (map ln_connection (lb_rows (lw_db w)))" and "\<And>r. r \<in> set (lb_rows (lw_db w)) \<Longrightarrow> lan_row_ok sha w r"
    and "set (lw_revokes w) \<subseteq> ln_connection ` set (lb_rows (lw_db w))" and "peers e (millis (lw_clock w)) (lw_db w) \<le> max_peers"
  using assms by (auto simp: lan_ok_def)

lemma find_connection_Some:
  assumes "distinct (map ln_connection (lb_rows d))"
  shows "find_connection i d = Some r \<longleftrightarrow> r \<in> set (lb_rows d) \<and> ln_connection r = i"
proof
  assume "find_connection i d = Some r"
  then show "r \<in> set (lb_rows d) \<and> ln_connection r = i" unfolding find_connection_def by (auto dest: find_Some_iff')
next
  assume r: "r \<in> set (lb_rows d) \<and> ln_connection r = i"
  then have "find_connection i d \<noteq> None" by (auto simp: find_connection_def find_None_iff)
  then obtain x where x: "find_connection i d = Some x" by blast
  then have "x \<in> set (lb_rows d)" "ln_connection x = i" unfolding find_connection_def by (auto dest: find_Some_iff')
  then show "find_connection i d = Some r" using x r assms by (auto simp: distinct_map inj_on_def)
qed

lemma invited_more: "invited sha xs r \<Longrightarrow> set xs \<subseteq> set ys \<Longrightarrow> invited sha ys r"
  unfolding invited_def by blast

lemma admitted_more: "admitted sha xs r \<Longrightarrow> set xs \<subseteq> set ys \<Longrightarrow> admitted sha ys r"
  unfolding admitted_def by blast

lemma lan_row_ok_more:
  assumes "lan_row_ok sha w r" and "set (lw_invites w) \<subseteq> set (lw_invites w')" and "set (lw_claims w) \<subseteq> set (lw_claims w')"
    and "ln_connection r \<in> set (lw_revokes w') \<longleftrightarrow> ln_connection r \<in> set (lw_revokes w)"
  shows "lan_row_ok sha w' r"
  using assms invited_more [OF _ assms(2)] admitted_more [OF _ assms(3)] by (auto simp: lan_row_ok_def)

lemma lan_keep:
  assumes "lan_ok sha w" and "lb_rows (lw_db w') = lb_rows (lw_db w)" and "lw_clock w \<le> lw_clock w'"
    and "set (lw_invites w) \<subseteq> set (lw_invites w')" and "set (lw_claims w) \<subseteq> set (lw_claims w')" and "lw_revokes w' = lw_revokes w"
  shows "lan_ok sha w' \<and> lan_le w w'"
proof (rule lan_ok_map [OF assms(1), where f = id])
  show "same_connection r (id r) \<and> lan_row_ok sha w' (id r) \<and> (alive (millis (lw_clock w')) (id r) \<longrightarrow> alive (millis (lw_clock w')) r)"
    if "r \<in> set (lb_rows (lw_db w))" for r
    using lan_row_ok_more [OF lan_okD(2) [OF assms(1) that] assms(4,5)] assms(6) by simp
qed (use assms lan_okD(3) [OF assms(1)] in simp_all)

lemma invite_ok:
  assumes "create_invitation sha uuid secret e scope label now (lw_db w) = Inr (d, iv)" and "lw_clock w \<le> now" and "lan_ok sha w"
    and "w' = w\<lparr> lw_db := d, lw_clock := now, lw_invites := lw_invites w @ [(iv, now)] \<rparr>"
  shows "lan_ok sha w' \<and> lan_le w w'"
proof
  let ?d = "lw_db w"
  define r where "r = new_connection (uuid_text uuid) e scope (trim_space label) (lan_hash sha (base64_text secret)) (millis now)"
  have room: "peers e (millis now) ?d < max_peers"
    and fresh: "ln_connection r \<notin> ln_connection ` set (lb_rows ?d)"
    and rows: "lb_rows d = lb_rows ?d @ [r]"
    and r: "ln_event r = e" "ln_revoked r = None" "ln_claimed r = None" "invited sha [(iv, now)] r"
    using assms(1)
    by (auto simp: create_invitation_def Let_def invited_def list_ex_iff peers_def not_le r_def new_connection_def split: if_splits)
  have "peers x (millis now) ?d \<le> max_peers" for x
  proof -
    have "peers x (millis now) ?d \<le> peers x (millis (lw_clock w)) ?d" by (intro peers_earlier millis_mono assms(2))
    also have "\<dots> \<le> max_peers" by (rule lan_okD(4) [OF assms(3)])
    finally show ?thesis .
  qed
  then have count: "peers x (millis now) d \<le> max_peers" for x
    using room r(1) by (cases "x = e") (auto simp: peers_def rows count_where_Cons)
  have old: "lan_row_ok sha w' x" if "x \<in> set (lb_rows ?d)" for x
    by (rule lan_row_ok_more [OF lan_okD(2) [OF assms(3) that]]) (auto simp: assms(4))
  have "ln_connection r \<notin> set (lw_revokes w)" using fresh lan_okD(3) [OF assms(3)] by blast
  then have new: "lan_row_ok sha w' r"
    using r invited_more [OF r(4), of "lw_invites w'"] by (simp add: lan_row_ok_def assms(4))
  show "lan_ok sha w'"
    unfolding lan_ok_def using lan_okD(1,3) [OF assms(3)] old new fresh count by (auto simp: assms(4) rows)
  show "lan_le w w'" by (auto simp: lan_le_def assms(4) rows intro: same_connection_refl)
qed

lemma claim_lan_Inr:
  assumes "claim_lan sha i code origin credential now d = Inr (d', r)" and "distinct (map ln_connection (lb_rows d))"
  obtains (again) "d' = d" | (first) a where "a \<in> set (lb_rows d)" "ln_connection a = i" "ln_claimed a = None" "ln_revoked a = None"
      "valid_uuid origin" "same_hash sha (ln_pairing a) code" "after_instant (ln_expires a) now" "after_instant (ln_invited a) now"
      "lb_rows d' = map (\<lambda>x. if x = a then take_connection (lan_hash sha credential) origin (millis now) x else x) (lb_rows d)"
proof (cases "find_connection i d")
  case None
  then show ?thesis using assms(1) by (auto simp: claim_lan_def split: if_splits)
next
  case (Some a)
  then have a: "a \<in> set (lb_rows d)" "ln_connection a = i" using find_connection_Some [OF assms(2)] by auto
  show ?thesis
  proof (cases "ln_claimed a = None")
    case False
    then show ?thesis using assms(1) Some again by (auto simp: claim_lan_def split: if_splits)
  next
    case True
    have only: "x = a" if "x \<in> set (lb_rows d)" "ln_connection x = i" for x
      using that a assms(2) by (auto simp: distinct_map inj_on_def)
    let ?f = "take_connection (lan_hash sha credential) origin (millis now)"
    have checks: "ln_revoked a = None" "valid_uuid origin" "same_hash sha (ln_pairing a) code" "after_instant (ln_expires a) now"
      "after_instant (ln_invited a) now"
      and rows: "lb_rows d' = update_where (\<lambda>x. ln_connection x = i \<and> ln_claimed x = None) ?f (lb_rows d)"
      using assms(1) Some True by (auto simp: claim_lan_def Let_def split: if_splits)
    have "update_where (\<lambda>x. ln_connection x = i \<and> ln_claimed x = None) ?f (lb_rows d) = map (\<lambda>x. if x = a then ?f x else x) (lb_rows d)"
      unfolding update_where_def
    proof (rule map_cong [OF refl])
      fix x
      assume x: "x \<in> set (lb_rows d)"
      show "(if ln_connection x = i \<and> ln_claimed x = None then ?f x else x) = (if x = a then ?f x else x)"
        using only [OF x] a(2) True by (cases "x = a") auto
    qed
    then show ?thesis using first [OF a True checks] rows by simp
  qed
qed

lemma claim_ok:
  assumes "claim_lan sha i code origin credential now (lw_db w) = Inr (d, r)" and "lw_clock w \<le> now" and "lan_ok sha w"
    and "w' = w\<lparr> lw_db := d, lw_clock := now, lw_claims := lw_claims w @ [(i, code, origin, credential, now)] \<rparr>"
  shows "lan_ok sha w' \<and> lan_le w w'"
  using assms(1) lan_okD(1) [OF assms(3)]
proof (cases rule: claim_lan_Inr)
  case again
  then show ?thesis by (intro lan_keep [OF assms(3)]) (auto simp: assms(2,4))
next
  case (first a)
  let ?f = "\<lambda>x. if x = a then take_connection (lan_hash sha credential) origin (millis now) x else x"
  show ?thesis
  proof (rule lan_ok_map [OF assms(3), where f = ?f])
    fix x
    assume x: "x \<in> set (lb_rows (lw_db w))"
    show "same_connection x (?f x) \<and> lan_row_ok sha w' (?f x) \<and> (alive (millis (lw_clock w')) (?f x) \<longrightarrow> alive (millis (lw_clock w')) x)"
    proof (cases "x = a")
      case False
      then show ?thesis
        using lan_row_ok_more [OF lan_okD(2) [OF assms(3) x], of w'] by (simp add: assms(4) subset_iff)
    next
      case True
      have ok: "lan_row_ok sha w a" using lan_okD(2) [OF assms(3) first(1)] .
      have "admitted sha [(i, code, origin, credential, now)] (?f a)"
        using first by (simp add: admitted_def take_connection_def)
      then have "admitted sha (lw_claims w') (?f a)" by (rule admitted_more) (simp add: assms(4))
      moreover have "invited sha (lw_invites w') (?f a)"
        using ok by (simp add: lan_row_ok_def invited_def take_connection_def assms(4))
      moreover have "ln_revoked (?f a) = None \<longleftrightarrow> ln_connection (?f a) \<notin> set (lw_revokes w')"
        using ok by (simp add: lan_row_ok_def take_connection_def assms(4))
      moreover have "alive (millis now) a" using first(3,4) after_instant_millis [OF first(8)] by (simp add: alive_def)
      moreover have "same_connection a (?f a)" using first(3,4) by (simp add: same_connection_def take_connection_def)
      ultimately show ?thesis by (simp add: True lan_row_ok_def assms(4))
    qed
  qed (use first(9) assms(2) lan_okD(3) [OF assms(3)] in \<open>simp_all add: assms(4)\<close>)
qed

lemma revoke_ok:
  assumes "revoke_lan e i reason now (lw_db w) = Inr d" and "lw_clock w \<le> now" and "lan_ok sha w"
    and "w' = w\<lparr> lw_db := d, lw_clock := now, lw_revokes := lw_revokes w @ [i] \<rparr>"
  shows "lan_ok sha w' \<and> lan_le w w'"
proof -
  let ?p = "\<lambda>r. ln_event r = e \<and> ln_connection r = i \<and> ln_revoked r = None"
  let ?f = "\<lambda>r. if ?p r then revoke_row (trim_space reason) (millis now) r else r"
  have one: "count_where ?p (lb_rows (lw_db w)) = 1" and rows: "lb_rows d = map ?f (lb_rows (lw_db w))"
    using assms(1) by (auto simp: revoke_lan_def Let_def update_where_def split: if_splits)
  have "count_where ?p (lb_rows (lw_db w)) \<noteq> 0" using one by linarith
  then obtain a where a: "a \<in> set (lb_rows (lw_db w))" "?p a" unfolding count_where_0 by blast
  have only: "x = a" if "x \<in> set (lb_rows (lw_db w))" "ln_connection x = i" for x
    using that a lan_okD(1) [OF assms(3)] by (auto simp: distinct_map inj_on_def)
  show ?thesis
  proof (rule lan_ok_map [OF assms(3), where f = ?f])
    fix x
    assume x: "x \<in> set (lb_rows (lw_db w))"
    have ok: "lan_row_ok sha w x" by (rule lan_okD(2) [OF assms(3) x])
    show "same_connection x (?f x) \<and> lan_row_ok sha w' (?f x) \<and> (alive (millis (lw_clock w')) (?f x) \<longrightarrow> alive (millis (lw_clock w')) x)"
    proof (cases "?p x")
      case True
      then show ?thesis
        using ok by (simp add: same_connection_def revoke_row_def lan_row_ok_def invited_def admitted_def assms(4) alive_def)
    next
      case False
      then have "ln_connection x \<noteq> i" using only [OF x] a(2) by auto
      then have "lan_row_ok sha w' x" by (intro lan_row_ok_more [OF ok]) (simp_all add: assms(4))
      then show ?thesis unfolding if_not_P [OF False] by simp
    qed
  qed (use rows assms(2) lan_okD(3) [OF assms(3)] a in \<open>auto simp: assms(4)\<close>)
qed

lemma lan_step_ok:
  assumes "lan_step sha w w'" and "lan_ok sha w"
  shows "lan_ok sha w' \<and> lan_le w w'"
  using assms(1)
proof cases
  case (invite uuid secret e scope label now d iv)
  then show ?thesis using invite_ok [OF invite(2,3) assms(2)] by blast
next
  case (claim i code origin credential now d r)
  then show ?thesis using claim_ok [OF claim(2,3) assms(2)] by blast
next
  case (revoke e i reason now d)
  then show ?thesis using revoke_ok [OF revoke(2,3) assms(2)] by blast
next
  case (enable e d)
  then show ?thesis by (intro lan_keep [OF assms(2)]) (auto simp: enable_lan_def split: if_splits)
next
  case disable
  then show ?thesis by (intro lan_keep [OF assms(2)]) (auto simp: disable_lan_def)
next
  case (wait now)
  then show ?thesis by (intro lan_keep [OF assms(2)]) auto
qed

lemma lan_le_refl: "lan_le w w"
  by (auto simp: lan_le_def intro: same_connection_refl)

lemma lan_le_row: "lan_le u v \<Longrightarrow> r \<in> set (lb_rows (lw_db u)) \<Longrightarrow> \<exists>s \<in> set (lb_rows (lw_db v)). same_connection r s"
  unfolding lan_le_def by (elim conjE) (erule bspec)

lemma lan_le_trans:
  assumes "lan_le u v" and "lan_le v w"
  shows "lan_le u w"
proof -
  have "\<exists>r'' \<in> set (lb_rows (lw_db w)). same_connection r r''" if r: "r \<in> set (lb_rows (lw_db u))" for r
  proof -
    obtain s where s: "s \<in> set (lb_rows (lw_db v))" "same_connection r s" using lan_le_row [OF assms(1) r] by blast
    obtain t where "t \<in> set (lb_rows (lw_db w))" "same_connection s t" using lan_le_row [OF assms(2) s(1)] by blast
    then show ?thesis using same_connection_trans [OF s(2)] by blast
  qed
  moreover have "set (lw_revokes u) \<subseteq> set (lw_revokes w)" using assms unfolding lan_le_def by blast
  ultimately show ?thesis unfolding lan_le_def by blast
qed

interpretation lan: monotone_machine "lan_step sha" "lan_ok sha" lan_le
proof unfold_locales
  fix u v w :: lan_world
  show "lan_step sha u v \<Longrightarrow> lan_ok sha u \<Longrightarrow> lan_ok sha v" using lan_step_ok by blast
  show "lan_le u u" by (rule lan_le_refl)
  show "lan_le u v \<Longrightarrow> lan_le v w \<Longrightarrow> lan_le u w" by (rule lan_le_trans)
  show "lan_step sha u v \<Longrightarrow> lan_ok sha u \<Longrightarrow> lan_le u v" using lan_step_ok by blast
qed

end
