(* ===== verification/PacketLanRuns.thy ===== *)
theory PacketLanRuns
  imports PacketLanLaws
begin

section \<open>Properties of tablet connections\<close>

definition empty_lan :: "int \<Rightarrow> lan_world" where
  "empty_lan t = \<lparr> lw_db = \<lparr> lb_runtime = None, lb_rows = [], lb_audit = [] \<rparr>, lw_clock = t, lw_invites = [], lw_claims = [],
     lw_revokes = [] \<rparr>"

lemma empty_lan_ok: "lan_ok sha (empty_lan t)"
  by (simp add: lan_ok_def empty_lan_def peers_def max_peers_def)

lemma lan_reachable: "(lan_step sha)\<^sup>*\<^sup>* (empty_lan t) w \<Longrightarrow> lan_ok sha w"
  using lan.inv_steps empty_lan_ok by blast

lemma authenticate_Inr:
  assumes "authenticate_lan sha i credential now d = Inr r"
  shows "find_connection i d = Some r \<and> ln_claimed r \<noteq> None \<and> ln_revoked r = None \<and> after_instant (ln_expires r) now \<and>
    same_hash sha (text_or_empty (ln_credential r)) credential"
  using assms by (auto simp: authenticate_lan_def split: if_splits option.splits)

text \<open>
  C38.  Nobody is admitted who was not invited: whoever authenticates on a connection within a run presents a
  credential with the digest of the one the connection was claimed with, by an origin with a well-formed id and the
  pairing code of an invitation to exactly this event and scope; the claim came within ten minutes of the
  invitation, the access within seven days of it, and the connection has not been revoked.
\<close>

theorem tablet_access_is_earned:
  assumes "(lan_step sha)\<^sup>*\<^sup>* (empty_lan t) w" and "authenticate_lan sha i credential now (lw_db w) = Inr r"
  shows "\<exists>iv t0 code origin cred t1. (iv, t0) \<in> set (lw_invites w) \<and> iv_connection iv = i \<and> iv_event iv = ln_event r \<and>
    iv_scope iv = ln_scope r \<and> (i, code, origin, cred, t1) \<in> set (lw_claims w) \<and> sha code = sha (iv_code iv) \<and>
    valid_uuid origin \<and> ln_origin r = Some origin \<and> sha credential = sha cred \<and>
    millis t1 < millis t0 + invitation_ttl \<and> millis now < millis t0 + connection_ttl \<and> i \<notin> set (lw_revokes w)"
proof -
  have ok: "lan_ok sha w" by (rule lan_reachable [OF assms(1)])
  note auth = authenticate_Inr [OF assms(2)]
  then have r: "r \<in> set (lb_rows (lw_db w))" "ln_connection r = i" using find_connection_Some [OF lan_okD(1) [OF ok]] by auto
  have row: "lan_row_ok sha w r" by (rule lan_okD(2) [OF ok r(1)])
  obtain iv t0 where iv: "(iv, t0) \<in> set (lw_invites w)" "iv_connection iv = i" "iv_event iv = ln_event r" "iv_scope iv = ln_scope r"
    "ln_pairing r = lan_hash sha (iv_code iv)" "ln_invited r = millis t0 + invitation_ttl" "ln_expires r = millis t0 + connection_ttl"
    using row r(2) by (auto simp: lan_row_ok_def invited_def)
  obtain code origin cred t1 where c: "(i, code, origin, cred, t1) \<in> set (lw_claims w)" "same_hash sha (ln_pairing r) code"
    "valid_uuid origin" "ln_origin r = Some origin" "ln_credential r = Some (lan_hash sha cred)" "after_instant (ln_invited r) t1"
    using row auth r(2) by (auto simp: lan_row_ok_def admitted_def)
  have "sha credential = sha cred" using auth c(5) by (simp add: text_or_empty_def same_hash_iff)
  moreover have "sha code = sha (iv_code iv)" using c(2) iv(5) by (simp add: same_hash_iff)
  moreover have "millis t1 < millis t0 + invitation_ttl" "millis now < millis t0 + connection_ttl"
    using after_instant_millis [OF c(6)] after_instant_millis auth iv(6,7) by force+
  moreover have "i \<notin> set (lw_revokes w)" using row auth r(2) by (simp add: lan_row_ok_def)
  ultimately show ?thesis using iv(1-4) c(1,3,4) by blast
qed

text \<open>
  C39.  A revoked connection stays closed: after a revocation has succeeded, whatever happens, nobody authenticates on
  the connection and nobody claims it, with any code and any credential.
\<close>

theorem revoked_stays_out:
  assumes "(lan_step sha)\<^sup>*\<^sup>* (empty_lan t) w" and "i \<in> set (lw_revokes w)" and "(lan_step sha)\<^sup>*\<^sup>* w w'"
  shows "(\<exists>err. authenticate_lan sha i credential now (lw_db w') = Inl err) \<and>
    (\<exists>err. claim_lan sha i code origin credential now (lw_db w') = Inl err)"
proof -
  have ok: "lan_ok sha w" by (rule lan_reachable [OF assms(1)])
  have ok': "lan_ok sha w'" by (rule lan.inv_steps [OF assms(3) ok])
  have "i \<in> set (lw_revokes w')" using lan.le_steps [OF assms(3) ok] assms(2) by (auto simp: lan_le_def)
  then have revoked: "ln_revoked r \<noteq> None" if "find_connection i (lw_db w') = Some r" for r
    using that lan_okD(2) [OF ok', of r] find_connection_Some [OF lan_okD(1) [OF ok']] by (auto simp: lan_row_ok_def)
  have "authenticate_lan sha i credential now (lw_db w') \<noteq> Inr r" for r
    using authenticate_Inr [of sha i credential now "lw_db w'" r] revoked by blast
  moreover have "claim_lan sha i code origin credential now (lw_db w') \<noteq> Inr x" for x
    using revoked by (auto simp: claim_lan_def split: option.splits)
  ultimately show ?thesis by (metis obj_sumE)
qed

text \<open>
  A connection belongs to one tablet: once claimed, it keeps its tablet, its credential, its event and scope
  and its expiry for good, so that a later claim by another tablet, or with another credential, is refused.
\<close>

theorem connection_keeps_its_tablet:
  assumes "(lan_step sha)\<^sup>*\<^sup>* (empty_lan t) w" and "r \<in> set (lb_rows (lw_db w))" and "ln_claimed r \<noteq> None"
    and "(lan_step sha)\<^sup>*\<^sup>* w w'"
  shows "\<exists>r'. find_connection (ln_connection r) (lw_db w') = Some r' \<and> ln_origin r' = ln_origin r \<and> ln_credential r' = ln_credential r \<and>
    ln_event r' = ln_event r \<and> ln_scope r' = ln_scope r \<and> ln_expires r' = ln_expires r \<and>
    (ln_origin r \<noteq> Some origin \<longrightarrow> (\<exists>err. claim_lan sha (ln_connection r) code origin credential now (lw_db w') = Inl err))"
proof -
  have ok: "lan_ok sha w" by (rule lan_reachable [OF assms(1)])
  have ok': "lan_ok sha w'" by (rule lan.inv_steps [OF assms(4) ok])
  obtain r' where r': "r' \<in> set (lb_rows (lw_db w'))" "same_connection r r'"
    using lan_le_row [OF lan.le_steps [OF assms(4) ok] assms(2)] by blast
  have find: "find_connection (ln_connection r) (lw_db w') = Some r'"
    using r' find_connection_Some [OF lan_okD(1) [OF ok']] by (simp add: same_connection_def)
  have fields: "ln_origin r' = ln_origin r" "ln_credential r' = ln_credential r" "ln_event r' = ln_event r" "ln_scope r' = ln_scope r"
    "ln_expires r' = ln_expires r" "ln_claimed r' = ln_claimed r"
    using r'(2) assms(3) by (simp_all add: same_connection_def)
  have "\<exists>err. claim_lan sha (ln_connection r) code origin credential now (lw_db w') = Inl err" if other: "ln_origin r \<noteq> Some origin"
  proof -
    have "admitted sha (lw_claims w) r" using lan_okD(2) [OF ok assms(2)] assms(3) by (simp add: lan_row_ok_def)
    then obtain o' where "ln_origin r' = Some o'" "o' \<noteq> origin" using other fields(1) by (auto simp: admitted_def)
    then have "claim_lan sha (ln_connection r) code origin credential now (lw_db w') \<noteq> Inr x" for x
      using find fields(6) assms(3) by (simp add: claim_lan_def text_or_empty_def)
    then show ?thesis by (metis obj_sumE)
  qed
  then show ?thesis using find fields(1-5) by blast
qed

text \<open>
  C40.  An event never has more than 32 tablets: at no time of a run do more than 32 invitations still open or
  connections still valid exist for one event.
\<close>

theorem tablets_bounded:
  assumes "(lan_step sha)\<^sup>*\<^sup>* (empty_lan t) w"
  shows "peers e (millis (lw_clock w)) (lw_db w) \<le> 32"
  using lan_okD(4) [OF lan_reachable [OF assms]] by (simp add: max_peers_def)

text \<open>
  An invitation works: a tablet that claims a fresh invitation with its code in time, with a well-formed id and a
  secret of 32 bytes, is given the connection, and authenticates with the secret on it until it expires.
\<close>

theorem invitation_admits:
  assumes "(lan_step sha)\<^sup>*\<^sup>* (empty_lan t) w"
    and "create_invitation sha uuid code e scope label now (lw_db w) = Inr (d, iv)"
    and "length code = 32" and "length key = 32" and "valid_uuid origin"
    and "after_instant (iv_expires iv) now1" and "after_instant (millis now + connection_ttl) now2"
  shows "\<exists>d' r. claim_lan sha (iv_connection iv) (iv_code iv) origin (base64_text key) now1 d = Inr (d', r) \<and>
    (\<exists>r'. authenticate_lan sha (iv_connection iv) (base64_text key) now2 d' = Inr r' \<and> ln_event r' = e \<and> ln_scope r' = scope \<and>
       ln_origin r' = Some origin)"
proof -
  have ok: "lan_ok sha w" by (rule lan_reachable [OF assms(1)])
  let ?r = "new_connection (uuid_text uuid) e scope (trim_space label) (lan_hash sha (base64_text code)) (millis now)"
  have iv: "iv_connection iv = uuid_text uuid" "iv_code iv = base64_text code" "iv_expires iv = millis now + invitation_ttl"
    and rows: "lb_rows d = lb_rows (lw_db w) @ [?r]"
    and fresh: "\<not> list_ex (\<lambda>r. ln_connection r = uuid_text uuid) (lb_rows (lw_db w))"
    using assms(2) by (auto simp: create_invitation_def Let_def split: if_splits)
  have dist: "distinct (map ln_connection (lb_rows d))"
    using lan_okD(1) [OF ok] fresh by (auto simp: rows new_connection_def list_ex_iff)
  have find: "find_connection (uuid_text uuid) d = Some ?r"
    by (simp add: find_connection_Some [OF dist] rows) (simp add: new_connection_def)
  have early: "after_instant (millis now + connection_ttl) now1"
    using assms(6) by (simp add: iv(3) after_instant_def invitation_ttl_def connection_ttl_def)
  let ?a = "take_connection (lan_hash sha (base64_text key)) origin (millis now1)"
  obtain d' where claim: "claim_lan sha (uuid_text uuid) (base64_text code) origin (base64_text key) now1 d = Inr (d', ?a ?r)"
    and rows': "lb_rows d' = update_where (\<lambda>x. ln_connection x = uuid_text uuid \<and> ln_claimed x = None) ?a (lb_rows d)"
    using secret_valid assms(3-6) early find iv(3)
    by (auto simp: claim_lan_def Let_def) (auto simp: new_connection_def same_hash_iff)
  have "map ln_connection (lb_rows d') = map ln_connection (lb_rows d)"
    by (simp add: rows' update_where_def take_connection_def)
  then have dist': "distinct (map ln_connection (lb_rows d'))" using dist by simp
  have "?a ?r \<in> set (lb_rows d')" by (auto simp: rows' update_where_def rows new_connection_def)
  then have "find_connection (uuid_text uuid) d' = Some (?a ?r)"
    by (simp add: find_connection_Some [OF dist']) (simp add: take_connection_def new_connection_def)
  then have "authenticate_lan sha (uuid_text uuid) (base64_text key) now2 d' = Inr (?a ?r)"
    using secret_valid [OF assms(4)] assms(7)
    by (simp add: authenticate_lan_def take_connection_def new_connection_def text_or_empty_def same_hash_iff)
  moreover have "ln_event (?a ?r) = e \<and> ln_scope (?a ?r) = scope \<and> ln_origin (?a ?r) = Some origin"
    by (simp add: take_connection_def new_connection_def)
  ultimately show ?thesis using claim by (auto simp: iv(1,2))
qed

section \<open>A tablet joins and is removed\<close>

text \<open>
  One invitation for event E, claimed by a tablet, used, and revoked; and the properties of tablet connections applied
  to this run.
\<close>

definition demo_sha :: digest where
  "demo_sha s = map (of_nat \<circ> byte_of) (take 2 (drop 30 s))"

definition lan_code :: "8 word list" where
  "lan_code = replicate 32 1"

definition lan_key :: "8 word list" where
  "lan_key = replicate 32 2"

definition tablet_id :: string where
  "tablet_id = ''00000000-0000-4000-8000-000000000001''"

definition lan_start :: lan_row where
  "lan_start = new_connection (uuid_text (replicate 16 0)) ''E'' ''S'' ''t'' (lan_hash demo_sha (base64_text lan_code)) 0"

definition lan_ticket :: invitation where
  "lan_ticket = \<lparr> iv_connection = uuid_text (replicate 16 0), iv_event = ''E'', iv_scope = ''S'', iv_label = ''t'',
     iv_code = base64_text lan_code, iv_expires = invitation_ttl \<rparr>"

definition lan_taken :: lan_row where
  "lan_taken = take_connection (lan_hash demo_sha (base64_text lan_key)) tablet_id 0 lan_start"

definition lan_audits :: "nat \<Rightarrow> lan_audit list" where
  "lan_audits n = take n [audit (ln_connection lan_start) ''E'' Invite None [] 0,
     audit (ln_connection lan_start) ''E'' Claim (Some tablet_id) [] 0, audit (ln_connection lan_start) ''E'' Revoke None ''r'' 0]"

definition lan_db_at :: "nat \<Rightarrow> lan_row \<Rightarrow> lan_db" where
  "lan_db_at n r = \<lparr> lb_runtime = None, lb_rows = [r], lb_audit = lan_audits n \<rparr>"

definition lan_claims_at :: "(string \<times> string \<times> string \<times> string \<times> int) list" where
  "lan_claims_at = [(ln_connection lan_start, base64_text lan_code, tablet_id, base64_text lan_key, 0)]"

definition lan_at :: "nat \<Rightarrow> lan_row \<Rightarrow> (string \<times> string \<times> string \<times> string \<times> int) list \<Rightarrow> string list \<Rightarrow> lan_world" where
  "lan_at n r claims revokes = \<lparr> lw_db = lan_db_at n r, lw_clock = 0, lw_invites = [(lan_ticket, 0)], lw_claims = claims,
     lw_revokes = revokes \<rparr>"

definition lan_gone :: lan_row where
  "lan_gone = revoke_row ''r'' 0 lan_taken"

lemma short_texts: "valid_text ''t'' 160" "valid_text ''r'' 500" "trim_space ''t'' = ''t''" "trim_space ''r'' = ''r''"
proof -
  show "valid_text ''t'' 160" "valid_text ''r'' 500" by (simp_all add: valid_text_def is_control_def text_eval)
  show "trim_space ''t'' = ''t''" "trim_space ''r'' = ''r''" by code_simp+
qed

lemma tablet_id_valid: "valid_uuid tablet_id"
  by code_simp

lemma secrets_differ: "demo_sha (base64_text lan_code) \<noteq> demo_sha (base64_text lan_key)"
  by code_simp

lemma secret_samples: "valid_secret (base64_text lan_code)" "valid_secret (base64_text lan_key)"
  by (simp_all add: secret_valid lan_code_def lan_key_def)

lemma lan_start_fields:
  "ln_connection lan_start = uuid_text (replicate 16 0)" "ln_event lan_start = ''E''" "ln_revoked lan_start = None" "ln_claimed lan_start = None"
  "ln_expires lan_start = connection_ttl" "ln_invited lan_start = invitation_ttl" "ln_scope lan_start = ''S''"
  "ln_pairing lan_start = lan_hash demo_sha (base64_text lan_code)"
  by (simp_all add: lan_start_def new_connection_def)

lemma times_open: "after_instant connection_ttl 0" "after_instant invitation_ttl 0" "millis 0 = 0"
  by (simp_all add: after_instant_def connection_ttl_def invitation_ttl_def millis_def)

lemma lan_invited:
  "create_invitation demo_sha (replicate 16 0) lan_code ''E'' ''S'' ''t'' 0 (lw_db (empty_lan 0)) = Inr (lan_db_at 1 lan_start, lan_ticket)"
  by (simp add: create_invitation_def empty_lan_def short_texts times_open lan_db_at_def lan_audits_def max_peers_def count_where_def)
    (simp add: lan_start_def lan_ticket_def new_connection_def Let_def)

lemma lan_claimed:
  "claim_lan demo_sha (ln_connection lan_start) (base64_text lan_code) tablet_id (base64_text lan_key) 0 (lan_db_at 1 lan_start) =
    Inr (lan_db_at 2 lan_taken, lan_taken)"
  by (simp add: claim_lan_def tablet_id_valid secret_samples find_connection_def lan_db_at_def lan_start_fields same_hash_iff times_open
      update_where_def lan_audits_def lan_taken_def)

lemma lan_taken_fields:
  "ln_connection lan_taken = ln_connection lan_start" "ln_event lan_taken = ''E''" "ln_revoked lan_taken = None" "ln_claimed lan_taken = Some 0"
  "ln_expires lan_taken = connection_ttl" "ln_credential lan_taken = Some (lan_hash demo_sha (base64_text lan_key))"
  "ln_origin lan_taken = Some tablet_id"
  by (simp_all add: lan_taken_def take_connection_def lan_start_fields)

lemma lan_used:
  "authenticate_lan demo_sha (ln_connection lan_start) (base64_text lan_key) 0 (lan_db_at 2 lan_taken) = Inr lan_taken"
  by (simp add: authenticate_lan_def secret_samples find_connection_def lan_db_at_def lan_taken_fields same_hash_iff times_open
      text_or_empty_def)

lemma lan_revoked: "revoke_lan ''E'' (ln_connection lan_start) ''r'' 0 (lan_db_at 2 lan_taken) = Inr (lan_db_at 3 lan_gone)"
  by (simp add: revoke_lan_def short_texts lan_db_at_def count_where_def update_where_def lan_taken_fields lan_gone_def lan_audits_def
      times_open Let_def)

lemma lan_run_1: "(lan_step demo_sha)\<^sup>*\<^sup>* (empty_lan 0) (lan_at 1 lan_start [] [])"
proof -
  have "lan_step demo_sha (empty_lan 0) (lan_at 1 lan_start [] [])"
    using lan_step.invite [OF lan_invited] by (simp add: empty_lan_def lan_at_def)
  then show ?thesis by blast
qed

lemma lan_run_2: "(lan_step demo_sha)\<^sup>*\<^sup>* (empty_lan 0) (lan_at 2 lan_taken lan_claims_at [])"
proof -
  have "lan_step demo_sha (lan_at 1 lan_start [] []) (lan_at 2 lan_taken lan_claims_at [])"
    using lan_step.claim [of demo_sha _ _ _ _ _ "lan_at 1 lan_start [] []"] lan_claimed by (simp add: lan_at_def lan_claims_at_def)
  then show ?thesis using lan_run_1 by (rule rtranclp.rtrancl_into_rtrancl [rotated])
qed

lemma lan_run_3: "lan_step demo_sha (lan_at 2 lan_taken lan_claims_at []) (lan_at 3 lan_gone lan_claims_at [ln_connection lan_start])"
  using lan_step.revoke [of _ _ _ _ "lan_at 2 lan_taken lan_claims_at []"] lan_revoked by (simp add: lan_at_def)

lemma lan_db_lan_at [simp]: "lw_db (lan_at n r c v) = lan_db_at n r" "lw_revokes (lan_at n r c v) = v" "lw_clock (lan_at n r c v) = 0"
  by (simp_all add: lan_at_def)

theorem tablet_access_is_earned_witness:
  "authenticate_lan demo_sha (ln_connection lan_start) (base64_text lan_key) 0 (lan_db_at 2 lan_taken) = Inr lan_taken \<and>
    (\<exists>code cred t1. (ln_connection lan_start, code, tablet_id, cred, t1) \<in> set lan_claims_at)"
proof -
  have "lw_claims (lan_at 2 lan_taken lan_claims_at []) = lan_claims_at" by (simp add: lan_at_def)
  then show ?thesis using tablet_access_is_earned [OF lan_run_2, of "ln_connection lan_start" "base64_text lan_key" 0 lan_taken] lan_used
    by (auto simp: lan_taken_fields)
qed

theorem revoked_stays_out_witness:
  "\<exists>err. authenticate_lan demo_sha (ln_connection lan_start) (base64_text lan_key) 0 (lan_db_at 3 lan_gone) = Inl err"
proof -
  have w: "(lan_step demo_sha)\<^sup>*\<^sup>* (empty_lan 0) (lan_at 3 lan_gone lan_claims_at [ln_connection lan_start])"
    using lan_run_2 lan_run_3 by (rule rtranclp.rtrancl_into_rtrancl)
  show ?thesis using revoked_stays_out [OF w _ rtranclp.rtrancl_refl, of "ln_connection lan_start" "base64_text lan_key" 0] by simp
qed

theorem connection_keeps_its_tablet_witness:
  "\<exists>err. claim_lan demo_sha (ln_connection lan_start) (base64_text lan_code) ''other'' (base64_text lan_key) 0 (lan_db_at 3 lan_gone) = Inl err"
proof -
  have r: "lan_taken \<in> set (lb_rows (lw_db (lan_at 2 lan_taken lan_claims_at [])))" by (simp add: lan_db_at_def)
  have other: "ln_origin lan_taken \<noteq> Some ''other''" by (simp add: lan_taken_fields tablet_id_def)
  have "(lan_step demo_sha)\<^sup>*\<^sup>* (lan_at 2 lan_taken lan_claims_at []) (lan_at 3 lan_gone lan_claims_at [ln_connection lan_start])"
    using lan_run_3 by blast
  then show ?thesis
    using connection_keeps_its_tablet [OF lan_run_2 r, of "lan_at 3 lan_gone lan_claims_at [ln_connection lan_start]" "''other''"
        "base64_text lan_code" "base64_text lan_key" 0] other
    by (auto simp: lan_taken_fields)
qed

theorem tablets_bounded_witness: "peers ''E'' 0 (lan_db_at 1 lan_start) = 1 \<and> peers ''E'' 0 (lan_db_at 1 lan_start) \<le> 32"
  using tablets_bounded [OF lan_run_1, of "''E''"]
  by (simp add: times_open peers_def count_where_def lan_db_at_def alive_def lan_start_fields invitation_ttl_def)

theorem invitation_admits_witness:
  "\<exists>d' r. claim_lan demo_sha (iv_connection lan_ticket) (iv_code lan_ticket) tablet_id (base64_text lan_key) 0 (lan_db_at 1 lan_start) = Inr (d', r)"
proof -
  have t: "after_instant (iv_expires lan_ticket) 0" "after_instant (millis 0 + connection_ttl) 0"
    by (simp_all add: lan_ticket_def times_open)
  show ?thesis
    using invitation_admits [OF rtranclp.rtrancl_refl lan_invited _ _ tablet_id_valid t, of lan_key] by (auto simp: lan_code_def lan_key_def)
qed

end
