(* ===== verification/Edits.thy ===== *)
theory Edits
  imports GoLib PacketInstall TimingTables
begin

section \<open>Edits at the desk\<close>

text \<open>
  \<^verbatim>\<open>service/edits.go\<close>, \<^verbatim>\<open>service/categories.go\<close> and the deletion of a checkpoint, with the store of
  \<^verbatim>\<open>infrastructure/sqlite/edits_store.go\<close>: whitelisted fields are updated in place, journalled, published to packet
  issuance where it is installed, and played again over every new import.

  The columns of a race that edits use are in a table of their own beside those of the packet tables; both are read by
  the id of the race.  Parameters: the age of timing-core and its check of a checkpoint window.  Start times and
  their differences are taken to stay within 64 bits.
\<close>

record race_setup =
  rp_race :: string
  rp_name :: string
  rp_format :: string
  rp_started :: "int option"
  rp_basis :: string
  rp_shift :: int
  rp_excludes :: int

record edit_change =
  ec_entity :: string
  ec_id :: string
  ec_field :: string
  ec_old :: json
  ec_new :: "json option"
  ec_at :: int
  ec_owner :: "json option"
  ec_relayed :: "bool option"

record edit_db =
  xd_db :: db
  xd_setups :: "race_setup list"
  xd_checkpoints :: "checkpoint list"
  xd_results :: "result_row list"
  xd_disabled :: "(string \<times> int option) list"
  xd_changes :: "edit_change list"

record edit_core =
  xc_age :: "string \<Rightarrow> string \<Rightarrow> bool \<Rightarrow> int"
  xc_window :: "checkpoint \<Rightarrow> bool"

subsection \<open>Columns\<close>

datatype sql_value = V_Null | V_Int int | V_Text string

definition int_value :: "int option \<Rightarrow> sql_value" where
  "int_value x = (case x of None \<Rightarrow> V_Null | Some n \<Rightarrow> V_Int n)"

definition text_value :: "string option \<Rightarrow> sql_value" where
  "text_value x = (case x of None \<Rightarrow> V_Null | Some s \<Rightarrow> V_Text s)"

text \<open>A value for a column: of the column's type, and not null where the schema says so.\<close>

definition as_int :: "sql_value \<Rightarrow> int option option" where
  "as_int v = (case v of V_Null \<Rightarrow> Some None | V_Int n \<Rightarrow> Some (Some n) | V_Text _ \<Rightarrow> None)"

definition as_text :: "sql_value \<Rightarrow> string option option" where
  "as_text v = (case v of V_Null \<Rightarrow> Some None | V_Text s \<Rightarrow> Some (Some s) | V_Int _ \<Rightarrow> None)"

definition need_int :: "sql_value \<Rightarrow> int option" where
  "need_int v = (case v of V_Int n \<Rightarrow> Some n | _ \<Rightarrow> None)"

definition need_text :: "sql_value \<Rightarrow> string option" where
  "need_text v = (case v of V_Text s \<Rightarrow> Some s | _ \<Rightarrow> None)"

definition member_cell :: "string \<Rightarrow> member \<Rightarrow> sql_value" where
  "member_cell f m =
    (if f = ''status'' then V_Int (mb_status m) else if f = ''number'' then int_value (mb_number m)
     else if f = ''epc'' then text_value (mb_epc m) else if f = ''category_id'' then text_value (mb_category m)
     else if f = ''first_name'' then V_Text (mb_first m) else if f = ''last_name'' then V_Text (mb_last m)
     else if f = ''gender'' then text_value (mb_gender m) else if f = ''dob'' then text_value (mb_dob m)
     else if f = ''team'' then text_value (mb_team m) else if f = ''city'' then text_value (mb_city m)
     else if f = ''start_time_ms'' then int_value (mb_start m) else if f = ''race_id'' then V_Text (mb_race m)
     else if f = ''start_time_source'' then V_Text (mb_start_source m) else text_value (mb_start_observation m))"

definition with_member_cell :: "db \<Rightarrow> string \<Rightarrow> sql_value \<Rightarrow> member \<Rightarrow> member option" where
  "with_member_cell d f v m =
    (if f = ''status'' then map_option (\<lambda>n. m\<lparr> mb_status := n \<rparr>) (need_int v)
     else if f = ''number'' then map_option (\<lambda>n. m\<lparr> mb_number := n \<rparr>) (as_int v)
     else if f = ''epc'' then map_option (\<lambda>s. m\<lparr> mb_epc := s \<rparr>) (as_text v)
     else if f = ''category_id'' then
       (case as_text v of Some (Some c) \<Rightarrow> if c \<in> cat_id ` set (db_categories d) then Some (m\<lparr> mb_category := Some c \<rparr>) else None
        | Some None \<Rightarrow> Some (m\<lparr> mb_category := None \<rparr>) | None \<Rightarrow> None)
     else if f = ''first_name'' then map_option (\<lambda>s. m\<lparr> mb_first := s \<rparr>) (need_text v)
     else if f = ''last_name'' then map_option (\<lambda>s. m\<lparr> mb_last := s \<rparr>) (need_text v)
     else if f = ''gender'' then map_option (\<lambda>s. m\<lparr> mb_gender := s \<rparr>) (as_text v)
     else if f = ''dob'' then map_option (\<lambda>s. m\<lparr> mb_dob := s \<rparr>) (as_text v)
     else if f = ''team'' then map_option (\<lambda>s. m\<lparr> mb_team := s \<rparr>) (as_text v)
     else if f = ''city'' then map_option (\<lambda>s. m\<lparr> mb_city := s \<rparr>) (as_text v)
     else if f = ''start_time_ms'' then map_option (\<lambda>n. m\<lparr> mb_start := n \<rparr>) (as_int v)
     else if f = ''race_id'' then
       (case need_text v of Some r \<Rightarrow> if r \<in> rc_id ` set (db_races d) then Some (m\<lparr> mb_race := r \<rparr>) else None | None \<Rightarrow> None)
     else if f = ''start_time_source'' then map_option (\<lambda>s. m\<lparr> mb_start_source := s \<rparr>) (need_text v)
     else if f = ''start_observation_id'' then map_option (\<lambda>s. m\<lparr> mb_start_observation := s \<rparr>) (as_text v)
     else None)"

definition race_cell :: "string \<Rightarrow> race_setup \<Rightarrow> sql_value" where
  "race_cell f r =
    (if f = ''timing_basis'' then V_Text (rp_basis r) else if f = ''shift_assigned_starts'' then V_Int (rp_shift r)
     else if f = ''started_at_ms'' then int_value (rp_started r) else if f = ''name'' then V_Text (rp_name r)
     else V_Int (rp_excludes r))"

definition with_race_cell :: "string \<Rightarrow> sql_value \<Rightarrow> race_setup \<Rightarrow> race_setup option" where
  "with_race_cell f v r =
    (if f = ''timing_basis'' then map_option (\<lambda>s. r\<lparr> rp_basis := s \<rparr>) (need_text v)
     else if f = ''shift_assigned_starts'' then map_option (\<lambda>n. r\<lparr> rp_shift := n \<rparr>) (need_int v)
     else if f = ''started_at_ms'' then map_option (\<lambda>n. r\<lparr> rp_started := n \<rparr>) (as_int v)
     else if f = ''name'' then map_option (\<lambda>s. r\<lparr> rp_name := s \<rparr>) (need_text v)
     else if f = ''category_excludes_top_by_gender'' then map_option (\<lambda>n. r\<lparr> rp_excludes := n \<rparr>) (need_int v)
     else None)"

definition checkpoint_cell :: "string \<Rightarrow> checkpoint \<Rightarrow> sql_value" where
  "checkpoint_cell f c =
    (if f = ''until_ms'' then int_value (cp_until c) else if f = ''until_offset_seconds'' then int_value (cp_until_offset c)
     else if f = ''read_selection'' then V_Text (cp_selection c) else if f = ''since_ms'' then int_value (cp_since c)
     else if f = ''since_offset_seconds'' then int_value (cp_since_offset c)
     else if f = ''sleep_after_prev_seconds'' then int_value (cp_sleep c)
     else if f = ''board'' then V_Text (cp_board c) else if f = ''sort'' then V_Int (cp_sort c) else V_Int (cp_type c))"

definition with_checkpoint_cell :: "string \<Rightarrow> sql_value \<Rightarrow> checkpoint \<Rightarrow> checkpoint option" where
  "with_checkpoint_cell f v c =
    (if f = ''until_ms'' then map_option (\<lambda>n. c\<lparr> cp_until := n \<rparr>) (as_int v)
     else if f = ''until_offset_seconds'' then map_option (\<lambda>n. c\<lparr> cp_until_offset := n \<rparr>) (as_int v)
     else if f = ''read_selection'' then map_option (\<lambda>s. c\<lparr> cp_selection := s \<rparr>) (need_text v)
     else if f = ''since_ms'' then map_option (\<lambda>n. c\<lparr> cp_since := n \<rparr>) (as_int v)
     else if f = ''since_offset_seconds'' then map_option (\<lambda>n. c\<lparr> cp_since_offset := n \<rparr>) (as_int v)
     else if f = ''sleep_after_prev_seconds'' then map_option (\<lambda>n. c\<lparr> cp_sleep := n \<rparr>) (as_int v)
     else if f = ''board'' then map_option (\<lambda>s. c\<lparr> cp_board := s \<rparr>) (need_text v)
     else if f = ''sort'' then map_option (\<lambda>n. c\<lparr> cp_sort := n \<rparr>) (need_int v)
     else if f = ''type'' then map_option (\<lambda>n. c\<lparr> cp_type := n \<rparr>) (need_int v)
     else None)"

subsection \<open>One field of one row\<close>

definition write_row :: "('a \<Rightarrow> bool) \<Rightarrow> ('a \<Rightarrow> sql_value) \<Rightarrow> ('a \<Rightarrow> 'a option) \<Rightarrow> 'a list \<Rightarrow> ('a list \<times> sql_value) res" where
  "write_row p cell upd rows =
    (case List.find p rows of None \<Rightarrow> Inl no_rows
     | Some r \<Rightarrow> (case upd r of None \<Rightarrow> Inl constraint_failed | Some r' \<Rightarrow> Inr (update_where p (\<lambda>_. r') rows, cell r)))"

definition signalled :: "edit_db \<Rightarrow> edit_db" where
  "signalled x = x\<lparr> xd_db := (xd_db x)\<lparr> db_dirty := True \<rparr> \<rparr>"

definition with_members :: "member list \<Rightarrow> edit_db \<Rightarrow> edit_db" where
  "with_members ms x = x\<lparr> xd_db := (xd_db x)\<lparr> db_members := ms \<rparr> \<rparr>"

definition update_member_field :: "string \<Rightarrow> string \<Rightarrow> sql_value \<Rightarrow> edit_db \<Rightarrow> (edit_db \<times> sql_value) res" where
  "update_member_field f k v x =
    bind_res (write_row (\<lambda>m. mb_id m = k) (member_cell f) (with_member_cell (xd_db x) f v) (db_members (xd_db x)))
      (\<lambda>(ms, old). Inr (signalled (with_members ms x), old))"

text \<open>\<^verbatim>\<open>updateMemberClubField\<close>: the club of a member is kept beside the members.\<close>

definition update_club_field :: "string \<Rightarrow> sql_value \<Rightarrow> edit_db \<Rightarrow> (edit_db \<times> sql_value) res" where
  "update_club_field k v x =
    bind_res (get_member (xd_db x) k) (\<lambda>m.
    case as_text v of None \<Rightarrow> Inl ''club expects text or null''
    | Some club \<Rightarrow> bind_res (apply_clubs (mb_event m) [(k, club)] (xd_db x)) (\<lambda>d.
        Inr (x\<lparr> xd_db := d \<rparr>,
             case member_club (xd_db x) (mb_event m) k of None \<Rightarrow> V_Null | Some c \<Rightarrow> text_value c)))"

definition update_race_field :: "string \<Rightarrow> string \<Rightarrow> sql_value \<Rightarrow> edit_db \<Rightarrow> (edit_db \<times> sql_value) res" where
  "update_race_field f k v x =
    bind_res (write_row (\<lambda>r. rp_race r = k) (race_cell f) (with_race_cell f v) (xd_setups x))
      (\<lambda>(rs, old). Inr (signalled (x\<lparr> xd_setups := rs \<rparr>), old))"

definition update_checkpoint_field :: "(checkpoint \<Rightarrow> bool) \<Rightarrow> string \<Rightarrow> string \<Rightarrow> sql_value \<Rightarrow> edit_db \<Rightarrow>
    (edit_db \<times> sql_value) res" where
  "update_checkpoint_field window f k v x =
    bind_res (write_row (\<lambda>c. cp_id c = k) (checkpoint_cell f) (with_checkpoint_cell f v) (xd_checkpoints x))
      (\<lambda>(cs, old). if list_ex (\<lambda>c. cp_id c = k \<and> \<not> window c) cs then Inl ''checkpoint window''
         else Inr (x\<lparr> xd_checkpoints := cs \<rparr>, old))"

definition update_event_field :: "string \<Rightarrow> string \<Rightarrow> sql_value \<Rightarrow> edit_db \<Rightarrow> (edit_db \<times> sql_value) res" where
  "update_event_field f k v x =
    bind_res (write_row (\<lambda>e. ev_id e = k) (\<lambda>e. V_Int (ev_race_age e)) (\<lambda>e. map_option (\<lambda>n. e\<lparr> ev_race_age := n \<rparr>) (need_int v))
        (db_events (xd_db x)))
      (\<lambda>(es, old). Inr (x\<lparr> xd_db := (xd_db x)\<lparr> db_events := es \<rparr> \<rparr>, old))"

definition update_log_field :: "string \<Rightarrow> string \<Rightarrow> sql_value \<Rightarrow> edit_db \<Rightarrow> (edit_db \<times> sql_value) res" where
  "update_log_field f k v x =
    bind_res (write_row (\<lambda>l. fst l = k) (\<lambda>l. int_value (snd l)) (\<lambda>l. map_option (\<lambda>n. (fst l, n)) (as_int v)) (xd_disabled x))
      (\<lambda>(ls, old). Inr (x\<lparr> xd_disabled := ls \<rparr>, old))"

definition update_field :: "(checkpoint \<Rightarrow> bool) \<Rightarrow> string \<Rightarrow> string \<Rightarrow> string \<Rightarrow> sql_value \<Rightarrow> edit_db \<Rightarrow>
    (edit_db \<times> sql_value) res" where
  "update_field window table f k v x =
    (if table = ''members'' then (if f = ''club'' then update_club_field k v x else update_member_field f k v x)
     else if table = ''races'' then update_race_field f k v x
     else if table = ''checkpoints'' then update_checkpoint_field window f k v x
     else if table = ''events'' then update_event_field f k v x
     else update_log_field f k v x)"

subsection \<open>The whitelist\<close>

datatype field_kind = Kind_Int | Kind_Text

record editable =
  ed_table :: string
  ed_kind :: field_kind
  ed_recount :: bool

definition editable_int :: "string \<Rightarrow> bool \<Rightarrow> editable" where
  "editable_int t r = \<lparr> ed_table = t, ed_kind = Kind_Int, ed_recount = r \<rparr>"

definition editable_text :: "string \<Rightarrow> bool \<Rightarrow> editable" where
  "editable_text t r = \<lparr> ed_table = t, ed_kind = Kind_Text, ed_recount = r \<rparr>"

definition edit_whitelist :: "(string \<times> (string \<times> editable) list) list" where
  "edit_whitelist =
    [(''event'', [(''use_race_date_for_age'', editable_int ''events'' False)]),
     (''race'',
       [(''timing_basis'', editable_text ''races'' True), (''shift_assigned_starts'', editable_int ''races'' False),
        (''started_at_ms'', editable_int ''races'' True), (''name'', editable_text ''races'' False),
        (''category_excludes_top_by_gender'', editable_int ''races'' False)]),
     (''checkpoint'',
       [(''until_ms'', editable_int ''checkpoints'' True), (''until_offset_seconds'', editable_int ''checkpoints'' True),
        (''read_selection'', editable_text ''checkpoints'' True), (''since_ms'', editable_int ''checkpoints'' True),
        (''since_offset_seconds'', editable_int ''checkpoints'' True),
        (''sleep_after_prev_seconds'', editable_int ''checkpoints'' True), (''board'', editable_text ''checkpoints'' True),
        (''sort'', editable_int ''checkpoints'' True), (''type'', editable_int ''checkpoints'' True)]),
     (''member'',
       [(''status'', editable_int ''members'' False), (''number'', editable_int ''members'' True),
        (''epc'', editable_text ''members'' True), (''category_id'', editable_text ''members'' False),
        (''first_name'', editable_text ''members'' False), (''last_name'', editable_text ''members'' False),
        (''gender'', editable_text ''members'' False), (''dob'', editable_text ''members'' False),
        (''team'', editable_text ''members'' False), (''club'', editable_text ''members'' False),
        (''city'', editable_text ''members'' False), (''start_time_ms'', editable_int ''members'' True),
        (''race_id'', editable_text ''members'' True)]),
     (''rfid_log'', [(''disabled_at'', editable_int ''rfid_logs'' True)])]"

record edit_request =
  rq_confirm :: bool
  rq_entity :: string
  rq_id :: string
  rq_field :: string
  rq_value :: "json option"

text \<open>\<^verbatim>\<open>decodeClubMetadata\<close> on a decoded value; a text with lone surrogates does not decode.\<close>

definition decode_club :: "json option \<Rightarrow> string option res" where
  "decode_club v = (case v of Some JNull \<Rightarrow> Inr None
     | Some (JText s) \<Rightarrow> (case normalize_club (Some s) of Inl _ \<Rightarrow> Inl ''club name'' | Inr c \<Rightarrow> Inr c)
     | _ \<Rightarrow> Inl ''club value'')"

definition decode_edit :: "field_kind \<Rightarrow> json option \<Rightarrow> sql_value res" where
  "decode_edit k v = (case v of None \<Rightarrow> Inr V_Null | Some JNull \<Rightarrow> Inr V_Null
     | Some (JNumber s) \<Rightarrow> bind_res (json_int s) (\<lambda>n. if k = Kind_Int then Inr (V_Int n) else Inl ''expects a string or null'')
     | Some (JText s) \<Rightarrow> if k = Kind_Text then Inr (V_Text s) else Inl ''expects a number or null''
     | _ \<Rightarrow> Inl ''unexpected value'')"

definition validate_edit :: "edit_request \<Rightarrow> (editable \<times> sql_value) res" where
  "validate_edit q =
    (case map_of edit_whitelist (rq_entity q) of None \<Rightarrow> Inl ''entity is not editable''
     | Some fs \<Rightarrow> (case map_of fs (rq_field q) of None \<Rightarrow> Inl ''field is not editable''
         | Some spec \<Rightarrow>
             if rq_id q = [] then Inl ''entity_id is required''
             else if rq_entity q = ''member'' \<and> rq_field q = ''club''
             then bind_res (decode_club (rq_value q)) (\<lambda>c. Inr (spec, text_value c))
             else bind_res (decode_edit (ed_kind spec) (rq_value q)) (\<lambda>v. Inr (spec, v))))"

subsection \<open>The journal\<close>

definition sql_json :: "sql_value \<Rightarrow> json" where
  "sql_json v = (case v of V_Null \<Rightarrow> JNull | V_Int n \<Rightarrow> JNumber (format_int n) | V_Text s \<Rightarrow> JText s)"

text \<open>
  \<^verbatim>\<open>ClubOwnerBinding\<close>: with packet issuance installed, the person the member row stands for; a row without a live
  registration cannot be read.
\<close>

definition live_person :: "db \<Rightarrow> string \<Rightarrow> member \<Rightarrow> json res" where
  "live_person d k m =
    (case List.find (\<lambda>r. rr_id r = k \<and> rr_event r = mb_event m \<and> \<not> rr_deleted r) (db_regs d) of
       None \<Rightarrow> Inl ''scan value_json''
     | Some r \<Rightarrow> Inr (case reg_person (rr_value r) of None \<Rightarrow> JNull | Some p \<Rightarrow> JText (per_id p)))"

definition club_owner :: "db \<Rightarrow> string \<Rightarrow> json option res" where
  "club_owner d k =
    (case List.find (\<lambda>m. mb_id m = k) (db_members d) of None \<Rightarrow> Inr None
     | Some m \<Rightarrow> if find_scope d (mb_event m) = None then Inr None else bind_res (live_person d k m) (\<lambda>p. Inr (Some p)))"

definition journal_row :: "int \<Rightarrow> string \<Rightarrow> string \<Rightarrow> string \<Rightarrow> json \<Rightarrow> json option \<Rightarrow> edit_change" where
  "journal_row now entity k f old new = \<lparr> ec_entity = entity, ec_id = k, ec_field = f, ec_old = old, ec_new = new, ec_at = now,
     ec_owner = None, ec_relayed = None \<rparr>"

definition journal :: "edit_change \<Rightarrow> edit_db \<Rightarrow> edit_db res" where
  "journal c x =
    (if ec_entity c = ''member'' \<and> ec_field c = ''club''
     then bind_res (club_owner (xd_db x) (ec_id c)) (\<lambda>p. Inr (x\<lparr> xd_changes := xd_changes x @ [c\<lparr> ec_owner := p \<rparr>] \<rparr>))
     else Inr (x\<lparr> xd_changes := xd_changes x @ [c] \<rparr>))"

subsection \<open>Races and assigned starts\<close>

text \<open>\<^verbatim>\<open>GetRace\<close>: flags that are neither 0 nor 1 do not scan into booleans.\<close>

definition is_flag :: "int \<Rightarrow> bool" where
  "is_flag n \<longleftrightarrow> n = 0 \<or> n = 1"

definition read_race :: "edit_db \<Rightarrow> string \<Rightarrow> (race_row \<times> race_setup) res" where
  "read_race x k = bind_res (get_race (xd_db x) k) (\<lambda>r.
    case List.find (\<lambda>s. rp_race s = k) (xd_setups x) of None \<Rightarrow> Inl no_rows
    | Some s \<Rightarrow> if is_flag (rp_shift s) \<and> is_flag (rp_excludes s) then Inr (r, s) else Inl ''scan race flags'')"

definition measured :: "member \<Rightarrow> bool" where
  "measured m \<longleftrightarrow> mb_start_source m = ''observation'' \<or> mb_start_source m = ''race_default''"

definition race_members :: "edit_db \<Rightarrow> string \<Rightarrow> member list" where
  "race_members x race = sort_key mb_id (filter (\<lambda>m. mb_race m = race) (db_members (xd_db x)))"

definition set_start :: "int option \<Rightarrow> string \<Rightarrow> member \<Rightarrow> member" where
  "set_start s source m = m\<lparr> mb_start := s, mb_start_source := source, mb_start_observation := None \<rparr>"

definition change_members :: "(member \<Rightarrow> bool) \<Rightarrow> (member \<Rightarrow> member) \<Rightarrow> edit_db \<Rightarrow> edit_db" where
  "change_members p f x = with_members (update_where p f (db_members (xd_db x))) x"

definition log_start :: "int \<Rightarrow> string \<Rightarrow> int option \<Rightarrow> int option \<Rightarrow> edit_db \<Rightarrow> edit_db" where
  "log_start now k old new x = x\<lparr> xd_changes := xd_changes x @
     [journal_row now ''member'' k ''start_time_ms'' (sql_json (int_value old)) (Some (sql_json (int_value new)))] \<rparr>"

text \<open>One member of \<^verbatim>\<open>PrepareAssignedStarts\<close>.\<close>

definition assign_start :: "int \<Rightarrow> bool \<Rightarrow> member \<Rightarrow> edit_db \<Rightarrow> edit_db" where
  "assign_start now rebuild m x =
    (if mb_start m = None \<or> \<not> rebuild \<and> measured m then x
     else let assigned = (if measured m then None else mb_start m) in
       log_start now (mb_id m) (mb_start m) assigned
         (change_members (\<lambda>o'. mb_id o' = mb_id m) (set_start assigned (if assigned = None then ''unknown'' else ''manual'')) x))"

definition unclassified :: "member \<Rightarrow> bool" where
  "unclassified m \<longleftrightarrow> mb_start m \<noteq> None \<and> mb_start_source m \<noteq> ''manual'' \<and> \<not> measured m"

definition prepare_starts :: "int \<Rightarrow> string \<Rightarrow> bool \<Rightarrow> bool \<Rightarrow> edit_db \<Rightarrow> edit_db res" where
  "prepare_starts now race confirm rebuild x =
    bind_res (read_race x race) (\<lambda>(r, s).
    if dual_basis (rp_basis s) then Inr x
    else if list_ex unclassified (race_members x race) \<and> \<not> confirm then Inl ''confirm assigned starts''
    else Inr (signalled (fold (assign_start now rebuild) (race_members x race) x)))"

text \<open>\<^verbatim>\<open>ShiftMemberStarts\<close> and the journal of every shift.\<close>

definition moves_with_race :: "string \<Rightarrow> member \<Rightarrow> bool" where
  "moves_with_race race m \<longleftrightarrow> mb_race m = race \<and> mb_start m \<noteq> None \<and> \<not> measured m"

definition shifted :: "int \<Rightarrow> member \<Rightarrow> member" where
  "shifted delta m = set_start (map_option (\<lambda>s. s + delta) (mb_start m)) ''manual'' m"

definition log_shift :: "int \<Rightarrow> int \<Rightarrow> member \<Rightarrow> edit_db \<Rightarrow> edit_db" where
  "log_shift now delta m = log_start now (mb_id m) (mb_start m) (map_option (\<lambda>s. s + delta) (mb_start m))"

definition shift_starts :: "int \<Rightarrow> string \<Rightarrow> int \<Rightarrow> edit_db \<Rightarrow> edit_db" where
  "shift_starts now race delta x =
    (if delta = 0 then x
     else let ms = filter (moves_with_race race) (race_members x race) in
       if ms = [] then x
       else fold (log_shift now delta) ms (signalled (change_members (moves_with_race race) (shifted delta) x)))"

subsection \<open>One edit\<close>

definition set_provenance :: "edit_request \<Rightarrow> sql_value \<Rightarrow> edit_db \<Rightarrow> edit_db res" where
  "set_provenance q v x =
    (if rq_entity q \<noteq> ''member'' \<or> rq_field q \<noteq> ''start_time_ms'' then Inr x
     else bind_res (update_member_field ''start_time_source'' (rq_id q)
         (V_Text (if v = V_Null then ''unknown'' else ''manual'')) x) (\<lambda>(x1, _).
       bind_res (update_member_field ''start_observation_id'' (rq_id q) V_Null x1) (\<lambda>(x2, _). Inr x2)))"

text \<open>\<^verbatim>\<open>resolveCategoryIDForMember\<close> reads the race with its flags.\<close>

definition category_now :: "edit_core \<Rightarrow> edit_db \<Rightarrow> member \<Rightarrow> string option res" where
  "category_now core x m =
    (case (mb_gender m, mb_dob m) of
       (Some g, Some b) \<Rightarrow> if g = [] \<or> b = [] then Inr None
         else bind_res (read_race x (mb_race m)) (\<lambda>_. resolve_category (xc_age core) (xd_db x) m)
     | _ \<Rightarrow> Inr None)"

definition follow_category :: "edit_core \<Rightarrow> int \<Rightarrow> edit_request \<Rightarrow> edit_db \<Rightarrow> edit_db res" where
  "follow_category core now q x =
    (if rq_entity q \<noteq> ''member'' \<or> rq_field q = ''category_id'' \<and> rq_value q \<noteq> Some JNull \<or>
        rq_field q \<notin> {''dob'', ''gender'', ''race_id'', ''category_id''} then Inr x
     else bind_res (get_member (xd_db x) (rq_id q)) (\<lambda>m.
       bind_res (category_now core x m) (\<lambda>c.
       if mb_category m = c then Inr x
       else bind_res (update_member_field ''category_id'' (rq_id q) (text_value c) x) (\<lambda>(x', _).
         journal (journal_row now ''member'' (rq_id q) ''category_id'' (sql_json (text_value (mb_category m)))
           (Some (sql_json (text_value c)))) x'))))"

text \<open>What a change of the timing policy of a race does first.\<close>

definition prepare_policy :: "int \<Rightarrow> edit_request \<Rightarrow> sql_value \<Rightarrow> edit_db \<Rightarrow> edit_db res" where
  "prepare_policy now q v x =
    (if rq_entity q = ''race'' \<and> rq_field q = ''shift_assigned_starts''
     then (if v \<noteq> V_Int 0 \<and> v \<noteq> V_Int 1 then Inl ''shift flag''
           else if v = V_Int 1 then bind_res (read_race x (rq_id q)) (\<lambda>(r, s).
             if rp_shift s = 1 then Inr x else prepare_starts now (rq_id q) (rq_confirm q) False x)
           else Inr x)
     else if rq_entity q = ''race'' \<and> rq_field q = ''timing_basis''
     then (if v \<noteq> V_Text ''legacy'' \<and> v \<noteq> V_Text ''gun'' \<and> v \<noteq> V_Text ''chip'' then Inl ''timing basis''
           else if v \<noteq> V_Text ''legacy'' then bind_res (read_race x (rq_id q)) (\<lambda>(r, s).
             if rp_format s \<noteq> ''FixedDistance'' then Inl ''fixed distance only''
             else prepare_starts now (rq_id q) (rq_confirm q) True x)
           else Inr x)
     else Inr x)"

definition shift_field :: "int \<Rightarrow> edit_request \<Rightarrow> sql_value \<Rightarrow> sql_value \<Rightarrow> edit_db \<Rightarrow> edit_db res" where
  "shift_field now q v old x =
    (if rq_entity q \<noteq> ''race'' \<or> rq_field q \<noteq> ''started_at_ms'' then Inr x
     else bind_res (read_race x (rq_id q)) (\<lambda>(r, s).
       case (v, old) of (V_Int t, V_Int t0) \<Rightarrow> if rp_shift s = 1 then Inr (shift_starts now (rq_id q) (t - t0) x) else Inr x
       | _ \<Rightarrow> Inr x))"

definition apply_validated :: "edit_core \<Rightarrow> int \<Rightarrow> edit_request \<Rightarrow> editable \<Rightarrow> sql_value \<Rightarrow> edit_db \<Rightarrow> edit_db res" where
  "apply_validated core now q spec v x =
    bind_res (prepare_policy now q v x) (\<lambda>x1.
    bind_res (update_field (xc_window core) (ed_table spec) (rq_field q) (rq_id q) v x1) (\<lambda>(x2, old).
    bind_res (set_provenance q v x2) (\<lambda>x3.
    bind_res (journal (journal_row now (rq_entity q) (rq_id q) (rq_field q) (sql_json old) (rq_value q)) x3) (\<lambda>x4.
    bind_res (follow_category core now q x4) (shift_field now q v old)))))"

subsection \<open>Packet issuance\<close>

definition packet_fields :: "string set" where
  "packet_fields = {''status'', ''number'', ''epc'', ''category_id'', ''first_name'', ''last_name'', ''gender'', ''dob'',
     ''team'', ''city'', ''race_id''}"

definition person_fields :: "string set" where
  "person_fields = {''first_name'', ''last_name'', ''gender'', ''dob'', ''team'', ''city''}"

definition prepare_packet :: "edit_request \<Rightarrow> db \<Rightarrow> (string \<times> reg_row) option res" where
  "prepare_packet q d =
    (if rq_entity q \<noteq> ''member'' \<or> rq_field q \<notin> packet_fields then Inr None
     else bind_res (get_member d (rq_id q)) (\<lambda>m.
       case find_scope d (mb_event m) of None \<Rightarrow> Inr None
       | Some sc \<Rightarrow> if sc_scope sc = [] then Inr None
           else bind_res (find_registration d (mb_event m) (mb_id m)) (\<lambda>r.
             case r of None \<Rightarrow> Inl ''not in the issuance journal''
             | Some r \<Rightarrow> if rr_deleted r then Inl ''not in the issuance journal'' else Inr (Some (mb_event m, r)))))"

definition map_status :: "int \<Rightarrow> string res" where
  "map_status n = (if n = 0 then Inr ''registered'' else if n = 1 then Inr ''dns'' else if n = 2 then Inr ''dnf''
     else if n = 3 then Inr ''dsq'' else Inl ''unknown status'')"

definition member_person :: "registration \<Rightarrow> member \<Rightarrow> person option" where
  "member_person current m =
    (if mb_first m = [] \<and> mb_last m = [] then None
     else Some \<lparr> per_id = (case reg_person current of Some p \<Rightarrow> per_id p | None \<Rightarrow> ''desk-member:'' @ mb_id m),
       per_first = mb_first m, per_last = mb_last m, per_birth = nullable_text (mb_dob m),
       per_gender = nullable_text (mb_gender m), per_team = nullable_text (mb_team m), per_city = nullable_text (mb_city m) \<rparr>)"

definition edited_registration :: "registration \<Rightarrow> member \<Rightarrow> string \<Rightarrow> registration res" where
  "edited_registration current m f =
    bind_res (if f = ''status'' then map_status (mb_status m) else Inr (reg_status current)) (\<lambda>status.
    let after = current\<lparr> reg_race := (if f = ''race_id'' then mb_race m else reg_race current),
                  reg_bib := (if f = ''number'' then (case mb_number m of None \<Rightarrow> [] | Some n \<Rightarrow> format_int n) else reg_bib current),
                  reg_epc := (if f = ''epc'' then nullable_text (mb_epc m) else reg_epc current),
                  reg_status := status,
                  reg_person := (if f \<in> person_fields then member_person current m else reg_person current) \<rparr> in
    case validate_registration after of Inr _ \<Rightarrow> Inr after
    | Inl _ \<Rightarrow> if reg_reserve after \<and> reg_person after \<noteq> None then Inl ''reserve slot'' else Inl ''incompatible edit'')"

definition publish_packet :: "string \<Rightarrow> int \<Rightarrow> string \<Rightarrow> (string \<times> reg_row) option \<Rightarrow> edit_db \<Rightarrow> edit_db res" where
  "publish_packet action now f change x =
    (case change of None \<Rightarrow> Inr x
     | Some (event, before) \<Rightarrow>
         bind_res (get_member (xd_db x) (reg_id (rr_value before))) (\<lambda>m.
         bind_res (read_race x (mb_race m)) (\<lambda>(race, s).
         if rc_event race \<noteq> mb_event m then Inl ''race of another event''
         else bind_res (edited_registration (rr_value before) m f) (\<lambda>after.
           let heads = unique_heads (rr_heads before @ [action]) in
           if length heads > 64 then Inl ''too many heads''
           else bind_res (put_registration after heads (mb_category m) (xd_db x)) (\<lambda>d1.
             bind_res (publish_server_change event action ''chrono_desk.local_edit''
                 [\<lparr> chg_reg = reg_id after, chg_before = rr_value before, chg_after = after \<rparr>] now d1) (\<lambda>d2.
               Inr (x\<lparr> xd_db := d2 \<rparr>)))))))"

definition apply_edit :: "edit_core \<Rightarrow> string \<Rightarrow> int \<Rightarrow> edit_request \<Rightarrow> edit_db \<Rightarrow> (edit_db \<times> bool) res" where
  "apply_edit core action now q x =
    bind_res (validate_edit q) (\<lambda>(spec, v).
    bind_res (prepare_packet q (xd_db x)) (\<lambda>change.
    bind_res (apply_validated core now q spec v x) (\<lambda>x1.
    bind_res (publish_packet action now (rq_field q) change x1) (\<lambda>x2. Inr (x2, ed_recount spec)))))"

subsection \<open>Categories of a race\<close>

definition category_bounds :: "category \<Rightarrow> int \<times> int" where
  "category_bounds c = (case cat_min c of None \<Rightarrow> - (2 ^ 63) | Some n \<Rightarrow> n, case cat_max c of None \<Rightarrow> 2 ^ 63 - 1 | Some n \<Rightarrow> n)"

definition ranges_overlap :: "category \<Rightarrow> category \<Rightarrow> bool" where
  "ranges_overlap l r \<longleftrightarrow> cat_gender l \<noteq> None \<and> cat_gender r = cat_gender l \<and>
     fst (category_bounds l) \<le> snd (category_bounds r) \<and> fst (category_bounds r) \<le> snd (category_bounds l)"

fun has_overlap :: "category list \<Rightarrow> bool" where
  "has_overlap [] \<longleftrightarrow> False"
| "has_overlap (c # cs) \<longleftrightarrow> list_ex (ranges_overlap c) cs \<or> has_overlap cs"

definition race_in_event :: "edit_db \<Rightarrow> string \<Rightarrow> string \<Rightarrow> bool" where
  "race_in_event x event race = (case read_race x race of Inl _ \<Rightarrow> False | Inr (r, _) \<Rightarrow> rc_event r = event)"

definition with_pairs :: "(string \<times> string) list \<Rightarrow> edit_db \<Rightarrow> edit_db" where
  "with_pairs ps x = x\<lparr> xd_db := (xd_db x)\<lparr> db_race_categories := ps \<rparr> \<rparr>"

text \<open>\<^verbatim>\<open>AttachRaceCategory\<close> and \<^verbatim>\<open>DetachRaceCategory\<close> of the store.\<close>

definition attach_pair :: "string \<Rightarrow> string \<Rightarrow> edit_db \<Rightarrow> edit_db res" where
  "attach_pair race cat x =
    (let ps = db_race_categories (xd_db x) in
     if race \<notin> rc_id ` set (db_races (xd_db x)) \<or> cat \<notin> cat_id ` set (db_categories (xd_db x)) then Inl constraint_failed
     else if (race, cat) \<in> set ps then Inr x else Inr (with_pairs (ps @ [(race, cat)]) x))"

definition detach_pair :: "string \<Rightarrow> string \<Rightarrow> edit_db \<Rightarrow> edit_db" where
  "detach_pair race cat x = with_pairs (filter (\<lambda>p. p \<noteq> (race, cat)) (db_race_categories (xd_db x))) x"

definition pair_json :: "string \<Rightarrow> string \<Rightarrow> json" where
  "pair_json race cat = JObject [(''category_id'', JText cat), (''race_id'', JText race)]"

definition journal_pair :: "int \<Rightarrow> string \<Rightarrow> string \<Rightarrow> string \<Rightarrow> edit_db \<Rightarrow> edit_db res" where
  "journal_pair now f race cat =
    journal (journal_row now ''race_category'' (race @ '':'' @ cat) f JNull (Some (pair_json race cat)))"

definition attach_category :: "int \<Rightarrow> string \<Rightarrow> string \<Rightarrow> string \<Rightarrow> edit_db \<Rightarrow> edit_db res" where
  "attach_category now event race cat x =
    (if \<not> race_in_event x event race then Inl ''race not in event''
     else case List.find (\<lambda>c. cat_id c = cat) (db_categories (xd_db x)) of None \<Rightarrow> Inl ''category not in catalog''
     | Some c \<Rightarrow>
         let cs = list_race_categories (xd_db x) race in
         if list_ex (\<lambda>c. cat_id c = cat) cs then Inr x
         else if has_overlap (cs @ [c]) then Inl ''age ranges overlap''
         else bind_res (attach_pair race cat x) (journal_pair now ''_attached'' race cat))"

definition detach_category :: "int \<Rightarrow> string \<Rightarrow> string \<Rightarrow> string \<Rightarrow> edit_db \<Rightarrow> edit_db res" where
  "detach_category now event race cat x =
    (if \<not> race_in_event x event race then Inl ''race not in event''
     else if list_ex (\<lambda>m. mb_race m = race \<and> mb_category m = Some cat) (db_members (xd_db x)) then Inl ''category has members''
     else journal_pair now ''_detached'' race cat (detach_pair race cat x))"

subsection \<open>Deleting a checkpoint\<close>

definition delete_cascade :: "string \<Rightarrow> edit_db \<Rightarrow> edit_db" where
  "delete_cascade k x = x\<lparr> xd_results := filter (\<lambda>r. rt_checkpoint r \<noteq> Some k) (xd_results x),
     xd_checkpoints := filter (\<lambda>c. cp_id c \<noteq> k) (xd_checkpoints x) \<rparr>"

text \<open>\<open>encode\<close> is the JSON of the deleted row, kept for the audit.\<close>

definition delete_checkpoint :: "(checkpoint \<Rightarrow> json) \<Rightarrow> int \<Rightarrow> string \<Rightarrow> string \<Rightarrow> edit_db \<Rightarrow> edit_db res" where
  "delete_checkpoint encode now event k x =
    (case List.find (\<lambda>c. cp_id c = k) (xd_checkpoints x) of None \<Rightarrow> Inl no_rows
     | Some c \<Rightarrow> if \<not> race_in_event x event (cp_race c) then Inl ''checkpoint of another event''
         else journal (journal_row now ''checkpoint'' k ''_deleted'' (encode c) (Some JNull)) (delete_cascade k x))"

subsection \<open>Playing the journal again\<close>

definition pair_field :: "string \<Rightarrow> (string \<times> json) list \<Rightarrow> string option" where
  "pair_field f kvs = (case map_of kvs f of None \<Rightarrow> Some [] | Some JNull \<Rightarrow> Some [] | Some (JText s) \<Rightarrow> Some s | _ \<Rightarrow> None)"

definition pair_of :: "json option \<Rightarrow> (string \<times> string) option" where
  "pair_of v = (case v of Some (JObject kvs) \<Rightarrow> (case (pair_field ''race_id'' kvs, pair_field ''category_id'' kvs) of
       (Some r, Some c) \<Rightarrow> if r = [] \<or> c = [] then None else Some (r, c) | _ \<Rightarrow> None) | _ \<Rightarrow> None)"

definition replay_pair :: "edit_change \<Rightarrow> edit_db \<Rightarrow> edit_db \<times> bool" where
  "replay_pair c x = (case pair_of (ec_new c) of None \<Rightarrow> (x, False)
     | Some (race, cat) \<Rightarrow>
         if ec_field c = ''_attached'' then (case attach_pair race cat x of Inl _ \<Rightarrow> (x, False) | Inr x' \<Rightarrow> (x', True))
         else (detach_pair race cat x, True))"

definition request_of :: "edit_change \<Rightarrow> edit_request" where
  "request_of c = \<lparr> rq_confirm = False, rq_entity = ec_entity c, rq_id = ec_id c, rq_field = ec_field c, rq_value = ec_new c \<rparr>"

text \<open>
  \<^verbatim>\<open>UpdateEntityField\<close> reads a checkpoint back and checks its window after the \<^verbatim>\<open>UPDATE\<close>.  An edit runs in a
  transaction, which takes the write back; the replay does not, so a value outside the window stays written and the
  change is only not counted.
\<close>

definition written_anyway :: "edit_change \<Rightarrow> editable \<Rightarrow> sql_value \<Rightarrow> edit_db \<Rightarrow> edit_db" where
  "written_anyway c spec v x =
    (if ed_table spec \<noteq> ''checkpoints'' then x
     else case update_checkpoint_field (\<lambda>_. True) (ec_field c) (ec_id c) v x of Inl _ \<Rightarrow> x | Inr (x1, _) \<Rightarrow> x1)"

definition replay_field :: "(checkpoint \<Rightarrow> bool) \<Rightarrow> edit_change \<Rightarrow> edit_db \<Rightarrow> edit_db \<times> bool" where
  "replay_field window c x =
    (case validate_edit (request_of c) of Inl _ \<Rightarrow> (x, False)
     | Inr (spec, v) \<Rightarrow>
         (case update_field window (ed_table spec) (ec_field c) (ec_id c) v x of Inl _ \<Rightarrow> (written_anyway c spec v x, False)
          | Inr (x1, _) \<Rightarrow> (case set_provenance (request_of c) v x1 of Inl _ \<Rightarrow> (x1, False) | Inr x2 \<Rightarrow> (x2, True))))"

definition replay_change :: "(checkpoint \<Rightarrow> bool) \<Rightarrow> edit_change \<Rightarrow> edit_db \<Rightarrow> (edit_db \<times> bool) res" where
  "replay_change window c x =
    (if ec_field c = ''_deleted'' \<and> ec_entity c = ''checkpoint'' then Inr (delete_cascade (ec_id c) x, True)
     else if ec_entity c = ''race_category'' \<and> (ec_field c = ''_attached'' \<or> ec_field c = ''_detached'') then Inr (replay_pair c x)
     else if ec_field c \<noteq> [] \<and> hd (ec_field c) = CHR ''_'' then Inr (x, False)
     else if ec_entity c = ''member'' \<and> ec_field c = ''club''
     then (if ec_relayed c = Some True then Inr (x, False)
           else bind_res (club_owner (xd_db x) (ec_id c)) (\<lambda>p.
             if p \<noteq> ec_owner c then Inr (x, False) else Inr (replay_field window c x)))
     else Inr (replay_field window c x))"

definition replay_step :: "(checkpoint \<Rightarrow> bool) \<Rightarrow> edit_change \<Rightarrow> edit_db \<times> nat \<Rightarrow> (edit_db \<times> nat) res" where
  "replay_step window c s = bind_res (replay_change window c (fst s)) (\<lambda>(x, counted).
     Inr (x, if counted then Suc (snd s) else snd s))"

definition reapply_edits :: "(checkpoint \<Rightarrow> bool) \<Rightarrow> edit_db \<Rightarrow> (edit_db \<times> nat) res" where
  "reapply_edits window x = fold_res (replay_step window) (xd_changes x) (x, 0)"

end
