(* ===== verification/ClubEdits.thy ===== *)
theory ClubEdits
  imports Edits PacketReceiver PacketLan
begin

section \<open>Clubs of participants\<close>

text \<open>
  With packet issuance installed, the club of a participant is kept beside the registrations and travels on its own:
  \<^verbatim>\<open>service/packet_club_affiliations.go\<close> (a tablet reads all clubs and changes one), \<^verbatim>\<open>service/native_club_edit.go\<close> (a
  judge changes one) and \<^verbatim>\<open>sqlite/packet_club_outbox.go\<close> (the queue to the site) with the clubs of
  \<^verbatim>\<open>sqlite/member_clubs_store.go\<close>.  \<open>club_codec\<close> is \<^verbatim>\<open>encoding/json\<close>: reading and writing an operation, the value of a raw
  JSON text, and the text of a \<^verbatim>\<open>*string\<close>.  Rows of the journal have no id of their own here, the id of an entry is its
  place.
\<close>

record club_operation =
  cm_schema :: int
  cm_id :: string
  cm_scope :: string
  cm_origin :: string
  cm_registration :: string
  cm_person :: string
  cm_club :: string

record club_codec =
  cd_read :: "string \<Rightarrow> club_operation option"
  cd_write :: "club_operation \<Rightarrow> string"
  cd_value :: "string \<Rightarrow> json option"
  cd_text :: "string option \<Rightarrow> string"

record club_receipt =
  kr_operation :: string
  kr_outcome :: string
  kr_code :: "string option"
  kr_known :: bool

record club_receipt_row =
  kt_operation :: string
  kt_event :: string
  kt_scope :: string
  kt_origin :: string
  kt_hash :: string
  kt_body :: string
  kt_receipt :: club_receipt

record club_edit =
  ce_sequence :: int
  ce_operation :: string
  ce_event :: string
  ce_scope :: string
  ce_body :: string
  ce_heads :: "string list"
  ce_change :: nat
  ce_acked :: bool
  ce_outcome :: "string option"
  ce_code :: "string option"
  ce_attempts :: nat
  ce_next :: int

record link =
  ln_desk :: edit_db
  ln_outbox :: "club_edit list"
  ln_counter :: int
  ln_receipts :: "club_receipt_row list"

abbreviation link_db :: "link \<Rightarrow> db" where
  "link_db x \<equiv> xd_db (ln_desk x)"

definition with_link_db :: "db \<Rightarrow> link \<Rightarrow> link" where
  "with_link_db d x = x\<lparr> ln_desk := (ln_desk x)\<lparr> xd_db := d \<rparr> \<rparr>"

subsection \<open>Values of a club\<close>

text \<open>\<^verbatim>\<open>validClubJSONSurrogates\<close>: every escaped surrogate of the raw text is half of a pair.\<close>

fun hex_word :: "string \<Rightarrow> nat option" where
  "hex_word [] = Some 0"
| "hex_word (c # cs) = (case (hex_digit_value c, hex_word cs) of
     (Some x, Some y) \<Rightarrow> Some (x * 16 ^ length cs + y) | _ \<Rightarrow> None)"

definition low_surrogate :: "string \<Rightarrow> bool" where
  "low_surrogate s \<longleftrightarrow> 6 \<le> length s \<and> take 2 s = [CHR 0x5C, CHR ''u''] \<and>
     (case hex_word (take 4 (drop 2 s)) of None \<Rightarrow> False | Some n \<Rightarrow> 0xdc00 \<le> n \<and> n \<le> 0xdfff)"

function paired_surrogates :: "string \<Rightarrow> bool" where
  "paired_surrogates s =
    (case s of [] \<Rightarrow> True
     | c # cs \<Rightarrow> if c \<noteq> CHR 0x5C then paired_surrogates cs
       else (case cs of [] \<Rightarrow> False
         | e # r \<Rightarrow> if e \<noteq> CHR ''u'' then paired_surrogates r
           else if length r < 4 then False
           else (case hex_word (take 4 r) of None \<Rightarrow> False
             | Some n \<Rightarrow>
                 if 0xdc00 \<le> n \<and> n \<le> 0xdfff then False
                 else if 0xd800 \<le> n \<and> n \<le> 0xdbff
                 then low_surrogate (drop 4 r) \<and> paired_surrogates (drop 10 r)
                 else paired_surrogates (drop 4 r))))"
  by pat_completeness auto
termination by (relation "measure length") auto

declare paired_surrogates.simps [simp del]

definition club_encoding :: string where
  "club_encoding = ''club encoding''"

definition read_club :: "club_codec \<Rightarrow> string \<Rightarrow> string option res" where
  "read_club codec raw =
    (if runes_of raw = None \<or> \<not> paired_surrogates raw then Inl club_encoding
     else case cd_value codec raw of None \<Rightarrow> Inl ''club value'' | Some v \<Rightarrow> decode_club (Some v))"

text \<open>A JSON text decoded into a \<^verbatim>\<open>*string\<close>.\<close>

definition read_owner :: "club_codec \<Rightarrow> string \<Rightarrow> string option res" where
  "read_owner codec raw = (case cd_value codec raw of Some JNull \<Rightarrow> Inr None | Some (JText s) \<Rightarrow> Inr (Some s)
     | _ \<Rightarrow> Inl ''person value'')"

definition good_owner :: "string option \<Rightarrow> bool" where
  "good_owner p = (case p of None \<Rightarrow> True | Some s \<Rightarrow> identifier_pattern s)"

text \<open>\<^verbatim>\<open>uuid.Parse\<close> gives back the same text.\<close>

definition lower_hex :: "char \<Rightarrow> bool" where
  "lower_hex c \<longleftrightarrow> is_hex c \<and> \<not> is_upper c"

definition canonical_uuid :: "string \<Rightarrow> bool" where
  "canonical_uuid s \<longleftrightarrow> length s = 36 \<and> s ! 8 = CHR ''-'' \<and> s ! 13 = CHR ''-'' \<and> s ! 18 = CHR ''-'' \<and> s ! 23 = CHR ''-'' \<and>
     list_all lower_hex (take 8 s) \<and> list_all lower_hex (take 4 (drop 9 s)) \<and> list_all lower_hex (take 4 (drop 14 s)) \<and>
     list_all lower_hex (take 4 (drop 19 s)) \<and> list_all lower_hex (drop 24 s)"

definition invalid_club_operation :: string where
  "invalid_club_operation = ''invalid_club_operation''"

definition club_identity_conflict :: string where
  "club_identity_conflict = ''club_identity_conflict''"

definition parse_club_operation :: "club_codec \<Rightarrow> string \<Rightarrow> club_operation res" where
  "parse_club_operation codec raw =
    (case cd_read codec raw of None \<Rightarrow> Inl invalid_club_operation
     | Some op \<Rightarrow>
         if \<not> canonical_uuid (cm_id op) \<or> \<not> canonical_uuid (cm_origin op) \<or> cm_schema op \<noteq> 1 \<or> cm_scope op = [] \<or>
            256 < length (cm_scope op) \<or> \<not> identifier_pattern (cm_registration op) \<or> cm_person op = [] \<or> cm_club op = []
         then Inl invalid_club_operation
         else (case read_owner codec (cm_person op) of Inl _ \<Rightarrow> Inl invalid_club_operation
           | Inr p \<Rightarrow> if \<not> good_owner p then Inl invalid_club_operation
               else (case read_club codec (cm_club op) of Inl _ \<Rightarrow> Inl invalid_club_operation | Inr _ \<Rightarrow> Inr op)))"

subsection \<open>The queue to the site\<close>

definition is_club_change :: "string \<Rightarrow> edit_change \<Rightarrow> bool" where
  "is_club_change k c \<longleftrightarrow> ec_entity c = ''member'' \<and> ec_id c = k \<and> ec_field c = ''club''"

definition last_club_change :: "string \<Rightarrow> edit_change list \<Rightarrow> nat option" where
  "last_club_change k cs = (case filter (\<lambda>i. is_club_change k (cs ! i)) [0..<length cs] of
     [] \<Rightarrow> None | i # is \<Rightarrow> Some (Suc (last (i # is))))"

definition club_edit_of :: "link \<Rightarrow> string \<Rightarrow> string \<Rightarrow> string \<Rightarrow> string \<Rightarrow> string list \<Rightarrow> nat \<Rightarrow> club_edit" where
  "club_edit_of x event scope operation body heads n =
    \<lparr> ce_sequence = ln_counter x + 1, ce_operation = operation, ce_event = event, ce_scope = scope, ce_body = body,
      ce_heads = heads, ce_change = n, ce_acked = False, ce_outcome = None, ce_code = None, ce_attempts = 0, ce_next = 0 \<rparr>"

definition enqueue_club :: "string \<Rightarrow> string \<Rightarrow> string \<Rightarrow> string \<Rightarrow> string \<Rightarrow> string list \<Rightarrow> link \<Rightarrow> link res" where
  "enqueue_club event scope k operation body heads x =
    (case last_club_change k (xd_changes (ln_desk x)) of None \<Rightarrow> Inl no_rows
     | Some n \<Rightarrow> if list_ex (\<lambda>e. ce_operation e = operation \<or> ce_change e = n) (ln_outbox x) then Inl constraint_failed
         else Inr (x\<lparr> ln_outbox := ln_outbox x @ [club_edit_of x event scope operation body heads n],
                      ln_counter := ln_counter x + 1 \<rparr>))"

definition pending_clubs :: "string \<Rightarrow> link \<Rightarrow> club_edit list" where
  "pending_clubs event x = take 64 (sort_key ce_sequence (filter (\<lambda>e. ce_event e = event \<and> \<not> ce_acked e) (ln_outbox x)))"

text \<open>
  \<^verbatim>\<open>PacketClubDependencies\<close>: the operations of this desk among the heads of the registration must have been accepted
  by the site.
\<close>

datatype readiness = Ready | Not_Ready | Conflicted

fun club_readiness :: "db \<Rightarrow> string \<Rightarrow> string list \<Rightarrow> readiness" where
  "club_readiness d event [] = Ready"
| "club_readiness d event (h # hs) =
    (case List.find (\<lambda>o'. or_event o' = event \<and> or_id o' = h) (db_ops d) of None \<Rightarrow> club_readiness d event hs
     | Some o' \<Rightarrow>
         if \<not> or_acked o' then Not_Ready
         else (case or_site_outcome o' of
             Some s \<Rightarrow> if s \<noteq> ''applied'' \<and> s \<noteq> ''equivalent'' then Conflicted else club_readiness d event hs
           | None \<Rightarrow> club_readiness d event hs))"

definition change_edit :: "string \<Rightarrow> (club_edit \<Rightarrow> club_edit) \<Rightarrow> link \<Rightarrow> link" where
  "change_edit operation f x = x\<lparr> ln_outbox := update_where (\<lambda>e. ce_operation e = operation) f (ln_outbox x) \<rparr>"

definition update_edit :: "string \<Rightarrow> (club_edit \<Rightarrow> club_edit) \<Rightarrow> string \<Rightarrow> link \<Rightarrow> link res" where
  "update_edit operation f mismatch x =
    (if count_where (\<lambda>e. ce_operation e = operation) (ln_outbox x) \<noteq> 1 then Inl mismatch else Inr (change_edit operation f x))"

definition settle_edit :: "string \<Rightarrow> string option \<Rightarrow> club_edit \<Rightarrow> club_edit" where
  "settle_edit outcome code e = e\<lparr> ce_acked := True, ce_outcome := Some outcome, ce_code := code,
     ce_attempts := ce_attempts e + 1, ce_next := 0 \<rparr>"

definition acknowledge_club :: "string \<Rightarrow> string \<Rightarrow> string option \<Rightarrow> link \<Rightarrow> link res" where
  "acknowledge_club operation outcome code x =
    (if outcome \<noteq> ''applied'' \<and> outcome \<noteq> ''conflict'' \<and> outcome \<noteq> ''rejected'' then Inl ''invalid club receipt outcome''
     else update_edit operation (settle_edit outcome code) ''club receipt identity mismatch'' x)"

definition retry_delays :: "int list" where
  "retry_delays = [1000, 4000, 15000, 60000]"

definition defer_edit :: "nat \<Rightarrow> string \<Rightarrow> bool \<Rightarrow> int \<Rightarrow> club_edit \<Rightarrow> club_edit" where
  "defer_edit attempts code review now e = e\<lparr> ce_acked := review, ce_outcome := (if review then Some ''review'' else None),
     ce_code := Some code, ce_attempts := ce_attempts e + 1, ce_next := now + retry_delays ! min 3 attempts \<rparr>"

definition defer_club :: "club_edit \<Rightarrow> string \<Rightarrow> bool \<Rightarrow> int \<Rightarrow> link \<Rightarrow> link res" where
  "defer_club e code review now =
    update_edit (ce_operation e) (defer_edit (ce_attempts e) code review now) ''club delivery identity mismatch''"

definition club_counts :: "string \<Rightarrow> link \<Rightarrow> nat \<times> nat" where
  "club_counts event x = (count_where (\<lambda>e. ce_event e = event \<and> \<not> ce_acked e) (ln_outbox x),
     count_where (\<lambda>e. ce_event e = event \<and> ce_outcome e \<in> Some ` {''conflict'', ''rejected'', ''review''}) (ln_outbox x))"

text \<open>\<^verbatim>\<open>ListLocalChanges\<close>: the journal joined with the queue.\<close>

definition relay_mark :: "club_edit list \<Rightarrow> nat \<Rightarrow> bool option" where
  "relay_mark es n = map_option ce_acked (List.find (\<lambda>e. ce_change e = n) es)"

definition listed_changes :: "link \<Rightarrow> edit_change list" where
  "listed_changes x = map (\<lambda>(n, c). c\<lparr> ec_relayed := relay_mark (ln_outbox x) (Suc n) \<rparr>)
     (enumerate 0 (xd_changes (ln_desk x)))"

subsection \<open>Owners\<close>

definition person_id :: "registration \<Rightarrow> string option" where
  "person_id r = map_option per_id (reg_person r)"

definition live_rows :: "db \<Rightarrow> string \<Rightarrow> reg_row list" where
  "live_rows d event = filter (\<lambda>r. rr_event r = event \<and> \<not> rr_deleted r) (db_regs d)"

text \<open>\<^verbatim>\<open>filterClubOwners\<close>: with packet issuance, a club counts only for the person who holds the row.\<close>

definition owned_club ::
  "(string \<times> string option) list \<Rightarrow> (string \<times> string option) list \<Rightarrow> reg_row \<Rightarrow> (string \<times> string option) list" where
  "owned_club clubs owners r = (case (map_of clubs (rr_id r), map_of owners (rr_id r)) of
     (Some club, Some owner) \<Rightarrow>
       if person_id (rr_value r) = None \<and> owner = None \<and> club = None \<or> owner \<noteq> None \<and> person_id (rr_value r) = owner
       then [(rr_id r, club)] else []
   | _ \<Rightarrow> [])"

definition filter_owners ::
  "db \<Rightarrow> string \<Rightarrow> (string \<times> string option) list \<Rightarrow> (string \<times> string option) list \<Rightarrow> (string \<times> string option) list" where
  "filter_owners d event clubs owners =
    (if find_scope d event = None then clubs else concat (map (owned_club clubs owners) (live_rows d event)))"

text \<open>\<^verbatim>\<open>protectPendingPacketClubs\<close>: an edit that waits for the site is not overwritten by what the site still has.\<close>

definition protect_one ::
  "club_codec \<Rightarrow> (string \<times> string option) list \<Rightarrow> club_edit \<Rightarrow> (string \<times> string option) list \<Rightarrow>
     (string \<times> string option) list res" where
  "protect_one codec owners e clubs =
    (case cd_read codec (ce_body e) of None \<Rightarrow> Inl ''pending club operation''
     | Some op \<Rightarrow> bind_res (read_owner codec (cm_person op)) (\<lambda>p.
         Inr (if map_of owners (cm_registration op) = Some p then filter (\<lambda>kv. fst kv \<noteq> cm_registration op) clubs else clubs)))"

definition protect_pending ::
  "club_codec \<Rightarrow> string \<Rightarrow> (string \<times> string option) list \<Rightarrow> link \<Rightarrow> (string \<times> string option) list \<Rightarrow>
     (string \<times> string option) list res" where
  "protect_pending codec event owners x =
    fold_res (protect_one codec owners) (filter (\<lambda>e. ce_event e = event \<and> \<not> ce_acked e) (ln_outbox x))"

definition apply_bound_clubs ::
  "club_codec \<Rightarrow> string \<Rightarrow> (string \<times> string option) list \<Rightarrow> (string \<times> string option) list \<Rightarrow> link \<Rightarrow> link res" where
  "apply_bound_clubs codec event clubs owners x =
    bind_res (protect_pending codec event owners x (filter_owners (link_db x) event clubs owners)) (\<lambda>cs.
    bind_res (apply_clubs event cs (link_db x)) (\<lambda>d. Inr (with_link_db d x)))"

subsection \<open>What a tablet sees and changes\<close>

record affiliation =
  af_registration :: string
  af_person :: "string option"
  af_club :: "string option"

definition club_owners :: "db \<Rightarrow> string \<Rightarrow> (string \<times> string option) list" where
  "club_owners d event = (if find_scope d event = None then []
     else map (\<lambda>r. (rr_id r, person_id (rr_value r))) (live_rows d event))"

definition affiliation_of :: "(string \<times> string option) list \<Rightarrow> club_row \<Rightarrow> affiliation list" where
  "affiliation_of owners c = (case map_of owners (cl_member c) of None \<Rightarrow> []
     | Some p \<Rightarrow> [\<lparr> af_registration = cl_member c, af_person = p, af_club = (if p = None then None else cl_club c) \<rparr>])"

definition read_affiliations :: "connection \<Rightarrow> link \<Rightarrow> affiliation list res" where
  "read_affiliations con x =
    (let d = link_db x; owners = club_owners d (con_event con) in
     if scope_of d (con_event con) \<noteq> con_scope con then Inl club_identity_conflict
     else if 20000 < length owners then Inl ''club_affiliation_limit''
     else Inr (concat (map (affiliation_of owners)
            (sort_key cl_member (filter (\<lambda>c. cl_event c = con_event con) (db_clubs d))))))"

definition club_request :: "club_codec \<Rightarrow> string \<Rightarrow> string \<Rightarrow> edit_request" where
  "club_request codec k raw = \<lparr> rq_confirm = False, rq_entity = ''member'', rq_id = k, rq_field = ''club'', rq_value = cd_value codec raw \<rparr>"

definition edit_club :: "edit_core \<Rightarrow> club_codec \<Rightarrow> string \<Rightarrow> int \<Rightarrow> string \<Rightarrow> string \<Rightarrow> link \<Rightarrow> (link \<times> bool) res" where
  "edit_club core codec action now k raw x =
    (if runes_of raw = None \<or> \<not> paired_surrogates raw then Inl club_encoding
     else bind_res (apply_edit core action now (club_request codec k raw) (ln_desk x)) (\<lambda>(y, r).
       Inr (x\<lparr> ln_desk := y \<rparr>, r)))"

definition receipt_for :: "club_operation \<Rightarrow> string \<Rightarrow> string option \<Rightarrow> club_receipt" where
  "receipt_for op outcome code = \<lparr> kr_operation = cm_id op, kr_outcome = outcome, kr_code = code, kr_known = False \<rparr>"

definition same_club_operation :: "connection \<Rightarrow> string \<Rightarrow> club_receipt_row \<Rightarrow> bool" where
  "same_club_operation con hash t \<longleftrightarrow> kt_event t = con_event con \<and> kt_scope t = con_scope con \<and>
     kt_origin t = con_origin con \<and> kt_hash t = hash"

text \<open>The row names an owner who is not the one it has now.\<close>

definition owner_changed :: "registration \<Rightarrow> string option \<Rightarrow> string option \<Rightarrow> bool" where
  "owner_changed r owner club \<longleftrightarrow>
     (case reg_person r of None \<Rightarrow> owner \<noteq> None \<or> club \<noteq> None | Some p \<Rightarrow> owner \<noteq> Some (per_id p))"

definition live_registration :: "db \<Rightarrow> string \<Rightarrow> string \<Rightarrow> reg_row option res" where
  "live_registration d event k = bind_res (find_registration d event k) (\<lambda>r.
     Inr (case r of None \<Rightarrow> None | Some row \<Rightarrow> if rr_deleted row then None else Some row))"

definition decide_affiliation ::
  "edit_core \<Rightarrow> club_codec \<Rightarrow> connection \<Rightarrow> string \<Rightarrow> int \<Rightarrow> club_operation \<Rightarrow> link \<Rightarrow> (link \<times> club_receipt) res" where
  "decide_affiliation core codec con action now op x =
    bind_res (live_registration (link_db x) (con_event con) (cm_registration op)) (\<lambda>reg.
    bind_res (read_club codec (cm_club op)) (\<lambda>club.
    bind_res (read_owner codec (cm_person op)) (\<lambda>owner.
    case reg of None \<Rightarrow> Inr (x, receipt_for op ''rejected'' (Some ''registration_not_found''))
    | Some row \<Rightarrow>
        if owner_changed (rr_value row) owner club
        then Inr (x, receipt_for op ''conflict'' (Some ''club_owner_changed''))
        else bind_res (edit_club core codec action now (cm_registration op) (cm_club op) x) (\<lambda>(x1, _).
          bind_res (enqueue_club (con_event con) (con_scope con) (cm_registration op) (cm_id op) (cd_write codec op)
            (rr_heads row) x1) (\<lambda>x2. Inr (x2, receipt_for op ''applied'' None))))))"

definition save_club_receipt :: "club_receipt_row \<Rightarrow> link \<Rightarrow> link res" where
  "save_club_receipt t x =
    (if list_ex (\<lambda>u. kt_operation u = kt_operation t) (ln_receipts x) then Inl constraint_failed
     else Inr (x\<lparr> ln_receipts := ln_receipts x @ [t] \<rparr>))"

definition club_receipt_row_of :: "connection \<Rightarrow> string \<Rightarrow> string \<Rightarrow> club_operation \<Rightarrow> club_receipt \<Rightarrow> club_receipt_row" where
  "club_receipt_row_of con hash body op r = \<lparr> kt_operation = cm_id op, kt_event = con_event con, kt_scope = con_scope con,
     kt_origin = con_origin con, kt_hash = hash, kt_body = body, kt_receipt = r \<rparr>"

definition apply_affiliation ::
  "edit_core \<Rightarrow> club_codec \<Rightarrow> (string \<Rightarrow> string) \<Rightarrow> connection \<Rightarrow> string \<Rightarrow> int \<Rightarrow> string \<Rightarrow> link \<Rightarrow>
     (link \<times> club_receipt) res" where
  "apply_affiliation core codec sha con action now raw x =
    bind_res (parse_club_operation codec raw) (\<lambda>op.
    if cm_scope op \<noteq> con_scope con \<or> cm_origin op \<noteq> con_origin con \<or> scope_of (link_db x) (con_event con) \<noteq> con_scope con
    then Inl club_identity_conflict
    else let body = cd_write codec op; hash = sha body in
      case List.find (\<lambda>t. kt_operation t = cm_id op) (ln_receipts x) of
        Some t \<Rightarrow> if same_club_operation con hash t then Inr (x, (kt_receipt t)\<lparr> kr_known := True \<rparr>) else Inl club_identity_conflict
      | None \<Rightarrow> bind_res (decide_affiliation core codec con action now op x) (\<lambda>(x1, r).
          bind_res (save_club_receipt (club_receipt_row_of con hash body op r) x1) (\<lambda>x2. Inr (x2, r))))"

subsection \<open>A judge changes a club\<close>

definition expected_owner :: "club_codec \<Rightarrow> string \<Rightarrow> string option \<Rightarrow> bool" where
  "expected_owner codec raw p \<longleftrightarrow> raw \<noteq> [] \<and> read_owner codec raw = Inr p"

definition native_club_edit ::
  "edit_core \<Rightarrow> club_codec \<Rightarrow> string \<Rightarrow> string \<Rightarrow> string \<Rightarrow> int \<Rightarrow> string \<Rightarrow> string \<Rightarrow> string \<Rightarrow> link \<Rightarrow> (link \<times> bool) res" where
  "native_club_edit core codec origin fresh action now k raw expected x =
    bind_res (get_member (link_db x) k) (\<lambda>m.
    let event = mb_event m; scope = scope_of (link_db x) event in
    if scope = [] then edit_club core codec action now k raw x
    else if \<not> uuid_pattern origin then Inl ''desk identity''
    else bind_res (live_registration (link_db x) event (mb_id m)) (\<lambda>reg.
      case reg of None \<Rightarrow> Inl ''registration not found''
      | Some row \<Rightarrow> bind_res (read_club codec raw) (\<lambda>club.
          let p = person_id (rr_value row) in
          if p = None \<and> club \<noteq> None then Inl ''club of an empty slot''
          else if \<not> expected_owner codec expected p then Inl ''owner changed''
          else let op = \<lparr> cm_schema = 1, cm_id = fresh, cm_scope = scope, cm_origin = origin, cm_registration = mb_id m,
                 cm_person = cd_text codec p, cm_club = raw \<rparr> in
            bind_res (edit_club core codec action now k raw x) (\<lambda>(x1, r).
            bind_res (enqueue_club event scope (mb_id m) fresh (cd_write codec op) (rr_heads row) x1) (\<lambda>x2. Inr (x2, r))))))"

end
