(* ===== verification/PacketLink.thy ===== *)
theory PacketLink
  imports ClubEdits PacketRebase PacketInstall
begin

section \<open>The connection of packet issuance to the site\<close>

text \<open>
  \<^verbatim>\<open>service/packet_issuance_site.go\<close> and \<^verbatim>\<open>packet_club_relay.go\<close>: enrolling this desk with the site, sending the tablets'
  operations and the club edits, and following the site's feed, with the rows of \<^verbatim>\<open>sqlite/packet_relay_state.go\<close>.
  The site is a parameter with a state \<open>'s\<close> of its own: every request gives an answer and a new state, so it may answer
  the same request differently each time.  \<open>st_path\<close> is \<^verbatim>\<open>url.Parse\<close>: the path of an HTTPS address without user, query
  and fragment.  An answer is the HTTP response with its body decoded by \<^verbatim>\<open>encoding/json\<close> into the struct of the source
  (a missing pointer or raw field is \<open>None\<close>).
\<close>

subsection \<open>Answers of the site\<close>

record refusal =
  rf_status :: int
  rf_length :: nat
  rf_json :: bool
  rf_body :: "json option"

datatype 'a answer = Unreachable | Oversized | Refused refusal | Unreadable | Reply 'a

record receipt_wire =
  wr_operation :: string
  wr_hash :: string
  wr_outcome :: string
  wr_known :: "bool option"
  wr_code :: "json option"

record receipts_wire =
  wb_schema :: "int option"
  wb_receipts :: "receipt_wire list"

record club_wire =
  wc_schema :: "int option"
  wc_operation :: string
  wc_outcome :: string
  wc_code :: "json option"
  wc_known :: "bool option"

record affiliation_wire =
  wa_registration :: string
  wa_person :: string
  wa_club :: string

record affiliations_wire =
  ws_schema :: "int option"
  ws_scope :: string
  ws_affiliations :: "affiliation_wire list option"

record descriptor =
  ds_schema :: int
  ds_relay :: string
  ds_api :: string
  ds_scope :: string
  ds_event :: string
  ds_desk :: string
  ds_expires :: string
  ds_bootstrap :: bool
  ds_operations :: bool
  ds_feed :: bool

record 's site_env =
  st_codec :: club_codec
  st_sha :: "string \<Rightarrow> string"
  st_age :: "string \<Rightarrow> string \<Rightarrow> bool \<Rightarrow> int"
  st_path :: "string \<Rightarrow> string option"
  st_payload :: "operation list \<Rightarrow> nat"
  st_clock :: "'s \<Rightarrow> int"
  st_enroll :: "string \<Rightarrow> string \<Rightarrow> string \<Rightarrow> string \<Rightarrow> string \<Rightarrow> 's \<Rightarrow> descriptor answer \<times> 's"
  st_bootstrap :: "string \<Rightarrow> string \<Rightarrow> 's \<Rightarrow> json answer \<times> 's"
  st_operations :: "string \<Rightarrow> string \<Rightarrow> operation list \<Rightarrow> 's \<Rightarrow> receipts_wire answer \<times> 's"
  st_feed :: "string \<Rightarrow> string \<Rightarrow> string \<Rightarrow> 's \<Rightarrow> json answer \<times> 's"
  st_club :: "string \<Rightarrow> string \<Rightarrow> string \<Rightarrow> 's \<Rightarrow> club_wire answer \<times> 's"
  st_affiliations :: "string \<Rightarrow> string \<Rightarrow> 's \<Rightarrow> affiliations_wire answer \<times> 's"

subsection \<open>Addresses\<close>

definition trim_slashes :: "string \<Rightarrow> string" where
  "trim_slashes s = rev (dropWhile (\<lambda>c. c = CHR ''/'') (rev s))"

definition bounded_url :: "'s site_env \<Rightarrow> string \<Rightarrow> bool" where
  "bounded_url env s \<longleftrightarrow> s \<noteq> [] \<and> length s \<le> 2048 \<and> CHR 0x00 \<notin> set s \<and> st_path env s \<noteq> None"

definition relay_url :: "'s site_env \<Rightarrow> string \<Rightarrow> string \<Rightarrow> string res" where
  "relay_url env base suffix =
    (let b = trim_slashes (trim_space base) in
     if bounded_url env b then Inr (b @ suffix) else Inl ''invalid packet relay endpoint'')"

subsection \<open>The relay of an event\<close>

record relay_row =
  ry_event :: string
  ry_site :: string
  ry_desk :: string
  ry_credential :: string
  ry_relay :: string
  ry_api :: string
  ry_scope :: string
  ry_expires :: string
  ry_enrolled :: "int option"

definition relay_of :: "relay_row list \<Rightarrow> string \<Rightarrow> relay_row option" where
  "relay_of rs event = List.find (\<lambda>r. ry_event r = event) rs"

definition fresh_relay :: "string \<Rightarrow> string \<Rightarrow> string \<Rightarrow> string \<Rightarrow> relay_row" where
  "fresh_relay event site desk credential = \<lparr> ry_event = event, ry_site = site, ry_desk = desk, ry_credential = credential,
     ry_relay = [], ry_api = [], ry_scope = [], ry_expires = [], ry_enrolled = None \<rparr>"

definition prepare_relay :: "string \<Rightarrow> string \<Rightarrow> string \<Rightarrow> 8 word list \<Rightarrow> relay_row list \<Rightarrow> (relay_row list \<times> relay_row) res" where
  "prepare_relay event site desk secret rs =
    (if event = [] \<or> site = [] \<or> desk = [] then Inl ''invalid packet relay identity''
     else let new = fresh_relay event site desk (base64_text secret) in
       case relay_of rs event of None \<Rightarrow> Inr (rs @ [new], new)
       | Some r \<Rightarrow> if ry_site r = site \<and> ry_desk r = desk then Inr (rs, r)
           else Inr (update_where (\<lambda>r. ry_event r = event) (\<lambda>_. new) rs, new))"

definition same_preparation :: "relay_row \<Rightarrow> relay_row \<Rightarrow> bool" where
  "same_preparation a b \<longleftrightarrow> ry_event b = ry_event a \<and> ry_site b = ry_site a \<and> ry_desk b = ry_desk a \<and>
     ry_credential b = ry_credential a"

definition complete_relay :: "int \<Rightarrow> relay_row \<Rightarrow> relay_row list \<Rightarrow> relay_row list res" where
  "complete_relay now r rs =
    (if count_where (same_preparation r) rs \<noteq> 1 then Inl ''packet relay preparation changed''
     else Inr (update_where (same_preparation r) (\<lambda>b. b\<lparr> ry_relay := ry_relay r, ry_api := ry_api r, ry_scope := ry_scope r,
            ry_expires := ry_expires r, ry_enrolled := Some now \<rparr>) rs))"

definition configured :: "relay_row \<Rightarrow> bool" where
  "configured r \<longleftrightarrow> ry_relay r \<noteq> [] \<and> ry_api r \<noteq> [] \<and> ry_credential r \<noteq> []"

definition roster_installed :: "db \<Rightarrow> relay_row \<Rightarrow> bool" where
  "roster_installed d r \<longleftrightarrow> scope_of d (ry_event r) \<noteq> [] \<and> scope_of d (ry_event r) = ry_scope r"

subsection \<open>Enrolment and the roster\<close>

definition has_suffix :: "string \<Rightarrow> string \<Rightarrow> bool" where
  "has_suffix p s \<longleftrightarrow> length p \<le> length s \<and> drop (length s - length p) s = p"

definition check_descriptor :: "'s site_env \<Rightarrow> int \<Rightarrow> descriptor \<Rightarrow> descriptor res" where
  "check_descriptor env now x =
    (if \<not> bounded_url env (ds_api x) \<or>
        \<not> has_suffix (''/relays/'' @ ds_relay x) (trim_slashes (the (st_path env (ds_api x))))
     then Inl ''invalid packet relay endpoint''
     else case instant_millis (ds_expires x) of None \<Rightarrow> Inl ''unsupported packet relay descriptor''
     | Some t \<Rightarrow>
         if ds_schema x \<noteq> 1 \<or> \<not> uuid_pattern (ds_relay x) \<or> \<not> uuid_pattern (ds_desk x) \<or> ds_scope x = [] \<or> ds_event x = [] \<or>
            t \<le> now \<or> \<not> ds_bootstrap x \<or> \<not> ds_operations x \<or> \<not> ds_feed x
         then Inl ''unsupported packet relay descriptor'' else Inr x)"

definition enrol :: "'s site_env \<Rightarrow> relay_row \<Rightarrow> string \<Rightarrow> string \<Rightarrow> 's \<Rightarrow> descriptor res \<times> 's" where
  "enrol env r token label s =
    (if \<not> bounded_url env (trim_slashes (trim_space (ry_site r))) then (Inl ''packet issuance requires an HTTPS site address'', s)
     else let (a, s') = st_enroll env (trim_slashes (trim_space (ry_site r))) token (ry_event r) (ry_credential r) label s in
       case a of Reply x \<Rightarrow> (bind_res (check_descriptor env (st_clock env s') x) (\<lambda>x.
           if ds_event x \<noteq> ry_event r \<or> ds_desk x \<noteq> ry_desk r then Inl ''packet relay descriptor identity mismatch'' else Inr x), s')
       | _ \<Rightarrow> (Inl ''packet relay enrolment'', s'))"

definition fetch_bootstrap :: "'s site_env \<Rightarrow> string \<Rightarrow> string \<Rightarrow> string \<Rightarrow> string \<Rightarrow> 's \<Rightarrow> bootstrap res \<times> 's" where
  "fetch_bootstrap env api scope event credential s =
    (case relay_url env api ''/bootstrap'' of Inl e \<Rightarrow> (Inl e, s)
     | Inr url \<Rightarrow> let (a, s') = st_bootstrap env (url @ ''?reserveOrigins=1'') credential s in
       case a of Reply v \<Rightarrow> (case parse_bootstrap v of Inl e \<Rightarrow> Inl ''packet roster contract mismatch''
           | Inr b \<Rightarrow> if boot_scope b \<noteq> scope \<or> fst (boot_event b) \<noteq> event then Inl ''packet roster contract mismatch'' else Inr b, s')
       | _ \<Rightarrow> (Inl ''packet roster'', s'))"

definition bootstrap_scope :: "bootstrap \<Rightarrow> scope_row" where
  "bootstrap_scope b = \<lparr> sc_event = fst (boot_event b), sc_scope = boot_scope b, sc_baseline = boot_baseline b,
     sc_source = boot_source b, sc_installed = 0, sc_cursor = boot_cursor b \<rparr>"

definition described :: "descriptor \<Rightarrow> relay_row \<Rightarrow> relay_row" where
  "described x r = r\<lparr> ry_relay := ds_relay x, ry_api := ds_api x, ry_scope := ds_scope x, ry_expires := ds_expires x \<rparr>"

definition install_bootstrap :: "bootstrap \<Rightarrow> int \<Rightarrow> db \<Rightarrow> db res" where
  "install_bootstrap b at = install_roster (bootstrap_scope b) (boot_registrations b) (boot_origins b) at"

definition connect_site ::
  "'s site_env \<Rightarrow> string \<Rightarrow> string \<Rightarrow> string \<Rightarrow> string \<Rightarrow> string \<Rightarrow> 8 word list \<Rightarrow> relay_row list \<Rightarrow> db \<Rightarrow> 's \<Rightarrow>
     (relay_row list \<times> db \<times> 's) \<times> string option" where
  "connect_site env event desk base token label secret rs d s =
    (if trim_space base = [] \<or> trim_space token = [] then ((rs, d, s), Some ''site address'')
     else case prepare_relay event (trim_slashes (trim_space base)) desk secret rs of Inl e \<Rightarrow> ((rs, d, s), Some e)
     | Inr (rs1, r) \<Rightarrow> (case enrol env r token label s of
         (Inl e, s1) \<Rightarrow> ((rs1, d, s1), Some e)
       | (Inr x, s1) \<Rightarrow> (case complete_relay (st_clock env s1) (described x r) rs1 of Inl e \<Rightarrow> ((rs1, d, s1), Some e)
         | Inr rs2 \<Rightarrow> (case fetch_bootstrap env (ds_api x) (ds_scope x) (ds_event x) (ry_credential r) s1 of
             (Inl e, s2) \<Rightarrow> ((rs2, d, s2), Some e)
           | (Inr b, s2) \<Rightarrow> (case install_bootstrap b (st_clock env s2) d of Inl e \<Rightarrow> ((rs2, d, s2), Some e)
             | Inr d' \<Rightarrow> ((rs2, d', s2), None))))))"

subsection \<open>Receipts of operations\<close>

definition valid_receipt :: "receipt \<Rightarrow> bool" where
  "valid_receipt r \<longleftrightarrow> (if rcp_outcome r = ''applied'' \<or> rcp_outcome r = ''equivalent'' then rcp_code r = None
     else if rcp_outcome r = ''waiting_dependency'' \<or> rcp_outcome r = ''conflict'' \<or> rcp_outcome r = ''rejected''
     then rcp_code r \<noteq> None \<and> rcp_code r \<noteq> Some [] else False)"

definition optional_text :: "json \<Rightarrow> string option res" where
  "optional_text v = (case v of JNull \<Rightarrow> Inr None | JText s \<Rightarrow> Inr (Some s) | _ \<Rightarrow> Inl ''expects a string or null'')"

definition invalid_receipt :: string where
  "invalid_receipt = ''invalid packet operation receipt''"

definition read_receipt :: "'s site_env \<Rightarrow> operation \<times> receipt_wire \<Rightarrow> receipt res" where
  "read_receipt env p =
    (let (op, w) = p in
     case (wr_known w, wr_code w) of
       (Some known, Some v) \<Rightarrow> (case optional_text v of Inl _ \<Rightarrow> Inl invalid_receipt
         | Inr code \<Rightarrow>
             let r = \<lparr> rcp_operation = wr_operation w, rcp_hash = wr_hash w, rcp_outcome = wr_outcome w, rcp_known = known,
                       rcp_code = code \<rparr> in
             if rcp_operation r \<noteq> op_id op \<or> rcp_hash r \<noteq> content_hash (st_sha env) op \<or> \<not> valid_receipt r
             then Inl invalid_receipt else Inr r)
     | _ \<Rightarrow> Inl invalid_receipt)"

definition read_receipts :: "'s site_env \<Rightarrow> operation list \<Rightarrow> receipts_wire \<Rightarrow> receipt list res" where
  "read_receipts env ops b =
    (if wb_schema b \<noteq> Some 1 \<or> length (wb_receipts b) \<noteq> length ops then Inl ''invalid packet operation receipts''
     else map_res (read_receipt env) (zip ops (wb_receipts b)))"

definition push_operations :: "'s site_env \<Rightarrow> string \<Rightarrow> string \<Rightarrow> operation list \<Rightarrow> 's \<Rightarrow> receipt list res \<times> 's" where
  "push_operations env api credential ops s =
    (if ops = [] \<or> 64 < length ops \<or> 1048576 < st_payload env ops then (Inl ''invalid packet operation batch'', s)
     else case relay_url env api ''/operations'' of Inl e \<Rightarrow> (Inl e, s)
     | Inr url \<Rightarrow> let (a, s') = st_operations env url credential ops s in
         (case a of Reply b \<Rightarrow> read_receipts env ops b | _ \<Rightarrow> Inl ''packet operation delivery'', s'))"

subsection \<open>Receipts of club edits\<close>

datatype club_error = Club_Http int | Club_Network

definition accepted_club_code :: "string \<Rightarrow> string option \<Rightarrow> bool" where
  "accepted_club_code outcome code \<longleftrightarrow> (if outcome = ''applied'' then code = None
     else (outcome = ''conflict'' \<or> outcome = ''rejected'') \<and>
       (code = Some ''club_owner_changed'' \<or> code = Some ''registration_not_found''))"

definition read_club_receipt :: "club_operation \<Rightarrow> club_wire \<Rightarrow> club_receipt option" where
  "read_club_receipt op w =
    (case (wc_known w, wc_code w) of
       (Some known, Some v) \<Rightarrow> (case optional_text v of Inl _ \<Rightarrow> None
         | Inr code \<Rightarrow> if wc_schema w \<noteq> Some 1 \<or> wc_operation w \<noteq> cm_id op \<or> \<not> accepted_club_code (wc_outcome w) code then None
             else Some \<lparr> kr_operation = wc_operation w, kr_outcome = wc_outcome w, kr_code = code, kr_known = known \<rparr>)
     | _ \<Rightarrow> None)"

definition push_club :: "'s site_env \<Rightarrow> relay_row \<Rightarrow> string \<Rightarrow> 's \<Rightarrow> (club_error + club_receipt) \<times> 's" where
  "push_club env r body s =
    (case parse_club_operation (st_codec env) body of Inl _ \<Rightarrow> (Inl Club_Network, s)
     | Inr op \<Rightarrow> (case relay_url env (ry_api r) ''/club-affiliations'' of Inl _ \<Rightarrow> (Inl Club_Network, s)
       | Inr url \<Rightarrow> let (a, s') = st_club env url (ry_credential r) body s in
           (case a of Refused f \<Rightarrow> Inl (Club_Http (rf_status f))
            | Reply w \<Rightarrow> (case read_club_receipt op w of None \<Rightarrow> Inl Club_Network | Some k \<Rightarrow> Inr k)
            | _ \<Rightarrow> Inl Club_Network, s')))"

definition club_error_code :: "club_error \<Rightarrow> string" where
  "club_error_code e = (case e of Club_Http n \<Rightarrow> ''club_http_'' @ format_int n | Club_Network \<Rightarrow> ''club_network_error'')"

definition needs_review :: "club_error \<Rightarrow> bool" where
  "needs_review e = (case e of Club_Http n \<Rightarrow> n \<in> {400, 401, 403, 404, 409, 413, 415, 422} | Club_Network \<Rightarrow> False)"

subsection \<open>Draining the club edits\<close>

record totals =
  tt_deferred :: bool
  tt_club_attempted :: nat
  tt_club_accepted :: nat
  tt_club_review :: nat
  tt_attempted :: nat
  tt_accepted :: nat
  tt_waiting :: nat

record 's sync_run =
  rn_link :: link
  rn_site :: 's
  rn_totals :: totals

datatype flush_end = Go_On | Stop bool "string option"

definition no_totals :: totals where
  "no_totals = \<lparr> tt_deferred = False, tt_club_attempted = 0, tt_club_accepted = 0, tt_club_review = 0, tt_attempted = 0,
     tt_accepted = 0, tt_waiting = 0 \<rparr>"

definition for_review :: "totals \<Rightarrow> totals" where
  "for_review t = t\<lparr> tt_club_review := tt_club_review t + 1 \<rparr>"

definition after_club :: "string \<Rightarrow> totals \<Rightarrow> totals" where
  "after_club outcome t = (if outcome = ''applied'' then t\<lparr> tt_club_accepted := tt_club_accepted t + 1 \<rparr> else for_review t)"

definition set_aside :: "club_edit \<Rightarrow> string \<Rightarrow> int \<Rightarrow> 's sync_run \<Rightarrow> 's sync_run \<times> flush_end" where
  "set_aside e code now r =
    (case defer_club e code True now (rn_link r) of Inl err \<Rightarrow> (r, Stop False (Some err))
     | Inr x \<Rightarrow> (r\<lparr> rn_link := x, rn_totals := for_review (rn_totals r) \<rparr>, Go_On))"

definition put_off :: "club_edit \<Rightarrow> string \<Rightarrow> int \<Rightarrow> 's sync_run \<Rightarrow> 's sync_run \<times> flush_end" where
  "put_off e code now r =
    (case defer_club e code False now (rn_link r) of Inl err \<Rightarrow> (r, Stop False (Some err))
     | Inr x \<Rightarrow> (r\<lparr> rn_link := x \<rparr>, Stop True (Some code)))"

definition deliver_club :: "'s site_env \<Rightarrow> relay_row \<Rightarrow> club_edit \<Rightarrow> 's sync_run \<Rightarrow> 's sync_run \<times> flush_end" where
  "deliver_club env rl e r =
    (let (a, s) = push_club env rl (ce_body e) (rn_site r); t = rn_totals r;
         r1 = r\<lparr> rn_site := s, rn_totals := t\<lparr> tt_club_attempted := tt_club_attempted t + 1 \<rparr> \<rparr> in
     case a of
       Inl err \<Rightarrow> if needs_review err then set_aside e (club_error_code err) (st_clock env s) r1
                 else put_off e (club_error_code err) (st_clock env s) r1
     | Inr k \<Rightarrow> (case acknowledge_club (ce_operation e) (kr_outcome k) (kr_code k) (rn_link r1) of
         Inl err \<Rightarrow> (r1, Stop False (Some err))
       | Inr x \<Rightarrow> (r1\<lparr> rn_link := x, rn_totals := after_club (kr_outcome k) (rn_totals r1) \<rparr>, Go_On)))"

definition flush_one :: "'s site_env \<Rightarrow> relay_row \<Rightarrow> club_edit \<Rightarrow> 's sync_run \<Rightarrow> 's sync_run \<times> flush_end" where
  "flush_one env rl e r =
    (if ce_scope e \<noteq> ry_scope rl then (r, Stop False (Some club_identity_conflict))
     else case club_readiness (link_db (rn_link r)) (ce_event e) (ce_heads e) of
       Conflicted \<Rightarrow> set_aside e ''club_dependency_conflict'' (st_clock env (rn_site r)) r
     | Not_Ready \<Rightarrow> (r, Stop True None)
     | Ready \<Rightarrow> if st_clock env (rn_site r) < ce_next e then (r, Stop True (Some ''club edit waits'')) else deliver_club env rl e r)"

fun flush_rows :: "'s site_env \<Rightarrow> relay_row \<Rightarrow> club_edit list \<Rightarrow> 's sync_run \<Rightarrow> 's sync_run \<times> flush_end" where
  "flush_rows env rl [] r = (r, Go_On)"
| "flush_rows env rl (e # es) r = (case flush_one env rl e r of
     (r1, Go_On) \<Rightarrow> flush_rows env rl es r1 | (r1, Stop p err) \<Rightarrow> (r1, Stop p err))"

text \<open>\<^verbatim>\<open>flushPacketClubOutbox\<close>: the flag says that club edits are left which later operations must not overtake.\<close>

function flush_clubs :: "'s site_env \<Rightarrow> relay_row \<Rightarrow> nat \<Rightarrow> 's sync_run \<Rightarrow> 's sync_run \<times> bool \<times> string option" where
  "flush_clubs env rl drained r =
    (if 1024 \<le> drained then (r, True, Some ''club metadata delivery limit reached'')
     else case pending_clubs (ry_event rl) (rn_link r) of [] \<Rightarrow> (r, False, None)
     | e # es \<Rightarrow> (case flush_rows env rl (e # es) r of
         (r1, Go_On) \<Rightarrow> flush_clubs env rl (drained + length (e # es)) r1
       | (r1, Stop p err) \<Rightarrow> (r1, p, err)))"
  by pat_completeness auto
termination by (relation "measure (\<lambda>(env, rl, drained, r). 1024 - drained)") auto

declare flush_clubs.simps [simp del]

subsection \<open>Clubs the site has\<close>

type_synonym clubs = "(string \<times> string option) list"

definition read_affiliation :: "club_codec \<Rightarrow> affiliation_wire \<Rightarrow> clubs \<times> clubs \<Rightarrow> (clubs \<times> clubs) res" where
  "read_affiliation codec w co =
    (let (clubs, owners) = co; invalid = Inl ''invalid club metadata snapshot''; k = wa_registration w in
     if k \<in> fst ` set clubs \<or> \<not> identifier_pattern k \<or> wa_club w = [] \<or> wa_person w = [] then invalid
     else case read_owner codec (wa_person w) of Inl _ \<Rightarrow> invalid
     | Inr owner \<Rightarrow>
         if \<not> good_owner owner then invalid
         else bind_res (read_club codec (wa_club w)) (\<lambda>club.
           if owner = None \<and> club \<noteq> None then invalid else Inr (clubs @ [(k, club)], owners @ [(k, owner)])))"

definition read_affiliations_wire :: "club_codec \<Rightarrow> string \<Rightarrow> affiliations_wire \<Rightarrow> (clubs \<times> clubs) res" where
  "read_affiliations_wire codec scope b =
    (case ws_affiliations b of None \<Rightarrow> Inl ''invalid club metadata snapshot''
     | Some ws \<Rightarrow> if ws_schema b \<noteq> Some 1 \<or> ws_scope b \<noteq> scope \<or> 20000 < length ws then Inl ''invalid club metadata snapshot''
         else fold_res (read_affiliation codec) ws ([], []))"

definition apply_snapshot :: "'s site_env \<Rightarrow> relay_row \<Rightarrow> affiliations_wire \<Rightarrow> link \<Rightarrow> link res" where
  "apply_snapshot env rl b x =
    bind_res (read_affiliations_wire (st_codec env) (ry_scope rl) b) (\<lambda>(clubs, owners).
    if scope_of (link_db x) (ry_event rl) \<noteq> ry_scope rl then Inl club_identity_conflict
    else apply_bound_clubs (st_codec env) (ry_event rl) clubs owners x)"

definition refresh_clubs :: "'s site_env \<Rightarrow> relay_row \<Rightarrow> link \<Rightarrow> 's \<Rightarrow> link res \<times> 's" where
  "refresh_clubs env rl x s =
    (case relay_url env (ry_api rl) ''/club-affiliations'' of Inl e \<Rightarrow> (Inl e, s)
     | Inr url \<Rightarrow> let (a, s') = st_affiliations env url (ry_credential rl) s in
         (case a of Reply b \<Rightarrow> apply_snapshot env rl b x
          | Refused f \<Rightarrow> if rf_status f = 404 then Inr x else Inl ''club metadata receiver''
          | _ \<Rightarrow> Inl ''club metadata'', s'))"

subsection \<open>Sending the operations\<close>

datatype sync_end = Again | Ended "string option"

definition count_receipt :: "receipt \<Rightarrow> totals \<Rightarrow> totals" where
  "count_receipt r t = (if rcp_outcome r = ''waiting_dependency'' then t\<lparr> tt_waiting := tt_waiting t + 1 \<rparr>
     else t\<lparr> tt_accepted := tt_accepted t + 1 \<rparr>)"

fun mark_receipts :: "receipt list \<Rightarrow> db \<Rightarrow> totals \<Rightarrow> db res \<times> totals" where
  "mark_receipts [] d t = (Inr d, t)"
| "mark_receipts (r # rs) d t = (case mark_receipt r d of Inl e \<Rightarrow> (Inl e, t)
     | Inr d' \<Rightarrow> mark_receipts rs d' (count_receipt r t))"

definition delivery_limit :: string where
  "delivery_limit = ''packet operation delivery limit reached''"

definition with_refresh :: "'s site_env \<Rightarrow> relay_row \<Rightarrow> 's sync_run \<Rightarrow> 's sync_run" where
  "with_refresh env rl r =
    (let (a, s) = refresh_clubs env rl (rn_link r) (rn_site r); t = rn_totals r in
     case a of Inl _ \<Rightarrow> r\<lparr> rn_site := s, rn_totals := t\<lparr> tt_deferred := True \<rparr> \<rparr>
     | Inr x \<Rightarrow> r\<lparr> rn_link := x, rn_site := s, rn_totals := t\<lparr> tt_deferred := False \<rparr> \<rparr>)"

definition settle_receipts :: "receipt list \<Rightarrow> 's sync_run \<Rightarrow> 's sync_run \<times> sync_end" where
  "settle_receipts rs r =
    (let t = rn_totals r; t1 = t\<lparr> tt_attempted := tt_attempted t + length rs \<rparr>;
         (a, t2) = mark_receipts rs (link_db (rn_link r)) t1; r1 = r\<lparr> rn_totals := t2 \<rparr> in
     case a of Inl e \<Rightarrow> (r1, Ended (Some e))
     | Inr d \<Rightarrow> (r1\<lparr> rn_link := with_link_db d (rn_link r) \<rparr>,
         if tt_waiting t < tt_waiting t2 then Ended None
         else if 1024 \<le> tt_attempted t2 then Ended (Some delivery_limit) else Again))"

definition send_operations :: "'s site_env \<Rightarrow> relay_row \<Rightarrow> operation list \<Rightarrow> 's sync_run \<Rightarrow> 's sync_run \<times> sync_end" where
  "send_operations env rl ops r =
    (case push_operations env (ry_api rl) (ry_credential rl) ops (rn_site r) of
       (Inl e, s) \<Rightarrow> (r\<lparr> rn_site := s \<rparr>, Ended (Some e))
     | (Inr rs, s) \<Rightarrow> settle_receipts rs (r\<lparr> rn_site := s \<rparr>))"

definition sync_batch :: "'s site_env \<Rightarrow> relay_row \<Rightarrow> 's sync_run \<Rightarrow> 's sync_run \<times> sync_end" where
  "sync_batch env rl r =
    (let (r1, left, err) = flush_clubs env rl 0 r in
     case err of Some e \<Rightarrow> (r1, Ended (Some e))
     | None \<Rightarrow> (case pending_ops (link_db (rn_link r1)) (ry_event rl) (if left then 1 else 64) of
         Inl e \<Rightarrow> (r1, Ended (Some e))
       | Inr ops \<Rightarrow> if ops = [] then (if left then r1 else with_refresh env rl r1, Ended None)
           else send_operations env rl ops r1))"

fun sync_batches :: "nat \<Rightarrow> 's site_env \<Rightarrow> relay_row \<Rightarrow> 's sync_run \<Rightarrow> 's sync_run \<times> string option" where
  "sync_batches 0 env rl r = (r, Some delivery_limit)"
| "sync_batches (Suc n) env rl r = (case sync_batch env rl r of
     (r1, Again) \<Rightarrow> sync_batches n env rl r1 | (r1, Ended e) \<Rightarrow> (r1, e))"

definition start_run :: "link \<Rightarrow> 's \<Rightarrow> 's sync_run" where
  "start_run x s = \<lparr> rn_link = x, rn_site = s, rn_totals = no_totals \<rparr>"

definition sync_operations :: "'s site_env \<Rightarrow> relay_row list \<Rightarrow> string \<Rightarrow> link \<Rightarrow> 's \<Rightarrow> 's sync_run \<times> string option" where
  "sync_operations env rs event x s =
    (case relay_of rs event of None \<Rightarrow> (start_run x s, None)
     | Some rl \<Rightarrow> if configured rl then sync_batches 1024 env rl (start_run x s) else (start_run x s, None))"

subsection \<open>Following the feed\<close>

record feed_totals =
  ft_received :: nat
  ft_applied :: nat
  ft_review :: nat
  ft_cursor :: string
  ft_rebased :: bool

datatype pulled = Page feed_page | Cursor_Lost | Pull_Failed string

text \<open>\<^verbatim>\<open>packetFeedCursorError\<close>: a conflict whose only field, \<^verbatim>\<open>message\<close> or \<^verbatim>\<open>error\<close>, names what happened to the cursor.\<close>

definition cursor_lost :: "refusal \<Rightarrow> bool" where
  "cursor_lost f \<longleftrightarrow> rf_status f = 409 \<and> 0 < rf_length f \<and> rf_length f \<le> 4096 \<and> rf_json f \<and>
     (case rf_body f of Some (JObject [(k, JText code)]) \<Rightarrow>
        (k = ''message'' \<or> k = ''error'') \<and> (code = ''cursor_ahead'' \<or> code = ''cursor_expired'')
      | _ \<Rightarrow> False)"

definition pull_feed :: "'s site_env \<Rightarrow> relay_row \<Rightarrow> string \<Rightarrow> string \<Rightarrow> 's \<Rightarrow> pulled \<times> 's" where
  "pull_feed env rl scope after s =
    (case relay_url env (ry_api rl) ''/feed'' of Inl e \<Rightarrow> (Pull_Failed e, s)
     | Inr url \<Rightarrow> let (a, s') = st_feed env url (ry_credential rl) after s in
         (case a of Reply v \<Rightarrow> (case parse_feed_page v scope after of Inl e \<Rightarrow> Pull_Failed e | Inr p \<Rightarrow> Page p)
          | Refused f \<Rightarrow> if cursor_lost f then Cursor_Lost else Pull_Failed ''packet feed''
          | _ \<Rightarrow> Pull_Failed ''packet feed'', s'))"

definition count_applications :: "application list \<Rightarrow> feed_totals \<Rightarrow> feed_totals" where
  "count_applications as t = t\<lparr>
     ft_received := ft_received t + length as,
     ft_applied := ft_applied t + count_where (\<lambda>a. ap_application a = ''applied'' \<or> ap_application a = ''observed'') as,
     ft_review := ft_review t + count_where (\<lambda>a. ap_application a = ''review'') as \<rparr>"

definition take_snapshot :: "'s site_env \<Rightarrow> relay_row \<Rightarrow> db \<times> 's \<times> feed_totals \<Rightarrow> (db \<times> 's \<times> feed_totals) \<times> sync_end" where
  "take_snapshot env rl r =
    (let (d, s, t) = r in
     case fetch_bootstrap env (ry_api rl) (ry_scope rl) (ry_event rl) (ry_credential rl) s of
       (Inl e, s1) \<Rightarrow> ((d, s1, t), Ended (Some e))
     | (Inr b, s1) \<Rightarrow> (case rebase (st_age env) (ry_event rl) b (st_clock env s1) d of Inl e \<Rightarrow> ((d, s1, t), Ended (Some e))
         | Inr (d1, res) \<Rightarrow> ((d1, s1, t\<lparr> ft_applied := ft_applied t + rbr_applied res,
              ft_review := ft_review t + rbr_review res, ft_cursor := boot_cursor b, ft_rebased := True \<rparr>), Ended None)))"

definition feed_turn :: "'s site_env \<Rightarrow> relay_row \<Rightarrow> db \<times> 's \<times> feed_totals \<Rightarrow> (db \<times> 's \<times> feed_totals) \<times> sync_end" where
  "feed_turn env rl r =
    (let (d, s, t) = r in
     if \<not> roster_installed d rl then (r, Ended (Some ''packet issuance roster is not installed''))
     else case pull_feed env rl (ry_scope rl) (site_cursor d (ry_event rl)) s of
       (Pull_Failed e, s1) \<Rightarrow> ((d, s1, t), Ended (Some e))
     | (Cursor_Lost, s1) \<Rightarrow> take_snapshot env rl (d, s1, t)
     | (Page p, s1) \<Rightarrow> (case apply_page (st_sha env) (st_age env) (ry_event rl) p d of Inl e \<Rightarrow> ((d, s1, t), Ended (Some e))
         | Inr (d1, as) \<Rightarrow> ((d1, s1, (count_applications as t)\<lparr> ft_cursor := cur_next (page_cursor p) \<rparr>),
              if cur_more (page_cursor p) then Again else Ended None)))"

fun feed_turns :: "nat \<Rightarrow> 's site_env \<Rightarrow> relay_row \<Rightarrow> db \<times> 's \<times> feed_totals \<Rightarrow> (db \<times> 's \<times> feed_totals) \<times> string option" where
  "feed_turns 0 env rl r = (r, Some ''packet feed page limit reached'')"
| "feed_turns (Suc n) env rl r = (case feed_turn env rl r of
     (r1, Again) \<Rightarrow> feed_turns n env rl r1 | (r1, Ended e) \<Rightarrow> (r1, e))"

definition no_feed :: feed_totals where
  "no_feed = \<lparr> ft_received = 0, ft_applied = 0, ft_review = 0, ft_cursor = [], ft_rebased = False \<rparr>"

definition sync_feed :: "'s site_env \<Rightarrow> relay_row list \<Rightarrow> string \<Rightarrow> db \<Rightarrow> 's \<Rightarrow> (db \<times> 's \<times> feed_totals) \<times> string option" where
  "sync_feed env rs event d s =
    (case relay_of rs event of None \<Rightarrow> ((d, s, no_feed), None)
     | Some rl \<Rightarrow> if configured rl then feed_turns 100 env rl (d, s, no_feed) else ((d, s, no_feed), None))"

subsection \<open>What the desk shows\<close>

record relay_view =
  rst_configured :: bool
  rst_relay :: string
  rst_scope :: string
  rst_expires :: string
  rst_cursor :: string
  rst_installed :: bool
  rst_pending :: nat
  rst_review :: nat

definition relay_status :: "relay_row list \<Rightarrow> string \<Rightarrow> link \<Rightarrow> relay_view" where
  "relay_status rs event x =
    (let r = (case relay_of rs event of None \<Rightarrow> fresh_relay [] [] [] [] | Some r \<Rightarrow> r); d = link_db x in
     \<lparr> rst_configured = (relay_of rs event \<noteq> None \<and> ry_relay r \<noteq> []), rst_relay = ry_relay r, rst_scope = ry_scope r,
       rst_expires = ry_expires r, rst_cursor = site_cursor d event,
       rst_installed = (scope_of d event \<noteq> [] \<and> scope_of d event = ry_scope r),
       rst_pending = fst (club_counts event x), rst_review = snd (club_counts event x) \<rparr>)"

end
