(* ===== verification/LinkLaws.thy ===== *)
theory LinkLaws
  imports PacketLink DeskMachine
begin

section \<open>What the exchange with the site achieves\<close>

subsection \<open>Following the feed\<close>

text \<open>The pages the site answers with, one request after the other, each for the cursor the last page left.\<close>

fun pages_of :: "'s site_env \<Rightarrow> relay_row \<Rightarrow> string \<Rightarrow> 's \<Rightarrow> feed_page list \<Rightarrow> 's \<Rightarrow> bool" where
  "pages_of env rl c s [] s' \<longleftrightarrow> s' = s"
| "pages_of env rl c s (p # ps) s' \<longleftrightarrow>
     (\<exists>s1. pull_feed env rl (ry_scope rl) c s = (Page p, s1) \<and> pages_of env rl (cur_next (page_cursor p)) s1 ps s')"

lemma pulled_page:
  assumes "pull_feed env rl scope c s = (Page p, s1)"
  shows "\<exists>v. parse_feed_page v scope c = Inr p"
proof (cases "relay_url env (ry_api rl) ''/feed''")
  case (Inr url)
  obtain a s2 where a: "st_feed env url (ry_credential rl) c s = (a, s2)" by fastforce
  show ?thesis using assms by (cases a) (auto simp: pull_feed_def Inr a split: sum.splits if_splits)
qed (use assms in \<open>simp add: pull_feed_def\<close>)

lemma page_changes_wf:
  assumes "parse_feed_page v scope c = Inr p" and "a \<in> set (page_actions p)" and "ch \<in> set (act_changes a)"
  shows "wf_change (feed_event_id scope) ch"
proof -
  have "action_sound scope (feed_event_id scope) a"
    using parse_feed_page_contiguous [OF assms(1)] assms(2) by (auto simp: list_all_iff)
  then have "change_of (feed_event_id scope) ch" using assms(3) by (simp add: action_sound_def list_all_iff)
  then show ?thesis by (auto simp: change_of_def wf_change_def side_of_def)
qed

lemma count_applications_received: "ft_received (count_applications as t) = ft_received t + length as"
  by (simp add: count_applications_def)

lemma apply_actions_length: "apply_actions sha age_on event as d = Inr (d', xs) \<Longrightarrow> length xs = length as"
proof (induction as arbitrary: d xs)
  case (Cons a as)
  from Cons.prems show ?case
    by (rule apply_actions_Cons) (use Cons.IH in auto)
qed simp

lemma apply_page_length: "apply_page sha age_on event p d = Inr (d', xs) \<Longrightarrow> length xs = length (page_actions p)"
  by (erule apply_page_Inr) (rule apply_actions_length)

lemma feed_turn_cases:
  assumes "feed_turn env rl (d, s, t) = (r, e)"
  obtains (failed) x where "e = Ended (Some x)"
  | (lost) d1 s1 t1 where "e = Ended None" "r = (d1, s1, t1)" "ft_rebased t1"
  | (page) p s1 d1 as where "pull_feed env rl (ry_scope rl) (site_cursor d (ry_event rl)) s = (Page p, s1)"
      "apply_page (st_sha env) (st_age env) (ry_event rl) p d = Inr (d1, as)"
      "r = (d1, s1, (count_applications as t)\<lparr> ft_cursor := cur_next (page_cursor p) \<rparr>)"
      "e = (if cur_more (page_cursor p) then Again else Ended None)"
proof (cases "roster_installed d rl")
  case True
  obtain a s1 where a: "pull_feed env rl (ry_scope rl) (site_cursor d (ry_event rl)) s = (a, s1)" by fastforce
  show ?thesis
  proof (cases a)
    case (Page p)
    show ?thesis using assms True a failed page
      by (auto simp: feed_turn_def Page split: sum.splits)
  next
    case Cursor_Lost
    then show ?thesis using assms True a failed lost
      by (auto simp: feed_turn_def take_snapshot_def split: sum.splits prod.splits)
  next
    case (Pull_Failed x)
    then show ?thesis using assms True a failed by (auto simp: feed_turn_def)
  qed
qed (use assms failed in \<open>auto simp: feed_turn_def\<close>)

lemma feed_turns_followed:
  assumes "feed_turns n env rl (d, s, t) = ((d', s', t'), None)" and "\<not> ft_rebased t'" and "site_rows_inv d"
    and "feed_event_id (ry_scope rl) = ry_event rl"
  shows "\<exists>ps. ps \<noteq> [] \<and> pages_of env rl (site_cursor d (ry_event rl)) s ps s' \<and> \<not> cur_more (page_cursor (last ps)) \<and>
    site_cursor d' (ry_event rl) = cur_next (page_cursor (last ps)) \<and>
    site_view d' (ry_event rl) =
      fold replay_action (new_actions (recorded_action d) (concat (map page_actions ps))) (site_view d (ry_event rl)) \<and>
    ft_received t' = ft_received t + length (concat (map page_actions ps))"
  using assms(1-3)
proof (induction n arbitrary: d s t)
  case (Suc n)
  obtain r e where turn: "feed_turn env rl (d, s, t) = (r, e)" by fastforce
  from turn show ?case
  proof (cases rule: feed_turn_cases)
    case (failed x)
    then show ?thesis using Suc.prems(1) turn by simp
  next
    case (lost d1 s1 t1)
    then show ?thesis using Suc.prems(1,2) turn by simp
  next
    case (page p s1 d1 as)
    let ?ev = "ry_event rl"
    obtain v where v: "parse_feed_page v (ry_scope rl) (site_cursor d ?ev) = Inr p" using pulled_page [OF page(1)] by blast
    have wf: "\<forall>a \<in> set (page_actions p). \<forall>ch \<in> set (act_changes a). wf_change ?ev ch"
      using page_changes_wf [OF v] assms(4) by simp
    note view = apply_page_view [OF page(2) Suc.prems(3) wf]
    have cursor: "site_cursor d1 ?ev = cur_next (page_cursor p)" by (rule apply_page_scopes(2) [OF page(2)])
    have len: "length as = length (page_actions p)" by (rule apply_page_length [OF page(2)])
    show ?thesis
    proof (cases "cur_more (page_cursor p)")
      case False
      then have "d' = d1" "s' = s1" "ft_received t' = ft_received t + length as"
        using Suc.prems(1) turn page(3,4) by (auto simp: count_applications_received)
      then show ?thesis using page(1) cursor view False len by (intro exI [of _ "[p]"]) simp
    next
      case True
      then have rest: "feed_turns n env rl (d1, s1, (count_applications as t)\<lparr> ft_cursor := cur_next (page_cursor p) \<rparr>) = ((d', s', t'), None)"
        using Suc.prems(1) turn page(3,4) by simp
      obtain ps where ps: "ps \<noteq> []" "pages_of env rl (site_cursor d1 ?ev) s1 ps s'" "\<not> cur_more (page_cursor (last ps))"
        "site_cursor d' ?ev = cur_next (page_cursor (last ps))"
        "site_view d' ?ev = fold replay_action (new_actions (recorded_action d1) (concat (map page_actions ps))) (site_view d1 ?ev)"
        "ft_received t' = ft_received (count_applications as t) + length (concat (map page_actions ps))"
        using Suc.IH [OF rest Suc.prems(2)] view by auto
      have "new_actions (recorded_action d) (concat (map page_actions (p # ps))) =
          new_actions (recorded_action d) (page_actions p) @ new_actions (recorded_action d1) (concat (map page_actions ps))"
        using view by (simp add: new_actions_append)
      then show ?thesis using page(1) cursor view ps len
        by (intro exI [of _ "p # ps"]) (simp add: count_applications_received)
    qed
  qed
qed simp

text \<open>
  C16.  Following the site to its head.  When a synchronisation of the feed ends without an error and without a new
  snapshot, the pages it took are the site's answers to one request after the other, starting at the cursor the desk
  had and ending with a page that says there is no more; the desk's cursor is where that page ends, and what the desk
  knows of the site is what it knew with every action of these pages that it had not recorded yet replayed once, in order.
\<close>

theorem feed_catches_up:
  assumes "sync_feed env rs event d s = ((d', s', t), None)" and "relay_of rs event = Some rl" and "configured rl"
    and "\<not> ft_rebased t" and "site_rows_inv d" and "feed_event_id (ry_scope rl) = event"
  shows "\<exists>ps. ps \<noteq> [] \<and> pages_of env rl (site_cursor d event) s ps s' \<and> \<not> cur_more (page_cursor (last ps)) \<and>
    site_cursor d' event = cur_next (page_cursor (last ps)) \<and>
    site_view d' event = fold replay_action (new_actions (recorded_action d) (concat (map page_actions ps))) (site_view d event) \<and>
    ft_received t = length (concat (map page_actions ps))"
proof -
  have ev: "ry_event rl = event" using assms(2) find_Some_iff' by (fastforce simp: relay_of_def)
  have "feed_turns 100 env rl (d, s, no_feed) = ((d', s', t), None)" using assms(1-3) by (simp add: sync_feed_def)
  from feed_turns_followed [OF this assms(4,5)] show ?thesis using assms(6) by (simp add: ev no_feed_def)
qed

subsection \<open>The desk keeps its promises\<close>

lemma feed_turn_steps:
  assumes "feed_turn env rl (d, s, t) = ((d', s', t'), e)"
  shows "desk_step\<^sup>*\<^sup>* d d'"
proof (cases "roster_installed d rl")
  case True
  obtain a s1 where a: "pull_feed env rl (ry_scope rl) (site_cursor d (ry_event rl)) s = (a, s1)" by fastforce
  show ?thesis
  proof (cases a)
    case (Page p)
    then show ?thesis using assms True a
      by (auto simp: feed_turn_def split: sum.splits intro: r_into_rtranclp desk_step.page)
  next
    case Cursor_Lost
    then show ?thesis using assms True a
      by (auto simp: feed_turn_def take_snapshot_def split: sum.splits prod.splits intro: r_into_rtranclp desk_step.snapshot)
  qed (use assms True a in \<open>auto simp: feed_turn_def\<close>)
qed (use assms in \<open>auto simp: feed_turn_def\<close>)

lemma feed_turns_steps: "feed_turns n env rl (d, s, t) = ((d', s', t'), e) \<Longrightarrow> desk_step\<^sup>*\<^sup>* d d'"
proof (induction n arbitrary: d s t)
  case (Suc n)
  obtain r1 x where "feed_turn env rl (d, s, t) = (r1, x)" by fastforce
  moreover obtain d1 s1 t1 where "r1 = (d1, s1, t1)" by (cases r1)
  ultimately have turn: "feed_turn env rl (d, s, t) = ((d1, s1, t1), x)" by simp
  show ?case using Suc turn feed_turn_steps [OF turn] by (cases x) (auto intro: rtranclp_trans)
qed simp

text \<open>Whatever the site answers, errors and snapshots included.\<close>

theorem sync_feed_keeps_promises:
  assumes "sync_feed env rs event d s = ((d', s', t), e)" and "roster_inv d" and "feed_inv d"
  shows "keeps d d'"
proof -
  have "desk_step\<^sup>*\<^sup>* d d'" using assms(1) feed_turns_steps by (auto simp: sync_feed_def split: option.splits if_splits)
  then show ?thesis using assms(2,3) desk.inv_steps desk.le_steps by (simp add: keeps_def desk_inv_def)
qed

end
