(* ===== verification/LinkRuns.thy ===== *)
theory LinkRuns
  imports LinkLaws
begin

section \<open>The queue to the site\<close>

text \<open>
  What an exchange does to the queue of club edits and to the journal, as steps: the first waiting edit of the event is
  settled or put off once its operations are acknowledged, a receipt is stored for an operation that has none, and
  clubs of the site are written.
\<close>

definition waits :: "string \<Rightarrow> club_edit \<Rightarrow> bool" where
  "waits event e \<longleftrightarrow> ce_event e = event \<and> \<not> ce_acked e"

definition same_edit :: "club_edit \<Rightarrow> club_edit \<Rightarrow> bool" where
  "same_edit e e' \<longleftrightarrow> ce_sequence e' = ce_sequence e \<and> ce_operation e' = ce_operation e \<and> ce_event e' = ce_event e \<and>
     ce_scope e' = ce_scope e \<and> ce_body e' = ce_body e \<and> ce_heads e' = ce_heads e \<and> ce_change e' = ce_change e"

inductive exchange_step :: "string \<Rightarrow> link \<Rightarrow> link \<Rightarrow> bool" for event where
  settle: "e \<in> set (ln_outbox x) \<Longrightarrow> waits event e \<Longrightarrow>
    \<forall>f \<in> set (ln_outbox x). waits event f \<longrightarrow> ce_sequence e \<le> ce_sequence f \<Longrightarrow> \<forall>y. same_edit y (g y) \<Longrightarrow>
    club_readiness (link_db x) event (ce_heads e) = Ready \<or>
      club_readiness (link_db x) event (ce_heads e) = Conflicted \<and> (\<forall>y. ce_outcome (g y) = Some ''review'') \<Longrightarrow>
    exchange_step event x (change_edit (ce_operation e) g x)"
| receipt: "mark_receipt rc (link_db x) = Inr d \<Longrightarrow>
    \<forall>o' \<in> set (db_ops (link_db x)). or_id o' = rcp_operation rc \<longrightarrow> \<not> or_acked o' \<Longrightarrow>
    exchange_step event x (with_link_db d x)"
| clubs: "row_step\<^sup>*\<^sup>* (link_db x) d \<Longrightarrow> exchange_step event x (with_link_db d x)"

subsection \<open>What only grows\<close>

definition op_le :: "op_row \<Rightarrow> op_row \<Rightarrow> bool" where
  "op_le o1 o2 \<longleftrightarrow> or_id o2 = or_id o1 \<and> or_event o2 = or_event o1 \<and> or_op o2 = or_op o1 \<and> (or_acked o1 \<longrightarrow> o2 = o1)"

definition in_line :: "string \<Rightarrow> link \<Rightarrow> club_edit \<Rightarrow> bool" where
  "in_line event x e \<longleftrightarrow> (\<forall>f \<in> set (ln_outbox x). ce_event f = event \<and> ce_sequence f < ce_sequence e \<longrightarrow> ce_acked f)"

definition released :: "string \<Rightarrow> link \<Rightarrow> club_edit \<Rightarrow> bool" where
  "released event x e \<longleftrightarrow> ce_event e = event \<and> club_readiness (link_db x) event (ce_heads e) \<noteq> Not_Ready \<and>
     (ce_outcome e \<noteq> Some ''review'' \<longrightarrow> club_readiness (link_db x) event (ce_heads e) = Ready) \<and> in_line event x e"

definition edit_le :: "string \<Rightarrow> link \<Rightarrow> club_edit \<Rightarrow> club_edit \<Rightarrow> bool" where
  "edit_le event x e e' \<longleftrightarrow> same_edit e e' \<and> (ce_acked e \<longrightarrow> e' = e) \<and> (e' \<noteq> e \<longrightarrow> released event x e')"

definition exchange_le :: "string \<Rightarrow> link \<Rightarrow> link \<Rightarrow> bool" where
  "exchange_le event x y \<longleftrightarrow> list_all2 op_le (db_ops (link_db x)) (db_ops (link_db y)) \<and>
     list_all2 (edit_le event y) (ln_outbox x) (ln_outbox y)"

lemma op_le_refl [simp]: "op_le o1 o1"
  by (simp add: op_le_def)

lemma same_edit_refl [simp]: "same_edit e e"
  by (simp add: same_edit_def)

lemma edit_le_refl [simp]: "edit_le event x e e"
  by (simp add: edit_le_def)

lemma op_le_find:
  assumes "list_all2 op_le os os'" and "\<And>o1 o2. op_le o1 o2 \<Longrightarrow> p o2 = p o1"
  shows "rel_option op_le (List.find p os) (List.find p os')"
  using assms(1) by (induction rule: list_all2_induct) (auto simp: assms(2))

lemma readiness_stable:
  assumes "list_all2 op_le (db_ops d) (db_ops d')" and "club_readiness d event hs \<noteq> Not_Ready"
  shows "club_readiness d' event hs = club_readiness d event hs"
  using assms(2)
proof (induction hs)
  case (Cons h hs)
  have find: "rel_option op_le (List.find (\<lambda>o'. or_event o' = event \<and> or_id o' = h) (db_ops d))
      (List.find (\<lambda>o'. or_event o' = event \<and> or_id o' = h) (db_ops d'))"
    by (rule op_le_find [OF assms(1)]) (simp add: op_le_def)
  then show ?case using Cons
    by (cases "List.find (\<lambda>o'. or_event o' = event \<and> or_id o' = h) (db_ops d)")
      (auto simp: option_rel_Some1 op_le_def split: if_splits option.splits)
qed simp

lemma list_all2_partner: "list_all2 P xs ys \<Longrightarrow> y \<in> set ys \<Longrightarrow> \<exists>x \<in> set xs. P x y"
  by (induction rule: list_all2_induct) auto

lemma edit_le_trans:
  assumes "list_all2 op_le (db_ops (link_db y)) (db_ops (link_db z))" and "list_all2 (edit_le event z) (ln_outbox y) (ln_outbox z)"
    and "edit_le event y e1 e2" and "edit_le event z e2 e3"
  shows "edit_le event z e1 e3"
proof (cases "e3 = e2")
  case True
  have "released event z e2" if "released event y e2"
  proof -
    have "ce_acked f" if f: "f \<in> set (ln_outbox z)" "ce_event f = event" "ce_sequence f < ce_sequence e2" for f
    proof -
      obtain g where g: "g \<in> set (ln_outbox y)" "edit_le event z g f" using list_all2_partner [OF assms(2) f(1)] by blast
      have "in_line event y e2" using \<open>released event y e2\<close> by (simp add: released_def)
      moreover have "ce_event g = event" "ce_sequence g < ce_sequence e2" using g(2) f(2,3) by (simp_all add: edit_le_def same_edit_def)
      ultimately have "ce_acked g" using g(1) by (simp add: in_line_def)
      then show ?thesis using g(2) by (simp add: edit_le_def)
    qed
    then have "in_line event z e2" by (auto simp: in_line_def)
    then show ?thesis using \<open>released event y e2\<close> readiness_stable [OF assms(1)] by (auto simp: released_def)
  qed
  then show ?thesis using assms(3) True by (auto simp: edit_le_def)
next
  case False
  then show ?thesis using assms(3,4) by (auto simp: edit_le_def same_edit_def)
qed

lemma exchange_le_refl: "exchange_le event x x"
  by (simp add: exchange_le_def list.rel_refl)

lemma exchange_le_trans:
  assumes "exchange_le event x y" and "exchange_le event y z"
  shows "exchange_le event x z"
proof -
  have ops: "list_all2 op_le (db_ops (link_db y)) (db_ops (link_db z))"
    and edits: "list_all2 (edit_le event z) (ln_outbox y) (ln_outbox z)"
    using assms(2) by (simp_all add: exchange_le_def)
  have "list_all2 op_le (db_ops (link_db x)) (db_ops (link_db z))"
    by (rule list_all2_trans [OF _ _ ops, where ?P1.0 = op_le]) (use assms(1) in \<open>auto simp: op_le_def exchange_le_def\<close>)
  moreover have "list_all2 (edit_le event z) (ln_outbox x) (ln_outbox z)"
    by (rule list_all2_trans [OF _ _ edits, where ?P1.0 = "edit_le event y"])
      (use assms(1) edit_le_trans [OF ops edits] in \<open>auto simp: exchange_le_def\<close>)
  ultimately show ?thesis by (simp add: exchange_le_def)
qed

subsection \<open>Steps\<close>

definition journal_ok :: "db \<Rightarrow> bool" where
  "journal_ok d \<longleftrightarrow> distinct (map or_id (db_ops d)) \<and> (\<forall>o' \<in> set (db_ops d). op_id (or_op o') = or_id o')"

definition link_ok :: "link \<Rightarrow> bool" where
  "link_ok x \<longleftrightarrow> distinct (map ce_operation (ln_outbox x)) \<and> journal_ok (link_db x)"

lemma link_db_with [simp]: "link_db (with_link_db d x) = d" "ln_outbox (with_link_db d x) = ln_outbox x"
  "with_link_db d' (with_link_db d x) = with_link_db d' x" "ln_counter (with_link_db d x) = ln_counter x"
  by (simp_all add: with_link_db_def)

lemma change_edit_fields [simp]: "ln_desk (change_edit k g x) = ln_desk x"
  "ln_outbox (change_edit k g x) = update_where (\<lambda>e. ce_operation e = k) g (ln_outbox x)"
  by (simp_all add: change_edit_def)

lemma mark_receipt_ops:
  assumes "mark_receipt rc d = Inr d'"
  shows "db_ops d' = update_where (\<lambda>o'. or_id o' = rcp_operation rc \<and> or_hash o' = rcp_hash rc)
      (\<lambda>o'. o'\<lparr> or_acked := (rcp_outcome rc \<noteq> ''waiting_dependency''), or_site_outcome := Some (rcp_outcome rc),
         or_site_code := rcp_code rc, or_attempts := Suc (or_attempts o') \<rparr>) (db_ops d)"
  using assms by (auto simp: mark_receipt_def Let_def split: if_splits)

lemma list_all2_update: "(\<And>x. x \<in> set xs \<Longrightarrow> p x \<Longrightarrow> R x (f x)) \<Longrightarrow> (\<And>x. R x x) \<Longrightarrow> list_all2 R xs (update_where p f xs)"
  by (auto simp: update_where_def list_all2_conv_all_nth)

lemma list_all2_op_same: "list_all2 op_le os os"
  by (simp add: list.rel_refl)

lemma exchange_step_ok:
  assumes "exchange_step event x y" and "link_ok x"
  shows "link_ok y"
  using assms
proof (induction rule: exchange_step.induct)
  case (settle e x g)
  then show ?case by (simp add: link_ok_def map_update_where same_edit_def)
next
  case (receipt rc x d)
  have "map or_id (db_ops d) = map or_id (db_ops (link_db x))"
    unfolding mark_receipt_ops [OF receipt(1)] by (rule map_update_where) simp
  moreover have "\<forall>o' \<in> set (db_ops d). op_id (or_op o') = or_id o'"
    using receipt(3) unfolding mark_receipt_ops [OF receipt(1)] by (auto simp: in_set_update_where link_ok_def journal_ok_def)
  ultimately show ?case using receipt(3) by (simp add: link_ok_def journal_ok_def)
next
  case (clubs x d)
  then show ?case using row_steps_books [OF clubs(1)] by (simp add: link_ok_def journal_ok_def same_books_def)
qed

lemma exchange_step_le:
  assumes "exchange_step event x y" and "link_ok x"
  shows "exchange_le event x y"
  using assms
proof (induction rule: exchange_step.induct)
  case (settle e x g)
  let ?y = "change_edit (ce_operation e) g x"
  have "edit_le event ?y f (g f)" if f: "f \<in> set (ln_outbox x)" "ce_operation f = ce_operation e" for f
  proof -
    have "f = e" using f settle(1,6) by (auto simp: link_ok_def distinct_map inj_on_def)
    have same: "same_edit e (g e)" using settle(4) by blast
    have "in_line event ?y (g e)"
      unfolding in_line_def
    proof (intro ballI impI, elim conjE)
      fix h assume h: "h \<in> set (ln_outbox ?y)" "ce_event h = event" "ce_sequence h < ce_sequence (g e)"
      then obtain h0 where h0: "h0 \<in> set (ln_outbox x)" "h = (if ce_operation h0 = ce_operation e then g h0 else h0)"
        by (auto simp: in_set_update_where)
      have "ce_sequence h0 < ce_sequence e" "ce_event h0 = event"
        using h h0(2) same settle(4) by (auto simp: same_edit_def split: if_splits)
      then have "ce_acked h0" using settle(3) h0(1) by (fastforce simp: waits_def)
      moreover have "ce_operation h0 \<noteq> ce_operation e"
        using \<open>ce_sequence h0 < ce_sequence e\<close> h0(1) settle(1,6) by (auto simp: link_ok_def distinct_map inj_on_def)
      ultimately show "ce_acked h" using h0(2) by simp
    qed
    then have "released event ?y (g e)" using settle(2,5) same by (auto simp: released_def waits_def same_edit_def)
    then show ?thesis using same settle(2) by (simp add: \<open>f = e\<close> edit_le_def waits_def)
  qed
  then show ?case by (simp add: exchange_le_def list_all2_op_same list_all2_update)
next
  case (receipt rc x d)
  have "list_all2 op_le (db_ops (link_db x)) (db_ops d)"
    unfolding mark_receipt_ops [OF receipt(1)] by (rule list_all2_update) (use receipt(2) in \<open>auto simp: op_le_def\<close>)
  then show ?case by (simp add: exchange_le_def list.rel_refl)
next
  case (clubs x d)
  then show ?case using row_steps_books [OF clubs(1)] by (simp add: exchange_le_def list.rel_refl same_books_def)
qed

interpretation exchange: monotone_machine "exchange_step event" link_ok "exchange_le event"
  by unfold_locales (use exchange_step_ok exchange_step_le exchange_le_refl exchange_le_trans in \<open>blast+\<close>)

section \<open>An exchange is a run of these steps\<close>

subsection \<open>Club edits\<close>

definition all_waiting :: "string \<Rightarrow> link \<Rightarrow> club_edit list" where
  "all_waiting event x = sort_key ce_sequence (filter (waits event) (ln_outbox x))"

lemma pending_clubs_waiting: "pending_clubs event x = take 64 (all_waiting event x)"
proof -
  have "waits event = (\<lambda>e. ce_event e = event \<and> \<not> ce_acked e)" by (rule ext) (simp add: waits_def)
  then show ?thesis by (simp add: pending_clubs_def all_waiting_def)
qed

lemma first_waiting:
  assumes "all_waiting event x = e # es"
  shows "e \<in> set (ln_outbox x)" and "waits event e"
    and "\<forall>f \<in> set (ln_outbox x). waits event f \<longrightarrow> ce_sequence e \<le> ce_sequence f"
proof -
  have "set (all_waiting event x) = {f \<in> set (ln_outbox x). waits event f}" by (auto simp: all_waiting_def)
  then have set: "set (e # es) = {f \<in> set (ln_outbox x). waits event f}" using assms by simp
  then show "e \<in> set (ln_outbox x)" and "waits event e" by auto
  have "sorted (map ce_sequence (e # es))" using assms sorted_sort_key unfolding all_waiting_def by metis
  then show "\<forall>f \<in> set (ln_outbox x). waits event f \<longrightarrow> ce_sequence e \<le> ce_sequence f" using set by auto
qed

lemma settled_waiting:
  assumes "all_waiting event x = e # es" and "link_ok x" and "\<And>y. same_edit y (g y)" and "\<And>y. ce_acked (g y)"
  shows "all_waiting event (change_edit (ce_operation e) g x) = es"
proof -
  have "filter (waits event) (update_where (\<lambda>f. ce_operation f = ce_operation e) g fs) =
      filter (\<lambda>f. ce_operation f \<noteq> ce_operation e) (filter (waits event) fs)" for fs
    by (induction fs) (auto simp: update_where_def waits_def assms(4))
  then have "all_waiting event (change_edit (ce_operation e) g x) = filter (\<lambda>f. ce_operation f \<noteq> ce_operation e) (all_waiting event x)"
    by (simp add: all_waiting_def filter_sort)
  moreover have "ce_operation f \<noteq> ce_operation e" if "f \<in> set es" for f
  proof -
    have inj: "inj_on ce_operation (set (ln_outbox x))" and dist: "distinct (ln_outbox x)"
      using assms(2) by (simp_all add: link_ok_def distinct_map)
    have "distinct (e # es)" using dist assms(1) by (metis all_waiting_def distinct_filter distinct_sort)
    moreover have "set (e # es) \<subseteq> set (ln_outbox x)" using assms(1) by (metis all_waiting_def filter_is_subset set_sort)
    ultimately show ?thesis using that inj by (auto dest: inj_onD)
  qed
  ultimately show ?thesis using assms(1) by simp
qed

lemma same_edit_settle [simp]: "same_edit e (settle_edit outcome code e)"
  by (simp add: same_edit_def settle_edit_def)

lemma same_edit_defer [simp]: "same_edit e (defer_edit n code review now e)"
  by (simp add: same_edit_def defer_edit_def)

lemma update_edit_Inr: "update_edit k g err x = Inr y \<Longrightarrow> y = change_edit k g x"
  by (simp add: update_edit_def split: if_splits)

lemma settle_first:
  assumes "all_waiting event x = e # es" and "\<And>y. same_edit y (g y)"
    and "club_readiness (link_db x) event (ce_heads e) = Ready \<or>
      club_readiness (link_db x) event (ce_heads e) = Conflicted \<and> (\<forall>y. ce_outcome (g y) = Some ''review'')"
  shows "(exchange_step event)\<^sup>*\<^sup>* x (change_edit (ce_operation e) g x)"
  by (rule r_into_rtranclp) (use first_waiting [OF assms(1)] assms(2,3) in \<open>blast intro: exchange_step.settle\<close>)

lemma set_aside_steps:
  assumes "set_aside e code now r = (r', fin)" and "all_waiting event (rn_link r) = e # es" and "link_ok (rn_link r)"
    and "club_readiness (link_db (rn_link r)) event (ce_heads e) \<noteq> Not_Ready"
  shows "(exchange_step event)\<^sup>*\<^sup>* (rn_link r) (rn_link r') \<and> (fin = Go_On \<longrightarrow> all_waiting event (rn_link r') = es)"
proof (cases "defer_club e code True now (rn_link r)")
  case (Inr x)
  let ?g = "defer_edit (ce_attempts e) code True now"
  have x: "x = change_edit (ce_operation e) ?g (rn_link r)" using Inr update_edit_Inr by (simp add: defer_club_def)
  have "club_readiness (link_db (rn_link r)) event (ce_heads e) = Ready \<or>
      club_readiness (link_db (rn_link r)) event (ce_heads e) = Conflicted \<and> (\<forall>y. ce_outcome (?g y) = Some ''review'')"
    using assms(4) by (cases "club_readiness (link_db (rn_link r)) event (ce_heads e)") (simp_all add: defer_edit_def)
  then have "(exchange_step event)\<^sup>*\<^sup>* (rn_link r) x" unfolding x by (intro settle_first [OF assms(2)]) simp_all
  moreover have "all_waiting event x = es"
    unfolding x by (rule settled_waiting [OF assms(2,3)]) (simp_all add: defer_edit_def [abs_def] same_edit_def)
  ultimately show ?thesis using assms(1) Inr by (auto simp: set_aside_def)
qed (use assms(1) in \<open>auto simp: set_aside_def\<close>)

lemma put_off_steps:
  assumes "put_off e code now r = (r', fin)" and "all_waiting event (rn_link r) = e # es"
    and "club_readiness (link_db (rn_link r)) event (ce_heads e) = Ready"
  shows "(exchange_step event)\<^sup>*\<^sup>* (rn_link r) (rn_link r') \<and> fin \<noteq> Go_On"
proof (cases "defer_club e code False now (rn_link r)")
  case (Inr x)
  have x: "x = change_edit (ce_operation e) (defer_edit (ce_attempts e) code False now) (rn_link r)"
    using Inr update_edit_Inr by (simp add: defer_club_def)
  have "(exchange_step event)\<^sup>*\<^sup>* (rn_link r) x" unfolding x using assms(3) by (intro settle_first [OF assms(2)]) simp_all
  then show ?thesis using assms(1) Inr by (auto simp: put_off_def)
qed (use assms(1) in \<open>auto simp: put_off_def\<close>)

lemma deliver_club_steps:
  assumes "deliver_club env rl e r = (r', fin)" and "all_waiting event (rn_link r) = e # es" and "link_ok (rn_link r)"
    and "club_readiness (link_db (rn_link r)) event (ce_heads e) = Ready"
  shows "(exchange_step event)\<^sup>*\<^sup>* (rn_link r) (rn_link r') \<and> (fin = Go_On \<longrightarrow> all_waiting event (rn_link r') = es)"
proof -
  obtain a s where a: "push_club env rl (ce_body e) (rn_site r) = (a, s)" by fastforce
  define r1 where "r1 = r\<lparr> rn_site := s, rn_totals := (rn_totals r)\<lparr> tt_club_attempted := tt_club_attempted (rn_totals r) + 1 \<rparr> \<rparr>"
  have r1: "rn_link r1 = rn_link r" by (simp add: r1_def)
  have d: "deliver_club env rl e r = (case a of
       Inl err \<Rightarrow> if needs_review err then set_aside e (club_error_code err) (st_clock env s) r1
                 else put_off e (club_error_code err) (st_clock env s) r1
     | Inr k \<Rightarrow> (case acknowledge_club (ce_operation e) (kr_outcome k) (kr_code k) (rn_link r1) of
         Inl err \<Rightarrow> (r1, Stop False (Some err))
       | Inr x \<Rightarrow> (r1\<lparr> rn_link := x, rn_totals := after_club (kr_outcome k) (rn_totals r1) \<rparr>, Go_On)))"
    by (simp only: deliver_club_def a r1_def Let_def prod.case)
  note at1 = assms(2-4) [folded r1]
  show ?thesis
  proof (cases a)
    case (Inl err)
    then show ?thesis
      using assms(1) d set_aside_steps [OF _ at1(1,2)] put_off_steps [OF _ at1(1,3)] at1(3) by (auto simp: r1 split: if_splits)
  next
    case (Inr k)
    show ?thesis
    proof (cases "acknowledge_club (ce_operation e) (kr_outcome k) (kr_code k) (rn_link r1)")
      case (Inr x)
      then have x: "x = change_edit (ce_operation e) (settle_edit (kr_outcome k) (kr_code k)) (rn_link r)"
        using update_edit_Inr by (simp add: acknowledge_club_def r1 split: if_splits)
      have "(exchange_step event)\<^sup>*\<^sup>* (rn_link r) x" unfolding x using assms(4) by (intro settle_first [OF assms(2)]) simp_all
      moreover have "all_waiting event x = es"
        unfolding x by (rule settled_waiting [OF assms(2,3)]) (simp_all add: settle_edit_def [abs_def] same_edit_def)
      ultimately show ?thesis using assms(1) d Inr \<open>a = Inr k\<close> by auto
    qed (use assms(1) d Inr r1 in auto)
  qed
qed

lemma flush_one_steps:
  assumes "flush_one env rl e r = (r', fin)" and "all_waiting (ry_event rl) (rn_link r) = e # es" and "link_ok (rn_link r)"
  shows "(exchange_step (ry_event rl))\<^sup>*\<^sup>* (rn_link r) (rn_link r') \<and> (fin = Go_On \<longrightarrow> all_waiting (ry_event rl) (rn_link r') = es)"
proof -
  have event: "ce_event e = ry_event rl" using first_waiting(2) [OF assms(2)] by (simp add: waits_def)
  show ?thesis
    using assms(1) set_aside_steps [OF _ assms(2,3)] deliver_club_steps [OF _ assms(2,3)]
    by (auto simp: flush_one_def event split: if_splits readiness.splits)
qed

lemma flush_rows_steps:
  assumes "flush_rows env rl es r = (r', fin)" and "all_waiting (ry_event rl) (rn_link r) = es @ rest" and "link_ok (rn_link r)"
  shows "(exchange_step (ry_event rl))\<^sup>*\<^sup>* (rn_link r) (rn_link r')"
  using assms
proof (induction es arbitrary: r)
  case (Cons e es)
  obtain r1 f1 where one: "flush_one env rl e r = (r1, f1)" by fastforce
  have step: "(exchange_step (ry_event rl))\<^sup>*\<^sup>* (rn_link r) (rn_link r1)"
    and wait: "f1 = Go_On \<longrightarrow> all_waiting (ry_event rl) (rn_link r1) = es @ rest"
    using flush_one_steps [OF one, of "es @ rest"] Cons.prems(2,3) by simp_all
  show ?case
  proof (cases f1)
    case Go_On
    then have "(exchange_step (ry_event rl))\<^sup>*\<^sup>* (rn_link r1) (rn_link r')"
      using Cons.IH [of r1] Cons.prems(1) one wait exchange.inv_steps [OF step Cons.prems(3)] by simp
    then show ?thesis using step by simp
  qed (use Cons.prems(1) one step in auto)
qed simp

lemma flush_clubs_steps:
  assumes "flush_clubs env rl n r = (r', left, err)" and "link_ok (rn_link r)"
  shows "(exchange_step (ry_event rl))\<^sup>*\<^sup>* (rn_link r) (rn_link r')"
  using assms
proof (induction env rl n r rule: flush_clubs.induct)
  case (1 env rl n r)
  show ?case
  proof (cases "1024 \<le> n \<or> pending_clubs (ry_event rl) (rn_link r) = []")
    case True
    then have "r' = r" using 1(2) by (subst (asm) flush_clubs.simps) (auto split: list.splits if_splits)
    then show ?thesis by simp
  next
    case False
    then obtain e es where es: "pending_clubs (ry_event rl) (rn_link r) = e # es" by (cases "pending_clubs (ry_event rl) (rn_link r)") auto
    obtain r1 fin where rows: "flush_rows env rl (e # es) r = (r1, fin)" by fastforce
    have "all_waiting (ry_event rl) (rn_link r) = (e # es) @ drop 64 (all_waiting (ry_event rl) (rn_link r))"
      using es by (metis append_take_drop_id pending_clubs_waiting)
    then have step: "(exchange_step (ry_event rl))\<^sup>*\<^sup>* (rn_link r) (rn_link r1)" by (rule flush_rows_steps [OF rows _ 1(3)])
    show ?thesis
    proof (cases fin)
      case Go_On
      then have "flush_clubs env rl (n + length (e # es)) r1 = (r', left, err)"
        using 1(2) False es rows by (subst (asm) flush_clubs.simps) simp
      then have "(exchange_step (ry_event rl))\<^sup>*\<^sup>* (rn_link r1) (rn_link r')"
        using 1(1) [OF _ es rows [symmetric] Go_On] False exchange.inv_steps [OF step 1(3)] by simp
      then show ?thesis using step by simp
    next
      case (Stop p x)
      then have "r' = r1" using 1(2) False es rows by (subst (asm) flush_clubs.simps) simp
      then show ?thesis using step by simp
    qed
  qed
qed

end
