(* ===== verification/LinkProps.thy ===== *)
theory LinkProps
  imports LinkRuns
begin

section \<open>Properties of the exchange with the site\<close>

subsection \<open>Receipts\<close>

lemma with_link_db_id [simp]: "with_link_db (link_db x) x = x"
  by (simp add: with_link_db_def)

lemma mark_receipts_steps:
  assumes "mark_receipts rs (link_db x) t = (Inr d, t')" and "distinct (map rcp_operation rs)"
    and "\<forall>k \<in> set (map rcp_operation rs). \<forall>o' \<in> set (db_ops (link_db x)). or_id o' = k \<longrightarrow> \<not> or_acked o'"
  shows "(exchange_step event)\<^sup>*\<^sup>* x (with_link_db d x)"
  using assms
proof (induction rs arbitrary: x t)
  case (Cons rc rs)
  then obtain d1 where one: "mark_receipt rc (link_db x) = Inr d1" and rest: "mark_receipts rs d1 (count_receipt rc t) = (Inr d, t')"
    by (auto split: sum.splits)
  have step: "exchange_step event x (with_link_db d1 x)" by (rule exchange_step.receipt [OF one]) (use Cons.prems(3) in simp)
  have "\<forall>k \<in> set (map rcp_operation rs). \<forall>o' \<in> set (db_ops d1). or_id o' = k \<longrightarrow> \<not> or_acked o'"
  proof (intro ballI impI)
    fix k o' assume k: "k \<in> set (map rcp_operation rs)" and o': "o' \<in> set (db_ops d1)" "or_id o' = k"
    have "k \<noteq> rcp_operation rc" using k Cons.prems(2) by (metis distinct.simps(2) list.simps(9))
    then have "o' \<in> set (db_ops (link_db x))" using o' unfolding mark_receipt_ops [OF one] by (auto simp: in_set_update_where split: if_splits)
    then show "\<not> or_acked o'" using k o'(2) Cons.prems(3) by auto
  qed
  then have "(exchange_step event)\<^sup>*\<^sup>* (with_link_db d1 x) (with_link_db d x)"
    using Cons.IH [of "with_link_db d1 x" "count_receipt rc t"] rest Cons.prems(2) by simp
  then show ?case using step by (rule converse_rtranclp_into_rtranclp [rotated])
next
  case Nil
  then have "d = link_db x" by simp
  then show ?case by simp
qed

lemma read_receipts_ids:
  assumes "read_receipts env ops b = Inr rs"
  shows "map rcp_operation rs = map op_id ops"
proof -
  have all: "map rcp_operation rs = map op_id ops" if "length ops = length ws" "map_res (read_receipt env) (zip ops ws) = Inr rs" for ws
    using that
  proof (induction ops ws arbitrary: rs rule: list_induct2)
    case (Cons op ops w ws)
    then obtain r rs' where r: "read_receipt env (op, w) = Inr r" "map_res (read_receipt env) (zip ops ws) = Inr rs'" "rs = r # rs'"
      by (auto simp: bind_res_Inr)
    have "rcp_operation r = op_id op" using r(1) by (auto simp: read_receipt_def Let_def split: option.splits sum.splits if_splits)
    then show ?case using Cons.IH r by simp
  qed simp
  show ?thesis using assms all [of "wb_receipts b"] by (auto simp: read_receipts_def split: if_splits)
qed

lemma push_operations_ids:
  assumes "push_operations env api credential ops s = (Inr rs, s')"
  shows "map rcp_operation rs = map op_id ops"
proof -
  obtain url where url: "relay_url env api ''/operations'' = Inr url"
    using assms by (auto simp: push_operations_def split: if_splits sum.splits)
  obtain a s1 where a: "st_operations env url credential ops s = (a, s1)" by fastforce
  show ?thesis using assms read_receipts_ids
    by (cases a) (auto simp: push_operations_def url a split: if_splits)
qed

text \<open>The operations of an event that wait for the site, in the order they are sent.\<close>

definition unsent :: "string \<Rightarrow> op_row \<Rightarrow> bool" where
  "unsent event o' \<longleftrightarrow> or_event o' = event \<and> \<not> or_acked o' \<and> or_outcome o' \<noteq> ''waiting_dependency''"

definition unsent_ops :: "db \<Rightarrow> string \<Rightarrow> op_row list" where
  "unsent_ops d event = sort_key or_recorded (sort_key or_id (filter (unsent event) (db_ops d)))"

lemma pending_unsent: "pending_ops d event n = (if n < 1 \<or> 64 < n then Inl ''invalid packet operation delivery limit''
    else Inr (map or_op (take n (unsent_ops d event))))"
proof -
  have "unsent event = (\<lambda>o'. or_event o' = event \<and> \<not> or_acked o' \<and> or_outcome o' \<noteq> ''waiting_dependency'')"
    by (rule ext) (simp add: unsent_def)
  then show ?thesis by (simp add: pending_ops_def unsent_ops_def)
qed

lemma unsent_set: "set (unsent_ops d event) = {o' \<in> set (db_ops d). unsent event o'}"
  by (auto simp: unsent_ops_def)

lemma unsent_distinct: "journal_ok d \<Longrightarrow> distinct (map or_id (unsent_ops d event))"
  unfolding unsent_ops_def journal_ok_def distinct_map by (auto simp: inj_on_def)

lemma unsent_ids:
  assumes "journal_ok d" and "o1 \<in> set (unsent_ops d event)" and "o2 \<in> set (db_ops d)" and "or_id o2 = or_id o1"
  shows "o2 = o1"
  using assms unsent_set [of d event] by (auto simp: journal_ok_def distinct_map inj_on_def)

lemma sent_ids:
  assumes "journal_ok d" and "os = take n (unsent_ops d event)"
  shows "map op_id (map or_op os) = map or_id os" and "distinct (map or_id os)"
    and "\<forall>k \<in> set (map or_id os). \<forall>o' \<in> set (db_ops d). or_id o' = k \<longrightarrow> \<not> or_acked o'"
proof -
  have sub: "set os \<subseteq> set (unsent_ops d event)" using assms(2) by (simp add: set_take_subset)
  then show "map op_id (map or_op os) = map or_id os"
    using assms(1) unsent_set [of d event] by (auto simp: journal_ok_def)
  show "distinct (map or_id os)" using unsent_distinct [OF assms(1), of event] assms(2) by (simp add: take_map [symmetric] distinct_take)
  show "\<forall>k \<in> set (map or_id os). \<forall>o' \<in> set (db_ops d). or_id o' = k \<longrightarrow> \<not> or_acked o'"
  proof (intro ballI impI)
    fix k o' assume "k \<in> set (map or_id os)" "o' \<in> set (db_ops d)" "or_id o' = k"
    then obtain o1 where "o1 \<in> set os" "or_id o' = or_id o1" by auto
    then have "o' = o1" "unsent event o1" using unsent_ids [OF assms(1)] sub \<open>o' \<in> set (db_ops d)\<close> unsent_set [of d event] by blast+
    then show "\<not> or_acked o'" by (simp add: unsent_def)
  qed
qed

subsection \<open>The run of an exchange\<close>

lemma refresh_clubs_rows:
  assumes "refresh_clubs env rl x s = (Inr y, s')"
  shows "\<exists>d. y = with_link_db d x \<and> row_step\<^sup>*\<^sup>* (link_db x) d"
proof -
  have snap: "\<exists>d. y = with_link_db d x \<and> row_step\<^sup>*\<^sup>* (link_db x) d" if "apply_snapshot env rl b x = Inr y" for b
    using that by (auto simp: apply_snapshot_def apply_bound_clubs_def bind_res_Inr dest: apply_clubs_steps split: prod.splits if_splits)
  have same: "\<exists>d. x = with_link_db d x \<and> row_step\<^sup>*\<^sup>* (link_db x) d" by (rule exI [of _ "link_db x"]) simp
  obtain url where url: "relay_url env (ry_api rl) ''/club-affiliations'' = Inr url"
    using assms by (auto simp: refresh_clubs_def split: sum.splits)
  obtain a s1 where a: "st_affiliations env url (ry_credential rl) s = (a, s1)" by fastforce
  show ?thesis using assms snap same by (cases a) (auto simp: refresh_clubs_def url a split: if_splits)
qed

lemma with_refresh_steps: "(exchange_step event)\<^sup>*\<^sup>* (rn_link r) (rn_link (with_refresh env rl r))"
proof -
  obtain a s where a: "refresh_clubs env rl (rn_link r) (rn_site r) = (a, s)" by fastforce
  show ?thesis
  proof (cases a)
    case (Inr y)
    then obtain d where "y = with_link_db d (rn_link r)" "row_step\<^sup>*\<^sup>* (link_db (rn_link r)) d" 
      using refresh_clubs_rows [OF a [unfolded Inr]] by blast
    then show ?thesis using Inr a by (simp add: with_refresh_def r_into_rtranclp exchange_step.clubs)
  qed (simp add: with_refresh_def a)
qed

lemma settle_receipts_link:
  assumes "settle_receipts rs r = (r', fin)"
  shows "rn_link r' = rn_link r \<or> (\<exists>d t t'. mark_receipts rs (link_db (rn_link r)) t = (Inr d, t') \<and> rn_link r' = with_link_db d (rn_link r))"
proof -
  obtain a t' where m: "mark_receipts rs (link_db (rn_link r)) ((rn_totals r)\<lparr> tt_attempted := tt_attempted (rn_totals r) + length rs \<rparr>) = (a, t')"
    by fastforce
  show ?thesis
  proof (cases a)
    case (Inr d)
    then have "rn_link r' = with_link_db d (rn_link r)" using assms by (auto simp: settle_receipts_def m Let_def)
    then show ?thesis using m Inr by blast
  qed (use assms m in \<open>simp add: settle_receipts_def\<close>, auto)
qed

lemma send_operations_steps:
  assumes "send_operations env rl (map or_op os) r = (r', fin)" and "os = take n (unsent_ops (link_db (rn_link r)) event)"
    and "link_ok (rn_link r)"
  shows "(exchange_step event)\<^sup>*\<^sup>* (rn_link r) (rn_link r')"
proof -
  obtain a s where a: "push_operations env (ry_api rl) (ry_credential rl) (map or_op os) (rn_site r) = (a, s)" by fastforce
  show ?thesis
  proof (cases a)
    case (Inr rs)
    have j: "journal_ok (link_db (rn_link r))" using assms(3) by (simp add: link_ok_def)
    have ids: "map rcp_operation rs = map or_id os" using push_operations_ids [OF a [unfolded Inr]] sent_ids(1) [OF j assms(2)] by simp
    have "settle_receipts rs (r\<lparr> rn_site := s \<rparr>) = (r', fin)" using assms(1) a Inr by (simp add: send_operations_def)
    then have "rn_link r' = rn_link r \<or> (\<exists>d t t'. mark_receipts rs (link_db (rn_link r)) t = (Inr d, t') \<and> rn_link r' = with_link_db d (rn_link r))"
      using settle_receipts_link by fastforce
    then show ?thesis
      using mark_receipts_steps [where rs = rs and x = "rn_link r" and event = event] sent_ids(2,3) [OF j assms(2), folded ids] by auto
  qed (use assms(1) a in \<open>auto simp: send_operations_def\<close>)
qed

lemma sync_batch_steps:
  assumes "sync_batch env rl r = (r', fin)" and "link_ok (rn_link r)"
  shows "(exchange_step (ry_event rl))\<^sup>*\<^sup>* (rn_link r) (rn_link r')"
proof -
  obtain r1 left err where f: "flush_clubs env rl 0 r = (r1, left, err)" using prod_cases3 by blast
  have first: "(exchange_step (ry_event rl))\<^sup>*\<^sup>* (rn_link r) (rn_link r1)" by (rule flush_clubs_steps [OF f assms(2)])
  have ok: "link_ok (rn_link r1)" by (rule exchange.inv_steps [OF first assms(2)])
  have "(exchange_step (ry_event rl))\<^sup>*\<^sup>* (rn_link r1) (rn_link r')"
    using assms(1) with_refresh_steps [of "ry_event rl" r1 env rl] send_operations_steps [OF _ refl ok]
    by (auto simp: sync_batch_def f pending_unsent split: option.splits if_splits)
  then show ?thesis using first by simp
qed

lemma sync_batches_steps:
  assumes "sync_batches n env rl r = (r', err)" and "link_ok (rn_link r)"
  shows "(exchange_step (ry_event rl))\<^sup>*\<^sup>* (rn_link r) (rn_link r')"
  using assms
proof (induction n arbitrary: r)
  case (Suc n)
  obtain r1 fin where b: "sync_batch env rl r = (r1, fin)" by fastforce
  have step: "(exchange_step (ry_event rl))\<^sup>*\<^sup>* (rn_link r) (rn_link r1)" by (rule sync_batch_steps [OF b Suc.prems(2)])
  show ?case using Suc.IH [of r1] Suc.prems(1) b step exchange.inv_steps [OF step Suc.prems(2)]
    by (cases fin) (auto intro: rtranclp_trans)
qed simp

lemma sync_operations_steps:
  assumes "sync_operations env rs event x s = (r, err)" and "link_ok x"
  shows "(exchange_step event)\<^sup>*\<^sup>* x (rn_link r)"
proof (cases "relay_of rs event")
  case (Some rl)
  then have "ry_event rl = event" using find_Some_iff' by (fastforce simp: relay_of_def)
  then show ?thesis using assms sync_batches_steps [of 1024 env rl "start_run x s" r err]
    by (auto simp: sync_operations_def Some start_run_def split: if_splits)
qed (use assms in \<open>auto simp: sync_operations_def start_run_def\<close>)

text \<open>
  C17.  Club edits keep their place.  However the site answers while the operations and club edits of an event are sent,
  an edit that is settled stays as it is, no edit is touched before the site has acknowledged every operation of
  this desk it depends on, none but an edit set aside for review goes out when one of these was not accepted, and none
  overtakes an earlier edit of the event that still waits.
\<close>

theorem club_edits_in_order:
  assumes "sync_operations env rs event x s = (r, err)" and "link_ok x" and "(e, e') \<in> set (zip (ln_outbox x) (ln_outbox (rn_link r)))"
  shows "length (ln_outbox (rn_link r)) = length (ln_outbox x) \<and> same_edit e e' \<and> (ce_acked e \<longrightarrow> e' = e) \<and>
    (e' \<noteq> e \<longrightarrow> released event (rn_link r) e')"
proof -
  have "exchange_le event x (rn_link r)" by (rule exchange.le_steps [OF sync_operations_steps [OF assms(1,2)] assms(2)])
  then have "list_all2 (edit_le event (rn_link r)) (ln_outbox x) (ln_outbox (rn_link r))" by (simp add: exchange_le_def)
  then show ?thesis using assms(3) by (auto simp: list_all2_iff edit_le_def)
qed

subsection \<open>Everything is delivered\<close>

definition hashes_ok :: "(string \<Rightarrow> string) \<Rightarrow> db \<Rightarrow> bool" where
  "hashes_ok sha d \<longleftrightarrow> (\<forall>o' \<in> set (db_ops d). or_hash o' = content_hash sha (or_op o'))"

definition final_outcome :: "string \<Rightarrow> json \<Rightarrow> bool" where
  "final_outcome outcome code \<longleftrightarrow> (outcome = ''applied'' \<or> outcome = ''equivalent'') \<and> code = JNull \<or>
     (outcome = ''conflict'' \<or> outcome = ''rejected'') \<and> (\<exists>c. c \<noteq> [] \<and> code = JText c)"

definition settling_receipt :: "(string \<Rightarrow> string) \<Rightarrow> operation \<Rightarrow> receipt_wire \<Rightarrow> bool" where
  "settling_receipt sha op w \<longleftrightarrow> wr_operation w = op_id op \<and> wr_hash w = content_hash sha op \<and> wr_known w \<noteq> None \<and>
     (\<exists>v. wr_code w = Some v \<and> final_outcome (wr_outcome w) v)"

text \<open>A site that can be reached and answers every batch with a final receipt of each operation.\<close>

definition settles_all :: "'s site_env \<Rightarrow> relay_row \<Rightarrow> bool" where
  "settles_all env rl \<longleftrightarrow> (\<exists>url. relay_url env (ry_api rl) ''/operations'' = Inr url \<and>
     (\<forall>ops s. ops \<noteq> [] \<and> length ops \<le> 64 \<longrightarrow> st_payload env ops \<le> 1048576 \<and>
        (\<exists>ws s'. st_operations env url (ry_credential rl) ops s = (Reply \<lparr> wb_schema = Some 1, wb_receipts = ws \<rparr>, s') \<and>
           list_all2 (settling_receipt (st_sha env)) ops ws)))"

definition settled_by :: "(string \<Rightarrow> string) \<Rightarrow> operation \<Rightarrow> receipt \<Rightarrow> bool" where
  "settled_by sha op r \<longleftrightarrow> rcp_operation r = op_id op \<and> rcp_hash r = content_hash sha op \<and> rcp_outcome r \<noteq> ''waiting_dependency''"

lemma settling_read:
  assumes "settling_receipt (st_sha env) op w"
  shows "\<exists>r. read_receipt env (op, w) = Inr r \<and> settled_by (st_sha env) op r"
proof -
  obtain known where "wr_known w = Some known" using assms by (auto simp: settling_receipt_def)
  then show ?thesis using assms
    by (auto simp: settling_receipt_def final_outcome_def read_receipt_def optional_text_def valid_receipt_def settled_by_def)
qed

lemma settling_reads:
  assumes "list_all2 (settling_receipt (st_sha env)) ops ws"
  shows "\<exists>rs. map_res (read_receipt env) (zip ops ws) = Inr rs \<and> list_all2 (settled_by (st_sha env)) ops rs"
  using assms
proof (induction rule: list_all2_induct)
  case (Cons op ops w ws)
  obtain r rs where "read_receipt env (op, w) = Inr r" "settled_by (st_sha env) op r"
    "map_res (read_receipt env) (zip ops ws) = Inr rs" "list_all2 (settled_by (st_sha env)) ops rs"
    using settling_read [OF Cons(1)] Cons(3) by blast
  then show ?case by (intro exI [of _ "r # rs"]) simp
qed simp

lemma settles_push:
  assumes "settles_all env rl" and "ops \<noteq> []" and "length ops \<le> 64"
  shows "\<exists>rs s'. push_operations env (ry_api rl) (ry_credential rl) ops s = (Inr rs, s') \<and> list_all2 (settled_by (st_sha env)) ops rs"
proof -
  obtain url ws s' where url: "relay_url env (ry_api rl) ''/operations'' = Inr url" and size: "st_payload env ops \<le> 1048576"
    and a: "st_operations env url (ry_credential rl) ops s = (Reply \<lparr> wb_schema = Some 1, wb_receipts = ws \<rparr>, s')"
    and ws: "list_all2 (settling_receipt (st_sha env)) ops ws"
    using assms unfolding settles_all_def by blast
  obtain rs where "map_res (read_receipt env) (zip ops ws) = Inr rs" "list_all2 (settled_by (st_sha env)) ops rs"
    using settling_reads [OF ws] by blast
  moreover have "length ws = length ops" using ws by (simp add: list_all2_lengthD)
  ultimately show ?thesis using assms(2,3) size url a by (simp add: push_operations_def read_receipts_def)
qed

text \<open>One receipt: the operation leaves the list of those that wait, the others stay.\<close>

lemma mark_settled:
  assumes "journal_ok d" and "hashes_ok sha d" and "settled_by sha (or_op o1) rc" and "o1 \<in> set (db_ops d)"
  shows "\<exists>d1. mark_receipt rc d = Inr d1 \<and> journal_ok d1 \<and> hashes_ok sha d1 \<and>
    unsent_ops d1 event = filter (\<lambda>o'. or_id o' \<noteq> or_id o1) (unsent_ops d event)"
proof -
  have rc: "rcp_operation rc = or_id o1" "rcp_hash rc = or_hash o1" "rcp_outcome rc \<noteq> ''waiting_dependency''"
    using assms by (auto simp: settled_by_def journal_ok_def hashes_ok_def)
  let ?p = "\<lambda>o'. or_id o' = rcp_operation rc \<and> or_hash o' = rcp_hash rc"
  have p: "?p o' \<longleftrightarrow> or_id o' = or_id o1" if "o' \<in> set (db_ops d)" for o'
    using that assms(1,4) rc by (auto simp: journal_ok_def distinct_map inj_on_def)
  have "count_where ?p (db_ops d) \<le> 1" using assms(1) by (intro count_where_key) (simp add: journal_ok_def)
  moreover have "count_where ?p (db_ops d) \<noteq> 0" using p assms(4) by auto
  ultimately obtain d1 where d1: "mark_receipt rc d = Inr d1" by (auto simp: mark_receipt_def Let_def)
  note ops = mark_receipt_ops [OF d1]
  have "map or_id (db_ops d1) = map or_id (db_ops d)" unfolding ops by (rule map_update_where) simp
  then have "journal_ok d1" using assms(1) unfolding journal_ok_def ops by (auto simp: in_set_update_where)
  moreover have "hashes_ok sha d1" using assms(2) unfolding hashes_ok_def ops by (auto simp: in_set_update_where)
  moreover have "filter (unsent event) (db_ops d1) = filter (\<lambda>o'. or_id o' \<noteq> or_id o1) (filter (unsent event) (db_ops d))"
  proof -
    have "filter (unsent event) (update_where ?p (\<lambda>o'. o'\<lparr> or_acked := (rcp_outcome rc \<noteq> ''waiting_dependency''),
        or_site_outcome := Some (rcp_outcome rc), or_site_code := rcp_code rc, or_attempts := Suc (or_attempts o') \<rparr>) os) =
      filter (\<lambda>o'. or_id o' \<noteq> or_id o1) (filter (unsent event) os)" if "set os \<subseteq> set (db_ops d)" for os
      using that by (induction os) (use p rc(3) in \<open>auto simp: update_where_def unsent_def\<close>)
    then show ?thesis unfolding ops by blast
  qed
  ultimately show ?thesis using d1 by (simp add: unsent_ops_def filter_sort)
qed

lemma mark_all_settled:
  assumes "list_all2 (settled_by sha) (map or_op os) rs" and "journal_ok d" and "hashes_ok sha d" and "unsent_ops d event = os @ rest"
  shows "\<exists>d' t'. mark_receipts rs d t = (Inr d', t') \<and> journal_ok d' \<and> hashes_ok sha d' \<and> unsent_ops d' event = rest \<and>
    tt_accepted t' = tt_accepted t + length os \<and> tt_waiting t' = tt_waiting t \<and> tt_attempted t' = tt_attempted t"
  using assms
proof (induction os arbitrary: rs d t)
  case (Cons o1 os)
  obtain rc rs' where rs: "rs = rc # rs'" "settled_by sha (or_op o1) rc" "list_all2 (settled_by sha) (map or_op os) rs'"
    using Cons.prems(1) by (auto simp: list_all2_Cons1)
  have o1: "o1 \<in> set (db_ops d)" using unsent_set [of d event] Cons.prems(4) by auto
  obtain d1 where d1: "mark_receipt rc d = Inr d1" "journal_ok d1" "hashes_ok sha d1"
    "unsent_ops d1 event = filter (\<lambda>o'. or_id o' \<noteq> or_id o1) (unsent_ops d event)"
    using mark_settled [OF Cons.prems(2,3) rs(2) o1] by blast
  have "or_id o' \<noteq> or_id o1" if "o' \<in> set (os @ rest)" for o'
    using that unsent_distinct [OF Cons.prems(2), of event] Cons.prems(4) by (auto simp: image_iff)
  then have "unsent_ops d1 event = os @ rest"
    unfolding d1(4) Cons.prems(4) by (simp add: filter_id_conv flip: filter_append)
  then obtain d' t' where "mark_receipts rs' d1 (count_receipt rc t) = (Inr d', t')" "journal_ok d'" "hashes_ok sha d'"
    "unsent_ops d' event = rest" "tt_accepted t' = tt_accepted (count_receipt rc t) + length os"
    "tt_waiting t' = tt_waiting (count_receipt rc t)" "tt_attempted t' = tt_attempted (count_receipt rc t)"
    using Cons.IH [OF rs(3) d1(2,3)] by blast
  then show ?case using rs d1(1) by (simp add: count_receipt_def settled_by_def)
qed simp

lemma quiet_flush: "pending_clubs (ry_event rl) (rn_link r) = [] \<Longrightarrow> flush_clubs env rl 0 r = (r, False, None)"
  by (subst flush_clubs.simps) simp

lemma pending_clubs_db [simp]: "pending_clubs event (with_link_db d x) = pending_clubs event x"
  by (simp add: pending_clubs_def)

definition quiet :: "'s site_env \<Rightarrow> relay_row \<Rightarrow> 's sync_run \<Rightarrow> bool" where
  "quiet env rl r \<longleftrightarrow> pending_clubs (ry_event rl) (rn_link r) = [] \<and> journal_ok (link_db (rn_link r)) \<and>
     hashes_ok (st_sha env) (link_db (rn_link r))"

lemma quiet_batch:
  assumes "settles_all env rl" and "quiet env rl r" and "unsent_ops (link_db (rn_link r)) (ry_event rl) = os" and "os \<noteq> []"
  shows "\<exists>r'. sync_batch env rl r = (r', if 1024 \<le> tt_attempted (rn_totals r) + length (take 64 os) then Ended (Some delivery_limit) else Again) \<and>
    quiet env rl r' \<and> unsent_ops (link_db (rn_link r')) (ry_event rl) = drop 64 os \<and>
    tt_accepted (rn_totals r') = tt_accepted (rn_totals r) + length (take 64 os) \<and>
    tt_attempted (rn_totals r') = tt_attempted (rn_totals r) + length (take 64 os)"
proof -
  let ?d = "link_db (rn_link r)" and ?ops = "map or_op (take 64 os)"
  obtain rs s' where push: "push_operations env (ry_api rl) (ry_credential rl) ?ops (rn_site r) = (Inr rs, s')"
    and settled: "list_all2 (settled_by (st_sha env)) ?ops rs"
    using settles_push [OF assms(1), of ?ops "rn_site r"] assms(4) by auto
  have len: "length rs = length (take 64 os)" using settled by (auto dest: list_all2_lengthD)
  have q: "journal_ok ?d" "hashes_ok (st_sha env) ?d" using assms(2) by (simp_all add: quiet_def)
  let ?t = "(rn_totals r)\<lparr> tt_attempted := tt_attempted (rn_totals r) + length rs \<rparr>"
  have rows: "unsent_ops ?d (ry_event rl) = take 64 os @ drop 64 os" using assms(3) by simp
  obtain d' t' where m: "mark_receipts rs ?d ?t = (Inr d', t')" "journal_ok d'" "hashes_ok (st_sha env) d'"
    "unsent_ops d' (ry_event rl) = drop 64 os" "tt_accepted t' = tt_accepted (rn_totals r) + length (take 64 os)"
    "tt_waiting t' = tt_waiting (rn_totals r)" "tt_attempted t' = tt_attempted (rn_totals r) + length (take 64 os)"
    using mark_all_settled [OF settled q rows, of ?t] len by auto
  have "sync_batch env rl r = settle_receipts rs (r\<lparr> rn_site := s' \<rparr>)"
    using assms(2-4) push by (simp add: sync_batch_def quiet_def quiet_flush pending_unsent send_operations_def)
  then show ?thesis
    using m assms(2) by (simp add: settle_receipts_def quiet_def)
qed

lemma quiet_end:
  assumes "quiet env rl r" and "unsent_ops (link_db (rn_link r)) (ry_event rl) = []"
  shows "\<exists>r'. sync_batch env rl r = (r', Ended None) \<and> unsent_ops (link_db (rn_link r')) (ry_event rl) = [] \<and>
    tt_accepted (rn_totals r') = tt_accepted (rn_totals r)"
proof -
  have b: "sync_batch env rl r = (with_refresh env rl r, Ended None)"
    using assms by (simp add: sync_batch_def quiet_def quiet_flush pending_unsent)
  obtain a s where a: "refresh_clubs env rl (rn_link r) (rn_site r) = (a, s)" by fastforce
  show ?thesis
  proof (cases a)
    case (Inr y)
    then obtain d where y: "y = with_link_db d (rn_link r)" "row_step\<^sup>*\<^sup>* (link_db (rn_link r)) d"
      using refresh_clubs_rows [OF a [unfolded Inr]] by blast
    have "db_ops d = db_ops (link_db (rn_link r))" using row_steps_books [OF y(2)] by (simp add: same_books_def)
    then have "unsent_ops d (ry_event rl) = []" using assms(2) by (simp add: unsent_ops_def)
    then show ?thesis using b Inr a y(1) by (simp add: with_refresh_def)
  qed (use b a assms(2) in \<open>simp add: with_refresh_def\<close>)
qed

lemma quiet_batches:
  assumes "settles_all env rl" and "quiet env rl r" and "length (unsent_ops (link_db (rn_link r)) (ry_event rl)) \<le> 64 * n"
    and "tt_attempted (rn_totals r) + length (unsent_ops (link_db (rn_link r)) (ry_event rl)) < 1024"
  shows "\<exists>r'. sync_batches (Suc n) env rl r = (r', None) \<and> unsent_ops (link_db (rn_link r')) (ry_event rl) = [] \<and>
    tt_accepted (rn_totals r') = tt_accepted (rn_totals r) + length (unsent_ops (link_db (rn_link r)) (ry_event rl))"
  using assms(2-4)
proof (induction n arbitrary: r)
  case 0
  then show ?case using quiet_end [of env rl r] by auto
next
  case (Suc n)
  let ?os = "unsent_ops (link_db (rn_link r)) (ry_event rl)"
  show ?case
  proof (cases "?os = []")
    case True
    then show ?thesis using quiet_end [OF Suc.prems(1) True] by auto
  next
    case False
    obtain r1 where r1: "sync_batch env rl r = (r1, Again)" "quiet env rl r1"
      "unsent_ops (link_db (rn_link r1)) (ry_event rl) = drop 64 ?os"
      "tt_accepted (rn_totals r1) = tt_accepted (rn_totals r) + length (take 64 ?os)"
      "tt_attempted (rn_totals r1) = tt_attempted (rn_totals r) + length (take 64 ?os)"
      using quiet_batch [OF assms(1) Suc.prems(1) refl False] Suc.prems(3) by (auto split: if_splits)
    have fit: "length (unsent_ops (link_db (rn_link r1)) (ry_event rl)) \<le> 64 * n" using Suc.prems(2) r1(3) by simp
    have "length (take 64 ?os) + length (drop 64 ?os) = length ?os" by (metis append_take_drop_id length_append)
    then have below: "tt_attempted (rn_totals r1) + length (unsent_ops (link_db (rn_link r1)) (ry_event rl)) < 1024"
      using Suc.prems(3) unfolding r1(3,5) by linarith
    obtain r' where r': "sync_batches (Suc n) env rl r1 = (r', None)" "unsent_ops (link_db (rn_link r')) (ry_event rl) = []"
      "tt_accepted (rn_totals r') = tt_accepted (rn_totals r1) + length (drop 64 ?os)"
      using Suc.IH [OF r1(2) fit below] unfolding r1(3) by blast
    moreover have "sync_batches (Suc (Suc n)) env rl r = sync_batches (Suc n) env rl r1"
      by (subst sync_batches.simps(2)) (simp only: r1(1) prod.case sync_end.case)
    ultimately show ?thesis using r1(4) by auto
  qed
qed

text \<open>
  C18.  The tablets' work reaches the site.  With a site that can be reached and gives a final receipt for every
  operation it is sent, and no club edits waiting, one synchronisation delivers every operation of the event, ends
  without an error, and leaves nothing unsent, as long as fewer than 1024 operations wait, the limit of one run.
\<close>

theorem operations_reach_site:
  assumes "settles_all env rl" and "relay_of rs event = Some rl" and "configured rl" and "pending_clubs event x = []"
    and "journal_ok (link_db x)" and "hashes_ok (st_sha env) (link_db x)" and "length (unsent_ops (link_db x) event) < 1024"
  shows "\<exists>r. sync_operations env rs event x s = (r, None) \<and> unsent_ops (link_db (rn_link r)) event = [] \<and>
    tt_accepted (rn_totals r) = length (unsent_ops (link_db x) event)"
proof -
  have ev: "ry_event rl = event" using assms(2) find_Some_iff' by (fastforce simp: relay_of_def)
  have q: "quiet env rl (start_run x s)" using assms(4-6) by (simp add: quiet_def start_run_def ev)
  obtain r where "sync_batches (Suc 1023) env rl (start_run x s) = (r, None)" "unsent_ops (link_db (rn_link r)) event = []"
    "tt_accepted (rn_totals r) = length (unsent_ops (link_db x) event)"
    using quiet_batches [OF assms(1) q, of 1023] assms(7) by (auto simp: start_run_def no_totals_def ev)
  moreover have "Suc 1023 = 1024" by simp
  ultimately show ?thesis using assms(2,3) by (auto simp: sync_operations_def)
qed

end
