(* ===== verification/ClubProps.thy ===== *)
theory ClubProps
  imports LinkProps
begin

section \<open>Properties of club edits\<close>

subsection \<open>A change is applied once\<close>

lemma repeated_receipt:
  assumes "parse_club_operation codec raw = Inr op" and "cm_scope op = con_scope con" and "cm_origin op = con_origin con"
    and "scope_of (link_db y) (con_event con) = con_scope con" and "distinct (map kt_operation (ln_receipts y))"
    and "t \<in> set (ln_receipts y)" and "kt_operation t = cm_id op" and "same_club_operation con (sha (cd_write codec op)) t"
  shows "apply_affiliation core codec sha con action now raw y = Inr (y, (kt_receipt t)\<lparr> kr_known := True \<rparr>)"
proof -
  have "List.find (\<lambda>t. kt_operation t = cm_id op) (ln_receipts y) = Some t"
    by (rule find_key_unique [OF assms(5)]) (use assms(6,7) in auto)
  then show ?thesis using assms(1-4,8) by (simp add: apply_affiliation_def Let_def)
qed

lemma club_edit_effect:
  assumes "edit_club core codec action now k raw x = Inr (z, b)"
    and "enqueue_club event scope k operation body heads z = Inr w"
  shows "ln_desk w = ln_desk z \<and> (\<exists>n. ln_outbox w = ln_outbox x @ [club_edit_of z event scope operation body heads n])"
proof -
  have "ln_outbox z = ln_outbox x" using assms(1) by (auto simp: edit_club_def bind_res_Inr split: if_splits)
  moreover obtain n where "ln_desk w = ln_desk z" "ln_outbox w = ln_outbox z @ [club_edit_of z event scope operation body heads n]"
    using assms(2) by (auto simp: enqueue_club_def split: option.splits if_splits)
  ultimately show ?thesis by auto
qed

text \<open>
  What an answered edit did: an applied one is the judge's edit of the club of the registration it names, which is live,
  and one new entry of the queue with the bytes of the edit and the heads of that registration; any other did nothing.
\<close>

definition club_edit_done ::
  "edit_core \<Rightarrow> club_codec \<Rightarrow> connection \<Rightarrow> string \<Rightarrow> int \<Rightarrow> club_operation \<Rightarrow> link \<Rightarrow> link \<Rightarrow> bool" where
  "club_edit_done core codec con action now op x x1 \<longleftrightarrow>
    (\<exists>e row z b. live_registration (link_db x) (con_event con) (cm_registration op) = Inr (Some row) \<and>
       edit_club core codec action now (cm_registration op) (cm_club op) x = Inr (z, b) \<and> ln_desk x1 = ln_desk z \<and>
       ln_outbox x1 = ln_outbox x @ [e] \<and> ce_operation e = cm_id op \<and> ce_event e = con_event con \<and>
       ce_body e = cd_write codec op \<and> ce_heads e = rr_heads row \<and> \<not> ce_acked e)"

definition decided_effect ::
  "edit_core \<Rightarrow> club_codec \<Rightarrow> connection \<Rightarrow> string \<Rightarrow> int \<Rightarrow> club_operation \<Rightarrow> link \<Rightarrow> link \<Rightarrow> club_receipt \<Rightarrow> bool" where
  "decided_effect core codec con action now op x x1 r \<longleftrightarrow>
    (if kr_outcome r = ''applied'' then club_edit_done core codec con action now op x x1
     else ln_desk x1 = ln_desk x \<and> ln_outbox x1 = ln_outbox x)"

lemma decide_affiliation_effect:
  assumes "decide_affiliation core codec con action now op x = Inr (x0, r)"
  shows "\<not> kr_known r \<and> kr_operation r = cm_id op \<and> decided_effect core codec con action now op x x0 r"
proof -
  obtain reg club owner where reg: "live_registration (link_db x) (con_event con) (cm_registration op) = Inr reg"
      "read_club codec (cm_club op) = Inr club" "read_owner codec (cm_person op) = Inr owner"
    using assms by (auto simp: decide_affiliation_def bind_res_Inr)
  show ?thesis
  proof (cases reg)
    case None
    then show ?thesis using assms reg by (auto simp: decide_affiliation_def receipt_for_def decided_effect_def)
  next
    case (Some row)
    show ?thesis
    proof (cases "owner_changed (rr_value row) owner club")
      case True
      then show ?thesis using assms reg Some by (auto simp: decide_affiliation_def receipt_for_def decided_effect_def)
    next
      case False
      then obtain z b where z: "edit_club core codec action now (cm_registration op) (cm_club op) x = Inr (z, b)"
        and w: "enqueue_club (con_event con) (con_scope con) (cm_registration op) (cm_id op) (cd_write codec op) (rr_heads row) z = Inr x0"
        and r: "r = receipt_for op ''applied'' None"
        using assms reg Some by (auto simp: decide_affiliation_def bind_res_Inr)
      obtain n where "ln_desk x0 = ln_desk z"
        "ln_outbox x0 = ln_outbox x @ [club_edit_of z (con_event con) (con_scope con) (cm_id op) (cd_write codec op) (rr_heads row) n]"
        using club_edit_effect [OF z w] by blast
      then have "club_edit_done core codec con action now op x x0"
        unfolding club_edit_done_def using reg(1) [unfolded Some] z by (simp add: club_edit_of_def)
      then show ?thesis unfolding r by (simp add: decided_effect_def receipt_for_def)
    qed
  qed
qed

text \<open>
  C19.  A tablet that repeats a club edit, because the answer was lost, gets the receipt it would have got, marked as
  known, and changes nothing, whatever happened in between; and only an applied edit changes the desk at all: it is the
  edit of the club of the live registration the operation names, and it adds one entry to the queue of the site, with the
  bytes of the edit and the heads of that registration.
\<close>

theorem club_edit_applies_once:
  assumes "apply_affiliation core codec sha con action now raw x = Inr (x1, r)"
    and "set (ln_receipts x1) \<subseteq> set (ln_receipts y)" and "distinct (map kt_operation (ln_receipts y))"
    and "scope_of (link_db y) (con_event con) = con_scope con"
  shows "apply_affiliation core' codec sha con action' now' raw y = Inr (y, r\<lparr> kr_known := True \<rparr>) \<and>
    (kr_known r \<longrightarrow> x1 = x) \<and>
    (\<not> kr_known r \<longrightarrow> (\<exists>op. parse_club_operation codec raw = Inr op \<and> kr_operation r = cm_id op \<and>
       (if kr_outcome r = ''applied''
        then \<exists>e row z b. live_registration (link_db x) (con_event con) (cm_registration op) = Inr (Some row) \<and>
          edit_club core codec action now (cm_registration op) (cm_club op) x = Inr (z, b) \<and> ln_desk x1 = ln_desk z \<and>
          ln_outbox x1 = ln_outbox x @ [e] \<and> ce_operation e = cm_id op \<and> ce_event e = con_event con \<and>
          ce_body e = cd_write codec op \<and> ce_heads e = rr_heads row \<and> \<not> ce_acked e
        else ln_desk x1 = ln_desk x \<and> ln_outbox x1 = ln_outbox x)))"
proof -
  obtain op where op: "parse_club_operation codec raw = Inr op"
    using assms(1) by (auto simp: apply_affiliation_def bind_res_Inr)
  have ids: "cm_scope op = con_scope con" "cm_origin op = con_origin con"
    using assms(1) by (auto simp: apply_affiliation_def op split: if_splits)
  note again = repeated_receipt [OF op ids assms(4,3), of _ sha core' action' now']
  show ?thesis
  proof (cases "List.find (\<lambda>t. kt_operation t = cm_id op) (ln_receipts x)")
    case (Some t)
    then have t: "same_club_operation con (sha (cd_write codec op)) t" "x1 = x" "r = (kt_receipt t)\<lparr> kr_known := True \<rparr>"
      using assms(1) ids by (auto simp: apply_affiliation_def op Let_def split: if_splits)
    then show ?thesis using again [of t] assms(2) find_Some_iff' [OF Some] by auto
  next
    case None
    let ?t = "club_receipt_row_of con (sha (cd_write codec op)) (cd_write codec op) op r"
    from None obtain x0 where dec: "decide_affiliation core codec con action now op x = Inr (x0, r)"
      and save: "save_club_receipt ?t x0 = Inr x1"
      using assms(1) ids by (auto simp: apply_affiliation_def op Let_def bind_res_Inr split: if_splits)
    have saved: "ln_desk x1 = ln_desk x0" "ln_outbox x1 = ln_outbox x0" "?t \<in> set (ln_receipts x1)"
      using save by (auto simp: save_club_receipt_def split: if_splits)
    have "apply_affiliation core' codec sha con action' now' raw y = Inr (y, r\<lparr> kr_known := True \<rparr>)"
      using again [of ?t] saved(3) assms(2) by (auto simp: club_receipt_row_of_def same_club_operation_def)
    moreover have "decided_effect core codec con action now op x x1 r" "\<not> kr_known r" "kr_operation r = cm_id op"
      using decide_affiliation_effect [OF dec] saved by (auto simp: decided_effect_def club_edit_done_def)
    ultimately show ?thesis using op unfolding decided_effect_def club_edit_done_def by (intro conjI impI) simp_all
  qed
qed

subsection \<open>The site does not take an edit back\<close>

lemma find_other_club:
  assumes "m \<noteq> k"
  shows "List.find (\<lambda>c. cl_event c = event \<and> cl_member c = k)
      (update_where (\<lambda>c. cl_event c = event \<and> cl_member c = m) (\<lambda>c. c\<lparr> cl_club := v \<rparr>) cs) =
    List.find (\<lambda>c. cl_event c = event \<and> cl_member c = k) cs"
  using assms by (induction cs) (auto simp: update_where_def)

lemma put_club_other:
  assumes "put_club event mc d = Inr d'" and "fst mc \<noteq> k"
  shows "member_club d' event k = member_club d event k"
proof (cases "list_ex (\<lambda>c. cl_event c = event \<and> cl_member c = fst mc) (db_clubs d)")
  case True
  then show ?thesis using assms
    by (auto simp: put_club_def bind_res_Inr member_club_def find_other_club split: if_splits)
next
  case False
  then show ?thesis using assms
    by (auto simp: put_club_def bind_res_Inr member_club_def find_append split: if_splits option.split)
qed

lemma apply_clubs_other:
  "apply_clubs event cs d = Inr d' \<Longrightarrow> k \<notin> fst ` set cs \<Longrightarrow> member_club d' event k = member_club d event k"
  unfolding apply_clubs_def
proof (induction cs arbitrary: d)
  case (Cons c cs)
  then obtain d1 where d1: "put_club event c d = Inr d1" "fold_res (put_club event) cs d1 = Inr d'" by (auto simp: bind_res_Inr)
  have "member_club d1 event k = member_club d event k" by (rule put_club_other [OF d1(1)]) (use Cons.prems(2) in auto)
  then show ?case using Cons.IH [OF d1(2)] Cons.prems(2) by simp
qed simp

lemma protect_fold:
  assumes "fold_res (protect_one codec owners) es clubs = Inr clubs'"
  shows "fst ` set clubs' \<subseteq> fst ` set clubs \<and>
    (\<forall>e \<in> set es. \<forall>op p. cd_read codec (ce_body e) = Some op \<longrightarrow> read_owner codec (cm_person op) = Inr p \<longrightarrow>
       map_of owners (cm_registration op) = Some p \<longrightarrow> cm_registration op \<notin> fst ` set clubs')"
  using assms
proof (induction es arbitrary: clubs)
  case (Cons e es)
  then obtain c1 where one: "protect_one codec owners e clubs = Inr c1" and rest: "fold_res (protect_one codec owners) es c1 = Inr clubs'"
    by (auto simp: bind_res_Inr)
  have sub: "fst ` set c1 \<subseteq> fst ` set clubs"
    using one by (auto simp: protect_one_def bind_res_Inr split: option.splits if_splits)
  have first: "cm_registration op \<notin> fst ` set c1"
    if "cd_read codec (ce_body e) = Some op" "read_owner codec (cm_person op) = Inr p" "map_of owners (cm_registration op) = Some p" for op p
    using one that by (auto simp: protect_one_def)
  have ih: "fst ` set clubs' \<subseteq> fst ` set c1" and
    others: "\<forall>e \<in> set es. \<forall>op p. cd_read codec (ce_body e) = Some op \<longrightarrow> read_owner codec (cm_person op) = Inr p \<longrightarrow>
       map_of owners (cm_registration op) = Some p \<longrightarrow> cm_registration op \<notin> fst ` set clubs'"
    using Cons.IH [OF rest] by simp_all
  have "\<forall>op p. cd_read codec (ce_body e) = Some op \<longrightarrow> read_owner codec (cm_person op) = Inr p \<longrightarrow>
       map_of owners (cm_registration op) = Some p \<longrightarrow> cm_registration op \<notin> fst ` set clubs'"
    using first ih by blast
  then show ?case using others subset_trans [OF ih sub] by simp
qed simp

lemma owned_club_owner:
  assumes "c \<in> set (owned_club clubs owners r)"
  shows "fst c = rr_id r \<and> map_of owners (rr_id r) = Some (person_id (rr_value r))"
  using assms by (auto simp: owned_club_def split: option.splits if_splits)

text \<open>
  C20.  The site's picture does not undo what the desk has not sent yet: when the clubs of the site are taken over, the club
  of a registration stays as it is while an edit of it for the person who holds it waits in the queue.
\<close>

theorem snapshot_spares_pending:
  assumes "apply_snapshot env rl b x = Inr y" and "e \<in> set (ln_outbox x)" and "waits (ry_event rl) e"
    and "cd_read (st_codec env) (ce_body e) = Some op" and "read_owner (st_codec env) (cm_person op) = Inr p"
    and "find_scope (link_db x) (ry_event rl) \<noteq> None"
    and "\<forall>r \<in> set (db_regs (link_db x)). rr_event r = ry_event rl \<and> rr_id r = cm_registration op \<and> \<not> rr_deleted r \<longrightarrow>
      person_id (rr_value r) = p"
  shows "member_club (link_db y) (ry_event rl) (cm_registration op) = member_club (link_db x) (ry_event rl) (cm_registration op)"
proof -
  let ?ev = "ry_event rl" and ?k = "cm_registration op"
  obtain clubs owners where bound: "apply_bound_clubs (st_codec env) ?ev clubs owners x = Inr y"
    using assms(1) by (auto simp: apply_snapshot_def bind_res_Inr split: if_splits)
  obtain cs d where cs: "protect_pending (st_codec env) ?ev owners x (filter_owners (link_db x) ?ev clubs owners) = Inr cs"
    and d: "apply_clubs ?ev cs (link_db x) = Inr d" and y: "y = with_link_db d x"
    using bound by (auto simp: apply_bound_clubs_def bind_res_Inr)
  have "?k \<notin> fst ` set cs"
  proof (cases "?k \<in> fst ` set (filter_owners (link_db x) ?ev clubs owners)")
    case True
    then obtain r c where r: "r \<in> set (live_rows (link_db x) ?ev)" "c \<in> set (owned_club clubs owners r)" "fst c = ?k"
      using assms(6) by (auto simp: filter_owners_def)
    then have "map_of owners ?k = Some p"
      using owned_club_owner [OF r(2)] assms(7) by (auto simp: live_rows_def)
    moreover have "e \<in> set (filter (\<lambda>e. ce_event e = ?ev \<and> \<not> ce_acked e) (ln_outbox x))"
      using assms(2,3) by (simp add: waits_def)
    ultimately show ?thesis using protect_fold [OF cs [unfolded protect_pending_def]] assms(4,5) by blast
  next
    case False
    then show ?thesis using protect_fold [OF cs [unfolded protect_pending_def]] by blast
  qed
  then show ?thesis using apply_clubs_other [OF d] y by simp
qed

end
