(* ===== verification/EditLaws.thy ===== *)
theory EditLaws
  imports Edits Machines
begin

section \<open>Local edits win\<close>

text \<open>
  Playing the journal over the tables an import brings reaches the tables the judges had: everything an edit writes is
  journalled in the order it was written.
\<close>

subsection \<open>Point and bulk updates\<close>

lemma update_where_unique:
  assumes "distinct (map key rows)" and "List.find (\<lambda>r. key r = k) rows = Some r"
  shows "update_where (\<lambda>r. key r = k) (\<lambda>_. g r) rows = update_where (\<lambda>r. key r = k) g rows"
proof -
  have "r \<in> set rows" "key r = k" using find_Some_iff' [OF assms(2)] by simp_all
  then have "x = r" if "x \<in> set rows" "key x = k" for x using assms(1) that by (auto simp: distinct_map inj_on_def)
  then show ?thesis unfolding update_where_def by (auto intro!: map_cong)
qed

lemma find_key: "k \<in> key ` set rows \<Longrightarrow> \<exists>r. List.find (\<lambda>r. key r = k) rows = Some r"
  by (cases "List.find (\<lambda>r. key r = k) rows") (auto simp: find_None_iff)

lemma update_where_again:
  "(\<And>r. p (f r) \<longleftrightarrow> p r) \<Longrightarrow> update_where p g (update_where p f rows) = update_where p (\<lambda>r. g (f r)) rows"
  by (simp add: update_where_def)

lemma write_row_unique:
  assumes "distinct (map key rows)" and "k \<in> key ` set rows" and "\<And>r. upd r = Some (g r)"
  shows "\<exists>old. write_row (\<lambda>r. key r = k) cell upd rows = Inr (update_where (\<lambda>r. key r = k) g rows, old)"
proof -
  obtain r where "List.find (\<lambda>r. key r = k) rows = Some r" using find_key [OF assms(2)] by blast
  then show ?thesis using assms(3) update_where_unique [OF assms(1)] by (simp add: write_row_def)
qed

lemma fold_points:
  assumes "distinct (map key ms)" and "\<And>m r. key (f m r) = key r"
  shows "fold (\<lambda>m. update_where (\<lambda>r. key r = key m) (f m)) ms rows =
    map (\<lambda>r. case List.find (\<lambda>m. key m = key r) ms of None \<Rightarrow> r | Some m \<Rightarrow> f m r) rows"
  using assms(1)
proof (induction ms arbitrary: rows)
  case (Cons m ms)
  have "List.find (\<lambda>x. key x = key r) ms = None" if "key r = key m" for r
    using Cons.prems that by (auto simp: find_None_iff) (metis image_eqI)
  then show ?case using Cons by (auto simp: update_where_def assms(2))
qed (simp add: map_idI)

lemma find_selected:
  assumes "distinct (map key rows)" and "set ms = {r \<in> set rows. p r}" and "r \<in> set rows"
  shows "List.find (\<lambda>m. key m = key r) ms = (if p r then Some r else None)"
proof -
  have eq: "m = r" if "m \<in> set rows" "key m = key r" for m
    using assms(1,3) that by (auto simp: distinct_map inj_on_def)
  show ?thesis
  proof (cases "p r")
    case True
    then have "r \<in> set ms" using assms(2,3) by simp
    then have "key r \<in> key ` set ms" by (rule imageI)
    then obtain m where m: "List.find (\<lambda>m. key m = key r) ms = Some m"
      using find_key [of "key r" key ms] by blast
    then have k: "m \<in> set ms" "key m = key r" using find_Some_iff' [OF m] by simp_all
    then have "m = r" using eq [of m] assms(2) by blast
    then show ?thesis using m True by simp
  next
    case False
    then have "key m \<noteq> key r" if "m \<in> set ms" for m using eq [of m] assms(2) that by blast
    then have "List.find (\<lambda>m. key m = key r) ms = None" by (simp add: find_None_iff)
    then show ?thesis using False by simp
  qed
qed

lemma fold_points_bulk:
  assumes "distinct (map key rows)" and "distinct (map key ms)" and "set ms = {r \<in> set rows. p r}" and "\<And>m r. key (f m r) = key r"
  shows "fold (\<lambda>m. update_where (\<lambda>r. key r = key m) (f m)) ms rows = update_where p (\<lambda>r. f r r) rows"
  unfolding fold_points [OF assms(2), of f, OF assms(4)] update_where_def
  by (rule map_cong [OF refl]) (simp add: find_selected [OF assms(1,3)])

subsection \<open>The journal and the flag of the screens do not matter to the tables\<close>

definition vary :: "bool \<Rightarrow> edit_change list \<Rightarrow> edit_db \<Rightarrow> edit_db" where
  "vary b cs x = x\<lparr> xd_db := (xd_db x)\<lparr> db_dirty := b \<rparr>, xd_changes := cs \<rparr>"

lemma vary_fields [simp]:
  "xd_db (vary b cs x) = (xd_db x)\<lparr> db_dirty := b \<rparr>" "xd_setups (vary b cs x) = xd_setups x"
  "xd_checkpoints (vary b cs x) = xd_checkpoints x" "xd_results (vary b cs x) = xd_results x"
  "xd_disabled (vary b cs x) = xd_disabled x" "xd_changes (vary b cs x) = cs"
  by (simp_all add: vary_def)

lemma vary_vary [simp]: "vary b cs (vary b' cs' x) = vary b cs x"
  by (simp add: vary_def)

lemma vary_same: "\<exists>b. x = vary b (xd_changes x) x"
  by (rule exI [of _ "db_dirty (xd_db x)"]) (simp add: vary_def)

lemma vary_simps:
  "signalled (vary b cs x) = vary True cs x" "vary b cs (signalled x) = vary b cs x"
  "with_members ms (vary b cs x) = vary b cs (with_members ms x)"
  "with_pairs ps (vary b cs x) = vary b cs (with_pairs ps x)"
  "delete_cascade k (vary b cs x) = vary b cs (delete_cascade k x)"
  "vary b cs (log_start now k old new x) = vary b cs x"
  "change_members p f (vary b cs x) = vary b cs (change_members p f x)"
  "(vary b cs x)\<lparr> xd_setups := rs \<rparr> = vary b cs (x\<lparr> xd_setups := rs \<rparr>)"
  "(vary b cs x)\<lparr> xd_checkpoints := ks \<rparr> = vary b cs (x\<lparr> xd_checkpoints := ks \<rparr>)"
  "(vary b cs x)\<lparr> xd_disabled := ls \<rparr> = vary b cs (x\<lparr> xd_disabled := ls \<rparr>)"
  by (simp_all add: vary_def signalled_def with_members_def with_pairs_def delete_cascade_def log_start_def change_members_def)

lemma put_club_dirty:
  "put_club e mc (d\<lparr> db_dirty := b \<rparr>) = map_sum id (\<lambda>d. d\<lparr> db_dirty := b \<rparr>) (put_club e mc d)"
  by (cases "normalize_club (snd mc)") (simp_all add: put_club_def)

lemma with_member_cell_dirty [simp]: "with_member_cell (d\<lparr> db_dirty := b \<rparr>) f v = with_member_cell d f v"
  by (simp add: with_member_cell_def fun_eq_iff split: option.splits)

lemma get_member_dirty [simp]: "get_member (d\<lparr> db_dirty := b \<rparr>) k = get_member d k"
  by (simp add: get_member_def)

lemma update_member_vary:
  assumes "update_member_field f k v x = Inr (x', old)"
  shows "update_member_field f k v (vary b cs x) = Inr (vary True cs x', old)"
  using assms by (auto simp: update_member_field_def vary_simps bind_res_def split: sum.splits)

lemma update_field_vary:
  assumes "update_field w t f k v x = Inr (x', old)"
  shows "\<exists>b'. update_field w t f k v (vary b cs x) = Inr (vary b' cs x', old)"
proof -
  consider (club) "t = ''members''" "f = ''club''" | (member) "t = ''members''" "f \<noteq> ''club''" | (race) "t = ''races''"
    | (checkpoint) "t = ''checkpoints''" | (event) "t = ''events''"
    | (log) "t \<notin> {''members'', ''races'', ''checkpoints'', ''events''}" by blast
  then show ?thesis
  proof cases
    case club
    then have "update_club_field k v x = Inr (x', old)" using assms by (simp add: update_field_def)
    then have "update_club_field k v (vary b cs x) = Inr (vary b cs x', old)"
      by (auto simp: update_club_field_def apply_clubs_def put_club_dirty bind_res_def member_club_def vary_def
          split: sum.splits option.splits)
    then show ?thesis using club by (auto simp: update_field_def)
  next
    case member
    then show ?thesis using assms update_member_vary by (auto simp: update_field_def)
  next
    case race
    then show ?thesis using assms
      by (auto simp: update_field_def update_race_field_def bind_res_def vary_simps split: sum.splits)
  next
    case checkpoint
    then show ?thesis using assms
      by (auto simp: update_field_def update_checkpoint_field_def bind_res_def vary_simps split: sum.splits if_splits)
  next
    case event
    then have "update_field w t f k v (vary b cs x) = Inr (vary b cs x', old)"
      using assms by (auto simp: update_field_def update_event_field_def bind_res_def vary_def split: sum.splits)
    then show ?thesis by blast
  next
    case log
    then show ?thesis using assms
      by (auto simp: update_field_def update_log_field_def bind_res_def vary_simps split: sum.splits)
  qed
qed

lemma set_provenance_vary:
  assumes "set_provenance q v x = Inr x'"
  shows "\<exists>b'. set_provenance q v (vary b cs x) = Inr (vary b' cs x')"
proof (cases "rq_entity q \<noteq> ''member'' \<or> rq_field q \<noteq> ''start_time_ms''")
  case True
  then show ?thesis using assms by (auto simp: set_provenance_def)
next
  case False
  let ?v = "V_Text (if v = V_Null then ''unknown'' else ''manual'')"
  obtain x1 old1 old2 where 1: "update_member_field ''start_time_source'' (rq_id q) ?v x = Inr (x1, old1)"
    and 2: "update_member_field ''start_observation_id'' (rq_id q) V_Null x1 = Inr (x', old2)"
    using assms False by (auto simp: set_provenance_def bind_res_Inr)
  show ?thesis using False update_member_vary [OF 1] update_member_vary [OF 2]
    by (intro exI [of _ True]) (simp add: set_provenance_def)
qed

section \<open>What an edit writes is in the journal\<close>

subsection \<open>Recorded changes\<close>

text \<open>
  Playing the journal entries \<open>cs\<close> over the tables of \<open>x\<close> reaches the tables of \<open>y\<close>, whatever the journal and the
  flag of the screens are, and every entry counts as applied.
\<close>

definition played :: "(checkpoint \<Rightarrow> bool) \<Rightarrow> edit_change list \<Rightarrow> edit_db \<Rightarrow> edit_db \<Rightarrow> bool" where
  "played w cs x y \<longleftrightarrow> (\<forall>b js n. \<exists>b'. fold_res (replay_step w) cs (vary b js x, n) = Inr (vary b' js y, n + length cs))"

definition recorded :: "(checkpoint \<Rightarrow> bool) \<Rightarrow> edit_db \<Rightarrow> edit_db \<Rightarrow> bool" where
  "recorded w x y \<longleftrightarrow> (\<exists>cs. xd_changes y = xd_changes x @ cs \<and> played w cs x y)"

lemma recorded_vary:
  assumes "\<And>b js. vary b js y = vary b js x" and "xd_changes y = xd_changes x"
  shows "recorded w x y"
  unfolding recorded_def played_def using assms by (intro exI [of _ "[]"]) auto

lemma recorded_refl [simp]: "recorded w x x"
  by (rule recorded_vary) simp_all

lemma recorded_signalled [simp]: "recorded w x (signalled x)"
  by (rule recorded_vary) (simp_all add: vary_simps signalled_def)

lemma recorded_trans:
  assumes "recorded w x y" and "recorded w y z"
  shows "recorded w x z"
proof -
  obtain cs ds where cs: "xd_changes y = xd_changes x @ cs" "played w cs x y" and ds: "xd_changes z = xd_changes y @ ds" "played w ds y z"
    using assms by (auto simp: recorded_def)
  have "\<exists>b'. fold_res (replay_step w) (cs @ ds) (vary b js x, n) = Inr (vary b' js z, n + length (cs @ ds))" for b js n
  proof -
    obtain b1 where "fold_res (replay_step w) cs (vary b js x, n) = Inr (vary b1 js y, n + length cs)"
      using cs(2) unfolding played_def by blast
    moreover obtain b2 where "fold_res (replay_step w) ds (vary b1 js y, n + length cs) = Inr (vary b2 js z, n + length cs + length ds)"
      using ds(2) unfolding played_def by blast
    ultimately show ?thesis by (intro exI [of _ b2]) (simp add: add.assoc)
  qed
  then show ?thesis unfolding recorded_def played_def using cs(1) ds(1) by (intro exI [of _ "cs @ ds"]) simp
qed

lemma recorded_one:
  assumes "xd_changes y = xd_changes x @ [c]" and "\<And>b js. \<exists>b'. replay_change w c (vary b js x) = Inr (vary b' js y, True)"
  shows "recorded w x y"
proof -
  have "\<exists>b'. fold_res (replay_step w) [c] (vary b js x, n) = Inr (vary b' js y, n + length [c])" for b js n
  proof -
    obtain b' where "replay_change w c (vary b js x) = Inr (vary b' js y, True)" using assms(2) by blast
    then show ?thesis by (auto simp: replay_step_def)
  qed
  then show ?thesis unfolding recorded_def played_def using assms(1) by blast
qed

subsection \<open>One field\<close>

lemma map_of_whitelist:
  assumes "map_of edit_whitelist e = Some fs" and "map_of fs f = Some spec"
  shows "f \<noteq> [] \<and> hd f \<noteq> CHR ''_'' \<and> e \<noteq> ''race_category'' \<and> (e = ''member'' \<longrightarrow> ed_table spec = ''members'')"
  using assms by (auto simp: edit_whitelist_def editable_int_def editable_text_def split: if_splits)

lemma validate_edit_Inr:
  assumes "validate_edit q = Inr (spec, v)"
  shows "rq_field q \<noteq> []" and "hd (rq_field q) \<noteq> CHR ''_''" and "rq_entity q \<noteq> ''race_category''" and "rq_id q \<noteq> []"
    and "rq_entity q = ''member'' \<Longrightarrow> ed_table spec = ''members''"
proof -
  obtain fs where fs: "map_of edit_whitelist (rq_entity q) = Some fs" "map_of fs (rq_field q) = Some spec" "rq_id q \<noteq> []"
    using assms by (auto simp: validate_edit_def bind_res_Inr split: option.splits if_splits)
  note map_of_whitelist [OF fs(1,2)]
  then show "rq_field q \<noteq> []" "hd (rq_field q) \<noteq> CHR ''_''" "rq_entity q \<noteq> ''race_category''" "rq_id q \<noteq> []"
    "rq_entity q = ''member'' \<Longrightarrow> ed_table spec = ''members''" using fs(3) by auto
qed

lemma club_owner_dirty [simp]: "club_owner (d\<lparr> db_dirty := b \<rparr>) k = club_owner d k"
  by (simp add: club_owner_def live_person_def find_scope_def split: option.splits)

lemma club_owner_alone: "db_scopes d = [] \<Longrightarrow> club_owner d k = Inr None"
  by (simp add: club_owner_def find_scope_def split: option.splits)

lemma field_recorded:
  assumes "validate_edit (request_of c) = Inr (spec, v)" and "update_field w (ed_table spec) (ec_field c) (ec_id c) v x = Inr (x1, old)"
    and "set_provenance (request_of c) v x1 = Inr x2" and "db_scopes (xd_db x) = []" and "ec_owner c = None" and "ec_relayed c = None"
    and "xd_changes y = xd_changes x @ [c]" and "\<And>b js. vary b js y = vary b js x2"
  shows "recorded w x y"
proof (rule recorded_one [OF assms(7)])
  fix b js
  note [simp] = assms(1,5,6)
  have names: "ec_field c \<noteq> []" "hd (ec_field c) \<noteq> CHR ''_''" "ec_entity c \<noteq> ''race_category''"
    using validate_edit_Inr [OF assms(1)] by (simp_all add: request_of_def)
  have nd: "ec_field c \<noteq> ''_deleted''" using names(2) by auto
  obtain b1 where u: "update_field w (ed_table spec) (ec_field c) (ec_id c) v (vary b js x) = Inr (vary b1 js x1, old)"
    using update_field_vary [OF assms(2)] by blast
  obtain b2 where "set_provenance (request_of c) v (vary b1 js x1) = Inr (vary b2 js x2)"
    using set_provenance_vary [OF assms(3)] by blast
  then have "replay_field w c (vary b js x) = (vary b2 js x2, True)" using u by (simp add: replay_field_def)
  then have "replay_change w c (vary b js x) = Inr (vary b2 js y, True)"
    using names nd assms(4,8) by (simp add: replay_change_def club_owner_alone)
  then show "\<exists>b'. replay_change w c (vary b js x) = Inr (vary b' js y, True)" by blast
qed

subsection \<open>Events without packet issuance\<close>

definition plain :: "edit_db \<Rightarrow> bool" where
  "plain x \<longleftrightarrow> distinct (map mb_id (db_members (xd_db x))) \<and> [] \<notin> mb_id ` set (db_members (xd_db x)) \<and> db_scopes (xd_db x) = []"

definition same_keys :: "edit_db \<Rightarrow> edit_db \<Rightarrow> bool" where
  "same_keys x y \<longleftrightarrow> map mb_id (db_members (xd_db y)) = map mb_id (db_members (xd_db x)) \<and> db_scopes (xd_db y) = db_scopes (xd_db x)"

lemma same_keys_refl [simp]: "same_keys x x"
  by (simp add: same_keys_def)

lemma same_keys_trans [trans]: "same_keys x y \<Longrightarrow> same_keys y z \<Longrightarrow> same_keys x z"
  by (simp add: same_keys_def)

lemma plain_same: "plain x \<Longrightarrow> same_keys x y \<Longrightarrow> plain y"
  unfolding plain_def same_keys_def by (metis list.set_map)

lemma with_member_cell_id: "with_member_cell d f v m = Some m' \<Longrightarrow> mb_id m' = mb_id m"
  by (auto simp: with_member_cell_def split: if_splits option.splits)

lemma write_row_members:
  assumes "write_row (\<lambda>m. mb_id m = k) c (with_member_cell d f v) ms = Inr (ms', old)"
  shows "map mb_id ms' = map mb_id ms"
proof -
  obtain r r' where rs: "List.find (\<lambda>m. mb_id m = k) ms = Some r" "with_member_cell d f v r = Some r'"
    and ms': "ms' = update_where (\<lambda>m. mb_id m = k) (\<lambda>_. r') ms"
    using assms by (auto simp: write_row_def split: option.splits)
  have "mb_id r' = k" using with_member_cell_id [OF rs(2)] find_Some_iff' [OF rs(1)] by simp
  then show ?thesis unfolding ms' by (intro map_update_where) simp
qed

lemma update_member_keys: "update_member_field f k v x = Inr (y, old) \<Longrightarrow> same_keys x y"
  using write_row_members by (fastforce simp: update_member_field_def bind_res_Inr same_keys_def signalled_def with_members_def)

lemma put_club_keys: "put_club e mc d = Inr d' \<Longrightarrow> db_members d' = db_members d \<and> db_scopes d' = db_scopes d"
  by (auto simp: put_club_def bind_res_Inr split: if_splits)

lemma update_field_keys:
  assumes "update_field w t f k v x = Inr (y, old)"
  shows "same_keys x y"
proof (cases "t = ''members'' \<and> f \<noteq> ''club''")
  case True
  then show ?thesis using assms update_member_keys by (auto simp: update_field_def)
next
  case False
  then show ?thesis using assms put_club_keys
    by (fastforce simp: update_field_def same_keys_def update_club_field_def apply_clubs_def update_race_field_def
        update_checkpoint_field_def update_event_field_def update_log_field_def bind_res_Inr signalled_def
        split: if_splits option.splits)
qed

lemma set_provenance_keys: "set_provenance q v x = Inr y \<Longrightarrow> same_keys x y"
  by (auto simp: set_provenance_def bind_res_Inr split: if_splits dest!: update_member_keys intro: same_keys_trans)

lemma journal_alone:
  assumes "journal c x = Inr y" and "db_scopes (xd_db x) = []" and "ec_owner c = None"
  shows "y = x\<lparr> xd_changes := xd_changes x @ [c] \<rparr>"
proof -
  have "c\<lparr> ec_owner := None \<rparr> = c" using assms(3) by simp
  then show ?thesis using assms(1,2) by (auto simp: journal_def club_owner_alone split: if_splits)
qed

lemma vary_changes [simp]: "vary b js (x\<lparr> xd_changes := cs \<rparr>) = vary b js x"
  by (simp add: vary_def)

lemma same_keys_changes [simp]: "same_keys x (y\<lparr> xd_changes := cs \<rparr>) = same_keys x y"
  by (simp add: same_keys_def)

end
