(* ===== verification/EditRuns.thy ===== *)
theory EditRuns
  imports EditLaws
begin

section \<open>Edits survive an import\<close>

subsection \<open>Start times\<close>

definition starts_exact :: "edit_db \<Rightarrow> bool" where
  "starts_exact x \<longleftrightarrow> (\<forall>m \<in> set (db_members (xd_db x)). case mb_start m of None \<Rightarrow> True | Some s \<Rightarrow> exact_int s)"

definition exact_start :: "int option \<Rightarrow> bool" where
  "exact_start s = (case s of None \<Rightarrow> True | Some t \<Rightarrow> exact_int t)"

lemma starts_exactD: "starts_exact x \<Longrightarrow> m \<in> set (db_members (xd_db x)) \<Longrightarrow> exact_start (mb_start m)"
  by (simp add: starts_exact_def exact_start_def)

lemma as_int_value [simp]: "as_int (int_value s) = Some s"
  by (cases s) (simp_all add: as_int_def int_value_def)

lemma validate_start:
  assumes "exact_start s" and "k \<noteq> []"
  shows "validate_edit \<lparr> rq_confirm = c, rq_entity = ''member'', rq_id = k, rq_field = ''start_time_ms'',
      rq_value = Some (sql_json (int_value s)) \<rparr> = Inr (editable_int ''members'' True, int_value s)"
  using assms by (cases s) (simp_all add: validate_edit_def edit_whitelist_def editable_int_def decode_edit_def sql_json_def
      int_value_def exact_start_def json_int_format)

lemma update_member_point:
  assumes "distinct (map mb_id (db_members (xd_db x)))" and "k \<in> mb_id ` set (db_members (xd_db x))"
    and "\<And>m. with_member_cell (xd_db x) f v m = Some (g m)"
  shows "\<exists>old. update_member_field f k v x = Inr (signalled (change_members (\<lambda>m. mb_id m = k) g x), old)"
  using write_row_unique [OF assms(1,2), of "with_member_cell (xd_db x) f v" g "member_cell f"] assms(3)
  by (auto simp: update_member_field_def change_members_def)

lemma change_members_keys: "(\<And>m. mb_id (g m) = mb_id m) \<Longrightarrow> same_keys x (change_members p g x)"
  by (simp add: same_keys_def change_members_def with_members_def map_update_where)

lemma signalled_keys [simp]: "same_keys x (signalled y) = same_keys x y"
  by (simp add: same_keys_def signalled_def)

lemma change_members_twice:
  assumes "\<And>m. mb_id (f m) = mb_id m"
  shows "change_members (\<lambda>m. mb_id m = k) g (change_members (\<lambda>m. mb_id m = k) f x) = change_members (\<lambda>m. mb_id m = k) (\<lambda>m. g (f m)) x"
  using assms by (simp add: change_members_def with_members_def update_where_again)

lemma change_members_signalled [simp]: "change_members p g (signalled x) = signalled (change_members p g x)"
  by (simp add: change_members_def with_members_def signalled_def)

lemma signalled_twice [simp]: "signalled (signalled x) = signalled x"
  by (simp add: signalled_def)

lemma key_in_change [simp]:
  "k \<in> mb_id ` set (db_members (xd_db x)) \<Longrightarrow> (\<And>m. mb_id (g m) = mb_id m) \<Longrightarrow>
    k \<in> mb_id ` set (db_members (xd_db (signalled (change_members p g x))))"
  using arg_cong [OF map_update_where [of p mb_id g "db_members (xd_db x)"], of set]
  by (simp add: change_members_def with_members_def signalled_def)

text \<open>The start of one member and where it comes from, with its entry in the journal.\<close>

lemma start_point:
  assumes "plain x" and "k \<in> mb_id ` set (db_members (xd_db x))"
  shows "\<exists>x1 old. update_field w ''members'' ''start_time_ms'' k (int_value s) x = Inr (x1, old) \<and>
    (\<forall>q. rq_entity q = ''member'' \<and> rq_field q = ''start_time_ms'' \<and> rq_id q = k \<longrightarrow>
      set_provenance q (int_value s) x1 = Inr (signalled (change_members (\<lambda>m. mb_id m = k)
        (set_start s (if s = None then ''unknown'' else ''manual'')) x)))"
proof -
  let ?src = "if s = None then ''unknown'' else ''manual''" and ?p = "\<lambda>m. mb_id m = k"
  let ?x1 = "signalled (change_members ?p (\<lambda>m. m\<lparr> mb_start := s \<rparr>) x)"
  let ?x2 = "signalled (change_members ?p (\<lambda>m. m\<lparr> mb_start_source := ?src \<rparr>) ?x1)"
  have d: "distinct (map mb_id (db_members (xd_db x)))" using assms(1) by (simp add: plain_def)
  have d1: "distinct (map mb_id (db_members (xd_db ?x1)))"
    using d by (simp add: signalled_def change_members_def with_members_def map_update_where)
  have d2: "distinct (map mb_id (db_members (xd_db ?x2)))"
    using d1 by (simp add: signalled_def change_members_def with_members_def map_update_where)
  have k1: "k \<in> mb_id ` set (db_members (xd_db ?x1))" using assms(2) by (rule key_in_change) simp
  have k2: "k \<in> mb_id ` set (db_members (xd_db ?x2))" using k1 by (rule key_in_change) simp
  obtain o1 where 1: "update_member_field ''start_time_ms'' k (int_value s) x = Inr (?x1, o1)"
    using update_member_point [OF d assms(2), of "''start_time_ms''" "int_value s" "\<lambda>m. m\<lparr> mb_start := s \<rparr>"]
    by (auto simp: with_member_cell_def as_int_value)
  obtain o2 where 2: "update_member_field ''start_time_source'' k (V_Text ?src) ?x1 = Inr (?x2, o2)"
    using update_member_point [OF d1 k1, of "''start_time_source''" "V_Text ?src" "\<lambda>m. m\<lparr> mb_start_source := ?src \<rparr>"]
    by (auto simp: with_member_cell_def need_text_def)
  obtain o3 where 3: "update_member_field ''start_observation_id'' k V_Null ?x2 =
      Inr (signalled (change_members ?p (\<lambda>m. m\<lparr> mb_start_observation := None \<rparr>) ?x2), o3)"
    using update_member_point [OF d2 k2, of "''start_observation_id''" V_Null "\<lambda>m. m\<lparr> mb_start_observation := None \<rparr>"]
    by (auto simp: with_member_cell_def as_text_def)
  have src: "(if int_value s = V_Null then ''unknown'' else ''manual'') = ?src" by (simp add: int_value_def split: option.splits)
  have final: "signalled (change_members ?p (\<lambda>m. m\<lparr> mb_start_observation := None \<rparr>) ?x2) = signalled (change_members ?p (set_start s ?src) x)"
    by (simp add: change_members_twice set_start_def [abs_def])
  have "set_provenance q (int_value s) ?x1 = Inr (signalled (change_members ?p (set_start s ?src) x))"
    if "rq_entity q = ''member''" "rq_field q = ''start_time_ms''" "rq_id q = k" for q
    using that 2 3 final by (simp only: set_provenance_def src) simp
  then show ?thesis using 1 by (auto simp: update_field_def)
qed

lemma start_recorded:
  assumes "plain x" and "k \<in> mb_id ` set (db_members (xd_db x))" and "exact_start s"
  shows "recorded w x (log_start now k old s (change_members (\<lambda>m. mb_id m = k) (set_start s (if s = None then ''unknown'' else ''manual'')) x))"
    (is "recorded w x ?y")
proof -
  let ?c = "journal_row now ''member'' k ''start_time_ms'' (sql_json (int_value old)) (Some (sql_json (int_value s)))"
  have "k \<noteq> []" using assms(1,2) unfolding plain_def by blast
  then have v: "validate_edit (request_of ?c) = Inr (editable_int ''members'' True, int_value s)"
    using validate_start [OF assms(3)] by (simp add: request_of_def journal_row_def)
  obtain x1 old' where u: "update_field w ''members'' ''start_time_ms'' k (int_value s) x = Inr (x1, old')"
    and p: "set_provenance (request_of ?c) (int_value s) x1 = Inr (signalled (change_members (\<lambda>m. mb_id m = k)
        (set_start s (if s = None then ''unknown'' else ''manual'')) x))"
    using start_point [OF assms(1,2), of w s] by (auto simp: request_of_def journal_row_def)
  have u': "update_field w (ed_table (editable_int ''members'' True)) (ec_field ?c) (ec_id ?c) (int_value s) x = Inr (x1, old')"
    using u by (simp add: editable_int_def journal_row_def)
  show ?thesis
  proof (rule field_recorded [OF v u' p])
    show "xd_changes ?y = xd_changes x @ [?c]" by (simp add: log_start_def change_members_def with_members_def)
    show "vary b js ?y = vary b js (signalled (change_members (\<lambda>m. mb_id m = k)
        (set_start s (if s = None then ''unknown'' else ''manual'')) x))" for b js
      by (simp only: vary_simps)
  qed (use assms(1) in \<open>simp_all add: journal_row_def plain_def\<close>)
qed

subsection \<open>Assigned starts and a moved race\<close>

lemma log_start_keys [simp]: "same_keys x (log_start now k old new y) = same_keys x y"
  by (simp add: same_keys_def log_start_def)

lemma set_start_id [simp]: "mb_id (set_start s src m) = mb_id m"
  by (simp add: set_start_def)

lemma assign_start_keys: "same_keys x (assign_start now rebuild m x)"
  by (simp add: assign_start_def Let_def change_members_keys)

lemma assign_start_recorded:
  assumes "plain x" and "mb_id m \<in> mb_id ` set (db_members (xd_db x))" and "exact_start (mb_start m)"
  shows "recorded w x (assign_start now rebuild m x)"
proof (cases "mb_start m = None \<or> \<not> rebuild \<and> measured m")
  case False
  have "exact_start (if measured m then None else mb_start m)" using assms(3) by (simp add: exact_start_def)
  from start_recorded [OF assms(1,2) this] show ?thesis using False by (simp add: assign_start_def Let_def)
qed (simp add: assign_start_def)

lemma assign_starts_recorded:
  assumes "plain x" and "mb_id ` set ms \<subseteq> mb_id ` set (db_members (xd_db x))" and "\<forall>m \<in> set ms. exact_start (mb_start m)"
  shows "recorded w x (fold (assign_start now rebuild) ms x) \<and> same_keys x (fold (assign_start now rebuild) ms x)"
  using assms
proof (induction ms arbitrary: x)
  case (Cons m ms)
  let ?y = "assign_start now rebuild m x"
  have keys: "same_keys x ?y" by (rule assign_start_keys)
  then have "mb_id ` set (db_members (xd_db ?y)) = mb_id ` set (db_members (xd_db x))"
    unfolding same_keys_def by (metis list.set_map)
  then have "recorded w ?y (fold (assign_start now rebuild) ms ?y) \<and> same_keys ?y (fold (assign_start now rebuild) ms ?y)"
    using Cons.IH [of ?y] Cons.prems plain_same [OF Cons.prems(1) keys] by simp
  moreover have "recorded w x ?y" using Cons.prems by (intro assign_start_recorded) auto
  ultimately show ?case using recorded_trans same_keys_trans [OF keys] by auto
qed simp

lemma race_members_set: "set (race_members x race) = {m \<in> set (db_members (xd_db x)). mb_race m = race}"
  by (auto simp: race_members_def)

lemma race_members_distinct:
  assumes "distinct (map mb_id (db_members (xd_db x)))"
  shows "distinct (map mb_id (race_members x race))"
  using assms by (simp add: race_members_def distinct_map) (auto intro: inj_on_subset)

lemma prepare_starts_recorded:
  assumes "prepare_starts now race confirm rebuild x = Inr y" and "plain x" and "starts_exact x"
  shows "recorded w x y \<and> same_keys x y"
proof -
  let ?z = "fold (assign_start now rebuild) (race_members x race) x"
  have "recorded w x ?z \<and> same_keys x ?z"
    using assms(2) starts_exactD [OF assms(3)] by (intro assign_starts_recorded) (auto simp: race_members_set)
  moreover have "y = x \<or> y = signalled ?z"
    using assms(1) by (auto simp: prepare_starts_def bind_res_Inr split: if_splits)
  ultimately show ?thesis using recorded_trans [OF _ recorded_signalled] by auto
qed

lemma prepare_policy_recorded:
  assumes "prepare_policy now q v x = Inr y" and "plain x" and "starts_exact x"
  shows "recorded w x y \<and> same_keys x y"
  using assms prepare_starts_recorded
  by (fastforce simp: prepare_policy_def bind_res_Inr split: if_splits)

definition shift_one :: "int \<Rightarrow> int \<Rightarrow> member \<Rightarrow> edit_db \<Rightarrow> edit_db" where
  "shift_one now delta m x = log_shift now delta m
     (change_members (\<lambda>r. mb_id r = mb_id m) (set_start (map_option (\<lambda>s. s + delta) (mb_start m)) ''manual'') x)"

lemma fold_shift_one:
  "fold (shift_one now delta) ms x = fold (log_shift now delta) ms
     (with_members (fold (\<lambda>m. update_where (\<lambda>r. mb_id r = mb_id m)
        (set_start (map_option (\<lambda>s. s + delta) (mb_start m)) ''manual'')) ms (db_members (xd_db x))) x)"
proof (induction ms arbitrary: x)
  case Nil
  then show ?case by (simp add: with_members_def)
next
  case (Cons m ms)
  let ?g = "\<lambda>m. update_where (\<lambda>r. mb_id r = mb_id m) (set_start (map_option (\<lambda>s. s + delta) (mb_start m)) ''manual'')"
  have 1: "db_members (xd_db (shift_one now delta m x)) = ?g m (db_members (xd_db x))"
    by (simp add: shift_one_def log_shift_def log_start_def change_members_def with_members_def)
  have 2: "with_members rs (shift_one now delta m x) = log_shift now delta m (with_members rs x)" for rs
    by (simp add: shift_one_def log_shift_def log_start_def change_members_def with_members_def)
  show ?case using Cons [of "shift_one now delta m x"] by (simp add: 1 2)
qed

lemma shift_bulk:
  assumes "distinct (map mb_id (db_members (xd_db x)))"
  shows "fold (shift_one now delta) (filter (moves_with_race race) (race_members x race)) x =
    fold (log_shift now delta) (filter (moves_with_race race) (race_members x race))
      (change_members (moves_with_race race) (shifted delta) x)"
proof -
  let ?ms = "filter (moves_with_race race) (race_members x race)"
  have d: "distinct (map mb_id ?ms)" using race_members_distinct [OF assms] by (simp add: distinct_map_filter)
  have s: "set ?ms = {r \<in> set (db_members (xd_db x)). moves_with_race race r}"
    by (auto simp: race_members_set moves_with_race_def)
  have "fold (\<lambda>m. update_where (\<lambda>r. mb_id r = mb_id m) (set_start (map_option (\<lambda>s. s + delta) (mb_start m)) ''manual'')) ?ms
      (db_members (xd_db x)) = update_where (moves_with_race race) (shifted delta) (db_members (xd_db x))"
    unfolding fold_points_bulk [OF assms d s, of "\<lambda>m. set_start (map_option (\<lambda>s. s + delta) (mb_start m)) ''manual''", OF set_start_id]
    by (simp add: shifted_def [abs_def])
  then show ?thesis by (simp add: fold_shift_one change_members_def)
qed

lemma shift_one_recorded:
  assumes "plain x" and "mb_id m \<in> mb_id ` set (db_members (xd_db x))" and "exact_start (map_option (\<lambda>s. s + delta) (mb_start m))"
    and "mb_start m \<noteq> None"
  shows "recorded w x (shift_one now delta m x)"
  using start_recorded [OF assms(1-3), of w now "mb_start m"] assms(4) by (simp add: shift_one_def log_shift_def)

lemma shift_one_keys: "same_keys x (shift_one now delta m x)"
  by (simp add: shift_one_def log_shift_def change_members_keys)

lemma shifts_recorded:
  assumes "plain x" and "mb_id ` set ms \<subseteq> mb_id ` set (db_members (xd_db x))"
    and "\<forall>m \<in> set ms. mb_start m \<noteq> None \<and> exact_start (map_option (\<lambda>s. s + delta) (mb_start m))"
  shows "recorded w x (fold (shift_one now delta) ms x)"
  using assms
proof (induction ms arbitrary: x)
  case (Cons m ms)
  let ?y = "shift_one now delta m x"
  have keys: "same_keys x ?y" by (rule shift_one_keys)
  then have "mb_id ` set (db_members (xd_db ?y)) = mb_id ` set (db_members (xd_db x))"
    unfolding same_keys_def by (metis list.set_map)
  then have "recorded w ?y (fold (shift_one now delta) ms ?y)"
    using Cons.IH [of ?y] Cons.prems plain_same [OF Cons.prems(1) keys] by simp
  moreover have "recorded w x ?y" using Cons.prems by (intro shift_one_recorded) auto
  ultimately show ?case using recorded_trans by simp
qed simp

lemma log_shifts_members [simp]: "xd_db (fold (log_shift now delta) ms x) = xd_db x"
  by (induction ms arbitrary: x) (simp_all add: log_shift_def log_start_def)

lemma log_shift_signalled: "log_shift now delta m (signalled z) = signalled (log_shift now delta m z)"
  by (simp add: log_shift_def log_start_def signalled_def)

lemma shift_starts_recorded:
  assumes "plain x" and "starts_exact (shift_starts now race delta x)"
  shows "recorded w x (shift_starts now race delta x)"
proof -
  let ?ms = "filter (moves_with_race race) (race_members x race)"
  show ?thesis
  proof (cases "delta = 0 \<or> ?ms = []")
    case False
    then have y: "shift_starts now race delta x =
        fold (log_shift now delta) ?ms (signalled (change_members (moves_with_race race) (shifted delta) x))"
      by (auto simp: shift_starts_def)
    have "exact_start (map_option (\<lambda>s. s + delta) (mb_start m))" if m: "m \<in> set ?ms" for m
    proof -
      have "shifted delta m \<in> set (update_where (moves_with_race race) (shifted delta) (db_members (xd_db x)))"
        using m unfolding in_set_update_where by (intro bexI [of _ m]) (auto simp: race_members_set)
      then have "shifted delta m \<in> set (db_members (xd_db (shift_starts now race delta x)))"
        by (simp add: y signalled_def change_members_def with_members_def)
      from starts_exactD [OF assms(2) this] show ?thesis by (simp add: shifted_def set_start_def)
    qed
    then have "recorded w x (fold (shift_one now delta) ?ms x)"
      using assms(1) by (intro shifts_recorded) (auto simp: race_members_set moves_with_race_def)
    moreover have "fold (shift_one now delta) ?ms x = fold (log_shift now delta) ?ms (change_members (moves_with_race race) (shifted delta) x)"
      using assms(1) by (intro shift_bulk) (simp add: plain_def)
    moreover have "fold (log_shift now delta) ms (signalled z) = signalled (fold (log_shift now delta) ms z)" for ms z
      by (induction ms arbitrary: z) (simp_all add: log_shift_signalled)
    ultimately show ?thesis using y recorded_trans [OF _ recorded_signalled] by simp
  qed (auto simp: shift_starts_def)
qed

subsection \<open>A whole edit\<close>

lemma follow_category_recorded:
  assumes "follow_category core now q x = Inr y" and "plain x" and "rq_id q \<noteq> []"
  shows "recorded (xc_window core) x y \<and> same_keys x y"
proof (cases "y = x")
  case False
  then obtain m c x' old where m: "get_member (xd_db x) (rq_id q) = Inr m"
    and u: "update_member_field ''category_id'' (rq_id q) (text_value c) x = Inr (x', old)"
    and j: "journal (journal_row now ''member'' (rq_id q) ''category_id'' (sql_json (text_value (mb_category m)))
      (Some (sql_json (text_value c)))) x' = Inr y"
    using assms(1) by (auto simp: follow_category_def bind_res_Inr split: if_splits)
  let ?c = "journal_row now ''member'' (rq_id q) ''category_id'' (sql_json (text_value (mb_category m))) (Some (sql_json (text_value c)))"
  have keys: "same_keys x x'" by (rule update_member_keys [OF u])
  then have "db_scopes (xd_db x') = []" using assms(2) by (simp add: plain_def same_keys_def)
  then have y: "y = x'\<lparr> xd_changes := xd_changes x' @ [?c] \<rparr>" using journal_alone [OF j] by (simp add: journal_row_def)
  have v: "validate_edit (request_of ?c) = Inr (editable_text ''members'' False, text_value c)"
    using assms(3) by (cases c) (simp_all add: request_of_def journal_row_def validate_edit_def edit_whitelist_def editable_text_def
        decode_edit_def sql_json_def text_value_def)
  have u': "update_field (xc_window core) (ed_table (editable_text ''members'' False)) (ec_field ?c) (ec_id ?c) (text_value c) x = Inr (x', old)"
    using u by (simp add: update_field_def editable_text_def journal_row_def)
  have p: "set_provenance (request_of ?c) (text_value c) x' = Inr x'"
    by (simp add: set_provenance_def request_of_def journal_row_def)
  have "xd_changes x' = xd_changes x"
    using u by (auto simp: update_member_field_def bind_res_Inr signalled_def with_members_def)
  then have "recorded (xc_window core) x y"
    by (intro field_recorded [OF v u' p]) (use assms(2) y in \<open>simp_all add: journal_row_def plain_def\<close>)
  then show ?thesis using keys y by simp
qed simp

lemma update_field_changes:
  assumes "update_field w t f k v x = Inr (y, old)"
  shows "xd_changes y = xd_changes x"
  using assms by (auto simp: update_field_def update_member_field_def update_club_field_def update_race_field_def
      update_checkpoint_field_def update_event_field_def update_log_field_def bind_res_Inr signalled_def with_members_def
      split: if_splits option.splits)

lemma set_provenance_changes: "set_provenance q v x = Inr y \<Longrightarrow> xd_changes y = xd_changes x"
  by (auto simp: set_provenance_def update_member_field_def bind_res_Inr signalled_def with_members_def split: if_splits)

lemma validate_confirm: "validate_edit (q\<lparr> rq_confirm := c \<rparr>) = validate_edit q"
  by (simp add: validate_edit_def cong: option.case_cong if_cong)

lemma provenance_confirm: "set_provenance (q\<lparr> rq_confirm := c \<rparr>) v x = set_provenance q v x"
  by (simp add: set_provenance_def cong: if_cong)

lemma edit_field_recorded:
  assumes "validate_edit q = Inr (spec, v)" and "update_field w (ed_table spec) (rq_field q) (rq_id q) v x = Inr (x1, old)"
    and "set_provenance q v x1 = Inr x2" and "journal (journal_row now (rq_entity q) (rq_id q) (rq_field q) j (rq_value q)) x2 = Inr y"
    and "plain x"
  shows "recorded w x y \<and> same_keys x y"
proof -
  let ?c = "journal_row now (rq_entity q) (rq_id q) (rq_field q) j (rq_value q)"
  have same: "request_of ?c = q\<lparr> rq_confirm := False \<rparr>" by (simp add: request_of_def journal_row_def)
  have keys: "same_keys x x2" using update_field_keys [OF assms(2)] set_provenance_keys [OF assms(3)] by (rule same_keys_trans)
  then have "db_scopes (xd_db x2) = []" using assms(5) by (simp add: plain_def same_keys_def)
  then have y: "y = x2\<lparr> xd_changes := xd_changes x2 @ [?c] \<rparr>" using journal_alone [OF assms(4)] by (simp add: journal_row_def)
  have v: "validate_edit (request_of ?c) = Inr (spec, v)" using assms(1) by (simp add: same validate_confirm)
  have u: "update_field w (ed_table spec) (ec_field ?c) (ec_id ?c) v x = Inr (x1, old)" using assms(2) by (simp add: journal_row_def)
  have p: "set_provenance (request_of ?c) v x1 = Inr x2" using assms(3) by (simp add: same provenance_confirm)
  have "xd_changes x2 = xd_changes x" using update_field_changes [OF assms(2)] set_provenance_changes [OF assms(3)] by simp
  then have "recorded w x y"
    by (intro field_recorded [OF v u p]) (use assms(5) y in \<open>simp_all add: journal_row_def plain_def\<close>)
  then show ?thesis using keys y by simp
qed

lemma apply_validated_recorded:
  assumes "apply_validated core now q spec v x = Inr y" and "validate_edit q = Inr (spec, v)" and "plain x"
    and "starts_exact x" and "starts_exact y"
  shows "recorded (xc_window core) x y"
proof -
  obtain x1 x2 old x3 x4 x5 where p: "prepare_policy now q v x = Inr x1"
    and u: "update_field (xc_window core) (ed_table spec) (rq_field q) (rq_id q) v x1 = Inr (x2, old)"
    and s: "set_provenance q v x2 = Inr x3"
    and j: "journal (journal_row now (rq_entity q) (rq_id q) (rq_field q) (sql_json old) (rq_value q)) x3 = Inr x4"
    and f: "follow_category core now q x4 = Inr x5" and t: "shift_field now q v old x5 = Inr y"
    using assms(1) by (auto simp: apply_validated_def bind_res_Inr)
  have 1: "recorded (xc_window core) x x1 \<and> same_keys x x1" by (rule prepare_policy_recorded [OF p assms(3,4)])
  then have "plain x1" using plain_same [OF assms(3)] by blast
  then have 2: "recorded (xc_window core) x1 x4 \<and> same_keys x1 x4" by (rule edit_field_recorded [OF assms(2) u s j])
  then have "plain x4" using plain_same [OF \<open>plain x1\<close>] by blast
  then have 3: "recorded (xc_window core) x4 x5 \<and> same_keys x4 x5"
    by (rule follow_category_recorded [OF f _ validate_edit_Inr(4) [OF assms(2)]])
  then have "plain x5" using plain_same [OF \<open>plain x4\<close>] by blast
  moreover have "y = x5 \<or> (\<exists>race delta. y = shift_starts now race delta x5)"
    using t by (cases v; cases old) (auto simp: shift_field_def bind_res_Inr split: if_splits)
  ultimately have "recorded (xc_window core) x5 y" using shift_starts_recorded assms(5) by auto
  then show ?thesis using 1 2 3 recorded_trans by blast
qed

lemma apply_edit_alone:
  assumes "apply_edit core action now q x = Inr (y, r)" and "db_scopes (xd_db x) = []"
  shows "\<exists>spec v. validate_edit q = Inr (spec, v) \<and> apply_validated core now q spec v x = Inr y \<and> r = ed_recount spec"
  using assms by (auto simp: apply_edit_def prepare_packet_def find_scope_def publish_packet_def bind_res_Inr split: if_splits)

subsection \<open>Categories and checkpoints\<close>

lemma journal_pseudo:
  assumes "hd f = CHR ''_''" and "journal (journal_row now e k f a b) x = Inr y"
  shows "y = x\<lparr> xd_changes := xd_changes x @ [journal_row now e k f a b] \<rparr>"
  using assms by (auto simp: journal_def journal_row_def split: if_splits)

lemma attach_pair_vary: "attach_pair race cat (vary b js x) = map_sum id (vary b js) (attach_pair race cat x)"
  by (simp add: attach_pair_def vary_simps Let_def)

lemma detach_pair_vary: "detach_pair race cat (vary b js x) = vary b js (detach_pair race cat x)"
  by (simp add: detach_pair_def vary_simps)

lemma pair_of_json: "race \<noteq> [] \<Longrightarrow> cat \<noteq> [] \<Longrightarrow> pair_of (Some (pair_json race cat)) = Some (race, cat)"
  by (simp add: pair_of_def pair_json_def pair_field_def)

lemma replay_pairs:
  assumes "f = ''_attached'' \<and> attach_pair race cat x = Inr x1 \<or> f = ''_detached'' \<and> x1 = detach_pair race cat x"
    and "ec_entity c = ''race_category''" and "ec_field c = f" and "ec_new c = Some (pair_json race cat)" and "race \<noteq> []" and "cat \<noteq> []"
  shows "replay_change w c (vary b js x) = Inr (vary b js x1, True)"
  using assms by (auto simp: replay_change_def replay_pair_def pair_of_json attach_pair_vary detach_pair_vary)

lemma pairs_recorded:
  assumes "f = ''_attached'' \<and> attach_pair race cat x = Inr x1 \<or> f = ''_detached'' \<and> x1 = detach_pair race cat x"
    and "journal_pair now f race cat x1 = Inr y" and "race \<noteq> []" and "cat \<noteq> []"
  shows "recorded w x y"
proof -
  let ?c = "journal_row now ''race_category'' (race @ '':'' @ cat) f JNull (Some (pair_json race cat))"
  have y: "y = x1\<lparr> xd_changes := xd_changes x1 @ [?c] \<rparr>"
    using assms(1,2) unfolding journal_pair_def by (intro journal_pseudo) auto
  have ch: "xd_changes x1 = xd_changes x"
    using assms(1) by (auto simp: attach_pair_def detach_pair_def with_pairs_def Let_def split: if_splits)
  show ?thesis
  proof (rule recorded_one)
    show "xd_changes y = xd_changes x @ [?c]" using y ch by simp
    have "replay_change w ?c (vary b js x) = Inr (vary b js x1, True)" for b js
      by (rule replay_pairs [OF assms(1) _ _ _ assms(3,4)]) (simp_all add: journal_row_def)
    then have "replay_change w ?c (vary b js x) = Inr (vary b js y, True)" for b js by (simp add: y)
    then show "\<exists>b'. replay_change w ?c (vary b js x) = Inr (vary b' js y, True)" for b js by blast
  qed
qed

lemma delete_recorded:
  assumes "delete_checkpoint encode now event k x = Inr y"
  shows "recorded w x y"
proof -
  obtain c where j: "journal (journal_row now ''checkpoint'' k ''_deleted'' (encode c) (Some JNull)) (delete_cascade k x) = Inr y"
    using assms by (auto simp: delete_checkpoint_def split: option.splits if_splits)
  let ?c = "journal_row now ''checkpoint'' k ''_deleted'' (encode c) (Some JNull)"
  have y: "y = (delete_cascade k x)\<lparr> xd_changes := xd_changes (delete_cascade k x) @ [?c] \<rparr>"
    by (rule journal_pseudo [OF _ j]) simp
  show ?thesis
  proof (rule recorded_one)
    show "xd_changes y = xd_changes x @ [?c]" using y by (simp add: delete_cascade_def)
    show "\<exists>b'. replay_change w ?c (vary b js x) = Inr (vary b' js y, True)" for b js
      using y by (auto simp: replay_change_def journal_row_def vary_simps)
  qed
qed

end
