(* ===== verification/EditRoster.thy ===== *)
theory EditRoster
  imports EditRuns RosterLaws
begin

section \<open>Edits and packet issuance\<close>

text \<open>
  With packet issuance installed, an edit of a participant is written to the registration it mirrors and published, so
  the members still mirror the registrations; all other edits leave what is mirrored alone.
\<close>

subsection \<open>Edits that leave the mirror alone\<close>

definition mirror_same :: "db \<Rightarrow> db \<Rightarrow> bool" where
  "mirror_same d d' \<longleftrightarrow> map mb_id (db_members d') = map mb_id (db_members d) \<and> db_regs d' = db_regs d \<and> db_scopes d' = db_scopes d \<and>
     (\<forall>m \<in> set (db_members d). \<exists>m' \<in> set (db_members d'). \<forall>r. projects r m \<longrightarrow> projects r m')"

lemma mirror_same_refl [simp]: "mirror_same d d"
  by (auto simp: mirror_same_def)

lemma mirror_same_trans [trans]: "mirror_same a b \<Longrightarrow> mirror_same b c \<Longrightarrow> mirror_same a c"
  unfolding mirror_same_def by metis

lemma mirror_same_roster:
  assumes "mirror_same d d'" and "roster_inv d"
  shows "roster_inv d'"
proof -
  have "mirrored (db_members d') x" if x: "x \<in> set (db_regs d)" for x
    by (rule mirrored_keep [OF roster_invD(3) [OF assms(2) x]]) (use assms(1) in \<open>unfold mirror_same_def, blast\<close>)
  then show ?thesis using assms by (simp add: roster_inv_def mirror_same_def)
qed

lemma mirror_same_members:
  assumes "db_members d' = db_members d" and "db_regs d' = db_regs d" and "db_scopes d' = db_scopes d"
  shows "mirror_same d d'"
  using assms by (auto simp: mirror_same_def)

text \<open>A member with another start, another source of it or another category shows the same registration.\<close>

definition same_view :: "member \<Rightarrow> member \<Rightarrow> bool" where
  "same_view m m' \<longleftrightarrow> (\<forall>r. projects r m \<longrightarrow> projects r m') \<and> mb_id m' = mb_id m"

lemma same_viewI:
  assumes "mb_id m' = mb_id m" "mb_event m' = mb_event m" "mb_race m' = mb_race m" "mb_number m' = mb_number m" "mb_epc m' = mb_epc m"
    "mb_status m' = mb_status m" "mb_first m' = mb_first m" "mb_last m' = mb_last m" "mb_gender m' = mb_gender m"
    "mb_dob m' = mb_dob m" "mb_team m' = mb_team m" "mb_city m' = mb_city m"
  shows "same_view m m'"
  using assms profile_matches_cong [of _ m m'] by (simp add: same_view_def projects_def)

lemma update_where_in: "m \<in> set rows \<Longrightarrow> (if p m then g m else m) \<in> set (update_where p g rows)"
  by (auto simp: update_where_def)

lemma mirror_same_change:
  assumes "\<And>m. same_view m (g m)"
  shows "mirror_same (xd_db x) (xd_db (change_members p g x))"
proof -
  have "\<exists>m' \<in> set (update_where p g (db_members (xd_db x))). \<forall>r. projects r m \<longrightarrow> projects r m'"
    if "m \<in> set (db_members (xd_db x))" for m
    using that assms [of m] unfolding same_view_def by (intro bexI [OF _ update_where_in]) auto
  then show ?thesis using assms by (simp add: mirror_same_def change_members_def with_members_def map_update_where same_view_def)
qed

lemma mirror_same_flags [simp]:
  "mirror_same d (xd_db (signalled y)) = mirror_same d (xd_db y)" "mirror_same d (xd_db (y\<lparr> xd_changes := cs \<rparr>)) = mirror_same d (xd_db y)"
  "xd_db (log_start now k a b y) = xd_db y"
  by (simp_all add: mirror_same_def signalled_def log_start_def)

lemma set_start_view [simp]: "same_view m (set_start s src m)"
  by (rule same_viewI) (simp_all add: set_start_def)

lemma assign_start_mirror: "mirror_same (xd_db x) (xd_db (assign_start now rebuild m x))"
  by (simp add: assign_start_def Let_def mirror_same_change)

lemma prepare_starts_mirror:
  assumes "prepare_starts now race confirm rebuild x = Inr y"
  shows "mirror_same (xd_db x) (xd_db y)"
proof -
  have "mirror_same (xd_db z) (xd_db (fold (assign_start now rebuild) ms z))" for ms z
    by (induction ms arbitrary: z) (auto intro: mirror_same_trans assign_start_mirror)
  then show ?thesis using assms by (auto simp: prepare_starts_def bind_res_Inr split: if_splits)
qed

lemma prepare_policy_mirror: "prepare_policy now q v x = Inr y \<Longrightarrow> mirror_same (xd_db x) (xd_db y)"
  by (auto simp: prepare_policy_def bind_res_Inr prepare_starts_mirror split: if_splits)

lemma shift_starts_mirror: "mirror_same (xd_db x) (xd_db (shift_starts now race delta x))"
  by (simp add: shift_starts_def Let_def mirror_same_change shifted_def [abs_def])

lemma journal_mirror: "journal c x = Inr y \<Longrightarrow> xd_db y = xd_db x"
  by (auto simp: journal_def bind_res_Inr split: if_splits)

lemma shift_field_mirror: "shift_field now q v old x = Inr y \<Longrightarrow> mirror_same (xd_db x) (xd_db y)"
  by (cases v; cases old) (auto simp: shift_field_def bind_res_Inr shift_starts_mirror split: if_splits)

text \<open>One field of one member: every other member stays.\<close>

definition only_member :: "string \<Rightarrow> db \<Rightarrow> db \<Rightarrow> bool" where
  "only_member k d d' \<longleftrightarrow> map mb_id (db_members d') = map mb_id (db_members d) \<and> db_regs d' = db_regs d \<and> db_scopes d' = db_scopes d \<and>
     db_feed d' = db_feed d \<and> (\<forall>m \<in> set (db_members d). mb_id m \<noteq> k \<longrightarrow> m \<in> set (db_members d'))"

lemma only_member_refl [simp]: "only_member k d d"
  by (simp add: only_member_def)

lemma only_member_trans: "only_member k a b \<Longrightarrow> only_member k b c \<Longrightarrow> only_member k a c"
  by (auto simp: only_member_def)

lemma update_member_rows:
  assumes "update_member_field f k v x = Inr (y, old)"
  shows "\<exists>r r'. r \<in> set (db_members (xd_db x)) \<and> mb_id r = k \<and> with_member_cell (xd_db x) f v r = Some r' \<and>
    y = signalled (change_members (\<lambda>m. mb_id m = k) (\<lambda>_. r') x)"
proof -
  obtain r r' where "List.find (\<lambda>m. mb_id m = k) (db_members (xd_db x)) = Some r" "with_member_cell (xd_db x) f v r = Some r'"
    "y = signalled (with_members (update_where (\<lambda>m. mb_id m = k) (\<lambda>_. r') (db_members (xd_db x))) x)"
    using assms by (auto simp: update_member_field_def write_row_def bind_res_Inr split: option.splits)
  then show ?thesis using find_Some_iff' [of _ _ r] by (auto simp: change_members_def)
qed

lemma update_member_only:
  assumes "update_member_field f k v x = Inr (y, old)"
  shows "only_member k (xd_db x) (xd_db y)"
proof -
  obtain r' where "mb_id r' = k" and y: "y = signalled (change_members (\<lambda>m. mb_id m = k) (\<lambda>_. r') x)"
    using update_member_rows [OF assms] with_member_cell_id by blast
  then show ?thesis
    using update_where_keep by (auto simp: only_member_def signalled_def change_members_def with_members_def intro: map_update_where)
qed

lemma put_club_only: "put_club e mc d = Inr d' \<Longrightarrow> only_member k d d' \<and> mirror_same d d'"
  by (auto simp: put_club_def only_member_def bind_res_Inr split: if_splits intro: mirror_same_members)

lemma update_club_only:
  assumes "update_club_field k v x = Inr (y, old)"
  shows "only_member k' (xd_db x) (xd_db y) \<and> mirror_same (xd_db x) (xd_db y)"
  using assms put_club_only by (auto simp: update_club_field_def apply_clubs_def bind_res_Inr split: option.splits)

lemma set_provenance_only: "set_provenance q v x = Inr y \<Longrightarrow> only_member (rq_id q) (xd_db x) (xd_db y)"
  by (auto simp: set_provenance_def bind_res_Inr split: if_splits dest!: update_member_only intro: only_member_trans)

lemma follow_category_only: "follow_category core now q x = Inr y \<Longrightarrow> only_member (rq_id q) (xd_db x) (xd_db y)"
  by (auto simp: follow_category_def bind_res_Inr journal_mirror split: if_splits dest!: update_member_only)

lemma update_only:
  assumes "update_field w ''members'' f k v x = Inr (y, old)"
  shows "only_member k (xd_db x) (xd_db y)"
  using assms update_club_only update_member_only by (auto simp: update_field_def split: if_splits)

lemma member_edit_only:
  assumes "apply_validated core now q spec v x = Inr y" and "validate_edit q = Inr (spec, v)" and "rq_entity q = ''member''"
  shows "only_member (rq_id q) (xd_db x) (xd_db y)"
proof -
  obtain x2 old x3 x4 x5 where u: "update_field (xc_window core) (ed_table spec) (rq_field q) (rq_id q) v x = Inr (x2, old)"
    and s: "set_provenance q v x2 = Inr x3"
    and j: "journal (journal_row now (rq_entity q) (rq_id q) (rq_field q) (sql_json old) (rq_value q)) x3 = Inr x4"
    and f: "follow_category core now q x4 = Inr x5" and t: "shift_field now q v old x5 = Inr y"
    using assms(1,3) by (auto simp: apply_validated_def bind_res_Inr prepare_policy_def)
  have "only_member (rq_id q) (xd_db x) (xd_db x2)"
    using u update_only validate_edit_Inr(5) [OF assms(2,3)] by simp
  moreover have "only_member (rq_id q) (xd_db x2) (xd_db x3)" by (rule set_provenance_only [OF s])
  moreover have "only_member (rq_id q) (xd_db x3) (xd_db x5)" using follow_category_only [OF f] journal_mirror [OF j] by simp
  moreover have "y = x5" using t assms(3) by (simp add: shift_field_def)
  ultimately show ?thesis using only_member_trans by blast
qed

text \<open>An edit outside of the fields of packet issuance.\<close>

lemma start_cells_view:
  assumes "with_member_cell d f v m = Some m'" and "f \<in> {''start_time_ms'', ''start_time_source'', ''start_observation_id''}"
  shows "same_view m m'"
  using assms by (auto simp: with_member_cell_def intro!: same_viewI)

lemma update_start_mirror:
  assumes "update_member_field f k v x = Inr (y, old)" and "f \<in> {''start_time_ms'', ''start_time_source'', ''start_observation_id''}"
    and "distinct (map mb_id (db_members (xd_db x)))"
  shows "mirror_same (xd_db x) (xd_db y)"
proof -
  obtain r r' where r: "r \<in> set (db_members (xd_db x))" "mb_id r = k" "with_member_cell (xd_db x) f v r = Some r'"
    and y: "y = signalled (change_members (\<lambda>m. mb_id m = k) (\<lambda>_. r') x)"
    using update_member_rows [OF assms(1)] by blast
  have view: "same_view r r'" by (rule start_cells_view [OF r(3) assms(2)])
  have other: "m = r" if "m \<in> set (db_members (xd_db x))" "mb_id m = k" for m
    using r(1,2) that assms(3) by (auto simp: distinct_map inj_on_def)
  have "\<exists>m' \<in> set (update_where (\<lambda>m. mb_id m = k) (\<lambda>_. r') (db_members (xd_db x))). \<forall>s. projects s m \<longrightarrow> projects s m'"
    if "m \<in> set (db_members (xd_db x))" for m
    using that other [of m] view unfolding same_view_def by (intro bexI [OF _ update_where_in [where g = "\<lambda>_. r'"]]) auto
  then show ?thesis using view r(2)
    by (simp add: y mirror_same_def signalled_def change_members_def with_members_def map_update_where same_view_def)
qed

lemma mirror_same_ids: "mirror_same d d' \<Longrightarrow> distinct (map mb_id (db_members d)) \<Longrightarrow> distinct (map mb_id (db_members d'))"
  by (simp add: mirror_same_def)

lemma set_provenance_mirror:
  assumes "set_provenance q v x = Inr y" and "distinct (map mb_id (db_members (xd_db x)))"
  shows "mirror_same (xd_db x) (xd_db y)"
proof (cases "y = x")
  case False
  then obtain x1 o1 o2 where 1: "update_member_field ''start_time_source'' (rq_id q)
        (V_Text (if v = V_Null then ''unknown'' else ''manual'')) x = Inr (x1, o1)"
    and 2: "update_member_field ''start_observation_id'' (rq_id q) V_Null x1 = Inr (y, o2)"
    using assms(1) by (auto simp: set_provenance_def bind_res_Inr split: if_splits)
  have "mirror_same (xd_db x) (xd_db x1)" by (rule update_start_mirror [OF 1 _ assms(2)]) simp
  moreover from mirror_same_ids [OF this assms(2)] have "mirror_same (xd_db x1) (xd_db y)" by (rule update_start_mirror [OF 2, rotated]) simp
  ultimately show ?thesis by (rule mirror_same_trans)
qed simp

lemma update_field_other:
  assumes "update_field w t f k v x = Inr (y, old)" and "t \<noteq> ''members'' \<or> f = ''club'' \<or> f = ''start_time_ms''"
    and "distinct (map mb_id (db_members (xd_db x)))"
  shows "mirror_same (xd_db x) (xd_db y)"
proof -
  have e: "mirror_same d (d\<lparr> db_events := es \<rparr>)" for d es by (rule mirror_same_members) simp_all
  consider "t = ''members''" "f = ''club''" | "t = ''members''" "f = ''start_time_ms''" | "t \<noteq> ''members''" using assms(2) by blast
  then show ?thesis
  proof cases
    case 1
    then show ?thesis using assms(1) update_club_only by (simp add: update_field_def)
  next
    case 2
    then show ?thesis using assms(1) update_start_mirror [OF _ _ assms(3)] by (simp add: update_field_def)
  next
    case 3
    then show ?thesis using assms(1) e
      by (auto simp: update_field_def update_race_field_def update_checkpoint_field_def update_event_field_def update_log_field_def
          bind_res_Inr split: if_splits)
  qed
qed

lemma map_of_whitelist_other:
  assumes "map_of edit_whitelist e = Some fs" and "map_of fs f = Some spec" and "e \<noteq> ''member'' \<or> f \<notin> packet_fields"
  shows "ed_table spec \<noteq> ''members'' \<or> f = ''club'' \<or> f = ''start_time_ms''"
  using assms by (auto simp: edit_whitelist_def editable_int_def editable_text_def packet_fields_def split: if_splits)

lemma other_edit_mirror:
  assumes "apply_validated core now q spec v x = Inr y" and "validate_edit q = Inr (spec, v)"
    and "rq_entity q \<noteq> ''member'' \<or> rq_field q \<notin> packet_fields" and "distinct (map mb_id (db_members (xd_db x)))"
  shows "mirror_same (xd_db x) (xd_db y)"
proof -
  obtain x1 x2 old x3 x4 x5 where p: "prepare_policy now q v x = Inr x1"
    and u: "update_field (xc_window core) (ed_table spec) (rq_field q) (rq_id q) v x1 = Inr (x2, old)"
    and s: "set_provenance q v x2 = Inr x3"
    and j: "journal (journal_row now (rq_entity q) (rq_id q) (rq_field q) (sql_json old) (rq_value q)) x3 = Inr x4"
    and f: "follow_category core now q x4 = Inr x5" and t: "shift_field now q v old x5 = Inr y"
    using assms(1) by (auto simp: apply_validated_def bind_res_Inr)
  obtain fs where "map_of edit_whitelist (rq_entity q) = Some fs" "map_of fs (rq_field q) = Some spec"
    using assms(2) by (auto simp: validate_edit_def bind_res_Inr split: option.splits if_splits)
  note table = map_of_whitelist_other [OF this assms(3)]
  have 1: "mirror_same (xd_db x) (xd_db x1)" by (rule prepare_policy_mirror [OF p])
  note d1 = mirror_same_ids [OF 1 assms(4)]
  have 2: "mirror_same (xd_db x1) (xd_db x2)" by (rule update_field_other [OF u table d1])
  note d2 = mirror_same_ids [OF 2 d1]
  have 3: "mirror_same (xd_db x2) (xd_db x3)" by (rule set_provenance_mirror [OF s d2])
  have "x5 = x4" using f assms(3) by (auto simp: follow_category_def packet_fields_def)
  then have "xd_db x5 = xd_db x3" using journal_mirror [OF j] by simp
  then have 4: "mirror_same (xd_db x3) (xd_db y)" using shift_field_mirror [OF t] by simp
  show ?thesis using mirror_same_trans [OF mirror_same_trans [OF 1 2] mirror_same_trans [OF 3 4]] .
qed

subsection \<open>The registration of an edited participant\<close>

text \<open>The roster while the row of one participant is being rewritten.\<close>

definition hide :: "string \<Rightarrow> db \<Rightarrow> db" where
  "hide k d = d\<lparr> db_regs := update_where (\<lambda>x. rr_id x = k) (\<lambda>x. x\<lparr> rr_deleted := True \<rparr>) (db_regs d) \<rparr>"

lemma only_member_hidden:
  assumes "only_member k d d'" and "roster_inv d"
  shows "roster_inv (hide k d')"
proof -
  have regs: "db_regs d' = db_regs d" "map mb_id (db_members d') = map mb_id (db_members d)" using assms(1) by (simp_all add: only_member_def)
  have "mirrored (db_members d') x'" if hidden: "x' \<in> set (db_regs (hide k d'))" for x'
  proof -
    obtain x where x: "x \<in> set (db_regs d)" "x' = (if rr_id x = k then x\<lparr> rr_deleted := True \<rparr> else x)"
      using hidden by (auto simp: hide_def regs in_set_update_where)
    note old = roster_invD(3) [OF assms(2) x(1)]
    show ?thesis
    proof (cases "rr_id x = k")
      case True
      then show ?thesis using old x(2) by (simp add: mirrored_def)
    next
      case False
      have "m \<in> set (db_members d')" if "m \<in> set (db_members d)" "mb_id m = rr_id x" for m
        using assms(1) False that by (simp add: only_member_def)
      then have "mirrored (db_members d') x" by (intro mirrored_keep [OF old]) auto
      then show ?thesis using False x(2) by simp
    qed
  qed
  then show ?thesis using roster_invD(1,2) [OF assms(2)] regs by (simp add: roster_inv_def hide_def map_update_where)
qed

lemma put_hidden:
  assumes "put_registration r heads cat d = Inr d'" and "\<And>x. x \<in> set (db_regs d) \<Longrightarrow> rr_id x = reg_id r \<Longrightarrow> rr_event x = reg_event r"
  shows "put_registration r heads cat (hide (reg_id r) d) = Inr d'"
proof -
  have "update_where (\<lambda>x. rr_id x = reg_id r \<and> rr_event x = reg_event r) f
      (update_where (\<lambda>x. rr_id x = reg_id r) (\<lambda>x. x\<lparr> rr_deleted := True \<rparr>) (db_regs d)) =
    update_where (\<lambda>x. rr_id x = reg_id r \<and> rr_event x = reg_event r) (\<lambda>x. f (x\<lparr> rr_deleted := True \<rparr>)) (db_regs d)" for f
    using assms(2) by (auto simp: update_where_def)
  moreover have "member_refs (d\<lparr> db_regs := rs \<rparr>) m = member_refs d m" for rs m
    by (simp add: member_refs_def event_exists_def split: option.splits)
  ultimately show ?thesis using assms(1) by (auto simp: put_registration_def hide_def Let_def split: if_splits)
qed

lemma checked_Inr: "(case v of Inl _ \<Rightarrow> if b then Inl a else Inl c | Inr _ \<Rightarrow> Inr r) = Inr r' \<Longrightarrow> r' = r"
  by (simp split: sum.splits if_splits)

lemma edited_registration_ids:
  assumes "edited_registration current m f = Inr after"
  shows "reg_id after = reg_id current \<and> reg_event after = reg_event current"
  using assms unfolding edited_registration_def bind_res_Inr Let_def by (elim exE conjE) (drule checked_Inr, simp)

lemma with_evidence_ids: "with_evidence d r = Inr v \<Longrightarrow> reg_id v = reg_id r \<and> reg_event v = reg_event r"
  by (auto simp: with_evidence_def bind_res_Inr split: if_splits option.splits)

lemma find_registration_live:
  assumes "find_registration d e k = Inr (Some r)" and "\<not> rr_deleted r"
  shows "\<exists>x \<in> set (db_regs d). rr_id x = k \<and> rr_event x = e \<and> \<not> rr_deleted x \<and> rr_heads r = rr_heads x \<and>
    with_evidence d (rr_value x) = Inr (rr_value r)"
  using assms by (auto simp: find_registration_def find_reg_def bind_res_Inr split: option.splits if_splits dest!: find_Some_iff')

end
