(* ===== verification/EditProps.thy ===== *)
theory EditProps
  imports EditRoster
begin

section \<open>Properties of edits\<close>

subsection \<open>Runs of judges' decisions\<close>

text \<open>
  What the judges of an event without packet issuance do, one decision after the other; the start times that result are
  those a JSON number carries exactly.
\<close>

inductive judge_step :: "edit_core \<Rightarrow> (checkpoint \<Rightarrow> json) \<Rightarrow> edit_db \<Rightarrow> edit_db \<Rightarrow> bool" for core encode where
  edit: "apply_edit core action now q x = Inr (y, r) \<Longrightarrow> starts_exact y \<Longrightarrow> judge_step core encode x y"
| attach: "attach_category now event race cat x = Inr y \<Longrightarrow> race \<noteq> [] \<Longrightarrow> cat \<noteq> [] \<Longrightarrow> judge_step core encode x y"
| detach: "detach_category now event race cat x = Inr y \<Longrightarrow> race \<noteq> [] \<Longrightarrow> cat \<noteq> [] \<Longrightarrow> judge_step core encode x y"
| delete: "delete_checkpoint encode now event k x = Inr y \<Longrightarrow> judge_step core encode x y"

definition imported :: "edit_db \<Rightarrow> bool" where
  "imported x \<longleftrightarrow> plain x \<and> starts_exact x"

lemma only_member_keys: "only_member k (xd_db x) (xd_db y) \<Longrightarrow> same_keys x y"
  by (simp add: only_member_def same_keys_def)

lemma mirror_same_keys: "mirror_same (xd_db x) (xd_db y) \<Longrightarrow> same_keys x y"
  by (simp add: mirror_same_def same_keys_def)

lemma judge_step_recorded:
  assumes "judge_step core encode x y" and "imported x"
  shows "recorded (xc_window core) x y \<and> imported y"
  using assms(1)
proof cases
  case (edit action now q r)
  have scopes: "db_scopes (xd_db x) = []" and dist: "distinct (map mb_id (db_members (xd_db x)))"
    using assms(2) by (simp_all add: imported_def plain_def)
  obtain spec v where v: "validate_edit q = Inr (spec, v)" and a: "apply_validated core now q spec v x = Inr y"
    using apply_edit_alone [OF edit(1) scopes] by blast
  have "same_keys x y"
  proof (cases "rq_entity q = ''member'' \<and> rq_field q \<in> packet_fields")
    case True
    then show ?thesis using member_edit_only [OF a v] only_member_keys by blast
  next
    case False
    then show ?thesis using other_edit_mirror [OF a v _ dist] mirror_same_keys by blast
  qed
  then have "imported y" using assms(2) edit(2) plain_same by (auto simp: imported_def)
  moreover have "recorded (xc_window core) x y"
    using apply_validated_recorded [OF a v] assms(2) edit(2) by (simp add: imported_def)
  ultimately show ?thesis by blast
next
  case (attach now event race cat)
  then have "y = x \<or> (\<exists>x1. attach_pair race cat x = Inr x1 \<and> journal_pair now ''_attached'' race cat x1 = Inr y)"
    by (auto simp: attach_category_def bind_res_Inr Let_def split: if_splits option.splits)
  then have "recorded (xc_window core) x y"
  proof (elim disjE exE conjE)
    fix x1 assume "attach_pair race cat x = Inr x1" and j: "journal_pair now ''_attached'' race cat x1 = Inr y"
    then show "recorded (xc_window core) x y" by (intro pairs_recorded [OF _ j attach(2,3)]) simp
  qed simp
  moreover have "db_members (xd_db y) = db_members (xd_db x) \<and> db_scopes (xd_db y) = db_scopes (xd_db x)"
    using attach(1) by (auto simp: attach_category_def attach_pair_def with_pairs_def journal_pair_def bind_res_Inr Let_def
        split: if_splits option.splits dest!: journal_mirror)
  ultimately show ?thesis using assms(2) by (simp add: imported_def plain_def starts_exact_def)
next
  case (detach now event race cat)
  then have j: "journal_pair now ''_detached'' race cat (detach_pair race cat x) = Inr y"
    by (auto simp: detach_category_def split: if_splits)
  have "recorded (xc_window core) x y" by (rule pairs_recorded [OF _ j detach(2,3)]) simp
  moreover have "db_members (xd_db y) = db_members (xd_db x) \<and> db_scopes (xd_db y) = db_scopes (xd_db x)"
    using j by (auto simp: journal_pair_def detach_pair_def with_pairs_def dest!: journal_mirror)
  ultimately show ?thesis using assms(2) by (simp add: imported_def plain_def starts_exact_def)
next
  case (delete now event k)
  then have "xd_db y = xd_db x"
    by (auto simp: delete_checkpoint_def delete_cascade_def split: option.splits if_splits dest!: journal_mirror)
  then show ?thesis using delete_recorded [OF delete] assms(2) by (simp add: imported_def plain_def starts_exact_def)
qed

interpretation judges: monotone_machine "judge_step core encode" imported "recorded (xc_window core)"
proof unfold_locales
  fix x y z :: edit_db
  show "judge_step core encode x y \<Longrightarrow> imported x \<Longrightarrow> imported y" using judge_step_recorded by blast
  show "recorded (xc_window core) x x" by simp
  show "recorded (xc_window core) x y \<Longrightarrow> recorded (xc_window core) y z \<Longrightarrow> recorded (xc_window core) x z" by (rule recorded_trans)
  show "judge_step core encode x y \<Longrightarrow> imported x \<Longrightarrow> recorded (xc_window core) x y" using judge_step_recorded by blast
qed

text \<open>
  C21.  The journal is complete.  In an event without packet issuance, whose start times are numbers a JSON value carries
  exactly, let the judges edit fields, switch timing policies, move starts, attach and detach categories and delete
  checkpoints, in any order, beginning with an empty journal.  When the journal is then played over the tables they
  began with, every entry applies and all tables are as the judges left them: nothing an edit did, directly or as a
  consequence, is missing from the journal.
\<close>

theorem journal_is_complete:
  assumes "plain s" and "starts_exact s" and "xd_changes s = []" and "(judge_step core encode)\<^sup>*\<^sup>* s x"
  shows "\<exists>y. reapply_edits (xc_window core) (s\<lparr> xd_changes := xd_changes x \<rparr>) = Inr (y, length (xd_changes x)) \<and>
    vary False [] y = vary False [] x"
proof -
  have "recorded (xc_window core) s x"
    using judges.le_steps [OF assms(4)] assms(1,2) by (simp add: imported_def)
  then have p: "played (xc_window core) (xd_changes x) s x" using assms(3) by (auto simp: recorded_def)
  have "vary (db_dirty (xd_db s)) (xd_changes x) s = s\<lparr> xd_changes := xd_changes x \<rparr>" by (simp add: vary_def)
  then obtain b where "fold_res (replay_step (xc_window core)) (xd_changes x) (s\<lparr> xd_changes := xd_changes x \<rparr>, 0) =
      Inr (vary b (xd_changes x) x, length (xd_changes x))"
    using p unfolding played_def by (metis add_0)
  then show ?thesis by (simp add: reapply_edits_def)
qed

subsection \<open>Packet issuance\<close>

definition covered :: "db \<Rightarrow> bool" where
  "covered d \<longleftrightarrow> (\<forall>r \<in> set (db_regs d). \<not> rr_deleted r \<longrightarrow> (\<exists>sc. find_scope d (rr_event r) = Some sc \<and> sc_scope sc \<noteq> []))"

lemma find_scope_cong: "db_scopes d' = db_scopes d \<Longrightarrow> find_scope d' e = find_scope d e"
  by (simp add: find_scope_def)

lemma publish_packet_Inr:
  assumes "publish_packet action now f (Some (event, before)) x = Inr y"
  shows "\<exists>m after d1. get_member (xd_db x) (reg_id (rr_value before)) = Inr m \<and> edited_registration (rr_value before) m f = Inr after \<and>
    put_registration after (unique_heads (rr_heads before @ [action])) (mb_category m) (xd_db x) = Inr d1 \<and>
    publish_server_change event action ''chrono_desk.local_edit''
      [\<lparr> chg_reg = reg_id after, chg_before = rr_value before, chg_after = after \<rparr>] now d1 = Inr (xd_db y)"
  using assms by (auto simp: publish_packet_def bind_res_Inr Let_def split: if_splits)

lemma publish_change_rows:
  assumes "publish_server_change event action source changes now d = Inr d'"
  shows "db_members d' = db_members d" and "db_regs d' = db_regs d" and "db_scopes d' = db_scopes d"
    and "\<exists>f. db_feed d' = db_feed d @ [f] \<and> fr_id f = action \<and> fr_event f = event \<and> fr_changes f = map full_change changes"
  using assms by (auto simp: publish_server_change_def append_feed_def ensure_head_def bind_res_Inr Let_def split: if_splits)

lemma put_rows:
  assumes "put_registration r heads cat d = Inr d'"
  shows "db_regs d' = update_where (\<lambda>x. rr_id x = reg_id r \<and> rr_event x = reg_event r)
      (\<lambda>x. x\<lparr> rr_value := r, rr_heads := heads, rr_deleted := False \<rparr>) (db_regs d)"
    and "db_scopes d' = db_scopes d" and "db_feed d' = db_feed d"
  using assms by (auto simp: put_registration_def Let_def split: if_splits)

lemma prepare_packet_Inr:
  assumes "prepare_packet q d = Inr change" and "rq_entity q = ''member''" and "rq_field q \<in> packet_fields"
  obtains (alone) m where "get_member d (rq_id q) = Inr m" "change = None" "find_scope d (mb_event m) = None \<or> sc_scope (the (find_scope d (mb_event m))) = []"
  | (installed) m sc before where "get_member d (rq_id q) = Inr m" "find_scope d (mb_event m) = Some sc" "sc_scope sc \<noteq> []"
      "find_registration d (mb_event m) (mb_id m) = Inr (Some before)" "\<not> rr_deleted before" "change = Some (mb_event m, before)"
proof -
  obtain m where m: "get_member d (rq_id q) = Inr m" using assms by (auto simp: prepare_packet_def bind_res_Inr)
  show ?thesis
  proof (cases "find_scope d (mb_event m) = None \<or> sc_scope (the (find_scope d (mb_event m))) = []")
    case True
    then have "change = None" using assms m by (auto simp: prepare_packet_def split: option.splits)
    then show ?thesis using alone m True by blast
  next
    case False
    then obtain sc where sc: "find_scope d (mb_event m) = Some sc" "sc_scope sc \<noteq> []" by auto
    then obtain before where "find_registration d (mb_event m) (mb_id m) = Inr (Some before)" "\<not> rr_deleted before"
      "change = Some (mb_event m, before)"
      using assms m by (auto simp: prepare_packet_def bind_res_Inr split: option.splits if_splits)
    then show ?thesis using installed m sc by blast
  qed
qed

lemma get_member_Inr: "get_member d k = Inr m \<Longrightarrow> m \<in> set (db_members d) \<and> mb_id m = k"
  by (auto simp: get_member_def split: option.splits dest: find_Some_iff')

lemma edit_parts:
  assumes "apply_edit core action now q x = Inr (y, r)"
  obtains spec v change x1 where "validate_edit q = Inr (spec, v)" "prepare_packet q (xd_db x) = Inr change"
    "apply_validated core now q spec v x = Inr x1" "publish_packet action now (rq_field q) change x1 = Inr y"
  using assms by (auto simp: apply_edit_def bind_res_Inr)

text \<open>The row of the participant that is published, and what becomes of it.\<close>

lemma published_edit:
  assumes "apply_validated core now q spec v x = Inr x1" and "validate_edit q = Inr (spec, v)" and "rq_entity q = ''member''"
    and "find_registration (xd_db x) e (rq_id q) = Inr (Some before)" and "\<not> rr_deleted before" and "roster_inv (xd_db x)"
    and "publish_packet action now (rq_field q) (Some (e, before)) x1 = Inr y"
  shows "\<exists>after. roster_inv (xd_db y) \<and> db_scopes (xd_db y) = db_scopes (xd_db x) \<and> reg_id after = rq_id q \<and> reg_event after = e \<and>
    (\<exists>row \<in> set (db_regs (xd_db x)). rr_id row = rq_id q \<and> rr_event row = e \<and> \<not> rr_deleted row \<and>
       with_evidence (xd_db x) (rr_value row) = Inr (rr_value before)) \<and>
    db_regs (xd_db y) = update_where (\<lambda>z. rr_id z = rq_id q \<and> rr_event z = e)
      (\<lambda>z. z\<lparr> rr_value := after, rr_heads := unique_heads (rr_heads before @ [action]), rr_deleted := False \<rparr>) (db_regs (xd_db x)) \<and>
    (\<exists>f. db_feed (xd_db y) = db_feed (xd_db x) @ [f] \<and> fr_id f = action \<and> fr_event f = e \<and>
       fr_changes f = [full_change \<lparr> chg_reg = rq_id q, chg_before = rr_value before, chg_after = after \<rparr>])"
proof -
  obtain row where row: "row \<in> set (db_regs (xd_db x))" "rr_id row = rq_id q" "rr_event row = e" "\<not> rr_deleted row"
    "with_evidence (xd_db x) (rr_value row) = Inr (rr_value before)"
    using find_registration_live [OF assms(4,5)] by blast
  have ids: "reg_id (rr_value before) = rq_id q" "reg_event (rr_value before) = e"
    using with_evidence_ids [OF row(5)] roster_invD(3) [OF assms(6) row(1)] row(2,3) by (simp_all add: mirrored_def)
  have only: "only_member (rq_id q) (xd_db x) (xd_db x1)" by (rule member_edit_only [OF assms(1-3)])
  then have regs: "db_regs (xd_db x1) = db_regs (xd_db x)" "db_scopes (xd_db x1) = db_scopes (xd_db x)" "db_feed (xd_db x1) = db_feed (xd_db x)"
    by (simp_all add: only_member_def)
  obtain m after d1 where a: "edited_registration (rr_value before) m (rq_field q) = Inr after"
    and put: "put_registration after (unique_heads (rr_heads before @ [action])) (mb_category m) (xd_db x1) = Inr d1"
    and pub: "publish_server_change e action ''chrono_desk.local_edit''
      [\<lparr> chg_reg = reg_id after, chg_before = rr_value before, chg_after = after \<rparr>] now d1 = Inr (xd_db y)"
    using publish_packet_Inr [OF assms(7)] by blast
  have after: "reg_id after = rq_id q" "reg_event after = e" using edited_registration_ids [OF a] ids by simp_all
  have unique: "z = row" if "z \<in> set (db_regs (xd_db x1))" "rr_id z = rq_id q" for z
    using that row(1,2) regs(1) roster_invD(2) [OF assms(6)] by (auto simp: distinct_map inj_on_def)
  have "put_registration after (unique_heads (rr_heads before @ [action])) (mb_category m) (hide (rq_id q) (xd_db x1)) = Inr d1"
    using put_hidden [OF put] unique row(3) after by auto
  then have "roster_inv d1" by (rule put_keeps) (rule only_member_hidden [OF only assms(6)])
  then have "roster_inv (xd_db y)" using publish_change_rows [OF pub] by (simp add: roster_inv_def)
  moreover have "db_regs (xd_db y) = update_where (\<lambda>z. rr_id z = rq_id q \<and> rr_event z = e)
      (\<lambda>z. z\<lparr> rr_value := after, rr_heads := unique_heads (rr_heads before @ [action]), rr_deleted := False \<rparr>) (db_regs (xd_db x))"
    using publish_change_rows(2) [OF pub] put_rows(1) [OF put] after regs(1) by simp
  moreover have "\<exists>f. db_feed (xd_db y) = db_feed (xd_db x) @ [f] \<and> fr_id f = action \<and> fr_event f = e \<and>
       fr_changes f = [full_change \<lparr> chg_reg = rq_id q, chg_before = rr_value before, chg_after = after \<rparr>]"
    using publish_change_rows(4) [OF pub] put_rows(3) [OF put] regs(3) after by simp
  moreover have "db_scopes (xd_db y) = db_scopes (xd_db x)"
    using publish_change_rows(3) [OF pub] put_rows(2) [OF put] regs(2) by simp
  ultimately show ?thesis using after row by blast
qed

text \<open>The edited member has no live registration: packet issuance is not installed for its event.\<close>

lemma unlisted_edit:
  assumes only: "only_member k (xd_db x) (xd_db x1)" and inv: "roster_inv (xd_db x)" and cov: "covered (xd_db x)"
    and m: "get_member (xd_db x) k = Inr m"
    and none: "\<And>sc. find_scope (xd_db x) (mb_event m) = Some sc \<Longrightarrow> sc_scope sc = []"
  shows "roster_inv (xd_db x1) \<and> covered (xd_db x1)"
proof -
  have mem: "m \<in> set (db_members (xd_db x))" "mb_id m = k" using get_member_Inr [OF m] by simp_all
  have dead: "rr_deleted z" if z: "z \<in> set (db_regs (xd_db x))" "rr_id z = k" for z
  proof (rule ccontr)
    assume "\<not> rr_deleted z"
    then obtain m' where "m' \<in> set (db_members (xd_db x))" "projects (rr_value z) m'"
      using roster_invD(3) [OF inv z(1)] by (auto simp: mirrored_def)
    moreover have "mb_id m' = k" "mb_event m' = rr_event z"
      using calculation(2) roster_invD(3) [OF inv z(1)] z(2) by (simp_all add: mirrored_def projects_def)
    ultimately have "mb_event m = rr_event z" using mem roster_invD(1) [OF inv] by (auto simp: distinct_map inj_on_def)
    then show False using none cov z(1) \<open>\<not> rr_deleted z\<close> by (auto simp: covered_def)
  qed
  have regs: "db_regs (xd_db x1) = db_regs (xd_db x)" "db_scopes (xd_db x1) = db_scopes (xd_db x)"
    using only by (simp_all add: only_member_def)
  have "z\<lparr> rr_deleted := True \<rparr> = z" if "rr_deleted z" for z :: reg_row using that by (cases z) simp
  then have "update_where (\<lambda>z. rr_id z = k) (\<lambda>z. z\<lparr> rr_deleted := True \<rparr>) (db_regs (xd_db x1)) = db_regs (xd_db x1)"
    using dead regs(1) unfolding update_where_def by (intro map_idI) auto
  then have "hide k (xd_db x1) = xd_db x1" by (simp add: hide_def)
  then show ?thesis using only_member_hidden [OF only inv] cov regs find_scope_cong [OF regs(2)] by (simp add: covered_def)
qed

text \<open>
  C22.  An edit never takes the participants apart from packet issuance: where every live registration belongs to an
  event with packet issuance installed, a successful edit of anything keeps every live registration mirrored by its
  member, and the ids unique.
\<close>

theorem edits_keep_mirror:
  assumes "apply_edit core action now q x = Inr (y, r)" and "roster_inv (xd_db x)" and "covered (xd_db x)"
  shows "roster_inv (xd_db y) \<and> covered (xd_db y)"
  using assms(1)
proof (rule edit_parts)
  fix spec v change x1
  assume v: "validate_edit q = Inr (spec, v)" and p: "prepare_packet q (xd_db x) = Inr change"
    and a: "apply_validated core now q spec v x = Inr x1" and pub: "publish_packet action now (rq_field q) change x1 = Inr y"
  show ?thesis
  proof (cases "rq_entity q = ''member'' \<and> rq_field q \<in> packet_fields")
    case False
    then have "change = None" using p by (auto simp: prepare_packet_def)
    then have y: "y = x1" using pub by (simp add: publish_packet_def)
    have same: "mirror_same (xd_db x) (xd_db x1)"
      by (rule other_edit_mirror [OF a v _ roster_invD(1) [OF assms(2)]]) (use False in blast)
    then show ?thesis using mirror_same_roster [OF same assms(2)] assms(3) find_scope_cong [of "xd_db x1" "xd_db x"]
      by (simp add: y covered_def mirror_same_def)
  next
    case True
    from p True [THEN conjunct1] True [THEN conjunct2] show ?thesis
    proof (cases rule: prepare_packet_Inr)
      case (alone m)
      then have y: "y = x1" using pub by (simp add: publish_packet_def)
      have only: "only_member (rq_id q) (xd_db x) (xd_db x1)" using member_edit_only [OF a v] True by simp
      show ?thesis unfolding y by (rule unlisted_edit [OF only assms(2,3) alone(1)]) (use alone(3) in auto)
    next
      case (installed m sc before)
      have "mb_id m = rq_id q" using get_member_Inr [OF installed(1)] by simp
      with installed(4) have find: "find_registration (xd_db x) (mb_event m) (rq_id q) = Inr (Some before)" by simp
      have member: "rq_entity q = ''member''" using True by simp
      obtain after where "roster_inv (xd_db y)" and scopes: "db_scopes (xd_db y) = db_scopes (xd_db x)"
        and regs: "db_regs (xd_db y) = update_where (\<lambda>z. rr_id z = rq_id q \<and> rr_event z = mb_event m)
          (\<lambda>z. z\<lparr> rr_value := after, rr_heads := unique_heads (rr_heads before @ [action]), rr_deleted := False \<rparr>) (db_regs (xd_db x))"
        using published_edit [OF a v member find installed(5) assms(2)] pub installed(6) by blast
      have "covered (xd_db y)"
        using assms(3) installed(2,3) find_scope_cong [OF scopes] unfolding covered_def regs
        by (fastforce simp: in_set_update_where split: if_splits)
      then show ?thesis using \<open>roster_inv (xd_db y)\<close> by blast
    qed
  qed
qed

text \<open>
  What is edited is what is published: an edit of a field of packet issuance, where it is installed, stores one new
  state of the participant's registration with the action among its heads, shows it in the member, and appends exactly
  one row to the feed, which carries the state before and this state.
\<close>

theorem edit_is_published:
  assumes "apply_edit core action now q x = Inr (y, r)" and "roster_inv (xd_db x)"
    and "rq_entity q = ''member''" and "rq_field q \<in> packet_fields" and "action \<noteq> []"
    and "get_member (xd_db x) (rq_id q) = Inr m" and "find_scope (xd_db x) (mb_event m) = Some sc" and "sc_scope sc \<noteq> []"
  shows "\<exists>before after row f. row \<in> set (db_regs (xd_db y)) \<and> rr_id row = rq_id q \<and> rr_value row = after \<and> action \<in> set (rr_heads row) \<and>
    \<not> rr_deleted row \<and> (\<exists>m' \<in> set (db_members (xd_db y)). projects after m') \<and>
    db_feed (xd_db y) = db_feed (xd_db x) @ [f] \<and> fr_id f = action \<and>
    fr_changes f = [full_change \<lparr> chg_reg = rq_id q, chg_before = before, chg_after = after \<rparr>]"
  using assms(1)
proof (rule edit_parts)
  fix spec v change x1
  assume v: "validate_edit q = Inr (spec, v)" and p: "prepare_packet q (xd_db x) = Inr change"
    and a: "apply_validated core now q spec v x = Inr x1" and pub: "publish_packet action now (rq_field q) change x1 = Inr y"
  obtain before where b: "find_registration (xd_db x) (mb_event m) (rq_id q) = Inr (Some before)" "\<not> rr_deleted before"
    "change = Some (mb_event m, before)"
    using p assms(3,4,6-8) get_member_Inr [OF assms(6)] by (auto simp: prepare_packet_def bind_res_Inr split: option.splits if_splits)
  obtain after where inv: "roster_inv (xd_db y)" and id: "reg_id after = rq_id q"
    and old: "\<exists>row \<in> set (db_regs (xd_db x)). rr_id row = rq_id q \<and> rr_event row = mb_event m"
    and regs: "db_regs (xd_db y) = update_where (\<lambda>z. rr_id z = rq_id q \<and> rr_event z = mb_event m)
      (\<lambda>z. z\<lparr> rr_value := after, rr_heads := unique_heads (rr_heads before @ [action]), rr_deleted := False \<rparr>) (db_regs (xd_db x))"
    and feed: "\<exists>f. db_feed (xd_db y) = db_feed (xd_db x) @ [f] \<and> fr_id f = action \<and> fr_event f = mb_event m \<and>
       fr_changes f = [full_change \<lparr> chg_reg = rq_id q, chg_before = rr_value before, chg_after = after \<rparr>]"
    using published_edit [OF a v assms(3) b(1,2) assms(2)] pub b(3) by blast
  obtain row where row: "row \<in> set (db_regs (xd_db x))" "rr_id row = rq_id q" "rr_event row = mb_event m" using old by blast
  let ?new = "row\<lparr> rr_value := after, rr_heads := unique_heads (rr_heads before @ [action]), rr_deleted := False \<rparr>"
  have new: "?new \<in> set (db_regs (xd_db y))" unfolding regs by (rule update_where_hit) (use row in simp_all)
  moreover have "\<exists>m' \<in> set (db_members (xd_db y)). projects after m'"
    using roster_invD(3) [OF inv new] by (simp add: mirrored_def)
  moreover have "action \<in> set (rr_heads ?new)" using assms(5) by (simp add: unique_heads_def)
  ultimately show ?thesis using row(2) feed by (intro exI [of _ "rr_value before"] exI [of _ after] exI [of _ ?new]) auto
qed

subsection \<open>A moved race start\<close>

lemma find_replaced_where: "List.find p rows = Some r \<Longrightarrow> p r' \<Longrightarrow> List.find p (update_where p (\<lambda>_. r') rows) = Some r'"
  by (induction rows) (auto simp: update_where_def split: if_splits)

lemma log_shifts_changes:
  "xd_changes (fold (log_shift now delta) ms x) = xd_changes x @ map (\<lambda>m. journal_row now ''member'' (mb_id m) ''start_time_ms''
     (sql_json (int_value (mb_start m))) (Some (sql_json (int_value (map_option (\<lambda>s. s + delta) (mb_start m)))))) ms"
  by (induction ms arbitrary: x) (simp_all add: log_shift_def log_start_def)

lemma race_members_cong: "db_members (xd_db y) = db_members (xd_db x) \<Longrightarrow> race_members y race = race_members x race"
  by (simp add: race_members_def)

lemma update_start_field:
  assumes "update_field w ''races'' ''started_at_ms'' k (V_Int t) x = Inr (y, old)"
    and "List.find (\<lambda>s. rp_race s = k) (xd_setups x) = Some s"
  shows "old = int_value (rp_started s) \<and> db_members (xd_db y) = db_members (xd_db x) \<and> xd_changes y = xd_changes x \<and>
    List.find (\<lambda>s. rp_race s = k) (xd_setups y) = Some (s\<lparr> rp_started := Some t \<rparr>)"
proof -
  have "rp_race s = k" using find_Some_iff' [OF assms(2)] by simp
  then have "List.find (\<lambda>s. rp_race s = k) (update_where (\<lambda>s. rp_race s = k) (\<lambda>_. s\<lparr> rp_started := Some t \<rparr>) (xd_setups x)) =
      Some (s\<lparr> rp_started := Some t \<rparr>)"
    by (intro find_replaced_where [OF assms(2)]) simp
  then show ?thesis using assms
    by (auto simp: update_field_def update_race_field_def write_row_def with_race_cell_def race_cell_def as_int_def bind_res_Inr signalled_def)
qed

text \<open>
  A moved start moves the field: when the start of a race is moved and its assigned starts follow, exactly the
  participants of the race with a start that was not measured are moved by the same difference, so that gaps between
  starts stay, and the journal gets the move of the race and then each of theirs, in the order of their ids.
\<close>

theorem start_move_moves_field:
  assumes "apply_edit core action now q x = Inr (y, r)" and "rq_entity q = ''race''" and "rq_field q = ''started_at_ms''"
    and "rq_value q = Some (JNumber t)" and "json_int t = Inr new"
    and "List.find (\<lambda>s. rp_race s = rq_id q) (xd_setups x) = Some s" and "rp_started s = Some old" and "rp_shift s = 1" and "new \<noteq> old"
  shows "r \<and> db_members (xd_db y) = update_where (moves_with_race (rq_id q)) (shifted (new - old)) (db_members (xd_db x)) \<and>
    xd_changes y = xd_changes x @ journal_row now ''race'' (rq_id q) ''started_at_ms'' (JNumber (format_int old)) (Some (JNumber t)) #
      map (\<lambda>m. journal_row now ''member'' (mb_id m) ''start_time_ms'' (sql_json (int_value (mb_start m)))
          (Some (sql_json (int_value (map_option (\<lambda>s. s + (new - old)) (mb_start m))))))
        (filter (moves_with_race (rq_id q)) (race_members x (rq_id q)))"
proof -
  have nonempty: "rq_id q \<noteq> []" using assms(1) edit_parts validate_edit_Inr(4) by metis
  have v: "validate_edit q = Inr (editable_int ''races'' True, V_Int new)"
    using assms(2-5) nonempty by (simp add: validate_edit_def edit_whitelist_def editable_int_def decode_edit_def)
  have pol: "prepare_policy now q (V_Int new) x = Inr x" by (simp add: prepare_policy_def assms(2,3))
  have prov: "set_provenance q (V_Int new) z = Inr z" "follow_category core now q z = Inr z" for z
    by (simp_all add: set_provenance_def follow_category_def assms(2))
  have jour: "journal (journal_row now ''race'' (rq_id q) f a b) z = Inr (z\<lparr> xd_changes := xd_changes z @ [journal_row now ''race'' (rq_id q) f a b] \<rparr>)" for f a b z
    by (simp add: journal_def journal_row_def)
  have pub: "prepare_packet q (xd_db x) = Inr None" "publish_packet action now f None z = Inr z" for f z
    by (simp_all add: prepare_packet_def publish_packet_def assms(2))
  obtain x2 was where u: "update_field (xc_window core) ''races'' ''started_at_ms'' (rq_id q) (V_Int new) x = Inr (x2, was)"
    and t: "shift_field now q (V_Int new) was (x2\<lparr> xd_changes := xd_changes x2 @
      [journal_row now ''race'' (rq_id q) ''started_at_ms'' (sql_json was) (Some (JNumber t))] \<rparr>) = Inr y" and r
    using assms(1) by (auto simp: apply_edit_def v pub apply_validated_def pol prov jour bind_res_Inr assms(2-4) editable_int_def)
  note field = update_start_field [OF u assms(6)]
  let ?x4 = "x2\<lparr> xd_changes := xd_changes x @
      [journal_row now ''race'' (rq_id q) ''started_at_ms'' (JNumber (format_int old)) (Some (JNumber t))] \<rparr>"
  have was: "was = V_Int old" using field assms(7) by (simp add: int_value_def)
  have "y = shift_starts now (rq_id q) (new - old) ?x4"
    using t field assms(8) by (auto simp: shift_field_def was sql_json_def assms(2,3) read_race_def bind_res_Inr split: option.splits if_splits)
  moreover have members: "race_members ?x4 (rq_id q) = race_members x (rq_id q)" using field by (intro race_members_cong) simp
  moreover have "update_where (moves_with_race (rq_id q)) (shifted (new - old)) (db_members (xd_db x)) = db_members (xd_db x)"
    if "filter (moves_with_race (rq_id q)) (race_members x (rq_id q)) = []"
  proof -
    have "\<not> moves_with_race (rq_id q) m" if "m \<in> set (db_members (xd_db x))" for m
      using that \<open>filter (moves_with_race (rq_id q)) (race_members x (rq_id q)) = []\<close>
      by (auto simp: filter_empty_conv race_members_set moves_with_race_def)
    then show ?thesis unfolding update_where_def by (intro map_idI) auto
  qed
  ultimately show ?thesis using field assms(9) \<open>r\<close>
    by (simp add: shift_starts_def Let_def log_shifts_changes change_members_def with_members_def signalled_def)
qed

end
