(* ===== verification/EditWitnesses.thy ===== *)
theory EditWitnesses
  imports EditProps ReceiverWitnesses
begin

section \<open>Edits on a small event\<close>

text \<open>
  One race with assigned starts whose start is moved, and a participant of an event with packet issuance who does not
  start; and the properties of edits applied to them.
\<close>

definition edit_env :: edit_core where
  "edit_env = \<lparr> xc_age = w_age, xc_window = (\<lambda>_. True) \<rparr>"

definition race_line :: race_setup where
  "race_line = \<lparr> rp_race = ''r'', rp_name = ''run'', rp_format = ''FixedDistance'', rp_started = Some 5, rp_basis = ''legacy'', rp_shift = 1,
     rp_excludes = 0 \<rparr>"

definition edit_state :: "db \<Rightarrow> edit_db" where
  "edit_state d = \<lparr> xd_db = d, xd_setups = [race_line], xd_checkpoints = [], xd_results = [], xd_disabled = [], xd_changes = [] \<rparr>"

definition runner :: member where
  "runner = blank_member\<lparr> mb_id := ''m'', mb_event := ''e'', mb_race := ''r'', mb_start := Some 6, mb_start_source := ''manual'' \<rparr>"

definition starting_db :: db where
  "starting_db = w_db\<lparr> db_races := [\<lparr> rc_id = ''r'', rc_event = ''e'', rc_date = ''2025-05-01'' \<rparr>], db_members := [runner], db_scopes := [] \<rparr>"

definition later :: edit_request where
  "later = \<lparr> rq_confirm = False, rq_entity = ''race'', rq_id = ''r'', rq_field = ''started_at_ms'', rq_value = Some (JNumber ''8'') \<rparr>"

definition moved_state :: edit_db where
  "moved_state = (edit_state (starting_db\<lparr> db_members := [shifted 3 runner], db_dirty := True \<rparr>))\<lparr>
     xd_setups := [race_line\<lparr> rp_started := Some 8 \<rparr>],
     xd_changes := [journal_row 9 ''race'' ''r'' ''started_at_ms'' (JNumber ''5'') (Some (JNumber ''8'')),
       journal_row 9 ''member'' ''m'' ''start_time_ms'' (JNumber ''6'') (Some (JNumber ''9''))] \<rparr>"

lemma small_numbers: "format_int 5 = ''5''" "format_int 6 = ''6''" "format_int 9 = ''9''" "json_int ''8'' = Inr 8" "json_int ''1'' = Inr 1"
proof -
  show "format_int 5 = ''5''" "format_int 6 = ''6''" "format_int 9 = ''9''" by code_simp+
  have "format_int 8 = ''8''" "format_int 1 = ''1''" by code_simp+
  then show "json_int ''8'' = Inr 8" "json_int ''1'' = Inr 1"
    using json_int_format [of 8] json_int_format [of 1] by (simp_all add: exact_int_def)
qed

lemma later_valid: "validate_edit later = Inr (editable_int ''races'' True, V_Int 8)"
  by (simp add: later_def validate_edit_def edit_whitelist_def editable_int_def decode_edit_def small_numbers)

lemma runner_moves: "moves_with_race ''r'' runner"
  by (simp add: moves_with_race_def runner_def measured_def blank_member_def)

lemma line_shift: "rp_shift race_line = 1"
  by (simp add: race_line_def)

lemma later_applied: "apply_edit edit_env w_uuid 9 later (edit_state starting_db) = Inr (moved_state, True)"
proof -
  let ?x = "edit_state starting_db"
  let ?x1 = "(edit_state (starting_db\<lparr> db_dirty := True \<rparr>))\<lparr> xd_setups := [race_line\<lparr> rp_started := Some 8 \<rparr>] \<rparr>"
  let ?c = "journal_row 9 ''race'' ''r'' ''started_at_ms'' (JNumber ''5'') (Some (JNumber ''8''))"
  have u: "update_field (xc_window edit_env) ''races'' ''started_at_ms'' ''r'' (V_Int 8) ?x = Inr (?x1, V_Int 5)"
    by (simp add: update_field_def update_race_field_def write_row_def edit_state_def race_line_def with_race_cell_def race_cell_def
        as_int_def int_value_def signalled_def update_where_def)
  have race: "read_race (?x1\<lparr> xd_changes := [?c] \<rparr>) ''r'' =
      Inr (\<lparr> rc_id = ''r'', rc_event = ''e'', rc_date = ''2025-05-01'' \<rparr>, race_line\<lparr> rp_started := Some 8 \<rparr>)"
    by (simp add: read_race_def get_race_def edit_state_def starting_db_def race_line_def is_flag_def)
  have ms: "race_members (?x1\<lparr> xd_changes := [?c] \<rparr>) ''r'' = [runner]"
    by (simp add: race_members_def edit_state_def starting_db_def) (simp add: runner_def)
  have shift: "shift_starts 9 ''r'' 3 (?x1\<lparr> xd_changes := [?c] \<rparr>) = moved_state"
    by (simp add: shift_starts_def ms runner_moves log_shift_def log_start_def)
      (simp add: moved_state_def change_members_def with_members_def signalled_def edit_state_def starting_db_def update_where_def runner_moves
        small_numbers sql_json_def int_value_def, simp add: runner_def small_numbers)
  have fields: "rq_entity later = ''race''" "rq_field later = ''started_at_ms''" "rq_id later = ''r''" "rq_value later = Some (JNumber ''8'')"
    by (simp_all add: later_def)
  have jour: "journal ?c ?x1 = Inr (?x1\<lparr> xd_changes := [?c] \<rparr>)"
    by (simp add: journal_def journal_row_def edit_state_def)
  have row: "sql_json (V_Int 5) = JNumber ''5''" by (simp add: sql_json_def small_numbers)
  have "set_provenance later (V_Int 8) ?x1 = Inr ?x1" "follow_category edit_env 9 later z = Inr z" "prepare_policy 9 later (V_Int 8) ?x = Inr ?x" for z
    by (simp_all add: set_provenance_def follow_category_def prepare_policy_def fields)
  moreover have "shift_field 9 later (V_Int 8) (V_Int 5) (?x1\<lparr> xd_changes := [?c] \<rparr>) = Inr moved_state"
    using shift by (simp add: shift_field_def fields race line_shift)
  ultimately have "apply_validated edit_env 9 later (editable_int ''races'' True) (V_Int 8) ?x = Inr moved_state"
    using u by (simp only: apply_validated_def editable_int_def editable.simps fields row bind_res_simps prod.case jour)
  then show ?thesis
    by (simp add: apply_edit_def later_valid prepare_packet_def publish_packet_def fields editable_int_def)
qed

lemma starting_plain: "plain (edit_state starting_db)" "starts_exact (edit_state starting_db)"
  by (simp_all add: plain_def starts_exact_def edit_state_def starting_db_def runner_def exact_int_def)

lemma later_step: "judge_step edit_env (\<lambda>_. JNull) (edit_state starting_db) moved_state"
proof (rule judge_step.edit [OF later_applied])
  show "starts_exact moved_state"
    by (simp add: starts_exact_def moved_state_def edit_state_def shifted_def set_start_def runner_def exact_int_def)
qed

theorem journal_is_complete_witness:
  "\<exists>y. reapply_edits (\<lambda>_. True) ((edit_state starting_db)\<lparr> xd_changes := xd_changes moved_state \<rparr>) = Inr (y, 2) \<and>
    vary False [] y = vary False [] moved_state"
proof -
  have e: "xd_changes (edit_state starting_db) = []" and facts: "length (xd_changes moved_state) = 2" "xc_window edit_env = (\<lambda>_. True)"
    by (simp_all add: edit_state_def moved_state_def edit_env_def)
  have run: "(judge_step edit_env (\<lambda>_. JNull))\<^sup>*\<^sup>* (edit_state starting_db) moved_state"
    using later_step by (rule r_into_rtranclp)
  show ?thesis using journal_is_complete [OF starting_plain e run] by (simp add: facts)
qed

theorem start_move_moves_field_witness: "db_members (xd_db moved_state) = [shifted 3 runner]"
proof -
  have fields: "rq_entity later = ''race''" "rq_field later = ''started_at_ms''" "rq_id later = ''r''" "rq_value later = Some (JNumber ''8'')"
    by (simp_all add: later_def)
  have line: "List.find (\<lambda>s. rp_race s = rq_id later) (xd_setups (edit_state starting_db)) = Some race_line" "rp_started race_line = Some 5"
    by (simp_all add: edit_state_def fields race_line_def)
  show ?thesis
    using start_move_moves_field [OF later_applied fields(1,2,4) small_numbers(4) line line_shift] runner_moves
    by (simp add: fields update_where_def edit_state_def starting_db_def)
qed

subsection \<open>A participant who does not start\<close>

definition absent :: edit_request where
  "absent = \<lparr> rq_confirm = False, rq_entity = ''member'', rq_id = ''1'', rq_field = ''status'', rq_value = Some (JNumber ''1'') \<rparr>"

definition w_absent :: registration where
  "w_absent = w_moved\<lparr> reg_status := ''dns'' \<rparr>"

definition absent_member :: member where
  "absent_member = w_member\<lparr> mb_status := 1 \<rparr>"

lemma absent_fields [simp]:
  "rq_entity absent = ''member''" "rq_field absent = ''status''" "rq_id absent = ''1''" "rq_value absent = Some (JNumber ''1'')"
  by (simp_all add: absent_def)

lemma absent_valid: "validate_edit absent = Inr (editable_int ''members'' False, V_Int 1)"
  by (simp add: validate_edit_def edit_whitelist_def editable_int_def decode_edit_def small_numbers)

lemma w_recv_tables: "db_members w_recv = [w_member]" "db_scopes w_recv = [\<lparr> sc_event = ''e'', sc_scope = ''site:1:e'', sc_baseline = ''b'',
    sc_source = ''s'', sc_installed = 1, sc_cursor = ''0'' \<rparr>]"
  "db_regs w_recv = [\<lparr> rr_id = ''1'', rr_event = ''e'', rr_value = w_moved, rr_heads = [], rr_deleted = False \<rparr>]"
  "db_races w_recv = [\<lparr> rc_id = ''r'', rc_event = ''e'', rc_date = ''2025-05-01'' \<rparr>]"
  by (simp_all add: w_recv_def w_db_def)

lemma absent_prepared: "prepare_packet absent w_recv =
    Inr (Some (''e'', \<lparr> rr_id = ''1'', rr_event = ''e'', rr_value = w_moved, rr_heads = [], rr_deleted = False \<rparr>))"
proof -
  have "with_evidence w_recv w_moved = Inr w_moved"
    using w_member_fields by (simp add: with_evidence_def timing_evidence_def w_moved_fields w_recv_tables)
  then show ?thesis
    by (simp add: prepare_packet_def packet_fields_def get_member_def w_recv_tables w_member_fields find_scope_def find_registration_def
        find_reg_def)
qed

lemma absent_written: "\<exists>x1. apply_validated edit_env 9 absent (editable_int ''members'' False) (V_Int 1) (edit_state w_recv) = Inr x1 \<and>
    xd_db x1 = w_recv\<lparr> db_members := [absent_member], db_dirty := True \<rparr> \<and> xd_setups x1 = [race_line]"
proof -
  have "update_member_field ''status'' ''1'' (V_Int 1) (edit_state w_recv) =
      Inr (edit_state (w_recv\<lparr> db_members := [absent_member], db_dirty := True \<rparr>), V_Int (mb_status w_member))"
    by (simp add: update_member_field_def write_row_def edit_state_def w_recv_tables w_member_fields with_member_cell_def need_int_def
        update_where_def signalled_def with_members_def member_cell_def absent_member_def)
  then have "update_field w ''members'' ''status'' ''1'' (V_Int 1) (edit_state w_recv) =
      Inr (edit_state (w_recv\<lparr> db_members := [absent_member], db_dirty := True \<rparr>), V_Int (mb_status w_member))" for w
    by (simp add: update_field_def)
  then show ?thesis
    by (simp add: apply_validated_def prepare_policy_def editable_int_def set_provenance_def journal_def follow_category_def shift_field_def)
      (simp add: journal_row_def edit_state_def)
qed

lemma w_absent_ids: "reg_id w_absent = ''1''" "reg_event w_absent = ''e''" "reg_race w_absent = ''r''"
  by (simp_all add: w_absent_def w_moved_fields)

lemma absent_registration: "edited_registration w_moved absent_member ''status'' = Inr w_absent"
proof -
  have "validate_registration w_absent = Inr ()"
    using w_person_valid
    by (simp add: w_absent_def w_moved_def validate_registration_iff w_source_def zero_registration_def valid_status_def
        identifier_pattern_def is_lower_def is_digit_def byte_of_def)
  then show ?thesis by (simp add: edited_registration_def absent_member_def map_status_def person_fields_def w_absent_def Let_def)
qed

lemma absent_put: "\<exists>d1. put_registration w_absent [w_uuid] None (w_recv\<lparr> db_members := [absent_member], db_dirty := True \<rparr>) = Inr d1 \<and>
    db_events d1 = db_events w_recv \<and> db_feed d1 = [] \<and> db_heads d1 = []"
proof -
  have "mb_id absent_member = ''1''" "mb_event absent_member = ''e''" by (simp_all add: absent_member_def w_member_fields)
  moreover have "member_refs (w_recv\<lparr> db_members := ms, db_dirty := b \<rparr>) (registration_member w_absent None)" for ms b
    by (simp add: member_refs_def w_absent_ids event_exists_def w_recv_tables w_tables registration_member_cat)
  ultimately show ?thesis by (simp add: put_registration_def Let_def w_absent_ids count_where_Cons w_tables)
qed

lemma absent_published:
  assumes "db_events d = db_events w_recv" and "db_feed d = []" and "db_heads d = []"
  shows "\<exists>d2. publish_server_change ''e'' w_uuid ''chrono_desk.local_edit'' [ch] now d = Inr d2"
  using assms w_uuid_pattern
  by (simp add: publish_server_change_def append_feed_def ensure_head_def find_head_def feed_head_def feed_row_allowed_def feed_kinds_def
      feed_outcomes_def event_exists_def w_tables Let_def)

lemma absent_applied: "\<exists>y. apply_edit edit_env w_uuid 9 absent (edit_state w_recv) = Inr (y, False)"
proof -
  obtain x1 where x1: "apply_validated edit_env 9 absent (editable_int ''members'' False) (V_Int 1) (edit_state w_recv) = Inr x1"
    "xd_db x1 = w_recv\<lparr> db_members := [absent_member], db_dirty := True \<rparr>" "xd_setups x1 = [race_line]"
    using absent_written by blast
  obtain d1 where d1: "put_registration w_absent [w_uuid] None (xd_db x1) = Inr d1"
    "db_events d1 = db_events w_recv" "db_feed d1 = []" "db_heads d1 = []"
    using absent_put x1(2) by auto
  obtain d2 where d2: "publish_server_change ''e'' w_uuid ''chrono_desk.local_edit''
      [\<lparr> chg_reg = ''1'', chg_before = w_moved, chg_after = w_absent \<rparr>] 9 d1 = Inr d2"
    using absent_published [OF d1(2-4)] by blast
  have m: "get_member (xd_db x1) ''1'' = Inr absent_member" "mb_race absent_member = ''r''" "mb_event absent_member = ''e''" "mb_category absent_member = None"
    by (simp_all add: x1(2) get_member_def absent_member_def w_member_fields) (simp add: w_member_def w_moved_fields)
  have race: "read_race x1 ''r'' = Inr (\<lparr> rc_id = ''r'', rc_event = ''e'', rc_date = ''2025-05-01'' \<rparr>, race_line)"
    by (simp add: read_race_def get_race_def x1(2,3) w_recv_tables race_line_def is_flag_def)
  have heads: "unique_heads [w_uuid] = [w_uuid]" by (simp add: unique_heads_def w_uuid_def)
  have "\<exists>y. publish_packet w_uuid 9 ''status''
      (Some (''e'', \<lparr> rr_id = ''1'', rr_event = ''e'', rr_value = w_moved, rr_heads = [], rr_deleted = False \<rparr>)) x1 = Inr y"
    by (simp add: publish_packet_def w_moved_fields m race absent_registration heads d1(1) w_absent_ids d2)
  then show ?thesis
    using absent_prepared x1(1) by (auto simp: apply_edit_def absent_valid edit_state_def editable_int_def)
qed

theorem edits_keep_mirror_witness:
  "\<exists>y. apply_edit edit_env w_uuid 9 absent (edit_state w_recv) = Inr (y, False) \<and> roster_inv (xd_db y)"
proof -
  obtain y where y: "apply_edit edit_env w_uuid 9 absent (edit_state w_recv) = Inr (y, False)" using absent_applied by blast
  have "roster_inv (xd_db (edit_state w_recv))" "covered (xd_db (edit_state w_recv))"
    by (simp_all add: edit_state_def w_roster_inv covered_def w_recv_tables find_scope_def)
  from edits_keep_mirror [OF y this] show ?thesis using y by blast
qed

theorem edit_is_published_witness:
  "\<exists>y f. apply_edit edit_env w_uuid 9 absent (edit_state w_recv) = Inr (y, False) \<and> db_feed (xd_db y) = [f] \<and> fr_id f = w_uuid"
proof -
  obtain y where y: "apply_edit edit_env w_uuid 9 absent (edit_state w_recv) = Inr (y, False)" using absent_applied by blast
  have "roster_inv (xd_db (edit_state w_recv))" "rq_field absent \<in> packet_fields" "w_uuid \<noteq> []"
    "get_member (xd_db (edit_state w_recv)) (rq_id absent) = Inr w_member" "db_feed (xd_db (edit_state w_recv)) = []"
    "find_scope (xd_db (edit_state w_recv)) (mb_event w_member) = Some (hd (db_scopes w_recv))" "sc_scope (hd (db_scopes w_recv)) \<noteq> []"
    by (simp_all add: edit_state_def w_roster_inv w_recv_tables find_scope_def packet_fields_def w_uuid_def get_member_def w_member_fields w_tables)
  then show ?thesis using edit_is_published [OF y _ absent_fields(1), of w_member "hd (db_scopes w_recv)"] y by auto
qed

end
