(* ===== verification/LinkWitnesses.thy ===== *)
theory LinkWitnesses
  imports ClubProps EditWitnesses SiteWitnesses
begin

section \<open>An exchange with a small site\<close>

text \<open>
  One participant, one operation that waits for the site and one club edit that depends on it; a site that accepts all it
  is sent; and the properties of the exchange at this desk.
\<close>

definition w_owner :: string where
  "w_owner = [CHR 0x22, CHR ''p'', CHR ''1'', CHR 0x22]"

definition w_affiliation :: club_operation where
  "w_affiliation = \<lparr> cm_schema = 1, cm_id = w_uuid, cm_scope = ''site:1:e'', cm_origin = w_uuid, cm_registration = ''1'',
     cm_person = w_owner, cm_club = ''null'' \<rparr>"

definition w_codec :: club_codec where
  "w_codec = \<lparr> cd_read = (\<lambda>_. Some w_affiliation), cd_write = (\<lambda>_. ''{}''),
     cd_value = (\<lambda>s. Some (if s = w_owner then JText ''p1'' else JNull)), cd_text = (\<lambda>_. w_owner) \<rparr>"

definition w_unsent :: op_row where
  "w_unsent = \<lparr> or_id = w_uuid, or_event = ''e'', or_scope = ''site:1:e'', or_baseline = ''b'', or_origin = w_uuid, or_sequence = 1,
     or_hash = content_hash w_sha w_op, or_op = w_op, or_outcome = ''applied'', or_code = None, or_recorded = 5,
     or_acked = False, or_site_outcome = None, or_site_code = None, or_attempts = 0 \<rparr>"

definition w_link :: link where
  "w_link = \<lparr> ln_desk = edit_state (w_recv\<lparr> db_ops := [w_unsent] \<rparr>), ln_outbox = [], ln_counter = 0, ln_receipts = [] \<rparr>"

definition w_waiting_edit :: club_edit where
  "w_waiting_edit = \<lparr> ce_sequence = 1, ce_operation = w_uuid, ce_event = ''e'', ce_scope = ''site:1:e'', ce_body = ''{}'',
     ce_heads = [w_uuid], ce_change = 1, ce_acked = False, ce_outcome = None, ce_code = None, ce_attempts = 0, ce_next = 0 \<rparr>"

definition w_accepted :: "operation \<Rightarrow> receipt_wire" where
  "w_accepted op = \<lparr> wr_operation = op_id op, wr_hash = content_hash w_sha op, wr_outcome = ''applied'', wr_known = Some False,
     wr_code = Some JNull \<rparr>"

definition w_last_json :: json where
  "w_last_json = JObject
     [(''actions'', JList []),
      (''cursor'', JObject [(''after'', JText ''0''), (''hasMore'', JBool False), (''head'', JText ''0''), (''next'', JText ''0'')]),
      (''schemaVersion'', JNumber ''1''), (''scopeId'', JText ''site:1:e'')]"

definition w_snapshot_clubs :: affiliations_wire where
  "w_snapshot_clubs = \<lparr> ws_schema = Some 1, ws_scope = ''site:1:e'',
     ws_affiliations = Some [\<lparr> wa_registration = ''1'', wa_person = w_owner, wa_club = ''null'' \<rparr>] \<rparr>"

definition w_site :: "unit site_env" where
  "w_site = \<lparr> st_codec = w_codec, st_sha = w_sha, st_age = w_age, st_path = (\<lambda>_. Some ''/relays/1''), st_payload = (\<lambda>_. 0),
     st_clock = (\<lambda>_. 5), st_enroll = (\<lambda>_ _ _ _ _ s. (Unreachable, s)), st_bootstrap = (\<lambda>_ _ s. (Unreachable, s)),
     st_operations = (\<lambda>_ _ ops s. (Reply \<lparr> wb_schema = Some 1, wb_receipts = map w_accepted ops \<rparr>, s)),
     st_feed = (\<lambda>_ _ _ s. (Reply w_last_json, s)),
     st_club = (\<lambda>_ _ _ s. (Reply \<lparr> wc_schema = Some 1, wc_operation = w_uuid, wc_outcome = ''applied'', wc_code = Some JNull,
       wc_known = Some False \<rparr>, s)),
     st_affiliations = (\<lambda>_ _ s. (Reply w_snapshot_clubs, s)) \<rparr>"

definition w_relay :: relay_row where
  "w_relay = \<lparr> ry_event = ''e'', ry_site = ''https://s'', ry_desk = w_uuid, ry_credential = ''k'', ry_relay = w_uuid,
     ry_api = ''https://s'', ry_scope = ''site:1:e'', ry_expires = [], ry_enrolled = Some 1 \<rparr>"

lemma w_site_fields:
  "st_codec w_site = w_codec" "st_sha w_site = w_sha" "st_age w_site = w_age" "st_payload w_site ops = 0" "st_clock w_site s = 5"
  "st_operations w_site u c ops s = (Reply \<lparr> wb_schema = Some 1, wb_receipts = map w_accepted ops \<rparr>, s)"
  "st_feed w_site u c k s = (Reply w_last_json, s)"
  by (simp_all add: w_site_def)

lemma w_relay_fields:
  "relay_of [w_relay] ''e'' = Some w_relay" "configured w_relay" "ry_event w_relay = ''e''" "ry_scope w_relay = ''site:1:e''"
  by (simp_all add: w_relay_def relay_of_def configured_def w_uuid_def)

lemma w_relay_url: "\<exists>url. relay_url w_site (ry_api w_relay) suffix = Inr url"
proof -
  have "trim_slashes (trim_space ''https://s'') = ''https://s''" by code_simp
  then have "bounded_url w_site (trim_slashes (trim_space (ry_api w_relay)))"
    by (simp add: w_relay_def bounded_url_def w_site_def)
  then show ?thesis by (simp add: relay_url_def)
qed

lemma w_codec_reads:
  "cd_read w_codec s = Some w_affiliation" "read_owner w_codec w_owner = Inr (Some ''p1'')" "read_club w_codec ''null'' = Inr None"
  "read_owner w_codec (cm_person w_affiliation) = Inr (Some ''p1'')"
proof -
  have "runes_of ''null'' \<noteq> None" by code_simp
  moreover have "paired_surrogates ''null''" by (simp add: paired_surrogates.simps)
  ultimately show "read_club w_codec ''null'' = Inr None"
    by (simp add: read_club_def w_codec_def w_owner_def decode_club_def)
  show "cd_read w_codec s = Some w_affiliation" "read_owner w_codec w_owner = Inr (Some ''p1'')"
    "read_owner w_codec (cm_person w_affiliation) = Inr (Some ''p1'')"
    by (simp_all add: w_codec_def read_owner_def w_affiliation_def)
qed

lemma w_link_fields:
  "link_db w_link = w_recv\<lparr> db_ops := [w_unsent] \<rparr>" "ln_outbox w_link = []" "ln_receipts w_link = []"
  by (simp_all add: w_link_def edit_state_def)

lemma w_link_scope: "scope_of (link_db w_link) ''e'' = ''site:1:e''"
  using w_scope by (simp add: w_link_fields scope_of_def find_scope_def)

lemma w_link_ok: "journal_ok (link_db w_link)" "hashes_ok w_sha (link_db w_link)" "link_ok w_link"
  using w_op_fields by (simp_all add: journal_ok_def hashes_ok_def link_ok_def w_link_fields w_unsent_def)

lemma w_unsent_ops: "unsent_ops (link_db w_link) ''e'' = [w_unsent]"
  by (simp add: unsent_ops_def w_link_fields unsent_def) (simp add: w_unsent_def)

subsection \<open>Operations and the feed\<close>

lemma w_settles: "settles_all w_site w_relay"
  unfolding settles_all_def
proof -
  obtain url where "relay_url w_site (ry_api w_relay) ''/operations'' = Inr url" using w_relay_url by blast
  moreover have "list_all2 (settling_receipt w_sha) ops (map w_accepted ops)" for ops
    by (induction ops) (auto simp: settling_receipt_def w_accepted_def final_outcome_def)
  ultimately show "\<exists>url. relay_url w_site (ry_api w_relay) ''/operations'' = Inr url \<and>
     (\<forall>ops s. ops \<noteq> [] \<and> length ops \<le> 64 \<longrightarrow> st_payload w_site ops \<le> 1048576 \<and>
        (\<exists>ws s'. st_operations w_site url (ry_credential w_relay) ops s = (Reply \<lparr> wb_schema = Some 1, wb_receipts = ws \<rparr>, s') \<and>
           list_all2 (settling_receipt (st_sha w_site)) ops ws))"
    by (simp add: w_site_fields)
qed

theorem operations_reach_site_witness:
  "\<exists>r. sync_operations w_site [w_relay] ''e'' w_link () = (r, None) \<and> unsent_ops (link_db (rn_link r)) ''e'' = [] \<and>
    tt_accepted (rn_totals r) = 1"
proof -
  have "pending_clubs ''e'' w_link = []" by (simp add: pending_clubs_def w_link_fields)
  from operations_reach_site [OF w_settles w_relay_fields(1,2) this w_link_ok(1), of "()"] show ?thesis
    using w_link_ok(2) by (simp add: w_unsent_ops w_site_fields)
qed

lemma w_last_parsed: "\<exists>p. parse_feed_page w_last_json ''site:1:e'' ''0'' = Inr p \<and> cur_next (page_cursor p) = ''0'' \<and>
    cur_after (page_cursor p) = ''0'' \<and> page_scope p = ''site:1:e'' \<and> \<not> cur_more (page_cursor p) \<and> page_actions p = []"
proof -
  have "read_feed_cursor (JText ''0'') = Some (''0'', 0)"
    by (simp add: read_feed_cursor_def canonical_cursor_pattern_def parse_int_def is_digit_def byte_of_def
        digits_value_def digit_value_def)
  moreover have "feed_event_id ''site:1:e'' \<noteq> []"
    by (simp add: feed_event_id_def identifier_pattern_def is_lower_def byte_of_def)
  ultimately show ?thesis
    by (simp add: parse_feed_page_def w_last_json_def parse_cursor_def exact_keys_def field_def parse_int_def
        is_digit_def byte_of_def digits_value_def digit_value_def)
qed

lemma w_followed: "\<exists>d t. sync_feed w_site [w_relay] ''e'' w_recv () = ((d, (), t), None) \<and> \<not> ft_rebased t"
proof -
  obtain p where p: "parse_feed_page w_last_json ''site:1:e'' ''0'' = Inr p" "cur_next (page_cursor p) = ''0''"
    "cur_after (page_cursor p) = ''0''" "page_scope p = ''site:1:e''" "\<not> cur_more (page_cursor p)" "page_actions p = []"
    using w_last_parsed by blast
  have cursor: "site_cursor w_recv ''e'' = ''0''" by (simp add: site_cursor_def find_scope_def w_recv_def w_db_def)
  obtain url where url: "relay_url w_site (ry_api w_relay) ''/feed'' = Inr url" using w_relay_url by blast
  have pull: "pull_feed w_site w_relay ''site:1:e'' ''0'' () = (Page p, ())"
    by (simp add: pull_feed_def url w_site_fields p(1))
  have "\<exists>d. apply_page w_sha w_age ''e'' p w_recv = Inr (d, [])"
    using w_scope cursor p
    by (simp add: apply_page_def advance_cursor_def Let_def) (simp add: w_recv_def w_db_def count_where_Cons)
  then obtain d where d: "apply_page w_sha w_age ''e'' p w_recv = Inr (d, [])" by blast
  have "\<exists>t. feed_turn w_site w_relay (w_recv, (), no_feed) = ((d, (), t), Ended None) \<and> \<not> ft_rebased t"
    using d pull p(5) w_scope cursor
    by (auto simp: feed_turn_def roster_installed_def w_relay_fields w_site_fields no_feed_def count_applications_def)
  then obtain t where t: "feed_turn w_site w_relay (w_recv, (), no_feed) = ((d, (), t), Ended None)" "\<not> ft_rebased t" by blast
  then have "feed_turns (Suc 99) w_site w_relay (w_recv, (), no_feed) = ((d, (), t), None)"
    by (subst feed_turns.simps) simp
  moreover have "Suc 99 = 100" by simp
  ultimately have "sync_feed w_site [w_relay] ''e'' w_recv () = ((d, (), t), None)"
    by (simp add: sync_feed_def w_relay_fields)
  with t(2) show ?thesis by blast
qed

theorem feed_catches_up_witness:
  "\<exists>d t. sync_feed w_site [w_relay] ''e'' w_recv () = ((d, (), t), None) \<and>
     (\<exists>ps :: feed_page list. ps \<noteq> [] \<and> site_cursor d ''e'' = cur_next (page_cursor (last ps)))"
proof -
  obtain d t where d: "sync_feed w_site [w_relay] ''e'' w_recv () = ((d, (), t), None)" "\<not> ft_rebased t" using w_followed by blast
  have inv: "site_rows_inv w_recv" by (simp add: site_rows_inv_def w_clubbed_tables)
  have id: "feed_event_id (ry_scope w_relay) = ''e''"
    by (simp add: w_relay_fields feed_event_id_def identifier_pattern_def is_lower_def byte_of_def)
  from feed_catches_up [OF d(1) w_relay_fields(1,2) d(2) inv id]
  have "\<exists>ps :: feed_page list. ps \<noteq> [] \<and> site_cursor d ''e'' = cur_next (page_cursor (last ps))"
    by (rule ex_forward) (elim conjE, intro conjI)
  with d(1) show ?thesis by blast
qed

subsection \<open>A club edit of a tablet\<close>

definition w_clubbed_desk :: edit_db where
  "w_clubbed_desk = (edit_state (w_recv\<lparr> db_ops := [w_unsent], db_clubs := [\<lparr> cl_event = ''e'', cl_member = ''1'', cl_club = None \<rparr>] \<rparr>))\<lparr>
     xd_changes := [(journal_row 9 ''member'' ''1'' ''club'' JNull (Some JNull))\<lparr> ec_owner := Some (JText ''p1'') \<rparr>] \<rparr>"

lemma w_person_row: "reg_person w_moved = Some w_person" "per_id w_person = ''p1''" "with_evidence w_recv w_moved = Inr w_moved"
    "person_id w_moved = Some ''p1''"
proof -
  show "reg_person w_moved = Some w_person" "per_id w_person = ''p1''" by (simp_all add: w_moved_fields w_person_def)
  then show "person_id w_moved = Some ''p1''" by (simp add: person_id_def)
  show "with_evidence w_recv w_moved = Inr w_moved"
    using w_member_fields by (simp add: with_evidence_def timing_evidence_def w_moved_fields w_recv_tables)
qed

lemma w_null_value: "cd_value w_codec ''null'' = Some JNull"
  by (simp add: w_codec_def w_owner_def)

lemma w_affiliation_parsed: "parse_club_operation w_codec ''{}'' = Inr w_affiliation"
proof -
  have "canonical_uuid w_uuid" unfolding w_uuid_def by code_simp
  then show ?thesis
    using w_codec_reads
    by (simp add: parse_club_operation_def w_affiliation_def good_owner_def identifier_pattern_def is_digit_def is_lower_def byte_of_def
        w_owner_def)
qed

lemma w_evidence_ops: "with_evidence (d\<lparr> db_ops := os, db_clubs := cs \<rparr>) r = with_evidence d r"
  by (simp add: with_evidence_def timing_evidence_def member_evidence_def cong: option.case_cong)

lemma w_club_edited: "edit_club edit_env w_codec w_uuid 9 ''1'' ''null'' w_link = Inr (w_link\<lparr> ln_desk := w_clubbed_desk \<rparr>, False)"
proof -
  let ?q = "club_request w_codec ''1'' ''null''"
  have q: "rq_entity ?q = ''member''" "rq_id ?q = ''1''" "rq_field ?q = ''club''" "rq_value ?q = Some JNull"
    by (simp_all add: club_request_def w_null_value)
  have texts: "runes_of ''null'' \<noteq> None" "paired_surrogates ''null''"
    by code_simp (simp add: paired_surrogates.simps)
  have valid: "validate_edit ?q = Inr (editable_text ''members'' False, V_Null)"
    by (simp add: validate_edit_def q edit_whitelist_def decode_club_def text_value_def)
  let ?d = "w_recv\<lparr> db_ops := [w_unsent] \<rparr>" and ?c = "\<lparr> cl_event = ''e'', cl_member = ''1'', cl_club = None \<rparr>"
  have m: "get_member ?d ''1'' = Inr w_member" by (simp add: get_member_def w_recv_tables w_member_fields)
  have "db_clubs w_recv = []" by (simp add: w_recv_def w_db_def)
  then have clubs: "apply_clubs ''e'' [(''1'', None)] ?d = Inr (?d\<lparr> db_clubs := [?c] \<rparr>)" "member_club ?d ''e'' ''1'' = None"
    by (simp_all add: apply_clubs_def put_club_def normalize_club_def w_recv_tables w_member_fields member_club_def)
  have upd: "update_field w ''members'' ''club'' ''1'' V_Null (edit_state ?d) = Inr (edit_state (?d\<lparr> db_clubs := [?c] \<rparr>), V_Null)" for w
    by (simp add: update_field_def update_club_field_def edit_state_def m as_text_def w_member_fields clubs)
  have owner: "club_owner (?d\<lparr> db_clubs := [?c] \<rparr>) ''1'' = Inr (Some (JText ''p1''))"
    by (simp add: club_owner_def live_person_def w_recv_tables w_member_fields find_scope_def w_person_row)
  have written: "apply_validated edit_env 9 ?q (editable_text ''members'' False) V_Null (edit_state ?d) = Inr w_clubbed_desk"
    using owner
    by (simp add: apply_validated_def prepare_policy_def q upd editable_text_def set_provenance_def journal_def follow_category_def
        shift_field_def sql_json_def journal_row_def)
      (simp add: w_clubbed_desk_def edit_state_def journal_row_def)
  have "ln_desk w_link = edit_state ?d" by (simp add: w_link_def)
  then have "apply_edit edit_env w_uuid 9 ?q (ln_desk w_link) = Inr (w_clubbed_desk, False)"
    by (simp add: apply_edit_def valid q prepare_packet_def packet_fields_def publish_packet_def written)
      (simp add: editable_text_def)
  then show ?thesis using texts by (simp add: edit_club_def)
qed

lemma w_link_row: "live_registration (link_db w_link) ''e'' ''1'' =
    Inr (Some \<lparr> rr_id = ''1'', rr_event = ''e'', rr_value = w_moved, rr_heads = [], rr_deleted = False \<rparr>)"
proof -
  have "with_evidence (w_recv\<lparr> db_ops := [w_unsent] \<rparr>) w_moved = Inr w_moved"
    using w_person_row(3) by (simp add: with_evidence_def timing_evidence_def member_evidence_def cong: option.case_cong)
  then show ?thesis
    by (simp add: live_registration_def find_registration_def find_reg_def w_link_fields w_recv_tables)
qed

lemma w_affiliation_applied: "\<exists>x1 r. apply_affiliation edit_env w_codec w_sha w_con w_uuid 9 ''{}'' w_link = Inr (x1, r) \<and>
    kr_outcome r = ''applied'' \<and> \<not> kr_known r \<and> ln_receipts x1 = [club_receipt_row_of w_con (w_sha ''{}'') ''{}'' w_affiliation r] \<and>
    db_scopes (link_db x1) = db_scopes w_recv"
proof -
  let ?x = "w_link\<lparr> ln_desk := w_clubbed_desk \<rparr>"
  have con: "con_event w_con = ''e''" "con_scope w_con = ''site:1:e''" "con_origin w_con = w_uuid" by (simp_all add: w_con_def)
  have op: "cm_scope w_affiliation = ''site:1:e''" "cm_origin w_affiliation = w_uuid" "cm_registration w_affiliation = ''1''"
    "cm_club w_affiliation = ''null''" "cm_id w_affiliation = w_uuid" "cd_write w_codec op = ''{}''" for op
    by (simp_all add: w_affiliation_def w_codec_def)
  have "last_club_change ''1'' (xd_changes w_clubbed_desk) = Some 1"
    by (simp add: w_clubbed_desk_def last_club_change_def is_club_change_def journal_row_def)
  then have "\<exists>x2. enqueue_club ''e'' ''site:1:e'' ''1'' w_uuid ''{}'' [] ?x = Inr x2 \<and> ln_receipts x2 = [] \<and>
      db_scopes (link_db x2) = db_scopes w_recv"
    by (simp add: enqueue_club_def w_link_fields) (simp add: w_clubbed_desk_def edit_state_def)
  then obtain x2 where x2: "enqueue_club ''e'' ''site:1:e'' ''1'' w_uuid ''{}'' [] ?x = Inr x2" "ln_receipts x2 = []"
    "db_scopes (link_db x2) = db_scopes w_recv"
    by blast
  have "decide_affiliation edit_env w_codec w_con w_uuid 9 w_affiliation w_link = Inr (x2, receipt_for w_affiliation ''applied'' None)"
    using x2(1) w_codec_reads
    by (simp add: decide_affiliation_def con op w_link_row owner_changed_def w_person_row w_club_edited)
  then show ?thesis
    using x2(2,3) w_link_scope
    by (simp add: apply_affiliation_def w_affiliation_parsed con op w_link_fields save_club_receipt_def receipt_for_def Let_def)
qed

theorem club_edit_applies_once_witness:
  "\<exists>x1 r e. apply_affiliation edit_env w_codec w_sha w_con w_uuid 9 ''{}'' w_link = Inr (x1, r) \<and>
    apply_affiliation edit_env w_codec w_sha w_con w_uuid 9 ''{}'' x1 = Inr (x1, r\<lparr> kr_known := True \<rparr>) \<and>
    ln_outbox x1 = [e] \<and> ce_operation e = kr_operation r"
proof -
  obtain x1 r where a: "apply_affiliation edit_env w_codec w_sha w_con w_uuid 9 ''{}'' w_link = Inr (x1, r)"
    "kr_outcome r = ''applied''" "\<not> kr_known r" "ln_receipts x1 = [club_receipt_row_of w_con (w_sha ''{}'') ''{}'' w_affiliation r]"
    "db_scopes (link_db x1) = db_scopes w_recv"
    using w_affiliation_applied by blast
  have "scope_of (link_db x1) (con_event w_con) = con_scope w_con"
    using a(5) w_scope by (simp add: scope_of_def find_scope_def w_con_def)
  then show ?thesis
    using club_edit_applies_once [OF a(1), where y = x1 and core' = edit_env and action' = w_uuid and now' = 9] a
    by (auto simp: w_link_fields club_receipt_row_of_def)
qed

subsection \<open>The whole exchange\<close>

definition w_busy :: link where
  "w_busy = w_link\<lparr> ln_outbox := [w_waiting_edit] \<rparr>"

definition w_sent :: op_row where
  "w_sent = w_unsent\<lparr> or_acked := True, or_site_outcome := Some ''applied'', or_attempts := 1 \<rparr>"

definition w_settled :: link where
  "w_settled = change_edit w_uuid (settle_edit ''applied'' None) (with_link_db (w_recv\<lparr> db_ops := [w_sent] \<rparr>) w_busy)"

lemma w_edit_fields: "ce_event w_waiting_edit = ''e''" "\<not> ce_acked w_waiting_edit" "ce_scope w_waiting_edit = ''site:1:e''"
    "ce_heads w_waiting_edit = [w_uuid]" "ce_next w_waiting_edit = 0" "ce_operation w_waiting_edit = w_uuid" "ce_body w_waiting_edit = ''{}''"
  by (simp_all add: w_waiting_edit_def)

lemma w_first_flush: "flush_clubs w_site w_relay 0 (start_run w_busy ()) = (start_run w_busy (), True, None)"
proof -
  have "pending_clubs ''e'' w_busy = [w_waiting_edit]" by (simp add: pending_clubs_def w_busy_def w_edit_fields)
  moreover have "club_readiness (link_db w_busy) ''e'' [w_uuid] = Not_Ready"
    by (simp add: w_busy_def w_link_fields) (simp add: w_unsent_def)
  ultimately show ?thesis
    by (subst flush_clubs.simps) (simp add: start_run_def w_relay_fields flush_one_def w_edit_fields)
qed

lemma w_first_batch: "\<exists>t. sync_batch w_site w_relay (start_run w_busy ()) =
    (\<lparr> rn_link = with_link_db (w_recv\<lparr> db_ops := [w_sent] \<rparr>) w_busy, rn_site = (), rn_totals = t \<rparr>, Again)"
proof -
  have db: "link_db w_busy = w_recv\<lparr> db_ops := [w_unsent] \<rparr>" by (simp add: w_busy_def w_link_fields)
  have p: "pending_ops (link_db w_busy) ''e'' 1 = Inr [w_op]"
    using w_unsent_ops by (simp add: pending_unsent db w_link_fields) (simp add: w_unsent_def)
  obtain url where url: "relay_url w_site (ry_api w_relay) ''/operations'' = Inr url" using w_relay_url by blast
  let ?r = "\<lparr> rcp_operation = w_uuid, rcp_hash = content_hash w_sha w_op, rcp_outcome = ''applied'', rcp_known = False, rcp_code = None \<rparr>"
  have "push_operations w_site (ry_api w_relay) (ry_credential w_relay) [w_op] () = (Inr [?r], ())"
    using w_op_fields
    by (simp add: push_operations_def url w_site_fields read_receipts_def read_receipt_def w_accepted_def optional_text_def valid_receipt_def)
  moreover have "mark_receipt ?r (link_db w_busy) = Inr (w_recv\<lparr> db_ops := [w_sent] \<rparr>)"
    by (simp add: mark_receipt_def db count_where_Cons update_where_def) (simp add: w_unsent_def w_sent_def update_where_def)
  ultimately show ?thesis
    using w_first_flush p
    by (simp add: sync_batch_def start_run_def w_relay_fields send_operations_def settle_receipts_def count_receipt_def no_totals_def Let_def)
qed

lemma w_second_flush: "\<exists>t. flush_clubs w_site w_relay 0
    \<lparr> rn_link = with_link_db (w_recv\<lparr> db_ops := [w_sent] \<rparr>) w_busy, rn_site = (), rn_totals = t0 \<rparr> =
    (\<lparr> rn_link = w_settled, rn_site = (), rn_totals = t \<rparr>, False, None)"
proof -
  let ?x = "with_link_db (w_recv\<lparr> db_ops := [w_sent] \<rparr>) w_busy"
  obtain url where url: "relay_url w_site (ry_api w_relay) ''/club-affiliations'' = Inr url" using w_relay_url by blast
  have pending: "pending_clubs ''e'' w_busy = [w_waiting_edit]" by (simp add: pending_clubs_def w_busy_def w_edit_fields)
  have "ln_outbox w_settled = [settle_edit ''applied'' None w_waiting_edit]"
    by (simp add: w_settled_def w_busy_def update_where_def w_edit_fields)
  then have settled: "pending_clubs ''e'' w_settled = []" by (simp add: pending_clubs_def settle_edit_def)
  have ready: "club_readiness (link_db ?x) ''e'' [w_uuid] = Ready" by (simp add: w_sent_def w_unsent_def)
  have "push_club w_site w_relay ''{}'' () =
      (Inr \<lparr> kr_operation = w_uuid, kr_outcome = ''applied'', kr_code = None, kr_known = False \<rparr>, ())"
    by (simp add: push_club_def w_site_fields w_affiliation_parsed url)
      (simp add: w_site_def read_club_receipt_def optional_text_def w_affiliation_def accepted_club_code_def)
  moreover have "acknowledge_club w_uuid ''applied'' None ?x = Inr w_settled"
    by (simp add: acknowledge_club_def update_edit_def w_busy_def count_where_Cons w_edit_fields) (simp add: w_settled_def w_busy_def)
  ultimately obtain t where "flush_one w_site w_relay w_waiting_edit \<lparr> rn_link = ?x, rn_site = (), rn_totals = t0 \<rparr> =
      (\<lparr> rn_link = w_settled, rn_site = (), rn_totals = t \<rparr>, Go_On)"
    using ready by (simp add: flush_one_def w_relay_fields w_edit_fields deliver_club_def w_site_fields Let_def)
  moreover have "flush_clubs w_site w_relay 1 \<lparr> rn_link = w_settled, rn_site = (), rn_totals = t1 \<rparr> =
      (\<lparr> rn_link = w_settled, rn_site = (), rn_totals = t1 \<rparr>, False, None)" for t1
    by (subst flush_clubs.simps) (simp add: w_relay_fields settled)
  ultimately show ?thesis
    by (subst flush_clubs.simps) (simp add: w_relay_fields pending)
qed

lemma w_exchange: "\<exists>r. sync_operations w_site [w_relay] ''e'' w_busy () = (r, None) \<and>
    ln_outbox (rn_link r) = [settle_edit ''applied'' None w_waiting_edit]"
proof -
  obtain t1 where first: "sync_batch w_site w_relay (start_run w_busy ()) =
      (\<lparr> rn_link = with_link_db (w_recv\<lparr> db_ops := [w_sent] \<rparr>) w_busy, rn_site = (), rn_totals = t1 \<rparr>, Again)"
    using w_first_batch by blast
  obtain t2 where flush: "flush_clubs w_site w_relay 0
      \<lparr> rn_link = with_link_db (w_recv\<lparr> db_ops := [w_sent] \<rparr>) w_busy, rn_site = (), rn_totals = t1 \<rparr> =
      (\<lparr> rn_link = w_settled, rn_site = (), rn_totals = t2 \<rparr>, False, None)"
    using w_second_flush by blast
  let ?r = "\<lparr> rn_link = w_settled, rn_site = (), rn_totals = t2 \<rparr>"
  have box: "ln_outbox w_settled = [settle_edit ''applied'' None w_waiting_edit]"
    by (simp add: w_settled_def w_busy_def update_where_def w_edit_fields)
  have "pending_ops (link_db w_settled) ''e'' 64 = Inr []"
    by (simp add: w_settled_def pending_ops_def) (simp add: w_sent_def)
  then have "sync_batch w_site w_relay \<lparr> rn_link = with_link_db (w_recv\<lparr> db_ops := [w_sent] \<rparr>) w_busy, rn_site = (), rn_totals = t1 \<rparr> =
      (with_refresh w_site w_relay ?r, Ended None)"
    by (simp add: sync_batch_def flush w_relay_fields)
  then have "sync_batches (Suc (Suc 1022)) w_site w_relay (start_run w_busy ()) = (with_refresh w_site w_relay ?r, None)"
    using first by (simp only: sync_batches.simps prod.case sync_end.case)
  moreover have "Suc (Suc 1022) = 1024" by simp
  moreover have "ln_outbox (rn_link (with_refresh w_site w_relay ?r)) = ln_outbox w_settled"
  proof -
    obtain a s where a: "refresh_clubs w_site w_relay w_settled () = (a, s)" by (rule prod.exhaust)
    show ?thesis using refresh_clubs_rows [of w_site w_relay w_settled "()"] a by (cases a) (auto simp: with_refresh_def)
  qed
  ultimately show ?thesis using box by (simp add: sync_operations_def w_relay_fields)
qed

theorem club_edits_in_order_witness:
  "\<exists>r. sync_operations w_site [w_relay] ''e'' w_busy () = (r, None) \<and>
     released ''e'' (rn_link r) (settle_edit ''applied'' None w_waiting_edit)"
proof -
  obtain r where r: "sync_operations w_site [w_relay] ''e'' w_busy () = (r, None)"
    "ln_outbox (rn_link r) = [settle_edit ''applied'' None w_waiting_edit]"
    using w_exchange by blast
  have ok: "link_ok w_busy" using w_link_ok(1) by (simp add: link_ok_def w_busy_def)
  have "(w_waiting_edit, settle_edit ''applied'' None w_waiting_edit) \<in> set (zip (ln_outbox w_busy) (ln_outbox (rn_link r)))"
    by (simp add: r(2)) (simp add: w_busy_def)
  moreover have "settle_edit ''applied'' None w_waiting_edit \<noteq> w_waiting_edit" by (simp add: settle_edit_def w_waiting_edit_def)
  ultimately show ?thesis using club_edits_in_order [OF r(1) ok] r(1) by blast
qed

subsection \<open>The site's clubs\<close>

definition w_pending_link :: link where
  "w_pending_link = w_link\<lparr> ln_outbox := [w_waiting_edit],
     ln_desk := edit_state (w_recv\<lparr> db_clubs := [\<lparr> cl_event = ''e'', cl_member = ''1'', cl_club = Some ''Run'' \<rparr>] \<rparr>) \<rparr>"

theorem snapshot_spares_pending_witness:
  "\<exists>y. apply_snapshot w_site w_relay w_snapshot_clubs w_pending_link = Inr y \<and> member_club (link_db y) ''e'' ''1'' = Some (Some ''Run'')"
proof -
  let ?x = w_pending_link
  have d: "link_db ?x = w_recv\<lparr> db_clubs := [\<lparr> cl_event = ''e'', cl_member = ''1'', cl_club = Some ''Run'' \<rparr>] \<rparr>"
    "ln_outbox ?x = [w_waiting_edit]"
    by (simp_all add: w_pending_link_def edit_state_def)
  have scope: "scope_of (link_db ?x) ''e'' = ''site:1:e''" "find_scope (link_db ?x) ''e'' \<noteq> None"
    using w_scope by (simp_all add: d scope_of_def find_scope_def) (simp_all add: w_recv_tables)
  have k: "cm_registration w_affiliation = ''1''" by (simp add: w_affiliation_def)
  have "read_affiliations_wire w_codec ''site:1:e'' w_snapshot_clubs = Inr ([(''1'', None)], [(''1'', Some ''p1'')])"
    using w_codec_reads(2,3) [unfolded w_owner_def]
    by (simp add: w_owner_def read_affiliations_wire_def w_snapshot_clubs_def read_affiliation_def good_owner_def identifier_pattern_def
        is_digit_def is_lower_def byte_of_def Let_def)
  moreover have "protect_pending w_codec ''e'' [(''1'', Some ''p1'')] ?x (filter_owners (link_db ?x) ''e'' [(''1'', None)] [(''1'', Some ''p1'')]) = Inr []"
    using w_person_row scope(2)
    by (simp add: filter_owners_def d(1) live_rows_def w_recv_tables owned_club_def protect_pending_def d(2) w_edit_fields protect_one_def
        w_codec_reads k)
  ultimately obtain y where y: "apply_snapshot w_site w_relay w_snapshot_clubs ?x = Inr y"
    using scope(1) by (simp add: apply_snapshot_def w_site_fields w_relay_fields apply_bound_clubs_def apply_clubs_def)
  have "member_club (link_db ?x) ''e'' ''1'' = Some (Some ''Run'')" by (simp add: member_club_def d)
  moreover have "member_club (link_db y) ''e'' ''1'' = member_club (link_db ?x) ''e'' ''1''"
    using snapshot_spares_pending [OF y, of w_waiting_edit w_affiliation "Some ''p1''"] w_codec_reads scope(2) w_person_row
    by (simp add: w_relay_fields w_site_fields d w_edit_fields waits_def k w_recv_tables)
  ultimately show ?thesis using y by simp
qed

end
