(* ===== verification/FlashImport.thy ===== *)
theory FlashImport
  imports OutboxRuns PacketModel GoLib
begin

section \<open>Readings from the memory of a reader\<close>

text \<open>
  \<^verbatim>\<open>service/feibotcsv.go\<close>: the dump of a reader's flash memory is a text with one reading per line.  What the desk
  already holds, from the network or from an earlier import, must not be entered twice.  Parameters: MD5 as hexadecimal
  text and the time zones of the operating system (the instant of a local time, both in milliseconds).
\<close>

record flash_env =
  fl_md5 :: "string \<Rightarrow> string"
  fl_zone :: "string \<Rightarrow> (int \<Rightarrow> int) option"

subsection \<open>Lines\<close>

text \<open>\<^verbatim>\<open>bufio.Scanner\<close> with a buffer of one mebibyte: a line that fills it is an error.\<close>

definition newline :: char where
  "newline = CHR 0x0A"

function raw_lines :: "string \<Rightarrow> string list" where
  "raw_lines s = (if s = [] then [] else
     let l = takeWhile (\<lambda>c. c \<noteq> newline) s in l # raw_lines (drop (Suc (length l)) s))"
  by pat_completeness auto
termination by (relation "measure length") auto

declare raw_lines.simps [simp del]

definition scan_lines :: "string \<Rightarrow> string list res" where
  "scan_lines s = (if list_ex (\<lambda>l. 1048576 \<le> length l) (raw_lines s) then Inl ''read csv''
     else Inr (map (\<lambda>l. if l \<noteq> [] \<and> last l = CHR 0x0D then butlast l else l) (raw_lines s)))"

subsection \<open>One line\<close>

definition read_text :: "string \<Rightarrow> string \<Rightarrow> string option" where
  "read_text p s = (if has_prefix p s then Some (drop (length p) s) else None)"

definition stamp_shape :: "string \<Rightarrow> bool" where
  "stamp_shape s \<longleftrightarrow> list_all2 (\<lambda>p c. if p = CHR ''0'' then is_digit c else c = p) ''0000-00-00_00:00:00.000'' s"

definition pattern_space :: "char \<Rightarrow> bool" where
  "pattern_space c \<longleftrightarrow> c \<in> {CHR 0x09, CHR 0x0A, CHR 0x0C, CHR 0x0D, CHR 0x20}"

definition flash_tail :: "string \<Rightarrow> string \<Rightarrow> string \<Rightarrow> string \<Rightarrow> (string \<times> string \<times> string \<times> string) option" where
  "flash_tail epc stamp port q =
    (let sign = (if q \<noteq> [] \<and> hd q = CHR ''-'' then ''-'' else []); r = drop (length sign) q; ds = takeWhile is_digit r in
     if ds = [] \<or> \<not> list_all pattern_space (drop (length ds) r) then None else Some (epc, stamp, port, sign @ ds))"

definition flash_row :: "string \<Rightarrow> (string \<times> string \<times> string \<times> string) option" where
  "flash_row line =
    (let epc = takeWhile is_hex line in
     if epc = [] then None else
     Option.bind (read_char CHR '':'' (drop (length epc) line)) (\<lambda>r.
     if \<not> stamp_shape (take 23 r) then None else
     Option.bind (read_text '',port='' (drop 23 r)) (\<lambda>q.
     let port = takeWhile is_digit q in
     if port = [] then None else
     Option.bind (read_text '',rssi='' (drop (length port) q)) (flash_tail epc (take 23 r) port))))"

definition upper_hex :: "char \<Rightarrow> char" where
  "upper_hex c = (if 97 \<le> byte_of c \<and> byte_of c \<le> 102 then char_of (byte_of c - 32) else c)"

text \<open>The layout \<^verbatim>\<open>2006-01-02_15:04:05.000\<close>, in milliseconds as if the zone were UTC.\<close>

definition local_millis :: "string \<Rightarrow> int option" where
  "local_millis s =
    Option.bind (read_date s) (\<lambda>(days, r). Option.bind (read_char CHR ''_'' r) (\<lambda>r.
    Option.bind (read_clock r) (\<lambda>(ms, r). if r = [] then Some (86400000 * days + ms) else None)))"

definition log_name :: "flash_env \<Rightarrow> string \<Rightarrow> string \<Rightarrow> int \<Rightarrow> int \<Rightarrow> string" where
  "log_name env board epc t ant = fl_md5 env (board @ epc @ format_int t @ format_int ant)"

definition flash_reading :: "flash_env \<Rightarrow> string \<Rightarrow> string \<Rightarrow> string \<Rightarrow> int \<Rightarrow> int \<Rightarrow> int \<Rightarrow> observation" where
  "flash_reading env event board epc t port rssi = \<lparr> ob_id = log_name env board epc t port, ob_event = event, ob_status = 0,
     ob_number = 0, ob_time = t, ob_ant = port, ob_epc = epc, ob_rssi = rssi, ob_board = board, ob_disabled = None,
     ob_version = 0, ob_source = ''chrono-desk:'' @ event @ '':'' @ board, ob_system = [], ob_instance = [], ob_sequence = 0,
     ob_edge = None \<rparr>"

definition parse_flash :: "flash_env \<Rightarrow> (int \<Rightarrow> int) \<Rightarrow> string \<Rightarrow> string \<Rightarrow> string \<Rightarrow> observation res" where
  "parse_flash env zone event board line =
    (case flash_row line of None \<Rightarrow> Inl ''malformed line''
     | Some (epc, stamp, port, rssi) \<Rightarrow>
         (case local_millis stamp of None \<Rightarrow> Inl ''invalid time''
          | Some t \<Rightarrow> (case parse_int 64 port of None \<Rightarrow> Inl ''invalid port''
            | Some p \<Rightarrow> (case parse_int 64 rssi of None \<Rightarrow> Inl ''invalid rssi''
              | Some r \<Rightarrow> Inr (flash_reading env event board (map upper_hex epc) (zone t) p r)))))"

subsection \<open>The whole text\<close>

record flash_error =
  fe_line :: nat
  fe_reason :: string
  fe_raw :: string

record flash_result =
  fi_parsed :: nat
  fi_inserted :: nat
  fi_duplicates :: nat
  fi_errors :: "flash_error list"

definition numbered_lines :: "string list \<Rightarrow> (nat \<times> string) list" where
  "numbered_lines ls = filter (\<lambda>(n, l). l \<noteq> []) (map (\<lambda>(n, l). (n, trim_space l)) (enumerate 1 ls))"

definition readings_of :: "flash_env \<Rightarrow> (int \<Rightarrow> int) \<Rightarrow> string \<Rightarrow> string \<Rightarrow> (nat \<times> string) list \<Rightarrow> observation list" where
  "readings_of env zone event board ls =
    concat (map (\<lambda>(n, l). case parse_flash env zone event board l of Inl _ \<Rightarrow> [] | Inr x \<Rightarrow> [x]) ls)"

definition errors_of :: "flash_env \<Rightarrow> (int \<Rightarrow> int) \<Rightarrow> string \<Rightarrow> string \<Rightarrow> (nat \<times> string) list \<Rightarrow> flash_error list" where
  "errors_of env zone event board ls =
    concat (map (\<lambda>(n, l). case parse_flash env zone event board l of
      Inl e \<Rightarrow> [\<lparr> fe_line = n, fe_reason = e, fe_raw = l \<rparr>] | Inr _ \<Rightarrow> []) ls)"

definition content_key :: "observation \<Rightarrow> string" where
  "content_key l = ob_epc l @ ''|'' @ format_int (ob_time l) @ ''|'' @ format_int (ob_ant l)"

definition existing_keys :: "string \<Rightarrow> string \<Rightarrow> odb \<Rightarrow> string set" where
  "existing_keys event board d = content_key ` set (filter (\<lambda>l. ob_event l = event \<and> ob_board l = board) (od_logs d))"

fun fresh_readings :: "string set \<Rightarrow> observation list \<Rightarrow> observation list" where
  "fresh_readings ks [] = []"
| "fresh_readings ks (l # ls) =
     (if content_key l \<in> ks then fresh_readings ks ls else l # fresh_readings (insert (content_key l) ks) ls)"

definition import_flash ::
  "flash_env \<Rightarrow> int \<Rightarrow> string \<Rightarrow> string \<Rightarrow> string \<Rightarrow> string \<Rightarrow> origin \<Rightarrow> odb \<Rightarrow> origin \<times> (odb \<times> flash_result) res" where
  "import_flash env now event device tz s g d =
    (if device = [] then (g, Inl ''device code is required'')
     else case fl_zone env tz of None \<Rightarrow> (g, Inl ''invalid timezone'')
     | Some zone \<Rightarrow> (case scan_lines s of Inl e \<Rightarrow> (g, Inl e)
       | Inr raw \<Rightarrow>
           let board = ''Feibot:'' @ device; ls = numbered_lines raw; xs = readings_of env zone event board ls;
               fresh = fresh_readings (existing_keys event board d) xs in
           (case insert_owned now fresh g d of (g', Inl e) \<Rightarrow> (g', Inl e)
            | (g', Inr d') \<Rightarrow> let added = length (od_logs d') - length (od_logs d) in
                (g', Inr (d', \<lparr> fi_parsed = length ls, fi_inserted = added,
                   fi_duplicates = (length xs - length fresh) + (length fresh - added),
                   fi_errors = take 20 (errors_of env zone event board ls) \<rparr>)))))"

subsection \<open>What an import enters\<close>

lemma fresh_readings_sub: "set (fresh_readings ks ls) \<subseteq> set ls"
  by (induction ks ls rule: fresh_readings.induct) auto

lemma fresh_readings_length: "length (fresh_readings ks ls) \<le> length ls"
  by (induction ks ls rule: fresh_readings.induct) auto

lemma fresh_readings_mono: "ks \<subseteq> ks' \<Longrightarrow> set (fresh_readings ks' ls) \<subseteq> set (fresh_readings ks ls)"
proof (induction ls arbitrary: ks ks')
  case (Cons l ls)
  show ?case
  proof (cases "content_key l \<in> ks'")
    case True
    then have "insert (content_key l) ks \<subseteq> ks'" using Cons.prems by blast
    then show ?thesis using Cons.IH [OF Cons.prems] Cons.IH [of "insert (content_key l) ks" ks'] True by auto
  next
    case False
    then have "content_key l \<notin> ks" using Cons.prems by blast
    then show ?thesis using Cons.IH [OF insert_mono [OF Cons.prems, of "content_key l"]] False by auto
  qed
qed simp

lemma fresh_readings_cover: "l \<in> set ls \<Longrightarrow> content_key l \<in> ks \<union> content_key ` set (fresh_readings ks ls)"
  by (induction ks ls rule: fresh_readings.induct) auto

lemma insert_owned_row_cases:
  assumes "insert_owned_row now l g d = (g', Inr d')"
  obtains (known) "find_log (ob_id l) d \<noteq> None" "g' = g" "d' = d"
  | (added) x where "od_logs d' = od_logs d @ [x]" "same_immutable l x" "ob_id x = ob_id l"
  using assms
  by (auto simp: insert_owned_row_def journal_owned_def claim_row_def owned_row_def same_immutable_def split: if_splits sum.splits prod.splits)

lemma insert_owned_row_known:
  assumes "find_log (ob_id l) d \<noteq> None" and "\<not> blank (ob_source l)" and "ob_edge l = None"
  shows "insert_owned_row now l g d = (g, Inr d)"
  using assms by (simp add: insert_owned_row_def)

lemma insert_owned_rows_enter:
  assumes "insert_owned_rows now ls g d = (g', Inr d')"
  shows "\<exists>new. od_logs d' = od_logs d @ new \<and> length new \<le> length ls \<and> (\<forall>x \<in> set new. \<exists>l \<in> set ls. same_immutable l x) \<and>
    ob_id ` set ls \<subseteq> ob_id ` set (od_logs d')"
  using assms
proof (induction ls arbitrary: g d)
  case (Cons l ls)
  obtain g1 x where one: "insert_owned_row now l g d = (g1, x)" by (rule prod.exhaust)
  then obtain d1 where x: "x = Inr d1" and rest: "insert_owned_rows now ls g1 d1 = (g', Inr d')"
    using Cons.prems by (cases x) auto
  obtain new where new: "od_logs d' = od_logs d1 @ new" "length new \<le> length ls" "\<forall>x \<in> set new. \<exists>l \<in> set ls. same_immutable l x"
    "ob_id ` set ls \<subseteq> ob_id ` set (od_logs d')"
    using Cons.IH [OF rest] by blast
  from one [unfolded x] show ?case
  proof (cases rule: insert_owned_row_cases)
    case known
    then obtain a where "find_log (ob_id l) d = Some a" by blast
    then have "a \<in> set (od_logs d)" "ob_id a = ob_id l" using find_Some_iff' by (fastforce simp: find_log_def)+
    then have "ob_id l \<in> ob_id ` set (od_logs d')"
      by (intro image_eqI [of _ _ a]) (use new(1) known(3) in auto)
    then show ?thesis using new known by (intro exI [of _ new]) auto
  next
    case (added y)
    then show ?thesis using new by (intro exI [of _ "y # new"]) auto
  qed
qed simp

lemma insert_owned_rows_known:
  assumes "\<forall>l \<in> set ls. find_log (ob_id l) d \<noteq> None \<and> \<not> blank (ob_source l) \<and> ob_edge l = None"
  shows "insert_owned_rows now ls g d = (g, Inr d)"
  using assms by (induction ls) (simp_all add: insert_owned_row_known)

lemma flash_reading_source:
  assumes "x \<in> set (readings_of env zone event board ls)"
  shows "\<not> blank (ob_source x) \<and> ob_edge x = None \<and> ob_event x = event \<and> ob_board x = board"
proof -
  have named: "\<not> blank (''chrono-desk:'' @ s)" for s
    by (simp add: blank_def runes_of_def is_space_def byte_of_def split: option.splits)
  obtain l where "parse_flash env zone event board l = Inr x"
    using assms by (auto simp: readings_of_def split: sum.split_asm)
  then have "\<exists>epc t p r. x = flash_reading env event board epc t p r"
    by (auto simp: parse_flash_def split: option.split_asm prod.split_asm)
  then show ?thesis using named by (auto simp: flash_reading_def)
qed

lemma import_flash_Inr:
  assumes "import_flash env now event device tz s g d = (g', Inr (d', r))"
  obtains zone raw ls xs fresh where "device \<noteq> []" "fl_zone env tz = Some zone" "scan_lines s = Inr raw" "ls = numbered_lines raw"
    "xs = readings_of env zone event (''Feibot:'' @ device) ls" "fresh = fresh_readings (existing_keys event (''Feibot:'' @ device) d) xs"
    "\<not> blank (og_instance g)" "insert_owned_rows now fresh g d = (g', Inr d')"
    "r = \<lparr> fi_parsed = length ls, fi_inserted = length (od_logs d') - length (od_logs d),
       fi_duplicates = (length xs - length fresh) + (length fresh - (length (od_logs d') - length (od_logs d))),
       fi_errors = take 20 (errors_of env zone event (''Feibot:'' @ device) ls) \<rparr>"
  using assms by (auto simp: import_flash_def Let_def insert_owned_def split: if_splits option.splits sum.splits prod.splits)

lemma existing_keys_grow:
  assumes "logs_grow d d'" and "logs_ok d"
  shows "existing_keys event board d \<subseteq> existing_keys event board d'"
proof
  fix k assume "k \<in> existing_keys event board d"
  then obtain l where l: "l \<in> set (od_logs d)" "ob_event l = event" "ob_board l = board" "k = content_key l"
    by (auto simp: existing_keys_def)
  have "find_log (ob_id l) d = Some l"
    unfolding find_log_def by (rule find_key_unique) (use l(1) assms(2) in \<open>auto simp: logs_ok_def\<close>)
  then obtain b where b: "find_log (ob_id l) d' = Some b" "same_reading l b" using logs_growD [OF assms(1)] by blast
  have "b \<in> set (od_logs d')" using find_Some_iff' [OF b(1) [unfolded find_log_def]] by simp
  moreover have "ob_event b = event" "ob_board b = board" "content_key b = k"
    using b(2) l by (simp_all add: same_reading_def same_immutable_def content_key_def)
  ultimately show "k \<in> existing_keys event board d'" by (force simp: existing_keys_def)
qed

lemma find_log_known: "i \<in> ob_id ` set (od_logs d) \<Longrightarrow> \<exists>x. find_log i d = Some x"
  unfolding find_log_def by (cases "List.find (\<lambda>l. ob_id l = i) (od_logs d)") (auto simp: find_None_iff)

lemma sync_steps_instance:
  assumes "(sync_step cx)\<^sup>*\<^sup>* s t" and "sync_ok s"
  shows "og_instance (fst t) = og_instance (fst s)"
  using assms
proof (induction rule: converse_rtranclp_induct)
  case (step x y)
  have "og_instance (fst y) = og_instance (fst x)"
    using step(1) desk_step_ok step.prems by (cases rule: sync_step.cases) auto
  then show ?case using step sync_step_ok by auto
qed simp

text \<open>
  C33.  A flash memory read twice adds nothing.  After an import, whatever the desk captures, imports, sends or is
  answered meanwhile, importing the same text again for the same reader leaves all tables as they are, and every line
  that was accepted counts as a duplicate.
\<close>

theorem flash_again:
  assumes "import_flash env now event device tz s g d = (g1, Inr (d1, r))" and "sync_ok (g, d)"
    and "(sync_step cx)\<^sup>*\<^sup>* (g1, d1) (g2, d2)"
  shows "import_flash env now' event device tz s g2 d2 =
    (g2, Inr (d2, r\<lparr> fi_inserted := 0, fi_duplicates := fi_inserted r + fi_duplicates r \<rparr>))"
  using assms(1)
proof (rule import_flash_Inr)
  fix zone raw ls xs fresh
  let ?board = "''Feibot:'' @ device"
  assume a: "device \<noteq> []" "fl_zone env tz = Some zone" "scan_lines s = Inr raw" "ls = numbered_lines raw"
    "xs = readings_of env zone event ?board ls" "fresh = fresh_readings (existing_keys event ?board d) xs"
    "\<not> blank (og_instance g)" "insert_owned_rows now fresh g d = (g1, Inr d1)"
    "r = \<lparr> fi_parsed = length ls, fi_inserted = length (od_logs d1) - length (od_logs d),
       fi_duplicates = (length xs - length fresh) + (length fresh - (length (od_logs d1) - length (od_logs d))),
       fi_errors = take 20 (errors_of env zone event ?board ls) \<rparr>"
  have cap: "insert_owned now fresh g d = (g1, Inr d1)" using a(7,8) by (simp add: insert_owned_def)
  note first = desk_step_ok [OF desk_step.capture [OF cap] assms(2), simplified]
  have grow: "logs_grow d1 d2" using sync.le_steps [OF assms(3)] first by (simp add: sync_grows_def)
  then have grow0: "logs_grow d d2" using first logs_grow_trans by blast
  have inst: "og_instance g2 = og_instance g" using sync_steps_instance [OF assms(3)] first by simp
  obtain new where new: "od_logs d1 = od_logs d @ new" "length new \<le> length fresh" "ob_id ` set fresh \<subseteq> ob_id ` set (od_logs d1)"
    using insert_owned_rows_enter [OF a(8)] by blast
  let ?fresh = "fresh_readings (existing_keys event ?board d2) xs"
  have "existing_keys event ?board d \<subseteq> existing_keys event ?board d2"
    by (rule existing_keys_grow [OF grow0]) (use assms(2) in \<open>simp add: sync_ok_def outbox_ok_def\<close>)
  then have sub: "set ?fresh \<subseteq> set fresh" unfolding a(6) by (rule fresh_readings_mono)
  have known: "find_log (ob_id l) d2 \<noteq> None \<and> \<not> blank (ob_source l) \<and> ob_edge l = None" if l: "l \<in> set ?fresh" for l
  proof -
    have "ob_id l \<in> ob_id ` set (od_logs d1)" using l sub new(3) by blast
    then obtain x where "find_log (ob_id l) d1 = Some x" using find_log_known by blast
    then have "find_log (ob_id l) d2 \<noteq> None" using logs_growD [OF grow] by (metis option.distinct(1))
    moreover have "l \<in> set (readings_of env zone event ?board ls)" using l fresh_readings_sub unfolding a(5) by blast
    ultimately show ?thesis using flash_reading_source by blast
  qed
  then have "insert_owned_rows now' ?fresh g2 d2 = (g2, Inr d2)" by (intro insert_owned_rows_known ballI)
  then have again: "insert_owned now' ?fresh g2 d2 = (g2, Inr d2)" using a(7) inst by (simp add: insert_owned_def)
  have counts: "length fresh \<le> length xs" "length ?fresh \<le> length xs" "length new \<le> length fresh"
    using fresh_readings_length new(2) unfolding a(6) by blast+
  have "import_flash env now' event device tz s g2 d2 = (g2, Inr (d2, \<lparr> fi_parsed = length ls, fi_inserted = 0,
      fi_duplicates = length xs, fi_errors = take 20 (errors_of env zone event ?board ls) \<rparr>))"
    using again counts(2) a(1-3) unfolding import_flash_def a(4,5) by (simp add: Let_def)
  moreover have "fi_inserted r + fi_duplicates r = length xs" using counts new(1) by (simp add: a(9))
  ultimately show ?thesis by (simp add: a(9))
qed

lemma readings_and_errors:
  "length (readings_of env zone event board ls) + length (errors_of env zone event board ls) = length ls"
  by (induction ls) (auto simp: readings_of_def errors_of_def split: sum.split)

lemma readings_of_member:
  "x \<in> set (readings_of env zone event board ls) \<longleftrightarrow> (\<exists>n l. (n, l) \<in> set ls \<and> parse_flash env zone event board l = Inr x)"
  by (force simp: readings_of_def split: sum.splits)

lemma split_bar:
  "a @ CHR ''|'' # b = a' @ CHR ''|'' # b' \<Longrightarrow> CHR ''|'' \<notin> set a \<Longrightarrow> CHR ''|'' \<notin> set a' \<Longrightarrow> a = a' \<and> b = b'"
proof (induction a arbitrary: a')
  case Nil
  then show ?case by (cases a') auto
next
  case (Cons c a)
  then show ?case by (cases a') auto
qed

lemma format_int_bar: "CHR ''|'' \<notin> set (format_int i)"
proof -
  have "CHR ''|'' \<notin> set (format_nat n)" for n
    using format_nat_digits [of n] by (auto simp: list_all_iff is_digit_def byte_of_def)
  then show ?thesis by (simp add: format_int_def)
qed

lemma upper_hex_bar: "is_hex c \<Longrightarrow> upper_hex c \<noteq> CHR ''|''"
proof
  assume h: "is_hex c" and e: "upper_hex c = CHR ''|''"
  show False
  proof (cases "97 \<le> byte_of c \<and> byte_of c \<le> 102")
    case True
    then have "byte_of (upper_hex c) = byte_of c - 32" by (auto simp: upper_hex_def byte_of_def intro!: mod_less)
    then show False using True by (auto simp: e byte_of_def)
  next
    case False
    then have "c = CHR ''|''" using e unfolding upper_hex_def by (simp only: if_False)
    then show False using h by (simp add: is_hex_def is_digit_def byte_of_def)
  qed
qed

lemma flash_row_hex: "flash_row line = Some (epc, stamp, port, rssi) \<Longrightarrow> list_all is_hex epc"
  by (auto simp: flash_row_def flash_tail_def Let_def list_all_iff bind_eq_Some_conv split: if_splits dest: set_takeWhileD)

lemma parse_flash_Inr:
  assumes "parse_flash env zone event board line = Inr x"
  obtains epc t p r where "x = flash_reading env event board epc t p r" "CHR ''|'' \<notin> set epc"
proof -
  obtain epc stamp port rssi t p r where row: "flash_row line = Some (epc, stamp, port, rssi)"
    and x: "x = flash_reading env event board (map upper_hex epc) t p r"
    using assms by (auto simp: parse_flash_def split: option.split_asm prod.split_asm)
  have "upper_hex c \<noteq> CHR ''|''" if "c \<in> set epc" for c
    using flash_row_hex [OF row] that upper_hex_bar by (simp add: list_all_iff)
  then have "CHR ''|'' \<notin> set (map upper_hex epc)" by (metis (mono_tags, lifting) imageE set_map)
  with x show thesis by (rule that)
qed

text \<open>The content of a reading determines its name.\<close>

lemma content_names:
  assumes "parse_flash env zone event board l = Inr x" and "parse_flash env zone event board l' = Inr y"
    and "content_key x = content_key y"
  shows "ob_id x = ob_id y"
proof -
  obtain epc t p r where x: "x = flash_reading env event board epc t p r" "CHR ''|'' \<notin> set epc" by (rule parse_flash_Inr [OF assms(1)])
  obtain epc' t' p' r' where y: "y = flash_reading env event board epc' t' p' r'" "CHR ''|'' \<notin> set epc'" by (rule parse_flash_Inr [OF assms(2)])
  have "epc @ CHR ''|'' # (format_int t @ CHR ''|'' # format_int p) = epc' @ CHR ''|'' # (format_int t' @ CHR ''|'' # format_int p')"
    using assms(3) x(1) y(1) by (simp add: content_key_def flash_reading_def)
  from split_bar [OF this x(2) y(2)] have "epc = epc'" "format_int t @ CHR ''|'' # format_int p = format_int t' @ CHR ''|'' # format_int p'"
    by simp_all
  moreover from split_bar [OF this(2) format_int_bar format_int_bar] have "t = t'" "p = p'" by simp_all
  ultimately show ?thesis using x(1) y(1) by (simp add: flash_reading_def)
qed

text \<open>
  C34.  A flash memory is entered completely and nothing else.  After an import every line that parses is in the tables,
  by its name or by its content; the rows that are new are readings of lines; and every line is counted once, as
  entered, as a duplicate or as rejected.
\<close>

theorem flash_is_entered:
  assumes "import_flash env now event device tz s g d = (g', Inr (d', r))"
  shows "\<exists>zone ls new. fl_zone env tz = Some zone \<and> map_sum id numbered_lines (scan_lines s) = Inr ls \<and>
    (\<forall>(n, l) \<in> set ls. \<forall>x. parse_flash env zone event (''Feibot:'' @ device) l = Inr x \<longrightarrow>
       ob_id x \<in> ob_id ` set (od_logs d') \<or> content_key x \<in> existing_keys event (''Feibot:'' @ device) d') \<and>
    od_logs d' = od_logs d @ new \<and> length new = fi_inserted r \<and>
    (\<forall>y \<in> set new. \<exists>(n, l) \<in> set ls. \<exists>x. parse_flash env zone event (''Feibot:'' @ device) l = Inr x \<and> same_immutable x y) \<and>
    fi_parsed r = fi_inserted r + fi_duplicates r + length (errors_of env zone event (''Feibot:'' @ device) ls)"
  using assms
proof (rule import_flash_Inr)
  fix zone raw ls xs fresh
  let ?board = "''Feibot:'' @ device"
  assume a: "fl_zone env tz = Some zone" "scan_lines s = Inr raw" "ls = numbered_lines raw"
    "xs = readings_of env zone event ?board ls" "fresh = fresh_readings (existing_keys event ?board d) xs"
    "insert_owned_rows now fresh g d = (g', Inr d')"
    "r = \<lparr> fi_parsed = length ls, fi_inserted = length (od_logs d') - length (od_logs d),
       fi_duplicates = (length xs - length fresh) + (length fresh - (length (od_logs d') - length (od_logs d))),
       fi_errors = take 20 (errors_of env zone event ?board ls) \<rparr>"
  obtain new where new: "od_logs d' = od_logs d @ new" "length new \<le> length fresh" "\<forall>x \<in> set new. \<exists>l \<in> set fresh. same_immutable l x"
    "ob_id ` set fresh \<subseteq> ob_id ` set (od_logs d')"
    using insert_owned_rows_enter [OF a(6)] by blast
  have len: "length fresh \<le> length xs" unfolding a(5) by (rule fresh_readings_length)
  have old: "existing_keys event ?board d \<subseteq> existing_keys event ?board d'" by (auto simp: existing_keys_def new(1))
  have cover: "ob_id x \<in> ob_id ` set (od_logs d') \<or> content_key x \<in> existing_keys event ?board d'" if "x \<in> set xs" for x
  proof -
    have "content_key x \<in> existing_keys event ?board d \<or> content_key x \<in> content_key ` set fresh"
      using fresh_readings_cover [OF that] unfolding a(5) by blast
    then show ?thesis
    proof
      assume "content_key x \<in> content_key ` set fresh"
      then obtain y where y: "y \<in> set fresh" "content_key x = content_key y" by auto
      have "y \<in> set xs" using y(1) fresh_readings_sub unfolding a(5) by blast
      with that have "ob_id x = ob_id y" using content_names [OF _ _ y(2)] by (auto simp: a(4) readings_of_member)
      then show ?thesis using y(1) new(4) by auto
    qed (use old in blast)
  qed
  have entered: "\<exists>(n, l) \<in> set ls. \<exists>x. parse_flash env zone event ?board l = Inr x \<and> same_immutable x y" if y: "y \<in> set new" for y
  proof -
    obtain x where "x \<in> set fresh" "same_immutable x y" using y new(3) by blast
    moreover have "x \<in> set xs" using calculation(1) fresh_readings_sub unfolding a(5) by blast
    ultimately show ?thesis unfolding a(4) readings_of_member by blast
  qed
  have counts: "fi_parsed r = fi_inserted r + fi_duplicates r + length (errors_of env zone event ?board ls)"
  proof -
    have "length xs + length (errors_of env zone event ?board ls) = length ls" unfolding a(4) by (rule readings_and_errors)
    then show ?thesis using len new(1,2) by (simp add: a(7))
  qed
  have "map_sum id numbered_lines (scan_lines s) = Inr ls" using a(2,3) by simp
  moreover have "\<forall>(n, l) \<in> set ls. \<forall>x. parse_flash env zone event ?board l = Inr x \<longrightarrow>
      ob_id x \<in> ob_id ` set (od_logs d') \<or> content_key x \<in> existing_keys event ?board d'"
    using cover unfolding a(4) readings_of_member by blast
  moreover have "length new = fi_inserted r" using new(1) by (simp add: a(7))
  ultimately show ?thesis using a(1) new(1) entered counts by (intro exI [of _ zone] exI [of _ ls] exI [of _ new]) blast
qed

definition flash_line :: "string \<Rightarrow> string \<Rightarrow> int \<Rightarrow> int \<Rightarrow> string" where
  "flash_line epc stamp port rssi = epc @ '':'' @ stamp @ '',port='' @ format_int port @ '',rssi='' @ format_int rssi"

lemma takeWhile_decimal: "takeWhile is_digit (format_nat n @ r) = format_nat n @ takeWhile is_digit r"
  using format_nat_digits [of n] by (simp add: list_all_iff takeWhile_append2)

lemma takeWhile_format: "takeWhile is_digit (format_nat n) = format_nat n"
  using takeWhile_decimal [of n "[]"] by simp

text \<open>
  C35.  What a reader writes is what the desk reads: a line composed of a chip in hexadecimal digits, a time, a port and a
  signal strength is the reading with these values, the chip in capitals and the time in the zone of the event.
\<close>

theorem flash_line_parses:
  assumes "epc \<noteq> []" and "list_all is_hex epc" and "stamp_shape stamp" and "local_millis stamp = Some t"
    and "0 \<le> port" and "port < 2 ^ 63" and "- (2 ^ 63) \<le> rssi" and "rssi < 2 ^ 63"
  shows "parse_flash env zone event board (flash_line epc stamp port rssi) =
    Inr (flash_reading env event board (map upper_hex epc) (zone t) port rssi)"
proof -
  have epc: "takeWhile is_hex (epc @ CHR '':'' # r) = epc" for r
    using assms(2) by (simp add: takeWhile_append2 list_all_iff is_hex_def is_digit_def byte_of_def)
  have stamp: "length stamp = 23" using assms(3) list_all2_lengthD by (fastforce simp: stamp_shape_def)
  have port: "format_int port = format_nat (nat port)" using assms(5) by (simp add: format_int_def)
  have tail: "flash_tail e st p (format_int rssi) = Some (e, st, p, format_int rssi)" for e st p
    by (auto simp: flash_tail_def format_int_def Let_def takeWhile_format)
  have "flash_row (flash_line epc stamp port rssi) = Some (epc, stamp, format_int port, format_int rssi)"
    using assms(1,3) epc stamp tail takeWhile_decimal [of "nat port"]
    by (simp add: flash_row_def flash_line_def Let_def read_char_def read_text_def has_prefix_def port is_digit_def byte_of_def)
  moreover have "parse_int 64 (format_int port) = Some port" "parse_int 64 (format_int rssi) = Some rssi"
    using assms(5-8) by (auto intro!: parse_format_int)
  ultimately show ?thesis using assms(4) by (simp add: parse_flash_def)
qed

subsection \<open>A reader's file\<close>

definition w_flash :: flash_env where
  "w_flash = \<lparr> fl_md5 = id, fl_zone = (\<lambda>_. Some (\<lambda>t. t)) \<rparr>"

definition w_file :: string where
  "w_file = ''e2:2025-05-01_10:00:00.500,port=1,rssi=-61''"

definition w_desk :: odb where
  "w_desk = \<lparr> od_events = [''7''], od_logs = [], od_outbox = [], od_config = [] \<rparr>"

definition w_origin :: origin where
  "w_origin = \<lparr> og_instance = ''i'', og_last = 0 \<rparr>"

lemma w_stamp: "stamp_shape ''2025-05-01_10:00:00.500''" "local_millis ''2025-05-01_10:00:00.500'' = Some 1746093600500"
  by code_simp+

theorem flash_line_parses_witness:
  "parse_flash w_flash (\<lambda>t. t) ''7'' ''b'' (flash_line ''e2'' ''2025-05-01_10:00:00.500'' 1 (- 61)) =
     Inr (flash_reading w_flash ''7'' ''b'' ''E2'' 1746093600500 1 (- 61))"
proof -
  have "list_all is_hex ''e2''" "map upper_hex ''e2'' = ''E2''" by code_simp+
  then show ?thesis using flash_line_parses [OF _ _ w_stamp, of "''e2''" 1 "- 61" w_flash "\<lambda>t. t" "''7''" "''b''"] by simp
qed

lemma w_scanned: "scan_lines w_file = Inr [w_file]" "numbered_lines [w_file] = [(1, w_file)]"
proof -
  have "raw_lines w_file = [w_file]"
    by (subst raw_lines.simps, subst raw_lines.simps) (simp add: w_file_def newline_def)
  then show "scan_lines w_file = Inr [w_file]" by (simp add: scan_lines_def) (simp add: w_file_def)
  have "trim_space w_file = w_file" unfolding w_file_def by code_simp
  then show "numbered_lines [w_file] = [(1, w_file)]" by (simp add: numbered_lines_def enumerate_eq_zip) (simp add: w_file_def)
qed

lemma w_parsed: "parse_flash w_flash (\<lambda>t. t) ''7'' ''Feibot:U1'' w_file =
    Inr (flash_reading w_flash ''7'' ''Feibot:U1'' ''E2'' 1746093600500 1 (- 61))"
proof -
  have "flash_line ''e2'' ''2025-05-01_10:00:00.500'' 1 (- 61) = w_file" unfolding w_file_def by code_simp
  moreover have "flash_row w_file = Some (''e2'', ''2025-05-01_10:00:00.500'', ''1'', ''-61'')" unfolding w_file_def by code_simp
  moreover have "parse_int 64 ''1'' = Some 1" "parse_int 64 ''-61'' = Some (- 61)" "map upper_hex ''e2'' = ''E2''" by code_simp+
  ultimately show ?thesis using w_stamp by (simp add: parse_flash_def)
qed

lemma w_imported: "\<exists>g d r. import_flash w_flash 5 ''7'' ''U1'' ''UTC'' w_file w_origin w_desk = (g, Inr (d, r)) \<and>
    fi_inserted r = 1 \<and> fi_duplicates r = 0"
proof -
  let ?x = "flash_reading w_flash ''7'' ''Feibot:U1'' ''E2'' 1746093600500 1 (- 61)"
  have x: "?x \<in> set (readings_of w_flash (\<lambda>t. t) ''7'' ''Feibot:U1'' [(1, w_file)])"
    by (simp add: readings_of_def w_parsed)
  have read: "readings_of w_flash (\<lambda>t. t) ''7'' ''Feibot:U1'' [(1, w_file)] = [?x]" by (simp add: readings_of_def w_parsed)
  have inst: "\<not> blank (og_instance w_origin)"
    by (simp add: w_origin_def blank_def runes_of_def is_space_def byte_of_def split: option.splits)
  have key: "existing_keys ''7'' ''Feibot:U1'' w_desk = {}" by (simp add: existing_keys_def w_desk_def)
  obtain g d where rows: "insert_owned_rows 5 [?x] w_origin w_desk = (g, Inr d)" and len: "length (od_logs d) = 1"
    using flash_reading_source [OF x]
    by (simp add: insert_owned_row_def find_log_def w_desk_def next_sequence_def w_origin_def journal_owned_def)
  have ins: "insert_owned 5 [?x] w_origin w_desk = (g, Inr d)" using inst rows by (simp add: insert_owned_def)
  have env: "fl_zone w_flash ''UTC'' = Some (\<lambda>t. t)" by (simp add: w_flash_def)
  have none: "od_logs w_desk = []" by (simp add: w_desk_def)
  show ?thesis
    using ins len none
    by (simp add: import_flash_def env w_scanned(1) Let_def w_scanned(2) [unfolded One_nat_def] read [unfolded One_nat_def] key)
qed

lemma w_tables_ok: "sync_ok (w_origin, w_desk)"
  by (simp add: sync_ok_def outbox_ok_def logs_ok_def batches_ok_def batches_named_def batch_of_one_event_def one_unconfirmed_def
      w_origin_def w_desk_def)

theorem flash_again_witness:
  "\<exists>g d r. import_flash w_flash 9 ''7'' ''U1'' ''UTC'' w_file g d = (g, Inr (d, r)) \<and> fi_inserted r = 0 \<and> fi_duplicates r = 1"
proof -
  obtain g d r where run: "import_flash w_flash 5 ''7'' ''U1'' ''UTC'' w_file w_origin w_desk = (g, Inr (d, r))"
    and r: "fi_inserted r = 1" "fi_duplicates r = 0" using w_imported by blast
  show ?thesis using flash_again [OF run w_tables_ok rtranclp.rtrancl_refl, of 9] r
    by (intro exI [of _ g] exI [of _ d]) simp
qed

theorem flash_is_entered_witness:
  "\<exists>(d :: odb) new. od_logs d = od_logs w_desk @ new \<and> length new = 1 \<and>
    (\<forall>y \<in> set new. ob_epc y = ''E2'' \<and> ob_time y = 1746093600500 \<and> ob_event y = ''7'')"
proof -
  obtain g d r where run: "import_flash w_flash 5 ''7'' ''U1'' ''UTC'' w_file w_origin w_desk = (g, Inr (d, r))"
    and r: "fi_inserted r = 1" using w_imported by blast
  obtain zone ls new where zone: "fl_zone w_flash ''UTC'' = Some zone" and ls: "map_sum id numbered_lines (scan_lines w_file) = Inr ls"
    and new: "od_logs d = od_logs w_desk @ new" "length new = fi_inserted r"
      "\<forall>y \<in> set new. \<exists>(n, l) \<in> set ls. \<exists>x. parse_flash w_flash zone ''7'' (''Feibot:'' @ ''U1'') l = Inr x \<and> same_immutable x y"
    using flash_is_entered [OF run] by blast
  have "zone = (\<lambda>t. t)" "ls = [(1, w_file)]" using zone ls w_scanned by (simp_all add: w_flash_def)
  then have "\<forall>y \<in> set new. ob_epc y = ''E2'' \<and> ob_time y = 1746093600500 \<and> ob_event y = ''7''"
    using new(3) w_parsed by (auto simp: same_immutable_def flash_reading_def)
  then show ?thesis using new(1,2) r by (intro exI [of _ d] exI [of _ new]) simp
qed

end
