(* ===== verification/Spec2Isabelle.thy ===== *)
theory Spec2Isabelle
  imports PacketLaws NumberLaws FeedLaws DeskWitnesses InstallLaws TimingWitnesses Finishes
    FinishHubRuns ObservationWitnesses EdgeWitnesses PacketLanRuns
    LinkWitnesses FlashImport
begin

text \<open>
  Verification library of chrono-desk, the timing desk of a race event.  It is a local server written in Go: RFID
  readers deliver readings of chips, a timing engine turns them into results, judges correct what the readers missed,
  tablets hand out start packets over the local network, the public screens show finishes as they happen, and the
  event is exchanged with the organiser's site, with or without a connection.  All state of an event is one SQLite
  database; nearly every operation is a transaction on it.  Paths below are relative to \<^verbatim>\<open>src/internal\<close>.

  \<^bold>\<open>How the model reads.\<close>  A table is the list of its rows (a \<open>record\<close> per row), a database is a record of tables,
  and an operation maps the database to a new one or to an error: \<open>'a res = string + 'a\<close>, where \<open>Inl\<close> is the error
  and stands for the rollback.  Constraints of \<^verbatim>\<open>sqlite/schema.sql\<close> (keys, foreign keys, checks) are conditions of the
  inserts.  \<open>Prelude\<close> has the combinators (\<open>bind_res\<close>, \<open>fold_res\<close>, \<open>map_res\<close>, \<open>update_where\<close>), \<open>GoText\<close>
  and \<open>GoLib\<close> what is used of the standard library, \<open>Machines\<close> the locales \<open>machine\<close> and
  \<open>monotone_machine\<close>: steps that keep an invariant and grow a state in an order, interpreted for every component
  with runs.

  \<^bold>\<open>Packet issuance, the pure part\<close> (\<^verbatim>\<open>packetissuance/\<close>).
  \<^item> \<open>PacketModel\<close>, \<open>Transitions\<close>: persons, registrations, commands; \<open>apply_cmd\<close> is \<^verbatim>\<open>Apply\<close>, \<open>reverse_move\<close> is
    \<^verbatim>\<open>ReverseMove\<close>.  \<open>PacketLaws\<close>: accepted commands keep rows lawful, a correction undoes a move.
  \<^item> \<open>Json\<close>, \<open>Canonical\<close>: decoded values, three-way merge, the canonical bytes and their injectivity.
  \<^item> \<open>Contract\<close>, \<open>FeedContract\<close>: the parsers of operations, feed pages and bootstraps (\<^verbatim>\<open>validation.go\<close>);
    \<open>ContractLaws\<close>, \<open>FeedLaws\<close>: what an accepted document promises.
  \<^item> \<open>PacketMerge\<close>: the decision on a received operation and the merge of a feed change, refined by the field-by-field
    three-way merge.

  \<^bold>\<open>Packet issuance, the desk\<close> (\<^verbatim>\<open>service/packet_issuance*.go\<close>, \<^verbatim>\<open>sqlite/packet_issuance_store.go\<close>).
  \<^item> \<open>PacketTables\<close>: the tables and their row operations.  \<open>PacketJournal\<close>: journal, outgoing feed, archive.
    \<open>PacketFeed\<close>: the feed is append-only, compaction and archive included.
  \<^item> \<open>PacketReceiver\<close>: \<open>receive_one\<close> is \<^verbatim>\<open>receiveOne\<close> with every branch.  \<open>ReceiverLaws\<close>, \<open>AppliedLaws\<close>,
    \<open>RosterLaws\<close>, \<open>NumberLaws\<close>: redelivery repeats the receipt, the journal is immutable, members mirror
    registrations, start numbers stay unique.
  \<^item> \<open>PacketSite\<close>, \<open>PacketInstall\<close>, \<open>PacketRebase\<close>, \<open>PacketResolve\<close>: pages of the site, the first roster, snapshots, and
    decisions on conflicts.  \<open>SiteLaws\<close>, \<open>SiteMerge\<close>, \<open>SiteView\<close>, \<open>RebaseLaws\<close>, \<open>InstallLaws\<close>,
    \<open>ResolveLaws\<close>: the baseline refines the site, live rows and heads of the desk survive, a conflict is decided once.
  \<^item> \<open>DeskMachine\<close>: all these transactions interleaved in any order keep the promises of each.

  \<^bold>\<open>Timing\<close> (\<^verbatim>\<open>processor/\<close>, \<^verbatim>\<open>service/recount.go\<close>, \<^verbatim>\<open>snapshot_recount.go\<close>, \<^verbatim>\<open>manual.go\<close>).
  \<open>TimingTables\<close>, \<open>TimingEngine\<close>, \<open>TimingSnapshot\<close>: one reading, a whole recount, the projection path, judges'
  finishes.  \<open>TimingLaws\<close>, \<open>RecountLaws\<close>, \<open>SnapshotRecount\<close>: a recount can be repeated, on either path.
  \<open>TimingMachine\<close>: a changed finish is signalled.  \<open>Finishes\<close>: photos of a finish (\<^verbatim>\<open>merge.go\<close>) and the progress of a race.

  \<^bold>\<open>Live finishes\<close> (\<^verbatim>\<open>publicweb/finish_hub.go\<close>, \<^verbatim>\<open>finishchange/signal.go\<close>).  \<open>FinishHub\<close> is the hub as a step relation,
  every access to shared state a step, goroutines interleaving freely.  \<open>FinishHubLaws\<close>, \<open>FinishHubRuns\<close>: it comes to
  rest, and at rest every screen shows the tables.

  \<^bold>\<open>Observations\<close> (\<^verbatim>\<open>sqlite/sync_store.go\<close>, \<^verbatim>\<open>observation_import.go\<close>, \<^verbatim>\<open>service/sitesync_pull.go\<close>).  \<open>Observations\<close>,
  \<open>ObservationOutbox\<close>, \<open>ObservationPull\<close>: raw readings with their origin, batches to the site with their
  acknowledgement, and the change feed from it.  \<open>OutboxLaws\<close>, \<open>OutboxRuns\<close>, \<open>ObservationSync\<close>,
  \<open>ObservationFollow\<close>: readings are immutable, a batch is sent again unchanged, an interrupted pull resumes.

  \<^bold>\<open>Edge journal\<close> (\<^verbatim>\<open>sqlite/edge_store.go\<close>, \<^verbatim>\<open>edge_relay_store.go\<close>, \<^verbatim>\<open>service/edge_relay.go\<close>).  \<open>EdgeRelay\<close>: packets of
  readers, leases and senders.  \<open>EdgeLaws\<close>, \<open>EdgeRuns\<close>: what is acknowledged was delivered, a stale lease is refused.

  \<^bold>\<open>Tablets\<close> (\<^verbatim>\<open>sqlite/packet_lan_state.go\<close>).  \<open>PacketLan\<close>: invitations, claims, credentials, revocation.
  \<open>PacketLanLaws\<close>, \<open>PacketLanRuns\<close>: access is earned by an invitation and ends with a revocation.

  \<^bold>\<open>Desk edits\<close> (\<^verbatim>\<open>service/edits.go\<close>, \<^verbatim>\<open>categories.go\<close>, \<^verbatim>\<open>checkpoints.go\<close>).  \<open>Edits\<close>: single fields with their
  consequences and the journal, and its replay after an import.  \<open>EditLaws\<close>, \<open>EditRuns\<close>, \<open>EditRoster\<close>,
  \<open>EditProps\<close>: the journal is complete, and edits and packet issuance stay together.

  \<^bold>\<open>The site and the clubs\<close> (\<^verbatim>\<open>service/packet_issuance_site.go\<close>, \<^verbatim>\<open>packet_club_*.go\<close>, \<^verbatim>\<open>native_club_edit.go\<close>,
  \<^verbatim>\<open>sqlite/packet_club_outbox.go\<close>, \<^verbatim>\<open>packet_relay_state.go\<close>).  \<open>ClubEdits\<close>: clubs of participants, changed by tablets and
  judges, and their queue to the site.  \<open>PacketLink\<close>: enrolment, the exchange of operations and club edits, and following
  the feed, with the site as a parameter that has a state of its own.  During an exchange no other transaction of the
  desk is interleaved.  \<open>LinkLaws\<close>, \<open>LinkRuns\<close>, \<open>LinkProps\<close>, \<open>ClubProps\<close>: the desk's picture follows the
  site's pages, club edits keep their order behind the operations they need, everything arrives at a site that answers,
  and what waits is not overwritten.

  \<^bold>\<open>Reader memory\<close> (\<^verbatim>\<open>service/feibotcsv.go\<close>).  \<open>FlashImport\<close>: the lines of a reader's flash dump, entered once
  each, whether the desk has them from the network, from an earlier import or from the site.

  The theories named \<open>\<dots>Witnesses\<close> apply the properties to small concrete events.

  \<^bold>\<open>Parameters.\<close>  What is not in the repository is an argument: SHA-256 and the random generator, the clock,
  UUIDs, the external modules \<^verbatim>\<open>timing-core\<close> (record \<open>timing_core\<close>, the age of a participant, the check of a window)
  and \<^verbatim>\<open>rfid-core\<close> (record of codecs), the answers of the site and of the Hub, and the texts of the hub's loader.
  No law of timing-core is assumed, but that \<open>recount_again\<close> asks of the projection of a recounted event what it was
  before the recount.  Assumptions about parameters are hypotheses of the theorem that needs them, such as
  that no SHA-256 collision occurs among the credentials compared, or that a random token is fresh.

  \<^bold>\<open>Bounds.\<close>  Machine integers are \<open>int\<close> where the code stays within 64 bits by its own checks (JSON integers are exact
  up to \<open>2 ^ 53\<close>, sequence numbers are compared with \<open>max_safe_integer\<close>) and words where bytes are computed.  Loops
  with a limit in the code carry this limit as their fuel: 10000 pages of a pull, 4 attempts of a throttled request,
  1024 batches and 100 pages of an exchange with the site, 64 passes of a batch.  The hub's rest is a measure
  (\<open>work\<close>), not fuel.  The conversion of a float outside the 64-bit range is the one of amd64.

  \<^bold>\<open>Not modelled.\<close>  The HTTP handlers of \<^verbatim>\<open>transport/httpapi\<close>, \<^verbatim>\<open>publicweb/server.go\<close> and \<^verbatim>\<open>packetlan/server.go\<close>, which
  decode a request, call one operation and encode its answer; certificates and key files (\<^verbatim>\<open>credentials/\<close>); image files
  (\<^verbatim>\<open>photo*.go\<close>); read-only lists; schema migrations; the load generator and the application shell.  Standings
  (\<^verbatim>\<open>ranking/\<close>) only adapt types around timing-core, which computes the places.  The export and import of a whole event
  decode files of the site; of them only the replay of edits is modelled.  The size of error texts is not modelled: an
  error is a name, and a wrapped error is the error it wraps.
\<close>

end
